(* ===== verification/Wendy_Prelude.thy ===== *)
theory Wendy_Prelude
  imports
    Main
    "HOL-Library.Word"
    "HOL-Library.Product_Lexorder"
    "HOL-Library.List_Lexorder"
    "HOL-Library.Char_ord"
begin

unbundle bit_operations_syntax

section \<open>Shared vocabulary of the Wendy Net development\<close>

text \<open>
  Types, big-endian byte conversions, and Go maps.

  A Go map is a list of key/value pairs kept in ascending key order: the engine sorts the
  keys of a map before every iteration whose order can be observed, so the ascending list
  is the order the code sees. \<open>map_of\<close> reads an entry, \<open>m_put\<close> stores one,
  \<open>m_del\<close> is \<open>delete\<close>, \<open>m_adj\<close> changes values in place through the
  pointers a Go map of pointers holds. The locale \<open>go_map\<close> is the interface the
  clients use; it is interpreted on these functions at the end.
\<close>

subsection \<open>Types and hint collections\<close>

type_synonym byte = "8 word"
type_synonym bytes = "8 word list"
type_synonym u16 = "16 word"
type_synonym u32 = "32 word"
type_synonym u64 = "64 word"

named_theorems be_simps "big-endian reads of written values"
named_theorems frame_simps "fields an operation leaves alone"
named_theorems inv_intros "operations that keep a component invariant"

subsection \<open>Big-endian numbers\<close>

text \<open>
  \<open>be_val\<close> is \<open>binary.BigEndian.Uint16/32/64\<close> of a byte list and \<open>be_bytes n\<close>
  the matching \<open>Put\<close>, the last \<open>n\<close> bytes of the word, most significant first.
\<close>

definition be_val :: "bytes \<Rightarrow> 'a::len word" where
  "be_val bs = foldl (\<lambda>acc b. push_bit 8 acc OR ucast b) 0 bs"

fun be_bytes :: "nat \<Rightarrow> 'a::len word \<Rightarrow> bytes" where
  "be_bytes 0 w = []"
| "be_bytes (Suc n) w = be_bytes n (drop_bit 8 w) @ [ucast w]"

lemma be_val_Nil [simp]: "be_val [] = 0"
  by (simp add: be_val_def)

lemma be_val_snoc: "be_val (bs @ [b]) = push_bit 8 (be_val bs) OR ucast b"
  by (simp add: be_val_def)

lemma length_be_bytes [simp]: "length (be_bytes n w) = n"
  by (induction n arbitrary: w) auto

lemma be_val_be_bytes: "be_val (be_bytes n w) = take_bit (8 * n) (w :: 'a::len word)"
proof (induction n arbitrary: w)
  case 0
  then show ?case by simp
next
  case (Suc n)
  have "push_bit 8 (take_bit (8 * n) (drop_bit 8 w)) OR ucast (ucast w :: byte) =
      take_bit (8 * Suc n) w"
    by (rule bit_word_eqI) (auto simp: bit_simps)
  then show ?case by (simp only: be_bytes.simps be_val_snoc Suc.IH)
qed

lemma be_val_be_bytes_full [be_simps]:
  "LENGTH('a::len) \<le> 8 * n \<Longrightarrow> be_val (be_bytes n w) = (w :: 'a word)"
  by (simp add: be_val_be_bytes take_bit_word_eq_self)

lemma be_bytes_be_val:
  "8 * length bs \<le> LENGTH('a::len) \<Longrightarrow> be_bytes (length bs) (be_val bs :: 'a word) = bs"
proof (induction bs rule: rev_induct)
  case Nil
  then show ?case by simp
next
  case (snoc b bs)
  have low: "(ucast (push_bit 8 (be_val bs :: 'a word) OR ucast b) :: byte) = b"
    using snoc.prems by (intro bit_word_eqI) (auto simp: bit_simps)
  have small: "take_bit (8 * length bs) (be_val bs :: 'a word) = be_val bs"
    using snoc by (metis add_leD1 be_val_be_bytes length_append mult.commute add_mult_distrib)
  have high: "drop_bit 8 (push_bit 8 (be_val bs :: 'a word) OR ucast b) = be_val bs"
  proof (rule bit_word_eqI)
    fix i
    assume i: "i < LENGTH('a)"
    have "bit (be_val bs :: 'a word) i \<longleftrightarrow> i < 8 * length bs \<and> bit (be_val bs :: 'a word) i"
      by (metis bit_take_bit_iff small)
    then show "bit (drop_bit 8 (push_bit 8 (be_val bs :: 'a word) OR ucast b)) i =
        bit (be_val bs :: 'a word) i"
      using i snoc.prems by (auto simp: bit_simps dest: bit_imp_le_length)
  qed
  show ?case
    using snoc by (simp add: be_val_snoc low high del: drop_bit_or)
qed

subsection \<open>Go maps\<close>

type_synonym ('k, 'v) gomap = "('k \<times> 'v) list"

fun m_put :: "'k::linorder \<Rightarrow> 'v \<Rightarrow> ('k, 'v) gomap \<Rightarrow> ('k, 'v) gomap" where
  "m_put k v [] = [(k, v)]"
| "m_put k v ((a, b) # m) =
     (if k < a then (k, v) # (a, b) # m
      else if k = a then (k, v) # m else (a, b) # m_put k v m)"

definition m_del :: "'k \<Rightarrow> ('k, 'v) gomap \<Rightarrow> ('k, 'v) gomap" where
  "m_del k m = filter (\<lambda>e. fst e \<noteq> k) m"

definition m_adj :: "('k \<Rightarrow> 'v \<Rightarrow> 'w) \<Rightarrow> ('k, 'v) gomap \<Rightarrow> ('k, 'w) gomap" where
  "m_adj f m = map (\<lambda>(k, v). (k, f k v)) m"

definition m_keys :: "('k, 'v) gomap \<Rightarrow> 'k list" where
  "m_keys m = map fst m"

definition m_ok :: "('k::linorder, 'v) gomap \<Rightarrow> bool" where
  "m_ok m \<longleftrightarrow> sorted_wrt (<) (map fst m)"

lemma map_of_m_put [simp]: "map_of (m_put k v m) = (map_of m)(k \<mapsto> v)"
  by (induction k v m rule: m_put.induct) (auto simp: fun_eq_iff)

lemma map_of_m_del [simp]: "map_of (m_del k m) = (map_of m)(k := None)"
  by (induction m) (auto simp: m_del_def fun_eq_iff)

lemma map_of_m_adj [simp]: "map_of (m_adj f m) k = map_option (f k) (map_of m k)"
  by (induction m) (auto simp: m_adj_def)

lemma set_m_keys: "set (m_keys m) = {k. map_of m k \<noteq> None}"
  by (auto simp: m_keys_def map_of_eq_None_iff)

lemma fst_set_m_put: "fst ` set (m_put k v m) = insert k (fst ` set m)"
  by (induction k v m rule: m_put.induct) auto

lemma m_ok_Nil [simp, intro]: "m_ok []"
  by (simp add: m_ok_def)

lemma m_ok_m_put [simp, intro]: "m_ok m \<Longrightarrow> m_ok (m_put k v m)"
proof (induction k v m rule: m_put.induct)
  case (2 k v a b m)
  have keys: "fst ` set (m_put k v m) = insert k (fst ` set m)"
    by (rule fst_set_m_put)
  from 2 show ?case
    using keys by (force simp: m_ok_def image_iff)
qed (simp add: m_ok_def)

lemma m_ok_m_del [simp, intro]: "m_ok m \<Longrightarrow> m_ok (m_del k m)"
  by (induction m) (auto simp: m_ok_def m_del_def)

lemma m_ok_m_adj [simp, intro]: "m_ok (m_adj f m) = m_ok m"
  by (simp add: m_ok_def m_adj_def case_prod_beta comp_def)

lemma m_ok_distinct: "m_ok m \<Longrightarrow> distinct (m_keys m)"
  by (simp add: m_ok_def m_keys_def strict_sorted_iff)

lemma length_m_adj [simp]: "length (m_adj f m) = length m"
  by (simp add: m_adj_def)

lemma m_keys_m_adj [simp]: "m_keys (m_adj f m) = m_keys m"
  by (simp add: m_adj_def m_keys_def case_prod_beta comp_def)

subsection \<open>The map interface\<close>

text \<open>
  What a client of a Go map relies on. \<open>wf\<close> is the representation invariant: every
  operation keeps it, and under it no key is listed twice, so \<open>len\<close> is the number of
  entries.
\<close>

locale go_map =
  fixes get :: "'m \<Rightarrow> 'k \<Rightarrow> 'v option"
    and put :: "'k \<Rightarrow> 'v \<Rightarrow> 'm \<Rightarrow> 'm"
    and del :: "'k \<Rightarrow> 'm \<Rightarrow> 'm"
    and keys :: "'m \<Rightarrow> 'k list"
    and wf :: "'m \<Rightarrow> bool"
  assumes get_put: "get (put k v m) = (get m)(k \<mapsto> v)"
    and get_del: "get (del k m) = (get m)(k := None)"
    and keys_get: "set (keys m) = {k. get m k \<noteq> None}"
    and keys_distinct: "wf m \<Longrightarrow> distinct (keys m)"
    and wf_put: "wf m \<Longrightarrow> wf (put k v m)"
    and wf_del: "wf m \<Longrightarrow> wf (del k m)"
begin

lemma len_card: "wf m \<Longrightarrow> length (keys m) = card (dom (get m))"
  using keys_distinct keys_get by (metis distinct_card dom_def)

lemma finite_dom: "finite (dom (get m))"
  by (metis List.finite_set dom_def keys_get)

lemma len_put_present:
  assumes "wf m" and "get m k \<noteq> None"
  shows "length (keys (put k v m)) = length (keys m)"
proof -
  have "dom (get (put k v m)) = dom (get m)"
    using assms by (auto simp: get_put)
  then show ?thesis using assms by (simp add: len_card wf_put)
qed

lemma len_put_absent:
  assumes "wf m" and "get m k = None"
  shows "length (keys (put k v m)) = Suc (length (keys m))"
proof -
  have "dom (get (put k v m)) = insert k (dom (get m))" and "k \<notin> dom (get m)"
    using assms by (auto simp: get_put)
  then show ?thesis using assms by (simp add: len_card wf_put finite_dom)
qed

lemma len_put_le: "wf m \<Longrightarrow> length (keys (put k v m)) \<le> Suc (length (keys m))"
  by (cases "get m k") (simp_all add: len_put_present len_put_absent)

lemma len_del_le:
  assumes "wf m"
  shows "length (keys (del k m)) \<le> length (keys m)"
proof -
  have "dom (get (del k m)) \<subseteq> dom (get m)" by (auto simp: get_del)
  then show ?thesis using assms by (simp add: len_card wf_del finite_dom card_mono)
qed

end

interpretation gm: go_map map_of m_put m_del m_keys m_ok
  by unfold_locales (auto simp: set_m_keys m_ok_distinct)

lemma length_m_keys [simp]: "length (m_keys m) = length m"
  by (simp add: m_keys_def)

lemmas length_m_put_present = gm.len_put_present [unfolded length_m_keys]
  and length_m_put_absent = gm.len_put_absent [unfolded length_m_keys]
  and length_m_put_le = gm.len_put_le [unfolded length_m_keys]
  and length_m_del_le = gm.len_del_le [unfolded length_m_keys]

lemma m_ok_filter [intro]: "m_ok m \<Longrightarrow> m_ok (filter P m)"
  by (induction m) (auto simp: m_ok_def)

lemma map_of_filter_ok:
  assumes "m_ok m"
  shows "map_of (filter P m) k =
    (case map_of m k of None \<Rightarrow> None | Some v \<Rightarrow> if P (k, v) then Some v else None)"
  using assms
proof (induction m)
  case Nil
  then show ?case by simp
next
  case (Cons e m)
  have "m_ok m" using Cons.prems by (simp add: m_ok_def)
  moreover have "fst e \<notin> fst ` set m" using Cons.prems by (force simp: m_ok_def)
  ultimately show ?case
    using Cons.IH by (cases e) (auto simp: map_of_eq_None_iff [symmetric] split: option.splits)
qed

subsection \<open>Maps whose entries all satisfy a predicate\<close>

definition m_all :: "('k::linorder \<Rightarrow> 'v \<Rightarrow> bool) \<Rightarrow> ('k, 'v) gomap \<Rightarrow> bool" where
  "m_all P m \<longleftrightarrow> m_ok m \<and> (\<forall>e \<in> set m. P (fst e) (snd e))"

lemma m_all_get: "m_all P m \<Longrightarrow> map_of m k = Some v \<Longrightarrow> P k v"
  by (fastforce simp: m_all_def dest: map_of_SomeD)

lemma m_all_m_ok [simp]: "m_all P m \<Longrightarrow> m_ok m"
  by (simp add: m_all_def)

lemma m_all_Nil [simp, intro]: "m_all P []"
  by (simp add: m_all_def)

lemma set_m_put: "set (m_put k v m) \<subseteq> insert (k, v) (set m)"
  by (induction k v m rule: m_put.induct) auto

lemma m_all_put [intro]: "m_all P m \<Longrightarrow> P k v \<Longrightarrow> m_all P (m_put k v m)"
  using set_m_put [of k v m] by (fastforce simp: m_all_def)

lemma m_all_del [intro]: "m_all P m \<Longrightarrow> m_all P (m_del k m)"
  by (auto simp: m_all_def m_del_def m_ok_filter)

lemma m_all_filter [intro]: "m_all P m \<Longrightarrow> m_all P (filter Q m)"
  by (auto simp: m_all_def m_ok_filter)

lemma m_all_adj: "m_all P m \<Longrightarrow> (\<And>k v. P k v \<Longrightarrow> Q k (f k v)) \<Longrightarrow> m_all Q (m_adj f m)"
  using m_ok_m_adj [of f m] by (auto simp: m_all_def m_adj_def simp del: m_ok_m_adj)

lemma m_all_mono: "m_all P m \<Longrightarrow> (\<And>k v. P k v \<Longrightarrow> Q k v) \<Longrightarrow> m_all Q m"
  by (auto simp: m_all_def)

lemma m_all_set: "m_all P m \<Longrightarrow> (k, v) \<in> set m \<Longrightarrow> P k v"
  by (auto simp: m_all_def)

lemma map_of_in_ok: "m_ok m \<Longrightarrow> (k, v) \<in> set m \<longleftrightarrow> map_of m k = Some v"
  by (metis map_of_is_SomeI map_of_SomeD m_keys_def m_ok_distinct)

lemma fold_invariant_on:
  "I s \<Longrightarrow> (\<And>x s. x \<in> set xs \<Longrightarrow> I s \<Longrightarrow> I (f x s)) \<Longrightarrow> I (fold f xs s)"
  by (induction xs arbitrary: s) simp_all

subsection \<open>Sums over the values of a map\<close>

definition m_sum :: "('v \<Rightarrow> int) \<Rightarrow> ('k, 'v) gomap \<Rightarrow> int" where
  "m_sum f m = sum_list (map (\<lambda>e. f (snd e)) m)"

definition m_val :: "('v \<Rightarrow> int) \<Rightarrow> ('k, 'v) gomap \<Rightarrow> 'k \<Rightarrow> int" where
  "m_val f m k = (case map_of m k of None \<Rightarrow> 0 | Some v \<Rightarrow> f v)"

lemma m_sum_Nil [simp]: "m_sum f [] = 0"
  by (simp add: m_sum_def)

lemma m_sum_Cons [simp]: "m_sum f (e # m) = f (snd e) + m_sum f m"
  by (simp add: m_sum_def)

lemma m_del_absent: "map_of m k = None \<Longrightarrow> m_del k m = m"
  by (force simp: m_del_def map_of_eq_None_iff filter_id_conv)

lemma m_ok_Cons: "m_ok (e # m) \<longleftrightarrow> (\<forall>x \<in> set m. fst e < fst x) \<and> m_ok m"
  by (simp add: m_ok_def)

lemma m_ok_Cons_fresh: "m_ok (e # m) \<Longrightarrow> map_of m (fst e) = None"
  by (force simp: m_ok_Cons map_of_eq_None_iff)

lemma m_sum_del: "m_ok m \<Longrightarrow> m_sum f (m_del k m) = m_sum f m - m_val f m k"
proof (induction m)
  case Nil
  then show ?case by (simp add: m_del_def m_val_def)
next
  case (Cons e m)
  show ?case
  proof (cases "fst e = k")
    case True
    then have "m_del k (e # m) = m"
      using m_ok_Cons_fresh [OF Cons.prems] m_del_absent [of m k] by (simp add: m_del_def)
    then show ?thesis using True by (cases e) (simp add: m_val_def)
  next
    case False
    have "m_ok m" using Cons.prems by (simp add: m_ok_Cons)
    then show ?thesis using Cons.IH False by (cases e) (simp add: m_val_def m_del_def)
  qed
qed

lemma m_sum_put: "m_ok m \<Longrightarrow> m_sum f (m_put k v m) = m_sum f m - m_val f m k + f v"
proof (induction k v m rule: m_put.induct)
  case (2 k v a b m)
  have "map_of m k = None" if "k < a" using 2(2) that by (force simp: m_ok_Cons map_of_eq_None_iff)
  then show ?case using 2 by (auto simp: m_val_def m_ok_Cons split: option.split)
qed (simp add: m_val_def)

lemma m_sum_nonneg: "(\<And>e. e \<in> set m \<Longrightarrow> 0 \<le> f (snd e)) \<Longrightarrow> 0 \<le> m_sum f m"
  by (induction m) auto

lemma m_sum_le: "(\<And>e. e \<in> set m \<Longrightarrow> f (snd e) \<le> c) \<Longrightarrow> m_sum f m \<le> c * int (length m)"
proof (induction m)
  case (Cons e m)
  then have "f (snd e) \<le> c" "m_sum f m \<le> c * int (length m)" by auto
  then show ?case by (simp add: algebra_simps)
qed simp

lemma m_ok_ext:
  assumes "map_of m = map_of n" and "m_ok m" and "m_ok n"
  shows "m = n"
proof -
  have "set m = set n"
    using assms map_of_in_ok [of m] map_of_in_ok [of n] by (metis subset_antisym subsetI surj_pair)
  moreover have "inj_on fst (set m \<union> set n)"
    using assms(2,3) calculation by (simp add: m_ok_def strict_sorted_iff distinct_map)
  ultimately show ?thesis
    using assms(2,3) map_sorted_distinct_set_unique [of fst m n]
    by (simp add: m_ok_def strict_sorted_iff)
qed

lemma m_put_same: "m_ok m \<Longrightarrow> map_of m k = Some v \<Longrightarrow> m_put k v m = m"
proof (induction k v m rule: m_put.induct)
  case (2 k v a b m)
  have "a < k" if "map_of m k = Some v" using 2(2) map_of_SomeD [OF that] by (force simp: m_ok_Cons)
  then show ?case using 2 by (auto simp: m_ok_Cons)
qed simp

lemma length_m_del_less:
  assumes "map_of m k \<noteq> None"
  shows "length (m_del k m) < length m"
proof -
  obtain v where "(k, v) \<in> set m" using assms by (auto dest: map_of_SomeD)
  then show ?thesis unfolding m_del_def by (rule length_filter_less) simp
qed

lemma m_del_Nil [simp]: "m_del k [] = []"
  by (simp add: m_del_def)

end
