(* ===== verification/Netip.thy ===== *)
theory Netip
  imports Wendy_Prelude
begin

section \<open>Addresses and prefixes (Go's net/netip)\<close>

text \<open>
  The values of \<open>netip.Addr\<close> and \<open>netip.Prefix\<close> that the routing code handles, with
  the standard library's documented methods. An IPv4 address is 4 bytes, an IPv6 address
  16 bytes and a zone; \<open>NoAddr\<close> and \<open>NoPrefix\<close> are the zero values. The classification
  methods unmap an IPv4-mapped IPv6 address first, as the library has done since Go 1.22.
  The linear order is the order of \<open>Addr.Compare\<close>, then of the prefix length.
\<close>

datatype addr = NoAddr | V4 bytes | V6 bytes string

datatype prefix = NoPrefix | Pfx addr nat

subsection \<open>Addresses\<close>

fun bit_len :: "addr \<Rightarrow> nat" where
  "bit_len NoAddr = 0"
| "bit_len (V4 _) = 32"
| "bit_len (V6 _ _) = 128"

fun as_slice :: "addr \<Rightarrow> bytes" where
  "as_slice NoAddr = []"
| "as_slice (V4 b) = b"
| "as_slice (V6 b _) = b"

fun zone :: "addr \<Rightarrow> string" where
  "zone (V6 _ z) = z"
| "zone _ = ''''"

fun is4 :: "addr \<Rightarrow> bool" where
  "is4 (V4 _) = True"
| "is4 _ = False"

fun is6 :: "addr \<Rightarrow> bool" where
  "is6 (V6 _ _) = True"
| "is6 _ = False"

definition mapped4 :: bytes where
  "mapped4 = replicate 10 0 @ [255, 255]"

fun is4in6 :: "addr \<Rightarrow> bool" where
  "is4in6 (V6 b _) = (take 12 b = mapped4)"
| "is4in6 _ = False"

definition unmap :: "addr \<Rightarrow> addr" where
  "unmap a = (if is4in6 a then V4 (drop 12 (as_slice a)) else a)"

fun wf_addr :: "addr \<Rightarrow> bool" where
  "wf_addr NoAddr = True"
| "wf_addr (V4 b) = (length b = 4)"
| "wf_addr (V6 b _) = (length b = 16)"

definition is_link_local_unicast :: "addr \<Rightarrow> bool" where
  "is_link_local_unicast a =
     (case unmap a of
        NoAddr \<Rightarrow> False
      | V4 b \<Rightarrow> take 2 b = [169, 254]
      | V6 b _ \<Rightarrow> (be_val (take 2 b) :: u16) AND 0xffc0 = 0xfe80)"

definition is_multicast :: "addr \<Rightarrow> bool" where
  "is_multicast a =
     (case unmap a of
        NoAddr \<Rightarrow> False
      | V4 b \<Rightarrow> (case b of [] \<Rightarrow> False | x # _ \<Rightarrow> x AND 0xf0 = 0xe0)
      | V6 b _ \<Rightarrow> take 1 b = [0xff])"

definition is_loopback :: "addr \<Rightarrow> bool" where
  "is_loopback a =
     (case unmap a of
        NoAddr \<Rightarrow> False
      | V4 b \<Rightarrow> take 1 b = [127]
      | V6 b _ \<Rightarrow> b = replicate 15 0 @ [1])"

definition is_unspecified :: "addr \<Rightarrow> bool" where
  "is_unspecified a \<longleftrightarrow> a = V4 (replicate 4 0) \<or> a = V6 (replicate 16 0) ''''"

lemma length_as_slice: "wf_addr a \<Longrightarrow> length (as_slice a) * 8 = bit_len a"
  by (cases a) auto

subsection \<open>Prefixes\<close>

fun pfx_addr :: "prefix \<Rightarrow> addr" where
  "pfx_addr NoPrefix = NoAddr"
| "pfx_addr (Pfx a _) = a"

fun pfx_valid :: "prefix \<Rightarrow> bool" where
  "pfx_valid NoPrefix = False"
| "pfx_valid (Pfx a n) = (a \<noteq> NoAddr \<and> n \<le> bit_len a)"

fun pfx_bits :: "prefix \<Rightarrow> nat" where
  "pfx_bits NoPrefix = 0"
| "pfx_bits (Pfx _ n) = n"

fun mask_bytes :: "nat \<Rightarrow> bytes \<Rightarrow> bytes" where
  "mask_bytes n [] = []"
| "mask_bytes n (b # bs) =
     (if 8 \<le> n then b # mask_bytes (n - 8) bs
      else (b AND NOT (mask (8 - n))) # mask_bytes 0 bs)"

fun mask_addr :: "nat \<Rightarrow> addr \<Rightarrow> addr" where
  "mask_addr n NoAddr = NoAddr"
| "mask_addr n (V4 b) = V4 (mask_bytes n b)"
| "mask_addr n (V6 b z) = V6 (mask_bytes n b) ''''"

definition masked :: "prefix \<Rightarrow> prefix" where
  "masked p = (if pfx_valid p then Pfx (mask_addr (pfx_bits p) (pfx_addr p)) (pfx_bits p)
     else NoPrefix)"

definition valid_prefix :: "prefix \<Rightarrow> bool" where
  "valid_prefix p \<longleftrightarrow> pfx_valid p \<and> p = masked p \<and> \<not> is4in6 (pfx_addr p)
     \<and> zone (pfx_addr p) = ''''"

definition routable_prefix :: "prefix \<Rightarrow> bool" where
  "routable_prefix p \<longleftrightarrow> (let a = pfx_addr p in
     valid_prefix p \<and> \<not> is_link_local_unicast a \<and> \<not> is_multicast a \<and> \<not> is_loopback a
     \<and> \<not> (is_unspecified a \<and> pfx_bits p = bit_len a))"

lemma length_mask_bytes [simp]: "length (mask_bytes n bs) = length bs"
  by (induction n bs rule: mask_bytes.induct) auto

lemma mask_bytes_0: "mask_bytes 0 bs = replicate (length bs) 0"
proof (induction bs)
  case (Cons b bs)
  have "b AND NOT (mask 8) = (0 :: byte)"
    by (rule bit_word_eqI) (auto simp: bit_simps)
  with Cons show ?case by simp
qed simp

lemma mask_bytes_idem [simp]: "mask_bytes n (mask_bytes n bs) = mask_bytes n bs"
  by (induction n bs rule: mask_bytes.induct) (auto simp: mask_bytes_0 ac_simps)

lemma masked_masked [simp]: "masked (masked p) = masked p"
  by (cases p; cases "pfx_addr p") (auto simp: masked_def)

lemma pfx_valid_masked [simp]: "pfx_valid (masked p) = pfx_valid p"
  by (cases p; cases "pfx_addr p") (auto simp: masked_def)

lemma pfx_bits_masked: "pfx_valid p \<Longrightarrow> pfx_bits (masked p) = pfx_bits p"
  by (simp add: masked_def)

lemma zone_masked [simp]: "zone (pfx_addr (masked p)) = ''''"
  by (cases p; cases "pfx_addr p") (auto simp: masked_def)

lemma valid_prefix_masked: "pfx_valid p \<Longrightarrow> valid_prefix (masked p) \<longleftrightarrow> \<not> is4in6 (pfx_addr (masked p))"
  by (simp add: valid_prefix_def)

text \<open>A masked address is the bytes its prefix length covers, then zeros.\<close>

lemma mask_bytes_split:
  "n \<le> 8 * length bs \<Longrightarrow>
   mask_bytes n bs = mask_bytes n (take ((n + 7) div 8) bs) @
     replicate (length bs - (n + 7) div 8) 0"
proof (induction n bs rule: mask_bytes.induct)
  case (2 n b bs)
  show ?case
  proof (cases "8 \<le> n")
    case True
    then have "(n + 7) div 8 = Suc ((n - 8 + 7) div 8)" by auto
    with True 2 show ?thesis by auto
  next
    case False
    then consider "n = 0" | "(n + 7) div 8 = 1" by fastforce
    then show ?thesis
      using False by cases (auto simp: mask_bytes_0 [where bs = "b # bs", simplified] mask_bytes_0)
  qed
qed simp

lemma mask_bytes_cover:
  assumes "n \<le> 8 * length bs"
  shows "mask_bytes n (take ((n + 7) div 8) (mask_bytes n bs) @
      replicate (length bs - (n + 7) div 8) 0) = mask_bytes n bs"
proof -
  have len: "(n + 7) div 8 \<le> length bs" using assms by simp
  let ?k = "(n + 7) div 8"
  have "take ?k (mask_bytes n bs) = mask_bytes n (take ?k bs)"
    using mask_bytes_split [OF assms] len by simp
  then have "take ?k (mask_bytes n bs) @ replicate (length bs - ?k) 0 = mask_bytes n bs"
    using mask_bytes_split [OF assms] by simp
  then show ?thesis by simp
qed

subsection \<open>The order of Addr.Compare\<close>

definition addr_key :: "addr \<Rightarrow> nat \<times> bytes \<times> string" where
  "addr_key a = (bit_len a, as_slice a, zone a)"

definition prefix_key :: "prefix \<Rightarrow> (nat \<times> bytes \<times> string) \<times> nat" where
  "prefix_key p = (addr_key (pfx_addr p), case p of NoPrefix \<Rightarrow> 0 | Pfx _ n \<Rightarrow> Suc n)"

lemma addr_key_inject: "addr_key a = addr_key b \<longleftrightarrow> a = b"
  by (cases a; cases b) (auto simp: addr_key_def)

lemma prefix_key_inject: "prefix_key p = prefix_key q \<longleftrightarrow> p = q"
  by (cases p; cases q) (auto simp: prefix_key_def addr_key_inject)

instantiation addr :: linorder
begin

definition less_eq_addr :: "addr \<Rightarrow> addr \<Rightarrow> bool" where
  "less_eq_addr a b \<longleftrightarrow> addr_key a \<le> addr_key b"

definition less_addr :: "addr \<Rightarrow> addr \<Rightarrow> bool" where
  "less_addr a b \<longleftrightarrow> addr_key a < addr_key b"

instance
  by standard (auto simp: less_eq_addr_def less_addr_def addr_key_inject [symmetric])

end

instantiation prefix :: linorder
begin

definition less_eq_prefix :: "prefix \<Rightarrow> prefix \<Rightarrow> bool" where
  "less_eq_prefix a b \<longleftrightarrow> prefix_key a \<le> prefix_key b"

definition less_prefix :: "prefix \<Rightarrow> prefix \<Rightarrow> bool" where
  "less_prefix a b \<longleftrightarrow> prefix_key a < prefix_key b"

instance
  by standard (auto simp: less_eq_prefix_def less_prefix_def prefix_key_inject [symmetric])

end

end
