(* ===== verification/Babel_Wire.thy ===== *)
theory Babel_Wire
  imports Netip
begin

section \<open>The Babel packet codec (go/babel/internal/wire/wire.go)\<close>

text \<open>
  RFC 8966 packets with the RFC 9229 address encoding 4. \<open>message\<close> is the struct of the
  same name; \<open>dctx\<close> is the packet-local parser state of \<open>Decode\<close> (current router ID, the
  previous prefix of each address encoding, the IPv4 and IPv6 next hops). \<open>parse_tlv\<close> is
  the body of the decoder's switch for one TLV: it returns the new parser state and, unless
  the code executes \<open>continue\<close>, the message with the number of bytes it consumed.
\<close>

definition infinity :: u16 where
  "infinity = 65535"

abbreviation (input) T_ACK_REQUEST :: byte where "T_ACK_REQUEST \<equiv> 2"
abbreviation (input) T_ACK :: byte where "T_ACK \<equiv> 3"
abbreviation (input) T_HELLO :: byte where "T_HELLO \<equiv> 4"
abbreviation (input) T_IHU :: byte where "T_IHU \<equiv> 5"
abbreviation (input) T_ROUTER :: byte where "T_ROUTER \<equiv> 6"
abbreviation (input) T_NEXT_HOP :: byte where "T_NEXT_HOP \<equiv> 7"
abbreviation (input) T_UPDATE :: byte where "T_UPDATE \<equiv> 8"
abbreviation (input) T_REQUEST :: byte where "T_REQUEST \<equiv> 9"
abbreviation (input) T_SEQ_REQUEST :: byte where "T_SEQ_REQUEST \<equiv> 10"

record message =
  m_type :: byte
  m_unicast :: bool
  m_wildcard :: bool
  m_v4via6 :: bool
  m_seqno :: u16
  m_metric :: u16
  m_interval :: u16
  m_opaque :: u16
  m_hopcount :: byte
  m_router_id :: u64
  m_prefix :: prefix
  m_address :: addr

definition zero_msg :: "byte \<Rightarrow> message" where
  "zero_msg t = \<lparr>m_type = t, m_unicast = False, m_wildcard = False, m_v4via6 = False,
     m_seqno = 0, m_metric = 0, m_interval = 0, m_opaque = 0, m_hopcount = 0,
     m_router_id = 0, m_prefix = NoPrefix, m_address = NoAddr\<rparr>"

lemma zero_msg_simps [simp]:
  "m_type (zero_msg t) = t" "\<not> m_unicast (zero_msg t)" "\<not> m_wildcard (zero_msg t)"
  "\<not> m_v4via6 (zero_msg t)" "m_seqno (zero_msg t) = 0" "m_metric (zero_msg t) = 0"
  "m_interval (zero_msg t) = 0" "m_opaque (zero_msg t) = 0" "m_hopcount (zero_msg t) = 0"
  "m_router_id (zero_msg t) = 0" "m_prefix (zero_msg t) = NoPrefix"
  "m_address (zero_msg t) = NoAddr"
  by (simp_all add: zero_msg_def)

definition valid_id :: "u64 \<Rightarrow> bool" where
  "valid_id r \<longleftrightarrow> r \<noteq> 0 \<and> r \<noteq> - 1"

definition u16_at :: "bytes \<Rightarrow> nat \<Rightarrow> u16" where
  "u16_at p i = be_val (take 2 (drop i p))"

definition u64_at :: "bytes \<Rightarrow> nat \<Rightarrow> u64" where
  "u64_at p i = be_val (take 8 (drop i p))"

definition overlay :: "nat \<Rightarrow> 'a list \<Rightarrow> 'a list \<Rightarrow> 'a list" where
  \<comment> \<open>Go's \<open>copy(ys[i:], xs)\<close> when \<open>xs\<close> fits\<close>
  "overlay i xs ys = take i ys @ xs @ drop (i + length xs) ys"

subsection \<open>Decoding\<close>

fun sub_tlvs :: "bytes \<Rightarrow> bool" where
  "sub_tlvs [] = True"
| "sub_tlvs (t # p) =
     (if t = 0 then sub_tlvs p
      else case p of
        [] \<Rightarrow> False
      | l # r \<Rightarrow>
          if length r < unat l then False
          else if t AND 128 \<noteq> 0 then False
          else sub_tlvs (drop (unat l) r))"

definition wire_address :: "byte \<Rightarrow> bytes \<Rightarrow> (addr \<times> nat) option" where
  "wire_address ae p =
     (if ae = 0 then Some (NoAddr, 0)
      else if ae = 1 \<and> 4 \<le> length p then Some (V4 (take 4 p), 4)
      else if ae = 2 \<and> 16 \<le> length p then Some (V6 (take 16 p) '''', 16)
      else if ae = 3 \<and> 8 \<le> length p
        then Some (V6 ([0xfe, 0x80] @ replicate 6 0 @ take 8 p) '''', 8)
      else None)"

definition wire_prefix :: "byte \<Rightarrow> nat \<Rightarrow> nat \<Rightarrow> bytes \<Rightarrow> prefix \<Rightarrow> (prefix \<times> nat) option" where
  "wire_prefix ae bits omitted p prev =
     (let mx = (if ae = 1 \<or> ae = 4 then 32 else 128) in
      if ae < 1 \<or> 4 < ae \<or> mx < bits then None
      else if ae = 3 \<and> (omitted \<noteq> 0 \<or> bits < 64) then None
      else
        (let start = (if ae = 3 then 8 else 0);
             base = (if ae = 3 then [0xfe, 0x80] @ replicate 14 0 else replicate 16 0);
             covered = (bits + 7) div 8
         in
         if covered < start + omitted \<or> length p < covered - start - omitted then None
         else if 0 < omitted \<and> \<not> pfx_valid prev then None
         else
           (let n = covered - start - omitted;
                a = (if 0 < omitted then overlay 0 (as_slice (pfx_addr prev)) base else base);
                a = overlay (start + omitted) (take n p) a;
                ad = (if mx = 32 then V4 (take 4 a) else V6 a '''')
            in Some (masked (Pfx ad bits), n))))"

record dctx =
  d_rid :: u64
  d_prev :: "prefix list"
  d_hop4 :: addr
  d_hop6 :: addr

definition parse_hello :: "byte \<Rightarrow> bytes \<Rightarrow> (message \<times> nat) option" where
  "parse_hello t p =
     (if length p < 6 then None
      else let m = (zero_msg t)\<lparr>m_seqno := u16_at p 2, m_opaque := u16_at p 2,
                     m_interval := u16_at p 4, m_unicast := p ! 0 AND 128 \<noteq> 0\<rparr>
           in if t = T_ACK_REQUEST \<and> m_interval m = 0 then None else Some (m, 6))"

definition parse_ack :: "byte \<Rightarrow> bytes \<Rightarrow> (message \<times> nat) option" where
  "parse_ack t p = (if length p < 2 then None
     else Some ((zero_msg t)\<lparr>m_opaque := u16_at p 0\<rparr>, 2))"

definition parse_next_hop :: "dctx \<Rightarrow> byte \<Rightarrow> bytes \<Rightarrow> dctx \<times> (message \<times> nat) option" where
  "parse_next_hop c t p =
     (let base = (if t = T_IHU then 6 else 2) in
      if length p < base then (c, None)
      else case wire_address (p ! 0) (drop base p) of
        None \<Rightarrow> (c, None)
      | Some (a, sz) \<Rightarrow>
          if t = T_NEXT_HOP \<and> p ! 0 = 0 then (c, None)
          else
            (let m = (zero_msg t)\<lparr>m_address := a\<rparr> in
             if t = T_NEXT_HOP
             then ((if is4 a then c\<lparr>d_hop4 := a\<rparr> else c\<lparr>d_hop6 := a\<rparr>), Some (m, base + sz))
             else
               (let m = m\<lparr>m_metric := u16_at p 2, m_interval := u16_at p 4\<rparr> in
                if m_interval m = 0 then (c, None) else (c, Some (m, base + sz)))))"

definition parse_router :: "dctx \<Rightarrow> byte \<Rightarrow> bytes \<Rightarrow> dctx \<times> (message \<times> nat) option" where
  "parse_router c t p =
     (if length p < 10 then (c, None)
      else (c\<lparr>d_rid := u64_at p 2\<rparr>, Some ((zero_msg t)\<lparr>m_router_id := u64_at p 2\<rparr>, 10)))"

definition rid_of_prefix :: "prefix \<Rightarrow> u64" where
  "rid_of_prefix q =
     (if is4 (pfx_addr q) then ucast (be_val (as_slice (pfx_addr q)) :: u32)
      else be_val (drop 8 (as_slice (pfx_addr q))))"

definition parse_update :: "dctx \<Rightarrow> byte \<Rightarrow> bytes \<Rightarrow> dctx \<times> (message \<times> nat) option" where
  "parse_update c t p =
     (if length p < 10 then (c, None)
      else
        (let ae = p ! 0; flags = p ! 1; plen = unat (p ! 2); omitted = unat (p ! 3);
             m = (zero_msg t)\<lparr>m_interval := u16_at p 4, m_seqno := u16_at p 6,
                   m_metric := u16_at p 8, m_v4via6 := (ae = 4)\<rparr>
         in
         if ae = 0 then
           (if plen \<noteq> 0 \<or> omitted \<noteq> 0 \<or> m_metric m \<noteq> infinity then (c, None)
            else if m_interval m = 0 then (c, None)
            else (c, Some (m\<lparr>m_wildcard := True\<rparr>, 10)))
         else if 4 < ae then (c, None)
         else case wire_prefix ae plen omitted (drop 10 p) (d_prev c ! unat ae) of
           None \<Rightarrow> (c, None)
         | Some (q, sz) \<Rightarrow>
             (let c = (if flags AND 128 \<noteq> 0 \<and> ae \<noteq> 3
                       then c\<lparr>d_prev := (d_prev c)[unat ae := q]\<rparr> else c);
                  c = (if flags AND 64 \<noteq> 0 then c\<lparr>d_rid := rid_of_prefix q\<rparr> else c);
                  m = m\<lparr>m_prefix := q, m_router_id := d_rid c,
                        m_address := (if ae = 1 then d_hop4 c else d_hop6 c)\<rparr>
              in
              if m_metric m \<noteq> infinity \<and> (\<not> valid_id (d_rid c) \<or> m_address m = NoAddr)
              then (c, None)
              else if m_interval m = 0 then (c, None)
              else (c, Some (m, 10 + sz)))))"

definition parse_request :: "byte \<Rightarrow> bytes \<Rightarrow> (message \<times> nat) option" where
  "parse_request t p =
     (let base = (if t = T_SEQ_REQUEST then 14 else 2) in
      if length p < base then None
      else
        (let ae = p ! 0;
             r = (if ae = 0 then
                    (if t \<noteq> T_REQUEST \<or> p ! 1 \<noteq> 0 then None
                     else Some ((zero_msg t)\<lparr>m_wildcard := True\<rparr>, base))
                  else case wire_prefix ae (unat (p ! 1)) 0 (drop base p) NoPrefix of
                    None \<Rightarrow> None
                  | Some (q, sz) \<Rightarrow> Some ((zero_msg t)\<lparr>m_prefix := q\<rparr>, base + sz))
         in case r of
           None \<Rightarrow> None
         | Some (m, n) \<Rightarrow>
             if t = T_SEQ_REQUEST then
               (let m = m\<lparr>m_seqno := u16_at p 2, m_hopcount := p ! 4, m_router_id := u64_at p 6\<rparr>
                in if m_hopcount m = 0 \<or> \<not> valid_id (m_router_id m) then None else Some (m, n))
             else Some (m, n)))"

definition parse_tlv :: "dctx \<Rightarrow> byte \<Rightarrow> bytes \<Rightarrow> dctx \<times> (message \<times> nat) option" where
  "parse_tlv c t p =
     (if t = T_ACK_REQUEST \<or> t = T_HELLO then (c, parse_hello t p)
      else if t = T_ACK then (c, parse_ack t p)
      else if t = T_IHU \<or> t = T_NEXT_HOP then parse_next_hop c t p
      else if t = T_ROUTER then parse_router c t p
      else if t = T_UPDATE then parse_update c t p
      else if t = T_REQUEST \<or> t = T_SEQ_REQUEST then (c, parse_request t p)
      else (c, None))"

function decode_body :: "dctx \<Rightarrow> bytes \<Rightarrow> message list option" where
  "decode_body c [] = Some []"
| "decode_body c (t # body) =
     (if t = 0 then decode_body c body
      else case body of
        [] \<Rightarrow> None
      | l # r \<Rightarrow>
          if length r < unat l then None
          else
            (let p = take (unat l) r; rest = drop (unat l) r; (c', res) = parse_tlv c t p
             in case res of
               None \<Rightarrow> decode_body c' rest
             | Some (m, n) \<Rightarrow>
                 if \<not> sub_tlvs (drop n p) then decode_body c' rest
                 else if t \<noteq> T_ROUTER \<and> t \<noteq> T_NEXT_HOP
                   then map_option (Cons m) (decode_body c' rest)
                 else decode_body c' rest))"
  by pat_completeness auto
termination
  by (relation "measure (\<lambda>(c, b). length b)") auto

declare decode_body.simps(2) [simp del]

definition init_dctx :: "addr \<Rightarrow> dctx" where
  "init_dctx source = \<lparr>d_rid = 0, d_prev = replicate 5 NoPrefix,
     d_hop4 = (if is4 source then source else NoAddr),
     d_hop6 = (if is6 source then source else NoAddr)\<rparr>"

definition decode :: "bytes \<Rightarrow> addr \<Rightarrow> message list option" where
  "decode packet source =
     (if length packet < 4 \<or> packet ! 0 \<noteq> 42 \<or> packet ! 1 \<noteq> 2
         \<or> length packet - 4 < unat (u16_at packet 2) then None
      else decode_body (init_dctx source) (take (unat (u16_at packet 2)) (drop 4 packet)))"

subsection \<open>Encoding\<close>

definition tlv :: "byte \<Rightarrow> bytes \<Rightarrow> bytes" where
  "tlv t p = [t, word_of_nat (length p)] @ p"

definition encode_address :: "addr \<Rightarrow> byte \<times> bytes" where
  "encode_address a =
     (if is4 a then (1, as_slice a)
      else if is_link_local_unicast a \<and> take 6 (drop 2 (as_slice a)) = replicate 6 0
        then (3, drop 8 (as_slice a))
      else (2, as_slice a))"

definition encode_prefix :: "prefix \<Rightarrow> byte \<times> bytes \<times> byte" where
  "encode_prefix p =
     ((if is4 (pfx_addr p) then 1 else 2),
      take ((pfx_bits p + 7) div 8) (as_slice (pfx_addr (masked p))),
      word_of_nat (pfx_bits p))"

definition encode :: "message \<Rightarrow> bytes" where
  "encode m =
     (let t = m_type m in
      if t = T_HELLO \<or> t = T_ACK_REQUEST then
        tlv t ([if t = T_HELLO \<and> m_unicast m then 128 else 0, 0]
          @ be_bytes 2 (if t = T_ACK_REQUEST then m_opaque m else m_seqno m)
          @ be_bytes 2 (m_interval m))
      else if t = T_ACK then tlv t (be_bytes 2 (m_opaque m))
      else if t = T_IHU then
        (let (ae, a) = (if m_address m \<noteq> NoAddr then encode_address (m_address m) else (0, []))
         in tlv t ([ae, 0] @ be_bytes 2 (m_metric m) @ be_bytes 2 (m_interval m) @ a))
      else if t = T_UPDATE then
        (let (ae, a, bits) = (if m_wildcard m then (0, [], 0)
               else let (ae, a, bits) = encode_prefix (m_prefix m)
                    in (if ae = 1 \<and> m_v4via6 m then 4 else ae, a, bits));
             p = [ae, 0, bits, 0] @ be_bytes 2 (m_interval m) @ be_bytes 2 (m_seqno m)
                 @ be_bytes 2 (m_metric m) @ a;
             before = (if m_metric m \<noteq> infinity then
               tlv T_ROUTER ([0, 0] @ be_bytes 8 (m_router_id m))
               @ (if m_address m \<noteq> NoAddr then
                    (let (ae, a) = encode_address (m_address m) in tlv T_NEXT_HOP ([ae, 0] @ a))
                  else [])
               else [])
         in before @ tlv t p)
      else if t = T_REQUEST \<or> t = T_SEQ_REQUEST then
        (let (ae, a, bits) = (if m_wildcard m then (0, [], 0) else encode_prefix (m_prefix m));
             body = (if t = T_SEQ_REQUEST
               then be_bytes 2 (m_seqno m) @ [m_hopcount m, 0] @ be_bytes 8 (m_router_id m)
               else [])
         in tlv t ([ae, bits] @ body @ a))
      else tlv t [])"

definition packet_header :: bytes where
  "packet_header = [42, 2, 0, 0]"

definition pack_flush :: "bytes list \<times> bytes \<Rightarrow> bytes list \<times> bytes" where
  "pack_flush s =
     (let (packets, packet) = s in
      if 4 < length packet
      then (packets @ [overlay 2 (be_bytes 2 (word_of_nat (length packet - 4) :: u16)) packet],
            packet_header)
      else (packets, packet))"

definition pack_step :: "nat \<Rightarrow> message \<Rightarrow> bytes list \<times> bytes \<Rightarrow> bytes list \<times> bytes" where
  "pack_step mx m s =
     (let b = encode m;
          (packets, packet) = (if mx < length (snd s) + length b then pack_flush s else s)
      in (packets, packet @ b))"

definition pack :: "message list \<Rightarrow> nat \<Rightarrow> bytes list" where
  "pack ms mx = fst (pack_flush (fold (pack_step mx) ms ([], packet_header)))"

end
