(* ===== verification/Babel_Codec.thy ===== *)
theory Babel_Codec
  imports Babel_Wire
begin

section \<open>What the Babel packet codec guarantees\<close>

text \<open>
  \<open>wire_ok\<close> is what a message must satisfy to be sent, \<open>canon\<close> what a receiver reads of
  it: the fields its TLV carries, and for a finite update the next hop (the explicit one,
  else the packet's source). \<open>norm\<close> drops the router ID and next hop of a retraction, which
  the decoder copies from its parser state and no client reads. The lemmas go TLV by TLV,
  then over a packet body, then over the packets that \<open>pack\<close> splits a list into.
\<close>

definition pfx_ok :: "prefix \<Rightarrow> bool" where
  "pfx_ok p \<longleftrightarrow> pfx_valid p \<and> masked p = p \<and> wf_addr (pfx_addr p)"

definition addr_encodable :: "addr \<Rightarrow> bool" where
  "addr_encodable a =
     (case a of
        NoAddr \<Rightarrow> False
      | V4 b \<Rightarrow> length b = 4
      | V6 b z \<Rightarrow> length b = 16 \<and> z = '''' \<and>
          (is_link_local_unicast a \<and> take 6 (drop 2 b) = replicate 6 0
             \<longrightarrow> take 2 b = [0xfe, 0x80]))"

definition wire_ok :: "message \<Rightarrow> bool" where
  "wire_ok m =
     (let t = m_type m in
      if t = T_HELLO \<or> t = T_ACK then True
      else if t = T_ACK_REQUEST then m_interval m \<noteq> 0
      else if t = T_IHU then
        m_interval m \<noteq> 0 \<and> (m_address m = NoAddr \<or> addr_encodable (m_address m))
      else if t = T_UPDATE then
        m_interval m \<noteq> 0 \<and>
        (if m_wildcard m then m_metric m = infinity
         else pfx_ok (m_prefix m) \<and> (m_v4via6 m \<longrightarrow> is4 (pfx_addr (m_prefix m))) \<and>
           (m_metric m \<noteq> infinity \<longrightarrow> valid_id (m_router_id m) \<and>
             (if is4 (pfx_addr (m_prefix m)) \<and> \<not> m_v4via6 m
              then is4 (m_address m) \<and> wf_addr (m_address m) else m_address m = NoAddr)))
      else if t = T_REQUEST then m_wildcard m \<or> pfx_ok (m_prefix m)
      else if t = T_SEQ_REQUEST then
        \<not> m_wildcard m \<and> pfx_ok (m_prefix m) \<and> m_hopcount m \<noteq> 0 \<and> valid_id (m_router_id m)
      else False)"

definition canon :: "addr \<Rightarrow> message \<Rightarrow> message" where
  "canon src m =
     (let t = m_type m; z = zero_msg t in
      if t = T_HELLO then z\<lparr>m_unicast := m_unicast m, m_seqno := m_seqno m,
        m_opaque := m_seqno m, m_interval := m_interval m\<rparr>
      else if t = T_ACK_REQUEST then z\<lparr>m_seqno := m_opaque m, m_opaque := m_opaque m,
        m_interval := m_interval m\<rparr>
      else if t = T_ACK then z\<lparr>m_opaque := m_opaque m\<rparr>
      else if t = T_IHU then z\<lparr>m_address := m_address m, m_metric := m_metric m,
        m_interval := m_interval m\<rparr>
      else if t = T_UPDATE then
        (let u = z\<lparr>m_interval := m_interval m, m_seqno := m_seqno m, m_metric := m_metric m\<rparr>
         in if m_wildcard m then u\<lparr>m_wildcard := True\<rparr>
            else if m_metric m = infinity
              then u\<lparr>m_prefix := m_prefix m, m_v4via6 := m_v4via6 m\<rparr>
            else u\<lparr>m_prefix := m_prefix m, m_v4via6 := m_v4via6 m,
              m_router_id := m_router_id m,
              m_address := (if m_address m = NoAddr then src else m_address m)\<rparr>)
      else if m_wildcard m then z\<lparr>m_wildcard := True\<rparr>
      else if t = T_REQUEST then z\<lparr>m_prefix := m_prefix m\<rparr>
      else z\<lparr>m_prefix := m_prefix m, m_seqno := m_seqno m, m_hopcount := m_hopcount m,
        m_router_id := m_router_id m\<rparr>)"

definition norm :: "message \<Rightarrow> message" where
  "norm m = (if m_type m = T_UPDATE \<and> m_metric m = infinity
     then m\<lparr>m_router_id := 0, m_address := NoAddr\<rparr> else m)"

subsection \<open>Fields of an encoded TLV\<close>

lemma be_bytes_2: "be_bytes 2 w = [ucast (drop_bit 8 w), ucast w]"
  by (simp add: eval_nat_numeral)

lemma be_val_2 [simp]: "be_val [ucast (drop_bit 8 w), ucast w] = (w :: u16)"
  using be_val_be_bytes_full [of 2 w] by (simp add: be_bytes_2)

lemma be_val_8 [simp]: "be_val (be_bytes 8 w) = (w :: u64)"
  by (rule be_val_be_bytes_full) simp

lemma decode_body_tlv:
  assumes "t \<noteq> 0" and "length p < 256"
  shows "decode_body c (tlv t p @ rest) =
    (case parse_tlv c t p of (c', res) \<Rightarrow>
       (case res of
          None \<Rightarrow> decode_body c' rest
        | Some (m, n) \<Rightarrow>
            if \<not> sub_tlvs (drop n p) then decode_body c' rest
            else if t \<noteq> T_ROUTER \<and> t \<noteq> T_NEXT_HOP
              then map_option (Cons m) (decode_body c' rest)
            else decode_body c' rest))"
proof -
  have len: "unat (word_of_nat (length p) :: byte) = length p"
    using assms(2) by (simp add: unat_of_nat)
  show ?thesis
    using assms(1) by (simp add: tlv_def decode_body.simps(2) len Let_def del: word_of_nat_eq_0_iff)
qed

lemma wire_prefix_encode:
  assumes "pfx_ok p" and "encode_prefix p = (ae, a, bits)"
    and "ae' = ae \<or> ae = 1 \<and> ae' = 4"
  shows "wire_prefix ae' (unat bits) 0 a prev = Some (p, length a)"
    and "unat bits = pfx_bits p" and "length a \<le> 16"
    and "ae' \<noteq> 0" and "ae' \<le> 4" and "ae' \<noteq> 3"
proof -
  obtain ad n where p: "p = Pfx ad n" using assms(1) by (cases p) (auto simp: pfx_ok_def)
  have n: "n \<le> bit_len ad" "ad \<noteq> NoAddr" "wf_addr ad" "mask_addr n ad = ad"
    using assms(1) by (auto simp: p pfx_ok_def masked_def split: if_splits)
  have bits: "unat bits = n"
    using assms(2) n by (cases ad) (auto simp: p encode_prefix_def unat_of_nat)
  have a: "a = take ((n + 7) div 8) (as_slice ad)"
    using assms(1,2) by (auto simp: p encode_prefix_def pfx_ok_def)
  have "wire_prefix ae' n 0 a prev = Some (p, length a)"
  proof (cases ad)
    case (V4 b)
    then have b: "length b = 4" "mask_bytes n b = b" "n \<le> 32" using n by auto
    have "overlay 0 (take ((n + 7) div 8) b) (replicate 16 0) =
        take ((n + 7) div 8) b @ replicate (4 - (n + 7) div 8) 0 @ replicate 12 0"
      using b by (simp add: overlay_def replicate_add [symmetric])
    then have "take 4 (overlay 0 (take ((n + 7) div 8) b) (replicate 16 0)) =
        take ((n + 7) div 8) b @ replicate (4 - (n + 7) div 8) 0"
      using b by simp
    moreover have "mask_bytes n (take ((n + 7) div 8) b @ replicate (4 - (n + 7) div 8) 0) = b"
      using mask_bytes_cover [of n b] b by simp
    moreover have "ae' = 1 \<or> ae' = 4"
      using assms(2,3) V4 by (auto simp: p encode_prefix_def)
    ultimately show ?thesis
      using b a V4 by (auto simp: p wire_prefix_def Let_def masked_def)
  next
    case (V6 b z)
    then have b: "length b = 16" "mask_bytes n b = b" "n \<le> 128" "z = ''''" using n by auto
    have "overlay 0 (take ((n + 7) div 8) b) (replicate 16 0) =
        take ((n + 7) div 8) b @ replicate (16 - (n + 7) div 8) 0"
      using b by (simp add: overlay_def)
    moreover have "mask_bytes n (take ((n + 7) div 8) b @ replicate (16 - (n + 7) div 8) 0) = b"
      using mask_bytes_cover [of n b] b by simp
    moreover have "ae' = 2"
      using assms(2,3) V6 by (auto simp: p encode_prefix_def)
    ultimately show ?thesis
      using b a V6 by (auto simp: p wire_prefix_def Let_def masked_def)
  qed (use n in simp)
  then show "wire_prefix ae' (unat bits) 0 a prev = Some (p, length a)" by (simp add: bits)
  show "unat bits = pfx_bits p" by (simp add: bits p)
  show "length a \<le> 16" using n by (cases ad) (auto simp: a)
  show "ae' \<noteq> 0" "ae' \<le> 4" "ae' \<noteq> 3"
    using assms(2,3) by (auto simp: encode_prefix_def split: if_splits)
qed

lemma wire_address_encode:
  assumes "addr_encodable a" and "encode_address a = (ae, s)"
  shows "wire_address ae s = Some (a, length s)" and "length s \<le> 16" and "ae \<noteq> 0"
proof -
  have "wire_address ae s = Some (a, length s) \<and> length s \<le> 16 \<and> ae \<noteq> 0"
  proof (cases a)
    case NoAddr
    then show ?thesis using assms by (simp add: addr_encodable_def)
  next
    case (V4 b)
    then show ?thesis
      using assms by (auto simp: addr_encodable_def encode_address_def wire_address_def)
  next
    case (V6 b z)
    have b: "length b = 16" "z = ''''" using assms V6 by (auto simp: addr_encodable_def)
    show ?thesis
    proof (cases "is_link_local_unicast a \<and> take 6 (drop 2 b) = replicate 6 0")
      case True
      then have "take 2 b = [0xfe, 0x80]" and "take 6 (drop 2 b) = replicate 6 0"
        using assms(1) V6 by (auto simp: addr_encodable_def)
      moreover have "b = take 2 b @ take 6 (drop 2 b) @ drop 6 (drop 2 b)"
        by (simp only: append_take_drop_id)
      ultimately have "b = [0xfe, 0x80] @ replicate 6 0 @ drop 8 b" by simp
      then show ?thesis
        using assms(2) b True V6 by (auto simp: encode_address_def wire_address_def)
    next
      case False
      then show ?thesis
        using assms(2) b V6 by (auto simp: encode_address_def wire_address_def)
    qed
  qed
  then show "wire_address ae s = Some (a, length s)" "length s \<le> 16" "ae \<noteq> 0" by auto
qed

subsection \<open>One message\<close>

text \<open>
  The parser state between the messages of a packet this encoder wrote: the IPv6 next hop
  is still the packet's source, because only IPv4 next hops are written.
\<close>

definition ctx_ok :: "addr \<Rightarrow> dctx \<Rightarrow> bool" where
  "ctx_ok src c \<longleftrightarrow> d_hop6 c = src"

definition reads_as :: "addr \<Rightarrow> dctx \<Rightarrow> message \<Rightarrow> bool" where
  "reads_as src c m \<longleftrightarrow> (\<exists>c' m'. ctx_ok src c' \<and> norm m' = canon src m \<and>
     (\<forall>rest. decode_body c (encode m @ rest) = map_option (Cons m') (decode_body c' rest)))"

lemma reads_asI:
  assumes "encode m = tlv (m_type m) p" and "m_type m \<noteq> 0" and "length p < 256"
    and "m_type m \<noteq> T_ROUTER" and "m_type m \<noteq> T_NEXT_HOP"
    and "parse_tlv c (m_type m) p = (c', Some (m', length p))"
    and "ctx_ok src c'" and "norm m' = canon src m"
  shows "reads_as src c m"
  using assms by (auto simp: reads_as_def decode_body_tlv)

lemma u16_at_0 [simp]: "u16_at (a # b # r) 0 = be_val [a, b]"
  by (simp add: u16_at_def)

lemma u16_at_Cons [simp]: "u16_at (a # r) (numeral n) = u16_at r (numeral n - 1)"
  by (simp add: u16_at_def)

lemma u16_at_Suc [simp]: "u16_at (a # r) (Suc n) = u16_at r n"
  by (simp add: u16_at_def)

lemma reads_hello:
  assumes "m_type m = T_HELLO \<or> m_type m = T_ACK_REQUEST" "wire_ok m" "ctx_ok src c"
  shows "reads_as src c m"
  using assms(1)
proof
  assume t: "m_type m = T_HELLO"
  show ?thesis
    by (rule reads_asI [where c' = c])
      (use t assms in \<open>auto simp: encode_def parse_tlv_def parse_hello_def be_bytes_2 canon_def
        norm_def\<close>)
next
  assume t: "m_type m = T_ACK_REQUEST"
  show ?thesis
    by (rule reads_asI [where c' = c])
      (use t assms in \<open>auto simp: encode_def parse_tlv_def parse_hello_def be_bytes_2 canon_def
        norm_def wire_ok_def\<close>)
qed

lemma reads_ack:
  assumes "m_type m = T_ACK" "ctx_ok src c"
  shows "reads_as src c m"
  by (rule reads_asI [where c' = c])
    (use assms in \<open>auto simp: encode_def parse_tlv_def parse_ack_def be_bytes_2 canon_def
      norm_def\<close>)

lemma reads_ihu:
  assumes t: "m_type m = T_IHU" and ok: "wire_ok m" and c: "ctx_ok src c"
  shows "reads_as src c m"
proof (cases "m_address m = NoAddr")
  case True
  show ?thesis
    by (rule reads_asI [where c' = c])
      (use t ok c True in \<open>auto simp: encode_def parse_tlv_def parse_next_hop_def be_bytes_2
        canon_def norm_def wire_ok_def wire_address_def\<close>)
next
  case False
  obtain ae s where e: "encode_address (m_address m) = (ae, s)" by (metis surj_pair)
  have enc: "addr_encodable (m_address m)" using ok t False by (simp add: wire_ok_def Let_def)
  note a = wire_address_encode [OF enc e]
  show ?thesis
    by (rule reads_asI [where c' = c])
      (use t ok c False a e in \<open>auto simp: encode_def parse_tlv_def parse_next_hop_def be_bytes_2
        canon_def norm_def wire_ok_def\<close>)
qed

lemma reads_request:
  assumes t: "m_type m = T_REQUEST" and ok: "wire_ok m" and c: "ctx_ok src c"
  shows "reads_as src c m"
proof (cases "m_wildcard m")
  case True
  show ?thesis
    by (rule reads_asI [where c' = c])
      (use t c True in \<open>auto simp: encode_def parse_tlv_def parse_request_def canon_def norm_def\<close>)
next
  case False
  obtain ae s bits where e: "encode_prefix (m_prefix m) = (ae, s, bits)" by (metis surj_pair)
  have p: "pfx_ok (m_prefix m)" using ok t False by (simp add: wire_ok_def Let_def)
  note a = wire_prefix_encode [OF p e disjI1 [OF refl]]
  show ?thesis
    by (rule reads_asI [where c' = c])
      (use t c False a e in \<open>auto simp: encode_def parse_tlv_def parse_request_def canon_def
        norm_def\<close>)
qed

lemma u64_at_drop: "u64_at p i = u64_at (drop i p) 0"
  by (simp add: u64_at_def)

lemma u64_at_be: "u64_at (be_bytes 8 w @ r) 0 = w"
  by (simp add: u64_at_def)

lemma reads_seq_request:
  assumes t: "m_type m = T_SEQ_REQUEST" and ok: "wire_ok m" and c: "ctx_ok src c"
  shows "reads_as src c m"
proof -
  obtain ae s bits where e: "encode_prefix (m_prefix m) = (ae, s, bits)" by (metis surj_pair)
  have p: "pfx_ok (m_prefix m)" "\<not> m_wildcard m" "m_hopcount m \<noteq> 0" "valid_id (m_router_id m)"
    using ok t by (simp_all add: wire_ok_def Let_def)
  note a = wire_prefix_encode [OF p(1) e disjI1 [OF refl]]
  let ?p = "[ae, bits] @ be_bytes 2 (m_seqno m) @ [m_hopcount m, 0] @ be_bytes 8 (m_router_id m) @ s"
  have rid: "u64_at ?p 6 = m_router_id m"
    by (subst u64_at_drop) (simp add: be_bytes_2 u64_at_be)
  have tail: "drop 14 ?p = s" by (simp add: be_bytes_2)
  show ?thesis
    by (rule reads_asI [where c' = c and p = ?p])
      (use t c a e p rid tail in \<open>auto simp: encode_def parse_tlv_def parse_request_def canon_def
        norm_def Let_def be_bytes_2\<close>)
qed

lemma decode_router:
  "decode_body c (tlv T_ROUTER ([0, 0] @ be_bytes 8 r) @ rest) = decode_body (c\<lparr>d_rid := r\<rparr>) rest"
proof -
  have "u64_at ([0, 0] @ be_bytes 8 r) 2 = r"
    by (subst u64_at_drop) (simp add: u64_at_def)
  then show ?thesis
    by (subst decode_body_tlv) (simp_all add: parse_tlv_def parse_router_def)
qed

lemma decode_next_hop4:
  "length b = 4 \<Longrightarrow>
   decode_body c (tlv T_NEXT_HOP ([1, 0] @ b) @ rest) = decode_body (c\<lparr>d_hop4 := V4 b\<rparr>) rest"
  by (subst decode_body_tlv) (simp_all add: parse_tlv_def parse_next_hop_def wire_address_def)

lemma reads_wildcard_update:
  assumes t: "m_type m = T_UPDATE" and ok: "wire_ok m" and c: "ctx_ok src c"
    and w: "m_wildcard m"
  shows "reads_as src c m"
proof -
  have "m_interval m \<noteq> 0" "m_metric m = infinity"
    using t ok w by (simp_all add: wire_ok_def Let_def)
  then show ?thesis
    by (intro reads_asI [where c' = c])
      (use t c w in \<open>auto simp: encode_def parse_tlv_def parse_update_def canon_def norm_def
        be_bytes_2\<close>)
qed

text \<open>The update TLV itself, in the parser state its Router-ID and Next-Hop TLVs left.\<close>

lemma parse_update_tlv:
  assumes p: "pfx_ok q" and e: "encode_prefix q = (ae, s, bits)"
    and ae': "ae' = (if ae = 1 \<and> v4 then 4 else ae)" and v4: "v4 \<longrightarrow> is4 (pfx_addr q)"
    and i: "m_interval m \<noteq> 0"
    and fin: "m_metric m \<noteq> infinity \<longrightarrow> valid_id (d_rid c) \<and>
      (if ae' = 1 then d_hop4 c else d_hop6 c) \<noteq> NoAddr"
    and pay: "p = [ae', 0, bits, 0] @ be_bytes 2 (m_interval m) @ be_bytes 2 (m_seqno m)
      @ be_bytes 2 (m_metric m) @ s"
  shows "parse_tlv c T_UPDATE p = (c, Some ((zero_msg T_UPDATE)\<lparr>m_interval := m_interval m,
      m_seqno := m_seqno m, m_metric := m_metric m, m_v4via6 := v4, m_prefix := q,
      m_router_id := d_rid c,
      m_address := (if ae' = 1 then d_hop4 c else d_hop6 c)\<rparr>, length p))"
    and "length p < 256"
proof -
  have c1: "ae' = ae \<or> ae = 1 \<and> ae' = 4" using ae' by auto
  note a = wire_prefix_encode [OF p e c1]
  have "ae' = 4 \<longleftrightarrow> v4"
    using ae' v4 e by (auto simp: encode_prefix_def split: if_splits)
  moreover have "drop 10 p = s" "p ! 0 = ae'" "p ! 1 = 0" "p ! 2 = bits" "p ! 3 = 0"
    "u16_at p 4 = m_interval m" "u16_at p 6 = m_seqno m" "u16_at p 8 = m_metric m"
    "length p = 10 + length s"
    by (simp_all add: pay be_bytes_2)
  moreover have "\<not> 4 < ae'" using a(5) by simp
  ultimately show "parse_tlv c T_UPDATE p = (c, Some ((zero_msg T_UPDATE)\<lparr>m_interval := m_interval m,
      m_seqno := m_seqno m, m_metric := m_metric m, m_v4via6 := v4, m_prefix := q,
      m_router_id := d_rid c,
      m_address := (if ae' = 1 then d_hop4 c else d_hop6 c)\<rparr>, length p))"
    using a i fin by (auto simp: parse_tlv_def parse_update_def)
  show "length p < 256" using a(3) by (simp add: pay)
qed

lemma reads_update:
  assumes t: "m_type m = T_UPDATE" and ok: "wire_ok m" and c: "ctx_ok src c" and src: "src \<noteq> NoAddr"
  shows "reads_as src c m"
proof (cases "m_wildcard m")
  case True
  with assms show ?thesis by (simp add: reads_wildcard_update)
next
  case False
  let ?q = "m_prefix m" and ?v4 = "m_v4via6 m" and ?fin = "m_metric m \<noteq> infinity"
  have ok': "m_interval m \<noteq> 0" "pfx_ok ?q" "?v4 \<longrightarrow> is4 (pfx_addr ?q)"
    "?fin \<longrightarrow> valid_id (m_router_id m)"
    and hop: "?fin \<longrightarrow> (if is4 (pfx_addr ?q) \<and> \<not> ?v4
      then is4 (m_address m) \<and> wf_addr (m_address m) else m_address m = NoAddr)"
    using ok t False by (auto simp: wire_ok_def Let_def)
  obtain ae s bits where e: "encode_prefix ?q = (ae, s, bits)" by (metis surj_pair)
  define ae' where "ae' = (if ae = 1 \<and> ?v4 then 4 else ae)"
  define p where "p = [ae', 0, bits, 0] @ be_bytes 2 (m_interval m) @ be_bytes 2 (m_seqno m)
      @ be_bytes 2 (m_metric m) @ s"
  define c1 where "c1 = (if ?fin then c\<lparr>d_rid := m_router_id m\<rparr> else c)"
  define c2 where "c2 = (if ?fin \<and> m_address m \<noteq> NoAddr then c1\<lparr>d_hop4 := m_address m\<rparr> else c1)"
  have is1: "ae' = 1 \<longleftrightarrow> is4 (pfx_addr ?q) \<and> \<not> ?v4"
    using e by (auto simp: ae'_def encode_prefix_def split: if_splits)
  have h: "?fin \<longrightarrow> (if ae' = 1 then d_hop4 c2 else d_hop6 c2) =
      (if m_address m = NoAddr then src else m_address m)"
    using hop c is1 by (cases "m_address m") (auto simp: c2_def c1_def ctx_ok_def)
  have fin: "?fin \<longrightarrow> valid_id (d_rid c2) \<and> (if ae' = 1 then d_hop4 c2 else d_hop6 c2) \<noteq> NoAddr"
    using h src ok'(4) by (auto simp: c2_def c1_def)
  have before: "decode_body c (encode m @ rest) = decode_body c2 (tlv T_UPDATE p @ rest)" for rest
  proof (cases "?fin \<and> m_address m \<noteq> NoAddr")
    case True
    then obtain b where b: "m_address m = V4 b" "length b = 4"
      using hop by (cases "m_address m") (auto split: if_splits)
    have "encode m = tlv T_ROUTER ([0, 0] @ be_bytes 8 (m_router_id m))
        @ tlv T_NEXT_HOP ([1, 0] @ b) @ tlv T_UPDATE p"
      using t False True b e by (simp add: encode_def ae'_def p_def encode_address_def)
    then show ?thesis
      using True b by (simp only: append_assoc decode_router decode_next_hop4)
        (simp add: c2_def c1_def)
  next
    case no_hop: False
    show ?thesis
    proof (cases ?fin)
      case True
      with no_hop have "encode m = tlv T_ROUTER ([0, 0] @ be_bytes 8 (m_router_id m)) @ tlv T_UPDATE p"
        using t False e by (simp add: encode_def ae'_def p_def)
      then show ?thesis
        using True no_hop by (simp only: append_assoc decode_router) (simp add: c2_def c1_def)
    next
      case infinite: False
      then have "encode m = tlv T_UPDATE p"
        using t False e by (simp add: encode_def ae'_def p_def)
      then show ?thesis using infinite by (simp add: c2_def c1_def)
    qed
  qed
  note u = parse_update_tlv [OF ok'(2) e ae'_def ok'(3,1) fin p_def]
  let ?m' = "(zero_msg T_UPDATE)\<lparr>m_interval := m_interval m,
      m_seqno := m_seqno m, m_metric := m_metric m, m_v4via6 := ?v4, m_prefix := ?q,
      m_router_id := d_rid c2, m_address := (if ae' = 1 then d_hop4 c2 else d_hop6 c2)\<rparr>"
  have "decode_body c (encode m @ rest) = map_option (Cons ?m') (decode_body c2 rest)" for rest
    using u by (simp add: before decode_body_tlv)
  moreover have "norm ?m' = canon src m"
  proof (cases ?fin)
    case True
    with h have "(if ae' = 1 then d_hop4 c2 else d_hop6 c2) =
        (if m_address m = NoAddr then src else m_address m)" by blast
    moreover have "d_rid c2 = m_router_id m" using True by (simp add: c2_def c1_def)
    ultimately show ?thesis
      using True t False by (simp only: norm_def canon_def Let_def) simp
  next
    case infinite: False
    then show ?thesis using t False by (simp add: norm_def canon_def)
  qed
  moreover have "ctx_ok src c2" using c by (simp add: c2_def c1_def ctx_ok_def)
  ultimately show ?thesis unfolding reads_as_def by blast
qed

lemma reads_encoded:
  assumes "wire_ok m" "ctx_ok src c" "src \<noteq> NoAddr"
  shows "reads_as src c m"
proof -
  have "m_type m = T_HELLO \<or> m_type m = T_ACK_REQUEST \<or> m_type m = T_ACK \<or> m_type m = T_IHU
     \<or> m_type m = T_UPDATE \<or> m_type m = T_REQUEST \<or> m_type m = T_SEQ_REQUEST"
    using assms(1) by (auto simp: wire_ok_def Let_def split: if_splits)
  then show ?thesis
    using assms reads_hello reads_ack reads_ihu reads_update reads_request reads_seq_request
    by blast
qed

subsection \<open>Packets\<close>

lemma decode_body_encoded:
  "\<lbrakk>\<forall>m \<in> set ms. wire_ok m; ctx_ok src c; src \<noteq> NoAddr\<rbrakk> \<Longrightarrow>
   \<exists>r. decode_body c (concat (map encode ms)) = Some r \<and> map norm r = map (canon src) ms"
proof (induction ms arbitrary: c)
  case Nil
  then show ?case by simp
next
  case (Cons m ms)
  then have "reads_as src c m" by (simp add: reads_encoded)
  then obtain c' m' where c': "ctx_ok src c'" and m': "norm m' = canon src m"
    and d: "\<And>rest. decode_body c (encode m @ rest) = map_option (Cons m') (decode_body c' rest)"
    unfolding reads_as_def by blast
  from Cons.IH [of c'] Cons.prems c' obtain r
    where "decode_body c' (concat (map encode ms)) = Some r" "map norm r = map (canon src) ms"
    by auto
  then show ?case using d m' by simp
qed

lemma length_tlv [simp]: "length (tlv t p) = 2 + length p"
  by (simp add: tlv_def)

lemma length_encode_update:
  assumes t: "m_type m = T_UPDATE" and ok: "wire_ok m"
  shows "length (encode m) \<le> 48"
proof -
  obtain ae s bits where e: "encode_prefix (m_prefix m) = (ae, s, bits)" by (metis surj_pair)
  have s: "\<not> m_wildcard m \<Longrightarrow> length s \<le> 16"
    using ok t by (intro wire_prefix_encode(3) [OF _ e disjI1 [OF refl]])
      (simp add: wire_ok_def Let_def)
  have four: "\<not> m_wildcard m \<Longrightarrow> m_metric m \<noteq> infinity \<Longrightarrow> m_address m \<noteq> NoAddr \<Longrightarrow>
      \<exists>b. m_address m = V4 b \<and> length b = 4"
    using ok t by (cases "m_address m") (auto simp: wire_ok_def Let_def split: if_splits)
  have wild: "m_wildcard m \<Longrightarrow> m_metric m = infinity"
    using ok t by (simp add: wire_ok_def Let_def)
  show ?thesis
  proof (cases "m_wildcard m")
    case True
    then show ?thesis using t wild by (simp add: encode_def)
  next
    case False
    show ?thesis
    proof (cases "m_metric m \<noteq> infinity \<and> m_address m \<noteq> NoAddr")
      case True
      then obtain b where "m_address m = V4 b" "length b = 4" using four False by blast
      then show ?thesis using t e False True s by (simp add: encode_def encode_address_def)
    next
      case no: False
      then show ?thesis using t e False s by (auto simp: encode_def)
    qed
  qed
qed

lemma length_encode_other:
  assumes t: "m_type m \<noteq> T_UPDATE" and ok: "wire_ok m"
  shows "length (encode m) \<le> 48"
proof -
  obtain ae s bits where e: "encode_prefix (m_prefix m) = (ae, s, bits)" by (metis surj_pair)
  obtain ae' s' where e': "encode_address (m_address m) = (ae', s')" by (metis surj_pair)
  have s: "pfx_ok (m_prefix m) \<Longrightarrow> length s \<le> 16"
    by (rule wire_prefix_encode(3) [OF _ e disjI1 [OF refl]])
  have s': "addr_encodable (m_address m) \<Longrightarrow> length s' \<le> 16"
    by (rule wire_address_encode(2) [OF _ e'])
  consider "m_type m = T_HELLO \<or> m_type m = T_ACK_REQUEST" | "m_type m = T_ACK"
    | "m_type m = T_IHU" | "m_type m = T_REQUEST" | "m_type m = T_SEQ_REQUEST"
    using t ok by (auto simp: wire_ok_def Let_def split: if_splits)
  then show ?thesis
  proof cases
    case 1
    then show ?thesis by (auto simp: encode_def)
  next
    case 3
    then show ?thesis using ok s' e' by (auto simp: encode_def wire_ok_def)
  next
    case 4
    then show ?thesis using ok s e by (auto simp: encode_def wire_ok_def)
  next
    case 5
    then show ?thesis using ok s e by (auto simp: encode_def wire_ok_def)
  qed (simp add: encode_def)
qed

lemma length_encode:
  assumes "wire_ok m"
  shows "length (encode m) \<le> 48" and "2 \<le> length (encode m)"
proof -
  show "length (encode m) \<le> 48"
    using assms length_encode_update length_encode_other by blast
  show "2 \<le> length (encode m)"
    by (simp add: encode_def Let_def split: prod.split)
qed

definition frame :: "message list \<Rightarrow> bytes" where
  "frame ms = overlay 2 (be_bytes 2 (word_of_nat (length (concat (map encode ms))) :: u16))
     (packet_header @ concat (map encode ms))"

definition pack_inv :: "nat \<Rightarrow> message list \<Rightarrow> bytes list \<times> bytes \<Rightarrow> bool" where
  "pack_inv mx ms s \<longleftrightarrow> (\<exists>css cur. concat css @ cur = ms \<and> fst s = map frame css
     \<and> snd s = packet_header @ concat (map encode cur) \<and> length (snd s) \<le> mx
     \<and> (\<forall>p \<in> set (fst s). length p \<le> mx))"

lemma pack_invI:
  assumes "concat css @ cur = ms" and "length (packet_header @ concat (map encode cur)) \<le> mx"
    and "\<forall>cs \<in> set css. length (frame cs) \<le> mx"
  shows "pack_inv mx ms (map frame css, packet_header @ concat (map encode cur))"
  using assms unfolding pack_inv_def by (intro exI [of _ css] exI [of _ cur]) simp

lemma length_packet_header [simp]: "length packet_header = 4"
  by (simp add: packet_header_def)

lemma frame_eq: "frame ms = [42, 2] @
    be_bytes 2 (word_of_nat (length (concat (map encode ms))) :: u16) @ concat (map encode ms)"
  by (simp add: frame_def overlay_def packet_header_def)

lemma length_frame: "length (frame ms) = 4 + length (concat (map encode ms))"
  by (simp add: frame_eq)

lemma pack_inv_flush:
  assumes "pack_inv mx ms s" and "\<forall>m \<in> set ms. wire_ok m" and "4 \<le> mx"
  shows "pack_inv mx ms (pack_flush s) \<and> snd (pack_flush s) = packet_header"
proof -
  obtain css cur where s: "concat css @ cur = ms" "fst s = map frame css"
    "snd s = packet_header @ concat (map encode cur)" "length (snd s) \<le> mx"
    "\<forall>p \<in> set (fst s). length p \<le> mx"
    using assms(1) by (auto simp: pack_inv_def)
  show ?thesis
  proof (cases "4 < length (snd s)")
    case True
    have l: "length (snd s) - 4 = length (concat (map encode cur))" using s by simp
    have "pack_flush s = (fst s @ [frame cur], packet_header)"
      unfolding pack_flush_def frame_def Let_def case_prod_beta l s(3) [symmetric]
      using True by simp
    then have "pack_flush s = (map frame (css @ [cur]), packet_header)" by (simp add: s(2))
    moreover have "length (frame cur) \<le> mx" using s by (simp add: length_frame)
    ultimately show ?thesis
      using s assms(3) pack_invI [of "css @ [cur]" "[]" ms mx] by simp
  next
    case False
    have "cur = []"
    proof (cases cur)
      case (Cons m r)
      then have "wire_ok m" using s(1) assms(2) by auto
      then show ?thesis using False s(3) Cons length_encode(2) [of m] by simp
    qed simp
    then show ?thesis
      using False s assms(1) by (cases s) (simp add: pack_flush_def)
  qed
qed

lemma pack_inv_step:
  assumes inv: "pack_inv mx ms s" and ok: "\<forall>m \<in> set ms. wire_ok m" "wire_ok m" and mx: "52 \<le> mx"
  shows "pack_inv mx (ms @ [m]) (pack_step mx m s)"
proof -
  define s' where "s' = (if mx < length (snd s) + length (encode m) then pack_flush s else s)"
  have "pack_inv mx ms s' \<and> length (snd s') + length (encode m) \<le> mx"
    using pack_inv_flush [OF inv ok(1)] inv mx length_encode(1) [OF ok(2)]
    by (simp add: s'_def)
  then obtain css cur where s: "concat css @ cur = ms" "fst s' = map frame css"
    "snd s' = packet_header @ concat (map encode cur)" "length (snd s') + length (encode m) \<le> mx"
    "\<forall>p \<in> set (fst s'). length p \<le> mx"
    by (auto simp: pack_inv_def)
  have "pack_step mx m s = (fst s', snd s' @ encode m)"
    by (simp add: pack_step_def s'_def Let_def split: prod.splits)
  with s show ?thesis
    using pack_invI [of css "cur @ [m]" "ms @ [m]" mx] by simp
qed

lemma pack_inv_fold:
  assumes "\<forall>m \<in> set ms. wire_ok m" and "52 \<le> mx"
  shows "pack_inv mx ms (fold (pack_step mx) ms ([], packet_header))"
  using assms(1)
proof (induction ms rule: rev_induct)
  case Nil
  have "pack_inv mx [] ([], packet_header)"
    unfolding pack_inv_def
    by (rule exI [where x = "[]"], rule exI [where x = "[]"]) (use assms(2) in simp)
  then show ?case by simp
next
  case (snoc m ms)
  then show ?case using pack_inv_step [OF _ _ _ assms(2)] by simp
qed

lemma decode_frame:
  assumes "\<forall>m \<in> set ms. wire_ok m" and "is6 src" and "length (frame ms) \<le> 65539"
  shows "\<exists>r. decode (frame ms) src = Some r \<and> map norm r = map (canon src) ms"
proof -
  let ?b = "concat (map encode ms)"
  have len: "length ?b < 65536" using assms(3) by (simp add: length_frame)
  then have un: "unat (word_of_nat (length ?b) :: u16) = length ?b" by (simp add: unat_of_nat)
  have u: "u16_at (frame ms) 2 = word_of_nat (length ?b)"
    by (simp add: frame_eq be_bytes_2)
  have "decode (frame ms) src = decode_body (init_dctx src) ?b"
    unfolding decode_def u un by (simp add: frame_eq)
  moreover have "ctx_ok src (init_dctx src)" "src \<noteq> NoAddr"
    using assms(2) by (auto simp: ctx_ok_def init_dctx_def)
  ultimately show ?thesis using decode_body_encoded [OF assms(1)] by metis
qed

lemma pack_chunks:
  assumes "\<forall>m \<in> set ms. wire_ok m" and "52 \<le> mx"
  shows "\<exists>css. concat css = ms \<and> pack ms mx = map frame css \<and>
    (\<forall>cs \<in> set css. length (frame cs) \<le> mx)"
proof -
  let ?s = "fold (pack_step mx) ms ([], packet_header)"
  have "pack_inv mx ms ?s" by (rule pack_inv_fold [OF assms])
  then have f: "pack_inv mx ms (pack_flush ?s)" "snd (pack_flush ?s) = packet_header"
    using pack_inv_flush [of mx ms ?s] assms by auto
  then obtain css cur where s: "concat css @ cur = ms" "fst (pack_flush ?s) = map frame css"
    "concat (map encode cur) = []" "\<forall>p \<in> set (fst (pack_flush ?s)). length p \<le> mx"
    unfolding pack_inv_def by auto
  have "cur = []"
  proof (cases cur)
    case (Cons m r)
    then have "wire_ok m" using s(1) assms(1) by auto
    then show ?thesis using s(3) Cons length_encode(2) [of m] by simp
  qed simp
  with s show ?thesis by (auto simp: pack_def)
qed

lemma pack_reads:
  assumes "\<forall>m \<in> set ms. wire_ok m" and "is6 src" and "52 \<le> mx" and "mx \<le> 65539"
  shows "(\<forall>p \<in> set (pack ms mx). length p \<le> mx) \<and>
    (\<exists>rs. map (\<lambda>p. decode p src) (pack ms mx) = map Some rs
       \<and> map norm (concat rs) = map (canon src) ms)"
proof -
  obtain css where css: "concat css = ms" "pack ms mx = map frame css"
    "\<forall>cs \<in> set css. length (frame cs) \<le> mx"
    using pack_chunks [OF assms(1,3)] by blast
  have "\<forall>cs \<in> set css. \<exists>r. decode (frame cs) src = Some r \<and> map norm r = map (canon src) cs"
    using css assms by (intro ballI decode_frame) force+
  then have "\<forall>cs \<in> set css. decode (frame cs) src = Some (the (decode (frame cs) src)) \<and>
      map norm (the (decode (frame cs) src)) = map (canon src) cs"
    by fastforce
  then have "map (\<lambda>p. decode p src) (pack ms mx)
        = map Some (map (\<lambda>cs. the (decode (frame cs) src)) css)"
    "map norm (concat (map (\<lambda>cs. the (decode (frame cs) src)) css)) = map (canon src) (concat css)"
    by (auto simp: css(2) map_concat comp_def cong: map_cong)
  then show ?thesis using css by (metis (no_types, lifting) image_iff list.set_map)
qed

text \<open>
  C7 (pack_decode): packets written by \<open>Pack\<close> stay within the payload budget and, decoded
  one by one with fresh parser state, give back exactly the messages that were packed, in
  order (a retraction up to the two fields its TLV does not carry). No parser state leaks
  across a packet boundary.
\<close>

theorem pack_decode:
  assumes "\<forall>m \<in> set ms. wire_ok m" and "is6 src" and "52 \<le> mx" and "mx \<le> 65539"
  shows "(\<forall>p \<in> set (pack ms mx). length p \<le> mx) \<and>
    (\<exists>rs. map (\<lambda>p. decode p src) (pack ms mx) = map Some rs
       \<and> map norm (concat rs) = map (canon src) ms)"
  using assms by (rule pack_reads)

subsection \<open>What a decoded message satisfies\<close>

definition decoded_ok :: "message \<Rightarrow> bool" where
  "decoded_ok m =
     (let t = m_type m in
      if t = T_HELLO \<or> t = T_ACK then True
      else if t = T_ACK_REQUEST \<or> t = T_IHU then m_interval m \<noteq> 0
      else if t = T_UPDATE then
        m_interval m \<noteq> 0 \<and>
        (if m_wildcard m then m_metric m = infinity
         else pfx_ok (m_prefix m) \<and>
           (m_metric m \<noteq> infinity \<longrightarrow> valid_id (m_router_id m) \<and> m_address m \<noteq> NoAddr))
      else if t = T_REQUEST then m_wildcard m \<or> pfx_ok (m_prefix m)
      else if t = T_SEQ_REQUEST then
        \<not> m_wildcard m \<and> pfx_ok (m_prefix m) \<and> m_hopcount m \<noteq> 0 \<and> valid_id (m_router_id m)
      else False)"

definition prevs_ok :: "dctx \<Rightarrow> bool" where
  "prevs_ok c \<longleftrightarrow> length (d_prev c) = 5 \<and> (\<forall>q \<in> set (d_prev c). q = NoPrefix \<or> pfx_ok q)"

lemma length_overlay [simp]:
  "i + length xs \<le> length ys \<Longrightarrow> length (overlay i xs ys) = length ys"
  by (simp add: overlay_def)

lemma pfx_ok_slice: "pfx_ok q \<Longrightarrow> length (as_slice (pfx_addr q)) \<le> 16"
  by (cases "pfx_addr q") (auto simp: pfx_ok_def)

lemma wire_prefix_ok:
  assumes w: "wire_prefix ae bits omitted p prev = Some (q, n)" and prev: "prev = NoPrefix \<or> pfx_ok prev"
  shows "pfx_ok q"
proof -
  let ?mx = "if ae = 1 \<or> ae = 4 then 32 else 128 :: nat"
  define start :: nat where "start = (if ae = 3 then 8 else 0)"
  define base :: bytes where
    "base = (if ae = 3 then [0xfe, 0x80] @ replicate 14 0 else replicate 16 0)"
  define a0 where "a0 = (if 0 < omitted then overlay 0 (as_slice (pfx_addr prev)) base else base)"
  define k where "k = (bits + 7) div 8 - start - omitted"
  define a where "a = overlay (start + omitted) (take k p) a0"
  define ad where "ad = (if ?mx = 32 then V4 (take 4 a) else V6 a '''')"
  have guards: "bits \<le> ?mx" "start + omitted \<le> (bits + 7) div 8" "k \<le> length p"
    and q: "q = masked (Pfx ad bits)"
    using w unfolding wire_prefix_def start_def base_def a0_def k_def a_def ad_def Let_def
    by (auto split: if_splits)
  have "length base = 16" by (simp add: base_def)
  moreover have "length (as_slice (pfx_addr prev)) \<le> 16"
    using prev pfx_ok_slice by auto
  ultimately have "length a0 = 16" by (simp add: a0_def)
  moreover have "start + omitted + k \<le> 16"
    using guards by (auto simp: k_def split: if_splits)
  ultimately have "length a = 16" using guards(3) by (simp add: a_def min_def)
  then have "wf_addr ad" "bit_len ad = ?mx" "ad \<noteq> NoAddr" by (auto simp: ad_def)
  then show ?thesis
    using guards(1) by (cases ad) (auto simp: q pfx_ok_def masked_def)
qed

lemma prevs_ok_frame [simp]:
  "prevs_ok (c\<lparr>d_rid := r\<rparr>) = prevs_ok c" "prevs_ok (c\<lparr>d_hop4 := a\<rparr>) = prevs_ok c"
  "prevs_ok (c\<lparr>d_hop6 := a\<rparr>) = prevs_ok c"
  by (simp_all add: prevs_ok_def)

lemma parse_update_ok:
  assumes "prevs_ok c" and "parse_update c T_UPDATE p = (c', r)"
  shows "prevs_ok c' \<and> (\<forall>m n. r = Some (m, n) \<longrightarrow> m_type m = T_UPDATE \<and> decoded_ok m)"
proof (cases "length p < 10 \<or> p ! 0 = 0 \<or> 4 < p ! 0")
  case True
  then show ?thesis
    using assms by (auto simp: parse_update_def decoded_ok_def Let_def split: if_splits)
next
  case False
  then have ae: "unat (p ! 0) < 5"
    by (simp add: not_less word_le_nat_alt)
  show ?thesis
  proof (cases "wire_prefix (p ! 0) (unat (p ! 2)) (unat (p ! 3)) (drop 10 p) (d_prev c ! unat (p ! 0))")
    case None
    then show ?thesis using assms False by (auto simp: parse_update_def Let_def)
  next
    case (Some qs)
    obtain q sz where qs: "qs = (q, sz)" by (cases qs)
    have "d_prev c ! unat (p ! 0) \<in> set (d_prev c)"
      using ae assms(1) by (auto simp: prevs_ok_def)
    then have q: "pfx_ok q"
      using wire_prefix_ok [OF Some [unfolded qs]] assms(1) by (auto simp: prevs_ok_def)
    then have up: "prevs_ok (c\<lparr>d_prev := (d_prev c)[unat (p ! 0) := q]\<rparr>)"
      using assms(1) set_update_subset_insert [of "d_prev c"] by (fastforce simp: prevs_ok_def)
    define c2 where "c2 = (if p ! 1 AND 128 \<noteq> 0 \<and> p ! 0 \<noteq> 3
      then c\<lparr>d_prev := (d_prev c)[unat (p ! 0) := q]\<rparr> else c)"
    define c3 where "c3 = (if p ! 1 AND 64 \<noteq> 0 then c2\<lparr>d_rid := rid_of_prefix q\<rparr> else c2)"
    define m where "m = (zero_msg T_UPDATE)\<lparr>m_interval := u16_at p 4, m_seqno := u16_at p 6,
      m_metric := u16_at p 8, m_v4via6 := (p ! 0 = 4), m_prefix := q, m_router_id := d_rid c3,
      m_address := (if p ! 0 = 1 then d_hop4 c3 else d_hop6 c3)\<rparr>"
    have "parse_update c T_UPDATE p = (c3,
        if m_metric m \<noteq> infinity \<and> (\<not> valid_id (m_router_id m) \<or> m_address m = NoAddr) then None
        else if m_interval m = 0 then None else Some (m, 10 + sz))"
      using False Some qs unfolding m_def c3_def c2_def parse_update_def Let_def by simp
    moreover have "prevs_ok c3" using up assms(1) by (simp add: c3_def c2_def)
    moreover have "m_type m = T_UPDATE" "\<not> m_wildcard m" "m_prefix m = q" by (simp_all add: m_def)
    ultimately show ?thesis
      using assms(2) q by (auto simp: decoded_ok_def split: if_splits)
  qed
qed

lemma parse_next_hop_ok:
  assumes "prevs_ok c" and "parse_next_hop c t p = (c', r)"
  shows "prevs_ok c' \<and> (\<forall>m n. r = Some (m, n) \<and> t = T_IHU \<longrightarrow> decoded_ok m)"
  using assms by (auto simp: parse_next_hop_def decoded_ok_def Let_def
      split: if_splits option.splits)

lemma parse_tlv_ok:
  assumes "prevs_ok c" and "parse_tlv c t p = (c', r)"
  shows "prevs_ok c'" and "r = Some (m, n) \<Longrightarrow> t \<noteq> T_ROUTER \<Longrightarrow> t \<noteq> T_NEXT_HOP \<Longrightarrow> decoded_ok m"
proof -
  consider "t = T_HELLO \<or> t = T_ACK_REQUEST" | "t = T_ACK" | "t = T_IHU \<or> t = T_NEXT_HOP"
    | "t = T_ROUTER" | "t = T_UPDATE" | "t = T_REQUEST \<or> t = T_SEQ_REQUEST"
    | "t \<noteq> T_HELLO" "t \<noteq> T_ACK_REQUEST" "t \<noteq> T_ACK" "t \<noteq> T_IHU" "t \<noteq> T_NEXT_HOP"
      "t \<noteq> T_ROUTER" "t \<noteq> T_UPDATE" "t \<noteq> T_REQUEST" "t \<noteq> T_SEQ_REQUEST"
    by blast
  then have "prevs_ok c' \<and>
    (r = Some (m, n) \<longrightarrow> t \<noteq> T_ROUTER \<longrightarrow> t \<noteq> T_NEXT_HOP \<longrightarrow> decoded_ok m)"
  proof cases
    case 1
    then show ?thesis
      using assms by (auto simp: parse_tlv_def parse_hello_def decoded_ok_def Let_def split: if_splits)
  next
    case 2
    then show ?thesis
      using assms by (auto simp: parse_tlv_def parse_ack_def decoded_ok_def Let_def split: if_splits)
  next
    case 3
    then show ?thesis
      using assms parse_next_hop_ok [OF assms(1)] by (auto simp: parse_tlv_def)
  next
    case 4
    then show ?thesis
      using assms by (auto simp: parse_tlv_def parse_router_def split: if_splits)
  next
    case 5
    then show ?thesis using assms parse_update_ok by (auto simp: parse_tlv_def)
  next
    case 6
    then show ?thesis
      using assms wire_prefix_ok [where prev = NoPrefix]
      by (auto simp: parse_tlv_def parse_request_def decoded_ok_def Let_def
          split: if_splits option.splits)
  next
    case 7
    then show ?thesis using assms by (auto simp: parse_tlv_def)
  qed
  then show "prevs_ok c'" and
    "r = Some (m, n) \<Longrightarrow> t \<noteq> T_ROUTER \<Longrightarrow> t \<noteq> T_NEXT_HOP \<Longrightarrow> decoded_ok m" by auto
qed

lemma decode_body_ok:
  "\<lbrakk>prevs_ok c; decode_body c b = Some ms; m \<in> set ms\<rbrakk> \<Longrightarrow> decoded_ok m"
proof (induction c b arbitrary: ms rule: decode_body.induct)
  case (2 c t body)
  note eq = "2.prems"(2) [unfolded decode_body.simps(2)]
  show ?case
  proof (cases "t = 0")
    case True
    then show ?thesis using "2.IH"(1) "2.prems" eq by simp
  next
    case t: False
    obtain l r where lr: "body = l # r" using eq t by (cases body) auto
    have fits: "\<not> length r < unat l" using eq t lr by auto
    obtain c' res where p: "parse_tlv c t (take (unat l) r) = (c', res)" by (metis surj_pair)
    note ok = parse_tlv_ok [OF "2.prems"(1) p]
    show ?thesis
    proof (cases res)
      case None
      then show ?thesis
        using "2.IH"(2) [OF t lr fits refl refl p [symmetric] refl None] ok(1) "2.prems"(3) eq t lr fits p
        by simp
    next
      case (Some mn)
      obtain m' n where mn: "mn = (m', n)" by (cases mn)
      note IH = "2.IH"(3-5) [OF t lr fits refl refl p [symmetric] refl Some mn [symmetric]]
      show ?thesis
      proof (cases "\<not> sub_tlvs (drop n (take (unat l) r)) \<or> t = T_ROUTER \<or> t = T_NEXT_HOP")
        case True
        then have "decode_body c' (drop (unat l) r) = Some ms"
          using eq t lr fits p Some mn by (auto simp: Let_def split: if_splits)
        then show ?thesis using True IH ok(1) "2.prems"(3) by blast
      next
        case False
        then obtain ms' where "decode_body c' (drop (unat l) r) = Some ms'" "ms = m' # ms'"
          using eq t lr fits p Some mn by (auto simp: Let_def)
        then show ?thesis
          using False IH ok "2.prems"(3) Some mn by auto
      qed
    qed
  qed
qed simp

lemma decode_messages_ok:
  assumes "decode packet src = Some ms" and "m \<in> set ms"
  shows "decoded_ok m"
proof -
  have "prevs_ok (init_dctx src)" by (auto simp: prevs_ok_def init_dctx_def)
  then show ?thesis
    using assms decode_body_ok by (auto simp: decode_def split: if_splits)
qed

text \<open>
  C8 (decode_sound): every message the decoder hands to the routing engine is usable: its
  prefix is valid and masked, a timed message has a nonzero interval, a wildcard update is a
  retraction, a finite update names a valid router and a next hop, a seqno request a valid
  router and a positive hop count. No other TLV kind reaches the engine.
\<close>

theorem decode_sound:
  assumes "decode packet src = Some ms" and "m \<in> set ms"
  shows "decoded_ok m"
  using assms by (rule decode_messages_ok)

text \<open>
  \<open>encodeAddress\<close> drops the first half of any link-local address whose bytes 2 to 7 are zero, and
  the decoder puts \<open>fe80::/64\<close> in its place: \<open>fe90::1\<close>, link-local too, arrives as \<open>fe80::1\<close>.
\<close>

lemma encode_address_lossy:
  "is_link_local_unicast (V6 [0xfe, 0x90, 0, 0, 0, 0, 0, 0, 0, 0, 0, 0, 0, 0, 0, 1] '''')
     \<and> (case encode_address (V6 [0xfe, 0x90, 0, 0, 0, 0, 0, 0, 0, 0, 0, 0, 0, 0, 0, 1] '''') of
         (ae, s) \<Rightarrow> wire_address ae s)
       = Some (V6 [0xfe, 0x80, 0, 0, 0, 0, 0, 0, 0, 0, 0, 0, 0, 0, 0, 1] '''', 8)"
proof -
  let ?a = "V6 [0xfe, 0x90, 0, 0, 0, 0, 0, 0, 0, 0, 0, 0, 0, 0, 0, 1] ''''"
  have six: "replicate 6 (0 :: byte) = [0, 0, 0, 0, 0, 0]" by (simp add: eval_nat_numeral)
  have u: "unmap ?a = ?a" by (simp add: unmap_def mapped4_def)
  have "(be_val [0xfe, 0x90] :: u16) AND 0xffc0 = 0xfe80" by (simp add: be_val_def)
  then have l: "is_link_local_unicast ?a"
    by (simp add: is_link_local_unicast_def u)
  then have "encode_address ?a = (3, [0, 0, 0, 0, 0, 0, 0, 1])"
    by (simp add: encode_address_def six)
  then show ?thesis using l by (simp add: wire_address_def six)
qed

end
