(* ===== verification/Babel_Types.thy ===== *)
theory Babel_Types
  imports Babel_Codec
begin

section \<open>Babel configuration, links, events and arithmetic (go/babel/types.go)\<close>

text \<open>
  Durations are nanoseconds as \<open>int\<close>: the engine refuses a time within 48 hours of the
  largest \<open>int64\<close>, and every deadline lies within that margin, so 64-bit addition of
  durations never wraps. Sequence numbers and metrics stay 16-bit words and wrap as in Go.
  A callback of \<open>Config\<close> is an optional function; nil is \<open>None\<close>.
\<close>

type_synonym duration = int
type_synonym router_id = u64
type_synonym link_id = u64

definition millis :: "duration \<Rightarrow> duration" where "millis n = n * 1000000"
definition seconds :: "duration \<Rightarrow> duration" where "seconds n = n * 1000000000"
definition default_hello :: duration where "default_hello = seconds 4"

datatype berror = ErrConfig | ErrTime | ErrPending | ErrRevision | ErrStopped | ErrLimit

record config =
  cfg_router_id :: router_id
  cfg_initial_seqno :: u16
  cfg_seed :: u64
  cfg_hello :: duration
  cfg_update :: duration
  cfg_source_gc :: duration
  cfg_max_links :: int
  cfg_max_routes :: int
  cfg_max_sources :: int
  cfg_max_requests :: int
  cfg_v4via6 :: bool
  cfg_accept_route :: "(router_id \<Rightarrow> prefix \<Rightarrow> bool) option"
  cfg_accept_update :: "(router_id \<Rightarrow> prefix \<Rightarrow> u16 \<Rightarrow> bool) option"
  cfg_advertise_local :: "(router_id \<Rightarrow> prefix \<Rightarrow> u16 \<Rightarrow> bool) option"

record link =
  l_id :: link_id
  l_local :: addr
  l_peer :: addr
  l_cost :: u16
  l_max_packet :: int
  l_hello :: duration
  l_ipv4 :: addr

datatype event =
    Tick
  | AddLink link
  | RemoveLink link_id
  | SetCost link_id u16
  | Receive link_id bytes
  | Originate prefix u16
  | Withdraw prefix

record route =
  r_prefix :: prefix
  r_router_id :: router_id
  r_seqno :: u16
  r_metric :: u16
  r_link :: link_id
  r_next_hop :: addr
  r_local :: bool
  r_unreachable :: bool

type_synonym datagram = "link_id \<times> bytes"

record effects =
  eff_revision :: u64
  eff_routes :: "route list"
  eff_datagrams :: "datagram list"

definition no_effects :: effects where
  "no_effects = \<lparr>eff_revision = 0, eff_routes = [], eff_datagrams = []\<rparr>"

record counters =
  c_received :: u64
  c_malformed :: u64
  c_stale :: u64
  c_rejected :: u64
  c_sent :: u64

subsection \<open>Sequence numbers, metrics and hold times\<close>

definition newer :: "u16 \<Rightarrow> u16 \<Rightarrow> bool" where
  "newer a b \<longleftrightarrow> (let d = a - b in 0 < d \<and> d < 32768)"

definition at_least :: "u16 \<Rightarrow> u16 \<Rightarrow> bool" where
  "at_least a b \<longleftrightarrow> a = b \<or> newer a b"

definition metric_sum :: "u16 \<Rightarrow> u16 \<Rightarrow> u16" where
  "metric_sum a b =
     (let n = (ucast a :: u32) + ucast b in if ucast infinity \<le> n then infinity else ucast n)"

definition hold :: "duration \<Rightarrow> duration" where
  "hold d = d * 7 div 2"

definition centis :: "duration \<Rightarrow> u16" where
  "centis d = word_of_int (d div millis 10)"

subsection \<open>Constructing an engine's configuration\<close>

text \<open>
  \<open>check_config\<close> is the part of \<open>New\<close> that fills in defaults and refuses a
  configuration; the engine itself is built in theory \<open>Babel_Engine\<close>.
\<close>

definition default_config :: "config \<Rightarrow> config" where
  "default_config c = c\<lparr>
     cfg_hello := (if cfg_hello c = 0 then default_hello else cfg_hello c),
     cfg_update := (if cfg_update c = 0 then seconds 16 else cfg_update c),
     cfg_source_gc := (if cfg_source_gc c = 0 then seconds 180 else cfg_source_gc c)\<rparr>"

definition bad_interval :: "duration \<Rightarrow> bool" where
  "bad_interval d \<longleftrightarrow> d < millis 100 \<or> millis (65534 * 10) < d \<or> d mod millis 10 \<noteq> 0"

definition default_limits :: "config \<Rightarrow> config" where
  "default_limits c = c\<lparr>
     cfg_max_links := (if cfg_max_links c = 0 then 64 else cfg_max_links c),
     cfg_max_routes := (if cfg_max_routes c = 0 then 8192 else cfg_max_routes c),
     cfg_max_sources := (if cfg_max_sources c = 0 then 16384 else cfg_max_sources c),
     cfg_max_requests := (if cfg_max_requests c = 0 then 1024 else cfg_max_requests c)\<rparr>"

definition check_config :: "config \<Rightarrow> berror + config" where
  "check_config c0 =
     (if cfg_router_id c0 = 0 \<or> cfg_router_id c0 = - 1 then Inl ErrConfig
      else
        (let c = default_config c0 in
         if bad_interval (cfg_hello c) \<or> bad_interval (cfg_update c) then Inl ErrConfig
         else if cfg_source_gc c < seconds 180 \<or> cfg_source_gc c < hold (cfg_update c)
             \<or> seconds 86400 < cfg_source_gc c then Inl ErrConfig
         else if millis (32767 * 10) < cfg_hello c then Inl ErrConfig
         else
           (let c = default_limits c in
            if cfg_max_links c < 1 \<or> cfg_max_routes c < 1 \<or> cfg_max_sources c < 1
                \<or> cfg_max_requests c < 1 then Inl ErrConfig
            else Inr (c\<lparr>cfg_seed := (if cfg_seed c = 0 then cfg_router_id c else cfg_seed c)\<rparr>))))"

subsection \<open>Lemmas\<close>

lemma newer_irrefl [simp]: "\<not> newer a a"
  by (simp add: newer_def)

lemma newer_unat: "newer a b \<longleftrightarrow> 0 < unat (a - b) \<and> unat (a - b) < 32768"
  by (simp add: newer_def Let_def word_less_nat_alt)

lemma unat_neg_16: "(d :: u16) \<noteq> 0 \<Longrightarrow> unat (- d) = 65536 - unat d"
  using unat_sub_if_size [of "0 :: u16" d] by (simp add: word_size unat_eq_0)

lemma unat_u16_less: "unat (w :: u16) < 65536"
  by (rule order.strict_trans2 [OF unsigned_less]) simp

lemma newer_asym:
  assumes "newer a b"
  shows "\<not> newer b a"
proof -
  have d: "unat (a - b) \<noteq> 0" "unat (a - b) < 32768" using assms by (auto simp: newer_unat)
  then have "unat (b - a) = 65536 - unat (a - b)"
    using unat_neg_16 [of "a - b"] by (metis minus_diff_eq unat_0)
  with d show ?thesis by (simp add: newer_unat)
qed

lemma newer_total: "a \<noteq> b \<Longrightarrow> unat (a - b) \<noteq> 32768 \<Longrightarrow> newer a b \<or> newer b a"
proof -
  assume n: "a \<noteq> b" "unat (a - b) \<noteq> 32768"
  then have "unat (b - a) = 65536 - unat (a - b)"
    using unat_neg_16 [of "a - b"] by simp
  moreover have "unat (a - b) \<noteq> 0" using n(1) by (simp add: unat_eq_zero)
  moreover have "unat (a - b) < 65536" by (rule unat_u16_less)
  ultimately show ?thesis using n(2) by (auto simp: newer_unat)
qed

lemma at_least_refl [simp]: "at_least a a"
  by (simp add: at_least_def)

lemma newer_not_at_least: "newer a b \<Longrightarrow> \<not> at_least b a"
  by (auto simp: at_least_def dest: newer_asym)

lemma newer_Suc [simp]: "newer (s + 1) s"
  by (simp add: newer_def)

text \<open>Within half the number space the order is transitive.\<close>

lemma newer_trans_window:
  assumes "newer a b" and "newer b c" and "unat (a - b) + unat (b - c) < 32768"
  shows "newer a c"
proof -
  have "a - c = (a - b) + (b - c)" by simp
  then have "unat (a - c) = unat (a - b) + unat (b - c)"
    using assms(3) by (simp only: unat_word_ariths) simp
  then show ?thesis using assms by (simp add: newer_unat)
qed

lemma unat_metric_sum: "unat (metric_sum a b) = min 65535 (unat a + unat b)"
proof -
  have ab: "unat a < 65536" "unat b < 65536" by (rule unat_u16_less)+
  then have n: "unat ((ucast a :: u32) + ucast b) = unat a + unat b"
    by (simp add: unat_word_ariths unsigned_ucast_eq take_bit_eq_mod)
  show ?thesis
  proof (cases "unat a + unat b < 65535")
    case True
    have "unat (ucast ((ucast a :: u32) + ucast b) :: u16) = unat a + unat b"
      using True by (simp add: unsigned_ucast_eq take_bit_eq_mod n)
    then show ?thesis
      using True by (simp add: metric_sum_def Let_def infinity_def word_le_nat_alt n)
  next
    case False
    then show ?thesis
      by (simp add: metric_sum_def Let_def infinity_def word_le_nat_alt n)
  qed
qed

lemma metric_sum_infinity_iff:
  "metric_sum a b = infinity \<longleftrightarrow> 65535 \<le> unat a + unat b"
proof -
  have "metric_sum a b = infinity \<longleftrightarrow> unat (metric_sum a b) = 65535"
    by (simp add: infinity_def word_unat_eq_iff)
  then show ?thesis by (auto simp: unat_metric_sum)
qed

lemma unat_infinity [simp]: "unat infinity = 65535"
  by (simp add: infinity_def)

lemma metric_sum_finite:
  assumes "metric_sum a b \<noteq> infinity"
  shows "unat (metric_sum a b) = unat a + unat b" "a \<noteq> infinity" "b \<noteq> infinity"
  using assms by (auto simp: metric_sum_infinity_iff unat_metric_sum unat_infinity)

lemma hold_mono: "a \<le> b \<Longrightarrow> hold a \<le> hold b"
  by (simp add: hold_def zdiv_mono1)

lemma hold_ge: "0 \<le> d \<Longrightarrow> d \<le> hold d"
  by (simp add: hold_def)

end
