(* ===== verification/Babel_Engine.thy ===== *)
theory Babel_Engine
  imports Babel_Types
begin

section \<open>The Babel routing engine (go/babel/engine.go)\<close>

text \<open>
  The record \<open>engine\<close> is the struct \<open>Engine\<close>; a method that mutates it is a function
  from engine to engine, with the engine as last argument so that methods and loops compose
  by \<open>fold\<close>. Maps are Go maps of theory \<open>Wendy_Prelude\<close>. \<open>linkIDs\<close>, \<open>routeKeys\<close>,
  \<open>requestKeys\<close> and \<open>routeSnapshot\<close> collect a map's keys or values and sort them, so
  they are the ascending list the map is. A pointer into a map (\<open>l := e.links[id]\<close>,
  \<open>r := e.routes[k]\<close>) whose target is mutated is \<open>upd_link\<close> or \<open>upd_route\<close>.
\<close>

record hello_state =
  h_seq :: u16
  h_seen :: bool
  h_expires :: duration

record link_state =
  ls_link :: link
  ls_hello_m :: hello_state
  ls_hello_u :: hello_state
  ls_tx :: u16
  ls_ihu_expires :: duration
  ls_next_hello :: duration
  ls_next_ihu :: duration
  ls_next_update :: duration
  ls_hello_seq :: u16
  ls_last_dump :: duration
  ls_dumped :: bool

record source =
  s_seq :: u16
  s_metric :: u16
  s_expires :: duration

record candidate =
  cd_prefix :: prefix
  cd_link :: link_id
  cd_id :: router_id
  cd_seq :: u16
  cd_adv :: u16
  cd_hop :: addr
  cd_expires :: duration
  cd_interval :: duration
  cd_refresh :: bool

record request =
  q_msg :: message
  q_targets :: "link_id list"
  q_from :: link_id
  q_next :: duration
  q_expires :: duration
  q_remaining :: nat

type_synonym route_key = "prefix \<times> link_id"
type_synonym source_key = "prefix \<times> router_id"

record engine =
  e_cfg :: config
  e_now :: duration
  e_seq :: u16
  e_rng :: u64
  e_last_link :: link_id
  e_links :: "(link_id, link_state) gomap"
  e_routes :: "(route_key, candidate) gomap"
  e_sources :: "(source_key, source) gomap"
  e_local :: "(prefix, u16) gomap"
  e_selected :: "(prefix, route) gomap"
  e_drops :: "(prefix, duration) gomap"
  e_requests :: "(source_key, request) gomap"
  e_out :: "(link_id, message list) gomap"
  e_revision :: u64
  e_pending :: u64
  e_held :: "datagram list"
  e_stopped :: bool
  e_counters :: counters
  e_trigger_at :: duration
  e_trigger :: bool
  e_repeats :: nat

definition new_engine :: "config \<Rightarrow> berror + engine" where
  "new_engine c0 =
     (case check_config c0 of
        Inl err \<Rightarrow> Inl err
      | Inr c \<Rightarrow> Inr \<lparr>e_cfg = c, e_now = 0, e_seq = cfg_initial_seqno c, e_rng = cfg_seed c,
          e_last_link = 0, e_links = [], e_routes = [], e_sources = [], e_local = [],
          e_selected = [], e_drops = [], e_requests = [], e_out = [], e_revision = 0,
          e_pending = 0, e_held = [], e_stopped = False,
          e_counters = \<lparr>c_received = 0, c_malformed = 0, c_stale = 0, c_rejected = 0, c_sent = 0\<rparr>,
          e_trigger_at = 0, e_trigger = False, e_repeats = 0\<rparr>)"

subsection \<open>Access\<close>

definition upd_link :: "link_id \<Rightarrow> (link_state \<Rightarrow> link_state) \<Rightarrow> engine \<Rightarrow> engine" where
  "upd_link lid f e = e\<lparr>e_links := m_adj (\<lambda>k l. if k = lid then f l else l) (e_links e)\<rparr>"

definition upd_route :: "route_key \<Rightarrow> (candidate \<Rightarrow> candidate) \<Rightarrow> engine \<Rightarrow> engine" where
  "upd_route k f e = e\<lparr>e_routes := m_adj (\<lambda>k' r. if k' = k then f r else r) (e_routes e)\<rparr>"

definition reject :: "engine \<Rightarrow> engine" where
  "reject e = e\<lparr>e_counters := (e_counters e)\<lparr>c_rejected := c_rejected (e_counters e) + 1\<rparr>\<rparr>"

definition route_snapshot :: "engine \<Rightarrow> route list" where
  "route_snapshot e = map snd (e_selected e)"

definition centi_dur :: "u16 \<Rightarrow> duration" where
  "centi_dur i = millis (10 * int (unat i))"

definition hello_interval :: "engine \<Rightarrow> link_state \<Rightarrow> duration" where
  "hello_interval e l =
     (if l_hello (ls_link l) \<noteq> 0 then l_hello (ls_link l) else cfg_hello (e_cfg e))"

subsection \<open>Costs, feasibility and policy\<close>

definition link_cost :: "engine \<Rightarrow> link_state \<Rightarrow> u16" where
  "link_cost e l =
     (if ls_ihu_expires l \<le> e_now e \<or> ls_tx l = infinity then infinity
      else if h_expires (ls_hello_m l) \<le> e_now e \<and> h_expires (ls_hello_u l) \<le> e_now e
        then infinity
      else max (l_cost (ls_link l)) (max (ls_tx l) 1))"

definition cost :: "engine \<Rightarrow> link_id \<Rightarrow> u16" where
  "cost e lid = (case map_of (e_links e) lid of None \<Rightarrow> infinity | Some l \<Rightarrow> link_cost e l)"

definition feasible :: "engine \<Rightarrow> candidate \<Rightarrow> bool" where
  "feasible e r \<longleftrightarrow> cd_adv r = infinity \<or>
     (case map_of (e_sources e) (cd_prefix r, cd_id r) of
        None \<Rightarrow> True
      | Some s \<Rightarrow> newer (cd_seq r) (s_seq s) \<or> (cd_seq r = s_seq s \<and> cd_adv r < s_metric s))"

definition accept_route_update :: "engine \<Rightarrow> router_id \<Rightarrow> prefix \<Rightarrow> u16 \<Rightarrow> bool" where
  "accept_route_update e rid p s \<longleftrightarrow>
     (case cfg_accept_route (e_cfg e) of None \<Rightarrow> True | Some f \<Rightarrow> f rid p) \<and>
     (case cfg_accept_update (e_cfg e) of None \<Rightarrow> True | Some f \<Rightarrow> f rid p s)"

definition route_metric :: "engine \<Rightarrow> candidate \<Rightarrow> u16" where
  "route_metric e r =
     (if \<not> accept_route_update e (cd_id r) (cd_prefix r) (cd_seq r) then infinity
      else metric_sum (cd_adv r) (cost e (cd_link r)))"

subsection \<open>Output, jitter and triggered updates\<close>

definition queue_msg :: "link_id \<Rightarrow> message \<Rightarrow> engine \<Rightarrow> engine" where
  "queue_msg lid m e =
     (if map_of (e_links e) lid = None then e
      else e\<lparr>e_out := m_put lid ((case map_of (e_out e) lid of None \<Rightarrow> [] | Some q \<Rightarrow> q) @ [m])
        (e_out e)\<rparr>)"

definition xorshift :: "u64 \<Rightarrow> u64" where
  "xorshift r0 = (let r1 = r0 XOR push_bit 13 r0; r2 = r1 XOR drop_bit 7 r1
     in r2 XOR push_bit 17 r2)"

definition jitter :: "duration \<Rightarrow> engine \<Rightarrow> duration \<times> engine" where
  "jitter maximum e =
     (let r = xorshift (e_rng e)
      in (int (unat (r mod word_of_int (maximum + 1))), e\<lparr>e_rng := r\<rparr>))"

definition schedule_trigger :: "bool \<Rightarrow> engine \<Rightarrow> engine" where
  "schedule_trigger repeat e =
     (let e1 = (if e_trigger e then e
                else let (j, e') = jitter (millis 50) e
                     in e'\<lparr>e_trigger := True, e_trigger_at := e_now e + j\<rparr>)
      in if repeat then e1\<lparr>e_repeats := 2\<rparr> else e1)"

definition retraction :: "engine \<Rightarrow> prefix \<Rightarrow> message" where
  "retraction e p = (zero_msg T_UPDATE)\<lparr>m_prefix := p, m_metric := infinity,
     m_interval := centis (cfg_update (e_cfg e))\<rparr>"

definition update_msg :: "engine \<Rightarrow> route \<Rightarrow> message" where
  "update_msg e r = (zero_msg T_UPDATE)\<lparr>m_prefix := r_prefix r, m_router_id := r_router_id r,
     m_seqno := r_seqno r, m_metric := r_metric r, m_interval := centis (cfg_update (e_cfg e))\<rparr>"

text \<open>
  The IPv4 next-hop choice of \<open>advertise\<close>: an ordinary IPv4 next hop if the link has one,
  else IPv4-via-IPv6 if the forwarding plane supports it, else the route is not sent.
\<close>

definition address_update :: "engine \<Rightarrow> link \<Rightarrow> prefix \<Rightarrow> message \<Rightarrow> message option" where
  "address_update e l p m =
     (if is4 (pfx_addr p) then
        (if l_ipv4 l \<noteq> NoAddr then Some (m\<lparr>m_address := l_ipv4 l\<rparr>)
         else if cfg_v4via6 (e_cfg e) then Some (m\<lparr>m_v4via6 := True\<rparr>)
         else None)
      else Some m)"

definition record_source :: "engine \<Rightarrow> route \<Rightarrow> source \<Rightarrow> source" where
  "record_source e r s =
     (let s' = (if newer (r_seqno r) (s_seq s)
                   \<or> (r_seqno r = s_seq s \<and> r_metric r < s_metric s)
                then s\<lparr>s_seq := r_seqno r, s_metric := r_metric r\<rparr> else s)
      in s'\<lparr>s_expires := e_now e + cfg_source_gc (e_cfg e)\<rparr>)"

definition advertise :: "link_id \<Rightarrow> prefix \<Rightarrow> bool \<Rightarrow> engine \<Rightarrow> engine" where
  "advertise lid p explicit e =
     (case map_of (e_links e) lid of
        None \<Rightarrow> e
      | Some l \<Rightarrow>
          (case map_of (e_selected e) p of
             None \<Rightarrow> queue_msg lid (retraction e p) e
           | Some r \<Rightarrow>
               if r_unreachable r then queue_msg lid (retraction e p) e
               else if r_local r \<and> (case cfg_advertise_local (e_cfg e) of
                    None \<Rightarrow> False | Some f \<Rightarrow> \<not> f (r_router_id r) p (r_seqno r))
                 then schedule_trigger True e
               else if \<not> explicit \<and> r_link r = lid then e
               else
                 (case address_update e (ls_link l) p (update_msg e r) of
                    None \<Rightarrow> e
                  | Some m \<Rightarrow>
                      (let sk = (p, r_router_id r) in
                       case map_of (e_sources e) sk of
                         None \<Rightarrow>
                           if cfg_max_sources (e_cfg e) \<le> int (length (e_sources e)) then reject e
                           else queue_msg lid m (e\<lparr>e_sources := m_put sk
                             (record_source e r \<lparr>s_seq = r_seqno r, s_metric = r_metric r,
                                s_expires = 0\<rparr>) (e_sources e)\<rparr>)
                       | Some s \<Rightarrow>
                           queue_msg lid m (e\<lparr>e_sources :=
                             m_put sk (record_source e r s) (e_sources e)\<rparr>)))))"

definition dump :: "link_id \<Rightarrow> bool \<Rightarrow> engine \<Rightarrow> engine" where
  "dump lid explicit e = fold (\<lambda>r. advertise lid (r_prefix r) explicit) (route_snapshot e) e"

subsection \<open>Seqno requests\<close>

definition request_msg :: "source_key \<Rightarrow> u16 \<Rightarrow> byte \<Rightarrow> message" where
  "request_msg sk seq hops = (zero_msg T_SEQ_REQUEST)\<lparr>m_prefix := fst sk, m_router_id := snd sk,
     m_seqno := seq, m_hopcount := hops\<rparr>"

definition send_request :: "source_key \<Rightarrow> u16 \<Rightarrow> link_id list \<Rightarrow> link_id \<Rightarrow> byte \<Rightarrow> engine \<Rightarrow> engine" where
  "send_request sk seq targets from hops e =
     (if (case map_of (e_requests e) sk of None \<Rightarrow> False
          | Some q \<Rightarrow> at_least (m_seqno (q_msg q)) seq) then e
      else if map_of (e_requests e) sk = None
          \<and> cfg_max_requests (e_cfg e) \<le> int (length (e_requests e)) then reject e
      else
        (let m = request_msg sk seq hops;
             ts = remdups_adj (sort targets);
             e1 = fold (\<lambda>lid. queue_msg lid m) ts e
         in e1\<lparr>e_requests := m_put sk \<lparr>q_msg = m, q_targets = ts, q_from = from,
              q_next = e_now e + seconds 1, q_expires = e_now e + seconds 4, q_remaining = 2\<rparr>
              (e_requests e1)\<rparr>))"

subsection \<open>Route selection\<close>

definition local_route :: "engine \<Rightarrow> prefix \<Rightarrow> u16 \<Rightarrow> route" where
  "local_route e p m = \<lparr>r_prefix = p, r_router_id = cfg_router_id (e_cfg e), r_seqno = e_seq e,
     r_metric = m, r_link = 0, r_next_hop = NoAddr, r_local = True, r_unreachable = False\<rparr>"

definition candidate_route :: "prefix \<Rightarrow> candidate \<Rightarrow> u16 \<Rightarrow> route" where
  "candidate_route p r metric = \<lparr>r_prefix = p, r_router_id = cd_id r, r_seqno = cd_seq r,
     r_metric = metric, r_link = cd_link r, r_next_hop = cd_hop r, r_local = False,
     r_unreachable = False\<rparr>"

definition drop_route :: "prefix \<Rightarrow> route" where
  "drop_route p = \<lparr>r_prefix = p, r_router_id = 0, r_seqno = 0, r_metric = infinity,
     r_link = 0, r_next_hop = NoAddr, r_local = False, r_unreachable = True\<rparr>"

definition local_next :: "engine \<Rightarrow> (prefix, route) gomap" where
  "local_next e = m_adj (local_route e) (e_local e)"

definition try_candidate :: "engine \<Rightarrow> route_key \<times> candidate \<Rightarrow> (prefix, route) gomap \<Rightarrow> (prefix, route) gomap" where
  "try_candidate e kr next =
     (let (k, r) = kr; p = fst k in
      if map_of (e_local e) p \<noteq> None then next
      else
        (let metric = route_metric e r in
         if metric = infinity \<or> \<not> feasible e r then next
         else
           (let previous = (case map_of (e_selected e) p of None \<Rightarrow> 0 | Some v \<Rightarrow> r_link v) in
            if (case map_of next p of None \<Rightarrow> True
                | Some v \<Rightarrow> metric < r_metric v \<or> (metric = r_metric v \<and> cd_link r = previous))
            then m_put p (candidate_route p r metric) next
            else next)))"

definition select_candidates :: "engine \<Rightarrow> (prefix, route) gomap" where
  "select_candidates e = fold (try_candidate e) (e_routes e) (local_next e)"

definition live_links :: "engine \<Rightarrow> prefix \<Rightarrow> link_id list" where
  "live_links e p = map (\<lambda>kr. snd (fst kr)) (filter (\<lambda>(k, r). fst k = p \<and> cd_adv r \<noteq> infinity
     \<and> cost e (snd k) \<noteq> infinity) (e_routes e))"

definition note_lost :: "(prefix, route) gomap \<Rightarrow> route \<Rightarrow> engine \<Rightarrow> engine" where
  "note_lost next was e =
     (let p = r_prefix was in
      if map_of next p = None \<and> \<not> r_unreachable was then
        (let e1 = schedule_trigger True
               (e\<lparr>e_drops := m_put p (e_now e + hold (cfg_update (e_cfg e))) (e_drops e)\<rparr>)
         in case map_of (e_sources e1) (p, r_router_id was) of
              None \<Rightarrow> e1
            | Some s \<Rightarrow>
                (let targets = live_links e1 p in
                 if targets \<noteq> [] then send_request (p, r_router_id was) (s_seq s + 1) targets 0 64 e1
                 else e1))
      else e)"

definition add_drops :: "duration \<Rightarrow> (prefix, duration) gomap \<Rightarrow> (prefix, route) gomap \<Rightarrow> (prefix, route) gomap" where
  "add_drops now drops next =
     fold (\<lambda>(p, until) n. if map_of n p = None \<and> now < until then m_put p (drop_route p) n else n)
       drops next"

definition kept_drops :: "duration \<Rightarrow> (prefix, route) gomap \<Rightarrow> (prefix, duration) gomap \<Rightarrow> (prefix, duration) gomap" where
  "kept_drops now next drops = filter (\<lambda>(p, until). map_of next p = None \<and> now < until) drops"

definition trigger_for :: "(prefix, route) gomap \<Rightarrow> prefix \<times> route \<Rightarrow> engine \<Rightarrow> engine" where
  "trigger_for old pr e =
     (let (p, r) = pr in
      case map_of old p of
        None \<Rightarrow> schedule_trigger True e
      | Some was \<Rightarrow>
          if r_router_id was \<noteq> r_router_id r \<or> r_unreachable was \<noteq> r_unreachable r
          then schedule_trigger True e
          else if r_metric was \<noteq> r_metric r \<or> r_seqno was \<noteq> r_seqno r
          then schedule_trigger False e
          else e)"

definition satisfy_request :: "(prefix, route) gomap \<Rightarrow> source_key \<Rightarrow> engine \<Rightarrow> engine" where
  "satisfy_request next sk e =
     (case (map_of (e_requests e) sk, map_of next (fst sk)) of
        (Some q, Some r) \<Rightarrow>
          if \<not> r_unreachable r \<and> (r_router_id r \<noteq> snd sk \<or> at_least (r_seqno r) (m_seqno (q_msg q)))
          then
            (let e1 = (if q_from q \<noteq> 0 then advertise (q_from q) (fst sk) True e else e)
             in e1\<lparr>e_requests := m_del sk (e_requests e1)\<rparr>)
          else e
      | _ \<Rightarrow> e)"

definition select_routes :: "engine \<Rightarrow> engine" where
  "select_routes e =
     (let old = e_selected e;
          best = select_candidates e;
          e1 = fold (note_lost best) (route_snapshot e) e;
          next = add_drops (e_now e) (e_drops e1) best;
          e2 = e1\<lparr>e_drops := kept_drops (e_now e) best (e_drops e1), e_selected := next\<rparr>;
          e3 = fold (trigger_for old) next e2
      in fold (satisfy_request next) (m_keys (e_requests e3)) e3)"

subsection \<open>Receiving a message\<close>

definition recv_hello :: "link_id \<Rightarrow> message \<Rightarrow> engine \<Rightarrow> engine" where
  "recv_hello lid m e = upd_link lid (\<lambda>l.
     (let h = (if m_unicast m then ls_hello_u l else ls_hello_m l);
          h' = (if \<not> h_seen h \<or> h_expires h \<le> e_now e \<or> newer (m_seqno m) (h_seq h)
            then h\<lparr>h_seq := m_seqno m, h_seen := True,
                   h_expires := (if 0 < m_interval m
                     then e_now e + hold (centi_dur (m_interval m)) else h_expires h)\<rparr>
            else h)
      in if m_unicast m then l\<lparr>ls_hello_u := h'\<rparr> else l\<lparr>ls_hello_m := h'\<rparr>)) e"

definition recv_ihu :: "link_id \<Rightarrow> message \<Rightarrow> engine \<Rightarrow> engine" where
  "recv_ihu lid m e = upd_link lid (\<lambda>l.
     if m_address m = NoAddr \<or> m_address m = l_local (ls_link l) \<or> m_address m = l_ipv4 (ls_link l)
     then l\<lparr>ls_tx := m_metric m, ls_ihu_expires := e_now e + hold (centi_dur (m_interval m))\<rparr>
     else l) e"

definition new_candidate :: "engine \<Rightarrow> link_id \<Rightarrow> message \<Rightarrow> candidate" where
  "new_candidate e lid m = \<lparr>cd_prefix = m_prefix m, cd_link = lid, cd_id = m_router_id m,
     cd_seq = m_seqno m, cd_adv = m_metric m, cd_hop = m_address m,
     cd_expires = e_now e + hold (centi_dur (m_interval m)),
     cd_interval = centi_dur (m_interval m), cd_refresh = False\<rparr>"

definition update_refused :: "engine \<Rightarrow> addr \<Rightarrow> link_id \<Rightarrow> message \<Rightarrow> bool" where
  "update_refused e peer lid m \<longleftrightarrow>
     \<not> routable_prefix (m_prefix m)
     \<or> \<not> accept_route_update e (m_router_id m) (m_prefix m) (m_seqno m)
     \<or> m_router_id m = cfg_router_id (e_cfg e)
     \<or> m_v4via6 m \<and> \<not> cfg_v4via6 (e_cfg e)
     \<or> is6 (m_address m) \<and> m_address m \<noteq> peer
     \<or> map_of (e_sources e) (m_prefix m, m_router_id m) = None
         \<and> cfg_max_sources (e_cfg e) \<le> int (length (e_sources e))
     \<or> map_of (e_routes e) (m_prefix m, lid) = None
         \<and> cfg_max_routes (e_cfg e)
             \<le> int (length (e_routes e) + length (e_local e) + length (e_drops e))"

definition recv_update :: "link_id \<Rightarrow> addr \<Rightarrow> message \<Rightarrow> engine \<Rightarrow> engine" where
  "recv_update lid peer m e =
     (let k = (m_prefix m, lid); sk = (m_prefix m, m_router_id m) in
      if m_wildcard m then
        e\<lparr>e_routes := m_adj (\<lambda>k r. if snd k = lid then r\<lparr>cd_adv := infinity\<rparr> else r) (e_routes e)\<rparr>
      else if m_metric m = infinity then upd_route k (\<lambda>r. r\<lparr>cd_adv := infinity\<rparr>) e
      else if update_refused e peer lid m then reject e
      else
        (let e1 = (case map_of (e_routes e) k of
               None \<Rightarrow> e
             | Some r \<Rightarrow> if cd_id r \<noteq> 0 \<and> cd_id r \<noteq> m_router_id m
                 then schedule_trigger True e else e);
             r = new_candidate e lid m;
             e2 = e1\<lparr>e_routes := m_put k r (e_routes e1)\<rparr>
         in if feasible e2 r then e2
            else
              (case map_of (e_sources e2) sk of
                 None \<Rightarrow> e2
               | Some s \<Rightarrow>
                   if (case map_of (e_selected e2) (m_prefix m) of
                         None \<Rightarrow> True
                       | Some v \<Rightarrow> r_unreachable v \<or> r_link v = lid \<or> route_metric e2 r < r_metric v)
                   then send_request sk (s_seq s + 1) [lid] 0 64 e2
                   else e2)))"

definition better_forward :: "engine \<Rightarrow> candidate \<Rightarrow> candidate \<Rightarrow> bool" where
  "better_forward e c best \<longleftrightarrow>
     (feasible e c \<and> \<not> feasible e best)
     \<or> (feasible e c = feasible e best \<and> route_metric e c < route_metric e best)"

definition best_forward :: "engine \<Rightarrow> prefix \<Rightarrow> link_id \<Rightarrow> candidate option" where
  "best_forward e p from =
     fold (\<lambda>(k, c) best.
        if fst k \<noteq> p \<or> snd k = from \<or> route_metric e c = infinity then best
        else (case best of None \<Rightarrow> Some c
              | Some b \<Rightarrow> if better_forward e c b then Some c else best))
       (e_routes e) None"

text \<open>Only requests for prefixes that this node has advertised are forwarded.\<close>

definition seq_forward :: "link_id \<Rightarrow> message \<Rightarrow> engine \<Rightarrow> engine" where
  "seq_forward from m e =
     (if m_router_id m = cfg_router_id (e_cfg e) \<or> m_hopcount m < 2 then e
      else if \<not> list_ex (\<lambda>(sk, s). fst sk = m_prefix m) (e_sources e) then e
      else case best_forward e (m_prefix m) from of
             None \<Rightarrow> e
           | Some best \<Rightarrow> send_request (m_prefix m, m_router_id m) (m_seqno m) [cd_link best] from
               (m_hopcount m - 1) e)"

definition seq_request :: "link_id \<Rightarrow> message \<Rightarrow> engine \<Rightarrow> engine" where
  "seq_request from m e =
     (case map_of (e_selected e) (m_prefix m) of
        None \<Rightarrow> seq_forward from m e
      | Some r \<Rightarrow>
          if r_unreachable r then seq_forward from m e
          else if r_router_id r \<noteq> m_router_id m \<or> at_least (r_seqno r) (m_seqno m)
            then advertise from (m_prefix m) True e
          else if r_local r
            then advertise from (m_prefix m) True (select_routes (e\<lparr>e_seq := e_seq e + 1\<rparr>))
          else seq_forward from m e)"

definition route_request :: "link_id \<Rightarrow> message \<Rightarrow> engine \<Rightarrow> engine" where
  "route_request lid m e =
     (if m_wildcard m then
        (case map_of (e_links e) lid of
           None \<Rightarrow> e
         | Some l \<Rightarrow>
             if \<not> ls_dumped l \<or> hello_interval e l \<le> e_now e - ls_last_dump l
             then upd_link lid (\<lambda>l. l\<lparr>ls_last_dump := e_now e, ls_dumped := True\<rparr>) (dump lid True e)
             else e)
      else advertise lid (m_prefix m) True e)"

definition receive_msg :: "link_id \<Rightarrow> addr \<Rightarrow> message \<Rightarrow> engine \<Rightarrow> engine" where
  "receive_msg lid peer m e =
     (let t = m_type m in
      if t = T_HELLO then recv_hello lid m e
      else if t = T_IHU then recv_ihu lid m e
      else if t = T_ACK_REQUEST then
        queue_msg lid ((zero_msg T_ACK)\<lparr>m_opaque := m_opaque m\<rparr>) e
      else if t = T_UPDATE then recv_update lid peer m e
      else if t = T_REQUEST then route_request lid m e
      else if t = T_SEQ_REQUEST then seq_request lid m e
      else e)"

text \<open>
  The loop over the messages of a packet: consecutive advertisements are batched, and a
  request sees every change before it.
\<close>

definition receive_one :: "link_id \<Rightarrow> addr \<Rightarrow> message \<Rightarrow> engine \<Rightarrow> engine" where
  "receive_one lid peer m e =
     receive_msg lid peer m
       (if m_type m = T_REQUEST \<or> m_type m = T_SEQ_REQUEST then select_routes e else e)"

definition receive_packet :: "link_id \<Rightarrow> bytes \<Rightarrow> engine \<Rightarrow> engine" where
  "receive_packet lid packet e =
     (let count = (\<lambda>f. e\<lparr>e_counters := f (e_counters e)\<rparr>) in
      case map_of (e_links e) lid of
        None \<Rightarrow> count (\<lambda>c. c\<lparr>c_stale := c_stale c + 1\<rparr>)
      | Some l \<Rightarrow>
          (let bad = count (\<lambda>c. c\<lparr>c_received := c_received c + 1, c_malformed := c_malformed c + 1\<rparr>) in
           if l_max_packet (ls_link l) < int (length packet) then bad
           else case decode packet (l_peer (ls_link l)) of
             None \<Rightarrow> bad
           | Some msgs \<Rightarrow> fold (receive_one lid (l_peer (ls_link l))) msgs
               (count (\<lambda>c. c\<lparr>c_received := c_received c + 1\<rparr>))))"

subsection \<open>Expiry and timers\<close>

definition expire_routes :: "duration \<Rightarrow> (route_key, candidate) gomap \<Rightarrow> (route_key, candidate) gomap" where
  "expire_routes now rs =
     m_adj (\<lambda>k r. if cd_expires r \<le> now
              then r\<lparr>cd_adv := infinity, cd_expires := now + hold (cd_interval r)\<rparr> else r)
       (filter (\<lambda>(k, r). \<not> (cd_expires r \<le> now \<and> cd_adv r = infinity)) rs)"

definition expire :: "engine \<Rightarrow> engine" where
  "expire e = e\<lparr>e_routes := expire_routes (e_now e) (e_routes e),
     e_sources := filter (\<lambda>(k, s). e_now e < s_expires s) (e_sources e),
     e_requests := filter (\<lambda>(k, q). e_now e < q_expires q) (e_requests e)\<rparr>"

definition hello_timer :: "link_id \<Rightarrow> link_state \<Rightarrow> engine \<Rightarrow> engine" where
  "hello_timer lid l e =
     (if ls_next_hello l \<le> e_now e then
        (let hi = hello_interval e l;
             e1 = queue_msg lid ((zero_msg T_HELLO)\<lparr>m_seqno := ls_hello_seq l,
                    m_interval := centis hi\<rparr>) e;
             (j, e2) = jitter (hi div 8) e1
         in upd_link lid (\<lambda>l. l\<lparr>ls_hello_seq := ls_hello_seq l + 1,
              ls_next_hello := e_now e + hi - j\<rparr>) e2)
      else e)"

definition ihu_timer :: "link_id \<Rightarrow> link_state \<Rightarrow> engine \<Rightarrow> engine" where
  "ihu_timer lid l e =
     (if ls_next_ihu l \<le> e_now e then
        (let hi = hello_interval e l;
             rx = (if h_expires (ls_hello_m l) \<le> e_now e \<and> h_expires (ls_hello_u l) \<le> e_now e
                   then infinity else l_cost (ls_link l));
             e1 = queue_msg lid ((zero_msg T_IHU)\<lparr>m_metric := rx, m_interval := centis (hi * 2)\<rparr>) e;
             (j, e2) = jitter (hi div 8) e1
         in upd_link lid (\<lambda>l. l\<lparr>ls_next_ihu := e_now e + hi * 2 - j\<rparr>) e2)
      else e)"

definition update_timer :: "link_id \<Rightarrow> link_state \<Rightarrow> engine \<Rightarrow> engine" where
  "update_timer lid l e =
     (if ls_next_update l \<le> e_now e then
        (let ui = cfg_update (e_cfg e);
             (j, e2) = jitter (ui div 8) (dump lid False e)
         in upd_link lid (\<lambda>l. l\<lparr>ls_next_update := e_now e + ui - j\<rparr>) e2)
      else e)"

text \<open>The three link timers read fields the earlier ones do not write, so one lookup serves.\<close>

definition link_timers :: "link_id \<Rightarrow> engine \<Rightarrow> engine" where
  "link_timers lid e =
     (case map_of (e_links e) lid of
        None \<Rightarrow> e
      | Some l \<Rightarrow> update_timer lid l (ihu_timer lid l (hello_timer lid l e)))"

definition trigger_timer :: "engine \<Rightarrow> engine" where
  "trigger_timer e =
     (if e_trigger e \<and> e_trigger_at e \<le> e_now e then
        (let e1 = fold (\<lambda>lid. dump lid False) (m_keys (e_links e)) e in
         if 0 < e_repeats e1 then
           (let (j, e2) = jitter (millis 50) e1
            in e2\<lparr>e_repeats := e_repeats e1 - 1, e_trigger_at := e_now e + millis 100 + j\<rparr>)
         else e1\<lparr>e_trigger := False\<rparr>)
      else e)"

definition request_timer :: "source_key \<Rightarrow> engine \<Rightarrow> engine" where
  "request_timer sk e =
     (case map_of (e_requests e) sk of
        None \<Rightarrow> e
      | Some q \<Rightarrow>
          if 0 < q_remaining q \<and> q_next q \<le> e_now e then
            (let e1 = fold (\<lambda>lid. queue_msg lid (q_msg q)) (q_targets q) e
             in e1\<lparr>e_requests := m_put sk (q\<lparr>q_remaining := q_remaining q - 1,
                  q_next := e_now e + seconds 1\<rparr>) (e_requests e1)\<rparr>)
          else e)"

definition refresh_timer :: "route_key \<Rightarrow> engine \<Rightarrow> engine" where
  "refresh_timer k e =
     (case (map_of (e_routes e) k, map_of (e_selected e) (fst k)) of
        (Some r, Some sel) \<Rightarrow>
          if r_link sel = snd k \<and> \<not> cd_refresh r \<and> cd_adv r \<noteq> infinity
             \<and> cd_expires r - e_now e \<le> cd_interval r
          then upd_route k (\<lambda>r. r\<lparr>cd_refresh := True\<rparr>)
            (queue_msg (snd k) ((zero_msg T_REQUEST)\<lparr>m_prefix := fst k\<rparr>) e)
          else e
      | _ \<Rightarrow> e)"

definition timers :: "engine \<Rightarrow> engine" where
  "timers e =
     (let e1 = trigger_timer (fold link_timers (m_keys (e_links e)) e);
          e2 = fold request_timer (m_keys (e_requests e1)) e1
      in fold refresh_timer (m_keys (e_routes e2)) e2)"

definition flush_link :: "link_id \<Rightarrow> datagram list \<times> engine \<Rightarrow> datagram list \<times> engine" where
  "flush_link lid s =
     (let (out, e) = s in
      case map_of (e_links e) lid of
        None \<Rightarrow> s
      | Some l \<Rightarrow>
          (let ps = pack (case map_of (e_out e) lid of None \<Rightarrow> [] | Some q \<Rightarrow> q)
                 (nat (l_max_packet (ls_link l)))
           in (out @ map (Pair lid) ps,
               e\<lparr>e_counters := (e_counters e)\<lparr>c_sent := c_sent (e_counters e)
                    + word_of_nat (length ps)\<rparr>,
                 e_out := m_del lid (e_out e)\<rparr>)))"

definition flush_out :: "engine \<Rightarrow> datagram list \<times> engine" where
  "flush_out e = fold flush_link (m_keys (e_links e)) ([], e)"

subsection \<open>Step and Commit\<close>

definition bad_link :: "engine \<Rightarrow> link \<Rightarrow> bool" where
  "bad_link e l \<longleftrightarrow>
     l_id l = 0 \<or> l_id l \<le> e_last_link e \<or> \<not> is6 (l_local l) \<or> \<not> is6 (l_peer l)
     \<or> \<not> is_link_local_unicast (l_local l) \<or> \<not> is_link_local_unicast (l_peer l)
     \<or> l_local l = l_peer l \<or> zone (l_local l) \<noteq> '''' \<or> zone (l_peer l) \<noteq> '''' \<or> l_cost l = 0
     \<or> l_hello l \<noteq> 0 \<and> (l_hello l < millis 100 \<or> millis (32767 * 10) < l_hello l \<or> l_hello l mod millis 10 \<noteq> 0)
     \<or> l_max_packet l \<noteq> 0 \<and> (l_max_packet l < 512 \<or> 65487 < l_max_packet l)
     \<or> l_ipv4 l \<noteq> NoAddr \<and> (\<not> is4 (l_ipv4 l) \<or> is_unspecified (l_ipv4 l) \<or> is_multicast (l_ipv4 l))"

fun validate :: "engine \<Rightarrow> event \<Rightarrow> berror option" where
  "validate e Tick = None"
| "validate e (AddLink l) =
     (if bad_link e l then Some ErrConfig
      else if cfg_max_links (e_cfg e) \<le> int (length (e_links e)) then Some ErrLimit
      else None)"
| "validate e (RemoveLink _) = None"
| "validate e (SetCost _ c) = (if c = 0 then Some ErrConfig else None)"
| "validate e (Receive _ _) = None"
| "validate e (Originate p m) =
     (if \<not> routable_prefix p \<or> m = infinity then Some ErrConfig
      else if map_of (e_local e) p = None
          \<and> cfg_max_routes (e_cfg e)
              \<le> int (length (e_local e) + length (e_routes e) + length (e_drops e))
        then Some ErrLimit
      else if map_of (e_sources e) (p, cfg_router_id (e_cfg e)) = None
          \<and> cfg_max_sources (e_cfg e) \<le> int (length (e_sources e)) then Some ErrLimit
      else None)"
| "validate e (Withdraw p) = (if \<not> valid_prefix p then Some ErrConfig else None)"

definition new_link_state :: "engine \<Rightarrow> link \<Rightarrow> link_state" where
  "new_link_state e l =
     (let h = \<lparr>h_seq = 0, h_seen = False, h_expires = 0\<rparr> in
      \<lparr>ls_link = l\<lparr>l_max_packet := (if l_max_packet l = 0 then 1200 else l_max_packet l)\<rparr>,
       ls_hello_m = h, ls_hello_u = h, ls_tx = infinity, ls_ihu_expires = 0,
       ls_next_hello = e_now e, ls_next_ihu = e_now e, ls_next_update = e_now e,
       ls_hello_seq = 0, ls_last_dump = 0, ls_dumped = False\<rparr>)"

fun handle_event :: "event \<Rightarrow> engine \<Rightarrow> engine" where
  "handle_event Tick e = e"
| "handle_event (AddLink l) e =
     queue_msg (l_id l) ((zero_msg T_REQUEST)\<lparr>m_wildcard := True\<rparr>)
       (e\<lparr>e_links := m_put (l_id l) (new_link_state e l) (e_links e), e_last_link := l_id l\<rparr>)"
| "handle_event (RemoveLink i) e =
     e\<lparr>e_links := m_del i (e_links e), e_out := m_del i (e_out e),
       e_routes := m_adj (\<lambda>k r. if snd k = i
         then r\<lparr>cd_adv := infinity, cd_expires := e_now e + hold (cfg_update (e_cfg e))\<rparr> else r)
         (e_routes e)\<rparr>"
| "handle_event (SetCost i c) e = upd_link i (\<lambda>l. l\<lparr>ls_link := (ls_link l)\<lparr>l_cost := c\<rparr>\<rparr>) e"
| "handle_event (Receive i packet) e = receive_packet i packet e"
| "handle_event (Originate p m) e =
     e\<lparr>e_local := m_put p m (e_local e), e_drops := m_del p (e_drops e)\<rparr>"
| "handle_event (Withdraw p) e = e\<lparr>e_local := m_del p (e_local e)\<rparr>"

definition max_time :: duration where
  "max_time = 2 ^ 63 - 1 - seconds 172800"

definition step :: "duration \<Rightarrow> event \<Rightarrow> engine \<Rightarrow> (berror + effects) \<times> engine" where
  "step now ev e =
     (if e_stopped e then (Inl ErrStopped, e)
      else if e_pending e \<noteq> 0 then (Inl ErrPending, e)
      else if now < e_now e then (Inl ErrTime, e)
      else if max_time < now then (Inl ErrTime, e)
      else case validate e ev of
        Some err \<Rightarrow> (Inl err, e)
      | None \<Rightarrow>
          (let old = route_snapshot e;
               e1 = timers (select_routes (handle_event ev (expire (e\<lparr>e_now := now\<rparr>))));
               (packets, e2) = flush_out e1;
               routes = route_snapshot e2
           in if old \<noteq> routes
              then (Inr \<lparr>eff_revision = e_revision e2 + 1, eff_routes = routes, eff_datagrams = []\<rparr>,
                    e2\<lparr>e_revision := e_revision e2 + 1, e_pending := e_revision e2 + 1,
                       e_held := packets\<rparr>)
              else (Inr (no_effects\<lparr>eff_datagrams := packets\<rparr>), e2)))"

definition commit :: "u64 \<Rightarrow> bool \<Rightarrow> engine \<Rightarrow> (berror + effects) \<times> engine" where
  "commit revision success e =
     (if e_stopped e then (Inl ErrStopped, e)
      else if revision = 0 \<or> revision \<noteq> e_pending e then (Inl ErrRevision, e)
      else if \<not> success
        then (Inl ErrStopped, e\<lparr>e_pending := 0, e_stopped := True, e_held := []\<rparr>)
      else (Inr (no_effects\<lparr>eff_datagrams := e_held e\<rparr>), e\<lparr>e_pending := 0, e_held := []\<rparr>))"

subsection \<open>Deadlines and snapshots\<close>

definition deadlines :: "engine \<Rightarrow> duration list" where
  "deadlines e =
     concat (map (\<lambda>(k, l). [ls_next_hello l, ls_next_ihu l, ls_next_update l, ls_ihu_expires l,
         h_expires (ls_hello_m l), h_expires (ls_hello_u l)]) (e_links e))
     @ concat (map (\<lambda>(k, r). cd_expires r #
         (if cd_refresh r then [] else [cd_expires r - cd_interval r])) (e_routes e))
     @ map (\<lambda>(k, s). s_expires s) (e_sources e)
     @ map snd (e_drops e)
     @ concat (map (\<lambda>(k, q). q_expires q # (if 0 < q_remaining q then [q_next q] else []))
         (e_requests e))"

definition add_deadline :: "duration \<Rightarrow> duration \<Rightarrow> duration option \<Rightarrow> duration option" where
  "add_deadline now d best =
     (if now < d \<and> (case best of None \<Rightarrow> True | Some b \<Rightarrow> d < b) then Some d else best)"

definition next_deadline :: "engine \<Rightarrow> duration option" where
  "next_deadline e =
     (if e_stopped e \<or> e_pending e \<noteq> 0 then None
      else
        (let best = fold (add_deadline (e_now e)) (deadlines e) None in
         if e_trigger e then
           (if e_trigger_at e \<le> e_now e then Some (e_now e)
            else add_deadline (e_now e) (e_trigger_at e) best)
         else best))"

record snapshot =
  sn_now :: duration
  sn_seqno :: u16
  sn_routes :: "route list"
  sn_neighbours :: "(link_id \<times> u16 \<times> bool) list"
  sn_sources :: nat
  sn_candidates :: nat
  sn_requests :: nat
  sn_counters :: counters

definition engine_snapshot :: "engine \<Rightarrow> snapshot" where
  "engine_snapshot e = \<lparr>sn_now = e_now e, sn_seqno = e_seq e, sn_routes = route_snapshot e,
     sn_neighbours = map (\<lambda>i. (i, cost e i, cost e i \<noteq> infinity)) (m_keys (e_links e)),
     sn_sources = length (e_sources e), sn_candidates = length (e_routes e),
     sn_requests = length (e_requests e), sn_counters = e_counters e\<rparr>"

end
