(* ===== verification/Babel_Frame.thy ===== *)
theory Babel_Frame
  imports Babel_Engine
begin

section \<open>What each engine method leaves alone\<close>

text \<open>
  For every method of the engine, the fields it does not write. The other theories rest on
  these equations instead of unfolding a method to read a field it never touches.
\<close>

lemma fold_keeps: "(\<And>x s. g (f x s) = g s) \<Longrightarrow> g (fold f xs s) = g s"
  by (induction xs arbitrary: s) simp_all

lemma fold_keeps_snd: "(\<And>x s. g (snd (f x s)) = g (snd s)) \<Longrightarrow> g (snd (fold f xs s)) = g (snd s)"
  by (induction xs arbitrary: s) simp_all

lemma queue_msg_frame [simp]:
  "e_cfg (queue_msg lid m e) = e_cfg e" "e_now (queue_msg lid m e) = e_now e"
  "e_seq (queue_msg lid m e) = e_seq e" "e_rng (queue_msg lid m e) = e_rng e"
  "e_last_link (queue_msg lid m e) = e_last_link e" "e_links (queue_msg lid m e) = e_links e"
  "e_routes (queue_msg lid m e) = e_routes e" "e_sources (queue_msg lid m e) = e_sources e"
  "e_local (queue_msg lid m e) = e_local e" "e_selected (queue_msg lid m e) = e_selected e"
  "e_drops (queue_msg lid m e) = e_drops e" "e_requests (queue_msg lid m e) = e_requests e"
  "e_revision (queue_msg lid m e) = e_revision e" "e_pending (queue_msg lid m e) = e_pending e"
  "e_held (queue_msg lid m e) = e_held e" "e_stopped (queue_msg lid m e) = e_stopped e"
  "e_counters (queue_msg lid m e) = e_counters e"
  "e_trigger_at (queue_msg lid m e) = e_trigger_at e" "e_trigger (queue_msg lid m e) = e_trigger e"
  "e_repeats (queue_msg lid m e) = e_repeats e"
  by (simp_all add: queue_msg_def)

lemma jitter_frame [simp]:
  "e_cfg (snd (jitter d e)) = e_cfg e" "e_now (snd (jitter d e)) = e_now e"
  "e_seq (snd (jitter d e)) = e_seq e" "e_last_link (snd (jitter d e)) = e_last_link e"
  "e_links (snd (jitter d e)) = e_links e" "e_routes (snd (jitter d e)) = e_routes e"
  "e_sources (snd (jitter d e)) = e_sources e" "e_local (snd (jitter d e)) = e_local e"
  "e_selected (snd (jitter d e)) = e_selected e" "e_drops (snd (jitter d e)) = e_drops e"
  "e_requests (snd (jitter d e)) = e_requests e" "e_out (snd (jitter d e)) = e_out e"
  "e_revision (snd (jitter d e)) = e_revision e" "e_pending (snd (jitter d e)) = e_pending e"
  "e_held (snd (jitter d e)) = e_held e" "e_stopped (snd (jitter d e)) = e_stopped e"
  "e_counters (snd (jitter d e)) = e_counters e" "e_trigger_at (snd (jitter d e)) = e_trigger_at e"
  "e_trigger (snd (jitter d e)) = e_trigger e" "e_repeats (snd (jitter d e)) = e_repeats e"
  by (simp_all add: jitter_def Let_def)

lemma schedule_trigger_frame [simp]:
  "e_cfg (schedule_trigger b e) = e_cfg e" "e_now (schedule_trigger b e) = e_now e"
  "e_seq (schedule_trigger b e) = e_seq e" "e_last_link (schedule_trigger b e) = e_last_link e"
  "e_links (schedule_trigger b e) = e_links e" "e_routes (schedule_trigger b e) = e_routes e"
  "e_sources (schedule_trigger b e) = e_sources e" "e_local (schedule_trigger b e) = e_local e"
  "e_selected (schedule_trigger b e) = e_selected e" "e_drops (schedule_trigger b e) = e_drops e"
  "e_requests (schedule_trigger b e) = e_requests e" "e_out (schedule_trigger b e) = e_out e"
  "e_revision (schedule_trigger b e) = e_revision e"
  "e_pending (schedule_trigger b e) = e_pending e" "e_held (schedule_trigger b e) = e_held e"
  "e_stopped (schedule_trigger b e) = e_stopped e"
  "e_counters (schedule_trigger b e) = e_counters e"
  by (simp_all add: schedule_trigger_def Let_def split_beta)

lemma reject_frame [simp]:
  "e_cfg (reject e) = e_cfg e" "e_now (reject e) = e_now e" "e_seq (reject e) = e_seq e"
  "e_rng (reject e) = e_rng e" "e_last_link (reject e) = e_last_link e"
  "e_links (reject e) = e_links e" "e_routes (reject e) = e_routes e"
  "e_sources (reject e) = e_sources e" "e_local (reject e) = e_local e"
  "e_selected (reject e) = e_selected e" "e_drops (reject e) = e_drops e"
  "e_requests (reject e) = e_requests e" "e_out (reject e) = e_out e"
  "e_revision (reject e) = e_revision e" "e_pending (reject e) = e_pending e"
  "e_held (reject e) = e_held e" "e_stopped (reject e) = e_stopped e"
  "e_trigger_at (reject e) = e_trigger_at e" "e_trigger (reject e) = e_trigger e"
  "e_repeats (reject e) = e_repeats e"
  by (simp_all add: reject_def)

lemma advertise_frame [simp]:
  "e_cfg (advertise lid p x e) = e_cfg e" "e_now (advertise lid p x e) = e_now e"
  "e_seq (advertise lid p x e) = e_seq e" "e_last_link (advertise lid p x e) = e_last_link e"
  "e_links (advertise lid p x e) = e_links e" "e_routes (advertise lid p x e) = e_routes e"
  "e_local (advertise lid p x e) = e_local e" "e_selected (advertise lid p x e) = e_selected e"
  "e_drops (advertise lid p x e) = e_drops e" "e_requests (advertise lid p x e) = e_requests e"
  "e_revision (advertise lid p x e) = e_revision e" "e_pending (advertise lid p x e) = e_pending e"
  "e_held (advertise lid p x e) = e_held e" "e_stopped (advertise lid p x e) = e_stopped e"
  by (simp_all add: advertise_def Let_def split: option.split)

lemma dump_frame [simp]:
  "e_cfg (dump lid x e) = e_cfg e" "e_now (dump lid x e) = e_now e" "e_seq (dump lid x e) = e_seq e"
  "e_last_link (dump lid x e) = e_last_link e" "e_links (dump lid x e) = e_links e"
  "e_routes (dump lid x e) = e_routes e" "e_local (dump lid x e) = e_local e"
  "e_selected (dump lid x e) = e_selected e" "e_drops (dump lid x e) = e_drops e"
  "e_requests (dump lid x e) = e_requests e" "e_revision (dump lid x e) = e_revision e"
  "e_pending (dump lid x e) = e_pending e" "e_held (dump lid x e) = e_held e"
  "e_stopped (dump lid x e) = e_stopped e"
  by (simp_all add: dump_def fold_keeps)

lemma request_frame [simp]:
  "e_cfg (send_request sk s ts from h e) = e_cfg e" "e_now (send_request sk s ts from h e) = e_now e"
  "e_seq (send_request sk s ts from h e) = e_seq e" "e_rng (send_request sk s ts from h e) = e_rng e"
  "e_last_link (send_request sk s ts from h e) = e_last_link e"
  "e_links (send_request sk s ts from h e) = e_links e"
  "e_routes (send_request sk s ts from h e) = e_routes e"
  "e_sources (send_request sk s ts from h e) = e_sources e"
  "e_local (send_request sk s ts from h e) = e_local e"
  "e_selected (send_request sk s ts from h e) = e_selected e"
  "e_drops (send_request sk s ts from h e) = e_drops e"
  "e_revision (send_request sk s ts from h e) = e_revision e"
  "e_pending (send_request sk s ts from h e) = e_pending e"
  "e_held (send_request sk s ts from h e) = e_held e"
  "e_stopped (send_request sk s ts from h e) = e_stopped e"
  "e_trigger_at (send_request sk s ts from h e) = e_trigger_at e"
  "e_trigger (send_request sk s ts from h e) = e_trigger e"
  "e_repeats (send_request sk s ts from h e) = e_repeats e"
  by (simp_all add: send_request_def Let_def fold_keeps)

lemma note_lost_frame [simp]:
  "e_cfg (note_lost nx was e) = e_cfg e" "e_now (note_lost nx was e) = e_now e"
  "e_seq (note_lost nx was e) = e_seq e" "e_last_link (note_lost nx was e) = e_last_link e"
  "e_links (note_lost nx was e) = e_links e" "e_routes (note_lost nx was e) = e_routes e"
  "e_sources (note_lost nx was e) = e_sources e" "e_local (note_lost nx was e) = e_local e"
  "e_selected (note_lost nx was e) = e_selected e" "e_revision (note_lost nx was e) = e_revision e"
  "e_pending (note_lost nx was e) = e_pending e" "e_held (note_lost nx was e) = e_held e"
  "e_stopped (note_lost nx was e) = e_stopped e"
  by (simp_all add: note_lost_def Let_def split: option.split)

lemma trigger_for_frame [simp]:
  "e_cfg (trigger_for old pr e) = e_cfg e" "e_now (trigger_for old pr e) = e_now e"
  "e_seq (trigger_for old pr e) = e_seq e" "e_last_link (trigger_for old pr e) = e_last_link e"
  "e_links (trigger_for old pr e) = e_links e" "e_routes (trigger_for old pr e) = e_routes e"
  "e_sources (trigger_for old pr e) = e_sources e" "e_local (trigger_for old pr e) = e_local e"
  "e_selected (trigger_for old pr e) = e_selected e" "e_drops (trigger_for old pr e) = e_drops e"
  "e_requests (trigger_for old pr e) = e_requests e" "e_out (trigger_for old pr e) = e_out e"
  "e_revision (trigger_for old pr e) = e_revision e"
  "e_pending (trigger_for old pr e) = e_pending e" "e_held (trigger_for old pr e) = e_held e"
  "e_stopped (trigger_for old pr e) = e_stopped e"
  "e_counters (trigger_for old pr e) = e_counters e"
  by (cases pr; simp add: trigger_for_def split: option.split)+

lemma satisfy_request_frame [simp]:
  "e_cfg (satisfy_request nx sk e) = e_cfg e" "e_now (satisfy_request nx sk e) = e_now e"
  "e_seq (satisfy_request nx sk e) = e_seq e"
  "e_last_link (satisfy_request nx sk e) = e_last_link e"
  "e_links (satisfy_request nx sk e) = e_links e" "e_routes (satisfy_request nx sk e) = e_routes e"
  "e_local (satisfy_request nx sk e) = e_local e"
  "e_selected (satisfy_request nx sk e) = e_selected e"
  "e_drops (satisfy_request nx sk e) = e_drops e"
  "e_revision (satisfy_request nx sk e) = e_revision e"
  "e_pending (satisfy_request nx sk e) = e_pending e" "e_held (satisfy_request nx sk e) = e_held e"
  "e_stopped (satisfy_request nx sk e) = e_stopped e"
  by (simp_all add: satisfy_request_def Let_def split: option.split)

lemma select_routes_frame [simp]:
  "e_cfg (select_routes e) = e_cfg e" "e_now (select_routes e) = e_now e"
  "e_seq (select_routes e) = e_seq e" "e_last_link (select_routes e) = e_last_link e"
  "e_links (select_routes e) = e_links e" "e_routes (select_routes e) = e_routes e"
  "e_local (select_routes e) = e_local e" "e_revision (select_routes e) = e_revision e"
  "e_pending (select_routes e) = e_pending e" "e_held (select_routes e) = e_held e"
  "e_stopped (select_routes e) = e_stopped e"
  by (simp_all add: select_routes_def Let_def fold_keeps)

lemma upd_link_frame [simp]:
  "e_cfg (upd_link lid f e) = e_cfg e" "e_now (upd_link lid f e) = e_now e"
  "e_seq (upd_link lid f e) = e_seq e" "e_rng (upd_link lid f e) = e_rng e"
  "e_last_link (upd_link lid f e) = e_last_link e" "e_routes (upd_link lid f e) = e_routes e"
  "e_sources (upd_link lid f e) = e_sources e" "e_local (upd_link lid f e) = e_local e"
  "e_selected (upd_link lid f e) = e_selected e" "e_drops (upd_link lid f e) = e_drops e"
  "e_requests (upd_link lid f e) = e_requests e" "e_out (upd_link lid f e) = e_out e"
  "e_revision (upd_link lid f e) = e_revision e" "e_pending (upd_link lid f e) = e_pending e"
  "e_held (upd_link lid f e) = e_held e" "e_stopped (upd_link lid f e) = e_stopped e"
  "e_counters (upd_link lid f e) = e_counters e" "e_trigger_at (upd_link lid f e) = e_trigger_at e"
  "e_trigger (upd_link lid f e) = e_trigger e" "e_repeats (upd_link lid f e) = e_repeats e"
  by (simp_all add: upd_link_def)

lemma upd_route_frame [simp]:
  "e_cfg (upd_route k f e) = e_cfg e" "e_now (upd_route k f e) = e_now e"
  "e_seq (upd_route k f e) = e_seq e" "e_rng (upd_route k f e) = e_rng e"
  "e_last_link (upd_route k f e) = e_last_link e" "e_links (upd_route k f e) = e_links e"
  "e_sources (upd_route k f e) = e_sources e" "e_local (upd_route k f e) = e_local e"
  "e_selected (upd_route k f e) = e_selected e" "e_drops (upd_route k f e) = e_drops e"
  "e_requests (upd_route k f e) = e_requests e" "e_out (upd_route k f e) = e_out e"
  "e_revision (upd_route k f e) = e_revision e" "e_pending (upd_route k f e) = e_pending e"
  "e_held (upd_route k f e) = e_held e" "e_stopped (upd_route k f e) = e_stopped e"
  "e_counters (upd_route k f e) = e_counters e" "e_trigger_at (upd_route k f e) = e_trigger_at e"
  "e_trigger (upd_route k f e) = e_trigger e" "e_repeats (upd_route k f e) = e_repeats e"
  by (simp_all add: upd_route_def)

lemma recv_hello_frame [simp]:
  "e_cfg (recv_hello lid m e) = e_cfg e" "e_now (recv_hello lid m e) = e_now e"
  "e_seq (recv_hello lid m e) = e_seq e" "e_rng (recv_hello lid m e) = e_rng e"
  "e_last_link (recv_hello lid m e) = e_last_link e" "e_routes (recv_hello lid m e) = e_routes e"
  "e_sources (recv_hello lid m e) = e_sources e" "e_local (recv_hello lid m e) = e_local e"
  "e_selected (recv_hello lid m e) = e_selected e" "e_drops (recv_hello lid m e) = e_drops e"
  "e_requests (recv_hello lid m e) = e_requests e" "e_out (recv_hello lid m e) = e_out e"
  "e_revision (recv_hello lid m e) = e_revision e" "e_pending (recv_hello lid m e) = e_pending e"
  "e_held (recv_hello lid m e) = e_held e" "e_stopped (recv_hello lid m e) = e_stopped e"
  "e_counters (recv_hello lid m e) = e_counters e"
  "e_trigger_at (recv_hello lid m e) = e_trigger_at e"
  "e_trigger (recv_hello lid m e) = e_trigger e" "e_repeats (recv_hello lid m e) = e_repeats e"
  by (simp_all add: recv_hello_def)

lemma recv_ihu_frame [simp]:
  "e_cfg (recv_ihu lid m e) = e_cfg e" "e_now (recv_ihu lid m e) = e_now e"
  "e_seq (recv_ihu lid m e) = e_seq e" "e_rng (recv_ihu lid m e) = e_rng e"
  "e_last_link (recv_ihu lid m e) = e_last_link e" "e_routes (recv_ihu lid m e) = e_routes e"
  "e_sources (recv_ihu lid m e) = e_sources e" "e_local (recv_ihu lid m e) = e_local e"
  "e_selected (recv_ihu lid m e) = e_selected e" "e_drops (recv_ihu lid m e) = e_drops e"
  "e_requests (recv_ihu lid m e) = e_requests e" "e_out (recv_ihu lid m e) = e_out e"
  "e_revision (recv_ihu lid m e) = e_revision e" "e_pending (recv_ihu lid m e) = e_pending e"
  "e_held (recv_ihu lid m e) = e_held e" "e_stopped (recv_ihu lid m e) = e_stopped e"
  "e_counters (recv_ihu lid m e) = e_counters e" "e_trigger_at (recv_ihu lid m e) = e_trigger_at e"
  "e_trigger (recv_ihu lid m e) = e_trigger e" "e_repeats (recv_ihu lid m e) = e_repeats e"
  by (simp_all add: recv_ihu_def)

lemma recv_update_frame [simp]:
  "e_cfg (recv_update lid peer m e) = e_cfg e" "e_now (recv_update lid peer m e) = e_now e"
  "e_seq (recv_update lid peer m e) = e_seq e"
  "e_last_link (recv_update lid peer m e) = e_last_link e"
  "e_links (recv_update lid peer m e) = e_links e"
  "e_sources (recv_update lid peer m e) = e_sources e"
  "e_local (recv_update lid peer m e) = e_local e"
  "e_selected (recv_update lid peer m e) = e_selected e"
  "e_drops (recv_update lid peer m e) = e_drops e"
  "e_revision (recv_update lid peer m e) = e_revision e"
  "e_pending (recv_update lid peer m e) = e_pending e"
  "e_held (recv_update lid peer m e) = e_held e"
  "e_stopped (recv_update lid peer m e) = e_stopped e"
  by (simp_all add: recv_update_def Let_def split: option.split)

lemma seq_forward_frame [simp]:
  "e_cfg (seq_forward from m e) = e_cfg e" "e_now (seq_forward from m e) = e_now e"
  "e_seq (seq_forward from m e) = e_seq e" "e_rng (seq_forward from m e) = e_rng e"
  "e_last_link (seq_forward from m e) = e_last_link e" "e_links (seq_forward from m e) = e_links e"
  "e_routes (seq_forward from m e) = e_routes e" "e_sources (seq_forward from m e) = e_sources e"
  "e_local (seq_forward from m e) = e_local e" "e_selected (seq_forward from m e) = e_selected e"
  "e_drops (seq_forward from m e) = e_drops e" "e_revision (seq_forward from m e) = e_revision e"
  "e_pending (seq_forward from m e) = e_pending e" "e_held (seq_forward from m e) = e_held e"
  "e_stopped (seq_forward from m e) = e_stopped e"
  "e_trigger_at (seq_forward from m e) = e_trigger_at e"
  "e_trigger (seq_forward from m e) = e_trigger e" "e_repeats (seq_forward from m e) = e_repeats e"
  by (simp_all add: seq_forward_def split: option.split)

lemma seq_request_frame [simp]:
  "e_cfg (seq_request from m e) = e_cfg e" "e_now (seq_request from m e) = e_now e"
  "e_last_link (seq_request from m e) = e_last_link e" "e_links (seq_request from m e) = e_links e"
  "e_routes (seq_request from m e) = e_routes e" "e_local (seq_request from m e) = e_local e"
  "e_revision (seq_request from m e) = e_revision e"
  "e_pending (seq_request from m e) = e_pending e" "e_held (seq_request from m e) = e_held e"
  "e_stopped (seq_request from m e) = e_stopped e"
  by (simp_all add: seq_request_def Let_def split: option.split)

lemma route_request_frame [simp]:
  "e_cfg (route_request lid m e) = e_cfg e" "e_now (route_request lid m e) = e_now e"
  "e_seq (route_request lid m e) = e_seq e" "e_last_link (route_request lid m e) = e_last_link e"
  "e_routes (route_request lid m e) = e_routes e" "e_local (route_request lid m e) = e_local e"
  "e_selected (route_request lid m e) = e_selected e" "e_drops (route_request lid m e) = e_drops e"
  "e_requests (route_request lid m e) = e_requests e"
  "e_revision (route_request lid m e) = e_revision e"
  "e_pending (route_request lid m e) = e_pending e" "e_held (route_request lid m e) = e_held e"
  "e_stopped (route_request lid m e) = e_stopped e"
  by (simp_all add: route_request_def split: option.split)

lemma receive_msg_frame [simp]:
  "e_cfg (receive_msg lid peer m e) = e_cfg e" "e_now (receive_msg lid peer m e) = e_now e"
  "e_last_link (receive_msg lid peer m e) = e_last_link e"
  "e_local (receive_msg lid peer m e) = e_local e"
  "e_revision (receive_msg lid peer m e) = e_revision e"
  "e_pending (receive_msg lid peer m e) = e_pending e"
  "e_held (receive_msg lid peer m e) = e_held e"
  "e_stopped (receive_msg lid peer m e) = e_stopped e"
  by (simp_all add: receive_msg_def Let_def)

lemma receive_one_frame [simp]:
  "e_cfg (receive_one lid peer m e) = e_cfg e" "e_now (receive_one lid peer m e) = e_now e"
  "e_last_link (receive_one lid peer m e) = e_last_link e"
  "e_local (receive_one lid peer m e) = e_local e"
  "e_revision (receive_one lid peer m e) = e_revision e"
  "e_pending (receive_one lid peer m e) = e_pending e"
  "e_held (receive_one lid peer m e) = e_held e"
  "e_stopped (receive_one lid peer m e) = e_stopped e"
  by (simp_all add: receive_one_def)

lemma receive_packet_frame [simp]:
  "e_cfg (receive_packet lid b e) = e_cfg e" "e_now (receive_packet lid b e) = e_now e"
  "e_last_link (receive_packet lid b e) = e_last_link e"
  "e_local (receive_packet lid b e) = e_local e"
  "e_revision (receive_packet lid b e) = e_revision e"
  "e_pending (receive_packet lid b e) = e_pending e" "e_held (receive_packet lid b e) = e_held e"
  "e_stopped (receive_packet lid b e) = e_stopped e"
  by (simp_all add: receive_packet_def Let_def fold_keeps split: option.split)

lemma expire_frame [simp]:
  "e_cfg (expire e) = e_cfg e" "e_now (expire e) = e_now e" "e_seq (expire e) = e_seq e"
  "e_rng (expire e) = e_rng e" "e_last_link (expire e) = e_last_link e"
  "e_links (expire e) = e_links e" "e_local (expire e) = e_local e"
  "e_selected (expire e) = e_selected e" "e_drops (expire e) = e_drops e"
  "e_out (expire e) = e_out e" "e_revision (expire e) = e_revision e"
  "e_pending (expire e) = e_pending e" "e_held (expire e) = e_held e"
  "e_stopped (expire e) = e_stopped e" "e_counters (expire e) = e_counters e"
  "e_trigger_at (expire e) = e_trigger_at e" "e_trigger (expire e) = e_trigger e"
  "e_repeats (expire e) = e_repeats e"
  by (simp_all add: expire_def)

lemma hello_timer_frame [simp]:
  "e_cfg (hello_timer lid l e) = e_cfg e" "e_now (hello_timer lid l e) = e_now e"
  "e_seq (hello_timer lid l e) = e_seq e" "e_last_link (hello_timer lid l e) = e_last_link e"
  "e_routes (hello_timer lid l e) = e_routes e" "e_sources (hello_timer lid l e) = e_sources e"
  "e_local (hello_timer lid l e) = e_local e" "e_selected (hello_timer lid l e) = e_selected e"
  "e_drops (hello_timer lid l e) = e_drops e" "e_requests (hello_timer lid l e) = e_requests e"
  "e_revision (hello_timer lid l e) = e_revision e" "e_pending (hello_timer lid l e) = e_pending e"
  "e_held (hello_timer lid l e) = e_held e" "e_stopped (hello_timer lid l e) = e_stopped e"
  "e_counters (hello_timer lid l e) = e_counters e"
  "e_trigger_at (hello_timer lid l e) = e_trigger_at e"
  "e_trigger (hello_timer lid l e) = e_trigger e" "e_repeats (hello_timer lid l e) = e_repeats e"
  by (simp_all add: hello_timer_def Let_def split_beta)

lemma ihu_timer_frame [simp]:
  "e_cfg (ihu_timer lid l e) = e_cfg e" "e_now (ihu_timer lid l e) = e_now e"
  "e_seq (ihu_timer lid l e) = e_seq e" "e_last_link (ihu_timer lid l e) = e_last_link e"
  "e_routes (ihu_timer lid l e) = e_routes e" "e_sources (ihu_timer lid l e) = e_sources e"
  "e_local (ihu_timer lid l e) = e_local e" "e_selected (ihu_timer lid l e) = e_selected e"
  "e_drops (ihu_timer lid l e) = e_drops e" "e_requests (ihu_timer lid l e) = e_requests e"
  "e_revision (ihu_timer lid l e) = e_revision e" "e_pending (ihu_timer lid l e) = e_pending e"
  "e_held (ihu_timer lid l e) = e_held e" "e_stopped (ihu_timer lid l e) = e_stopped e"
  "e_counters (ihu_timer lid l e) = e_counters e"
  "e_trigger_at (ihu_timer lid l e) = e_trigger_at e" "e_trigger (ihu_timer lid l e) = e_trigger e"
  "e_repeats (ihu_timer lid l e) = e_repeats e"
  by (simp_all add: ihu_timer_def Let_def split_beta)

lemma update_timer_frame [simp]:
  "e_cfg (update_timer lid l e) = e_cfg e" "e_now (update_timer lid l e) = e_now e"
  "e_seq (update_timer lid l e) = e_seq e" "e_last_link (update_timer lid l e) = e_last_link e"
  "e_routes (update_timer lid l e) = e_routes e" "e_local (update_timer lid l e) = e_local e"
  "e_selected (update_timer lid l e) = e_selected e" "e_drops (update_timer lid l e) = e_drops e"
  "e_requests (update_timer lid l e) = e_requests e"
  "e_revision (update_timer lid l e) = e_revision e"
  "e_pending (update_timer lid l e) = e_pending e" "e_held (update_timer lid l e) = e_held e"
  "e_stopped (update_timer lid l e) = e_stopped e"
  by (simp_all add: update_timer_def Let_def split_beta)

lemma link_timers_frame [simp]:
  "e_cfg (link_timers lid e) = e_cfg e" "e_now (link_timers lid e) = e_now e"
  "e_seq (link_timers lid e) = e_seq e" "e_last_link (link_timers lid e) = e_last_link e"
  "e_routes (link_timers lid e) = e_routes e" "e_local (link_timers lid e) = e_local e"
  "e_selected (link_timers lid e) = e_selected e" "e_drops (link_timers lid e) = e_drops e"
  "e_requests (link_timers lid e) = e_requests e" "e_revision (link_timers lid e) = e_revision e"
  "e_pending (link_timers lid e) = e_pending e" "e_held (link_timers lid e) = e_held e"
  "e_stopped (link_timers lid e) = e_stopped e"
  by (simp_all add: link_timers_def split: option.split)

lemma trigger_timer_frame [simp]:
  "e_cfg (trigger_timer e) = e_cfg e" "e_now (trigger_timer e) = e_now e"
  "e_seq (trigger_timer e) = e_seq e" "e_last_link (trigger_timer e) = e_last_link e"
  "e_links (trigger_timer e) = e_links e" "e_routes (trigger_timer e) = e_routes e"
  "e_local (trigger_timer e) = e_local e" "e_selected (trigger_timer e) = e_selected e"
  "e_drops (trigger_timer e) = e_drops e" "e_requests (trigger_timer e) = e_requests e"
  "e_revision (trigger_timer e) = e_revision e" "e_pending (trigger_timer e) = e_pending e"
  "e_held (trigger_timer e) = e_held e" "e_stopped (trigger_timer e) = e_stopped e"
  by (simp_all add: trigger_timer_def Let_def split_beta fold_keeps)

lemma request_timer_frame [simp]:
  "e_cfg (request_timer sk e) = e_cfg e" "e_now (request_timer sk e) = e_now e"
  "e_seq (request_timer sk e) = e_seq e" "e_rng (request_timer sk e) = e_rng e"
  "e_last_link (request_timer sk e) = e_last_link e" "e_links (request_timer sk e) = e_links e"
  "e_routes (request_timer sk e) = e_routes e" "e_sources (request_timer sk e) = e_sources e"
  "e_local (request_timer sk e) = e_local e" "e_selected (request_timer sk e) = e_selected e"
  "e_drops (request_timer sk e) = e_drops e" "e_revision (request_timer sk e) = e_revision e"
  "e_pending (request_timer sk e) = e_pending e" "e_held (request_timer sk e) = e_held e"
  "e_stopped (request_timer sk e) = e_stopped e" "e_counters (request_timer sk e) = e_counters e"
  "e_trigger_at (request_timer sk e) = e_trigger_at e"
  "e_trigger (request_timer sk e) = e_trigger e" "e_repeats (request_timer sk e) = e_repeats e"
  by (simp_all add: request_timer_def Let_def fold_keeps split: option.split)

lemma refresh_timer_frame [simp]:
  "e_cfg (refresh_timer k e) = e_cfg e" "e_now (refresh_timer k e) = e_now e"
  "e_seq (refresh_timer k e) = e_seq e" "e_rng (refresh_timer k e) = e_rng e"
  "e_last_link (refresh_timer k e) = e_last_link e" "e_links (refresh_timer k e) = e_links e"
  "e_sources (refresh_timer k e) = e_sources e" "e_local (refresh_timer k e) = e_local e"
  "e_selected (refresh_timer k e) = e_selected e" "e_drops (refresh_timer k e) = e_drops e"
  "e_requests (refresh_timer k e) = e_requests e" "e_revision (refresh_timer k e) = e_revision e"
  "e_pending (refresh_timer k e) = e_pending e" "e_held (refresh_timer k e) = e_held e"
  "e_stopped (refresh_timer k e) = e_stopped e" "e_counters (refresh_timer k e) = e_counters e"
  "e_trigger_at (refresh_timer k e) = e_trigger_at e" "e_trigger (refresh_timer k e) = e_trigger e"
  "e_repeats (refresh_timer k e) = e_repeats e"
  by (simp_all add: refresh_timer_def split: option.split)

lemma timers_frame [simp]:
  "e_cfg (timers e) = e_cfg e" "e_now (timers e) = e_now e" "e_seq (timers e) = e_seq e"
  "e_last_link (timers e) = e_last_link e" "e_local (timers e) = e_local e"
  "e_selected (timers e) = e_selected e" "e_drops (timers e) = e_drops e"
  "e_revision (timers e) = e_revision e" "e_pending (timers e) = e_pending e"
  "e_held (timers e) = e_held e" "e_stopped (timers e) = e_stopped e"
  by (simp_all add: timers_def Let_def fold_keeps)

lemma flush_link_frame [simp]:
  "e_cfg (snd (flush_link lid s)) = e_cfg (snd s)" "e_now (snd (flush_link lid s)) = e_now (snd s)"
  "e_seq (snd (flush_link lid s)) = e_seq (snd s)" "e_rng (snd (flush_link lid s)) = e_rng (snd s)"
  "e_last_link (snd (flush_link lid s)) = e_last_link (snd s)"
  "e_links (snd (flush_link lid s)) = e_links (snd s)"
  "e_routes (snd (flush_link lid s)) = e_routes (snd s)"
  "e_sources (snd (flush_link lid s)) = e_sources (snd s)"
  "e_local (snd (flush_link lid s)) = e_local (snd s)"
  "e_selected (snd (flush_link lid s)) = e_selected (snd s)"
  "e_drops (snd (flush_link lid s)) = e_drops (snd s)"
  "e_requests (snd (flush_link lid s)) = e_requests (snd s)"
  "e_revision (snd (flush_link lid s)) = e_revision (snd s)"
  "e_pending (snd (flush_link lid s)) = e_pending (snd s)"
  "e_held (snd (flush_link lid s)) = e_held (snd s)"
  "e_stopped (snd (flush_link lid s)) = e_stopped (snd s)"
  "e_trigger_at (snd (flush_link lid s)) = e_trigger_at (snd s)"
  "e_trigger (snd (flush_link lid s)) = e_trigger (snd s)"
  "e_repeats (snd (flush_link lid s)) = e_repeats (snd s)"
  by (cases s; simp add: flush_link_def Let_def split: option.split)+

lemma flush_out_frame [simp]:
  "e_cfg (snd (flush_out e)) = e_cfg e" "e_now (snd (flush_out e)) = e_now e"
  "e_seq (snd (flush_out e)) = e_seq e" "e_rng (snd (flush_out e)) = e_rng e"
  "e_last_link (snd (flush_out e)) = e_last_link e" "e_links (snd (flush_out e)) = e_links e"
  "e_routes (snd (flush_out e)) = e_routes e" "e_sources (snd (flush_out e)) = e_sources e"
  "e_local (snd (flush_out e)) = e_local e" "e_selected (snd (flush_out e)) = e_selected e"
  "e_drops (snd (flush_out e)) = e_drops e" "e_requests (snd (flush_out e)) = e_requests e"
  "e_revision (snd (flush_out e)) = e_revision e" "e_pending (snd (flush_out e)) = e_pending e"
  "e_held (snd (flush_out e)) = e_held e" "e_stopped (snd (flush_out e)) = e_stopped e"
  "e_trigger_at (snd (flush_out e)) = e_trigger_at e" "e_trigger (snd (flush_out e)) = e_trigger e"
  "e_repeats (snd (flush_out e)) = e_repeats e"
  by (simp_all add: flush_out_def fold_keeps_snd)


end
