(* ===== verification/Babel_Inv.thy ===== *)
theory Babel_Inv
  imports Babel_Frame
begin

section \<open>The engine's representation invariant\<close>

text \<open>
  \<open>engine_ok\<close> says what every field of an engine holds: the configuration passed
  \<open>New\<close>'s checks, links passed \<open>validate\<close>, every candidate, source, selected route and
  request is filed under its own key with a well-formed prefix and a legal router ID, every
  queued message can be encoded, and the tables respect their limits. One lemma per method
  says that the method keeps it.
\<close>

subsection \<open>Well-formed entries\<close>

definition cfg_ok :: "config \<Rightarrow> bool" where
  "cfg_ok c \<longleftrightarrow> valid_id (cfg_router_id c) \<and> \<not> bad_interval (cfg_hello c)
     \<and> \<not> bad_interval (cfg_update c) \<and> cfg_hello c \<le> millis 327670
     \<and> seconds 180 \<le> cfg_source_gc c \<and> cfg_source_gc c \<le> seconds 86400
     \<and> hold (cfg_update c) \<le> cfg_source_gc c
     \<and> 1 \<le> cfg_max_links c \<and> 1 \<le> cfg_max_routes c \<and> 1 \<le> cfg_max_sources c
     \<and> 1 \<le> cfg_max_requests c"

lemma default_limits_frame:
  "cfg_router_id (default_limits c) = cfg_router_id c" "cfg_hello (default_limits c) = cfg_hello c"
  "cfg_update (default_limits c) = cfg_update c"
  "cfg_source_gc (default_limits c) = cfg_source_gc c"
  by (simp_all add: default_limits_def)

lemma check_config_cases:
  assumes "check_config c0 = Inr c"
  obtains c1 c2 where "c1 = default_config c0" "c2 = default_limits c1"
    "valid_id (cfg_router_id c0)" "\<not> bad_interval (cfg_hello c1)" "\<not> bad_interval (cfg_update c1)"
    "seconds 180 \<le> cfg_source_gc c1" "hold (cfg_update c1) \<le> cfg_source_gc c1"
    "cfg_source_gc c1 \<le> seconds 86400" "cfg_hello c1 \<le> millis 327670"
    "1 \<le> cfg_max_links c2" "1 \<le> cfg_max_routes c2" "1 \<le> cfg_max_sources c2"
    "1 \<le> cfg_max_requests c2"
    "c = c2\<lparr>cfg_seed := (if cfg_seed c2 = 0 then cfg_router_id c2 else cfg_seed c2)\<rparr>"
proof -
  define c1 where "c1 = default_config c0"
  define c2 where "c2 = default_limits c1"
  note eq = assms [unfolded check_config_def Let_def, folded c1_def, folded c2_def]
  show ?thesis
    by (rule that [of c1 c2])
      (use eq in \<open>simp_all add: c1_def c2_def valid_id_def not_le not_less split: if_split_asm\<close>)
qed

lemma check_config_ok: "check_config c0 = Inr c \<Longrightarrow> cfg_ok c"
proof (elim check_config_cases)
  fix c1 c2
  assume c: "c1 = default_config c0" "c2 = default_limits c1"
    and c2: "c = c2\<lparr>cfg_seed := (if cfg_seed c2 = 0 then cfg_router_id c2 else cfg_seed c2)\<rparr>"
    and rid: "valid_id (cfg_router_id c0)"
  assume "\<not> bad_interval (cfg_hello c1)" "\<not> bad_interval (cfg_update c1)"
    "seconds 180 \<le> cfg_source_gc c1" "hold (cfg_update c1) \<le> cfg_source_gc c1"
    "cfg_source_gc c1 \<le> seconds 86400" "cfg_hello c1 \<le> millis 327670"
    "1 \<le> cfg_max_links c2" "1 \<le> cfg_max_routes c2" "1 \<le> cfg_max_sources c2"
    "1 \<le> cfg_max_requests c2"
  moreover have "cfg_router_id c = cfg_router_id c0" by (simp add: c2 c default_limits_frame default_config_def)
  ultimately show ?thesis using rid
    by (simp add: cfg_ok_def c2 c(2) default_limits_frame)
qed

definition net_ok :: "prefix \<Rightarrow> bool" where
  "net_ok p \<longleftrightarrow> valid_prefix p \<and> wf_addr (pfx_addr p)"

lemma net_ok_pfx_ok [intro]: "net_ok p \<Longrightarrow> pfx_ok p"
  by (auto simp: net_ok_def valid_prefix_def pfx_ok_def)

definition day :: duration where "day = seconds 86400"

abbreviation horizon :: "engine \<Rightarrow> duration" where "horizon e \<equiv> e_now e + day"

definition link_ok :: "duration \<Rightarrow> link_id \<Rightarrow> link_state \<Rightarrow> bool" where
  "link_ok t lid ls \<longleftrightarrow> (let l = ls_link ls in
     l_id l = lid \<and> lid \<noteq> 0 \<and> is6 (l_local l) \<and> is6 (l_peer l) \<and> l_cost l \<noteq> 0
     \<and> (l_hello l = 0 \<or> \<not> bad_interval (l_hello l) \<and> l_hello l \<le> millis 327670)
     \<and> 512 \<le> l_max_packet l \<and> l_max_packet l \<le> 65487
     \<and> (l_ipv4 l = NoAddr \<or> is4 (l_ipv4 l) \<and> wf_addr (l_ipv4 l)))
     \<and> ls_ihu_expires ls \<le> t \<and> ls_next_hello ls \<le> t \<and> ls_next_ihu ls \<le> t
     \<and> ls_next_update ls \<le> t \<and> h_expires (ls_hello_m ls) \<le> t \<and> h_expires (ls_hello_u ls) \<le> t"

definition cand_ok :: "router_id \<Rightarrow> duration \<Rightarrow> route_key \<Rightarrow> candidate \<Rightarrow> bool" where
  "cand_ok self t k r \<longleftrightarrow> cd_prefix r = fst k \<and> cd_link r = snd k \<and> snd k \<noteq> 0 \<and> net_ok (fst k)
     \<and> valid_id (cd_id r) \<and> cd_id r \<noteq> self \<and> 0 < cd_interval r
     \<and> cd_interval r \<le> millis 655350 \<and> 0 \<le> cd_expires r \<and> cd_expires r \<le> t"

definition source_ok :: "duration \<Rightarrow> source_key \<Rightarrow> source \<Rightarrow> bool" where
  "source_ok t sk s \<longleftrightarrow> s_expires s \<le> t \<and> net_ok (fst sk) \<and> valid_id (snd sk) \<and> s_metric s \<noteq> infinity"

definition route_ok :: "router_id \<Rightarrow> prefix \<Rightarrow> route \<Rightarrow> bool" where
  "route_ok self p r \<longleftrightarrow> r_prefix r = p \<and> net_ok p \<and>
     (if r_unreachable r then r = drop_route p
      else valid_id (r_router_id r) \<and> r_metric r \<noteq> infinity \<and>
        (if r_local r then r_router_id r = self \<and> r_link r = 0
         else r_router_id r \<noteq> self \<and> r_link r \<noteq> 0))"

definition request_ok :: "duration \<Rightarrow> source_key \<Rightarrow> request \<Rightarrow> bool" where
  "request_ok t sk q \<longleftrightarrow> q_next q \<le> t \<and> q_expires q \<le> t \<and> pfx_ok (fst sk) \<and> valid_id (snd sk) \<and>
     (\<exists>seq hops. q_msg q = request_msg sk seq hops \<and> hops \<noteq> 0)"

definition local_ok :: "prefix \<Rightarrow> u16 \<Rightarrow> bool" where
  "local_ok p m \<longleftrightarrow> net_ok p \<and> m \<noteq> infinity"

definition engine_ok :: "engine \<Rightarrow> bool" where
  "engine_ok e \<longleftrightarrow>
     cfg_ok (e_cfg e) \<and> 0 \<le> e_now e \<and> e_trigger_at e \<le> horizon e
     \<and> m_all (link_ok (horizon e)) (e_links e) \<and> (\<forall>k \<in> fst ` set (e_links e). k \<le> e_last_link e)
     \<and> int (length (e_links e)) \<le> cfg_max_links (e_cfg e)
     \<and> m_all (cand_ok (cfg_router_id (e_cfg e)) (horizon e)) (e_routes e)
     \<and> m_all (source_ok (horizon e)) (e_sources e) \<and> int (length (e_sources e)) \<le> cfg_max_sources (e_cfg e)
     \<and> m_all local_ok (e_local e)
     \<and> m_all (route_ok (cfg_router_id (e_cfg e))) (e_selected e)
     \<and> m_all (\<lambda>p d. net_ok p \<and> d \<le> horizon e) (e_drops e)
     \<and> m_all (request_ok (horizon e)) (e_requests e)
     \<and> int (length (e_requests e)) \<le> cfg_max_requests (e_cfg e)
     \<and> m_all (\<lambda>_ q. \<forall>m \<in> set q. wire_ok m) (e_out e)"

lemma engine_okD:
  assumes "engine_ok e"
  shows "cfg_ok (e_cfg e)" and "m_all (link_ok (horizon e)) (e_links e)"
    and "m_all (cand_ok (cfg_router_id (e_cfg e)) (horizon e)) (e_routes e)"
    and "m_all (source_ok (horizon e)) (e_sources e)" and "m_all local_ok (e_local e)"
    and "m_all (route_ok (cfg_router_id (e_cfg e))) (e_selected e)"
    and "m_all (\<lambda>p d. net_ok p \<and> d \<le> horizon e) (e_drops e)" and "m_all (request_ok (horizon e)) (e_requests e)"
    and "m_all (\<lambda>_ q. \<forall>m \<in> set q. wire_ok m) (e_out e)"
    and "int (length (e_sources e)) \<le> cfg_max_sources (e_cfg e)"
    and "int (length (e_requests e)) \<le> cfg_max_requests (e_cfg e)"
    and "int (length (e_links e)) \<le> cfg_max_links (e_cfg e)"
    and "0 \<le> e_now e" and "e_trigger_at e \<le> horizon e"
  using assms by (simp_all add: engine_ok_def)

lemma centis_pos:
  assumes "millis 10 \<le> d" and "d \<le> millis 655340"
  shows "centis d \<noteq> 0"
proof -
  have "0 < d div millis 10" "d div millis 10 < 65536"
    using assms zdiv_mono1 [of "millis 10" d "millis 10"] zdiv_mono1 [of d "millis 655340" "millis 10"]
    by (auto simp: millis_def)
  then show ?thesis
    by (simp add: centis_def word_of_int_eq_0_iff zdvd_not_zless)
qed

lemma centis_update: "cfg_ok c \<Longrightarrow> centis (cfg_update c) \<noteq> 0"
  by (rule centis_pos) (auto simp: cfg_ok_def bad_interval_def millis_def)

text \<open>Every duration the engine adds to the clock is within the horizon of a day.\<close>

lemma hold_centi_dur: "0 \<le> hold (centi_dur i)" "hold (centi_dur i) \<le> day" "centi_dur i \<le> millis 655350"
proof -
  obtain n where n: "unat i = n" "n < 65536" using unat_u16_less [of i] by blast
  then show "0 \<le> hold (centi_dur i)" "hold (centi_dur i) \<le> day" "centi_dur i \<le> millis 655350"
    by (simp_all add: hold_def centi_dur_def millis_def day_def seconds_def n(1) del: of_nat_unat)
qed

lemma hold_interval: "0 < i \<Longrightarrow> i \<le> millis 655350 \<Longrightarrow> 0 \<le> hold i \<and> hold i \<le> day"
  by (auto simp: hold_def millis_def day_def seconds_def)

lemma cfg_ok_times:
  assumes "cfg_ok c"
  shows "0 \<le> hold (cfg_update c)" "hold (cfg_update c) \<le> day" "cfg_source_gc c \<le> day"
    "0 \<le> cfg_source_gc c" "cfg_update c \<le> day" "0 \<le> cfg_update c" "0 \<le> cfg_hello c" "cfg_hello c \<le> millis 327670"
  using assms by (auto simp: cfg_ok_def hold_def bad_interval_def millis_def day_def seconds_def)

lemma jitter_nonneg: "0 \<le> fst (jitter d e)"
  by (simp add: jitter_def Let_def)

lemma jitter_bound:
  assumes d: "0 \<le> d" "d \<le> day"
  shows "fst (jitter d e) \<le> d"
proof -
  have "d + 1 < 2 ^ 64" using d by (simp add: day_def seconds_def)
  moreover have "uint (word_of_int (d + 1) :: u64) = (d + 1) mod 2 ^ 64"
    by (simp only: uint_word_of_int) simp
  ultimately have w: "uint (word_of_int (d + 1) :: u64) = d + 1" using d by simp
  have "uint (xorshift (e_rng e) mod word_of_int (d + 1)) < d + 1"
    unfolding uint_mod w using d by (intro pos_mod_bound) simp
  then show ?thesis by (simp add: jitter_def Let_def)
qed

subsection \<open>Output\<close>

lemma queue_msg_ok [inv_intros]:
  assumes "engine_ok e" and "wire_ok m"
  shows "engine_ok (queue_msg lid m e)"
proof -
  let ?q = "(case map_of (e_out e) lid of None \<Rightarrow> [] | Some q \<Rightarrow> q) @ [m]"
  have "\<forall>x \<in> set ?q. wire_ok x"
    using assms(2) m_all_get [OF engine_okD(9) [OF assms(1)], of lid]
    by (cases "map_of (e_out e) lid") auto
  then have "m_all (\<lambda>_ q. \<forall>m \<in> set q. wire_ok m) (m_put lid ?q (e_out e))"
    by (rule m_all_put [OF engine_okD(9) [OF assms(1)]])
  with assms(1) show ?thesis by (simp add: engine_ok_def queue_msg_def)
qed

lemma schedule_trigger_ok [inv_intros]:
  assumes "engine_ok e"
  shows "engine_ok (schedule_trigger b e)"
proof -
  have "e_trigger_at (schedule_trigger b e) \<le> horizon e"
    using assms jitter_bound [of "millis 50" e]
    by (auto simp: engine_ok_def schedule_trigger_def Let_def split_beta day_def seconds_def millis_def)
  with assms show ?thesis by (simp add: engine_ok_def)
qed

lemma reject_ok [inv_intros]: "engine_ok e \<Longrightarrow> engine_ok (reject e)"
  by (simp add: engine_ok_def)

lemma wire_ok_retraction: "cfg_ok (e_cfg e) \<Longrightarrow> pfx_ok p \<Longrightarrow> wire_ok (retraction e p)"
  by (simp add: wire_ok_def retraction_def Let_def centis_update)

text \<open>A finite update for a selected route can be encoded.\<close>

lemma wire_ok_update:
  assumes "cfg_ok (e_cfg e)" and "route_ok self p r" and "\<not> r_unreachable r"
    and "link_ok t lid l" and "address_update e (ls_link l) p (update_msg e r) = Some m"
  shows "wire_ok m"
proof -
  have base: "m_type m = T_UPDATE" "\<not> m_wildcard m" "m_interval m \<noteq> 0" "m_prefix m = p"
      "m_router_id m = r_router_id r" "pfx_ok p" "valid_id (r_router_id r)"
    using assms by (auto simp: address_update_def update_msg_def centis_update route_ok_def
        split: if_splits)
  have "(m_v4via6 m \<longrightarrow> is4 (pfx_addr p)) \<and>
      (if is4 (pfx_addr p) \<and> \<not> m_v4via6 m
       then is4 (m_address m) \<and> wf_addr (m_address m) else m_address m = NoAddr)"
    using assms(4,5) by (auto simp: address_update_def update_msg_def link_ok_def Let_def
        split: if_splits)
  with base show ?thesis by (simp add: wire_ok_def)
qed

lemma record_source_metric:
  "s_metric s \<noteq> infinity \<Longrightarrow> r_metric r \<noteq> infinity \<Longrightarrow> s_metric (record_source e r s) \<noteq> infinity"
  by (simp add: record_source_def Let_def)

lemma record_source_expires [simp]: "s_expires (record_source e r s) = e_now e + cfg_source_gc (e_cfg e)"
  by (simp add: record_source_def Let_def)

lemma put_source_ok:
  assumes "engine_ok e" and "source_ok (horizon e) sk s"
    and "map_of (e_sources e) sk = None \<Longrightarrow> int (length (e_sources e)) < cfg_max_sources (e_cfg e)"
  shows "engine_ok (e\<lparr>e_sources := m_put sk s (e_sources e)\<rparr>)"
proof -
  have "int (length (m_put sk s (e_sources e))) \<le> cfg_max_sources (e_cfg e)"
    using assms engine_okD(4,10) [OF assms(1)]
    by (cases "map_of (e_sources e) sk") (auto simp: length_m_put_present length_m_put_absent)
  with assms show ?thesis by (auto simp: engine_ok_def intro!: m_all_put)
qed

lemma advertise_ok [inv_intros]:
  assumes e: "engine_ok e" and p: "pfx_ok p"
  shows "engine_ok (advertise lid p x e)"
proof (cases "map_of (e_links e) lid")
  case None
  then show ?thesis using e by (simp add: advertise_def)
next
  case (Some l)
  have l: "link_ok (horizon e) lid l" using m_all_get [OF engine_okD(2) [OF e] Some] .
  have retr: "engine_ok (queue_msg lid (retraction e p) e)"
    by (rule queue_msg_ok [OF e wire_ok_retraction [OF engine_okD(1) [OF e] p]])
  show ?thesis
  proof (cases "map_of (e_selected e) p")
    case None
    with retr Some show ?thesis by (simp add: advertise_def)
  next
    case sel: (Some r)
    have r: "route_ok (cfg_router_id (e_cfg e)) p r" using m_all_get [OF engine_okD(6) [OF e] sel] .
    show ?thesis
    proof (cases "r_unreachable r")
      case True
      with retr Some sel show ?thesis by (simp add: advertise_def)
    next
      case reach: False
      then have s0: "source_ok (horizon e) (p, r_router_id r) (record_source e r \<lparr>s_seq = r_seqno r,
          s_metric = r_metric r, s_expires = 0\<rparr>)"
        using r cfg_ok_times [OF engine_okD(1) [OF e]]
        by (simp add: source_ok_def route_ok_def record_source_metric)
      have s1: "source_ok (horizon e) (p, r_router_id r) (record_source e r s)"
        if "map_of (e_sources e) (p, r_router_id r) = Some s" for s
        using m_all_get [OF engine_okD(4) [OF e] that] r reach
          cfg_ok_times [OF engine_okD(1) [OF e]]
        by (simp add: source_ok_def route_ok_def record_source_metric)
      have m: "wire_ok m" if "address_update e (ls_link l) p (update_msg e r) = Some m" for m
        by (rule wire_ok_update [OF engine_okD(1) [OF e] r reach l that])
      show ?thesis
        using Some sel reach e s0 s1 m unfolding advertise_def Let_def
        by (auto simp: not_le split: option.splits intro!: queue_msg_ok put_source_ok
            schedule_trigger_ok reject_ok)
    qed
  qed
qed

lemma dump_ok [inv_intros]: "engine_ok e \<Longrightarrow> engine_ok (dump lid x e)"
  unfolding dump_def
proof (rule fold_invariant_on)
  fix r s
  assume e: "engine_ok e" and r: "r \<in> set (route_snapshot e)" and s: "engine_ok s"
  from r obtain p where "(p, r) \<in> set (e_selected e)" by (auto simp: route_snapshot_def)
  then have "pfx_ok (r_prefix r)"
    using m_all_set [OF engine_okD(6) [OF e]] by (auto simp: route_ok_def)
  then show "engine_ok (advertise lid (r_prefix r) x s)" by (rule advertise_ok [OF s])
qed

lemma wire_ok_request:
  "pfx_ok (fst sk) \<Longrightarrow> valid_id (snd sk) \<Longrightarrow> hops \<noteq> 0 \<Longrightarrow> wire_ok (request_msg sk seq hops)"
  by (simp add: wire_ok_def request_msg_def Let_def)

lemma request_keeps_ok [inv_intros]:
  assumes e: "engine_ok e" and sk: "pfx_ok (fst sk)" "valid_id (snd sk)" "hops \<noteq> 0"
  shows "engine_ok (send_request sk seq ts from hops e)"
proof -
  define m where "m = request_msg sk seq hops"
  define us where "us = remdups_adj (sort ts)"
  define e1 where "e1 = fold (\<lambda>lid. queue_msg lid m) us e"
  define q where "q = \<lparr>q_msg = m, q_targets = us, q_from = from, q_next = e_now e + seconds 1,
    q_expires = e_now e + seconds 4, q_remaining = 2\<rparr>"
  have "wire_ok m" unfolding m_def by (rule wire_ok_request [OF sk])
  then have e1: "engine_ok e1"
    unfolding e1_def by (intro fold_invariant_on [where I = engine_ok] e queue_msg_ok)
  have req: "e_requests e1 = e_requests e" and cfg: "e_cfg e1 = e_cfg e"
    by (simp_all add: e1_def fold_keeps)
  have now: "e_now e1 = e_now e" by (simp add: e1_def fold_keeps)
  have "request_ok (horizon e1) sk q"
    using sk by (auto simp: request_ok_def q_def m_def day_def seconds_def now)
  then have all: "m_all (request_ok (horizon e1)) (m_put sk q (e_requests e1))"
    using engine_okD(8) [OF e1] by blast
  have put: "engine_ok (e1\<lparr>e_requests := m_put sk q (e_requests e1)\<rparr>)"
    if "map_of (e_requests e) sk = None \<Longrightarrow> int (length (e_requests e)) < cfg_max_requests (e_cfg e)"
  proof -
    have "int (length (m_put sk q (e_requests e1))) \<le> cfg_max_requests (e_cfg e1)"
      using that engine_okD(8,11) [OF e] unfolding req cfg
      by (cases "map_of (e_requests e) sk") (auto simp: length_m_put_present length_m_put_absent)
    with e1 all show ?thesis by (simp add: engine_ok_def)
  qed
  show ?thesis
    unfolding send_request_def Let_def m_def [symmetric] us_def [symmetric] e1_def [symmetric]
      q_def [symmetric]
    using e put by (auto intro: reject_ok)
qed

subsection \<open>Selection\<close>

lemma local_next_ok: "engine_ok e \<Longrightarrow> m_all (route_ok (cfg_router_id (e_cfg e))) (local_next e)"
  unfolding local_next_def
  by (rule m_all_adj [OF engine_okD(5)])
    (auto simp: local_ok_def route_ok_def local_route_def engine_ok_def cfg_ok_def)

lemma try_candidate_ok:
  assumes e: "engine_ok e" and kr: "kr \<in> set (e_routes e)"
    and n: "m_all (route_ok (cfg_router_id (e_cfg e))) n"
  shows "m_all (route_ok (cfg_router_id (e_cfg e))) (try_candidate e kr n)"
proof -
  obtain k r where kr': "kr = (k, r)" by (cases kr)
  have c: "cand_ok (cfg_router_id (e_cfg e)) (horizon e) k r"
    using m_all_set [OF engine_okD(3) [OF e]] kr kr' by blast
  have "route_ok (cfg_router_id (e_cfg e)) (fst k) (candidate_route (fst k) r (route_metric e r))"
    if "route_metric e r \<noteq> infinity"
    using c that by (simp add: route_ok_def candidate_route_def cand_ok_def)
  then show ?thesis
    unfolding try_candidate_def Let_def kr' using n
    by (auto simp: Let_def intro!: m_all_put)
qed

lemma select_candidates_ok:
  "engine_ok e \<Longrightarrow> m_all (route_ok (cfg_router_id (e_cfg e))) (select_candidates e)"
  unfolding select_candidates_def
  by (rule fold_invariant_on) (auto intro: local_next_ok try_candidate_ok)

lemma put_drop_ok:
  "engine_ok e \<Longrightarrow> net_ok p \<Longrightarrow> d \<le> horizon e \<Longrightarrow> engine_ok (e\<lparr>e_drops := m_put p d (e_drops e)\<rparr>)"
  by (auto simp: engine_ok_def)

lemma note_lost_ok [inv_intros]:
  assumes e: "engine_ok e" and was: "route_ok self p was"
  shows "engine_ok (note_lost best was e)"
proof -
  have p: "r_prefix was = p" "net_ok p" using was by (auto simp: route_ok_def)
  have pd: "engine_ok (e\<lparr>e_drops := m_put p (e_now e + hold (cfg_update (e_cfg e))) (e_drops e)\<rparr>)"
    by (rule put_drop_ok [OF e p(2)]) (simp add: cfg_ok_times engine_okD(1) [OF e])
  have t: "engine_ok (schedule_trigger True
      (e\<lparr>e_drops := m_put p (e_now e + hold (cfg_update (e_cfg e))) (e_drops e)\<rparr>))"
    by (rule schedule_trigger_ok [OF pd])
  show ?thesis
  proof (cases "map_of best p = None \<and> \<not> r_unreachable was")
    case True
    then have "valid_id (r_router_id was)" using was by (simp add: route_ok_def)
    then show ?thesis
      using t p True unfolding note_lost_def Let_def
      by (auto split: option.splits intro!: request_keeps_ok net_ok_pfx_ok)
  qed (use e p in \<open>auto simp: note_lost_def Let_def\<close>)
qed

lemma trigger_for_ok [inv_intros]: "engine_ok e \<Longrightarrow> engine_ok (trigger_for old pr e)"
  by (cases pr) (simp add: trigger_for_def schedule_trigger_ok split: option.split)

lemma drop_route_ok: "net_ok p \<Longrightarrow> route_ok self p (drop_route p)"
  by (simp add: route_ok_def drop_route_def)

lemma add_drops_ok:
  assumes "m_all (\<lambda>p d. net_ok p \<and> d \<le> t) drops" and "m_all (route_ok self) n"
  shows "m_all (route_ok self) (add_drops now drops n)"
  unfolding add_drops_def
  by (rule fold_invariant_on [where I = "m_all (route_ok self)", OF assms(2)])
    (use m_all_set [OF assms(1)] in \<open>auto intro!: m_all_put drop_route_ok\<close>)

lemma satisfy_request_ok [inv_intros]:
  assumes e: "engine_ok e"
  shows "engine_ok (satisfy_request n sk e)"
proof (cases "map_of (e_requests e) sk")
  case None
  then show ?thesis using e by (simp add: satisfy_request_def)
next
  case (Some q)
  have p: "pfx_ok (fst sk)"
    using m_all_get [OF engine_okD(8) [OF e] Some] by (simp add: request_ok_def)
  have del: "engine_ok (s\<lparr>e_requests := m_del sk (e_requests e)\<rparr>)"
    if s: "engine_ok s" "e_requests s = e_requests e" for s
    using s(1) length_m_del_le [OF m_all_m_ok [OF engine_okD(8) [OF s(1)]], of sk]
    unfolding s(2) [symmetric] by (auto simp: engine_ok_def)
  show ?thesis
    using e Some p unfolding satisfy_request_def Let_def
    by (auto split: option.splits intro!: del advertise_ok)
qed

lemma select_routes_ok [inv_intros]:
  assumes e: "engine_ok e"
  shows "engine_ok (select_routes e)"
proof -
  let ?self = "cfg_router_id (e_cfg e)"
  define best where "best = select_candidates e"
  define e1 where "e1 = fold (note_lost best) (route_snapshot e) e"
  define nx where "nx = add_drops (e_now e) (e_drops e1) best"
  define e2 where "e2 = e1\<lparr>e_drops := kept_drops (e_now e) best (e_drops e1), e_selected := nx\<rparr>"
  define e3 where "e3 = fold (trigger_for (e_selected e)) nx e2"
  have e1: "engine_ok e1"
    unfolding e1_def
  proof (rule fold_invariant_on [where I = engine_ok, OF e])
    fix r s
    assume r: "r \<in> set (route_snapshot e)" and s: "engine_ok s"
    from r obtain p where "(p, r) \<in> set (e_selected e)" by (auto simp: route_snapshot_def)
    then have "route_ok ?self p r" using m_all_set [OF engine_okD(6) [OF e]] by blast
    then show "engine_ok (note_lost best r s)" by (rule note_lost_ok [OF s])
  qed
  have cfg: "e_cfg e1 = e_cfg e" by (simp add: e1_def fold_keeps)
  have "m_all (route_ok ?self) nx"
    unfolding nx_def best_def
    by (rule add_drops_ok [OF engine_okD(7) [OF e1] select_candidates_ok [OF e]])
  moreover have "m_all (\<lambda>p d. net_ok p \<and> d \<le> horizon e1) (kept_drops (e_now e) best (e_drops e1))"
    using engine_okD(7) [OF e1] by (auto simp: kept_drops_def)
  ultimately have e2: "engine_ok e2"
    using e1 by (simp add: engine_ok_def e2_def cfg)
  then have e3: "engine_ok e3"
    unfolding e3_def by (rule fold_invariant_on) (rule trigger_for_ok)
  have "select_routes e = fold (satisfy_request nx) (m_keys (e_requests e3)) e3"
    by (simp add: select_routes_def Let_def best_def e1_def nx_def e2_def e3_def)
  also have "engine_ok \<dots>"
    by (rule fold_invariant_on [where I = engine_ok, OF e3]) (rule satisfy_request_ok)
  finally show ?thesis .
qed

subsection \<open>Receiving\<close>

lemma upd_link_ok:
  assumes e: "engine_ok e" and f: "\<And>l. link_ok (horizon e) lid l \<Longrightarrow> link_ok (horizon e) lid (f l)"
  shows "engine_ok (upd_link lid f e)"
proof -
  have "m_all (link_ok (horizon e)) (m_adj (\<lambda>k l. if k = lid then f l else l) (e_links e))"
    by (rule m_all_adj [OF engine_okD(2) [OF e]]) (use f in auto)
  with e show ?thesis
    by (auto simp: engine_ok_def upd_link_def m_adj_def)
qed

lemma upd_routes_ok:
  assumes e: "engine_ok e" and f: "\<And>k r. cand_ok (cfg_router_id (e_cfg e)) (horizon e) k r
      \<Longrightarrow> cand_ok (cfg_router_id (e_cfg e)) (horizon e) k (f k r)"
  shows "engine_ok (e\<lparr>e_routes := m_adj f (e_routes e)\<rparr>)"
proof -
  have "m_all (cand_ok (cfg_router_id (e_cfg e)) (horizon e)) (m_adj f (e_routes e))"
    by (rule m_all_adj [OF engine_okD(3) [OF e]]) (rule f)
  with e show ?thesis by (simp add: engine_ok_def)
qed

lemma recv_hello_ok: "engine_ok e \<Longrightarrow> engine_ok (recv_hello lid m e)"
  unfolding recv_hello_def by (rule upd_link_ok) (auto simp: link_ok_def Let_def hold_centi_dur)

lemma recv_ihu_ok: "engine_ok e \<Longrightarrow> engine_ok (recv_ihu lid m e)"
  unfolding recv_ihu_def by (rule upd_link_ok) (auto simp: link_ok_def Let_def hold_centi_dur)

lemma centi_dur_pos: "i \<noteq> 0 \<Longrightarrow> 0 < centi_dur i"
  using unat_gt_0 [of i] by (simp add: centi_dur_def millis_def del: unat_gt_0 of_nat_unat)

lemma put_route_ok:
  "engine_ok e \<Longrightarrow> cand_ok (cfg_router_id (e_cfg e)) (horizon e) k r
   \<Longrightarrow> engine_ok (e\<lparr>e_routes := m_put k r (e_routes e)\<rparr>)"
  by (auto simp: engine_ok_def)

lemma engine_ok_link_ne_0: "engine_ok e \<Longrightarrow> map_of (e_links e) lid = Some l \<Longrightarrow> lid \<noteq> 0"
  using m_all_get [OF engine_okD(2)] by (fastforce simp: link_ok_def Let_def)

lemma recv_update_ok:
  assumes e: "engine_ok e" and lid: "lid \<noteq> 0" and m: "decoded_ok m" "m_type m = T_UPDATE"
  shows "engine_ok (recv_update lid peer m e)"
proof -
  let ?self = "cfg_router_id (e_cfg e)" and ?k = "(m_prefix m, lid)"
  let ?sk = "(m_prefix m, m_router_id m)"
  consider "m_wildcard m" | "\<not> m_wildcard m" "m_metric m = infinity"
    | "\<not> m_wildcard m" "m_metric m \<noteq> infinity" "update_refused e peer lid m"
    | "\<not> m_wildcard m" "m_metric m \<noteq> infinity" "\<not> update_refused e peer lid m"
    by blast
  then show ?thesis
  proof cases
    case 1
    with e show ?thesis
      unfolding recv_update_def Let_def by (auto intro!: upd_routes_ok simp: cand_ok_def)
  next
    case 2
    with e show ?thesis
      unfolding recv_update_def upd_route_def Let_def by (auto intro!: upd_routes_ok simp: cand_ok_def)
  next
    case 3
    with e show ?thesis by (simp add: recv_update_def Let_def reject_ok)
  next
    case 4
    have p: "pfx_ok (m_prefix m)" "valid_id (m_router_id m)" "m_interval m \<noteq> 0"
      using m 4 by (simp_all add: decoded_ok_def)
    have net: "net_ok (m_prefix m)" "m_router_id m \<noteq> ?self"
      using 4(3) p(1) by (auto simp: update_refused_def net_ok_def routable_prefix_def Let_def pfx_ok_def)
    define e1 where "e1 = (case map_of (e_routes e) ?k of None \<Rightarrow> e
      | Some r \<Rightarrow> if cd_id r \<noteq> 0 \<and> cd_id r \<noteq> m_router_id m then schedule_trigger True e else e)"
    define r where "r = new_candidate e lid m"
    define e2 where "e2 = e1\<lparr>e_routes := m_put ?k r (e_routes e1)\<rparr>"
    have e1: "engine_ok e1" "e_cfg e1 = e_cfg e" "e_now e1 = e_now e"
      using e by (auto simp: e1_def schedule_trigger_ok split: option.splits)
    have "cand_ok ?self (horizon e) ?k r"
      using p net lid engine_okD(13) [OF e] hold_centi_dur
      by (simp add: r_def new_candidate_def cand_ok_def centi_dur_pos)
    then have e2: "engine_ok e2"
      unfolding e2_def using e1 by (intro put_route_ok) simp_all
    have rq: "engine_ok (send_request ?sk seq [lid] 0 64 e2)" for seq
      by (rule request_keeps_ok [OF e2]) (simp_all add: p)
    have "recv_update lid peer m e = (if feasible e2 r then e2 else
        (case map_of (e_sources e2) ?sk of None \<Rightarrow> e2
         | Some s \<Rightarrow> if (case map_of (e_selected e2) (m_prefix m) of None \<Rightarrow> True
             | Some v \<Rightarrow> r_unreachable v \<or> r_link v = lid \<or> route_metric e2 r < r_metric v)
             then send_request ?sk (s_seq s + 1) [lid] 0 64 e2 else e2))"
      unfolding recv_update_def Let_def e1_def r_def e2_def using 4 by simp
    then show ?thesis using e2 rq by (auto split: option.splits)
  qed
qed

lemma seq_request_ok:
  assumes e: "engine_ok e" and m: "decoded_ok m" "m_type m = T_SEQ_REQUEST"
  shows "engine_ok (seq_request from m e)"
proof -
  have p: "pfx_ok (m_prefix m)" "valid_id (m_router_id m)" using m by (simp_all add: decoded_ok_def)
  have hop: "m_hopcount m - 1 \<noteq> 0" if "\<not> m_hopcount m < 2"
    using that by (auto simp: word_less_nat_alt)
  have "engine_ok (e\<lparr>e_seq := e_seq e + 1\<rparr>)" using e by (simp add: engine_ok_def)
  then have "engine_ok (select_routes (e\<lparr>e_seq := e_seq e + 1\<rparr>))" by (rule select_routes_ok)
  then show ?thesis
    using e p hop unfolding seq_request_def seq_forward_def
    by (auto split: option.splits intro!: advertise_ok request_keeps_ok)
qed

lemma route_request_ok:
  assumes e: "engine_ok e" and m: "decoded_ok m" "m_type m = T_REQUEST"
  shows "engine_ok (route_request lid m e)"
proof -
  have up: "engine_ok (upd_link lid (\<lambda>l. l\<lparr>ls_last_dump := t, ls_dumped := True\<rparr>) s)"
    if "engine_ok s" for s t
    by (rule upd_link_ok [OF that]) (simp add: link_ok_def Let_def)
  have "\<not> m_wildcard m \<Longrightarrow> pfx_ok (m_prefix m)" using m by (simp add: decoded_ok_def)
  then show ?thesis
    using e unfolding route_request_def
    by (auto split: option.splits intro!: advertise_ok dump_ok up)
qed

lemma receive_msg_ok [inv_intros]:
  assumes "engine_ok e" and "lid \<noteq> 0" and "decoded_ok m"
  shows "engine_ok (receive_msg lid peer m e)"
proof -
  have ack: "wire_ok ((zero_msg T_ACK)\<lparr>m_opaque := x\<rparr>)" for x by (simp add: wire_ok_def)
  show ?thesis
    using assms unfolding receive_msg_def Let_def
    by (auto intro: recv_hello_ok recv_ihu_ok queue_msg_ok ack recv_update_ok route_request_ok
        seq_request_ok)
qed

lemma receive_one_ok [inv_intros]:
  "\<lbrakk>engine_ok e; lid \<noteq> 0; decoded_ok m\<rbrakk> \<Longrightarrow> engine_ok (receive_one lid peer m e)"
  by (simp add: receive_one_def receive_msg_ok select_routes_ok)

lemma receive_packet_ok [inv_intros]:
  assumes e: "engine_ok e"
  shows "engine_ok (receive_packet lid b e)"
proof (cases "map_of (e_links e) lid")
  case None
  with e show ?thesis by (simp add: receive_packet_def engine_ok_def)
next
  case (Some l)
  have c: "engine_ok (e\<lparr>e_counters := c\<rparr>)" for c using e by (simp add: engine_ok_def)
  have lid: "lid \<noteq> 0" by (rule engine_ok_link_ne_0 [OF e Some])
  have "engine_ok (fold (receive_one lid peer) msgs (e\<lparr>e_counters := c\<rparr>))"
    if "decode b src = Some msgs" for msgs c peer src
    by (rule fold_invariant_on [where I = engine_ok, OF c]) (rule receive_one_ok [OF _ lid decode_messages_ok [OF that]])
  then show ?thesis
    using c Some by (auto simp: receive_packet_def Let_def split: option.splits)
qed

subsection \<open>Expiry and timers\<close>

lemma expire_ok [inv_intros]:
  assumes e: "engine_ok e"
  shows "engine_ok (expire e)"
proof -
  have 1: "m_all (cand_ok (cfg_router_id (e_cfg e)) (horizon e)) (expire_routes (e_now e) (e_routes e))"
    unfolding expire_routes_def
    by (rule m_all_adj [OF m_all_filter [OF engine_okD(3) [OF e]]])
      (use hold_interval engine_okD(13) [OF e] in \<open>auto simp: cand_ok_def\<close>)
  have 2: "length (filter P xs) \<le> length xs" for P and xs :: "'x list"
    by (rule length_filter_le)
  have 3: "int (length (filter P (e_sources e))) \<le> cfg_max_sources (e_cfg e)" for P
    using 2 [of P "e_sources e"] engine_okD(10) [OF e] by linarith
  have 4: "int (length (filter P (e_requests e))) \<le> cfg_max_requests (e_cfg e)" for P
    using 2 [of P "e_requests e"] engine_okD(11) [OF e] by linarith
  show ?thesis
    using e 1 3 4 by (simp add: engine_ok_def expire_def m_all_filter)
qed

lemma jitter_ok: "engine_ok e \<Longrightarrow> engine_ok (snd (jitter d e))"
  by (simp add: engine_ok_def)

lemma hello_interval_range:
  assumes "engine_ok e" and "link_ok t lid l"
  shows "millis 100 \<le> hello_interval e l" and "hello_interval e l \<le> millis 327670"
  using assms by (auto simp: hello_interval_def link_ok_def engine_ok_def cfg_ok_def bad_interval_def
      Let_def)

lemma hello_timer_ok [inv_intros]:
  assumes e: "engine_ok e" and l: "map_of (e_links e) lid = Some l"
  shows "engine_ok (hello_timer lid l e)"
proof -
  note hi = hello_interval_range [OF e m_all_get [OF engine_okD(2) [OF e] l]]
  have nx: "e_now e + hello_interval e l - fst (jitter d s) \<le> horizon e" for d s
    using hi jitter_nonneg [of d s] by (simp add: millis_def day_def seconds_def)
  have "wire_ok ((zero_msg T_HELLO)\<lparr>m_seqno := s, m_interval := i\<rparr>)" for s i
    by (simp add: wire_ok_def)
  then show ?thesis
    using e nx unfolding hello_timer_def Let_def split_beta
    by (auto intro!: upd_link_ok jitter_ok queue_msg_ok simp: link_ok_def Let_def)
qed

lemma ihu_timer_ok [inv_intros]:
  assumes e: "engine_ok e" and l: "link_ok t lid l"
  shows "engine_ok (ihu_timer lid l e)"
proof -
  have nx: "e_now e + hello_interval e l * 2 - fst (jitter d s) \<le> horizon e" for d s
    using hello_interval_range [OF e l] jitter_nonneg [of d s] by (simp add: millis_def day_def seconds_def)
  have "centis (hello_interval e l * 2) \<noteq> 0"
    using hello_interval_range [OF e l] by (intro centis_pos) (auto simp: millis_def)
  then have "wire_ok ((zero_msg T_IHU)\<lparr>m_metric := x, m_interval := centis (hello_interval e l * 2)\<rparr>)" for x
    by (simp add: wire_ok_def)
  then show ?thesis
    using e nx unfolding ihu_timer_def Let_def split_beta
    by (auto intro!: upd_link_ok jitter_ok queue_msg_ok simp: link_ok_def Let_def)
qed

lemma update_timer_ok [inv_intros]:
  assumes e: "engine_ok e"
  shows "engine_ok (update_timer lid l e)"
proof -
  have nx: "e_now e + cfg_update (e_cfg e) - fst (jitter d s) \<le> horizon e" for d s
    using cfg_ok_times(5) [OF engine_okD(1) [OF e]] jitter_nonneg [of d s] by simp
  then show ?thesis
    using e unfolding update_timer_def Let_def split_beta
    by (auto intro!: upd_link_ok jitter_ok dump_ok simp: link_ok_def Let_def)
qed

lemma link_timers_ok [inv_intros]:
  assumes e: "engine_ok e"
  shows "engine_ok (link_timers lid e)"
proof (cases "map_of (e_links e) lid")
  case None
  with e show ?thesis by (simp add: link_timers_def)
next
  case (Some l)
  have "link_ok (horizon e) lid l" using m_all_get [OF engine_okD(2) [OF e] Some] .
  with e Some show ?thesis
    by (simp add: link_timers_def update_timer_ok ihu_timer_ok hello_timer_ok)
qed

lemma trigger_timer_ok [inv_intros]:
  assumes e: "engine_ok e"
  shows "engine_ok (trigger_timer e)"
proof -
  have "engine_ok (fold (\<lambda>lid. dump lid False) (m_keys (e_links e)) e)"
    by (rule fold_invariant_on [where I = engine_ok, OF e]) (rule dump_ok)
  moreover have "e_now e + millis 100 + fst (jitter (millis 50) s) \<le> horizon e" for s
    using jitter_bound [of "millis 50" s] by (simp add: millis_def day_def seconds_def)
  ultimately show ?thesis
    using e unfolding trigger_timer_def Let_def split_beta
    by (simp add: engine_ok_def fold_keeps)
qed

lemma request_timer_ok [inv_intros]:
  assumes e: "engine_ok e"
  shows "engine_ok (request_timer sk e)"
proof (cases "map_of (e_requests e) sk")
  case None
  with e show ?thesis by (simp add: request_timer_def)
next
  case (Some q)
  have q: "request_ok (horizon e) sk q" using m_all_get [OF engine_okD(8) [OF e] Some] .
  then have w: "wire_ok (q_msg q)" by (auto simp: request_ok_def wire_ok_request)
  define e1 where "e1 = fold (\<lambda>lid. queue_msg lid (q_msg q)) (q_targets q) e"
  define q' where "q' = q\<lparr>q_remaining := q_remaining q - 1, q_next := e_now e + seconds 1\<rparr>"
  have e1: "engine_ok e1"
    unfolding e1_def by (rule fold_invariant_on [where I = engine_ok, OF e]) (rule queue_msg_ok [OF _ w])
  have eqs: "e_requests e1 = e_requests e" "e_now e1 = e_now e" by (simp_all add: e1_def fold_keeps)
  have "m_all (request_ok (horizon e1)) (m_put sk q' (e_requests e1))"
    using engine_okD(8) [OF e1] q
    by (intro m_all_put) (auto simp: request_ok_def q'_def eqs day_def seconds_def)
  moreover have "length (m_put sk q' (e_requests e1)) = length (e_requests e1)"
    using Some engine_okD(8) [OF e1] by (intro length_m_put_present) (auto simp: eqs)
  ultimately have "engine_ok (e1\<lparr>e_requests := m_put sk q' (e_requests e1)\<rparr>)"
    using e1 by (simp add: engine_ok_def)
  then show ?thesis
    using e Some by (simp add: request_timer_def Let_def e1_def q'_def)
qed

lemma refresh_timer_ok [inv_intros]:
  assumes e: "engine_ok e"
  shows "engine_ok (refresh_timer k e)"
proof (cases "map_of (e_routes e) k")
  case None
  with e show ?thesis by (simp add: refresh_timer_def)
next
  case (Some r)
  have "pfx_ok (fst k)"
    using m_all_get [OF engine_okD(3) [OF e] Some] by (auto simp: cand_ok_def)
  then have "wire_ok ((zero_msg T_REQUEST)\<lparr>m_prefix := fst k\<rparr>)" by (simp add: wire_ok_def)
  then have q: "engine_ok (queue_msg (snd k) ((zero_msg T_REQUEST)\<lparr>m_prefix := fst k\<rparr>) e)"
    by (rule queue_msg_ok [OF e])
  have "engine_ok (upd_route k (\<lambda>r. r\<lparr>cd_refresh := True\<rparr>)
      (queue_msg (snd k) ((zero_msg T_REQUEST)\<lparr>m_prefix := fst k\<rparr>) e))"
    unfolding upd_route_def by (rule upd_routes_ok [OF q]) (simp add: cand_ok_def)
  then show ?thesis using e by (auto simp: refresh_timer_def split: option.split)
qed

lemma timers_ok [inv_intros]:
  assumes e: "engine_ok e"
  shows "engine_ok (timers e)"
proof -
  have 1: "engine_ok (fold link_timers ks s)" if "engine_ok s" for ks s
    by (rule fold_invariant_on [where I = engine_ok, OF that]) (rule link_timers_ok)
  have 2: "engine_ok (fold request_timer ks s)" if "engine_ok s" for ks s
    by (rule fold_invariant_on [where I = engine_ok, OF that]) (rule request_timer_ok)
  have 3: "engine_ok (fold refresh_timer ks s)" if "engine_ok s" for ks s
    by (rule fold_invariant_on [where I = engine_ok, OF that]) (rule refresh_timer_ok)
  show ?thesis
    unfolding timers_def Let_def by (intro 3 2 trigger_timer_ok 1 e)
qed

lemma flush_link_ok: "engine_ok (snd s) \<Longrightarrow> engine_ok (snd (flush_link lid s))"
  by (cases s) (auto simp: flush_link_def engine_ok_def Let_def split: option.splits)

lemma flush_out_ok [inv_intros]:
  assumes "engine_ok e"
  shows "engine_ok (snd (flush_out e))"
  unfolding flush_out_def
  by (rule fold_invariant_on [where I = "\<lambda>s. engine_ok (snd s)"]) (use assms flush_link_ok in auto)

subsection \<open>Events, Step and Commit\<close>

text \<open>
  A link or prefix in an event is well formed: the byte lists inside its addresses have the
  lengths that \<open>netip.Addr\<close> guarantees.
\<close>

fun wf_event :: "event \<Rightarrow> bool" where
  "wf_event (AddLink l) = wf_addr (l_ipv4 l)"
| "wf_event (Originate p _) = wf_addr (pfx_addr p)"
| "wf_event (Withdraw p) = wf_addr (pfx_addr p)"
| "wf_event _ = True"

lemma add_link_ok:
  assumes e: "engine_ok e" and v: "validate e0 (AddLink l) = None" and wf: "wf_addr (l_ipv4 l)"
    and e0: "e_links e = e_links e0" "e_cfg e = e_cfg e0" "e_last_link e = e_last_link e0"
  shows "engine_ok (handle_event (AddLink l) e)"
proof -
  have b: "\<not> bad_link e l" "int (length (e_links e)) < cfg_max_links (e_cfg e)"
    using v by (auto simp: e0 bad_link_def split: if_splits)
  have fresh: "map_of (e_links e) (l_id l) = None"
    using b(1) e by (auto simp: bad_link_def engine_ok_def map_of_eq_None_iff)
  have l: "link_ok (horizon e) (l_id l) (new_link_state e l)"
    using b(1) wf engine_okD(13) [OF e]
    by (auto simp: bad_link_def link_ok_def new_link_state_def Let_def bad_interval_def millis_def
        day_def seconds_def)
  have n: "length (m_put (l_id l) (new_link_state e l) (e_links e)) = Suc (length (e_links e))"
    using fresh engine_okD(2) [OF e] by (intro length_m_put_absent) auto
  have last: "\<forall>k \<in> fst ` set (m_put (l_id l) (new_link_state e l) (e_links e)). k \<le> l_id l"
    using e b(1) unfolding fst_set_m_put by (force simp: bad_link_def engine_ok_def)
  have "engine_ok (e\<lparr>e_links := m_put (l_id l) (new_link_state e l) (e_links e), e_last_link := l_id l\<rparr>)"
    using e l last b(2) n by (auto simp: engine_ok_def intro!: m_all_put)
  moreover have "wire_ok ((zero_msg T_REQUEST)\<lparr>m_wildcard := True\<rparr>)" by (simp add: wire_ok_def)
  ultimately show ?thesis by (simp add: queue_msg_ok)
qed

lemma remove_link_ok:
  assumes e: "engine_ok e"
  shows "engine_ok (handle_event (RemoveLink i) e)"
proof -
  have "\<forall>k \<in> fst ` set (m_del i (e_links e)). k \<le> e_last_link e"
    using e by (auto simp: engine_ok_def m_del_def)
  moreover have "int (length (m_del i (e_links e))) \<le> cfg_max_links (e_cfg e)"
    using length_m_del_le [of "e_links e" i] engine_okD(2,12) [OF e] by force
  ultimately have "engine_ok (e\<lparr>e_links := m_del i (e_links e), e_out := m_del i (e_out e)\<rparr>)"
    using e by (auto simp: engine_ok_def)
  then show ?thesis
    using cfg_ok_times [OF engine_okD(1) [OF e]] engine_okD(13) [OF e]
    by (simp add: engine_ok_def) (auto intro!: m_all_adj simp: cand_ok_def)
qed

lemma handle_event_ok [inv_intros]:
  assumes e: "engine_ok e" and v: "validate e0 ev = None" and wf: "wf_event ev"
    and e0: "e_links e = e_links e0" "e_cfg e = e_cfg e0" "e_last_link e = e_last_link e0"
  shows "engine_ok (handle_event ev e)"
proof (cases ev)
  case (AddLink l)
  then show ?thesis using add_link_ok [OF e _ _ e0] v wf by auto
next
  case (RemoveLink i)
  then show ?thesis using remove_link_ok e by blast
next
  case (SetCost i c)
  then show ?thesis
    using e v by (auto intro!: upd_link_ok simp: link_ok_def Let_def split: if_splits)
next
  case (Receive i p)
  then show ?thesis using e by (simp add: receive_packet_ok)
next
  case (Originate p m)
  then have "local_ok p m" using v wf
    by (auto simp: local_ok_def net_ok_def routable_prefix_def Let_def split: if_splits)
  then show ?thesis using Originate e by (auto simp: engine_ok_def)
next
  case (Withdraw p)
  then show ?thesis using e by (auto simp: engine_ok_def)
qed (use e in simp)

text \<open>The body of \<open>step\<close>, once its guards have passed.\<close>

definition run :: "duration \<Rightarrow> event \<Rightarrow> engine \<Rightarrow> engine" where
  "run now ev e = timers (select_routes (handle_event ev (expire (e\<lparr>e_now := now\<rparr>))))"

lemma handle_event_frame [simp]:
  "e_cfg (handle_event ev e) = e_cfg e" "e_now (handle_event ev e) = e_now e"
  "e_revision (handle_event ev e) = e_revision e" "e_pending (handle_event ev e) = e_pending e"
  "e_held (handle_event ev e) = e_held e" "e_stopped (handle_event ev e) = e_stopped e"
  by (cases ev; simp)+

lemma run_frame [simp]:
  "e_cfg (run now ev e) = e_cfg e" "e_now (run now ev e) = now"
  "e_revision (run now ev e) = e_revision e" "e_pending (run now ev e) = e_pending e"
  "e_held (run now ev e) = e_held e" "e_stopped (run now ev e) = e_stopped e"
  by (simp_all add: run_def)

lemma now_ok:
  assumes e: "engine_ok e" and now: "e_now e \<le> now"
  shows "engine_ok (e\<lparr>e_now := now\<rparr>)"
proof -
  have "m_all (link_ok (now + day)) (e_links e)"
    by (rule m_all_mono [OF engine_okD(2) [OF e]]) (use now in \<open>auto simp: link_ok_def\<close>)
  moreover have "m_all (cand_ok (cfg_router_id (e_cfg e)) (now + day)) (e_routes e)"
    by (rule m_all_mono [OF engine_okD(3) [OF e]]) (use now in \<open>auto simp: cand_ok_def\<close>)
  moreover have "m_all (source_ok (now + day)) (e_sources e)"
    by (rule m_all_mono [OF engine_okD(4) [OF e]]) (use now in \<open>auto simp: source_ok_def\<close>)
  moreover have "m_all (\<lambda>p d. net_ok p \<and> d \<le> now + day) (e_drops e)"
    by (rule m_all_mono [OF engine_okD(7) [OF e]]) (use now in auto)
  moreover have "m_all (request_ok (now + day)) (e_requests e)"
    by (rule m_all_mono [OF engine_okD(8) [OF e]]) (use now in \<open>auto simp: request_ok_def\<close>)
  ultimately show ?thesis using e now by (simp add: engine_ok_def)
qed

lemma run_ok [inv_intros]:
  "\<lbrakk>engine_ok e; validate e ev = None; wf_event ev; e_now e \<le> now\<rbrakk> \<Longrightarrow> engine_ok (run now ev e)"
  unfolding run_def
  by (intro timers_ok select_routes_ok, rule handle_event_ok [where ?e0.0 = e])
    (simp_all add: expire_ok now_ok)

text \<open>Every call of \<open>step\<close> refuses and changes nothing, or runs and publishes.\<close>

definition step_guards :: "duration \<Rightarrow> event \<Rightarrow> engine \<Rightarrow> bool" where
  "step_guards now ev e \<longleftrightarrow> \<not> e_stopped e \<and> e_pending e = 0 \<and> e_now e \<le> now \<and> now \<le> max_time
     \<and> validate e ev = None"

lemma step_refused: "\<not> step_guards now ev e \<Longrightarrow> \<exists>err. step now ev e = (Inl err, e)"
  unfolding step_guards_def step_def by (cases "validate e ev") (simp_all, metis not_le)

lemma step_runs:
  assumes "step_guards now ev e" and "flush_out (run now ev e) = (packets, e2)"
  shows "step now ev e =
    (if route_snapshot e \<noteq> route_snapshot e2
     then (Inr \<lparr>eff_revision = e_revision e2 + 1, eff_routes = route_snapshot e2,
             eff_datagrams = []\<rparr>,
           e2\<lparr>e_revision := e_revision e2 + 1, e_pending := e_revision e2 + 1, e_held := packets\<rparr>)
     else (Inr (no_effects\<lparr>eff_datagrams := packets\<rparr>), e2))"
  using assms unfolding step_guards_def step_def run_def Let_def by simp

lemma step_cases:
  obtains (refused) err where "step now ev e = (Inl err, e)"
  | (changed) packets e2 where "step_guards now ev e" "flush_out (run now ev e) = (packets, e2)"
      "route_snapshot e2 \<noteq> route_snapshot e"
      "step now ev e = (Inr \<lparr>eff_revision = e_revision e2 + 1, eff_routes = route_snapshot e2,
          eff_datagrams = []\<rparr>,
        e2\<lparr>e_revision := e_revision e2 + 1, e_pending := e_revision e2 + 1, e_held := packets\<rparr>)"
  | (quiet) packets e2 where "step_guards now ev e" "flush_out (run now ev e) = (packets, e2)"
      "route_snapshot e2 = route_snapshot e"
      "step now ev e = (Inr (no_effects\<lparr>eff_datagrams := packets\<rparr>), e2)"
proof (cases "step_guards now ev e")
  case False
  then show thesis using step_refused refused by blast
next
  case True
  obtain packets e2 where fl: "flush_out (run now ev e) = (packets, e2)" by (metis surj_pair)
  note st = step_runs [OF True fl]
  show thesis
  proof (cases "route_snapshot e2 = route_snapshot e")
    case eq: True
    show thesis by (rule quiet [OF True fl eq]) (simp add: st eq)
  next
    case ne: False
    show thesis by (rule changed [OF True fl ne]) (use ne in \<open>simp add: st\<close>)
  qed
qed

lemma step_ok [inv_intros]:
  assumes e: "engine_ok e" and wf: "wf_event ev"
  shows "engine_ok (snd (step now ev e))"
proof -
  have ok: "engine_ok e2" if "step_guards now ev e" "flush_out (run now ev e) = (packets, e2)"
    for packets e2
    using flush_out_ok [OF run_ok [OF e _ wf, of now]] that by (simp add: step_guards_def)
  show ?thesis
  proof (cases rule: step_cases [of now ev e])
    case (changed packets e2)
    with ok [OF changed(1,2)] show ?thesis by (simp add: engine_ok_def)
  next
    case (quiet packets e2)
    with ok [OF quiet(1,2)] show ?thesis by simp
  qed (use e in simp)
qed

lemma commit_ok [inv_intros]: "engine_ok e \<Longrightarrow> engine_ok (snd (commit n ok e))"
  by (simp add: commit_def engine_ok_def)

lemma new_engine_ok:
  assumes "new_engine c = Inr e"
  shows "engine_ok e"
proof -
  obtain c' where c': "check_config c = Inr c'" and e: "e_cfg e = c'" "e_now e = 0"
      "e_trigger_at e = 0" "e_links e = []" "e_routes e = []" "e_sources e = []" "e_local e = []"
      "e_selected e = []" "e_drops e = []" "e_requests e = []" "e_out e = []"
    using assms by (auto simp: new_engine_def split: sum.splits)
  have "cfg_ok c'" by (rule check_config_ok [OF c'])
  then show ?thesis by (simp add: engine_ok_def e day_def seconds_def cfg_ok_def)
qed

end
