(* ===== verification/Babel_Sample.thy ===== *)
theory Babel_Sample
  imports Babel_Inv
begin

section \<open>A sample engine\<close>

text \<open>
  A running engine with one live link, a candidate learnt over it and a local prefix. The
  theorems about engines that satisfy the invariant are instantiated at it.
\<close>

definition net4 :: prefix where "net4 = Pfx (V4 [10, 1, 0, 0]) 16"

definition net6 :: prefix where
  "net6 = Pfx (V6 [0xfd, 0, 0, 0, 0, 0, 0, 0, 0, 0, 0, 0, 0, 0, 0, 0] '''') 8"

definition local_addr :: addr where
  "local_addr = V6 [0xfe, 0x80, 0, 0, 0, 0, 0, 0, 0, 0, 0, 0, 0, 0, 0, 1] ''''"

definition peer_addr :: addr where
  "peer_addr = V6 [0xfe, 0x80, 0, 0, 0, 0, 0, 0, 0, 0, 0, 0, 0, 0, 0, 2] ''''"

definition sample_config :: config where
  "sample_config = \<lparr>cfg_router_id = 7, cfg_initial_seqno = 0, cfg_seed = 7,
     cfg_hello = seconds 4, cfg_update = seconds 16, cfg_source_gc = seconds 180,
     cfg_max_links = 64, cfg_max_routes = 8192, cfg_max_sources = 16384, cfg_max_requests = 1024,
     cfg_v4via6 = True, cfg_accept_route = None, cfg_accept_update = None,
     cfg_advertise_local = None\<rparr>"

definition sample_link :: link where
  "sample_link = \<lparr>l_id = 1, l_local = local_addr, l_peer = peer_addr, l_cost = 96,
     l_max_packet = 1200, l_hello = 0, l_ipv4 = NoAddr\<rparr>"

definition sample_hello :: hello_state where
  "sample_hello = \<lparr>h_seq = 3, h_seen = True, h_expires = seconds 20\<rparr>"

definition sample_link_state :: link_state where
  "sample_link_state = \<lparr>ls_link = sample_link, ls_hello_m = sample_hello, ls_hello_u = sample_hello,
     ls_tx = 96, ls_ihu_expires = seconds 20, ls_next_hello = seconds 12, ls_next_ihu = seconds 12,
     ls_next_update = seconds 12, ls_hello_seq = 3, ls_last_dump = 0, ls_dumped = True\<rparr>"

definition sample_candidate :: candidate where
  "sample_candidate = \<lparr>cd_prefix = net6, cd_link = 1, cd_id = 9, cd_seq = 5, cd_adv = 20,
     cd_hop = peer_addr, cd_expires = seconds 60, cd_interval = seconds 16, cd_refresh = False\<rparr>"

definition sample_engine :: engine where
  "sample_engine = \<lparr>e_cfg = sample_config, e_now = seconds 10, e_seq = 0, e_rng = 7,
     e_last_link = 1, e_links = [(1, sample_link_state)], e_routes = [((net6, 1), sample_candidate)],
     e_sources = [], e_local = [(net4, 0)], e_selected = [], e_drops = [], e_requests = [],
     e_out = [], e_revision = 0, e_pending = 0, e_held = [], e_stopped = False,
     e_counters = \<lparr>c_received = 0, c_malformed = 0, c_stale = 0, c_rejected = 0, c_sent = 0\<rparr>,
     e_trigger_at = 0, e_trigger = False, e_repeats = 0\<rparr>"

lemma sample_cfg_ok: "cfg_ok sample_config"
  by (simp add: cfg_ok_def sample_config_def valid_id_def bad_interval_def seconds_def millis_def
      hold_def)

lemma net4_ok: "net_ok net4" "routable_prefix net4"
  by code_simp+

lemma net6_ok: "net_ok net6" "routable_prefix net6"
  by code_simp+

lemma sample_link_ok: "link_ok (seconds 10 + day) 1 sample_link_state"
  by (simp add: link_ok_def sample_link_state_def sample_link_def local_addr_def peer_addr_def
      sample_hello_def Let_def seconds_def day_def)

lemma sample_candidate_ok: "cand_ok 7 (seconds 10 + day) (net6, 1) sample_candidate"
  by (simp add: cand_ok_def sample_candidate_def net6_ok valid_id_def seconds_def day_def millis_def)

lemma sample_engine_ok: "engine_ok sample_engine"
proof -
  have "cfg_router_id sample_config = 7" "cfg_max_links sample_config = 64"
    "cfg_max_sources sample_config = 16384" "cfg_max_requests sample_config = 1024"
    by (simp_all add: sample_config_def)
  then show ?thesis
    using sample_cfg_ok sample_link_ok sample_candidate_ok net4_ok
    by (simp add: engine_ok_def sample_engine_def m_all_def m_ok_def local_ok_def infinity_def
        seconds_def day_def)
qed

end
