(* ===== verification/Babel_Select.thy ===== *)
theory Babel_Select
  imports Babel_Sample "HOL-Library.Multiset"
begin

section \<open>Route selection against its specification\<close>

text \<open>
  \<open>selectRoutes\<close> interleaves choosing routes with recording drops, scheduling triggered
  updates and sending requests. This theory says what it selects and what it suppresses:
  a local route wins, otherwise a feasible candidate of least metric, preferring the link
  already in use among equals, otherwise a drop route while the loss is recent.
\<close>

definition usable :: "engine \<Rightarrow> prefix \<Rightarrow> candidate \<Rightarrow> bool" where
  "usable e p r \<longleftrightarrow> map_of (e_routes e) (p, cd_link r) = Some r \<and> route_metric e r \<noteq> infinity
     \<and> feasible e r"

definition previous_link :: "engine \<Rightarrow> prefix \<Rightarrow> link_id" where
  "previous_link e p = (case map_of (e_selected e) p of None \<Rightarrow> 0 | Some v \<Rightarrow> r_link v)"

subsection \<open>The candidate loop\<close>

lemma fold_prefix_inv:
  assumes "I [] s" and "\<And>ys y zs t. xs = ys @ y # zs \<Longrightarrow> I ys t \<Longrightarrow> I (ys @ [y]) (f y t)"
  shows "I xs (fold f xs s)"
proof -
  have "I ys (fold f ys s)" if "xs = ys @ zs" for ys zs
    using that
  proof (induction ys arbitrary: zs rule: rev_induct)
    case (snoc y ys)
    then show ?case using assms(2) [of ys y zs "fold f ys s"] by simp
  qed (simp add: assms(1))
  from this [of xs "[]"] show ?thesis by simp
qed

text \<open>What the loop has chosen for \<open>p\<close> after the candidates \<open>ys\<close>.\<close>

definition good :: "engine \<Rightarrow> prefix \<Rightarrow> route_key \<times> candidate \<Rightarrow> bool" where
  "good e p kr \<longleftrightarrow> fst (fst kr) = p \<and> route_metric e (snd kr) \<noteq> infinity \<and> feasible e (snd kr)"

definition chosen :: "engine \<Rightarrow> prefix \<Rightarrow> (route_key \<times> candidate) list \<Rightarrow> route option \<Rightarrow> bool" where
  "chosen e p ys v \<longleftrightarrow>
     (case v of
        None \<Rightarrow> \<forall>kr \<in> set ys. \<not> good e p kr
      | Some v \<Rightarrow> \<exists>kr \<in> set ys. good e p kr
          \<and> v = candidate_route p (snd kr) (route_metric e (snd kr))
          \<and> (\<forall>kr' \<in> set ys. good e p kr' \<longrightarrow> route_metric e (snd kr) \<le> route_metric e (snd kr'))
          \<and> (\<forall>kr' \<in> set ys. good e p kr' \<and> route_metric e (snd kr') = route_metric e (snd kr)
               \<and> cd_link (snd kr') = previous_link e p \<longrightarrow> cd_link (snd kr) = previous_link e p))"

lemma try_candidate_local:
  "map_of (e_local e) (fst (fst kr)) \<noteq> None \<Longrightarrow> try_candidate e kr n = n"
  by (cases kr) (simp add: try_candidate_def)

lemma try_candidate_other:
  "fst (fst kr) \<noteq> p \<Longrightarrow> map_of (try_candidate e kr n) p = map_of n p"
  by (cases kr) (auto simp: try_candidate_def Let_def)

lemma try_candidate_bad: "\<not> good e (fst (fst kr)) kr \<Longrightarrow> try_candidate e kr n = n"
  by (cases kr) (auto simp: try_candidate_def good_def Let_def)

lemma try_candidate_good:
  assumes "good e p kr" and "map_of (e_local e) p = None"
  shows "map_of (try_candidate e kr n) p =
    (if (case map_of n p of None \<Rightarrow> True
         | Some v \<Rightarrow> route_metric e (snd kr) < r_metric v
             \<or> route_metric e (snd kr) = r_metric v \<and> cd_link (snd kr) = previous_link e p)
     then Some (candidate_route p (snd kr) (route_metric e (snd kr))) else map_of n p)"
proof -
  obtain l r where kr: "kr = ((p, l), r)" using assms(1) by (cases kr) (auto simp: good_def)
  show ?thesis
    using assms unfolding kr snd_conv fst_conv previous_link_def try_candidate_def Let_def
      case_prod_conv
    by (simp add: good_def)
qed

lemma chosen_step:
  assumes loc: "map_of (e_local e) p = None" and ch: "chosen e p ys (map_of n p)"
  shows "chosen e p (ys @ [kr]) (map_of (try_candidate e kr n) p)"
proof (cases "good e p kr")
  case False
  then have "map_of (try_candidate e kr n) p = map_of n p"
    by (cases "fst (fst kr) = p") (simp_all add: try_candidate_other try_candidate_bad)
  then show ?thesis
    using ch False by (cases "map_of n p") (auto simp: chosen_def)
next
  case good: True
  let ?m = "route_metric e (snd kr)"
  note step = try_candidate_good [OF good loc, of n]
  show ?thesis
  proof (cases "map_of n p")
    case None
    then show ?thesis using ch good by (auto simp: step chosen_def)
  next
    case (Some v)
    then obtain k0 where k0: "k0 \<in> set ys" "good e p k0"
        "v = candidate_route p (snd k0) (route_metric e (snd k0))"
        "\<forall>kr' \<in> set ys. good e p kr' \<longrightarrow> route_metric e (snd k0) \<le> route_metric e (snd kr')"
        "\<forall>kr' \<in> set ys. good e p kr' \<and> route_metric e (snd kr') = route_metric e (snd k0)
           \<and> cd_link (snd kr') = previous_link e p \<longrightarrow> cd_link (snd k0) = previous_link e p"
      using ch by (auto simp: chosen_def)
    have vm: "r_metric v = route_metric e (snd k0)" by (simp add: k0(3) candidate_route_def)
    consider "?m < route_metric e (snd k0)"
      | "?m = route_metric e (snd k0)" "cd_link (snd kr) = previous_link e p"
      | "route_metric e (snd k0) \<le> ?m"
          "\<not> (?m = route_metric e (snd k0) \<and> cd_link (snd kr) = previous_link e p)"
      by fastforce
    then show ?thesis
    proof cases
      case 1
      then have "\<forall>kr' \<in> set ys. good e p kr' \<longrightarrow> ?m < route_metric e (snd kr')"
        using k0(4) by force
      then show ?thesis
        using 1 good by (auto simp: step Some vm chosen_def intro!: bexI [of _ kr] dest: order.strict_implies_order)
    next
      case 2
      then show ?thesis
        using k0(4) good by (auto simp: step Some vm chosen_def intro!: bexI [of _ kr])
    next
      case 3
      then have "map_of (try_candidate e kr n) p = Some v" by (auto simp: step Some vm)
      moreover have "\<exists>x \<in> set (ys @ [kr]). good e p x \<and> v = candidate_route p (snd x) (route_metric e (snd x))
          \<and> (\<forall>kr' \<in> set (ys @ [kr]). good e p kr' \<longrightarrow> route_metric e (snd x) \<le> route_metric e (snd kr'))
          \<and> (\<forall>kr' \<in> set (ys @ [kr]). good e p kr' \<and> route_metric e (snd kr') = route_metric e (snd x)
               \<and> cd_link (snd kr') = previous_link e p \<longrightarrow> cd_link (snd x) = previous_link e p)"
        using k0 3 by (intro bexI [of _ k0]) auto
      ultimately show ?thesis by (simp add: chosen_def)
    qed
  qed
qed

lemma select_candidates_chosen:
  assumes loc: "map_of (e_local e) p = None"
  shows "chosen e p (e_routes e) (map_of (select_candidates e) p)"
  unfolding select_candidates_def
proof (rule fold_prefix_inv [where I = "\<lambda>ys n. chosen e p ys (map_of n p)"])
  show "chosen e p [] (map_of (local_next e) p)"
    using loc by (simp add: chosen_def local_next_def)
next
  fix ys y zs n
  assume "chosen e p ys (map_of n p)"
  then show "chosen e p (ys @ [y]) (map_of (try_candidate e y n) p)"
    by (rule chosen_step [OF loc])
qed

lemma select_candidates_local:
  assumes loc: "map_of (e_local e) p = Some m"
  shows "map_of (select_candidates e) p = Some (local_route e p m)"
  unfolding select_candidates_def
proof (rule fold_invariant_on)
  show "map_of (local_next e) p = Some (local_route e p m)"
    using loc by (simp add: local_next_def)
next
  fix x n
  assume "map_of n p = Some (local_route e p m)"
  then show "map_of (try_candidate e x n) p = Some (local_route e p m)"
    by (cases "fst (fst x) = p") (use loc in \<open>simp_all add: try_candidate_local try_candidate_other\<close>)
qed

lemma good_usable:
  assumes "engine_ok e" and "kr \<in> set (e_routes e)"
  shows "good e p kr \<longleftrightarrow> fst (fst kr) = p \<and> usable e p (snd kr)"
proof -
  obtain q l r where kr: "kr = ((q, l), r)" by (metis surj_pair)
  have "cand_ok (cfg_router_id (e_cfg e)) (horizon e) (q, l) r"
    using m_all_set [OF engine_okD(3) [OF assms(1)]] assms(2) kr by blast
  moreover have "map_of (e_routes e) (q, l) = Some r"
    using assms m_all_m_ok [OF engine_okD(3) [OF assms(1)]] by (simp add: kr map_of_in_ok)
  ultimately show ?thesis by (auto simp: kr good_def usable_def cand_ok_def)
qed

lemma usable_in: "usable e p r \<Longrightarrow> ((p, cd_link r), r) \<in> set (e_routes e)"
  by (auto simp: usable_def dest: map_of_SomeD)

text \<open>The loop in terms of the usable candidates.\<close>

lemma select_candidates_best:
  assumes e: "engine_ok e" and loc: "map_of (e_local e) p = None"
    and v: "map_of (select_candidates e) p = Some v"
  shows "\<exists>r. usable e p r \<and> v = candidate_route p r (route_metric e r)
    \<and> (\<forall>r'. usable e p r' \<longrightarrow> route_metric e r \<le> route_metric e r')
    \<and> (\<forall>r'. usable e p r' \<and> route_metric e r' = route_metric e r
         \<and> cd_link r' = previous_link e p \<longrightarrow> cd_link r = previous_link e p)"
proof -
  obtain kr where kr: "kr \<in> set (e_routes e)" "good e p kr"
      "v = candidate_route p (snd kr) (route_metric e (snd kr))"
      "\<forall>kr' \<in> set (e_routes e). good e p kr' \<longrightarrow> route_metric e (snd kr) \<le> route_metric e (snd kr')"
      "\<forall>kr' \<in> set (e_routes e). good e p kr' \<and> route_metric e (snd kr') = route_metric e (snd kr)
         \<and> cd_link (snd kr') = previous_link e p \<longrightarrow> cd_link (snd kr) = previous_link e p"
    using select_candidates_chosen [OF loc] v by (auto simp: chosen_def)
  have u: "((p, cd_link r'), r') \<in> set (e_routes e) \<and> good e p ((p, cd_link r'), r')"
    if "usable e p r'" for r'
    using usable_in [OF that] good_usable [OF e usable_in [OF that]] that by simp
  have "usable e p (snd kr)" using good_usable [OF e kr(1)] kr(2) by blast
  moreover have "route_metric e (snd kr) \<le> route_metric e r'" if "usable e p r'" for r'
    using kr(4) u [OF that] by fastforce
  moreover have "cd_link (snd kr) = previous_link e p"
    if "usable e p r'" "route_metric e r' = route_metric e (snd kr)" "cd_link r' = previous_link e p" for r'
    using kr(5) u [OF that(1)] that by fastforce
  ultimately show ?thesis using kr(3) by blast
qed

lemma select_candidates_none:
  assumes e: "engine_ok e" and loc: "map_of (e_local e) p = None"
    and v: "map_of (select_candidates e) p = None"
  shows "\<not> usable e p r"
proof
  assume u: "usable e p r"
  have "\<not> good e p ((p, cd_link r), r)"
    using select_candidates_chosen [OF loc] v usable_in [OF u] by (auto simp: chosen_def)
  then show False using good_usable [OF e usable_in [OF u], of p] u by simp
qed

lemma select_candidates_reachable:
  assumes "map_of (select_candidates e) p = Some v"
  shows "\<not> r_unreachable v"
proof (cases "map_of (e_local e) p")
  case None
  then show ?thesis
    using select_candidates_chosen [OF None] assms by (auto simp: chosen_def candidate_route_def)
next
  case (Some m)
  then show ?thesis using select_candidates_local [OF Some] assms by (simp add: local_route_def)
qed

subsection \<open>Lost routes and drops\<close>

lemma note_lost_drops:
  "e_drops (note_lost best was e) =
    (if map_of best (r_prefix was) = None \<and> \<not> r_unreachable was
     then m_put (r_prefix was) (e_now e + hold (cfg_update (e_cfg e))) (e_drops e)
     else e_drops e)"
  by (simp add: note_lost_def Let_def split: option.split)

lemma lost_drops:
  "map_of (e_drops (fold (note_lost best) rs e)) p =
    (if map_of best p = None \<and> (\<exists>was \<in> set rs. r_prefix was = p \<and> \<not> r_unreachable was)
     then Some (e_now e + hold (cfg_update (e_cfg e))) else map_of (e_drops e) p)"
  by (induction rs arbitrary: e) (auto simp: note_lost_drops)

lemma lost_drops_ok: "m_ok (e_drops e) \<Longrightarrow> m_ok (e_drops (fold (note_lost best) rs e))"
  by (induction rs arbitrary: e) (simp_all add: note_lost_drops)

lemma map_of_add_drops:
  assumes "m_ok drops"
  shows "map_of (add_drops now drops n) p =
    (case map_of n p of
       Some r \<Rightarrow> Some r
     | None \<Rightarrow> (case map_of drops p of None \<Rightarrow> None
         | Some until \<Rightarrow> if now < until then Some (drop_route p) else None))"
  using assms
proof (induction drops arbitrary: n)
  case Nil
  then show ?case by (simp add: add_drops_def split: option.split)
next
  case (Cons d drops)
  obtain q u where d: "d = (q, u)" by (cases d)
  have ok: "m_ok drops" and fresh: "map_of drops q = None"
    using Cons.prems by (auto simp: m_ok_def d map_of_eq_None_iff)
  define n' where "n' = (if map_of n q = None \<and> now < u then m_put q (drop_route q) n else n)"
  have "add_drops now (d # drops) n = add_drops now drops n'"
    by (simp add: add_drops_def d n'_def)
  with Cons.IH [OF ok, of n'] fresh show ?case
    by (cases "p = q") (auto simp: d n'_def split: option.splits)
qed

lemma map_of_kept_drops:
  assumes "m_ok drops"
  shows "map_of (kept_drops now best drops) p =
    (case map_of drops p of None \<Rightarrow> None
     | Some until \<Rightarrow> if map_of best p = None \<and> now < until then Some until else None)"
  unfolding kept_drops_def map_of_filter_ok [OF assms] by (simp split: option.split)

subsection \<open>The whole of selectRoutes\<close>

lemma select_routes_selected:
  "e_selected (select_routes e) = add_drops (e_now e)
     (e_drops (fold (note_lost (select_candidates e)) (route_snapshot e) e)) (select_candidates e)"
  by (simp add: select_routes_def Let_def fold_keeps)

lemma select_routes_drops:
  "e_drops (select_routes e) = kept_drops (e_now e) (select_candidates e)
     (e_drops (fold (note_lost (select_candidates e)) (route_snapshot e) e))"
  by (simp add: select_routes_def Let_def fold_keeps)

text \<open>When \<open>p\<close>'s last selected route, if any, has just become unusable.\<close>

definition just_lost :: "engine \<Rightarrow> prefix \<Rightarrow> bool" where
  "just_lost e p \<longleftrightarrow> (\<exists>was. map_of (e_selected e) p = Some was \<and> \<not> r_unreachable was)"

lemma snapshot_lost:
  assumes "engine_ok e"
  shows "(\<exists>was \<in> set (route_snapshot e). r_prefix was = p \<and> \<not> r_unreachable was) \<longleftrightarrow> just_lost e p"
proof -
  note sel = engine_okD(6) [OF assms]
  have "r_prefix was = q" if "(q, was) \<in> set (e_selected e)" for q was
    using m_all_set [OF sel that] by (simp add: route_ok_def)
  then show ?thesis
    using map_of_in_ok [OF m_all_m_ok [OF sel]]
    by (force simp: just_lost_def route_snapshot_def)
qed

definition drop_until :: "engine \<Rightarrow> prefix \<Rightarrow> duration option" where
  "drop_until e p = (if just_lost e p then Some (e_now e + hold (cfg_update (e_cfg e)))
     else map_of (e_drops e) p)"

lemma selected_after:
  assumes e: "engine_ok e"
  shows "map_of (e_selected (select_routes e)) p =
    (case map_of (select_candidates e) p of
       Some r \<Rightarrow> Some r
     | None \<Rightarrow> (case drop_until e p of None \<Rightarrow> None
         | Some until \<Rightarrow> if e_now e < until then Some (drop_route p) else None))"
proof -
  have ok: "m_ok (e_drops (fold (note_lost b) rs e))" for b rs
    by (rule lost_drops_ok [OF m_all_m_ok [OF engine_okD(7) [OF e]]])
  show ?thesis
    unfolding select_routes_selected map_of_add_drops [OF ok] lost_drops snapshot_lost [OF e] drop_until_def
    by (cases "map_of (select_candidates e) p") auto
qed

lemma drops_after:
  assumes e: "engine_ok e"
  shows "map_of (e_drops (select_routes e)) p =
    (case drop_until e p of None \<Rightarrow> None
     | Some until \<Rightarrow> if map_of (select_candidates e) p = None \<and> e_now e < until then Some until
         else None)"
proof -
  have ok: "m_ok (e_drops (fold (note_lost b) rs e))" for b rs
    by (rule lost_drops_ok [OF m_all_m_ok [OF engine_okD(7) [OF e]]])
  show ?thesis
  proof (cases "map_of (select_candidates e) p")
    case None
    then show ?thesis
      unfolding select_routes_drops map_of_kept_drops [OF ok] lost_drops snapshot_lost [OF e] drop_until_def
      by simp
  next
    case (Some v)
    then show ?thesis
      unfolding select_routes_drops map_of_kept_drops [OF ok]
      by (simp split: option.splits)
  qed
qed

text \<open>
  C4 (select_routes_spec): after \<open>selectRoutes\<close> a prefix that the node originates has its
  local route; otherwise, if some candidate is usable (feasible, permitted by policy, over a
  live link, of finite metric), the route of a usable candidate of least metric is selected,
  and the one over the link already in use if that link offers the least metric too;
  otherwise the prefix is an explicit drop for as long as the hold time of its loss runs, so
  that a covering route cannot forward it into a loop; otherwise it is not selected at all.
\<close>

theorem select_routes_spec:
  assumes e: "engine_ok e"
  shows "let sel = map_of (e_selected (select_routes e)) p in
    case map_of (e_local e) p of
      Some m \<Rightarrow> sel = Some (local_route e p m)
    | None \<Rightarrow>
        if \<exists>r. usable e p r then
          \<exists>r. usable e p r \<and> sel = Some (candidate_route p r (route_metric e r))
            \<and> (\<forall>r'. usable e p r' \<longrightarrow> route_metric e r \<le> route_metric e r')
            \<and> (\<forall>r'. usable e p r' \<and> route_metric e r' = route_metric e r
                 \<and> cd_link r' = previous_link e p \<longrightarrow> cd_link r = previous_link e p)
        else sel = (case drop_until e p of
             Some until \<Rightarrow> if e_now e < until then Some (drop_route p) else None
           | None \<Rightarrow> None)"
proof (cases "map_of (e_local e) p")
  case (Some m)
  then show ?thesis
    unfolding Let_def selected_after [OF e] by (simp add: select_candidates_local)
next
  case loc: None
  show ?thesis
  proof (cases "map_of (select_candidates e) p")
    case None
    then have "\<not> (\<exists>r. usable e p r)" using select_candidates_none [OF e loc] by blast
    then show ?thesis
      unfolding Let_def selected_after [OF e] by (simp add: loc None)
  next
    case (Some v)
    note best = select_candidates_best [OF e loc Some]
    then have "\<exists>r. usable e p r" by blast
    then show ?thesis
      using best unfolding Let_def selected_after [OF e] by (simp add: loc Some)
  qed
qed

theorem select_routes_spec_witness:
  "let sel = map_of (e_selected (select_routes sample_engine)) net4 in
    case map_of (e_local sample_engine) net4 of
      Some m \<Rightarrow> sel = Some (local_route sample_engine net4 m)
    | None \<Rightarrow>
        if \<exists>r. usable sample_engine net4 r then
          \<exists>r. usable sample_engine net4 r
            \<and> sel = Some (candidate_route net4 r (route_metric sample_engine r))
            \<and> (\<forall>r'. usable sample_engine net4 r'
                 \<longrightarrow> route_metric sample_engine r \<le> route_metric sample_engine r')
            \<and> (\<forall>r'. usable sample_engine net4 r'
                 \<and> route_metric sample_engine r' = route_metric sample_engine r
                 \<and> cd_link r' = previous_link sample_engine net4
                 \<longrightarrow> cd_link r = previous_link sample_engine net4)
        else sel = (case drop_until sample_engine net4 of
             Some until \<Rightarrow> if e_now sample_engine < until then Some (drop_route net4) else None
           | None \<Rightarrow> None)"
  by (rule select_routes_spec [OF sample_engine_ok])

subsection \<open>The order of the trigger loop\<close>

lemma schedule_trigger_commute:
  "schedule_trigger a (schedule_trigger b e) = schedule_trigger b (schedule_trigger a e)"
  by (cases "e_trigger e"; cases a; cases b)
    (simp_all add: schedule_trigger_def jitter_def Let_def)

lemma schedule_trigger_idem [simp]: "schedule_trigger a (schedule_trigger a e) = schedule_trigger a e"
  by (cases "e_trigger e"; cases a) (simp_all add: schedule_trigger_def jitter_def Let_def)

definition trigger_kind :: "(prefix, route) gomap \<Rightarrow> prefix \<times> route \<Rightarrow> bool option" where
  "trigger_kind old pr =
     (case map_of old (fst pr) of
        None \<Rightarrow> Some True
      | Some was \<Rightarrow>
          if r_router_id was \<noteq> r_router_id (snd pr) \<or> r_unreachable was \<noteq> r_unreachable (snd pr)
          then Some True
          else if r_metric was \<noteq> r_metric (snd pr) \<or> r_seqno was \<noteq> r_seqno (snd pr) then Some False
          else None)"

lemma trigger_for_kind:
  "trigger_for old pr e =
     (case trigger_kind old pr of None \<Rightarrow> e | Some b \<Rightarrow> schedule_trigger b e)"
  by (cases pr) (simp add: trigger_for_def trigger_kind_def split: option.split)

text \<open>
  The loop that schedules triggered updates for changed routes
  ends in the same state, with the same random-number state and trigger time, whatever order
  it visits the routes in. The engine stays deterministic although that loop ranges over a Go
  map, whose iteration order is random.
\<close>

theorem trigger_order_irrelevant:
  assumes "mset xs = mset ys"
  shows "fold (trigger_for old) xs e = fold (trigger_for old) ys e"
proof -
  have "fold (trigger_for old) xs = fold (trigger_for old) ys"
    by (rule fold_multiset_equiv [OF _ assms])
      (auto simp: fun_eq_iff trigger_for_kind schedule_trigger_commute split: option.split)
  then show ?thesis by simp
qed

theorem trigger_order_irrelevant_witness:
  "fold (trigger_for []) [(net6, drop_route net6), (net4, drop_route net4)] sample_engine
   = fold (trigger_for []) [(net4, drop_route net4), (net6, drop_route net6)] sample_engine"
  by (rule trigger_order_irrelevant) (simp add: add_mset_commute)

end
