(* ===== verification/Babel_Space.thy ===== *)
theory Babel_Space
  imports Babel_Select
begin

section \<open>How many prefixes an engine holds\<close>

text \<open>
  \<open>MaxRoutes\<close> is checked when a candidate or a local prefix is added, but a lost route adds
  a drop without a check. The invariant here shows that the drops and the selected routes
  stay within \<open>MaxRoutes\<close> all the same: every prefix with a selected route or a drop was
  counted when its candidate or local entry was admitted.
\<close>

definition backed :: "engine \<Rightarrow> prefix set" where
  "backed e = dom (map_of (e_local e)) \<union> fst ` dom (map_of (e_routes e)) \<union> dom (map_of (e_drops e))"

definition chosen_prefixes :: "engine \<Rightarrow> prefix set" where
  "chosen_prefixes e = dom (map_of (e_selected e))"

definition space :: "engine \<Rightarrow> bool" where
  "space e \<longleftrightarrow> int (card (backed e \<union> chosen_prefixes e)) \<le> cfg_max_routes (e_cfg e)
     \<and> int (length (e_routes e) + length (e_local e)) \<le> cfg_max_routes (e_cfg e)"

definition covered :: "engine \<Rightarrow> bool" where
  "covered e \<longleftrightarrow> chosen_prefixes e \<subseteq> backed e"

definition anchored :: "engine \<Rightarrow> bool" where
  "anchored e \<longleftrightarrow> (\<forall>p r. map_of (e_selected e) p = Some r \<longrightarrow>
     (if r_unreachable r then map_of (e_drops e) p \<noteq> None
      else map_of (e_local e) p \<noteq> None
        \<or> (\<exists>l c. map_of (e_routes e) (p, l) = Some c \<and> cd_adv c \<noteq> infinity)))"

lemma finite_backed [simp]: "finite (backed e)" "finite (chosen_prefixes e)"
  by (simp_all add: backed_def chosen_prefixes_def finite_dom_map_of)

lemma dom_map_of_fst: "dom (map_of m) = fst ` set m"
  by (rule dom_map_of_conv_image_fst)

lemma backedI:
  "map_of (e_local e) p \<noteq> None \<Longrightarrow> p \<in> backed e"
  "map_of (e_drops e) p \<noteq> None \<Longrightarrow> p \<in> backed e"
  "map_of (e_routes e) (p, l) = Some c \<Longrightarrow> p \<in> backed e"
proof -
  assume r: "map_of (e_routes e) (p, l) = Some c"
  then have "fst (p, l) \<in> fst ` dom (map_of (e_routes e))" by (intro imageI domI)
  then show "p \<in> backed e" unfolding backed_def fst_conv by (intro UnI1 UnI2)
qed (auto simp: backed_def)

lemma anchored_covered:
  assumes "anchored e"
  shows "covered e"
  unfolding covered_def
proof
  fix p
  assume "p \<in> chosen_prefixes e"
  then obtain r where r: "map_of (e_selected e) p = Some r" by (auto simp: chosen_prefixes_def)
  show "p \<in> backed e"
  proof (cases "r_unreachable r")
    case True
    then have "map_of (e_drops e) p \<noteq> None" using assms r unfolding anchored_def by metis
    then show ?thesis by (rule backedI)
  next
    case False
    then consider "map_of (e_local e) p \<noteq> None" | l c where "map_of (e_routes e) (p, l) = Some c"
      using assms r unfolding anchored_def by metis
    then show ?thesis by cases (rule backedI, assumption)+
  qed
qed

text \<open>The fields these predicates read.\<close>

definition same_space :: "engine \<Rightarrow> engine \<Rightarrow> bool" where
  "same_space e e' \<longleftrightarrow> e_cfg e' = e_cfg e \<and> e_local e' = e_local e \<and> e_selected e' = e_selected e
     \<and> e_drops e' = e_drops e \<and> m_keys (e_routes e') = m_keys (e_routes e)"

lemma same_space_dom: "same_space e e' \<Longrightarrow> dom (map_of (e_routes e')) = dom (map_of (e_routes e))"
  unfolding same_space_def dom_map_of_fst m_keys_def by (metis list.set_map)

lemma same_space_len: "same_space e e' \<Longrightarrow> length (e_routes e') = length (e_routes e)"
  unfolding same_space_def length_m_keys [symmetric] by simp

lemma same_space_keeps:
  assumes "same_space e e'"
  shows "space e' = space e" "covered e' = covered e"
  using assms same_space_dom [OF assms] same_space_len [OF assms]
  by (simp_all add: space_def covered_def backed_def chosen_prefixes_def same_space_def)

subsection \<open>Selection\<close>

lemma select_covers:
  assumes e: "engine_ok e"
  shows "anchored (select_routes e)"
  unfolding anchored_def
proof (intro allI impI)
  fix p r
  assume sel: "map_of (e_selected (select_routes e)) p = Some r"
  show "if r_unreachable r then map_of (e_drops (select_routes e)) p \<noteq> None
    else map_of (e_local (select_routes e)) p \<noteq> None
      \<or> (\<exists>l c. map_of (e_routes (select_routes e)) (p, l) = Some c \<and> cd_adv c \<noteq> infinity)"
  proof (cases "map_of (select_candidates e) p")
    case None
    then obtain u where "drop_until e p = Some u" "e_now e < u" "r = drop_route p"
      using sel unfolding selected_after [OF e] by (auto split: option.splits if_splits)
    then show ?thesis
      unfolding drops_after [OF e] by (simp add: None drop_route_def)
  next
    case (Some v)
    then have v: "r = v" using sel unfolding selected_after [OF e] by simp
    have "\<not> r_unreachable r" using select_candidates_reachable [OF Some] v by simp
    moreover have "\<exists>l c. map_of (e_routes e) (p, l) = Some c \<and> cd_adv c \<noteq> infinity"
      if loc: "map_of (e_local e) p = None"
    proof -
      obtain c where c: "usable e p c" using select_candidates_best [OF e loc Some] by blast
      then have "route_metric e c \<noteq> infinity" by (simp add: usable_def)
      then have "cd_adv c \<noteq> infinity"
        by (auto simp: route_metric_def metric_sum_finite(2) split: if_splits)
      with c show ?thesis by (auto simp: usable_def)
    qed
    ultimately show ?thesis by auto
  qed
qed

lemma select_backed:
  assumes e: "engine_ok e"
  shows "backed (select_routes e) \<union> chosen_prefixes (select_routes e)
    \<subseteq> backed e \<union> chosen_prefixes e"
proof -
  have "dom (map_of (e_drops (select_routes e))) \<subseteq> dom (map_of (e_drops e)) \<union> chosen_prefixes e"
  proof
    fix p
    assume "p \<in> dom (map_of (e_drops (select_routes e)))"
    then have "drop_until e p \<noteq> None"
      unfolding dom_def drops_after [OF e] by (auto split: option.splits)
    then show "p \<in> dom (map_of (e_drops e)) \<union> chosen_prefixes e"
      by (auto simp: drop_until_def just_lost_def chosen_prefixes_def split: if_splits)
  qed
  then have "backed (select_routes e) \<subseteq> backed e \<union> chosen_prefixes e"
    by (auto simp: backed_def)
  moreover have "chosen_prefixes (select_routes e) \<subseteq> backed (select_routes e)"
    using anchored_covered [OF select_covers [OF e]] by (simp add: covered_def)
  ultimately show ?thesis by blast
qed

lemma space_le:
  assumes "space e" "backed e' \<union> chosen_prefixes e' \<subseteq> backed e \<union> chosen_prefixes e"
    and "e_cfg e' = e_cfg e" "length (e_routes e') + length (e_local e') \<le> length (e_routes e) + length (e_local e)"
  shows "space e'"
proof -
  have "card (backed e' \<union> chosen_prefixes e') \<le> card (backed e \<union> chosen_prefixes e)"
    by (rule card_mono) (use assms(2) in simp_all)
  then show ?thesis using assms(1,3,4) by (simp add: space_def)
qed

lemma select_space: "engine_ok e \<Longrightarrow> space e \<Longrightarrow> space (select_routes e)"
  by (rule space_le [OF _ select_backed]) simp_all

subsection \<open>Receiving\<close>

lemma card_backed_le: "card (backed e) \<le> length (e_local e) + length (e_routes e) + length (e_drops e)"
proof -
  have "card (fst ` dom (map_of (e_routes e))) \<le> length (e_routes e)"
    unfolding dom_map_of_fst image_image by (metis card_length length_map list.set_map)
  moreover have "card (dom (map_of (e_local e))) \<le> length (e_local e)"
    unfolding dom_map_of_fst by (metis card_length length_map list.set_map)
  moreover have "card (dom (map_of (e_drops e))) \<le> length (e_drops e)"
    unfolding dom_map_of_fst by (metis card_length length_map list.set_map)
  ultimately show ?thesis
    unfolding backed_def by (smt (verit) card_Un_le le_trans add_le_mono)
qed

lemma covered_card: "covered e \<Longrightarrow> backed e \<union> chosen_prefixes e = backed e"
  by (auto simp: covered_def)

text \<open>Filing a candidate for \<open>p\<close>: the limit is checked when the key is new.\<close>

lemma put_candidate_space:
  assumes e: "space e" "covered e" "m_ok (e_routes e)"
    and room: "map_of (e_routes e) (p, l) = None \<Longrightarrow>
      int (length (e_routes e) + length (e_local e) + length (e_drops e)) < cfg_max_routes (e_cfg e)"
  shows "space (e\<lparr>e_routes := m_put (p, l) c (e_routes e)\<rparr>)"
    and "covered (e\<lparr>e_routes := m_put (p, l) c (e_routes e)\<rparr>)"
proof -
  let ?e' = "e\<lparr>e_routes := m_put (p, l) c (e_routes e)\<rparr>"
  have b: "backed ?e' = insert p (backed e)" "chosen_prefixes ?e' = chosen_prefixes e"
    by (auto simp: backed_def chosen_prefixes_def)
  then show c: "covered ?e'" using e(2) by (auto simp: covered_def)
  show "space ?e'"
  proof (cases "map_of (e_routes e) (p, l)")
    case None
    have "card (backed ?e') \<le> Suc (card (backed e))" by (simp add: b card_insert_le_m1 card_insert_if)
    then show ?thesis
      using room [OF None] card_backed_le [of e] length_m_put_absent [OF e(3) None, of c]
      unfolding space_def covered_card [OF c] by simp
  next
    case (Some x)
    then have "p \<in> backed e" by (force simp: backed_def)
    then show ?thesis
      using e(1) length_m_put_present [OF e(3)] Some
      by (simp add: space_def b insert_absorb)
  qed
qed

lemma same_space_refl [simp]: "same_space e e"
  by (simp add: same_space_def)

lemma same_space_upd_route: "same_space e (upd_route k f e)"
  by (simp add: same_space_def upd_route_def)

definition roomy :: "engine \<Rightarrow> bool" where
  "roomy e \<longleftrightarrow> engine_ok e \<and> space e \<and> covered e"

lemma roomy_same: "roomy e \<Longrightarrow> engine_ok e' \<Longrightarrow> same_space e e' \<Longrightarrow> roomy e'"
  by (simp add: roomy_def same_space_keeps)

lemma roomy_select: "roomy e \<Longrightarrow> roomy (select_routes e)"
  by (simp add: roomy_def select_routes_ok select_space anchored_covered select_covers)

lemma recv_update_roomy:
  assumes e: "roomy e" and lid: "lid \<noteq> 0" and m: "decoded_ok m" "m_type m = T_UPDATE"
  shows "roomy (recv_update lid peer m e)"
proof -
  have ok: "engine_ok (recv_update lid peer m e)"
    using recv_update_ok [OF _ lid m] e by (simp add: roomy_def)
  show ?thesis
  proof (cases "m_wildcard m \<or> m_metric m = infinity \<or> update_refused e peer lid m")
    case True
    then have "same_space e (recv_update lid peer m e)"
      by (auto simp: same_space_def recv_update_def upd_route_def Let_def)
    then show ?thesis by (rule roomy_same [OF e ok])
  next
    case False
    let ?k = "(m_prefix m, lid)" and ?r = "new_candidate e lid m"
    let ?e1 = "e\<lparr>e_routes := m_put ?k ?r (e_routes e)\<rparr>"
    have "m_ok (e_routes e)" using e engine_okD(3) [of e] by (simp add: roomy_def)
    then have "space ?e1 \<and> covered ?e1"
      using put_candidate_space [of e "m_prefix m" lid ?r] e False
      by (auto simp: roomy_def update_refused_def)
    moreover have "same_space ?e1 (recv_update lid peer m e)"
      using False by (auto simp: same_space_def recv_update_def Let_def split: option.split)
    ultimately show ?thesis using ok by (simp add: roomy_def same_space_keeps)
  qed
qed

lemma seq_request_roomy:
  assumes e: "roomy e" and m: "decoded_ok m" "m_type m = T_SEQ_REQUEST"
  shows "roomy (seq_request from m e)"
proof -
  have ok: "engine_ok (seq_request from m e)" using seq_request_ok [OF _ m] e by (simp add: roomy_def)
  let ?e1 = "e\<lparr>e_seq := e_seq e + 1\<rparr>"
  have "roomy ?e1" using e by (auto simp: roomy_def engine_ok_def space_def covered_def backed_def
      chosen_prefixes_def)
  then have s: "roomy (select_routes ?e1)" by (rule roomy_select)
  let ?bump = "case map_of (e_selected e) (m_prefix m) of None \<Rightarrow> False
    | Some r \<Rightarrow> \<not> r_unreachable r \<and> r_router_id r = m_router_id m
        \<and> \<not> at_least (r_seqno r) (m_seqno m) \<and> r_local r"
  show ?thesis
  proof (cases ?bump)
    case True
    then obtain r where "map_of (e_selected e) (m_prefix m) = Some r" "\<not> r_unreachable r"
        "r_router_id r = m_router_id m" "\<not> at_least (r_seqno r) (m_seqno m)" "r_local r"
      by (auto split: option.splits)
    then have "seq_request from m e = advertise from (m_prefix m) True (select_routes ?e1)"
      by (simp add: seq_request_def)
    then have "same_space (select_routes ?e1) (seq_request from m e)" by (simp add: same_space_def)
    then show ?thesis by (rule roomy_same [OF s ok])
  next
    case False
    have "same_space e (seq_forward from m e)" "same_space e (advertise from (m_prefix m) True e)"
      by (simp_all add: same_space_def)
    with False have "same_space e (seq_request from m e)"
      unfolding seq_request_def by (cases "map_of (e_selected e) (m_prefix m)") auto
    then show ?thesis by (rule roomy_same [OF e ok])
  qed
qed

lemma receive_one_roomy:
  assumes "roomy e" and lid: "lid \<noteq> 0" and m: "decoded_ok m"
  shows "roomy (receive_one lid peer m e)"
proof -
  define e1 where "e1 = (if m_type m = T_REQUEST \<or> m_type m = T_SEQ_REQUEST then select_routes e else e)"
  have e1: "roomy e1" using assms(1) by (simp add: e1_def roomy_select)
  have ok: "engine_ok (receive_msg lid peer m e1)"
    using e1 lid m by (simp add: receive_msg_ok roomy_def)
  have "roomy (receive_msg lid peer m e1)"
  proof (cases "m_type m = T_UPDATE \<or> m_type m = T_SEQ_REQUEST")
    case True
    then show ?thesis
      using recv_update_roomy [OF e1 lid m] seq_request_roomy [OF e1 m]
      by (auto simp: receive_msg_def)
  next
    case False
    then have "same_space e1 (receive_msg lid peer m e1)"
      by (simp add: receive_msg_def Let_def same_space_def)
    then show ?thesis by (rule roomy_same [OF e1 ok])
  qed
  then show ?thesis by (simp add: receive_one_def e1_def)
qed

lemma receive_packet_roomy:
  assumes e: "roomy e"
  shows "roomy (receive_packet lid b e)"
proof (cases "map_of (e_links e) lid")
  case None
  then show ?thesis
    using e receive_packet_ok [of e lid b]
    by (intro roomy_same [OF e]) (simp_all add: roomy_def same_space_def receive_packet_def)
next
  case (Some l)
  have c: "roomy (e\<lparr>e_counters := c\<rparr>)" for c
    using e by (rule roomy_same) (use e in \<open>simp_all add: roomy_def engine_ok_def same_space_def\<close>)
  have lid: "lid \<noteq> 0" using e Some by (auto simp: roomy_def dest: engine_ok_link_ne_0)
  have "roomy (fold (receive_one lid peer) msgs (e\<lparr>e_counters := c\<rparr>))"
    if "decode b src = Some msgs" for msgs c peer src
    by (rule fold_invariant_on [where I = roomy, OF c])
      (rule receive_one_roomy [OF _ lid decode_messages_ok [OF that]])
  then show ?thesis
    using c Some by (auto simp: receive_packet_def Let_def split: option.splits)
qed

subsection \<open>A whole step\<close>

definition settled :: "engine \<Rightarrow> bool" where
  "settled e \<longleftrightarrow> engine_ok e \<and> space e \<and> anchored e"

lemma expire_routes_get:
  assumes "m_ok rs" and "map_of rs k = Some c" and "cd_adv c \<noteq> infinity"
  shows "\<exists>c'. map_of (expire_routes now rs) k = Some c'"
  using assms unfolding expire_routes_def
  by (auto simp: map_of_filter_ok)

lemma expire_routes_dom:
  assumes "m_ok rs"
  shows "dom (map_of (expire_routes now rs)) \<subseteq> dom (map_of rs)"
  using assms unfolding expire_routes_def
  by (auto simp: map_of_filter_ok split: option.splits)

lemma expire_routes_length: "length (expire_routes now rs) \<le> length rs"
  by (simp add: expire_routes_def)

lemma expire_roomy:
  assumes e: "settled e"
  shows "roomy (expire e)"
proof -
  have ok: "m_ok (e_routes e)" using e engine_okD(3) [of e] by (simp add: settled_def)
  have "chosen_prefixes (expire e) \<subseteq> backed (expire e)"
  proof
    fix p
    assume "p \<in> chosen_prefixes (expire e)"
    then obtain r where r: "map_of (e_selected e) p = Some r" by (auto simp: chosen_prefixes_def)
    have anch: "anchored e" using e by (simp add: settled_def)
    consider "map_of (e_drops e) p \<noteq> None" | "map_of (e_local e) p \<noteq> None"
      | l c where "map_of (e_routes e) (p, l) = Some c" "cd_adv c \<noteq> infinity"
      using anch r unfolding anchored_def by metis
    then show "p \<in> backed (expire e)"
    proof cases
      case 3
      then obtain c' where "map_of (e_routes (expire e)) (p, l) = Some c'"
        using expire_routes_get [OF ok] by (fastforce simp: expire_def)
      then show ?thesis by (rule backedI)
    qed (auto intro: backedI)
  qed
  then have c: "covered (expire e)" by (simp add: covered_def)
  have "fst ` dom (map_of (e_routes (expire e))) \<subseteq> fst ` dom (map_of (e_routes e))"
    using image_mono [OF expire_routes_dom [OF ok]] by (simp add: expire_def)
  then have "backed (expire e) \<union> chosen_prefixes (expire e) \<subseteq> backed e \<union> chosen_prefixes e"
    by (auto simp: backed_def chosen_prefixes_def)
  moreover have "length (e_routes (expire e)) \<le> length (e_routes e)"
    by (simp add: expire_def expire_routes_length)
  moreover have "space e" using e by (simp add: settled_def)
  ultimately have "space (expire e)" by - (rule space_le [of e], simp_all)
  then show ?thesis using c e by (simp add: roomy_def settled_def expire_ok)
qed

lemma backed_originate:
  "backed (handle_event (Originate p m) e) = insert p (backed e)"
  by (auto simp: backed_def)

lemma originate_space:
  assumes e: "roomy e" and v: "validate e0 (Originate p m) = None"
    and e0: "e_local e = e_local e0" "e_drops e = e_drops e0" "e_cfg e = e_cfg e0"
      "length (e_routes e) \<le> length (e_routes e0)"
  shows "space (handle_event (Originate p m) e)"
proof (cases "map_of (e_local e) p")
  case None
  let ?h = "handle_event (Originate p m) e"
  have cov: "chosen_prefixes e \<subseteq> backed e" and lo: "m_ok (e_local e)"
    using e engine_okD(5) [of e] by (simp_all add: roomy_def covered_def)
  have "int (length (e_local e0) + length (e_routes e0) + length (e_drops e0)) < cfg_max_routes (e_cfg e0)"
    using v None e0(1) by (simp split: if_split_asm)
  then have room: "int (length (e_local e) + length (e_routes e) + length (e_drops e)) < cfg_max_routes (e_cfg e)"
    using e0 by simp
  have "chosen_prefixes ?h = chosen_prefixes e" by (simp add: chosen_prefixes_def)
  then have "backed ?h \<union> chosen_prefixes ?h = insert p (backed e)"
    unfolding backed_originate using cov by blast
  then have "card (backed ?h \<union> chosen_prefixes ?h) \<le> Suc (card (backed e))"
    by (simp add: card_insert_if)
  moreover have "length (e_local ?h) = Suc (length (e_local e))"
    using length_m_put_absent [OF lo None, of m] by simp
  moreover have same: "e_cfg ?h = e_cfg e" "e_routes ?h = e_routes e" by simp_all
  ultimately show ?thesis
    using room card_backed_le [of e] unfolding space_def same by (intro conjI) linarith+
next
  case (Some x)
  let ?h = "handle_event (Originate p m) e"
  have lo: "m_ok (e_local e)" using e engine_okD(5) [of e] by (simp add: roomy_def)
  have "map_of (e_local e) p \<noteq> None" by (simp add: Some)
  then have "length (e_local ?h) = length (e_local e)" and "p \<in> backed e"
    using length_m_put_present [OF lo, of p m] backedI(1) by simp_all
  moreover have "chosen_prefixes ?h = chosen_prefixes e" by (simp add: chosen_prefixes_def)
  moreover have "space e" using e by (simp add: roomy_def)
  ultimately show ?thesis
    by - (rule space_le [of e], simp_all add: backed_originate insert_absorb del: handle_event.simps,
        simp_all)
qed

lemma handle_event_space:
  assumes e: "roomy e" and v: "validate e0 ev = None"
    and e0: "e_local e = e_local e0" "e_drops e = e_drops e0" "e_cfg e = e_cfg e0"
      "length (e_routes e) \<le> length (e_routes e0)"
  shows "space (handle_event ev e)"
proof (cases ev)
  case (Receive i p)
  then show ?thesis using receive_packet_roomy [OF e] by (simp add: roomy_def)
next
  case (Originate p m)
  then show ?thesis using originate_space [OF e _ e0] v by simp
next
  case (Withdraw p)
  have "length (m_del p (e_local e)) \<le> length (e_local e)"
    using e by (intro length_m_del_le) (auto simp: roomy_def dest: engine_okD(5))
  moreover have "backed (handle_event (Withdraw p) e) \<subseteq> backed e" by (auto simp: backed_def)
  moreover have "chosen_prefixes (handle_event (Withdraw p) e) = chosen_prefixes e"
    by (simp add: chosen_prefixes_def)
  moreover have "space e" using e by (simp add: roomy_def)
  ultimately show ?thesis
    unfolding Withdraw by (intro space_le [of e "handle_event (Withdraw p) e"]) (assumption, blast, simp_all)
next
  case (RemoveLink i)
  then have "same_space e (handle_event ev e)" by (simp add: same_space_def)
  then show ?thesis using e by (simp add: roomy_def same_space_keeps)
next
  case (AddLink l)
  then have "same_space e (handle_event ev e)" by (simp add: same_space_def)
  then show ?thesis using e by (simp add: roomy_def same_space_keeps)
next
  case (SetCost i c)
  then have "same_space e (handle_event ev e)" by (simp add: same_space_def)
  then show ?thesis using e by (simp add: roomy_def same_space_keeps)
qed (use e in \<open>simp add: roomy_def\<close>)

text \<open>Timers change no prefix and no advertised metric.\<close>

definition space_view :: "engine \<Rightarrow> config \<times> (prefix, u16) gomap \<times> (prefix, route) gomap
    \<times> (prefix, duration) gomap \<times> route_key list \<times> (route_key \<Rightarrow> u16 option)" where
  "space_view e = (e_cfg e, e_local e, e_selected e, e_drops e, m_keys (e_routes e),
     \<lambda>k. map_option cd_adv (map_of (e_routes e) k))"

lemma space_view_keeps:
  assumes "space_view e' = space_view e"
  shows "space e' = space e" "anchored e' = anchored e"
proof -
  have "same_space e e'" using assms by (simp add: space_view_def same_space_def)
  then show "space e' = space e" by (rule same_space_keeps)
  have "(\<exists>c. map_of (e_routes e') k = Some c \<and> cd_adv c \<noteq> infinity)
      = (\<exists>c. map_of (e_routes e) k = Some c \<and> cd_adv c \<noteq> infinity)" for k
  proof -
    have "map_option cd_adv (map_of (e_routes e') k) = map_option cd_adv (map_of (e_routes e) k)"
      using assms unfolding space_view_def prod.inject by metis
    then show ?thesis
      by (cases "map_of (e_routes e') k"; cases "map_of (e_routes e) k") simp_all
  qed
  then show "anchored e' = anchored e"
    using assms by (simp add: anchored_def space_view_def)
qed

lemma timers_space_view: "space_view (timers e) = space_view e"
proof -
  have 1: "space_view (fold link_timers ks s) = space_view s" for ks s
    by (rule fold_keeps) (simp add: space_view_def)
  have 2: "space_view (trigger_timer s) = space_view s" for s by (simp add: space_view_def)
  have 3: "space_view (fold request_timer ks s) = space_view s" for ks s
    by (rule fold_keeps) (simp add: space_view_def)
  have r: "space_view (refresh_timer k s) = space_view s" for k s
    by (auto simp: space_view_def refresh_timer_def upd_route_def fun_eq_iff option.map_comp comp_def
        split: option.split intro!: map_option_cong)
  have 4: "space_view (fold refresh_timer ks s) = space_view s" for ks s
    by (rule fold_keeps) (rule r)
  show ?thesis by (simp add: timers_def Let_def 1 2 3 4)
qed

lemma run_settled:
  assumes e: "settled e" and v: "validate e ev = None" and wf: "wf_event ev" and now: "e_now e \<le> now"
  shows "settled (run now ev e)"
proof -
  let ?e1 = "e\<lparr>e_now := now\<rparr>"
  have "space_view ?e1 = space_view e" by (simp add: space_view_def)
  from space_view_keeps [OF this] have "settled ?e1"
    using e now by (simp add: settled_def now_ok)
  then have r: "roomy (expire ?e1)" by (rule expire_roomy)
  have len: "length (e_routes (expire ?e1)) \<le> length (e_routes e)"
    by (simp add: expire_def expire_routes_length)
  have s: "space (handle_event ev (expire ?e1))"
    by (rule handle_event_space [OF r v]) (simp_all add: len)
  have ok: "engine_ok (handle_event ev (expire ?e1))"
    using r by (intro handle_event_ok [OF _ v wf]) (simp_all add: roomy_def)
  have "settled (select_routes (handle_event ev (expire ?e1)))"
    using ok s by (simp add: settled_def select_space select_covers select_routes_ok)
  then show ?thesis
    using space_view_keeps [OF timers_space_view, of "select_routes (handle_event ev (expire ?e1))"]
    by (simp add: run_def settled_def timers_ok)
qed

lemma step_settled [inv_intros]:
  assumes e: "settled e" and wf: "wf_event ev"
  shows "settled (snd (step now ev e))"
proof -
  have main: "settled e2" if g: "step_guards now ev e" "flush_out (run now ev e) = (packets, e2)" for packets e2
  proof -
    have r: "settled (run now ev e)" using g(1) by (intro run_settled e wf) (simp_all add: step_guards_def)
    have e2: "e2 = snd (flush_out (run now ev e))" by (simp add: g(2))
    have "space_view e2 = space_view (run now ev e)" unfolding e2 space_view_def flush_out_frame ..
    from space_view_keeps [OF this] show ?thesis
      using r flush_out_ok [of "run now ev e"] e2 by (simp add: settled_def)
  qed
  have upd: "settled (s\<lparr>e_revision := r, e_pending := p, e_held := h\<rparr>)" if "settled s" for s r p h
  proof -
    have "space_view (s\<lparr>e_revision := r, e_pending := p, e_held := h\<rparr>) = space_view s"
      by (simp add: space_view_def)
    from space_view_keeps [OF this] show ?thesis using that by (simp add: settled_def engine_ok_def)
  qed
  show ?thesis
  proof (cases rule: step_cases [of now ev e])
    case (changed packets e2)
    with upd [OF main [OF changed(1,2)]] show ?thesis by simp
  next
    case (quiet packets e2)
    with main [OF quiet(1,2)] show ?thesis by simp
  qed (use e in simp)
qed

lemma commit_settled [inv_intros]:
  assumes "settled e"
  shows "settled (snd (commit n ok e))"
proof -
  have "space_view (snd (commit n ok e)) = space_view e" by (simp add: commit_def space_view_def)
  from space_view_keeps [OF this] show ?thesis using assms by (simp add: settled_def commit_ok)
qed

lemma settled_sizes:
  assumes "settled e"
  shows "int (length (e_selected e)) \<le> cfg_max_routes (e_cfg e)"
    and "int (length (e_drops e)) \<le> cfg_max_routes (e_cfg e)"
    and "int (card (dom (map_of (e_drops e)) \<union> dom (map_of (e_selected e)))) \<le> cfg_max_routes (e_cfg e)"
proof -
  have len: "length m = card (dom (map_of m))" if "m_ok m" for m :: "('k::linorder, 'v) gomap"
    using gm.len_card [OF that] by simp
  have bound: "card A \<le> card (backed e \<union> chosen_prefixes e)" if "A \<subseteq> backed e \<union> chosen_prefixes e" for A
    by (rule card_mono [OF _ that]) simp
  have sp: "int (card (backed e \<union> chosen_prefixes e)) \<le> cfg_max_routes (e_cfg e)"
    and ok: "engine_ok e" using assms by (simp_all add: settled_def space_def)
  have 1: "dom (map_of (e_drops e)) \<union> dom (map_of (e_selected e)) \<subseteq> backed e \<union> chosen_prefixes e"
    by (auto simp: backed_def chosen_prefixes_def)
  then have 2: "dom (map_of (e_selected e)) \<subseteq> backed e \<union> chosen_prefixes e"
    and 3: "dom (map_of (e_drops e)) \<subseteq> backed e \<union> chosen_prefixes e" by blast+
  show "int (card (dom (map_of (e_drops e)) \<union> dom (map_of (e_selected e)))) \<le> cfg_max_routes (e_cfg e)"
    using bound [OF 1] sp by linarith
  show "int (length (e_selected e)) \<le> cfg_max_routes (e_cfg e)"
    unfolding len [OF m_all_m_ok [OF engine_okD(6) [OF ok]]] using bound [OF 2] sp by linarith
  show "int (length (e_drops e)) \<le> cfg_max_routes (e_cfg e)"
    unfolding len [OF m_all_m_ok [OF engine_okD(7) [OF ok]]] using bound [OF 3] sp by linarith
qed

end
