(* ===== verification/Babel_Checkpoint.thy ===== *)
theory Babel_Checkpoint
  imports Babel_Space
begin

section \<open>Checkpoint, Restore and the reachable engines (go/babel/checkpoint.go)\<close>

text \<open>
  The safety history an engine hands to durable storage, the engine rebuilt from it, and the
  set of engines the API can produce. Every reachable engine satisfies the invariant, keeps
  its tables within their limits, and has a checkpoint that \<open>Restore\<close> accepts.
\<close>

record source_history =
  sh_prefix :: prefix
  sh_router_id :: router_id
  sh_seqno :: u16
  sh_metric :: u16

record checkpoint =
  cp_version :: int
  cp_router_id :: router_id
  cp_seqno :: u16
  cp_last_link :: link_id
  cp_source_hold :: duration
  cp_drop_hold :: duration
  cp_sources :: "source_history list"
  cp_drops :: "prefix list"

definition history_of :: "source_key \<Rightarrow> source \<Rightarrow> source_history" where
  "history_of sk s = \<lparr>sh_prefix = fst sk, sh_router_id = snd sk, sh_seqno = s_seq s,
     sh_metric = s_metric s\<rparr>"

definition drop_prefixes :: "engine \<Rightarrow> prefix list" where
  "drop_prefixes e =
     m_keys (fold (\<lambda>p m. m_put p () m) (m_keys (e_drops e) @ m_keys (e_selected e)) [])"

definition checkpoint_of :: "engine \<Rightarrow> checkpoint" where
  "checkpoint_of e = \<lparr>cp_version = 1, cp_router_id = cfg_router_id (e_cfg e), cp_seqno = e_seq e,
     cp_last_link = e_last_link e, cp_source_hold = cfg_source_gc (e_cfg e),
     cp_drop_hold = fold (\<lambda>(p, until) h. max h (until - e_now e)) (e_drops e)
       (hold (cfg_update (e_cfg e))),
     cp_sources = map (\<lambda>(sk, s). history_of sk s) (e_sources e),
     cp_drops = drop_prefixes e\<rparr>"

fun restore_sources :: "source_history list \<Rightarrow> engine \<Rightarrow> engine option" where
  "restore_sources [] e = Some e"
| "restore_sources (s # ss) e =
     (let sk = (sh_prefix s, sh_router_id s) in
      if \<not> valid_prefix (sh_prefix s) \<or> sh_router_id s = 0 \<or> sh_router_id s = - 1
         \<or> sh_metric s = infinity then None
      else if map_of (e_sources e) sk \<noteq> None then None
      else restore_sources ss (e\<lparr>e_sources := m_put sk \<lparr>s_seq = sh_seqno s,
        s_metric = sh_metric s, s_expires = cfg_source_gc (e_cfg e)\<rparr> (e_sources e)\<rparr>))"

fun restore_drops :: "duration \<Rightarrow> prefix list \<Rightarrow> engine \<Rightarrow> engine option" where
  "restore_drops d [] e = Some e"
| "restore_drops d (p # ps) e =
     (if \<not> valid_prefix p then None
      else restore_drops d ps (e\<lparr>e_drops := m_put p (max (hold (cfg_update (e_cfg e))) d) (e_drops e)\<rparr>))"

definition restore :: "config \<Rightarrow> checkpoint \<Rightarrow> berror + engine" where
  "restore c st =
     (if cp_version st \<noteq> 1 \<or> cfg_router_id c \<noteq> cp_router_id st then Inl ErrConfig
      else if cp_source_hold st < seconds 180 \<or> seconds 86400 < cp_source_hold st
         \<or> cp_drop_hold st \<le> 0 \<or> seconds 86400 < cp_drop_hold st then Inl ErrConfig
      else case new_engine (c\<lparr>cfg_source_gc := max (cfg_source_gc c) (cp_source_hold st),
          cfg_initial_seqno := cp_seqno st\<rparr>) of
        Inl err \<Rightarrow> Inl err
      | Inr e \<Rightarrow>
          if cfg_max_sources (e_cfg e) < int (length (cp_sources st))
             \<or> cfg_max_routes (e_cfg e) < int (length (cp_drops st)) then Inl ErrLimit
          else case restore_sources (cp_sources st) (e\<lparr>e_last_link := cp_last_link st\<rparr>) of
            None \<Rightarrow> Inl ErrConfig
          | Some e \<Rightarrow>
              (case restore_drops (cp_drop_hold st) (cp_drops st) e of
                 None \<Rightarrow> Inl ErrConfig
               | Some e \<Rightarrow> Inr e))"

subsection \<open>Engines the API can produce\<close>

text \<open>The addresses in a checkpoint are \<open>netip.Prefix\<close> values.\<close>

definition wf_checkpoint :: "checkpoint \<Rightarrow> bool" where
  "wf_checkpoint st \<longleftrightarrow> (\<forall>s \<in> set (cp_sources st). wf_addr (pfx_addr (sh_prefix s)))
     \<and> (\<forall>p \<in> set (cp_drops st). wf_addr (pfx_addr p))"

text \<open>
  The configuration's callbacks consult the application's state, so they may answer
  differently from call to call; \<open>policy\<close> lets them change between calls.
\<close>

inductive reachable :: "engine \<Rightarrow> bool" where
  new: "new_engine c = Inr e \<Longrightarrow> reachable e"
| restored: "restore c st = Inr e \<Longrightarrow> wf_checkpoint st \<Longrightarrow> reachable e"
| stepped: "reachable e \<Longrightarrow> wf_event ev \<Longrightarrow> reachable (snd (step now ev e))"
| committed: "reachable e \<Longrightarrow> reachable (snd (commit n ok e))"
| policy: "reachable e \<Longrightarrow> reachable (e\<lparr>e_cfg := (e_cfg e)\<lparr>cfg_accept_route := f,
    cfg_accept_update := g, cfg_advertise_local := h\<rparr>\<rparr>)"

inductive_cases reachable_step_cases: "reachable (snd (step now ev e))"

lemma new_engine_settled:
  assumes "new_engine c = Inr e"
  shows "settled e"
proof -
  have ok: "engine_ok e" by (rule new_engine_ok [OF assms])
  have "e_routes e = []" "e_local e = []" "e_selected e = []" "e_drops e = []"
    using assms by (auto simp: new_engine_def split: sum.splits)
  then show ?thesis
    using ok by (auto simp: settled_def space_def anchored_def backed_def chosen_prefixes_def
        engine_ok_def cfg_ok_def)
qed

lemma new_engine_fields:
  assumes "new_engine c = Inr e"
  shows "e_now e = 0" "e_seq e = cfg_initial_seqno (e_cfg e)" "e_sources e = []" "e_drops e = []"
    "e_local e = []" "e_routes e = []" "e_selected e = []" "e_links e = []" "e_pending e = 0"
    "e_out e = []" "check_config c = Inr (e_cfg e)"
  using assms by (auto simp: new_engine_def split: sum.splits)

text \<open>What the two loops of \<open>Restore\<close> build.\<close>

lemma restore_sources_ok:
  "\<lbrakk>restore_sources ss e = Some e'; engine_ok e; e_now e = 0;
    \<forall>s \<in> set ss. wf_addr (pfx_addr (sh_prefix s));
    int (length (e_sources e) + length ss) \<le> cfg_max_sources (e_cfg e)\<rbrakk>
   \<Longrightarrow> engine_ok e' \<and> e' = e\<lparr>e_sources := e_sources e'\<rparr>"
proof (induction ss arbitrary: e)
  case (Cons s ss)
  let ?sk = "(sh_prefix s, sh_router_id s)"
  let ?s = "\<lparr>s_seq = sh_seqno s, s_metric = sh_metric s, s_expires = cfg_source_gc (e_cfg e)\<rparr>"
  let ?e1 = "e\<lparr>e_sources := m_put ?sk ?s (e_sources e)\<rparr>"
  have g: "valid_prefix (sh_prefix s)" "sh_router_id s \<noteq> 0" "sh_router_id s \<noteq> - 1"
      "sh_metric s \<noteq> infinity" "map_of (e_sources e) ?sk = None" "restore_sources ss ?e1 = Some e'"
    using Cons.prems(1) by (auto simp: Let_def split: if_splits)
  have "source_ok (horizon e) ?sk ?s"
    using g Cons.prems cfg_ok_times [OF engine_okD(1) [OF Cons.prems(2)]]
    by (simp add: source_ok_def net_ok_def valid_id_def)
  then have e1: "engine_ok ?e1"
    using Cons.prems by (intro put_source_ok) simp_all
  have "length (e_sources ?e1) = Suc (length (e_sources e))"
    using length_m_put_absent [OF m_all_m_ok [OF engine_okD(4) [OF Cons.prems(2)]] g(5)] by simp
  then have "engine_ok e' \<and> e' = ?e1\<lparr>e_sources := e_sources e'\<rparr>"
    using Cons.prems by (intro Cons.IH [OF g(6) e1]) simp_all
  then show ?case by simp
qed simp

lemma restore_drops_fields:
  "restore_drops d ps e = Some e' \<Longrightarrow>
   e' = e\<lparr>e_drops := fold (\<lambda>p. m_put p (max (hold (cfg_update (e_cfg e))) d)) ps (e_drops e)\<rparr>
   \<and> (\<forall>p \<in> set ps. valid_prefix p)"
proof (induction ps arbitrary: e)
  case (Cons p ps)
  then show ?case by (fastforce split: if_splits)
qed simp

lemma restore_drops_total:
  "\<forall>p \<in> set ps. valid_prefix p \<Longrightarrow> restore_drops d ps e =
   Some (e\<lparr>e_drops := fold (\<lambda>p. m_put p (max (hold (cfg_update (e_cfg e))) d)) ps (e_drops e)\<rparr>)"
  by (induction ps arbitrary: e) simp_all

lemma map_of_fold_put_const:
  "map_of (fold (\<lambda>p. m_put p x) ps m) q = (if q \<in> set ps then Some x else map_of m q)"
  by (induction ps arbitrary: m) auto

lemma m_all_fold_put_const:
  "m_all P m \<Longrightarrow> \<forall>p \<in> set ps. P p x \<Longrightarrow> m_all P (fold (\<lambda>p. m_put p x) ps m)"
  by (induction ps arbitrary: m) auto

lemma restore_cases:
  assumes "restore c st = Inr e"
  obtains e0 e1 where
    "new_engine (c\<lparr>cfg_source_gc := max (cfg_source_gc c) (cp_source_hold st),
       cfg_initial_seqno := cp_seqno st\<rparr>) = Inr e0"
    "int (length (cp_sources st)) \<le> cfg_max_sources (e_cfg e0)"
    "int (length (cp_drops st)) \<le> cfg_max_routes (e_cfg e0)"
    "restore_sources (cp_sources st) (e0\<lparr>e_last_link := cp_last_link st\<rparr>) = Some e1"
    "restore_drops (cp_drop_hold st) (cp_drops st) e1 = Some e"
    "0 < cp_drop_hold st" "cp_drop_hold st \<le> day"
  using assms unfolding restore_def day_def
  by (auto simp: not_le not_less split: if_splits sum.splits option.splits)

lemma restore_settled:
  assumes r: "restore c st = Inr e" and wf: "wf_checkpoint st"
  shows "settled e"
proof -
  obtain e0 e1 where
    e0: "new_engine (c\<lparr>cfg_source_gc := max (cfg_source_gc c) (cp_source_hold st),
       cfg_initial_seqno := cp_seqno st\<rparr>) = Inr e0"
    and lim: "int (length (cp_sources st)) \<le> cfg_max_sources (e_cfg e0)"
      "int (length (cp_drops st)) \<le> cfg_max_routes (e_cfg e0)"
    and e1: "restore_sources (cp_sources st) (e0\<lparr>e_last_link := cp_last_link st\<rparr>) = Some e1"
    and e: "restore_drops (cp_drop_hold st) (cp_drops st) e1 = Some e"
    and hold: "0 < cp_drop_hold st" "cp_drop_hold st \<le> day"
    by (rule restore_cases [OF r])
  note f0 = new_engine_fields [OF e0]
  have "engine_ok (e0\<lparr>e_last_link := cp_last_link st\<rparr>)"
    using new_engine_ok [OF e0] by (simp add: engine_ok_def f0)
  then have e1': "engine_ok e1" "e1 = e0\<lparr>e_last_link := cp_last_link st, e_sources := e_sources e1\<rparr>"
    using restore_sources_ok [OF e1] lim wf by (simp_all add: f0 wf_checkpoint_def)
  let ?u = "max (hold (cfg_update (e_cfg e1))) (cp_drop_hold st)"
  have ee: "e = e1\<lparr>e_drops := fold (\<lambda>p. m_put p ?u) (cp_drops st) (e_drops e1)\<rparr>"
      "\<forall>p \<in> set (cp_drops st). valid_prefix p"
    using restore_drops_fields [OF e] by simp_all
  have now: "e_now e1 = 0" and dr: "e_drops e1 = []" and cfg: "e_cfg e1 = e_cfg e0"
    and rest: "e_routes e1 = []" "e_local e1 = []" "e_selected e1 = []"
    by (subst e1'(2), simp add: f0)+
  have "?u \<le> day" using hold cfg_ok_times [OF engine_okD(1) [OF e1'(1)]] by simp
  then have "m_all (\<lambda>p d. net_ok p \<and> d \<le> horizon e1) (e_drops e)"
    unfolding ee(1) using ee(2) wf
    by (auto simp: dr now net_ok_def wf_checkpoint_def intro!: m_all_fold_put_const)
  then have ok: "engine_ok e" using e1'(1) by (subst ee(1), subst (asm) ee(1)) (simp add: engine_ok_def)
  have "backed e \<union> chosen_prefixes e = set (cp_drops st)"
    unfolding backed_def chosen_prefixes_def
    by (subst (1 2 3 4) ee(1)) (auto simp: rest dr map_of_fold_put_const split: if_splits)
  moreover have "card (set (cp_drops st)) \<le> length (cp_drops st)" by (rule card_length)
  moreover have "e_cfg e = e_cfg e0" by (subst ee(1)) (simp add: cfg)
  moreover have "e_routes e = []" "e_local e = []" "e_selected e = []" by (subst ee(1), simp add: rest)+
  ultimately show ?thesis
    using ok lim(2) by (simp add: settled_def space_def anchored_def)
qed

lemma policy_settled:
  assumes "settled e"
  shows "settled (e\<lparr>e_cfg := (e_cfg e)\<lparr>cfg_accept_route := f, cfg_accept_update := g,
    cfg_advertise_local := h\<rparr>\<rparr>)" (is "settled ?e")
proof -
  have "engine_ok ?e = engine_ok e" by (simp add: engine_ok_def cfg_ok_def)
  moreover have "space ?e = space e" "anchored ?e = anchored e"
    by (simp_all add: space_def anchored_def backed_def chosen_prefixes_def)
  ultimately show ?thesis using assms by (simp add: settled_def)
qed

lemma reachable_settled: "reachable e \<Longrightarrow> settled e"
  by (induction rule: reachable.induct)
    (auto intro: new_engine_settled restore_settled step_settled commit_settled policy_settled)

lemma reachable_ok: "reachable e \<Longrightarrow> engine_ok e"
  using reachable_settled by (simp add: settled_def)

text \<open>
  C5 (tables_bounded): in every state the API can reach, whatever the peers send, the link,
  source and request tables respect their configured limits, candidates and local prefixes
  together respect the route limit, and so do the drops and the selected routes, although
  neither is ever checked against it.
\<close>

theorem tables_bounded:
  assumes "reachable e"
  shows "int (length (e_links e)) \<le> cfg_max_links (e_cfg e)
    \<and> int (length (e_sources e)) \<le> cfg_max_sources (e_cfg e)
    \<and> int (length (e_requests e)) \<le> cfg_max_requests (e_cfg e)
    \<and> int (length (e_routes e) + length (e_local e)) \<le> cfg_max_routes (e_cfg e)
    \<and> int (length (e_drops e)) \<le> cfg_max_routes (e_cfg e)
    \<and> int (length (e_selected e)) \<le> cfg_max_routes (e_cfg e)"
proof -
  note s = reachable_settled [OF assms]
  then have "engine_ok e" "space e" by (simp_all add: settled_def)
  then show ?thesis
    using settled_sizes [OF s] engine_okD(10-12) [of e] by (simp add: space_def)
qed

subsection \<open>Restoring a checkpoint\<close>

lemma check_config_again:
  assumes "cfg_ok c"
  shows "check_config c = Inr (c\<lparr>cfg_seed := (if cfg_seed c = 0 then cfg_router_id c else cfg_seed c)\<rparr>)"
proof -
  have d: "default_config c = c"
    using assms by (simp add: default_config_def cfg_ok_def bad_interval_def millis_def seconds_def)
  have l: "default_limits c = c"
    using assms by (simp add: default_limits_def cfg_ok_def)
  show ?thesis
    using assms by (simp add: check_config_def d l cfg_ok_def valid_id_def Let_def)
qed

definition restored_source :: "duration \<Rightarrow> source \<Rightarrow> source" where
  "restored_source gc s = \<lparr>s_seq = s_seq s, s_metric = s_metric s, s_expires = gc\<rparr>"

lemma restore_sources_total:
  "\<lbrakk>distinct (map fst ss); \<forall>sk \<in> fst ` set ss. map_of (e_sources e) sk = None;
    \<forall>(sk, s) \<in> set ss. source_ok t sk s\<rbrakk>
   \<Longrightarrow> restore_sources (map (\<lambda>(sk, s). history_of sk s) ss) e =
     Some (e\<lparr>e_sources := fold (\<lambda>(sk, s). m_put sk (restored_source (cfg_source_gc (e_cfg e)) s))
       ss (e_sources e)\<rparr>)"
proof (induction ss arbitrary: e)
  case (Cons x ss)
  obtain sk s where x: "x = (sk, s)" by (cases x)
  let ?e1 = "e\<lparr>e_sources := m_put sk (restored_source (cfg_source_gc (e_cfg e)) s) (e_sources e)\<rparr>"
  have "restore_sources (map (\<lambda>(sk, s). history_of sk s) ss) ?e1 =
     Some (?e1\<lparr>e_sources := fold (\<lambda>(sk, s). m_put sk (restored_source (cfg_source_gc (e_cfg ?e1)) s))
       ss (e_sources ?e1)\<rparr>)"
    using Cons.prems by (intro Cons.IH) (auto simp: x image_iff)
  moreover have "valid_prefix (fst sk)" "snd sk \<noteq> 0" "snd sk \<noteq> - 1" "s_metric s \<noteq> infinity"
    "map_of (e_sources e) sk = None"
    using Cons.prems by (auto simp: x source_ok_def net_ok_def valid_id_def)
  ultimately show ?case
    by (simp add: x history_of_def restored_source_def Let_def)
qed simp

lemma map_of_fold_restored:
  "distinct (map fst ss) \<Longrightarrow>
   map_of (fold (\<lambda>(sk, s). m_put sk (restored_source gc s)) ss m) k =
     (case map_of ss k of None \<Rightarrow> map_of m k | Some s \<Rightarrow> Some (restored_source gc s))"
proof (induction ss arbitrary: m)
  case (Cons x ss)
  obtain a b where x: "x = (a, b)" by (cases x)
  have "map_of ss a = None" using Cons.prems by (simp add: x map_of_eq_None_iff)
  then show ?case
    using Cons.IH [of "m_put a (restored_source gc b) m"] Cons.prems
    by (cases "k = a") (simp_all add: x split: option.split)
qed simp

lemma fold_max_ge:
  "(h :: int) \<le> fold (\<lambda>(p, u) h. max h (u - now)) ds h"
  "(p, u) \<in> set ds \<Longrightarrow> u - now \<le> fold (\<lambda>(p, u) h. max h (u - now)) ds h"
proof (induction ds arbitrary: h)
  case (Cons d ds)
  {
    case 1
    then show ?case using Cons(1) [of "max h (snd d - now)"] by (simp add: split_beta)
  next
    case 2
    then show ?case
      using Cons(1) [of "max h (snd d - now)"] Cons(2) [of "max h (snd d - now)"]
      by (auto simp: split_beta)
  }
qed simp_all

lemma fold_max_le:
  "\<lbrakk>(h :: int) \<le> b; \<forall>(p, u) \<in> set ds. u - now \<le> b\<rbrakk>
   \<Longrightarrow> fold (\<lambda>(p, u) h. max h (u - now)) ds h \<le> b"
  by (induction ds arbitrary: h) (auto simp: split_beta)

lemma set_drop_prefixes:
  "set (drop_prefixes e) = dom (map_of (e_drops e)) \<union> dom (map_of (e_selected e))"
proof -
  have "set (drop_prefixes e) = set (m_keys (e_drops e) @ m_keys (e_selected e))"
    unfolding drop_prefixes_def set_m_keys map_of_fold_put_const by auto
  also have "\<dots> = dom (map_of (e_drops e)) \<union> dom (map_of (e_selected e))"
    unfolding set_append set_m_keys by (auto simp: dom_def)
  finally show ?thesis .
qed

lemma length_drop_prefixes:
  "length (drop_prefixes e) = card (dom (map_of (e_drops e)) \<union> dom (map_of (e_selected e)))"
proof -
  have "m_all (\<lambda>_ _. True) (fold (\<lambda>p m. m_put p () m) ps [])" for ps :: "prefix list"
    by (rule m_all_fold_put_const) simp_all
  then have "distinct (drop_prefixes e)"
    unfolding drop_prefixes_def by (rule m_ok_distinct [OF m_all_m_ok])
  then show ?thesis using distinct_card set_drop_prefixes by metis
qed

lemma restore_checkpoint:
  assumes "reachable e"
  shows "\<exists>e'. restore (e_cfg e) (checkpoint_of e) = Inr e'
    \<and> e_now e' = 0 \<and> e_seq e' = e_seq e \<and> e_last_link e' = e_last_link e
    \<and> e_local e' = [] \<and> e_routes e' = [] \<and> e_selected e' = []
    \<and> (\<forall>sk. map_of (e_sources e') sk =
         map_option (restored_source (cfg_source_gc (e_cfg e))) (map_of (e_sources e) sk))
    \<and> (\<forall>p. map_of (e_drops e) p \<noteq> None \<or> map_of (e_selected e) p \<noteq> None \<longleftrightarrow>
         map_of (e_drops e') p \<noteq> None)
    \<and> (\<forall>p until. map_of (e_drops e') p = Some until \<longrightarrow>
         hold (cfg_update (e_cfg e)) \<le> until
         \<and> (\<forall>u. map_of (e_drops e) p = Some u \<longrightarrow> u - e_now e \<le> until))"
proof -
  note s = reachable_settled [OF assms]
  then have e: "engine_ok e" by (simp add: settled_def)
  let ?c = "e_cfg e" and ?st = "checkpoint_of e"
  define c1 where "c1 = ?c\<lparr>cfg_source_gc := max (cfg_source_gc ?c) (cp_source_hold ?st),
    cfg_initial_seqno := cp_seqno ?st\<rparr>"
  note cfg = engine_okD(1) [OF e] and times = cfg_ok_times [OF engine_okD(1) [OF e]]
  have c1: "cfg_ok c1" using cfg by (simp add: c1_def cfg_ok_def checkpoint_of_def)
  obtain e0 where e0: "new_engine c1 = Inr e0"
    by (simp add: new_engine_def check_config_again [OF c1])
  note f0 = new_engine_fields [OF e0]
  have cfg0: "e_cfg e0 = c1\<lparr>cfg_seed := (if cfg_seed c1 = 0 then cfg_router_id c1 else cfg_seed c1)\<rparr>"
    using f0(11) check_config_again [OF c1] by simp
  let ?e1 = "e0\<lparr>e_last_link := cp_last_link ?st\<rparr>"
  let ?ss = "fold (\<lambda>(sk, s). m_put sk (restored_source (cfg_source_gc (e_cfg ?e1)) s)) (e_sources e)
    (e_sources ?e1)"
  have src: "distinct (map fst (e_sources e))" "\<forall>(sk, s) \<in> set (e_sources e). source_ok (horizon e) sk s"
    using m_ok_distinct [OF m_all_m_ok [OF engine_okD(4) [OF e]]] m_all_set [OF engine_okD(4) [OF e]]
    by (auto simp: m_keys_def)
  have e2: "restore_sources (cp_sources ?st) ?e1 = Some (?e1\<lparr>e_sources := ?ss\<rparr>)"
    unfolding checkpoint_of_def checkpoint.simps
    by (rule restore_sources_total [OF src(1) _ src(2)]) (simp add: f0)
  have "\<forall>p \<in> set (drop_prefixes e). valid_prefix p"
    using m_all_get [OF engine_okD(7) [OF e]] m_all_get [OF engine_okD(6) [OF e]]
    unfolding set_drop_prefixes by (fastforce simp: net_ok_def route_ok_def)
  note e3 = restore_drops_total [OF this]
  let ?h = "cp_drop_hold ?st"
  define e' where "e' = ?e1\<lparr>e_sources := ?ss, e_drops := fold (\<lambda>p. m_put p
      (max (hold (cfg_update ?c)) ?h)) (drop_prefixes e) []\<rparr>"
  have h1: "hold (cfg_update ?c) \<le> ?h" by (simp add: checkpoint_of_def fold_max_ge)
  have "0 < hold (cfg_update ?c)" using cfg by (auto simp: cfg_ok_def bad_interval_def hold_def millis_def)
  with h1 have h2: "0 < ?h" by linarith
  have h3: "?h \<le> seconds 86400"
    unfolding checkpoint_of_def checkpoint.simps
  proof (rule fold_max_le)
    show "\<forall>(p, u) \<in> set (e_drops e). u - e_now e \<le> seconds 86400"
      using m_all_set [OF engine_okD(7) [OF e]] by (fastforce simp: day_def)
  qed (use times in \<open>simp add: day_def\<close>)
  have h4: "u - e_now e \<le> ?h" if "map_of (e_drops e) p = Some u" for p u
    unfolding checkpoint_of_def checkpoint.simps by (rule fold_max_ge(2)) (rule map_of_SomeD [OF that])
  have lim: "int (length (cp_sources ?st)) \<le> cfg_max_sources (e_cfg e0)"
      "int (length (cp_drops ?st)) \<le> cfg_max_routes (e_cfg e0)"
    using engine_okD(10) [OF e] settled_sizes(3) [OF s]
    by (simp_all add: cfg0 c1_def checkpoint_of_def length_drop_prefixes)
  have hold0: "seconds 180 \<le> cp_source_hold ?st" "cp_source_hold ?st \<le> seconds 86400"
    "cp_version ?st = 1" "cp_router_id ?st = cfg_router_id ?c" "cp_drops ?st = drop_prefixes e"
    using cfg by (simp_all add: checkpoint_of_def cfg_ok_def)
  have "restore_drops ?h (cp_drops ?st) (?e1\<lparr>e_sources := ?ss\<rparr>) = Some e'"
    unfolding hold0(5) e3 e'_def by (simp add: cfg0 c1_def f0)
  then have "restore ?c ?st = Inr e'"
    unfolding restore_def c1_def [symmetric]
    using hold0 h2 h3 lim e0 e2 by (simp add: not_less)
  moreover have "e_now e' = 0 \<and> e_seq e' = e_seq e \<and> e_last_link e' = e_last_link e
      \<and> e_local e' = [] \<and> e_routes e' = [] \<and> e_selected e' = []"
    by (simp add: e'_def f0 cfg0 c1_def checkpoint_of_def)
  moreover have "map_of (e_sources e') sk =
      map_option (restored_source (cfg_source_gc ?c)) (map_of (e_sources e) sk)" for sk
    using map_of_fold_restored [OF src(1), of "cfg_source_gc (e_cfg ?e1)" "e_sources ?e1" sk]
    by (simp add: e'_def f0 cfg0 c1_def checkpoint_of_def split: option.split)
  moreover have dr: "map_of (e_drops e') p = (if p \<in> set (drop_prefixes e)
      then Some (max (hold (cfg_update ?c)) ?h) else None)" for p
    by (simp add: e'_def map_of_fold_put_const)
  moreover have "map_of (e_drops e) p \<noteq> None \<or> map_of (e_selected e) p \<noteq> None \<longleftrightarrow>
      map_of (e_drops e') p \<noteq> None" for p
    unfolding dr set_drop_prefixes by auto
  moreover have "hold (cfg_update ?c) \<le> until
      \<and> (\<forall>u. map_of (e_drops e) p = Some u \<longrightarrow> u - e_now e \<le> until)"
    if "map_of (e_drops e') p = Some until" for p until
  proof -
    have "until = max (hold (cfg_update ?c)) ?h" using that unfolding dr by (simp split: if_split_asm)
    then show ?thesis using h4 [of p] by fastforce
  qed
  ultimately show ?thesis by blast
qed

text \<open>
  C6 (checkpoint_restores): a checkpoint of any reachable engine is accepted by \<open>Restore\<close>
  under the same configuration, so a restart never loses the safety history: the new engine
  has the same sequence number and last link ID and the same feasibility distance for every
  source, held for a full garbage-collection interval; every prefix that had a route or a
  drop is a drop, suppressed at least as long as before the restart; and nothing is
  originated or learnt yet.
\<close>

theorem checkpoint_restores:
  assumes "reachable e"
  shows "\<exists>e'. restore (e_cfg e) (checkpoint_of e) = Inr e'
    \<and> e_now e' = 0 \<and> e_seq e' = e_seq e \<and> e_last_link e' = e_last_link e
    \<and> e_local e' = [] \<and> e_routes e' = [] \<and> e_selected e' = []
    \<and> (\<forall>sk. map_of (e_sources e') sk =
         map_option (restored_source (cfg_source_gc (e_cfg e))) (map_of (e_sources e) sk))
    \<and> (\<forall>p. map_of (e_drops e) p \<noteq> None \<or> map_of (e_selected e) p \<noteq> None \<longleftrightarrow>
         map_of (e_drops e') p \<noteq> None)
    \<and> (\<forall>p until. map_of (e_drops e') p = Some until \<longrightarrow>
         hold (cfg_update (e_cfg e)) \<le> until
         \<and> (\<forall>u. map_of (e_drops e) p = Some u \<longrightarrow> u - e_now e \<le> until))"
  using assms by (rule restore_checkpoint)

end
