(* ===== verification/Babel_Output.thy ===== *)
theory Babel_Output
  imports Babel_Checkpoint
begin

section \<open>What the engine sends, and the history behind it\<close>

text \<open>
  The methods of the engine reach the output queues and the source history through two doors
  only: \<open>queue\<close> with a message that is no finite update, and \<open>advertise\<close>. The locale
  \<open>engine_closed\<close> turns that into an induction principle: an invariant that these two keep,
  and that no other field matters to, survives every method. It is interpreted for the queue
  discipline (only live links have a queue) and for the source history (an entry is dropped
  only when its lifetime is over, which is never shortened).
\<close>

definition finite_update :: "message \<Rightarrow> bool" where
  "finite_update m \<longleftrightarrow> m_type m = T_UPDATE \<and> \<not> m_wildcard m \<and> m_metric m \<noteq> infinity"

text \<open>The messages an event brings in.\<close>

definition received :: "engine \<Rightarrow> event \<Rightarrow> message list" where
  "received e ev =
     (case ev of
        Receive i packet \<Rightarrow>
          (case map_of (e_links e) i of
             None \<Rightarrow> []
           | Some l \<Rightarrow>
               (case decode packet (l_peer (ls_link l)) of None \<Rightarrow> [] | Some ms \<Rightarrow> ms))
      | _ \<Rightarrow> [])"

locale engine_closed =
  fixes I :: "nat \<Rightarrow> engine \<Rightarrow> bool" and M :: "message \<Rightarrow> bool"
  assumes other: "I n e \<Longrightarrow> e_cfg e' = e_cfg e \<Longrightarrow> e_now e' = e_now e \<Longrightarrow> e_out e' = e_out e
      \<Longrightarrow> e_sources e' = e_sources e \<Longrightarrow> e_routes e' = e_routes e \<Longrightarrow> e_selected e' = e_selected e
      \<Longrightarrow> e_seq e' = e_seq e \<Longrightarrow> set (m_keys (e_links e)) \<subseteq> set (m_keys (e_links e')) \<Longrightarrow> I n e'"
    and queue: "I n e \<Longrightarrow> \<not> finite_update m \<Longrightarrow> I n (queue_msg lid m e)"
    and advert: "I n e \<Longrightarrow> I n (advertise lid p x e)"
    and pick: "I n e \<Longrightarrow> e_cfg a = e_cfg e \<Longrightarrow> e_routes a = e_routes e \<Longrightarrow> e_seq a = e_seq e
      \<Longrightarrow> I n (e\<lparr>e_drops := d, e_selected := add_drops t u (select_candidates a)\<rparr>)"
    and adjust: "I n e \<Longrightarrow> (\<And>k r. cd_id (f k r) = cd_id r \<and> cd_seq (f k r) = cd_seq r)
      \<Longrightarrow> I n (e\<lparr>e_routes := m_adj f (e_routes e)\<rparr>)"
    and learn: "I n e \<Longrightarrow> m_type m = T_UPDATE \<Longrightarrow> M m
      \<Longrightarrow> I n (e\<lparr>e_routes := m_put (m_prefix m, lid) (new_candidate a lid m) (e_routes e)\<rparr>)"
    and bump: "I (Suc n) e \<Longrightarrow> I n (e\<lparr>e_seq := e_seq e + 1\<rparr>)"
    and less: "I (Suc n) e \<Longrightarrow> I n e"
    and remove: "I n e \<Longrightarrow> I n (handle_event (RemoveLink i) e)"
begin

lemma fold_I: "I n e \<Longrightarrow> (\<And>x s. I n s \<Longrightarrow> I n (f x s)) \<Longrightarrow> I n (fold f xs e)"
  by (rule fold_invariant_on)

lemma dump_I: "I n e \<Longrightarrow> I n (dump lid x e)"
  unfolding dump_def by (erule fold_I) (erule advert)

lemma trigger_I: "I n e \<Longrightarrow> I n (schedule_trigger b e)"
  by (erule other) simp_all

lemma jitter_I: "I n e \<Longrightarrow> I n (snd (jitter d e))"
  by (erule other) simp_all

lemma reject_I: "I n e \<Longrightarrow> I n (reject e)"
  by (erule other) simp_all

lemma request_I: "I n e \<Longrightarrow> I n (send_request sk seq ts from h e)"
proof -
  assume e: "I n e"
  have "\<not> finite_update (request_msg sk seq h)" by (simp add: finite_update_def request_msg_def)
  then have f: "I n (fold (\<lambda>lid. queue_msg lid (request_msg sk seq h)) us e)" for us
    by (intro fold_I [OF e] queue)
  have "I n (s\<lparr>e_requests := r\<rparr>)" if "I n s" for s r
    by (rule other [OF that]) simp_all
  then show ?thesis unfolding send_request_def Let_def using e f by (auto intro: reject_I)
qed

lemma note_lost_I: "I n e \<Longrightarrow> I n (note_lost best was e)"
proof -
  assume e: "I n e"
  have "I n (e\<lparr>e_drops := d\<rparr>)" for d by (rule other [OF e]) simp_all
  then show ?thesis
    unfolding note_lost_def Let_def using e
    by (auto split: option.splits intro: request_I trigger_I)
qed

lemma trigger_for_I: "I n e \<Longrightarrow> I n (trigger_for old pr e)"
  by (erule other) simp_all

lemma satisfy_I: "I n e \<Longrightarrow> I n (satisfy_request nx sk e)"
proof -
  assume e: "I n e"
  have "I n (s\<lparr>e_requests := r\<rparr>)" if "I n s" for s r
    by (rule other [OF that]) simp_all
  then show ?thesis
    unfolding satisfy_request_def Let_def using e
    by (simp add: advert split: option.split)
qed

lemma select_I: "I n e \<Longrightarrow> I n (select_routes e)"
proof -
  assume e: "I n e"
  have 1: "I n (fold (note_lost b) rs e)" for b rs by (rule fold_I [OF e]) (rule note_lost_I)
  have 2: "I n (fold (note_lost b) rs e\<lparr>e_drops := d, e_selected := add_drops t u (select_candidates e)\<rparr>)"
    for b rs d t u by (rule pick [OF 1]) (simp_all add: fold_keeps)
  show ?thesis
    unfolding select_routes_def Let_def
    by (rule fold_I [OF fold_I [OF 2]]) (rule trigger_for_I satisfy_I, assumption)+
qed

lemma upd_link_I: "I n e \<Longrightarrow> I n (upd_link lid f e)"
  by (erule other) (simp_all add: upd_link_def)

lemma upd_route_I:
  "I n e \<Longrightarrow> (\<And>r. cd_id (f r) = cd_id r \<and> cd_seq (f r) = cd_seq r) \<Longrightarrow> I n (upd_route k f e)"
  unfolding upd_route_def by (erule adjust) simp

lemma recv_update_I:
  assumes e: "I n e" and m: "m_type m = T_UPDATE" "M m"
  shows "I n (recv_update lid peer m e)"
proof -
  have a: "I n (e\<lparr>e_routes := m_adj (\<lambda>k r. if snd k = lid then r\<lparr>cd_adv := infinity\<rparr> else r) (e_routes e)\<rparr>)"
    by (rule adjust [OF e]) simp
  have l: "I n (s\<lparr>e_routes := m_put (m_prefix m, lid) (new_candidate e lid m) (e_routes s)\<rparr>)" if "I n s" for s
    using that m by (rule learn)
  have u: "I n (upd_route k (\<lambda>r. r\<lparr>cd_adv := infinity\<rparr>) e)" for k
    by (rule upd_route_I [OF e]) simp
  show ?thesis
    unfolding recv_update_def Let_def using e a u l [OF e] l [OF trigger_I [OF e, of True]]
    by (simp add: reject_I request_I split: option.split)
qed

lemma seq_request_I:
  assumes e: "I (Suc n) e"
  shows "I n (seq_request from m e)"
proof -
  have e': "I n e" by (rule less [OF e])
  have f: "I n (seq_forward from m e)"
    unfolding seq_forward_def using e' by (auto split: option.split intro: request_I)
  show ?thesis
    unfolding seq_request_def using e' f by (simp add: advert select_I bump [OF e] split: option.split)
qed

lemma route_request_I: "I n e \<Longrightarrow> I n (route_request lid m e)"
  unfolding route_request_def by (simp add: advert dump_I upd_link_I split: option.split)

lemma receive_one_I:
  assumes e: "I (Suc n) e" and m: "M m"
  shows "I n (receive_one lid peer m e)"
proof -
  have s: "I (Suc n) (select_routes e)" using e by (rule select_I)
  have a: "\<not> finite_update ((zero_msg T_ACK)\<lparr>m_opaque := x\<rparr>)" for x by (simp add: finite_update_def)
  have h: "I n (recv_hello lid m s)" "I n (recv_ihu lid m s)" if "I n s" for s
    using that by (simp_all add: recv_hello_def recv_ihu_def upd_link_I)
  show ?thesis
    unfolding receive_one_def receive_msg_def Let_def
    using less [OF s] less [OF e] seq_request_I [OF s] seq_request_I [OF e] a m
    by (simp add: h queue recv_update_I route_request_I)
qed

lemma receive_all_I:
  "I (n + length ms) e \<Longrightarrow> \<forall>m \<in> set ms. M m \<Longrightarrow> I n (fold (receive_one lid peer) ms e)"
  by (induction ms arbitrary: e) (auto intro: receive_one_I)

lemma less_add: "I (n + k) e \<Longrightarrow> I n e"
  by (induction k) (auto intro: less)

lemma receive_packet_I:
  assumes e: "I (n + length (received e (Receive lid b))) e"
    and m: "\<forall>m \<in> set (received e (Receive lid b)). M m"
  shows "I n (receive_packet lid b e)"
proof -
  have c: "I k (e\<lparr>e_counters := c\<rparr>)" if "I k e" for k c by (rule other [OF that]) simp_all
  note c' = c [OF less_add [OF e]]
  show ?thesis
  proof (cases "map_of (e_links e) lid")
    case None
    then show ?thesis using c' by (simp add: receive_packet_def Let_def)
  next
    case l: (Some l)
    show ?thesis
    proof (cases "decode b (l_peer (ls_link l))")
      case None
      then show ?thesis using l c' by (simp add: receive_packet_def Let_def)
    next
      case (Some ms)
      then have "I n (fold (receive_one lid (l_peer (ls_link l))) ms (e\<lparr>e_counters := k\<rparr>))" for k
        using l e m by (intro receive_all_I c) (simp_all add: received_def)
      then show ?thesis using l Some c' by (simp add: receive_packet_def Let_def)
    qed
  qed
qed

lemma handle_event_I:
  assumes e: "I (n + length (received e ev)) e" and m: "\<forall>m \<in> set (received e ev). M m"
  shows "I n (handle_event ev e)"
proof (cases ev)
  case (AddLink l)
  have "\<not> finite_update ((zero_msg T_REQUEST)\<lparr>m_wildcard := True\<rparr>)" by (simp add: finite_update_def)
  moreover have "I n (e\<lparr>e_links := m_put (l_id l) (new_link_state e l) (e_links e), e_last_link := l_id l\<rparr>)"
    by (rule other [OF less_add [OF e]]) (auto simp: set_m_keys)
  ultimately show ?thesis by (simp add: AddLink queue)
next
  case (RemoveLink i)
  then show ?thesis using remove [OF less_add [OF e]] by simp
next
  case (Receive i p)
  then show ?thesis using receive_packet_I [of n e i p] e m by simp
next
  case (SetCost i c)
  then show ?thesis using less_add [OF e] by (simp add: upd_link_I)
next
  case (Originate p m)
  then show ?thesis by (simp, intro other [OF less_add [OF e]]) simp_all
next
  case (Withdraw p)
  then show ?thesis by (simp, intro other [OF less_add [OF e]]) simp_all
qed (use less_add [OF e] in simp)

lemma link_timers_I: "I n e \<Longrightarrow> I n (link_timers lid e)"
proof -
  have h: "\<not> finite_update ((zero_msg T_HELLO)\<lparr>m_seqno := s, m_interval := i\<rparr>)"
    and u: "\<not> finite_update ((zero_msg T_IHU)\<lparr>m_metric := s, m_interval := i\<rparr>)" for s i
    by (simp_all add: finite_update_def)
  have "I n (hello_timer lid l e)" if "I n e" for l e
    using that h by (simp add: hello_timer_def Let_def split_beta upd_link_I jitter_I queue)
  moreover have "I n (ihu_timer lid l e)" if "I n e" for l e
    using that u by (simp add: ihu_timer_def Let_def split_beta upd_link_I jitter_I queue)
  moreover have "I n (update_timer lid l e)" if "I n e" for l e
    using that by (simp add: update_timer_def Let_def split_beta upd_link_I jitter_I dump_I)
  moreover assume "I n e"
  ultimately show ?thesis by (simp add: link_timers_def split: option.split)
qed

lemma trigger_timer_I: "I n e \<Longrightarrow> I n (trigger_timer e)"
proof -
  assume e: "I n e"
  let ?e1 = "fold (\<lambda>lid. dump lid False) (m_keys (e_links e)) e"
  have e1: "I n ?e1" by (rule fold_I [OF e]) (rule dump_I)
  show ?thesis
    unfolding trigger_timer_def Let_def split_beta
    using e by (auto intro: other [OF e1])
qed

lemma request_timer_I:
  assumes e: "I n e" and ok: "engine_ok e"
  shows "I n (request_timer sk e)"
proof (cases "map_of (e_requests e) sk")
  case None
  with e show ?thesis by (simp add: request_timer_def)
next
  case (Some q)
  then have "\<not> finite_update (q_msg q)"
    using m_all_get [OF engine_okD(8) [OF ok] Some]
    by (auto simp: request_ok_def finite_update_def request_msg_def)
  then have f: "I n (fold (\<lambda>lid. queue_msg lid (q_msg q)) us e)" for us
    by (intro fold_I [OF e] queue)
  have "I n (fold (\<lambda>lid. queue_msg lid (q_msg q)) us e\<lparr>e_requests := r\<rparr>)" for us r
    by (rule other [OF f [of us]]) simp_all
  with e Some show ?thesis by (simp add: request_timer_def Let_def)
qed

lemma refresh_timer_I: "I n e \<Longrightarrow> I n (refresh_timer k e)"
proof -
  assume e: "I n e"
  have "\<not> finite_update ((zero_msg T_REQUEST)\<lparr>m_prefix := p\<rparr>)" for p by (simp add: finite_update_def)
  with e show ?thesis
    by (simp add: refresh_timer_def queue upd_route_I split: option.split)
qed

lemma timers_I:
  assumes e: "I n e" and ok: "engine_ok e"
  shows "I n (timers e)"
proof -
  have 1: "I n (fold link_timers ks s)" if "I n s" for ks s by (rule fold_I [OF that]) (rule link_timers_I)
  have 2: "I n (fold request_timer ks s) \<and> engine_ok (fold request_timer ks s)"
    if "I n s" "engine_ok s" for ks s
    using that
    by (intro fold_invariant_on [where I = "\<lambda>s. I n s \<and> engine_ok s"])
      (auto intro: request_timer_I request_timer_ok)
  have 3: "I n (fold refresh_timer ks s)" if "I n s" for ks s by (rule fold_I [OF that]) (rule refresh_timer_I)
  have ok1: "engine_ok (fold link_timers ks e)" for ks
    by (rule fold_invariant_on [where I = engine_ok, OF ok]) (rule link_timers_ok)
  show ?thesis
    unfolding timers_def Let_def
    using 1 [OF e] ok1 2 [OF trigger_timer_I trigger_timer_ok] by (blast intro: 3)
qed

text \<open>The whole body of a step, after expiry.\<close>

lemma run_I:
  assumes e: "I (length (received e ev)) (expire (e\<lparr>e_now := now\<rparr>))" and ok: "engine_ok e"
    and v: "validate e ev = None" and wf: "wf_event ev" and now: "e_now e \<le> now"
    and m: "\<forall>m \<in> set (received e ev). M m"
  shows "I 0 (run now ev e)"
proof -
  have rc: "received (expire (e\<lparr>e_now := now\<rparr>)) ev = received e ev"
    by (simp add: received_def split: event.split)
  have "engine_ok (expire (e\<lparr>e_now := now\<rparr>))" by (intro expire_ok now_ok ok now)
  then have "engine_ok (handle_event ev (expire (e\<lparr>e_now := now\<rparr>)))"
    by (rule handle_event_ok [OF _ v wf]) simp_all
  moreover have "I 0 (handle_event ev (expire (e\<lparr>e_now := now\<rparr>)))"
    using handle_event_I [of 0 "expire (e\<lparr>e_now := now\<rparr>)" ev] e m by (simp add: rc)
  ultimately show ?thesis
    unfolding run_def by (intro timers_I select_I select_routes_ok)
qed

end

subsection \<open>Only live links have a queue\<close>

definition out_linked :: "engine \<Rightarrow> bool" where
  "out_linked e \<longleftrightarrow> set (m_keys (e_out e)) \<subseteq> set (m_keys (e_links e))"

lemma queue_msg_linked: "out_linked e \<Longrightarrow> out_linked (queue_msg lid m e)"
  by (auto simp: out_linked_def queue_msg_def set_m_keys split: if_splits)

lemma advertise_linked: "out_linked e \<Longrightarrow> out_linked (advertise lid p x e)"
proof -
  assume e: "out_linked e"
  have t: "out_linked (schedule_trigger b e)" "out_linked (reject e)" for b
    using e by (simp_all add: out_linked_def)
  have "out_linked (queue_msg lid m (e\<lparr>e_sources := s\<rparr>))" for m s
    by (rule queue_msg_linked) (use e in \<open>simp add: out_linked_def\<close>)
  then show ?thesis
    unfolding advertise_def Let_def
    using e t queue_msg_linked [OF e] by (auto split: option.split)
qed

interpretation linked: engine_closed "\<lambda>_. out_linked" "\<lambda>_. True"
proof
  show "out_linked (handle_event (RemoveLink i) e)" if "out_linked e" for e i
    using that by (auto simp: out_linked_def set_m_keys)
qed (simp_all add: queue_msg_linked advertise_linked, auto simp: out_linked_def)

subsection \<open>The ways advertise ends\<close>

definition withheld :: "engine \<Rightarrow> prefix \<Rightarrow> route \<Rightarrow> bool" where
  "withheld e p r \<longleftrightarrow> r_local r \<and> (case cfg_advertise_local (e_cfg e) of None \<Rightarrow> False
     | Some f \<Rightarrow> \<not> f (r_router_id r) p (r_seqno r))"

definition new_source :: "engine \<Rightarrow> route \<Rightarrow> source" where
  "new_source e r = record_source e r \<lparr>s_seq = r_seqno r, s_metric = r_metric r, s_expires = 0\<rparr>"

text \<open>The update \<open>m\<close> for the selected route \<open>r\<close> may go out on \<open>lid\<close>.\<close>

definition offers :: "link_id \<Rightarrow> prefix \<Rightarrow> bool \<Rightarrow> engine \<Rightarrow> route \<Rightarrow> message \<Rightarrow> bool" where
  "offers lid p x e r m \<longleftrightarrow> (\<exists>l. map_of (e_links e) lid = Some l
     \<and> map_of (e_selected e) p = Some r \<and> \<not> r_unreachable r \<and> \<not> withheld e p r
     \<and> (x \<or> r_link r \<noteq> lid) \<and> address_update e (ls_link l) p (update_msg e r) = Some m)"

lemma advertise_cases:
  obtains (silent) "advertise lid p x e = e"
  | (retract) "advertise lid p x e = queue_msg lid (retraction e p) e"
      "\<forall>r. map_of (e_selected e) p = Some r \<longrightarrow> r_unreachable r"
  | (later) "advertise lid p x e = schedule_trigger True e"
  | (full) "advertise lid p x e = reject e"
  | (fresh) r m where "offers lid p x e r m" "map_of (e_sources e) (p, r_router_id r) = None"
      "advertise lid p x e =
         queue_msg lid m (e\<lparr>e_sources := m_put (p, r_router_id r) (new_source e r) (e_sources e)\<rparr>)"
  | (known) r m s where "offers lid p x e r m" "map_of (e_sources e) (p, r_router_id r) = Some s"
      "advertise lid p x e =
         queue_msg lid m (e\<lparr>e_sources := m_put (p, r_router_id r) (record_source e r s) (e_sources e)\<rparr>)"
proof (cases "map_of (e_links e) lid")
  case None
  then show thesis by (intro silent) (simp add: advertise_def)
next
  case l: (Some l)
  show thesis
  proof (cases "map_of (e_selected e) p")
    case None
    then show thesis using l by (intro retract) (simp_all add: advertise_def)
  next
    case r: (Some r)
    consider "r_unreachable r" | "\<not> r_unreachable r" "withheld e p r"
      | "\<not> r_unreachable r" "\<not> withheld e p r" "\<not> x \<and> r_link r = lid"
      | "\<not> r_unreachable r" "\<not> withheld e p r" "\<not> (\<not> x \<and> r_link r = lid)" by blast
    then show thesis
    proof cases
      case 1
      then show thesis using l r by (intro retract) (simp_all add: advertise_def)
    next
      case 2
      then show thesis using l r by (intro later) (simp add: advertise_def withheld_def)
    next
      case 3
      then show thesis
        using l r by (intro silent) (simp add: advertise_def withheld_def [symmetric])
    next
      case 4
      have eq: "advertise lid p x e = (case address_update e (ls_link l) p (update_msg e r) of
          None \<Rightarrow> e
        | Some m \<Rightarrow> (case map_of (e_sources e) (p, r_router_id r) of
            None \<Rightarrow> if cfg_max_sources (e_cfg e) \<le> int (length (e_sources e)) then reject e
              else queue_msg lid m (e\<lparr>e_sources := m_put (p, r_router_id r) (new_source e r) (e_sources e)\<rparr>)
          | Some s \<Rightarrow> queue_msg lid m (e\<lparr>e_sources :=
              m_put (p, r_router_id r) (record_source e r s) (e_sources e)\<rparr>)))"
        unfolding advertise_def Let_def new_source_def withheld_def [symmetric]
        using l r 4 by (simp add: withheld_def [symmetric] del: de_Morgan_conj)
      show thesis
      proof (cases "address_update e (ls_link l) p (update_msg e r)")
        case None
        then show thesis by (intro silent) (simp add: eq)
      next
        case m: (Some m)
        then have off: "offers lid p x e r m" using l r 4 by (auto simp: offers_def)
        show thesis
        proof (cases "map_of (e_sources e) (p, r_router_id r)")
          case None
          then show thesis using eq m full fresh [OF off None] by (auto split: if_splits)
        next
          case (Some s)
          then show thesis using eq m known [OF off Some] by auto
        qed
      qed
    qed
  qed
qed

subsection \<open>The history outlives its advertisements\<close>

text \<open>
  \<open>history_kept e e'\<close>: every source of \<open>e\<close> is still recorded in \<open>e'\<close>, either untouched or
  with its lifetime renewed in full.
\<close>

definition history_kept :: "engine \<Rightarrow> engine \<Rightarrow> bool" where
  "history_kept e e' \<longleftrightarrow> (\<forall>sk s. map_of (e_sources e) sk = Some s \<longrightarrow>
     (\<exists>s'. map_of (e_sources e') sk = Some s'
        \<and> (s' = s \<or> s_expires s' = e_now e' + cfg_source_gc (e_cfg e'))))"

lemma history_keptD:
  assumes "history_kept e e'" and "map_of (e_sources e) sk = Some s"
  obtains s' where "map_of (e_sources e') sk = Some s'"
    "s' = s \<or> s_expires s' = e_now e' + cfg_source_gc (e_cfg e')"
  using assms unfolding history_kept_def by blast

lemma history_kept_refl: "history_kept e e"
  by (auto simp: history_kept_def)

lemma advertise_history:
  assumes "history_kept e0 e"
  shows "history_kept e0 (advertise lid p x e)"
proof (cases rule: advertise_cases [of lid p x e])
  case (known r m s)
  with assms show ?thesis unfolding history_kept_def known(3) by (fastforce split: if_splits)
next
  case (fresh r m)
  have "e_sources (advertise lid p x e) = m_put (p, r_router_id r) (new_source e r) (e_sources e)"
    by (simp add: fresh(3))
  with assms fresh(2) show ?thesis unfolding history_kept_def by (fastforce split: if_splits)
qed (use assms in \<open>simp_all add: history_kept_def\<close>)

interpretation history: engine_closed "\<lambda>_. history_kept e0" "\<lambda>_. True" for e0
proof
  show "history_kept e0 e'"
    if "history_kept e0 e" "e_cfg e' = e_cfg e" "e_now e' = e_now e" "e_sources e' = e_sources e" for e e'
    using that by (simp add: history_kept_def)
qed (simp_all add: advertise_history, simp_all add: history_kept_def)

subsection \<open>Flushing the queues\<close>

definition queue_of :: "engine \<Rightarrow> link_id \<Rightarrow> message list" where
  "queue_of e lid = (case map_of (e_out e) lid of None \<Rightarrow> [] | Some q \<Rightarrow> q)"

definition link_packets :: "engine \<Rightarrow> link_id \<Rightarrow> datagram list" where
  "link_packets e lid = (case map_of (e_links e) lid of
     None \<Rightarrow> []
   | Some l \<Rightarrow> map (Pair lid) (pack (queue_of e lid) (nat (l_max_packet (ls_link l)))))"

lemma flush_link_fst: "fst (flush_link lid (out, e)) = out @ link_packets e lid"
  by (simp add: flush_link_def link_packets_def queue_of_def Let_def split: option.split)

lemma flush_link_out:
  "e_out (snd (flush_link lid (out, e))) =
     (if map_of (e_links e) lid = None then e_out e else m_del lid (e_out e))"
  by (simp add: flush_link_def Let_def split: option.split)

lemma flush_link_other:
  "a \<noteq> lid \<Longrightarrow> link_packets (snd (flush_link lid (out, e))) a = link_packets e a"
proof -
  assume "a \<noteq> lid"
  then have "queue_of (snd (flush_link lid (out, e))) a = queue_of e a"
    by (simp add: queue_of_def flush_link_out)
  then show ?thesis unfolding link_packets_def by (simp split: option.split)
qed

lemma flush_fold:
  assumes "distinct ks"
  shows "fst (fold flush_link ks (out, e)) = out @ concat (map (link_packets e) ks)
    \<and> set (m_keys (e_out (snd (fold flush_link ks (out, e)))))
       = {k \<in> set (m_keys (e_out e)). \<not> (k \<in> set ks \<and> map_of (e_links e) k \<noteq> None)}"
  using assms
proof (induction ks arbitrary: out e)
  case (Cons k ks)
  define e1 where "e1 = snd (flush_link k (out, e))"
  have st: "flush_link k (out, e) = (out @ link_packets e k, e1)"
    unfolding e1_def using flush_link_fst [of k out e] by (metis prod.collapse)
  have "concat (map (link_packets e1) ks) = concat (map (link_packets e) ks)"
    using Cons.prems by (intro arg_cong [where f = concat]) (auto simp: e1_def intro!: flush_link_other)
  moreover have "e_links e1 = e_links e" by (simp add: e1_def)
  moreover have "set (m_keys (e_out e1)) = {a \<in> set (m_keys (e_out e)). \<not> (a = k \<and> map_of (e_links e) k \<noteq> None)}"
    unfolding e1_def flush_link_out by (auto simp: set_m_keys)
  ultimately show ?case
    using Cons.IH [of "out @ link_packets e k" e1] Cons.prems by (auto simp: st)
qed simp

lemma flush_out_packets:
  assumes "engine_ok e" and "flush_out e = (packets, e2)"
  shows "packets = concat (map (link_packets e) (m_keys (e_links e)))"
    and "out_linked e \<Longrightarrow> e_out e2 = []"
proof -
  have d: "distinct (m_keys (e_links e))"
    by (rule m_ok_distinct [OF m_all_m_ok [OF engine_okD(2) [OF assms(1)]]])
  note f = flush_fold [OF d, of "[]" e]
  then show "packets = concat (map (link_packets e) (m_keys (e_links e)))"
    using assms(2) by (simp add: flush_out_def)
  assume "out_linked e"
  then have "set (m_keys (e_out e2)) = {}"
    using f assms(2) by (auto simp: flush_out_def out_linked_def set_m_keys)
  then show "e_out e2 = []" by (simp add: m_keys_def)
qed

text \<open>A reachable engine has empty queues between calls.\<close>

lemma reachable_out:
  assumes "reachable e"
  shows "e_out e = []"
  using assms
proof (induction rule: reachable.induct)
  case (new c e)
  then show ?case by (rule new_engine_fields)
next
  case (restored c st e)
  obtain e0 e1 where e0: "new_engine (c\<lparr>cfg_source_gc := max (cfg_source_gc c) (cp_source_hold st),
       cfg_initial_seqno := cp_seqno st\<rparr>) = Inr e0"
    and e1: "restore_sources (cp_sources st) (e0\<lparr>e_last_link := cp_last_link st\<rparr>) = Some e1"
    and e: "restore_drops (cp_drop_hold st) (cp_drops st) e1 = Some e"
    by (rule restore_cases [OF restored(1)])
  have out: "restore_sources ss a = Some b \<Longrightarrow> e_out b = e_out a" for ss a b
    by (induction ss arbitrary: a) (fastforce simp: Let_def split: if_splits)+
  have "e_out e = e_out e1" using restore_drops_fields [OF e] by (metis engine.select_convs(13) engine.surjective engine.update_convs(11))
  then show ?case using out [OF e1] new_engine_fields(10) [OF e0] by simp
next
  case (stepped e ev now)
  have e: "engine_ok e" by (rule reachable_ok [OF stepped(1)])
  have main: "e_out e2 = []" if g: "step_guards now ev e" "flush_out (run now ev e) = (packets, e2)"
    for packets e2
  proof -
    have g': "validate e ev = None" "e_now e \<le> now" using g(1) by (simp_all add: step_guards_def)
    have "out_linked (expire (e\<lparr>e_now := now\<rparr>))" by (simp add: out_linked_def stepped.IH m_keys_def)
    then have "out_linked (run now ev e)" by (rule linked.run_I [OF _ e g'(1) stepped(2) g'(2)]) simp
    then show ?thesis
      by (rule flush_out_packets(2) [OF run_ok [OF e g'(1) stepped(2) g'(2)] g(2)])
  qed
  show ?case
  proof (cases rule: step_cases [of now ev e])
    case (changed packets e2)
    with main [OF changed(1,2)] show ?thesis by simp
  next
    case (quiet packets e2)
    with main [OF quiet(1,2)] show ?thesis by simp
  qed (simp add: stepped.IH)
qed (simp_all add: commit_def)

subsection \<open>Properties\<close>

lemma address_update_fields:
  assumes "address_update e l p (update_msg e r) = Some m"
  shows "m_prefix m = r_prefix r \<and> m_router_id m = r_router_id r \<and> m_seqno m = r_seqno r
    \<and> m_metric m = r_metric r"
proof (cases "is4 (pfx_addr p)")
  case True
  then show ?thesis
    using assms by (cases "l_ipv4 l"; cases "cfg_v4via6 (e_cfg e)")
      (auto simp: address_update_def update_msg_def)
next
  case False
  then show ?thesis using assms by (auto simp: address_update_def update_msg_def)
qed

text \<open>
  C1 (advertise_records): whenever \<open>advertise\<close> queues a finite update, it is for the selected
  route of that prefix and respects split horizon and the origination policy, and the source
  history already holds a feasibility distance that is at least as strict: a neighbour
  sending exactly this update back would find it infeasible. That distance lives for a full
  garbage-collection interval from now.
\<close>

theorem advertise_records:
  assumes "queue_of (advertise lid p x e) lid = queue_of e lid @ [m]" and "finite_update m"
  shows "\<exists>r s. map_of (e_selected e) p = Some r \<and> \<not> r_unreachable r \<and> \<not> withheld e p r
    \<and> (x \<or> r_link r \<noteq> lid)
    \<and> m_prefix m = r_prefix r \<and> m_router_id m = r_router_id r \<and> m_seqno m = r_seqno r
    \<and> m_metric m = r_metric r
    \<and> map_of (e_sources (advertise lid p x e)) (p, r_router_id r) = Some s
    \<and> \<not> newer (m_seqno m) (s_seq s) \<and> \<not> (m_seqno m = s_seq s \<and> m_metric m < s_metric s)
    \<and> s_expires s = e_now e + cfg_source_gc (e_cfg e)"
proof -
  let ?e' = "advertise lid p x e"
  have same: False if "queue_of ?e' lid = queue_of e lid"
    using assms(1) that by simp
  have q: "m = m'" if e': "?e' = queue_msg lid m' s" and out: "e_out s = e_out e" for m' s
  proof -
    have "queue_of (queue_msg lid m' s) lid = queue_of e lid
        \<or> queue_of (queue_msg lid m' s) lid = queue_of e lid @ [m']"
      by (simp add: queue_of_def queue_msg_def out)
    then show ?thesis using same assms(1) unfolding e' by auto
  qed
  have strict: "\<not> newer (r_seqno r) (s_seq (record_source e r s))
      \<and> \<not> (r_seqno r = s_seq (record_source e r s) \<and> r_metric r < s_metric (record_source e r s))"
    for r s by (simp add: record_source_def Let_def)
  have main: ?thesis if off: "offers lid p x e r m"
    and src: "map_of (e_sources ?e') (p, r_router_id r) = Some (record_source e r s)" for r s
  proof -
    have m: "m_prefix m = r_prefix r" "m_router_id m = r_router_id r" "m_seqno m = r_seqno r"
        "m_metric m = r_metric r"
      using off by (auto simp: offers_def dest!: address_update_fields)
    have r: "map_of (e_selected e) p = Some r" "\<not> r_unreachable r" "\<not> withheld e p r"
      "x \<or> r_link r \<noteq> lid"
      using off by (auto simp: offers_def)
    show ?thesis
      unfolding m
      by (rule exI [of _ r], rule exI [of _ "record_source e r s"], intro conjI)
        (use r src strict [of r s] record_source_expires [of e r s] in \<open>simp_all only: simp_thms\<close>)
  qed
  show ?thesis
  proof (cases rule: advertise_cases [of lid p x e])
    case (fresh r m')
    have m: "m = m'" by (rule q [OF fresh(3)]) simp
    show ?thesis
      by (rule main [OF fresh(1) [folded m]]) (unfold fresh(3), simp add: new_source_def)
  next
    case (known r m' s)
    have m: "m = m'" by (rule q [OF known(3)]) simp
    show ?thesis by (rule main [OF known(1) [folded m]]) (unfold known(3), simp)
  next
    case retract
    have "m = retraction e p" by (rule q [OF retract(1)]) simp
    then show ?thesis using assms(2) by (simp add: finite_update_def retraction_def)
  next
    case silent
    then have False by (intro same) simp
    then show ?thesis ..
  next
    case later
    then have False by (intro same) (simp add: queue_of_def)
    then show ?thesis ..
  next
    case full
    then have False by (intro same) (simp add: queue_of_def)
    then show ?thesis ..
  qed
qed

text \<open>
  C10 (step_output_readable): every datagram a step releases, or holds back for \<open>Commit\<close>, is
  addressed to a live link, fits that link's packet limit, and is understood in full by the
  packet decoder of the peer.
\<close>

theorem step_output_readable:
  assumes "reachable e" and "wf_event ev" and "step now ev e = (Inr eff, e')"
    and "(lid, b) \<in> set (eff_datagrams eff @ (if e_pending e' = 0 then [] else e_held e'))" and "is6 src"
  shows "\<exists>l ms. map_of (e_links e') lid = Some l \<and> int (length b) \<le> l_max_packet (ls_link l)
    \<and> decode b src = Some ms"
proof -
  have e: "engine_ok e" by (rule reachable_ok [OF assms(1)])
  have main: "\<exists>l ms. map_of (e_links e2) lid = Some l \<and> int (length b) \<le> l_max_packet (ls_link l)
      \<and> decode b src = Some ms"
    if g: "step_guards now ev e" "flush_out (run now ev e) = (packets, e2)" and b: "(lid, b) \<in> set packets"
    for packets e2
  proof -
    let ?r = "run now ev e"
    have r: "engine_ok ?r" using g(1) by (intro run_ok e assms(2)) (simp_all add: step_guards_def)
    from b obtain k where k: "(lid, b) \<in> set (link_packets ?r k)"
      unfolding flush_out_packets(1) [OF r g(2)] by auto
    then obtain l where l: "map_of (e_links ?r) lid = Some l"
      and p: "b \<in> set (pack (queue_of ?r lid) (nat (l_max_packet (ls_link l))))"
      by (cases "map_of (e_links ?r) k") (auto simp: link_packets_def)
    have "\<forall>m \<in> set (queue_of ?r lid). wire_ok m"
      using m_all_get [OF engine_okD(9) [OF r], of lid]
      by (cases "map_of (e_out ?r) lid") (auto simp: queue_of_def)
    moreover have mx: "512 \<le> l_max_packet (ls_link l)" "l_max_packet (ls_link l) \<le> 65487"
      using m_all_get [OF engine_okD(2) [OF r] l] by (simp_all add: link_ok_def Let_def)
    then have mx': "52 \<le> nat (l_max_packet (ls_link l))" "nat (l_max_packet (ls_link l)) \<le> 65539"
      by linarith+
    ultimately obtain rs where rs: "\<forall>p \<in> set (pack (queue_of ?r lid) (nat (l_max_packet (ls_link l)))).
          length p \<le> nat (l_max_packet (ls_link l))"
        "map (\<lambda>p. decode p src) (pack (queue_of ?r lid) (nat (l_max_packet (ls_link l)))) = map Some rs"
      using pack_reads [OF _ assms(5) mx', of "queue_of ?r lid"] by blast
    have "decode b src \<in> set (map (\<lambda>p. decode p src) (pack (queue_of ?r lid) (nat (l_max_packet (ls_link l)))))"
      using p by simp
    then obtain ms where "decode b src = Some ms" unfolding rs(2) by auto
    moreover have "int (length b) \<le> l_max_packet (ls_link l)" using rs(1) p mx by force
    moreover have "e2 = snd (flush_out ?r)" by (simp add: g(2))
    then have "e_links e2 = e_links ?r" by simp
    ultimately show ?thesis using l by simp
  qed
  show ?thesis
  proof (cases rule: step_cases [of now ev e])
    case (changed packets e2)
    with main [OF changed(1,2)] assms(3,4) show ?thesis by (auto split: if_splits)
  next
    case (quiet packets e2)
    have "e2 = snd (flush_out (run now ev e))" by (simp add: quiet(2))
    then have "e_pending e2 = 0" using quiet(1) by (simp add: step_guards_def)
    with main [OF quiet(1,2)] quiet assms(3,4) show ?thesis by auto
  qed (use assms(3) in simp)
qed

end
