(* ===== verification/Babel_History.thy ===== *)
theory Babel_History
  imports Babel_Output
begin

section \<open>Feasibility distances only improve\<close>

text \<open>
  A feasibility distance is a sequence number and a metric; a stored one is replaced only by a
  better one. Sequence numbers are compared on a circle of 65536, so better is an order only
  among numbers that lie in one half of it, and one packet may carry updates from all around the
  circle. The invariant \<open>improving\<close> follows one source through a step whose sequence numbers
  for that source (\<open>seqs_met\<close>) lie in the half that starts at \<open>b\<close>.
\<close>

definition in_half :: "u16 \<Rightarrow> u16 \<Rightarrow> bool" where
  "in_half b q \<longleftrightarrow> unat (q - b) < 32768"

definition no_worse :: "source \<Rightarrow> source \<Rightarrow> bool" where
  "no_worse s' s \<longleftrightarrow> newer (s_seq s') (s_seq s) \<or> s_seq s' = s_seq s \<and> s_metric s' \<le> s_metric s"

lemma newer_low:
  fixes x y :: u16
  assumes "unat x < 32768" "unat y < 32768"
  shows "newer x y \<longleftrightarrow> unat y < unat x"
proof (cases "y \<le> x")
  case True
  then have "unat (x - y) = unat x - unat y" by (rule unat_sub)
  then have "newer x y \<longleftrightarrow> unat y < unat x \<and> unat x - unat y < 32768"
    by (simp add: newer_def word_less_nat_alt)
  then show ?thesis using assms by linarith
next
  case False
  then have lt: "unat x < unat y" by (simp add: word_le_nat_alt)
  have "unat (x - y) = unat x + 65536 - unat y"
    using lt by (simp add: unat_sub_if')
  then have "\<not> unat (x - y) < 32768" using assms by linarith
  then have "\<not> x - y < 32768" by (simp add: word_less_nat_alt)
  then show ?thesis using lt by (simp add: newer_def Let_def)
qed

lemma newer_half:
  assumes "in_half b p" "in_half b q"
  shows "newer p q \<longleftrightarrow> unat (q - b) < unat (p - b)"
proof -
  have "newer p q = newer (p - b) (q - b)" by (simp add: newer_def)
  then show ?thesis using newer_low [of "p - b" "q - b"] assms by (simp add: in_half_def)
qed

lemma no_worse_refl: "no_worse s s"
  by (simp add: no_worse_def)

lemma no_worse_record:
  assumes "in_half b (s_seq s0)" "in_half b (s_seq s)" "in_half b (r_seqno r)" "no_worse s s0"
  shows "in_half b (s_seq (record_source e r s)) \<and> no_worse (record_source e r s) s0"
proof -
  have "no_worse (record_source e r s) s \<and> in_half b (s_seq (record_source e r s))"
    using assms(2,3) by (auto simp: record_source_def no_worse_def Let_def)
  then show ?thesis
    using assms newer_half [of b] by (fastforce simp: no_worse_def)
qed

text \<open>Every sequence number that a step can meet for a source.\<close>

definition seqs_met :: "engine \<Rightarrow> event \<Rightarrow> source_key \<Rightarrow> u16 list" where
  "seqs_met e ev sk =
     map (\<lambda>kr. cd_seq (snd kr)) (filter (\<lambda>(k, r). fst k = fst sk \<and> cd_id r = snd sk) (e_routes e))
     @ (case map_of (e_selected e) (fst sk) of
          None \<Rightarrow> [] | Some r \<Rightarrow> if r_router_id r = snd sk then [r_seqno r] else [])
     @ map m_seqno (filter (\<lambda>m. m_type m = T_UPDATE \<and> m_prefix m = fst sk \<and> m_router_id m = snd sk)
         (received e ev))
     @ (if snd sk = cfg_router_id (e_cfg e)
        then map (\<lambda>k. e_seq e + word_of_nat k) [0..<Suc (length (received e ev))] else [])"

definition improving :: "u16 \<Rightarrow> source_key \<Rightarrow> source \<Rightarrow> nat \<Rightarrow> engine \<Rightarrow> bool" where
  "improving b sk s0 n e \<longleftrightarrow>
     (\<forall>kr \<in> set (e_routes e). fst (fst kr) = fst sk \<and> cd_id (snd kr) = snd sk
        \<longrightarrow> in_half b (cd_seq (snd kr)))
     \<and> (\<forall>r. map_of (e_selected e) (fst sk) = Some r \<and> \<not> r_unreachable r \<and> r_router_id r = snd sk
          \<longrightarrow> in_half b (r_seqno r))
     \<and> (snd sk = cfg_router_id (e_cfg e) \<longrightarrow> (\<forall>k \<le> n. in_half b (e_seq e + word_of_nat k)))
     \<and> in_half b (s_seq s0)
     \<and> (\<exists>s. map_of (e_sources e) sk = Some s \<and> in_half b (s_seq s) \<and> no_worse s s0)"

definition update_in_half :: "u16 \<Rightarrow> source_key \<Rightarrow> message \<Rightarrow> bool" where
  "update_in_half b sk m \<longleftrightarrow>
     (m_type m = T_UPDATE \<and> m_prefix m = fst sk \<and> m_router_id m = snd sk \<longrightarrow> in_half b (m_seqno m))"

lemma improving_frame:
  assumes "improving b sk s0 n e" "e_cfg e' = e_cfg e" "e_sources e' = e_sources e"
    "e_routes e' = e_routes e" "e_selected e' = e_selected e" "e_seq e' = e_seq e"
  shows "improving b sk s0 n e'"
  using assms by (simp add: improving_def)

lemma improving_advertise:
  assumes I: "improving b sk s0 n e"
  shows "improving b sk s0 n (advertise lid p x e)"
proof -
  obtain s where s: "map_of (e_sources e) sk = Some s" "in_half b (s_seq s)" "no_worse s s0"
    and s0: "in_half b (s_seq s0)" using I by (auto simp: improving_def)
  have "\<exists>s'. map_of (e_sources (advertise lid p x e)) sk = Some s' \<and> in_half b (s_seq s') \<and> no_worse s' s0"
  proof (cases rule: advertise_cases [of lid p x e])
    case (known r m t)
    show ?thesis
    proof (cases "(p, r_router_id r) = sk")
      case True
      then have "in_half b (r_seqno r)" using I known(1) by (auto simp: improving_def offers_def)
      then have "in_half b (s_seq (record_source e r s)) \<and> no_worse (record_source e r s) s0"
        by (intro no_worse_record s0 s)
      moreover have "t = s" using True known(2) s(1) by simp
      ultimately show ?thesis using True known(3) by simp
    next
      case False
      then show ?thesis using known(3) s by auto
    qed
  next
    case (fresh r m)
    then have "(p, r_router_id r) \<noteq> sk" using s(1) by auto
    then show ?thesis using fresh(3) s by auto
  qed (use s in simp_all)
  then show ?thesis using I by (simp add: improving_def)
qed

lemma improving_pick:
  assumes I: "improving b sk s0 n e" and a: "e_cfg a = e_cfg e" "e_routes a = e_routes e" "e_seq a = e_seq e"
  shows "improving b sk s0 n (e\<lparr>e_drops := d, e_selected := add_drops t u (select_candidates a)\<rparr>)"
proof -
  have drops: "r_unreachable r \<or> map_of nx p = Some r"
    if "map_of (add_drops t us nx) p = Some r" for us nx p r
    using that
  proof (induction us arbitrary: nx)
    case (Cons q us)
    obtain p' v where q: "q = (p', v)" by force
    show ?case using Cons.IH Cons.prems
      by (fastforce simp: add_drops_def q drop_route_def split: if_splits)
  qed (simp add: add_drops_def)
  have "in_half b (r_seqno r)"
    if sel: "map_of (select_candidates a) (fst sk) = Some r" and id: "r_router_id r = snd sk" for r
  proof (cases "map_of (e_local a) (fst sk)")
    case None
    then obtain kr where "kr \<in> set (e_routes a)" "good a (fst sk) kr"
        "r = candidate_route (fst sk) (snd kr) (route_metric a (snd kr))"
      using select_candidates_chosen [OF None] sel by (auto simp: chosen_def)
    then show ?thesis using I id a(2) by (auto simp: improving_def candidate_route_def good_def split: prod.splits)
  next
    case (Some m)
    then have "r = local_route a (fst sk) m" using select_candidates_local sel by simp
    then show ?thesis using I id a(1,3) by (auto simp: improving_def local_route_def)
  qed
  then show ?thesis using I drops by (fastforce simp: improving_def)
qed

interpretation improves: engine_closed "improving b sk s0" "update_in_half b sk" for b sk s0
proof
  fix n e m lid a
  show "improving b sk s0 n (e\<lparr>e_routes := m_put (m_prefix m, lid) (new_candidate a lid m) (e_routes e)\<rparr>)"
    if "improving b sk s0 n e" "m_type m = T_UPDATE" "update_in_half b sk m"
    using that set_m_put [of "(m_prefix m, lid)" "new_candidate a lid m" "e_routes e"]
    by (fastforce simp: improving_def update_in_half_def new_candidate_def)
next
  fix n e
  assume I: "improving b sk s0 (Suc n) e"
  then show "improving b sk s0 n e" by (auto simp: improving_def)
  have "e_seq e + 1 + word_of_nat k = e_seq e + word_of_nat (Suc k)" for k by simp
  then show "improving b sk s0 n (e\<lparr>e_seq := e_seq e + 1\<rparr>)"
    using I unfolding improving_def by (auto simp: add.assoc simp del: of_nat_Suc)
next
  fix n e and f :: "route_key \<Rightarrow> candidate \<Rightarrow> candidate"
  assume "improving b sk s0 n e" "\<And>k r. cd_id (f k r) = cd_id r \<and> cd_seq (f k r) = cd_seq r"
  then show "improving b sk s0 n (e\<lparr>e_routes := m_adj f (e_routes e)\<rparr>)"
    by (fastforce simp: improving_def m_adj_def)
next
  fix n e i
  assume I: "improving b sk s0 n e"
  have "fst (fst kr) = fst sk \<and> cd_id (snd kr) = snd sk \<longrightarrow> in_half b (cd_seq (snd kr))"
    if kr: "kr \<in> set (e_routes (handle_event (RemoveLink i) e))" for kr
  proof -
    obtain k r where "(k, r) \<in> set (e_routes e)" "fst kr = k" "cd_id (snd kr) = cd_id r"
        "cd_seq (snd kr) = cd_seq r"
      using kr by (auto simp: m_adj_def)
    then show ?thesis using I by (force simp: improving_def)
  qed
  then show "improving b sk s0 n (handle_event (RemoveLink i) e)"
    using I by (simp add: improving_def)
qed (simp_all add: improving_advertise improving_pick, auto intro: improving_frame)

subsection \<open>Property\<close>

lemma improving_start:
  assumes e: "engine_ok e" and s: "map_of (e_sources e) sk = Some s" "now < s_expires s"
    and b: "\<forall>q \<in> set (s_seq s # seqs_met e ev sk). in_half b q"
  shows "improving b sk s (length (received e ev)) (expire (e\<lparr>e_now := now\<rparr>))"
    "\<forall>m \<in> set (received e ev). update_in_half b sk m"
proof -
  show "\<forall>m \<in> set (received e ev). update_in_half b sk m"
    using b by (auto simp: seqs_met_def update_in_half_def)
  have routes: "\<exists>kr' \<in> set (e_routes e). fst kr' = fst kr \<and> cd_id (snd kr') = cd_id (snd kr)
      \<and> cd_seq (snd kr') = cd_seq (snd kr)" if "kr \<in> set (e_routes (expire (e\<lparr>e_now := now\<rparr>)))" for kr
    using that by (force simp: expire_def expire_routes_def m_adj_def)
  have old: "in_half b (cd_seq (snd kr))"
    if "kr \<in> set (e_routes e)" "fst (fst kr) = fst sk" "cd_id (snd kr) = snd sk" for kr
    using b that by (force simp: seqs_met_def)
  have "in_half b (e_seq e + word_of_nat k)"
    if "snd sk = cfg_router_id (e_cfg e)" "k \<le> length (received e ev)" for k
    using b that by (auto simp: seqs_met_def simp del: upt_Suc)
  moreover have "in_half b (r_seqno r)"
    if "map_of (e_selected e) (fst sk) = Some r" "r_router_id r = snd sk" for r
    using b that by (auto simp: seqs_met_def)
  moreover have "map_of (e_sources (expire (e\<lparr>e_now := now\<rparr>))) sk = Some s"
    using s m_all_m_ok [OF engine_okD(4) [OF e]] by (simp add: expire_def map_of_filter_ok)
  ultimately show "improving b sk s (length (received e ev)) (expire (e\<lparr>e_now := now\<rparr>))"
    using b old routes no_worse_refl unfolding improving_def by fastforce
qed

text \<open>
  C2 (history_survives): no step forgets a feasibility distance before its lifetime is over.
  A source whose expiry time is still ahead at the step's time is recorded afterwards, either
  exactly as it was or with its lifetime renewed in full; and as long as the sequence numbers the
  step meets for that source lie within half of their circle, so that they can be compared at all,
  its feasibility distance has not become worse: its sequence number is newer, or the same with a
  metric that is not larger.
\<close>

theorem history_survives:
  assumes "reachable e" and "wf_event ev"
    and "map_of (e_sources e) sk = Some s" and "now < s_expires s"
  shows "\<exists>s'. map_of (e_sources (snd (step now ev e))) sk = Some s'
    \<and> (s' = s \<or> s_expires s' = now + cfg_source_gc (e_cfg e))
    \<and> ((\<exists>b. \<forall>q \<in> set (s_seq s # seqs_met e ev sk). in_half b q) \<longrightarrow>
         newer (s_seq s') (s_seq s) \<or> s_seq s' = s_seq s \<and> s_metric s' \<le> s_metric s)"
proof -
  have e: "engine_ok e" by (rule reachable_ok [OF assms(1)])
  have main: "\<exists>s'. map_of (e_sources e2) sk = Some s' \<and> (s' = s \<or> s_expires s' = now + cfg_source_gc (e_cfg e))
      \<and> ((\<exists>b. \<forall>q \<in> set (s_seq s # seqs_met e ev sk). in_half b q) \<longrightarrow> no_worse s' s)"
    if g: "step_guards now ev e" "flush_out (run now ev e) = (packets, e2)" for packets e2
  proof -
    let ?e1 = "expire (e\<lparr>e_now := now\<rparr>)"
    have g': "validate e ev = None" "e_now e \<le> now" using g(1) by (simp_all add: step_guards_def)
    have s1: "map_of (e_sources ?e1) sk = Some s"
      using assms(3,4) m_all_m_ok [OF engine_okD(4) [OF e]]
      by (simp add: expire_def map_of_filter_ok)
    have h: "history_kept ?e1 (run now ev e)"
      by (rule history.run_I [OF history_kept_refl e g'(1) assms(2) g'(2)]) simp
    obtain s' where s': "map_of (e_sources (run now ev e)) sk = Some s'"
        "s' = s \<or> s_expires s' = e_now (run now ev e) + cfg_source_gc (e_cfg (run now ev e))"
      by (rule history_keptD [OF h s1])
    have "no_worse s' s" if b: "\<forall>q \<in> set (s_seq s # seqs_met e ev sk). in_half b q" for b
      using improves.run_I [OF improving_start(1) [OF e assms(3,4) b] e g'(1) assms(2) g'(2)
          improving_start(2) [OF e assms(3,4) b]] s'(1) by (simp add: improving_def)
    moreover have "e2 = snd (flush_out (run now ev e))" by (simp add: g(2))
    then have "e_sources e2 = e_sources (run now ev e)" by simp
    ultimately show ?thesis using s' by auto
  qed
  show ?thesis
  proof (cases rule: step_cases [of now ev e])
    case (changed packets e2)
    with main [OF changed(1,2)] show ?thesis by (simp add: no_worse_def)
  next
    case (quiet packets e2)
    with main [OF quiet(1,2)] show ?thesis by (simp add: no_worse_def)
  qed (use assms(3) in simp)
qed

end
