(* ===== verification/Babel_Api.thy ===== *)
theory Babel_Api
  imports Babel_History
begin

section \<open>The engine as its callers see it\<close>

text \<open>
  The contract of \<open>Step\<close>, \<open>Commit\<close> and \<open>NextDeadline\<close>, the derivation of router IDs
  (go/babel/routerid.go) and the packet filter for leaf peers (go/babel/leaf.go).
\<close>

subsection \<open>Router IDs\<close>

definition router_id_from_mac :: "bytes \<Rightarrow> berror + router_id" where
  "router_id_from_mac mac =
     (if length mac \<noteq> 6 then Inl ErrConfig
      else let rid = be_val mac in if rid = 0 then Inl ErrConfig else Inr rid)"

definition router_id_from_random :: "bytes \<Rightarrow> router_id" where
  "router_id_from_random r = push_bit 48 1 OR be_val r"

lemma be_val_6:
  assumes "length bs = 6"
  shows "be_bytes 6 (be_val bs :: u64) = bs" "drop_bit 48 (be_val bs :: u64) = 0"
    "take_bit 48 (be_val bs :: u64) = be_val bs"
proof -
  show b: "be_bytes 6 (be_val bs :: u64) = bs"
    using be_bytes_be_val [of bs, where 'a = 64] assms by simp
  have "be_val (be_bytes 6 (be_val bs :: u64)) = (take_bit (8 * 6) (be_val bs) :: u64)"
    by (rule be_val_be_bytes)
  then show t: "take_bit 48 (be_val bs :: u64) = be_val bs" by (simp add: b)
  have "drop_bit 48 (take_bit 48 (be_val bs :: u64)) = 0"
    by (rule bit_word_eqI) (simp add: bit_simps)
  then show "drop_bit 48 (be_val bs :: u64) = 0" by (simp only: t)
qed

lemma drop_48_valid: "drop_bit 48 r = k \<Longrightarrow> k \<noteq> mask 16 \<Longrightarrow> r \<noteq> (- 1 :: u64)"
  by auto

lemma random_split:
  assumes "length bs = 6"
  shows "drop_bit 48 (router_id_from_random bs) = 1"
    and "take_bit 48 (router_id_from_random bs) = be_val bs"
proof -
  have "drop_bit 48 (router_id_from_random bs) = drop_bit 48 (push_bit 48 (1 :: u64))"
    using be_val_6 [OF assms] by (simp add: router_id_from_random_def drop_bit_or)
  then show "drop_bit 48 (router_id_from_random bs) = 1" by simp
  have "take_bit 48 (router_id_from_random bs) = take_bit 48 (push_bit 48 (1 :: u64)) OR be_val bs"
    using be_val_6 [OF assms] by (simp add: router_id_from_random_def)
  then show "take_bit 48 (router_id_from_random bs) = be_val bs" by simp
qed

text \<open>
  A router ID derived from a MAC address or from entropy is never one
  of the two values the engine refuses; each derivation can be inverted, so different inputs
  give different IDs, and the tag in the top 16 bits keeps the two kinds apart.
\<close>

theorem router_ids_legal:
  assumes "length random = 6"
  shows "valid_id (router_id_from_random random)
    \<and> drop_bit 48 (router_id_from_random random) = 1
    \<and> be_bytes 6 (take_bit 48 (router_id_from_random random)) = random
    \<and> (\<forall>mac rid. router_id_from_mac mac = Inr rid \<longrightarrow>
         valid_id rid \<and> drop_bit 48 rid = 0 \<and> be_bytes 6 rid = mac)"
proof -
  have m: "valid_id rid \<and> drop_bit 48 rid = 0 \<and> be_bytes 6 rid = mac"
    if "router_id_from_mac mac = Inr rid" for mac rid
  proof -
    have "length mac = 6" "rid = be_val mac" "rid \<noteq> 0"
      using that by (auto simp: router_id_from_mac_def Let_def split: if_splits)
    then show ?thesis using be_val_6 [of mac] drop_48_valid [of rid] by (auto simp: valid_id_def)
  qed
  have "router_id_from_random random \<noteq> 0"
  proof
    assume "router_id_from_random random = 0"
    with random_split(1) [OF assms] show False by simp
  qed
  moreover have "router_id_from_random random \<noteq> - 1"
    by (rule drop_48_valid [OF random_split(1) [OF assms]]) (simp add: mask_eq_exp_minus_1)
  ultimately show ?thesis
    using m random_split [OF assms] be_val_6 [OF assms] by (simp add: valid_id_def)
qed

theorem router_ids_legal_witness:
  "valid_id (router_id_from_random [255, 255, 255, 255, 255, 255])
    \<and> drop_bit 48 (router_id_from_random [255, 255, 255, 255, 255, 255]) = 1"
  using router_ids_legal [of "[255, 255, 255, 255, 255, 255]"] by simp

subsection \<open>Leaf packets\<close>

datatype leaf_error = LeafConfig | LeafDecode | LeafForeignRoute | LeafForeignRequest

definition leaf_message :: "addr \<Rightarrow> prefix \<Rightarrow> message \<Rightarrow> leaf_error option" where
  "leaf_message peer own m =
     (if m_type m = T_UPDATE then
        (if m_wildcard m \<or> m_prefix m \<noteq> own \<or> m_metric m \<noteq> infinity \<and> m_address m \<noteq> peer
         then Some LeafForeignRoute else None)
      else if m_type m = T_REQUEST \<or> m_type m = T_SEQ_REQUEST then
        (if \<not> (m_type m = T_REQUEST \<and> m_wildcard m) \<and> m_prefix m \<noteq> own
         then Some LeafForeignRequest else None)
      else None)"

fun leaf_messages :: "addr \<Rightarrow> prefix \<Rightarrow> message list \<Rightarrow> leaf_error option" where
  "leaf_messages peer own [] = None"
| "leaf_messages peer own (m # ms) =
     (case leaf_message peer own m of Some err \<Rightarrow> Some err | None \<Rightarrow> leaf_messages peer own ms)"

definition validate_leaf_packet :: "bytes \<Rightarrow> addr \<Rightarrow> prefix \<Rightarrow> leaf_error option" where
  "validate_leaf_packet packet peer own =
     (if \<not> is6 peer \<or> \<not> is_link_local_unicast peer \<or> \<not> valid_prefix own \<or> \<not> is6 (pfx_addr own)
         \<or> pfx_bits own \<noteq> 128 then Some LeafConfig
      else case decode packet peer of
        None \<Rightarrow> Some LeafDecode
      | Some ms \<Rightarrow> leaf_messages peer own ms)"

lemma leaf_messages_all:
  "leaf_messages peer own ms = None \<Longrightarrow> m \<in> set ms \<Longrightarrow> leaf_message peer own m = None"
  by (induction ms) (auto split: option.splits)

lemma recv_update_own:
  assumes "leaf_message peer own m = None" and "m_type m = T_UPDATE" and "k \<noteq> (own, lid)"
  shows "map_of (e_routes (recv_update lid peer m e)) k = map_of (e_routes e) k"
proof -
  have own: "\<not> m_wildcard m" "m_prefix m = own"
    using assms(1,2) by (auto simp: leaf_message_def split: if_splits)
  have up: "map_of (e_routes (upd_route (own, lid) f e)) k = map_of (e_routes e) k" for f
    using assms(3) by (cases "map_of (e_routes e) k") (simp_all add: upd_route_def)
  show ?thesis
    using assms(3) up by (simp add: recv_update_def own Let_def split: option.split)
qed

lemma receive_one_own:
  assumes "leaf_message peer own m = None" and "k \<noteq> (own, lid)"
  shows "map_of (e_routes (receive_one lid peer m e)) k = map_of (e_routes e) k"
  using recv_update_own [OF assms(1) _ assms(2)]
  by (simp add: receive_one_def receive_msg_def Let_def)

text \<open>
  once \<open>ValidateLeafPacket\<close> accepts a packet, feeding it to the
  engine on that peer's link changes no learnt route but the peer's own: every candidate for
  another prefix, or over another link, is left exactly as it was.
\<close>

theorem leaf_packet_confined:
  assumes "validate_leaf_packet packet peer own = None"
    and "map_of (e_links (e :: engine)) lid = Some l" and "l_peer (ls_link l) = peer" and "k \<noteq> (own, lid)"
  shows "map_of (e_routes (receive_packet lid packet e)) k = map_of (e_routes e) k"
proof -
  obtain ms where ms: "decode packet peer = Some ms" "leaf_messages peer own ms = None"
    using assms(1) by (auto simp: validate_leaf_packet_def split: if_splits option.splits)
  have "map_of (e_routes (fold (receive_one lid peer) ms s)) k = map_of (e_routes e) k"
    if s: "e_routes s = e_routes e" for s :: engine
  proof (rule fold_invariant_on [where I = "\<lambda>s. map_of (e_routes s) k = map_of (e_routes e) k"])
    fix m and t :: engine
    assume "m \<in> set ms" and t: "map_of (e_routes t) k = map_of (e_routes e) k"
    then show "map_of (e_routes (receive_one lid peer m t)) k = map_of (e_routes e) k"
      using receive_one_own [OF leaf_messages_all [OF ms(2)] assms(4)] by simp
  qed (simp add: s)
  then show ?thesis
    using assms(2,3) ms(1) by (simp add: receive_packet_def Let_def)
qed

subsection \<open>Step and Commit as a transaction\<close>

text \<open>What a successful call of \<open>step\<close> leaves behind.\<close>

lemma step_effects:
  assumes "step now ev e = (Inr eff, e')"
  obtains (changed) "eff = \<lparr>eff_revision = e_revision e + 1, eff_routes = route_snapshot e',
      eff_datagrams = []\<rparr>" "e_pending e' = e_revision e + 1" "e_stopped e' = False"
      "route_snapshot e' \<noteq> route_snapshot e"
  | (quiet) ds where "eff = no_effects\<lparr>eff_datagrams := ds\<rparr>" "e_pending e' = 0" "e_stopped e' = False"
      "route_snapshot e' = route_snapshot e"
proof -
  have fr: "e_pending e2 = e_pending e" "e_revision e2 = e_revision e" "e_stopped e2 = e_stopped e"
    if "flush_out (run now ev e) = (packets, e2)" for packets e2
  proof -
    have "e2 = snd (flush_out (run now ev e))" by (simp add: that)
    then show "e_pending e2 = e_pending e" "e_revision e2 = e_revision e" "e_stopped e2 = e_stopped e"
      by simp_all
  qed
  show thesis
  proof (cases rule: step_cases [of now ev e])
    case (refused err)
    then show thesis using assms by simp
  next
    case (changed packets e2)
    have snap: "route_snapshot e' = route_snapshot e2"
      using assms changed(4) by (auto simp: route_snapshot_def)
    show thesis
      by (rule that(1)) (use assms changed fr [OF changed(2)] snap in \<open>auto simp: step_guards_def\<close>)
  next
    case (quiet packets e2)
    show thesis
      by (rule that(2)) (use assms quiet fr [OF quiet(2)] in \<open>auto simp: step_guards_def\<close>)
  qed
qed

text \<open>
  C9 (step_transaction): a step that changes the selected routes publishes them under a new
  revision and sends nothing; until that revision is committed every further step is refused
  without effect; a successful commit releases exactly the datagrams held back; a failed one
  stops the engine for good. A step that changes no route sends at once. (The revision
  counter has 64 bits; the statement leaves out the step at which it would wrap to 0.)
\<close>

theorem step_transaction:
  assumes "reachable e" and "step now ev e = (Inr eff, e')" and "e_revision e \<noteq> - 1"
  shows "if route_snapshot e' = route_snapshot e
    then eff_revision eff = 0 \<and> e_pending e' = 0
    else eff_revision eff = e_revision e + 1 \<and> eff_routes eff = route_snapshot e'
      \<and> eff_datagrams eff = []
      \<and> (\<forall>now' ev'. step now' ev' e' = (Inl ErrPending, e'))
      \<and> commit (eff_revision eff) True e' =
          (Inr (no_effects\<lparr>eff_datagrams := e_held e'\<rparr>), e'\<lparr>e_pending := 0, e_held := []\<rparr>)
      \<and> (\<forall>now' ev'. fst (step now' ev' (snd (commit (eff_revision eff) False e'))) = Inl ErrStopped)"
proof -
  have rev: "e_revision e + 1 \<noteq> 0"
    using assms(3) by (metis add.right_neutral add_diff_cancel_right' diff_0)
  from assms(2) show ?thesis
  proof (cases rule: step_effects)
    case changed
    then show ?thesis
      using rev by (auto simp: step_def commit_def no_effects_def)
  next
    case (quiet ds)
    then show ?thesis by (simp add: no_effects_def)
  qed
qed

subsection \<open>Deadlines\<close>

lemma deadlines_horizon:
  assumes "engine_ok e" and "d \<in> set (deadlines e)"
  shows "- day \<le> d \<and> d \<le> horizon e \<or> d < e_now e"
proof -
  have l: "link_ok (horizon e) k l" if "(k, l) \<in> set (e_links e)" for k l
    using m_all_set [OF engine_okD(2) [OF assms(1)] that] .
  have r: "cand_ok (cfg_router_id (e_cfg e)) (horizon e) k r" if "(k, r) \<in> set (e_routes e)" for k r
    using m_all_set [OF engine_okD(3) [OF assms(1)] that] .
  have s: "source_ok (horizon e) k x" if "(k, x) \<in> set (e_sources e)" for k x
    using m_all_set [OF engine_okD(4) [OF assms(1)] that] .
  have q: "request_ok (horizon e) k x" if "(k, x) \<in> set (e_requests e)" for k x
    using m_all_set [OF engine_okD(8) [OF assms(1)] that] .
  have dr: "x \<le> horizon e" if "(k, x) \<in> set (e_drops e)" for k x
    using m_all_set [OF engine_okD(7) [OF assms(1)] that] by simp
  have "d \<le> horizon e"
    using assms(2) l r s q dr unfolding deadlines_def
    by (fastforce simp: link_ok_def cand_ok_def source_ok_def request_ok_def split: if_splits)
  moreover have "0 \<le> e_now e" by (rule engine_okD(13) [OF assms(1)])
  ultimately show ?thesis by (cases "d < e_now e") (auto simp: day_def seconds_def)
qed

lemma add_deadline_fold:
  "(case fold (add_deadline now) ds best of
      None \<Rightarrow> best = None \<and> (\<forall>x \<in> set ds. x \<le> now)
    | Some d \<Rightarrow> (best = Some d \<or> now < d \<and> d \<in> set ds) \<and> (\<forall>x \<in> set ds. now < x \<longrightarrow> d \<le> x)
        \<and> (\<forall>b. best = Some b \<longrightarrow> d \<le> b))"
proof (induction ds arbitrary: best)
  case Nil
  then show ?case by (simp split: option.split)
next
  case (Cons x ds)
  show ?case
    using Cons.IH [of "add_deadline now x best"]
    by (cases best) (auto simp: add_deadline_def not_less split: option.splits if_splits)
qed

text \<open>
  \<open>NextDeadline\<close> of a live engine is the earliest moment at
  which anything is due: never in the past, the present only when a triggered update is due
  already, not later than any pending timer, and absent only if there is none. It lies at
  most a day ahead, so the caller's clock arithmetic cannot overflow.
\<close>

theorem next_deadline_earliest:
  assumes "reachable e" and "\<not> e_stopped e" and "e_pending e = 0"
  shows "case next_deadline e of
      None \<Rightarrow> \<not> e_trigger e \<and> (\<forall>x \<in> set (deadlines e). x \<le> e_now e)
    | Some d \<Rightarrow> e_now e \<le> d \<and> d \<le> e_now e + day
        \<and> (d = e_now e \<longleftrightarrow> e_trigger e \<and> e_trigger_at e \<le> e_now e)
        \<and> (\<forall>x \<in> set (deadlines e). e_now e < x \<longrightarrow> d \<le> x)
        \<and> (e_trigger e \<longrightarrow> d \<le> max (e_now e) (e_trigger_at e))"
proof -
  have e: "engine_ok e" by (rule reachable_ok [OF assms(1)])
  have h: "d \<le> horizon e" if "d \<in> set (deadlines e)" for d
    using deadlines_horizon [OF e that] by (auto simp: day_def seconds_def)
  have t: "e_trigger_at e \<le> horizon e" by (rule engine_okD(14) [OF e])
  have day: "0 \<le> day" by (simp add: day_def seconds_def)
  note f = add_deadline_fold [where now = "e_now e" and ds = "deadlines e" and best = None]
  show ?thesis
  proof (cases "fold (add_deadline (e_now e)) (deadlines e) None")
    case None
    with f have "\<forall>x \<in> set (deadlines e). x \<le> e_now e" by simp
    then show ?thesis
      using assms(2,3) None t day by (auto simp: next_deadline_def Let_def add_deadline_def)
  next
    case (Some b)
    with f have "e_now e < b" "b \<in> set (deadlines e)" "\<forall>x \<in> set (deadlines e). e_now e < x \<longrightarrow> b \<le> x"
      by simp_all
    then show ?thesis
      using assms(2,3) Some t h [of b] day
      by (auto simp: next_deadline_def Let_def add_deadline_def)
  qed
qed

subsection \<open>Sequence numbers and metrics\<close>

text \<open>
  \<open>newer\<close> is a strict order on sequence numbers that lie within half the
  number space of each other: no number is newer than itself, no two are newer than each
  other, two that are not exactly half the space apart are comparable, the successor is newer
  even across the wrap at 65535, and the order is transitive as long as the total distance
  stays below half the space.
\<close>

theorem seqno_order:
  "\<not> newer a a \<and> (newer a b \<longrightarrow> \<not> newer b a) \<and> newer (a + 1) a
    \<and> (a \<noteq> b \<and> unat (a - b) \<noteq> 32768 \<longrightarrow> newer a b \<or> newer b a)
    \<and> (newer a b \<and> newer b c \<and> unat (a - b) + unat (b - c) < 32768 \<longrightarrow> newer a c)"
proof (intro conjI impI)
  show "\<not> newer b a" if "newer a b" using that by (rule newer_asym)
  show "newer a b \<or> newer b a" if "a \<noteq> b \<and> unat (a - b) \<noteq> 32768"
    using that newer_total by blast
  show "newer a c" if "newer a b \<and> newer b c \<and> unat (a - b) + unat (b - c) < 32768"
    using that newer_trans_window by blast
qed (rule newer_irrefl newer_Suc)+

theorem seqno_order_witness: "newer 0 65000 \<and> \<not> newer 65000 0"
  using seqno_order [of 0 65535 65000] seqno_order [of 0 65000 0]
  by (simp add: newer_def Let_def)

end
