(* ===== verification/Mesh_Routing.thy ===== *)
theory Mesh_Routing
  imports Babel_Api
begin

section \<open>The routing driver and its forwarding barrier (localmesh/routing.go)\<close>

text \<open>
  \<open>Routing\<close> couples the engine to the outside world through \<open>RoutingIO\<close>: apply the routes,
  persist the checkpoint, resume forwarding, send the datagrams. An operation of the interface
  is a function of the world that says whether it succeeded. The adapter is not part of
  routing.go: \<open>trace_io\<close> is an arbitrary one that records its calls, with an arbitrary
  outcome for each, and the theorems are about the order of the calls it sees.
\<close>

record 'w routing_io =
  io_apply :: "route list \<Rightarrow> 'w \<Rightarrow> bool \<times> 'w"
  io_persist :: "checkpoint \<Rightarrow> 'w \<Rightarrow> bool \<times> 'w"
  io_resume :: "'w \<Rightarrow> bool \<times> 'w"
  io_stop :: "'w \<Rightarrow> bool \<times> 'w"
  io_send :: "datagram \<Rightarrow> 'w \<Rightarrow> bool \<times> 'w"

record routing =
  rt_engine :: engine
  rt_stopped :: bool

datatype routing_error = EngineError berror | IOError

definition new_routing :: "config \<Rightarrow> checkpoint option \<Rightarrow> berror + routing" where
  "new_routing c st =
     (case (case st of None \<Rightarrow> new_engine c | Some cp \<Rightarrow> restore c cp) of
        Inl err \<Rightarrow> Inl err
      | Inr e \<Rightarrow> Inr \<lparr>rt_engine = e, rt_stopped = False\<rparr>)"

definition routing_fail :: "'w routing_io \<Rightarrow> routing_error \<Rightarrow> routing \<Rightarrow> 'w
    \<Rightarrow> routing_error option \<times> routing \<times> 'w" where
  "routing_fail io err r w = (Some err, r\<lparr>rt_stopped := True\<rparr>, snd (io_stop io w))"

text \<open>The part of \<open>Step\<close> after the routes are in place.\<close>

definition routing_publish :: "'w routing_io \<Rightarrow> effects \<Rightarrow> routing \<Rightarrow> 'w
    \<Rightarrow> routing_error option \<times> routing \<times> 'w" where
  "routing_publish io eff r w =
     (let (ok, w) = io_persist io (checkpoint_of (rt_engine r)) w in
      if \<not> ok then routing_fail io IOError r w
      else let (ok, w) = io_resume io w in
      if \<not> ok then routing_fail io IOError r w
      else (None, r, fold (\<lambda>d w. snd (io_send io d w)) (eff_datagrams eff) w))"

definition routing_step :: "'w routing_io \<Rightarrow> duration \<Rightarrow> event \<Rightarrow> routing \<Rightarrow> 'w
    \<Rightarrow> routing_error option \<times> routing \<times> 'w" where
  "routing_step io now ev r w =
     (if rt_stopped r then (Some (EngineError ErrStopped), r, w)
      else case step now ev (rt_engine r) of
        (Inl err, e) \<Rightarrow> (Some (EngineError err), r\<lparr>rt_engine := e\<rparr>, w)
      | (Inr eff, e) \<Rightarrow>
          if eff_revision eff \<noteq> 0 then
            (let (ok, w) = io_apply io (eff_routes eff) w in
             if \<not> ok
             then routing_fail io IOError (r\<lparr>rt_engine := snd (commit (eff_revision eff) False e)\<rparr>) w
             else case commit (eff_revision eff) True e of
               (Inl err, e) \<Rightarrow> routing_fail io (EngineError err) (r\<lparr>rt_engine := e\<rparr>) w
             | (Inr eff, e) \<Rightarrow> routing_publish io eff (r\<lparr>rt_engine := e\<rparr>) w)
          else routing_publish io eff (r\<lparr>rt_engine := e\<rparr>) w)"

subsection \<open>An adapter that records its calls\<close>

datatype io_call =
    CallApply "route list"
  | CallPersist checkpoint
  | CallResume
  | CallStop
  | CallSend datagram

definition trace_call :: "(io_call list \<Rightarrow> io_call \<Rightarrow> bool) \<Rightarrow> io_call \<Rightarrow> io_call list \<Rightarrow> bool \<times> io_call list" where
  "trace_call outcome c w = (outcome w c, w @ [c])"

definition trace_io :: "(io_call list \<Rightarrow> io_call \<Rightarrow> bool) \<Rightarrow> io_call list routing_io" where
  "trace_io outcome = \<lparr>io_apply = \<lambda>rs. trace_call outcome (CallApply rs),
     io_persist = \<lambda>cp. trace_call outcome (CallPersist cp),
     io_resume = trace_call outcome CallResume, io_stop = trace_call outcome CallStop,
     io_send = \<lambda>d. trace_call outcome (CallSend d)\<rparr>"

lemma trace_sends:
  "fold (\<lambda>d w. snd (io_send (trace_io outcome) d w)) ds w = w @ map CallSend ds"
  by (induction ds arbitrary: w) (simp_all add: trace_io_def trace_call_def)

lemma trace_fail:
  "routing_fail (trace_io outcome) err r w = (Some err, r\<lparr>rt_stopped := True\<rparr>, w @ [CallStop])"
  by (simp add: routing_fail_def trace_io_def trace_call_def)

text \<open>The calls that publishing can make: all of them, or a prefix that ends in \<open>Stop\<close>.\<close>

lemma trace_publish:
  obtains (sent) "routing_publish (trace_io outcome) eff r w =
      (None, r, w @ CallPersist (checkpoint_of (rt_engine r)) # CallResume # map CallSend (eff_datagrams eff))"
  | (no_persist) "routing_publish (trace_io outcome) eff r w =
      (Some IOError, r\<lparr>rt_stopped := True\<rparr>, w @ [CallPersist (checkpoint_of (rt_engine r)), CallStop])"
  | (no_resume) "routing_publish (trace_io outcome) eff r w =
      (Some IOError, r\<lparr>rt_stopped := True\<rparr>,
       w @ [CallPersist (checkpoint_of (rt_engine r)), CallResume, CallStop])"
proof -
  let ?p = "CallPersist (checkpoint_of (rt_engine r))"
  have eq: "routing_publish (trace_io outcome) eff r w =
      (if \<not> outcome w ?p then (Some IOError, r\<lparr>rt_stopped := True\<rparr>, w @ [?p, CallStop])
       else if \<not> outcome (w @ [?p]) CallResume
         then (Some IOError, r\<lparr>rt_stopped := True\<rparr>, w @ [?p, CallResume, CallStop])
       else (None, r, w @ ?p # CallResume # map CallSend (eff_datagrams eff)))"
    unfolding routing_publish_def trace_sends trace_fail
    by (simp add: trace_io_def trace_call_def)
  consider "\<not> outcome w ?p" | "outcome w ?p" "\<not> outcome (w @ [?p]) CallResume"
    | "outcome w ?p" "outcome (w @ [?p]) CallResume" by blast
  then show thesis
  proof cases
    case 1
    show thesis by (rule no_persist) (simp add: eq 1)
  next
    case 2
    show thesis by (rule no_resume) (simp add: eq 2)
  next
    case 3
    show thesis by (rule sent) (simp add: eq 3)
  qed
qed

subsection \<open>Properties\<close>

definition is_send :: "io_call \<Rightarrow> bool" where
  "is_send c = (case c of CallSend _ \<Rightarrow> True | _ \<Rightarrow> False)"

text \<open>Reachable drivers: the engine inside is one the engine's API produces.\<close>

inductive routing_reachable :: "(io_call list \<Rightarrow> io_call \<Rightarrow> bool) \<Rightarrow> routing \<Rightarrow> io_call list \<Rightarrow> bool"
  for outcome :: "io_call list \<Rightarrow> io_call \<Rightarrow> bool" where
  start: "new_routing c st = Inr r \<Longrightarrow> (\<forall>cp. st = Some cp \<longrightarrow> wf_checkpoint cp)
    \<Longrightarrow> routing_reachable outcome r []"
| step: "routing_reachable outcome r w \<Longrightarrow> wf_event ev
    \<Longrightarrow> routing_step (trace_io outcome) now ev r w = (err, r', w') \<Longrightarrow> routing_reachable outcome r' w'"

lemma publish_engine:
  "routing_publish io eff r w = (err, r', w') \<Longrightarrow> rt_engine r' = rt_engine r"
  by (auto simp: routing_publish_def routing_fail_def split: prod.splits if_splits)

lemma routing_step_engine:
  assumes "reachable (rt_engine r)" and "wf_event ev"
    and "routing_step io now ev r w = (err, r', w')"
  shows "reachable (rt_engine r')"
proof -
  obtain res e where st: "step now ev (rt_engine r) = (res, e)" by (cases "step now ev (rt_engine r)")
  have e: "reachable e" using stepped [OF assms(1,2), of now] st by simp
  have c: "reachable (snd (commit n b e))" for n b by (rule committed [OF e])
  show ?thesis
  proof (cases res)
    case (Inl x)
    then show ?thesis using assms st e by (auto simp: routing_step_def split: if_splits)
  next
    case (Inr eff)
    obtain res2 e2 where cm: "commit (eff_revision eff) True e = (res2, e2)"
      by (cases "commit (eff_revision eff) True e")
    have "reachable e2" using c [of "eff_revision eff" True] cm by simp
    then show ?thesis
      using assms st Inr e cm c [of "eff_revision eff" False]
      by (auto simp: routing_step_def routing_fail_def Let_def dest!: publish_engine
          split: if_splits prod.splits sum.splits)
  qed
qed

lemma routing_reachable_engine: "routing_reachable outcome r w \<Longrightarrow> reachable (rt_engine r)"
proof (induction rule: routing_reachable.induct)
  case (start c st r)
  then show ?case
    by (auto simp: new_routing_def intro: reachable.intros split: option.splits sum.splits)
next
  case (step r w ev now err r' w')
  show ?case by (rule routing_step_engine [OF step.IH step(2,3)])
qed

text \<open>The calls of one step, in order.\<close>

lemma routing_step_calls:
  assumes "routing_step (trace_io outcome) now ev r w = (err, r', w')"
    and "e_revision (rt_engine r) \<noteq> - 1"
  obtains (nothing) "w' = w" "err \<noteq> None" "rt_stopped r' = rt_stopped r"
  | (failed) cs where "w' = w @ cs @ [CallStop]" "\<forall>c \<in> set cs. \<not> is_send c" "rt_stopped r'" "err \<noteq> None"
  | (published) pre ds where
      "w' = w @ pre @ CallPersist (checkpoint_of (rt_engine r')) # CallResume # map CallSend ds"
      "pre = [] \<and> route_snapshot (rt_engine r') = route_snapshot (rt_engine r)
        \<or> pre = [CallApply (route_snapshot (rt_engine r'))]"
      "err = None" "\<not> rt_stopped r'" "e_pending (rt_engine r') = 0"
proof (cases "rt_stopped r")
  case True
  show thesis by (rule nothing) (use assms True in \<open>auto simp: routing_step_def\<close>)
next
  case run: False
  obtain res e where st: "step now ev (rt_engine r) = (res, e)" by (cases "step now ev (rt_engine r)")
  have rev: "e_revision (rt_engine r) + 1 \<noteq> 0"
    using assms(2) by (metis add.right_neutral add_diff_cancel_right' diff_0)
  have publish: thesis
    if p: "routing_publish (trace_io outcome) eff r1 (w @ pre) = (err, r', w')"
      and r1: "r1 = r\<lparr>rt_engine := e1\<rparr>" "e_pending e1 = 0"
      and pre: "pre = [] \<and> route_snapshot e1 = route_snapshot (rt_engine r)
        \<or> pre = [CallApply (route_snapshot e1)]" for eff r1 e1 pre
  proof (cases rule: trace_publish [of outcome eff r1 "w @ pre"])
    case sent
    show thesis
      by (rule published [of pre "eff_datagrams eff"]) (use sent p r1 pre run in auto)
  next
    case no_persist
    show thesis
      by (rule failed [of "pre @ [CallPersist (checkpoint_of (rt_engine r1))]"])
        (use no_persist p pre in \<open>auto simp: is_send_def\<close>)
  next
    case no_resume
    show thesis
      by (rule failed [of "pre @ [CallPersist (checkpoint_of (rt_engine r1)), CallResume]"])
        (use no_resume p pre in \<open>auto simp: is_send_def\<close>)
  qed
  show thesis
  proof (cases res)
    case (Inl x)
    show thesis by (rule nothing) (use assms st run Inl in \<open>auto simp: routing_step_def\<close>)
  next
    case (Inr eff)
    from st Inr have "step now ev (rt_engine r) = (Inr eff, e)" by simp
    then show thesis
    proof (cases rule: step_effects)
      case changed
      have cm: "commit (eff_revision eff) True e
          = (Inr (no_effects\<lparr>eff_datagrams := e_held e\<rparr>), e\<lparr>e_pending := 0, e_held := []\<rparr>)"
        using changed rev by (simp add: commit_def)
      let ?a = "CallApply (route_snapshot e)"
      have step: "routing_step (trace_io outcome) now ev r w =
          (if outcome w ?a then routing_publish (trace_io outcome) (no_effects\<lparr>eff_datagrams := e_held e\<rparr>)
              (r\<lparr>rt_engine := e\<lparr>e_pending := 0, e_held := []\<rparr>\<rparr>) (w @ [?a])
           else routing_fail (trace_io outcome) IOError
              (r\<lparr>rt_engine := snd (commit (eff_revision eff) False e)\<rparr>) (w @ [?a]))"
        using run st Inr changed(1) rev cm
        by (simp add: routing_step_def Let_def trace_io_def trace_call_def)
      show thesis
      proof (cases "outcome w ?a")
        case True
        show thesis
          by (rule publish [of _ _ "[?a]" "e\<lparr>e_pending := 0, e_held := []\<rparr>"])
            (use assms(1) step True in \<open>simp_all add: route_snapshot_def\<close>)
      next
        case False
        show thesis
          by (rule failed [of "[?a]"])
            (use assms(1) step False in \<open>auto simp: trace_fail is_send_def\<close>)
      qed
    next
      case (quiet ds)
      have "routing_publish (trace_io outcome) eff (r\<lparr>rt_engine := e\<rparr>) w = (err, r', w')"
        using assms(1) run st Inr quiet(1) by (simp add: routing_step_def no_effects_def)
      then show thesis
        using publish [of eff "r\<lparr>rt_engine := e\<rparr>" "[]" e] quiet by simp
    qed
  qed
qed

text \<open>
  C3 (persist_before_send): in every history of a routing driver, whichever calls of the
  adapter fail, nothing is sent before a checkpoint has been persisted in that same step,
  after the new routes, if any, were applied; and the checkpoint is the engine's state at that
  moment, so a crash at any later point restarts with a history that covers every datagram
  already sent. A failed call is followed by \<open>Stop\<close>, nothing is sent, and the driver never
  makes another call.
\<close>

theorem persist_before_send:
  assumes "routing_reachable outcome r w" and "wf_event ev" and "e_revision (rt_engine r) \<noteq> - 1"
    and "routing_step (trace_io outcome) now ev r w = (err, r', w')"
  shows "\<exists>cs. w' = w @ cs \<and>
    (if err = None then
       \<exists>ds pre. cs = pre @ CallPersist (checkpoint_of (rt_engine r')) # CallResume # map CallSend ds
         \<and> (pre = [] \<and> route_snapshot (rt_engine r') = route_snapshot (rt_engine r)
             \<or> pre = [CallApply (route_snapshot (rt_engine r'))])
         \<and> (\<exists>e'. restore (e_cfg (rt_engine r')) (checkpoint_of (rt_engine r')) = Inr e'
             \<and> (\<forall>sk. map_of (e_sources e') sk = map_option
                  (restored_source (cfg_source_gc (e_cfg (rt_engine r'))))
                  (map_of (e_sources (rt_engine r')) sk)))
     else (\<forall>c \<in> set cs. \<not> is_send c) \<and> (cs \<noteq> [] \<longrightarrow> last cs = CallStop \<and> rt_stopped r'
       \<and> (\<forall>now ev w. routing_step (trace_io outcome) now ev r' w = (Some (EngineError ErrStopped), r', w))))"
proof -
  have "reachable (rt_engine r')"
    by (rule routing_step_engine [OF routing_reachable_engine [OF assms(1)] assms(2,4)])
  note rs = restore_checkpoint [OF this]
  from assms(4,3) show ?thesis
  proof (cases rule: routing_step_calls)
    case nothing
    then show ?thesis by (intro exI [of _ "[]"]) simp
  next
    case (failed cs)
    then show ?thesis by (intro exI [of _ "cs @ [CallStop]"]) (auto simp: is_send_def routing_step_def)
  next
    case (published pre ds)
    show ?thesis
      by (rule exI [of _ "pre @ CallPersist (checkpoint_of (rt_engine r')) # CallResume # map CallSend ds"])
        (use published rs in auto)
  qed
qed

end
