(* ===== verification/Babel_Witness.thy ===== *)
theory Babel_Witness
  imports Mesh_Routing
begin

section \<open>Sample runs\<close>

text \<open>
  Three engines that the API produces: a new one, one restored from a checkpoint with a
  source and a drop, and one that has sent its first datagram on a new link. The theorems
  about reachable engines are instantiated at them.
\<close>

definition sample_start :: engine where
  "sample_start = \<lparr>e_cfg = sample_config, e_now = 0, e_seq = 0, e_rng = 7,
     e_last_link = 0, e_links = [], e_routes = [],
     e_sources = [], e_local = [], e_selected = [], e_drops = [], e_requests = [],
     e_out = [], e_revision = 0, e_pending = 0, e_held = [], e_stopped = False,
     e_counters = \<lparr>c_received = 0, c_malformed = 0, c_stale = 0, c_rejected = 0, c_sent = 0\<rparr>,
     e_trigger_at = 0, e_trigger = False, e_repeats = 0\<rparr>"

definition sample_checkpoint :: checkpoint where
  "sample_checkpoint = \<lparr>cp_version = 1, cp_router_id = 7, cp_seqno = 4, cp_last_link = 1,
     cp_source_hold = seconds 180, cp_drop_hold = seconds 56,
     cp_sources = [\<lparr>sh_prefix = net6, sh_router_id = 9, sh_seqno = 5, sh_metric = 20\<rparr>],
     cp_drops = [net4]\<rparr>"

definition sample_restored :: engine where
  "sample_restored = sample_start\<lparr>e_cfg := sample_config\<lparr>cfg_initial_seqno := 4\<rparr>, e_seq := 4,
     e_last_link := 1,
     e_sources := [((net6, 9), \<lparr>s_seq = 5, s_metric = 20, s_expires = seconds 180\<rparr>)],
     e_drops := [(net4, seconds 56)]\<rparr>"

lemma sample_new: "new_engine sample_config = Inr sample_start"
  by (simp add: new_engine_def sample_start_def check_config_again [OF sample_cfg_ok])
    (simp add: sample_config_def)


lemma sample_restore: "restore sample_config sample_checkpoint = Inr sample_restored"
proof -
  have ok: "cfg_ok (sample_config\<lparr>cfg_source_gc := seconds 180, cfg_initial_seqno := 4\<rparr>)"
    by (simp add: cfg_ok_def sample_config_def valid_id_def bad_interval_def seconds_def millis_def
        hold_def)
  have v: "valid_prefix net4" "valid_prefix net6" by code_simp+
  have "cfg_source_gc sample_config = seconds 180" by (simp add: sample_config_def)
  then show ?thesis using v
    by (simp add: restore_def sample_checkpoint_def new_engine_def check_config_again [OF ok] valid_id_def
        sample_restored_def sample_start_def)
      (simp add: sample_config_def seconds_def hold_def infinity_def)
qed


lemma sample_tick:
  "route_snapshot (snd (flush_out (run now Tick sample_restored))) =
     (if now < seconds 56 then [drop_route net4] else [])"
  "e_revision (snd (flush_out (run now Tick sample_restored))) = 0"
  by (simp_all add: route_snapshot_def run_def expire_def expire_routes_def m_keys_def m_adj_def
      sample_restored_def sample_start_def select_routes_def add_drops_def
      select_candidates_def local_next_def kept_drops_def)

definition sample_linked :: engine where
  "sample_linked = sample_start\<lparr>e_last_link := 1,
     e_links := [(1, new_link_state sample_start sample_link)],
     e_out := [(1, [(zero_msg T_REQUEST)\<lparr>m_wildcard := True\<rparr>])]\<rparr>"

lemma sample_selected:
  "select_routes (handle_event (AddLink sample_link) (expire (sample_start\<lparr>e_now := 0\<rparr>))) =
     sample_linked"
  by (simp add: expire_def expire_routes_def sample_start_def sample_link_def queue_msg_def
      m_keys_def select_routes_def select_candidates_def local_next_def route_snapshot_def
      add_drops_def kept_drops_def new_link_state_def m_adj_def sample_linked_def)


lemma jitter_rng: "snd (jitter d e) = e\<lparr>e_rng := xorshift (e_rng e)\<rparr>"
  by (simp add: jitter_def Let_def)

lemma sample_timers:
  "\<exists>l. e_links (timers sample_linked) = [(1, l)] \<and> ls_link l = sample_link"
  "e_out (timers sample_linked) = [(1, [(zero_msg T_REQUEST)\<lparr>m_wildcard := True\<rparr>,
     (zero_msg T_HELLO)\<lparr>m_interval := 400\<rparr>, (zero_msg T_IHU)\<lparr>m_metric := infinity, m_interval := 800\<rparr>])]"
  by (simp_all add: timers_def Let_def trigger_timer_def split_beta link_timers_def hello_timer_def ihu_timer_def
    update_timer_def jitter_rng upd_link_def sample_linked_def sample_start_def new_link_state_def m_keys_def m_adj_def queue_msg_def
    sample_link_def dump_def route_snapshot_def hello_interval_def sample_config_def centis_def seconds_def millis_def)

definition sample_datagram :: datagram where
  "sample_datagram = (1, [42, 2, 0, 20, 9, 2, 0, 0, 4, 6, 0, 0, 0, 0, 1, 144, 5, 6, 0, 0,
     255, 255, 3, 32])"

definition sample_after :: engine where
  "sample_after = snd (step 0 (AddLink sample_link) sample_start)"

lemma sample_step:
  "step 0 (AddLink sample_link) sample_start =
     (Inr (no_effects\<lparr>eff_datagrams := [sample_datagram]\<rparr>), sample_after)"
  "e_pending sample_after = 0" "e_stopped sample_after = False" 
proof -
  let ?e = "run 0 (AddLink sample_link) sample_start"
  have e: "?e = timers sample_linked" by (simp only: run_def sample_selected)
  obtain l where l: "e_links ?e = [(1, l)]" "ls_link l = sample_link"
    using sample_timers(1) e by auto
  have "pack [(zero_msg T_REQUEST)\<lparr>m_wildcard := True\<rparr>, (zero_msg T_HELLO)\<lparr>m_interval := 400\<rparr>,
      (zero_msg T_IHU)\<lparr>m_metric := infinity, m_interval := 800\<rparr>] 1200 = [snd sample_datagram]"
    by code_simp
  moreover have lp: "l_max_packet sample_link = 1200" by (simp add: sample_link_def)
  ultimately have "link_packets ?e 1 = [sample_datagram]"
    using l sample_timers(2) lp
    by (simp add: link_packets_def queue_of_def e [symmetric] sample_datagram_def)
  then have ds: "fst (flush_out ?e) = [sample_datagram]"
    using flush_fold [of "[1]" "[]" ?e] by (simp add: flush_out_def m_keys_def l)
  obtain p e2 where f: "flush_out ?e = (p, e2)" by (cases "flush_out ?e")
  have "validate sample_start (AddLink sample_link) = None" by code_simp
  then have "step_guards 0 (AddLink sample_link) sample_start"
    by (simp add: step_guards_def sample_start_def max_time_def seconds_def)
  note r = step_runs [OF this f]
  have e2: "e2 = snd (flush_out ?e)" by (simp add: f)
  have "route_snapshot e2 = route_snapshot sample_start" "e_pending e2 = 0" "e_stopped e2 = False"
    unfolding e2 route_snapshot_def flush_out_frame e timers_frame
    by (simp_all add: sample_linked_def sample_start_def)
  then have st: "step 0 (AddLink sample_link) sample_start =
      (Inr (no_effects\<lparr>eff_datagrams := p\<rparr>), e2)" "e_pending e2 = 0" "e_stopped e2 = False"
    using r by simp_all
  moreover have "p = [sample_datagram]" using ds f by simp
  ultimately show "step 0 (AddLink sample_link) sample_start =
     (Inr (no_effects\<lparr>eff_datagrams := [sample_datagram]\<rparr>), sample_after)"
    "e_pending sample_after = 0" "e_stopped sample_after = False"
    by (simp_all add: sample_after_def)
qed

lemma sample_reachable: "reachable sample_start" "reachable sample_restored" "reachable sample_after"
proof -
  show s: "reachable sample_start" by (rule reachable.new [OF sample_new])
  show "reachable sample_restored"
    by (rule reachable.restored [OF sample_restore])
      (simp add: wf_checkpoint_def sample_checkpoint_def net4_def net6_def)
  have "wf_event (AddLink sample_link)" by (simp add: sample_link_def)
  then show "reachable sample_after" unfolding sample_after_def by (rule reachable.stepped [OF s])
qed

subsection \<open>Instances of the properties\<close>

definition sample_messages :: "message list" where
  "sample_messages = [(zero_msg T_HELLO)\<lparr>m_seqno := 3, m_interval := 400\<rparr>,
     (zero_msg T_UPDATE)\<lparr>m_prefix := net6, m_router_id := 9, m_seqno := 5, m_metric := 20,
       m_interval := 1600\<rparr>,
     (zero_msg T_UPDATE)\<lparr>m_prefix := net4, m_metric := infinity, m_interval := 1600\<rparr>]"

lemma sample_messages_ok: "\<forall>m \<in> set sample_messages. wire_ok m"
  by (simp add: sample_messages_def wire_ok_def pfx_ok_def net4_def net6_def zero_msg_def
      masked_def valid_id_def infinity_def)

theorem pack_decode_witness:
  "\<exists>rs. map (\<lambda>p. decode p peer_addr) (pack sample_messages 64) = map Some rs
     \<and> map norm (concat rs) = map (canon peer_addr) sample_messages"
  using pack_decode [OF sample_messages_ok, of peer_addr 64] by (simp add: peer_addr_def)

theorem decode_sound_witness:
  "\<exists>m ms. decode (snd sample_datagram) peer_addr = Some (m # ms) \<and> decoded_ok m"
proof -
  have "\<not> Option.is_none (decode (snd sample_datagram) peer_addr)
      \<and> the (decode (snd sample_datagram) peer_addr) \<noteq> []" by code_simp
  then obtain m ms where "decode (snd sample_datagram) peer_addr = Some (m # ms)"
    by (auto simp: Option.is_none_def neq_Nil_conv)
  moreover from this have "decoded_ok m" by (rule decode_sound) simp
  ultimately show ?thesis by blast
qed

theorem tables_bounded_witness:
  "int (length (e_links sample_after)) \<le> cfg_max_links (e_cfg sample_after)
    \<and> int (length (e_sources sample_after)) \<le> cfg_max_sources (e_cfg sample_after)
    \<and> int (length (e_requests sample_after)) \<le> cfg_max_requests (e_cfg sample_after)
    \<and> int (length (e_routes sample_after) + length (e_local sample_after))
        \<le> cfg_max_routes (e_cfg sample_after)
    \<and> int (length (e_drops sample_after)) \<le> cfg_max_routes (e_cfg sample_after)
    \<and> int (length (e_selected sample_after)) \<le> cfg_max_routes (e_cfg sample_after)"
  by (rule tables_bounded [OF sample_reachable(3)])

theorem checkpoint_restores_witness:
  "\<exists>e'. restore (e_cfg sample_restored) (checkpoint_of sample_restored) = Inr e'
    \<and> map_of (e_sources e') (net6, 9) = Some \<lparr>s_seq = 5, s_metric = 20, s_expires = seconds 180\<rparr>
    \<and> map_of (e_drops e') net4 \<noteq> None \<and> map_of (e_drops e') net6 = None"
proof -
  have "map_of (e_sources sample_restored) (net6, 9)
      = Some \<lparr>s_seq = 5, s_metric = 20, s_expires = seconds 180\<rparr>"
    "map_of (e_drops sample_restored) net4 = Some (seconds 56)"
    "map_of (e_drops sample_restored) net6 = None" "map_of (e_selected sample_restored) p = None"
    "cfg_source_gc (e_cfg sample_restored) = seconds 180" for p
    by (simp_all add: sample_restored_def sample_start_def net4_def net6_def sample_config_def)
  note f = this
  obtain e' where e': "restore (e_cfg sample_restored) (checkpoint_of sample_restored) = Inr e'"
    and src: "\<forall>sk. map_of (e_sources e') sk =
         map_option (restored_source (cfg_source_gc (e_cfg sample_restored)))
           (map_of (e_sources sample_restored) sk)"
    and drp: "\<forall>p. map_of (e_drops sample_restored) p \<noteq> None \<or> map_of (e_selected sample_restored) p \<noteq> None
         \<longleftrightarrow> map_of (e_drops e') p \<noteq> None"
    using checkpoint_restores [OF sample_reachable(2)] by (elim exE conjE) simp
  show ?thesis
    using e' spec [OF src, of "(net6, 9)"] spec [OF drp, of net4] spec [OF drp, of net6] f
    by (simp add: restored_source_def)
qed

theorem history_survives_witness:
  "\<exists>s'. map_of (e_sources (snd (step (seconds 60) Tick sample_restored))) (net6, 9) = Some s'
    \<and> (s' = \<lparr>s_seq = 5, s_metric = 20, s_expires = seconds 180\<rparr>
       \<or> s_expires s' = seconds 60 + cfg_source_gc (e_cfg sample_restored))
    \<and> (newer (s_seq s') 5 \<or> s_seq s' = 5 \<and> s_metric s' \<le> 20)"
proof -
  have "seqs_met sample_restored Tick (net6, 9) = []"
    by (simp add: seqs_met_def received_def sample_restored_def sample_start_def sample_config_def)
  then have "\<exists>b. \<forall>q \<in> set ((5 :: u16) # seqs_met sample_restored Tick (net6, 9)). in_half b q"
    by (intro exI [of _ 5]) (simp add: in_half_def)
  moreover have "map_of (e_sources sample_restored) (net6, 9)
      = Some \<lparr>s_seq = 5, s_metric = 20, s_expires = seconds 180\<rparr>"
    by (simp add: sample_restored_def sample_start_def)
  ultimately show ?thesis
    using history_survives [OF sample_reachable(2), of Tick "(net6, 9)" _ "seconds 60"]
    by (simp add: seconds_def)
qed

theorem step_output_readable_witness:
  "\<exists>l ms. map_of (e_links sample_after) 1 = Some l
    \<and> int (length (snd sample_datagram)) \<le> l_max_packet (ls_link l)
    \<and> decode (snd sample_datagram) peer_addr = Some ms"
  by (rule step_output_readable [OF sample_reachable(1) _ sample_step(1)])
    (simp_all add: sample_datagram_def sample_link_def no_effects_def sample_step peer_addr_def)

theorem next_deadline_earliest_witness:
  "\<exists>d. next_deadline sample_restored = Some d \<and> 0 < d \<and> d \<le> seconds 56"
proof -
  have f: "e_now sample_restored = 0" "\<not> e_stopped sample_restored" "e_pending sample_restored = 0"
    "\<not> e_trigger sample_restored" "seconds 56 \<in> set (deadlines sample_restored)" "0 < seconds 56"
    by (simp_all add: sample_restored_def sample_start_def deadlines_def seconds_def)
  then show ?thesis
    using next_deadline_earliest [OF sample_reachable(2) f(2,3)]
    by (cases "next_deadline sample_restored") force+
qed

theorem step_transaction_witness:
  "\<exists>eff e'. step 0 Tick sample_restored = (Inr eff, e')
    \<and> eff_revision eff = 1 \<and> eff_routes eff = [drop_route net4] \<and> eff_datagrams eff = []
    \<and> step 1 Tick e' = (Inl ErrPending, e')
    \<and> fst (step 1 Tick (snd (commit 1 False e'))) = Inl ErrStopped"
proof -
  have "step_guards 0 Tick sample_restored"
    by (simp add: step_guards_def sample_restored_def sample_start_def max_time_def seconds_def)
  moreover obtain p e2 where f: "flush_out (run 0 Tick sample_restored) = (p, e2)"
    by (cases "flush_out (run 0 Tick sample_restored)")
  ultimately have st0: "step 0 Tick sample_restored =
    (if route_snapshot sample_restored \<noteq> route_snapshot e2
     then (Inr \<lparr>eff_revision = e_revision e2 + 1, eff_routes = route_snapshot e2,
             eff_datagrams = []\<rparr>,
           e2\<lparr>e_revision := e_revision e2 + 1, e_pending := e_revision e2 + 1, e_held := p\<rparr>)
     else (Inr (no_effects\<lparr>eff_datagrams := p\<rparr>), e2))"
    by (rule step_runs)
  have r2: "route_snapshot e2 = [drop_route net4]"
    using sample_tick(1) [of 0] f by (simp add: seconds_def)
  have init: "e_revision sample_restored = 0" "route_snapshot sample_restored = []"
    by (simp_all add: sample_restored_def sample_start_def route_snapshot_def)
  obtain eff e' where st: "step 0 Tick sample_restored = (Inr eff, e')"
    and r: "route_snapshot e' = [drop_route net4]"
    using st0 r2 init by (simp add: route_snapshot_def)
  from init show ?thesis
    using step_transaction [OF sample_reachable(2) st] st r by auto
qed

theorem leaf_packet_confined_witness:
  "map_of (e_routes (receive_packet 1 (snd sample_datagram) sample_engine)) (net6, 1) = Some sample_candidate"
proof -
  let ?own = "Pfx (V6 [0xfd, 1, 0, 0, 0, 0, 0, 0, 0, 0, 0, 0, 0, 0, 0, 1] '''') 128"
  have "Option.is_none (validate_leaf_packet (snd sample_datagram) peer_addr ?own)" by code_simp
  then have "validate_leaf_packet (snd sample_datagram) peer_addr ?own = None"
    by (simp add: Option.is_none_def)
  moreover have "map_of (e_links sample_engine) 1 = Some sample_link_state"
    "l_peer (ls_link sample_link_state) = peer_addr" "(net6, 1) \<noteq> (?own, 1 :: link_id)"
    by (simp_all add: sample_engine_def sample_link_state_def sample_link_def net6_def)
  ultimately have "map_of (e_routes (receive_packet 1 (snd sample_datagram) sample_engine)) (net6, 1)
      = map_of (e_routes sample_engine) (net6, 1)"
    by (rule leaf_packet_confined)
  then show ?thesis by (simp add: sample_engine_def)
qed

theorem advertise_records_witness:
  "\<exists>e s. map_of (e_selected e) net6 = Some (candidate_route net6 sample_candidate 116)
    \<and> map_of (e_sources (advertise 2 net6 False e)) (net6, 9) = Some s
    \<and> \<not> newer 5 (s_seq s) \<and> \<not> (5 = s_seq s \<and> 116 < s_metric s)
    \<and> s_expires s = e_now e + cfg_source_gc (e_cfg e)"
proof -
  let ?r = "candidate_route net6 sample_candidate 116"
  define e where "e = sample_engine\<lparr>e_selected := [(net6, ?r)],
     e_links := [(1, sample_link_state), (2, sample_link_state)]\<rparr>"
  have net6_not_4: "\<not> is4 (pfx_addr net6)" by (simp add: net6_def)
  have f: "map_of (e_links e) 2 = Some sample_link_state" "e_out e = []" "e_sources e = []"
    "map_of (e_selected e) net6 = Some ?r" "cfg_max_sources (e_cfg e) = 16384"
    by (simp_all add: e_def sample_engine_def sample_config_def)
  have q: "queue_of (advertise 2 net6 False e) 2 = queue_of e 2 @ [update_msg e ?r]"
    using f by (simp add: advertise_def candidate_route_def sample_candidate_def
        address_update_def queue_msg_def queue_of_def Let_def net6_not_4)
  have "finite_update (update_msg e ?r)"
    by (simp add: finite_update_def update_msg_def candidate_route_def infinity_def)
  from advertise_records [OF q this] show ?thesis using f(4)
    by (intro exI [of _ e]) (auto simp: update_msg_def candidate_route_def sample_candidate_def)
qed

theorem persist_before_send_witness:
  "\<exists>r' cs. routing_step (trace_io (\<lambda>_ _. True)) 0 (AddLink sample_link)
       \<lparr>rt_engine = sample_start, rt_stopped = False\<rparr> [] = (None, r', cs)
     \<and> cs \<noteq> [] \<and> hd cs = CallPersist (checkpoint_of (rt_engine r')) \<and> CallSend sample_datagram \<in> set cs"
proof -
  let ?r = "\<lparr>rt_engine = sample_start, rt_stopped = False\<rparr>"
  let ?io = "trace_io (\<lambda>_ _. True)"
  have start: "routing_reachable (\<lambda>_ _. True) ?r []"
    by (rule routing_reachable.start [where c = sample_config and st = None])
      (simp_all add: new_routing_def sample_new)
  have rev: "e_revision (rt_engine ?r) \<noteq> - 1" by (simp add: sample_start_def)
  have st: "routing_step ?io 0 (AddLink sample_link) ?r [] =
      (None, ?r\<lparr>rt_engine := sample_after\<rparr>, [CallPersist (checkpoint_of sample_after), CallResume,
        CallSend sample_datagram])"
    by (simp add: routing_step_def sample_step no_effects_def routing_publish_def trace_io_def
        trace_call_def)
  have "wf_event (AddLink sample_link)" by (simp add: sample_link_def)
  from persist_before_send [OF start this rev st] st show ?thesis by auto
qed

end
