(* ===== verification/Mesh_Packets.thy ===== *)
theory Mesh_Packets
  imports Babel_Codec
begin

section \<open>IP packets on a link: fragments and their assembly (localmesh/packets.go)\<close>

text \<open>
  A complete IP packet travels as one or two link datagrams. \<open>encode_ip\<close> is \<open>EncodeIP\<close>;
  \<open>assembler\<close> is the struct \<open>IPAssembler\<close> without its mutex, with \<open>receive_ip\<close>,
  \<open>expire_ip\<close> and \<open>discard_ip\<close> for its methods. Times are nanoseconds. The pending map is a
  Go map of theory \<open>Wendy_Prelude\<close>; the code ranges over it only to remove entries or to take
  a minimum. \<open>retirement\<close> is the bitmap that stops a retired packet ID from being reopened.
\<close>

abbreviation (input) tunnel_mtu :: nat where "tunnel_mtu \<equiv> 1320"
abbreviation (input) datagram_limit :: nat where "datagram_limit \<equiv> 1100"
abbreviation (input) whole_ip_limit :: nat where "whole_ip_limit \<equiv> 1329"
abbreviation (input) fragment_header :: nat where "fragment_header \<equiv> 9"
abbreviation (input) chunk_limit :: nat where "chunk_limit \<equiv> 1091"
abbreviation (input) PACKET_IP :: byte where "PACKET_IP \<equiv> 1"
abbreviation (input) ip_pending_limit :: nat where "ip_pending_limit \<equiv> 32"
abbreviation (input) ip_pending_bytes :: nat where "ip_pending_bytes \<equiv> 42240"
abbreviation (input) ip_lifetime :: int where "ip_lifetime \<equiv> 10000000000"
abbreviation (input) ip_window :: nat where "ip_window \<equiv> 1024"

subsection \<open>Encoding\<close>

definition u32_at :: "bytes \<Rightarrow> nat \<Rightarrow> u32" where
  "u32_at p i = be_val (take 4 (drop i p))"

definition valid_ip :: "bytes \<Rightarrow> bool" where
  "valid_ip p \<longleftrightarrow>
     20 \<le> length p \<and> length p \<le> tunnel_mtu \<and>
     (let version = drop_bit 4 (p ! 0) in
      if version = 4 then
        (let h = unat (p ! 0 AND 15) * 4 in
         20 \<le> h \<and> h \<le> length p \<and> unat (u16_at p 2) = length p)
      else if version = 6 then 40 \<le> length p \<and> unat (u16_at p 4) + 40 = length p
      else False)"

definition ip_fragment :: "u32 \<Rightarrow> bytes \<Rightarrow> nat \<Rightarrow> nat \<Rightarrow> bytes" where
  "ip_fragment pid p offset n =
     PACKET_IP # be_bytes 4 pid @ be_bytes 2 (word_of_nat (length p) :: u16)
       @ be_bytes 2 (word_of_nat offset :: u16) @ take n (drop offset p)"

function ip_fragments :: "u32 \<Rightarrow> bytes \<Rightarrow> nat \<Rightarrow> bytes list" where
  "ip_fragments pid p offset =
     (if offset < length p then
        (let n = min chunk_limit (length p - offset)
         in ip_fragment pid p offset n # ip_fragments pid p (offset + n))
      else [])"
  by pat_completeness auto
termination by (relation "measure (\<lambda>(pid, p, offset). length p - offset)") auto

declare ip_fragments.simps [simp del]

definition encode_ip :: "u32 \<Rightarrow> bytes \<Rightarrow> bytes list option" where
  "encode_ip pid p = (if valid_ip p then Some (ip_fragments pid p 0) else None)"

subsection \<open>Retired packet IDs\<close>

record retirement =
  re_initialized :: bool
  re_newest :: u32
  re_bits :: "u64 list"

definition re_slot :: "u32 \<Rightarrow> nat" where
  "re_slot pid = unat (pid mod 1024)"

definition re_bit :: "u64 list \<Rightarrow> nat \<Rightarrow> bool" where
  "re_bit bits slot \<longleftrightarrow> bits ! (slot div 64) AND push_bit (slot mod 64) 1 \<noteq> 0"

definition re_clear :: "nat \<Rightarrow> u64 list \<Rightarrow> u64 list" where
  "re_clear slot bits =
     bits[slot div 64 := bits ! (slot div 64) AND NOT (push_bit (slot mod 64) 1)]"

definition re_set :: "nat \<Rightarrow> u64 list \<Rightarrow> u64 list" where
  "re_set slot bits = bits[slot div 64 := bits ! (slot div 64) OR push_bit (slot mod 64) 1]"

definition re_advance :: "u32 \<Rightarrow> retirement \<Rightarrow> retirement" where
  "re_advance pid r =
     (if \<not> re_initialized r then r\<lparr>re_initialized := True, re_newest := pid\<rparr>
      else
        (let delta = pid - re_newest r in
         if delta \<noteq> 0 \<and> delta < 0x80000000 then
           r\<lparr>re_bits := (if 1024 \<le> delta then replicate 16 0
               else fold (\<lambda>step. re_clear (re_slot (re_newest r + word_of_nat step)))
                      [1..<Suc (unat delta)] (re_bits r)),
             re_newest := pid\<rparr>
         else r))"

definition admit :: "u32 \<Rightarrow> retirement \<Rightarrow> bool \<times> retirement" where
  "admit pid r =
     (let r = re_advance pid r in
      (\<not> 1024 \<le> re_newest r - pid \<and> \<not> re_bit (re_bits r) (re_slot pid), r))"

definition retire :: "u32 \<Rightarrow> retirement \<Rightarrow> retirement" where
  "retire pid r =
     (if re_initialized r \<and> re_newest r - pid < 1024
      then r\<lparr>re_bits := re_set (re_slot pid) (re_bits r)\<rparr> else r)"

subsection \<open>The assembler\<close>

record partial_ip =
  pi_data :: bytes
  pi_first :: bool
  pi_second :: bool
  pi_expires :: int
  pi_order :: u64

record assembly_stats =
  st_fragments :: u64
  st_bytes :: u64
  st_whole :: u64
  st_reassembled :: u64
  st_duplicates :: u64
  st_retired :: u64
  st_expired :: u64
  st_evicted :: u64
  st_discarded :: u64
  st_invalid :: u64
  st_conflicting :: u64
  st_pending_packets :: nat
  st_pending_bytes :: int
  st_peak_bytes :: int
  st_packet_limit :: nat
  st_byte_limit :: nat
  st_lifetime_ms :: u64

record assembler =
  as_whole_ip :: bool
  as_pending :: "(u32, partial_ip) gomap"
  as_bytes :: int
  as_order :: u64
  as_retirement :: retirement
  as_stats :: assembly_stats
  as_published :: assembly_stats

datatype ip_error =
    InvalidDatagram
  | InvalidFragment
  | InvalidReassembled
  | ConflictingLength
  | ConflictingDuplicate

abbreviation tally :: "(assembly_stats \<Rightarrow> assembly_stats) \<Rightarrow> assembler \<Rightarrow> assembler" where
  "tally f a \<equiv> a\<lparr>as_stats := f (as_stats a)\<rparr>"

definition limits :: "assembly_stats \<Rightarrow> assembly_stats" where
  "limits s = s\<lparr>st_packet_limit := ip_pending_limit, st_byte_limit := ip_pending_bytes,
     st_lifetime_ms := word_of_int (ip_lifetime div 1000000)\<rparr>"

definition publish :: "assembler \<Rightarrow> assembler" where
  "publish a = a\<lparr>as_published := limits ((as_stats a)\<lparr>
     st_pending_packets := length (as_pending a), st_pending_bytes := as_bytes a\<rparr>)\<rparr>"

definition assembler_snapshot :: "assembler \<Rightarrow> assembly_stats" where
  "assembler_snapshot a = limits (as_published a)"

definition remove_ip :: "u32 \<Rightarrow> assembler \<Rightarrow> assembler" where
  "remove_ip pid a = a\<lparr>
     as_bytes := as_bytes a - (case map_of (as_pending a) pid of
       None \<Rightarrow> 0 | Some p \<Rightarrow> int (length (pi_data p))),
     as_pending := m_del pid (as_pending a),
     as_retirement := retire pid (as_retirement a)\<rparr>"

definition expired_ids :: "int \<Rightarrow> assembler \<Rightarrow> u32 list" where
  "expired_ids now a = map fst (filter (\<lambda>(pid, p). pi_expires p \<le> now) (as_pending a))"

definition expire_one :: "u32 \<Rightarrow> assembler \<Rightarrow> assembler" where
  "expire_one pid a = tally (\<lambda>s. s\<lparr>st_expired := st_expired s + 1\<rparr>) (remove_ip pid a)"

definition expire_ip :: "int \<Rightarrow> assembler \<Rightarrow> assembler" where
  "expire_ip now a =
     (let ids = expired_ids now a;
          a' = fold expire_one ids a
      in if ids \<noteq> [] then publish a' else a')"

definition next_expiry :: "assembler \<Rightarrow> int option" where
  "next_expiry a = fold (\<lambda>(pid, p) next.
       case next of None \<Rightarrow> Some (pi_expires p)
       | Some n \<Rightarrow> if pi_expires p < n then Some (pi_expires p) else next)
     (as_pending a) None"

definition discard_one :: "u32 \<Rightarrow> assembler \<Rightarrow> assembler" where
  "discard_one pid a = tally (\<lambda>s. s\<lparr>st_discarded := st_discarded s + 1\<rparr>) (remove_ip pid a)"

definition discard_ip :: "assembler \<Rightarrow> assembler" where
  "discard_ip a = publish (fold discard_one (m_keys (as_pending a)) a)"

text \<open>The scan for the oldest entry: \<open>order = 0\<close> stands for none found so far.\<close>

definition oldest_scan :: "u32 \<times> partial_ip \<Rightarrow> u32 \<times> u64 \<Rightarrow> u32 \<times> u64" where
  "oldest_scan kp best = (if snd best = 0 \<or> pi_order (snd kp) < snd best
     then (fst kp, pi_order (snd kp)) else best)"

definition evict_oldest :: "assembler \<Rightarrow> assembler" where
  "evict_oldest a = tally (\<lambda>s. s\<lparr>st_evicted := st_evicted s + 1\<rparr>)
     (remove_ip (fst (fold oldest_scan (as_pending a) (0, 0))) a)"

type_synonym ip_result = "ip_error + bytes option"

definition invalid_ip :: "ip_error \<Rightarrow> assembler \<Rightarrow> ip_result \<times> assembler" where
  "invalid_ip err a = (Inl err, tally (\<lambda>s. s\<lparr>st_invalid := st_invalid s + 1\<rparr>) a)"

definition conflict_ip :: "ip_error \<Rightarrow> u32 \<Rightarrow> assembler \<Rightarrow> ip_result \<times> assembler" where
  "conflict_ip err pid a =
     (Inl err, tally (\<lambda>s. s\<lparr>st_conflicting := st_conflicting s + 1\<rparr>) (remove_ip pid a))"

definition retired_ip :: "assembler \<Rightarrow> ip_result \<times> assembler" where
  "retired_ip a = (Inr None, tally (\<lambda>s. s\<lparr>st_retired := st_retired s + 1\<rparr>) a)"

text \<open>A packet in one datagram.\<close>

definition receive_whole :: "u32 \<Rightarrow> bytes \<Rightarrow> assembler \<Rightarrow> ip_result \<times> assembler" where
  "receive_whole pid payload a =
     (if \<not> valid_ip payload then invalid_ip InvalidReassembled a
      else
        (let (ok, r) = admit pid (as_retirement a);
             a = a\<lparr>as_retirement := r\<rparr>
         in if \<not> ok then retired_ip a
            else (Inr (Some payload), tally (\<lambda>s. s\<lparr>st_whole := st_whole s + 1\<rparr>)
              (a\<lparr>as_retirement := retire pid (as_retirement a)\<rparr>))))"

text \<open>A new entry for a fragmented packet; it is stored with its first piece.\<close>

definition open_partial :: "nat \<Rightarrow> int \<Rightarrow> assembler \<Rightarrow> partial_ip \<times> assembler" where
  "open_partial tot now a =
     (let a = (if ip_pending_limit \<le> length (as_pending a)
               \<or> int ip_pending_bytes < as_bytes a + int tot then evict_oldest a else a);
          a = a\<lparr>as_order := as_order a + 1\<rparr>;
          p = \<lparr>pi_data = replicate tot 0, pi_first = False, pi_second = False,
                pi_expires = now + ip_lifetime, pi_order = as_order a\<rparr>;
          a = a\<lparr>as_bytes := as_bytes a + int tot\<rparr>
      in (p, tally (\<lambda>s. s\<lparr>st_peak_bytes := max (st_peak_bytes s) (as_bytes a)\<rparr>) a))"

definition store_piece :: "u32 \<Rightarrow> nat \<Rightarrow> bytes \<Rightarrow> partial_ip \<Rightarrow> assembler \<Rightarrow> ip_result \<times> assembler" where
  "store_piece pid offset payload p a =
     (if (if offset \<noteq> 0 then pi_second p else pi_first p) then
        (if take (length payload) (drop offset (pi_data p)) \<noteq> payload
         then conflict_ip ConflictingDuplicate pid a
         else (Inr None, tally (\<lambda>s. s\<lparr>st_duplicates := st_duplicates s + 1\<rparr>) a))
      else
        (let p = p\<lparr>pi_data := overlay offset payload (pi_data p)\<rparr>;
             p = (if offset = 0 then p\<lparr>pi_first := True\<rparr> else p\<lparr>pi_second := True\<rparr>);
             a = a\<lparr>as_pending := m_put pid p (as_pending a)\<rparr>
         in if pi_first p \<and> pi_second p then
              (let a = remove_ip pid a in
               if \<not> valid_ip (pi_data p) then invalid_ip InvalidReassembled a
               else (Inr (Some (pi_data p)),
                 tally (\<lambda>s. s\<lparr>st_reassembled := st_reassembled s + 1\<rparr>) a))
            else (Inr None, a)))"

definition receive_piece :: "u32 \<Rightarrow> nat \<Rightarrow> nat \<Rightarrow> bytes \<Rightarrow> int \<Rightarrow> assembler \<Rightarrow> ip_result \<times> assembler" where
  "receive_piece pid tot offset payload now a =
     (case map_of (as_pending a) pid of
        Some p \<Rightarrow> store_piece pid offset payload p a
      | None \<Rightarrow>
          (let (ok, r) = admit pid (as_retirement a);
               a = a\<lparr>as_retirement := r\<rparr>
           in if \<not> ok then retired_ip a
              else (let (p, a) = open_partial tot now a in store_piece pid offset payload p a)))"

definition bad_piece :: "bool \<Rightarrow> nat \<Rightarrow> nat \<Rightarrow> nat \<Rightarrow> bool" where
  "bad_piece whole tot offset n \<longleftrightarrow>
     tot < 20 \<or> tunnel_mtu < tot \<or>
     \<not> whole \<and> (offset \<noteq> 0 \<and> offset \<noteq> chunk_limit \<or> tot \<le> offset
       \<or> n \<noteq> min chunk_limit (tot - offset))"

definition receive_datagram :: "bytes \<Rightarrow> int \<Rightarrow> assembler \<Rightarrow> ip_result \<times> assembler" where
  "receive_datagram d now a =
     (let limit = (if as_whole_ip a then whole_ip_limit else datagram_limit) in
      if length d \<le> fragment_header \<or> limit < length d \<or> d ! 0 \<noteq> PACKET_IP
      then invalid_ip InvalidDatagram a
      else
        (let pid = u32_at d 1; tot = unat (u16_at d 5); offset = unat (u16_at d 7);
             payload = drop fragment_header d;
             whole = (as_whole_ip a \<and> offset = 0 \<and> length payload = tot)
         in if bad_piece whole tot offset (length payload) then invalid_ip InvalidFragment a
            else if (case map_of (as_pending a) pid of None \<Rightarrow> False
                     | Some p \<Rightarrow> length (pi_data p) \<noteq> tot \<or> whole)
              then conflict_ip ConflictingLength pid a
            else if tot \<le> chunk_limit \<or> whole then receive_whole pid payload a
            else receive_piece pid tot offset payload now a))"

definition receive_ip :: "bytes \<Rightarrow> int \<Rightarrow> assembler \<Rightarrow> ip_result \<times> assembler" where
  "receive_ip d now a =
     (let a = expire_ip now a;
          a = tally (\<lambda>s. s\<lparr>st_fragments := st_fragments s + 1,
                st_bytes := st_bytes s + word_of_nat (length d)\<rparr>) a;
          (res, a) = receive_datagram d now a
      in (res, publish a))"

definition zero_stats :: assembly_stats where
  "zero_stats = \<lparr>st_fragments = 0, st_bytes = 0, st_whole = 0, st_reassembled = 0,
     st_duplicates = 0, st_retired = 0, st_expired = 0, st_evicted = 0, st_discarded = 0,
     st_invalid = 0, st_conflicting = 0, st_pending_packets = 0, st_pending_bytes = 0,
     st_peak_bytes = 0, st_packet_limit = 0, st_byte_limit = 0, st_lifetime_ms = 0\<rparr>"

definition new_assembler :: "bool \<Rightarrow> assembler" where
  "new_assembler whole = \<lparr>as_whole_ip = whole, as_pending = [], as_bytes = 0, as_order = 0,
     as_retirement = \<lparr>re_initialized = False, re_newest = 0, re_bits = replicate 16 0\<rparr>,
     as_stats = zero_stats, as_published = zero_stats\<rparr>"

end
