(* ===== verification/Mesh_Assembly.thy ===== *)
theory Mesh_Assembly
  imports Mesh_Packets "HOL-Library.Multiset"
begin

section \<open>The IP assembler is correct\<close>

text \<open>
  Lemmas and properties of theory \<open>Mesh_Packets\<close>: the retirement bitmap behaves as a window of
  retired IDs across the wrap of the 32-bit ID space; the assembler keeps its accounting exact
  and bounded; fragmenting and reassembling is the identity; no ID is delivered twice.
\<close>

subsection \<open>Retirement\<close>

lemma re_bit_iff: "slot < 1024 \<Longrightarrow> re_bit bits slot \<longleftrightarrow> bit (bits ! (slot div 64)) (slot mod 64)"
  by (simp add: re_bit_def bit_iff_and_push_bit_not_eq_0)

lemma slot_split: "slot div 64 = s div 64 \<and> slot mod 64 = s mod 64 \<longleftrightarrow> slot = (s :: nat)"
  by (metis div_mult_mod_eq)

lemma re_bit_set:
  assumes "length bits = 16" and "s < 1024" and "t < 1024"
  shows "re_bit (re_set s bits) t \<longleftrightarrow> t = s \<or> re_bit bits t"
  using assms slot_split [of t s]
  by (auto simp: re_bit_iff re_set_def nth_list_update bit_simps)

lemma re_bit_clear:
  assumes "length bits = 16" and "s < 1024" and "t < 1024"
  shows "re_bit (re_clear s bits) t \<longleftrightarrow> t \<noteq> s \<and> re_bit bits t"
  using assms slot_split [of t s]
  by (auto simp: re_bit_iff re_clear_def nth_list_update bit_simps)

lemma length_re_set [simp]: "length (re_set s bits) = length bits"
  by (simp add: re_set_def)

lemma length_re_clear [simp]: "length (re_clear s bits) = length bits"
  by (simp add: re_clear_def)

lemma re_slot_less [simp]: "re_slot q < 1024"
  by (simp add: re_slot_def unat_mod)

lemma fold_re_clear:
  "length bits = 16 \<Longrightarrow> t < 1024 \<Longrightarrow>
   length (fold (\<lambda>x. re_clear (re_slot (f x))) xs bits) = 16
   \<and> (re_bit (fold (\<lambda>x. re_clear (re_slot (f x))) xs bits) t \<longleftrightarrow>
       (\<forall>x \<in> set xs. re_slot (f x) \<noteq> t) \<and> re_bit bits t)"
proof (induction xs arbitrary: bits)
  case (Cons x xs)
  show ?case
    using Cons.IH [of "re_clear (re_slot (f x)) bits"] Cons.prems
      re_bit_clear [OF Cons.prems(1) re_slot_less Cons.prems(2), of "f x"]
    by auto
qed simp

lemma re_slot_eq: "re_slot a = re_slot b \<longleftrightarrow> unat (a - b) mod 1024 = 0"
proof -
  have i: "int (unat w mod 1024) = uint w mod 1024" for w :: u32
    by (simp add: zmod_int)
  have "uint (a - b) mod 1024 = (uint a - uint b) mod 1024"
    by (simp add: uint_word_ariths mod_mod_cancel)
  moreover have "(uint a - uint b) mod 1024 = 0 \<longleftrightarrow> uint a mod 1024 = uint b mod 1024"
    by (simp add: mod_eq_dvd_iff dvd_eq_mod_eq_0)
  ultimately have "uint (a - b) mod 1024 = 0 \<longleftrightarrow> uint a mod 1024 = uint b mod 1024"
    by (simp only:)
  moreover have "unat (a - b) mod 1024 = 0 \<longleftrightarrow> int (unat (a - b) mod 1024) = 0" by linarith
  moreover have "re_slot a = re_slot b \<longleftrightarrow> int (unat a mod 1024) = int (unat b mod 1024)"
    by (simp only: re_slot_def unat_mod of_nat_eq_iff) simp
  ultimately show ?thesis unfolding i by simp
qed

text \<open>
  An ID is gone at distance \<open>k\<close> behind the newest: it is retired, or the window has moved past it.
\<close>

definition gone :: "u32 \<Rightarrow> nat \<Rightarrow> retirement \<Rightarrow> bool" where
  "gone q k r \<longleftrightarrow> re_initialized r \<and> length (re_bits r) = 16
     \<and> unat (re_newest r - q) = k \<and> (k < 1024 \<longrightarrow> re_bit (re_bits r) (re_slot q))"

lemma gone_advance:
  assumes g: "gone q k r" and d: "d = unat (re_newest (re_advance x r) - re_newest r)"
    and bound: "k + d \<le> 2 ^ 31"
  shows "gone q (k + d) (re_advance x r)"
proof -
  define delta where "delta = x - re_newest r"
  note [simp] = g [unfolded gone_def, THEN conjunct1]
  show ?thesis
  proof (cases "delta \<noteq> 0 \<and> delta < 0x80000000")
    case False
    then have "re_advance x r = r" by (auto simp: re_advance_def Let_def delta_def)
    then show ?thesis using g d by simp
  next
    case True
    define bits where "bits = (if 1024 \<le> delta then replicate 16 0
        else fold (\<lambda>step. re_clear (re_slot (re_newest r + word_of_nat step)))
          [1..<Suc (unat delta)] (re_bits r))"
    have adv: "re_advance x r = r\<lparr>re_bits := bits, re_newest := x\<rparr>"
      using True by (simp add: re_advance_def Let_def delta_def bits_def)
    have dd: "unat delta = d" using d adv by (simp add: delta_def)
    have len: "length (re_bits r) = 16" and k: "unat (re_newest r - q) = k"
      and set: "k < 1024 \<Longrightarrow> re_bit (re_bits r) (re_slot q)"
      using g by (auto simp: gone_def)
    have xk: "unat (x - q) = k + d"
      using unat_word_ariths(1) [of delta "re_newest r - q"] dd k bound by (simp add: delta_def)
    have "re_bit bits (re_slot q)" if w: "k + d < 1024"
    proof -
      have "\<not> 1024 \<le> delta" using w dd by (simp add: word_le_nat_alt)
      moreover have "re_slot (re_newest r + word_of_nat s) \<noteq> re_slot q"
        if "s \<in> set [1..<Suc (unat delta)]" for s
      proof -
        have s: "0 < s" "s \<le> d" using that dd by auto
        have "unat (word_of_nat s + (re_newest r - q)) = s + k"
          using s w k by (simp only: unat_word_ariths(1)) (simp add: unat_of_nat)
        then have "unat (re_newest r + word_of_nat s - q) = s + k" by (simp add: algebra_simps)
        then show ?thesis using s w by (simp add: re_slot_eq)
      qed
      ultimately show ?thesis
        using fold_re_clear [OF len re_slot_less, of "\<lambda>s. re_newest r + word_of_nat s"
            "[1..<Suc (unat delta)]" q] set w
        unfolding bits_def by (simp del: upt_Suc)
    qed
    moreover have "length bits = 16"
      using fold_re_clear [OF len re_slot_less, of "\<lambda>s. re_newest r + word_of_nat s"
          "[1..<Suc (unat delta)]" q] unfolding bits_def by (simp del: upt_Suc)
    ultimately show ?thesis using xk by (simp add: gone_def adv)
  qed
qed

lemma unat_neg_32: "(x :: u32) \<noteq> 0 \<Longrightarrow> unat (- x) = 2 ^ 32 - unat x"
  using unat_sub_if_size [of 0 x] by (simp add: word_size unat_eq_0)

lemma gone_refused:
  assumes "gone q k r" and "k \<le> 2 ^ 31"
  shows "admit q r = (False, r)"
proof -
  have g: "re_initialized r" "unat (re_newest r - q) = k"
    "k < 1024 \<Longrightarrow> re_bit (re_bits r) (re_slot q)" using assms(1) by (auto simp: gone_def)
  have "\<not> (q - re_newest r \<noteq> 0 \<and> q - re_newest r < 0x80000000)"
  proof (cases "k = 0")
    case True
    then show ?thesis using g(2) by (simp add: unat_eq_0)
  next
    case False
    have "unat (- (re_newest r - q)) = 2 ^ 32 - k"
      using False g(2) unat_neg_32 [of "re_newest r - q"] by fastforce
    then have "unat (q - re_newest r) = 2 ^ 32 - k" by simp
    then have "\<not> unat (q - re_newest r) < 2147483648" using assms(2) by simp
    then show ?thesis by (simp add: word_less_nat_alt)
  qed
  then have adv: "re_advance q r = r" using g(1) by (auto simp: re_advance_def Let_def)
  have "1024 \<le> re_newest r - q \<or> re_bit (re_bits r) (re_slot q)"
    using g by (cases "k < 1024") (auto simp: word_le_nat_alt)
  then show ?thesis by (auto simp: admit_def adv)
qed

subsection \<open>The assembler's invariant\<close>

text \<open>
  Every pending entry is a packet too big for one datagram, of which exactly one half is
  there, and lives at most the lifetime from \<open>now\<close>; the byte tally is the sum of the declared
  sizes.
\<close>

definition piece_size :: "partial_ip \<Rightarrow> int" where
  "piece_size p = int (length (pi_data p))"

definition big_packet :: "partial_ip \<Rightarrow> bool" where
  "big_packet p \<longleftrightarrow> chunk_limit < length (pi_data p) \<and> length (pi_data p) \<le> tunnel_mtu"

definition partial_ok :: "int \<Rightarrow> partial_ip \<Rightarrow> bool" where
  "partial_ok now p \<longleftrightarrow> big_packet p \<and> pi_first p \<noteq> pi_second p \<and> pi_expires p \<le> now + ip_lifetime"

definition assembler_ok :: "int \<Rightarrow> assembler \<Rightarrow> bool" where
  "assembler_ok now a \<longleftrightarrow> m_all (\<lambda>_. partial_ok now) (as_pending a)
     \<and> as_bytes a = m_sum piece_size (as_pending a)
     \<and> length (as_pending a) \<le> ip_pending_limit
     \<and> length (re_bits (as_retirement a)) = 16
     \<and> (as_pending a \<noteq> [] \<longrightarrow> re_initialized (as_retirement a))"

lemma assembler_ok_frame [simp]:
  "assembler_ok now (a\<lparr>as_stats := s\<rparr>) = assembler_ok now a"
  "assembler_ok now (a\<lparr>as_order := n\<rparr>) = assembler_ok now a"
  "assembler_ok now (publish a) = assembler_ok now a"
  by (simp_all add: assembler_ok_def publish_def)

lemma assembler_ok_mono: "assembler_ok now a \<Longrightarrow> now \<le> now' \<Longrightarrow> assembler_ok now' a"
  by (auto simp: assembler_ok_def partial_ok_def intro: m_all_mono)

lemma length_fold_re_clear [simp]:
  "length (fold (\<lambda>x. re_clear (f x)) xs bits) = length bits"
  by (induction xs arbitrary: bits) simp_all

lemma length_re_advance [simp]:
  "length (re_bits r) = 16 \<Longrightarrow> length (re_bits (re_advance q r)) = 16"
  by (simp add: re_advance_def Let_def del: upt_Suc)

lemma retire_frame [simp]:
  "length (re_bits (retire q r)) = length (re_bits r)"
  "re_initialized (retire q r) = re_initialized r" "re_newest (retire q r) = re_newest r"
  by (simp_all add: retire_def)

lemma re_advance_initialized [simp]: "re_initialized (re_advance q r)"
  by (simp add: re_advance_def Let_def)

lemma remove_ip_frame [simp]:
  "as_pending (remove_ip q a) = m_del q (as_pending a)"
  "as_retirement (remove_ip q a) = retire q (as_retirement a)"
  "as_whole_ip (remove_ip q a) = as_whole_ip a"
  by (simp_all add: remove_ip_def)

lemma remove_ip_bytes:
  "as_bytes (remove_ip q a) = as_bytes a - m_val piece_size (as_pending a) q"
  by (simp add: remove_ip_def m_val_def piece_size_def split: option.split)

lemma remove_ip_ok:
  assumes "assembler_ok now a"
  shows "assembler_ok now (remove_ip q a)"
  using assms length_m_del_le [of "as_pending a" q] m_all_m_ok [of _ "as_pending a"]
  by (auto simp: assembler_ok_def remove_ip_bytes m_sum_del m_val_def intro: m_all_del)

lemma fold_oldest:
  assumes "m \<noteq> []"
  shows "fst (fold oldest_scan m (q, 0)) \<in> fst ` set m"
proof -
  have scan: "fst (fold oldest_scan xs best) \<in> insert (fst best) (fst ` set xs)" for xs best
    by (induction xs arbitrary: best) (force simp: oldest_scan_def)+
  obtain e xs where m: "m = e # xs" using assms by (cases m) auto
  have "fold oldest_scan m (q, 0) = fold oldest_scan xs (fst e, pi_order (snd e))"
    by (simp add: m oldest_scan_def)
  then show ?thesis using scan [of xs "(fst e, pi_order (snd e))"] by (simp add: m)
qed

lemma evict_oldest_ok:
  assumes "assembler_ok now a" and "as_pending a \<noteq> []"
  shows "assembler_ok now (evict_oldest a)
    \<and> length (as_pending (evict_oldest a)) < length (as_pending a)"
proof -
  have "map_of (as_pending a) (fst (fold oldest_scan (as_pending a) (0, 0))) \<noteq> None"
    using fold_oldest [OF assms(2), of 0] by (simp add: map_of_eq_None_iff)
  then show ?thesis
    using assms remove_ip_ok by (simp add: evict_oldest_def length_m_del_less)
qed

lemma assembler_bytes_le:
  assumes "assembler_ok now a"
  shows "0 \<le> as_bytes a \<and> as_bytes a \<le> 1320 * int (length (as_pending a))"
  using assms m_sum_le [of "as_pending a" piece_size 1320] m_sum_nonneg [of "as_pending a" piece_size]
  by (auto simp: assembler_ok_def m_all_def partial_ok_def big_packet_def piece_size_def)

text \<open>
  The state while a piece is being stored: the entry \<open>p\<close> is accounted for, but it is in the
  map only if it has received a piece before.
\<close>

definition storing :: "int \<Rightarrow> u32 \<Rightarrow> partial_ip \<Rightarrow> assembler \<Rightarrow> bool" where
  "storing now q p a \<longleftrightarrow> m_all (\<lambda>_. partial_ok now) (as_pending a)
     \<and> as_bytes a = m_sum piece_size (m_put q p (as_pending a))
     \<and> length (m_put q p (as_pending a)) \<le> ip_pending_limit
     \<and> length (re_bits (as_retirement a)) = 16 \<and> re_initialized (as_retirement a)
     \<and> big_packet p \<and> pi_expires p \<le> now + ip_lifetime \<and> \<not> (pi_first p \<and> pi_second p)
     \<and> (pi_first p \<or> pi_second p \<longrightarrow> map_of (as_pending a) q = Some p)"

lemma storing_pending:
  assumes "assembler_ok now a" and "map_of (as_pending a) q = Some p"
  shows "storing now q p a"
  using assms m_put_same [OF m_all_m_ok, of _ "as_pending a" q p]
    m_all_get [of "\<lambda>_. partial_ok now" "as_pending a" q p]
  by (auto simp: assembler_ok_def storing_def partial_ok_def)

lemma storing_open:
  assumes a: "assembler_ok now a" and q: "map_of (as_pending a) q = None"
    and i: "re_initialized (as_retirement a)"
    and tot: "chunk_limit < tot" "tot \<le> tunnel_mtu" and o: "open_partial tot now a = (p, a')"
  shows "storing now q p a' \<and> length (pi_data p) = tot \<and> \<not> pi_first p \<and> \<not> pi_second p
    \<and> pi_expires p = now + ip_lifetime"
proof -
  define full where "full = (ip_pending_limit \<le> length (as_pending a)
    \<or> int ip_pending_bytes < as_bytes a + int tot)"
  define b where "b = (if full then evict_oldest a else a)"
  have "as_pending a \<noteq> []" if full
    using that assembler_bytes_le [OF a] tot by (auto simp: full_def)
  then have b: "assembler_ok now b" "length (as_pending b) < ip_pending_limit"
    "re_initialized (as_retirement b)"
    using a evict_oldest_ok [OF a] i
    by (auto simp: b_def full_def assembler_ok_def evict_oldest_def)
  have bq: "map_of (as_pending b) q = None"
    using q by (simp add: b_def evict_oldest_def)
  have "open_partial tot now a =
      (\<lparr>pi_data = replicate tot 0, pi_first = False, pi_second = False,
         pi_expires = now + ip_lifetime, pi_order = as_order b + 1\<rparr>,
       b\<lparr>as_order := as_order b + 1, as_bytes := as_bytes b + int tot,
         as_stats := (as_stats b)\<lparr>st_peak_bytes :=
           max (st_peak_bytes (as_stats b)) (as_bytes b + int tot)\<rparr>\<rparr>)"
    unfolding open_partial_def full_def [symmetric] b_def [symmetric] Let_def by simp
  then show ?thesis
    using o b bq tot length_m_put_le [of "as_pending b" q p] m_all_m_ok [of _ "as_pending b"]
    by (auto simp: storing_def assembler_ok_def big_packet_def m_sum_put m_val_def piece_size_def)
qed

lemma length_overlay_fits:
  "i + length xs \<le> length ys \<Longrightarrow> length (overlay i xs ys) = length ys"
  by (simp add: overlay_def)

lemma store_piece_ok:
  assumes s: "storing now q p a" and fits: "offset + length payload \<le> length (pi_data p)"
    and st: "store_piece q offset payload p a = (res, a')"
  shows "assembler_ok now a' \<and> (\<forall>x. res = Inr (Some x) \<longrightarrow> valid_ip x)"
proof -
  define half where "half = (if offset \<noteq> 0 then pi_second p else pi_first p)"
  have here: "assembler_ok now a" if "half"
    using that s m_put_same [of "as_pending a" q p]
    by (auto simp: half_def storing_def assembler_ok_def split: if_splits)
  define p1 where "p1 = p\<lparr>pi_data := overlay offset payload (pi_data p)\<rparr>"
  define p2 where "p2 = (if offset = 0 then p1\<lparr>pi_first := True\<rparr> else p1\<lparr>pi_second := True\<rparr>)"
  define a2 where "a2 = a\<lparr>as_pending := m_put q p2 (as_pending a)\<rparr>"
  have sz: "length (pi_data p2) = length (pi_data p)"
    using fits by (simp add: p2_def p1_def length_overlay_fits)
  have ok: "m_ok (as_pending a)" using s by (auto simp: storing_def)
  have len: "length (m_put q p2 (as_pending a)) = length (m_put q p (as_pending a))"
    by (cases "map_of (as_pending a) q")
      (use ok in \<open>simp_all add: length_m_put_present length_m_put_absent\<close>)
  have stored: "store_piece q offset payload p a =
      (if pi_first p2 \<and> pi_second p2 then
         (let b = remove_ip q a2 in
          if \<not> valid_ip (pi_data p2) then invalid_ip InvalidReassembled b
          else (Inr (Some (pi_data p2)), tally (\<lambda>s. s\<lparr>st_reassembled := st_reassembled s + 1\<rparr>) b))
       else (Inr None, a2))" if "\<not> half"
    using that
    unfolding store_piece_def half_def [symmetric] p1_def [symmetric] p2_def [symmetric]
      a2_def [symmetric] Let_def by simp
  have a2: "as_bytes a2 = m_sum piece_size (as_pending a2)" "length (as_pending a2) \<le> ip_pending_limit"
    "length (re_bits (as_retirement a2)) = 16"
    "re_initialized (as_retirement a2)"
    using s ok sz len by (simp_all add: a2_def storing_def m_sum_put piece_size_def)
  have removed: "assembler_ok now (remove_ip q a2)"
  proof -
    have "m_all (\<lambda>_. partial_ok now) (m_del q (as_pending a2))"
    proof -
      have "m_del q (as_pending a2) = m_del q (as_pending a)"
      proof -
        have "map_of (m_del q (as_pending a2)) = map_of (m_del q (as_pending a))"
          by (simp add: a2_def)
        moreover have "m_ok (m_del q (as_pending a2))" "m_ok (m_del q (as_pending a))"
          using ok by (auto simp: a2_def)
        ultimately show ?thesis by (rule m_ok_ext)
      qed
      then show ?thesis using s by (auto simp: storing_def)
    qed
    then show ?thesis
      using a2 ok length_m_del_le [of "as_pending a2" q]
      by (auto simp: assembler_ok_def remove_ip_bytes m_sum_del a2_def)
  qed
  have half_done: "assembler_ok now a2" if "\<not> half" "\<not> (pi_first p2 \<and> pi_second p2)"
  proof -
    have "partial_ok now p2"
      using s sz that by (auto simp: storing_def partial_ok_def big_packet_def p2_def p1_def half_def)
    then have "m_all (\<lambda>_. partial_ok now) (as_pending a2)"
      using s by (auto simp: a2_def storing_def)
    then show ?thesis using a2 by (simp add: assembler_ok_def)
  qed
  show ?thesis
  proof (cases half)
    case True
    then show ?thesis
      using st here [OF True] remove_ip_ok [OF here [OF True]] unfolding store_piece_def half_def [symmetric]
      by (auto simp: conflict_ip_def split: if_splits)
  next
    case False
    then show ?thesis
      using st removed half_done [OF False] unfolding stored [OF False]
      by (auto simp: invalid_ip_def Let_def split: if_splits)
  qed
qed

lemma admit_frame [simp]:
  "length (re_bits r) = 16 \<Longrightarrow> length (re_bits (snd (admit q r))) = 16"
  "re_initialized (snd (admit q r))"
  by (simp_all add: admit_def Let_def)

lemma assembler_ok_retirement:
  "assembler_ok now a \<Longrightarrow> length (re_bits r) = 16 \<Longrightarrow> re_initialized r
   \<Longrightarrow> assembler_ok now (a\<lparr>as_retirement := r\<rparr>)"
  by (simp add: assembler_ok_def)

lemma receive_whole_ok:
  assumes "assembler_ok now a" and "receive_whole q payload a = (res, a')"
  shows "assembler_ok now a' \<and> (\<forall>x. res = Inr (Some x) \<longrightarrow> valid_ip x)"
proof -
  obtain ok r where ad: "admit q (as_retirement a) = (ok, r)" by fastforce
  have r: "length (re_bits r) = 16" "re_initialized r"
    using assms(1) admit_frame(1) [of "as_retirement a" q] admit_frame(2) [of q "as_retirement a"] ad by (simp_all add: assembler_ok_def)
  have b: "assembler_ok now (a\<lparr>as_retirement := r\<rparr>)"
    "assembler_ok now (a\<lparr>as_retirement := retire q r\<rparr>)"
    using assms(1) r by (simp_all add: assembler_ok_retirement)
  show ?thesis
    using assms b by (auto simp: receive_whole_def invalid_ip_def retired_ip_def ad Let_def split: if_splits)
qed

lemma receive_piece_ok:
  assumes a: "assembler_ok now a" and tot: "chunk_limit < tot" "tot \<le> tunnel_mtu"
    and fits: "offset + length payload \<le> tot"
    and len: "\<And>p. map_of (as_pending a) q = Some p \<Longrightarrow> length (pi_data p) = tot"
    and rc: "receive_piece q tot offset payload now a = (res, a')"
  shows "assembler_ok now a' \<and> (\<forall>x. res = Inr (Some x) \<longrightarrow> valid_ip x)"
proof (cases "map_of (as_pending a) q")
  case (Some p)
  have "store_piece q offset payload p a = (res, a')" using rc Some by (simp add: receive_piece_def)
  then show ?thesis
    using store_piece_ok [OF storing_pending [OF a Some]] fits len [OF Some] by simp
next
  case None
  obtain ok r where ad: "admit q (as_retirement a) = (ok, r)" by fastforce
  define b where "b = a\<lparr>as_retirement := r\<rparr>"
  have b: "assembler_ok now b"
    using a admit_frame(1) [of "as_retirement a" q] admit_frame(2) [of q "as_retirement a"] ad
    by (simp add: b_def assembler_ok_retirement assembler_ok_def)
  have bq: "map_of (as_pending b) q = None" "re_initialized (as_retirement b)"
    using None admit_frame(2) [of q "as_retirement a"] ad by (simp_all add: b_def)
  obtain p c where o: "open_partial tot now b = (p, c)" by fastforce
  have "receive_piece q tot offset payload now a =
      (if \<not> ok then retired_ip b else store_piece q offset payload p c)"
    by (simp add: receive_piece_def None ad Let_def b_def [symmetric] o)
  then show ?thesis
    using rc b storing_open [OF b bq tot o] store_piece_ok [of now q p c offset payload res a'] fits
    by (auto simp: retired_ip_def split: if_splits)
qed

text \<open>What the header of a datagram leads to.\<close>

lemma receive_datagram_cases:
  obtains (invalid) err where "receive_datagram d now a = invalid_ip err a"
  | (conflict) "receive_datagram d now a = conflict_ip ConflictingLength (u32_at d 1) a"
  | (whole) payload where
      "receive_datagram d now a = receive_whole (u32_at d 1) payload a"
      "\<And>p. map_of (as_pending a) (u32_at d 1) = Some p \<Longrightarrow> length (pi_data p) \<le> chunk_limit"
  | (piece) tot offset payload where
      "receive_datagram d now a = receive_piece (u32_at d 1) tot offset payload now a"
      "offset + length payload \<le> tot" "chunk_limit < tot" "tot \<le> tunnel_mtu"
      "\<And>p. map_of (as_pending a) (u32_at d 1) = Some p \<Longrightarrow> length (pi_data p) = tot"
proof -
  define q tot offset payload whole where hdr: "q = u32_at d 1" "tot = unat (u16_at d 5)"
    "offset = unat (u16_at d 7)" "payload = drop fragment_header d"
    "whole = (as_whole_ip a \<and> offset = 0 \<and> length payload = tot)"
  define conflicting where "conflicting = (case map_of (as_pending a) q of None \<Rightarrow> False
    | Some p \<Rightarrow> length (pi_data p) \<noteq> tot \<or> whole)"
  define bad where "bad = (length d \<le> fragment_header
    \<or> (if as_whole_ip a then whole_ip_limit else datagram_limit) < length d \<or> d ! 0 \<noteq> PACKET_IP)"
  have eq: "receive_datagram d now a =
    (if bad then invalid_ip InvalidDatagram a
     else if bad_piece whole tot offset (length payload) then invalid_ip InvalidFragment a
     else if conflicting then conflict_ip ConflictingLength q a
     else if tot \<le> chunk_limit \<or> whole then receive_whole q payload a
     else receive_piece q tot offset payload now a)"
    unfolding receive_datagram_def Let_def hdr bad_def conflicting_def by simp
  consider "bad" | "\<not> bad" "bad_piece whole tot offset (length payload)"
    | "\<not> bad" "\<not> bad_piece whole tot offset (length payload)" "conflicting"
    | "\<not> bad" "\<not> bad_piece whole tot offset (length payload)" "\<not> conflicting"
        "tot \<le> chunk_limit \<or> whole"
    | "\<not> bad" "\<not> bad_piece whole tot offset (length payload)" "\<not> conflicting"
        "\<not> (tot \<le> chunk_limit \<or> whole)" by blast
  then show thesis
  proof cases
    case 4
    show thesis
    proof (rule whole [of payload])
      show "receive_datagram d now a = receive_whole (u32_at d 1) payload a"
        using 4 by (simp add: eq hdr(1))
      show "length (pi_data p) \<le> chunk_limit" if "map_of (as_pending a) (u32_at d 1) = Some p" for p
        using that 4(3,4) by (auto simp: conflicting_def hdr(1))
    qed
  next
    case 5
    show thesis
    proof (rule piece [of tot offset payload])
      show "receive_datagram d now a = receive_piece (u32_at d 1) tot offset payload now a"
        using 5 by (simp add: eq hdr(1))
      show "offset + length payload \<le> tot" "chunk_limit < tot" "tot \<le> tunnel_mtu"
        using 5 by (auto simp: bad_piece_def)
      show "length (pi_data p) = tot" if "map_of (as_pending a) (u32_at d 1) = Some p" for p
        using that 5(3) by (simp add: conflicting_def hdr(1))
    qed
  qed (use invalid conflict in \<open>simp_all add: eq hdr(1)\<close>)
qed

lemma receive_datagram_ok:
  assumes a: "assembler_ok now a" and rc: "receive_datagram d now a = (res, a')"
  shows "assembler_ok now a' \<and> (\<forall>x. res = Inr (Some x) \<longrightarrow> valid_ip x)"
proof (cases rule: receive_datagram_cases [of d now a])
  case (invalid err)
  then show ?thesis using rc a by (auto simp: invalid_ip_def)
next
  case conflict
  then show ?thesis using rc remove_ip_ok [OF a] by (auto simp: conflict_ip_def)
next
  case (whole payload)
  then show ?thesis
    using rc receive_whole_ok [OF a, of "u32_at d 1" payload res a'] by simp
next
  case (piece tot offset payload)
  show ?thesis
    by (rule receive_piece_ok [OF a piece(3,4,2,5)]) (use rc piece(1) in simp_all)
qed

lemma expire_one_frame [simp]:
  "as_pending (expire_one q a) = m_del q (as_pending a)"
  "as_retirement (expire_one q a) = retire q (as_retirement a)"
  "as_whole_ip (expire_one q a) = as_whole_ip a"
  by (simp_all add: expire_one_def)

lemma expire_fold_ok: "assembler_ok now a \<Longrightarrow> assembler_ok now (fold expire_one qs a)"
  by (induction qs arbitrary: a) (simp_all add: expire_one_def remove_ip_ok)

lemma expire_ip_ok: "assembler_ok now a \<Longrightarrow> assembler_ok now (expire_ip now' a)"
  by (simp add: expire_ip_def Let_def expire_fold_ok)

lemma receive_ip_ok:
  assumes "assembler_ok now a" and "receive_ip d now a = (res, a')"
  shows "assembler_ok now a' \<and> (\<forall>x. res = Inr (Some x) \<longrightarrow> valid_ip x)"
proof -
  define b where "b = tally (\<lambda>s. s\<lparr>st_fragments := st_fragments s + 1,
    st_bytes := st_bytes s + word_of_nat (length d)\<rparr>) (expire_ip now a)"
  obtain r c where rc: "receive_datagram d now b = (r, c)" by fastforce
  have "assembler_ok now b" using expire_ip_ok [OF assms(1)] by (simp add: b_def)
  then show ?thesis
    using receive_datagram_ok [OF _ rc] assms(2) rc
    by (auto simp: receive_ip_def Let_def b_def [symmetric])
qed

lemma discard_ip_ok: "assembler_ok now a \<Longrightarrow> assembler_ok now (discard_ip a)"
proof -
  have "assembler_ok now a \<Longrightarrow> assembler_ok now (fold discard_one qs a)" for qs
    by (induction qs arbitrary: a) (simp_all add: discard_one_def remove_ip_ok)
  then show "assembler_ok now a \<Longrightarrow> ?thesis" by (simp add: discard_ip_def)
qed

lemma new_assembler_ok: "assembler_ok now (new_assembler w)"
  by (simp add: new_assembler_def assembler_ok_def)

subsection \<open>Reading a fragment\<close>

lemma length_ip_fragment:
  "offset + n \<le> length p \<Longrightarrow> length (ip_fragment q p offset n) = 9 + n"
  by (simp add: ip_fragment_def)

lemma ip_fragment_reads:
  "ip_fragment q p offset n ! 0 = PACKET_IP"
  "u32_at (ip_fragment q p offset n) 1 = q"
  "u16_at (ip_fragment q p offset n) 5 = word_of_nat (length p)"
  "u16_at (ip_fragment q p offset n) 7 = word_of_nat offset"
  "drop 9 (ip_fragment q p offset n) = take n (drop offset p)"
proof -
  let ?f = "ip_fragment q p offset n"
  show "?f ! 0 = PACKET_IP" by (simp add: ip_fragment_def)
  have "take 4 (drop 1 ?f) = be_bytes 4 q" by (simp add: ip_fragment_def)
  then show "u32_at ?f 1 = q" by (simp add: u32_at_def be_simps)
  have "take 2 (drop 5 ?f) = be_bytes 2 (word_of_nat (length p) :: u16)"
    by (simp add: ip_fragment_def)
  then show "u16_at ?f 5 = word_of_nat (length p)" by (simp only: u16_at_def) (simp add: be_simps)
  have "take 2 (drop 7 ?f) = be_bytes 2 (word_of_nat offset :: u16)"
    by (simp add: ip_fragment_def)
  then show "u16_at ?f 7 = word_of_nat offset" by (simp only: u16_at_def) (simp add: be_simps)
  show "drop 9 ?f = take n (drop offset p)" by (simp add: ip_fragment_def)
qed

lemma unat_u16_small: "n < 65536 \<Longrightarrow> unat (word_of_nat n :: u16) = n"
  by (simp add: unat_of_nat)

text \<open>A valid packet travels in one datagram or in two.\<close>

lemma encode_ip_cases:
  assumes "encode_ip q p = Some ds"
  obtains (one) "valid_ip p" "length p \<le> chunk_limit" "ds = [ip_fragment q p 0 (length p)]"
  | (two) "valid_ip p" "chunk_limit < length p" "length p \<le> tunnel_mtu"
      "ds = [ip_fragment q p 0 chunk_limit, ip_fragment q p chunk_limit (length p - chunk_limit)]"
proof -
  have v: "valid_ip p" and ds: "ds = ip_fragments q p 0"
    using assms by (auto simp: encode_ip_def split: if_splits)
  then have n: "0 < length p" "length p \<le> tunnel_mtu" by (auto simp: valid_ip_def)
  show thesis
  proof (cases "length p \<le> chunk_limit")
    case True
    show thesis
      by (rule one [OF v True])
        (use n True in \<open>simp add: ds ip_fragments.simps [of q p 0] ip_fragments.simps [of q p "length p"]\<close>)
  next
    case False
    show thesis
      by (rule two [OF v _ n(2)])
        (use n False in \<open>simp_all add: ds ip_fragments.simps [of q p 0]
           ip_fragments.simps [of q p chunk_limit] ip_fragments.simps [of q p "length p"]\<close>)
  qed
qed

subsection \<open>Expiry\<close>

lemma as_pending_expire:
  assumes "m_ok (as_pending a)"
  shows "map_of (as_pending (expire_ip now a)) q =
    (case map_of (as_pending a) q of None \<Rightarrow> None
     | Some p \<Rightarrow> if pi_expires p \<le> now then None else Some p)"
proof -
  have fold: "map_of (as_pending (fold expire_one qs a)) q =
      (if q \<in> set qs then None else map_of (as_pending a) q)" for qs
    by (induction qs arbitrary: a) simp_all
  have "q \<in> set (expired_ids now a) \<longleftrightarrow>
      (\<exists>p. map_of (as_pending a) q = Some p \<and> pi_expires p \<le> now)"
    using assms by (auto simp: expired_ids_def map_of_in_ok [symmetric] image_iff)
  then show ?thesis
    by (auto simp: expire_ip_def Let_def publish_def fold split: option.splits)
qed

lemma expire_ip_frame [simp]:
  "re_newest (as_retirement (expire_ip now a)) = re_newest (as_retirement a)"
  "re_initialized (as_retirement (expire_ip now a)) = re_initialized (as_retirement a)"
  "as_whole_ip (expire_ip now a) = as_whole_ip a"
proof -
  have "re_newest (as_retirement (fold expire_one qs a)) = re_newest (as_retirement a)
    \<and> re_initialized (as_retirement (fold expire_one qs a)) = re_initialized (as_retirement a)
    \<and> as_whole_ip (fold expire_one qs a) = as_whole_ip a" for qs
    by (induction qs arbitrary: a) (simp_all add: retire_def)
  then show "re_newest (as_retirement (expire_ip now a)) = re_newest (as_retirement a)"
    "re_initialized (as_retirement (expire_ip now a)) = re_initialized (as_retirement a)"
    "as_whole_ip (expire_ip now a) = as_whole_ip a"
    by (simp_all add: expire_ip_def Let_def publish_def)
qed

lemma expire_uninitialized:
  "\<not> re_initialized (as_retirement a) \<Longrightarrow> as_retirement (expire_ip now a) = as_retirement a"
proof -
  assume u: "\<not> re_initialized (as_retirement a)"
  then have "as_retirement (fold expire_one qs a) = as_retirement a" for qs
    by (induction qs arbitrary: a) (simp_all add: retire_def)
  then show ?thesis by (simp add: expire_ip_def Let_def publish_def)
qed

text \<open>The sender numbers its packets upwards: the next ID lies ahead of all the ones seen.\<close>

definition ahead :: "u32 \<Rightarrow> retirement \<Rightarrow> bool" where
  "ahead q r \<longleftrightarrow> length (re_bits r) = 16 \<and>
     (if re_initialized r then q - re_newest r \<noteq> 0 \<and> q - re_newest r < 0x80000000
      else re_bits r = replicate 16 0)"

lemma re_bit_zero: "slot < 1024 \<Longrightarrow> \<not> re_bit (replicate 16 0) slot"
  by (simp add: re_bit_iff)

lemma ahead_admitted: "ahead q r \<Longrightarrow> fst (admit q r)"
proof -
  assume a: "ahead q r"
  define r' where "r' = re_advance q r"
  have "re_newest r' = q" using a by (simp add: r'_def re_advance_def ahead_def Let_def split: if_splits)
  moreover have "\<not> re_bit (re_bits r') (re_slot q)"
  proof (cases "re_initialized r \<and> q - re_newest r < 1024")
    case False
    then show ?thesis
      using a re_bit_zero [of "re_slot q"]
      by (auto simp: r'_def re_advance_def ahead_def Let_def split: if_splits)
  next
    case True
    let ?d = "unat (q - re_newest r)"
    have r': "re_bits r' = fold (\<lambda>step. re_clear (re_slot (re_newest r + word_of_nat step)))
        [1..<Suc ?d] (re_bits r)"
    proof -
      have "\<not> 1024 \<le> q - re_newest r" using True by (simp add: not_le)
      then show ?thesis
        using a True by (simp add: r'_def re_advance_def ahead_def Let_def del: upt_Suc)
    qed
    have d: "?d \<in> set [1..<Suc ?d]" using a True by (simp add: ahead_def Suc_le_eq unat_gt_0)
    have "re_slot (re_newest r + word_of_nat ?d) = re_slot q" by simp
    then have "\<not> (\<forall>s \<in> set [1..<Suc ?d]. re_slot (re_newest r + word_of_nat s) \<noteq> re_slot q)"
      using d by blast
    moreover have "length (re_bits r) = 16" using a by (simp add: ahead_def)
    ultimately show ?thesis
      using fold_re_clear [of "re_bits r" "re_slot q" "\<lambda>s. re_newest r + word_of_nat s" "[1..<Suc ?d]"]
      unfolding r' by (simp del: upt_Suc set_upt)
  qed
  ultimately show ?thesis by (simp add: admit_def r'_def [symmetric])
qed

lemma ahead_expire: "ahead q (as_retirement a) \<Longrightarrow> assembler_ok now a
  \<Longrightarrow> ahead q (as_retirement (expire_ip now' a))"
  using expire_uninitialized [of a now'] expire_ip_ok [of now a now']
  by (auto simp: ahead_def assembler_ok_def)

subsection \<open>Reassembly\<close>

fun receive_all :: "(bytes \<times> int) list \<Rightarrow> assembler \<Rightarrow> ip_result list \<times> assembler" where
  "receive_all [] a = ([], a)"
| "receive_all ((d, t) # ds) a =
     (let (res, a1) = receive_ip d t a; (rs, a2) = receive_all ds a1 in (res # rs, a2))"

definition half_stored :: "u32 \<Rightarrow> bytes \<Rightarrow> nat \<Rightarrow> int \<Rightarrow> assembler \<Rightarrow> bool" where
  "half_stored q p offset until a \<longleftrightarrow> (\<exists>x. map_of (as_pending a) q = Some x
     \<and> length (pi_data x) = length p \<and> pi_expires x = until
     \<and> (if offset = 0 then pi_first x \<and> \<not> pi_second x
          \<and> take chunk_limit (pi_data x) = take chunk_limit p
        else pi_second x \<and> \<not> pi_first x \<and> drop chunk_limit (pi_data x) = drop chunk_limit p))"

definition piece_at :: "bytes \<Rightarrow> nat \<Rightarrow> bytes" where
  "piece_at p offset = take (if offset = 0 then chunk_limit else length p - chunk_limit) (drop offset p)"

definition half_fragment :: "u32 \<Rightarrow> bytes \<Rightarrow> nat \<Rightarrow> bytes" where
  "half_fragment q p offset =
     ip_fragment q p offset (if offset = 0 then chunk_limit else length p - chunk_limit)"

lemma receive_half:
  assumes len: "chunk_limit < length p" "length p \<le> tunnel_mtu" and off: "offset \<in> {0, chunk_limit}"
    and p: "case map_of (as_pending a) q of None \<Rightarrow> True | Some x \<Rightarrow> length (pi_data x) = length p"
  shows "receive_datagram (half_fragment q p offset) now a =
    receive_piece q (length p) offset (piece_at p offset) now a"
proof -
  define n where "n = (if offset = 0 then chunk_limit else length p - chunk_limit)"
  define f where "f = half_fragment q p offset"
  have f: "f = ip_fragment q p offset n" by (simp add: f_def n_def half_fragment_def)
  have n: "n = min chunk_limit (length p - offset)" "0 < n" "n \<noteq> length p" "offset < length p"
    "offset + n \<le> length p" using len off by (auto simp: n_def)
  have l: "length f = 9 + n" unfolding f by (rule length_ip_fragment [OF n(5)])
  have r: "f ! 0 = PACKET_IP" "u32_at f 1 = q" "unat (u16_at f 5) = length p"
    "unat (u16_at f 7) = offset" "drop 9 f = piece_at p offset"
    using len n by (auto simp: f ip_fragment_reads ip_fragment_reads(2) [simplified]
        unat_u16_small piece_at_def n_def)
  have pl: "length (piece_at p offset) = n"
    using n(5) by (simp add: piece_at_def n_def)
  have ok: "\<not> bad_piece False (length p) offset n"
    unfolding bad_piece_def n(1) [symmetric] using len off n(4) by auto
  have nw: "(as_whole_ip a \<and> offset = 0 \<and> n = length p) = False" using n(3) by simp
  have cf: "(case map_of (as_pending a) q of None \<Rightarrow> False
      | Some x \<Rightarrow> length (pi_data x) \<noteq> length p \<or> False) = False"
    using p by (simp split: option.splits)
  have ln: "\<not> length f \<le> 9" "\<not> (if as_whole_ip a then whole_ip_limit else datagram_limit) < length f"
    using l n(1,2) by auto
  show ?thesis
    unfolding f_def [symmetric] receive_datagram_def Let_def r pl nw cf
    using ln ok len by simp
qed

lemma store_first_half:
  assumes "chunk_limit < length p" and "offset \<in> {0, chunk_limit}" and "length (pi_data x) = length p"
    and "\<not> pi_first x" and "\<not> pi_second x" and "pi_expires x = until"
    and "store_piece q offset (piece_at p offset) x a = (res, a')"
  shows "res = Inr None \<and> half_stored q p offset until a'"
  using assms by (auto simp: store_piece_def Let_def half_stored_def overlay_def piece_at_def)

lemma store_second_half:
  assumes len: "chunk_limit < length p" and v: "valid_ip p" and off: "offset \<in> {0, chunk_limit}"
    and h: "half_stored q p offset until a" and x: "map_of (as_pending a) q = Some x"
    and st: "store_piece q (chunk_limit - offset) (piece_at p (chunk_limit - offset)) x a = (res, a')"
  shows "res = Inr (Some p) \<and> map_of (as_pending a') q = None"
proof -
  let ?o = "chunk_limit - offset"
  have xl: "length (pi_data x) = length p" using h x by (simp add: half_stored_def)
  have data: "overlay ?o (piece_at p ?o) (pi_data x) = p"
  proof (cases "offset = 0")
    case True
    then have "take chunk_limit (pi_data x) = take chunk_limit p" using h x by (simp add: half_stored_def)
    then show ?thesis using True xl len by (simp add: overlay_def piece_at_def)
  next
    case False
    then have "drop chunk_limit (pi_data x) = drop chunk_limit p" using h x by (simp add: half_stored_def)
    then show ?thesis using False off xl len by (simp add: overlay_def piece_at_def)
  qed
  show ?thesis
    using st h x off v data
    by (auto simp: store_piece_def Let_def half_stored_def split: if_splits)
qed

lemma receive_first_half:
  assumes a: "assembler_ok now a" and fresh: "map_of (as_pending a) q = None"
    and ahead: "ahead q (as_retirement a)"
    and len: "chunk_limit < length p" "length p \<le> tunnel_mtu" and off: "offset \<in> {0, chunk_limit}"
    and rc: "receive_ip (half_fragment q p offset) now a = (res, a')"
  shows "res = Inr None \<and> half_stored q p offset (now + ip_lifetime) a'"
proof -
  define b where "b = tally (\<lambda>s. s\<lparr>st_fragments := st_fragments s + 1,
    st_bytes := st_bytes s + word_of_nat (length (half_fragment q p offset))\<rparr>) (expire_ip now a)"
  have b: "assembler_ok now b" "map_of (as_pending b) q = None" "ahead q (as_retirement b)"
    using expire_ip_ok [OF a, of now] fresh ahead ahead_expire [OF ahead a] a
    by (auto simp: b_def as_pending_expire assembler_ok_def)
  obtain ok r where ad: "admit q (as_retirement b) = (ok, r)" by fastforce
  have ok: "ok" using ahead_admitted [OF b(3)] ad by simp
  define c where "c = b\<lparr>as_retirement := r\<rparr>"
  have c: "assembler_ok now c" "map_of (as_pending c) q = None" "re_initialized (as_retirement c)"
    using b ad admit_frame(1) [of "as_retirement b" q] admit_frame(2) [of q "as_retirement b"] by (auto simp: c_def assembler_ok_def)
  obtain x d where o: "open_partial (length p) now c = (x, d)" by fastforce
  note x = storing_open [OF c len o]
  obtain res1 d1 where st: "store_piece q offset (piece_at p offset) x d = (res1, d1)" by fastforce
  have "receive_datagram (half_fragment q p offset) now b = (res1, d1)"
    using b(2) receive_half [OF len off, of b q now]
    by (simp add: receive_piece_def ad ok c_def [symmetric] o st)
  then have "res = res1" "a' = publish d1"
    using rc by (simp_all add: receive_ip_def Let_def b_def [symmetric])
  then show ?thesis
    using store_first_half [OF len(1) off _ _ _ _ st] x
    by (auto simp: half_stored_def publish_def)
qed

lemma receive_second_half:
  assumes a: "assembler_ok now a" and h: "half_stored q p offset until a" and t: "now < until"
    and len: "chunk_limit < length p" "length p \<le> tunnel_mtu" and v: "valid_ip p"
    and off: "offset \<in> {0, chunk_limit}"
    and rc: "receive_ip (half_fragment q p (chunk_limit - offset)) now a = (res, a')"
  shows "res = Inr (Some p) \<and> map_of (as_pending a') q = None"
proof -
  let ?o = "chunk_limit - offset"
  define b where "b = tally (\<lambda>s. s\<lparr>st_fragments := st_fragments s + 1,
    st_bytes := st_bytes s + word_of_nat (length (half_fragment q p ?o))\<rparr>) (expire_ip now a)"
  obtain x where x: "map_of (as_pending a) q = Some x" "pi_expires x = until"
    "length (pi_data x) = length p" using h by (auto simp: half_stored_def)
  have bx: "map_of (as_pending b) q = Some x"
    using x t a by (auto simp: b_def as_pending_expire assembler_ok_def)
  then have hb: "half_stored q p offset until b" using h x by (simp add: half_stored_def)
  obtain res1 d1 where st: "store_piece q ?o (piece_at p ?o) x b = (res1, d1)" by fastforce
  have "?o \<in> {0, chunk_limit}" using off by auto
  then have "receive_datagram (half_fragment q p ?o) now b = (res1, d1)"
    using bx x receive_half [OF len, of ?o b q now] by (simp add: receive_piece_def st)
  then have "res = res1" "a' = publish d1"
    using rc by (simp_all add: receive_ip_def Let_def b_def [symmetric])
  then show ?thesis
    using store_second_half [OF len(1) v off hb bx st] by (simp add: publish_def)
qed

lemma ahead_newest: "ahead q r \<Longrightarrow> re_newest (snd (admit q r)) = q"
  by (simp add: admit_def re_advance_def ahead_def Let_def split: if_splits)

lemma receive_single:
  assumes a: "assembler_ok now a" and fresh: "map_of (as_pending a) q = None"
    and ahead: "ahead q (as_retirement a)" and v: "valid_ip p" and len: "length p \<le> chunk_limit"
    and rc: "receive_ip (ip_fragment q p 0 (length p)) now a = (res, a')"
  shows "res = Inr (Some p) \<and> map_of (as_pending a') q = None \<and> re_newest (as_retirement a') = q"
proof -
  let ?f = "ip_fragment q p 0 (length p)"
  define b where "b = tally (\<lambda>s. s\<lparr>st_fragments := st_fragments s + 1,
    st_bytes := st_bytes s + word_of_nat (length ?f)\<rparr>) (expire_ip now a)"
  have b: "map_of (as_pending b) q = None" "ahead q (as_retirement b)"
    using fresh ahead_expire [OF ahead a] a by (auto simp: b_def as_pending_expire assembler_ok_def)
  have n: "20 \<le> length p" "length p \<le> 1320" using v by (auto simp: valid_ip_def)
  have r: "?f ! 0 = PACKET_IP" "u32_at ?f 1 = q" "unat (u16_at ?f 5) = length p"
    "unat (u16_at ?f 7) = 0" "drop 9 ?f = p" "length ?f = 9 + length p"
    using n by (simp_all add: ip_fragment_reads unat_u16_small length_ip_fragment
        ip_fragment_reads(2) [simplified])
  have "\<not> bad_piece (as_whole_ip b \<and> 0 = (0::nat) \<and> length p = length p) (length p) 0 (length p)"
    using n len by (auto simp: bad_piece_def)
  moreover have "9 < length ?f" "length ?f \<le> datagram_limit" using r n len by auto
  ultimately have "receive_datagram ?f now b = receive_whole q p b"
    unfolding receive_datagram_def Let_def r using b(1) len by simp
  moreover have "receive_whole q p b = (Inr (Some p), snd (receive_whole q p b))
      \<and> as_pending (snd (receive_whole q p b)) = as_pending b
      \<and> re_newest (as_retirement (snd (receive_whole q p b))) = q"
    using v ahead_admitted [OF b(2)] ahead_newest [OF b(2)] by (simp add: receive_whole_def Let_def split_beta)
  ultimately show ?thesis
    using rc b(1)
    by (cases "receive_whole q p b") (auto simp: receive_ip_def Let_def b_def [symmetric] publish_def)
qed

lemma mset_two:
  assumes "mset xs = {# x, y #}"
  obtains "xs = [x, y]" | "xs = [y, x]"
proof -
  have "length xs = 2" using assms by (metis size_mset size_add_mset size_single one_add_one plus_1_eq_Suc)
  then obtain a b where xs: "xs = [a, b]" by (auto simp: numeral_2_eq_2 length_Suc_conv)
  then show thesis using assms that by (auto simp: add_eq_conv_diff)
qed

text \<open>
  C18 (fragments_reassemble): a packet that \<open>EncodeIP\<close> splits under the next ID of the link is
  given back byte for byte by the peer's assembler, exactly once, in whichever order its
  fragments arrive, provided they arrive within the assembly lifetime of each other. Nothing
  of it stays behind.
\<close>

theorem fragments_reassemble:
  assumes "encode_ip q p = Some ds" and "mset ds' = mset ds"
    and "assembler_ok t a" and "map_of (as_pending a) q = None" and "ahead q (as_retirement a)"
    and "length ts = length ds" and "sorted (t # ts)" and "last ts < hd ts + ip_lifetime"
  shows "fst (receive_all (zip ds' ts) a) = replicate (length ds - 1) (Inr None) @ [Inr (Some p)]
    \<and> map_of (as_pending (snd (receive_all (zip ds' ts) a))) q = None"
  using assms(1)
proof (cases rule: encode_ip_cases)
  case one
  then obtain t1 where ts: "ts = [t1]" using assms(6) by (auto simp: length_Suc_conv)
  have ds': "ds' = ds" using assms(2) one by simp
  have "assembler_ok t1 a" using assms(3,7) ts assembler_ok_mono by simp
  then show ?thesis
    using receive_single [of t1 a q p] assms(4,5) one ds'
    by (cases "receive_ip (ip_fragment q p 0 (length p)) t1 a") (auto simp: ts)
next
  case two
  then obtain t1 t2 where ts: "ts = [t1, t2]" using assms(6) by (auto simp: length_Suc_conv)
  have t: "t \<le> t1" "t1 \<le> t2" "t2 < t1 + ip_lifetime" using assms(7,8) ts by auto
  have "mset ds' = {# half_fragment q p 0, half_fragment q p chunk_limit #}"
    using assms(2) two by (simp add: half_fragment_def)
  then obtain offset where off: "offset \<in> {0, chunk_limit}"
    and ds': "ds' = [half_fragment q p offset, half_fragment q p (chunk_limit - offset)]"
  proof (rule mset_two)
    assume "ds' = [half_fragment q p 0, half_fragment q p chunk_limit]"
    then show thesis using that [of 0] by simp
  next
    assume "ds' = [half_fragment q p chunk_limit, half_fragment q p 0]"
    then show thesis using that [of chunk_limit] by simp
  qed
  obtain r1 a1 where s1: "receive_ip (half_fragment q p offset) t1 a = (r1, a1)" by fastforce
  obtain r2 a2 where s2: "receive_ip (half_fragment q p (chunk_limit - offset)) t2 a1 = (r2, a2)"
    by fastforce
  have ok1: "assembler_ok t1 a" using assms(3) t assembler_ok_mono by blast
  note f = receive_first_half [OF ok1 assms(4,5) two(2,3) off s1]
  have "assembler_ok t2 a1" using receive_ip_ok [OF ok1 s1] t assembler_ok_mono by blast
  then have "r2 = Inr (Some p) \<and> map_of (as_pending a2) q = None"
    using receive_second_half [OF _ _ t(3) two(2,3,1) off s2] f by blast
  then show ?thesis using f two by (simp add: ds' ts s1 s2)
qed

subsection \<open>No packet ID is delivered twice\<close>

text \<open>\<open>q\<close> is neither pending nor admissible, and the newest ID is the same as in \<open>a\<close>.\<close>

definition shut :: "u32 \<Rightarrow> nat \<Rightarrow> assembler \<Rightarrow> bool" where
  "shut q k a \<longleftrightarrow> map_of (as_pending a) q = None \<and> gone q k (as_retirement a)"

abbreviation newest :: "assembler \<Rightarrow> u32" where
  "newest a \<equiv> re_newest (as_retirement a)"

lemma gone_retire: "gone q k r \<Longrightarrow> gone q k (retire x r)"
  by (auto simp: gone_def retire_def re_bit_set)

lemma shut_frame [simp]:
  "shut q k (a\<lparr>as_stats := s\<rparr>) = shut q k a" "shut q k (a\<lparr>as_order := n\<rparr>) = shut q k a"
  "shut q k (a\<lparr>as_bytes := b\<rparr>) = shut q k a" "shut q k (publish a) = shut q k a"
  by (simp_all add: shut_def publish_def)

lemma newest_frame [simp]:
  "newest (publish a) = newest a" "newest (remove_ip x a) = newest a"
  "newest (evict_oldest a) = newest a"
  by (simp_all add: publish_def evict_oldest_def)

lemma shut_remove: "shut q k a \<Longrightarrow> shut q k (remove_ip x a)"
  by (simp add: shut_def gone_retire)

lemma shut_expire: "shut q k a \<Longrightarrow> shut q k (expire_ip now a)"
proof -
  have "shut q k a \<Longrightarrow> shut q k (fold expire_one qs a)" for qs
    by (induction qs arbitrary: a) (simp_all add: expire_one_def shut_remove)
  then show "shut q k a \<Longrightarrow> ?thesis" by (simp add: expire_ip_def Let_def)
qed

lemma shut_store:
  assumes "shut q k a" and "x \<noteq> q" and "store_piece x offset payload p a = (res, a')"
  shows "shut q k a' \<and> newest a' = newest a"
proof -
  have put: "shut q k (a\<lparr>as_pending := m_put x p' (as_pending a)\<rparr>)" for p'
    using assms(1,2) by (simp add: shut_def)
  show ?thesis
    using assms(3) shut_remove [OF assms(1)] shut_remove [OF put] put assms(1)
    by (auto simp: store_piece_def conflict_ip_def invalid_ip_def Let_def split: if_splits)
qed

lemma shut_open:
  assumes "shut q k a" and "open_partial tot now a = (p, a')"
  shows "shut q k a' \<and> newest a' = newest a"
proof -
  have "shut q k (evict_oldest a)" using shut_remove [OF assms(1)] by (simp add: evict_oldest_def)
  then show ?thesis using assms by (auto simp: open_partial_def Let_def split: if_splits)
qed

lemma shut_admit:
  assumes "shut q k a" and "admit x (as_retirement a) = (ok, r)"
    and "k + unat (re_newest r - newest a) \<le> 2 ^ 31"
  shows "shut q (k + unat (re_newest r - newest a)) (a\<lparr>as_retirement := r\<rparr>)" and "x = q \<Longrightarrow> \<not> ok"
proof -
  have r: "r = re_advance x (as_retirement a)" using assms(2) by (simp add: admit_def Let_def)
  have g: "gone q k (as_retirement a)" using assms(1) by (simp add: shut_def)
  show "shut q (k + unat (re_newest r - newest a)) (a\<lparr>as_retirement := r\<rparr>)"
    using assms(1,3) gone_advance [OF g, of _ x] by (simp add: shut_def r)
  show "x = q \<Longrightarrow> \<not> ok" using gone_refused [OF g] assms(2,3) by simp
qed

lemma shut_datagram:
  assumes s: "shut q k a" and rc: "receive_datagram d now a = (res, a')"
    and b: "k + unat (newest a' - newest a) \<le> 2 ^ 31"
  shows "shut q (k + unat (newest a' - newest a)) a'
    \<and> (u32_at d 1 = q \<longrightarrow> (\<forall>x. res \<noteq> Inr (Some x)))"
proof -
  define x where "x = u32_at d 1"
  obtain ok r where ad: "admit x (as_retirement a) = (ok, r)" by fastforce
  define c where "c = a\<lparr>as_retirement := r\<rparr>"
  have admitted: "shut q (k + unat (newest c - newest a)) c \<and> (x = q \<longrightarrow> \<not> ok)"
    if "k + unat (newest c - newest a) \<le> 2 ^ 31"
    using shut_admit [OF s ad] that by (simp add: c_def)
  have whole_case: ?thesis if "receive_whole x payload a = (res, a')" for payload
  proof (cases "valid_ip payload")
    case False
    then show ?thesis using that s by (auto simp: receive_whole_def invalid_ip_def)
  next
    case True
    have eq: "receive_whole x payload a = (if \<not> ok then retired_ip c
        else (Inr (Some payload), tally (\<lambda>s. s\<lparr>st_whole := st_whole s + 1\<rparr>)
          (c\<lparr>as_retirement := retire x (as_retirement c)\<rparr>)))"
      using True by (simp add: receive_whole_def ad Let_def c_def [symmetric])
    then have n: "newest a' = newest c" using that by (auto simp: retired_ip_def split: if_splits)
    then have c: "shut q (k + unat (newest c - newest a)) c" "x = q \<longrightarrow> \<not> ok"
      using admitted b by auto
    then have "shut q (k + unat (newest c - newest a)) (c\<lparr>as_retirement := retire x (as_retirement c)\<rparr>)"
      by (simp add: shut_def gone_retire)
    then show ?thesis using that c n unfolding eq by (auto simp: retired_ip_def x_def split: if_splits)
  qed
  have piece_case: ?thesis if "receive_piece x tot offset payload now a = (res, a')" for tot offset payload
  proof (cases "map_of (as_pending a) x")
    case (Some p)
    then have st: "store_piece x offset payload p a = (res, a')" and "x \<noteq> q"
      using that s by (auto simp: receive_piece_def shut_def)
    then show ?thesis using shut_store [OF s _ st] by (auto simp: x_def)
  next
    case None
    obtain p e where o: "open_partial tot now c = (p, e)" by fastforce
    have eq: "receive_piece x tot offset payload now a =
        (if \<not> ok then retired_ip c else store_piece x offset payload p e)"
      by (simp add: receive_piece_def None ad Let_def c_def [symmetric] o)
    show ?thesis
    proof (cases ok)
      case False
      then have "newest a' = newest c" using that eq by (auto simp: retired_ip_def)
      then show ?thesis using False that eq admitted b by (auto simp: retired_ip_def)
    next
      case True
      then have st: "store_piece x offset payload p e = (res, a')" using that eq by simp
      have ne: "newest e = newest c"
        using o by (auto simp: open_partial_def Let_def split: if_splits)
      have ns: "newest a' = newest e"
        using st by (auto simp: store_piece_def conflict_ip_def invalid_ip_def Let_def split: if_splits)
      have c: "shut q (k + unat (newest c - newest a)) c" "x \<noteq> q"
        using admitted b ne ns True by auto
      then show ?thesis
        using shut_store [OF _ c(2) st] shut_open [OF c(1) o] ne ns by (auto simp: x_def)
    qed
  qed
  show ?thesis
  proof (cases rule: receive_datagram_cases [of d now a])
    case (invalid err)
    then show ?thesis using rc s by (auto simp: invalid_ip_def)
  next
    case conflict
    then show ?thesis using rc shut_remove [OF s] by (auto simp: conflict_ip_def)
  next
    case (whole payload)
    then show ?thesis using rc by (intro whole_case) (simp add: x_def)
  next
    case (piece tot offset payload)
    then show ?thesis using rc by (intro piece_case) (simp add: x_def)
  qed
qed

lemma shut_receive:
  assumes s: "shut q k a" and rc: "receive_ip d now a = (res, a')"
    and b: "k + unat (newest a' - newest a) \<le> 2 ^ 31"
  shows "shut q (k + unat (newest a' - newest a)) a'
    \<and> (u32_at d 1 = q \<longrightarrow> (\<forall>x. res \<noteq> Inr (Some x)))"
proof -
  define c where "c = tally (\<lambda>s. s\<lparr>st_fragments := st_fragments s + 1,
    st_bytes := st_bytes s + word_of_nat (length d)\<rparr>) (expire_ip now a)"
  obtain r e where rd: "receive_datagram d now c = (r, e)" by fastforce
  have c: "shut q k c" "newest c = newest a" using shut_expire [OF s] by (simp_all add: c_def)
  have "res = r" "a' = publish e"
    using rc rd by (simp_all add: receive_ip_def Let_def c_def [symmetric])
  then show ?thesis using shut_datagram [OF c(1) rd] b c(2) by simp
qed

text \<open>The newest ID is the datagram's or stays.\<close>

lemma newest_receive:
  "newest (snd (receive_ip d now a)) \<in> {newest a, u32_at d 1}"
proof -
  define c where "c = tally (\<lambda>s. s\<lparr>st_fragments := st_fragments s + 1,
    st_bytes := st_bytes s + word_of_nat (length d)\<rparr>) (expire_ip now a)"
  have adv: "re_newest (snd (admit x r)) \<in> {re_newest r, x}" for x r
    by (simp add: admit_def re_advance_def Let_def)
  have store: "newest (snd (store_piece x offset payload p b)) = newest b" for x offset payload p b
    by (simp add: store_piece_def conflict_ip_def invalid_ip_def Let_def)
  have op: "newest (snd (open_partial tot now b)) = newest b" for tot b
    by (simp add: open_partial_def Let_def)
  have "newest (snd (receive_datagram d now c)) \<in> {newest c, u32_at d 1}"
  proof (cases rule: receive_datagram_cases [of d now c])
    case (whole payload)
    then show ?thesis using adv [of "u32_at d 1" "as_retirement c"]
      by (auto simp: receive_whole_def invalid_ip_def retired_ip_def Let_def split_beta)
  next
    case (piece tot offset payload)
    then show ?thesis using adv [of "u32_at d 1" "as_retirement c"]
      by (auto simp: receive_piece_def retired_ip_def Let_def split_beta store op split: option.split)
  qed (auto simp: invalid_ip_def conflict_ip_def)
  then show ?thesis by (simp add: receive_ip_def Let_def split_beta c_def [symmetric]) (simp add: c_def)
qed

text \<open>How far the newest ID moves while datagrams are received.\<close>

fun moved :: "(bytes \<times> int) list \<Rightarrow> assembler \<Rightarrow> nat" where
  "moved [] a = 0"
| "moved ((d, t) # ds) a =
     unat (newest (snd (receive_ip d t a)) - newest a) + moved ds (snd (receive_ip d t a))"

lemma shut_receive_all:
  "\<lbrakk>shut q k a; k + moved ds a \<le> 2 ^ 31; i < length ds; u32_at (fst (ds ! i)) 1 = q\<rbrakk>
   \<Longrightarrow> fst (receive_all ds a) ! i \<noteq> Inr (Some x)"
proof (induction ds arbitrary: k a i)
  case (Cons e ds)
  obtain d t where e: "e = (d, t)" by fastforce
  obtain r b where rc: "receive_ip d t a = (r, b)" by fastforce
  have m: "k + unat (newest b - newest a) + moved ds b \<le> 2 ^ 31"
    using Cons.prems(2) by (simp add: e rc)
  then have s: "shut q (k + unat (newest b - newest a)) b"
    and no: "u32_at d 1 = q \<longrightarrow> (\<forall>x. r \<noteq> Inr (Some x))"
    using shut_receive [OF Cons.prems(1) rc] by auto
  show ?case
  proof (cases i)
    case 0
    then show ?thesis using no Cons.prems(4) by (simp add: e rc split_beta)
  next
    case (Suc j)
    then show ?thesis
      using Cons.IH [OF s m, of j] Cons.prems(3,4) by (simp add: e rc split_beta)
  qed
qed simp

text \<open>A delivered packet's ID is shut.\<close>

lemma delivered_store:
  assumes "storing now q p a"
    and "store_piece q offset payload p a = (Inr (Some x), a')"
  shows "shut q (unat (newest a' - q)) a'"
proof -
  have len: "length (re_bits (as_retirement a)) = 16" and i: "re_initialized (as_retirement a)"
    using assms(1) by (simp_all add: storing_def)
  have g: "gone q (unat (newest a - q)) (retire q (as_retirement a))"
    using i len by (auto simp: gone_def retire_def re_bit_set word_less_nat_alt)
  then show ?thesis
    using assms(2)
    by (auto simp: store_piece_def conflict_ip_def invalid_ip_def Let_def shut_def split: if_splits)
qed

lemma delivered_datagram:
  assumes a: "assembler_ok now a" and rc: "receive_datagram d now a = (Inr (Some x), a')"
  shows "shut (u32_at d 1) (unat (newest a' - u32_at d 1)) a'"
proof (cases rule: receive_datagram_cases [of d now a])
  case (invalid err)
  then show ?thesis using rc by (simp add: invalid_ip_def)
next
  case conflict
  then show ?thesis using rc by (simp add: conflict_ip_def)
next
  case (whole payload)
  define q where "q = u32_at d 1"
  note whole = whole [folded q_def]
  obtain ok r where ad: "admit q (as_retirement a) = (ok, r)" by fastforce
  have pend: "map_of (as_pending a) q = None"
  proof (cases "map_of (as_pending a) q")
    case (Some p)
    then have "partial_ok now p" using a m_all_get by (fastforce simp: assembler_ok_def)
    then show ?thesis using whole(2) [OF Some] by (simp add: partial_ok_def big_packet_def)
  qed
  have r: "length (re_bits r) = 16" "re_initialized r"
    using a admit_frame(1) [of "as_retirement a" q] admit_frame(2) [of q "as_retirement a"]
    unfolding ad by (simp_all add: assembler_ok_def)
  then have "gone q (unat (re_newest r - q)) (retire q r)"
    by (auto simp: gone_def retire_def re_bit_set word_less_nat_alt)
  then show ?thesis
    using rc whole(1) pend unfolding q_def [symmetric]
    by (auto simp: receive_whole_def invalid_ip_def retired_ip_def ad Let_def shut_def split: if_splits)
next
  case (piece tot offset payload)
  define q where "q = u32_at d 1"
  note piece = piece [folded q_def]
  have "shut q (unat (newest a' - q)) a'"
  proof (cases "map_of (as_pending a) q")
    case (Some p)
    then show ?thesis
      using delivered_store [OF storing_pending [OF a Some]] rc piece(1) by (simp add: receive_piece_def)
  next
    case None
    obtain ok r where ad: "admit q (as_retirement a) = (ok, r)" by fastforce
    define b where "b = a\<lparr>as_retirement := r\<rparr>"
    have b: "assembler_ok now b" "map_of (as_pending b) q = None" "re_initialized (as_retirement b)"
      using a None admit_frame(1) [of "as_retirement a" q] admit_frame(2) [of q "as_retirement a"] ad
      by (auto simp: b_def assembler_ok_def)
    obtain p c where o: "open_partial tot now b = (p, c)" by fastforce
    have "storing now q p c" using storing_open [OF b piece(3,4) o] by blast
    moreover have "store_piece q offset payload p c = (Inr (Some x), a')"
      using rc piece(1) by (auto simp: receive_piece_def None ad Let_def b_def [symmetric] o
          retired_ip_def split: if_splits)
    ultimately show ?thesis by (rule delivered_store)
  qed
  then show ?thesis by (simp add: q_def)
qed

subsection \<open>Properties\<close>

text \<open>After a receive every entry is live.\<close>

definition all_live :: "int \<Rightarrow> assembler \<Rightarrow> bool" where
  "all_live now a \<longleftrightarrow> m_all (\<lambda>_ p. now < pi_expires p) (as_pending a)"

lemma all_live_remove: "all_live now a \<Longrightarrow> all_live now (remove_ip q a)"
  by (auto simp: all_live_def)

lemma all_live_frame [simp]:
  "all_live now (a\<lparr>as_stats := s\<rparr>) = all_live now a" "all_live now (a\<lparr>as_order := n\<rparr>) = all_live now a"
  "all_live now (a\<lparr>as_bytes := b\<rparr>) = all_live now a"
  "all_live now (a\<lparr>as_retirement := r\<rparr>) = all_live now a"
  "all_live now (publish a) = all_live now a"
  by (simp_all add: all_live_def publish_def)

lemma all_live_store:
  assumes "all_live now a" and "now < pi_expires p" and "store_piece q offset payload p a = (res, a')"
  shows "all_live now a'"
proof -
  have put: "all_live now (a\<lparr>as_pending := m_put q p' (as_pending a)\<rparr>)" if "pi_expires p' = pi_expires p" for p'
    using assms(1,2) that by (auto simp: all_live_def)
  show ?thesis
    using assms(3) all_live_remove [OF assms(1)] all_live_remove [OF put] put assms(1)
    by (auto simp: store_piece_def conflict_ip_def invalid_ip_def Let_def split: if_splits)
qed

lemma all_live_datagram:
  assumes "all_live now a" and "receive_datagram d now a = (res, a')"
  shows "all_live now a'"
proof (cases rule: receive_datagram_cases [of d now a])
  case (piece tot offset payload)
  define q where "q = u32_at d 1"
  note piece = piece [folded q_def]
  show ?thesis
  proof (cases "map_of (as_pending a) q")
    case (Some p)
    then have "now < pi_expires p" using assms(1) m_all_get by (fastforce simp: all_live_def)
    then show ?thesis
      using all_live_store [OF assms(1)] assms(2) piece(1) Some by (simp add: receive_piece_def)
  next
    case None
    obtain ok r where ad: "admit q (as_retirement a) = (ok, r)" by fastforce
    define b where "b = a\<lparr>as_retirement := r\<rparr>"
    have b: "all_live now b" using assms(1) by (simp add: b_def)
    obtain p c where o: "open_partial tot now b = (p, c)" by fastforce
    have "all_live now (evict_oldest b)" using all_live_remove [OF b] by (simp add: evict_oldest_def)
    then have "all_live now c" "now < pi_expires p"
      using o b by (auto simp: open_partial_def Let_def split: if_splits)
    then show ?thesis
      using all_live_store [of now c p] b assms(2) piece(1)
      by (auto simp: receive_piece_def None ad Let_def b_def [symmetric] o retired_ip_def split: if_splits)
  qed
qed (use assms all_live_remove [OF assms(1)] in
    \<open>auto simp: invalid_ip_def conflict_ip_def receive_whole_def retired_ip_def Let_def split_beta
       split: if_splits\<close>)

lemma receive_live:
  assumes "assembler_ok now a" and "receive_ip d now a = (res, a')"
  shows "\<forall>q x. map_of (as_pending a') q = Some x \<longrightarrow> now < pi_expires x"
proof -
  define c where "c = tally (\<lambda>s. s\<lparr>st_fragments := st_fragments s + 1,
    st_bytes := st_bytes s + word_of_nat (length d)\<rparr>) (expire_ip now a)"
  obtain r e where rd: "receive_datagram d now c = (r, e)" by fastforce
  have ok: "m_ok (as_pending a)" "m_ok (as_pending c)"
    using assms(1) expire_ip_ok [OF assms(1), of now] by (auto simp: c_def assembler_ok_def)
  then have "map_of (as_pending c) q = Some x \<Longrightarrow> now < pi_expires x" for q x
    by (auto simp: c_def as_pending_expire split: option.splits if_splits)
  then have "all_live now c" using ok(2) by (auto simp: all_live_def m_all_def map_of_in_ok)
  then have "all_live now e" by (rule all_live_datagram [OF _ rd])
  moreover have "a' = publish e"
    using assms(2) rd by (simp add: receive_ip_def Let_def c_def [symmetric])
  ultimately show ?thesis using m_all_get by (fastforce simp: all_live_def publish_def)
qed

text \<open>
  C19 (no_replay): once an assembler has delivered a packet, it delivers no further packet with
  the same ID, whatever datagrams arrive, in whatever order and at whatever times, until the
  IDs on the link have advanced by more than half their number space.
\<close>

theorem no_replay:
  assumes "assembler_ok now a" and "receive_ip d now a = (Inr (Some p), a')"
    and "unat (newest a' - u32_at d 1) + moved ds a' \<le> 2 ^ 31"
    and "i < length ds" and "u32_at (fst (ds ! i)) 1 = u32_at d 1"
  shows "fst (receive_all ds a') ! i \<noteq> Inr (Some p')"
proof -
  define c where "c = tally (\<lambda>s. s\<lparr>st_fragments := st_fragments s + 1,
    st_bytes := st_bytes s + word_of_nat (length d)\<rparr>) (expire_ip now a)"
  obtain r e where rd: "receive_datagram d now c = (r, e)" by fastforce
  have c: "assembler_ok now c" using expire_ip_ok [OF assms(1)] by (simp add: c_def)
  have "r = Inr (Some p)" "a' = publish e"
    using assms(2) rd by (simp_all add: receive_ip_def Let_def c_def [symmetric])
  then have "shut (u32_at d 1) (unat (newest a' - u32_at d 1)) a'"
    using delivered_datagram [OF c, of d p e] rd by simp
  then show ?thesis by (rule shut_receive_all) (use assms in simp_all)
qed

text \<open>
  C20 (assembler_bounded): whatever datagrams arrive, an assembler keeps at most 32 incomplete
  packets of at most 42240 bytes, its byte count is exactly the sum of their sizes, no entry
  outlives its deadline by a further call, and every packet it hands up is a valid IP packet.
\<close>

theorem assembler_bounded:
  assumes "assembler_ok t a" and "t \<le> now" and "receive_ip d now a = (res, a')"
  shows "length (as_pending a') \<le> ip_pending_limit
    \<and> as_bytes a' = m_sum piece_size (as_pending a')
    \<and> 0 \<le> as_bytes a' \<and> as_bytes a' \<le> int ip_pending_bytes
    \<and> (\<forall>q x. map_of (as_pending a') q = Some x \<longrightarrow> now < pi_expires x \<and> pi_expires x \<le> now + ip_lifetime)
    \<and> (\<forall>x. res = Inr (Some x) \<longrightarrow> valid_ip x)
    \<and> assembler_ok now a' \<and> assembler_ok now (discard_ip a')"
proof -
  have a: "assembler_ok now a" using assms assembler_ok_mono by blast
  note r = receive_ip_ok [OF a assms(3)]
  have a': "assembler_ok now a'" using r by blast
  have live: "now < pi_expires x" if "map_of (as_pending a') q = Some x" for q x
    using receive_live [OF a assms(3)] that by blast
  have "length (as_pending a') \<le> 32" using a' by (simp add: assembler_ok_def)
  moreover have "pi_expires x \<le> now + ip_lifetime" if "map_of (as_pending a') q = Some x" for q x
    using a' m_all_get [OF _ that] by (fastforce simp: assembler_ok_def partial_ok_def)
  moreover have "as_bytes a' \<le> 42240" "0 \<le> as_bytes a'"
    using assembler_bytes_le [OF a'] calculation(1) by auto
  ultimately show ?thesis using r discard_ip_ok [OF a'] a' live by (simp add: assembler_ok_def)
qed

definition sample_packet :: "nat \<Rightarrow> bytes" where
  "sample_packet n = [0x60, 0, 0, 0] @ be_bytes 2 (word_of_nat n :: u16) @ replicate (n + 34) 7"

lemma sample_packet_valid: "n \<le> 1280 \<Longrightarrow> valid_ip (sample_packet n)"
proof -
  assume n: "n \<le> 1280"
  have "take 2 (drop 4 (sample_packet n)) = be_bytes 2 (word_of_nat n :: u16)"
    by (simp add: sample_packet_def)
  then have "unat (u16_at (sample_packet n) 4) = n"
    using n by (simp only: u16_at_def) (simp add: be_simps unat_u16_small)
  moreover have "drop_bit 4 (sample_packet n ! 0) = 6" by (simp add: sample_packet_def)
  ultimately show ?thesis using n by (simp add: valid_ip_def Let_def sample_packet_def)
qed

theorem fragments_reassemble_witness:
  "\<exists>ds. encode_ip 1 (sample_packet 1200) = Some ds \<and> length ds = 2 \<and>
     fst (receive_all (zip (rev ds) [0, 1]) (new_assembler False)) = [Inr None, Inr (Some (sample_packet 1200))]"
proof -
  have v: "valid_ip (sample_packet 1200)" by (rule sample_packet_valid) simp
  then obtain ds where ds: "encode_ip 1 (sample_packet 1200) = Some ds" by (simp add: encode_ip_def)
  then have l: "length ds = 2"
    by (cases rule: encode_ip_cases) (simp_all add: sample_packet_def)
  have "fst (receive_all (zip (rev ds) [0, 1]) (new_assembler False)) =
      replicate (length ds - 1) (Inr None) @ [Inr (Some (sample_packet 1200))]"
    by (rule fragments_reassemble [OF ds _ new_assembler_ok [of 0], THEN conjunct1])
      (simp_all add: l new_assembler_def ahead_def)
  then show ?thesis using ds l by (simp add: numeral_2_eq_2)
qed

definition sample_fragment :: bytes where
  "sample_fragment = ip_fragment 7 (sample_packet 0) 0 40"

lemma sample_received:
  obtains a' where "receive_ip sample_fragment 0 (new_assembler False) = (Inr (Some (sample_packet 0)), a')"
    and "newest a' = 7"
proof -
  obtain res a' where rc: "receive_ip (ip_fragment 7 (sample_packet 0) 0 (length (sample_packet 0))) 0
      (new_assembler False) = (res, a')" by fastforce
  have "res = Inr (Some (sample_packet 0)) \<and> map_of (as_pending a') 7 = None \<and> newest a' = 7"
    by (rule receive_single [OF new_assembler_ok _ _ sample_packet_valid _ rc])
      (simp_all add: new_assembler_def ahead_def sample_packet_def)
  then show thesis using rc that by (simp add: sample_fragment_def sample_packet_def)
qed

theorem no_replay_witness:
  "fst (receive_ip sample_fragment 5 (snd (receive_ip sample_fragment 0 (new_assembler False))))
     \<noteq> Inr (Some (sample_packet 0))"
proof -
  obtain a' where a': "receive_ip sample_fragment 0 (new_assembler False) = (Inr (Some (sample_packet 0)), a')"
    and n1: "newest a' = 7" by (rule sample_received)
  have q: "u32_at sample_fragment 1 = 7" by (simp only: sample_fragment_def ip_fragment_reads(2))
  have n: "newest a' = 7" "newest (snd (receive_ip sample_fragment 5 a')) = 7"
    using newest_receive [of sample_fragment 5 a'] n1 unfolding q by simp_all
  have "fst (receive_all [(sample_fragment, 5)] a') ! 0 \<noteq> Inr (Some (sample_packet 0))"
    by (rule no_replay [OF new_assembler_ok a']) (simp_all only: q n fst_conv nth_Cons_0 moved.simps, simp_all)
  then show ?thesis by (simp add: a' split_beta)
qed

theorem assembler_bounded_witness:
  "length (as_pending (snd (receive_ip sample_fragment 3 (new_assembler True)))) \<le> 32
    \<and> as_bytes (snd (receive_ip sample_fragment 3 (new_assembler True))) \<le> 42240
    \<and> assembler_ok 3 (snd (receive_ip sample_fragment 3 (new_assembler True)))"
  using assembler_bounded [OF new_assembler_ok [of 0 True], of 3 sample_fragment]
  by (cases "receive_ip sample_fragment 3 (new_assembler True)") simp

subsection \<open>Eviction\<close>

lemma oldest_scan_min:
  assumes "\<forall>e \<in> set xs. pi_order (snd e) \<noteq> 0"
  shows "(best = (k0, 0) \<or> snd best \<noteq> 0) \<Longrightarrow>
    let r = fold oldest_scan xs best in
      (r = best \<and> (snd best = 0 \<longrightarrow> xs = [])
         \<or> (\<exists>e \<in> set xs. r = (fst e, pi_order (snd e))))
      \<and> (\<forall>e \<in> set xs. snd r \<le> pi_order (snd e))
      \<and> (snd best \<noteq> 0 \<longrightarrow> snd r \<le> snd best)"
  using assms
proof (induction xs arbitrary: best)
  case (Cons e xs)
  have ih: "let r = fold oldest_scan xs (oldest_scan e best) in
      (r = oldest_scan e best \<and> (snd (oldest_scan e best) = 0 \<longrightarrow> xs = [])
         \<or> (\<exists>e \<in> set xs. r = (fst e, pi_order (snd e))))
      \<and> (\<forall>e \<in> set xs. snd r \<le> pi_order (snd e))
      \<and> (snd (oldest_scan e best) \<noteq> 0 \<longrightarrow> snd r \<le> snd (oldest_scan e best))"
    by (rule Cons.IH) (use Cons.prems in \<open>auto simp: oldest_scan_def\<close>)
  have e0: "pi_order (snd e) \<noteq> 0" using Cons.prems by simp
  then have s: "oldest_scan e best \<in> {best, (fst e, pi_order (snd e))}" "snd (oldest_scan e best) \<noteq> 0"
    "snd (oldest_scan e best) \<le> pi_order (snd e)" "snd best \<noteq> 0 \<longrightarrow> snd (oldest_scan e best) \<le> snd best"
    using Cons.prems(1) by (auto simp: oldest_scan_def)
  show ?case using ih s by (auto simp: Let_def)
qed simp

text \<open>
  The entry evicted at capacity is the one admitted first. The loop
  ranges over a Go map, whose order is random; as the admission numbers are distinct and
  nonzero, every order finds the same entry.
\<close>

theorem eviction_oldest:
  assumes "mset xs = mset (as_pending a)" and "as_pending a \<noteq> []"
    and "\<forall>e \<in> set (as_pending a). pi_order (snd e) \<noteq> 0"
    and "inj_on (\<lambda>e. pi_order (snd e)) (set (as_pending a))"
  shows "\<exists>e \<in> set (as_pending a). fold oldest_scan xs (0, 0) = (fst e, pi_order (snd e))
    \<and> (\<forall>e' \<in> set (as_pending a). pi_order (snd e) \<le> pi_order (snd e'))
    \<and> evict_oldest a = tally (\<lambda>s. s\<lparr>st_evicted := st_evicted s + 1\<rparr>) (remove_ip (fst e) a)"
proof -
  have set: "set xs = set (as_pending a)" using assms(1) by (metis set_mset_mset)
  have min: "\<exists>e \<in> set ys. fold oldest_scan ys (0, 0) = (fst e, pi_order (snd e))
      \<and> (\<forall>e' \<in> set ys. pi_order (snd e) \<le> pi_order (snd e'))"
    if "set ys = set (as_pending a)" for ys
    using oldest_scan_min [of ys "(0, 0)" 0] that assms(2,3) by (fastforce simp: Let_def)
  obtain e where e: "e \<in> set (as_pending a)" "fold oldest_scan xs (0, 0) = (fst e, pi_order (snd e))"
    "\<forall>e' \<in> set (as_pending a). pi_order (snd e) \<le> pi_order (snd e')"
    using min [OF set] set by auto
  obtain f where f: "f \<in> set (as_pending a)"
    "fold oldest_scan (as_pending a) (0, 0) = (fst f, pi_order (snd f))"
    "\<forall>e' \<in> set (as_pending a). pi_order (snd f) \<le> pi_order (snd e')"
    using min by blast
  have "f = e" using e f assms(4) by (meson inj_onD order.antisym)
  then show ?thesis using e f by (auto simp: evict_oldest_def)
qed

definition sample_partial :: "u64 \<Rightarrow> partial_ip" where
  "sample_partial n = \<lparr>pi_data = replicate 1200 0, pi_first = True, pi_second = False,
     pi_expires = 5, pi_order = n\<rparr>"

theorem eviction_oldest_witness:
  "fst (fold oldest_scan [(9, sample_partial 2), (4, sample_partial 3)] (0, 0)) = 9"
  using eviction_oldest [of "[(9, sample_partial 2), (4, sample_partial 3)]"
    "(new_assembler False)\<lparr>as_pending := [(4, sample_partial 3), (9, sample_partial 2)]\<rparr>"]
  by (auto simp: sample_partial_def)

end
