(* ===== verification/Mesh_Queue.thy ===== *)
theory Mesh_Queue
  imports Mesh_Packets
begin

section \<open>The send queue of a stream link (localmesh/stream\_ip\_queue.go)\<close>

text \<open>
  IPv6 packets waiting for a slow stream carrier. \<open>send_queue\<close> is the struct
  \<open>streamIPSendQueue\<close> without its mutex; \<open>sq_wake\<close> is the token in its one-slot channel.
  Byte counts and rates are Go ints, far from overflow; times and durations are nanoseconds.
  A packet is \<open>fast\<close> (small, or on the app session port) or bulk; byte budgets bound the whole
  queue, each source and the fast class. \<open>shed\<close>, the loop of \<open>recordWrite\<close>, returns None
  where the code would index an empty slice and panic.
\<close>

abbreviation (input) stream_byte_budget :: int where "stream_byte_budget \<equiv> 16384"
abbreviation (input) stream_full_packet :: int where "stream_full_packet \<equiv> 1348"
abbreviation (input) stream_min_budget :: int where "stream_min_budget \<equiv> 11864"
abbreviation (input) stream_initial_age :: int where "stream_initial_age \<equiv> 2000000000"
abbreviation (input) stream_max_age :: int where "stream_max_age \<equiv> 5000000000"
abbreviation (input) stream_fast_max :: nat where "stream_fast_max \<equiv> 256"
abbreviation (input) stream_fast_burst :: int where "stream_fast_burst \<equiv> 4"
abbreviation (input) app_session_port :: u16 where "app_session_port \<equiv> 43021"

record ip_queue_stats =
  iq_bytes :: int
  iq_packets :: int
  iq_byte_limit :: int
  iq_enqueued :: u64
  iq_dequeued :: u64
  iq_dropped_capacity :: u64
  iq_dropped_expired :: u64
  iq_last_wait_ms :: u64
  iq_max_wait_ms :: u64
  iq_age_limit_ms :: u64
  iq_write_rate :: int

record queued_packet =
  qp_sequence :: u32
  qp_data :: bytes
  qp_source :: bytes
  qp_bytes :: int
  qp_fast :: bool
  qp_queued :: int
  qp_grace :: int

record send_queue =
  sq_pending :: "queued_packet list"
  sq_stats :: ip_queue_stats
  sq_last_fast :: bytes
  sq_last_bulk :: bytes
  sq_wake :: bool
  sq_rate :: int

definition new_send_queue :: send_queue where
  "new_send_queue = \<lparr>sq_pending = [], sq_stats = \<lparr>iq_bytes = 0, iq_packets = 0, iq_byte_limit = 0,
     iq_enqueued = 0, iq_dequeued = 0, iq_dropped_capacity = 0, iq_dropped_expired = 0,
     iq_last_wait_ms = 0, iq_max_wait_ms = 0, iq_age_limit_ms = 0, iq_write_rate = 0\<rparr>,
     sq_last_fast = replicate 16 0, sq_last_bulk = replicate 16 0, sq_wake = False, sq_rate = 0\<rparr>"

definition framed_bytes :: "nat \<Rightarrow> int" where
  "framed_bytes n = (let fragments = (if chunk_limit < n then 2 else 1)
     in int n + fragments * int (fragment_header + 5))"

subsection \<open>TCP segments\<close>

text \<open>The flow key and sequence number of a complete TCP data segment.\<close>

definition tcp_segment :: "bytes \<Rightarrow> (bytes \<times> u32) option" where
  "tcp_segment p =
     (if length p < 60 \<or> drop_bit 4 (p ! 0) \<noteq> 6 then None
      else
        (let inner = (if p ! 6 = 6 then Some (replicate 8 0, 40)
               else if p ! 6 = 4 then
                 (if length p < 80 \<or> p ! 40 \<noteq> 0x45 \<or> p ! 49 \<noteq> 6
                     \<or> unat (u16_at p 42) \<noteq> length p - 40 \<or> u16_at p 46 AND 0xbfff \<noteq> 0
                  then None else Some (take 8 (drop 52 p), 60))
               else None)
         in case inner of
              None \<Rightarrow> None
            | Some (addresses, offset) \<Rightarrow>
                (let header = unat (drop_bit 4 (p ! (offset + 12))) * 4 in
                 if header < 20 \<or> length p \<le> offset + header then None
                 else Some (take 32 (drop 8 p) @ [p ! 6] @ addresses @ take 4 (drop offset p),
                   u32_at p (offset + 4)))))"

definition tcp_before :: "bytes \<Rightarrow> bytes \<Rightarrow> bool" where
  "tcp_before queued incoming =
     (case (tcp_segment queued, tcp_segment incoming) of
        (Some (k, s), Some (k', s')) \<Rightarrow> k = k' \<and> 0 < sint (s' - s)
      | _ \<Rightarrow> False)"

definition fast_routed :: "bytes \<Rightarrow> bool" where
  "fast_routed p =
     (if \<not> valid_ip p \<or> drop_bit 4 (p ! 0) \<noteq> 6 then False
      else if length p \<le> stream_fast_max then True
      else if p ! 6 \<noteq> 17 \<or> length p < 48 \<or> unat (u16_at p 44) \<noteq> length p - 40 then False
      else u16_at p 40 = app_session_port \<or> u16_at p 42 = app_session_port)"

subsection \<open>Budgets\<close>

definition byte_budget :: "send_queue \<Rightarrow> int" where
  "byte_budget q = (if sq_rate q = 0 then stream_min_budget
     else min stream_byte_budget (max stream_min_budget (sq_rate q * 150 div 1000)))"

definition source_budget :: "send_queue \<Rightarrow> int" where
  "source_budget q = max (framed_bytes tunnel_mtu) (byte_budget q div 2)"

definition fast_budget :: "send_queue \<Rightarrow> int" where
  "fast_budget q = byte_budget q - framed_bytes tunnel_mtu"

definition bytes_where :: "(queued_packet \<Rightarrow> bool) \<Rightarrow> send_queue \<Rightarrow> int" where
  "bytes_where P q = sum_list (map qp_bytes (filter P (sq_pending q)))"

definition fast_bytes :: "send_queue \<Rightarrow> int" where
  "fast_bytes q = bytes_where qp_fast q"

definition source_bytes :: "bytes \<Rightarrow> send_queue \<Rightarrow> int" where
  "source_bytes src q = bytes_where (\<lambda>p. qp_source p = src) q"

definition queue_age_limit :: "send_queue \<Rightarrow> int" where
  "queue_age_limit q =
     (if sq_rate q = 0 then stream_initial_age
      else
        (let service = (byte_budget q + stream_full_packet) * 1000000000 div sq_rate q
         in min stream_max_age (max stream_initial_age service)))"

definition over_budget :: "queued_packet \<Rightarrow> send_queue \<Rightarrow> bool" where
  "over_budget p q \<longleftrightarrow> byte_budget q < iq_bytes (sq_stats q) + qp_bytes p
     \<or> source_budget q < source_bytes (qp_source p) q + qp_bytes p
     \<or> qp_fast p \<and> fast_budget q < fast_bytes q + qp_bytes p"

subsection \<open>Removal\<close>

definition sq_remove :: "nat \<Rightarrow> send_queue \<Rightarrow> send_queue" where
  "sq_remove i q = q\<lparr>sq_pending := take i (sq_pending q) @ drop (Suc i) (sq_pending q),
     sq_stats := (sq_stats q)\<lparr>
       iq_bytes := iq_bytes (sq_stats q) - qp_bytes (sq_pending q ! i),
       iq_packets := iq_packets (sq_stats q) - 1\<rparr>\<rparr>"

definition note_capacity :: "send_queue \<Rightarrow> send_queue" where
  "note_capacity q = q\<lparr>sq_stats := (sq_stats q)\<lparr>
     iq_dropped_capacity := iq_dropped_capacity (sq_stats q) + 1\<rparr>\<rparr>"

definition sq_drop :: "nat \<Rightarrow> send_queue \<Rightarrow> send_queue" where
  "sq_drop i q = note_capacity (sq_remove i q)"

definition aged :: "int \<Rightarrow> queued_packet \<Rightarrow> queued_packet" where
  "aged limit p = p\<lparr>qp_grace := max (qp_grace p) limit\<rparr>"

definition sq_expire :: "int \<Rightarrow> send_queue \<Rightarrow> send_queue" where
  "sq_expire now q =
     (let ps = map (aged (queue_age_limit q)) (sq_pending q);
          old = filter (\<lambda>p. qp_grace p \<le> now - qp_queued p) ps
      in q\<lparr>sq_pending := filter (\<lambda>p. \<not> qp_grace p \<le> now - qp_queued p) ps,
           sq_stats := (sq_stats q)\<lparr>
             iq_bytes := iq_bytes (sq_stats q) - sum_list (map qp_bytes old),
             iq_packets := iq_packets (sq_stats q) - int (length old),
             iq_dropped_expired := iq_dropped_expired (sq_stats q) + word_of_nat (length old)\<rparr>\<rparr>)"

text \<open>The searches of the code's index loops: backwards for the last match, forwards for the first.\<close>

primrec last_index :: "('a \<Rightarrow> bool) \<Rightarrow> 'a list \<Rightarrow> nat option" where
  "last_index P [] = None"
| "last_index P (x # xs) =
     (case last_index P xs of Some i \<Rightarrow> Some (Suc i) | None \<Rightarrow> if P x then Some 0 else None)"

primrec first_index :: "('a \<Rightarrow> bool) \<Rightarrow> 'a list \<Rightarrow> nat option" where
  "first_index P [] = None"
| "first_index P (x # xs) = (if P x then Some 0 else map_option Suc (first_index P xs))"

lemma last_index_None [simp]: "last_index P xs = None \<longleftrightarrow> (\<forall>x \<in> set xs. \<not> P x)"
  by (induction xs) (auto split: option.split)

lemma last_index_SomeD:
  "last_index P xs = Some i \<Longrightarrow> i < length xs \<and> P (xs ! i) \<and> (\<forall>x \<in> set (drop (Suc i) xs). \<not> P x)"
  by (induction xs arbitrary: i) (auto split: option.splits if_splits)

lemma first_index_None [simp]: "first_index P xs = None \<longleftrightarrow> (\<forall>x \<in> set xs. \<not> P x)"
  by (induction xs) auto

lemma first_index_SomeD:
  "first_index P xs = Some i \<Longrightarrow> i < length xs \<and> P (xs ! i) \<and> (\<forall>x \<in> set (take i xs). \<not> P x)"
  by (induction xs arbitrary: i) (auto split: if_splits)

subsection \<open>Admission\<close>

definition need_fast_space :: "queued_packet \<Rightarrow> send_queue \<Rightarrow> bool" where
  "need_fast_space p q \<longleftrightarrow> qp_fast p \<and> fast_budget q < fast_bytes q + qp_bytes p"

text \<open>The later segments of the arriving packet's TCP flow, and room made by removing them.\<close>

definition later_segment :: "queued_packet \<Rightarrow> queued_packet \<Rightarrow> bool" where
  "later_segment p x = tcp_before (qp_data p) (qp_data x)"

definition reclaim_admits :: "queued_packet \<Rightarrow> send_queue \<Rightarrow> bool" where
  "reclaim_admits p q \<longleftrightarrow>
     (let reclaim = bytes_where (later_segment p) q;
          reclaim_fast = bytes_where (\<lambda>x. later_segment p x \<and> qp_fast x) q
      in iq_bytes (sq_stats q) + qp_bytes p - reclaim \<le> byte_budget q
         \<and> source_bytes (qp_source p) q + qp_bytes p - reclaim \<le> source_budget q
         \<and> (\<not> qp_fast p \<or> fast_bytes q + qp_bytes p - reclaim_fast \<le> fast_budget q))"

definition own_class_bytes :: "queued_packet \<Rightarrow> send_queue \<Rightarrow> int" where
  "own_class_bytes p q =
     bytes_where (\<lambda>x. qp_source x = qp_source p \<and> qp_fast x = qp_fast p) q"

definition priority_victim :: "queued_packet \<Rightarrow> send_queue \<Rightarrow> nat option" where
  "priority_victim p q =
     (let src = qp_source p; own = own_class_bytes p q in
      if source_budget q < source_bytes src q + qp_bytes p then
        (if \<not> qp_fast p \<or> need_fast_space p q \<or> source_budget q < own + qp_bytes p then None
         else last_index (\<lambda>x. qp_source x = src \<and> \<not> qp_fast x) (sq_pending q))
      else if own \<noteq> 0 then None
      else if qp_fast p \<and> \<not> need_fast_space p q
          \<and> 1 < length (filter (\<lambda>x. \<not> qp_fast x) (sq_pending q))
        then last_index (\<lambda>x. \<not> qp_fast x) (sq_pending q)
      else None)"

definition victim :: "queued_packet \<Rightarrow> send_queue \<Rightarrow> nat option" where
  "victim p q =
     (let v = last_index (\<lambda>x. later_segment p x \<and> (\<not> need_fast_space p q \<or> qp_fast x)) (sq_pending q)
      in if v \<noteq> None \<and> reclaim_admits p q then v
         else if bytes_where (later_segment p) q \<noteq> 0 then None
         else priority_victim p q)"

lemma victim_less: "victim p q = Some i \<Longrightarrow> i < length (sq_pending q)"
  by (auto simp: victim_def priority_victim_def Let_def dest: last_index_SomeD split: if_splits)

lemma length_sq_remove: "i < length (sq_pending q) \<Longrightarrow> length (sq_pending (sq_remove i q)) < length (sq_pending q)"
  by (simp add: sq_remove_def)

lemma note_capacity_pending [simp]: "sq_pending (note_capacity q) = sq_pending q"
  by (simp add: note_capacity_def)

function make_room :: "queued_packet \<Rightarrow> send_queue \<Rightarrow> bool \<times> send_queue" where
  "make_room p q =
     (if over_budget p q then
        (case victim p q of
           None \<Rightarrow> (False, note_capacity q)
         | Some i \<Rightarrow>
             if tcp_before (qp_data (sq_pending q ! i)) (qp_data p) then (False, note_capacity q)
             else make_room p (sq_drop i q))
      else (True, q))"
  by pat_completeness auto
termination
  by (relation "measure (\<lambda>(p, q). length (sq_pending q))")
    (auto simp: sq_drop_def intro: length_sq_remove victim_less)

declare make_room.simps [simp del]

definition insert_position :: "queued_packet \<Rightarrow> queued_packet list \<Rightarrow> nat" where
  "insert_position p ps =
     (case first_index (\<lambda>x. qp_fast x = qp_fast p \<and> tcp_before (qp_data p) (qp_data x)) ps of
        None \<Rightarrow> length ps | Some i \<Rightarrow> i)"

definition arriving :: "u32 \<Rightarrow> bytes \<Rightarrow> int \<Rightarrow> send_queue \<Rightarrow> queued_packet" where
  "arriving sequence data now q = \<lparr>qp_sequence = sequence, qp_data = data,
     qp_source = take 16 (drop 8 data), qp_bytes = framed_bytes (length data),
     qp_fast = fast_routed data, qp_queued = now, qp_grace = queue_age_limit q\<rparr>"

definition sq_insert :: "queued_packet \<Rightarrow> send_queue \<Rightarrow> send_queue" where
  "sq_insert p q =
     (let i = insert_position p (sq_pending q) in
      q\<lparr>sq_pending := take i (sq_pending q) @ p # drop i (sq_pending q),
        sq_stats := (sq_stats q)\<lparr>iq_bytes := iq_bytes (sq_stats q) + qp_bytes p,
          iq_packets := iq_packets (sq_stats q) + 1, iq_enqueued := iq_enqueued (sq_stats q) + 1\<rparr>,
        sq_wake := True\<rparr>)"

definition enqueue :: "u32 \<Rightarrow> bytes \<Rightarrow> int \<Rightarrow> send_queue \<Rightarrow> bool \<times> send_queue" where
  "enqueue sequence data now q =
     (if \<not> valid_ip data \<or> drop_bit 4 (data ! 0) \<noteq> 6 then (False, q)
      else
        (let q1 = sq_expire now q;
             p = arriving sequence data now q1;
             (ok, q2) = make_room p q1
         in if ok then (True, sq_insert p q2) else (False, q2)))"

subsection \<open>Write completions\<close>

definition over_capacity :: "send_queue \<Rightarrow> bool" where
  "over_capacity q \<longleftrightarrow> byte_budget q < iq_bytes (sq_stats q) \<or> fast_budget q < fast_bytes q"

definition shed_victim :: "send_queue \<Rightarrow> nat" where
  "shed_victim q =
     (case last_index (\<lambda>p. qp_fast p = (fast_budget q < fast_bytes q)) (sq_pending q) of
        None \<Rightarrow> length (sq_pending q) - 1 | Some i \<Rightarrow> i)"

lemma shed_victim_less: "sq_pending q \<noteq> [] \<Longrightarrow> shed_victim q < length (sq_pending q)"
  by (auto simp: shed_victim_def dest: last_index_SomeD split: option.split)

function shed :: "send_queue \<Rightarrow> send_queue option" where
  "shed q =
     (if over_capacity q then
        (if sq_pending q = [] then None else shed (sq_drop (shed_victim q) q))
      else Some q)"
  by pat_completeness auto
termination
  by (relation "measure (\<lambda>q. length (sq_pending q))")
    (auto simp: sq_drop_def intro: length_sq_remove shed_victim_less)

declare shed.simps [simp del]

text \<open>\<open>sample\<close> is the truncated floating-point quotient of bytes and elapsed seconds.\<close>

definition next_rate :: "int \<Rightarrow> int \<Rightarrow> int" where
  "next_rate sample rate =
     (let r = min 102400 sample in
      if rate = 0 then min r 16384
      else if r < rate then r
      else min r (rate + max 1 (rate div 4)))"

definition record_write :: "int \<Rightarrow> int \<Rightarrow> int \<Rightarrow> send_queue \<Rightarrow> send_queue option" where
  "record_write sample elapsed now q =
     (if elapsed \<le> 0 then Some q
      else shed (sq_expire now (q\<lparr>sq_rate := next_rate sample (sq_rate q)\<rparr>)))"

subsection \<open>Service\<close>

definition next_index :: "bool \<Rightarrow> send_queue \<Rightarrow> nat option" where
  "next_index fast q =
     (let previous = (if fast then sq_last_fast q else sq_last_bulk q) in
      case first_index (\<lambda>p. qp_fast p = fast \<and> qp_source p \<noteq> previous) (sq_pending q) of
        Some i \<Rightarrow> Some i
      | None \<Rightarrow> first_index (\<lambda>p. qp_fast p = fast) (sq_pending q))"

definition note_served :: "int \<Rightarrow> queued_packet \<Rightarrow> bool \<Rightarrow> int \<Rightarrow> send_queue \<Rightarrow> send_queue" where
  "note_served now p fast served q =
     (let wait = word_of_int (max 0 ((now - qp_queued p) div 1000000));
          q = q\<lparr>sq_stats := (sq_stats q)\<lparr>iq_dequeued := iq_dequeued (sq_stats q) + 1,
                iq_last_wait_ms := wait, iq_max_wait_ms := max (iq_max_wait_ms (sq_stats q)) wait\<rparr>\<rparr>
      in if fast then q\<lparr>sq_last_fast := qp_source p\<rparr> else q\<lparr>sq_last_bulk := qp_source p\<rparr>)"

text \<open>The result is the packet, if any, the new count of fast packets served in a row, and the queue.\<close>

definition sq_pop :: "int \<Rightarrow> int \<Rightarrow> send_queue \<Rightarrow> queued_packet option \<times> int \<times> send_queue" where
  "sq_pop now served q0 =
     (let q = sq_expire now q0 in
      if sq_pending q = [] then (None, served, q)
      else
        (let wish = (served < stream_fast_burst);
             fast = (if next_index wish q = None then \<not> wish else wish)
         in case next_index fast q of
              None \<Rightarrow> (None, served, q)
            | Some i \<Rightarrow>
                (let p = sq_pending q ! i in
                 (Some p, if fast then served + 1 else 0,
                  note_served now p fast served (sq_remove i q)))))"

definition queue_snapshot :: "send_queue \<Rightarrow> ip_queue_stats" where
  "queue_snapshot q = (sq_stats q)\<lparr>
     iq_age_limit_ms := word_of_int (queue_age_limit q div 1000000),
     iq_write_rate := sq_rate q, iq_byte_limit := byte_budget q\<rparr>"

end
