(* ===== verification/Mesh_Queue_Props.thy ===== *)
theory Mesh_Queue_Props
  imports Mesh_Queue "HOL-Library.Sublist"
begin

section \<open>The send queue: accounting, budgets and order\<close>

text \<open>
  \<open>queue_ok\<close> is the invariant of the queue; \<open>queue_reachable\<close> are the states its operations
  produce. The lemmas follow the operations: removal, expiry, making room, insertion, shedding.
\<close>

subsection \<open>The invariant\<close>

definition packet_ok :: "queued_packet \<Rightarrow> bool" where
  "packet_ok p \<longleftrightarrow> valid_ip (qp_data p) \<and> drop_bit 4 (qp_data p ! 0) = 6
     \<and> qp_source p = take 16 (drop 8 (qp_data p))
     \<and> qp_bytes p = framed_bytes (length (qp_data p)) \<and> qp_fast p = fast_routed (qp_data p)
     \<and> stream_initial_age \<le> qp_grace p \<and> qp_grace p \<le> stream_max_age"

definition counted :: "send_queue \<Rightarrow> bool" where
  "counted q \<longleftrightarrow> iq_bytes (sq_stats q) = sum_list (map qp_bytes (sq_pending q))
     \<and> iq_packets (sq_stats q) = int (length (sq_pending q))"

definition within_budget :: "send_queue \<Rightarrow> bool" where
  "within_budget q \<longleftrightarrow> iq_bytes (sq_stats q) \<le> byte_budget q \<and> fast_bytes q \<le> fast_budget q"

definition queue_sane :: "send_queue \<Rightarrow> bool" where
  "queue_sane q \<longleftrightarrow> counted q \<and> (\<forall>p \<in> set (sq_pending q). packet_ok p)
     \<and> 0 \<le> sq_rate q \<and> sq_rate q \<le> 102400"

definition queue_ok :: "send_queue \<Rightarrow> bool" where
  "queue_ok q \<longleftrightarrow> queue_sane q \<and> within_budget q"

lemma framed_bytes_pos: "20 \<le> n \<Longrightarrow> n \<le> tunnel_mtu \<Longrightarrow> 34 \<le> framed_bytes n \<and> framed_bytes n \<le> 1348"
  by (auto simp: framed_bytes_def Let_def)

lemma packet_bytes: "packet_ok p \<Longrightarrow> 34 \<le> qp_bytes p \<and> qp_bytes p \<le> 1348"
  using framed_bytes_pos [of "length (qp_data p)"] by (simp add: packet_ok_def valid_ip_def)

lemma byte_budget_bounds: "11864 \<le> byte_budget q \<and> byte_budget q \<le> 16384"
  by (simp add: byte_budget_def)

lemma fast_budget_bounds: "10516 \<le> fast_budget q \<and> fast_budget q \<le> 15036"
  using byte_budget_bounds [of q] by (simp add: fast_budget_def framed_bytes_def)

lemma source_budget_bounds: "5932 \<le> source_budget q \<and> source_budget q \<le> 8192"
  using byte_budget_bounds [of q] by (auto simp: source_budget_def framed_bytes_def)

lemma queue_age_bounds:
  "stream_initial_age \<le> queue_age_limit q \<and> queue_age_limit q \<le> stream_max_age"
  by (simp add: queue_age_limit_def Let_def)

lemma budget_cong:
  "sq_rate q = sq_rate q' \<Longrightarrow> byte_budget q = byte_budget q'"
  "sq_rate q = sq_rate q' \<Longrightarrow> fast_budget q = fast_budget q'"
  "sq_rate q = sq_rate q' \<Longrightarrow> source_budget q = source_budget q'"
  "sq_rate q = sq_rate q' \<Longrightarrow> queue_age_limit q = queue_age_limit q'"
  unfolding byte_budget_def fast_budget_def source_budget_def queue_age_limit_def
  by presburger+

subsection \<open>Sums over the pending packets\<close>

lemma sum_filter_split:
  "i < length xs \<Longrightarrow> sum_list (map f (filter P (take i xs @ drop (Suc i) xs))) =
     sum_list (map f (filter P xs)) - (if P (xs ! i) then f (xs ! i) else (0 :: int))"
  by (subst (3) id_take_nth_drop [of i xs]) simp_all

lemma sum_filter_insert:
  "sum_list (map f (filter P (take i xs @ x # drop i xs))) =
     sum_list (map f (filter P xs)) + (if P x then f x else (0 :: int))"
proof -
  have "sum_list (map f (filter P xs))
      = sum_list (map f (filter P (take i xs))) + sum_list (map f (filter P (drop i xs)))"
    by (metis append_take_drop_id filter_append map_append sum_list_append)
  then show ?thesis by simp
qed

lemma sum_filter_nonneg:
  "(\<And>x. x \<in> set xs \<Longrightarrow> 0 \<le> f x) \<Longrightarrow> 0 \<le> sum_list (map f (filter P xs)) \<and>
     sum_list (map f (filter (\<lambda>x. P x \<and> Q x) xs)) \<le> (sum_list (map f (filter P xs)) :: int)"
  by (induction xs) (simp_all add: add_increasing)

lemma sum_filter_part:
  "sum_list (map f (filter P xs)) + sum_list (map f (filter (\<lambda>x. \<not> P x) xs))
     = (sum_list (map f xs) :: int)"
  by (induction xs) auto

lemma bytes_where_mono:
  assumes "\<forall>p \<in> set (sq_pending q). packet_ok p" "\<And>x. Q x \<Longrightarrow> P x"
  shows "0 \<le> bytes_where Q q" "bytes_where Q q \<le> bytes_where P q"
proof -
  have "\<And>x. x \<in> set (sq_pending q) \<Longrightarrow> 0 \<le> qp_bytes x" using assms(1) packet_bytes by force
  note * = sum_filter_nonneg [where f = qp_bytes, OF this]
  have "(\<lambda>x. P x \<and> Q x) = Q" using assms(2) by auto
  then show "0 \<le> bytes_where Q q" "bytes_where Q q \<le> bytes_where P q"
    using * [where P = Q] * [where P = P and Q = Q] by (simp_all add: bytes_where_def)
qed

lemma bytes_where_all: "counted q \<Longrightarrow> bytes_where (\<lambda>_. True) q = iq_bytes (sq_stats q)"
  by (simp add: bytes_where_def counted_def)

lemma bytes_where_le_all:
  "counted q \<Longrightarrow> \<forall>p \<in> set (sq_pending q). packet_ok p \<Longrightarrow> bytes_where P q \<le> iq_bytes (sq_stats q)"
  using bytes_where_mono(2) [of q P "\<lambda>_. True"] bytes_where_all [of q] by simp

lemma bytes_where_pos_elem:
  assumes "\<forall>p \<in> set (sq_pending q). packet_ok p"
  shows "bytes_where P q = 0 \<longleftrightarrow> (\<forall>x \<in> set (sq_pending q). \<not> P x)"
  unfolding bytes_where_def using assms
proof (induction "sq_pending q" arbitrary: q)
  case (Cons a xs)
  have "packet_ok a" "\<forall>p \<in> set xs. packet_ok p" using Cons.prems Cons.hyps(2) by (metis list.set_intros)+
  then have "0 \<le> sum_list (map qp_bytes (filter P xs))"
    using sum_filter_nonneg [of xs qp_bytes P P] packet_bytes by (meson order_trans zero_le_numeral)
  moreover have "sum_list (map qp_bytes (filter P xs)) = 0 \<longleftrightarrow> (\<forall>x \<in> set xs. \<not> P x)"
    using Cons.hyps(1) [of "q\<lparr>sq_pending := xs\<rparr>"] \<open>\<forall>p \<in> set xs. packet_ok p\<close> by simp
  ultimately show ?case
    using packet_bytes [OF \<open>packet_ok a\<close>] by (auto simp flip: Cons.hyps(2))
qed simp

subsection \<open>Removal and expiry\<close>

lemma sq_drop_simps [simp]:
  "sq_pending (sq_drop i q) = take i (sq_pending q) @ drop (Suc i) (sq_pending q)"
  "sq_rate (sq_drop i q) = sq_rate q"
  "sq_rate (sq_remove i q) = sq_rate q"
  "sq_last_fast (sq_remove i q) = sq_last_fast q" "sq_last_bulk (sq_remove i q) = sq_last_bulk q"
  by (simp_all add: sq_drop_def sq_remove_def note_capacity_def)

lemma bytes_where_drop:
  "i < length (sq_pending q) \<Longrightarrow> bytes_where P (sq_drop i q) =
     bytes_where P q - (if P (sq_pending q ! i) then qp_bytes (sq_pending q ! i) else 0)"
  unfolding bytes_where_def sq_drop_simps by (rule sum_filter_split)

lemma counted_remove:
  "counted q \<Longrightarrow> i < length (sq_pending q) \<Longrightarrow> counted (sq_remove i q)"
  using sum_filter_split [of i "sq_pending q" qp_bytes "\<lambda>_. True"]
  by (auto simp: counted_def sq_remove_def min_def)

lemma counted_drop:
  "counted q \<Longrightarrow> i < length (sq_pending q) \<Longrightarrow> counted (sq_drop i q)"
  using counted_remove [of q i] by (simp add: counted_def sq_drop_def note_capacity_def)

lemma remove_subset: "set (take i xs @ drop (Suc i) xs) \<subseteq> set xs"
  by (auto dest: in_set_takeD in_set_dropD)

lemma queue_sane_drop: "queue_sane q \<Longrightarrow> i < length (sq_pending q) \<Longrightarrow> queue_sane (sq_drop i q)"
  using remove_subset [of i "sq_pending q"] by (auto simp: queue_sane_def intro: counted_drop)

lemma queue_sane_remove: "queue_sane q \<Longrightarrow> i < length (sq_pending q) \<Longrightarrow> queue_sane (sq_remove i q)"
  using remove_subset [of i "sq_pending q"]
  by (auto simp: queue_sane_def sq_remove_def [of i q] intro: counted_remove [unfolded sq_remove_def])

lemma subseq_remove: "subseq (take i xs @ drop (Suc i) xs) xs"
proof (cases "i < length xs")
  case True
  then have "xs = take i xs @ [xs ! i] @ drop (Suc i) xs" using id_take_nth_drop by auto
  then show ?thesis by (metis list_emb_append2 subseq_order.order_refl list_emb_append_mono)
qed simp

lemma aged_simps [simp]:
  "qp_data (aged l p) = qp_data p" "qp_source (aged l p) = qp_source p"
  "qp_bytes (aged l p) = qp_bytes p" "qp_fast (aged l p) = qp_fast p"
  "qp_queued (aged l p) = qp_queued p" "qp_sequence (aged l p) = qp_sequence p"
  "qp_grace (aged l p) = max (qp_grace p) l"
  by (simp_all add: aged_def)

lemma sq_expire_simps [simp]:
  "sq_rate (sq_expire now q) = sq_rate q" "sq_last_fast (sq_expire now q) = sq_last_fast q"
  "sq_last_bulk (sq_expire now q) = sq_last_bulk q" "sq_wake (sq_expire now q) = sq_wake q"
  by (simp_all add: sq_expire_def Let_def)

lemma sq_expire_pending:
  "sq_pending (sq_expire now q) =
     filter (\<lambda>p. now - qp_queued p < qp_grace p) (map (aged (queue_age_limit q)) (sq_pending q))"
  by (simp add: sq_expire_def Let_def not_le)

lemma sum_aged: "sum_list (map qp_bytes (map (aged l) ps)) = sum_list (map qp_bytes ps)"
  by (induction ps) auto

lemma counted_expire: "counted q \<Longrightarrow> counted (sq_expire now q)"
  using sum_filter_part [of qp_bytes "\<lambda>p. qp_grace p \<le> now - qp_queued p"
      "map (aged (queue_age_limit q)) (sq_pending q)"]
    sum_length_filter_compl [of "\<lambda>p. qp_grace p \<le> now - qp_queued p"
      "map (aged (queue_age_limit q)) (sq_pending q)"]
  unfolding sum_aged by (simp add: counted_def sq_expire_def Let_def)

lemma packet_ok_aged: "packet_ok p \<Longrightarrow> packet_ok (aged (queue_age_limit q) p)"
  using queue_age_bounds [of q] by (auto simp: packet_ok_def)

lemma queue_sane_expire: "queue_sane q \<Longrightarrow> queue_sane (sq_expire now q)"
  by (auto simp: queue_sane_def sq_expire_pending intro: counted_expire packet_ok_aged)

lemma bytes_where_expire:
  assumes "\<forall>p \<in> set (sq_pending q). packet_ok p" "\<And>p. P (aged (queue_age_limit q) p) = P p"
  shows "bytes_where P (sq_expire now q) \<le> bytes_where P q"
proof -
  let ?ps = "map (aged (queue_age_limit q)) (sq_pending q)"
  have "\<And>x. x \<in> set ?ps \<Longrightarrow> 0 \<le> qp_bytes x" using assms(1) packet_bytes by force
  then have "sum_list (map qp_bytes (filter (\<lambda>x. P x \<and> now - qp_queued x < qp_grace x) ?ps))
      \<le> sum_list (map qp_bytes (filter P ?ps))"
    by (rule sum_filter_nonneg [THEN conjunct2])
  moreover have "filter (\<lambda>x. P x \<and> now - qp_queued x < qp_grace x) ?ps = filter P (sq_pending (sq_expire now q))"
    by (simp add: sq_expire_pending conj_commute)
  moreover have "sum_list (map qp_bytes (filter P ?ps)) = bytes_where P q"
    by (simp add: bytes_where_def filter_map comp_def assms(2))
  ultimately show ?thesis by (simp add: bytes_where_def)
qed

lemma within_budget_expire: "queue_ok q \<Longrightarrow> within_budget (sq_expire now q)"
proof -
  assume "queue_ok q"
  then have q: "counted q" "\<forall>p \<in> set (sq_pending q). packet_ok p" "within_budget q"
    by (auto simp: queue_ok_def queue_sane_def)
  have "iq_bytes (sq_stats (sq_expire now q)) \<le> iq_bytes (sq_stats q)"
    using bytes_where_expire [OF q(2), of "\<lambda>_. True" now] q(1)
    by (simp flip: bytes_where_all add: counted_expire)
  moreover have "fast_bytes (sq_expire now q) \<le> fast_bytes q"
    unfolding fast_bytes_def using q(2) by (rule bytes_where_expire) simp
  ultimately show ?thesis using q(3) budget_cong [of "sq_expire now q" q]
    by (simp add: within_budget_def)
qed

lemma queue_ok_expire: "queue_ok q \<Longrightarrow> queue_ok (sq_expire now q)"
  using queue_sane_expire within_budget_expire by (auto simp: queue_ok_def)

subsection \<open>Making room\<close>

text \<open>A victim is a later segment of the arriving flow, or bulk that yields to a fast packet.\<close>

lemma victim_cases:
  assumes "victim p q = Some i"
  shows "i < length (sq_pending q)"
    "later_segment p (sq_pending q ! i) \<and> reclaim_admits p q
      \<or> (qp_fast p \<and> \<not> qp_fast (sq_pending q ! i) \<and> bytes_where (later_segment p) q = 0)"
  using assms by (auto simp: victim_def priority_victim_def Let_def dest: last_index_SomeD split: if_splits)

lemma make_room_eqs:
  "\<not> over_budget p q \<Longrightarrow> make_room p q = (True, q)"
  "over_budget p q \<Longrightarrow> victim p q = None \<Longrightarrow> make_room p q = (False, note_capacity q)"
  "over_budget p q \<Longrightarrow> victim p q = Some i \<Longrightarrow> tcp_before (qp_data (sq_pending q ! i)) (qp_data p) \<Longrightarrow>
     make_room p q = (False, note_capacity q)"
  "over_budget p q \<Longrightarrow> victim p q = Some i \<Longrightarrow> \<not> tcp_before (qp_data (sq_pending q ! i)) (qp_data p) \<Longrightarrow>
     make_room p q = make_room p (sq_drop i q)"
  by (subst make_room.simps, simp)+

lemma make_room_rule [case_names fits stops drops]:
  assumes "\<And>q. \<not> over_budget p q \<Longrightarrow> P q (True, q)"
    "\<And>q. over_budget p q \<Longrightarrow> P q (False, note_capacity q)"
    "\<And>q i. over_budget p q \<Longrightarrow> victim p q = Some i \<Longrightarrow>
       \<not> tcp_before (qp_data (sq_pending q ! i)) (qp_data p) \<Longrightarrow>
       P (sq_drop i q) (make_room p (sq_drop i q)) \<Longrightarrow> P q (make_room p (sq_drop i q))"
  shows "P q (make_room p q)"
  using assms
proof (induction p q rule: make_room.induct)
  case (1 p q)
  note prems = 1(2-4)
  consider (fit) "\<not> over_budget p q" | (none) "over_budget p q" "victim p q = None"
    | (stop) i where "over_budget p q" "victim p q = Some i"
        "tcp_before (qp_data (sq_pending q ! i)) (qp_data p)"
    | (drop) i where "over_budget p q" "victim p q = Some i"
        "\<not> tcp_before (qp_data (sq_pending q ! i)) (qp_data p)"
    by (cases "victim p q") auto
  then show ?case
  proof cases
    case fit
    then show ?thesis unfolding make_room_eqs(1) [OF fit] by (rule prems(1))
  next
    case none
    then show ?thesis unfolding make_room_eqs(2) [OF none] by (intro prems(2))
  next
    case stop
    then show ?thesis unfolding make_room_eqs(3) [OF stop] by (intro prems(2))
  next
    case drop
    show ?thesis unfolding make_room_eqs(4) [OF drop]
      by (rule prems(3) [OF drop 1(1) [OF drop prems]])
  qed
qed

lemma note_capacity_simps [simp]:
  "sq_rate (note_capacity q) = sq_rate q" "iq_bytes (sq_stats (note_capacity q)) = iq_bytes (sq_stats q)"
  "queue_sane (note_capacity q) = queue_sane q" "bytes_where P (note_capacity q) = bytes_where P q"
  "within_budget (note_capacity q) = within_budget q"
  by (simp_all add: note_capacity_def queue_sane_def counted_def bytes_where_def fast_bytes_def
      within_budget_def byte_budget_def fast_budget_def)

lemma make_room_rate: "sq_rate (snd (make_room p q)) = sq_rate q"
  by (rule make_room_rule) auto

lemma make_room_subseq: "subseq (sq_pending (snd (make_room p q))) (sq_pending q)"
proof (rule make_room_rule [where P = "\<lambda>q r. subseq (sq_pending (snd r)) (sq_pending q)"])
  fix q i assume "subseq (sq_pending (snd (make_room p (sq_drop i q)))) (sq_pending (sq_drop i q))"
  then show "subseq (sq_pending (snd (make_room p (sq_drop i q)))) (sq_pending q)"
    using subseq_remove [of i "sq_pending q"] by (auto intro: subseq_order.order_trans)
qed simp_all

lemma make_room_sane: "queue_sane q \<Longrightarrow> queue_sane (snd (make_room p q))"
  by (rule make_room_rule [where P = "\<lambda>q r. queue_sane q \<longrightarrow> queue_sane (snd r)", THEN mp])
    (auto dest: victim_cases(1) intro: queue_sane_drop)

lemma within_budget_drop:
  "queue_sane q \<Longrightarrow> within_budget q \<Longrightarrow> i < length (sq_pending q) \<Longrightarrow> within_budget (sq_drop i q)"
  using bytes_where_drop [of i q "\<lambda>_. True"] bytes_where_drop [of i q qp_fast]
    packet_bytes [of "sq_pending q ! i"] budget_cong [of "sq_drop i q" q] counted_drop [of q i]
  by (auto simp: within_budget_def queue_sane_def fast_bytes_def bytes_where_all split: if_splits)

lemma make_room_within: "queue_ok q \<Longrightarrow> within_budget (snd (make_room p q))"
  by (rule make_room_rule [where P = "\<lambda>q r. queue_ok q \<longrightarrow> within_budget (snd r)", THEN mp])
    (auto simp: queue_ok_def dest: victim_cases(1) intro: queue_sane_drop within_budget_drop)

lemma make_room_fits: "fst (make_room p q) \<Longrightarrow> \<not> over_budget p (snd (make_room p q))"
  by (rule make_room_rule [where P = "\<lambda>q r. fst r \<longrightarrow> \<not> over_budget p (snd r)", THEN mp]) auto

lemma filter_remove:
  "i < length xs \<Longrightarrow> \<not> K (xs ! i) \<Longrightarrow> filter K (take i xs @ drop (Suc i) xs) = filter K xs"
  by (subst (3) id_take_nth_drop [of i xs]) simp_all

lemma make_room_keeps:
  assumes "\<And>q i. victim p q = Some i \<Longrightarrow> K (sq_pending q ! i) \<Longrightarrow>
     tcp_before (qp_data (sq_pending q ! i)) (qp_data p)"
  shows "filter K (sq_pending (snd (make_room p q))) = filter K (sq_pending q)"
proof (rule make_room_rule [where P = "\<lambda>q r. filter K (sq_pending (snd r)) = filter K (sq_pending q)"])
  fix q i assume *: "victim p q = Some i" "\<not> tcp_before (qp_data (sq_pending q ! i)) (qp_data p)"
    "filter K (sq_pending (snd (make_room p (sq_drop i q)))) = filter K (sq_pending (sq_drop i q))"
  then show "filter K (sq_pending (snd (make_room p (sq_drop i q)))) = filter K (sq_pending q)"
    using assms filter_remove [of i "sq_pending q" K] victim_cases(1) [OF *(1)] by auto
qed simp_all

subsection \<open>Later segments of a flow\<close>

lemma sint_minus_pos: "0 < sint (a - b :: u32) \<Longrightarrow> \<not> 0 < sint (b - a)"
proof
  assume pos: "0 < sint (a - b)" "0 < sint (b - a)"
  define d where "d = a - b"
  have "sint (b - a) = signed_take_bit 31 (- sint d)"
    unfolding d_def by transfer (simp add: signed_take_bit_minus)
  moreover have "- (2 ^ 31) \<le> sint d" "sint d < 2 ^ 31"
    using sint_ge [of d] sint_lt [of d] by simp_all
  ultimately have "sint (b - a) = - sint d"
    using pos(1) by (simp add: d_def signed_take_bit_int_eq_self)
  then show False using pos by (simp add: d_def)
qed

lemma later_not_before: "later_segment p x \<Longrightarrow> \<not> tcp_before (qp_data x) (qp_data p)"
  by (auto simp: later_segment_def tcp_before_def split: option.splits dest: sint_minus_pos)

lemma tcp_segment_key:
  "tcp_segment d = Some (k, s) \<Longrightarrow> take 16 k = take 16 (drop 8 d)"
  by (auto simp: tcp_segment_def Let_def min_def split: if_splits)

lemma later_same_source:
  assumes "later_segment p x" "packet_ok x" "qp_source p = take 16 (drop 8 (qp_data p))"
  shows "qp_source x = qp_source p"
proof -
  obtain k s t where "tcp_segment (qp_data p) = Some (k, s)" "tcp_segment (qp_data x) = Some (k, t)"
    using assms(1) by (auto simp: later_segment_def tcp_before_def split: option.splits)
  from this [THEN tcp_segment_key] show ?thesis using assms(2,3) by (simp add: packet_ok_def)
qed

text \<open>Removing a later segment keeps the promise that removing them all makes room.\<close>

lemma reclaim_admits_drop:
  assumes "queue_sane q" "packet_ok p" "i < length (sq_pending q)" "later_segment p (sq_pending q ! i)"
  shows "reclaim_admits p (sq_drop i q) = reclaim_admits p q"
proof -
  have x: "packet_ok (sq_pending q ! i)" using assms(1,3) by (simp add: queue_sane_def)
  have src: "qp_source (sq_pending q ! i) = qp_source p"
    using later_same_source [OF assms(4) x] assms(2) by (simp add: packet_ok_def)
  have "iq_bytes (sq_stats (sq_drop i q)) = iq_bytes (sq_stats q) - qp_bytes (sq_pending q ! i)"
    by (simp add: sq_drop_def sq_remove_def note_capacity_def)
  then show ?thesis
    using budget_cong [of "sq_drop i q" q] assms(3,4) src
    by (simp add: reclaim_admits_def Let_def bytes_where_drop source_bytes_def fast_bytes_def algebra_simps)
qed

lemma reclaim_victim:
  assumes q: "queue_sane q" and over: "over_budget p q" and admits: "reclaim_admits p q"
  shows "\<exists>i. victim p q = Some i \<and> later_segment p (sq_pending q ! i)"
proof -
  let ?v = "last_index (\<lambda>x. later_segment p x \<and> (\<not> need_fast_space p q \<or> qp_fast x)) (sq_pending q)"
  have ok: "\<forall>p \<in> set (sq_pending q). packet_ok p" using q by (simp add: queue_sane_def)
  have "?v \<noteq> None"
  proof (cases "need_fast_space p q")
    case True
    then have "bytes_where (\<lambda>x. later_segment p x \<and> qp_fast x) q \<noteq> 0"
      using admits by (auto simp: need_fast_space_def reclaim_admits_def Let_def)
    then show ?thesis using True bytes_where_pos_elem [OF ok] by auto
  next
    case False
    then have "bytes_where (later_segment p) q \<noteq> 0"
      using over admits by (auto simp: need_fast_space_def over_budget_def reclaim_admits_def Let_def)
    then show ?thesis using False bytes_where_pos_elem [OF ok] by auto
  qed
  then obtain i where "?v = Some i" by blast
  then show ?thesis using admits last_index_SomeD [OF \<open>?v = Some i\<close>] by (simp add: victim_def Let_def)
qed

lemma make_room_reclaims:
  assumes "queue_sane q" "packet_ok p" "reclaim_admits p q"
  shows "fst (make_room p q)"
  using assms
proof (induction "length (sq_pending q)" arbitrary: q rule: less_induct)
  case less
  show ?case
  proof (cases "over_budget p q")
    case True
    obtain i where i: "victim p q = Some i" "later_segment p (sq_pending q ! i)"
      using reclaim_victim [OF less(2) True less(4)] by blast
    note less_i = victim_cases(1) [OF i(1)]
    have "fst (make_room p (sq_drop i q))"
      using less less_i i by (intro less(1)) (auto intro: queue_sane_drop simp: reclaim_admits_drop)
    then show ?thesis using make_room_eqs(4) [OF True i(1) later_not_before [OF i(2)]] by simp
  qed (simp add: make_room_eqs(1))
qed

text \<open>A rejected arrival has displaced no later segment of its flow.\<close>

lemma make_room_refusal:
  assumes "queue_sane q" "packet_ok p" "\<not> fst (make_room p q)"
  shows "filter (later_segment p) (sq_pending (snd (make_room p q))) = filter (later_segment p) (sq_pending q)"
proof -
  have "queue_sane q \<longrightarrow> \<not> fst (make_room p q)
      \<longrightarrow> filter (later_segment p) (sq_pending (snd (make_room p q))) = filter (later_segment p) (sq_pending q)"
  proof (rule make_room_rule [where P = "\<lambda>q r. queue_sane q \<longrightarrow> \<not> fst r \<longrightarrow>
      filter (later_segment p) (sq_pending (snd r)) = filter (later_segment p) (sq_pending q)"])
    fix q i
    assume *: "over_budget p q" "victim p q = Some i"
        "\<not> tcp_before (qp_data (sq_pending q ! i)) (qp_data p)"
      and IH: "queue_sane (sq_drop i q) \<longrightarrow> \<not> fst (make_room p (sq_drop i q)) \<longrightarrow>
        filter (later_segment p) (sq_pending (snd (make_room p (sq_drop i q))))
          = filter (later_segment p) (sq_pending (sq_drop i q))"
    note vc = victim_cases [OF *(2)]
    show "queue_sane q \<longrightarrow> \<not> fst (make_room p (sq_drop i q)) \<longrightarrow>
        filter (later_segment p) (sq_pending (snd (make_room p (sq_drop i q))))
          = filter (later_segment p) (sq_pending q)"
    proof (intro impI)
      assume q: "queue_sane q" and no: "\<not> fst (make_room p (sq_drop i q))"
      have "\<not> reclaim_admits p q"
        using make_room_reclaims [OF q assms(2)] make_room_eqs(4) [OF *] no by auto
      then have "bytes_where (later_segment p) q = 0" using vc(2) by blast
      moreover have "\<forall>p \<in> set (sq_pending q). packet_ok p" using q by (simp add: queue_sane_def)
      ultimately have "\<not> later_segment p (sq_pending q ! i)"
        using vc(1) by (simp add: bytes_where_pos_elem)
      then show "filter (later_segment p) (sq_pending (snd (make_room p (sq_drop i q))))
          = filter (later_segment p) (sq_pending q)"
        using IH q no vc(1) filter_remove [of i "sq_pending q" "later_segment p"]
        by (auto intro: queue_sane_drop)
    qed
  qed simp_all
  then show ?thesis using assms by blast
qed

subsection \<open>Insertion\<close>

lemma insert_position_le: "insert_position p ps \<le> length ps"
  by (auto simp: insert_position_def dest: first_index_SomeD split: option.split)

lemma insert_position_before:
  "x \<in> set (take (insert_position p ps) ps) \<Longrightarrow> qp_fast x = qp_fast p \<Longrightarrow> \<not> later_segment p x"
  by (auto simp: insert_position_def later_segment_def dest: first_index_SomeD split: option.splits)

lemma bytes_where_insert:
  "bytes_where P (sq_insert p q) = bytes_where P q + (if P p then qp_bytes p else 0)"
  by (simp add: bytes_where_def sq_insert_def Let_def sum_filter_insert
      del: filter_append map_append sum_list_append)

lemma sq_insert_simps [simp]:
  "sq_rate (sq_insert p q) = sq_rate q"
  "iq_bytes (sq_stats (sq_insert p q)) = iq_bytes (sq_stats q) + qp_bytes p"
  "sq_pending (sq_insert p q) = take (insert_position p (sq_pending q)) (sq_pending q)
     @ p # drop (insert_position p (sq_pending q)) (sq_pending q)"
  by (simp_all add: sq_insert_def Let_def)

lemma queue_sane_insert: "queue_sane q \<Longrightarrow> packet_ok p \<Longrightarrow> queue_sane (sq_insert p q)"
  using bytes_where_insert [of "\<lambda>_. True" p q] insert_position_le [of p "sq_pending q"]
  by (auto simp: queue_sane_def counted_def bytes_where_def sq_insert_def Let_def
      dest: in_set_takeD in_set_dropD)

lemma insert_fits:
  assumes "\<not> over_budget p q" "within_budget q"
  shows "within_budget (sq_insert p q)"
    "source_bytes (qp_source p) (sq_insert p q) \<le> source_budget (sq_insert p q)"
  using assms budget_cong [of "sq_insert p q" q]
  by (auto simp: within_budget_def over_budget_def fast_bytes_def source_bytes_def bytes_where_insert)

lemma arriving_ok:
  "valid_ip d \<Longrightarrow> drop_bit 4 (d ! 0) = 6 \<Longrightarrow> packet_ok (arriving s d now q)"
  using queue_age_bounds [of q] by (simp add: arriving_def packet_ok_def)

lemma enqueue_cases:
  obtains (invalid) "\<not> (valid_ip d \<and> drop_bit 4 (d ! 0) = 6)" "enqueue s d now q = (False, q)"
  | (room) p q1 q2 where "valid_ip d" "drop_bit 4 (d ! 0) = 6" "q1 = sq_expire now q"
      "p = arriving s d now q1" "make_room p q1 = (True, q2)" "enqueue s d now q = (True, sq_insert p q2)"
  | (full) p q1 q2 where "valid_ip d" "drop_bit 4 (d ! 0) = 6" "q1 = sq_expire now q"
      "p = arriving s d now q1" "make_room p q1 = (False, q2)" "enqueue s d now q = (False, q2)"
proof (cases "valid_ip d \<and> drop_bit 4 (d ! 0) = 6")
  case True
  obtain ok q2 where mr: "make_room (arriving s d now (sq_expire now q)) (sq_expire now q) = (ok, q2)"
    by fastforce
  show ?thesis
    using True mr that(2) [OF _ _ refl refl] that(3) [OF _ _ refl refl]
    by (cases ok) (auto simp: enqueue_def Let_def)
qed (rule that(1), simp_all add: enqueue_def)

lemma queue_ok_enqueue: "queue_ok q \<Longrightarrow> queue_ok (snd (enqueue s d now q))"
proof (cases s d now q rule: enqueue_cases)
  assume q: "queue_ok q"
  case (room p q1 q2)
  have q1: "queue_ok q1" using q room by (simp add: queue_ok_expire)
  then have "queue_sane q2" "within_budget q2" "\<not> over_budget p q2"
    using make_room_sane [of q1 p] make_room_within [of q1 p] make_room_fits [of p q1] room(5)
    by (auto simp: queue_ok_def)
  moreover have "packet_ok p" using room arriving_ok by simp
  ultimately show ?thesis using room(6) by (simp add: queue_ok_def queue_sane_insert insert_fits)
next
  assume q: "queue_ok q"
  case (full p q1 q2)
  have q1: "queue_ok q1" using q full by (simp add: queue_ok_expire)
  then show ?thesis
    using make_room_sane [of q1 p] make_room_within [of q1 p] full(5,6) by (auto simp: queue_ok_def)
qed simp

subsection \<open>Shedding after a slow write\<close>

lemma over_capacity_pending: "queue_sane q \<Longrightarrow> over_capacity q \<Longrightarrow> sq_pending q \<noteq> []"
  using byte_budget_bounds [of q] fast_budget_bounds [of q]
  by (auto simp: over_capacity_def queue_sane_def counted_def fast_bytes_def bytes_where_def)

lemma shed_spec:
  assumes "queue_sane q"
  shows "\<exists>q'. shed q = Some q' \<and> queue_ok q' \<and> sq_rate q' = sq_rate q
    \<and> subseq (sq_pending q') (sq_pending q)"
  using assms
proof (induction "length (sq_pending q)" arbitrary: q rule: less_induct)
  case less
  show ?case
  proof (cases "over_capacity q")
    case True
    note ne = over_capacity_pending [OF less(2) True]
    note i = shed_victim_less [OF ne]
    let ?q = "sq_drop (shed_victim q) q"
    have "length (sq_pending ?q) < length (sq_pending q)" using i by simp
    then obtain q' where "shed ?q = Some q'" "queue_ok q'" "sq_rate q' = sq_rate ?q"
        "subseq (sq_pending q') (sq_pending ?q)"
      using less(1) [of ?q] queue_sane_drop [OF less(2) i] by blast
    moreover have "shed q = shed ?q" using True ne by (subst shed.simps) simp
    ultimately show ?thesis
      using subseq_remove [of "shed_victim q" "sq_pending q"] by (auto intro: subseq_order.order_trans)
  next
    case False
    then show ?thesis using less(2)
      by (subst shed.simps) (auto simp: queue_ok_def within_budget_def over_capacity_def)
  qed
qed

lemma next_rate_bounds: "0 \<le> sample \<Longrightarrow> 0 \<le> rate \<Longrightarrow> 0 \<le> next_rate sample rate \<and> next_rate sample rate \<le> 102400"
  by (auto simp: next_rate_def Let_def min_def max_def)

lemma record_write_ok:
  assumes "queue_ok q" "0 \<le> sample"
  shows "\<exists>q'. record_write sample elapsed now q = Some q' \<and> queue_ok q'"
proof (cases "elapsed \<le> 0")
  case False
  have "queue_sane (q\<lparr>sq_rate := next_rate sample (sq_rate q)\<rparr>)"
    using assms next_rate_bounds [of sample "sq_rate q"]
    by (auto simp: queue_ok_def queue_sane_def counted_def)
  from shed_spec [OF queue_sane_expire [OF this, of now]] False show ?thesis
    by (auto simp: record_write_def)
qed (use assms in \<open>simp add: record_write_def\<close>)

subsection \<open>Service\<close>

lemma next_index_Some:
  "next_index fast q = Some i \<Longrightarrow> i < length (sq_pending q) \<and> qp_fast (sq_pending q ! i) = fast"
  by (auto simp: next_index_def Let_def dest: first_index_SomeD split: option.splits)

lemma next_index_None: "next_index fast q = None \<longleftrightarrow> (\<forall>p \<in> set (sq_pending q). qp_fast p \<noteq> fast)"
proof
  assume "next_index fast q = None"
  then have "first_index (\<lambda>p. qp_fast p = fast) (sq_pending q) = None"
    by (simp only: next_index_def Let_def split: option.splits) simp
  then show "\<forall>p \<in> set (sq_pending q). qp_fast p \<noteq> fast" unfolding first_index_None .
next
  assume *: "\<forall>p \<in> set (sq_pending q). qp_fast p \<noteq> fast"
  show "next_index fast q = None"
  proof (rule ccontr)
    assume "next_index fast q \<noteq> None"
    then obtain i where "next_index fast q = Some i" by blast
    then show False using * next_index_Some nth_mem by blast
  qed
qed

text \<open>The other senders of the lane go first; within the chosen sender the oldest packet goes.\<close>

lemma next_index_turn:
  assumes "next_index fast q = Some i"
  defines "previous \<equiv> (if fast then sq_last_fast q else sq_last_bulk q)"
  shows "qp_source (sq_pending q ! i) = previous \<Longrightarrow> p \<in> set (sq_pending q) \<Longrightarrow> qp_fast p = fast \<Longrightarrow>
      qp_source p = previous"
    "p \<in> set (take i (sq_pending q)) \<Longrightarrow> qp_fast p = fast \<Longrightarrow>
      qp_source p = previous \<and> qp_source (sq_pending q ! i) \<noteq> previous"
proof -
  let ?P = "\<lambda>p. qp_fast p = fast \<and> qp_source p \<noteq> previous"
  have *: "first_index ?P (sq_pending q) = Some i \<or>
      (\<forall>x \<in> set (sq_pending q). \<not> ?P x) \<and> first_index (\<lambda>p. qp_fast p = fast) (sq_pending q) = Some i"
    using assms(1) by (auto simp: next_index_def previous_def Let_def split: option.splits)
  then show "qp_source (sq_pending q ! i) = previous \<Longrightarrow> p \<in> set (sq_pending q) \<Longrightarrow> qp_fast p = fast \<Longrightarrow>
      qp_source p = previous"
    by (auto dest: first_index_SomeD)
  show "p \<in> set (take i (sq_pending q)) \<Longrightarrow> qp_fast p = fast \<Longrightarrow>
      qp_source p = previous \<and> qp_source (sq_pending q ! i) \<noteq> previous"
    using * by (auto dest!: first_index_SomeD)
qed

lemma note_served_simps [simp]:
  "sq_pending (note_served now p fast n q) = sq_pending q" "sq_rate (note_served now p fast n q) = sq_rate q"
  "queue_ok (note_served now p fast n q) = queue_ok q"
  by (simp_all add: note_served_def Let_def queue_ok_def queue_sane_def counted_def within_budget_def
      byte_budget_def fast_budget_def fast_bytes_def bytes_where_def)

lemma note_capacity_ok [simp]: "queue_ok (note_capacity q) = queue_ok q"
  by (simp add: queue_ok_def)

lemma queue_ok_remove: "queue_ok q \<Longrightarrow> i < length (sq_pending q) \<Longrightarrow> queue_ok (sq_remove i q)"
  using queue_sane_drop [of q i] within_budget_drop [of q i]
  by (simp add: queue_ok_def sq_drop_def)

lemma sq_pop_cases:
  obtains (empty) "sq_pending (sq_expire now q) = []" "sq_pop now n q = (None, n, sq_expire now q)"
  | (served) fast i p q' where "sq_pending (sq_expire now q) \<noteq> []"
      "fast = (if next_index (n < stream_fast_burst) (sq_expire now q) = None
         then \<not> n < stream_fast_burst else n < stream_fast_burst)"
      "next_index fast (sq_expire now q) = Some i" "p = sq_pending (sq_expire now q) ! i"
      "q' = note_served now p fast n (sq_remove i (sq_expire now q))"
      "sq_pop now n q = (Some p, if fast then n + 1 else 0, q')"
proof (cases "sq_pending (sq_expire now q) = []")
  case False
  define fast where "fast = (if next_index (n < stream_fast_burst) (sq_expire now q) = None
      then \<not> n < stream_fast_burst else n < stream_fast_burst)"
  have "hd (sq_pending (sq_expire now q)) \<in> set (sq_pending (sq_expire now q))" using False by simp
  then have "next_index fast (sq_expire now q) \<noteq> None"
    by (auto simp: fast_def next_index_None)
  then obtain i where i: "next_index fast (sq_expire now q) = Some i" by blast
  show ?thesis
    by (rule that(2) [OF False fast_def i refl refl])
      (use False i in \<open>simp add: sq_pop_def Let_def fast_def [symmetric]\<close>)
qed (rule that(1), simp_all add: sq_pop_def Let_def)

lemma queue_ok_pop: "queue_ok q \<Longrightarrow> queue_ok (snd (snd (sq_pop now n q)))"
  by (rule sq_pop_cases [of now q n])
    (auto simp: queue_ok_expire next_index_Some intro: queue_ok_remove)

subsection \<open>Runs\<close>

text \<open>The operations the carrier calls, in any order and at any times.\<close>

inductive queue_reachable :: "send_queue \<Rightarrow> bool" where
  fresh: "queue_reachable new_send_queue"
| arrival: "queue_reachable q \<Longrightarrow> queue_reachable (snd (enqueue s d now q))"
| service: "queue_reachable q \<Longrightarrow> queue_reachable (snd (snd (sq_pop now n q)))"
| written: "queue_reachable q \<Longrightarrow> 0 \<le> sample \<Longrightarrow> record_write sample elapsed now q = Some q' \<Longrightarrow>
    queue_reachable q'"

lemma queue_ok_new: "queue_ok new_send_queue"
  using byte_budget_bounds [of new_send_queue] fast_budget_bounds [of new_send_queue]
  by (simp add: queue_ok_def queue_sane_def counted_def within_budget_def fast_bytes_def bytes_where_def
      new_send_queue_def)

lemma queue_reachable_ok: "queue_reachable q \<Longrightarrow> queue_ok q"
proof (induction rule: queue_reachable.induct)
  case (written q sample elapsed now q')
  then show ?case using record_write_ok [of q sample elapsed now] by auto
qed (simp_all add: queue_ok_new queue_ok_enqueue queue_ok_pop)

lemma expire_fresh:
  "p \<in> set (sq_pending (sq_expire now q)) \<Longrightarrow> now - qp_queued p < qp_grace p"
  by (auto simp: sq_expire_pending)

lemma expire_keeps:
  "p \<in> set (sq_pending q) \<Longrightarrow> now - qp_queued p < qp_grace p \<Longrightarrow>
     aged (queue_age_limit q) p \<in> set (sq_pending (sq_expire now q))"
  by (auto simp: sq_expire_pending)

subsection \<open>The share of one sender\<close>

text \<open>
  Only a write completion that lowers the rate can leave a sender with more than its budget: the
  shedding loop looks at the byte budget and the fast budget alone.
\<close>

lemma bytes_where_make_room:
  "queue_sane q \<Longrightarrow> bytes_where P (snd (make_room p q)) \<le> bytes_where P q"
proof (rule make_room_rule [where P = "\<lambda>q r. queue_sane q \<longrightarrow> bytes_where P (snd r) \<le> bytes_where P q", THEN mp])
  fix q i
  assume v: "victim p q = Some i"
    and IH: "queue_sane (sq_drop i q) \<longrightarrow> bytes_where P (snd (make_room p (sq_drop i q))) \<le> bytes_where P (sq_drop i q)"
  show "queue_sane q \<longrightarrow> bytes_where P (snd (make_room p (sq_drop i q))) \<le> bytes_where P q"
  proof
    assume q: "queue_sane q"
    have i: "i < length (sq_pending q)" using v by (rule victim_less)
    then have "packet_ok (sq_pending q ! i)" using q by (simp add: queue_sane_def)
    then have "bytes_where P (sq_drop i q) \<le> bytes_where P q"
      using bytes_where_drop [OF i, of P] packet_bytes by fastforce
    then show "bytes_where P (snd (make_room p (sq_drop i q))) \<le> bytes_where P q"
      using IH queue_sane_drop [OF q i] by linarith
  qed
qed simp_all

lemma source_expire:
  "queue_ok q \<Longrightarrow> source_bytes src q \<le> source_budget q \<Longrightarrow>
     source_bytes src (sq_expire now q) \<le> source_budget (sq_expire now q)"
  using bytes_where_expire [of q "\<lambda>p. qp_source p = src" now] budget_cong(3) [of "sq_expire now q" q]
  by (simp add: source_bytes_def queue_ok_def queue_sane_def)

lemma source_make_room:
  "queue_ok q \<Longrightarrow> source_bytes src q \<le> source_budget q \<Longrightarrow>
     source_bytes src (snd (make_room p q)) \<le> source_budget (snd (make_room p q))"
  using bytes_where_make_room [of q "\<lambda>p. qp_source p = src" p] budget_cong(3) [OF make_room_rate, of p q]
  by (simp add: source_bytes_def queue_ok_def)

lemma enqueue_source:
  assumes q: "queue_ok q"
  shows "fst (enqueue s d now q) \<Longrightarrow> source_bytes (take 16 (drop 8 d)) (snd (enqueue s d now q))
      \<le> source_budget (snd (enqueue s d now q))"
    "source_bytes src q \<le> source_budget q \<Longrightarrow>
      source_bytes src (snd (enqueue s d now q)) \<le> source_budget (snd (enqueue s d now q))"
proof -
  have within: "queue_ok (sq_expire now q)" using q by (rule queue_ok_expire)
  have own: "source_bytes (take 16 (drop 8 d)) (snd (enqueue s d now q)) \<le> source_budget (snd (enqueue s d now q))"
    if "fst (enqueue s d now q)"
  proof (cases s d now q rule: enqueue_cases)
    case (room p q1 q2)
    then have "\<not> over_budget p q2" "within_budget q2" "qp_source p = take 16 (drop 8 d)"
      using make_room_fits [of p q1] make_room_within [of q1 p] within by (simp_all add: arriving_def)
    then show ?thesis using insert_fits(2) [of p q2] room(6) by simp
  qed (use that in simp_all)
  then show "fst (enqueue s d now q) \<Longrightarrow> source_bytes (take 16 (drop 8 d)) (snd (enqueue s d now q))
      \<le> source_budget (snd (enqueue s d now q))" .
  assume src: "source_bytes src q \<le> source_budget q"
  have q1: "source_bytes src (sq_expire now q) \<le> source_budget (sq_expire now q)" by (rule source_expire [OF q src])
  show "source_bytes src (snd (enqueue s d now q)) \<le> source_budget (snd (enqueue s d now q))"
  proof (cases s d now q rule: enqueue_cases)
    case invalid
    then show ?thesis using src by simp
  next
    case (room p q1 q2)
    show ?thesis
    proof (cases "src = take 16 (drop 8 d)")
      case True
      then show ?thesis using own room(6) by simp
    next
      case False
      then have "source_bytes src (sq_insert p q2) = source_bytes src q2"
        using room(4) by (simp add: source_bytes_def bytes_where_insert arriving_def)
      moreover have "source_bytes src q2 \<le> source_budget q2"
        using source_make_room [OF within q1, of p] room(3,5) by simp
      ultimately show ?thesis using room(6) budget_cong(3) [of "sq_insert p q2" q2] by simp
    qed
  next
    case (full p q1 q2)
    then show ?thesis using source_make_room [OF within q1, of p] by simp
  qed
qed

lemma pop_source:
  assumes q: "queue_ok q" and src: "source_bytes src q \<le> source_budget q"
  shows "source_bytes src (snd (snd (sq_pop now n q))) \<le> source_budget (snd (snd (sq_pop now n q)))"
proof (rule sq_pop_cases [of now q n])
  have e: "source_bytes src (sq_expire now q) \<le> source_budget (sq_expire now q)"
    and ok: "queue_ok (sq_expire now q)" using source_expire [OF q src] queue_ok_expire [OF q] by simp_all
  then show ?thesis if "sq_pop now n q = (None, n, sq_expire now q)" using that by simp
  fix fast i p q'
  assume i: "next_index fast (sq_expire now q) = Some i"
    and q': "q' = note_served now p fast n (sq_remove i (sq_expire now q))"
    and pop: "sq_pop now n q = (Some p, if fast then n + 1 else 0, q')"
  let ?e = "sq_expire now q"
  have i': "i < length (sq_pending ?e)" using next_index_Some [OF i] by simp
  then have "packet_ok (sq_pending ?e ! i)" using ok by (simp add: queue_ok_def queue_sane_def)
  then have "source_bytes src (sq_drop i ?e) \<le> source_bytes src ?e"
    using bytes_where_drop [OF i', of "\<lambda>p. qp_source p = src"] packet_bytes
    by (fastforce simp: source_bytes_def)
  moreover have "source_bytes src q' = source_bytes src (sq_drop i ?e)"
    by (simp add: q' source_bytes_def bytes_where_def sq_drop_def)
  moreover have "source_budget q' = source_budget ?e" by (rule budget_cong(3)) (simp add: q')
  ultimately show ?thesis using e pop by simp
qed

subsection \<open>Properties\<close>

text \<open>
  C40 (queue_invariant): whatever is enqueued, served and measured in whatever order and at whatever
  times, the counters equal the packets waiting, every packet waiting is a valid, correctly
  classified IPv6 packet, the queue is within its byte budget and its fast budget, and a write
  completion is always handled: the shedding loop never indexes an empty queue and ends within budget.
  A packet admitted leaves its sender within the source budget of that moment, and a sender within
  its budget stays within it whatever arrives or is served; only a completed write, which may lower
  the rate and with it the budget, is not bound to it.
\<close>

theorem queue_invariant:
  assumes "queue_reachable q" "0 \<le> sample"
  shows "iq_bytes (sq_stats q) = sum_list (map qp_bytes (sq_pending q))
    \<and> iq_packets (sq_stats q) = int (length (sq_pending q))
    \<and> iq_bytes (sq_stats q) \<le> byte_budget q \<and> byte_budget q \<le> stream_byte_budget
    \<and> fast_bytes q \<le> fast_budget q
    \<and> (\<forall>p \<in> set (sq_pending q). packet_ok p)
    \<and> (\<exists>q'. record_write sample elapsed now q = Some q' \<and> queue_ok q')
    \<and> (\<forall>s d. fst (enqueue s d now q) \<longrightarrow> source_bytes (take 16 (drop 8 d)) (snd (enqueue s d now q))
         \<le> source_budget (snd (enqueue s d now q)))
    \<and> (\<forall>src. source_bytes src q \<le> source_budget q \<longrightarrow>
         (\<forall>s d. source_bytes src (snd (enqueue s d now q)) \<le> source_budget (snd (enqueue s d now q)))
         \<and> (\<forall>n. source_bytes src (snd (snd (sq_pop now n q))) \<le> source_budget (snd (snd (sq_pop now n q)))))"
proof -
  have q: "queue_ok q" by (rule queue_reachable_ok [OF assms(1)])
  then have "iq_bytes (sq_stats q) = sum_list (map qp_bytes (sq_pending q))"
    "iq_packets (sq_stats q) = int (length (sq_pending q))" "iq_bytes (sq_stats q) \<le> byte_budget q"
    "fast_bytes q \<le> fast_budget q" "\<forall>p \<in> set (sq_pending q). packet_ok p"
    by (simp_all add: queue_ok_def queue_sane_def counted_def within_budget_def)
  moreover have "byte_budget q \<le> stream_byte_budget" using byte_budget_bounds [of q] by simp
  moreover have "\<exists>q'. record_write sample elapsed now q = Some q' \<and> queue_ok q'"
    using record_write_ok [OF q assms(2)] by blast
  ultimately show ?thesis using enqueue_source [OF q] pop_source [OF q] by blast
qed

text \<open>
  An arrival is inserted into the packets that were waiting and have not expired,
  less some victims; it goes ahead of the later segments of its own flow and behind everything else
  of its lane, and leaves its sender within the source budget. The victims are later segments of
  the same flow or, if the arrival is fast, bulk: no other packet is ever displaced, and in
  particular no earlier segment of the same flow is.
\<close>

theorem enqueue_spec:
  assumes "queue_reachable q" "enqueue sequence data now q = (ok, q')"
    "q1 = sq_expire now q" "p = arriving sequence data now q1"
  shows "\<exists>kept n. subseq kept (sq_pending q1)
    \<and> sq_pending q' = (if ok then take n kept @ p # drop n kept
         else if valid_ip data \<and> drop_bit 4 (data ! 0) = 6 then kept else sq_pending q)
    \<and> filter (\<lambda>x. \<not> later_segment p x \<and> (qp_fast x \<or> \<not> qp_fast p)) kept
        = filter (\<lambda>x. \<not> later_segment p x \<and> (qp_fast x \<or> \<not> qp_fast p)) (sq_pending q1)
    \<and> filter (\<lambda>x. tcp_before (qp_data x) (qp_data p)) kept
        = filter (\<lambda>x. tcp_before (qp_data x) (qp_data p)) (sq_pending q1)
    \<and> (\<forall>x \<in> set (take n kept). qp_fast x = qp_fast p \<longrightarrow> \<not> later_segment p x)
    \<and> (ok \<longrightarrow> valid_ip data \<and> source_bytes (qp_source p) q' \<le> source_budget q')"
proof -
  define q2 where "q2 = snd (make_room p q1)"
  have q1: "queue_ok q1" using assms(1,3) by (simp add: queue_ok_expire queue_reachable_ok)
  have sub: "subseq (sq_pending q2) (sq_pending q1)" by (simp add: q2_def make_room_subseq)
  have others: "filter (\<lambda>x. \<not> later_segment p x \<and> (qp_fast x \<or> \<not> qp_fast p)) (sq_pending q2)
      = filter (\<lambda>x. \<not> later_segment p x \<and> (qp_fast x \<or> \<not> qp_fast p)) (sq_pending q1)"
    unfolding q2_def using victim_cases(2) by (intro make_room_keeps) blast
  have earlier: "filter (\<lambda>x. tcp_before (qp_data x) (qp_data p)) (sq_pending q2)
      = filter (\<lambda>x. tcp_before (qp_data x) (qp_data p)) (sq_pending q1)"
    unfolding q2_def by (intro make_room_keeps)
  have room: "make_room p q1 = (ok, q2) \<and> (if ok then q' = sq_insert p q2 else q' = q2)"
    if "valid_ip data" "drop_bit 4 (data ! 0) = 6"
    using that assms(2) unfolding q2_def assms(3,4)
    by (auto simp: enqueue_def Let_def split: prod.splits if_splits)
  show ?thesis
  proof (cases "valid_ip data \<and> drop_bit 4 (data ! 0) = 6")
    case True
    then have r: "make_room p q1 = (ok, q2)" "if ok then q' = sq_insert p q2 else q' = q2"
      using room by simp_all
    have "source_bytes (qp_source p) q' \<le> source_budget q'" if ok
      using that r make_room_fits [of p q1] make_room_within [OF q1, of p] by (simp add: insert_fits)
    then show ?thesis using True r sub others earlier insert_position_before [of _ p "sq_pending q2"]
      by (intro exI [of _ "sq_pending q2"] exI [of _ "insert_position p (sq_pending q2)"]) auto
  next
    case False
    then have "\<not> ok \<and> q' = q" using assms(2) by (auto simp: enqueue_def)
    then show ?thesis using False by (intro exI [of _ "sq_pending q1"] exI [of _ 0]) auto
  qed
qed

text \<open>
  a retransmitted prefix for which there is room once the later
  data of its flow is dropped is always admitted, and an arrival that is refused has displaced no
  later data of its flow.
\<close>

theorem retransmission_admitted:
  assumes "queue_reachable q" "valid_ip data" "drop_bit 4 (data ! 0) = 6"
    "enqueue sequence data now q = (ok, q')"
    "q1 = sq_expire now q" "p = arriving sequence data now q1"
  shows "(reclaim_admits p q1 \<longrightarrow> ok) \<and>
    (\<not> ok \<longrightarrow> filter (later_segment p) (sq_pending q') = filter (later_segment p) (sq_pending q1))"
proof -
  have q1: "queue_sane q1"
    using queue_ok_expire [OF queue_reachable_ok [OF assms(1)]] assms(5) by (simp add: queue_ok_def)
  have p: "packet_ok p" using assms(2,3,6) by (simp add: arriving_ok)
  have "fst (make_room p q1) = ok \<and> (\<not> ok \<longrightarrow> q' = snd (make_room p q1))"
    using assms(2-6) by (auto simp: enqueue_def Let_def split: prod.splits if_splits)
  then show ?thesis using make_room_reclaims [OF q1 p] make_room_refusal [OF q1 p] by auto
qed

text \<open>
  a packet is served whenever one is waiting that has not expired, never one older
  than five seconds, and none younger than two seconds expires unserved. Fast packets go first, but
  after four in a row a waiting bulk packet goes. Within the lane a sender other than the last one
  served goes first, and each sender's packets go in queue order.
\<close>

theorem pop_spec:
  assumes "queue_reachable q" "sq_pop now n q = (r, m, q')"
    "ps = sq_pending (sq_expire now q)"
  shows "(r = None \<longleftrightarrow> ps = [])
    \<and> (\<forall>x \<in> set (sq_pending q). now - qp_queued x < stream_initial_age \<longrightarrow> qp_data x \<in> qp_data ` set ps)
    \<and> (r = None \<longrightarrow> sq_pending q' = [])
    \<and> (\<forall>p. r = Some p \<longrightarrow> now - qp_queued p < stream_max_age
        \<and> (\<exists>a b. ps = a @ p # b \<and> sq_pending q' = a @ b
            \<and> (\<forall>x \<in> set a. qp_fast x = qp_fast p \<longrightarrow> qp_source x \<noteq> qp_source p))
        \<and> (n < stream_fast_burst \<and> (\<exists>x \<in> set ps. qp_fast x) \<longrightarrow> qp_fast p \<and> m = n + 1)
        \<and> (\<not> n < stream_fast_burst \<and> (\<exists>x \<in> set ps. \<not> qp_fast x) \<longrightarrow> \<not> qp_fast p \<and> m = 0)
        \<and> (\<forall>x \<in> set ps. qp_fast x = qp_fast p
            \<and> qp_source p = (if qp_fast p then sq_last_fast q else sq_last_bulk q)
            \<longrightarrow> qp_source x = qp_source p))"
proof -
  have ok: "\<forall>p \<in> set (sq_pending q). packet_ok p" "\<forall>p \<in> set ps. packet_ok p"
    using queue_reachable_ok [OF assms(1)] queue_ok_expire [of q now] assms(3)
    by (auto simp: queue_ok_def queue_sane_def)
  have young: "qp_data x \<in> qp_data ` set ps"
    if "x \<in> set (sq_pending q)" "now - qp_queued x < stream_initial_age" for x
  proof -
    have "now - qp_queued x < qp_grace x" using that ok(1) by (auto simp: packet_ok_def)
    from expire_keeps [OF that(1) this] show ?thesis
      unfolding assms(3) by (metis aged_simps(1) image_eqI)
  qed
  show ?thesis
  proof (rule sq_pop_cases [of now q n])
    assume "sq_pending (sq_expire now q) = []" "sq_pop now n q = (None, n, sq_expire now q)"
    then show ?thesis using assms(2,3) young by auto
  next
    fix fast i p p'
    assume ne: "sq_pending (sq_expire now q) \<noteq> []"
      and fast: "fast = (if next_index (n < stream_fast_burst) (sq_expire now q) = None
         then \<not> n < stream_fast_burst else n < stream_fast_burst)"
      and i: "next_index fast (sq_expire now q) = Some i"
      and p: "p = sq_pending (sq_expire now q) ! i"
      and q'': "p' = note_served now p fast n (sq_remove i (sq_expire now q))"
      and pop: "sq_pop now n q = (Some p, if fast then n + 1 else 0, p')"
    have il: "i < length ps" "qp_fast p = fast" using next_index_Some [OF i] p assms(3) by auto
    have split: "ps = take i ps @ p # drop (Suc i) ps" "sq_pending q' = take i ps @ drop (Suc i) ps"
      using id_take_nth_drop [OF il(1)] pop assms(2,3) p q'' by (auto simp: sq_remove_def)
    note turn = next_index_turn [OF i, folded p assms(3), unfolded sq_expire_simps]
    have "now - qp_queued p < qp_grace p" "packet_ok p"
      using expire_fresh [of p now q] ok(2) nth_mem [OF il(1)] p assms(3) by simp_all
    then have age: "now - qp_queued p < stream_max_age" by (simp add: packet_ok_def)
    have lane: "fast" if "n < stream_fast_burst" "\<exists>x \<in> set ps. qp_fast x"
      using fast that assms(3) next_index_None [of True "sq_expire now q"] by auto
    have lane': "\<not> fast" if "\<not> n < stream_fast_burst" "\<exists>x \<in> set ps. \<not> qp_fast x"
      using fast that assms(3) next_index_None [of False "sq_expire now q"] by auto
    have fifo: "\<forall>x \<in> set (take i ps). qp_fast x = qp_fast p \<longrightarrow> qp_source x \<noteq> qp_source p"
      using turn(2) il(2) by metis
    have "r = Some p" "m = (if fast then n + 1 else 0)" using pop assms(2) by auto
    moreover have "\<exists>a b. ps = a @ p # b \<and> sq_pending q' = a @ b
            \<and> (\<forall>x \<in> set a. qp_fast x = qp_fast p \<longrightarrow> qp_source x \<noteq> qp_source p)"
      using split fifo by blast
    ultimately show ?thesis using age young ne assms(3) il(2) lane lane' turn(1) by auto
  qed
qed

end
