(* ===== verification/Mesh_Queue_Samples.thy ===== *)
theory Mesh_Queue_Samples
  imports Mesh_Queue_Props
begin

section \<open>The send queue: sample runs\<close>

text \<open>
  Runs of the send queue on concrete packets: the witnesses of its properties, and a run in which
  an arrival that is refused has displaced a bulk packet first.
\<close>

subsection \<open>UDP packets\<close>

text \<open>A UDP packet of \<open>n\<close> bytes from one host to one destination port.\<close>

definition udp_packet :: "byte \<Rightarrow> u16 \<Rightarrow> nat \<Rightarrow> bytes" where
  "udp_packet host dst n =
     [0x60, 0, 0, 0] @ be_bytes 2 (word_of_nat (n - 40) :: u16) @ [17, 64] @ replicate 16 host
       @ replicate 16 0 @ [0, 0] @ be_bytes 2 dst @ be_bytes 2 (word_of_nat (n - 40) :: u16)
       @ replicate (n - 46) 0"

lemma length_udp_packet: "46 \<le> n \<Longrightarrow> length (udp_packet host dst n) = n"
  by (simp add: udp_packet_def)

lemma udp_packet_nth:
  "udp_packet host dst n ! 0 = 0x60" "udp_packet host dst n ! 6 = 17"
  by (simp_all add: udp_packet_def nth_append)

lemma udp_packet_fields:
  "take 16 (drop 8 (udp_packet host dst n)) = replicate 16 host"
  "u16_at (udp_packet host dst n) 4 = word_of_nat (n - 40)"
  "u16_at (udp_packet host dst n) 40 = 0"
  "u16_at (udp_packet host dst n) 42 = dst"
  "u16_at (udp_packet host dst n) 44 = word_of_nat (n - 40)"
  by (simp_all add: udp_packet_def u16_at_def be_val_be_bytes_full be_val_def [of "[0, 0]"])

lemma udp_length_field: "n \<le> tunnel_mtu \<Longrightarrow> unat (word_of_nat (n - 40) :: u16) = n - 40"
  by (simp add: unat_of_nat del: of_nat_diff)

lemma udp_packet_valid:
  "48 \<le> n \<Longrightarrow> n \<le> tunnel_mtu \<Longrightarrow>
     valid_ip (udp_packet host dst n) \<and> drop_bit 4 (udp_packet host dst n ! 0) = 6"
  by (simp add: valid_ip_def length_udp_packet udp_packet_fields udp_packet_nth Let_def udp_length_field
      del: of_nat_diff)

lemma udp_packet_fast:
  "48 \<le> n \<Longrightarrow> n \<le> tunnel_mtu \<Longrightarrow>
     fast_routed (udp_packet host dst n) \<longleftrightarrow> n \<le> stream_fast_max \<or> dst = app_session_port"
  using udp_packet_valid [of n host dst]
  by (auto simp: fast_routed_def length_udp_packet udp_packet_fields udp_packet_nth udp_length_field
      simp del: of_nat_diff)

lemma udp_packet_not_tcp: "tcp_segment (udp_packet host dst n) = None"
  by (simp add: tcp_segment_def udp_packet_nth)

lemma udp_not_before [simp]: "\<not> tcp_before (udp_packet host dst n) d"
  by (simp add: tcp_before_def udp_packet_not_tcp)

lemma first_index_False [simp]: "first_index (\<lambda>_. False) xs = None"
  by simp

definition sample_packet :: "byte \<times> u16 \<times> nat \<Rightarrow> queued_packet" where
  "sample_packet = (\<lambda>(host, dst, n). \<lparr>qp_sequence = 0, qp_data = udp_packet host dst n,
     qp_source = replicate 16 host, qp_bytes = framed_bytes n,
     qp_fast = (n \<le> stream_fast_max \<or> dst = app_session_port), qp_queued = 0,
     qp_grace = stream_initial_age\<rparr>)"

lemma sample_packet_simps [simp]:
  "qp_data (sample_packet (host, dst, n)) = udp_packet host dst n"
  "qp_source (sample_packet (host, dst, n)) = replicate 16 host"
  "qp_bytes (sample_packet (host, dst, n)) = framed_bytes n"
  "qp_fast (sample_packet (host, dst, n)) \<longleftrightarrow> n \<le> stream_fast_max \<or> dst = app_session_port"
  "qp_queued (sample_packet x) = 0" "qp_grace (sample_packet x) = stream_initial_age"
  by (simp_all add: sample_packet_def split: prod.split)

text \<open>The queue after the packets of a list have been enqueued at time 0.\<close>

definition sample_queue :: "(byte \<times> u16 \<times> nat) list \<Rightarrow> send_queue" where
  "sample_queue xs = new_send_queue\<lparr>sq_pending := map sample_packet xs,
     sq_stats := (sq_stats new_send_queue)\<lparr>iq_bytes := sum_list (map (qp_bytes \<circ> sample_packet) xs),
       iq_packets := int (length xs), iq_enqueued := word_of_nat (length xs)\<rparr>,
     sq_wake := (xs \<noteq> [])\<rparr>"

lemma sample_queue_simps [simp]:
  "sq_pending (sample_queue xs) = map sample_packet xs" "sq_rate (sample_queue xs) = 0"
  "iq_bytes (sq_stats (sample_queue xs)) = sum_list (map (qp_bytes \<circ> sample_packet) xs)"
  by (simp_all add: sample_queue_def new_send_queue_def)

lemma sample_budgets [simp]:
  "sq_rate q = 0 \<Longrightarrow> byte_budget q = 11864" "sq_rate q = 0 \<Longrightarrow> source_budget q = 5932"
  "sq_rate q = 0 \<Longrightarrow> fast_budget q = 10516" "sq_rate q = 0 \<Longrightarrow> queue_age_limit q = stream_initial_age"
  by (simp_all add: byte_budget_def source_budget_def fast_budget_def queue_age_limit_def framed_bytes_def)

lemma later_sample [simp]: "\<not> later_segment (sample_packet x) y"
  by (cases x) (simp add: later_segment_def)

lemma aged_sample: "aged stream_initial_age (sample_packet x) = sample_packet x"
  by (cases x) (simp add: sample_packet_def aged_def)

lemma expire_sample: "now < stream_initial_age \<Longrightarrow> sq_expire now (sample_queue xs) = sample_queue xs"
  by (simp add: sq_expire_def aged_sample filter_map comp_def not_le sample_queue_def new_send_queue_def
      byte_budget_def queue_age_limit_def)

lemma arriving_sample:
  "48 \<le> n \<Longrightarrow> n \<le> tunnel_mtu \<Longrightarrow>
     arriving 0 (udp_packet host dst n) 0 (sample_queue xs) = sample_packet (host, dst, n)"
  by (simp add: arriving_def sample_packet_def length_udp_packet udp_packet_fast udp_packet_fields)

lemma sample_snoc:
  assumes "queue_reachable (sample_queue xs)" "48 \<le> n" "n \<le> tunnel_mtu"
    "\<not> over_budget (sample_packet (host, dst, n)) (sample_queue xs)"
  shows "queue_reachable (sample_queue (xs @ [(host, dst, n)]))"
proof -
  have "insert_position (sample_packet (host, dst, n)) ps = length ps" for ps
    by (simp add: insert_position_def)
  then have "sq_insert (sample_packet (host, dst, n)) (sample_queue xs) = sample_queue (xs @ [(host, dst, n)])"
    by (simp add: sq_insert_def sample_queue_def new_send_queue_def Let_def add_ac)
  then have "enqueue 0 (udp_packet host dst n) 0 (sample_queue xs) = (True, sample_queue (xs @ [(host, dst, n)]))"
    using assms(2-4) udp_packet_valid [OF assms(2,3), of host dst]
    by (simp add: enqueue_def Let_def expire_sample arriving_sample make_room_eqs(1))
  then show ?thesis using queue_reachable.arrival [OF assms(1), of 0 "udp_packet host dst n" 0] by simp
qed

lemma sample_Nil: "queue_reachable (sample_queue [])"
proof -
  have "sample_queue [] = new_send_queue" by (simp add: sample_queue_def new_send_queue_def)
  then show ?thesis using queue_reachable.fresh by simp
qed

lemmas sample_over = over_budget_def bytes_where_def source_bytes_def fast_bytes_def framed_bytes_def
  filter_map comp_def

subsection \<open>Bulk displaced in vain\<close>

text \<open>
  Three senders: the first has three full bulk packets, a short bulk packet and a short fast packet
  waiting, the second four full bulk packets and the third one.
\<close>

definition crowded :: "(byte \<times> u16 \<times> nat) list" where
  "crowded = [(1, 9, 1320), (1, 9, 1320), (1, 9, 1320), (1, 9, 300), (1, 9, 240),
     (2, 9, 1320), (2, 9, 1320), (2, 9, 1320), (2, 9, 1320), (3, 9, 1320)]"

lemma crowded_reachable: "queue_reachable (sample_queue crowded)"
proof -
  have 1: "queue_reachable (sample_queue [(1, 9, 1320)])"
    using sample_snoc [OF sample_Nil, of 1320 1 9] by (simp add: sample_over)
  have 2: "queue_reachable (sample_queue [(1, 9, 1320), (1, 9, 1320)])"
    using sample_snoc [OF 1, of 1320 1 9] by (simp add: sample_over)
  have 3: "queue_reachable (sample_queue [(1, 9, 1320), (1, 9, 1320), (1, 9, 1320)])"
    using sample_snoc [OF 2, of 1320 1 9] by (simp add: sample_over)
  have 4: "queue_reachable (sample_queue [(1, 9, 1320), (1, 9, 1320), (1, 9, 1320), (1, 9, 300)])"
    using sample_snoc [OF 3, of 300 1 9] by (simp add: sample_over)
  have 5: "queue_reachable (sample_queue [(1, 9, 1320), (1, 9, 1320), (1, 9, 1320), (1, 9, 300), (1, 9, 240)])"
    using sample_snoc [OF 4, of 240 1 9] by (simp add: sample_over)
  have 6: "queue_reachable (sample_queue [(1, 9, 1320), (1, 9, 1320), (1, 9, 1320), (1, 9, 300), (1, 9, 240),
     (2, 9, 1320)])"
    using sample_snoc [OF 5, of 1320 2 9] by (simp add: sample_over)
  have 7: "queue_reachable (sample_queue [(1, 9, 1320), (1, 9, 1320), (1, 9, 1320), (1, 9, 300), (1, 9, 240),
     (2, 9, 1320), (2, 9, 1320)])"
    using sample_snoc [OF 6, of 1320 2 9] by (simp add: sample_over)
  have 8: "queue_reachable (sample_queue [(1, 9, 1320), (1, 9, 1320), (1, 9, 1320), (1, 9, 300), (1, 9, 240),
     (2, 9, 1320), (2, 9, 1320), (2, 9, 1320)])"
    using sample_snoc [OF 7, of 1320 2 9] by (simp add: sample_over)
  have 9: "queue_reachable (sample_queue [(1, 9, 1320), (1, 9, 1320), (1, 9, 1320), (1, 9, 300), (1, 9, 240),
     (2, 9, 1320), (2, 9, 1320), (2, 9, 1320), (2, 9, 1320)])"
    using sample_snoc [OF 8, of 1320 2 9] by (simp add: sample_over)
  show ?thesis using sample_snoc [OF 9, of 1320 3 9] by (simp add: sample_over crowded_def)
qed

text \<open>What is left of the crowd once the arrival has displaced the short bulk packet.\<close>

definition crowd_left :: "(byte \<times> u16 \<times> nat) list" where
  "crowd_left = [(1, 9, 1320), (1, 9, 1320), (1, 9, 1320), (1, 9, 240),
     (2, 9, 1320), (2, 9, 1320), (2, 9, 1320), (2, 9, 1320), (3, 9, 1320)]"

abbreviation (input) late :: queued_packet where "late \<equiv> sample_packet (1, 43021, 1320)"

lemma reclaim_none [simp]:
  "bytes_where (later_segment (sample_packet x)) q = 0"
  "last_index (\<lambda>y. later_segment (sample_packet x) y \<and> Q y) ps = None"
  by (simp_all add: bytes_where_def)

lemma crowded_room: "make_room late (sample_queue crowded) = (False, note_capacity (sq_drop 3 (sample_queue crowded)))"
proof -
  have over: "over_budget late (sample_queue crowded)"
    by (simp add: crowded_def sample_over)
  have v: "victim late (sample_queue crowded) = Some 3"
    by (simp add: victim_def priority_victim_def own_class_bytes_def need_fast_space_def crowded_def
        sample_over Let_def)
  have nb: "\<not> tcp_before (qp_data (sq_pending (sample_queue crowded) ! 3)) (qp_data late)"
    by (simp add: crowded_def)
  define q where "q = sq_drop 3 (sample_queue crowded)"
  have p: "sq_pending q = map sample_packet crowd_left" "sq_rate q = 0"
    by (simp_all add: q_def crowded_def crowd_left_def)
  have b: "iq_bytes (sq_stats q) = 11038"
    by (simp add: q_def sq_drop_def note_capacity_def sq_remove_def crowded_def framed_bytes_def)
  have over': "over_budget late q"
    by (simp add: b p over_budget_def framed_bytes_def)
  have v': "victim late q = None"
    by (simp add: victim_def priority_victim_def own_class_bytes_def need_fast_space_def
        p crowd_left_def sample_over Let_def)
  show ?thesis
    using make_room_eqs(4) [OF over v nb] make_room_eqs(2) [OF over' v'] unfolding q_def by simp
qed

text \<open>
  The comment in \<open>victim\<close> says bulk is not discarded unless that can admit the arrival. The queue can be brought to a state in which a fast arrival is
  refused although it has first displaced a bulk packet that had neither expired nor made room for
  anything.
\<close>

theorem bulk_displaced_in_vain:
  "\<exists>q sequence data now x. queue_reachable q \<and> fst (enqueue sequence data now q) = False
     \<and> x \<in> set (sq_pending q) \<and> \<not> qp_fast x \<and> now - qp_queued x < stream_initial_age
     \<and> x \<notin> set (sq_pending (snd (enqueue sequence data now q)))
     \<and> fast_bytes q + framed_bytes (length data) \<le> fast_budget q"
proof -
  have enq: "enqueue 0 (udp_packet 1 43021 1320) 0 (sample_queue crowded)
      = (False, note_capacity (sq_drop 3 (sample_queue crowded)))"
    using udp_packet_valid [of 1320 1 43021]
    by (simp add: enqueue_def expire_sample arriving_sample crowded_room)
  have "udp_packet 1 9 300 \<noteq> udp_packet h d n" if "n \<in> {240, 1320}" for h d n
    using that by (auto dest!: arg_cong [where f = length] simp: length_udp_packet)
  then have "sample_packet (1, 9, 300) \<notin> set (map sample_packet crowd_left)"
    by (auto simp: crowd_left_def sample_packet_def)
  moreover have "sq_pending (sq_drop 3 (sample_queue crowded)) = map sample_packet crowd_left"
    by (simp add: crowded_def crowd_left_def)
  moreover have "sample_packet (1, 9, 300) \<in> set (sq_pending (sample_queue crowded))"
    by (simp add: crowded_def)
  moreover have "fast_bytes (sample_queue crowded) + framed_bytes (length (udp_packet 1 43021 1320))
      \<le> fast_budget (sample_queue crowded)"
    by (simp add: crowded_def sample_over length_udp_packet)
  ultimately show ?thesis using crowded_reachable enq
    by (intro exI [of _ "sample_queue crowded"] exI [of _ 0] exI [of _ "udp_packet 1 43021 1320"]
        exI [of _ "sample_packet (1, 9, 300)"]) simp
qed

subsection \<open>Witnesses\<close>

lemma one_reachable: "queue_reachable (sample_queue [(1, 9, 100)])"
  using sample_snoc [OF sample_Nil, of 100 1 9] by (simp add: sample_over)

theorem queue_invariant_witness:
  "queue_reachable (sample_queue crowded) \<and> fast_bytes (sample_queue crowded) \<le> 10516
     \<and> iq_bytes (sq_stats (sample_queue crowded)) \<le> 11864 \<and> packet_ok (sample_packet (3, 9, 1320))
     \<and> (\<exists>q'. record_write 100 1000000000 0 (sample_queue crowded) = Some q' \<and> queue_ok q')"
  using queue_invariant [OF crowded_reachable, of 100 1000000000 0] crowded_reachable
  by (simp add: crowded_def)

theorem enqueue_spec_witness:
  "enqueue 0 (udp_packet 2 9 48) 0 (sample_queue [(1, 9, 100)])
     = (True, sample_queue [(1, 9, 100), (2, 9, 48)])
   \<and> source_bytes (replicate 16 2) (sample_queue [(1, 9, 100), (2, 9, 48)]) \<le> 5932"
proof -
  have room: "make_room (sample_packet (2, 9, 48)) (sample_queue [(1, 9, 100)])
      = (True, sample_queue [(1, 9, 100)])"
    by (intro make_room_eqs(1)) (simp add: sample_over)
  have ins: "sq_insert (sample_packet (2, 9, 48)) (sample_queue [(1, 9, 100)])
      = sample_queue [(1, 9, 100), (2, 9, 48)]"
    by (simp add: sq_insert_def sample_queue_def new_send_queue_def Let_def insert_position_def)
  have e: "enqueue 0 (udp_packet 2 9 48) 0 (sample_queue [(1, 9, 100)])
     = (True, sample_queue [(1, 9, 100), (2, 9, 48)])"
    using udp_packet_valid [of 48 2 9] by (simp add: enqueue_def expire_sample arriving_sample room ins)
  show ?thesis
    using enqueue_spec [OF one_reachable e refl refl] e by (auto simp: expire_sample arriving_sample)
qed

theorem retransmission_admitted_witness:
  "fst (enqueue 0 (udp_packet 2 9 48) 0 (sample_queue [(1, 9, 100)]))"
proof -
  have "reclaim_admits (sample_packet (2, 9, 48)) (sample_queue [(1, 9, 100)])"
    by (simp add: reclaim_admits_def Let_def sample_over)
  then show ?thesis
    using retransmission_admitted [OF one_reachable _ _ surjective_pairing refl refl,
        of "udp_packet 2 9 48" 0 0] udp_packet_valid [of 48 2 9]
    by (simp add: expire_sample arriving_sample)
qed

theorem pop_spec_witness:
  "fst (sq_pop 5 0 (sample_queue [(1, 9, 100)])) = Some (sample_packet (1, 9, 100))"
proof -
  obtain r m q' where p: "sq_pop 5 0 (sample_queue [(1, 9, 100)]) = (r, m, q')" by (metis prod_cases3)
  then show ?thesis
    using pop_spec [OF one_reachable p refl] by (auto simp: expire_sample Cons_eq_append_conv)
qed

end
