(* ===== verification/Mesh_Ident.thy ===== *)
theory Mesh_Ident
  imports Netip
begin

section \<open>Device identities (shared/meshid)\<close>

text \<open>
  \<open>device\<close> is the struct \<open>meshid.Device\<close>: the tenant (None for the zero \<open>Tenant\<close>, whose
  \<open>valid\<close> is false), the UUID's 16 bytes and the operator principal, empty for a device.
  The UUID package's \<open>String\<close> and \<open>sha256.Sum256\<close> are not part of the repository; they are the
  arguments \<open>spell\<close> and \<open>sha\<close>. The parsers of principals are in \<open>Mesh_Principal\<close>.
\<close>

datatype device =
  Device (dv_tenant: "bytes option") (dv_id: bytes) (dv_operator: string)

definition nil_uuid :: bytes where
  "nil_uuid = replicate 16 0"

definition no_device :: device where
  "no_device = Device None nil_uuid []"

definition new_device :: "bytes option \<Rightarrow> bytes \<Rightarrow> device" where
  "new_device tenant uuid = (if tenant = None then no_device else Device tenant uuid [])"

definition dv_valid :: "device \<Rightarrow> bool" where
  "dv_valid d \<longleftrightarrow> dv_tenant d \<noteq> None"

definition is_operator :: "device \<Rightarrow> bool" where
  "is_operator d \<longleftrightarrow> dv_operator d \<noteq> []"

definition with_instance :: "device \<Rightarrow> bytes \<Rightarrow> device option" where
  "with_instance d uuid =
     (if \<not> is_operator d \<or> uuid = nil_uuid then None
      else Some (Device (dv_tenant d) uuid (dv_operator d)))"

definition device_spiffe_uri :: "string \<Rightarrow> string \<Rightarrow> string" where
  "device_spiffe_uri tenant uuid =
     ''spiffe://wendy.sh/tenant/'' @ tenant @ ''/'' @ ''device'' @ ''/'' @ uuid"

definition tenant_text :: "(bytes \<Rightarrow> string) \<Rightarrow> bytes option \<Rightarrow> string" where
  "tenant_text spell t = (case t of None \<Rightarrow> [] | Some u \<Rightarrow> spell u)"

definition peer_principal :: "(bytes \<Rightarrow> string) \<Rightarrow> device \<Rightarrow> string" where
  "peer_principal spell d =
     (if \<not> dv_valid d then []
      else if is_operator d then dv_operator d
      else device_spiffe_uri (tenant_text spell (dv_tenant d)) (spell (dv_id d)))"

definition device_key :: "(bytes \<Rightarrow> string) \<Rightarrow> device \<Rightarrow> string" where
  "device_key spell d = (if \<not> is_operator d then peer_principal spell d
     else peer_principal spell d @ ''#'' @ spell (dv_id d))"

subsection \<open>Addresses\<close>

definition mesh_prefix_bytes :: bytes where
  "mesh_prefix_bytes = [0xfd, 0x45, 0xb8, 0x91, 0x56, 0x7f]"

definition uuid_suffix :: "device \<Rightarrow> bytes" where
  "uuid_suffix d = drop 6 (dv_id d)"

definition mesh_address_for :: "bytes \<Rightarrow> addr" where
  "mesh_address_for uuid = V6 (mesh_prefix_bytes @ drop 6 uuid) []"

text \<open>The bytes the operator hash covers end in the principal and the installation UUID.\<close>

definition operator_address :: "(bytes \<Rightarrow> bytes) \<Rightarrow> device \<Rightarrow> addr" where
  "operator_address sha d =
     (if dv_id d = nil_uuid then NoAddr
      else V6 ([0xfd, 0x45, 0xb8, 0x91, 0x56, 0x80]
        @ take 10 (sha (map of_char ''wendy-net/operator-address/v1'' @ [0]
            @ be_bytes 4 (word_of_nat (length (dv_operator d)) :: u32)
            @ map of_char (dv_operator d) @ dv_id d))) [])"

definition mesh_address :: "(bytes \<Rightarrow> bytes) \<Rightarrow> device \<Rightarrow> addr" where
  "mesh_address sha d =
     (if \<not> dv_valid d then NoAddr
      else if is_operator d then operator_address sha d
      else mesh_address_for (dv_id d))"

definition in_mesh :: "addr \<Rightarrow> bool" where
  "in_mesh a \<longleftrightarrow> is6 a \<and> zone a = [] \<and> take 6 (as_slice a) = mesh_prefix_bytes"

subsection \<open>Order\<close>

text \<open>\<open>bytes.Compare\<close>: lists of bytes and of characters are ordered lexicographically.\<close>

definition cmp :: "'a::linorder \<Rightarrow> 'a \<Rightarrow> int" where
  "cmp a b = (if a < b then -1 else if a = b then 0 else 1)"

definition device_compare :: "(bytes \<Rightarrow> string) \<Rightarrow> device \<Rightarrow> device \<Rightarrow> int" where
  "device_compare spell a b =
     (let c = cmp (peer_principal spell a) (peer_principal spell b) in
      if (is_operator a \<or> is_operator b) \<and> c \<noteq> 0 then c
      else cmp (dv_id a) (dv_id b))"

datatype link_error = TwoIdentities | SelfLink

definition link_local :: "byte \<Rightarrow> addr" where
  "link_local n = V6 ([0xfe, 0x80] @ replicate 13 0 @ [n]) []"

definition link_local_addresses ::
    "(bytes \<Rightarrow> string) \<Rightarrow> device \<Rightarrow> device \<Rightarrow> link_error + addr \<times> addr" where
  "link_local_addresses spell self peer =
     (if \<not> dv_valid self \<or> \<not> dv_valid peer then Inl TwoIdentities
      else
        (let c = device_compare spell self peer in
         if c = 0 then Inl SelfLink
         else if c = -1 then Inr (link_local 1, link_local 2)
         else Inr (link_local 2, link_local 1)))"

subsection \<open>Devices as map keys\<close>

definition device_sort :: "device \<Rightarrow> (bytes list \<times> bytes) \<times> string" where
  "device_sort d =
     (((case dv_tenant d of None \<Rightarrow> [] | Some t \<Rightarrow> [t]), dv_id d), dv_operator d)"

lemma device_sort_inject: "device_sort a = device_sort b \<longleftrightarrow> a = b"
  by (cases a; cases b) (auto simp: device_sort_def split: option.splits)

instantiation device :: linorder
begin

definition less_eq_device :: "device \<Rightarrow> device \<Rightarrow> bool" where
  "less_eq_device a b \<longleftrightarrow> device_sort a \<le> device_sort b"

definition less_device :: "device \<Rightarrow> device \<Rightarrow> bool" where
  "less_device a b \<longleftrightarrow> device_sort a < device_sort b"

instance
  by standard (auto simp: less_eq_device_def less_device_def device_sort_inject [symmetric])

end

subsection \<open>Well-formed identities\<close>

text \<open>
  The identities the constructors produce: 16-byte UUIDs, and for an operator a principal of
  its own tenant, as \<open>PeerFromPrincipal\<close> requires.
\<close>

definition device_ok :: "(bytes \<Rightarrow> string) \<Rightarrow> device \<Rightarrow> bool" where
  "device_ok spell d \<longleftrightarrow> dv_valid d \<and> length (dv_id d) = 16 \<and>
     (is_operator d \<longrightarrow> (\<exists>name. dv_operator d =
        ''spiffe://wendy.sh/tenant/'' @ tenant_text spell (dv_tenant d) @ ''/operator/'' @ name))"

lemma cmp_swap: "cmp b a = - cmp a b"
  by (auto simp: cmp_def)

lemma cmp_0 [simp]: "cmp a b = 0 \<longleftrightarrow> a = b"
  by (simp add: cmp_def)

lemma cmp_cases: "cmp a b \<in> {-1, 0, 1}"
  by (simp add: cmp_def)

lemma device_compare_swap: "device_compare spell b a = - device_compare spell a b"
  using cmp_swap [of "peer_principal spell b" "peer_principal spell a"] cmp_swap [of "dv_id b" "dv_id a"]
  by (simp add: device_compare_def Let_def)

lemma device_compare_cases: "device_compare spell a b \<in> {-1, 0, 1}"
  using cmp_cases [of "dv_id a" "dv_id b"] cmp_cases [of "peer_principal spell a" "peer_principal spell b"]
  by (auto simp: device_compare_def Let_def)

lemma device_compare_0:
  assumes "device_ok spell a" "device_ok spell b" "dv_tenant a = dv_tenant b"
    "device_compare spell a b = 0"
  shows "a = b"
proof -
  have i: "dv_id a = dv_id b"
    and p: "is_operator a \<or> is_operator b \<Longrightarrow> peer_principal spell a = peer_principal spell b"
    using assms(4) by (auto simp: device_compare_def Let_def split: if_splits)
  have "dv_operator a = dv_operator b"
  proof (cases "is_operator a \<or> is_operator b")
    case True
    then show ?thesis using assms(1-3) p
      by (cases "is_operator a"; cases "is_operator b")
        (auto simp: device_ok_def peer_principal_def device_spiffe_uri_def)
  qed (simp add: is_operator_def)
  then show ?thesis using i assms(3) by (simp add: device.expand)
qed

subsection \<open>Properties\<close>

text \<open>
  The two ends of a link between devices of one tenant choose
  complementary link-local addresses, each taking the one the other expects; a link of a device
  with itself is refused at both ends.
\<close>

theorem link_addresses_complementary:
  assumes "device_ok spell a" "device_ok spell b" "dv_tenant a = dv_tenant b"
  shows "(if a = b then link_local_addresses spell a b = Inl SelfLink
    else \<exists>x y. link_local_addresses spell a b = Inr (x, y) \<and> link_local_addresses spell b a = Inr (y, x)
      \<and> {x, y} = {link_local 1, link_local 2} \<and> is_link_local_unicast x \<and> x \<noteq> y)"
proof -
  have v: "dv_valid a" "dv_valid b" using assms by (auto simp: device_ok_def)
  have ll: "is_link_local_unicast (link_local 1)" "is_link_local_unicast (link_local 2)"
    by code_simp+
  have ne: "link_local 1 \<noteq> link_local 2" by (simp add: link_local_def)
  have "device_compare spell a a = 0" by (simp add: device_compare_def)
  moreover have "device_compare spell a b = -1 \<or> device_compare spell a b = 1" if "a \<noteq> b"
    using that device_compare_cases [of spell a b] device_compare_0 [OF assms] by blast
  ultimately show ?thesis
    using v ll ne device_compare_swap [of spell b a] by (auto simp: link_local_addresses_def Let_def)
qed

text \<open>
  A device's address lies in the pool and names exactly the last ten
  bytes of its UUID, and an operator's address is outside the pool, whatever the hash function.
\<close>

theorem mesh_addresses_unique:
  assumes "device_ok spell a" "device_ok spell b" "\<not> is_operator a"
  shows "in_mesh (mesh_address sha a) \<and> length (as_slice (mesh_address sha a)) = 16
    \<and> (if is_operator b then mesh_address sha b \<noteq> mesh_address sha a \<and> \<not> in_mesh (mesh_address sha b)
       else (mesh_address sha a = mesh_address sha b) = (uuid_suffix a = uuid_suffix b))"
  using assms
  by (auto simp: mesh_address_def mesh_address_for_def operator_address_def in_mesh_def
      mesh_prefix_bytes_def uuid_suffix_def device_ok_def)

subsection \<open>Witnesses\<close>

definition sample_text :: "bytes \<Rightarrow> string" where
  "sample_text u = map (char_of \<circ> unat) u"

definition sample_device :: "byte \<Rightarrow> device" where
  "sample_device n = Device (Some (replicate 16 7)) (replicate 16 n) []"

lemma sample_device_ok: "device_ok spell (sample_device n)"
  by (simp add: device_ok_def sample_device_def dv_valid_def is_operator_def)

theorem link_addresses_complementary_witness:
  "\<exists>x y. link_local_addresses sample_text (sample_device 1) (sample_device 2) = Inr (x, y)
     \<and> link_local_addresses sample_text (sample_device 2) (sample_device 1) = Inr (y, x)"
proof -
  have "sample_device 1 \<noteq> sample_device 2" by (simp add: sample_device_def)
  then show ?thesis
    using link_addresses_complementary [OF sample_device_ok sample_device_ok, of 1 2 sample_text]
    by (auto simp: sample_device_def)
qed

theorem mesh_addresses_unique_witness:
  "in_mesh (mesh_address (\<lambda>_. replicate 32 0) (sample_device 1))"
  using mesh_addresses_unique [OF sample_device_ok [of _ 1] sample_device_ok [of _ 1],
      where sha = "\<lambda>_. replicate 32 0"]
  by (simp add: sample_device_def is_operator_def)

end
