(* ===== verification/Mesh_Connections.thy ===== *)
theory Mesh_Connections
  imports Mesh_Ident "HOL-Library.Multiset"
begin

section \<open>Connection reservations (localmesh/connection\_policy.go)\<close>

text \<open>
  \<open>policy\<close> is the struct \<open>ConnectionPolicy\<close> of one transport. Its leases are objects other
  goroutines hold pointers to, so they live in a store indexed by the order of their creation;
  \<open>po_connections\<close> is the key set of the map \<open>connections\<close>. Functions a caller hands over (the
  closer of a connection, an observer) are numbers, and an operation returns the ones it calls.
  Every operation is one critical section of the policy's mutex; it reads the clock once. The loop
  of \<open>Ready\<close> ranges over a Go map, so \<open>ready_lease\<close> takes the iteration order as an argument.
\<close>

record connection_limits =
  cl_outgoing :: int
  cl_attempts :: int
  cl_total :: int

record lease =
  le_key :: string
  le_group :: string
  le_peer :: device
  le_outgoing :: bool
  le_ready :: bool
  le_retired :: bool
  le_close :: nat
  le_observer :: "nat option"
  le_progress :: int
  le_tracking :: "nat option"

record policy =
  po_self :: device
  po_prefer_lower :: bool
  po_limits :: connection_limits
  po_leases :: "nat \<Rightarrow> lease"
  po_next :: nat
  po_connections :: "nat list"
  po_tracked :: "nat \<Rightarrow> nat \<times> bool"
  po_next_conn :: nat

abbreviation (input) incoming_idle :: int where "incoming_idle \<equiv> 5000000000"

definition no_lease :: lease where
  "no_lease = \<lparr>le_key = [], le_group = [], le_peer = no_device, le_outgoing = False,
     le_ready = False, le_retired = False, le_close = 0, le_observer = None, le_progress = 0,
     le_tracking = None\<rparr>"

definition new_policy :: "device \<Rightarrow> bool \<Rightarrow> connection_limits \<Rightarrow> policy" where
  "new_policy self prefer_lower lim = \<lparr>po_self = self, po_prefer_lower = prefer_lower,
     po_limits = lim, po_leases = (\<lambda>_. no_lease), po_next = 0, po_connections = [],
     po_tracked = (\<lambda>_. (0, False)), po_next_conn = 0\<rparr>"

definition upd_lease :: "nat \<Rightarrow> (lease \<Rightarrow> lease) \<Rightarrow> policy \<Rightarrow> policy" where
  "upd_lease i f p = p\<lparr>po_leases := (po_leases p)(i := f (po_leases p i))\<rparr>"

subsection \<open>Counts\<close>

record connection_counts =
  cc_outgoing :: int
  cc_attempts :: int
  cc_total :: int
  cc_ready :: int

definition count_where :: "(lease \<Rightarrow> bool) \<Rightarrow> policy \<Rightarrow> int" where
  "count_where P p = int (length (filter (\<lambda>i. P (po_leases p i)) (po_connections p)))"

definition connection_count :: "policy \<Rightarrow> connection_counts" where
  "connection_count p = \<lparr>cc_outgoing = count_where le_outgoing p,
     cc_attempts = count_where (\<lambda>l. le_outgoing l \<and> \<not> le_ready l) p,
     cc_total = count_where (\<lambda>_. True) p,
     cc_ready = count_where (\<lambda>l. le_ready l \<and> \<not> le_retired l) p\<rparr>"

definition incoming_available :: "policy \<Rightarrow> bool" where
  "incoming_available p \<longleftrightarrow> cc_total (connection_count p) < cl_total (po_limits p)"

definition preferred :: "(bytes \<Rightarrow> string) \<Rightarrow> policy \<Rightarrow> lease \<Rightarrow> bool" where
  "preferred spell p l \<longleftrightarrow>
     le_outgoing l = ((device_compare spell (po_self p) (le_peer l) < 0) = po_prefer_lower p)"

subsection \<open>Reservation\<close>

definition lacks_room :: "bool \<Rightarrow> policy \<Rightarrow> bool" where
  "lacks_room outgoing p \<longleftrightarrow>
     (let c = connection_count p; l = po_limits p in
      cl_total l \<le> cc_total c
      \<or> outgoing \<and> (cl_outgoing l \<le> cc_outgoing c \<or> cl_attempts l \<le> cc_attempts c))"

definition same_remote :: "string \<Rightarrow> device \<Rightarrow> lease \<Rightarrow> bool" where
  "same_remote key peer e \<longleftrightarrow> le_key e = key \<or> peer \<noteq> no_device \<and> le_peer e = peer"

definition blocks :: "string \<Rightarrow> device \<Rightarrow> bool \<Rightarrow> string \<Rightarrow> int \<Rightarrow> lease \<Rightarrow> bool" where
  "blocks key peer outgoing grp now e \<longleftrightarrow>
     \<not> le_retired e \<and>
     (le_outgoing e = outgoing \<and> le_key e = key
      \<or> le_ready e \<and> le_group e = grp \<and> same_remote key peer e
      \<or> outgoing \<and> \<not> le_outgoing e \<and> \<not> le_ready e \<and> le_group e = grp
        \<and> now - le_progress e < incoming_idle \<and> same_remote key peer e
      \<or> peer \<noteq> no_device \<and> le_peer e = peer \<and> le_group e = grp \<and> le_outgoing e = outgoing)"

definition reserve_group ::
    "string \<Rightarrow> device \<Rightarrow> bool \<Rightarrow> string \<Rightarrow> int \<Rightarrow> policy \<Rightarrow> nat option \<times> policy" where
  "reserve_group key peer outgoing grp now p =
     (if lacks_room outgoing p
         \<or> list_ex (\<lambda>i. blocks key peer outgoing grp now (po_leases p i)) (po_connections p)
      then (None, p)
      else (Some (po_next p),
        p\<lparr>po_leases := (po_leases p)(po_next p := no_lease\<lparr>le_key := key, le_group := grp,
              le_peer := peer, le_outgoing := outgoing, le_progress := now\<rparr>),
          po_connections := po_connections p @ [po_next p], po_next := po_next p + 1\<rparr>))"

definition reserve :: "string \<Rightarrow> device \<Rightarrow> bool \<Rightarrow> int \<Rightarrow> policy \<Rightarrow> nat option \<times> policy" where
  "reserve key peer outgoing now p = reserve_group key peer outgoing [] now p"

text \<open>\<open>stopTracking\<close>, where it is set, clears the flag of the connection it belongs to.\<close>

definition stop_tracking :: "nat \<Rightarrow> policy \<Rightarrow> policy" where
  "stop_tracking i p = (case le_tracking (po_leases p i) of
     None \<Rightarrow> p
   | Some c \<Rightarrow> p\<lparr>po_tracked := (po_tracked p)(c := (fst (po_tracked p c), False))\<rparr>)"

definition release_lease :: "nat option \<Rightarrow> policy \<Rightarrow> policy" where
  "release_lease l p = (case l of None \<Rightarrow> p
     | Some i \<Rightarrow> let p = stop_tracking i p in
         p\<lparr>po_connections := filter (\<lambda>j. j \<noteq> i) (po_connections p)\<rparr>)"

subsection \<open>Handshake\<close>

definition identify_lease :: "nat option \<Rightarrow> device \<Rightarrow> policy \<Rightarrow> policy" where
  "identify_lease l peer p = (case l of None \<Rightarrow> p
     | Some i \<Rightarrow> if \<not> le_ready (po_leases p i) \<and> peer \<noteq> po_self p
           \<and> dv_tenant peer = dv_tenant (po_self p)
         then upd_lease i (\<lambda>l. l\<lparr>le_peer := peer\<rparr>) p else p)"

definition progress_lease :: "nat option \<Rightarrow> int \<Rightarrow> policy \<Rightarrow> policy" where
  "progress_lease l now p = (case l of None \<Rightarrow> p
     | Some i \<Rightarrow> if \<not> le_ready (po_leases p i) \<and> \<not> le_retired (po_leases p i)
         then upd_lease i (\<lambda>l. l\<lparr>le_progress := now\<rparr>) p else p)"

definition track_incoming :: "nat option \<Rightarrow> policy \<Rightarrow> nat option \<times> policy" where
  "track_incoming l p = (case l of None \<Rightarrow> (None, p)
     | Some i \<Rightarrow> (Some (po_next_conn p),
         upd_lease i (\<lambda>l. l\<lparr>le_tracking := Some (po_next_conn p)\<rparr>)
           (p\<lparr>po_tracked := (po_tracked p)(po_next_conn p := (i, True)),
              po_next_conn := po_next_conn p + 1\<rparr>)))"

text \<open>A read or a write of \<open>n\<close> bytes on a tracked connection.\<close>

definition tracked_io :: "nat \<Rightarrow> int \<Rightarrow> int \<Rightarrow> policy \<Rightarrow> policy" where
  "tracked_io c n now p =
     (if 0 < n \<and> snd (po_tracked p c) then progress_lease (Some (fst (po_tracked p c))) now p else p)"

definition was_ready :: "nat option \<Rightarrow> policy \<Rightarrow> bool" where
  "was_ready l p = (case l of None \<Rightarrow> False | Some i \<Rightarrow> le_ready (po_leases p i))"

definition lease_retired :: "nat option \<Rightarrow> policy \<Rightarrow> bool" where
  "lease_retired l p = (case l of None \<Rightarrow> False | Some i \<Rightarrow> le_retired (po_leases p i))"

definition observe_ready :: "nat option \<Rightarrow> nat \<Rightarrow> policy \<Rightarrow> policy" where
  "observe_ready l f p = (case l of None \<Rightarrow> p
     | Some i \<Rightarrow> upd_lease i (\<lambda>l. l\<lparr>le_observer := Some f\<rparr>) p)"

text \<open>The loop over the other connections; it returns the closers to be called.\<close>

fun settle :: "(bytes \<Rightarrow> string) \<Rightarrow> nat \<Rightarrow> device \<Rightarrow> nat list \<Rightarrow> policy \<Rightarrow> nat list \<times> policy" where
  "settle spell i peer [] p = ([], p)"
| "settle spell i peer (j # js) p =
     (let other = po_leases p j; l = po_leases p i in
      if j = i \<or> \<not> le_ready other \<or> le_retired other \<or> le_peer other \<noteq> peer
         \<or> le_group other \<noteq> le_group l
      then settle spell i peer js p
      else if le_outgoing other = le_outgoing l \<or> preferred spell p other
      then ([le_close l], upd_lease i (\<lambda>l. l\<lparr>le_retired := True\<rparr>) p)
      else
        (let (cs, p) = settle spell i peer js (upd_lease j (\<lambda>l. l\<lparr>le_retired := True\<rparr>) p)
         in (le_close other # cs, p)))"

definition refuses_ready :: "nat \<Rightarrow> device \<Rightarrow> policy \<Rightarrow> bool" where
  "refuses_ready i peer p \<longleftrightarrow>
     (let l = po_leases p i in
      i \<notin> set (po_connections p) \<or> le_retired l \<or> peer = po_self p
      \<or> dv_tenant peer \<noteq> dv_tenant (po_self p)
      \<or> le_peer l \<noteq> no_device \<and> le_peer l \<noteq> peer)"

text \<open>The result is whether the connection is kept, the closers and the observer called.\<close>

definition ready_lease ::
    "(bytes \<Rightarrow> string) \<Rightarrow> nat list \<Rightarrow> nat option \<Rightarrow> device \<Rightarrow> nat \<Rightarrow> policy
      \<Rightarrow> (bool \<times> nat list \<times> nat option) \<times> policy" where
  "ready_lease spell order l peer close p = (case l of
     None \<Rightarrow> ((True, [], None), p)
   | Some i \<Rightarrow>
       if refuses_ready i peer p then ((False, [close], None), p)
       else
         (let p = upd_lease i (\<lambda>l. l\<lparr>le_peer := peer, le_ready := True, le_close := close\<rparr>) p;
              p = stop_tracking i p;
              (cs, p) = settle spell i peer order p;
              keep = (\<not> le_retired (po_leases p i))
          in ((keep, cs, if keep then le_observer (po_leases p i) else None), p)))"

subsection \<open>Candidates\<close>

text \<open>
  \<open>candidate_queue\<close> is the struct \<open>CandidateQueue\<close>: the time of the last failure of each key.
  The shuffle is an argument; \<open>sort.SliceStable\<close> with the comparison of the code is the stable
  sort by the pair of \<open>failure_rank\<close>. The loop of \<open>Failed\<close> takes the map in iteration order.
\<close>

type_synonym candidate_queue = "(string, int) gomap"

abbreviation (input) connect_penalty :: int where "connect_penalty \<equiv> 30000000000"
abbreviation (input) max_candidate_history :: nat where "max_candidate_history \<equiv> 256"

definition oldest_failure :: "(string \<times> int) list \<Rightarrow> string" where
  "oldest_failure entries = fst (fold (\<lambda>(k, t) (oldest, when).
     if oldest = [] \<or> t < when then (k, t) else (oldest, when)) entries ([], 0))"

definition candidate_failed ::
    "(string \<times> int) list \<Rightarrow> string \<Rightarrow> int \<Rightarrow> candidate_queue \<Rightarrow> candidate_queue" where
  "candidate_failed order key now q =
     m_put key now (if max_candidate_history \<le> length q then m_del (oldest_failure order) q else q)"

definition candidate_succeeded :: "string \<Rightarrow> candidate_queue \<Rightarrow> candidate_queue" where
  "candidate_succeeded key q = m_del key q"

definition failure_rank :: "candidate_queue \<Rightarrow> string \<Rightarrow> nat \<times> int" where
  "failure_rank q key = (case map_of q key of None \<Rightarrow> (0, 0) | Some t \<Rightarrow> (1, t))"

definition forget_failures :: "int \<Rightarrow> candidate_queue \<Rightarrow> candidate_queue" where
  "forget_failures now q = filter (\<lambda>(k, t). \<not> connect_penalty \<le> now - t) q"

definition candidate_order ::
    "(string list \<Rightarrow> string list) \<Rightarrow> string list \<Rightarrow> int \<Rightarrow> candidate_queue
      \<Rightarrow> string list \<times> candidate_queue" where
  "candidate_order shuffle keys now q =
     (let q = forget_failures now q in (sort_key (failure_rank q) (shuffle keys), q))"

end
