(* ===== verification/Mesh_Conn_Props.thy ===== *)
theory Mesh_Conn_Props
  imports Mesh_Connections
begin

section \<open>Connection reservations: limits, duplicates and convergence\<close>

text \<open>
  \<open>policy_ok\<close> is the invariant of a connection policy and \<open>policy_reachable\<close> the states its
  operations produce. The main point is \<open>Ready\<close>: at most one connection of a group to a peer
  survives, whichever way the map is iterated, and both ends agree on the survivor.
\<close>

subsection \<open>The invariant\<close>

definition alive :: "policy \<Rightarrow> nat \<Rightarrow> bool" where
  "alive p i \<longleftrightarrow> i \<in> set (po_connections p) \<and> le_ready (po_leases p i) \<and> \<not> le_retired (po_leases p i)"

definition within_limits :: "policy \<Rightarrow> bool" where
  "within_limits p \<longleftrightarrow> (let c = connection_count p; l = po_limits p in
     cc_total c \<le> max 0 (cl_total l) \<and> cc_outgoing c \<le> max 0 (cl_outgoing l)
     \<and> cc_attempts c \<le> max 0 (cl_attempts l))"

definition no_duplicates :: "policy \<Rightarrow> bool" where
  "no_duplicates p \<longleftrightarrow> (\<forall>i j. alive p i \<and> alive p j \<and> le_peer (po_leases p i) = le_peer (po_leases p j)
     \<and> le_group (po_leases p i) = le_group (po_leases p j) \<longrightarrow> i = j)"

definition remote_ok :: "policy \<Rightarrow> bool" where
  "remote_ok p \<longleftrightarrow> (\<forall>i. le_ready (po_leases p i) \<longrightarrow>
     le_peer (po_leases p i) \<noteq> po_self p \<and> dv_tenant (le_peer (po_leases p i)) = dv_tenant (po_self p))"

definition policy_ok :: "policy \<Rightarrow> bool" where
  "policy_ok p \<longleftrightarrow> distinct (po_connections p) \<and> (\<forall>i \<in> set (po_connections p). i < po_next p)
     \<and> within_limits p \<and> no_duplicates p \<and> remote_ok p"

lemma count_where_mono:
  "po_connections q = po_connections p \<Longrightarrow>
     (\<And>i. i \<in> set (po_connections p) \<Longrightarrow> P (po_leases q i) \<Longrightarrow> P (po_leases p i)) \<Longrightarrow>
     count_where P q \<le> count_where P p"
proof -
  assume c: "po_connections q = po_connections p"
    and i: "\<And>i. i \<in> set (po_connections p) \<Longrightarrow> P (po_leases q i) \<Longrightarrow> P (po_leases p i)"
  have "length (filter (\<lambda>i. P (po_leases q i)) xs) \<le> length (filter (\<lambda>i. P (po_leases p i)) xs)"
    if "set xs \<subseteq> set (po_connections p)" for xs
    using that i by (induction xs) auto
  then show ?thesis using c by (simp add: count_where_def)
qed

text \<open>An operation that keeps the connections, only ever makes leases ready or retires them, and
  leaves the peer of a ready lease alone.\<close>

definition calmer :: "policy \<Rightarrow> policy \<Rightarrow> bool" where
  "calmer p q \<longleftrightarrow> po_connections q = po_connections p \<and> po_next q = po_next p \<and> po_self q = po_self p
     \<and> po_limits q = po_limits p \<and> po_prefer_lower q = po_prefer_lower p
     \<and> (\<forall>i. le_outgoing (po_leases q i) = le_outgoing (po_leases p i)
         \<and> le_group (po_leases q i) = le_group (po_leases p i)
         \<and> (le_ready (po_leases p i) \<longrightarrow> le_ready (po_leases q i)))"

lemma calmer_refl [simp]: "calmer p p"
  by (simp add: calmer_def)

lemma calmer_trans: "calmer p q \<Longrightarrow> calmer q r \<Longrightarrow> calmer p r"
  by (auto simp: calmer_def)

lemma calmer_limits:
  assumes "calmer p q" "within_limits p"
  shows "within_limits q"
proof -
  have "count_where P q \<le> count_where P p"
    if "\<And>i. P (po_leases q i) \<Longrightarrow> P (po_leases p i)" for P
    using assms(1) that by (intro count_where_mono) (auto simp: calmer_def)
  note this [of le_outgoing] this [of "\<lambda>_. True"] this [of "\<lambda>l. le_outgoing l \<and> \<not> le_ready l"]
  then have "count_where le_outgoing q \<le> count_where le_outgoing p"
      "count_where (\<lambda>_. True) q \<le> count_where (\<lambda>_. True) p"
      "count_where (\<lambda>l. le_outgoing l \<and> \<not> le_ready l) q
        \<le> count_where (\<lambda>l. le_outgoing l \<and> \<not> le_ready l) p"
    using assms(1) by (auto simp: calmer_def)
  moreover have "po_limits q = po_limits p" using assms(1) by (simp add: calmer_def)
  ultimately show ?thesis using assms(2) by (simp add: within_limits_def connection_count_def Let_def)
qed

text \<open>An operation that does not change what a connection is.\<close>

definition quiet :: "policy \<Rightarrow> policy \<Rightarrow> bool" where
  "quiet p q \<longleftrightarrow> calmer p q \<and> (\<forall>i. le_ready (po_leases q i) = le_ready (po_leases p i)
     \<and> (le_retired (po_leases p i) \<longrightarrow> le_retired (po_leases q i))
     \<and> (le_ready (po_leases p i) \<longrightarrow> le_peer (po_leases q i) = le_peer (po_leases p i)))"

lemma quiet_ok: "quiet p q \<Longrightarrow> policy_ok p \<Longrightarrow> policy_ok q"
  unfolding policy_ok_def
proof (intro conjI)
  assume q: "quiet p q" and p: "distinct (po_connections p) \<and> (\<forall>i \<in> set (po_connections p). i < po_next p)
     \<and> within_limits p \<and> no_duplicates p \<and> remote_ok p"
  have c: "calmer p q" using q by (simp add: quiet_def)
  then show "distinct (po_connections q)" "\<forall>i \<in> set (po_connections q). i < po_next q"
    using p by (simp_all add: calmer_def)
  show "within_limits q" using c p calmer_limits by blast
  have a: "alive p i" "le_peer (po_leases q i) = le_peer (po_leases p i)"
      "le_group (po_leases q i) = le_group (po_leases p i)" if "alive q i" for i
    using that q c by (auto simp: alive_def quiet_def calmer_def)
  show "no_duplicates q"
    unfolding no_duplicates_def
  proof (intro allI impI)
    fix i j assume *: "alive q i \<and> alive q j \<and> le_peer (po_leases q i) = le_peer (po_leases q j)
     \<and> le_group (po_leases q i) = le_group (po_leases q j)"
    then show "i = j" using a [of i] a [of j] p unfolding no_duplicates_def by metis
  qed
  show "remote_ok q" using q c p by (auto simp: remote_ok_def quiet_def calmer_def)
qed

lemma quiet_upd:
  "(\<And>l. le_outgoing (f l) = le_outgoing l \<and> le_group (f l) = le_group l \<and> le_ready (f l) = le_ready l
      \<and> (le_retired l \<longrightarrow> le_retired (f l))) \<Longrightarrow>
   le_ready (po_leases p i) \<longrightarrow> le_peer (f (po_leases p i)) = le_peer (po_leases p i) \<Longrightarrow>
   quiet p (upd_lease i f p)"
  by (simp add: quiet_def calmer_def upd_lease_def)

lemma quiet_refl [simp]: "quiet p p"
  by (simp add: quiet_def)

lemma quiet_trans: "quiet p q \<Longrightarrow> quiet q r \<Longrightarrow> quiet p r"
  by (auto simp: quiet_def intro: calmer_trans)

lemma quiet_stop_tracking [simp]: "quiet p (stop_tracking i p)"
  by (simp add: stop_tracking_def quiet_def calmer_def split: option.split)

lemma quiet_identify: "quiet p (identify_lease l peer p)"
  by (auto simp: identify_lease_def split: option.split intro!: quiet_upd)

lemma quiet_progress: "quiet p (progress_lease l now p)"
  by (auto simp: progress_lease_def split: option.split intro!: quiet_upd)

lemma quiet_io: "quiet p (tracked_io c n now p)"
  by (simp add: tracked_io_def quiet_progress)

lemma quiet_track: "quiet p (snd (track_incoming l p))"
  by (auto simp: track_incoming_def quiet_def calmer_def upd_lease_def split: option.split)

lemma quiet_observe: "quiet p (observe_ready l f p)"
  by (auto simp: observe_ready_def split: option.split intro!: quiet_upd)

subsection \<open>Reservation and release\<close>

lemma policy_ok_new: "policy_ok (new_policy self pref lim)"
  by (simp add: policy_ok_def new_policy_def within_limits_def connection_count_def count_where_def
      no_duplicates_def alive_def remote_ok_def no_lease_def Let_def)

lemma count_where_snoc:
  assumes "\<forall>i \<in> set (po_connections p). i < po_next p"
    "po_leases q = (po_leases p)(po_next p := l)" "po_connections q = po_connections p @ [po_next p]"
  shows "count_where P q = count_where P p + (if P l then 1 else 0)"
proof -
  have "filter (\<lambda>i. P (((po_leases p)(po_next p := l)) i)) (po_connections p)
      = filter (\<lambda>i. P (po_leases p i)) (po_connections p)"
    using assms(1) by (intro filter_cong) auto
  then show ?thesis using assms(2,3) by (simp add: count_where_def)
qed

lemma policy_ok_reserve: "policy_ok p \<Longrightarrow> policy_ok (snd (reserve_group key peer outgoing grp now p))"
proof -
  assume p: "policy_ok p"
  show ?thesis
  proof (cases "lacks_room outgoing p
      \<or> list_ex (\<lambda>i. blocks key peer outgoing grp now (po_leases p i)) (po_connections p)")
    case False
    define l where "l = no_lease\<lparr>le_key := key, le_group := grp, le_peer := peer,
        le_outgoing := outgoing, le_progress := now\<rparr>"
    define q where "q = p\<lparr>po_leases := (po_leases p)(po_next p := l),
        po_connections := po_connections p @ [po_next p], po_next := po_next p + 1\<rparr>"
    have res: "snd (reserve_group key peer outgoing grp now p) = q"
      using False by (simp add: reserve_group_def q_def l_def)
    have lp: "\<not> le_ready l" "le_outgoing l = outgoing" by (simp_all add: l_def no_lease_def)
    note less = p [unfolded policy_ok_def, THEN conjunct2, THEN conjunct1]
    have cw: "count_where P q = count_where P p + (if P l then 1 else 0)" for P
      using less by (rule count_where_snoc) (simp_all add: q_def)
    have lim: "po_limits q = po_limits p" "within_limits p" using p by (simp_all add: q_def policy_ok_def)
    have room: "\<not> lacks_room outgoing p" using False by blast
    have "within_limits q"
      using lim(2) room unfolding within_limits_def connection_count_def Let_def lacks_room_def lim(1)
      by (auto simp: cw lp)
    moreover have "alive q i = alive p i" for i
      using less lp by (auto simp: alive_def q_def)
    then have "no_duplicates q"
      using p less unfolding policy_ok_def no_duplicates_def alive_def q_def
      by (auto simp: less_irrefl dest: bspec)
    moreover have "remote_ok q" using p lp by (auto simp: policy_ok_def remote_ok_def q_def)
    ultimately show ?thesis using p res less by (auto simp: policy_ok_def q_def)
  qed (use p in \<open>auto simp: reserve_group_def\<close>)
qed

lemma filter_le: "length (filter P (filter Q xs)) \<le> length (filter P xs)"
  by (induction xs) auto

lemma count_where_filter:
  "po_leases q = po_leases p \<Longrightarrow> po_connections q = filter Q (po_connections p) \<Longrightarrow>
     count_where P q \<le> count_where P p"
  using filter_le [of "\<lambda>i. P (po_leases p i)" Q "po_connections p"] by (simp add: count_where_def)

lemma policy_ok_release: "policy_ok p \<Longrightarrow> policy_ok (release_lease l p)"
proof (cases l)
  case (Some i)
  assume "policy_ok p"
  then have p: "policy_ok (stop_tracking i p)" using quiet_ok quiet_stop_tracking by blast
  define q where "q = (stop_tracking i p)\<lparr>po_connections := filter (\<lambda>j. j \<noteq> i) (po_connections (stop_tracking i p))\<rparr>"
  have "count_where P q \<le> count_where P (stop_tracking i p)" for P
    by (rule count_where_filter [where Q = "\<lambda>j. j \<noteq> i"]) (simp_all add: q_def)
  note cw = this [of "\<lambda>_. True"] this [of le_outgoing] this [of "\<lambda>l. le_outgoing l \<and> \<not> le_ready l"]
  have "within_limits q"
    using p cw by (auto simp: within_limits_def connection_count_def Let_def policy_ok_def q_def)
  moreover have "no_duplicates q" using p by (auto simp: policy_ok_def no_duplicates_def alive_def q_def)
  ultimately have "policy_ok q" using p by (auto simp: policy_ok_def remote_ok_def q_def)
  then show ?thesis using Some by (simp add: release_lease_def q_def Let_def)
qed (simp add: release_lease_def)

subsection \<open>Settling duplicates\<close>

definition rival :: "policy \<Rightarrow> nat \<Rightarrow> device \<Rightarrow> nat \<Rightarrow> bool" where
  "rival p i peer j \<longleftrightarrow> j \<noteq> i \<and> le_ready (po_leases p j) \<and> \<not> le_retired (po_leases p j)
     \<and> le_peer (po_leases p j) = peer \<and> le_group (po_leases p j) = le_group (po_leases p i)"

definition retire_lease :: "nat \<Rightarrow> policy \<Rightarrow> policy" where
  "retire_lease i p = upd_lease i (\<lambda>l. l\<lparr>le_retired := True\<rparr>) p"

text \<open>The outcome of the loop when the one rival is \<open>j\<close>.\<close>

definition settled :: "(bytes \<Rightarrow> string) \<Rightarrow> nat \<Rightarrow> nat option \<Rightarrow> policy \<Rightarrow> nat list \<times> policy" where
  "settled spell i r p = (case r of
     None \<Rightarrow> ([], p)
   | Some j \<Rightarrow>
       if le_outgoing (po_leases p j) = le_outgoing (po_leases p i) \<or> preferred spell p (po_leases p j)
       then ([le_close (po_leases p i)], retire_lease i p)
       else ([le_close (po_leases p j)], retire_lease j p))"

lemma settle_step:
  "settle spell i peer (j # js) p =
     (if \<not> rival p i peer j then settle spell i peer js p
      else if le_outgoing (po_leases p j) = le_outgoing (po_leases p i) \<or> preferred spell p (po_leases p j)
      then ([le_close (po_leases p i)], retire_lease i p)
      else (case settle spell i peer js (retire_lease j p) of (cs, p') \<Rightarrow> (le_close (po_leases p j) # cs, p')))"
  by (simp add: rival_def retire_lease_def Let_def)

lemma settle_none: "\<forall>j \<in> set js. \<not> rival p i peer j \<Longrightarrow> settle spell i peer js p = ([], p)"
  by (induction js) (simp_all add: settle_step del: settle.simps(2))

lemma rival_retired: "rival (retire_lease j p) i peer k \<longleftrightarrow> k \<noteq> j \<and> rival p i peer k"
  by (auto simp: rival_def retire_lease_def upd_lease_def)

lemma settle_one:
  assumes "j \<in> set js" "rival p i peer j" "\<forall>k \<in> set js. rival p i peer k \<longrightarrow> k = j"
  shows "settle spell i peer js p = settled spell i (Some j) p"
  using assms(1,3)
proof (induction js)
  case (Cons k js)
  show ?case
  proof (cases "k = j")
    case True
    have "settle spell i peer js (retire_lease j p) = ([], retire_lease j p)"
      using Cons.prems(2) by (intro settle_none) (auto simp: rival_retired)
    then show ?thesis using True assms(2)
      by (simp add: settle_step settled_def del: settle.simps(2))
  next
    case False
    then show ?thesis using Cons by (auto simp: settle_step simp del: settle.simps(2))
  qed
qed simp

lemma settle_settled:
  assumes "\<forall>j \<in> set js. \<forall>k \<in> set js. rival p i peer j \<and> rival p i peer k \<longrightarrow> j = k"
  shows "settle spell i peer js p = settled spell i (find (rival p i peer) js) p"
proof (cases "find (rival p i peer) js")
  case None
  then have "\<forall>j \<in> set js. \<not> rival p i peer j" by (simp add: find_None_iff)
  from settle_none [OF this] None show ?thesis unfolding None settled_def by simp
next
  case (Some j)
  then have j: "j \<in> set js" "rival p i peer j" by (auto simp: find_Some_iff)
  then have "\<forall>k \<in> set js. rival p i peer k \<longrightarrow> k = j" using assms by blast
  from settle_one [OF j this] show ?thesis unfolding Some .
qed

lemma find_unique_set:
  assumes "set xs = set ys" "\<forall>x \<in> set xs. \<forall>y \<in> set xs. P x \<and> P y \<longrightarrow> x = y"
  shows "find P xs = find P ys"
proof (cases "find P xs")
  case None
  then have "find P ys = None" using assms(1) by (simp add: find_None_iff)
  then show ?thesis using None by simp
next
  case (Some x)
  then have x: "x \<in> set ys" "P x" using assms(1) by (auto simp: find_Some_iff)
  then have "find P ys \<noteq> None" by (auto simp: find_None_iff)
  then obtain y where "find P ys = Some y" by blast
  moreover from this have "y \<in> set ys" "P y" by (auto simp: find_Some_iff)
  ultimately show ?thesis using Some x assms by metis
qed

subsection \<open>Ready\<close>

text \<open>The policy in which \<open>Ready\<close> runs its loop.\<close>

definition readied :: "nat \<Rightarrow> device \<Rightarrow> nat \<Rightarrow> policy \<Rightarrow> policy" where
  "readied i peer close p = stop_tracking i
     (upd_lease i (\<lambda>l. l\<lparr>le_peer := peer, le_ready := True, le_close := close\<rparr>) p)"

lemma readied_leases:
  "po_leases (readied i peer close p) = (po_leases p)
     (i := (po_leases p i)\<lparr>le_peer := peer, le_ready := True, le_close := close\<rparr>)"
  "po_connections (readied i peer close p) = po_connections p" "po_self (readied i peer close p) = po_self p"
  "po_next (readied i peer close p) = po_next p" "po_limits (readied i peer close p) = po_limits p"
  "po_prefer_lower (readied i peer close p) = po_prefer_lower p"
  by (simp_all add: readied_def stop_tracking_def upd_lease_def split: option.split)

lemma rival_unique:
  assumes "no_duplicates p" "j \<in> set (po_connections p)" "k \<in> set (po_connections p)"
    "rival (readied i peer close p) i peer j" "rival (readied i peer close p) i peer k"
  shows "j = k"
  using assms by (auto simp: rival_def readied_leases no_duplicates_def alive_def)

lemma ready_accepted:
  assumes "policy_ok p" "set order = set (po_connections p)" "\<not> refuses_ready i peer p"
  shows "ready_lease spell order (Some i) peer close p =
    (let (cs, p') = settled spell i (find (rival (readied i peer close p) i peer) (po_connections p))
           (readied i peer close p);
         keep = (\<not> le_retired (po_leases p' i))
     in ((keep, cs, if keep then le_observer (po_leases p' i) else None), p'))"
proof -
  let ?p = "readied i peer close p"
  have nd: "no_duplicates p" using assms(1) by (simp add: policy_ok_def)
  have u: "\<forall>j \<in> set order. \<forall>k \<in> set order. rival ?p i peer j \<and> rival ?p i peer k \<longrightarrow> j = k"
    using rival_unique [OF nd] assms(2) by blast
  then have "find (rival ?p i peer) order = find (rival ?p i peer) (po_connections p)"
    using assms(2) by (intro find_unique_set) auto
  then have "settle spell i peer order ?p
      = settled spell i (find (rival ?p i peer) (po_connections p)) ?p"
    using settle_settled [OF u, of spell] by simp
  then show ?thesis using assms(3) by (simp add: ready_lease_def readied_def)
qed

lemma retire_calmer: "calmer p (retire_lease i p)"
  by (simp add: retire_lease_def calmer_def upd_lease_def)

lemma alive_retire: "alive (retire_lease j p) k \<longleftrightarrow> k \<noteq> j \<and> alive p k"
  by (auto simp: alive_def retire_lease_def upd_lease_def)

lemma retire_fields:
  "le_peer (po_leases (retire_lease j p) k) = le_peer (po_leases p k)"
  "le_group (po_leases (retire_lease j p) k) = le_group (po_leases p k)"
  "le_ready (po_leases (retire_lease j p) k) = le_ready (po_leases p k)"
  "le_retired (po_leases (retire_lease j p) k) \<longleftrightarrow> k = j \<or> le_retired (po_leases p k)"
  "le_observer (po_leases (retire_lease j p) k) = le_observer (po_leases p k)"
  "le_outgoing (po_leases (retire_lease j p) k) = le_outgoing (po_leases p k)"
  "po_connections (retire_lease j p) = po_connections p" "po_self (retire_lease j p) = po_self p"
  by (auto simp: retire_lease_def upd_lease_def)

lemma settled_ok:
  assumes p: "policy_ok p" and i: "\<not> refuses_ready i peer p"
  shows "policy_ok (snd (settled spell i
    (find (rival (readied i peer close p) i peer) (po_connections p)) (readied i peer close p)))"
proof -
  let ?p = "readied i peer close p"
  let ?r = "find (rival ?p i peer) (po_connections p)"
  let ?q = "snd (settled spell i ?r ?p)"
  have c: "calmer p ?p" by (auto simp: calmer_def readied_leases)
  have q: "?q = (case ?r of None \<Rightarrow> ?p | Some j \<Rightarrow> if le_outgoing (po_leases ?p j) = le_outgoing (po_leases ?p i)
      \<or> preferred spell ?p (po_leases ?p j) then retire_lease i ?p else retire_lease j ?p)"
    by (simp add: settled_def split: option.split)
  have cq: "calmer ?p ?q" unfolding q by (auto intro: retire_calmer split: option.split)
  have lim: "within_limits ?q" using p calmer_limits [OF calmer_trans [OF c cq]] by (simp add: policy_ok_def)
  have nd: "no_duplicates p" and ro: "remote_ok p" using p by (simp_all add: policy_ok_def)
  have peer: "peer \<noteq> po_self p" "dv_tenant peer = dv_tenant (po_self p)"
    using i by (auto simp: refuses_ready_def Let_def)
  have ro': "remote_ok ?p" using ro peer by (auto simp: remote_ok_def readied_leases)
  then have "remote_ok ?q" unfolding q by (auto simp: remote_ok_def retire_fields split: option.split)
  moreover
  have lx: "po_leases ?p x = po_leases p x" "alive ?p x = alive p x" if "x \<noteq> i" for x
    using that by (simp_all add: alive_def readied_leases)
  have other: "a = b" if "alive ?p a" "alive ?p b" "a \<noteq> i" "b \<noteq> i"
      "le_peer (po_leases ?p a) = le_peer (po_leases ?p b)"
      "le_group (po_leases ?p a) = le_group (po_leases ?p b)" for a b
    using that nd [unfolded no_duplicates_def, rule_format, of a b] by (simp add: lx)
  have pi: "le_peer (po_leases ?p i) = peer" by (simp add: readied_leases)
  have "no_duplicates ?q"
  proof (cases ?r)
    case None
    then have no: "\<forall>j \<in> set (po_connections p). \<not> rival ?p i peer j" by (simp add: find_None_iff)
    then have "a = b" if "alive ?p a" "alive ?p b" "le_peer (po_leases ?p a) = le_peer (po_leases ?p b)"
        "le_group (po_leases ?p a) = le_group (po_leases ?p b)" for a b
      using that other [of a b] pi by (cases "a = i"; cases "b = i") (auto simp: alive_def rival_def readied_leases(2))
    then have "no_duplicates ?p" unfolding no_duplicates_def by blast
    moreover have "?q = ?p" by (simp add: settled_def None)
    ultimately show ?thesis by metis
  next
    case (Some j)
    then have j: "j \<in> set (po_connections p)" "rival ?p i peer j" by (auto simp: find_Some_iff)
    have "j \<noteq> i" using j(2) by (simp add: rival_def)
    have only: "x = j" if "alive ?p x" "x \<noteq> i" "le_peer (po_leases ?p x) = peer"
        "le_group (po_leases ?p x) = le_group (po_leases ?p i)" for x
    proof (rule rival_unique [OF nd _ j(1) _ j(2)])
      show "x \<in> set (po_connections p)" "rival ?p i peer x"
        using that by (auto simp: alive_def rival_def readied_leases(2))
    qed
    have "no_duplicates (retire_lease i ?p)"
      unfolding no_duplicates_def alive_retire retire_fields using other by blast
    moreover have "no_duplicates (retire_lease j ?p)"
      unfolding no_duplicates_def alive_retire retire_fields
    proof (intro allI impI)
      fix a b
      assume *: "(a \<noteq> j \<and> alive ?p a) \<and> (b \<noteq> j \<and> alive ?p b) \<and>
        le_peer (po_leases ?p a) = le_peer (po_leases ?p b) \<and>
        le_group (po_leases ?p a) = le_group (po_leases ?p b)"
      then show "a = b"
        using other [of a b] only [of a] only [of b] pi by (cases "a = i"; cases "b = i") auto
    qed
    moreover have "?q = retire_lease i ?p \<or> ?q = retire_lease j ?p" by (simp add: settled_def Some)
    ultimately show ?thesis by metis
  qed
  ultimately show ?thesis
    using p lim calmer_trans [OF c cq] by (simp add: policy_ok_def calmer_def)
qed

lemma policy_ok_ready:
  assumes "policy_ok p" "set order = set (po_connections p)"
  shows "policy_ok (snd (ready_lease spell order l peer close p))"
proof (cases l)
  case (Some i)
  show ?thesis
  proof (cases "refuses_ready i peer p")
    case False
    obtain cs p' where s: "settled spell i (find (rival (readied i peer close p) i peer)
        (po_connections p)) (readied i peer close p) = (cs, p')" by fastforce
    then have "policy_ok p'" using settled_ok [OF assms(1) False, of spell close] by simp
    then show ?thesis
      using ready_accepted [OF assms False, of spell close] Some by (simp add: Let_def s)
  qed (use Some assms in \<open>simp add: ready_lease_def\<close>)
qed (use assms in \<open>simp add: ready_lease_def\<close>)

subsection \<open>Runs\<close>

inductive policy_reachable :: "(bytes \<Rightarrow> string) \<Rightarrow> policy \<Rightarrow> bool" for spell where
  fresh: "policy_reachable spell (new_policy self pref lim)"
| reserved: "policy_reachable spell p \<Longrightarrow>
    policy_reachable spell (snd (reserve_group key peer outgoing grp now p))"
| released: "policy_reachable spell p \<Longrightarrow> policy_reachable spell (release_lease l p)"
| identified: "policy_reachable spell p \<Longrightarrow> policy_reachable spell (identify_lease l peer p)"
| progressed: "policy_reachable spell p \<Longrightarrow> policy_reachable spell (progress_lease l now p)"
| tracked: "policy_reachable spell p \<Longrightarrow> policy_reachable spell (snd (track_incoming l p))"
| transferred: "policy_reachable spell p \<Longrightarrow> policy_reachable spell (tracked_io c n now p)"
| observed: "policy_reachable spell p \<Longrightarrow> policy_reachable spell (observe_ready l f p)"
| readied: "policy_reachable spell p \<Longrightarrow> set order = set (po_connections p) \<Longrightarrow>
    policy_reachable spell (snd (ready_lease spell order l peer close p))"

lemma policy_reachable_ok: "policy_reachable spell p \<Longrightarrow> policy_ok p"
proof (induction rule: policy_reachable.induct)
  case fresh
  show ?case by (rule policy_ok_new)
next
  case reserved
  then show ?case by (intro policy_ok_reserve)
next
  case released
  then show ?case by (intro policy_ok_release)
next
  case readied
  then show ?case by (intro policy_ok_ready)
next
  case identified
  then show ?case using quiet_ok quiet_identify by blast
next
  case progressed
  then show ?case using quiet_ok quiet_progress by blast
next
  case tracked
  then show ?case using quiet_ok quiet_track by blast
next
  case transferred
  then show ?case using quiet_ok quiet_io by blast
next
  case observed
  then show ?case using quiet_ok quiet_observe by blast
qed

subsection \<open>Properties\<close>

text \<open>
  C38 (connection_limits_hold): whatever the peers do and in whatever order the operations run,
  pending and established connections together stay within the limits, at most one connection of
  a group to one peer is ready and not retired, and no connection is ready to the device itself or
  to another tenant.
\<close>

theorem connection_limits_hold:
  assumes "policy_reachable spell p"
  shows "cc_total (connection_count p) \<le> max 0 (cl_total (po_limits p))
    \<and> cc_outgoing (connection_count p) \<le> max 0 (cl_outgoing (po_limits p))
    \<and> cc_attempts (connection_count p) \<le> max 0 (cl_attempts (po_limits p))
    \<and> (\<forall>i j. alive p i \<and> alive p j \<and> le_peer (po_leases p i) = le_peer (po_leases p j)
        \<and> le_group (po_leases p i) = le_group (po_leases p j) \<longrightarrow> i = j)
    \<and> (\<forall>i. alive p i \<longrightarrow> le_peer (po_leases p i) \<noteq> po_self p
        \<and> dv_tenant (le_peer (po_leases p i)) = dv_tenant (po_self p))"
  using policy_reachable_ok [OF assms(1)]
  by (auto simp: policy_ok_def within_limits_def no_duplicates_def remote_ok_def alive_def Let_def)

text \<open>
  The loop of \<open>Ready\<close> over the map of connections, which stops early,
  has the same outcome in every iteration order: the same connection is kept, the same closers are
  called and the same state results.
\<close>

theorem ready_order_irrelevant:
  assumes "policy_reachable spell p"
    "set order = set (po_connections p)" "set order' = set (po_connections p)"
  shows "ready_lease spell order l peer close p = ready_lease spell order' l peer close p"
proof (cases l)
  case (Some i)
  note ok = policy_reachable_ok [OF assms(1)]
  show ?thesis
    using ready_accepted [OF ok assms(2), of i peer spell close]
      ready_accepted [OF ok assms(3), of i peer spell close] Some
    by (cases "refuses_ready i peer p") (simp_all add: ready_lease_def)
qed (simp add: ready_lease_def)

text \<open>One of two crossed connections is ready, and the other becomes ready.\<close>

definition crossed :: "policy \<Rightarrow> device \<Rightarrow> nat \<Rightarrow> nat \<Rightarrow> bool" where
  "crossed p peer i j \<longleftrightarrow> alive p j \<and> le_peer (po_leases p j) = peer \<and> \<not> refuses_ready i peer p
     \<and> i \<noteq> j \<and> le_group (po_leases p j) = le_group (po_leases p i)
     \<and> le_outgoing (po_leases p j) = (\<not> le_outgoing (po_leases p i))"

lemma crossed_survivor:
  assumes ok: "policy_ok p" and set: "set order = set (po_connections p)" and x: "crossed p peer i j"
    and r: "ready_lease spell order (Some i) peer close p = ((keep, cs, ob), p')"
  shows "keep = (le_outgoing (po_leases p i) = ((device_compare spell (po_self p) peer < 0) = po_prefer_lower p))"
    "cs = [if keep then le_close (po_leases p j) else close]"
    "alive p' i = keep" "alive p' j = (\<not> keep)"
proof -
  let ?p = "readied i peer close p"
  have nr: "\<not> refuses_ready i peer p" using x by (simp add: crossed_def)
  have j: "j \<in> set (po_connections p)" "rival ?p i peer j"
    using x by (auto simp: crossed_def rival_def alive_def readied_leases(1))
  have nd: "no_duplicates p" using ok by (simp add: policy_ok_def)
  have "find (rival ?p i peer) (po_connections p) \<noteq> None" using j by (auto simp: find_None_iff)
  then obtain k where k: "find (rival ?p i peer) (po_connections p) = Some k" by blast
  then have "k = j" using rival_unique [OF nd _ j(1) _ j(2)] by (auto simp: find_Some_iff)
  note k = k [unfolded this]
  have i: "i \<in> set (po_connections p)" "\<not> le_retired (po_leases p i)"
    using nr by (auto simp: refuses_ready_def Let_def)
  have pref: "preferred spell ?p (po_leases ?p j)
      = ((\<not> le_outgoing (po_leases p i)) = ((device_compare spell (po_self p) peer < 0) = po_prefer_lower p))"
    using x by (simp add: preferred_def crossed_def readied_leases)
  have lj: "po_leases ?p j = po_leases p j" using x by (simp add: crossed_def readied_leases)
  have dir: "le_outgoing (po_leases ?p j) \<noteq> le_outgoing (po_leases ?p i)"
    using x by (simp add: crossed_def readied_leases)
  have s: "settled spell i (Some j) ?p = (if preferred spell ?p (po_leases ?p j)
      then ([close], retire_lease i ?p) else ([le_close (po_leases p j)], retire_lease j ?p))"
    using dir lj by (simp add: settled_def readied_leases(1))
  have al: "alive ?p i" "alive ?p j" using i j x by (auto simp: alive_def crossed_def readied_leases)
  have ne: "i \<noteq> j" using x by (simp add: crossed_def)
  show "keep = (le_outgoing (po_leases p i) = ((device_compare spell (po_self p) peer < 0) = po_prefer_lower p))"
    "cs = [if keep then le_close (po_leases p j) else close]" "alive p' i = keep" "alive p' j = (\<not> keep)"
    using r ready_accepted [OF ok set nr, of spell close, unfolded k s] pref i al ne
    by (auto simp: alive_retire retire_fields readied_leases(1) Let_def split: if_splits)
qed

text \<open>
  C39 (crossed_connections_converge): when two devices dial each other and both connections are
  authenticated, in whatever order at each end, the two ends keep the same connection, the one that
  the preferred device initiated, and each closes exactly the other one.
\<close>

theorem crossed_connections_converge:
  assumes "policy_reachable spell p" "policy_reachable spell q"
    "device_ok spell (po_self p)" "device_ok spell (po_self q)"
    "dv_tenant (po_self p) = dv_tenant (po_self q)" "po_self p \<noteq> po_self q"
    "po_prefer_lower p = po_prefer_lower q"
    "crossed p (po_self q) i j" "crossed q (po_self p) k l"
    "set order = set (po_connections p)" "set order' = set (po_connections q)"
    "ready_lease spell order (Some i) (po_self q) close p = ((keep, cs, ob), p')"
    "ready_lease spell order' (Some k) (po_self p) close' q = ((keep', cs', ob'), q')"
  shows "(le_outgoing (po_leases p (if keep then i else j)) \<longleftrightarrow>
        \<not> le_outgoing (po_leases q (if keep' then k else l)))
    \<and> (le_outgoing (po_leases p (if keep then i else j)) \<longleftrightarrow>
        (device_compare spell (po_self p) (po_self q) < 0) = po_prefer_lower p)
    \<and> alive p' i = keep \<and> alive p' j = (\<not> keep) \<and> alive q' k = keep' \<and> alive q' l = (\<not> keep')
    \<and> cs = [if keep then le_close (po_leases p j) else close]
    \<and> cs' = [if keep' then le_close (po_leases q l) else close']"
proof -
  note P = crossed_survivor [OF policy_reachable_ok [OF assms(1)] assms(10,8,12)]
  note Q = crossed_survivor [OF policy_reachable_ok [OF assms(2)] assms(11,9,13)]
  have "device_compare spell (po_self p) (po_self q) \<noteq> 0"
    using device_compare_0 [OF assms(3-5)] assms(6) by blast
  then have "(device_compare spell (po_self q) (po_self p) < 0)
      = (\<not> device_compare spell (po_self p) (po_self q) < 0)"
    using device_compare_swap [of spell "po_self q" "po_self p"] by auto
  moreover have "le_outgoing (po_leases p j) = (\<not> le_outgoing (po_leases p i))"
      "le_outgoing (po_leases q l) = (\<not> le_outgoing (po_leases q k))"
    using assms(8,9) by (simp_all add: crossed_def)
  ultimately show ?thesis using P Q assms(7) by (cases keep; cases keep') auto
qed

text \<open>
  \<open>Order\<close> only permutes the candidates, whatever the shuffle: a candidate
  that failed less than half a minute ago is followed only by such candidates, none of which failed
  earlier; older failures are forgotten.
\<close>

theorem candidates_ordered:
  assumes "m_ok q" "mset (shuffle keys) = mset keys"
    "candidate_order shuffle keys now q = (out, q')"
  shows "mset out = mset keys
    \<and> (\<forall>a b t. a < b \<and> b < length out \<and> map_of q (out ! a) = Some t \<and> now - t < connect_penalty \<longrightarrow>
        (\<exists>u. map_of q (out ! b) = Some u \<and> now - u < connect_penalty \<and> t \<le> u))
    \<and> (\<forall>k. map_of q' k = (case map_of q k of None \<Rightarrow> None
          | Some t \<Rightarrow> if now - t < connect_penalty then Some t else None))"
proof -
  have q': "q' = forget_failures now q" "out = sort_key (failure_rank q') (shuffle keys)"
    using assms(3) by (auto simp: candidate_order_def Let_def)
  have m: "map_of q' k = (case map_of q k of None \<Rightarrow> None
      | Some t \<Rightarrow> if now - t < connect_penalty then Some t else None)" for k
    unfolding q' forget_failures_def using assms(1)
    by (subst map_of_filter_ok) (auto split: option.split)
  have so: "sorted (map (failure_rank q') out)" unfolding q'(2) by (rule sorted_sort_key)
  have "\<exists>u. map_of q (out ! b) = Some u \<and> now - u < connect_penalty \<and> t \<le> u"
    if "a < b" "b < length out" "map_of q (out ! a) = Some t" "now - t < connect_penalty" for a b t
  proof -
    have "failure_rank q' (out ! a) \<le> failure_rank q' (out ! b)"
      using sorted_nth_mono [OF so, of a b] that by simp
    then show ?thesis using that m [of "out ! a"] m [of "out ! b"]
      by (auto simp: failure_rank_def less_eq_prod_def split: option.splits if_splits)
  qed
  then show ?thesis using m assms(2) q'(2) by auto
qed

lemma oldest_fold:
  fixes xs :: "(string \<times> int) list"
  assumes "oldest \<noteq> []" "[] \<notin> fst ` set xs"
  shows "(case fold (\<lambda>(k, t) (oldest, when). if oldest = [] \<or> t < when then (k, t) else (oldest, when))
      xs (oldest, when) of (k, t) \<Rightarrow> k \<noteq> [] \<and> (k, t) \<in> insert (oldest, when) (set xs)
        \<and> (\<forall>e \<in> insert (oldest, when) (set xs). t \<le> snd e))"
  using assms
proof (induction xs arbitrary: oldest "when")
  case (Cons x xs)
  obtain k t where x: "x = (k, t)" by fastforce
  have "k \<noteq> []" "[] \<notin> fst ` set xs" using Cons.prems x by auto
  then show ?case
    using Cons.IH [of k t] Cons.IH [of oldest "when"] Cons.prems(1) x
    by (cases "t < when") (auto split: prod.splits)
qed simp

lemma oldest_failure_min:
  assumes "xs \<noteq> []" "[] \<notin> fst ` set xs"
  shows "\<exists>t. (oldest_failure xs, t) \<in> set xs \<and> (\<forall>e \<in> set xs. t \<le> snd e)"
proof -
  obtain k t ys where x: "xs = (k, t) # ys" using assms(1) by (metis list.exhaust surj_pair)
  then have "k \<noteq> []" "[] \<notin> fst ` set ys" using assms(2) by auto
  from oldest_fold [OF this, of t] show ?thesis
    unfolding x oldest_failure_def by (auto split: prod.splits)
qed

text \<open>
  Recording a failure keeps the history within its bound; it
  forgets another candidate only when the history is full, and then one whose failure is oldest,
  in whatever order the map is iterated.
\<close>

theorem candidate_history_bounded:
  assumes "m_ok q" "length q \<le> max_candidate_history" "set order = set q" "[] \<notin> fst ` set q"
  shows "length (candidate_failed order key now q) \<le> max_candidate_history
    \<and> m_ok (candidate_failed order key now q)
    \<and> map_of (candidate_failed order key now q) key = Some now
    \<and> (\<exists>victim t. \<forall>k. k \<noteq> key \<and> map_of (candidate_failed order key now q) k \<noteq> map_of q k \<longrightarrow>
        length q = max_candidate_history \<and> k = victim \<and> map_of q victim = Some t
        \<and> (\<forall>e \<in> set q. t \<le> snd e))"
proof (cases "length q = max_candidate_history")
  case True
  then have "order \<noteq> []" using assms(3) by auto
  then obtain t where t: "(oldest_failure order, t) \<in> set q" "\<forall>e \<in> set q. t \<le> snd e"
    using oldest_failure_min [of order] assms(3,4) by metis
  then have o: "map_of q (oldest_failure order) = Some t" using map_of_in_ok [OF assms(1)] by blast
  have "length (m_del (oldest_failure order) q) < length q"
    using o by (intro length_m_del_less) simp
  then have "length (candidate_failed order key now q) \<le> max_candidate_history"
    using length_m_put_le [of "m_del (oldest_failure order) q" key now] assms(1) True
    by (auto simp: candidate_failed_def)
  moreover have "\<forall>k. k \<noteq> key \<and> map_of (candidate_failed order key now q) k \<noteq> map_of q k \<longrightarrow>
      k = oldest_failure order"
    using True by (simp add: candidate_failed_def)
  then have "\<exists>victim t. \<forall>k. k \<noteq> key \<and> map_of (candidate_failed order key now q) k \<noteq> map_of q k \<longrightarrow>
        length q = max_candidate_history \<and> k = victim \<and> map_of q victim = Some t
        \<and> (\<forall>e \<in> set q. t \<le> snd e)"
    using True o t(2) by blast
  moreover have "m_ok (candidate_failed order key now q)"
      "map_of (candidate_failed order key now q) key = Some now"
    using assms(1) by (simp_all add: candidate_failed_def m_ok_m_del)
  ultimately show ?thesis by blast
next
  case False
  then have "length (candidate_failed order key now q) \<le> max_candidate_history"
    using length_m_put_le [of q key now] assms(1,2) by (simp add: candidate_failed_def)
  moreover have "candidate_failed order key now q = m_put key now q"
    using False assms(2) by (simp add: candidate_failed_def)
  ultimately show ?thesis using assms(1) by simp
qed

subsection \<open>Witnesses\<close>

text \<open>Device \<open>a\<close> has dialled \<open>b\<close> on lease 0 and accepted a connection on lease 1; the first is ready.\<close>

definition sample_limits :: connection_limits where
  "sample_limits = \<lparr>cl_outgoing = 2, cl_attempts = 2, cl_total = 4\<rparr>"

definition sample_reserved :: "byte \<Rightarrow> policy" where
  "sample_reserved a = snd (reserve_group [] no_device False [] 0
     (snd (reserve_group [] no_device True [] 0 (new_policy (sample_device a) True sample_limits))))"

definition sample_end :: "byte \<Rightarrow> byte \<Rightarrow> policy" where
  "sample_end a b = snd (ready_lease sample_text [0, 1] (Some 0) (sample_device b) 5 (sample_reserved a))"

lemma sample_reserved_fields:
  "po_connections (sample_reserved a) = [0, 1]" "po_self (sample_reserved a) = sample_device a"
  "po_prefer_lower (sample_reserved a) = True"
  "po_leases (sample_reserved a) = (\<lambda>_. no_lease)(0 := no_lease\<lparr>le_outgoing := True\<rparr>, 1 := no_lease)"
  by (auto simp: sample_reserved_def reserve_group_def lacks_room_def connection_count_def
      count_where_def blocks_def same_remote_def new_policy_def sample_limits_def no_lease_def Let_def)

lemma sample_device_facts:
  "sample_device a = sample_device b \<longleftrightarrow> a = b" "sample_device a \<noteq> no_device"
  "dv_tenant (sample_device a) = dv_tenant (sample_device b)"
  by (simp_all add: sample_device_def no_device_def)

lemma sample_end_reachable: "policy_reachable sample_text (sample_end a b)"
  unfolding sample_end_def sample_reserved_def
  by (intro policy_reachable.readied policy_reachable.reserved policy_reachable.fresh)
    (simp add: sample_reserved_fields(1) flip: sample_reserved_def)

lemma sample_end_fields:
  assumes "a \<noteq> b"
  shows "po_connections (sample_end a b) = [0, 1]" "po_self (sample_end a b) = sample_device a"
    "po_prefer_lower (sample_end a b) = True"
    "po_leases (sample_end a b) = (\<lambda>_. no_lease)(0 := no_lease\<lparr>le_outgoing := True, le_ready := True,
       le_peer := sample_device b, le_close := 5\<rparr>, 1 := no_lease)"
proof -
  have nr: "\<not> refuses_ready 0 (sample_device b) (sample_reserved a)"
    using assms sample_device_facts by (simp add: refuses_ready_def sample_reserved_fields no_lease_def Let_def)
  have "sample_end a b = readied 0 (sample_device b) 5 (sample_reserved a)"
    using nr by (simp add: sample_end_def ready_lease_def flip: readied_def)
      (simp add: readied_leases sample_reserved_fields no_lease_def)
  then show "po_connections (sample_end a b) = [0, 1]" "po_self (sample_end a b) = sample_device a"
    "po_prefer_lower (sample_end a b) = True"
    "po_leases (sample_end a b) = (\<lambda>_. no_lease)(0 := no_lease\<lparr>le_outgoing := True, le_ready := True,
       le_peer := sample_device b, le_close := 5\<rparr>, 1 := no_lease)"
    by (simp_all add: readied_leases sample_reserved_fields fun_eq_iff no_lease_def)
qed

lemma sample_end_crossed: "a \<noteq> b \<Longrightarrow> crossed (sample_end a b) (sample_device b) 1 0"
  using sample_device_facts
  by (simp add: crossed_def alive_def refuses_ready_def sample_end_fields no_lease_def Let_def)

lemma sample_end_alive: "a \<noteq> b \<Longrightarrow> alive (sample_end a b) 0"
  by (simp add: alive_def sample_end_fields no_lease_def)

theorem connection_limits_hold_witness:
  "alive (sample_end 1 2) 0 \<and> cc_total (connection_count (sample_end 1 2)) \<le> 4"
proof -
  have "po_limits (sample_end 1 2) = sample_limits"
  proof -
    have nr: "\<not> refuses_ready 0 (sample_device 2) (sample_reserved 1)"
      using sample_device_facts by (simp add: refuses_ready_def sample_reserved_fields no_lease_def Let_def)
    have "sample_end 1 2 = readied 0 (sample_device 2) 5 (sample_reserved 1)"
      using nr by (simp add: sample_end_def ready_lease_def flip: readied_def)
        (simp add: readied_leases sample_reserved_fields no_lease_def)
    then show ?thesis by (simp add: readied_leases sample_reserved_def reserve_group_def new_policy_def)
  qed
  then show ?thesis
    using connection_limits_hold [OF sample_end_reachable, of 1 2] sample_end_alive [of 1 2]
    by (simp add: sample_limits_def)
qed

theorem ready_order_irrelevant_witness:
  "ready_lease sample_text [0, 1] (Some 1) (sample_device 2) 6 (sample_end 1 2)
     = ready_lease sample_text [1, 0] (Some 1) (sample_device 2) 6 (sample_end 1 2)"
  by (rule ready_order_irrelevant [OF sample_end_reachable]) (auto simp: sample_end_fields)

theorem crossed_connections_converge_witness:
  "\<exists>keep cs ob p' keep' cs' ob' q'.
     ready_lease sample_text [0, 1] (Some 1) (sample_device 2) 6 (sample_end 1 2) = ((keep, cs, ob), p')
     \<and> ready_lease sample_text [1, 0] (Some 1) (sample_device 1) 7 (sample_end 2 1) = ((keep', cs', ob'), q')
     \<and> keep' = (\<not> keep)"
proof -
  obtain keep cs ob p' where p: "ready_lease sample_text [0, 1] (Some 1) (sample_device 2) 6 (sample_end 1 2)
      = ((keep, cs, ob), p')" by (metis prod.collapse)
  obtain keep' cs' ob' q' where q: "ready_lease sample_text [1, 0] (Some 1) (sample_device 1) 7 (sample_end 2 1)
      = ((keep', cs', ob'), q')" by (metis prod.collapse)
  have "le_outgoing (po_leases (sample_end 1 2) (if keep then 1 else 0)) \<longleftrightarrow>
      \<not> le_outgoing (po_leases (sample_end 2 1) (if keep' then 1 else 0))"
    using crossed_connections_converge [OF sample_end_reachable sample_end_reachable,
        of 1 2 2 1 1 0 1 0 "[0, 1]" "[1, 0]" 6 keep cs ob p' 7 keep' cs' ob' q'] p q
      sample_end_crossed [of 1 2] sample_end_crossed [of 2 1] sample_device_facts sample_device_ok
    by (auto simp: sample_end_fields insert_commute)
  then have "keep' = (\<not> keep)" by (cases keep; cases keep') (auto simp: sample_end_fields no_lease_def)
  then show ?thesis using p q by blast
qed

theorem candidates_ordered_witness:
  "map_of (snd (candidate_order (\<lambda>xs. xs) [''a'', ''b''] 40000000000 [(''a'', 30000000000)])) ''a''
     = Some 30000000000"
  using candidates_ordered [where q = "[(''a'', 30000000000)]" and shuffle = "\<lambda>xs. xs"
      and keys = "[''a'', ''b'']" and now = 40000000000, OF _ _ surjective_pairing]
  by (simp add: m_ok_def)

theorem candidate_history_bounded_witness:
  "map_of (candidate_failed [(''a'', 3)] ''b'' 7 [(''a'', 3)]) ''b'' = Some 7
     \<and> m_ok (candidate_failed [(''a'', 3)] ''b'' 7 [(''a'', 3)])"
  using candidate_history_bounded [of "[(''a'', 3)]" "[(''a'', 3)]" "''b''" 7] by (simp add: m_ok_def)

end
