(* ===== verification/Udp_Codec.thy ===== *)
theory Udp_Codec
  imports Babel_Codec
begin

section \<open>Fragments of UDP messages (udpmessage/codec.go)\<close>

text \<open>
  A UDP message of at most 65507 bytes travels in chunks with a header of 20 bytes.
  \<open>udp_encode\<close> and \<open>udp_decode\<close> are \<open>encode\<close> and \<open>decode\<close>. Lengths and indices are Go ints;
  they are natural numbers here, the differences that may be negative integers.
\<close>

abbreviation (input) max_message :: nat where "max_message \<equiv> 65507"
abbreviation (input) max_chunk :: nat where "max_chunk \<equiv> 1000"
abbreviation (input) min_chunk :: nat where "min_chunk \<equiv> 256"
abbreviation (input) header_size :: nat where "header_size \<equiv> 20"
abbreviation (input) max_fragments :: nat where "max_fragments \<equiv> 278"
abbreviation (input) window_size :: nat where "window_size \<equiv> 4096"

record fragment =
  fr_id :: u64
  fr_total :: nat
  fr_stride :: nat
  fr_index :: nat
  fr_count :: nat
  fr_data :: bytes

definition fragment_count :: "nat \<Rightarrow> nat \<Rightarrow> nat" where
  "fragment_count n stride = max 1 ((n + stride - 1) div stride)"

definition read_fragment :: "bytes \<Rightarrow> fragment" where
  "read_fragment b = \<lparr>fr_id = be_val (take 8 (drop 4 b)), fr_total = unat (u16_at b 12),
     fr_stride = unat (u16_at b 14), fr_index = unat (u16_at b 16), fr_count = unat (u16_at b 18),
     fr_data = drop header_size b\<rparr>"

definition udp_decode :: "bytes \<Rightarrow> nat \<Rightarrow> fragment option" where
  "udp_decode b maximum =
     (if length b < header_size \<or> maximum < length b \<or> b ! 0 \<noteq> 87 \<or> b ! 1 \<noteq> 85 \<or> b ! 2 \<noteq> 2
         \<or> b ! 3 \<noteq> 0
      then None
      else
        (let f = read_fragment b in
         if fr_id f = 0 \<or> max_message < fr_total f \<or> fr_stride f < min_chunk - header_size
             \<or> int maximum - int header_size < int (fr_stride f)
         then None
         else
           (let n = fragment_count (fr_total f) (fr_stride f) in
            if fr_count f \<noteq> n \<or> max_fragments < fr_count f \<or> n \<le> fr_index f then None
            else if int (length (fr_data f))
                \<noteq> min (int (fr_stride f)) (int (fr_total f) - int (fr_index f * fr_stride f))
            then None
            else Some f)))"

definition udp_encode :: "u64 \<Rightarrow> bytes \<Rightarrow> nat \<Rightarrow> nat \<Rightarrow> bytes" where
  "udp_encode mid payload stride index =
     (let offset = index * stride in
      [87, 85, 2, 0] @ be_bytes 8 mid @ be_bytes 2 (word_of_nat (length payload) :: u16)
        @ be_bytes 2 (word_of_nat stride :: u16) @ be_bytes 2 (word_of_nat index :: u16)
        @ be_bytes 2 (word_of_nat (fragment_count (length payload) stride) :: u16)
        @ take (min stride (length payload - offset)) (drop offset payload))"

subsection \<open>Counting fragments\<close>

lemma fragment_count_pos [simp]: "0 < fragment_count n stride"
  by (simp add: fragment_count_def)

lemma fragment_count_eq:
  "0 < stride \<Longrightarrow> fragment_count n stride = (if n = 0 then 1 else (n - 1) div stride + 1)"
proof -
  assume s: "0 < stride"
  show ?thesis
  proof (cases n)
    case 0
    then show ?thesis using s by (simp add: fragment_count_def div_eq_0_iff)
  next
    case (Suc m)
    have "(n + stride - 1) div stride = (m + stride) div stride" using Suc s by simp
    also have "\<dots> = m div stride + 1" using div_add_self2 [of stride m] s by simp
    finally show ?thesis using Suc by (simp add: fragment_count_def)
  qed
qed

lemma fragment_offset:
  "0 < stride \<Longrightarrow> i < fragment_count n stride \<Longrightarrow> i * stride < n \<or> i = 0"
proof (cases "n = 0")
  case False
  assume s: "0 < stride" and i: "i < fragment_count n stride"
  then have "i \<le> (n - 1) div stride" using False by (simp add: fragment_count_eq)
  then have "i * stride \<le> n - 1" using s by (simp add: less_eq_div_iff_mult_less_eq)
  then show ?thesis using False by linarith
qed (simp add: fragment_count_eq)

lemma fragment_cover:
  "0 < stride \<Longrightarrow> n \<le> fragment_count n stride * stride"
proof (cases "n = 0")
  case False
  assume s: "0 < stride"
  have "n - 1 < ((n - 1) div stride + 1) * stride"
    using s by (metis add.commute dividend_less_div_times mult.commute mult_Suc plus_1_eq_Suc)
  then show ?thesis using False s by (simp add: fragment_count_eq)
qed simp

lemma fragment_count_le:
  "n \<le> max_message \<Longrightarrow> min_chunk - header_size \<le> stride \<Longrightarrow> fragment_count n stride \<le> max_fragments"
proof -
  assume n: "n \<le> max_message" and s: "min_chunk - header_size \<le> stride"
  have "(n - 1) div stride \<le> (n - 1) div 236" using s by (intro div_le_mono2) auto
  also have "\<dots> \<le> 65506 div 236" using n by (intro div_le_mono) auto
  finally have "(n - 1) div stride \<le> 277" by simp
  then show ?thesis using s by (simp add: fragment_count_eq)
qed

lemma int_min_diff: "k \<le> n \<Longrightarrow> min (int s) (int n - int k) = int (min s (n - k))"
  by linarith

subsection \<open>Round trip\<close>

lemma u16_roundtrip: "n < 65536 \<Longrightarrow> unat (word_of_nat n :: u16) = n"
  by (simp add: unat_of_nat)

lemma decode_encode:
  assumes "mid \<noteq> 0" "length payload \<le> max_message" "min_chunk - header_size \<le> stride"
    "stride + header_size \<le> maximum" "maximum \<le> max_chunk"
    "index < fragment_count (length payload) stride"
  shows "udp_decode (udp_encode mid payload stride index) maximum =
    Some \<lparr>fr_id = mid, fr_total = length payload, fr_stride = stride, fr_index = index,
      fr_count = fragment_count (length payload) stride,
      fr_data = take stride (drop (index * stride) payload)\<rparr>"
proof -
  let ?n = "fragment_count (length payload) stride"
  let ?b = "udp_encode mid payload stride index"
  have n: "?n \<le> max_fragments" using assms(2,3) by (rule fragment_count_le)
  have off: "index * stride < length payload \<or> index = 0"
    using assms(3,6) by (intro fragment_offset) auto
  have data: "take (min stride (length payload - index * stride)) (drop (index * stride) payload)
      = take stride (drop (index * stride) payload)"
    by (simp add: min_def)
  have len: "length ?b = header_size + min stride (length payload - index * stride)"
    by (simp add: udp_encode_def Let_def)
  have r: "read_fragment ?b = \<lparr>fr_id = mid, fr_total = length payload, fr_stride = stride,
      fr_index = index, fr_count = ?n, fr_data = take stride (drop (index * stride) payload)\<rparr>"
    using assms n data
    by (simp add: read_fragment_def udp_encode_def Let_def u16_at_def be_val_be_bytes_full u16_roundtrip)
  have h: "?b ! 0 = 87" "?b ! 1 = 85" "?b ! 2 = 2" "?b ! 3 = 0"
    by (simp_all add: udp_encode_def Let_def)
  have "index * stride \<le> length payload" using off by auto
  from int_min_diff [OF this, of stride]
  have "int (length (take stride (drop (index * stride) payload)))
      = min (int stride) (int (length payload) - int (index * stride))"
    by (simp only: length_take length_drop min.commute)
  then show ?thesis
    using assms n len h unfolding udp_decode_def r Let_def by simp
qed

text \<open>
  every chunk of a message that the sender's limits allow fits the
  negotiated size and is decoded to its place in the message and its bytes.
\<close>

theorem chunk_round_trip:
  assumes "mid \<noteq> 0" "length payload \<le> max_message" "min_chunk - header_size \<le> stride"
    "stride + header_size \<le> maximum" "maximum \<le> max_chunk"
    "index < fragment_count (length payload) stride"
  shows "udp_decode (udp_encode mid payload stride index) maximum =
    Some \<lparr>fr_id = mid, fr_total = length payload, fr_stride = stride, fr_index = index,
      fr_count = fragment_count (length payload) stride,
      fr_data = take stride (drop (index * stride) payload)\<rparr>"
  using assms by (rule decode_encode)

text \<open>
  Whatever bytes arrive, a chunk that is accepted names a nonzero message,
  lies inside the message it declares, and its parameters fit the receiver's arrays.
\<close>

theorem decoded_chunk_sane:
  assumes "udp_decode b maximum = Some f"
  shows "fr_id f \<noteq> 0 \<and> fr_total f \<le> max_message \<and> min_chunk - header_size \<le> fr_stride f
    \<and> fr_stride f + header_size \<le> maximum \<and> fr_count f = fragment_count (fr_total f) (fr_stride f)
    \<and> fr_index f < fr_count f \<and> fr_count f \<le> max_fragments
    \<and> fr_index f * fr_stride f + length (fr_data f) \<le> fr_total f
    \<and> length (fr_data f) = min (fr_stride f) (fr_total f - fr_index f * fr_stride f)
    \<and> header_size + length (fr_data f) = length b"
proof -
  have f: "f = read_fragment b" "header_size \<le> length b"
    and c: "fr_id f \<noteq> 0" "fr_total f \<le> max_message" "min_chunk - header_size \<le> fr_stride f"
      "int (fr_stride f) \<le> int maximum - int header_size"
      "fr_count f = fragment_count (fr_total f) (fr_stride f)"
      "fr_index f < fr_count f" "fr_count f \<le> max_fragments"
      "int (length (fr_data f)) = min (int (fr_stride f)) (int (fr_total f) - int (fr_index f * fr_stride f))"
    using assms by (auto simp: udp_decode_def Let_def not_le not_less split: if_splits)
  have "fr_index f * fr_stride f < fr_total f \<or> fr_index f = 0"
    using c(3,5,6) by (intro fragment_offset) auto
  then have off: "fr_index f * fr_stride f \<le> fr_total f" by auto
  then have "int (length (fr_data f)) = int (min (fr_stride f) (fr_total f - fr_index f * fr_stride f))"
    using c(8) int_min_diff [OF off, of "fr_stride f"] by argo
  then have len: "length (fr_data f) = min (fr_stride f) (fr_total f - fr_index f * fr_stride f)"
    by (simp only: of_nat_eq_iff)
  have "length (fr_data f) = length b - header_size" unfolding f by (simp add: read_fragment_def)
  then have all: "header_size + length (fr_data f) = length b" using f(2) by simp
  have fits: "fr_index f * fr_stride f + length (fr_data f) \<le> fr_total f" using off len by simp
  have "fr_stride f + header_size \<le> maximum" using c(4) by linarith
  then show ?thesis using c(1-3,5-7) len all fits by blast
qed

theorem chunk_round_trip_witness:
  "udp_decode (udp_encode 5 [1, 2, 3] 236 0) 1000 =
    Some \<lparr>fr_id = 5, fr_total = 3, fr_stride = 236, fr_index = 0, fr_count = 1, fr_data = [1, 2, 3]\<rparr>"
  using chunk_round_trip [of 5 "[1, 2, 3]" 236 1000 0] by (simp add: fragment_count_def)

theorem decoded_chunk_sane_witness:
  "\<exists>f. udp_decode (udp_encode 5 [1, 2, 3] 236 0) 1000 = Some f \<and> fr_count f \<le> 278"
proof -
  have *: "udp_decode (udp_encode 5 [1, 2, 3] 236 0) 1000 =
    Some \<lparr>fr_id = 5, fr_total = 3, fr_stride = 236, fr_index = 0, fr_count = 1, fr_data = [1, 2, 3]\<rparr>"
    using decode_encode [of 5 "[1, 2, 3]" 236 1000 0] by (simp add: fragment_count_def)
  from decoded_chunk_sane [OF *] * show ?thesis by auto
qed

end
