(* ===== verification/Udp_Manager.thy ===== *)
theory Udp_Manager
  imports Udp_Codec Mesh_Ident
begin

section \<open>Bounded UDP messages (udpmessage/manager.go)\<close>

text \<open>
  \<open>manager\<close> is the struct \<open>Manager\<close> with the objects its pointers reach: peers, endpoints,
  reservations, outgoing and completed messages live in stores and are named by numbers, all drawn
  from \<open>mg_fresh\<close>. An operation is one critical section of the manager's mutex; an operation of
  the code with several sections is several definitions here, and theory \<open>Udp_Runs\<close> interleaves
  them. What a caller's guard and transport answer are arguments. Times are nanoseconds; None is
  the zero time. Counters are words, usages and sizes Go ints.
\<close>

abbreviation (input) lifetime :: int where "lifetime \<equiv> 30000000000"
abbreviation (input) flow_rx_messages :: int where "flow_rx_messages \<equiv> 4"
abbreviation (input) flow_tx_messages :: int where "flow_tx_messages \<equiv> 8"
abbreviation (input) flow_bytes :: int where "flow_bytes \<equiv> 262144"
abbreviation (input) peer_rx_messages :: int where "peer_rx_messages \<equiv> 16"
abbreviation (input) peer_tx_messages :: int where "peer_tx_messages \<equiv> 32"
abbreviation (input) peer_bytes :: int where "peer_bytes \<equiv> 1048576"
abbreviation (input) node_rx_messages :: int where "node_rx_messages \<equiv> 128"
abbreviation (input) node_tx_messages :: int where "node_tx_messages \<equiv> 256"
abbreviation (input) node_bytes :: int where "node_bytes \<equiv> 8388608"
abbreviation (input) node_flows :: int where "node_flows \<equiv> 256"
abbreviation (input) peer_flows :: nat where "peer_flows \<equiv> 32"
abbreviation (input) node_socket_bytes :: int where "node_socket_bytes \<equiv> 134217728"
abbreviation (input) peer_socket_bytes :: int where "peer_socket_bytes \<equiv> 16777216"
abbreviation (input) flow_socket_bytes :: int where "flow_socket_bytes \<equiv> 2097152"

subsection \<open>State\<close>

datatype udp_error =
    Malformed
  | Capacity
  | Closed
  | Expired
  | QueueFull
  | TooLarge nat
  | Exhausted
  | Attached
  | Denied
  | OtherError

record usage =
  us_messages :: int
  us_bytes :: int

record peer_state =
  pe_device :: device
  pe_flows :: "nat list"
  pe_next :: nat
  pe_rx :: usage
  pe_tx :: usage
  pe_socket :: int

record reservation =
  rs_endpoint :: nat
  rs_bytes :: int
  rs_tx :: bool
  rs_released :: bool

record udp_assembly =
  ua_total :: nat
  ua_stride :: nat
  ua_count :: nat
  ua_received :: nat
  ua_born :: int
  ua_data :: bytes
  ua_present :: "bool list"
  ua_reservation :: nat

record outgoing =
  og_id :: u64
  og_payload :: bytes
  og_stride :: nat
  og_index :: nat
  og_born :: int
  og_retry :: "int option"
  og_backoff :: int
  og_reservation :: nat

record udp_message =
  um_payload :: bytes
  um_reservation :: nat

record endpoint =
  ep_peer :: nat
  ep_closed :: bool
  ep_attached :: bool
  ep_local :: bool
  ep_maximum :: nat
  ep_receive_maximum :: nat
  ep_socket :: int
  ep_queue :: "nat list"
  ep_next_id :: u64
  ep_high :: u64
  ep_states :: "nat list"
  ep_assemblies :: "(u64, udp_assembly) gomap"
  ep_completed :: "nat list"
  ep_rx :: usage
  ep_tx :: usage

record udp_stats =
  su_flows :: int
  su_socket_bytes :: int
  su_rx_high_water :: int
  su_tx_high_water :: int
  su_rx_message_high_water :: int
  su_tx_message_high_water :: int
  su_flow_high_water :: int
  su_socket_high_water :: int
  su_negotiated_seen_min :: nat
  su_negotiated_seen_max :: nat
  su_send_seen_min :: nat
  su_transport_admissions :: u64
  su_local_admissions :: u64
  su_received_chunks :: u64
  su_reassembled :: u64
  su_canceled :: u64
  su_budget_rejects :: u64
  su_expired :: u64
  su_evicted :: u64
  su_malformed :: u64
  su_duplicate :: u64
  su_late :: u64
  su_conflicting :: u64
  su_queue_refusals :: u64
  su_size_drops :: u64
  su_guard_rejects :: u64
  su_transport_failures :: u64

record manager =
  mg_peers :: "(device, nat) gomap"
  mg_order :: "nat list"
  mg_next :: nat
  mg_rx :: usage
  mg_tx :: usage
  mg_stats :: udp_stats
  mg_closed :: bool
  mg_peer :: "nat \<Rightarrow> peer_state"
  mg_endpoint :: "nat \<Rightarrow> endpoint"
  mg_reservation :: "nat \<Rightarrow> reservation"
  mg_outgoing :: "nat \<Rightarrow> outgoing"
  mg_message :: "nat \<Rightarrow> udp_message"
  mg_fresh :: nat

abbreviation count_udp :: "(udp_stats \<Rightarrow> udp_stats) \<Rightarrow> manager \<Rightarrow> manager" where
  "count_udp f m \<equiv> m\<lparr>mg_stats := f (mg_stats m)\<rparr>"

definition upd_endpoint :: "nat \<Rightarrow> (endpoint \<Rightarrow> endpoint) \<Rightarrow> manager \<Rightarrow> manager" where
  "upd_endpoint e f m = m\<lparr>mg_endpoint := (mg_endpoint m)(e := f (mg_endpoint m e))\<rparr>"

definition upd_peer :: "nat \<Rightarrow> (peer_state \<Rightarrow> peer_state) \<Rightarrow> manager \<Rightarrow> manager" where
  "upd_peer p f m = m\<lparr>mg_peer := (mg_peer m)(p := f (mg_peer m p))\<rparr>"

definition upd_outgoing :: "nat \<Rightarrow> (outgoing \<Rightarrow> outgoing) \<Rightarrow> manager \<Rightarrow> manager" where
  "upd_outgoing og f m = m\<lparr>mg_outgoing := (mg_outgoing m)(og := f (mg_outgoing m og))\<rparr>"

definition no_usage :: usage where
  "no_usage = \<lparr>us_messages = 0, us_bytes = 0\<rparr>"

definition zero_udp_stats :: udp_stats where
  "zero_udp_stats = \<lparr>su_flows = 0, su_socket_bytes = 0, su_rx_high_water = 0, su_tx_high_water = 0,
     su_rx_message_high_water = 0, su_tx_message_high_water = 0, su_flow_high_water = 0,
     su_socket_high_water = 0, su_negotiated_seen_min = 0, su_negotiated_seen_max = 0,
     su_send_seen_min = 0, su_transport_admissions = 0, su_local_admissions = 0,
     su_received_chunks = 0, su_reassembled = 0, su_canceled = 0, su_budget_rejects = 0,
     su_expired = 0, su_evicted = 0, su_malformed = 0, su_duplicate = 0, su_late = 0,
     su_conflicting = 0, su_queue_refusals = 0, su_size_drops = 0, su_guard_rejects = 0,
     su_transport_failures = 0\<rparr>"

definition new_endpoint :: "nat \<Rightarrow> endpoint" where
  "new_endpoint p = \<lparr>ep_peer = p, ep_closed = False, ep_attached = False, ep_local = False,
     ep_maximum = max_chunk, ep_receive_maximum = max_chunk, ep_socket = 0, ep_queue = [],
     ep_next_id = 1, ep_high = 0, ep_states = replicate window_size 0, ep_assemblies = [],
     ep_completed = [], ep_rx = no_usage, ep_tx = no_usage\<rparr>"

definition new_manager :: manager where
  "new_manager = \<lparr>mg_peers = [], mg_order = [], mg_next = 0, mg_rx = no_usage, mg_tx = no_usage,
     mg_stats = zero_udp_stats, mg_closed = False,
     mg_peer = (\<lambda>_. \<lparr>pe_device = no_device, pe_flows = [], pe_next = 0, pe_rx = no_usage,
       pe_tx = no_usage, pe_socket = 0\<rparr>),
     mg_endpoint = (\<lambda>_. (new_endpoint 0)\<lparr>ep_closed := True\<rparr>),
     mg_reservation = (\<lambda>_. \<lparr>rs_endpoint = 0, rs_bytes = 0, rs_tx = False, rs_released = True\<rparr>),
     mg_outgoing = (\<lambda>_. \<lparr>og_id = 0, og_payload = [], og_stride = 0, og_index = 0, og_born = 0,
       og_retry = None, og_backoff = 0, og_reservation = 0\<rparr>),
     mg_message = (\<lambda>_. \<lparr>um_payload = [], um_reservation = 0\<rparr>), mg_fresh = 0\<rparr>"

subsection \<open>Reservations\<close>

definition add_usage :: "int \<Rightarrow> usage \<Rightarrow> usage" where
  "add_usage n u = \<lparr>us_messages = us_messages u + 1, us_bytes = us_bytes u + n\<rparr>"

definition sub_usage :: "int \<Rightarrow> usage \<Rightarrow> usage" where
  "sub_usage n u = \<lparr>us_messages = us_messages u - 1, us_bytes = us_bytes u - n\<rparr>"

text \<open>Change the usage of a flow, its peer and the node in one direction.\<close>

definition upd_usage :: "bool \<Rightarrow> nat \<Rightarrow> (usage \<Rightarrow> usage) \<Rightarrow> manager \<Rightarrow> manager" where
  "upd_usage tx e f m =
     (if tx then
        upd_endpoint e (\<lambda>x. x\<lparr>ep_tx := f (ep_tx x)\<rparr>)
          (upd_peer (ep_peer (mg_endpoint m e)) (\<lambda>p. p\<lparr>pe_tx := f (pe_tx p)\<rparr>)
            (m\<lparr>mg_tx := f (mg_tx m)\<rparr>))
      else
        upd_endpoint e (\<lambda>x. x\<lparr>ep_rx := f (ep_rx x)\<rparr>)
          (upd_peer (ep_peer (mg_endpoint m e)) (\<lambda>p. p\<lparr>pe_rx := f (pe_rx p)\<rparr>)
            (m\<lparr>mg_rx := f (mg_rx m)\<rparr>)))"

definition flow_usage :: "bool \<Rightarrow> nat \<Rightarrow> manager \<Rightarrow> usage" where
  "flow_usage tx e m = (if tx then ep_tx (mg_endpoint m e) else ep_rx (mg_endpoint m e))"

definition peer_usage :: "bool \<Rightarrow> nat \<Rightarrow> manager \<Rightarrow> usage" where
  "peer_usage tx p m = (if tx then pe_tx (mg_peer m p) else pe_rx (mg_peer m p))"

definition node_usage :: "bool \<Rightarrow> manager \<Rightarrow> usage" where
  "node_usage tx m = (if tx then mg_tx m else mg_rx m)"

definition exceeds :: "usage \<Rightarrow> int \<Rightarrow> int \<Rightarrow> int \<Rightarrow> bool" where
  "exceeds u charge messages bytes \<longleftrightarrow> messages \<le> us_messages u \<or> bytes < us_bytes u + charge"

definition note_high_water :: "manager \<Rightarrow> manager" where
  "note_high_water m = count_udp (\<lambda>s. s\<lparr>
     su_rx_high_water := max (su_rx_high_water s) (us_bytes (mg_rx m)),
     su_tx_high_water := max (su_tx_high_water s) (us_bytes (mg_tx m)),
     su_rx_message_high_water := max (su_rx_message_high_water s) (us_messages (mg_rx m)),
     su_tx_message_high_water := max (su_tx_message_high_water s) (us_messages (mg_tx m))\<rparr>) m"

definition reserve_udp :: "nat \<Rightarrow> nat \<Rightarrow> bool \<Rightarrow> manager \<Rightarrow> nat option \<times> manager" where
  "reserve_udp e n tx m =
     (let charge = max (int n) 256; p = ep_peer (mg_endpoint m e) in
      if exceeds (flow_usage tx e m) charge (if tx then flow_tx_messages else flow_rx_messages) flow_bytes
        \<or> exceeds (peer_usage tx p m) charge (if tx then peer_tx_messages else peer_rx_messages) peer_bytes
        \<or> exceeds (node_usage tx m) charge (if tx then node_tx_messages else node_rx_messages) node_bytes
      then (None, m)
      else
        (let m = note_high_water (upd_usage tx e (add_usage charge) m) in
         (Some (mg_fresh m), m\<lparr>
            mg_reservation := (mg_reservation m)(mg_fresh m :=
              \<lparr>rs_endpoint = e, rs_bytes = charge, rs_tx = tx, rs_released = False\<rparr>),
            mg_fresh := mg_fresh m + 1\<rparr>)))"

definition release_udp :: "nat \<Rightarrow> manager \<Rightarrow> manager" where
  "release_udp r m =
     (let rs = mg_reservation m r in
      if rs_released rs then m
      else upd_usage (rs_tx rs) (rs_endpoint rs) (sub_usage (rs_bytes rs))
        (m\<lparr>mg_reservation := (mg_reservation m)(r := rs\<lparr>rs_released := True\<rparr>)\<rparr>))"

subsection \<open>Flows\<close>

definition open_udp :: "device \<Rightarrow> bool \<Rightarrow> manager \<Rightarrow> (udp_error + nat) \<times> manager" where
  "open_udp peer has_guard m =
     (if \<not> dv_valid peer \<or> \<not> has_guard then (Inl Malformed, m)
      else if mg_closed m then (Inl Closed, m)
      else if node_flows \<le> su_flows (mg_stats m)
          \<or> (case map_of (mg_peers m) peer of None \<Rightarrow> False
             | Some p \<Rightarrow> peer_flows \<le> length (pe_flows (mg_peer m p)))
        then (Inl Capacity, m)
      else
        (let (p, m) = (case map_of (mg_peers m) peer of
               Some p \<Rightarrow> (p, m)
             | None \<Rightarrow> (mg_fresh m, m\<lparr>
                 mg_peer := (mg_peer m)(mg_fresh m := \<lparr>pe_device = peer, pe_flows = [],
                   pe_next = 0, pe_rx = no_usage, pe_tx = no_usage, pe_socket = 0\<rparr>),
                 mg_peers := m_put peer (mg_fresh m) (mg_peers m),
                 mg_order := mg_order m @ [mg_fresh m], mg_fresh := mg_fresh m + 1\<rparr>));
             e = mg_fresh m;
             m = m\<lparr>mg_endpoint := (mg_endpoint m)(e := new_endpoint p), mg_fresh := e + 1\<rparr>;
             m = upd_peer p (\<lambda>x. x\<lparr>pe_flows := pe_flows x @ [e]\<rparr>) m
         in (Inr e, count_udp (\<lambda>s. s\<lparr>su_flows := su_flows s + 1,
              su_flow_high_water := max (su_flow_high_water s) (su_flows s + 1)\<rparr>) m)))"

definition note_negotiated :: "nat \<Rightarrow> udp_stats \<Rightarrow> udp_stats" where
  "note_negotiated maximum s = s\<lparr>
     su_negotiated_seen_min := (if su_negotiated_seen_min s = 0 \<or> maximum < su_negotiated_seen_min s
        then maximum else su_negotiated_seen_min s),
     su_negotiated_seen_max := max (su_negotiated_seen_max s) maximum,
     su_send_seen_min := (if su_send_seen_min s = 0 \<or> maximum < su_send_seen_min s
        then maximum else su_send_seen_min s)\<rparr>"

definition attach_udp :: "nat \<Rightarrow> nat \<Rightarrow> bool \<Rightarrow> bool \<Rightarrow> manager \<Rightarrow> udp_error option \<times> manager" where
  "attach_udp e maximum local has_send m =
     (if maximum < min_chunk \<or> max_chunk < maximum \<or> \<not> has_send then (Some Malformed, m)
      else if ep_closed (mg_endpoint m e) then (Some Closed, m)
      else if ep_attached (mg_endpoint m e) then (Some Attached, m)
      else
        (let m = upd_endpoint e (\<lambda>x. x\<lparr>ep_maximum := maximum, ep_receive_maximum := maximum,
               ep_local := local, ep_attached := True\<rparr>) m
         in (None, if local then m else count_udp (note_negotiated maximum) m)))"

definition reserve_socket :: "nat \<Rightarrow> int \<Rightarrow> manager \<Rightarrow> udp_error option \<times> manager" where
  "reserve_socket e n m =
     (let x = mg_endpoint m e; p = mg_peer m (ep_peer x) in
      if ep_closed x then (Some Closed, m)
      else if n \<le> 0 \<or> flow_socket_bytes < n \<or> peer_socket_bytes < pe_socket p + n - ep_socket x
          \<or> node_socket_bytes < su_socket_bytes (mg_stats m) + n - ep_socket x
        then (Some Capacity, m)
      else
        (let delta = n - ep_socket x;
             m = upd_endpoint e (\<lambda>x. x\<lparr>ep_socket := n\<rparr>) m;
             m = upd_peer (ep_peer x) (\<lambda>p. p\<lparr>pe_socket := pe_socket p + delta\<rparr>) m
         in (None, count_udp (\<lambda>s. s\<lparr>su_socket_bytes := su_socket_bytes s + delta,
              su_socket_high_water := max (su_socket_high_water s) (su_socket_bytes s + delta)\<rparr>) m)))"

definition record_denied :: "manager \<Rightarrow> manager" where
  "record_denied m = count_udp (\<lambda>s. s\<lparr>su_guard_rejects := su_guard_rejects s + 1\<rparr>) m"

text \<open>
  \<open>WithGuard\<close> and \<open>Deliver\<close>: \<open>runs\<close> is whether the guard runs its callback, which answers Closed
  or what the action answers; a guard that does not run it answers Denied.
\<close>

definition with_guard :: "nat \<Rightarrow> bool \<Rightarrow> udp_error option \<Rightarrow> manager \<Rightarrow> udp_error option \<times> manager" where
  "with_guard e runs action m =
     (if ep_closed (mg_endpoint m e) then (Some Closed, m)
      else if \<not> runs then (Some Denied, record_denied m)
      else (action, m))"

definition deliver_udp :: "nat \<Rightarrow> bool \<Rightarrow> udp_error option \<Rightarrow> manager \<Rightarrow> udp_error option \<times> manager" where
  "deliver_udp e runs action m =
     (let (err, m) = with_guard e runs action m in
      (err, if err = None then count_udp (\<lambda>s. s\<lparr>su_local_admissions := su_local_admissions s + 1\<rparr>) m
            else m))"

subsection \<open>Closing\<close>

definition close_begin :: "nat \<Rightarrow> manager \<Rightarrow> manager" where
  "close_begin e m = upd_endpoint e (\<lambda>x. x\<lparr>ep_closed := True\<rparr>) m"

definition held_reservations :: "nat \<Rightarrow> manager \<Rightarrow> nat list" where
  "held_reservations e m =
     (let x = mg_endpoint m e in
      map (\<lambda>og. og_reservation (mg_outgoing m og)) (ep_queue x)
        @ map (\<lambda>(_, a). ua_reservation a) (ep_assemblies x)
        @ map (\<lambda>i. um_reservation (mg_message m i)) (ep_completed x))"

definition remove_flow :: "nat \<Rightarrow> manager \<Rightarrow> manager" where
  "remove_flow e m =
     (let p = ep_peer (mg_endpoint m e); s = ep_socket (mg_endpoint m e);
          m = upd_peer p (\<lambda>x. x\<lparr>pe_flows := remove1 e (pe_flows x)\<rparr>) m;
          m = count_udp (\<lambda>st. st\<lparr>su_flows := su_flows st - 1,
                su_socket_bytes := su_socket_bytes st - s\<rparr>) m;
          m = upd_peer p (\<lambda>x. x\<lparr>pe_socket := pe_socket x - s\<rparr>) m;
          m = upd_endpoint e (\<lambda>x. x\<lparr>ep_socket := 0\<rparr>) m
      in if pe_flows (mg_peer m p) = [] then
           m\<lparr>mg_peers := m_del (pe_device (mg_peer m p)) (mg_peers m), mg_order := remove1 p (mg_order m)\<rparr>
         else m)"

definition close_finish :: "nat \<Rightarrow> manager \<Rightarrow> manager" where
  "close_finish e m =
     (let x = mg_endpoint m e;
          rs = held_reservations e m;
          m = count_udp (\<lambda>s. s\<lparr>su_canceled := su_canceled s
                + word_of_nat (length (ep_queue x) + length (ep_assemblies x) + length (ep_completed x))\<rparr>) m;
          m = fold release_udp rs m;
          m = upd_endpoint e (\<lambda>x. x\<lparr>ep_queue := [], ep_assemblies := [], ep_completed := []\<rparr>) m
      in remove_flow e m)"

subsection \<open>Sending\<close>

definition send_reserve :: "nat \<Rightarrow> bytes \<Rightarrow> manager \<Rightarrow> (udp_error + nat) \<times> manager" where
  "send_reserve e payload m =
     (if max_message < length payload then (Inl Malformed, m)
      else if ep_closed (mg_endpoint m e) then (Inl Closed, m)
      else
        (case reserve_udp e (length payload) True m of
           (Some r, m) \<Rightarrow> (Inr r, m)
         | (None, m) \<Rightarrow> (Inl Capacity,
             count_udp (\<lambda>s. s\<lparr>su_budget_rejects := su_budget_rejects s + 1\<rparr>) m)))"

text \<open>The callback of the guard in \<open>Send\<close>.\<close>

definition send_enqueue :: "nat \<Rightarrow> bytes \<Rightarrow> nat \<Rightarrow> int \<Rightarrow> manager \<Rightarrow> udp_error option \<times> manager" where
  "send_enqueue e payload r now m =
     (let x = mg_endpoint m e in
      if ep_closed x then (Some Closed, m)
      else if ep_next_id x = 0 \<or> ep_next_id x = - 1 then (Some Exhausted, m)
      else (None, upd_endpoint e (\<lambda>x. x\<lparr>ep_queue := ep_queue x @ [mg_fresh m],
             ep_next_id := ep_next_id x + 1\<rparr>)
           (m\<lparr>mg_outgoing := (mg_outgoing m)(mg_fresh m := \<lparr>og_id = ep_next_id x,
                og_payload = payload, og_stride = 0, og_index = 0, og_born = now, og_retry = None,
                og_backoff = 0, og_reservation = r\<rparr>), mg_fresh := mg_fresh m + 1\<rparr>)))"

definition send_abort :: "nat \<Rightarrow> manager \<Rightarrow> manager" where
  "send_abort r m = release_udp r (record_denied m)"

subsection \<open>Expiry, window and eviction\<close>

definition slot_of :: "u64 \<Rightarrow> nat" where
  "slot_of mid = unat mid mod window_size"

definition remove_assembly :: "nat \<Rightarrow> u64 \<Rightarrow> manager \<Rightarrow> manager" where
  "remove_assembly e mid m = (case map_of (ep_assemblies (mg_endpoint m e)) mid of
     None \<Rightarrow> m
   | Some a \<Rightarrow> release_udp (ua_reservation a)
       (upd_endpoint e (\<lambda>x. x\<lparr>ep_assemblies := m_del mid (ep_assemblies x)\<rparr>) m))"

definition set_state :: "nat \<Rightarrow> u64 \<Rightarrow> nat \<Rightarrow> manager \<Rightarrow> manager" where
  "set_state e mid v m = upd_endpoint e (\<lambda>x. x\<lparr>ep_states := (ep_states x)[slot_of mid := v]\<rparr>) m"

definition expire_assembly :: "nat \<Rightarrow> u64 \<Rightarrow> manager \<Rightarrow> manager" where
  "expire_assembly e mid m = count_udp (\<lambda>s. s\<lparr>su_expired := su_expired s + 1\<rparr>)
     (set_state e mid 3 (remove_assembly e mid m))"

definition expire_outgoing :: "nat \<Rightarrow> nat \<Rightarrow> manager \<Rightarrow> manager" where
  "expire_outgoing e og m = count_udp (\<lambda>s. s\<lparr>su_expired := su_expired s + 1\<rparr>)
     (release_udp (og_reservation (mg_outgoing m og))
       (upd_endpoint e (\<lambda>x. x\<lparr>ep_queue := remove1 og (ep_queue x)\<rparr>) m))"

definition expire_udp :: "nat \<Rightarrow> int \<Rightarrow> manager \<Rightarrow> manager" where
  "expire_udp e now m =
     (let ids = map fst (filter (\<lambda>(_, a). ua_born a + lifetime \<le> now) (ep_assemblies (mg_endpoint m e)));
          old = filter (\<lambda>og. og_born (mg_outgoing m og) + lifetime \<le> now) (ep_queue (mg_endpoint m e));
          m = fold (expire_assembly e) ids m
      in fold (expire_outgoing e) old m)"

definition window_floor :: "u64 \<Rightarrow> u64" where
  "window_floor mid = (if 4096 \<le> mid then mid - 4096 + 1 else 1)"

definition evict_low :: "nat \<Rightarrow> u64 \<Rightarrow> manager \<Rightarrow> manager" where
  "evict_low e mid m = count_udp (\<lambda>s. s\<lparr>su_evicted := su_evicted s + 1\<rparr>) (remove_assembly e mid m)"

definition advance_udp :: "nat \<Rightarrow> u64 \<Rightarrow> manager \<Rightarrow> manager" where
  "advance_udp e mid m =
     (let x = mg_endpoint m e; high = ep_high x in
      if mid \<le> high then m
      else
        (let delta = mid - high;
             states = (if 4096 \<le> delta then replicate window_size 0
               else fold (\<lambda>n st. st[slot_of (high + word_of_nat n) := 0]) [1..<Suc (unat delta)] (ep_states x));
             m = upd_endpoint e (\<lambda>x. x\<lparr>ep_states := states, ep_high := mid\<rparr>) m
         in fold (evict_low e)
              (map fst (filter (\<lambda>(prior, _). prior < window_floor mid) (ep_assemblies x))) m))"

text \<open>
  The search for the assembly to evict: own ones before the peer's before others'. \<open>perm\<close> is the
  iteration order of an endpoint's assemblies; the result is the endpoint, the message and its rank.
\<close>

definition evict_rank :: "nat \<Rightarrow> manager \<Rightarrow> nat \<Rightarrow> nat \<Rightarrow> nat option" where
  "evict_rank e m p flow =
     (if flow = e then Some 3
      else if p = ep_peer (mg_endpoint m e) then Some 2
      else if node_bytes - int max_message \<le> us_bytes (mg_rx m) \<or> node_rx_messages \<le> us_messages (mg_rx m)
        then Some (if int max_message < us_bytes (pe_rx (mg_peer m p)) then 1 else 0)
      else None)"

definition better :: "nat \<Rightarrow> udp_assembly \<Rightarrow> (nat \<times> u64 \<times> nat \<times> int) option \<Rightarrow> bool" where
  "better rank a best = (case best of None \<Rightarrow> True
     | Some (_, _, r, born) \<Rightarrow> r < rank \<or> rank = r \<and> ua_born a < born)"

definition candidates_of :: "((u64 \<times> udp_assembly) list \<Rightarrow> (u64 \<times> udp_assembly) list) \<Rightarrow> nat \<Rightarrow> manager
    \<Rightarrow> (nat \<times> nat \<times> u64 \<times> udp_assembly) list" where
  "candidates_of perm e m = concat (map (\<lambda>p. concat (map (\<lambda>flow.
       case evict_rank e m p flow of None \<Rightarrow> []
       | Some rank \<Rightarrow> map (\<lambda>(mid, a). (flow, rank, mid, a)) (perm (ep_assemblies (mg_endpoint m flow))))
     (pe_flows (mg_peer m p)))) (mg_order m))"

definition evict_choice :: "((u64 \<times> udp_assembly) list \<Rightarrow> (u64 \<times> udp_assembly) list) \<Rightarrow> nat \<Rightarrow> manager
    \<Rightarrow> (nat \<times> u64 \<times> nat \<times> int) option" where
  "evict_choice perm e m = fold (\<lambda>(flow, rank, mid, a) best.
     if better rank a best then Some (flow, mid, rank, ua_born a) else best) (candidates_of perm e m) None"

definition evict_udp :: "((u64 \<times> udp_assembly) list \<Rightarrow> (u64 \<times> udp_assembly) list) \<Rightarrow> nat \<Rightarrow> manager
    \<Rightarrow> bool \<times> manager" where
  "evict_udp perm e m = (case evict_choice perm e m of
     None \<Rightarrow> (False, m)
   | Some (owner, mid, _, _) \<Rightarrow> (True, count_udp (\<lambda>s. s\<lparr>su_evicted := su_evicted s + 1\<rparr>)
       (remove_assembly owner mid (set_state owner mid 3 m))))"

subsection \<open>Completed messages\<close>

definition new_message :: "nat \<Rightarrow> bytes \<Rightarrow> nat \<Rightarrow> manager \<Rightarrow> nat \<times> manager" where
  "new_message e payload r m = (mg_fresh m,
     upd_endpoint e (\<lambda>x. x\<lparr>ep_completed := ep_completed x @ [mg_fresh m]\<rparr>)
       (m\<lparr>mg_message := (mg_message m)(mg_fresh m := \<lparr>um_payload = payload, um_reservation = r\<rparr>),
          mg_fresh := mg_fresh m + 1\<rparr>))"

definition release_message :: "nat \<Rightarrow> manager \<Rightarrow> manager" where
  "release_message i m =
     (let r = um_reservation (mg_message m i); e = rs_endpoint (mg_reservation m r) in
      release_udp r (upd_endpoint e (\<lambda>x. x\<lparr>ep_completed := filter (\<lambda>j. j \<noteq> i) (ep_completed x)\<rparr>) m))"

definition retain_received :: "nat \<Rightarrow> bytes \<Rightarrow> manager \<Rightarrow> (udp_error + nat) \<times> manager" where
  "retain_received e payload m =
     (if max_message < length payload then (Inl Malformed, m)
      else if ep_closed (mg_endpoint m e) then (Inl Closed, m)
      else
        (case reserve_udp e (length payload) False m of
           (None, m) \<Rightarrow> (Inl Capacity,
             count_udp (\<lambda>s. s\<lparr>su_budget_rejects := su_budget_rejects s + 1\<rparr>) m)
         | (Some r, m) \<Rightarrow> (case new_message e payload r m of (i, m) \<Rightarrow> (Inr i, m))))"

subsection \<open>Receiving\<close>

text \<open>Up to four assemblies are evicted to make room for a new one.\<close>

fun reserve_evicting ::
    "((u64 \<times> udp_assembly) list \<Rightarrow> (u64 \<times> udp_assembly) list) \<Rightarrow> nat \<Rightarrow> nat \<Rightarrow> nat \<Rightarrow> manager
      \<Rightarrow> nat option \<times> manager" where
  "reserve_evicting perm e sz attempts m =
     (case reserve_udp e sz False m of
        (Some r, m) \<Rightarrow> (Some r, m)
      | (None, m) \<Rightarrow>
          (case attempts of 0 \<Rightarrow> (None, m)
           | Suc n \<Rightarrow> (case evict_udp perm e m of
                 (False, m) \<Rightarrow> (None, m)
               | (True, m) \<Rightarrow> reserve_evicting perm e sz n m)))"

definition conflict_udp :: "nat \<Rightarrow> u64 \<Rightarrow> manager \<Rightarrow> manager" where
  "conflict_udp e mid m = count_udp (\<lambda>s. s\<lparr>su_conflicting := su_conflicting s + 1\<rparr>)
     (set_state e mid 3 (remove_assembly e mid m))"

definition late_udp :: "manager \<Rightarrow> manager" where
  "late_udp m = count_udp (\<lambda>s. s\<lparr>su_late := su_late s + 1\<rparr>) m"

definition put_assembly :: "nat \<Rightarrow> u64 \<Rightarrow> udp_assembly \<Rightarrow> manager \<Rightarrow> manager" where
  "put_assembly e mid a m = upd_endpoint e (\<lambda>x. x\<lparr>ep_assemblies := m_put mid a (ep_assemblies x)\<rparr>) m"

definition open_assembly :: "fragment \<Rightarrow> int \<Rightarrow> nat \<Rightarrow> udp_assembly" where
  "open_assembly f now r = \<lparr>ua_total = fr_total f, ua_stride = fr_stride f, ua_count = fr_count f,
     ua_received = 0, ua_born = now, ua_data = replicate (fr_total f) 0,
     ua_present = replicate max_fragments False, ua_reservation = r\<rparr>"

text \<open>The chunk is stored; the last missing one completes the message.\<close>

definition store_chunk :: "nat \<Rightarrow> fragment \<Rightarrow> udp_assembly \<Rightarrow> manager \<Rightarrow> nat option \<times> manager" where
  "store_chunk e f a m =
     (let offset = fr_index f * fr_stride f in
      if ua_present a ! fr_index f then
        (None, if take (length (fr_data f)) (drop offset (ua_data a)) \<noteq> fr_data f
          then conflict_udp e (fr_id f) m
          else count_udp (\<lambda>s. s\<lparr>su_duplicate := su_duplicate s + 1\<rparr>) m)
      else
        (let a = a\<lparr>ua_data := overlay offset (fr_data f) (ua_data a),
               ua_present := (ua_present a)[fr_index f := True], ua_received := ua_received a + 1\<rparr>
         in if ua_received a = ua_count a then
              (case new_message e (ua_data a) (ua_reservation a) m of
                 (i, m) \<Rightarrow> (Some i, count_udp (\<lambda>s. s\<lparr>su_reassembled := su_reassembled s + 1\<rparr>)
                   (set_state e (fr_id f) 2
                     (upd_endpoint e (\<lambda>x. x\<lparr>ep_assemblies := m_del (fr_id f) (ep_assemblies x)\<rparr>) m))))
            else (None, put_assembly e (fr_id f) a m)))"

definition differs :: "fragment \<Rightarrow> udp_assembly \<Rightarrow> bool" where
  "differs f a \<longleftrightarrow> ua_total a \<noteq> fr_total f \<or> ua_stride a \<noteq> fr_stride f \<or> ua_count a \<noteq> fr_count f"

text \<open>A chunk whose message is not retired.\<close>

definition accept_chunk ::
    "((u64 \<times> udp_assembly) list \<Rightarrow> (u64 \<times> udp_assembly) list) \<Rightarrow> nat \<Rightarrow> fragment \<Rightarrow> int \<Rightarrow> manager
      \<Rightarrow> nat option \<times> manager" where
  "accept_chunk perm e f now m =
     (case map_of (ep_assemblies (mg_endpoint m e)) (fr_id f) of
        Some a \<Rightarrow> if differs f a then (None, conflict_udp e (fr_id f) m) else store_chunk e f a m
      | None \<Rightarrow>
          (case reserve_evicting perm e (fr_total f) 4 m of
             (None, m) \<Rightarrow> (None, count_udp (\<lambda>s. s\<lparr>su_budget_rejects := su_budget_rejects s + 1\<rparr>)
               (set_state e (fr_id f) 3 m))
           | (Some r, m) \<Rightarrow>
               (let a = open_assembly f now r;
                    m = put_assembly e (fr_id f) a m;
                    m = set_state e (fr_id f) 1 m
                in store_chunk e f a m)))"

text \<open>The callback of the guard in \<open>ReceiveFrame\<close>.\<close>

definition receive_chunk ::
    "((u64 \<times> udp_assembly) list \<Rightarrow> (u64 \<times> udp_assembly) list) \<Rightarrow> nat \<Rightarrow> fragment \<Rightarrow> int \<Rightarrow> manager
      \<Rightarrow> (udp_error option \<times> nat option) \<times> manager" where
  "receive_chunk perm e f now m =
     (if ep_closed (mg_endpoint m e) then ((Some Closed, None), m)
      else
        (let m = expire_udp e now m;
             m = count_udp (\<lambda>s. s\<lparr>su_received_chunks := su_received_chunks s + 1\<rparr>) m;
             high = ep_high (mg_endpoint m e)
         in if 4096 \<le> high \<and> fr_id f \<le> high - 4096 then ((None, None), late_udp m)
            else
              (let m = advance_udp e (fr_id f) m in
               if 2 \<le> ep_states (mg_endpoint m e) ! slot_of (fr_id f) then ((None, None), late_udp m)
               else (case accept_chunk perm e f now m of (msg, m) \<Rightarrow> ((None, msg), m)))))"

text \<open>\<open>maximum\<close> is the receive limit read when the frame arrived, \<open>runs\<close> the guard's verdict.\<close>

definition receive_frame ::
    "((u64 \<times> udp_assembly) list \<Rightarrow> (u64 \<times> udp_assembly) list) \<Rightarrow> nat \<Rightarrow> bytes \<Rightarrow> nat \<Rightarrow> bool \<Rightarrow> int
      \<Rightarrow> manager \<Rightarrow> (udp_error option \<times> nat option) \<times> manager" where
  "receive_frame perm e packet maximum runs now m =
     (case udp_decode packet maximum of
        None \<Rightarrow> ((None, None), count_udp (\<lambda>s. s\<lparr>su_malformed := su_malformed s + 1\<rparr>) m)
      | Some f \<Rightarrow>
          (if \<not> runs then ((Some Denied, None), record_denied m)
           else (case receive_chunk perm e f now m of
                   ((None, msg), m) \<Rightarrow> ((None, msg), m)
                 | ((Some err, msg), m) \<Rightarrow> ((Some err, msg), record_denied m))))"

subsection \<open>The manager\<close>

text \<open>\<open>Close\<close> marks the manager closed and returns the endpoints it goes on to close.\<close>

definition manager_close :: "manager \<Rightarrow> nat list \<times> manager" where
  "manager_close m =
     (if mg_closed m then ([], m)
      else (concat (map (\<lambda>p. pe_flows (mg_peer m p)) (mg_order m)), m\<lparr>mg_closed := True\<rparr>))"

record udp_snapshot =
  sn_stats :: udp_stats
  sn_rx :: usage
  sn_tx :: usage
  sn_negotiated_min :: nat
  sn_negotiated_max :: nat
  sn_send_min :: nat

definition snapshot_flow :: "endpoint \<Rightarrow> udp_snapshot \<Rightarrow> udp_snapshot" where
  "snapshot_flow x s =
     (if ep_attached x \<and> \<not> ep_local x then s\<lparr>
        sn_negotiated_min := (if sn_negotiated_min s = 0 \<or> ep_receive_maximum x < sn_negotiated_min s
          then ep_receive_maximum x else sn_negotiated_min s),
        sn_negotiated_max := max (sn_negotiated_max s) (ep_receive_maximum x),
        sn_send_min := (if sn_send_min s = 0 \<or> ep_maximum x < sn_send_min s
          then ep_maximum x else sn_send_min s)\<rparr>
      else s)"

definition manager_snapshot :: "manager \<Rightarrow> udp_snapshot" where
  "manager_snapshot m = fold (\<lambda>e. snapshot_flow (mg_endpoint m e))
     (concat (map (\<lambda>p. pe_flows (mg_peer m p)) (mg_order m)))
     \<lparr>sn_stats = mg_stats m, sn_rx = mg_rx m, sn_tx = mg_tx m, sn_negotiated_min = 0,
      sn_negotiated_max = 0, sn_send_min = 0\<rparr>"

end
