(* ===== verification/Udp_Scheduler.thy ===== *)
theory Udp_Scheduler
  imports Udp_Manager
begin

section \<open>The transmit scheduler (udpmessage/scheduler.go)\<close>

text \<open>
  One goroutine takes one chunk at a time from the queues, peer by peer and flow by flow. A step of
  \<open>step\<close> has four parts with other operations between them: \<open>pick_peers\<close>, then with the
  endpoint's send lock held \<open>step_prepare\<close> and \<open>step_transmit\<close>, and after the lock is released
  \<open>step_outcome\<close>. The transport is an argument: the error, if any, with which it answers a chunk.
\<close>

text \<open>The first message in the queue that is not backing off; it moves to the end of the queue.\<close>

definition due :: "int \<Rightarrow> manager \<Rightarrow> nat \<Rightarrow> bool" where
  "due now m og \<longleftrightarrow> (case og_retry (mg_outgoing m og) of None \<Rightarrow> True | Some t \<Rightarrow> t \<le> now)"

definition pick_flow :: "nat \<Rightarrow> int \<Rightarrow> manager \<Rightarrow> nat option \<times> manager" where
  "pick_flow e now m =
     (let m = expire_udp e now m; x = mg_endpoint m e in
      if ep_closed x \<or> \<not> ep_attached x \<or> ep_queue x = [] then (None, m)
      else
        (case find (due now m) (ep_queue x) of
           None \<Rightarrow> (None, m)
         | Some og \<Rightarrow> (Some og, upd_endpoint e (\<lambda>x. x\<lparr>ep_queue := remove1 og (ep_queue x) @ [og]\<rparr>) m)))"

fun pick_flows :: "nat \<Rightarrow> nat \<Rightarrow> int \<Rightarrow> manager \<Rightarrow> (nat \<times> nat) option \<times> manager" where
  "pick_flows p 0 now m = (None, m)"
| "pick_flows p (Suc n) now m =
     (let i = pe_next (mg_peer m p) mod length (pe_flows (mg_peer m p));
          e = pe_flows (mg_peer m p) ! i;
          m = upd_peer p (\<lambda>x. x\<lparr>pe_next := i + 1\<rparr>) m
      in case pick_flow e now m of
           (Some og, m) \<Rightarrow> (Some (e, og), m)
         | (None, m) \<Rightarrow> pick_flows p n now m)"

fun pick_peers :: "nat \<Rightarrow> int \<Rightarrow> manager \<Rightarrow> (nat \<times> nat) option \<times> manager" where
  "pick_peers 0 now m = (None, m)"
| "pick_peers (Suc n) now m =
     (let i = mg_next m mod length (mg_order m);
          p = mg_order m ! i;
          m = m\<lparr>mg_next := i + 1\<rparr>
      in case pick_flows p (length (pe_flows (mg_peer m p))) now m of
           (Some r, m) \<Rightarrow> (Some r, m)
         | (None, m) \<Rightarrow> pick_peers n now m)"

definition pick_udp :: "int \<Rightarrow> manager \<Rightarrow> (nat \<times> nat) option \<times> manager" where
  "pick_udp now m = pick_peers (length (mg_order m)) now m"

text \<open>What the step reads under the send lock.\<close>

record prepared =
  pr_local :: bool
  pr_maximum :: nat
  pr_stride :: nat
  pr_index :: nat

definition step_prepare :: "nat \<Rightarrow> nat \<Rightarrow> manager \<Rightarrow> prepared option \<times> manager" where
  "step_prepare e og m =
     (let x = mg_endpoint m e in
      if ep_closed x then (None, m)
      else
        (let m = (if og_stride (mg_outgoing m og) = 0
               then upd_outgoing og (\<lambda>q. q\<lparr>og_stride := ep_maximum x - header_size\<rparr>) m else m);
             q = mg_outgoing m og
         in (Some \<lparr>pr_local = ep_local x, pr_maximum = ep_maximum x, pr_stride = og_stride q,
                   pr_index = og_index q\<rparr>, m)))"

definition step_payload :: "prepared \<Rightarrow> nat \<Rightarrow> manager \<Rightarrow> bytes" where
  "step_payload pr og m = (let q = mg_outgoing m og in
     if pr_local pr then og_payload q
     else udp_encode (og_id q) (og_payload q) (pr_stride pr) (pr_index pr))"

text \<open>The guarded transmission: whether the guard ran its callback, and the error.\<close>

definition step_transmit ::
    "(bytes \<Rightarrow> udp_error option) \<Rightarrow> bool \<Rightarrow> prepared \<Rightarrow> nat \<Rightarrow> nat \<Rightarrow> int \<Rightarrow> manager
      \<Rightarrow> bool \<times> udp_error option" where
  "step_transmit transport runs pr e og now m =
     (if \<not> runs then (False, Some Denied)
      else if ep_closed (mg_endpoint m e) then (True, Some Closed)
      else if rs_released (mg_reservation m (og_reservation (mg_outgoing m og)))
          \<or> og_born (mg_outgoing m og) + lifetime \<le> now then (True, Some Expired)
      else (True, transport (step_payload pr og m)))"

definition remove_outgoing :: "nat \<Rightarrow> nat \<Rightarrow> manager \<Rightarrow> manager" where
  "remove_outgoing e og m = release_udp (og_reservation (mg_outgoing m og))
     (upd_endpoint e (\<lambda>x. x\<lparr>ep_queue := remove1 og (ep_queue x)\<rparr>) m)"

definition admitted_chunk :: "prepared \<Rightarrow> nat \<Rightarrow> nat \<Rightarrow> manager \<Rightarrow> manager" where
  "admitted_chunk pr e og m =
     (let m = count_udp (\<lambda>s. s\<lparr>su_transport_admissions := su_transport_admissions s + 1,
            su_local_admissions := (if pr_local pr then su_local_admissions s + 1
               else su_local_admissions s)\<rparr>) m;
          m = upd_outgoing og (\<lambda>q. q\<lparr>og_index := og_index q + 1, og_backoff := 0, og_retry := None\<rparr>) m;
          q = mg_outgoing m og
      in if pr_local pr \<or> fragment_count (length (og_payload q)) (og_stride q) \<le> og_index q
         then remove_outgoing e og m else m)"

definition refused_chunk :: "nat \<Rightarrow> int \<Rightarrow> manager \<Rightarrow> manager" where
  "refused_chunk og now m =
     (let m = count_udp (\<lambda>s. s\<lparr>su_queue_refusals := su_queue_refusals s + 1\<rparr>) m;
          b = (if og_backoff (mg_outgoing m og) = 0 then 5000000
               else min 100000000 (2 * og_backoff (mg_outgoing m og)))
      in upd_outgoing og (\<lambda>q. q\<lparr>og_backoff := b, og_retry := Some (now + b)\<rparr>) m)"

definition shrinks :: "prepared \<Rightarrow> udp_error \<Rightarrow> outgoing \<Rightarrow> bool" where
  "shrinks pr err q \<longleftrightarrow> (case err of
     TooLarge n \<Rightarrow> \<not> pr_local pr \<and> min_chunk \<le> n \<and> n < og_stride q + header_size | _ \<Rightarrow> False)"

definition shrink_path :: "prepared \<Rightarrow> udp_error \<Rightarrow> nat \<Rightarrow> manager \<Rightarrow> manager" where
  "shrink_path pr err e m = (case err of
     TooLarge n \<Rightarrow>
       (let mx = min (pr_maximum pr) n in
        count_udp (\<lambda>s. s\<lparr>su_send_seen_min := (if su_send_seen_min s = 0 \<or> mx < su_send_seen_min s
             then mx else su_send_seen_min s)\<rparr>)
          (upd_endpoint e (\<lambda>x. x\<lparr>ep_maximum := mx\<rparr>) m))
   | _ \<Rightarrow> m)"

definition count_failure :: "bool \<Rightarrow> udp_error \<Rightarrow> udp_stats \<Rightarrow> udp_stats" where
  "count_failure admitted err s =
     (if \<not> admitted then s\<lparr>su_guard_rejects := su_guard_rejects s + 1\<rparr>
      else (case err of
          TooLarge _ \<Rightarrow> s\<lparr>su_size_drops := su_size_drops s + 1\<rparr>
        | Expired \<Rightarrow> s\<lparr>su_expired := su_expired s + 1\<rparr>
        | _ \<Rightarrow> s\<lparr>su_transport_failures := su_transport_failures s + 1\<rparr>))"

definition failed_chunk :: "prepared \<Rightarrow> bool \<Rightarrow> udp_error \<Rightarrow> nat \<Rightarrow> nat \<Rightarrow> manager \<Rightarrow> bool \<times> manager" where
  "failed_chunk pr admitted err e og m =
     (let shrink = shrinks pr err (mg_outgoing m og);
          m = (if shrink then shrink_path pr err e m else m)
      in if shrink \<and> og_index (mg_outgoing m og) = 0 then
           (False, upd_outgoing og (\<lambda>q. q\<lparr>og_stride := ep_maximum (mg_endpoint m e) - header_size\<rparr>) m)
         else
           (case err of TooLarge _ \<Rightarrow> False | Expired \<Rightarrow> False | _ \<Rightarrow> True,
            remove_outgoing e og (count_udp (count_failure admitted err) m)))"

text \<open>The result is whether the step goes on to close the flow.\<close>

definition step_outcome ::
    "prepared \<Rightarrow> bool \<Rightarrow> udp_error option \<Rightarrow> nat \<Rightarrow> nat \<Rightarrow> int \<Rightarrow> manager \<Rightarrow> bool \<times> manager" where
  "step_outcome pr admitted err e og now m =
     (if rs_released (mg_reservation m (og_reservation (mg_outgoing m og))) then (False, m)
      else (case err of
          None \<Rightarrow> (False, admitted_chunk pr e og m)
        | Some QueueFull \<Rightarrow> (False, refused_chunk og now m)
        | Some er \<Rightarrow> failed_chunk pr admitted er e og m))"

text \<open>The maintenance at the end of a round of \<open>run\<close>.\<close>

definition expire_all :: "int \<Rightarrow> manager \<Rightarrow> manager" where
  "expire_all now m = fold (\<lambda>e. expire_udp e now) (concat (map (\<lambda>p. pe_flows (mg_peer m p)) (mg_order m))) m"

end
