(* ===== verification/Udp_Account.thy ===== *)
theory Udp_Account
  imports Udp_Scheduler "HOL-Library.Multiset"
begin

section \<open>UDP messages: accounting and ownership\<close>

text \<open>
  The usages of the node, its peers and its flows are the sums of the unreleased reservations, and
  every unreleased reservation has exactly one owner: an outgoing message in a queue, an assembly,
  a completed message, or a call of \<open>Send\<close> in progress. \<open>udp_ok S\<close> is that invariant, with
  \<open>S\<close> the reservations of the calls in progress. An operation is a composition of reserving,
  holding, letting go and releasing, each of which moves one reservation.
\<close>

subsection \<open>Sums of reservations\<close>

definition charged :: "(reservation \<Rightarrow> int) \<Rightarrow> (reservation \<Rightarrow> bool) \<Rightarrow> manager \<Rightarrow> int" where
  "charged w P m = (\<Sum>r<mg_fresh m. if \<not> rs_released (mg_reservation m r) \<and> P (mg_reservation m r)
     then w (mg_reservation m r) else 0)"

abbreviation (input) in_flow :: "bool \<Rightarrow> nat \<Rightarrow> reservation \<Rightarrow> bool" where
  "in_flow tx e \<equiv> \<lambda>rs. rs_tx rs = tx \<and> rs_endpoint rs = e"

definition in_peer :: "manager \<Rightarrow> bool \<Rightarrow> nat \<Rightarrow> reservation \<Rightarrow> bool" where
  "in_peer m tx p rs \<longleftrightarrow> rs_tx rs = tx \<and> ep_peer (mg_endpoint m (rs_endpoint rs)) = p"

definition sums_to :: "usage \<Rightarrow> (reservation \<Rightarrow> bool) \<Rightarrow> manager \<Rightarrow> bool" where
  "sums_to u P m \<longleftrightarrow> us_messages u = charged (\<lambda>_. 1) P m \<and> us_bytes u = charged rs_bytes P m"

definition accounted :: "manager \<Rightarrow> bool" where
  "accounted m \<longleftrightarrow>
     (\<forall>tx e. sums_to (flow_usage tx e m) (in_flow tx e) m)
     \<and> (\<forall>tx p. sums_to (peer_usage tx p m) (in_peer m tx p) m)
     \<and> (\<forall>tx. sums_to (node_usage tx m) (\<lambda>rs. rs_tx rs = tx) m)"

definition within :: "usage \<Rightarrow> int \<Rightarrow> int \<Rightarrow> bool" where
  "within u messages bytes \<longleftrightarrow> us_messages u \<le> messages \<and> us_bytes u \<le> bytes"

definition budgets :: "manager \<Rightarrow> bool" where
  "budgets m \<longleftrightarrow> (\<forall>tx.
     (\<forall>e. within (flow_usage tx e m) (if tx then flow_tx_messages else flow_rx_messages) flow_bytes)
     \<and> (\<forall>p. within (peer_usage tx p m) (if tx then peer_tx_messages else peer_rx_messages) peer_bytes)
     \<and> within (node_usage tx m) (if tx then node_tx_messages else node_rx_messages) node_bytes)"

subsection \<open>Ownership\<close>

definition held :: "nat \<Rightarrow> manager \<Rightarrow> nat multiset" where
  "held e m = mset (held_reservations e m)"

definition unreleased :: "manager \<Rightarrow> nat set" where
  "unreleased m = {r. \<not> rs_released (mg_reservation m r)}"

definition owned :: "nat set \<Rightarrow> manager \<Rightarrow> bool" where
  "owned S m \<longleftrightarrow> S \<subseteq> unreleased m \<and>
     (\<forall>e. held e m = mset_set {r \<in> unreleased m. rs_endpoint (mg_reservation m r) = e \<and> r \<notin> S})"

definition allocated :: "manager \<Rightarrow> bool" where
  "allocated m \<longleftrightarrow>
     (\<forall>r \<in> unreleased m. r < mg_fresh m \<and> rs_endpoint (mg_reservation m r) < mg_fresh m
        \<and> ep_peer (mg_endpoint m (rs_endpoint (mg_reservation m r))) < mg_fresh m
        \<and> 0 \<le> rs_bytes (mg_reservation m r))
     \<and> (\<forall>e. (\<forall>og \<in> set (ep_queue (mg_endpoint m e)). og < mg_fresh m)
        \<and> (\<forall>i \<in> set (ep_completed (mg_endpoint m e)). i < mg_fresh m)
        \<and> m_ok (ep_assemblies (mg_endpoint m e)))
     \<and> (\<forall>e. \<not> ep_closed (mg_endpoint m e) \<longrightarrow> e < mg_fresh m \<and> ep_peer (mg_endpoint m e) < mg_fresh m)"

definition udp_ok :: "nat set \<Rightarrow> manager \<Rightarrow> bool" where
  "udp_ok S m \<longleftrightarrow> accounted m \<and> budgets m \<and> owned S m \<and> allocated m"

lemma finite_unreleased: "allocated m \<Longrightarrow> finite (unreleased m)"
  by (rule finite_subset [of _ "{..<mg_fresh m}"]) (auto simp: allocated_def)

subsection \<open>Reading an updated state\<close>

lemma upd_endpoint_simps [simp]:
  "mg_endpoint (upd_endpoint e f m) = (mg_endpoint m)(e := f (mg_endpoint m e))"
  "mg_peer (upd_endpoint e f m) = mg_peer m" "mg_reservation (upd_endpoint e f m) = mg_reservation m"
  "mg_outgoing (upd_endpoint e f m) = mg_outgoing m" "mg_message (upd_endpoint e f m) = mg_message m"
  "mg_fresh (upd_endpoint e f m) = mg_fresh m" "mg_rx (upd_endpoint e f m) = mg_rx m"
  "mg_tx (upd_endpoint e f m) = mg_tx m" "mg_order (upd_endpoint e f m) = mg_order m"
  "mg_stats (upd_endpoint e f m) = mg_stats m" "mg_peers (upd_endpoint e f m) = mg_peers m"
  by (simp_all add: upd_endpoint_def)

lemma upd_peer_simps [simp]:
  "mg_peer (upd_peer p f m) = (mg_peer m)(p := f (mg_peer m p))"
  "mg_endpoint (upd_peer p f m) = mg_endpoint m" "mg_reservation (upd_peer p f m) = mg_reservation m"
  "mg_outgoing (upd_peer p f m) = mg_outgoing m" "mg_message (upd_peer p f m) = mg_message m"
  "mg_fresh (upd_peer p f m) = mg_fresh m" "mg_rx (upd_peer p f m) = mg_rx m"
  "mg_tx (upd_peer p f m) = mg_tx m" "mg_order (upd_peer p f m) = mg_order m"
  "mg_stats (upd_peer p f m) = mg_stats m" "mg_peers (upd_peer p f m) = mg_peers m"
  by (simp_all add: upd_peer_def)

lemma upd_outgoing_simps [simp]:
  "mg_outgoing (upd_outgoing og f m) = (mg_outgoing m)(og := f (mg_outgoing m og))"
  "mg_endpoint (upd_outgoing og f m) = mg_endpoint m" "mg_reservation (upd_outgoing og f m) = mg_reservation m"
  "mg_peer (upd_outgoing og f m) = mg_peer m" "mg_message (upd_outgoing og f m) = mg_message m"
  "mg_fresh (upd_outgoing og f m) = mg_fresh m" "mg_rx (upd_outgoing og f m) = mg_rx m"
  "mg_tx (upd_outgoing og f m) = mg_tx m" "mg_order (upd_outgoing og f m) = mg_order m"
  "mg_peers (upd_outgoing og f m) = mg_peers m"
  by (simp_all add: upd_outgoing_def)

lemma upd_usage_simps [simp]:
  "mg_reservation (upd_usage tx e f m) = mg_reservation m" "mg_fresh (upd_usage tx e f m) = mg_fresh m"
  "mg_outgoing (upd_usage tx e f m) = mg_outgoing m" "mg_message (upd_usage tx e f m) = mg_message m"
  "ep_peer (mg_endpoint (upd_usage tx e f m) e') = ep_peer (mg_endpoint m e')"
  "ep_queue (mg_endpoint (upd_usage tx e f m) e') = ep_queue (mg_endpoint m e')"
  "ep_assemblies (mg_endpoint (upd_usage tx e f m) e') = ep_assemblies (mg_endpoint m e')"
  "ep_completed (mg_endpoint (upd_usage tx e f m) e') = ep_completed (mg_endpoint m e')"
  "ep_closed (mg_endpoint (upd_usage tx e f m) e') = ep_closed (mg_endpoint m e')"
  "mg_peers (upd_usage tx e f m) = mg_peers m"
  by (simp_all add: upd_usage_def)

lemma upd_usage_usage:
  "flow_usage tx' e' (upd_usage tx e f m)
     = (if tx' = tx \<and> e' = e then f (flow_usage tx e m) else flow_usage tx' e' m)"
  "peer_usage tx' p' (upd_usage tx e f m)
     = (if tx' = tx \<and> p' = ep_peer (mg_endpoint m e) then f (peer_usage tx p' m) else peer_usage tx' p' m)"
  "node_usage tx' (upd_usage tx e f m) = (if tx' = tx then f (node_usage tx m) else node_usage tx' m)"
  by (auto simp: upd_usage_def flow_usage_def peer_usage_def node_usage_def)

lemma held_upd_usage [simp]: "held e' (upd_usage tx e f m) = held e' m"
  by (simp add: held_def held_reservations_def Let_def)

text \<open>Two states with the same books: the reservations and the usages.\<close>

definition same_books :: "manager \<Rightarrow> manager \<Rightarrow> bool" where
  "same_books m m' \<longleftrightarrow> mg_reservation m' = mg_reservation m \<and> mg_fresh m \<le> mg_fresh m'
     \<and> (\<forall>tx e. flow_usage tx e m' = flow_usage tx e m) \<and> (\<forall>tx p. peer_usage tx p m' = peer_usage tx p m)
     \<and> (\<forall>tx. node_usage tx m' = node_usage tx m)
     \<and> (\<forall>e. ep_peer (mg_endpoint m' e) = ep_peer (mg_endpoint m e))
     \<and> (\<forall>e. ep_closed (mg_endpoint m e) \<longrightarrow> ep_closed (mg_endpoint m' e))"

definition tables :: "manager \<Rightarrow> bool" where
  "tables m \<longleftrightarrow> (\<forall>e. (\<forall>og \<in> set (ep_queue (mg_endpoint m e)). og < mg_fresh m)
     \<and> (\<forall>i \<in> set (ep_completed (mg_endpoint m e)). i < mg_fresh m)
     \<and> m_ok (ep_assemblies (mg_endpoint m e)))"

lemma charged_view:
  assumes "allocated m" "mg_reservation m' = mg_reservation m" "mg_fresh m \<le> mg_fresh m'"
    "\<And>rs. P' rs = P rs"
  shows "charged w P' m' = charged w P m"
proof -
  have *: "P' = P" using assms(4) by blast
  show ?thesis
    unfolding charged_def assms(2) *
    using assms(1,3) by (intro sum.mono_neutral_right) (auto simp: allocated_def unreleased_def)
qed

lemma udp_ok_books:
  assumes "udp_ok S m" "same_books m m'" "owned S' m'" "tables m'"
  shows "udp_ok S' m'"
proof -
  note v = assms(2) [unfolded same_books_def]
  have al: "allocated m" using assms(1) by (simp add: udp_ok_def)
  have ch: "charged w P' m' = charged w P m" if "\<And>rs. P' rs = P rs" for w P P'
    using charged_view [OF al] v that by blast
  have ip: "in_peer m' tx p rs = in_peer m tx p rs" for tx p rs using v by (simp add: in_peer_def)
  have "accounted m'"
    using assms(1) v ch [where P = "in_peer m tx p" and P' = "in_peer m' tx p" for tx p, OF ip]
      ch [where P = "\<lambda>rs. rs_tx rs = tx" and P' = "\<lambda>rs. rs_tx rs = tx" for tx]
      ch [where P = "in_flow tx e" and P' = "in_flow tx e" for tx e]
    by (simp add: udp_ok_def accounted_def sums_to_def)
  moreover have "budgets m'" using assms(1) v by (simp add: udp_ok_def budgets_def)
  moreover have "allocated m'"
    using al v assms(4) unfolding allocated_def tables_def unreleased_def
    by (auto intro: less_le_trans)
  ultimately show ?thesis using assms(3) by (simp add: udp_ok_def)
qed

text \<open>An update that touches nothing the invariant reads.\<close>

definition same_view :: "manager \<Rightarrow> manager \<Rightarrow> bool" where
  "same_view m m' \<longleftrightarrow> same_books m m' \<and> (\<forall>e. held e m' = held e m)
     \<and> (\<forall>e. set (ep_queue (mg_endpoint m' e)) \<subseteq> set (ep_queue (mg_endpoint m e)))
     \<and> (\<forall>e. set (ep_completed (mg_endpoint m' e)) \<subseteq> set (ep_completed (mg_endpoint m e)))
     \<and> (\<forall>e. m_ok (ep_assemblies (mg_endpoint m e)) \<longrightarrow> m_ok (ep_assemblies (mg_endpoint m' e)))"

lemma udp_ok_tables: "udp_ok S m \<Longrightarrow> tables m"
  by (auto simp: udp_ok_def allocated_def tables_def)

lemma udp_ok_same: "udp_ok S m \<Longrightarrow> same_view m m' \<Longrightarrow> udp_ok S m'"
proof -
  assume ok: "udp_ok S m" and v: "same_view m m'"
  have b: "same_books m m'" using v by (simp add: same_view_def)
  have "owned S m'" using ok v b
    by (simp add: udp_ok_def owned_def unreleased_def same_view_def same_books_def)
  moreover have "tables m'"
    using udp_ok_tables [OF ok] v b unfolding tables_def same_view_def same_books_def
    by (meson less_le_trans subsetD)
  ultimately show ?thesis using udp_ok_books ok b by blast
qed

subsection \<open>Reserving and releasing\<close>

lemma charged_reserve:
  assumes "mg_fresh m' = mg_fresh m + 1" "mg_reservation m' = (mg_reservation m)(mg_fresh m := rs)"
    "\<not> rs_released rs"
  shows "charged w P m' = charged w P m + (if P rs then w rs else 0)"
proof -
  have "(\<Sum>r<mg_fresh m. if \<not> rs_released (mg_reservation m' r) \<and> P (mg_reservation m' r)
      then w (mg_reservation m' r) else 0) = charged w P m"
    unfolding charged_def assms(2) by (intro sum.cong) auto
  then show ?thesis using assms by (simp add: charged_def [of w P m'] lessThan_Suc)
qed

lemma charged_release:
  assumes "r < mg_fresh m" "\<not> rs_released (mg_reservation m r)" "mg_fresh m' = mg_fresh m"
    "mg_reservation m' = (mg_reservation m)(r := (mg_reservation m r)\<lparr>rs_released := True\<rparr>)"
  shows "charged w P m' = charged w P m
    - (if P (mg_reservation m r) then w (mg_reservation m r) else 0)"
proof -
  let ?f = "\<lambda>m r. if \<not> rs_released (mg_reservation m r) \<and> P (mg_reservation m r)
      then w (mg_reservation m r) else (0 :: int)"
  have "charged w P m = ?f m r + sum (?f m) ({..<mg_fresh m} - {r})"
    using assms(1) unfolding charged_def by (subst sum.remove [of _ r]) auto
  moreover have "charged w P m' = ?f m' r + sum (?f m') ({..<mg_fresh m} - {r})"
    using assms(1,3) unfolding charged_def by (subst sum.remove [of _ r]) auto
  moreover have "sum (?f m') ({..<mg_fresh m} - {r}) = sum (?f m) ({..<mg_fresh m} - {r})"
    unfolding assms(4) by (intro sum.cong) auto
  ultimately show ?thesis using assms(2) by (simp add: assms(4))
qed

lemma add_usage_simps [simp]:
  "us_messages (add_usage n u) = us_messages u + 1" "us_bytes (add_usage n u) = us_bytes u + n"
  "us_messages (sub_usage n u) = us_messages u - 1" "us_bytes (sub_usage n u) = us_bytes u - n"
  by (simp_all add: add_usage_def sub_usage_def)

lemma within_sub: "within u a b \<Longrightarrow> 0 \<le> n \<Longrightarrow> within (sub_usage n u) a b"
  by (simp add: within_def)

lemma note_high_water_view [simp]:
  "mg_reservation (note_high_water m) = mg_reservation m" "mg_fresh (note_high_water m) = mg_fresh m"
  "mg_endpoint (note_high_water m) = mg_endpoint m" "mg_peer (note_high_water m) = mg_peer m"
  "flow_usage tx e (note_high_water m) = flow_usage tx e m" "peer_usage tx p (note_high_water m) = peer_usage tx p m"
  "node_usage tx (note_high_water m) = node_usage tx m" "held e (note_high_water m) = held e m"
  "mg_outgoing (note_high_water m) = mg_outgoing m" "mg_message (note_high_water m) = mg_message m"
  "mg_peers (note_high_water m) = mg_peers m"
  by (simp_all add: note_high_water_def flow_usage_def peer_usage_def node_usage_def held_def
      held_reservations_def)

lemma mset_set_filter_insert:
  "finite A \<Longrightarrow> x \<notin> A \<Longrightarrow> mset_set (insert x A) = add_mset x (mset_set A)"
  by simp

lemma udp_ok_reserve:
  assumes ok: "udp_ok S m" and e: "\<not> ep_closed (mg_endpoint m e)"
    and res: "reserve_udp e n tx m = (Some r, m')"
  shows "udp_ok (insert r S) m'" "r \<notin> S" "r = mg_fresh m" "mg_fresh m' = mg_fresh m + 1"
    "mg_reservation m' = (mg_reservation m)(r := \<lparr>rs_endpoint = e, rs_bytes = max (int n) 256,
       rs_tx = tx, rs_released = False\<rparr>)" "\<And>e. held e m' = held e m"
    "mg_outgoing m' = mg_outgoing m" "mg_message m' = mg_message m"
proof -
  define c where "c = max (int n) 256"
  define rs where "rs = \<lparr>rs_endpoint = e, rs_bytes = c, rs_tx = tx, rs_released = False\<rparr>"
  define u where "u = note_high_water (upd_usage tx e (add_usage c) m)"
  have al: "allocated m" and ow: "owned S m" and ac: "accounted m" and bu: "budgets m"
    using ok by (simp_all add: udp_ok_def)
  have fits: "\<not> exceeds (flow_usage tx e m) c (if tx then flow_tx_messages else flow_rx_messages) flow_bytes"
      "\<not> exceeds (peer_usage tx (ep_peer (mg_endpoint m e)) m) c (if tx then peer_tx_messages else peer_rx_messages) peer_bytes"
      "\<not> exceeds (node_usage tx m) c (if tx then node_tx_messages else node_rx_messages) node_bytes"
    using res by (auto simp: reserve_udp_def Let_def c_def split: if_splits)
  have m': "r = mg_fresh u" "m' = u\<lparr>mg_reservation := (mg_reservation u)(mg_fresh u := rs), mg_fresh := mg_fresh u + 1\<rparr>"
    using res fits by (auto simp: reserve_udp_def Let_def c_def [symmetric] u_def rs_def)
  show r: "r = mg_fresh m" "mg_fresh m' = mg_fresh m + 1"
      "mg_reservation m' = (mg_reservation m)(r := \<lparr>rs_endpoint = e, rs_bytes = max (int n) 256,
       rs_tx = tx, rs_released = False\<rparr>)" "mg_outgoing m' = mg_outgoing m" "mg_message m' = mg_message m"
    using m' by (simp_all add: u_def rs_def c_def)
  have res': "mg_reservation m' = (mg_reservation m)(mg_fresh m := rs)" using r m' by (simp add: u_def)
  have ep: "ep_peer (mg_endpoint m' x) = ep_peer (mg_endpoint m x)"
      "ep_queue (mg_endpoint m' x) = ep_queue (mg_endpoint m x)"
      "ep_completed (mg_endpoint m' x) = ep_completed (mg_endpoint m x)"
      "ep_closed (mg_endpoint m' x) = ep_closed (mg_endpoint m x)"
      "ep_assemblies (mg_endpoint m' x) = ep_assemblies (mg_endpoint m x)" for x
    using m' by (simp_all add: u_def)
  have us: "flow_usage tx' x m' = (if tx' = tx \<and> x = e then add_usage c (flow_usage tx e m) else flow_usage tx' x m)"
      "peer_usage tx' p m' = (if tx' = tx \<and> p = ep_peer (mg_endpoint m e) then add_usage c (peer_usage tx' p m)
         else peer_usage tx' p m)"
      "node_usage tx' m' = (if tx' = tx then add_usage c (node_usage tx m) else node_usage tx' m)" for tx' x p
  proof -
    have "flow_usage tx' x m' = flow_usage tx' x u" "peer_usage tx' p m' = peer_usage tx' p u"
        "node_usage tx' m' = node_usage tx' u"
      using m' by (simp_all add: flow_usage_def peer_usage_def node_usage_def)
    then show "flow_usage tx' x m' = (if tx' = tx \<and> x = e then add_usage c (flow_usage tx e m) else flow_usage tx' x m)"
      "peer_usage tx' p m' = (if tx' = tx \<and> p = ep_peer (mg_endpoint m e) then add_usage c (peer_usage tx' p m)
         else peer_usage tx' p m)"
      "node_usage tx' m' = (if tx' = tx then add_usage c (node_usage tx m) else node_usage tx' m)"
      by (simp_all add: u_def upd_usage_usage)
  qed
  show h: "held x m' = held x m" for x
  proof -
    have "held x m' = held x u" using m' by (simp add: held_def held_reservations_def)
    then show ?thesis by (simp add: u_def)
  qed
  have fresh: "mg_fresh m \<notin> unreleased m" using al by (auto simp: allocated_def)
  show "r \<notin> S" using fresh ow r by (auto simp: owned_def)
  have ch: "charged w P m' = charged w P m + (if P rs then w rs else 0)" for w P
    using r(2) res' by (rule charged_reserve) (simp add: rs_def)
  have pe: "in_peer m' = in_peer m" by (simp add: in_peer_def ep fun_eq_iff)
  have "accounted m'"
    using ac by (auto simp: accounted_def sums_to_def us ch pe in_peer_def rs_def)
  moreover have "budgets m'"
    using bu fits unfolding budgets_def within_def exceeds_def us by (cases tx) (auto simp: all_bool_eq)
  moreover have un: "unreleased m' = insert r (unreleased m)"
    using r(1) res' by (auto simp: unreleased_def rs_def)
  have "owned (insert r S) m'"
    unfolding owned_def
  proof (intro conjI allI)
    show "insert r S \<subseteq> unreleased m'" using un ow by (auto simp: owned_def)
    fix x
    have "{q \<in> unreleased m'. rs_endpoint (mg_reservation m' q) = x \<and> q \<notin> insert r S}
        = {q \<in> unreleased m. rs_endpoint (mg_reservation m q) = x \<and> q \<notin> S}"
      using un fresh r(1) res' by auto
    then show "held x m' = mset_set {q \<in> unreleased m'. rs_endpoint (mg_reservation m' q) = x \<and> q \<notin> insert r S}"
      using ow by (simp add: h owned_def)
  qed
  moreover have "allocated m'"
    using al e un r(1,2) res' by (auto simp: allocated_def ep rs_def c_def less_Suc_eq)
  ultimately show "udp_ok (insert r S) m'" by (simp add: udp_ok_def)
qed

lemma reserve_udp_None: "reserve_udp e n tx m = (None, m') \<Longrightarrow> m' = m"
  by (auto simp: reserve_udp_def Let_def split: if_splits)

lemma release_udp_eq:
  "\<not> rs_released (mg_reservation m r) \<Longrightarrow> release_udp r m =
     upd_usage (rs_tx (mg_reservation m r)) (rs_endpoint (mg_reservation m r))
       (sub_usage (rs_bytes (mg_reservation m r)))
       (m\<lparr>mg_reservation := (mg_reservation m)(r := (mg_reservation m r)\<lparr>rs_released := True\<rparr>)\<rparr>)"
  by (simp add: release_udp_def Let_def)

lemma usage_reservation_update [simp]:
  "flow_usage tx e (m\<lparr>mg_reservation := f\<rparr>) = flow_usage tx e m"
  "peer_usage tx p (m\<lparr>mg_reservation := f\<rparr>) = peer_usage tx p m"
  "node_usage tx (m\<lparr>mg_reservation := f\<rparr>) = node_usage tx m" "held e (m\<lparr>mg_reservation := f\<rparr>) = held e m"
  by (simp_all add: flow_usage_def peer_usage_def node_usage_def held_def held_reservations_def)

lemma udp_ok_release:
  assumes ok: "udp_ok S m" and r: "r \<in> S"
  shows "udp_ok (S - {r}) (release_udp r m)"
proof -
  define rs where "rs = mg_reservation m r"
  let ?m = "release_udp r m"
  have al: "allocated m" and ow: "owned S m" and ac: "accounted m" and bu: "budgets m"
    using ok by (simp_all add: udp_ok_def)
  have un: "r \<in> unreleased m" using ow r by (auto simp: owned_def)
  then have rel: "\<not> rs_released rs" by (simp add: unreleased_def rs_def)
  have eq: "?m = upd_usage (rs_tx rs) (rs_endpoint rs) (sub_usage (rs_bytes rs))
       (m\<lparr>mg_reservation := (mg_reservation m)(r := rs\<lparr>rs_released := True\<rparr>)\<rparr>)"
    using rel release_udp_eq by (simp add: rs_def)
  have b: "0 \<le> rs_bytes rs" "r < mg_fresh m" using al un by (auto simp: allocated_def rs_def)
  have us: "flow_usage tx' x ?m = (if tx' = rs_tx rs \<and> x = rs_endpoint rs
        then sub_usage (rs_bytes rs) (flow_usage tx' x m) else flow_usage tx' x m)"
      "peer_usage tx' p ?m = (if tx' = rs_tx rs \<and> p = ep_peer (mg_endpoint m (rs_endpoint rs))
        then sub_usage (rs_bytes rs) (peer_usage tx' p m) else peer_usage tx' p m)"
      "node_usage tx' ?m = (if tx' = rs_tx rs then sub_usage (rs_bytes rs) (node_usage tx' m)
        else node_usage tx' m)" for tx' x p
    unfolding eq by (auto simp: upd_usage_usage)
  have res: "mg_reservation ?m = (mg_reservation m)(r := (mg_reservation m r)\<lparr>rs_released := True\<rparr>)"
      "mg_fresh ?m = mg_fresh m"
    unfolding eq by (simp_all add: rs_def)
  have ch: "charged w P ?m = charged w P m - (if P rs then w rs else 0)" for w P
    using charged_release [OF b(2) rel [unfolded rs_def] res(2,1)] by (simp add: rs_def)
  have pe: "in_peer ?m = in_peer m" unfolding eq by (simp add: in_peer_def fun_eq_iff)
  have "accounted ?m"
    using ac by (auto simp: accounted_def sums_to_def us ch pe in_peer_def)
  moreover have "budgets ?m"
    using bu b(1) unfolding budgets_def us
    by (cases "rs_tx rs") (auto simp: all_bool_eq intro: within_sub)
  moreover have un': "unreleased ?m = unreleased m - {r}"
    using res by (auto simp: unreleased_def)
  have "owned (S - {r}) ?m"
    unfolding owned_def
  proof (intro conjI allI)
    show "S - {r} \<subseteq> unreleased ?m" using un' ow by (auto simp: owned_def)
    fix x
    have "{q \<in> unreleased ?m. rs_endpoint (mg_reservation ?m q) = x \<and> q \<notin> S - {r}}
        = {q \<in> unreleased m. rs_endpoint (mg_reservation m q) = x \<and> q \<notin> S}"
      using un' r res by auto
    moreover have "held x ?m = held x m" unfolding eq by simp
    ultimately show "held x ?m = mset_set {q \<in> unreleased ?m. rs_endpoint (mg_reservation ?m q) = x \<and> q \<notin> S - {r}}"
      using ow by (simp add: owned_def)
  qed
  moreover have "allocated ?m"
    using al un' res(1,2) unfolding allocated_def eq by (auto simp: rs_def unreleased_def)
  ultimately show ?thesis by (simp add: udp_ok_def)
qed

lemma release_udp_released: "rs_released (mg_reservation m r) \<Longrightarrow> release_udp r m = m"
  by (simp add: release_udp_def Let_def)

subsection \<open>Holding and letting go\<close>

lemma owned_unhold:
  assumes ok: "udp_ok S m" and r: "r \<in># held e m" and b: "mg_reservation m' = mg_reservation m"
    and h: "held e m' = held e m - {#r#}" "\<And>x. x \<noteq> e \<Longrightarrow> held x m' = held x m"
  shows "owned (insert r S) m'" "r \<notin> S"
proof -
  let ?A = "\<lambda>x. {q \<in> unreleased m. rs_endpoint (mg_reservation m q) = x \<and> q \<notin> S}"
  have ow: "owned S m" and al: "allocated m" using ok by (simp_all add: udp_ok_def)
  have fin: "finite (?A x)" for x using finite_unreleased [OF al] by simp
  have he: "held x m = mset_set (?A x)" for x using ow by (simp add: owned_def)
  have rA: "r \<in> ?A e" using r fin [of e] unfolding he by simp
  then show "r \<notin> S" by simp
  have un: "unreleased m' = unreleased m" using b by (simp add: unreleased_def)
  show "owned (insert r S) m'"
    unfolding owned_def un b
  proof (intro conjI allI)
    show "insert r S \<subseteq> unreleased m" using ow rA by (auto simp: owned_def)
    fix x
    show "held x m' = mset_set {q \<in> unreleased m. rs_endpoint (mg_reservation m q) = x \<and> q \<notin> insert r S}"
    proof (cases "x = e")
      case True
      have "{q \<in> unreleased m. rs_endpoint (mg_reservation m q) = e \<and> q \<notin> insert r S} = ?A e - {r}"
        by auto
      then show ?thesis using True h(1) he [of e] mset_set_Diff [OF fin [of e], of "{r}"] rA by simp
    next
      case False
      then have "{q \<in> unreleased m. rs_endpoint (mg_reservation m q) = x \<and> q \<notin> insert r S} = ?A x"
        using rA by auto
      then show ?thesis using False h(2) he by simp
    qed
  qed
qed

lemma owned_hold:
  assumes ok: "udp_ok S m" and r: "r \<in> S" "rs_endpoint (mg_reservation m r) = e"
    and b: "mg_reservation m' = mg_reservation m"
    and h: "held e m' = add_mset r (held e m)" "\<And>x. x \<noteq> e \<Longrightarrow> held x m' = held x m"
  shows "owned (S - {r}) m'"
proof -
  let ?A = "\<lambda>x. {q \<in> unreleased m. rs_endpoint (mg_reservation m q) = x \<and> q \<notin> S}"
  have ow: "owned S m" and al: "allocated m" using ok by (simp_all add: udp_ok_def)
  have fin: "finite (?A x)" for x using finite_unreleased [OF al] by simp
  have he: "held x m = mset_set (?A x)" for x using ow by (simp add: owned_def)
  have un: "unreleased m' = unreleased m" using b by (simp add: unreleased_def)
  have ru: "r \<in> unreleased m" using ow r by (auto simp: owned_def)
  show ?thesis
    unfolding owned_def un b
  proof (intro conjI allI)
    show "S - {r} \<subseteq> unreleased m" using ow by (auto simp: owned_def)
    fix x
    show "held x m' = mset_set {q \<in> unreleased m. rs_endpoint (mg_reservation m q) = x \<and> q \<notin> S - {r}}"
    proof (cases "x = e")
      case True
      have "{q \<in> unreleased m. rs_endpoint (mg_reservation m q) = e \<and> q \<notin> S - {r}} = insert r (?A e)"
        using r ru by auto
      then show ?thesis using True h(1) he [of e] fin [of e] r(1) by simp
    next
      case False
      then have "{q \<in> unreleased m. rs_endpoint (mg_reservation m q) = x \<and> q \<notin> S - {r}} = ?A x"
        using r by auto
      then show ?thesis using False h(2) he by simp
    qed
  qed
qed

text \<open>Letting go and releasing at once.\<close>

lemma udp_ok_drop:
  assumes "udp_ok S m" "r \<in># held e m" "same_books m m'" "tables m'"
    "held e m' = held e m - {#r#}" "\<And>x. x \<noteq> e \<Longrightarrow> held x m' = held x m"
  shows "udp_ok S (release_udp r m')"
proof -
  have b: "mg_reservation m' = mg_reservation m" using assms(3) by (simp add: same_books_def)
  have o: "owned (insert r S) m'" "r \<notin> S"
    using owned_unhold [OF assms(1,2) b assms(5,6)] by simp_all
  have "udp_ok (insert r S) m'" using udp_ok_books [OF assms(1,3) o(1) assms(4)] .
  from udp_ok_release [OF this, of r] show ?thesis using o(2) by simp
qed

lemma udp_ok_hold:
  assumes "udp_ok S m" "r \<in> S" "rs_endpoint (mg_reservation m r) = e" "same_books m m'" "tables m'"
    "held e m' = add_mset r (held e m)" "\<And>x. x \<noteq> e \<Longrightarrow> held x m' = held x m"
  shows "udp_ok (S - {r}) m'"
proof -
  have b: "mg_reservation m' = mg_reservation m" using assms(4) by (simp add: same_books_def)
  show ?thesis
    using udp_ok_books [OF assms(1,4) owned_hold [OF assms(1-3) b assms(6,7)] assms(5)] .
qed

subsection \<open>The tables of an endpoint\<close>

lemma held_eq:
  "held e m = image_mset (\<lambda>og. og_reservation (mg_outgoing m og)) (mset (ep_queue (mg_endpoint m e)))
     + image_mset (\<lambda>x. ua_reservation (snd x)) (mset (ep_assemblies (mg_endpoint m e)))
     + image_mset (\<lambda>i. um_reservation (mg_message m i)) (mset (ep_completed (mg_endpoint m e)))"
  by (simp add: held_def held_reservations_def Let_def case_prod_beta' flip: mset_map)

lemma usage_upd_endpoint:
  "ep_rx (f (mg_endpoint m e)) = ep_rx (mg_endpoint m e) \<Longrightarrow> ep_tx (f (mg_endpoint m e)) = ep_tx (mg_endpoint m e) \<Longrightarrow>
     flow_usage tx x (upd_endpoint e f m) = flow_usage tx x m"
  "peer_usage tx p (upd_endpoint e f m) = peer_usage tx p m"
  "node_usage tx (upd_endpoint e f m) = node_usage tx m"
  by (auto simp: flow_usage_def peer_usage_def node_usage_def)

lemma books_upd_endpoint:
  assumes "ep_rx (f (mg_endpoint m e)) = ep_rx (mg_endpoint m e)"
    "ep_tx (f (mg_endpoint m e)) = ep_tx (mg_endpoint m e)"
    "ep_peer (f (mg_endpoint m e)) = ep_peer (mg_endpoint m e)"
    "ep_closed (mg_endpoint m e) \<longrightarrow> ep_closed (f (mg_endpoint m e))"
  shows "same_books m (upd_endpoint e f m)"
  using assms by (simp add: same_books_def usage_upd_endpoint)

lemma image_mset_remove1:
  "x \<in> set xs \<Longrightarrow> image_mset f (mset (remove1 x xs)) = image_mset f (mset xs) - {#f x#}"
  by (simp add: image_mset_Diff)

lemma mset_m_del:
  "m_ok xs \<Longrightarrow> map_of xs k = Some v \<Longrightarrow> mset xs = add_mset (k, v) (mset (m_del k xs))"
proof (induction xs)
  case (Cons e xs)
  show ?case
  proof (cases "fst e = k")
    case True
    have "map_of xs k = None" using m_ok_Cons_fresh [OF Cons.prems(1)] True by simp
    then have "m_del k (e # xs) = xs" using True m_del_absent by (simp add: m_del_def)
    then show ?thesis using Cons.prems(2) True by (cases e) simp
  next
    case False
    then have "m_del k (e # xs) = e # m_del k xs" "map_of xs k = Some v"
      using Cons.prems(2) by (auto simp: m_del_def split: if_splits prod.splits)
    then show ?thesis using Cons.IH Cons.prems(1) by (simp add: m_ok_Cons)
  qed
qed simp

lemma mset_m_put_new:
  "map_of xs k = None \<Longrightarrow> mset (m_put k v xs) = add_mset (k, v) (mset xs)"
  by (induction k v xs rule: m_put.induct) (auto split: if_splits)

lemma udp_ok_m_ok: "udp_ok S m \<Longrightarrow> m_ok (ep_assemblies (mg_endpoint m e))"
  using udp_ok_tables by (auto simp: tables_def)

lemma udp_ok_remove_assembly: "udp_ok S m \<Longrightarrow> udp_ok S (remove_assembly e mid m)"
proof (cases "map_of (ep_assemblies (mg_endpoint m e)) mid")
  case (Some a)
  assume ok: "udp_ok S m"
  let ?m = "upd_endpoint e (\<lambda>x. x\<lparr>ep_assemblies := m_del mid (ep_assemblies x)\<rparr>) m"
  have ms: "mset (ep_assemblies (mg_endpoint m e))
      = add_mset (mid, a) (mset (m_del mid (ep_assemblies (mg_endpoint m e))))"
    using mset_m_del [OF udp_ok_m_ok [OF ok] Some] .
  have "udp_ok S (release_udp (ua_reservation a) ?m)"
  proof (rule udp_ok_drop [OF ok])
    show "ua_reservation a \<in># held e m" by (simp add: held_eq ms)
    show "same_books m ?m" by (rule books_upd_endpoint) simp_all
    show "tables ?m" using udp_ok_tables [OF ok] by (auto simp: tables_def)
    show "held e ?m = held e m - {#ua_reservation a#}" by (simp add: held_eq ms)
    show "held x ?m = held x m" if "x \<noteq> e" for x using that by (simp add: held_eq)
  qed
  then show ?thesis using Some by (simp add: remove_assembly_def)
qed (simp add: remove_assembly_def)

lemma udp_ok_drop_outgoing:
  assumes ok: "udp_ok S m" and og: "og \<in> set (ep_queue (mg_endpoint m e))"
  shows "udp_ok S (release_udp (og_reservation (mg_outgoing m og))
     (upd_endpoint e (\<lambda>x. x\<lparr>ep_queue := remove1 og (ep_queue x)\<rparr>) m))"
proof (rule udp_ok_drop [OF ok])
  let ?m = "upd_endpoint e (\<lambda>x. x\<lparr>ep_queue := remove1 og (ep_queue x)\<rparr>) m"
  have sub: "{#og_reservation (mg_outgoing m og)#} \<subseteq># image_mset (\<lambda>og. og_reservation (mg_outgoing m og))
      (mset (ep_queue (mg_endpoint m e)))"
    using og by simp
  show "og_reservation (mg_outgoing m og) \<in># held e m" using og by (auto simp: held_eq)
  show "same_books m ?m" by (rule books_upd_endpoint) simp_all
  show "tables ?m" using udp_ok_tables [OF ok] by (auto simp: tables_def dest: notin_set_remove1 set_remove1_subset [THEN subsetD])
  show "held e ?m = held e m - {#og_reservation (mg_outgoing m og)#}"
    using image_mset_remove1 [OF og, of "\<lambda>og. og_reservation (mg_outgoing m og)"] sub
    by (simp add: held_eq multiset_diff_union_assoc del: mset_remove1)
  show "held x ?m = held x m" if "x \<noteq> e" for x using that by (simp add: held_eq)
qed

end
