(* ===== verification/Udp_Steps.thy ===== *)
theory Udp_Steps
  imports Udp_Account
begin

section \<open>UDP messages: every operation keeps the books\<close>

text \<open>
  \<open>udp_ok\<close> is preserved by each operation of the manager and of the scheduler. \<open>keeps\<close> is what
  every operation does to the objects other goroutines still point to: an outgoing message leaves
  its queue, and a completed message its table, only when its reservation is released.
\<close>

subsection \<open>Updates outside the books\<close>

lemma view_upd_endpoint:
  assumes "ep_rx (f (mg_endpoint m e)) = ep_rx (mg_endpoint m e)"
    "ep_tx (f (mg_endpoint m e)) = ep_tx (mg_endpoint m e)"
    "ep_peer (f (mg_endpoint m e)) = ep_peer (mg_endpoint m e)"
    "ep_closed (mg_endpoint m e) \<longrightarrow> ep_closed (f (mg_endpoint m e))"
    "mset (ep_queue (f (mg_endpoint m e))) = mset (ep_queue (mg_endpoint m e))"
    "ep_assemblies (f (mg_endpoint m e)) = ep_assemblies (mg_endpoint m e)"
    "ep_completed (f (mg_endpoint m e)) = ep_completed (mg_endpoint m e)"
  shows "same_view m (upd_endpoint e f m)"
  unfolding same_view_def
proof (intro conjI allI)
  show "same_books m (upd_endpoint e f m)" using assms(1-4) by (rule books_upd_endpoint)
  show "held x (upd_endpoint e f m) = held x m" for x
    using assms(5-7) by (simp add: held_eq)
  show "set (ep_queue (mg_endpoint (upd_endpoint e f m) x)) \<subseteq> set (ep_queue (mg_endpoint m x))" for x
    using mset_eq_setD [OF assms(5)] by simp
qed (use assms in auto)

lemma view_stats [simp]: "same_view m (m\<lparr>mg_stats := s\<rparr>)"
  by (simp add: same_view_def same_books_def flow_usage_def peer_usage_def node_usage_def held_eq)

lemma view_upd_peer:
  "pe_rx (f (mg_peer m p)) = pe_rx (mg_peer m p) \<Longrightarrow> pe_tx (f (mg_peer m p)) = pe_tx (mg_peer m p) \<Longrightarrow>
     same_view m (upd_peer p f m)"
  by (auto simp: same_view_def same_books_def flow_usage_def peer_usage_def node_usage_def held_eq)

lemma view_upd_outgoing:
  "og_reservation (f (mg_outgoing m og)) = og_reservation (mg_outgoing m og) \<Longrightarrow>
     same_view m (upd_outgoing og f m)"
proof -
  assume "og_reservation (f (mg_outgoing m og)) = og_reservation (mg_outgoing m og)"
  then have *: "(\<lambda>x. og_reservation (((mg_outgoing m)(og := f (mg_outgoing m og))) x))
      = (\<lambda>x. og_reservation (mg_outgoing m x))"
    by auto
  show ?thesis
    by (simp add: same_view_def same_books_def flow_usage_def peer_usage_def node_usage_def held_eq
        * [unfolded fun_upd_def] fun_upd_def)
qed

lemma view_refl [simp]: "same_view m m"
  by (simp add: same_view_def same_books_def)

lemma view_trans: "same_view a b \<Longrightarrow> same_view b c \<Longrightarrow> same_view a c"
  unfolding same_view_def same_books_def by (simp, meson order_trans)

lemma udp_ok_stats: "udp_ok S m \<Longrightarrow> udp_ok S (m\<lparr>mg_stats := s\<rparr>)"
  by (erule udp_ok_same) (rule view_stats)

lemma udp_ok_set_state: "udp_ok S m \<Longrightarrow> udp_ok S (set_state e mid v m)"
  unfolding set_state_def by (erule udp_ok_same, rule view_upd_endpoint) simp_all

subsection \<open>Frames\<close>

lemma release_frame [simp]:
  "mg_outgoing (release_udp r m) = mg_outgoing m" "mg_message (release_udp r m) = mg_message m"
  "mg_fresh (release_udp r m) = mg_fresh m" "mg_peers (release_udp r m) = mg_peers m"
  "ep_queue (mg_endpoint (release_udp r m) e) = ep_queue (mg_endpoint m e)"
  "ep_assemblies (mg_endpoint (release_udp r m) e) = ep_assemblies (mg_endpoint m e)"
  "ep_completed (mg_endpoint (release_udp r m) e) = ep_completed (mg_endpoint m e)"
  "ep_closed (mg_endpoint (release_udp r m) e) = ep_closed (mg_endpoint m e)"
  "ep_peer (mg_endpoint (release_udp r m) e) = ep_peer (mg_endpoint m e)"
  by (simp_all add: release_udp_def Let_def)

lemma release_reservation:
  "mg_reservation (release_udp r m) = (mg_reservation m)(r := (mg_reservation m r)\<lparr>rs_released := True\<rparr>)"
  by (auto simp: release_udp_def Let_def fun_eq_iff)

lemma remove_assembly_frame [simp]:
  "mg_outgoing (remove_assembly e mid m) = mg_outgoing m" "mg_message (remove_assembly e mid m) = mg_message m"
  "mg_fresh (remove_assembly e mid m) = mg_fresh m"
  "ep_queue (mg_endpoint (remove_assembly e mid m) x) = ep_queue (mg_endpoint m x)"
  "ep_completed (mg_endpoint (remove_assembly e mid m) x) = ep_completed (mg_endpoint m x)"
  "ep_closed (mg_endpoint (remove_assembly e mid m) x) = ep_closed (mg_endpoint m x)"
  "ep_peer (mg_endpoint (remove_assembly e mid m) x) = ep_peer (mg_endpoint m x)"
  by (simp_all add: remove_assembly_def split: option.split)

lemma remove_assembly_table:
  "ep_assemblies (mg_endpoint (remove_assembly e mid m) x)
     = (if x = e then m_del mid (ep_assemblies (mg_endpoint m x)) else ep_assemblies (mg_endpoint m x))"
  using m_del_absent [of "ep_assemblies (mg_endpoint m e)" mid]
  by (auto simp: remove_assembly_def split: option.split)

lemma set_state_frame [simp]:
  "mg_outgoing (set_state e mid v m) = mg_outgoing m" "mg_message (set_state e mid v m) = mg_message m"
  "mg_fresh (set_state e mid v m) = mg_fresh m" "mg_reservation (set_state e mid v m) = mg_reservation m"
  "ep_queue (mg_endpoint (set_state e mid v m) x) = ep_queue (mg_endpoint m x)"
  "ep_completed (mg_endpoint (set_state e mid v m) x) = ep_completed (mg_endpoint m x)"
  "ep_closed (mg_endpoint (set_state e mid v m) x) = ep_closed (mg_endpoint m x)"
  "ep_assemblies (mg_endpoint (set_state e mid v m) x) = ep_assemblies (mg_endpoint m x)"
  "ep_high (mg_endpoint (set_state e mid v m) x) = ep_high (mg_endpoint m x)"
  by (simp_all add: set_state_def)

subsection \<open>What other goroutines can rely on\<close>

definition live_out :: "nat \<Rightarrow> nat \<Rightarrow> manager \<Rightarrow> bool" where
  "live_out e og m \<longleftrightarrow> og < mg_fresh m \<and> og_reservation (mg_outgoing m og) < mg_fresh m
     \<and> (rs_released (mg_reservation m (og_reservation (mg_outgoing m og)))
        \<or> og \<in> set (ep_queue (mg_endpoint m e)))"

definition live_message :: "nat \<Rightarrow> manager \<Rightarrow> bool" where
  "live_message i m \<longleftrightarrow> i < mg_fresh m \<and> um_reservation (mg_message m i) < mg_fresh m
     \<and> (let rs = mg_reservation m (um_reservation (mg_message m i)) in
        rs_released rs \<or> i \<in> set (ep_completed (mg_endpoint m (rs_endpoint rs))))"

definition peers_known :: "manager \<Rightarrow> bool" where
  "peers_known m \<longleftrightarrow> (\<forall>p \<in> snd ` set (mg_peers m). p < mg_fresh m)"

definition keeps :: "manager \<Rightarrow> manager \<Rightarrow> bool" where
  "keeps m m' \<longleftrightarrow> (\<forall>e og. live_out e og m \<longrightarrow> live_out e og m') \<and> (\<forall>i. live_message i m \<longrightarrow> live_message i m')
     \<and> (peers_known m \<longrightarrow> peers_known m') \<and> mg_fresh m \<le> mg_fresh m'
     \<and> (\<forall>e. e < mg_fresh m \<and> ep_closed (mg_endpoint m e) \<longrightarrow> ep_closed (mg_endpoint m' e))
     \<and> (\<forall>r < mg_fresh m. rs_endpoint (mg_reservation m' r) = rs_endpoint (mg_reservation m r))
     \<and> (unreleased m \<subseteq> {..<mg_fresh m} \<longrightarrow> unreleased m' \<subseteq> {..<mg_fresh m'}
         \<and> (\<forall>r \<in> unreleased m'. r \<in> unreleased m \<or> mg_fresh m \<le> rs_endpoint (mg_reservation m' r)
              \<or> \<not> ep_closed (mg_endpoint m (rs_endpoint (mg_reservation m' r)))))"

lemma keeps_refl [simp]: "keeps m m"
  by (simp add: keeps_def)

lemma keepsD:
  assumes "keeps m m'"
  shows "mg_fresh m \<le> mg_fresh m'"
    "e < mg_fresh m \<Longrightarrow> ep_closed (mg_endpoint m e) \<Longrightarrow> ep_closed (mg_endpoint m' e)"
    "r < mg_fresh m \<Longrightarrow> rs_endpoint (mg_reservation m' r) = rs_endpoint (mg_reservation m r)"
    "unreleased m \<subseteq> {..<mg_fresh m} \<Longrightarrow> unreleased m' \<subseteq> {..<mg_fresh m'}"
    "unreleased m \<subseteq> {..<mg_fresh m} \<Longrightarrow> q \<in> unreleased m' \<Longrightarrow>
       q \<in> unreleased m \<or> mg_fresh m \<le> rs_endpoint (mg_reservation m' q)
         \<or> \<not> ep_closed (mg_endpoint m (rs_endpoint (mg_reservation m' q)))"
  using assms unfolding keeps_def by blast+

lemma keeps_trans [trans]:
  assumes ab: "keeps a b" and bc: "keeps b c"
  shows "keeps a c"
  unfolding keeps_def
proof (intro conjI allI impI ballI)
  note a = keepsD [OF ab] and b = keepsD [OF bc]
  show "mg_fresh a \<le> mg_fresh c" using a(1) b(1) by simp
  show "ep_closed (mg_endpoint c e)" if "e < mg_fresh a \<and> ep_closed (mg_endpoint a e)" for e
    using that a(1) a(2) [of e] b(2) [of e] by simp
  show "rs_endpoint (mg_reservation c r) = rs_endpoint (mg_reservation a r)" if "r < mg_fresh a" for r
    using that a(1) a(3) [of r] b(3) [of r] by simp
  show "unreleased c \<subseteq> {..<mg_fresh c}" if "unreleased a \<subseteq> {..<mg_fresh a}" using that a(4) b(4) by blast
  show "r \<in> unreleased a \<or> mg_fresh a \<le> rs_endpoint (mg_reservation c r)
      \<or> \<not> ep_closed (mg_endpoint a (rs_endpoint (mg_reservation c r)))"
    if wf: "unreleased a \<subseteq> {..<mg_fresh a}" and r: "r \<in> unreleased c" for r
  proof -
    note wfb = a(4) [OF wf]
    from b(5) [OF wfb r] show ?thesis
    proof (elim disjE)
      assume rb: "r \<in> unreleased b"
      then have "rs_endpoint (mg_reservation c r) = rs_endpoint (mg_reservation b r)"
        using wfb b(3) [of r] by auto
      then show ?thesis using a(5) [OF wf rb] by simp
    qed (use a(1) a(2) [of "rs_endpoint (mg_reservation c r)"] in linarith)+
  qed
  show "live_out e og c" if "live_out e og a" for e og using that ab bc by (simp add: keeps_def)
  show "live_message i c" if "live_message i a" for i using that ab bc by (simp add: keeps_def)
  show "peers_known c" if "peers_known a" using that ab bc by (simp add: keeps_def)
qed

lemma keepsI_peers:
  assumes "mg_fresh m \<le> mg_fresh m'"
    "\<And>og. og < mg_fresh m \<Longrightarrow> og_reservation (mg_outgoing m' og) = og_reservation (mg_outgoing m og)"
    "\<And>i. i < mg_fresh m \<Longrightarrow> um_reservation (mg_message m' i) = um_reservation (mg_message m i)"
    "\<And>r. rs_endpoint (mg_reservation m' r) = rs_endpoint (mg_reservation m r)"
    "\<And>r. rs_released (mg_reservation m r) \<Longrightarrow> rs_released (mg_reservation m' r)"
    "\<And>e og. og \<in> set (ep_queue (mg_endpoint m e)) \<Longrightarrow> og \<in> set (ep_queue (mg_endpoint m' e))
       \<or> rs_released (mg_reservation m' (og_reservation (mg_outgoing m og)))"
    "\<And>e i. i \<in> set (ep_completed (mg_endpoint m e)) \<Longrightarrow> i \<in> set (ep_completed (mg_endpoint m' e))
       \<or> rs_released (mg_reservation m' (um_reservation (mg_message m i)))"
    "peers_known m \<Longrightarrow> peers_known m'"
    "\<And>e. e < mg_fresh m \<Longrightarrow> ep_closed (mg_endpoint m e) \<Longrightarrow> ep_closed (mg_endpoint m' e)"
  shows "keeps m m'"
  unfolding keeps_def
proof (intro conjI allI impI ballI)
  show "ep_closed (mg_endpoint m' e)" if "e < mg_fresh m \<and> ep_closed (mg_endpoint m e)" for e
    using that assms(9) by blast
  show "rs_endpoint (mg_reservation m' r) = rs_endpoint (mg_reservation m r)" for r by (rule assms(4))
  have sub: "unreleased m' \<subseteq> unreleased m" using assms(5) by (auto simp: unreleased_def)
  show "unreleased m' \<subseteq> {..<mg_fresh m'}" if "unreleased m \<subseteq> {..<mg_fresh m}"
    using that sub assms(1) by (force dest: subsetD)
  show "r \<in> unreleased m \<or> mg_fresh m \<le> rs_endpoint (mg_reservation m' r)
      \<or> \<not> ep_closed (mg_endpoint m (rs_endpoint (mg_reservation m' r)))"
    if "r \<in> unreleased m'" for r
    using that sub by blast
  show "mg_fresh m \<le> mg_fresh m'" by (rule assms(1))
  show "peers_known m'" if "peers_known m" using that by (rule assms(8))
next
  fix e og assume "live_out e og m"
  then show "live_out e og m'"
    using assms(1,2,5,6) unfolding live_out_def by (metis order_less_le_trans)
next
  fix i assume "live_message i m"
  then show "live_message i m'"
    using assms(1,3,4,5,7) unfolding live_message_def Let_def by (metis order_less_le_trans)
qed

lemma keepsI:
  assumes "mg_fresh m \<le> mg_fresh m'"
    "\<And>og. og < mg_fresh m \<Longrightarrow> og_reservation (mg_outgoing m' og) = og_reservation (mg_outgoing m og)"
    "\<And>i. i < mg_fresh m \<Longrightarrow> um_reservation (mg_message m' i) = um_reservation (mg_message m i)"
    "\<And>r. rs_endpoint (mg_reservation m' r) = rs_endpoint (mg_reservation m r)"
    "\<And>r. rs_released (mg_reservation m r) \<Longrightarrow> rs_released (mg_reservation m' r)"
    "\<And>e og. og \<in> set (ep_queue (mg_endpoint m e)) \<Longrightarrow> og \<in> set (ep_queue (mg_endpoint m' e))
       \<or> rs_released (mg_reservation m' (og_reservation (mg_outgoing m og)))"
    "\<And>e i. i \<in> set (ep_completed (mg_endpoint m e)) \<Longrightarrow> i \<in> set (ep_completed (mg_endpoint m' e))
       \<or> rs_released (mg_reservation m' (um_reservation (mg_message m i)))"
    "set (mg_peers m') \<subseteq> set (mg_peers m)"
    "\<And>e. e < mg_fresh m \<Longrightarrow> ep_closed (mg_endpoint m e) \<Longrightarrow> ep_closed (mg_endpoint m' e)"
  shows "keeps m m'"
proof (rule keepsI_peers)
  show "peers_known m'" if "peers_known m"
    using that assms(1,8) unfolding peers_known_def by (metis (no_types) image_mono order_less_le_trans subsetD)
qed (use assms in blast)+

lemma keeps_release: "keeps m (release_udp r m)"
  by (rule keepsI) (auto simp: release_reservation)

lemma keeps_upd_endpoint:
  assumes "set (ep_queue (mg_endpoint m e)) \<subseteq> set (ep_queue (f (mg_endpoint m e)))"
    "set (ep_completed (mg_endpoint m e)) \<subseteq> set (ep_completed (f (mg_endpoint m e)))"
    "ep_closed (mg_endpoint m e) \<longrightarrow> ep_closed (f (mg_endpoint m e))"
  shows "keeps m (upd_endpoint e f m)"
  by (rule keepsI) (use assms in auto)

lemma keeps_stats [simp]: "keeps m (m\<lparr>mg_stats := s\<rparr>)"
  by (rule keepsI) auto

lemma keeps_peer [simp]: "keeps m (upd_peer p f m)"
  by (rule keepsI) auto

lemma keeps_outgoing:
  "og_reservation (f (mg_outgoing m og)) = og_reservation (mg_outgoing m og) \<Longrightarrow> keeps m (upd_outgoing og f m)"
  by (rule keepsI) auto

lemma keeps_set_state: "keeps m (set_state e mid v m)"
  unfolding set_state_def by (rule keeps_upd_endpoint) auto

lemma keeps_remove_assembly: "keeps m (remove_assembly e mid m)"
proof (cases "map_of (ep_assemblies (mg_endpoint m e)) mid")
  case (Some a)
  have "keeps m (upd_endpoint e (\<lambda>x. x\<lparr>ep_assemblies := m_del mid (ep_assemblies x)\<rparr>) m)"
    by (rule keeps_upd_endpoint) auto
  then show ?thesis using Some keeps_release keeps_trans by (auto simp: remove_assembly_def)
qed (simp add: remove_assembly_def)

lemma keeps_drop_outgoing:
  "keeps m (release_udp (og_reservation (mg_outgoing m og))
     (upd_endpoint e (\<lambda>x. x\<lparr>ep_queue := remove1 og (ep_queue x)\<rparr>) m))"
proof (rule keepsI)
  fix e' og'
  assume "og' \<in> set (ep_queue (mg_endpoint m e'))"
  then show "og' \<in> set (ep_queue (mg_endpoint (release_udp (og_reservation (mg_outgoing m og))
      (upd_endpoint e (\<lambda>x. x\<lparr>ep_queue := remove1 og (ep_queue x)\<rparr>) m)) e'))
    \<or> rs_released (mg_reservation (release_udp (og_reservation (mg_outgoing m og))
      (upd_endpoint e (\<lambda>x. x\<lparr>ep_queue := remove1 og (ep_queue x)\<rparr>) m)) (og_reservation (mg_outgoing m og')))"
    by (cases "og' = og") (auto simp: release_reservation)
qed (auto simp: release_reservation)

lemma keeps_reserve:
  assumes "udp_ok S m" "\<not> ep_closed (mg_endpoint m e)" "reserve_udp e n tx m = (Some r, m')"
  shows "keeps m m'"
proof -
  note R = udp_ok_reserve [OF assms]
  have fr: "ep_queue (mg_endpoint m' x) = ep_queue (mg_endpoint m x)"
      "ep_completed (mg_endpoint m' x) = ep_completed (mg_endpoint m x)"
      "ep_closed (mg_endpoint m' x) = ep_closed (mg_endpoint m x)" "mg_peers m' = mg_peers m" for x
    using assms(3) by (auto simp: reserve_udp_def Let_def split: if_splits)
  have un: "x < mg_fresh m" if "\<not> rs_released (mg_reservation m x)" for x
    using that assms(1) by (simp add: udp_ok_def allocated_def unreleased_def)
  show ?thesis
    unfolding keeps_def
  proof (intro conjI allI impI)
    show "peers_known m'" if "peers_known m" using that fr(4) R(4) by (force simp: peers_known_def)
  qed (use assms(2) un R(3-5,7,8) fr in
      \<open>auto simp: live_out_def live_message_def Let_def unreleased_def less_Suc_eq split: if_splits\<close>)
qed

lemma keeps_fold: "(\<And>x m. keeps m (f x m)) \<Longrightarrow> keeps m (fold f xs m)"
  by (induction xs arbitrary: m) (auto intro: keeps_trans)

lemma keeps_chain:
  "keeps m m' \<Longrightarrow> keeps m (m'\<lparr>mg_stats := s\<rparr>)" "keeps m m' \<Longrightarrow> keeps m (set_state e mid v m')"
  "keeps m m' \<Longrightarrow> keeps m (remove_assembly e mid m')" "keeps m m' \<Longrightarrow> keeps m (release_udp r m')"
  "keeps m m' \<Longrightarrow> keeps m (upd_peer p f m')"
  using keeps_trans keeps_stats keeps_set_state keeps_remove_assembly keeps_release keeps_peer by metis+

subsection \<open>Expiry\<close>

lemma udp_ok_distinct:
  assumes "udp_ok S m"
  shows "distinct (ep_queue (mg_endpoint m e))" "distinct (held_reservations e m)"
proof -
  have "held e m = mset_set {r \<in> unreleased m. rs_endpoint (mg_reservation m r) = e \<and> r \<notin> S}"
    using assms by (simp add: udp_ok_def owned_def)
  then have "count (held e m) r \<le> 1" for r by (simp add: count_mset_set')
  then have "count (mset (held_reservations e m)) r \<le> 1" for r by (simp add: held_def)
  then show d: "distinct (held_reservations e m)"
    by (simp add: distinct_count_atmost_1) (metis One_nat_def count_mset_0_iff le_Suc_eq le_zero_eq)
  then show "distinct (ep_queue (mg_endpoint m e))"
    by (simp add: held_reservations_def Let_def distinct_map)
qed

lemma expire_assembly_ok: "udp_ok S m \<Longrightarrow> udp_ok S (expire_assembly e mid m)"
  unfolding expire_assembly_def by (intro udp_ok_stats udp_ok_set_state udp_ok_remove_assembly)

lemma expire_assembly_keeps: "keeps m (expire_assembly e mid m)"
  unfolding expire_assembly_def by (intro keeps_chain keeps_refl)

lemma udp_ok_fold: "(\<And>x m. udp_ok S m \<Longrightarrow> udp_ok S (f x m)) \<Longrightarrow> udp_ok S m \<Longrightarrow> udp_ok S (fold f xs m)"
  by (induction xs arbitrary: m) auto

lemma expire_outgoing_ok:
  "udp_ok S m \<Longrightarrow> og \<in> set (ep_queue (mg_endpoint m e)) \<Longrightarrow> udp_ok S (expire_outgoing e og m)"
  unfolding expire_outgoing_def by (intro udp_ok_stats udp_ok_drop_outgoing)

lemma expire_outgoing_keeps: "keeps m (expire_outgoing e og m)"
  unfolding expire_outgoing_def by (intro keeps_chain(1) keeps_drop_outgoing)

lemma expire_outgoing_queue:
  "ep_queue (mg_endpoint (expire_outgoing e og m) e) = remove1 og (ep_queue (mg_endpoint m e))"
  by (simp add: expire_outgoing_def)

lemma fold_expire_outgoing_ok:
  "udp_ok S m \<Longrightarrow> distinct ogs \<Longrightarrow> set ogs \<subseteq> set (ep_queue (mg_endpoint m e)) \<Longrightarrow>
     udp_ok S (fold (expire_outgoing e) ogs m)"
proof (induction ogs arbitrary: m)
  case (Cons og ogs)
  have "x \<in> set (remove1 og (ep_queue (mg_endpoint m e)))" if "x \<in> set ogs" for x
  proof -
    have "x \<noteq> og" "x \<in> set (ep_queue (mg_endpoint m e))" using Cons.prems(2,3) that by auto
    then show ?thesis by simp
  qed
  then have "set ogs \<subseteq> set (ep_queue (mg_endpoint (expire_outgoing e og m) e))"
    unfolding expire_outgoing_queue by blast
  moreover have "udp_ok S (expire_outgoing e og m)" using Cons.prems by (intro expire_outgoing_ok) auto
  ultimately show ?case using Cons.IH Cons.prems(2) by simp
qed simp

lemma expire_assemblies_queue:
  "ep_queue (mg_endpoint (fold (expire_assembly e) ids m) x) = ep_queue (mg_endpoint m x)"
  by (induction ids arbitrary: m) (simp_all add: expire_assembly_def)

lemma expire_udp_ok: "udp_ok S m \<Longrightarrow> udp_ok S (expire_udp e now m)"
proof -
  assume ok: "udp_ok S m"
  define ids where "ids = map fst (filter (\<lambda>(_, a). ua_born a + lifetime \<le> now) (ep_assemblies (mg_endpoint m e)))"
  have "udp_ok S (fold (expire_assembly e) ids m)" using ok by (intro udp_ok_fold expire_assembly_ok)
  then show ?thesis
    unfolding expire_udp_def Let_def ids_def [symmetric]
    using udp_ok_distinct(1) [OF ok, of e]
    by (intro fold_expire_outgoing_ok) (auto simp: expire_assemblies_queue)
qed

lemma expire_udp_keeps: "keeps m (expire_udp e now m)"
  unfolding expire_udp_def Let_def
  by (rule keeps_trans [OF keeps_fold keeps_fold]) (rule expire_assembly_keeps expire_outgoing_keeps)+

subsection \<open>Window and eviction\<close>

lemma evict_low_ok: "udp_ok S m \<Longrightarrow> udp_ok S (evict_low e mid m)"
  unfolding evict_low_def by (intro udp_ok_stats udp_ok_remove_assembly)

lemma evict_low_keeps: "keeps m (evict_low e mid m)"
  unfolding evict_low_def by (intro keeps_chain keeps_refl)

lemma advance_udp_ok: "udp_ok S m \<Longrightarrow> udp_ok S (advance_udp e mid m)"
proof -
  assume ok: "udp_ok S m"
  have "udp_ok S (upd_endpoint e (\<lambda>x. x\<lparr>ep_states := st, ep_high := mid\<rparr>) m)" for st
    using ok by (rule udp_ok_same) (rule view_upd_endpoint, simp_all)
  then show ?thesis
    using ok unfolding advance_udp_def Let_def by (auto intro!: udp_ok_fold evict_low_ok)
qed

lemma advance_udp_keeps: "keeps m (advance_udp e mid m)"
proof (cases "mid \<le> ep_high (mg_endpoint m e)")
  case False
  have "keeps m (upd_endpoint e (\<lambda>x. x\<lparr>ep_states := st, ep_high := mid\<rparr>) m)" for st
    by (rule keeps_upd_endpoint) auto
  then show ?thesis
    using False unfolding advance_udp_def Let_def
    by (simp add: keeps_trans [OF _ keeps_fold [OF evict_low_keeps]])
qed (simp add: advance_udp_def Let_def)

lemma evict_udp_ok: "udp_ok S m \<Longrightarrow> udp_ok S (snd (evict_udp perm e m))"
  unfolding evict_udp_def
  by (auto split: option.split intro!: udp_ok_stats udp_ok_remove_assembly udp_ok_set_state)

lemma evict_udp_keeps: "keeps m (snd (evict_udp perm e m))"
  unfolding evict_udp_def
  by (auto split: option.split intro!: keeps_chain)

lemma evict_udp_frame:
  "evict_udp perm e m = (b, m') \<Longrightarrow> ep_closed (mg_endpoint m' x) = ep_closed (mg_endpoint m x)"
  "evict_udp perm e m = (b, m') \<Longrightarrow> map_of (ep_assemblies (mg_endpoint m x)) mid = None \<Longrightarrow>
     map_of (ep_assemblies (mg_endpoint m' x)) mid = None"
  by (auto simp: evict_udp_def remove_assembly_table split: option.splits)

lemma reserve_frame:
  assumes "reserve_udp e n tx m = (res, m')"
  shows "ep_closed (mg_endpoint m' x) = ep_closed (mg_endpoint m x)"
    "ep_assemblies (mg_endpoint m' x) = ep_assemblies (mg_endpoint m x)"
    "ep_queue (mg_endpoint m' x) = ep_queue (mg_endpoint m x)"
    "ep_completed (mg_endpoint m' x) = ep_completed (mg_endpoint m x)"
  using assms by (auto simp: reserve_udp_def Let_def split: if_splits)

lemma reserve_step:
  assumes "udp_ok S m" "\<not> ep_closed (mg_endpoint m e)" "reserve_udp e n tx m = (res, m')"
  shows "keeps m m' \<and> (\<forall>x. ep_assemblies (mg_endpoint m' x) = ep_assemblies (mg_endpoint m x)
      \<and> ep_closed (mg_endpoint m' x) = ep_closed (mg_endpoint m x))
    \<and> (case res of None \<Rightarrow> udp_ok S m'
       | Some r \<Rightarrow> udp_ok (insert r S) m' \<and> r \<notin> S \<and> rs_endpoint (mg_reservation m' r) = e)"
proof (cases res)
  case None
  then have "m' = m" using reserve_udp_None assms(3) by blast
  then show ?thesis using assms(1) None by simp
next
  case (Some r)
  then show ?thesis
    using udp_ok_reserve(1,2,5) [OF assms(1,2) assms(3) [unfolded Some]]
      keeps_reserve [OF assms(1,2) assms(3) [unfolded Some]]
      reserve_frame [OF assms(3)] by simp
qed

lemma reserve_evicting_ok:
  assumes "udp_ok S m" "\<not> ep_closed (mg_endpoint m e)" "map_of (ep_assemblies (mg_endpoint m e)) mid = None"
    "reserve_evicting perm e n k m = (res, m')"
  shows "keeps m m' \<and> map_of (ep_assemblies (mg_endpoint m' e)) mid = None
    \<and> ep_closed (mg_endpoint m' e) = ep_closed (mg_endpoint m e)
    \<and> (case res of None \<Rightarrow> udp_ok S m'
       | Some r \<Rightarrow> udp_ok (insert r S) m' \<and> r \<notin> S \<and> rs_endpoint (mg_reservation m' r) = e)"
  using assms
proof (induction k arbitrary: m)
  case 0
  then have "reserve_udp e n False m = (res, m')" by (auto split: prod.splits option.splits)
  then show ?case using reserve_step [OF 0(1,2), of n False res m'] 0(3) by (auto split: option.splits)
next
  case (Suc k)
  note IH = Suc(1)
  obtain r m1 where r: "reserve_udp e n False m = (r, m1)" by fastforce
  show ?case
  proof (cases r)
    case (Some q)
    then have "res = Some q" "m' = m1" using Suc(5) r by auto
    then show ?thesis
      using reserve_step [OF Suc(2,3) r] Suc(4) Some by auto
  next
    case None
    then have m1: "m1 = m" using r reserve_udp_None by blast
    obtain b m2 where ev: "evict_udp perm e m = (b, m2)" by fastforce
    have ok2: "udp_ok S m2" "keeps m m2"
      using evict_udp_ok [OF Suc(2), of perm e] evict_udp_keeps [of m perm e] ev by simp_all
    note fr = evict_udp_frame [OF ev]
    show ?thesis
    proof (cases b)
      case False
      then have "res = None" "m' = m2" using Suc(5) r None m1 ev by auto
      then show ?thesis using ok2 fr Suc(3,4) by simp
    next
      case True
      then have rec: "reserve_evicting perm e n k m2 = (res, m')" using Suc(5) r None m1 ev by auto
      have "\<not> ep_closed (mg_endpoint m2 e)" "map_of (ep_assemblies (mg_endpoint m2 e)) mid = None"
        using fr Suc(3,4) by auto
      from IH [OF ok2(1) this rec] show ?thesis using ok2(2) keeps_trans fr(1) by metis
    qed
  qed
qed

subsection \<open>Receiving\<close>

lemma udp_ok_put_same:
  assumes ok: "udp_ok S m" and a: "map_of (ep_assemblies (mg_endpoint m e)) mid = Some a"
    "ua_reservation b = ua_reservation a"
  shows "udp_ok S (put_assembly e mid b m)"
proof (rule udp_ok_same [OF ok])
  have m: "m_ok (ep_assemblies (mg_endpoint m e))" using ok by (rule udp_ok_m_ok)
  have del: "m_del mid (m_put mid b (ep_assemblies (mg_endpoint m e))) = m_del mid (ep_assemblies (mg_endpoint m e))"
    by (rule m_ok_ext) (use m in \<open>auto simp: fun_eq_iff\<close>)
  have "mset (m_put mid b (ep_assemblies (mg_endpoint m e)))
      = add_mset (mid, b) (mset (m_del mid (ep_assemblies (mg_endpoint m e))))"
    using mset_m_del [of "m_put mid b (ep_assemblies (mg_endpoint m e))" mid b] m del by simp
  moreover have "mset (ep_assemblies (mg_endpoint m e))
      = add_mset (mid, a) (mset (m_del mid (ep_assemblies (mg_endpoint m e))))"
    using mset_m_del [OF m a(1)] .
  ultimately have h: "held x (put_assembly e mid b m) = held x m" for x
    using a(2) by (simp add: held_eq put_assembly_def)
  show "same_view m (put_assembly e mid b m)"
    unfolding same_view_def
  proof (intro conjI allI)
    show "same_books m (put_assembly e mid b m)"
      unfolding put_assembly_def by (rule books_upd_endpoint) simp_all
  qed (use h m in \<open>auto simp: put_assembly_def\<close>)
qed

lemma udp_ok_put_new:
  assumes ok: "udp_ok S m" and a: "map_of (ep_assemblies (mg_endpoint m e)) mid = None"
    "ua_reservation b \<in> S" "rs_endpoint (mg_reservation m (ua_reservation b)) = e"
  shows "udp_ok (S - {ua_reservation b}) (put_assembly e mid b m)"
  unfolding put_assembly_def
proof (rule udp_ok_hold [OF ok a(2,3)])
  let ?m = "upd_endpoint e (\<lambda>x. x\<lparr>ep_assemblies := m_put mid b (ep_assemblies x)\<rparr>) m"
  show "same_books m ?m" by (rule books_upd_endpoint) simp_all
  show "tables ?m" using udp_ok_tables [OF ok] by (auto simp: tables_def)
  show "held e ?m = add_mset (ua_reservation b) (held e m)"
    using a(1) by (simp add: held_eq mset_m_put_new)
  show "held x ?m = held x m" if "x \<noteq> e" for x using that by (simp add: held_eq)
qed

lemma keeps_new_message: "new_message e d r m = (i, m') \<Longrightarrow> keeps m m'"
  by (rule keepsI) (auto simp: new_message_def)

lemma new_message_tables:
  assumes "udp_ok S m" "new_message e d r m = (i, m')"
  shows "tables m'" "same_books m m'" "held e m' = add_mset r (held e m)"
    "x \<noteq> e \<Longrightarrow> held x m' = held x m" "i = mg_fresh m"
proof -
  have i: "i = mg_fresh m" and m': "m' = upd_endpoint e (\<lambda>x. x\<lparr>ep_completed := ep_completed x @ [mg_fresh m]\<rparr>)
       (m\<lparr>mg_message := (mg_message m)(mg_fresh m := \<lparr>um_payload = d, um_reservation = r\<rparr>),
          mg_fresh := mg_fresh m + 1\<rparr>)"
    using assms(2) by (auto simp: new_message_def)
  show "i = mg_fresh m" by (rule i)
  note t = udp_ok_tables [OF assms(1)]
  show "tables m'" unfolding m' using t by (auto simp: tables_def less_Suc_eq)
  show "same_books m m'" unfolding m'
    by (simp add: same_books_def flow_usage_def peer_usage_def node_usage_def)
  have old: "image_mset (\<lambda>i. um_reservation (((mg_message m)(mg_fresh m := \<lparr>um_payload = d, um_reservation = r\<rparr>)) i))
      (mset (ep_completed (mg_endpoint m y)))
      = image_mset (\<lambda>i. um_reservation (mg_message m i)) (mset (ep_completed (mg_endpoint m y)))" for y
    using t by (intro image_mset_cong) (auto simp: tables_def)
  show "held e m' = add_mset r (held e m)" unfolding m' using old [of e] by (simp add: held_eq)
  show "held x m' = held x m" if "x \<noteq> e" using that unfolding m' using old [of x] by (simp add: held_eq)
qed

text \<open>The reservation of an assembly passes to the completed message.\<close>

lemma udp_ok_complete:
  assumes ok: "udp_ok S m" and a: "map_of (ep_assemblies (mg_endpoint m e)) mid = Some a"
    and nm: "new_message e d (ua_reservation a) m = (i, m1)"
  shows "udp_ok S (upd_endpoint e (\<lambda>x. x\<lparr>ep_assemblies := m_del mid (ep_assemblies x)\<rparr>) m1)"
proof -
  let ?m = "upd_endpoint e (\<lambda>x. x\<lparr>ep_assemblies := m_del mid (ep_assemblies x)\<rparr>) m1"
  note nt = new_message_tables [OF ok nm]
  have as: "ep_assemblies (mg_endpoint m1 e) = ep_assemblies (mg_endpoint m e)"
    using nm by (auto simp: new_message_def)
  have ms: "mset (ep_assemblies (mg_endpoint m e))
      = add_mset (mid, a) (mset (m_del mid (ep_assemblies (mg_endpoint m e))))"
    using mset_m_del [OF udp_ok_m_ok [OF ok] a] .
  have he: "held e ?m = held e m"
  proof -
    have "held e m1 = add_mset (ua_reservation a) (held e ?m)" by (simp add: held_eq as ms)
    then show ?thesis using nt(3) by simp
  qed
  have hx: "held x ?m = held x m" for x
    using he nt(4) [of x] by (cases "x = e") (auto simp: held_eq)
  have b: "same_books m ?m"
    using nt(2) books_upd_endpoint [of "\<lambda>x. x\<lparr>ep_assemblies := m_del mid (ep_assemblies x)\<rparr>" m1 e]
    by (simp add: same_books_def)
  have "owned S ?m" using ok hx b by (simp add: udp_ok_def owned_def unreleased_def same_books_def)
  moreover have "tables ?m" using nt(1) by (auto simp: tables_def)
  ultimately show ?thesis using udp_ok_books [OF ok b] by blast
qed

lemma conflict_udp_ok: "udp_ok S m \<Longrightarrow> udp_ok S (conflict_udp e mid m)"
  unfolding conflict_udp_def by (intro udp_ok_stats udp_ok_set_state udp_ok_remove_assembly)

lemma conflict_udp_keeps: "keeps m m' \<Longrightarrow> keeps m (conflict_udp e mid m')"
  unfolding conflict_udp_def by (intro keeps_chain)

lemma keeps_put_assembly: "keeps m m' \<Longrightarrow> keeps m (put_assembly e mid a m')"
  unfolding put_assembly_def by (erule keeps_trans) (rule keeps_upd_endpoint; simp)

lemma keeps_del_assembly:
  "keeps m m' \<Longrightarrow> keeps m (upd_endpoint e (\<lambda>x. x\<lparr>ep_assemblies := m_del mid (ep_assemblies x)\<rparr>) m')"
  by (erule keeps_trans) (rule keeps_upd_endpoint; simp)

lemma store_chunk_ok:
  assumes ok: "udp_ok S m" and a: "map_of (ep_assemblies (mg_endpoint m e)) (fr_id f) = Some a"
    and st: "store_chunk e f a m = (res, m')"
  shows "udp_ok S m' \<and> keeps m m' \<and> (\<forall>i. res = Some i \<longrightarrow> live_message i m')"
proof (cases "ua_present a ! fr_index f")
  case True
  then show ?thesis
    using st ok by (auto simp: store_chunk_def Let_def split: if_splits
        intro!: conflict_udp_ok udp_ok_stats conflict_udp_keeps)
next
  case False
  define b where "b = a\<lparr>ua_data := overlay (fr_index f * fr_stride f) (fr_data f) (ua_data a),
               ua_present := (ua_present a)[fr_index f := True], ua_received := ua_received a + 1\<rparr>"
  have br: "ua_reservation b = ua_reservation a" by (simp add: b_def)
  show ?thesis
  proof (cases "ua_received b = ua_count b")
    case True
    obtain i m1 where nm: "new_message e (ua_data b) (ua_reservation b) m = (i, m1)" by fastforce
    let ?m = "upd_endpoint e (\<lambda>x. x\<lparr>ep_assemblies := m_del (fr_id f) (ep_assemblies x)\<rparr>) m1"
    have res: "res = Some i" "m' = count_udp (\<lambda>s. s\<lparr>su_reassembled := su_reassembled s + 1\<rparr>)
        (set_state e (fr_id f) 2 ?m)"
      using st False True nm by (auto simp: store_chunk_def Let_def b_def)
    have "udp_ok S ?m" using udp_ok_complete [OF ok a nm [unfolded br]] .
    moreover have "keeps m ?m" using keeps_new_message [OF nm] by (rule keeps_del_assembly)
    moreover have "live_message i m'"
    proof -
      have r: "ua_reservation a \<in># held e m"
        using map_of_SomeD [OF a] by (force simp: held_eq)
      have "ua_reservation a \<in> {r \<in> unreleased m. rs_endpoint (mg_reservation m r) = e \<and> r \<notin> S}"
        using r ok finite_unreleased [of m] by (auto simp: udp_ok_def owned_def)
      then have "ua_reservation a < mg_fresh m" "rs_endpoint (mg_reservation m (ua_reservation a)) = e"
        using ok by (auto simp: udp_ok_def allocated_def)
      then show ?thesis
        using nm br unfolding res live_message_def by (auto simp: new_message_def Let_def)
    qed
    ultimately show ?thesis unfolding res
      by (auto intro: udp_ok_stats udp_ok_set_state keeps_chain)
  next
    case nc: False
    then have res: "res = None" "m' = put_assembly e (fr_id f) b m"
      using st False by (auto simp: store_chunk_def Let_def b_def)
    show ?thesis unfolding res
      using udp_ok_put_same [OF ok a br] keeps_put_assembly [OF keeps_refl] by simp
  qed
qed

lemma accept_chunk_ok:
  assumes ok: "udp_ok S m" and e: "\<not> ep_closed (mg_endpoint m e)"
    and ac: "accept_chunk perm e f now m = (res, m')"
  shows "udp_ok S m' \<and> keeps m m' \<and> (\<forall>i. res = Some i \<longrightarrow> live_message i m')"
proof (cases "map_of (ep_assemblies (mg_endpoint m e)) (fr_id f)")
  case (Some a)
  then show ?thesis
    using ac ok store_chunk_ok [OF ok Some, of res m']
    by (auto simp: accept_chunk_def split: if_splits intro: conflict_udp_ok conflict_udp_keeps)
next
  case None
  obtain r m1 where ev: "reserve_evicting perm e (fr_total f) 4 m = (r, m1)" by fastforce
  note E = reserve_evicting_ok [OF ok e None ev]
  show ?thesis
  proof (cases r)
    case None2: None
    then have "res = None" "m' = count_udp (\<lambda>s. s\<lparr>su_budget_rejects := su_budget_rejects s + 1\<rparr>)
        (set_state e (fr_id f) 3 m1)"
      using ac None ev by (auto simp: accept_chunk_def)
    then show ?thesis using E None2 by (auto intro: udp_ok_stats udp_ok_set_state keeps_chain)
  next
    case (Some q)
    define a where "a = open_assembly f now q"
    define m2 where "m2 = set_state e (fr_id f) 1 (put_assembly e (fr_id f) a m1)"
    have st: "store_chunk e f a m2 = (res, m')"
      using ac None ev Some by (simp add: accept_chunk_def Let_def a_def m2_def)
    have ar: "ua_reservation a = q" by (simp add: a_def open_assembly_def)
    have q: "udp_ok (insert q S) m1" "q \<notin> S" "rs_endpoint (mg_reservation m1 q) = e"
        "map_of (ep_assemblies (mg_endpoint m1 e)) (fr_id f) = None" "keeps m m1"
      using E Some by auto
    have "udp_ok (insert q S - {q}) (put_assembly e (fr_id f) a m1)"
      using udp_ok_put_new [OF q(1,4), of a] ar q(3) by simp
    then have "udp_ok S m2" using q(2) unfolding m2_def by (simp add: udp_ok_set_state)
    moreover have "keeps m m2" unfolding m2_def by (intro keeps_chain keeps_put_assembly q(5))
    moreover have "map_of (ep_assemblies (mg_endpoint m2 e)) (fr_id f) = Some a"
      by (simp add: m2_def put_assembly_def)
    ultimately show ?thesis using store_chunk_ok [OF _ _ st] keeps_trans by blast
  qed
qed

lemma expire_udp_closed [simp]:
  "ep_closed (mg_endpoint (expire_udp e now m) x) = ep_closed (mg_endpoint m x)"
proof -
  have 1: "ep_closed (mg_endpoint (fold (expire_assembly e) ids m) x) = ep_closed (mg_endpoint m x)" for ids m
    by (induction ids arbitrary: m) (simp_all add: expire_assembly_def)
  have 2: "ep_closed (mg_endpoint (fold (expire_outgoing e) ogs m) x) = ep_closed (mg_endpoint m x)" for ogs m
    by (induction ogs arbitrary: m) (simp_all add: expire_outgoing_def)
  show ?thesis by (simp add: expire_udp_def Let_def 1 2)
qed

lemma advance_udp_closed [simp]:
  "ep_closed (mg_endpoint (advance_udp e mid m) x) = ep_closed (mg_endpoint m x)"
proof -
  have 1: "ep_closed (mg_endpoint (fold (evict_low e) ids m) x) = ep_closed (mg_endpoint m x)" for ids m
    by (induction ids arbitrary: m) (simp_all add: evict_low_def)
  show ?thesis by (simp add: advance_udp_def Let_def 1)
qed

lemma receive_chunk_ok:
  assumes ok: "udp_ok S m" and rc: "receive_chunk perm e f now m = ((err, res), m')"
  shows "udp_ok S m' \<and> keeps m m' \<and> (\<forall>i. res = Some i \<longrightarrow> live_message i m')"
proof (cases "ep_closed (mg_endpoint m e)")
  case True
  then show ?thesis using rc ok by (auto simp: receive_chunk_def)
next
  case e: False
  define m1 where "m1 = count_udp (\<lambda>s. s\<lparr>su_received_chunks := su_received_chunks s + 1\<rparr>) (expire_udp e now m)"
  have m1: "udp_ok S m1" "keeps m m1" "\<not> ep_closed (mg_endpoint m1 e)"
    using e unfolding m1_def by (auto intro: udp_ok_stats expire_udp_ok ok keeps_chain expire_udp_keeps)
  define m2 where "m2 = advance_udp e (fr_id f) m1"
  have m2: "udp_ok S m2" "keeps m m2" "\<not> ep_closed (mg_endpoint m2 e)"
    using m1 keeps_trans [OF m1(2) advance_udp_keeps] unfolding m2_def by (auto intro: advance_udp_ok)
  have rc': "(if 4096 \<le> ep_high (mg_endpoint m1 e) \<and> fr_id f \<le> ep_high (mg_endpoint m1 e) - 4096
      then ((None, None), late_udp m1)
      else if 2 \<le> ep_states (mg_endpoint m2 e) ! slot_of (fr_id f) then ((None, None), late_udp m2)
      else (case accept_chunk perm e f now m2 of (msg, m) \<Rightarrow> ((None, msg), m))) = ((err, res), m')"
    using rc e unfolding receive_chunk_def Let_def m1_def m2_def by simp
  show ?thesis
  proof (cases "4096 \<le> ep_high (mg_endpoint m1 e) \<and> fr_id f \<le> ep_high (mg_endpoint m1 e) - 4096
      \<or> 2 \<le> ep_states (mg_endpoint m2 e) ! slot_of (fr_id f)")
    case True
    then have "res = None \<and> (m' = late_udp m1 \<or> m' = late_udp m2)"
      using rc' by (auto split: if_splits)
    then show ?thesis using m1 m2 by (auto simp: late_udp_def intro: udp_ok_stats keeps_chain)
  next
    case False
    then have "accept_chunk perm e f now m2 = (res, m')"
      using rc' by (auto split: if_splits prod.splits)
    then show ?thesis using accept_chunk_ok [OF m2(1,3)] keeps_trans m2(2) by blast
  qed
qed

lemma receive_frame_ok:
  assumes ok: "udp_ok S m" and rf: "receive_frame perm e packet maximum runs now m = ((err, res), m')"
  shows "udp_ok S m' \<and> keeps m m' \<and> (\<forall>i. res = Some i \<longrightarrow> live_message i m')"
proof (cases "udp_decode packet maximum")
  case None
  then show ?thesis using rf ok by (auto simp: receive_frame_def intro: udp_ok_stats)
next
  case (Some f)
  show ?thesis
  proof (cases runs)
    case True
    obtain er re m1 where rc: "receive_chunk perm e f now m = ((er, re), m1)" by (metis prod.collapse)
    then have "res = re" "m' = (if er = None then m1 else record_denied m1)"
      using rf Some True by (auto simp: receive_frame_def split: option.splits)
    then show ?thesis using receive_chunk_ok [OF ok rc]
      by (auto simp: record_denied_def intro: udp_ok_stats keeps_chain) (auto simp: live_message_def Let_def)
  next
    case False
    then show ?thesis using rf ok Some by (auto simp: receive_frame_def record_denied_def intro: udp_ok_stats)
  qed
qed

subsection \<open>Sending\<close>

lemma send_reserve_ok:
  assumes ok: "udp_ok S m" and sr: "send_reserve e d m = (res, m')"
  shows "keeps m m' \<and> (case res of Inl _ \<Rightarrow> udp_ok S m'
    | Inr r \<Rightarrow> udp_ok (insert r S) m' \<and> r \<notin> S \<and> rs_endpoint (mg_reservation m' r) = e)"
proof (cases "max_message < length d \<or> ep_closed (mg_endpoint m e)")
  case True
  then show ?thesis using sr ok by (auto simp: send_reserve_def split: if_splits)
next
  case False
  obtain r m1 where r: "reserve_udp e (length d) True m = (r, m1)" by fastforce
  have *: "(res, m') = (case r of Some q \<Rightarrow> (Inr q, m1) | None \<Rightarrow> (Inl Capacity,
      count_udp (\<lambda>s. s\<lparr>su_budget_rejects := su_budget_rejects s + 1\<rparr>) m1))"
    using sr r False by (auto simp: send_reserve_def split: option.splits)
  show ?thesis using reserve_step [OF ok _ r] False *
    by (cases r) (auto intro: udp_ok_stats keeps_chain)
qed

lemma send_enqueue_ok:
  assumes ok: "udp_ok S m" and r: "r \<in> S" "rs_endpoint (mg_reservation m r) = e"
    and se: "send_enqueue e d r now m = (err, m')"
  shows "keeps m m' \<and> udp_ok (if err = None then S - {r} else S) m'"
proof (cases "ep_closed (mg_endpoint m e) \<or> ep_next_id (mg_endpoint m e) = 0 \<or> ep_next_id (mg_endpoint m e) = - 1")
  case True
  then show ?thesis using se ok by (auto simp: send_enqueue_def Let_def split: if_splits)
next
  case False
  let ?og = "\<lparr>og_id = ep_next_id (mg_endpoint m e), og_payload = d, og_stride = 0, og_index = 0,
      og_born = now, og_retry = None, og_backoff = 0, og_reservation = r\<rparr>"
  let ?m1 = "m\<lparr>mg_outgoing := (mg_outgoing m)(mg_fresh m := ?og), mg_fresh := mg_fresh m + 1\<rparr>"
  let ?m = "upd_endpoint e (\<lambda>x. x\<lparr>ep_queue := ep_queue x @ [mg_fresh m], ep_next_id := ep_next_id x + 1\<rparr>) ?m1"
  have m': "err = None" "m' = ?m" using se False by (auto simp: send_enqueue_def Let_def)
  note t = udp_ok_tables [OF ok]
  have old: "image_mset (\<lambda>x. og_reservation (((mg_outgoing m)(mg_fresh m := ?og)) x)) (mset (ep_queue (mg_endpoint m y)))
      = image_mset (\<lambda>x. og_reservation (mg_outgoing m x)) (mset (ep_queue (mg_endpoint m y)))" for y
    using t by (intro image_mset_cong) (auto simp: tables_def)
  have "udp_ok (S - {r}) ?m"
  proof (rule udp_ok_hold [OF ok r])
    show "same_books m ?m" by (simp add: same_books_def flow_usage_def peer_usage_def node_usage_def)
    show "tables ?m" using t by (auto simp: tables_def less_Suc_eq)
    show "held e ?m = add_mset r (held e m)" using old [of e] by (simp add: held_eq)
    show "held x ?m = held x m" if "x \<noteq> e" for x using that old [of x] by (simp add: held_eq)
  qed
  moreover have "keeps m ?m" by (rule keepsI) auto
  ultimately show ?thesis using m' by simp
qed

lemma send_abort_ok: "udp_ok S m \<Longrightarrow> r \<in> S \<Longrightarrow> udp_ok (S - {r}) (send_abort r m)"
  unfolding send_abort_def record_denied_def by (intro udp_ok_release udp_ok_stats)

lemma send_abort_keeps: "keeps m (send_abort r m)"
  unfolding send_abort_def record_denied_def by (intro keeps_chain keeps_refl)

subsection \<open>Completed messages\<close>

lemma retain_received_ok:
  assumes ok: "udp_ok S m" and rr: "retain_received e d m = (res, m')"
  shows "udp_ok S m' \<and> keeps m m' \<and> (\<forall>i. res = Inr i \<longrightarrow> live_message i m')"
proof (cases "max_message < length d \<or> ep_closed (mg_endpoint m e)")
  case True
  then show ?thesis using rr ok by (auto simp: retain_received_def split: if_splits)
next
  case False
  obtain r m1 where r: "reserve_udp e (length d) False m = (r, m1)" by fastforce
  note R = reserve_step [OF ok _ r]
  show ?thesis
  proof (cases r)
    case None
    then have "res = Inl Capacity" "m' = count_udp (\<lambda>s. s\<lparr>su_budget_rejects := su_budget_rejects s + 1\<rparr>) m1"
      using rr r False by (auto simp: retain_received_def)
    then show ?thesis using R None False by (auto intro: udp_ok_stats keeps_chain)
  next
    case (Some q)
    obtain i m2 where nm: "new_message e d q m1 = (i, m2)" by fastforce
    have res: "res = Inr i" "m' = m2" using rr r False Some nm by (auto simp: retain_received_def)
    have q: "udp_ok (insert q S) m1" "q \<notin> S" "rs_endpoint (mg_reservation m1 q) = e" "keeps m m1"
      using R Some False by auto
    note nt = new_message_tables [OF q(1) nm]
    have "udp_ok (insert q S - {q}) m2" using udp_ok_hold [OF q(1) _ q(3) nt(2,1,3,4)] by simp
    moreover have "keeps m m2" using keeps_trans [OF q(4) keeps_new_message [OF nm]] .
    moreover have "live_message i m2"
    proof -
      have "q \<in> unreleased m1" using q(1) by (auto simp: udp_ok_def owned_def)
      then have "q < mg_fresh m1" using q(1) by (auto simp: udp_ok_def allocated_def)
      then show ?thesis using nm q(3) by (auto simp: live_message_def Let_def new_message_def)
    qed
    ultimately show ?thesis using res q(2) by simp
  qed
qed

lemma filter_neq_absent: "i \<notin> set xs \<Longrightarrow> filter (\<lambda>j. j \<noteq> i) xs = xs"
  by (induction xs) auto

lemma filter_neq_mset: "distinct xs \<Longrightarrow> i \<in> set xs \<Longrightarrow> mset xs = add_mset i (mset (filter (\<lambda>j. j \<noteq> i) xs))"
  by (induction xs) (auto simp: filter_neq_absent simp del: mset_filter)

lemma udp_ok_distinct_completed: "udp_ok S m \<Longrightarrow> distinct (ep_completed (mg_endpoint m e))"
  using udp_ok_distinct(2) [of S m e] by (simp add: held_reservations_def Let_def distinct_map)

lemma release_message_ok:
  assumes ok: "udp_ok S m" and live: "live_message i m"
  shows "udp_ok S (release_message i m)" "keeps m (release_message i m)"
proof -
  define r where "r = um_reservation (mg_message m i)"
  define e where "e = rs_endpoint (mg_reservation m r)"
  let ?m = "upd_endpoint e (\<lambda>x. x\<lparr>ep_completed := filter (\<lambda>j. j \<noteq> i) (ep_completed x)\<rparr>) m"
  have rm: "release_message i m = release_udp r ?m" by (simp add: release_message_def Let_def r_def e_def)
  have b: "same_books m ?m" by (rule books_upd_endpoint) simp_all
  have t: "tables ?m" using udp_ok_tables [OF ok] by (auto simp: tables_def)
  have hx: "held x ?m = held x m" if "x \<noteq> e" for x using that by (simp add: held_eq)
  show "udp_ok S (release_message i m)"
  proof (cases "i \<in> set (ep_completed (mg_endpoint m e))")
    case True
    note ms = filter_neq_mset [OF udp_ok_distinct_completed [OF ok] True]
    have he: "held e m = add_mset r (held e ?m)"
      unfolding held_eq by (subst ms) (simp add: r_def del: mset_filter)
    show ?thesis unfolding rm
      by (rule udp_ok_drop [OF ok _ b t _ hx]) (simp_all add: he)
  next
    case False
    then have rel: "rs_released (mg_reservation m r)"
      using live by (auto simp: live_message_def Let_def r_def e_def)
    have "filter (\<lambda>j. j \<noteq> i) (ep_completed (mg_endpoint m e)) = ep_completed (mg_endpoint m e)"
      using False by (rule filter_neq_absent)
    then have "same_view m ?m" by (intro view_upd_endpoint) simp_all
    then show ?thesis unfolding rm using rel udp_ok_same [OF ok] by (simp add: release_udp_released)
  qed
  show "keeps m (release_message i m)"
    unfolding rm
  proof (rule keepsI)
    fix x j assume "j \<in> set (ep_completed (mg_endpoint m x))"
    then show "j \<in> set (ep_completed (mg_endpoint (release_udp r ?m) x))
        \<or> rs_released (mg_reservation (release_udp r ?m) (um_reservation (mg_message m j)))"
      by (cases "j = i") (auto simp: release_reservation r_def)
  qed (auto simp: release_reservation)
qed

subsection \<open>Opening, attaching and closing\<close>

lemma attach_udp_ok: "udp_ok S m \<Longrightarrow> udp_ok S (snd (attach_udp e mx local has m)) \<and> keeps m (snd (attach_udp e mx local has m))"
proof -
  assume ok: "udp_ok S m"
  let ?m = "upd_endpoint e (\<lambda>x. x\<lparr>ep_maximum := mx, ep_receive_maximum := mx, ep_local := local, ep_attached := True\<rparr>) m"
  have "udp_ok S ?m" using ok by (rule udp_ok_same) (rule view_upd_endpoint, simp_all)
  moreover have "keeps m ?m" by (rule keeps_upd_endpoint) auto
  ultimately show ?thesis using ok by (auto simp: attach_udp_def Let_def intro: udp_ok_stats keeps_chain)
qed

lemma udp_ok_peer:
  "udp_ok S m \<Longrightarrow> pe_rx (f (mg_peer m p)) = pe_rx (mg_peer m p) \<Longrightarrow> pe_tx (f (mg_peer m p)) = pe_tx (mg_peer m p) \<Longrightarrow>
     udp_ok S (upd_peer p f m)"
  by (erule udp_ok_same) (rule view_upd_peer)

lemma reserve_socket_ok:
  "udp_ok S m \<Longrightarrow> udp_ok S (snd (reserve_socket e n m)) \<and> keeps m (snd (reserve_socket e n m))"
proof -
  assume ok: "udp_ok S m"
  let ?m = "upd_endpoint e (\<lambda>x. x\<lparr>ep_socket := n\<rparr>) m"
  have "udp_ok S ?m" using ok by (rule udp_ok_same) (rule view_upd_endpoint, simp_all)
  moreover have "keeps m ?m" by (rule keeps_upd_endpoint) auto
  ultimately show ?thesis using ok
    by (auto simp: reserve_socket_def Let_def intro!: udp_ok_stats keeps_chain udp_ok_peer)
qed

lemma deliver_udp_ok:
  "udp_ok S m \<Longrightarrow> udp_ok S (snd (deliver_udp e runs action m)) \<and> keeps m (snd (deliver_udp e runs action m))"
  by (auto simp: deliver_udp_def with_guard_def record_denied_def Let_def intro: udp_ok_stats keeps_chain)

lemma close_begin_ok: "udp_ok S m \<Longrightarrow> udp_ok S (close_begin e m) \<and> keeps m (close_begin e m)"
  unfolding close_begin_def
  by (auto elim!: udp_ok_same intro!: view_upd_endpoint keeps_upd_endpoint)

definition clear_tables :: "endpoint \<Rightarrow> endpoint" where
  "clear_tables x = x\<lparr>ep_queue := [], ep_assemblies := [], ep_completed := []\<rparr>"

lemma release_clear:
  "release_udp r (upd_endpoint e clear_tables m) = upd_endpoint e clear_tables (release_udp r m)"
  by (cases m) (auto simp: release_udp_def Let_def upd_usage_def upd_endpoint_def upd_peer_def clear_tables_def
      fun_upd_twist)

lemma fold_release_clear:
  "fold release_udp rs (upd_endpoint e clear_tables m) = upd_endpoint e clear_tables (fold release_udp rs m)"
  by (induction rs arbitrary: m) (simp_all add: release_clear)

lemma udp_ok_release_all:
  "udp_ok (S \<union> set rs) m \<Longrightarrow> distinct rs \<Longrightarrow> S \<inter> set rs = {} \<Longrightarrow> udp_ok S (fold release_udp rs m)"
proof (induction rs arbitrary: m)
  case (Cons r rs)
  have "udp_ok (S \<union> set (r # rs) - {r}) (release_udp r m)"
    using Cons.prems(1) by (rule udp_ok_release) simp
  moreover have "S \<union> set (r # rs) - {r} = S \<union> set rs" using Cons.prems(2,3) by auto
  ultimately show ?case using Cons.IH Cons.prems(2,3) by simp
qed simp

lemma udp_ok_clear:
  assumes ok: "udp_ok S m"
  shows "udp_ok S (fold release_udp (held_reservations e m) (upd_endpoint e clear_tables m))"
proof -
  let ?h = "set (held_reservations e m)" and ?m = "upd_endpoint e clear_tables m"
  have ow: "owned S m" and al: "allocated m" using ok by (simp_all add: udp_ok_def)
  have he: "held x m = mset_set {r \<in> unreleased m. rs_endpoint (mg_reservation m r) = x \<and> r \<notin> S}" for x
    using ow by (simp add: owned_def)
  have "set_mset (held e m) = {r \<in> unreleased m. rs_endpoint (mg_reservation m r) = e \<and> r \<notin> S}"
    unfolding he using finite_unreleased [OF al] by simp
  then have h: "?h = {r \<in> unreleased m. rs_endpoint (mg_reservation m r) = e \<and> r \<notin> S}"
    by (simp add: held_def)
  have b: "same_books m ?m" by (rule books_upd_endpoint) (simp_all add: clear_tables_def)
  have un: "unreleased ?m = unreleased m" by (simp add: unreleased_def)
  have "owned (S \<union> ?h) ?m"
    unfolding owned_def un
  proof (intro conjI allI)
    show "S \<union> ?h \<subseteq> unreleased m" using ow h by (auto simp: owned_def)
    fix x
    show "held x ?m = mset_set {r \<in> unreleased m. rs_endpoint (mg_reservation ?m r) = x \<and> r \<notin> S \<union> ?h}"
    proof (cases "x = e")
      case True
      have none: "{r \<in> unreleased m. rs_endpoint (mg_reservation ?m r) = e \<and> r \<notin> S \<union> ?h} = {}" using h by auto
      have "held e ?m = {#}" by (simp add: held_eq clear_tables_def)
      then show ?thesis unfolding True none by simp
    next
      case False
      then have "{r \<in> unreleased m. rs_endpoint (mg_reservation ?m r) = x \<and> r \<notin> S \<union> ?h}
          = {r \<in> unreleased m. rs_endpoint (mg_reservation m r) = x \<and> r \<notin> S}"
        using h by auto
      moreover have "held x ?m = held x m" using False by (simp add: held_eq)
      ultimately show ?thesis using he by simp
    qed
  qed
  moreover have "tables ?m" using udp_ok_tables [OF ok] by (auto simp: tables_def clear_tables_def)
  ultimately have "udp_ok (S \<union> ?h) ?m" using udp_ok_books [OF ok b] by blast
  then show ?thesis using udp_ok_distinct(2) [OF ok] h by (intro udp_ok_release_all) auto
qed

lemma remove_flow_ok: "udp_ok S m \<Longrightarrow> udp_ok S (remove_flow e m)"
proof -
  assume ok: "udp_ok S m"
  define p where "p = ep_peer (mg_endpoint m e)"
  define s where "s = ep_socket (mg_endpoint m e)"
  define m1 where "m1 = upd_peer p (\<lambda>x. x\<lparr>pe_flows := remove1 e (pe_flows x)\<rparr>) m"
  define m2 where "m2 = count_udp (\<lambda>st. st\<lparr>su_flows := su_flows st - 1,
      su_socket_bytes := su_socket_bytes st - s\<rparr>) m1"
  define m3 where "m3 = upd_peer p (\<lambda>x. x\<lparr>pe_socket := pe_socket x - s\<rparr>) m2"
  define m4 where "m4 = upd_endpoint e (\<lambda>x. x\<lparr>ep_socket := 0\<rparr>) m3"
  have "udp_ok S m3" unfolding m3_def m2_def m1_def using ok by (auto intro!: udp_ok_peer udp_ok_stats)
  then have m4: "udp_ok S m4" unfolding m4_def by (rule udp_ok_same) (rule view_upd_endpoint, simp_all)
  have "same_view m4 (m4\<lparr>mg_peers := x, mg_order := y\<rparr>)" for x y
    by (simp add: same_view_def same_books_def flow_usage_def peer_usage_def node_usage_def held_eq)
  then have "udp_ok S (m4\<lparr>mg_peers := x, mg_order := y\<rparr>)" for x y using m4 udp_ok_same by blast
  then show ?thesis
    using m4 unfolding remove_flow_def Let_def p_def [symmetric] s_def [symmetric] m1_def [symmetric]
      m2_def [symmetric] m3_def [symmetric] m4_def [symmetric] by simp
qed

lemma close_finish_ok: "udp_ok S m \<Longrightarrow> udp_ok S (close_finish e m)"
proof -
  assume ok: "udp_ok S m"
  let ?c = "\<lambda>m. count_udp (\<lambda>s. s\<lparr>su_canceled := su_canceled s + word_of_nat (length (ep_queue (mg_endpoint m e))
      + length (ep_assemblies (mg_endpoint m e)) + length (ep_completed (mg_endpoint m e)))\<rparr>) m"
  have hc: "held_reservations e (?c m) = held_reservations e m" by (simp add: held_reservations_def)
  have "udp_ok S (?c m)" using ok by (rule udp_ok_stats)
  from udp_ok_clear [OF this, of e]
  have "udp_ok S (upd_endpoint e clear_tables (fold release_udp (held_reservations e m) (?c m)))"
    unfolding hc fold_release_clear .
  then show ?thesis unfolding close_finish_def Let_def clear_tables_def by (rule remove_flow_ok)
qed

end
