(* ===== verification/Udp_Flows.thy ===== *)
theory Udp_Flows
  imports Udp_Steps
begin

section \<open>UDP messages: flows and the scheduler keep the books\<close>

text \<open>
  Opening a flow, the two halves of closing one, and the sections of a scheduler step, each with
  the invariant of \<open>Udp_Account\<close>; then \<open>retired\<close>, what \<open>Close\<close> leaves of a flow, which
  no later operation undoes.
\<close>

subsection \<open>Opening\<close>

lemma charged_cong:
  assumes "allocated m" "mg_reservation m' = mg_reservation m" "mg_fresh m \<le> mg_fresh m'"
    "\<And>r. r \<in> unreleased m \<Longrightarrow> P' (mg_reservation m r) = P (mg_reservation m r)"
  shows "charged w P' m' = charged w P m"
proof -
  have "charged w P' m' = (\<Sum>r<mg_fresh m'. if \<not> rs_released (mg_reservation m r) \<and> P (mg_reservation m r)
      then w (mg_reservation m r) else 0)"
    unfolding charged_def assms(2) using assms(4) by (intro sum.cong) (auto simp: unreleased_def)
  also have "\<dots> = charged w P m"
    unfolding charged_def using assms(1,3)
    by (intro sum.mono_neutral_right) (auto simp: allocated_def unreleased_def)
  finally show ?thesis .
qed

lemma charged_none: "(\<And>r. r \<in> unreleased m \<Longrightarrow> \<not> P (mg_reservation m r)) \<Longrightarrow> charged w P m = 0"
  unfolding charged_def by (rule sum.neutral) (auto simp: unreleased_def)

lemma sums_to_none:
  "sums_to u P m \<Longrightarrow> (\<And>r. r \<in> unreleased m \<Longrightarrow> \<not> P (mg_reservation m r)) \<Longrightarrow> u = no_usage"
  by (cases u) (simp add: sums_to_def charged_none no_usage_def)

text \<open>A flow opened at a fresh number for a known peer.\<close>

definition place_flow :: "nat \<Rightarrow> manager \<Rightarrow> manager" where
  "place_flow p m = m\<lparr>mg_endpoint := (mg_endpoint m)(mg_fresh m := new_endpoint p), mg_fresh := mg_fresh m + 1\<rparr>"

lemma no_reservation_fresh:
  assumes "allocated m" "r \<in> unreleased m"
  shows "rs_endpoint (mg_reservation m r) \<noteq> mg_fresh m"
    "ep_peer (mg_endpoint m (rs_endpoint (mg_reservation m r))) \<noteq> mg_fresh m"
  using assms by (force simp: allocated_def)+

lemma place_flow_usage:
  assumes "udp_ok S m"
  shows "flow_usage tx e (place_flow p m) = flow_usage tx e m"
    "peer_usage tx q (place_flow p m) = peer_usage tx q m"
    "node_usage tx (place_flow p m) = node_usage tx m"
proof -
  have al: "allocated m" and ac: "accounted m" using assms by (simp_all add: udp_ok_def)
  have "flow_usage tx (mg_fresh m) m = no_usage"
    using ac no_reservation_fresh(1) [OF al] by (intro sums_to_none [of _ "in_flow tx (mg_fresh m)" m])
      (auto simp: accounted_def)
  then show "flow_usage tx e (place_flow p m) = flow_usage tx e m"
    by (cases tx) (auto simp: flow_usage_def place_flow_def new_endpoint_def)
qed (simp_all add: peer_usage_def node_usage_def place_flow_def)

lemma place_flow_simps [simp]:
  "mg_reservation (place_flow p m) = mg_reservation m" "mg_fresh (place_flow p m) = mg_fresh m + 1"
  "mg_endpoint (place_flow p m) = (mg_endpoint m)(mg_fresh m := new_endpoint p)"
  "mg_outgoing (place_flow p m) = mg_outgoing m" "mg_message (place_flow p m) = mg_message m"
  "mg_peers (place_flow p m) = mg_peers m" "unreleased (place_flow p m) = unreleased m"
  by (simp_all add: place_flow_def unreleased_def)

lemma place_flow_ok:
  assumes ok: "udp_ok S m" and p: "p < mg_fresh m"
  shows "udp_ok S (place_flow p m)"
proof -
  let ?m = "place_flow p m"
  have al: "allocated m" and ac: "accounted m" and bu: "budgets m" and ow: "owned S m"
    using ok by (simp_all add: udp_ok_def)
  note us = place_flow_usage [OF ok]
  note nf = no_reservation_fresh [OF al]
  have ip: "in_peer ?m tx q (mg_reservation m r) = in_peer m tx q (mg_reservation m r)"
    if "r \<in> unreleased m" for tx q r
    using nf that by (simp add: in_peer_def)
  have ch: "charged w P' ?m = charged w P m"
    if "\<And>r. r \<in> unreleased m \<Longrightarrow> P' (mg_reservation m r) = P (mg_reservation m r)" for w P P'
    using that by (intro charged_cong [OF al]) simp_all
  have "sums_to (flow_usage tx e ?m) (in_flow tx e) ?m" for tx e
    using ac ch [of "in_flow tx e" "in_flow tx e"] by (simp add: accounted_def sums_to_def us)
  moreover have "sums_to (peer_usage tx q ?m) (in_peer ?m tx q) ?m" for tx q
    using ac ch [of "in_peer ?m tx q" "in_peer m tx q", OF ip] by (simp add: accounted_def sums_to_def us)
  moreover have "sums_to (node_usage tx ?m) (\<lambda>rs. rs_tx rs = tx) ?m" for tx
    using ac ch [of "\<lambda>rs. rs_tx rs = tx" "\<lambda>rs. rs_tx rs = tx"] by (simp add: accounted_def sums_to_def us)
  ultimately have "accounted ?m" by (simp add: accounted_def)
  moreover have "budgets ?m" using bu by (simp add: budgets_def us)
  moreover have "owned S ?m"
    unfolding owned_def
  proof (intro conjI allI)
    show "S \<subseteq> unreleased ?m" using ow by (simp add: owned_def)
    fix x
    show "held x ?m = mset_set {r \<in> unreleased ?m. rs_endpoint (mg_reservation ?m r) = x \<and> r \<notin> S}"
    proof (cases "x = mg_fresh m")
      case True
      have none: "{r \<in> unreleased ?m. rs_endpoint (mg_reservation ?m r) = x \<and> r \<notin> S} = {}"
        using nf True by auto
      show ?thesis unfolding none by (simp add: held_eq True new_endpoint_def)
    next
      case False
      then have "held x ?m = held x m" by (simp add: held_eq)
      then show ?thesis using ow by (simp add: owned_def)
    qed
  qed
  moreover have "allocated ?m"
    using al p unfolding allocated_def by (auto simp: new_endpoint_def less_Suc_eq dest: nf)
  ultimately show ?thesis by (simp add: udp_ok_def)
qed

lemma keeps_place_flow: "udp_ok S m \<Longrightarrow> keeps m (place_flow p m)"
proof (rule keepsI)
  assume ok: "udp_ok S m"
  have al: "allocated m" using ok by (simp add: udp_ok_def)
  have none: "{r \<in> unreleased m. rs_endpoint (mg_reservation m r) = mg_fresh m \<and> r \<notin> S} = {}"
    using no_reservation_fresh(1) [OF al] by blast
  have "held (mg_fresh m) m = mset_set {r \<in> unreleased m. rs_endpoint (mg_reservation m r) = mg_fresh m \<and> r \<notin> S}"
    using ok by (simp add: udp_ok_def owned_def)
  then have "held (mg_fresh m) m = {#}" unfolding none by simp
  then have e: "ep_queue (mg_endpoint m (mg_fresh m)) = []" "ep_completed (mg_endpoint m (mg_fresh m)) = []"
    by (auto simp: held_eq)
  show "og \<in> set (ep_queue (mg_endpoint (place_flow p m) e))
      \<or> rs_released (mg_reservation (place_flow p m) (og_reservation (mg_outgoing m og)))"
    if "og \<in> set (ep_queue (mg_endpoint m e))" for e og
    using that e by (cases "e = mg_fresh m") auto
  show "i \<in> set (ep_completed (mg_endpoint (place_flow p m) e))
      \<or> rs_released (mg_reservation (place_flow p m) (um_reservation (mg_message m i)))"
    if "i \<in> set (ep_completed (mg_endpoint m e))" for e i
    using that e by (cases "e = mg_fresh m") auto
qed simp_all

text \<open>A peer entered at a fresh number.\<close>

definition place_peer :: "device \<Rightarrow> manager \<Rightarrow> manager" where
  "place_peer d m = m\<lparr>mg_peer := (mg_peer m)(mg_fresh m := \<lparr>pe_device = d, pe_flows = [],
       pe_next = 0, pe_rx = no_usage, pe_tx = no_usage, pe_socket = 0\<rparr>),
     mg_peers := m_put d (mg_fresh m) (mg_peers m),
     mg_order := mg_order m @ [mg_fresh m], mg_fresh := mg_fresh m + 1\<rparr>"

lemma place_peer_ok:
  assumes ok: "udp_ok S m"
  shows "udp_ok S (place_peer d m)"
proof (rule udp_ok_same [OF ok])
  let ?m = "place_peer d m"
  have al: "allocated m" and ac: "accounted m" using ok by (simp_all add: udp_ok_def)
  have none: "peer_usage tx (mg_fresh m) m = no_usage" for tx
    using ac no_reservation_fresh(2) [OF al]
    by (intro sums_to_none [of _ "in_peer m tx (mg_fresh m)" m]) (auto simp: accounted_def in_peer_def)
  have "peer_usage tx p ?m = peer_usage tx p m" for tx p
    using none [of tx] by (cases tx) (auto simp: peer_usage_def place_peer_def)
  then show "same_view m ?m"
    by (simp add: same_view_def same_books_def held_eq flow_usage_def node_usage_def)
      (simp add: place_peer_def)
qed

lemma keeps_place_peer: "keeps m (place_peer d m)"
proof (rule keepsI_peers)
  show "peers_known (place_peer d m)" if "peers_known m"
    using that set_m_put [of d "mg_fresh m" "mg_peers m"]
    by (force simp: place_peer_def peers_known_def)
qed (simp_all add: place_peer_def)

lemma open_udp_ok:
  assumes ok: "udp_ok S m" "peers_known m" and op: "open_udp d g m = (res, m')"
  shows "udp_ok S m' \<and> keeps m m'"
proof (cases res)
  case (Inl err)
  then have "m' = m" using op by (auto simp: open_udp_def Let_def split: if_splits prod.splits option.splits)
  then show ?thesis using ok by simp
next
  case (Inr e)
  define q where "q = (case map_of (mg_peers m) d of Some p \<Rightarrow> (p, m) | None \<Rightarrow> (mg_fresh m, place_peer d m))"
  obtain p m1 where q': "q = (p, m1)" by fastforce
  define m2 where "m2 = upd_peer p (\<lambda>x. x\<lparr>pe_flows := pe_flows x @ [mg_fresh m1]\<rparr>) (place_flow p m1)"
  have m': "m' = count_udp (\<lambda>s. s\<lparr>su_flows := su_flows s + 1,
              su_flow_high_water := max (su_flow_high_water s) (su_flows s + 1)\<rparr>) m2"
    using op q' unfolding Inr open_udp_def Let_def m2_def q_def
    by (auto simp: place_flow_def place_peer_def split: if_splits option.splits)
  have m1: "udp_ok S m1" "keeps m m1" "p < mg_fresh m1"
  proof -
    show "udp_ok S m1" "keeps m m1"
      using q' place_peer_ok [OF ok(1)] ok keeps_place_peer by (auto simp: q_def split: option.splits)
    show "p < mg_fresh m1"
      using q' ok(2) by (auto simp: q_def peers_known_def place_peer_def split: option.splits dest!: map_of_SomeD)
  qed
  have "udp_ok S m2" unfolding m2_def using place_flow_ok [OF m1(1,3)] by (rule udp_ok_peer) simp_all
  moreover have "keeps m m2" unfolding m2_def
    using keeps_trans [OF m1(2) keeps_place_flow [OF m1(1)]] by (rule keeps_chain)
  ultimately show ?thesis unfolding m' by (auto intro: udp_ok_stats keeps_chain)
qed

subsection \<open>Closing\<close>

lemma fold_release_frame [simp]:
  "mg_outgoing (fold release_udp rs m) = mg_outgoing m" "mg_message (fold release_udp rs m) = mg_message m"
  "mg_fresh (fold release_udp rs m) = mg_fresh m" "mg_peers (fold release_udp rs m) = mg_peers m"
  "ep_queue (mg_endpoint (fold release_udp rs m) e) = ep_queue (mg_endpoint m e)"
  "ep_assemblies (mg_endpoint (fold release_udp rs m) e) = ep_assemblies (mg_endpoint m e)"
  "ep_completed (mg_endpoint (fold release_udp rs m) e) = ep_completed (mg_endpoint m e)"
  "ep_closed (mg_endpoint (fold release_udp rs m) e) = ep_closed (mg_endpoint m e)"
  "ep_peer (mg_endpoint (fold release_udp rs m) e) = ep_peer (mg_endpoint m e)"
  by (induction rs arbitrary: m) simp_all

lemma fold_release_reservation:
  "rs_endpoint (mg_reservation (fold release_udp rs m) r) = rs_endpoint (mg_reservation m r)"
  "rs_released (mg_reservation (fold release_udp rs m) r) \<longleftrightarrow> r \<in> set rs \<or> rs_released (mg_reservation m r)"
  by (induction rs arbitrary: m) (auto simp: release_reservation)

lemma remove_flow_frame [simp]:
  "mg_outgoing (remove_flow e m) = mg_outgoing m" "mg_message (remove_flow e m) = mg_message m"
  "mg_fresh (remove_flow e m) = mg_fresh m" "mg_reservation (remove_flow e m) = mg_reservation m"
  "ep_queue (mg_endpoint (remove_flow e m) x) = ep_queue (mg_endpoint m x)"
  "ep_assemblies (mg_endpoint (remove_flow e m) x) = ep_assemblies (mg_endpoint m x)"
  "ep_completed (mg_endpoint (remove_flow e m) x) = ep_completed (mg_endpoint m x)"
  "ep_closed (mg_endpoint (remove_flow e m) x) = ep_closed (mg_endpoint m x)"
  by (simp_all add: remove_flow_def Let_def)

lemma remove_flow_peers: "set (mg_peers (remove_flow e m)) \<subseteq> set (mg_peers m)"
  by (auto simp: remove_flow_def Let_def m_del_def)

lemma close_finish_keeps: "keeps m (close_finish e m)"
proof (rule keepsI)
  let ?m = "close_finish e m"
  show "set (mg_peers ?m) \<subseteq> set (mg_peers m)"
    unfolding close_finish_def Let_def by (rule order_trans [OF remove_flow_peers]) simp
  show "og \<in> set (ep_queue (mg_endpoint ?m x)) \<or> rs_released (mg_reservation ?m (og_reservation (mg_outgoing m og)))"
    if "og \<in> set (ep_queue (mg_endpoint m x))" for x og
    using that by (cases "x = e") (auto simp: close_finish_def Let_def fold_release_reservation held_reservations_def)
  show "i \<in> set (ep_completed (mg_endpoint ?m x)) \<or> rs_released (mg_reservation ?m (um_reservation (mg_message m i)))"
    if "i \<in> set (ep_completed (mg_endpoint m x))" for x i
    using that by (cases "x = e") (auto simp: close_finish_def Let_def fold_release_reservation held_reservations_def)
qed (auto simp: close_finish_def Let_def fold_release_reservation)

lemma manager_close_ok: "udp_ok S m \<Longrightarrow> udp_ok S (snd (manager_close m)) \<and> keeps m (snd (manager_close m))"
proof -
  assume ok: "udp_ok S m"
  have "same_view m (m\<lparr>mg_closed := True\<rparr>)"
    by (simp add: same_view_def same_books_def flow_usage_def peer_usage_def node_usage_def held_eq)
  moreover have "keeps m (m\<lparr>mg_closed := True\<rparr>)" by (rule keepsI) auto
  ultimately show ?thesis using ok udp_ok_same by (auto simp: manager_close_def)
qed

subsection \<open>The scheduler\<close>

lemma udp_ok_outgoing:
  "udp_ok S m \<Longrightarrow> og_reservation (f (mg_outgoing m og)) = og_reservation (mg_outgoing m og) \<Longrightarrow>
     udp_ok S (upd_outgoing og f m)"
  by (erule udp_ok_same) (rule view_upd_outgoing)

lemma held_unreleased:
  assumes "udp_ok S m" "r \<in># held e m"
  shows "r \<in> unreleased m" "rs_endpoint (mg_reservation m r) = e" "r \<notin> S" "r < mg_fresh m"
proof -
  have al: "allocated m" using assms(1) by (simp add: udp_ok_def)
  have "r \<in># mset_set {r \<in> unreleased m. rs_endpoint (mg_reservation m r) = e \<and> r \<notin> S}"
    using assms by (simp add: udp_ok_def owned_def)
  then show r: "r \<in> unreleased m" "rs_endpoint (mg_reservation m r) = e" "r \<notin> S"
    using finite_unreleased [OF al] by simp_all
  then show "r < mg_fresh m" using al by (simp add: allocated_def)
qed

lemma queued_live: "udp_ok S m \<Longrightarrow> og \<in> set (ep_queue (mg_endpoint m e)) \<Longrightarrow> live_out e og m"
proof -
  assume ok: "udp_ok S m" and og: "og \<in> set (ep_queue (mg_endpoint m e))"
  have "og_reservation (mg_outgoing m og) \<in># held e m" using og by (auto simp: held_eq)
  then have "og_reservation (mg_outgoing m og) < mg_fresh m" using held_unreleased(4) [OF ok] by blast
  then show ?thesis using og udp_ok_tables [OF ok] by (auto simp: live_out_def tables_def)
qed

lemma pick_flow_ok:
  assumes ok: "udp_ok S m" and pf: "pick_flow e now m = (res, m')"
  shows "udp_ok S m' \<and> keeps m m' \<and> (\<forall>og. res = Some og \<longrightarrow> live_out e og m')"
proof -
  define m1 where "m1 = expire_udp e now m"
  have m1: "udp_ok S m1" "keeps m m1" using expire_udp_ok [OF ok] expire_udp_keeps by (simp_all add: m1_def)
  show ?thesis
  proof (cases res)
    case None
    then have "m' = m1" using pf by (auto simp: pick_flow_def Let_def m1_def split: if_splits option.splits)
    then show ?thesis using m1 None by simp
  next
    case (Some og)
    let ?f = "\<lambda>x. x\<lparr>ep_queue := remove1 og (ep_queue x) @ [og]\<rparr>"
    have "find (due now m1) (ep_queue (mg_endpoint m1 e)) = Some og" and m': "m' = upd_endpoint e ?f m1"
      using pf Some by (auto simp: pick_flow_def Let_def m1_def split: if_splits option.splits)
    then have og: "og \<in> set (ep_queue (mg_endpoint m1 e))"
      unfolding find_Some_iff by auto
    have "udp_ok S m'" unfolding m' using m1(1)
      by (rule udp_ok_same) (rule view_upd_endpoint, use og in simp_all)
    moreover have "set (ep_queue (mg_endpoint m1 e)) \<subseteq> set (ep_queue (?f (mg_endpoint m1 e)))"
    proof
      fix x assume "x \<in> set (ep_queue (mg_endpoint m1 e))"
      then show "x \<in> set (ep_queue (?f (mg_endpoint m1 e)))" by (cases "x = og") auto
    qed
    then have "keeps m1 m'" unfolding m' by (rule keeps_upd_endpoint) simp_all
    moreover have "og \<in> set (ep_queue (mg_endpoint m' e))" by (simp add: m')
    ultimately show ?thesis using Some keeps_trans [OF m1(2)] queued_live by blast
  qed
qed

lemma pick_flows_ok:
  "udp_ok S m \<Longrightarrow> pick_flows p n now m = (res, m') \<Longrightarrow>
     udp_ok S m' \<and> keeps m m' \<and> (\<forall>e og. res = Some (e, og) \<longrightarrow> live_out e og m')"
proof (induction n arbitrary: m)
  case (Suc n)
  define i where "i = pe_next (mg_peer m p) mod length (pe_flows (mg_peer m p))"
  define e where "e = pe_flows (mg_peer m p) ! i"
  define m1 where "m1 = upd_peer p (\<lambda>x. x\<lparr>pe_next := Suc i\<rparr>) m"
  have m1: "udp_ok S m1" "keeps m m1" unfolding m1_def using Suc.prems(1) by (auto intro: udp_ok_peer)
  obtain r m2 where pf: "pick_flow e now m1 = (r, m2)" by fastforce
  note P = pick_flow_ok [OF m1(1) pf]
  show ?case
  proof (cases r)
    case None
    then have "pick_flows p n now m2 = (res, m')"
      using Suc.prems(2) pf by (simp add: Let_def i_def [symmetric] e_def [symmetric] m1_def [symmetric])
    from Suc.IH [OF _ this] P show ?thesis using keeps_trans m1(2) by blast
  next
    case (Some og)
    then have "res = Some (e, og)" "m' = m2"
      using Suc.prems(2) pf by (simp_all add: Let_def i_def [symmetric] e_def [symmetric] m1_def [symmetric])
    then show ?thesis using P Some keeps_trans m1(2) by blast
  qed
qed simp

lemma pick_peers_ok:
  "udp_ok S m \<Longrightarrow> pick_peers n now m = (res, m') \<Longrightarrow>
     udp_ok S m' \<and> keeps m m' \<and> (\<forall>e og. res = Some (e, og) \<longrightarrow> live_out e og m')"
proof (induction n arbitrary: m)
  case (Suc n)
  define i where "i = mg_next m mod length (mg_order m)"
  define p where "p = mg_order m ! i"
  define m1 where "m1 = m\<lparr>mg_next := Suc i\<rparr>"
  have "same_view m m1"
    by (simp add: m1_def same_view_def same_books_def flow_usage_def peer_usage_def node_usage_def held_eq)
  then have m1: "udp_ok S m1" "keeps m m1"
    using udp_ok_same [OF Suc.prems(1)] by (auto simp: m1_def intro: keepsI)
  obtain r m2 where pf: "pick_flows p (length (pe_flows (mg_peer m p))) now m1 = (r, m2)" by fastforce
  note P = pick_flows_ok [OF m1(1) pf]
  show ?case
  proof (cases r)
    case None
    then have "pick_peers n now m2 = (res, m')"
      using Suc.prems(2) pf by (simp add: Let_def i_def [symmetric] p_def [symmetric] m1_def [symmetric])
    from Suc.IH [OF _ this] P show ?thesis using keeps_trans m1(2) by blast
  next
    case (Some q)
    then have "res = Some q" "m' = m2"
      using Suc.prems(2) pf by (simp_all add: Let_def i_def [symmetric] p_def [symmetric] m1_def [symmetric])
    then show ?thesis using P Some keeps_trans m1(2) by blast
  qed
qed simp

lemma step_prepare_ok:
  "udp_ok S m \<Longrightarrow> step_prepare e og m = (res, m') \<Longrightarrow> udp_ok S m' \<and> keeps m m'"
  by (auto simp: step_prepare_def Let_def split: if_splits intro!: udp_ok_outgoing keeps_outgoing)

lemma remove_outgoing_ok:
  "udp_ok S m \<Longrightarrow> og \<in> set (ep_queue (mg_endpoint m e)) \<Longrightarrow> udp_ok S (remove_outgoing e og m)"
  unfolding remove_outgoing_def by (rule udp_ok_drop_outgoing)

lemma keeps_remove_outgoing: "keeps m m' \<Longrightarrow> keeps m (remove_outgoing e og m')"
  unfolding remove_outgoing_def by (erule keeps_trans) (rule keeps_drop_outgoing)

lemma keeps_upd_outgoing:
  "keeps m m' \<Longrightarrow> og_reservation (f (mg_outgoing m' og)) = og_reservation (mg_outgoing m' og) \<Longrightarrow>
     keeps m (upd_outgoing og f m')"
  using keeps_outgoing keeps_trans by blast

lemma admitted_chunk_ok:
  "udp_ok S m \<Longrightarrow> og \<in> set (ep_queue (mg_endpoint m e)) \<Longrightarrow>
     udp_ok S (admitted_chunk pr e og m) \<and> keeps m (admitted_chunk pr e og m)"
  by (auto simp: admitted_chunk_def Let_def
      intro!: remove_outgoing_ok udp_ok_outgoing udp_ok_stats keeps_remove_outgoing keeps_upd_outgoing keeps_chain)

lemma refused_chunk_ok: "udp_ok S m \<Longrightarrow> udp_ok S (refused_chunk og now m) \<and> keeps m (refused_chunk og now m)"
  by (auto simp: refused_chunk_def Let_def intro!: udp_ok_outgoing udp_ok_stats keeps_upd_outgoing keeps_chain)

lemma shrink_path_ok: "udp_ok S m \<Longrightarrow> udp_ok S (shrink_path pr err e m) \<and> keeps m (shrink_path pr err e m)"
proof -
  assume ok: "udp_ok S m"
  have "udp_ok S (upd_endpoint e (\<lambda>x. x\<lparr>ep_maximum := n\<rparr>) m)" for n
    using ok by (rule udp_ok_same) (rule view_upd_endpoint, simp_all)
  moreover have "keeps m (upd_endpoint e (\<lambda>x. x\<lparr>ep_maximum := n\<rparr>) m)" for n
    by (rule keeps_upd_endpoint) auto
  ultimately show ?thesis using ok
    by (auto simp: shrink_path_def Let_def split: udp_error.split intro!: udp_ok_stats keeps_chain)
qed

lemma shrink_path_queue: "ep_queue (mg_endpoint (shrink_path pr err e m) x) = ep_queue (mg_endpoint m x)"
  by (simp add: shrink_path_def Let_def split: udp_error.split)

lemma failed_chunk_ok:
  assumes ok: "udp_ok S m" and og: "og \<in> set (ep_queue (mg_endpoint m e))"
  shows "udp_ok S (snd (failed_chunk pr adm err e og m)) \<and> keeps m (snd (failed_chunk pr adm err e og m))"
proof -
  define m1 where "m1 = (if shrinks pr err (mg_outgoing m og) then shrink_path pr err e m else m)"
  have m1: "udp_ok S m1" "keeps m m1" "og \<in> set (ep_queue (mg_endpoint m1 e))"
    using ok og shrink_path_ok by (auto simp: m1_def shrink_path_queue)
  have "udp_ok S (remove_outgoing e og (count_udp f m1))" for f
    using m1 by (intro remove_outgoing_ok udp_ok_stats) auto
  then show ?thesis
    using m1 unfolding failed_chunk_def Let_def m1_def [symmetric]
    by (auto intro!: udp_ok_outgoing keeps_upd_outgoing keeps_remove_outgoing keeps_chain)
qed

lemma step_outcome_ok:
  assumes ok: "udp_ok S m" and live: "live_out e og m"
    and so: "step_outcome pr adm err e og now m = (c, m')"
  shows "udp_ok S m' \<and> keeps m m'"
proof (cases "rs_released (mg_reservation m (og_reservation (mg_outgoing m og)))")
  case True
  then show ?thesis using so ok by (simp add: step_outcome_def)
next
  case False
  then have og: "og \<in> set (ep_queue (mg_endpoint m e))" using live by (simp add: live_out_def)
  have "m' = admitted_chunk pr e og m \<or> m' = refused_chunk og now m
      \<or> (\<exists>er. m' = snd (failed_chunk pr adm er e og m))"
    using so False by (auto simp: step_outcome_def split: option.splits udp_error.splits) (metis snd_conv)+
  then show ?thesis
    using admitted_chunk_ok [OF ok og] refused_chunk_ok [OF ok] failed_chunk_ok [OF ok og] by blast
qed

lemma expire_all_ok: "udp_ok S m \<Longrightarrow> udp_ok S (expire_all now m) \<and> keeps m (expire_all now m)"
  unfolding expire_all_def by (intro conjI udp_ok_fold keeps_fold expire_udp_ok expire_udp_keeps)

end
