(* ===== verification/Udp_Runs.thy ===== *)
theory Udp_Runs
  imports Udp_Flows
begin

section \<open>UDP messages: all interleavings\<close>

text \<open>
  A run interleaves the critical sections of the manager: calls of \<open>Open\<close>, \<open>Send\<close>,
  \<open>ReceiveFrame\<close>, \<open>Close\<close> and the others from any number of goroutines, with the four parts of
  a scheduler step in between. \<open>rn_sends\<close> holds the calls of \<open>Send\<close> between their reservation
  and their guard's answer, \<open>rn_messages\<close> the completed messages callers hold, \<open>rn_closing\<close>
  and \<open>rn_retired\<close> the flows whose \<open>Close\<close> has begun and finished. The send lock is the
  \<open>Locked\<close> phase.
\<close>

datatype phase =
    Idle
  | Picked nat nat
  | Locked nat nat prepared
  | Transmitted nat nat prepared bool "udp_error option"
  | Ending nat

record run =
  rn_manager :: manager
  rn_sends :: "nat \<Rightarrow> (nat \<times> bytes) option"
  rn_messages :: "nat set"
  rn_closing :: "nat set"
  rn_retired :: "nat set"
  rn_phase :: phase

definition start_run :: run where
  "start_run = \<lparr>rn_manager = new_manager, rn_sends = Map.empty, rn_messages = {}, rn_closing = {},
     rn_retired = {}, rn_phase = Idle\<rparr>"

fun send_locked :: "nat \<Rightarrow> phase \<Rightarrow> bool" where
  "send_locked e (Locked e' _ _) \<longleftrightarrow> e' = e"
| "send_locked e _ \<longleftrightarrow> False"

abbreviation shuffles :: "((u64 \<times> udp_assembly) list \<Rightarrow> (u64 \<times> udp_assembly) list) \<Rightarrow> bool" where
  "shuffles perm \<equiv> \<forall>xs. mset (perm xs) = mset xs"

inductive udp_step :: "run \<Rightarrow> run \<Rightarrow> bool" where
  step_open: "open_udp d g (rn_manager s) = (res, m) \<Longrightarrow> udp_step s (s\<lparr>rn_manager := m\<rparr>)"
| step_attach: "\<not> send_locked e (rn_phase s) \<Longrightarrow>
    udp_step s (s\<lparr>rn_manager := snd (attach_udp e mx local has (rn_manager s))\<rparr>)"
| step_socket: "udp_step s (s\<lparr>rn_manager := snd (reserve_socket e n (rn_manager s))\<rparr>)"
| step_deliver: "udp_step s (s\<lparr>rn_manager := snd (deliver_udp e runs action (rn_manager s))\<rparr>)"
| step_send_refused: "send_reserve e d (rn_manager s) = (Inl err, m) \<Longrightarrow> udp_step s (s\<lparr>rn_manager := m\<rparr>)"
| step_send_begin: "send_reserve e d (rn_manager s) = (Inr r, m) \<Longrightarrow>
    udp_step s (s\<lparr>rn_manager := m, rn_sends := (rn_sends s)(r \<mapsto> (e, d))\<rparr>)"
| step_send_queue: "rn_sends s r = Some (e, d) \<Longrightarrow> send_enqueue e d r now (rn_manager s) = (None, m) \<Longrightarrow>
    udp_step s (s\<lparr>rn_manager := m, rn_sends := (rn_sends s)(r := None)\<rparr>)"
| step_send_fail: "rn_sends s r = Some (e, d) \<Longrightarrow>
    udp_step s (s\<lparr>rn_manager := send_abort r (rn_manager s), rn_sends := (rn_sends s)(r := None)\<rparr>)"
| step_receive: "shuffles perm \<Longrightarrow>
    receive_frame perm e packet maximum runs now (rn_manager s) = ((err, res), m) \<Longrightarrow>
    udp_step s (s\<lparr>rn_manager := m, rn_messages := rn_messages s \<union> set_option res\<rparr>)"
| step_retain_refused: "retain_received e d (rn_manager s) = (Inl err, m) \<Longrightarrow> udp_step s (s\<lparr>rn_manager := m\<rparr>)"
| step_retain: "retain_received e d (rn_manager s) = (Inr i, m) \<Longrightarrow>
    udp_step s (s\<lparr>rn_manager := m, rn_messages := insert i (rn_messages s)\<rparr>)"
| step_release: "i \<in> rn_messages s \<Longrightarrow> udp_step s (s\<lparr>rn_manager := release_message i (rn_manager s)\<rparr>)"
| step_close: "\<not> ep_closed (mg_endpoint (rn_manager s) e) \<Longrightarrow>
    udp_step s (s\<lparr>rn_manager := close_begin e (rn_manager s), rn_closing := insert e (rn_closing s)\<rparr>)"
| step_retire: "e \<in> rn_closing s \<Longrightarrow> \<not> send_locked e (rn_phase s) \<Longrightarrow>
    udp_step s (s\<lparr>rn_manager := close_finish e (rn_manager s), rn_closing := rn_closing s - {e},
      rn_retired := insert e (rn_retired s)\<rparr>)"
| step_shutdown: "udp_step s (s\<lparr>rn_manager := snd (manager_close (rn_manager s))\<rparr>)"
| step_pick: "rn_phase s = Idle \<Longrightarrow> pick_udp now (rn_manager s) = (res, m) \<Longrightarrow>
    udp_step s (s\<lparr>rn_manager := m,
      rn_phase := (case res of None \<Rightarrow> Idle | Some (e, og) \<Rightarrow> Picked e og)\<rparr>)"
| step_lock: "rn_phase s = Picked e og \<Longrightarrow> step_prepare e og (rn_manager s) = (res, m) \<Longrightarrow>
    udp_step s (s\<lparr>rn_manager := m,
      rn_phase := (case res of None \<Rightarrow> Idle | Some pr \<Rightarrow> Locked e og pr)\<rparr>)"
| step_send_chunk: "rn_phase s = Locked e og pr \<Longrightarrow>
    step_transmit transport runs pr e og now (rn_manager s) = (admitted, err) \<Longrightarrow>
    udp_step s (s\<lparr>rn_phase := Transmitted e og pr admitted err\<rparr>)"
| step_record: "rn_phase s = Transmitted e og pr admitted err \<Longrightarrow>
    step_outcome pr admitted err e og now (rn_manager s) = (c, m) \<Longrightarrow>
    udp_step s (s\<lparr>rn_manager := m, rn_phase := (if c then Ending e else Idle)\<rparr>)"
| step_ended: "rn_phase s = Ending e \<Longrightarrow> e \<in> rn_retired s \<Longrightarrow> udp_step s (s\<lparr>rn_phase := Idle\<rparr>)"
| step_tick: "rn_phase s = Idle \<Longrightarrow> udp_step s (s\<lparr>rn_manager := expire_all now (rn_manager s)\<rparr>)"

inductive udp_reachable :: "run \<Rightarrow> bool" where
  reach_start: "udp_reachable start_run"
| reach_step: "udp_reachable s \<Longrightarrow> udp_step s t \<Longrightarrow> udp_reachable t"

subsection \<open>The invariant of a run\<close>

definition drained :: "nat \<Rightarrow> nat set \<Rightarrow> manager \<Rightarrow> bool" where
  "drained e S m \<longleftrightarrow> e < mg_fresh m \<and> ep_closed (mg_endpoint m e)
     \<and> (\<forall>r \<in> unreleased m. rs_endpoint (mg_reservation m r) = e \<longrightarrow> r \<in> S)"

definition sends_known :: "run \<Rightarrow> bool" where
  "sends_known s \<longleftrightarrow> (\<forall>r e d. rn_sends s r = Some (e, d) \<longrightarrow> rs_endpoint (mg_reservation (rn_manager s) r) = e)"

fun phase_ok :: "phase \<Rightarrow> manager \<Rightarrow> bool" where
  "phase_ok (Picked e og) m \<longleftrightarrow> live_out e og m"
| "phase_ok (Locked e og _) m \<longleftrightarrow> live_out e og m"
| "phase_ok (Transmitted e og _ _ _) m \<longleftrightarrow> live_out e og m"
| "phase_ok _ m \<longleftrightarrow> True"

definition run_ok :: "run \<Rightarrow> bool" where
  "run_ok s \<longleftrightarrow> udp_ok (dom (rn_sends s)) (rn_manager s) \<and> peers_known (rn_manager s) \<and> sends_known s
     \<and> (\<forall>i \<in> rn_messages s. live_message i (rn_manager s)) \<and> phase_ok (rn_phase s) (rn_manager s)
     \<and> (\<forall>e \<in> rn_closing s. e < mg_fresh (rn_manager s) \<and> ep_closed (mg_endpoint (rn_manager s) e))
     \<and> (\<forall>e \<in> rn_retired s. drained e (dom (rn_sends s)) (rn_manager s))"

lemma udp_ok_unreleased: "udp_ok S m \<Longrightarrow> unreleased m \<subseteq> {..<mg_fresh m}"
  by (auto simp: udp_ok_def allocated_def)

lemma drained_keeps:
  assumes ok: "udp_ok S m" and k: "keeps m m'" and d: "drained e S m" and S: "S \<subseteq> S'"
  shows "drained e S' m'"
  unfolding drained_def
proof (intro conjI ballI impI)
  have e: "e < mg_fresh m" "ep_closed (mg_endpoint m e)" using d by (simp_all add: drained_def)
  note K = keepsD [OF k] and un = udp_ok_unreleased [OF ok]
  show "e < mg_fresh m'" using e K(1) by simp
  show "ep_closed (mg_endpoint m' e)" using e K(2) by simp
  fix r assume r: "r \<in> unreleased m'" "rs_endpoint (mg_reservation m' r) = e"
  then have "r \<in> unreleased m" using K(5) [OF un r(1)] e by auto
  then have "r < mg_fresh m" using un by auto
  then have "rs_endpoint (mg_reservation m r) = e" using K(3) r(2) by metis
  then show "r \<in> S'" using \<open>r \<in> unreleased m\<close> d S by (auto simp: drained_def)
qed

lemma phase_ok_keeps: "keeps m m' \<Longrightarrow> phase_ok ph m \<Longrightarrow> phase_ok ph m'"
  by (cases ph) (auto simp: keeps_def)

text \<open>Most steps change the manager alone; those of \<open>Send\<close> also the calls in progress.\<close>

lemma run_ok_sends:
  assumes ok: "run_ok s" and m: "udp_ok (dom f) m" "keeps (rn_manager s) m"
    and f: "\<And>r e d. f r = Some (e, d) \<Longrightarrow> rs_endpoint (mg_reservation m r) = e"
    and ret: "\<And>e. drained e (dom (rn_sends s)) (rn_manager s) \<Longrightarrow> drained e (dom f) m"
  shows "run_ok (s\<lparr>rn_manager := m, rn_sends := f\<rparr>)"
proof -
  note K = keepsD [OF m(2)]
  have "e < mg_fresh m \<and> ep_closed (mg_endpoint m e)" if "e \<in> rn_closing s" for e
    using that ok K(1) K(2) [of e] by (auto simp: run_ok_def)
  moreover have "live_message i m" if "i \<in> rn_messages s" for i
    using that ok m(2) by (simp add: run_ok_def keeps_def)
  moreover have "sends_known (s\<lparr>rn_manager := m, rn_sends := f\<rparr>)" using f by (simp add: sends_known_def)
  ultimately show ?thesis
    using ok m phase_ok_keeps [OF m(2)] ret by (simp add: run_ok_def keeps_def)
qed

lemma send_endpoint:
  assumes ok: "run_ok s" and k: "keeps (rn_manager s) m" and r: "rn_sends s r = Some (e, d)"
  shows "rs_endpoint (mg_reservation m r) = e" "r \<in> unreleased (rn_manager s)"
proof -
  have u: "udp_ok (dom (rn_sends s)) (rn_manager s)" using ok by (simp add: run_ok_def)
  show un: "r \<in> unreleased (rn_manager s)" using u r by (auto simp: udp_ok_def owned_def)
  then have "r < mg_fresh (rn_manager s)" using udp_ok_unreleased [OF u] by auto
  then show "rs_endpoint (mg_reservation m r) = e"
    using keepsD(3) [OF k] r ok by (simp add: run_ok_def sends_known_def)
qed

lemma run_ok_manager:
  assumes ok: "run_ok s" and m: "udp_ok (dom (rn_sends s)) m" "keeps (rn_manager s) m"
  shows "run_ok (s\<lparr>rn_manager := m\<rparr>)"
proof -
  have u: "udp_ok (dom (rn_sends s)) (rn_manager s)" using ok by (simp add: run_ok_def)
  have "run_ok (s\<lparr>rn_manager := m, rn_sends := rn_sends s\<rparr>)"
    using send_endpoint(1) [OF ok m(2)] drained_keeps [OF u m(2)] by (intro run_ok_sends [OF ok m]) auto
  then show ?thesis by simp
qed

lemma drained_smaller:
  "drained e S m \<Longrightarrow> r \<notin> unreleased m \<or> rs_endpoint (mg_reservation m r) \<noteq> e \<Longrightarrow> drained e (S - {r}) m"
  by (auto simp: drained_def)

lemma run_ok_send_begin:
  assumes ok: "run_ok s" and sr: "send_reserve e d (rn_manager s) = (Inr r, m)"
  shows "run_ok (s\<lparr>rn_manager := m, rn_sends := (rn_sends s)(r \<mapsto> (e, d))\<rparr>)"
proof -
  have u: "udp_ok (dom (rn_sends s)) (rn_manager s)" using ok by (simp add: run_ok_def)
  note R = send_reserve_ok [OF u sr]
  have k: "keeps (rn_manager s) m" using R by simp
  show ?thesis
  proof (rule run_ok_sends [OF ok _ k])
    show "udp_ok (dom ((rn_sends s)(r \<mapsto> (e, d)))) m" using R by simp
    show "rs_endpoint (mg_reservation m q) = x" if "((rn_sends s)(r \<mapsto> (e, d))) q = Some (x, y)" for q x y
      using that R send_endpoint(1) [OF ok k, of q x y] by (cases "q = r") auto
    show "drained x (dom ((rn_sends s)(r \<mapsto> (e, d)))) m" if "drained x (dom (rn_sends s)) (rn_manager s)" for x
      using drained_keeps [OF u k that, of "dom ((rn_sends s)(r \<mapsto> (e, d)))"] by auto
  qed
qed

lemma run_ok_send_end:
  assumes ok: "run_ok s" and r: "rn_sends s r = Some (e, d)"
    and m: "udp_ok (dom (rn_sends s) - {r}) m" "keeps (rn_manager s) m"
    and gone: "r \<notin> unreleased m \<or> \<not> ep_closed (mg_endpoint (rn_manager s) e)"
  shows "run_ok (s\<lparr>rn_manager := m, rn_sends := (rn_sends s)(r := None)\<rparr>)"
proof (rule run_ok_sends [OF ok _ m(2)])
  have u: "udp_ok (dom (rn_sends s)) (rn_manager s)" using ok by (simp add: run_ok_def)
  show "udp_ok (dom ((rn_sends s)(r := None))) m" using m(1) by simp
  show "rs_endpoint (mg_reservation m q) = x" if "((rn_sends s)(r := None)) q = Some (x, y)" for q x y
    using that send_endpoint(1) [OF ok m(2), of q x y] by (cases "q = r") auto
  show "drained x (dom ((rn_sends s)(r := None))) m" if x: "drained x (dom (rn_sends s)) (rn_manager s)" for x
  proof -
    have "r \<notin> unreleased m \<or> rs_endpoint (mg_reservation m r) \<noteq> x"
      using gone x send_endpoint(1) [OF ok m(2) r] by (auto simp: drained_def)
    then show ?thesis using drained_smaller [OF drained_keeps [OF u m(2) x order_refl]] by simp
  qed
qed

lemma send_abort_released: "r \<notin> unreleased (send_abort r m)"
  by (simp add: send_abort_def unreleased_def release_reservation)

lemma close_finish_drained:
  assumes ok: "udp_ok S m" and e: "e < mg_fresh m" "ep_closed (mg_endpoint m e)"
  shows "drained e S (close_finish e m)"
proof -
  let ?m = "close_finish e m"
  have ok': "udp_ok S ?m" using ok by (rule close_finish_ok)
  have "held e ?m = {#}" by (simp add: held_eq close_finish_def Let_def)
  then have "mset_set {r \<in> unreleased ?m. rs_endpoint (mg_reservation ?m r) = e \<and> r \<notin> S} = {#}"
    using ok' by (simp add: udp_ok_def owned_def)
  moreover have "finite (unreleased ?m)" using ok' finite_unreleased by (simp add: udp_ok_def)
  ultimately have none: "{r \<in> unreleased ?m. rs_endpoint (mg_reservation ?m r) = e \<and> r \<notin> S} = {}"
    by (simp add: mset_set_empty_iff)
  have "e < mg_fresh ?m" "ep_closed (mg_endpoint ?m e)"
    using keepsD(1,2) [OF close_finish_keeps [of m e]] e by auto
  then show ?thesis using none by (auto simp: drained_def)
qed

lemma run_ok_step: "udp_step s t \<Longrightarrow> run_ok s \<Longrightarrow> run_ok t"
proof (induction rule: udp_step.induct)
  case (step_open d g s res m)
  then show ?case using open_udp_ok by (intro run_ok_manager) (auto simp: run_ok_def)
next
  case (step_attach e s mx local has)
  then show ?case using attach_udp_ok by (intro run_ok_manager) (auto simp: run_ok_def)
next
  case (step_socket s e n)
  then show ?case using reserve_socket_ok by (intro run_ok_manager) (auto simp: run_ok_def)
next
  case (step_deliver s e runs action)
  then show ?case using deliver_udp_ok by (intro run_ok_manager) (auto simp: run_ok_def)
next
  case (step_send_refused e d s err m)
  then show ?case using send_reserve_ok [of _ "rn_manager s" e d "Inl err" m]
    by (intro run_ok_manager) (auto simp: run_ok_def)
next
  case (step_send_begin e d s r m)
  then show ?case by (intro run_ok_send_begin)
next
  case (step_send_queue s r e d now m)
  then have "udp_ok (dom (rn_sends s)) (rn_manager s)" "r \<in> dom (rn_sends s)" by (auto simp: run_ok_def)
  note Q = send_enqueue_ok [OF this _ step_send_queue(2)]
  have "\<not> ep_closed (mg_endpoint (rn_manager s) e)"
    using step_send_queue(2) by (auto simp: send_enqueue_def Let_def split: if_splits)
  then show ?case using Q step_send_queue send_endpoint(1) [OF step_send_queue(3) keeps_refl step_send_queue(1)]
    by (intro run_ok_send_end [OF step_send_queue(3,1)]) auto
next
  case (step_send_fail s r e d)
  then have "udp_ok (dom (rn_sends s)) (rn_manager s)" "r \<in> dom (rn_sends s)" by (auto simp: run_ok_def)
  then show ?case using send_abort_ok send_abort_keeps send_abort_released
    by (intro run_ok_send_end [OF step_send_fail(2,1)]) auto
next
  case (step_receive perm e packet maximum runs now s err res m)
  then have R: "udp_ok (dom (rn_sends s)) m" "keeps (rn_manager s) m" "\<forall>i. res = Some i \<longrightarrow> live_message i m"
    using receive_frame_ok by (auto simp: run_ok_def)
  then show ?case using run_ok_manager [OF step_receive(3) R(1,2)] by (cases res) (auto simp: run_ok_def sends_known_def)
next
  case (step_retain_refused e d s err m)
  then show ?case using retain_received_ok [of _ "rn_manager s" e d "Inl err" m]
    by (intro run_ok_manager) (auto simp: run_ok_def)
next
  case (step_retain e d s i m)
  then have R: "udp_ok (dom (rn_sends s)) m" "keeps (rn_manager s) m" "live_message i m"
    using retain_received_ok [of _ "rn_manager s" e d "Inr i" m] by (auto simp: run_ok_def)
  then show ?case using run_ok_manager [OF step_retain(2) R(1,2)] by (auto simp: run_ok_def sends_known_def)
next
  case (step_release i s)
  then show ?case using release_message_ok by (intro run_ok_manager) (auto simp: run_ok_def)
next
  case (step_close s e)
  have u: "udp_ok (dom (rn_sends s)) (rn_manager s)" using step_close by (simp add: run_ok_def)
  then have "e < mg_fresh (rn_manager s)" using step_close(1) by (simp add: udp_ok_def allocated_def)
  moreover have "run_ok (s\<lparr>rn_manager := close_begin e (rn_manager s)\<rparr>)"
    using close_begin_ok [OF u] step_close by (intro run_ok_manager) auto
  ultimately show ?case by (auto simp: run_ok_def sends_known_def close_begin_def)
next
  case (step_retire e s)
  have u: "udp_ok (dom (rn_sends s)) (rn_manager s)" using step_retire by (simp add: run_ok_def)
  have "run_ok (s\<lparr>rn_manager := close_finish e (rn_manager s)\<rparr>)"
    using close_finish_ok [OF u] close_finish_keeps step_retire by (intro run_ok_manager) auto
  moreover have "drained e (dom (rn_sends s)) (close_finish e (rn_manager s))"
    using step_retire by (intro close_finish_drained [OF u]) (auto simp: run_ok_def)
  ultimately show ?case by (auto simp: run_ok_def sends_known_def)
next
  case (step_shutdown s)
  then show ?case using manager_close_ok by (intro run_ok_manager) (auto simp: run_ok_def)
next
  case (step_pick s now res m)
  then have P: "udp_ok (dom (rn_sends s)) m" "keeps (rn_manager s) m"
      "\<forall>e og. res = Some (e, og) \<longrightarrow> live_out e og m"
    using pick_peers_ok unfolding pick_udp_def by (auto simp: run_ok_def)
  then show ?case using run_ok_manager [OF step_pick(3) P(1,2)]
    by (cases res) (auto simp: run_ok_def sends_known_def)
next
  case (step_lock s e og res m)
  then have P: "udp_ok (dom (rn_sends s)) m" "keeps (rn_manager s) m"
    using step_prepare_ok by (auto simp: run_ok_def)
  moreover have "live_out e og m"
    using phase_ok_keeps [OF P(2), of "Picked e og"] step_lock by (auto simp: run_ok_def)
  ultimately show ?case using run_ok_manager [OF step_lock(3) P(1,2)]
    by (cases res) (auto simp: run_ok_def sends_known_def)
next
  case (step_send_chunk s e og pr transport runs now admitted err)
  then show ?case by (auto simp: run_ok_def sends_known_def)
next
  case (step_record s e og pr admitted err now c m)
  then have P: "udp_ok (dom (rn_sends s)) m" "keeps (rn_manager s) m"
    using step_outcome_ok by (auto simp: run_ok_def)
  then show ?case using run_ok_manager [OF step_record(3) P] by (auto simp: run_ok_def sends_known_def)
next
  case (step_ended s e)
  then show ?case by (auto simp: run_ok_def sends_known_def)
next
  case (step_tick s now)
  then show ?case using expire_all_ok by (intro run_ok_manager) (auto simp: run_ok_def)
qed

lemma run_ok_start: "run_ok start_run"
proof -
  have "udp_ok {} new_manager"
    unfolding udp_ok_def accounted_def budgets_def owned_def allocated_def sums_to_def charged_def within_def
    by (simp add: new_manager_def flow_usage_def peer_usage_def node_usage_def new_endpoint_def no_usage_def
        unreleased_def held_eq m_ok_def)
  then show ?thesis
    by (simp add: run_ok_def start_run_def sends_known_def peers_known_def new_manager_def)
qed

lemma reachable_run_ok: "udp_reachable s \<Longrightarrow> run_ok s"
  by (induction rule: udp_reachable.induct) (auto intro: run_ok_start run_ok_step)

end
