(* ===== verification/Udp_Runs_Props.thy ===== *)
theory Udp_Runs_Props
  imports Udp_Runs
begin

section \<open>UDP messages: what every run guarantees\<close>

text \<open>
  The properties of reachable runs, and a run that opens a flow, starts a call of \<open>Send\<close>, aborts
  it and retires the flow, on which they are applied.
\<close>

subsection \<open>Properties\<close>

text \<open>
  C11 (udp_accounting). Whatever calls, goroutines, peers and transports do, the usage kept for each
  flow, each peer and the node, in each direction, is the number and the total charge of the
  reservations not yet released, and never exceeds its budget.
\<close>

theorem udp_accounting:
  assumes "udp_reachable s"
  shows "accounted (rn_manager s) \<and> budgets (rn_manager s)"
  using reachable_run_ok [OF assms] by (simp add: run_ok_def udp_ok_def)

text \<open>
  C12 (reservation_owner). No reservation leaks and none is released twice: each unreleased one is
  held by exactly one outgoing message, assembly or completed message of its own flow, or by one
  call of \<open>Send\<close> still waiting for its guard.
\<close>

theorem reservation_owner:
  assumes "udp_reachable s"
  shows "held e (rn_manager s) = mset_set {r \<in> unreleased (rn_manager s).
      rs_endpoint (mg_reservation (rn_manager s) r) = e \<and> rn_sends s r = None}"
proof -
  have "r \<notin> dom (rn_sends s) \<longleftrightarrow> rn_sends s r = None" for r by auto
  then show ?thesis using reachable_run_ok [OF assms] by (simp add: run_ok_def udp_ok_def owned_def)
qed

text \<open>
  C13 (retired_flow_free). Once \<open>Close\<close> has returned and no call of \<open>Send\<close> on the flow is waiting
  for its guard, the flow charges nothing in either direction, and nothing that happens later
  (late frames, late sends, releases of messages still held by callers) changes that.
\<close>

theorem retired_flow_free:
  assumes s: "udp_reachable s" and e: "e \<in> rn_retired s"
    and quiet: "\<And>r d. rn_sends s r \<noteq> Some (e, d)"
  shows "flow_usage tx e (rn_manager s) = no_usage \<and> held e (rn_manager s) = {#}"
proof
  have ok: "run_ok s" using s by (rule reachable_run_ok)
  have none: "rs_endpoint (mg_reservation (rn_manager s) r) \<noteq> e" if r: "r \<in> unreleased (rn_manager s)" for r
  proof
    assume e': "rs_endpoint (mg_reservation (rn_manager s) r) = e"
    have "drained e (dom (rn_sends s)) (rn_manager s)" using ok e by (simp add: run_ok_def)
    then have "r \<in> dom (rn_sends s)" using r e' by (simp add: drained_def)
    then obtain x d where "rn_sends s r = Some (x, d)" by auto
    then show False using quiet send_endpoint(1) [OF ok keeps_refl] e' by metis
  qed
  show "flow_usage tx e (rn_manager s) = no_usage"
    using ok none by (intro sums_to_none [of _ "in_flow tx e" "rn_manager s"])
      (auto simp: run_ok_def udp_ok_def accounted_def)
  have empty: "{r \<in> unreleased (rn_manager s). rs_endpoint (mg_reservation (rn_manager s) r) = e
      \<and> r \<notin> dom (rn_sends s)} = {}"
    using none by blast
  have "held e (rn_manager s) = mset_set {r \<in> unreleased (rn_manager s).
      rs_endpoint (mg_reservation (rn_manager s) r) = e \<and> r \<notin> dom (rn_sends s)}"
    using ok by (simp add: run_ok_def udp_ok_def owned_def)
  then show "held e (rn_manager s) = {#}" unfolding empty by simp
qed

lemma locked_not_retired: "udp_reachable s \<Longrightarrow> send_locked e (rn_phase s) \<longrightarrow> e \<notin> rn_retired s"
proof (induction rule: udp_reachable.induct)
  case (reach_step s t)
  have ok: "run_ok s" using reach_step(1) by (rule reachable_run_ok)
  show ?case
    using reach_step(2,3)
  proof (cases rule: udp_step.cases)
    case (step_lock e' og res m)
    have "e' \<notin> rn_retired s" if "res \<noteq> None"
      using step_lock ok that by (auto simp: step_prepare_def run_ok_def drained_def split: if_splits)
    then show ?thesis using step_lock by (cases res) auto
  qed (auto split: option.splits prod.splits)
qed (simp add: start_run_def)

text \<open>
  C14 (closed_flow_silent). After \<open>Close\<close> has returned the scheduler never hands a chunk of the
  flow to its transport: it holds the send lock only of flows not retired, and the transmission
  of a flow whose \<open>Close\<close> has begun answers Closed without calling the transport.
\<close>

theorem closed_flow_silent:
  assumes "udp_reachable s" "rn_phase s = Locked e og pr"
  shows "e \<notin> rn_retired s \<and> (ep_closed (mg_endpoint (rn_manager s) e) \<longrightarrow>
       snd (step_transmit transport True pr e og now (rn_manager s)) = Some Closed)"
  using locked_not_retired [OF assms(1), of e] assms(2) by (auto simp: step_transmit_def)

subsection \<open>A run\<close>

definition sample_flow :: manager where
  "sample_flow = snd (open_udp (sample_device 1) True new_manager)"

lemma sample_flow_fields:
  "mg_fresh sample_flow = 2" "mg_endpoint sample_flow 1 = new_endpoint 0"
  "mg_rx sample_flow = no_usage" "mg_tx sample_flow = no_usage" "mg_next sample_flow = 0"
  "mg_peer sample_flow 0 = \<lparr>pe_device = sample_device 1, pe_flows = [1], pe_next = 0, pe_rx = no_usage,
     pe_tx = no_usage, pe_socket = 0\<rparr>" "mg_order sample_flow = [0]"
  by (simp_all add: sample_flow_def open_udp_def new_manager_def Let_def sample_device_def dv_valid_def
      zero_udp_stats_def upd_peer_def del: One_nat_def)

definition sample_run :: run where
  "sample_run = start_run\<lparr>rn_manager := sample_flow\<rparr>"

lemma sample_run_reachable: "udp_reachable sample_run"
proof -
  obtain res m where "open_udp (sample_device 1) True (rn_manager start_run) = (res, m)" by fastforce
  moreover from this have "m = sample_flow" by (simp add: sample_flow_def start_run_def)
  ultimately show ?thesis
    unfolding sample_run_def using reach_step [OF reach_start step_open] by metis
qed

definition sample_reserved_udp :: manager where
  "sample_reserved_udp = snd (send_reserve 1 [1, 2, 3] sample_flow)"

lemma sample_reserved_udp_fields:
  "send_reserve 1 [1, 2, 3] sample_flow = (Inr 2, sample_reserved_udp)"
  "mg_tx sample_reserved_udp = \<lparr>us_messages = 1, us_bytes = 256\<rparr>"
  "rs_endpoint (mg_reservation sample_reserved_udp 2) = 1"
  "ep_closed (mg_endpoint sample_reserved_udp 1) = False"
  "mg_endpoint sample_reserved_udp 1 = (new_endpoint 0)\<lparr>ep_tx := \<lparr>us_messages = 1, us_bytes = 256\<rparr>\<rparr>"
  by (simp_all add: sample_reserved_udp_def send_reserve_def reserve_udp_def Let_def sample_flow_fields
      exceeds_def flow_usage_def peer_usage_def node_usage_def new_endpoint_def no_usage_def upd_usage_def
      add_usage_def note_high_water_def del: One_nat_def)

definition sample_sending :: run where
  "sample_sending = sample_run\<lparr>rn_manager := sample_reserved_udp, rn_sends := [2 \<mapsto> (1, [1, 2, 3])]\<rparr>"

lemma sample_sending_reachable: "udp_reachable sample_sending"
proof -
  have "udp_step sample_run (sample_run\<lparr>rn_manager := sample_reserved_udp,
      rn_sends := (rn_sends sample_run)(2 \<mapsto> (1, [1, 2, 3]))\<rparr>)"
    by (rule step_send_begin) (simp add: sample_run_def sample_reserved_udp_fields(1) del: One_nat_def)
  then show ?thesis
    using reach_step [OF sample_run_reachable] by (simp add: sample_sending_def sample_run_def start_run_def)
qed

theorem udp_accounting_witness:
  "accounted sample_reserved_udp \<and> budgets sample_reserved_udp
     \<and> node_usage True sample_reserved_udp = \<lparr>us_messages = 1, us_bytes = 256\<rparr>"
  using udp_accounting [OF sample_sending_reachable]
  by (simp add: sample_sending_def node_usage_def sample_reserved_udp_fields(2))

theorem reservation_owner_witness:
  "held 1 sample_reserved_udp = {#} \<and> udp_reachable sample_sending"
proof -
  have "held 1 sample_reserved_udp = mset_set {r \<in> unreleased sample_reserved_udp.
      rs_endpoint (mg_reservation sample_reserved_udp r) = 1 \<and> rn_sends sample_sending r = None}"
    using reservation_owner [OF sample_sending_reachable, of 1] by (simp add: sample_sending_def)
  moreover have "held 1 sample_reserved_udp = {#}"
    by (simp add: held_eq sample_reserved_udp_fields(5) new_endpoint_def del: One_nat_def)
  ultimately show ?thesis using sample_sending_reachable by simp
qed

text \<open>The call is aborted and the flow closed.\<close>

definition sample_retired :: run where
  "sample_retired = \<lparr>rn_manager = close_finish 1 (close_begin 1 (send_abort 2 sample_reserved_udp)),
     rn_sends = Map.empty, rn_messages = {}, rn_closing = {}, rn_retired = {1}, rn_phase = Idle\<rparr>"

lemma sample_retired_reachable: "udp_reachable sample_retired"
proof -
  define s1 where "s1 = sample_sending\<lparr>rn_manager := send_abort 2 (rn_manager sample_sending),
    rn_sends := (rn_sends sample_sending)(2 := None)\<rparr>"
  define s2 where "s2 = s1\<lparr>rn_manager := close_begin 1 (rn_manager s1), rn_closing := insert 1 (rn_closing s1)\<rparr>"
  define s3 where "s3 = s2\<lparr>rn_manager := close_finish 1 (rn_manager s2), rn_closing := rn_closing s2 - {1},
      rn_retired := insert 1 (rn_retired s2)\<rparr>"
  have "udp_step sample_sending s1"
    unfolding s1_def by (rule step_send_fail [of _ _ 1 "[1, 2, 3]"]) (simp add: sample_sending_def)
  moreover have "udp_step s1 s2" unfolding s2_def
    by (rule step_close)
      (simp add: s1_def sample_sending_def send_abort_def record_denied_def sample_reserved_udp_fields(4) del: One_nat_def)
  moreover have "udp_step s2 s3" unfolding s3_def
    by (rule step_retire) (simp_all add: s2_def s1_def sample_sending_def sample_run_def start_run_def)
  ultimately have "udp_reachable s3" using reach_step sample_sending_reachable by blast
  moreover have "s3 = sample_retired"
    by (simp add: s3_def s2_def s1_def sample_retired_def sample_sending_def sample_run_def start_run_def)
  ultimately show ?thesis by simp
qed

theorem retired_flow_free_witness:
  "flow_usage True 1 (rn_manager sample_retired) = no_usage \<and> held 1 (rn_manager sample_retired) = {#}"
  by (rule retired_flow_free [OF sample_retired_reachable]) (simp_all add: sample_retired_def)

text \<open>A flow with a transport sends one message; the scheduler takes the send lock, and the flow is closed.\<close>

definition sample_attached :: manager where
  "sample_attached = snd (attach_udp 1 1000 False True sample_flow)"

definition sample_reserving :: manager where
  "sample_reserving = snd (send_reserve 1 [1, 2, 3] sample_attached)"

definition sample_queued :: manager where
  "sample_queued = snd (send_enqueue 1 [1, 2, 3] 2 0 sample_reserving)"

lemma sample_attached_fields:
  "mg_fresh sample_attached = 2"
  "mg_endpoint sample_attached 1 = (new_endpoint 0)\<lparr>ep_maximum := 1000, ep_receive_maximum := 1000, ep_attached := True\<rparr>"
  "mg_rx sample_attached = no_usage" "mg_tx sample_attached = no_usage"
  "mg_peer sample_attached 0 = mg_peer sample_flow 0" "mg_order sample_attached = [0]"
  "mg_next sample_attached = 0"
  by (simp_all add: sample_attached_def attach_udp_def upd_endpoint_def sample_flow_fields new_endpoint_def Let_def del: One_nat_def)

lemma sample_reserving_fields:
  "send_reserve 1 [1, 2, 3] sample_attached = (Inr 2, sample_reserving)"
  "mg_fresh sample_reserving = 3" "mg_next sample_reserving = 0" "mg_order sample_reserving = [0]"
  "mg_endpoint sample_reserving 1 = (mg_endpoint sample_attached 1)\<lparr>ep_tx := \<lparr>us_messages = 1, us_bytes = 256\<rparr>\<rparr>"
  "pe_flows (mg_peer sample_reserving 0) = [1]" "pe_next (mg_peer sample_reserving 0) = 0"
  by (simp_all add: sample_reserving_def send_reserve_def reserve_udp_def Let_def sample_attached_fields
      sample_flow_fields exceeds_def flow_usage_def peer_usage_def node_usage_def new_endpoint_def
      no_usage_def upd_usage_def add_usage_def note_high_water_def upd_endpoint_def upd_peer_def del: One_nat_def)

lemma sample_queued_fields:
  "send_enqueue 1 [1, 2, 3] 2 0 sample_reserving = (None, sample_queued)"
  "mg_order sample_queued = [0]" "mg_next sample_queued = 0"
  "pe_flows (mg_peer sample_queued 0) = [1]" "pe_next (mg_peer sample_queued 0) = 0"
  "mg_endpoint sample_queued 1 = (mg_endpoint sample_reserving 1)\<lparr>ep_queue := [3], ep_next_id := 2\<rparr>"
  "mg_outgoing sample_queued 3 = \<lparr>og_id = 1, og_payload = [1, 2, 3], og_stride = 0, og_index = 0,
     og_born = 0, og_retry = None, og_backoff = 0, og_reservation = 2\<rparr>"
  by (simp_all add: sample_queued_def send_enqueue_def Let_def sample_reserving_fields sample_attached_fields
      new_endpoint_def upd_endpoint_def del: One_nat_def)

lemma sample_pick: "\<exists>m. pick_udp 0 sample_queued = (Some (1, 3), m) \<and> ep_closed (mg_endpoint m 1) = False"
  by (simp add: pick_udp_def sample_queued_fields sample_reserving_fields sample_attached_fields
      new_endpoint_def Let_def pick_flow_def expire_udp_def upd_peer_def upd_endpoint_def due_def del: One_nat_def)

lemma sample_picked:
  obtains m where "pick_udp 0 sample_queued = (Some (1, 3), m)" "\<not> ep_closed (mg_endpoint m 1)"
  using sample_pick by blast

lemma sample_locked:
  obtains s pr where "udp_reachable s" "rn_phase s = Locked 1 3 pr" "\<not> ep_closed (mg_endpoint (rn_manager s) 1)"
proof -
  have r1: "udp_reachable (sample_run\<lparr>rn_manager := sample_attached\<rparr>)"
    using reach_step [OF sample_run_reachable step_attach [of 1 sample_run 1000 False True]]
    by (simp add: sample_run_def start_run_def sample_attached_def)
  have r2: "udp_reachable (sample_run\<lparr>rn_manager := sample_reserving, rn_sends := [2 \<mapsto> (1, [1, 2, 3])]\<rparr>)"
    using reach_step [OF r1 step_send_begin, of 1 "[1, 2, 3]" 2 sample_reserving] sample_reserving_fields(1)
    by (simp add: sample_run_def start_run_def)
  have r3: "udp_reachable (sample_run\<lparr>rn_manager := sample_queued\<rparr>)"
    using reach_step [OF r2 step_send_queue, of 2 1 "[1, 2, 3]" 0 sample_queued] sample_queued_fields(1)
    by (simp add: sample_run_def start_run_def)
  obtain m where m: "pick_udp 0 sample_queued = (Some (1, 3), m)" "\<not> ep_closed (mg_endpoint m 1)"
    by (rule sample_picked)
  have r4: "udp_reachable (sample_run\<lparr>rn_manager := m, rn_phase := Picked 1 3\<rparr>)"
    using reach_step [OF r3 step_pick, of 0 "Some (1, 3)" m] m(1) by (simp add: sample_run_def start_run_def)
  obtain pr m' where p: "step_prepare 1 3 m = (Some pr, m')" "\<not> ep_closed (mg_endpoint m' 1)"
    using m(2) by (auto simp: step_prepare_def Let_def)
  have r5: "udp_reachable (sample_run\<lparr>rn_manager := m', rn_phase := Locked 1 3 pr\<rparr>)"
    using reach_step [OF r4 step_lock, of 1 3 "Some pr" m'] p(1) by (simp add: sample_run_def start_run_def)
  show thesis by (rule that [OF r5]) (use p in simp_all)
qed

theorem closed_flow_silent_witness:
  "\<exists>s pr. udp_reachable s \<and> rn_phase s = Locked 1 3 pr \<and> 1 \<notin> rn_retired s
     \<and> snd (step_transmit (\<lambda>_. None) True pr 1 3 0 (rn_manager s)) = Some Closed"
proof -
  obtain s pr where s: "udp_reachable s" "rn_phase s = Locked 1 3 pr" "\<not> ep_closed (mg_endpoint (rn_manager s) 1)"
    by (rule sample_locked)
  let ?t = "s\<lparr>rn_manager := close_begin 1 (rn_manager s), rn_closing := insert 1 (rn_closing s)\<rparr>"
  have "udp_reachable ?t" using reach_step [OF s(1) step_close [OF s(3)]] .
  moreover have "rn_phase ?t = Locked 1 3 pr" "ep_closed (mg_endpoint (rn_manager ?t) 1)"
    using s(2) by (simp_all add: close_begin_def)
  ultimately show ?thesis using closed_flow_silent [of ?t 1 3 pr "\<lambda>_. None" 0] by blast
qed

end
