(* ===== verification/Mesh_Gossip.thy ===== *)
theory Mesh_Gossip
  imports Wendy_Prelude
begin

section \<open>Announcement gossip (netgossip/gossip.go)\<close>

text \<open>
  A pool shared by all sessions of a router holds announcements by their digest and the downloads in
  progress; a session is one neighbour's end of the protocol. A method of \<open>Session\<close> is one critical
  section of the pool's mutex, but for \<open>Lookup\<close>, which has two. SHA-256 is the argument \<open>sha\<close>. The
  eviction loop ranges over a Go map: \<open>order\<close> ranks the entries, anew in each state of the pool.
  Times are nanoseconds, owners and requests 64-bit counters.
\<close>

abbreviation (input) gossip_version :: int where "gossip_version \<equiv> 1"
abbreviation (input) manifest_kind :: byte where "manifest_kind \<equiv> 1"
abbreviation (input) service_kind :: byte where "service_kind \<equiv> 2"
abbreviation (input) max_object :: nat where "max_object \<equiv> 40960"
abbreviation (input) chunk_size :: nat where "chunk_size \<equiv> 1024"
abbreviation (input) idle_timeout :: int where "idle_timeout \<equiv> 30000000000"
abbreviation (input) hint_lifetime :: int where "hint_lifetime \<equiv> 120000000000"
abbreviation (input) max_known :: nat where "max_known \<equiv> 4096"
abbreviation (input) max_pending :: nat where "max_pending \<equiv> 128"
abbreviation (input) max_suppliers :: nat where "max_suppliers \<equiv> 64"
abbreviation (input) max_in_flight :: nat where "max_in_flight \<equiv> 16"
abbreviation (input) max_per_peer :: nat where "max_per_peer \<equiv> 4"
abbreviation (input) max_bytes :: int where "max_bytes \<equiv> 8388608"

subsection \<open>Messages\<close>

record gossip_message =
  gm_version :: int
  gm_op :: string
  gm_type :: byte
  gm_digest :: bytes
  gm_request :: u64
  gm_offset :: int
  gm_total :: int
  gm_data :: bytes

datatype gossip_error =
    BadEnvelope
  | BadHave
  | BadRequest
  | BadChunk
  | UnknownOp
  | SessionMismatch
  | TooManyHints
  | UnorderedData
  | DigestMismatch

definition known_op :: "string \<Rightarrow> bool" where
  "known_op s \<longleftrightarrow> s \<in> {''have'', ''want'', ''unavailable'', ''data'', ''gone''}"

definition future_type :: "gossip_message \<Rightarrow> bool" where
  "future_type m \<longleftrightarrow> gm_version m = gossip_version \<and> service_kind < gm_type m"

definition validate_gossip :: "gossip_message \<Rightarrow> gossip_error option" where
  "validate_gossip m =
     (if future_type m then None
      else if gm_op m \<noteq> [] \<and> \<not> known_op (gm_op m) then None
      else if gm_version m \<noteq> gossip_version \<or> gm_type m \<noteq> manifest_kind \<and> gm_type m \<noteq> service_kind
          \<or> length (gm_digest m) \<noteq> 32 then Some BadEnvelope
      else if gm_op m = ''have'' \<or> gm_op m = ''gone'' then
        (if gm_request m \<noteq> 0 \<or> gm_offset m \<noteq> 0 \<or> gm_total m \<noteq> 0 \<or> gm_data m \<noteq> [] then Some BadHave else None)
      else if gm_op m = ''want'' \<or> gm_op m = ''unavailable'' then
        (if gm_request m = 0 \<or> gm_offset m \<noteq> 0 \<or> gm_total m \<noteq> 0 \<or> gm_data m \<noteq> [] then Some BadRequest else None)
      else if gm_op m = ''data'' then
        (if gm_request m = 0 \<or> gm_total m \<le> 0 \<or> int max_object < gm_total m \<or> gm_offset m < 0
            \<or> gm_total m \<le> gm_offset m \<or> gm_offset m mod int chunk_size \<noteq> 0
            \<or> int (length (gm_data m)) \<noteq> min (int chunk_size) (gm_total m - gm_offset m)
         then Some BadChunk else None)
      else Some UnknownOp)"

type_synonym gid = "byte \<times> bytes"

definition identify_artifact :: "(bytes \<Rightarrow> bytes) \<Rightarrow> byte \<Rightarrow> bytes \<Rightarrow> gid" where
  "identify_artifact sha kind data = (kind,
     sha (map (\<lambda>c. of_nat (of_char c)) ''wendy-mesh-artifact/1'' @ [0] @ [kind]
       @ be_bytes 4 (word_of_nat (length data) :: u32) @ data))"

definition gossip_id :: "gossip_message \<Rightarrow> gid" where
  "gossip_id m = (gm_type m, take 32 (gm_digest m @ replicate 32 0))"

definition gossip_msg :: "string \<Rightarrow> gid \<Rightarrow> u64 \<Rightarrow> gossip_message" where
  "gossip_msg op g request = \<lparr>gm_version = gossip_version, gm_op = op, gm_type = fst g,
     gm_digest = snd g, gm_request = request, gm_offset = 0, gm_total = 0, gm_data = []\<rparr>"

definition unavailable_msg :: "gossip_message \<Rightarrow> gossip_message" where
  "unavailable_msg m = gossip_msg ''unavailable'' (gossip_id m) (gm_request m)"

definition gone_msg :: "gid \<Rightarrow> gossip_message" where
  "gone_msg g = gossip_msg ''gone'' g 0"

subsection \<open>State\<close>

record gossip_object =
  ob_data :: bytes
  ob_load :: "(int \<Rightarrow> bytes) option"
  ob_expires :: int
  ob_used :: int

record gossip_fetch =
  fe_owner :: u64
  fe_request :: u64
  fe_suppliers :: "(u64, int) gomap"
  fe_progress :: int
  fe_data :: bytes
  fe_total :: int
  fe_received :: bool
  fe_avoid :: u64

record gossip_pool =
  gp_objects :: "(gid, gossip_object) gomap"
  gp_pending :: "(gid, gossip_fetch) gomap"
  gp_owner :: u64
  gp_request :: u64
  gp_bytes :: int
  gp_serving :: int

record transfer =
  tr_message :: gossip_message
  tr_data :: bytes
  tr_offset :: nat

record gossip_session =
  gs_owner :: u64
  gs_kind :: byte
  gs_seen :: "(gid, int) gomap"
  gs_unavailable :: "gid set"
  gs_out :: "transfer list"
  gs_closed :: bool

definition new_pool :: gossip_pool where
  "new_pool = \<lparr>gp_objects = [], gp_pending = [], gp_owner = 0, gp_request = 0, gp_bytes = 0, gp_serving = 0\<rparr>"

definition new_session :: "byte \<Rightarrow> gossip_pool \<Rightarrow> gossip_session \<times> gossip_pool" where
  "new_session kind p = (\<lparr>gs_owner = gp_owner p + 1, gs_kind = kind, gs_seen = [], gs_unavailable = {},
     gs_out = [], gs_closed = False\<rparr>, p\<lparr>gp_owner := gp_owner p + 1\<rparr>)"

subsection \<open>The pool\<close>

abbreviation body_size :: "gossip_object \<Rightarrow> int" where
  "body_size x \<equiv> int (length (ob_data x))"

definition prune_objects :: "int \<Rightarrow> gossip_pool \<Rightarrow> gossip_pool" where
  "prune_objects now p = p\<lparr>
     gp_bytes := gp_bytes p - m_sum body_size (filter (\<lambda>(_, x). ob_expires x \<le> now) (gp_objects p)),
     gp_objects := filter (\<lambda>(_, x). now < ob_expires x) (gp_objects p)\<rparr>"

definition prune_fetch :: "int \<Rightarrow> gossip_fetch \<Rightarrow> gossip_fetch" where
  "prune_fetch now f =
     (let f = f\<lparr>fe_suppliers := filter (\<lambda>(_, until). now < until) (fe_suppliers f)\<rparr> in
      if fe_suppliers f \<noteq> [] \<and> fe_owner f \<noteq> 0 \<and> \<not> fe_received f \<and> idle_timeout \<le> now - fe_progress f
      then f\<lparr>fe_avoid := fe_owner f, fe_owner := 0, fe_data := [], fe_total := 0\<rparr>
      else f)"

definition prune_gossip :: "int \<Rightarrow> gossip_pool \<Rightarrow> gossip_pool" where
  "prune_gossip now p =
     (let p = prune_objects now p in
      p\<lparr>gp_pending := filter (\<lambda>(_, f). fe_suppliers f \<noteq> []) (m_adj (\<lambda>_. prune_fetch now) (gp_pending p))\<rparr>)"

text \<open>The least recently used object, the first one in the iteration order on a tie.\<close>

definition older :: "bool \<Rightarrow> gid \<times> gossip_object \<Rightarrow> (gid \<times> int) option \<Rightarrow> (gid \<times> int) option" where
  "older payload_only e best =
     (if payload_only \<and> ob_data (snd e) = [] then best
      else (case best of None \<Rightarrow> Some (fst e, ob_used (snd e))
            | Some (_, t) \<Rightarrow> if ob_used (snd e) < t then Some (fst e, ob_used (snd e)) else best))"

definition oldest_object :: "(gid \<Rightarrow> nat) \<Rightarrow> bool \<Rightarrow> (gid, gossip_object) gomap \<Rightarrow> (gid \<times> int) option" where
  "oldest_object rank payload_only xs = fold (older payload_only) (sort_key (\<lambda>e. rank (fst e)) xs) None"

definition drop_object :: "bool \<Rightarrow> gid \<Rightarrow> gossip_pool \<Rightarrow> gossip_pool" where
  "drop_object payload_only g p =
     (let p = p\<lparr>gp_bytes := gp_bytes p - m_val body_size (gp_objects p) g\<rparr> in
      if payload_only then p\<lparr>gp_objects := m_adj (\<lambda>k x. if k = g then x\<lparr>ob_data := []\<rparr> else x) (gp_objects p)\<rparr>
      else p\<lparr>gp_objects := m_del g (gp_objects p)\<rparr>)"

definition evict_weight :: "gossip_pool \<Rightarrow> nat" where
  "evict_weight p = length (gp_objects p) + length (filter (\<lambda>e. ob_data (snd e) \<noteq> []) (gp_objects p))"

lemma older_fold_Some:
  "fold (older b) xs best = Some (k, t) \<Longrightarrow>
     best = Some (k, t) \<or> (\<exists>x. (k, x) \<in> set xs \<and> (b \<longrightarrow> ob_data x \<noteq> []))"
proof (induction xs arbitrary: best)
  case (Cons e xs)
  then have "older b e best = Some (k, t) \<or> (\<exists>x. (k, x) \<in> set xs \<and> (b \<longrightarrow> ob_data x \<noteq> []))" by simp
  then show ?case by (cases e) (auto simp: older_def split: if_splits option.splits)
qed simp

lemma oldest_object_Some:
  "oldest_object rank b xs = Some (k, t) \<Longrightarrow> \<exists>x. (k, x) \<in> set xs \<and> (b \<longrightarrow> ob_data x \<noteq> [])"
  using older_fold_Some [of b "sort_key (\<lambda>e. rank (fst e)) xs" None] by (auto simp: oldest_object_def)

lemma filter_map_less:
  "x \<in> set xs \<Longrightarrow> P x \<Longrightarrow> \<not> P (f x) \<Longrightarrow> (\<And>y. P (f y) \<Longrightarrow> P y) \<Longrightarrow>
     length (filter P (map f xs)) < length (filter P xs)"
proof (induction xs)
  case (Cons a xs)
  have le: "length (filter P (map f xs)) \<le> length (filter P xs)"
    using Cons.prems(4) by (induction xs) auto
  show ?case
  proof (cases "x = a")
    case True then show ?thesis using Cons.prems le by simp
  next
    case False then show ?thesis using Cons by auto
  qed
qed simp

lemma drop_object_weight:
  assumes "(g, x) \<in> set (gp_objects p)" "b \<longrightarrow> ob_data x \<noteq> []"
  shows "evict_weight (drop_object b g p) < evict_weight p"
proof (cases b)
  case True
  let ?f = "\<lambda>(k, y). (k, if k = g then y\<lparr>ob_data := []\<rparr> else y)"
  have eq: "gp_objects (drop_object b g p) = map ?f (gp_objects p)"
    using True by (simp add: drop_object_def Let_def m_adj_def)
  have "length (filter (\<lambda>e. ob_data (snd e) \<noteq> []) (map ?f (gp_objects p)))
      < length (filter (\<lambda>e. ob_data (snd e) \<noteq> []) (gp_objects p))"
    by (rule filter_map_less [OF assms(1)]) (use True assms(2) in \<open>auto split: if_splits\<close>)
  then show ?thesis unfolding evict_weight_def eq by simp
next
  case False
  have eq: "gp_objects (drop_object b g p) = m_del g (gp_objects p)"
    using False by (simp add: drop_object_def Let_def)
  have "length (m_del g (gp_objects p)) < length (gp_objects p)"
    unfolding m_del_def using assms(1) by (rule length_filter_less) simp
  moreover have "length (filter Q (m_del g xs)) \<le> length (filter Q xs)" for Q and xs :: "(gid, gossip_object) gomap"
    by (induction xs) (auto simp: m_del_def)
  ultimately show ?thesis unfolding evict_weight_def eq by (simp add: add_less_le_mono)
qed

function make_space :: "(gossip_pool \<Rightarrow> gid \<Rightarrow> nat) \<Rightarrow> nat \<Rightarrow> gossip_pool \<Rightarrow> gossip_pool" where
  "make_space order n p =
     (if length (gp_objects p) < max_known \<and> gp_bytes p + int n \<le> max_bytes then p
      else
        (let payload_only = length (gp_objects p) < max_known in
         case oldest_object (order p) payload_only (gp_objects p) of
           None \<Rightarrow> p
         | Some (g, _) \<Rightarrow> make_space order n (drop_object payload_only g p)))"
  by pat_completeness auto
termination
  by (relation "measure (\<lambda>(_, _, p). evict_weight p)") (auto dest!: oldest_object_Some intro: drop_object_weight)

declare make_space.simps [simp del]

definition forget_object :: "gid \<Rightarrow> gossip_pool \<Rightarrow> (int \<Rightarrow> bytes) option \<times> gossip_pool" where
  "forget_object g p = (case map_of (gp_objects p) g of
     None \<Rightarrow> (None, p)
   | Some x \<Rightarrow> (ob_load x, p\<lparr>gp_bytes := gp_bytes p - body_size x, gp_objects := m_del g (gp_objects p)\<rparr>))"

definition remember :: "(gossip_pool \<Rightarrow> gid \<Rightarrow> nat) \<Rightarrow> gid \<Rightarrow> bytes \<Rightarrow> int \<Rightarrow> int \<Rightarrow> gossip_pool \<Rightarrow> gossip_pool" where
  "remember order g data expires now p =
     (if expires \<le> now then p
      else
        (let (load, p) = forget_object g (prune_gossip now p);
             p = make_space order (length data) p
         in p\<lparr>gp_objects := m_put g \<lparr>ob_data = data, ob_load = load, ob_expires = expires, ob_used = now\<rparr> (gp_objects p),
              gp_bytes := gp_bytes p + int (length data), gp_pending := m_del g (gp_pending p)\<rparr>))"

subsection \<open>Sessions\<close>

definition offer :: "(bytes \<Rightarrow> bytes) \<Rightarrow> (gossip_pool \<Rightarrow> gid \<Rightarrow> nat) \<Rightarrow> bytes \<Rightarrow> int \<Rightarrow> int
    \<Rightarrow> (int \<Rightarrow> bytes) option \<Rightarrow> gossip_session \<Rightarrow> gossip_pool \<Rightarrow> gossip_message option \<times> gossip_pool" where
  "offer sha order data expires now loader s p =
     (if gs_closed s \<or> data = [] \<or> max_object < length data \<or> expires \<le> now then (None, p)
      else
        (let g = identify_artifact sha (gs_kind s) data;
             p = remember order g data expires now p;
             p = (if loader \<noteq> None
               then p\<lparr>gp_objects := m_adj (\<lambda>k x. if k = g then x\<lparr>ob_load := loader\<rparr> else x) (gp_objects p)\<rparr> else p)
         in (Some (gossip_msg ''have'' g 0), p)))"

text \<open>
  \<open>Lookup\<close> reads the object under the lock (\<open>lookup_read\<close>); the body comes from the object or, outside
  the lock, from its loader, and a loaded body is checked and stored (\<open>lookup_store\<close>).
\<close>

definition lookup_read :: "gid \<Rightarrow> int \<Rightarrow> gossip_session \<Rightarrow> gossip_pool \<Rightarrow> gossip_object option \<times> gossip_pool" where
  "lookup_read g now s p =
     (if gs_closed s \<or> fst g \<noteq> gs_kind s then (None, p)
      else (let p = prune_gossip now p in (map_of (gp_objects p) g, p)))"

definition lookup_body :: "(bytes \<Rightarrow> bytes) \<Rightarrow> gid \<Rightarrow> int \<Rightarrow> gossip_object \<Rightarrow> bytes \<times> bool" where
  "lookup_body sha g now x =
     (if ob_data x \<noteq> [] then (ob_data x, False)
      else (case ob_load x of
          None \<Rightarrow> ([], False)
        | Some load \<Rightarrow>
            (let data = load now in
             if data = [] \<or> max_object < length data \<or> identify_artifact sha (fst g) data \<noteq> g then ([], False)
             else (data, True))))"

definition lookup_store :: "(gossip_pool \<Rightarrow> gid \<Rightarrow> nat) \<Rightarrow> gid \<Rightarrow> bytes \<Rightarrow> int \<Rightarrow> int \<Rightarrow> gossip_pool \<Rightarrow> gossip_pool" where
  "lookup_store order g data expires now p = remember order g data expires now p"

definition resolve :: "(bytes \<Rightarrow> bytes) \<Rightarrow> (gossip_pool \<Rightarrow> gid \<Rightarrow> nat) \<Rightarrow> bytes \<Rightarrow> int \<Rightarrow> int \<Rightarrow> bool
    \<Rightarrow> gossip_session \<Rightarrow> gossip_pool \<Rightarrow> gossip_pool" where
  "resolve sha order data expires now accepted s p =
     (let g = identify_artifact sha (gs_kind s) data in
      if accepted then remember order g data expires now p
      else remember order g [] (now + idle_timeout) now p)"

definition put_fetch :: "gid \<Rightarrow> gossip_fetch \<Rightarrow> gossip_pool \<Rightarrow> gossip_pool" where
  "put_fetch g f p = p\<lparr>gp_pending := m_put g f (gp_pending p)\<rparr>"

definition del_fetch :: "gid \<Rightarrow> gossip_pool \<Rightarrow> gossip_pool" where
  "del_fetch g p = p\<lparr>gp_pending := m_del g (gp_pending p)\<rparr>"

definition forget_hint :: "gid \<Rightarrow> gossip_session \<Rightarrow> gossip_session" where
  "forget_hint g s = s\<lparr>gs_seen := m_del g (gs_seen s), gs_unavailable := gs_unavailable s - {g}\<rparr>"

definition discard_artifact :: "(bytes \<Rightarrow> bytes) \<Rightarrow> bytes \<Rightarrow> gossip_session \<Rightarrow> gossip_pool \<Rightarrow> gossip_session \<times> gossip_pool" where
  "discard_artifact sha data s p =
     (let g = identify_artifact sha (gs_kind s) data;
          p = (case map_of (gp_pending p) g of
              None \<Rightarrow> p
            | Some f \<Rightarrow>
                if fe_owner f = gs_owner s then
                  (let f = f\<lparr>fe_suppliers := m_del (gs_owner s) (fe_suppliers f), fe_owner := 0, fe_request := 0,
                         fe_data := [], fe_total := 0, fe_received := False\<rparr>
                   in if fe_suppliers f = [] then del_fetch g p else put_fetch g f p)
                else p)
      in (forget_hint g s, p))"

text \<open>A zero time stands for a hint that is missing; the callers of \<open>claim\<close> have just stored or read it.\<close>

definition seen_until :: "gossip_session \<Rightarrow> gid \<Rightarrow> int" where
  "seen_until s g = (case map_of (gs_seen s) g of None \<Rightarrow> 0 | Some t \<Rightarrow> t)"

definition in_flight :: "gossip_pool \<Rightarrow> nat" where
  "in_flight p = length (filter (\<lambda>(_, f). fe_owner f \<noteq> 0) (gp_pending p))"

definition in_flight_of :: "u64 \<Rightarrow> gossip_pool \<Rightarrow> nat" where
  "in_flight_of owner p = length (filter (\<lambda>(_, f). fe_owner f \<noteq> 0 \<and> fe_owner f = owner) (gp_pending p))"

definition note_supplier :: "gid \<Rightarrow> gossip_session \<Rightarrow> gossip_fetch \<Rightarrow> gossip_fetch" where
  "note_supplier g s f =
     (if map_of (fe_suppliers f) (gs_owner s) \<noteq> None \<or> length (fe_suppliers f) < max_suppliers
      then f\<lparr>fe_suppliers := m_put (gs_owner s) (seen_until s g) (fe_suppliers f)\<rparr> else f)"

definition empty_fetch :: gossip_fetch where
  "empty_fetch = \<lparr>fe_owner = 0, fe_request = 0, fe_suppliers = [], fe_progress = 0, fe_data = [],
     fe_total = 0, fe_received = False, fe_avoid = 0\<rparr>"

definition grant :: "gid \<Rightarrow> gossip_fetch \<Rightarrow> int \<Rightarrow> gossip_session \<Rightarrow> gossip_pool
    \<Rightarrow> gossip_message option \<times> gossip_session \<times> gossip_pool" where
  "grant g f now s p =
     (let request = gp_request p + 1 in
      (Some (gossip_msg ''want'' g request), s,
       put_fetch g (f\<lparr>fe_owner := gs_owner s, fe_request := request, fe_progress := now\<rparr>)
         (p\<lparr>gp_request := request\<rparr>)))"

definition claim_artifact :: "gid \<Rightarrow> int \<Rightarrow> gossip_session \<Rightarrow> gossip_pool
    \<Rightarrow> gossip_message option \<times> gossip_session \<times> gossip_pool" where
  "claim_artifact g now s p =
     (if map_of (gp_objects p) g \<noteq> None then (None, forget_hint g s, p)
      else if g \<in> gs_unavailable s then (None, s, p)
      else
        (let full = (\<lambda>p. max_in_flight \<le> in_flight p \<or> max_per_peer \<le> in_flight_of (gs_owner s) p) in
         case map_of (gp_pending p) g of
           Some f \<Rightarrow>
             (let f = note_supplier g s f; p = put_fetch g f p in
              if fe_owner f \<noteq> 0 \<or> fe_avoid f = gs_owner s \<and> 1 < length (fe_suppliers f) then (None, s, p)
              else if full p then (None, s, p)
              else grant g f now s p)
         | None \<Rightarrow>
             if full p \<or> max_pending \<le> length (gp_pending p) then (None, s, p)
             else grant g (empty_fetch\<lparr>fe_suppliers := [(gs_owner s, seen_until s g)]\<rparr>) now s p))"

definition next_chunk :: "gossip_session \<Rightarrow> gossip_pool \<Rightarrow> gossip_message option \<times> gossip_session \<times> gossip_pool" where
  "next_chunk s p = (case gs_out s of
     [] \<Rightarrow> (None, s, p)
   | x # xs \<Rightarrow>
       (let stop = min (tr_offset x + chunk_size) (length (tr_data x));
            m = (tr_message x)\<lparr>gm_offset := int (tr_offset x), gm_total := int (length (tr_data x)),
                  gm_data := take (stop - tr_offset x) (drop (tr_offset x) (tr_data x))\<rparr>
        in if stop = length (tr_data x)
           then (Some m, s\<lparr>gs_out := xs\<rparr>, p\<lparr>gp_serving := gp_serving p - 1\<rparr>)
           else (Some m, s\<lparr>gs_out := xs @ [x\<lparr>tr_offset := stop\<rparr>]\<rparr>, p)))"

subsection \<open>Receiving\<close>

definition receive_gone :: "gid \<Rightarrow> gossip_session \<Rightarrow> gossip_pool \<Rightarrow> gossip_session \<times> gossip_pool" where
  "receive_gone g s p =
     (forget_hint g s,
      case map_of (gp_pending p) g of
        None \<Rightarrow> p
      | Some f \<Rightarrow>
          (let f = f\<lparr>fe_suppliers := m_del (gs_owner s) (fe_suppliers f)\<rparr>;
               f = (if fe_owner f = gs_owner s \<and> \<not> fe_received f
                 then f\<lparr>fe_owner := 0, fe_request := 0, fe_avoid := gs_owner s, fe_data := [], fe_total := 0\<rparr>
                 else f)
           in if fe_owner f = 0 \<and> fe_suppliers f = [] then del_fetch g p else put_fetch g f p))"

definition receive_have :: "gid \<Rightarrow> int \<Rightarrow> gossip_session \<Rightarrow> gossip_pool
    \<Rightarrow> (gossip_error option \<times> gossip_message option) \<times> gossip_session \<times> gossip_pool" where
  "receive_have g now s p =
     (if map_of (gp_objects p) g \<noteq> None then
        ((None, None), s, p\<lparr>gp_objects := m_adj (\<lambda>k x. if k = g then x\<lparr>ob_used := now\<rparr> else x) (gp_objects p)\<rparr>)
      else if map_of (gs_seen s) g = None \<and> max_known \<le> length (gs_seen s) then ((Some TooManyHints, None), s, p)
      else
        (case claim_artifact g now (s\<lparr>gs_unavailable := gs_unavailable s - {g},
               gs_seen := m_put g (now + hint_lifetime) (gs_seen s)\<rparr>) p of
           (reply, s, p) \<Rightarrow> ((None, reply), s, p)))"

definition receive_want :: "bool \<Rightarrow> gossip_message \<Rightarrow> gid \<Rightarrow> gossip_session \<Rightarrow> gossip_pool
    \<Rightarrow> gossip_message option \<times> gossip_session \<times> gossip_pool" where
  "receive_want deferred m g s p =
     (if \<exists>x \<in> set (gs_out s). gm_request (tr_message x) = gm_request m then (None, s, p)
      else
        (let data = (case map_of (gp_objects p) g of None \<Rightarrow> [] | Some x \<Rightarrow> ob_data x) in
         if data = [] \<or> max_per_peer \<le> length (gs_out s) \<or> int max_in_flight \<le> gp_serving p
         then (Some (gossip_msg ''unavailable'' g (gm_request m)), s, p)
         else
           (let s = s\<lparr>gs_out := gs_out s @ [\<lparr>tr_message = gossip_msg ''data'' g (gm_request m),
                  tr_data = data, tr_offset = 0\<rparr>]\<rparr>;
                p = p\<lparr>gp_serving := gp_serving p + 1\<rparr>
            in if deferred then (None, s, p) else next_chunk s p)))"

definition receive_unavailable :: "gossip_message \<Rightarrow> gid \<Rightarrow> gossip_session \<Rightarrow> gossip_pool
    \<Rightarrow> gossip_session \<times> gossip_pool" where
  "receive_unavailable m g s p = (case map_of (gp_pending p) g of
     None \<Rightarrow> (s, p)
   | Some f \<Rightarrow>
       if fe_owner f = gs_owner s \<and> fe_request f = gm_request m \<and> \<not> fe_received f
       then (s\<lparr>gs_unavailable := insert g (gs_unavailable s)\<rparr>,
         put_fetch g (f\<lparr>fe_suppliers := m_del (gs_owner s) (fe_suppliers f), fe_owner := 0, fe_data := [],
           fe_total := 0\<rparr>) p)
       else (s, p))"

definition receive_data :: "(bytes \<Rightarrow> bytes) \<Rightarrow> gossip_message \<Rightarrow> gid \<Rightarrow> int \<Rightarrow> gossip_session \<Rightarrow> gossip_pool
    \<Rightarrow> (gossip_error option \<times> bytes option) \<times> gossip_pool" where
  "receive_data sha m g now s p = (case map_of (gp_pending p) g of
     None \<Rightarrow> ((None, None), p)
   | Some f \<Rightarrow>
       if fe_owner f \<noteq> gs_owner s \<or> fe_request f \<noteq> gm_request m \<or> fe_received f then ((None, None), p)
       else if gm_offset m \<noteq> int (length (fe_data f)) \<or> fe_total f \<noteq> 0 \<and> fe_total f \<noteq> gm_total m
         then ((Some UnorderedData, None), p)
       else
         (let f = f\<lparr>fe_total := gm_total m, fe_data := fe_data f @ gm_data m, fe_progress := now\<rparr> in
          if int (length (fe_data f)) = fe_total f then
            (if identify_artifact sha (gs_kind s) (fe_data f) \<noteq> g then ((Some DigestMismatch, None), put_fetch g f p)
             else ((None, Some (fe_data f)), put_fetch g (f\<lparr>fe_data := [], fe_received := True\<rparr>) p))
          else ((None, None), put_fetch g f p)))"

text \<open>The error, the reply and the complete body, if any.\<close>

definition receive_gossip :: "(bytes \<Rightarrow> bytes) \<Rightarrow> bool \<Rightarrow> gossip_message \<Rightarrow> int \<Rightarrow> gossip_session \<Rightarrow> gossip_pool
    \<Rightarrow> (gossip_error option \<times> gossip_message option \<times> bytes option) \<times> gossip_session \<times> gossip_pool" where
  "receive_gossip sha deferred m now s p =
     (case validate_gossip m of
        Some err \<Rightarrow> ((Some err, None, None), s, p)
      | None \<Rightarrow>
          if future_type m \<or> \<not> known_op (gm_op m) then ((None, None, None), s, p)
          else if gs_closed s \<or> gm_type m \<noteq> gs_kind s then ((Some SessionMismatch, None, None), s, p)
          else
            (let p = prune_gossip now p; g = gossip_id m in
             if gm_op m = ''gone'' then
               (case receive_gone g s p of (s, p) \<Rightarrow> ((None, None, None), s, p))
             else if gm_op m = ''have'' then
               (case receive_have g now s p of ((err, reply), s, p) \<Rightarrow> ((err, reply, None), s, p))
             else if gm_op m = ''want'' then
               (case receive_want deferred m g s p of (reply, s, p) \<Rightarrow> ((None, reply, None), s, p))
             else if gm_op m = ''unavailable'' then
               (case receive_unavailable m g s p of (s, p) \<Rightarrow> ((None, None, None), s, p))
             else
               (case receive_data sha m g now s p of ((err, body), p) \<Rightarrow> ((err, None, body), s, p))))"

subsection \<open>Polling and closing\<close>

fun poll_chunks :: "nat \<Rightarrow> gossip_session \<Rightarrow> gossip_pool \<Rightarrow> gossip_message list \<times> gossip_session \<times> gossip_pool" where
  "poll_chunks 0 s p = ([], s, p)"
| "poll_chunks (Suc n) s p = (case next_chunk s p of
     (None, s, p) \<Rightarrow> ([], s, p)
   | (Some m, s, p) \<Rightarrow> (case poll_chunks n s p of (ms, s, p) \<Rightarrow> (m # ms, s, p)))"

text \<open>The hints are visited in ascending order of their digests; a session has one kind of artifact.\<close>

definition poll_hint :: "nat \<Rightarrow> int \<Rightarrow> gid \<Rightarrow> gossip_message list \<times> gossip_session \<times> gossip_pool
    \<Rightarrow> gossip_message list \<times> gossip_session \<times> gossip_pool" where
  "poll_hint budget now g = (\<lambda>(out, s, p).
     if seen_until s g \<le> now then (out, forget_hint g s, p)
     else if length out < budget then
       (case claim_artifact g now s p of
          (None, s, p) \<Rightarrow> (out, s, p)
        | (Some m, s, p) \<Rightarrow> (out @ [m], s, p))
     else (out, s, p))"

definition poll_budget :: "int option \<Rightarrow> nat" where
  "poll_budget slots = (case slots of None \<Rightarrow> 12 | Some n \<Rightarrow> min 12 (nat n))"

definition poll_gossip :: "int option \<Rightarrow> int \<Rightarrow> gossip_session \<Rightarrow> gossip_pool
    \<Rightarrow> gossip_message list \<times> gossip_session \<times> gossip_pool" where
  "poll_gossip slots now s p =
     (if gs_closed s then ([], s, p)
      else
        (let budget = poll_budget slots; p = prune_gossip now p in
         case poll_chunks (min 8 budget) s p of
           (out, s, p) \<Rightarrow> fold (poll_hint budget now) (m_keys (gs_seen s)) (out, s, p)))"

definition gossip_waits :: "int \<Rightarrow> gossip_session \<Rightarrow> gossip_pool \<Rightarrow> bool" where
  "gossip_waits now s p \<longleftrightarrow> (\<exists>e \<in> set (gs_seen s). now < snd e \<and> map_of (gp_objects p) (fst e) = None)"

definition release_fetch :: "u64 \<Rightarrow> gossip_fetch \<Rightarrow> gossip_fetch" where
  "release_fetch owner f =
     (let f = f\<lparr>fe_suppliers := m_del owner (fe_suppliers f)\<rparr> in
      if fe_owner f = owner then f\<lparr>fe_owner := 0, fe_received := False, fe_data := [], fe_total := 0\<rparr> else f)"

definition close_gossip :: "gossip_session \<Rightarrow> gossip_pool \<Rightarrow> gossip_session \<times> gossip_pool" where
  "close_gossip s p =
     (if gs_closed s then (s, p)
      else (s\<lparr>gs_closed := True, gs_out := [], gs_seen := [], gs_unavailable := {}\<rparr>,
        p\<lparr>gp_serving := gp_serving p - int (length (gs_out s)),
          gp_pending := filter (\<lambda>(_, f). fe_suppliers f \<noteq> []) (m_adj (\<lambda>_. release_fetch (gs_owner s)) (gp_pending p))\<rparr>))"

end
