(* ===== verification/Mesh_Gossip_Inv.thy ===== *)
theory Mesh_Gossip_Inv
  imports Mesh_Gossip
begin

section \<open>Announcement gossip: the invariant\<close>

text \<open>
  \<open>pool_ok\<close> is what every operation keeps of the pool: the byte count, the bounds, and that a body is
  stored under its own digest; \<open>L\<close> is the set of owners that may hold claims. \<open>session_ok\<close> is the same
  for a session. Claims are counted by sums over the pending map, so that the map lemmas of the
  prelude carry the bounds.
\<close>

subsection \<open>Counting claims\<close>

definition claim_weight :: "(u64 \<Rightarrow> bool) \<Rightarrow> gossip_fetch \<Rightarrow> int" where
  "claim_weight Q f = (if fe_owner f \<noteq> 0 \<and> Q (fe_owner f) then 1 else 0)"

definition claims :: "(u64 \<Rightarrow> bool) \<Rightarrow> gossip_pool \<Rightarrow> int" where
  "claims Q p = m_sum (claim_weight Q) (gp_pending p)"

lemma count_filter_sum:
  "int (length (filter (\<lambda>(_, f). fe_owner f \<noteq> 0 \<and> Q (fe_owner f)) m)) = m_sum (claim_weight Q) m"
  by (induction m) (auto simp: claim_weight_def)

lemma claims_in_flight: "int (in_flight p) = claims (\<lambda>_. True) p"
  using count_filter_sum [of "\<lambda>_. True"] by (simp add: in_flight_def claims_def)

lemma claims_in_flight_of: "int (in_flight_of k p) = claims (\<lambda>q. q = k) p"
  using count_filter_sum [of "\<lambda>q. q = k"] by (simp add: in_flight_of_def claims_def)

lemma filter_len: "length xs \<le> n \<Longrightarrow> length (filter P xs) \<le> n"
  using length_filter_le le_trans by blast

lemma m_sum_filter_le: "(\<And>v. 0 \<le> w v) \<Longrightarrow> m_sum w (filter P m) \<le> m_sum w m"
  by (induction m) (auto simp: add_increasing)

lemma m_sum_adj_le: "(\<And>v. w (h v) \<le> w v) \<Longrightarrow> m_sum w (m_adj (\<lambda>_. h) m) \<le> m_sum w m"
  by (induction m) (auto simp: m_adj_def add_mono)

lemma claim_weight_nonneg [simp]: "0 \<le> claim_weight Q f"
  by (simp add: claim_weight_def)

lemma claim_weight_quiet: "fe_owner f = 0 \<Longrightarrow> claim_weight Q f = 0"
  by (simp add: claim_weight_def)

text \<open>An update that lets a claim go or leaves it alone.\<close>

definition quieter :: "gossip_fetch \<Rightarrow> gossip_fetch \<Rightarrow> bool" where
  "quieter f f' \<longleftrightarrow> fe_owner f' = 0 \<or> fe_owner f' = fe_owner f"

lemma claim_weight_quieter: "quieter f f' \<Longrightarrow> claim_weight Q f' \<le> claim_weight Q f"
  by (auto simp: quieter_def claim_weight_def)

lemma claims_put_quieter:
  "m_ok (gp_pending p) \<Longrightarrow> map_of (gp_pending p) g = Some f \<Longrightarrow> quieter f f' \<Longrightarrow> claims Q (put_fetch g f' p) \<le> claims Q p"
  using claim_weight_quieter [of f f' Q] by (simp add: claims_def put_fetch_def m_sum_put m_val_def)

lemma claims_del: "m_ok (gp_pending p) \<Longrightarrow> claims Q (del_fetch g p) \<le> claims Q p"
  by (simp add: claims_def del_fetch_def m_sum_del m_val_def split: option.split)

subsection \<open>The pool\<close>

definition fetch_ok :: "u64 set \<Rightarrow> gossip_fetch \<Rightarrow> bool" where
  "fetch_ok L f \<longleftrightarrow> m_ok (fe_suppliers f) \<and> length (fe_suppliers f) \<le> max_suppliers
     \<and> (fe_owner f = 0 \<or> fe_owner f \<in> L) \<and> (fe_owner f = 0 \<longrightarrow> fe_data f = [] \<and> fe_total f = 0 \<and> \<not> fe_received f)
     \<and> (fe_received f \<longrightarrow> fe_data f = []) \<and> int (length (fe_data f)) \<le> fe_total f \<and> fe_total f \<le> int max_object"

definition object_ok :: "(bytes \<Rightarrow> bytes) \<Rightarrow> gid \<Rightarrow> gossip_object \<Rightarrow> bool" where
  "object_ok sha g x \<longleftrightarrow> length (ob_data x) \<le> max_object
     \<and> (ob_data x \<noteq> [] \<longrightarrow> identify_artifact sha (fst g) (ob_data x) = g)"

definition pool_ok :: "(bytes \<Rightarrow> bytes) \<Rightarrow> u64 set \<Rightarrow> gossip_pool \<Rightarrow> bool" where
  "pool_ok sha L p \<longleftrightarrow> m_all (object_ok sha) (gp_objects p) \<and> length (gp_objects p) \<le> max_known
     \<and> gp_bytes p = m_sum body_size (gp_objects p) \<and> gp_bytes p \<le> max_bytes
     \<and> m_all (\<lambda>_. fetch_ok L) (gp_pending p) \<and> length (gp_pending p) \<le> max_pending
     \<and> claims (\<lambda>_. True) p \<le> int max_in_flight \<and> (\<forall>k. claims (\<lambda>q. q = k) p \<le> int max_per_peer)"

lemma pool_okD:
  assumes "pool_ok sha L p"
  shows "m_ok (gp_objects p)" "m_ok (gp_pending p)" "gp_bytes p = m_sum body_size (gp_objects p)"
    "map_of (gp_pending p) g = Some f \<Longrightarrow> fetch_ok L f" "map_of (gp_objects p) k = Some x \<Longrightarrow> object_ok sha k x"
  using assms m_all_get [of "\<lambda>_. fetch_ok L" "gp_pending p"] m_all_get [of "object_ok sha" "gp_objects p"]
  by (auto simp: pool_ok_def)

text \<open>What concerns only the pending map.\<close>

lemma pool_ok_pending:
  assumes "pool_ok sha L p" "gp_objects p' = gp_objects p" "gp_bytes p' = gp_bytes p"
    "m_all (\<lambda>_. fetch_ok L') (gp_pending p')" "length (gp_pending p') \<le> length (gp_pending p)"
    "\<And>Q. claims Q p' \<le> claims Q p"
  shows "pool_ok sha L' p'"
  using assms(1-5) assms(6) [of "\<lambda>_. True"] assms(6) [of "\<lambda>q. q = k" for k] order_trans
  unfolding pool_ok_def by (metis (no_types, lifting))

lemma pool_ok_put:
  assumes ok: "pool_ok sha L p" and f: "map_of (gp_pending p) g = Some f" "quieter f f'" "fetch_ok L f'"
  shows "pool_ok sha L (put_fetch g f' p)"
proof (rule pool_ok_pending [OF ok])
  show "m_all (\<lambda>_. fetch_ok L) (gp_pending (put_fetch g f' p))"
    using ok f(3) by (auto simp: put_fetch_def pool_ok_def)
  show "length (gp_pending (put_fetch g f' p)) \<le> length (gp_pending p)"
    using length_m_put_present [OF pool_okD(2) [OF ok], of g f'] f(1) by (simp add: put_fetch_def)
  show "claims Q (put_fetch g f' p) \<le> claims Q p" for Q
    using claims_put_quieter [OF pool_okD(2) [OF ok] f(1,2)] .
qed (simp_all add: put_fetch_def)

lemma pool_ok_del: "pool_ok sha L p \<Longrightarrow> pool_ok sha L (del_fetch g p)"
proof (rule pool_ok_pending)
  assume ok: "pool_ok sha L p"
  show "m_all (\<lambda>_. fetch_ok L) (gp_pending (del_fetch g p))" using ok by (auto simp: del_fetch_def pool_ok_def)
  show "length (gp_pending (del_fetch g p)) \<le> length (gp_pending p)"
    using length_m_del_le [OF pool_okD(2) [OF ok]] by (simp add: del_fetch_def)
  show "claims Q (del_fetch g p) \<le> claims Q p" for Q using claims_del [OF pool_okD(2) [OF ok]] .
qed (simp_all add: del_fetch_def)

text \<open>A pass over all pending downloads.\<close>

lemma pool_ok_pass:
  assumes ok: "pool_ok sha L p" and h: "\<And>f. fetch_ok L f \<Longrightarrow> fetch_ok L' (h f)" "\<And>f. quieter f (h f)"
  shows "pool_ok sha L' (p\<lparr>gp_pending := filter P (m_adj (\<lambda>_. h) (gp_pending p))\<rparr>)"
proof (rule pool_ok_pending [OF ok])
  have "m_all (\<lambda>_. fetch_ok L) (gp_pending p)" using ok by (simp add: pool_ok_def)
  then have "m_all (\<lambda>_. fetch_ok L') (m_adj (\<lambda>_. h) (gp_pending p))" by (rule m_all_adj) (rule h(1))
  then show "m_all (\<lambda>_. fetch_ok L') (gp_pending (p\<lparr>gp_pending := filter P (m_adj (\<lambda>_. h) (gp_pending p))\<rparr>))"
    by auto
  show "length (gp_pending (p\<lparr>gp_pending := filter P (m_adj (\<lambda>_. h) (gp_pending p))\<rparr>)) \<le> length (gp_pending p)"
    using length_filter_le [of P "m_adj (\<lambda>_. h) (gp_pending p)"] by simp
  show "claims Q (p\<lparr>gp_pending := filter P (m_adj (\<lambda>_. h) (gp_pending p))\<rparr>) \<le> claims Q p" for Q
    unfolding claims_def
    using m_sum_filter_le [of "claim_weight Q" P "m_adj (\<lambda>_. h) (gp_pending p)"]
      m_sum_adj_le [of "claim_weight Q" h "gp_pending p"] claim_weight_quieter [OF h(2)] by simp
qed simp_all

lemma m_sum_split: "m_sum w m = m_sum w (filter P m) + m_sum w (filter (\<lambda>e. \<not> P e) m)"
  by (induction m) auto

lemma pool_ok_prune_objects: "pool_ok sha L p \<Longrightarrow> pool_ok sha L (prune_objects now p)"
proof -
  assume ok: "pool_ok sha L p"
  let ?live = "filter (\<lambda>(_, x). now < ob_expires x) (gp_objects p)"
  have sum: "m_sum body_size (gp_objects p) = m_sum body_size ?live
      + m_sum body_size (filter (\<lambda>(_, x). ob_expires x \<le> now) (gp_objects p))"
    using m_sum_split [of body_size "gp_objects p" "\<lambda>(_, x). now < ob_expires x"]
    by (simp add: case_prod_beta' not_less)
  have "0 \<le> m_sum body_size (filter (\<lambda>(_, x). ob_expires x \<le> now) (gp_objects p))"
    by (rule m_sum_nonneg) simp
  then have "gp_bytes (prune_objects now p) \<le> gp_bytes p"
    "gp_bytes (prune_objects now p) = m_sum body_size ?live"
    using ok sum by (simp_all add: prune_objects_def pool_ok_def)
  moreover have "length ?live \<le> max_known" using ok by (auto simp: pool_ok_def intro: filter_len)
  moreover have "m_all (object_ok sha) ?live" using ok by (auto simp: pool_ok_def)
  ultimately show ?thesis using ok by (auto simp: pool_ok_def prune_objects_def claims_def)
qed

lemma prune_fetch_ok: "fetch_ok L f \<Longrightarrow> fetch_ok L (prune_fetch now f)" "quieter f (prune_fetch now f)"
proof -
  show "quieter f (prune_fetch now f)" by (simp add: prune_fetch_def Let_def quieter_def)
  assume f: "fetch_ok L f"
  let ?s = "filter (\<lambda>(_, until). now < until) (fe_suppliers f)"
  have "m_ok ?s" "length ?s \<le> max_suppliers"
    using f by (auto simp: fetch_ok_def intro: filter_len)
  then show "fetch_ok L (prune_fetch now f)"
    using f by (auto simp: prune_fetch_def Let_def fetch_ok_def)
qed

lemma pool_ok_prune: "pool_ok sha L p \<Longrightarrow> pool_ok sha L (prune_gossip now p)"
  unfolding prune_gossip_def Let_def
  by (rule pool_ok_pass [OF pool_ok_prune_objects]) (auto intro: prune_fetch_ok)

subsection \<open>Making room\<close>

lemma m_sum_clear:
  assumes "m_ok m"
  shows "m_sum body_size (m_adj (\<lambda>k x. if k = g then x\<lparr>ob_data := []\<rparr> else x) m)
    = m_sum body_size m - m_val body_size m g"
  using assms
proof (induction m)
  case (Cons e m)
  have ok: "m_ok m" using Cons.prems by (simp add: m_ok_Cons)
  show ?case
  proof (cases "fst e = g")
    case True
    then have "map_of m g = None" using m_ok_Cons_fresh [OF Cons.prems] by simp
    then show ?thesis using Cons.IH [OF ok] True by (cases e) (simp add: m_adj_def m_val_def)
  next
    case False
    then show ?thesis using Cons.IH [OF ok] by (cases e) (simp add: m_adj_def m_val_def)
  qed
qed (simp add: m_adj_def m_val_def)

lemma m_val_nonneg: "(\<And>v. 0 \<le> w v) \<Longrightarrow> 0 \<le> m_val w m k"
  by (simp add: m_val_def split: option.split)

lemma pool_ok_objects:
  assumes "pool_ok sha L p" "gp_pending p' = gp_pending p" "m_all (object_ok sha) (gp_objects p')"
    "length (gp_objects p') \<le> max_known" "gp_bytes p' = m_sum body_size (gp_objects p')" "gp_bytes p' \<le> max_bytes"
  shows "pool_ok sha L p'"
  using assms by (simp add: pool_ok_def claims_def)

lemma drop_object_frame [simp]:
  "gp_pending (drop_object b g p) = gp_pending p" "gp_owner (drop_object b g p) = gp_owner p"
  "gp_request (drop_object b g p) = gp_request p" "gp_serving (drop_object b g p) = gp_serving p"
  by (simp_all add: drop_object_def Let_def)

lemma pool_ok_drop:
  assumes ok: "pool_ok sha L p"
  shows "pool_ok sha L (drop_object b g p)"
proof (rule pool_ok_objects [OF ok])
  note ok' = ok [unfolded pool_ok_def]
  show "m_all (object_ok sha) (gp_objects (drop_object b g p))"
    using ok' by (auto simp: drop_object_def Let_def object_ok_def intro!: m_all_adj)
  show "length (gp_objects (drop_object b g p)) \<le> max_known"
    using ok' by (simp add: drop_object_def Let_def m_del_def filter_len)
  show "gp_bytes (drop_object b g p) = m_sum body_size (gp_objects (drop_object b g p))"
    using ok' pool_okD(1) [OF ok] by (simp add: drop_object_def Let_def m_sum_clear m_sum_del)
  show "gp_bytes (drop_object b g p) \<le> max_bytes"
    using ok' m_val_nonneg [of body_size "gp_objects p" g] by (simp add: drop_object_def Let_def)
qed simp

lemma older_fold_None:
  "fold (older b) xs best = None \<Longrightarrow> best = None \<and> (\<forall>e \<in> set xs. b \<and> ob_data (snd e) = [])"
proof (induction xs arbitrary: best)
  case (Cons e xs)
  then have "older b e best = None" "\<forall>e \<in> set xs. b \<and> ob_data (snd e) = []" by auto
  then show ?case by (auto simp: older_def split: if_splits option.splits)
qed simp

lemma m_sum_empty: "\<forall>e \<in> set m. ob_data (snd e) = [] \<Longrightarrow> m_sum body_size m = 0"
  by (induction m) auto

lemma make_space_ok:
  assumes "pool_ok sha L p" "n \<le> max_object"
  shows "pool_ok sha L (make_space order n p) \<and> gp_pending (make_space order n p) = gp_pending p
    \<and> gp_owner (make_space order n p) = gp_owner p \<and> gp_request (make_space order n p) = gp_request p
    \<and> gp_serving (make_space order n p) = gp_serving p
    \<and> (\<forall>g. map_of (gp_objects p) g = None \<longrightarrow> map_of (gp_objects (make_space order n p)) g = None)
    \<and> length (gp_objects (make_space order n p)) < max_known \<and> gp_bytes (make_space order n p) + int n \<le> max_bytes"
  using assms
proof (induction order n p rule: make_space.induct)
  case (1 order n p)
  show ?case
  proof (cases "length (gp_objects p) < max_known \<and> gp_bytes p + int n \<le> max_bytes")
    case True
    then show ?thesis using 1(2) by (simp add: make_space.simps [of order n p])
  next
    case False
    define b where "b = (length (gp_objects p) < max_known)"
    show ?thesis
    proof (cases "oldest_object (order p) b (gp_objects p)")
      case None
      then have none: "\<forall>e \<in> set (gp_objects p). b \<and> ob_data (snd e) = []"
        using older_fold_None [of b "sort_key (\<lambda>e. order p (fst e)) (gp_objects p)" None]
        by (simp add: oldest_object_def)
      have "b" using none False by (cases "gp_objects p") (auto simp: b_def)
      moreover have "m_sum body_size (gp_objects p) = 0" using none by (intro m_sum_empty) simp
      ultimately show ?thesis using False 1(2,3) by (simp add: b_def pool_ok_def)
    next
      case (Some gt)
      obtain g t where gt: "gt = (g, t)" by fastforce
      have step: "make_space order n p = make_space order n (drop_object b g p)"
        using False Some gt by (subst make_space.simps) (auto simp: b_def Let_def)
      have keep: "map_of (gp_objects (drop_object b g p)) k = None" if "map_of (gp_objects p) k = None" for k
        using that by (simp add: drop_object_def Let_def)
      have "pool_ok sha L (drop_object b g p)" using 1(2) by (rule pool_ok_drop)
      from 1(1) [OF False b_def Some [unfolded gt] refl this 1(3)]
      show ?thesis unfolding step using keep by simp
    qed
  qed
qed

lemma pool_ok_remember:
  assumes ok: "pool_ok sha L p"
    and d: "length d \<le> max_object" "d \<noteq> [] \<longrightarrow> identify_artifact sha (fst g) d = g"
  shows "pool_ok sha L (remember order g d expires now p)"
proof (cases "expires \<le> now")
  case False
  define p1 where "p1 = prune_gossip now p"
  obtain load p2 where fo: "forget_object g p1 = (load, p2)" by fastforce
  define p3 where "p3 = make_space order (length d) p2"
  have p1: "pool_ok sha L p1" unfolding p1_def using ok by (rule pool_ok_prune)
  have p2: "pool_ok sha L p2" "map_of (gp_objects p2) g = None"
  proof -
    show "map_of (gp_objects p2) g = None" using fo by (auto simp: forget_object_def split: option.splits)
    show "pool_ok sha L p2"
    proof (cases "map_of (gp_objects p1) g")
      case None then show ?thesis using fo p1 by (simp add: forget_object_def)
    next
      case (Some x)
      then have "p2 = drop_object False g p1"
        using fo by (auto simp: forget_object_def drop_object_def Let_def m_val_def)
      then show ?thesis using p1 pool_ok_drop by blast
    qed
  qed
  note M = make_space_ok [OF p2(1) d(1), of order, folded p3_def]
  define x where "x = \<lparr>ob_data = d, ob_load = load, ob_expires = expires, ob_used = now\<rparr>"
  define p4 where "p4 = p3\<lparr>gp_objects := m_put g x (gp_objects p3), gp_bytes := gp_bytes p3 + int (length d)\<rparr>"
  have p3: "pool_ok sha L p3" "map_of (gp_objects p3) g = None" using M p2(2) by blast+
  have p3': "m_ok (gp_objects p3)" using pool_okD(1) [OF p3(1)] .
  have "pool_ok sha L p4"
  proof (rule pool_ok_objects [OF p3(1)])
    have "object_ok sha g x" using d by (simp add: object_ok_def x_def)
    then show "m_all (object_ok sha) (gp_objects p4)" using p3(1) by (auto simp: p4_def pool_ok_def)
    show "length (gp_objects p4) \<le> max_known"
      using M length_m_put_absent [OF p3' p3(2), of x] by (simp add: p4_def)
    show "gp_bytes p4 = m_sum body_size (gp_objects p4)"
      using p3 p3' by (simp add: p4_def pool_ok_def m_sum_put m_val_def x_def)
    show "gp_bytes p4 \<le> max_bytes" using M by (simp add: p4_def)
  qed (simp add: p4_def)
  then have "pool_ok sha L (del_fetch g p4)" by (rule pool_ok_del)
  moreover have "remember order g d expires now p = del_fetch g p4"
    using False by (simp add: remember_def p1_def [symmetric] fo p3_def [symmetric] p4_def del_fetch_def x_def)
  ultimately show ?thesis by simp
qed (simp add: remember_def ok)

lemma m_sum_adj: "(\<And>k x. w (f k x) = w x) \<Longrightarrow> m_sum w (m_adj f m) = m_sum w m"
  by (induction m) (auto simp: m_adj_def)

lemma pool_ok_adj_objects:
  assumes ok: "pool_ok sha L p" and f: "\<And>k x. ob_data (f k x) = ob_data x"
  shows "pool_ok sha L (p\<lparr>gp_objects := m_adj f (gp_objects p)\<rparr>)"
proof (rule pool_ok_objects [OF ok])
  have "m_sum body_size (m_adj f (gp_objects p)) = m_sum body_size (gp_objects p)"
    using f by (intro m_sum_adj) simp
  then show "gp_bytes (p\<lparr>gp_objects := m_adj f (gp_objects p)\<rparr>)
      = m_sum body_size (gp_objects (p\<lparr>gp_objects := m_adj f (gp_objects p)\<rparr>))"
    using ok by (simp add: pool_ok_def)
  show "m_all (object_ok sha) (gp_objects (p\<lparr>gp_objects := m_adj f (gp_objects p)\<rparr>))"
    using ok f by (auto simp: pool_ok_def object_ok_def intro!: m_all_adj)
qed (use ok in \<open>auto simp: pool_ok_def\<close>)

lemma offer_ok: "pool_ok sha L p \<Longrightarrow> pool_ok sha L (snd (offer sha order d expires now loader s p))"
  by (auto simp: offer_def Let_def identify_artifact_def intro!: pool_ok_adj_objects pool_ok_remember)

lemma resolve_ok:
  "pool_ok sha L p \<Longrightarrow> length d \<le> max_object \<Longrightarrow> pool_ok sha L (resolve sha order d expires now acc s p)"
  by (auto simp: resolve_def Let_def identify_artifact_def intro!: pool_ok_remember)

lemma lookup_read_ok: "pool_ok sha L p \<Longrightarrow> pool_ok sha L (snd (lookup_read g now s p))"
  by (simp add: lookup_read_def Let_def pool_ok_prune)

lemma lookup_store_ok:
  "pool_ok sha L p \<Longrightarrow> lookup_body sha g now x = (d, True) \<Longrightarrow>
     pool_ok sha L (lookup_store order g d expires later p)"
  by (auto simp: lookup_store_def lookup_body_def Let_def split: if_splits option.splits intro!: pool_ok_remember)

subsection \<open>Claims\<close>

lemma fetch_ok_mono: "fetch_ok L f \<Longrightarrow> L \<subseteq> M \<Longrightarrow> fetch_ok M f"
  by (auto simp: fetch_ok_def)

lemma note_supplier_ok: "fetch_ok L f \<Longrightarrow> fetch_ok L (note_supplier g s f)"
  using length_m_put_present [of "fe_suppliers f" "gs_owner s" "seen_until s g"]
    length_m_put_le [of "fe_suppliers f" "gs_owner s" "seen_until s g"]
  by (auto simp: fetch_ok_def note_supplier_def)

lemma note_supplier_fields [simp]:
  "fe_owner (note_supplier g s f) = fe_owner f" "fe_data (note_supplier g s f) = fe_data f"
  "fe_total (note_supplier g s f) = fe_total f" "fe_received (note_supplier g s f) = fe_received f"
  "fe_avoid (note_supplier g s f) = fe_avoid f" "fe_request (note_supplier g s f) = fe_request f"
  by (simp_all add: note_supplier_def)

lemma fetch_ok_empty: "fetch_ok L (empty_fetch\<lparr>fe_suppliers := [(k, t)]\<rparr>)"
  by (simp add: fetch_ok_def empty_fetch_def m_ok_def)

lemma grant_ok:
  assumes ok: "pool_ok sha L p" and f: "fetch_ok L f" "fe_owner f = 0" and L: "gs_owner s \<in> L" "gs_owner s \<noteq> 0"
    and old: "case map_of (gp_pending p) g of None \<Rightarrow> length (gp_pending p) < max_pending | Some f' \<Rightarrow> fe_owner f' = 0"
    and room: "in_flight p < max_in_flight" "in_flight_of (gs_owner s) p < max_per_peer"
  shows "pool_ok sha L (snd (snd (grant g f now s p)))"
proof -
  let ?f = "f\<lparr>fe_owner := gs_owner s, fe_request := gp_request p + 1, fe_progress := now\<rparr>"
  let ?p = "put_fetch g ?f (p\<lparr>gp_request := gp_request p + 1\<rparr>)"
  have m: "m_ok (gp_pending p)" using pool_okD(2) [OF ok] .
  have "m_val (claim_weight Q) (gp_pending p) g = 0" for Q
    using old by (auto simp: m_val_def claim_weight_def split: option.splits)
  then have c: "claims Q ?p = claims Q p + claim_weight Q ?f" for Q
    using m by (simp add: claims_def put_fetch_def m_sum_put)
  have all: "claims (\<lambda>_. True) ?p \<le> int max_in_flight"
    using c [of "\<lambda>_. True"] room(1) claims_in_flight [of p] by (simp add: claim_weight_def)
  have each: "claims (\<lambda>q. q = k) ?p \<le> int max_per_peer" for k
  proof (cases "k = gs_owner s")
    case True
    then show ?thesis using c [of "\<lambda>q. q = k"] room(2) claims_in_flight_of [of k p] L(2)
      by (simp add: claim_weight_def)
  next
    case False
    then have "claims (\<lambda>q. q = k) ?p = claims (\<lambda>q. q = k) p" using c [of "\<lambda>q. q = k"] by (simp add: claim_weight_def)
    then show ?thesis using ok by (simp add: pool_ok_def)
  qed
  have "length (gp_pending ?p) \<le> max_pending"
    using ok old m length_m_put_present [of "gp_pending p" g ?f] length_m_put_le [of "gp_pending p" g ?f]
    by (cases "map_of (gp_pending p) g") (auto simp: put_fetch_def pool_ok_def)
  moreover have "fetch_ok L ?f" using f L by (simp add: fetch_ok_def)
  ultimately have "pool_ok sha L ?p" using ok all each by (auto simp: pool_ok_def put_fetch_def)
  then show ?thesis by (simp add: grant_def Let_def)
qed

lemma claim_ok:
  assumes ok: "pool_ok sha L p" and L: "gs_owner s \<in> L" "gs_owner s \<noteq> 0"
    and c: "claim_artifact g now s p = (reply, s', p')"
  shows "pool_ok sha L p' \<and> gp_serving p' = gp_serving p \<and> gp_owner p' = gp_owner p
    \<and> s' \<in> {s, forget_hint g s} \<and> gp_objects p' = gp_objects p"
proof (cases "map_of (gp_objects p) g \<noteq> None \<or> g \<in> gs_unavailable s")
  case True
  then show ?thesis using c ok by (auto simp: claim_artifact_def split: if_splits)
next
  case free: False
  let ?full = "\<lambda>p. max_in_flight \<le> in_flight p \<or> max_per_peer \<le> in_flight_of (gs_owner s) p"
  show ?thesis
  proof (cases "map_of (gp_pending p) g")
    case None
    define f where "f = empty_fetch\<lparr>fe_suppliers := [(gs_owner s, seen_until s g)]\<rparr>"
    have f: "fetch_ok L f" "fe_owner f = 0" unfolding f_def using fetch_ok_empty by (auto simp: empty_fetch_def)
    have "(reply, s', p') = (if ?full p \<or> max_pending \<le> length (gp_pending p) then (None, s, p) else grant g f now s p)"
      using c free None unfolding claim_artifact_def f_def Let_def by (simp split del: if_split)
    then show ?thesis using ok grant_ok [OF ok f L, of g now] None
      by (auto simp: grant_def Let_def put_fetch_def split: if_splits)
  next
    case (Some f0)
    define f where "f = note_supplier g s f0"
    define p1 where "p1 = put_fetch g f p"
    have f0: "fetch_ok L f0" using pool_okD(4) [OF ok Some] .
    have f: "fetch_ok L f" unfolding f_def using f0 by (rule note_supplier_ok)
    have p1: "pool_ok sha L p1" unfolding p1_def
      by (rule pool_ok_put [OF ok Some _ f]) (simp add: quieter_def f_def)
    have eq: "(reply, s', p') = (if fe_owner f \<noteq> 0 \<or> fe_avoid f = gs_owner s \<and> 1 < length (fe_suppliers f)
        then (None, s, p1) else if ?full p1 then (None, s, p1) else grant g f now s p1)"
      using c free Some unfolding claim_artifact_def f_def p1_def Let_def by (simp split del: if_split)
    have g1: "map_of (gp_pending p1) g = Some f" by (simp add: p1_def put_fetch_def)
    show ?thesis
    proof (cases "fe_owner f = 0 \<and> \<not> ?full p1 \<and> \<not> (fe_avoid f = gs_owner s \<and> 1 < length (fe_suppliers f))")
      case True
      then have "(reply, s', p') = grant g f now s p1" using eq by auto
      then show ?thesis using grant_ok [OF p1 f _ L, of g now] g1 True
        by (auto simp: grant_def Let_def put_fetch_def p1_def)
    next
      case False
      then have "(reply, s', p') = (None, s, p1)" using eq by (auto split: if_splits)
      then show ?thesis using p1 by (simp add: p1_def put_fetch_def)
    qed
  qed
qed

subsection \<open>Sessions\<close>

definition transfer_ok :: "(bytes \<Rightarrow> bytes) \<Rightarrow> transfer \<Rightarrow> bool" where
  "transfer_ok sha x \<longleftrightarrow> tr_offset x < length (tr_data x) \<and> length (tr_data x) \<le> max_object
     \<and> tr_offset x mod chunk_size = 0 \<and> gm_request (tr_message x) \<noteq> 0
     \<and> (\<exists>g. tr_message x = gossip_msg ''data'' g (gm_request (tr_message x)) \<and> length (snd g) = 32
          \<and> fst g \<in> {manifest_kind, service_kind} \<and> identify_artifact sha (fst g) (tr_data x) = g)"

abbreviation upload_request :: "transfer \<Rightarrow> u64" where
  "upload_request x \<equiv> gm_request (tr_message x)"

definition session_ok :: "(bytes \<Rightarrow> bytes) \<Rightarrow> gossip_session \<Rightarrow> bool" where
  "session_ok sha s \<longleftrightarrow> m_ok (gs_seen s) \<and> length (gs_seen s) \<le> max_known \<and> length (gs_out s) \<le> max_per_peer
     \<and> (\<forall>x \<in> set (gs_out s). transfer_ok sha x) \<and> distinct (map upload_request (gs_out s)) \<and> gs_owner s \<noteq> 0
     \<and> (gs_closed s \<longrightarrow> gs_out s = [] \<and> gs_seen s = [])"

text \<open>The uploads a session has in hand, as the pool counts them.\<close>

definition served :: "gossip_session \<Rightarrow> gossip_pool \<Rightarrow> int" where
  "served s p = gp_serving p - int (length (gs_out s))"

lemma session_ok_forget: "session_ok sha s \<Longrightarrow> session_ok sha (forget_hint g s)"
  using length_m_del_le [of "gs_seen s" g] by (auto simp: session_ok_def forget_hint_def)

lemma forget_hint_fields [simp]:
  "gs_out (forget_hint g s) = gs_out s" "gs_owner (forget_hint g s) = gs_owner s"
  "gs_closed (forget_hint g s) = gs_closed s" "gs_kind (forget_hint g s) = gs_kind s"
  by (simp_all add: forget_hint_def)

lemma pool_ok_frame:
  "gp_objects p' = gp_objects p \<Longrightarrow> gp_pending p' = gp_pending p \<Longrightarrow> gp_bytes p' = gp_bytes p \<Longrightarrow>
     pool_ok sha L p' = pool_ok sha L p"
  by (simp add: pool_ok_def claims_def)

text \<open>What one section keeps: the session's identity and, with the pool, the number of uploads.\<close>

definition steady :: "(bytes \<Rightarrow> bytes) \<Rightarrow> u64 set \<Rightarrow> gossip_session \<Rightarrow> gossip_pool \<Rightarrow> gossip_session \<Rightarrow> gossip_pool \<Rightarrow> bool" where
  "steady sha L s p s' p' \<longleftrightarrow> pool_ok sha L p' \<and> session_ok sha s' \<and> served s' p' = served s p
     \<and> gs_owner s' = gs_owner s \<and> gs_kind s' = gs_kind s \<and> gs_closed s' = gs_closed s \<and> gp_owner p' = gp_owner p
     \<and> (gp_serving p \<le> int max_in_flight \<longrightarrow> gp_serving p' \<le> int max_in_flight)"

lemma steady_trans: "steady sha L a p b q \<Longrightarrow> steady sha L b q c r \<Longrightarrow> steady sha L a p c r"
  by (simp add: steady_def)

lemma steady_refl: "pool_ok sha L p \<Longrightarrow> session_ok sha s \<Longrightarrow> steady sha L s p s p"
  by (simp add: steady_def)

lemma claim_steady:
  assumes "pool_ok sha L p" "session_ok sha s" "gs_owner s \<in> L" "claim_artifact g now s p = (reply, s', p')"
  shows "steady sha L s p s' p'"
  using claim_ok [OF assms(1,3) _ assms(4)] assms(2) session_ok_forget [OF assms(2), of g]
  by (auto simp: steady_def served_def session_ok_def [of _ s])

lemma next_chunk_steady:
  assumes ok: "pool_ok sha L p" "session_ok sha s" and nc: "next_chunk s p = (m, s', p')"
  shows "steady sha L s p s' p'"
proof (cases "gs_out s")
  case Nil then show ?thesis using nc steady_refl [OF ok] by (simp add: next_chunk_def)
next
  case (Cons x xs)
  have x: "transfer_ok sha x" using ok(2) Cons by (simp add: session_ok_def)
  define stop where "stop = min (tr_offset x + chunk_size) (length (tr_data x))"
  show ?thesis
  proof (cases "stop = length (tr_data x)")
    case True
    then have "s' = s\<lparr>gs_out := xs\<rparr>" "p' = p\<lparr>gp_serving := gp_serving p - 1\<rparr>"
      using nc Cons unfolding next_chunk_def Let_def by (simp_all flip: stop_def)
    then show ?thesis using ok Cons pool_ok_frame [of p' p]
      by (auto simp: steady_def served_def session_ok_def)
  next
    case False
    then have s': "s' = s\<lparr>gs_out := xs @ [x\<lparr>tr_offset := stop\<rparr>]\<rparr>" "p' = p"
      using nc Cons False unfolding next_chunk_def Let_def by (simp_all flip: stop_def)
    have "stop = tr_offset x + chunk_size" "stop < length (tr_data x)" using False by (auto simp: stop_def)
    then have "transfer_ok sha (x\<lparr>tr_offset := stop\<rparr>)" using x by (auto simp: transfer_ok_def)
    then show ?thesis using ok Cons s' by (auto simp: steady_def served_def session_ok_def)
  qed
qed

subsection \<open>Receiving\<close>

lemma fetch_ok_leave:
  "fetch_ok L f \<Longrightarrow> fetch_ok L (f\<lparr>fe_suppliers := m_del k (fe_suppliers f)\<rparr>)"
  by (auto simp: fetch_ok_def m_del_def filter_len intro: m_ok_filter)

lemma fetch_ok_free:
  "fetch_ok L f \<Longrightarrow> fetch_ok L (f\<lparr>fe_owner := 0, fe_data := [], fe_total := 0, fe_received := False\<rparr>)"
  by (auto simp: fetch_ok_def)

lemma prune_gossip_frame [simp]:
  "gp_serving (prune_gossip now p) = gp_serving p" "gp_owner (prune_gossip now p) = gp_owner p"
  "gp_request (prune_gossip now p) = gp_request p"
  by (simp_all add: prune_gossip_def prune_objects_def Let_def)

lemma fetch_frame [simp]:
  "gp_serving (put_fetch g f p) = gp_serving p" "gp_owner (put_fetch g f p) = gp_owner p"
  "gp_serving (del_fetch g p) = gp_serving p" "gp_owner (del_fetch g p) = gp_owner p"
  "gp_objects (put_fetch g f p) = gp_objects p" "gp_objects (del_fetch g p) = gp_objects p"
  "gp_request (put_fetch g f p) = gp_request p" "gp_request (del_fetch g p) = gp_request p"
  by (simp_all add: put_fetch_def del_fetch_def)

lemma prune_steady: "pool_ok sha L p \<Longrightarrow> session_ok sha s \<Longrightarrow> steady sha L s p s (prune_gossip now p)"
  by (simp add: steady_def served_def pool_ok_prune)

text \<open>A step that only replaces or removes the download it concerns.\<close>

lemma steady_pool:
  assumes "pool_ok sha L p'" "session_ok sha s'" "gp_serving p' = gp_serving p" "gp_owner p' = gp_owner p"
    "gs_out s' = gs_out s" "gs_owner s' = gs_owner s" "gs_kind s' = gs_kind s" "gs_closed s' = gs_closed s"
  shows "steady sha L s p s' p'"
  using assms by (simp add: steady_def served_def)

lemma receive_gone_steady:
  assumes ok: "pool_ok sha L p" "session_ok sha s" and r: "receive_gone g s p = (s', p')"
  shows "steady sha L s p s' p'"
proof -
  have s': "s' = forget_hint g s" using r by (simp add: receive_gone_def)
  have "pool_ok sha L p' \<and> gp_serving p' = gp_serving p \<and> gp_owner p' = gp_owner p"
  proof (cases "map_of (gp_pending p) g")
    case None then show ?thesis using r ok by (simp add: receive_gone_def)
  next
    case (Some f)
    define f1 where "f1 = f\<lparr>fe_suppliers := m_del (gs_owner s) (fe_suppliers f)\<rparr>"
    define f2 where "f2 = (if fe_owner f1 = gs_owner s \<and> \<not> fe_received f1
      then f1\<lparr>fe_owner := 0, fe_request := 0, fe_avoid := gs_owner s, fe_data := [], fe_total := 0\<rparr> else f1)"
    have f: "fetch_ok L f" using pool_okD(4) [OF ok(1) Some] .
    have "fetch_ok L f1" unfolding f1_def using f by (rule fetch_ok_leave)
    then have f2: "fetch_ok L f2" "quieter f f2" by (auto simp: f2_def fetch_ok_def quieter_def f1_def)
    have "p' = (if fe_owner f2 = 0 \<and> fe_suppliers f2 = [] then del_fetch g p else put_fetch g f2 p)"
      using r Some unfolding receive_gone_def Let_def f1_def f2_def by (simp split del: if_split)
    then show ?thesis using pool_ok_del [OF ok(1)] pool_ok_put [OF ok(1) Some f2(2,1)] by simp
  qed
  then show ?thesis using session_ok_forget [OF ok(2)] by (intro steady_pool) (simp_all add: s')
qed

lemma receive_have_steady:
  assumes ok: "pool_ok sha L p" "session_ok sha s" and L: "gs_owner s \<in> L" and cl: "\<not> gs_closed s"
    and r: "receive_have g now s p = (er, s', p')"
  shows "steady sha L s p s' p'"
proof (cases "map_of (gp_objects p) g \<noteq> None \<or> map_of (gs_seen s) g = None \<and> max_known \<le> length (gs_seen s)")
  case True
  have a: "pool_ok sha L (p\<lparr>gp_objects := m_adj (\<lambda>k x. if k = g then x\<lparr>ob_used := now\<rparr> else x) (gp_objects p)\<rparr>)"
    by (rule pool_ok_adj_objects [OF ok(1)]) simp
  show ?thesis using r True ok by (auto simp: receive_have_def split: if_splits intro!: steady_pool a)
next
  case False
  define t where "t = s\<lparr>gs_unavailable := gs_unavailable s - {g}, gs_seen := m_put g (now + hint_lifetime) (gs_seen s)\<rparr>"
  obtain reply s2 p2 where c: "claim_artifact g now t p = (reply, s2, p2)" by (metis prod_cases3)
  have m: "m_ok (gs_seen s)" using ok(2) by (simp add: session_ok_def)
  have "length (gs_seen t) \<le> max_known"
    using False ok(2) length_m_put_present [OF m, of g "now + hint_lifetime"] length_m_put_le [OF m, of g "now + hint_lifetime"]
    by (cases "map_of (gs_seen s) g") (auto simp: t_def session_ok_def)
  then have t: "session_ok sha t" using ok(2) m cl by (simp add: session_ok_def t_def)
  have "steady sha L t p s2 p2" using claim_steady [OF ok(1) t _ c] L by (simp add: t_def)
  moreover have "s' = s2" "p' = p2" using r False c by (auto simp: receive_have_def t_def split: if_splits)
  ultimately show ?thesis by (simp add: steady_def served_def t_def)
qed

lemma receive_want_steady:
  assumes ok: "pool_ok sha L p" "session_ok sha s" and cl: "\<not> gs_closed s"
    and g: "length (snd g) = 32" "fst g \<in> {manifest_kind, service_kind}" and q: "gm_request m \<noteq> 0"
    and r: "receive_want deferred m g s p = (reply, s', p')"
  shows "steady sha L s p s' p'"
proof -
  define data where "data = (case map_of (gp_objects p) g of None \<Rightarrow> [] | Some x \<Rightarrow> ob_data x)"
  show ?thesis
  proof (cases "(\<exists>x \<in> set (gs_out s). gm_request (tr_message x) = gm_request m) \<or> data = []
      \<or> max_per_peer \<le> length (gs_out s) \<or> int max_in_flight \<le> gp_serving p")
    case True
    then have "s' = s \<and> p' = p" using r unfolding receive_want_def Let_def data_def [symmetric] by (auto split: if_splits)
    then show ?thesis using ok steady_refl by blast
  next
    case False
    define x where "x = \<lparr>tr_message = gossip_msg ''data'' g (gm_request m), tr_data = data, tr_offset = 0\<rparr>"
    define t where "t = s\<lparr>gs_out := gs_out s @ [x]\<rparr>"
    define u where "u = p\<lparr>gp_serving := gp_serving p + 1\<rparr>"
    have "object_ok sha g y" if "map_of (gp_objects p) g = Some y" for y using pool_okD(5) [OF ok(1) that] .
    then have "identify_artifact sha (fst g) data = g" "length data \<le> max_object"
      using False by (auto simp: data_def object_ok_def split: option.splits)
    then have "transfer_ok sha x" using False g q by (auto simp: transfer_ok_def x_def gossip_msg_def)
    moreover have "upload_request x \<notin> upload_request ` set (gs_out s)"
      using False by (auto simp: x_def gossip_msg_def)
    ultimately have "session_ok sha t" using ok(2) False cl by (auto simp: session_ok_def t_def)
    moreover have "pool_ok sha L u" using ok(1) pool_ok_frame [of u p] by (simp add: u_def)
    moreover have "served t u = served s p" by (simp add: served_def t_def u_def)
    moreover have "gp_serving p < int max_in_flight" using False by simp
    ultimately have tu: "steady sha L s p t u" by (simp add: steady_def t_def u_def)
    have "(reply, s', p') = (if deferred then (None, t, u) else next_chunk t u)"
      using r False unfolding receive_want_def Let_def data_def [symmetric] x_def t_def u_def by (auto split: if_splits)
    then show ?thesis
      using tu steady_trans [OF tu next_chunk_steady [of sha L u t reply s' p']]
      by (auto simp: steady_def split: if_splits)
  qed
qed

lemma receive_unavailable_steady:
  assumes ok: "pool_ok sha L p" "session_ok sha s" and r: "receive_unavailable m g s p = (s', p')"
  shows "steady sha L s p s' p'"
proof (cases "map_of (gp_pending p) g")
  case None then show ?thesis using r steady_refl [OF ok] by (simp add: receive_unavailable_def)
next
  case (Some f)
  let ?f = "f\<lparr>fe_suppliers := m_del (gs_owner s) (fe_suppliers f), fe_owner := 0, fe_data := [], fe_total := 0\<rparr>"
  show ?thesis
  proof (cases "fe_owner f = gs_owner s \<and> fe_request f = gm_request m \<and> \<not> fe_received f")
    case True
    then have s': "s' = s\<lparr>gs_unavailable := insert g (gs_unavailable s)\<rparr>" "p' = put_fetch g ?f p"
      using r Some by (simp_all add: receive_unavailable_def)
    have f: "fetch_ok L ?f" using fetch_ok_leave [OF pool_okD(4) [OF ok(1) Some], of "gs_owner s"] True
      by (auto simp: fetch_ok_def)
    have "pool_ok sha L p'" unfolding s'
      by (rule pool_ok_put [OF ok(1) Some _ f]) (simp add: quieter_def)
    moreover have "session_ok sha s'" using ok(2) by (simp add: s' session_ok_def)
    ultimately show ?thesis by (intro steady_pool) (simp_all add: s')
  next
    case False
    then show ?thesis using r Some steady_refl [OF ok] by (auto simp: receive_unavailable_def split: if_splits)
  qed
qed

lemma receive_data_steady:
  assumes ok: "pool_ok sha L p" "session_ok sha s"
    and m: "0 \<le> gm_offset m" "gm_total m \<le> int max_object" "int (length (gm_data m)) \<le> gm_total m - gm_offset m"
    and r: "receive_data sha m g now s p = (res, p')"
  shows "steady sha L s p s p'"
proof (cases "map_of (gp_pending p) g")
  case None then show ?thesis using r steady_refl [OF ok] by (simp add: receive_data_def)
next
  case (Some f)
  let ?skip = "fe_owner f \<noteq> gs_owner s \<or> fe_request f \<noteq> gm_request m \<or> fe_received f
    \<or> gm_offset m \<noteq> int (length (fe_data f)) \<or> fe_total f \<noteq> 0 \<and> fe_total f \<noteq> gm_total m"
  show ?thesis
  proof (cases ?skip)
    case True
    then have "p' = p" using r Some by (auto simp: receive_data_def split: if_splits)
    then show ?thesis using steady_refl [OF ok] by simp
  next
    case False
    define f1 where "f1 = f\<lparr>fe_total := gm_total m, fe_data := fe_data f @ gm_data m, fe_progress := now\<rparr>"
    have o: "fe_owner f \<noteq> 0" using False ok(2) by (auto simp: session_ok_def)
    have f: "fetch_ok L f" using pool_okD(4) [OF ok(1) Some] .
    have f1: "fetch_ok L f1" "quieter f f1" using f o False m by (auto simp: f1_def fetch_ok_def quieter_def)
    have f2: "fetch_ok L (f1\<lparr>fe_data := [], fe_received := True\<rparr>)" "quieter f (f1\<lparr>fe_data := [], fe_received := True\<rparr>)"
      using f1 o by (auto simp: fetch_ok_def quieter_def f1_def)
    have "p' = put_fetch g f1 p \<or> p' = put_fetch g (f1\<lparr>fe_data := [], fe_received := True\<rparr>) p"
      using r Some False unfolding receive_data_def Let_def
      by (auto simp: f1_def split: if_splits)
    then have "pool_ok sha L p'" using pool_ok_put [OF ok(1) Some f1(2,1)] pool_ok_put [OF ok(1) Some f2(2,1)] by blast
    then show ?thesis using ok(2) \<open>p' = _ \<or> p' = _\<close> by (intro steady_pool) auto
  qed
qed

lemma validate_known:
  assumes "validate_gossip m = None" "\<not> future_type m" "known_op (gm_op m)"
  shows "length (snd (gossip_id m)) = 32" "fst (gossip_id m) \<in> {manifest_kind, service_kind}"
    "gm_op m \<in> {''want'', ''unavailable'', ''data''} \<Longrightarrow> gm_request m \<noteq> 0"
    "gm_op m = ''data'' \<Longrightarrow> 0 \<le> gm_offset m \<and> gm_total m \<le> int max_object
       \<and> int (length (gm_data m)) \<le> gm_total m - gm_offset m"
    "gossip_id m = (gm_type m, gm_digest m)"
  using assms by (auto simp: validate_gossip_def gossip_id_def known_op_def split: if_splits)

lemma receive_gossip_steady:
  assumes ok: "pool_ok sha L p" "session_ok sha s" and L: "gs_closed s \<or> gs_owner s \<in> L"
    and r: "receive_gossip sha deferred m now s p = (res, s', p')"
  shows "steady sha L s p s' p'"
proof (cases "validate_gossip m \<noteq> None \<or> future_type m \<or> \<not> known_op (gm_op m) \<or> gs_closed s \<or> gm_type m \<noteq> gs_kind s")
  case True
  then have "s' = s \<and> p' = p" using r by (auto simp: receive_gossip_def split: option.splits if_splits)
  then show ?thesis using steady_refl [OF ok] by blast
next
  case False
  then have v: "validate_gossip m = None" "\<not> future_type m" "known_op (gm_op m)" "\<not> gs_closed s" "gs_owner s \<in> L"
    using L by auto
  define q where "q = prune_gossip now p"
  note V = validate_known [OF v(1-3)]
  have q: "pool_ok sha L q" "steady sha L s p s q"
    unfolding q_def using pool_ok_prune [OF ok(1)] prune_steady [OF ok] by simp_all
  have "steady sha L s q s' p'"
  proof -
    consider "gm_op m = ''gone''" | "gm_op m = ''have''" | "gm_op m = ''want''" | "gm_op m = ''unavailable''"
      | "gm_op m = ''data''"
      using v(3) by (auto simp: known_op_def)
    then show ?thesis
    proof cases
      case 1
      then have "receive_gone (gossip_id m) s q = (s', p')"
        using r False by (auto simp: receive_gossip_def Let_def q_def split: prod.splits)
      then show ?thesis by (rule receive_gone_steady [OF q(1) ok(2)])
    next
      case 2
      then obtain er where "receive_have (gossip_id m) now s q = (er, s', p')"
        using r False by (auto simp: receive_gossip_def Let_def q_def split: prod.splits)
      then show ?thesis by (rule receive_have_steady [OF q(1) ok(2) v(5,4)])
    next
      case 3
      then obtain reply where "receive_want deferred m (gossip_id m) s q = (reply, s', p')"
        using r False by (auto simp: receive_gossip_def Let_def q_def split: prod.splits)
      then show ?thesis using V(3) 3 by (intro receive_want_steady [OF q(1) ok(2) v(4) V(1,2)]) auto
    next
      case 4
      then have "receive_unavailable m (gossip_id m) s q = (s', p')"
        using r False by (auto simp: receive_gossip_def Let_def q_def split: prod.splits)
      then show ?thesis by (rule receive_unavailable_steady [OF q(1) ok(2)])
    next
      case 5
      then obtain er where "receive_data sha m (gossip_id m) now s q = (er, p')" "s' = s"
        using r False by (auto simp: receive_gossip_def Let_def q_def split: prod.splits)
      then show ?thesis using receive_data_steady [OF q(1) ok(2)] V(4) 5 by blast
    qed
  qed
  then show ?thesis using q(2) steady_trans by blast
qed

subsection \<open>Polling, discarding and closing\<close>

lemma poll_chunks_steady:
  "pool_ok sha L p \<Longrightarrow> session_ok sha s \<Longrightarrow> poll_chunks n s p = (out, s', p') \<Longrightarrow> steady sha L s p s' p'"
proof (induction n s p arbitrary: out s' p' rule: poll_chunks.induct)
  case (1 s p)
  then show ?case by (auto intro: steady_refl)
next
  case (2 n s p)
  obtain m s1 p1 where nc: "next_chunk s p = (m, s1, p1)" by (metis prod_cases3)
  note st = next_chunk_steady [OF 2(2,3) nc]
  show ?case
  proof (cases m)
    case None then show ?thesis using 2(4) nc st by simp
  next
    case (Some c)
    obtain ms s2 p2 where pc: "poll_chunks n s1 p1 = (ms, s2, p2)" by (metis prod_cases3)
    have "s' = s2" "p' = p2" using 2(4) nc Some pc by auto
    moreover have "steady sha L s1 p1 s2 p2"
      using 2(1) [OF nc [symmetric] Some refl _ _ pc] st by (simp add: steady_def)
    ultimately show ?thesis using st steady_trans by blast
  qed
qed

lemma poll_hint_steady:
  assumes "pool_ok sha L p" "session_ok sha s" "gs_owner s \<in> L" "poll_hint budget now g (out, s, p) = (out', s', p')"
  shows "steady sha L s p s' p'"
proof -
  obtain r s1 p1 where c: "claim_artifact g now s p = (r, s1, p1)" by (metis prod_cases3)
  have "steady sha L s p s1 p1" using claim_steady [OF assms(1-3) c] .
  moreover have "steady sha L s p (forget_hint g s) p"
    using assms(1,2) session_ok_forget by (intro steady_pool) auto
  ultimately show ?thesis using assms(4) c steady_refl [OF assms(1,2)]
    by (auto simp: poll_hint_def split: if_splits option.splits)
qed

lemma fold_poll_hint_steady:
  "pool_ok sha L p \<Longrightarrow> session_ok sha s \<Longrightarrow> gs_owner s \<in> L \<Longrightarrow>
     fold (poll_hint budget now) gs (out, s, p) = (out', s', p') \<Longrightarrow> steady sha L s p s' p'"
proof (induction gs arbitrary: out s p)
  case Nil then show ?case using steady_refl by simp
next
  case (Cons g gs)
  obtain o1 s1 p1 where h: "poll_hint budget now g (out, s, p) = (o1, s1, p1)" by (metis prod_cases3)
  note st = poll_hint_steady [OF Cons.prems(1-3) h]
  have "steady sha L s1 p1 s' p'"
    using Cons.IH [of p1 s1 o1] st Cons.prems(3,4) h by (simp add: steady_def)
  then show ?case using st steady_trans by blast
qed

lemma poll_gossip_steady:
  assumes ok: "pool_ok sha L p" "session_ok sha s" and L: "gs_closed s \<or> gs_owner s \<in> L"
    and r: "poll_gossip slots now s p = (out, s', p')"
  shows "steady sha L s p s' p'"
proof (cases "gs_closed s")
  case True then show ?thesis using r steady_refl [OF ok] by (simp add: poll_gossip_def)
next
  case False
  define q where "q = prune_gossip now p"
  obtain o1 s1 p1 where pc: "poll_chunks (min 8 (poll_budget slots)) s q = (o1, s1, p1)" by (metis prod_cases3)
  have q: "steady sha L s p s q" unfolding q_def by (rule prune_steady [OF ok])
  have "pool_ok sha L q" using q by (simp add: steady_def)
  then have 1: "steady sha L s q s1 p1" using ok(2) pc by (rule poll_chunks_steady)
  have "fold (poll_hint (poll_budget slots) now) (m_keys (gs_seen s1)) (o1, s1, p1) = (out, s', p')"
    using r False pc by (simp add: poll_gossip_def q_def Let_def)
  then have "steady sha L s1 p1 s' p'"
    using 1 L False by (intro fold_poll_hint_steady) (auto simp: steady_def)
  then show ?thesis using q 1 steady_trans by blast
qed

lemma discard_steady:
  assumes ok: "pool_ok sha L p" "session_ok sha s" and r: "discard_artifact sha d s p = (s', p')"
  shows "steady sha L s p s' p'"
proof -
  define g where "g = identify_artifact sha (gs_kind s) d"
  have s': "s' = forget_hint g s" using r by (simp add: discard_artifact_def Let_def g_def)
  have "pool_ok sha L p' \<and> gp_serving p' = gp_serving p \<and> gp_owner p' = gp_owner p"
  proof (cases "map_of (gp_pending p) g")
    case None then show ?thesis using r ok by (simp add: discard_artifact_def Let_def g_def)
  next
    case (Some f)
    define f1 where "f1 = f\<lparr>fe_suppliers := m_del (gs_owner s) (fe_suppliers f), fe_owner := 0, fe_request := 0,
                         fe_data := [], fe_total := 0, fe_received := False\<rparr>"
    have f1: "fetch_ok L f1" "quieter f f1"
      using fetch_ok_leave [OF pool_okD(4) [OF ok(1) Some], of "gs_owner s"]
      by (auto simp: f1_def fetch_ok_def quieter_def)
    have "p' = p \<or> p' = del_fetch g p \<or> p' = put_fetch g f1 p"
      using r Some unfolding discard_artifact_def Let_def by (auto simp: f1_def g_def split: if_splits)
    then show ?thesis using ok(1) pool_ok_del [OF ok(1), of g] pool_ok_put [OF ok(1) Some f1(2,1)]
      by (elim disjE) simp_all
  qed
  then show ?thesis using session_ok_forget [OF ok(2)] by (intro steady_pool) (simp_all add: s')
qed

lemma release_fetch_ok: "fetch_ok L f \<Longrightarrow> fetch_ok (L - {k}) (release_fetch k f)"
  using fetch_ok_leave [of L f k] by (auto simp: release_fetch_def Let_def fetch_ok_def)

lemma release_fetch_quieter: "quieter f (release_fetch k f)"
  by (simp add: release_fetch_def Let_def quieter_def)

lemma close_gossip_ok:
  assumes ok: "pool_ok sha L p" "session_ok sha s" and cl: "\<not> gs_closed s" and r: "close_gossip s p = (s', p')"
  shows "pool_ok sha (L - {gs_owner s}) p' \<and> session_ok sha s' \<and> served s' p' = served s p
    \<and> gs_owner s' = gs_owner s \<and> gs_closed s' \<and> gp_owner p' = gp_owner p \<and> gp_serving p' \<le> gp_serving p"
proof -
  let ?p1 = "p\<lparr>gp_serving := gp_serving p - int (length (gs_out s))\<rparr>"
  have p': "p' = ?p1\<lparr>gp_pending := filter (\<lambda>(_, f). fe_suppliers f \<noteq> [])
      (m_adj (\<lambda>_. release_fetch (gs_owner s)) (gp_pending ?p1))\<rparr>"
    and s': "s' = s\<lparr>gs_closed := True, gs_out := [], gs_seen := [], gs_unavailable := {}\<rparr>"
    using r cl by (simp_all add: close_gossip_def)
  have "pool_ok sha L ?p1" using ok(1) pool_ok_frame [of ?p1 p] by simp
  then have "pool_ok sha (L - {gs_owner s}) p'"
    unfolding p' by (rule pool_ok_pass) (auto intro: release_fetch_ok release_fetch_quieter)
  moreover have "session_ok sha s'" using ok(2) by (simp add: s' session_ok_def)
  ultimately show ?thesis using s' p' by (simp add: served_def)
qed

end
