(* ===== verification/Mesh_Gossip_Runs.thy ===== *)
theory Mesh_Gossip_Runs
  imports Mesh_Gossip_Inv
begin

section \<open>Announcement gossip: runs of a router\<close>

text \<open>
  All sessions of a router over one pool, as a step relation: sessions are opened and closed, and any of
  them may offer, look up, resolve, discard, receive or poll at any time. Clocks, map iteration orders,
  loaders and received messages are arbitrary. A session whose owner counter would wrap is not opened.
\<close>

record gossip_net =
  gn_pool :: gossip_pool
  gn_sessions :: "gossip_session list"

definition start_net :: gossip_net where
  "start_net = \<lparr>gn_pool = new_pool, gn_sessions = []\<rparr>"

definition at_session :: "gossip_net \<Rightarrow> nat \<Rightarrow> gossip_session \<Rightarrow> bool" where
  "at_session n i s \<longleftrightarrow> i < length (gn_sessions n) \<and> gn_sessions n ! i = s"

definition set_session :: "nat \<Rightarrow> gossip_session \<times> gossip_pool \<Rightarrow> gossip_net \<Rightarrow> gossip_net" where
  "set_session i sp n = n\<lparr>gn_pool := snd sp, gn_sessions := (gn_sessions n)[i := fst sp]\<rparr>"

inductive gossip_step :: "(bytes \<Rightarrow> bytes) \<Rightarrow> gossip_net \<Rightarrow> gossip_net \<Rightarrow> bool" for sha where
  gstep_open: "gp_owner (gn_pool n) \<noteq> - 1 \<Longrightarrow> new_session kind (gn_pool n) = (s, p) \<Longrightarrow>
    gossip_step sha n (n\<lparr>gn_pool := p, gn_sessions := gn_sessions n @ [s]\<rparr>)"
| gstep_offer: "at_session n i s \<Longrightarrow>
    gossip_step sha n (n\<lparr>gn_pool := snd (offer sha order d expires now loader s (gn_pool n))\<rparr>)"
| gstep_lookup: "at_session n i s \<Longrightarrow> gossip_step sha n (n\<lparr>gn_pool := snd (lookup_read g now s (gn_pool n))\<rparr>)"
| gstep_loaded: "at_session n i s \<Longrightarrow> lookup_body sha g now x = (d, True) \<Longrightarrow>
    gossip_step sha n (n\<lparr>gn_pool := lookup_store order g d (ob_expires x) now (gn_pool n)\<rparr>)"
| gstep_resolve: "at_session n i s \<Longrightarrow> length d \<le> max_object \<Longrightarrow>
    gossip_step sha n (n\<lparr>gn_pool := resolve sha order d expires now accepted s (gn_pool n)\<rparr>)"
| gstep_discard: "at_session n i s \<Longrightarrow> gossip_step sha n (set_session i (discard_artifact sha d s (gn_pool n)) n)"
| gstep_receive: "at_session n i s \<Longrightarrow>
    gossip_step sha n (set_session i (snd (receive_gossip sha deferred m now s (gn_pool n))) n)"
| gstep_poll: "at_session n i s \<Longrightarrow> gossip_step sha n (set_session i (snd (poll_gossip slots now s (gn_pool n))) n)"
| gstep_close: "at_session n i s \<Longrightarrow> gossip_step sha n (set_session i (close_gossip s (gn_pool n)) n)"

inductive gossip_reachable :: "(bytes \<Rightarrow> bytes) \<Rightarrow> gossip_net \<Rightarrow> bool" for sha where
  greach_start: "gossip_reachable sha start_net"
| greach_step: "gossip_reachable sha n \<Longrightarrow> gossip_step sha n n' \<Longrightarrow> gossip_reachable sha n'"

subsection \<open>The invariant of a run\<close>

definition open_owners :: "gossip_session list \<Rightarrow> u64 set" where
  "open_owners ss = {k. (k, False) \<in> set (map (\<lambda>s. (gs_owner s, gs_closed s)) ss)}"

definition uploads :: "gossip_session list \<Rightarrow> int" where
  "uploads ss = sum_list (map (\<lambda>s. int (length (gs_out s))) ss)"

definition net_ok :: "(bytes \<Rightarrow> bytes) \<Rightarrow> gossip_net \<Rightarrow> bool" where
  "net_ok sha n \<longleftrightarrow> pool_ok sha (open_owners (gn_sessions n)) (gn_pool n)
     \<and> (\<forall>s \<in> set (gn_sessions n). session_ok sha s \<and> gs_owner s \<le> gp_owner (gn_pool n))
     \<and> distinct (map gs_owner (gn_sessions n))
     \<and> gp_serving (gn_pool n) = uploads (gn_sessions n) \<and> gp_serving (gn_pool n) \<le> int max_in_flight"

lemma open_owners_at: "at_session n i s \<Longrightarrow> \<not> gs_closed s \<Longrightarrow> gs_owner s \<in> open_owners (gn_sessions n)"
  unfolding at_session_def open_owners_def by (force simp: in_set_conv_nth)

lemma map_same: "i < length xs \<Longrightarrow> f y = f (xs ! i) \<Longrightarrow> map f (xs[i := y]) = map f xs"
  by (simp add: map_update) (metis list_update_id length_map nth_map)

lemma uploads_update:
  "i < length ss \<Longrightarrow> uploads (ss[i := s]) = uploads ss + int (length (gs_out s)) - int (length (gs_out (ss ! i)))"
proof (induction ss arbitrary: i)
  case (Cons a ss) then show ?case by (cases i) (auto simp: uploads_def)
qed simp

text \<open>A section that is steady for its session keeps the invariant of the run.\<close>

lemma net_ok_steady:
  assumes ok: "net_ok sha n" and s: "at_session n i s"
    and st: "steady sha (open_owners (gn_sessions n)) s (gn_pool n) s' p'"
  shows "net_ok sha (set_session i (s', p') n)"
proof -
  let ?ss = "gn_sessions n" and ?ss' = "(gn_sessions n)[i := s']"
  have i: "i < length ?ss" "?ss ! i = s" using s by (simp_all add: at_session_def)
  have own: "open_owners ?ss' = open_owners ?ss"
    using map_same [OF i(1), of "\<lambda>s. (gs_owner s, gs_closed s)" s'] st i(2) by (simp add: open_owners_def steady_def)
  have names: "map gs_owner ?ss' = map gs_owner ?ss"
    using map_same [OF i(1), of gs_owner s'] st i(2) by (simp add: steady_def)
  have serve: "gp_serving p' = uploads ?ss'"
    using st ok uploads_update [OF i(1), of s'] i(2) by (simp add: steady_def served_def net_ok_def)
  have "session_ok sha t \<and> gs_owner t \<le> gp_owner p'" if "t \<in> set ?ss'" for t
  proof (cases "t = s'")
    case True
    have "gs_owner s \<le> gp_owner (gn_pool n)" using ok i by (auto simp: net_ok_def)
    then show ?thesis using True st by (simp add: steady_def)
  next
    case False
    then have "t \<in> set ?ss" using that set_update_subset_insert by fastforce
    then show ?thesis using ok st by (auto simp: net_ok_def steady_def)
  qed
  then show ?thesis using st ok serve unfolding net_ok_def
    by (simp add: set_session_def own names steady_def)
qed

lemma net_ok_session: "net_ok sha n \<Longrightarrow> at_session n i s \<Longrightarrow> session_ok sha s"
  by (auto simp: net_ok_def at_session_def)

lemma net_ok_pool: "net_ok sha n \<Longrightarrow> pool_ok sha (open_owners (gn_sessions n)) (gn_pool n)"
  by (simp add: net_ok_def)

text \<open>A section that touches only the pool, and neither its counters.\<close>

lemma net_ok_pool_only:
  assumes "net_ok sha n" "pool_ok sha (open_owners (gn_sessions n)) p"
    "gp_owner p = gp_owner (gn_pool n)" "gp_serving p = gp_serving (gn_pool n)"
  shows "net_ok sha (n\<lparr>gn_pool := p\<rparr>)"
  using assms by (simp add: net_ok_def)

lemma make_space_frame [simp]:
  "gp_owner (make_space order n p) = gp_owner p" "gp_serving (make_space order n p) = gp_serving p"
proof (induction order n p rule: make_space.induct)
  case (1 order n p)
  {
    case 1
    show ?case using "1.IH"(1) by (subst make_space.simps) (simp add: Let_def split: option.split)
  next
    case 2
    show ?case using "1.IH"(2) by (subst make_space.simps) (simp add: Let_def split: option.split)
  }
qed

lemma remember_frame [simp]:
  "gp_owner (remember order g d expires now p) = gp_owner p"
  "gp_serving (remember order g d expires now p) = gp_serving p"
  by (simp_all add: remember_def forget_object_def Let_def split: option.split)

lemma net_ok_open:
  assumes ok: "net_ok sha n" and room: "gp_owner (gn_pool n) \<noteq> - 1" and s: "new_session kind (gn_pool n) = (s, p)"
  shows "net_ok sha (n\<lparr>gn_pool := p, gn_sessions := gn_sessions n @ [s]\<rparr>)"
proof -
  let ?ss = "gn_sessions n"
  have s': "s = \<lparr>gs_owner = gp_owner (gn_pool n) + 1, gs_kind = kind, gs_seen = [], gs_unavailable = {}, gs_out = [],
      gs_closed = False\<rparr>" "p = (gn_pool n)\<lparr>gp_owner := gp_owner (gn_pool n) + 1\<rparr>"
    using s by (simp_all add: new_session_def)
  have next_owner: "gp_owner (gn_pool n) + 1 \<noteq> 0" "gp_owner (gn_pool n) < gp_owner (gn_pool n) + 1"
  proof -
    show "gp_owner (gn_pool n) + 1 \<noteq> 0" using room eq_neg_iff_add_eq_0 by blast
    then show "gp_owner (gn_pool n) < gp_owner (gn_pool n) + 1"
      using unatSuc [of "gp_owner (gn_pool n)"] by (simp add: word_less_nat_alt add.commute)
  qed
  have new: "session_ok sha s" using next_owner(1) by (simp add: s' session_ok_def)
  have old: "session_ok sha t \<and> gs_owner t \<le> gp_owner p" "gs_owner t \<noteq> gs_owner s" if "t \<in> set ?ss" for t
    using ok that next_owner(2) by (force simp: net_ok_def s')+
  have "open_owners ?ss \<subseteq> open_owners (?ss @ [s])" by (auto simp: open_owners_def)
  then have "pool_ok sha (open_owners (?ss @ [s])) (gn_pool n)"
    using net_ok_pool [OF ok] fetch_ok_mono by (fastforce simp: pool_ok_def m_all_def)
  then have "pool_ok sha (open_owners (?ss @ [s])) p" using pool_ok_frame [of p "gn_pool n"] by (simp add: s')
  moreover have "gs_owner s \<notin> gs_owner ` set ?ss" using old(2) by (metis imageE)
  then have "distinct (map gs_owner (?ss @ [s]))" using ok by (simp add: net_ok_def)
  moreover have "gs_owner s \<le> gp_owner p" by (simp add: s')
  moreover have "gp_serving p = uploads (?ss @ [s])" "gp_serving p \<le> int max_in_flight"
    using ok by (simp_all add: net_ok_def uploads_def s')
  ultimately show ?thesis using new old(1) by (auto simp: net_ok_def)
qed

lemma at_session_unique:
  "distinct (map gs_owner ss) \<Longrightarrow> i < length ss \<Longrightarrow> j < length ss \<Longrightarrow> gs_owner (ss ! i) = gs_owner (ss ! j) \<Longrightarrow> i = j"
  by (metis length_map nth_eq_iff_index_eq nth_map)

lemma net_ok_close:
  assumes ok: "net_ok sha n" and s: "at_session n i s"
  shows "net_ok sha (set_session i (close_gossip s (gn_pool n)) n)"
proof (cases "gs_closed s")
  case True
  have "close_gossip s (gn_pool n) = (s, gn_pool n)" using True by (simp add: close_gossip_def)
  then have "set_session i (close_gossip s (gn_pool n)) n = n"
    using s by (auto simp: set_session_def at_session_def)
  then show ?thesis using ok by simp
next
  case False
  let ?ss = "gn_sessions n"
  obtain s' p' where c: "close_gossip s (gn_pool n) = (s', p')" by fastforce
  let ?ss' = "?ss[i := s']"
  note C = close_gossip_ok [OF net_ok_pool [OF ok] net_ok_session [OF ok s] False c]
  have i: "i < length ?ss" "?ss ! i = s" using s by (simp_all add: at_session_def)
  have "open_owners ?ss - {gs_owner s} \<subseteq> open_owners ?ss'"
  proof
    fix k assume "k \<in> open_owners ?ss - {gs_owner s}"
    then obtain t where t: "t \<in> set ?ss" "gs_owner t = k" "\<not> gs_closed t" "t \<noteq> s" by (auto simp: open_owners_def)
    then obtain j where "j < length ?ss" "?ss ! j = t" by (auto simp: in_set_conv_nth)
    moreover then have "j \<noteq> i" using t(4) i(2) by auto
    ultimately have "t \<in> set ?ss'" by (metis length_list_update nth_list_update_neq nth_mem)
    then show "k \<in> open_owners ?ss'" using t by (force simp: open_owners_def)
  qed
  then have pool: "pool_ok sha (open_owners ?ss') p'"
    using C fetch_ok_mono by (fastforce simp: pool_ok_def m_all_def)
  have names: "map gs_owner ?ss' = map gs_owner ?ss" using map_same [OF i(1), of gs_owner s'] C i(2) by simp
  have serve: "gp_serving p' = uploads ?ss'"
    using C ok uploads_update [OF i(1), of s'] i(2) by (simp add: served_def net_ok_def)
  have "session_ok sha t \<and> gs_owner t \<le> gp_owner p'" if "t \<in> set ?ss'" for t
  proof (cases "t = s'")
    case True
    have "gs_owner s \<le> gp_owner (gn_pool n)" using ok i by (auto simp: net_ok_def)
    then show ?thesis using True C by simp
  next
    case False
    then have "t \<in> set ?ss" using that set_update_subset_insert by fastforce
    then show ?thesis using ok C by (auto simp: net_ok_def)
  qed
  then show ?thesis using C ok pool serve unfolding net_ok_def c by (simp add: set_session_def names)
qed

lemma net_ok_step:
  assumes "gossip_step sha n n'" "net_ok sha n"
  shows "net_ok sha n'"
  using assms
proof cases
  case gstep_open then show ?thesis using net_ok_open assms(2) by simp
next
  case gstep_offer
  show ?thesis unfolding gstep_offer(1)
    by (rule net_ok_pool_only [OF assms(2) offer_ok [OF net_ok_pool [OF assms(2)]]]) (simp_all add: offer_def Let_def)
next
  case gstep_lookup
  show ?thesis unfolding gstep_lookup(1)
    by (rule net_ok_pool_only [OF assms(2) lookup_read_ok [OF net_ok_pool [OF assms(2)]]])
      (simp_all add: lookup_read_def Let_def)
next
  case (gstep_loaded i s g now x d order)
  show ?thesis unfolding gstep_loaded(1)
    by (rule net_ok_pool_only [OF assms(2) lookup_store_ok [OF net_ok_pool [OF assms(2)] gstep_loaded(3)]])
      (simp_all add: lookup_store_def)
next
  case (gstep_resolve i s d order expires now acc)
  show ?thesis unfolding gstep_resolve(1)
    by (rule net_ok_pool_only [OF assms(2) resolve_ok [OF net_ok_pool [OF assms(2)] gstep_resolve(3)]])
      (simp_all add: resolve_def Let_def)
next
  case (gstep_discard i s d)
  obtain s' p' where r: "discard_artifact sha d s (gn_pool n) = (s', p')" by fastforce
  show ?thesis unfolding gstep_discard(1) r
    using net_ok_steady [OF assms(2) gstep_discard(2)] discard_steady [OF net_ok_pool [OF assms(2)] _ r]
      net_ok_session [OF assms(2) gstep_discard(2)] by blast
next
  case (gstep_receive i s deferred m now)
  obtain res s' p' where r: "receive_gossip sha deferred m now s (gn_pool n) = (res, s', p')" by (metis prod_cases3)
  have "gs_closed s \<or> gs_owner s \<in> open_owners (gn_sessions n)" using open_owners_at [OF gstep_receive(2)] by blast
  then show ?thesis unfolding gstep_receive(1) r snd_conv
    using net_ok_steady [OF assms(2) gstep_receive(2)] receive_gossip_steady [OF net_ok_pool [OF assms(2)] _ _ r]
      net_ok_session [OF assms(2) gstep_receive(2)] by blast
next
  case (gstep_poll i s slots now)
  obtain res s' p' where r: "poll_gossip slots now s (gn_pool n) = (res, s', p')" by (metis prod_cases3)
  have "gs_closed s \<or> gs_owner s \<in> open_owners (gn_sessions n)" using open_owners_at [OF gstep_poll(2)] by blast
  then show ?thesis unfolding gstep_poll(1) r snd_conv
    using net_ok_steady [OF assms(2) gstep_poll(2)] poll_gossip_steady [OF net_ok_pool [OF assms(2)] _ _ r]
      net_ok_session [OF assms(2) gstep_poll(2)] by blast
next
  case gstep_close then show ?thesis using net_ok_close assms(2) by simp
qed

lemma gossip_reachable_ok: "gossip_reachable sha n \<Longrightarrow> net_ok sha n"
proof (induction rule: gossip_reachable.induct)
  case greach_start
  show ?case by (simp add: net_ok_def start_net_def new_pool_def pool_ok_def claims_def uploads_def)
qed (rule net_ok_step)

end
