(* ===== verification/Mesh_Gossip_Transfer.thy ===== *)
theory Mesh_Gossip_Transfer
  imports Mesh_Gossip_Runs
begin

section \<open>Announcement gossip: a download runs to its end\<close>

text \<open>
  The uploads of a session as a round-robin list (\<open>serve\<close>), to which the loop of \<open>Poll\<close> is reduced;
  what it sends for one request (\<open>chunks_from\<close>); and what a receiver makes of these messages.
\<close>

subsection \<open>Uploads in turn\<close>

definition chunk_at :: "transfer \<Rightarrow> gossip_message" where
  "chunk_at x = (tr_message x)\<lparr>gm_offset := int (tr_offset x), gm_total := int (length (tr_data x)),
     gm_data := take chunk_size (drop (tr_offset x) (tr_data x))\<rparr>"

definition last_chunk :: "transfer \<Rightarrow> bool" where
  "last_chunk x \<longleftrightarrow> length (tr_data x) \<le> tr_offset x + chunk_size"

definition advance :: "transfer \<Rightarrow> transfer" where
  "advance x = x\<lparr>tr_offset := tr_offset x + chunk_size\<rparr>"

fun serve :: "nat \<Rightarrow> transfer list \<Rightarrow> gossip_message list \<times> transfer list" where
  "serve 0 xs = ([], xs)"
| "serve (Suc n) [] = ([], [])"
| "serve (Suc n) (x # xs) =
     (case serve n (if last_chunk x then xs else xs @ [advance x]) of (ms, ys) \<Rightarrow> (chunk_at x # ms, ys))"

lemma serve_Nil [simp]: "serve n [] = ([], [])"
  by (cases n) simp_all

lemma serve_add: "serve (a + b) xs = (fst (serve a xs) @ fst (serve b (snd (serve a xs))), snd (serve b (snd (serve a xs))))"
  by (induction a xs rule: serve.induct) (auto split: prod.split)

lemma next_chunk_serve:
  assumes x: "transfer_ok sha x" and out: "gs_out s = x # xs" and nc: "next_chunk s p = (m, s', p')"
  shows "m = Some (chunk_at x)" "gs_out s' = (if last_chunk x then xs else xs @ [advance x])"
proof -
  have len: "tr_offset x < length (tr_data x)" using x by (simp add: transfer_ok_def)
  define stop where "stop = min (tr_offset x + chunk_size) (length (tr_data x))"
  have stop: "stop = length (tr_data x) \<longleftrightarrow> last_chunk x" "\<not> last_chunk x \<Longrightarrow> stop = tr_offset x + chunk_size"
    by (auto simp: stop_def last_chunk_def)
  have "take (stop - tr_offset x) (drop (tr_offset x) (tr_data x)) = take chunk_size (drop (tr_offset x) (tr_data x))"
    using len by (auto simp: stop_def min_def)
  then show "m = Some (chunk_at x)" "gs_out s' = (if last_chunk x then xs else xs @ [advance x])"
    using nc out stop unfolding next_chunk_def Let_def
    by (auto simp: chunk_at_def advance_def simp flip: stop_def split: if_splits)
qed

lemma poll_chunks_serve:
  "pool_ok sha L p \<Longrightarrow> session_ok sha s \<Longrightarrow> poll_chunks n s p = (ms, s', p') \<Longrightarrow> serve n (gs_out s) = (ms, gs_out s')"
proof (induction n s p arbitrary: ms s' p' rule: poll_chunks.induct)
  case (2 n s p)
  obtain m s1 p1 where nc: "next_chunk s p = (m, s1, p1)" by (metis prod_cases3)
  note st = next_chunk_steady [OF 2(2,3) nc]
  show ?case
  proof (cases "gs_out s")
    case Nil then show ?thesis using 2(4) by (auto simp: next_chunk_def)
  next
    case (Cons x xs)
    have "transfer_ok sha x" using 2(3) Cons by (simp add: session_ok_def)
    note N = next_chunk_serve [OF this Cons nc]
    obtain ms1 s2 p2 where pc: "poll_chunks n s1 p1 = (ms1, s2, p2)" by (metis prod_cases3)
    have "serve n (gs_out s1) = (ms1, gs_out s2)"
      using 2(1) [OF nc [symmetric] N(1) refl _ _ pc] st by (simp add: steady_def)
    then show ?thesis using 2(4) nc N pc Cons by auto
  qed
qed simp

subsection \<open>What one request is sent\<close>

definition chunks_left :: "transfer \<Rightarrow> nat" where
  "chunks_left x = (length (tr_data x) - tr_offset x + (chunk_size - 1)) div chunk_size"

definition upload_work :: "transfer list \<Rightarrow> nat" where
  "upload_work xs = sum_list (map chunks_left xs)"

function chunks_from :: "transfer \<Rightarrow> gossip_message list" where
  "chunks_from x = (if last_chunk x then [chunk_at x] else chunk_at x # chunks_from (advance x))"
  by pat_completeness auto
termination
  by (relation "measure (\<lambda>x. length (tr_data x) - tr_offset x)") (auto simp: last_chunk_def advance_def)

declare chunks_from.simps [simp del]

lemma one_chunk: "0 < k \<Longrightarrow> k \<le> 1024 \<Longrightarrow> (k + 1023) div 1024 = Suc (0::nat)"
  by (rule div_nat_eqI) simp_all

lemma chunks_left_step:
  assumes "tr_offset x < length (tr_data x)"
  shows "chunks_left x = Suc (if last_chunk x then 0 else chunks_left (advance x))"
proof (cases "last_chunk x")
  case True
  then show ?thesis using one_chunk [of "length (tr_data x) - tr_offset x"] assms
    by (simp add: chunks_left_def last_chunk_def)
next
  case False
  then obtain k where k: "length (tr_data x) = tr_offset x + 1024 + k"
    unfolding last_chunk_def using nat_le_iff_add [of "tr_offset x + 1024" "length (tr_data x)"] by fastforce
  have "(1024 + k + 1023) div 1024 = Suc ((k + 1023) div 1024)"
    using div_add_self1 [of "1024::nat" "k + 1023"] by (simp only: add.assoc)
  then show ?thesis using False k by (simp add: chunks_left_def advance_def add.assoc)
qed

lemma transfer_ok_advance: "transfer_ok sha x \<Longrightarrow> \<not> last_chunk x \<Longrightarrow> transfer_ok sha (advance x)"
  by (auto simp: transfer_ok_def advance_def last_chunk_def)

lemma advance_fields [simp]: "tr_message (advance x) = tr_message x" "tr_data (advance x) = tr_data x"
  by (simp_all add: advance_def)

lemma chunk_at_request [simp]: "gm_request (chunk_at x) = upload_request x"
  by (simp add: chunk_at_def)

lemma length_chunks_from: "tr_offset x < length (tr_data x) \<Longrightarrow> length (chunks_from x) = chunks_left x"
proof (induction x rule: chunks_from.induct)
  case (1 x)
  then show ?case by (subst chunks_from.simps) (auto simp: chunks_left_step last_chunk_def advance_def)
qed

definition find_upload :: "u64 \<Rightarrow> transfer list \<Rightarrow> gossip_message list" where
  "find_upload r xs = (case find (\<lambda>x. upload_request x = r) xs of None \<Rightarrow> [] | Some x \<Rightarrow> chunks_from x)"

lemma find_snoc: "find P (xs @ [y]) = (case find P xs of None \<Rightarrow> if P y then Some y else None | Some x \<Rightarrow> Some x)"
  by (induction xs) auto

lemma find_absent: "y \<notin> f ` set xs \<Longrightarrow> find (\<lambda>x. f x = y) xs = None"
  by (auto simp: find_None_iff)

text \<open>Enough turns empty the list, and each request has got its chunks in order.\<close>

lemma serve_all:
  "\<forall>x \<in> set xs. transfer_ok sha x \<Longrightarrow> distinct (map upload_request xs) \<Longrightarrow> upload_work xs \<le> n \<Longrightarrow>
     snd (serve n xs) = [] \<and> filter (\<lambda>m. gm_request m = r) (fst (serve n xs)) = find_upload r xs"
proof (induction n xs rule: serve.induct)
  case (1 xs)
  have "xs = []"
  proof (cases xs)
    case (Cons x ys)
    then have "tr_offset x < length (tr_data x)" using 1(1) by (simp add: transfer_ok_def)
    then show ?thesis using chunks_left_step [of x] 1(3) Cons by (simp add: upload_work_def)
  qed
  then show ?case by (simp add: find_upload_def)
next
  case (2 n)
  then show ?case by (simp add: find_upload_def)
next
  case (3 n x xs)
  let ?ys = "if last_chunk x then xs else xs @ [advance x]"
  have x: "transfer_ok sha x" "tr_offset x < length (tr_data x)" using 3(2) by (auto simp: transfer_ok_def)
  have "upload_work ?ys \<le> n" using 3(4) chunks_left_step [OF x(2)] by (auto simp: upload_work_def)
  moreover have "\<forall>y \<in> set ?ys. transfer_ok sha y" using 3(2) transfer_ok_advance [OF x(1)] by auto
  moreover have "distinct (map upload_request ?ys)" using 3(3) by auto
  ultimately have IH: "snd (serve n ?ys) = []" "filter (\<lambda>m. gm_request m = r) (fst (serve n ?ys)) = find_upload r ?ys"
    using 3(1) by blast+
  have absent: "find (\<lambda>y. upload_request y = r) xs = None" if "upload_request x = r"
    using that 3(3) by (intro find_absent) (auto simp: image_iff)
  have "filter (\<lambda>m. gm_request m = r) (chunk_at x # fst (serve n ?ys)) = find_upload r (x # xs)"
    unfolding filter.simps IH(2) using absent
    by (auto simp: find_upload_def find_snoc chunks_from.simps [of x] split: option.split)
  then show ?case using IH(1) by (auto split: prod.splits)
qed

lemma serve_op:
  "\<forall>x \<in> set xs. gm_op (tr_message x) = op \<Longrightarrow> \<forall>m \<in> set (fst (serve n xs)). gm_op m = op"
proof (induction n xs rule: serve.induct)
  case (3 n x xs)
  let ?ys = "if last_chunk x then xs else xs @ [advance x]"
  have "\<forall>y \<in> set ?ys. gm_op (tr_message y) = op" using 3(2) by simp
  then have "\<forall>m \<in> set (fst (serve n ?ys)). gm_op m = op" by (rule 3(1))
  moreover have "gm_op (chunk_at x) = op" using 3(2) by (simp add: chunk_at_def)
  moreover obtain ms ys where "serve n ?ys = (ms, ys)" by fastforce
  ultimately show ?case by simp
qed simp_all

subsection \<open>What the receiver makes of it\<close>

fun deliver :: "(bytes \<Rightarrow> bytes) \<Rightarrow> (gossip_message \<times> int) list \<Rightarrow> gossip_session \<Rightarrow> gossip_pool
    \<Rightarrow> (gossip_error option \<times> gossip_message option \<times> bytes option) list \<times> gossip_session \<times> gossip_pool" where
  "deliver sha [] t q = ([], t, q)"
| "deliver sha ((m, now) # ms) t q = (case receive_gossip sha False m now t q of (res, t, q) \<Rightarrow>
     (case deliver sha ms t q of (rs, t, q) \<Rightarrow> (res # rs, t, q)))"

text \<open>Arrival times: before the hint runs out, and never idle.\<close>

fun prompt :: "int \<Rightarrow> int \<Rightarrow> int list \<Rightarrow> bool" where
  "prompt until prev [] = True"
| "prompt until prev (now # ts) = (now < until \<and> now - prev < idle_timeout \<and> prompt until now ts)"

definition downloading :: "transfer \<Rightarrow> u64 \<Rightarrow> int \<Rightarrow> gossip_session \<Rightarrow> gossip_fetch \<Rightarrow> bool" where
  "downloading x u until t f \<longleftrightarrow> fe_owner f = gs_owner t \<and> fe_owner f \<noteq> 0 \<and> fe_request f = upload_request x \<and> \<not> fe_received f
     \<and> fe_data f = take (tr_offset x) (tr_data x) \<and> (fe_total f = 0 \<or> fe_total f = int (length (tr_data x)))
     \<and> (u, until) \<in> set (fe_suppliers f)"

lemma chunk_valid:
  assumes x: "transfer_ok sha x" and g: "g = (gm_type (tr_message x), gm_digest (tr_message x))"
  shows "validate_gossip (chunk_at x) = None" "\<not> future_type (chunk_at x)" "gm_op (chunk_at x) = ''data''"
    "gossip_id (chunk_at x) = g" "identify_artifact sha (fst g) (tr_data x) = g" "gm_type (chunk_at x) = fst g"
proof -
  from x obtain h r where h: "tr_message x = gossip_msg ''data'' h r" "length (snd h) = 32"
      "fst h \<in> {manifest_kind, service_kind}" "identify_artifact sha (fst h) (tr_data x) = h"
    by (auto simp: transfer_ok_def)
  have r: "r \<noteq> 0" using x h(1) by (simp add: transfer_ok_def gossip_msg_def)
  have gh: "g = h" using g h(1) by (simp add: gossip_msg_def)
  have c: "chunk_at x = \<lparr>gm_version = 1, gm_op = ''data'', gm_type = fst h, gm_digest = snd h, gm_request = r,
      gm_offset = int (tr_offset x), gm_total = int (length (tr_data x)),
      gm_data = take chunk_size (drop (tr_offset x) (tr_data x))\<rparr>"
    using h(1) by (simp add: chunk_at_def gossip_msg_def)
  have "int (tr_offset x) mod 1024 = 0" using x zmod_int [of "tr_offset x" 1024] by (simp add: transfer_ok_def)
  then show "validate_gossip (chunk_at x) = None"
    using x h(2,3) r by (auto simp: validate_gossip_def c transfer_ok_def future_type_def known_op_def)
  show "\<not> future_type (chunk_at x)" using h(3) by (auto simp: future_type_def c)
  show "gm_op (chunk_at x) = ''data''" "gm_type (chunk_at x) = fst g" using c gh by simp_all
  show "gossip_id (chunk_at x) = g" using h(2) gh by (simp add: gossip_id_def c)
  show "identify_artifact sha (fst g) (tr_data x) = g" using h(4) gh by simp
qed

lemma prune_fetch_keeps:
  assumes "downloading x u until t f" "now < until" "now - fe_progress f < idle_timeout"
  shows "downloading x u until t (prune_fetch now f)" "fe_suppliers (prune_fetch now f) \<noteq> []"
proof -
  have "(u, until) \<in> set (filter (\<lambda>(_, until). now < until) (fe_suppliers f))"
    using assms(1,2) by (simp add: downloading_def)
  moreover from this have "filter (\<lambda>(_, until). now < until) (fe_suppliers f) \<noteq> []"
    by (metis empty_iff list.set(1))
  ultimately show "downloading x u until t (prune_fetch now f)" "fe_suppliers (prune_fetch now f) \<noteq> []"
    using assms by (auto simp: prune_fetch_def Let_def downloading_def)
qed

lemma prune_pending:
  "m_ok (gp_pending q) \<Longrightarrow> map_of (gp_pending q) g = Some f \<Longrightarrow> fe_suppliers (prune_fetch now f) \<noteq> [] \<Longrightarrow>
     m_ok (gp_pending (prune_gossip now q)) \<and> map_of (gp_pending (prune_gossip now q)) g = Some (prune_fetch now f)"
  unfolding prune_gossip_def Let_def prune_objects_def
  by (auto simp: map_of_filter_ok intro!: m_ok_filter)

lemma receive_chunk:
  assumes x: "transfer_ok sha x" and g: "g = (gm_type (tr_message x), gm_digest (tr_message x))"
    and t: "\<not> gs_closed t" "gs_kind t = fst g" and q: "m_ok (gp_pending q)" "map_of (gp_pending q) g = Some f"
    and f: "downloading x u until t f" "now < until" "now - fe_progress f < idle_timeout"
  obtains f' q' where
    "receive_gossip sha d (chunk_at x) now t q = ((None, None, if last_chunk x then Some (tr_data x) else None), t, q')"
    "m_ok (gp_pending q')" "map_of (gp_pending q') g = Some f'" "fe_progress f' = now"
    "last_chunk x \<or> downloading (advance x) u until t f'"
proof -
  note C = chunk_valid [OF x g]
  define p where "p = prune_gossip now q"
  define f0 where "f0 = prune_fetch now f"
  note K = prune_fetch_keeps [OF f, folded f0_def]
  have p: "m_ok (gp_pending p)" "map_of (gp_pending p) g = Some f0"
    using prune_pending [OF q K(2) [unfolded f0_def]] by (simp_all add: p_def f0_def)
  have len: "tr_offset x < length (tr_data x)" using x by (simp add: transfer_ok_def)
  define f1 where "f1 = f0\<lparr>fe_total := int (length (tr_data x)), fe_data := take (tr_offset x + 1024) (tr_data x), fe_progress := now\<rparr>"
  have data: "fe_data f0 @ gm_data (chunk_at x) = take (tr_offset x + 1024) (tr_data x)"
    using K(1) by (simp add: downloading_def chunk_at_def take_add)
  have size: "int (length (take (tr_offset x + 1024) (tr_data x))) = int (length (tr_data x)) \<longleftrightarrow> last_chunk x"
    by (auto simp: last_chunk_def)
  have whole: "take (tr_offset x + 1024) (tr_data x) = tr_data x" if "last_chunk x"
    using that by (simp add: last_chunk_def)
  have off: "gm_offset (chunk_at x) = int (length (fe_data f0))" "gm_total (chunk_at x) = int (length (tr_data x))"
    using K(1) len by (simp_all add: chunk_at_def downloading_def)
  define f2 where "f2 = (if last_chunk x then f1\<lparr>fe_data := [], fe_received := True\<rparr> else f1)"
  have rd: "receive_data sha (chunk_at x) g now t p
      = ((None, if last_chunk x then Some (tr_data x) else None), put_fetch g f2 p)"
    using p(2) K(1) off data size whole C(5) t(2)
    by (auto simp: receive_data_def Let_def downloading_def f2_def f1_def)
  have "receive_gossip sha d (chunk_at x) now t q
      = ((None, None, if last_chunk x then Some (tr_data x) else None), t, put_fetch g f2 p)"
    using C t rd by (simp add: receive_gossip_def Let_def known_op_def p_def)
  moreover have "m_ok (gp_pending (put_fetch g f2 p))" "map_of (gp_pending (put_fetch g f2 p)) g = Some f2"
    using p(1) by (simp_all add: put_fetch_def)
  moreover have "fe_progress f2 = now" by (simp add: f2_def f1_def)
  moreover have "last_chunk x \<or> downloading (advance x) u until t f2"
    using K(1) by (auto simp: f2_def f1_def downloading_def advance_def)
  ultimately show ?thesis using that by blast
qed

lemma deliver_all:
  assumes "transfer_ok sha x" "g = (gm_type (tr_message x), gm_digest (tr_message x))"
    and "\<not> gs_closed t" "gs_kind t = fst g" "m_ok (gp_pending q)" "map_of (gp_pending q) g = Some f"
    and "downloading x u until t f" "length ts = length (chunks_from x)" "prompt until (fe_progress f) ts"
  shows "fst (deliver sha (zip (chunks_from x) ts) t q)
    = replicate (length ts - 1) (None, None, None) @ [(None, None, Some (tr_data x))]"
  using assms
proof (induction x arbitrary: q f ts rule: chunks_from.induct)
  case (1 x)
  obtain now ts' where ts: "ts = now # ts'" using 1(9) by (subst (asm) chunks_from.simps) (cases ts, auto split: if_splits)
  have pr: "now < until" "now - fe_progress f < idle_timeout" "prompt until now ts'" using 1(10) by (simp_all add: ts)
  obtain f' q' where r:
    "receive_gossip sha False (chunk_at x) now t q = ((None, None, if last_chunk x then Some (tr_data x) else None), t, q')"
    "m_ok (gp_pending q')" "map_of (gp_pending q') g = Some f'" "fe_progress f' = now"
    "last_chunk x \<or> downloading (advance x) u until t f'"
    by (rule receive_chunk [OF 1(2-8) pr(1,2), where d = False])
  show ?case
  proof (cases "last_chunk x")
    case True
    then have c: "chunks_from x = [chunk_at x]" by (simp add: chunks_from.simps [of x])
    then have "ts' = []" using 1(9) ts by simp
    then show ?thesis using c r(1) True by (simp add: ts)
  next
    case False
    then have c: "chunks_from x = chunk_at x # chunks_from (advance x)" by (simp add: chunks_from.simps [of x])
    then have len: "length ts' = length (chunks_from (advance x))" using 1(9) ts by simp
    have g: "g = (gm_type (tr_message (advance x)), gm_digest (tr_message (advance x)))" using 1(3) by simp
    have "fst (deliver sha (zip (chunks_from (advance x)) ts') t q')
        = replicate (length ts' - 1) (None, None, None) @ [(None, None, Some (tr_data (advance x)))]"
      using 1(1) [OF False transfer_ok_advance [OF 1(2) False] g 1(4,5) r(2,3) _ len] pr(3) r(4,5) False by simp
    then obtain t2 q2 where d: "deliver sha (zip (chunks_from (advance x)) ts') t q'
        = (replicate (length ts' - 1) (None, None, None) @ [(None, None, Some (tr_data x))], t2, q2)"
      by (cases "deliver sha (zip (chunks_from (advance x)) ts') t q'") simp
    have "0 < length ts'" unfolding len by (subst chunks_from.simps) simp
    then obtain k where k: "length ts' = Suc k" by (cases "length ts'") auto
    have "receive_gossip sha False (chunk_at x) now t q = ((None, None, None), t, q')" using r(1) False by simp
    then show ?thesis using d k by (simp add: c ts)
  qed
qed

subsection \<open>Polling to the end\<close>

fun polls :: "(int option \<times> int) list \<Rightarrow> gossip_session \<Rightarrow> gossip_pool
    \<Rightarrow> gossip_message list \<times> gossip_session \<times> gossip_pool" where
  "polls [] s p = ([], s, p)"
| "polls ((slots, now) # ps) s p = (case poll_gossip slots now s p of (out, s, p) \<Rightarrow>
     (case polls ps s p of (rest, s, p) \<Rightarrow> (out @ rest, s, p)))"

abbreviation data_for :: "u64 \<Rightarrow> gossip_message list \<Rightarrow> gossip_message list" where
  "data_for r ms \<equiv> filter (\<lambda>m. gm_op m = ''data'' \<and> gm_request m = r) ms"

lemma claim_wants: "claim_artifact g now s p = (Some m, s', p') \<Longrightarrow> gm_op m = ''want''"
  by (auto simp: claim_artifact_def grant_def Let_def gossip_msg_def split: if_splits option.splits)

lemma claim_out: "claim_artifact g now s p = (m, s', p') \<Longrightarrow> gs_out s' = gs_out s"
  by (auto simp: claim_artifact_def grant_def Let_def split: if_splits option.splits)

lemma poll_hint_out:
  assumes "poll_hint budget now g (out, s, p) = (out', s', p')"
  shows "gs_out s' = gs_out s" "data_for r out' = data_for r out"
proof -
  obtain m s1 p1 where c: "claim_artifact g now s p = (m, s1, p1)" by (metis prod_cases3)
  have "m = Some w \<Longrightarrow> gm_op w = ''want''" for w using c claim_wants by blast
  then show "gs_out s' = gs_out s" "data_for r out' = data_for r out"
    using assms c claim_out [OF c] by (auto simp: poll_hint_def split: if_splits option.splits)
qed

lemma fold_poll_hint_out:
  "fold (poll_hint budget now) gs (out, s, p) = (out', s', p') \<Longrightarrow> gs_out s' = gs_out s \<and> data_for r out' = data_for r out"
proof (induction gs arbitrary: out s p)
  case (Cons g gs)
  obtain o1 s1 p1 where h: "poll_hint budget now g (out, s, p) = (o1, s1, p1)" by (metis prod_cases3)
  then have "fold (poll_hint budget now) gs (o1, s1, p1) = (out', s', p')" using Cons.prems by simp
  from Cons.IH [OF this] poll_hint_out(1) [OF h] poll_hint_out(2) [OF h, of r] show ?case by simp
qed simp

lemma poll_gossip_serve:
  assumes ok: "pool_ok sha L p" "session_ok sha s" and cl: "\<not> gs_closed s" and r: "poll_gossip slots now s p = (out, s', p')"
  shows "data_for r out = data_for r (fst (serve (min 8 (poll_budget slots)) (gs_out s)))
    \<and> gs_out s' = snd (serve (min 8 (poll_budget slots)) (gs_out s))"
proof -
  obtain o1 s1 p1 where pc: "poll_chunks (min 8 (poll_budget slots)) s (prune_gossip now p) = (o1, s1, p1)"
    by (metis prod_cases3)
  have "fold (poll_hint (poll_budget slots) now) (m_keys (gs_seen s1)) (o1, s1, p1) = (out, s', p')"
    using r cl pc by (simp add: poll_gossip_def Let_def)
  from fold_poll_hint_out [OF this] poll_chunks_serve [OF pool_ok_prune [OF ok(1)] ok(2) pc]
  show ?thesis by simp
qed

lemma polls_serve:
  assumes "pool_ok sha L p" "session_ok sha s" "\<not> gs_closed s" "gs_owner s \<in> L" "polls ps s p = (out, s', p')"
  shows "data_for r out = data_for r (fst (serve (sum_list (map (\<lambda>(slots, _). min 8 (poll_budget slots)) ps)) (gs_out s)))
    \<and> gs_out s' = snd (serve (sum_list (map (\<lambda>(slots, _). min 8 (poll_budget slots)) ps)) (gs_out s))"
  using assms
proof (induction ps arbitrary: s p out s' p')
  case Nil then show ?case by simp
next
  case (Cons sn ps)
  obtain slots now where sn: "sn = (slots, now)" by fastforce
  obtain o1 s1 p1 where pg: "poll_gossip slots now s p = (o1, s1, p1)" by (metis prod_cases3)
  obtain o2 s2 p2 where ps: "polls ps s1 p1 = (o2, s2, p2)" by (metis prod_cases3)
  have st: "steady sha L s p s1 p1" using poll_gossip_steady [OF Cons.prems(1,2) _ pg] Cons.prems(4) by blast
  have "data_for r o2 = data_for r (fst (serve (sum_list (map (\<lambda>(slots, _). min 8 (poll_budget slots)) ps)) (gs_out s1)))
      \<and> gs_out s2 = snd (serve (sum_list (map (\<lambda>(slots, _). min 8 (poll_budget slots)) ps)) (gs_out s1))"
    using Cons.IH [OF _ _ _ _ ps] st Cons.prems(3,4) by (simp add: steady_def)
  with poll_gossip_serve [OF Cons.prems(1-3) pg, of r] show ?case
    using Cons.prems(5) sn pg ps by (auto simp: serve_add)
qed

end
