(* ===== verification/Mesh_Gossip_Props.thy ===== *)
theory Mesh_Gossip_Props
  imports Mesh_Gossip_Transfer
begin

section \<open>Announcement gossip: properties and a sample router\<close>

text \<open>The bounds of the pool, the owners of claims and the end of a transfer, and two routers on which they are applied.\<close>

subsection \<open>Sample routers\<close>

definition sample_sha :: "bytes \<Rightarrow> bytes" where
  "sample_sha b = replicate 31 7 @ [of_nat (length b)]"

definition sample_body :: bytes where
  "sample_body = [1, 2, 3]"

definition sample_gid :: gid where
  "sample_gid = identify_artifact sample_sha 1 sample_body"

definition opened_net :: gossip_net where
  "opened_net = \<lparr>gn_pool = snd (new_session 1 new_pool), gn_sessions = [fst (new_session 1 new_pool)]\<rparr>"

definition offered_net :: gossip_net where
  "offered_net = opened_net\<lparr>gn_pool :=
     snd (offer sample_sha (\<lambda>_ _. 0) sample_body 60000000000 1 None (hd (gn_sessions opened_net)) (gn_pool opened_net))\<rparr>"

definition serving_net :: gossip_net where
  "serving_net = set_session 0 (snd (receive_gossip sample_sha True (gossip_msg ''want'' sample_gid 1) 2
     (hd (gn_sessions offered_net)) (gn_pool offered_net))) offered_net"

definition wanting_net :: gossip_net where
  "wanting_net = set_session 0 (snd (receive_gossip sample_sha False (gossip_msg ''have'' sample_gid 0) 1
     (hd (gn_sessions opened_net)) (gn_pool opened_net))) opened_net"

lemma at_hd: "gn_sessions n \<noteq> [] \<Longrightarrow> at_session n 0 (hd (gn_sessions n))"
  by (simp add: at_session_def hd_conv_nth)

lemma opened_reachable: "gossip_reachable sha opened_net"
proof -
  have "gossip_step sha start_net opened_net"
    using gstep_open [of start_net 1 "fst (new_session 1 new_pool)" "snd (new_session 1 new_pool)"]
    by (simp add: start_net_def opened_net_def new_pool_def)
  then show ?thesis using greach_start greach_step by blast
qed

lemma offered_reachable: "gossip_reachable sample_sha offered_net"
  unfolding offered_net_def
  by (rule greach_step [OF opened_reachable gstep_offer [OF at_hd]]) (simp add: opened_net_def)

lemma serving_reachable: "gossip_reachable sample_sha serving_net"
  unfolding serving_net_def
  by (rule greach_step [OF offered_reachable gstep_receive [OF at_hd]]) (simp add: offered_net_def opened_net_def)

lemma wanting_reachable: "gossip_reachable sample_sha wanting_net"
  unfolding wanting_net_def
  by (rule greach_step [OF opened_reachable gstep_receive [OF at_hd]]) (simp add: opened_net_def)

lemma sample_gid_shape: "fst sample_gid = 1" "length (snd sample_gid) = 32" "identify_artifact sample_sha 1 [1, 2, 3] = sample_gid"
  by (simp_all add: sample_gid_def identify_artifact_def sample_sha_def sample_body_def)

lemma sample_msg: "gossip_id (gossip_msg op sample_gid r) = sample_gid"
  using sample_gid_shape(2) by (simp add: gossip_id_def gossip_msg_def)

lemma sample_valid:
  "validate_gossip (gossip_msg ''want'' sample_gid 1) = None" "validate_gossip (gossip_msg ''have'' sample_gid 0) = None"
  "gm_op (gossip_msg op sample_gid r) = op" "gm_type (gossip_msg op sample_gid r) = 1"
  "gm_request (gossip_msg op sample_gid r) = r" "\<not> future_type (gossip_msg op sample_gid r)"
  using sample_gid_shape by (simp_all add: validate_gossip_def gossip_msg_def known_op_def future_type_def)

definition idle_session :: gossip_session where
  "idle_session = \<lparr>gs_owner = 1, gs_kind = 1, gs_seen = [], gs_unavailable = {}, gs_out = [], gs_closed = False\<rparr>"

lemma opened_eq: "opened_net = \<lparr>gn_pool = new_pool\<lparr>gp_owner := 1\<rparr>, gn_sessions = [idle_session]\<rparr>"
  by (simp add: opened_net_def new_session_def new_pool_def idle_session_def)

lemma offered_eq:
  "offered_net = \<lparr>gn_pool = \<lparr>gp_objects = [(sample_gid, \<lparr>ob_data = [1, 2, 3], ob_load = None, ob_expires = 60000000000, ob_used = 1\<rparr>)],
     gp_pending = [], gp_owner = 1, gp_request = 0, gp_bytes = 3, gp_serving = 0\<rparr>, gn_sessions = [idle_session]\<rparr>"
  by (simp add: offered_net_def opened_eq offer_def remember_def prune_gossip_def prune_objects_def forget_object_def
      make_space.simps [of _ _ "_ :: gossip_pool"] new_pool_def idle_session_def sample_body_def sample_gid_shape(3) m_adj_def m_del_def Let_def)

lemma serving_eq:
  "serving_net = \<lparr>gn_pool = \<lparr>gp_objects = [(sample_gid, \<lparr>ob_data = [1, 2, 3], ob_load = None, ob_expires = 60000000000, ob_used = 1\<rparr>)],
     gp_pending = [], gp_owner = 1, gp_request = 0, gp_bytes = 3, gp_serving = 1\<rparr>,
     gn_sessions = [idle_session\<lparr>gs_out := [\<lparr>tr_message = gossip_msg ''data'' sample_gid 1, tr_data = [1, 2, 3], tr_offset = 0\<rparr>]\<rparr>]\<rparr>"
  unfolding serving_net_def offered_eq
  by (simp add: receive_gossip_def sample_valid sample_msg known_op_def prune_gossip_def prune_objects_def m_adj_def
      receive_want_def idle_session_def set_session_def Let_def)

lemma wanting_eq:
  "wanting_net = \<lparr>gn_pool = \<lparr>gp_objects = [], gp_pending = [(sample_gid, \<lparr>fe_owner = 1, fe_request = 1,
       fe_suppliers = [(1, 120000000001)], fe_progress = 1, fe_data = [], fe_total = 0, fe_received = False, fe_avoid = 0\<rparr>)],
     gp_owner = 1, gp_request = 1, gp_bytes = 0, gp_serving = 0\<rparr>,
     gn_sessions = [idle_session\<lparr>gs_seen := [(sample_gid, 120000000001)]\<rparr>]\<rparr>"
  unfolding wanting_net_def opened_eq
  by (simp add: receive_gossip_def sample_valid sample_msg known_op_def prune_gossip_def prune_objects_def m_adj_def
      receive_have_def claim_artifact_def grant_def empty_fetch_def seen_until_def in_flight_def in_flight_of_def put_fetch_def
      new_pool_def idle_session_def set_session_def Let_def)

subsection \<open>Bounds and claims\<close>

text \<open>
  C16 (gossip_bounded): in every run of a router, whatever the neighbours send and in whatever order its
  sessions act, the pool's byte count is exact and within its budget; the announcements known, the downloads
  pending, the suppliers and the partial body of each, the downloads in flight and those of one session, the
  uploads in progress, and in each session the hints and the uploads it has in hand stay within their limits;
  and a body held is one that hashes to the digest it is held under.
\<close>

theorem gossip_bounded:
  assumes "gossip_reachable sha n"
  shows "gp_bytes (gn_pool n) = m_sum body_size (gp_objects (gn_pool n)) \<and> gp_bytes (gn_pool n) \<le> max_bytes
    \<and> length (gp_objects (gn_pool n)) \<le> max_known \<and> length (gp_pending (gn_pool n)) \<le> max_pending
    \<and> in_flight (gn_pool n) \<le> max_in_flight \<and> (\<forall>k. in_flight_of k (gn_pool n) \<le> max_per_peer)
    \<and> (\<forall>g f. map_of (gp_pending (gn_pool n)) g = Some f \<longrightarrow> length (fe_suppliers f) \<le> max_suppliers
         \<and> int (length (fe_data f)) \<le> fe_total f \<and> fe_total f \<le> int max_object)
    \<and> gp_serving (gn_pool n) = uploads (gn_sessions n) \<and> gp_serving (gn_pool n) \<le> int max_in_flight
    \<and> (\<forall>s \<in> set (gn_sessions n). length (gs_seen s) \<le> max_known \<and> length (gs_out s) \<le> max_per_peer)
    \<and> (\<forall>g x. map_of (gp_objects (gn_pool n)) g = Some x \<and> ob_data x \<noteq> [] \<longrightarrow>
         identify_artifact sha (fst g) (ob_data x) = g)"
proof -
  have ok: "net_ok sha n" using assms by (rule gossip_reachable_ok)
  note P = net_ok_pool [OF ok]
  have "in_flight_of k (gn_pool n) \<le> max_per_peer" for k
    using P claims_in_flight_of [of k "gn_pool n"] unfolding pool_ok_def by (metis of_nat_le_iff)
  moreover have "in_flight (gn_pool n) \<le> max_in_flight"
    using P claims_in_flight [of "gn_pool n"] by (simp add: pool_ok_def)
  moreover have "identify_artifact sha (fst g) (ob_data x) = g"
    if "map_of (gp_objects (gn_pool n)) g = Some x" "ob_data x \<noteq> []" for g x
    using pool_okD(5) [OF P that(1)] that(2) by (simp add: object_ok_def)
  moreover have "gp_bytes (gn_pool n) = m_sum body_size (gp_objects (gn_pool n))" "gp_bytes (gn_pool n) \<le> max_bytes"
    "length (gp_objects (gn_pool n)) \<le> max_known" "length (gp_pending (gn_pool n)) \<le> max_pending"
    using P by (simp_all add: pool_ok_def)
  moreover have "gp_serving (gn_pool n) = uploads (gn_sessions n)" "gp_serving (gn_pool n) \<le> int max_in_flight"
    using ok by (simp_all add: net_ok_def)
  moreover have "length (fe_suppliers f) \<le> max_suppliers \<and> int (length (fe_data f)) \<le> fe_total f
      \<and> fe_total f \<le> int max_object" if "map_of (gp_pending (gn_pool n)) g = Some f" for g f
    using pool_okD(4) [OF P that] by (simp add: fetch_ok_def)
  moreover have "length (gs_seen s) \<le> max_known \<and> length (gs_out s) \<le> max_per_peer"
    if "s \<in> set (gn_sessions n)" for s
    using ok that by (auto simp: net_ok_def session_ok_def)
  ultimately show ?thesis by blast
qed

theorem gossip_bounded_witness:
  "gp_bytes (gn_pool serving_net) = 3 \<and> gp_serving (gn_pool serving_net) = uploads (gn_sessions serving_net)
   \<and> gp_bytes (gn_pool serving_net) \<le> max_bytes"
proof -
  have "gp_bytes (gn_pool serving_net) = 3" by (simp add: serving_eq)
  then show ?thesis using gossip_bounded [OF serving_reachable] by simp
qed

text \<open>
  C17 (claim_owner_alive): every claim of a download, the reservation of a complete body included, belongs to
  exactly one session, and that session is open: closing a session leaves no claim behind.
\<close>

theorem claim_owner_alive:
  assumes "gossip_reachable sha n" "map_of (gp_pending (gn_pool n)) g = Some f" "fe_owner f \<noteq> 0"
  shows "\<exists>!i. i < length (gn_sessions n) \<and> gs_owner (gn_sessions n ! i) = fe_owner f \<and> \<not> gs_closed (gn_sessions n ! i)"
proof -
  have ok: "net_ok sha n" using assms(1) by (rule gossip_reachable_ok)
  have "fe_owner f \<in> open_owners (gn_sessions n)"
    using pool_okD(4) [OF net_ok_pool [OF ok] assms(2)] assms(3) by (simp add: fetch_ok_def)
  then obtain s where "s \<in> set (gn_sessions n)" "gs_owner s = fe_owner f" "\<not> gs_closed s"
    by (auto simp: open_owners_def)
  then obtain i where i: "i < length (gn_sessions n)" "gs_owner (gn_sessions n ! i) = fe_owner f"
      "\<not> gs_closed (gn_sessions n ! i)"
    by (auto simp: in_set_conv_nth)
  have d: "distinct (map gs_owner (gn_sessions n))" using ok by (simp add: net_ok_def)
  show ?thesis
  proof (rule ex1I [of _ i])
    fix j assume "j < length (gn_sessions n) \<and> gs_owner (gn_sessions n ! j) = fe_owner f \<and> \<not> gs_closed (gn_sessions n ! j)"
    then show "j = i" using at_session_unique [OF d _ i(1), of j] i(2) by simp
  qed (use i in blast)
qed

theorem claim_owner_alive_witness:
  "\<exists>!i. i < length (gn_sessions wanting_net) \<and> gs_owner (gn_sessions wanting_net ! i) = 1
     \<and> \<not> gs_closed (gn_sessions wanting_net ! i)"
  using claim_owner_alive [OF wanting_reachable, of sample_gid] by (simp add: wanting_eq)

subsection \<open>A transfer ends\<close>

lemma transfer_id:
  assumes "transfer_ok sha x"
  shows "gossip_id (tr_message x) = (gm_type (tr_message x), gm_digest (tr_message x)) \<and> gm_op (tr_message x) = ''data''"
proof -
  from assms obtain h r where "tr_message x = gossip_msg ''data'' h r" "length (snd h) = 32"
    by (auto simp: transfer_ok_def)
  then show ?thesis by (simp add: gossip_id_def gossip_msg_def)
qed

lemma find_member: "x \<in> set xs \<Longrightarrow> distinct (map f xs) \<Longrightarrow> find (\<lambda>y. f y = f x) xs = Some x"
  by (induction xs) auto

text \<open>
  C15 (gossip_transfer_completes): once a session has accepted an upload, polls with enough slots for the chunks of
  all its uploads empty its list, whatever else these polls do; and a neighbour that had claimed the artifact under
  this request and receives its chunks before the hint expires and without an idle gap accepts each of them and is
  handed, with the last one, exactly the body, which has the digest requested.
\<close>

theorem gossip_transfer_completes:
  assumes up: "gossip_reachable sha n" "at_session n i s" "\<not> gs_closed s" "x \<in> set (gs_out s)" "tr_offset x = 0"
      "upload_work (gs_out s) \<le> sum_list (map (\<lambda>(slots, _). min 8 (poll_budget slots)) ps)"
    and down: "gossip_reachable sha n2" "at_session n2 j t" "\<not> gs_closed t" "gs_kind t = gm_type (tr_message x)"
      "map_of (gp_pending (gn_pool n2)) (gossip_id (tr_message x)) = Some f"
      "fe_owner f = gs_owner t" "fe_request f = upload_request x" "fe_data f = []" "fe_total f = 0" "\<not> fe_received f"
      "(u, until) \<in> set (fe_suppliers f)" "length ts = chunks_left x" "prompt until (fe_progress f) ts"
  shows "gs_out (fst (snd (polls ps s (gn_pool n)))) = []
    \<and> fst (deliver sha (zip (data_for (upload_request x) (fst (polls ps s (gn_pool n)))) ts) t (gn_pool n2))
      = replicate (chunks_left x - 1) (None, None, None) @ [(None, None, Some (tr_data x))]
    \<and> identify_artifact sha (gs_kind t) (tr_data x) = gossip_id (tr_message x)"
proof -
  define k where "k = sum_list (map (\<lambda>(slots, _). min 8 (poll_budget slots)) ps)"
  define r where "r = upload_request x"
  have A: "net_ok sha n" and B: "net_ok sha n2" using up(1) down(1) gossip_reachable_ok by blast+
  have s: "session_ok sha s" using net_ok_session [OF A up(2)] .
  have xs: "\<forall>y \<in> set (gs_out s). transfer_ok sha y" "distinct (map upload_request (gs_out s))"
    using s by (simp_all add: session_ok_def)
  have x: "transfer_ok sha x" "tr_offset x < length (tr_data x)" using xs(1) up(4) by (auto simp: transfer_ok_def)
  have g: "gossip_id (tr_message x) = (gm_type (tr_message x), gm_digest (tr_message x))"
    using transfer_id [OF x(1)] by simp
  obtain out s' p' where pl: "polls ps s (gn_pool n) = (out, s', p')" by (metis prod_cases3)
  note S = polls_serve [OF net_ok_pool [OF A] s up(3) open_owners_at [OF up(2,3)] pl, of r, folded k_def]
  note E = serve_all [OF xs up(6) [folded k_def], of r]
  have "\<forall>m \<in> set (fst (serve k (gs_out s))). gm_op m = ''data''"
    using xs(1) transfer_id by (intro serve_op) blast
  then have "data_for r (fst (serve k (gs_out s))) = filter (\<lambda>m. gm_request m = r) (fst (serve k (gs_out s)))"
    by (intro filter_cong) auto
  moreover have "find (\<lambda>y. upload_request y = r) (gs_out s) = Some x"
    unfolding r_def using up(4) xs(2) by (rule find_member)
  ultimately have data: "data_for r out = chunks_from x" "gs_out s' = []"
    using S E by (simp_all add: find_upload_def)
  have t: "session_ok sha t" using net_ok_session [OF B down(2)] .
  have f: "downloading x u until t f"
    using down(6-11) t up(5) by (simp add: downloading_def session_ok_def)
  have "fst (deliver sha (zip (chunks_from x) ts) t (gn_pool n2))
      = replicate (length ts - 1) (None, None, None) @ [(None, None, Some (tr_data x))]"
    using deliver_all [OF x(1) g down(3) _ pool_okD(2) [OF net_ok_pool [OF B]] down(5) f _ down(13)]
      down(4,12) length_chunks_from [OF x(2)] g by simp
  then show ?thesis using data pl down(4,12) chunk_valid(5) [OF x(1) g] g by (simp add: r_def)
qed

theorem gossip_transfer_witness:
  "gs_out (fst (snd (polls [(None, 3)] (hd (gn_sessions serving_net)) (gn_pool serving_net)))) = []
   \<and> fst (deliver sample_sha (zip (data_for 1 (fst (polls [(None, 3)] (hd (gn_sessions serving_net)) (gn_pool serving_net)))) [4])
       (hd (gn_sessions wanting_net)) (gn_pool wanting_net)) = [(None, None, Some [1, 2, 3])]"
proof -
  let ?x = "\<lparr>tr_message = gossip_msg ''data'' sample_gid 1, tr_data = [1, 2, 3], tr_offset = 0\<rparr>"
  have "at_session serving_net 0 (hd (gn_sessions serving_net))" "at_session wanting_net 0 (hd (gn_sessions wanting_net))"
    by (intro at_hd; simp add: serving_eq wanting_eq)+
  note T = gossip_transfer_completes [OF serving_reachable this(1) _ _ _ _ wanting_reachable this(2), of ?x "[(None, 3)]"
      _ 1 120000000001 "[4]"]
  show ?thesis using T
    by (simp add: serving_eq wanting_eq idle_session_def upload_work_def chunks_left_def poll_budget_def sample_msg sample_valid)
qed

subsection \<open>A withdrawal after the body has arrived\<close>

text \<open>
  The comment in \<open>receive\<close> says that a withdrawal cannot release the reservation of a complete body that is
  being verified. If the withdrawing neighbour is the only supplier, the entry is left without suppliers and
  the pruning of the next section deletes it, with the reservation: another neighbour's announcement then starts
  a second download.
\<close>

lemma withdrawal_releases_reservation:
  assumes "m_ok (gp_pending p)" "map_of (gp_pending p) g = Some f" "fe_owner f = gs_owner s" "fe_owner f \<noteq> 0"
    "fe_received f" "fe_suppliers f = [(gs_owner s, until)]"
  shows "map_of (gp_pending (snd (receive_gone g s p))) g = Some (f\<lparr>fe_suppliers := []\<rparr>)"
    "map_of (gp_pending (prune_gossip now (snd (receive_gone g s p)))) g = None"
proof -
  have "snd (receive_gone g s p) = put_fetch g (f\<lparr>fe_suppliers := []\<rparr>) p"
    using assms(2-6) by (simp add: receive_gone_def Let_def m_del_def)
  then show "map_of (gp_pending (snd (receive_gone g s p))) g = Some (f\<lparr>fe_suppliers := []\<rparr>)"
    "map_of (gp_pending (prune_gossip now (snd (receive_gone g s p)))) g = None"
    using assms(1) by (simp_all add: put_fetch_def prune_gossip_def prune_objects_def prune_fetch_def Let_def map_of_filter_ok)
qed

end
