(* ===== verification/Vip_Table.thy ===== *)
theory Vip_Table
  imports Mesh_Ident
begin

section \<open>Mesh VIPs (mesh/vip.go)\<close>

text \<open>
  \<open>VIPTable\<close> pins addresses of a service CIDR to device principals and writes every change to a file.
  A tenant is \<open>Some\<close> UUID, or \<open>None\<close> for the zero \<open>Tenant\<close>. The texts of UUIDs, addresses and
  prefixes are those of the \<open>uuid\<close> and \<open>netip\<close> packages: a record of functions, the argument \<open>tc\<close>.
  The file is the value of its JSON document (\<open>Garbled\<close> for bytes that are none). What a call of \<open>persist\<close> meets
  is its argument: a failure before the rename, the rename without a confirmed sync of the directory, or success.
\<close>

record text_codec =
  tc_uuid :: "bytes \<Rightarrow> string"
  tc_parse_uuid :: "string \<Rightarrow> bytes option"
  tc_addr :: "addr \<Rightarrow> string"
  tc_parse_addr :: "string \<Rightarrow> addr option"
  tc_prefix :: "prefix \<Rightarrow> string"
  tc_parse_prefix :: "string \<Rightarrow> prefix option"

definition parse_canonical :: "text_codec \<Rightarrow> string \<Rightarrow> bytes option" where
  "parse_canonical tc s = (case tc_parse_uuid tc s of
     None \<Rightarrow> None
   | Some u \<Rightarrow> if tc_uuid tc u \<noteq> s then None else Some u)"

record vip_entry =
  ve_tenant :: "bytes option"
  ve_id :: bytes
  ve_vip :: addr

datatype corruption =
    BadJson
  | BadVersion
  | BadCidr
  | BadEntry
  | BadEntryVip
  | UnusableVip
  | DeviceTwice
  | VipTwice
  | BadRetired
  | UnusableRetired
  | AllocatedAndRetired
  | BadCursor

datatype vip_error =
    NoHosts
  | ReadFailed
  | Corrupt corruption
  | SyncFailed
  | WriteFailed
  | NeedsDevice
  | NeedsTenant
  | PoolExhausted
  | OutsideCidr
  | Unallocated
  | BadDevice

record vip_table =
  vt_prefix :: prefix
  vt_capacity :: int
  vt_entries :: "(bytes, vip_entry) gomap"
  vt_owner :: "(addr, bytes) gomap"
  vt_retired :: "(addr, bool) gomap"
  vt_cursor :: int
  vt_error :: "vip_error option"

record vip_record =
  vr_tenant :: string
  vr_device :: string
  vr_vip :: string

record vip_file =
  vf_version :: int
  vf_cidr :: string
  vf_cursor :: int
  vf_entries :: "vip_record list"
  vf_retired :: "string list"

datatype vip_document = Missing | Unreadable | Garbled | Document vip_file

subsection \<open>Addresses\<close>

definition pfx_contains :: "prefix \<Rightarrow> addr \<Rightarrow> bool" where
  "pfx_contains p a \<longleftrightarrow> pfx_valid p \<and> zone a = '''' \<and> bit_len a = bit_len (pfx_addr p)
     \<and> drop_bit (bit_len a - pfx_bits p) (be_val (as_slice a) :: 128 word)
        = drop_bit (bit_len a - pfx_bits p) (be_val (as_slice (pfx_addr p)))"

definition usable_hosts :: "prefix \<Rightarrow> int" where
  "usable_hosts p = (if \<not> pfx_valid p \<or> \<not> is4 (pfx_addr p) then 0 else 2 ^ (32 - pfx_bits p) - 2)"

definition vip_base :: "prefix \<Rightarrow> u32" where
  "vip_base p = be_val (as_slice (pfx_addr p))"

definition vip_for_index :: "vip_table \<Rightarrow> int \<Rightarrow> addr" where
  "vip_for_index t idx = V4 (be_bytes 4 (vip_base (vt_prefix t) + of_int idx))"

definition index_of_vip :: "vip_table \<Rightarrow> addr \<Rightarrow> int option" where
  "index_of_vip t a =
     (if \<not> is4 a \<or> zone a \<noteq> '''' \<or> \<not> pfx_contains (vt_prefix t) a then None
      else
        (let idx = uint (be_val (as_slice a) - vip_base (vt_prefix t)) in
         if idx < 1 \<or> vt_capacity t < idx then None else Some idx))"

function first_free :: "vip_table \<Rightarrow> int \<Rightarrow> int option" where
  "first_free t idx =
     (if vt_capacity t < idx then None
      else if map_of (vt_owner t) (vip_for_index t idx) \<noteq> None then first_free t (idx + 1)
      else if map_of (vt_retired t) (vip_for_index t idx) = Some True then first_free t (idx + 1)
      else Some idx)"
  by pat_completeness auto
termination
  by (relation "measure (\<lambda>(t, idx). nat (vt_capacity t + 1 - idx))") auto

declare first_free.simps [simp del]

definition next_vip :: "vip_table \<Rightarrow> (addr \<times> vip_table) option" where
  "next_vip t = (case first_free t (vt_cursor t) of
     None \<Rightarrow> None
   | Some idx \<Rightarrow> Some (vip_for_index t idx, t\<lparr>vt_cursor := idx + 1\<rparr>))"

subsection \<open>The file\<close>

text \<open>
  The directory entry as programs see it, and the contents a crash may leave: the last one known to be
  durable and those renamed over it since.
\<close>

record vip_disk =
  vd_visible :: vip_document
  vd_durable :: "vip_document list"

datatype persist_outcome = BeforeRename | AfterRename | Persisted

definition vip_record_of :: "text_codec \<Rightarrow> vip_entry \<Rightarrow> vip_record" where
  "vip_record_of tc e = \<lparr>vr_tenant = tenant_text (tc_uuid tc) (ve_tenant e), vr_device = tc_uuid tc (ve_id e),
     vr_vip = tc_addr tc (ve_vip e)\<rparr>"

definition file_of :: "text_codec \<Rightarrow> vip_table \<Rightarrow> vip_file" where
  "file_of tc t = \<lparr>vf_version = 1, vf_cidr = tc_prefix tc (vt_prefix t), vf_cursor = vt_cursor t,
     vf_entries = map (vip_record_of tc) (sort_key (\<lambda>e. (ve_vip e, tc_uuid tc (ve_id e))) (map snd (vt_entries t))),
     vf_retired = map (tc_addr tc) (m_keys (vt_retired t))\<rparr>"

definition persist_vips :: "text_codec \<Rightarrow> persist_outcome \<Rightarrow> vip_table \<Rightarrow> vip_disk
    \<Rightarrow> vip_error option \<times> vip_table \<times> vip_disk" where
  "persist_vips tc out t d =
     (let doc = Document (file_of tc t) in
      case out of
        BeforeRename \<Rightarrow> (Some WriteFailed, t, d)
      | AfterRename \<Rightarrow> (Some SyncFailed, t\<lparr>vt_error := Some SyncFailed\<rparr>, d\<lparr>vd_visible := doc, vd_durable := doc # vd_durable d\<rparr>)
      | Persisted \<Rightarrow> (None, t, d\<lparr>vd_visible := doc, vd_durable := [doc]\<rparr>))"

definition load_entry :: "text_codec \<Rightarrow> vip_record \<Rightarrow> vip_table \<Rightarrow> corruption + vip_table" where
  "load_entry tc r t = (case parse_canonical tc (vr_tenant r) of
     None \<Rightarrow> Inl BadEntry
   | Some tenant \<Rightarrow> (case parse_canonical tc (vr_device r) of
       None \<Rightarrow> Inl BadEntry
     | Some u \<Rightarrow> (case tc_parse_addr tc (vr_vip r) of
         None \<Rightarrow> Inl BadEntryVip
       | Some vip \<Rightarrow>
           if index_of_vip t vip = None then Inl UnusableVip
           else if map_of (vt_entries t) u \<noteq> None then Inl DeviceTwice
           else if map_of (vt_owner t) vip \<noteq> None then Inl VipTwice
           else Inr (t\<lparr>vt_entries := m_put u \<lparr>ve_tenant = Some tenant, ve_id = u, ve_vip = vip\<rparr> (vt_entries t),
                 vt_owner := m_put vip u (vt_owner t)\<rparr>))))"

fun load_entries :: "text_codec \<Rightarrow> vip_record list \<Rightarrow> vip_table \<Rightarrow> corruption + vip_table" where
  "load_entries tc [] t = Inr t"
| "load_entries tc (r # rs) t = (case load_entry tc r t of Inl err \<Rightarrow> Inl err | Inr t \<Rightarrow> load_entries tc rs t)"

fun load_retired :: "text_codec \<Rightarrow> string list \<Rightarrow> vip_table \<Rightarrow> corruption + vip_table" where
  "load_retired tc [] t = Inr t"
| "load_retired tc (s # ss) t = (case tc_parse_addr tc s of
     None \<Rightarrow> Inl BadRetired
   | Some vip \<Rightarrow>
       if index_of_vip t vip = None then Inl UnusableRetired
       else if map_of (vt_owner t) vip \<noteq> None then Inl AllocatedAndRetired
       else load_retired tc ss (t\<lparr>vt_retired := m_put vip True (vt_retired t)\<rparr>))"

definition load_file :: "text_codec \<Rightarrow> vip_file \<Rightarrow> vip_table \<Rightarrow> corruption + vip_table" where
  "load_file tc f t =
     (if vf_version f \<noteq> 1 then Inl BadVersion
      else if tc_parse_prefix tc (vf_cidr f) \<noteq> Some (vt_prefix t) then Inl BadCidr
      else (case load_entries tc (vf_entries f) t of
          Inl err \<Rightarrow> Inl err
        | Inr t \<Rightarrow> (case load_retired tc (vf_retired f) t of
            Inl err \<Rightarrow> Inl err
          | Inr t \<Rightarrow>
              if vf_cursor f < 1 \<or> vt_capacity t + 1 < vf_cursor f then Inl BadCursor
              else Inr (t\<lparr>vt_cursor := vf_cursor f\<rparr>))))"

fun load_vips :: "text_codec \<Rightarrow> vip_document \<Rightarrow> vip_table \<Rightarrow> vip_error + vip_table" where
  "load_vips tc Missing t = Inr t"
| "load_vips tc Unreadable t = Inl ReadFailed"
| "load_vips tc Garbled t = Inl (Corrupt BadJson)"
| "load_vips tc (Document f) t = (case load_file tc f t of Inl err \<Rightarrow> Inl (Corrupt err) | Inr t \<Rightarrow> Inr t)"

definition fresh_table :: "prefix \<Rightarrow> vip_table" where
  "fresh_table p = \<lparr>vt_prefix = p, vt_capacity = usable_hosts p, vt_entries = [], vt_owner = [], vt_retired = [],
     vt_cursor = 1, vt_error = None\<rparr>"

text \<open>Opening syncs the directory, which makes the visible file durable.\<close>

definition open_vips :: "text_codec \<Rightarrow> bool \<Rightarrow> prefix \<Rightarrow> vip_disk \<Rightarrow> (vip_error + vip_table) \<times> vip_disk" where
  "open_vips tc synced p d =
     (if usable_hosts p < 1 then (Inl NoHosts, d)
      else (case load_vips tc (vd_visible d) (fresh_table p) of
          Inl err \<Rightarrow> (Inl err, d)
        | Inr t \<Rightarrow> if synced then (Inr t, d\<lparr>vd_durable := [vd_visible d]\<rparr>) else (Inl SyncFailed, d)))"

subsection \<open>Operations\<close>

definition tenant_uuid :: "bytes option \<Rightarrow> bytes" where
  "tenant_uuid t = (case t of None \<Rightarrow> nil_uuid | Some u \<Rightarrow> u)"

definition retire_pin :: "bytes \<Rightarrow> addr \<Rightarrow> vip_table \<Rightarrow> vip_table" where
  "retire_pin u vip t = t\<lparr>vt_entries := m_del u (vt_entries t), vt_owner := m_del vip (vt_owner t),
     vt_retired := m_put vip True (vt_retired t)\<rparr>"

definition pin_vip :: "bytes option \<Rightarrow> bytes \<Rightarrow> addr \<Rightarrow> vip_table \<Rightarrow> vip_table" where
  "pin_vip tenant u vip t = t\<lparr>vt_entries := m_put u \<lparr>ve_tenant = tenant, ve_id = u, ve_vip = vip\<rparr> (vt_entries t),
     vt_owner := m_put vip u (vt_owner t)\<rparr>"

definition undo_pin :: "int \<Rightarrow> bytes \<Rightarrow> addr \<Rightarrow> vip_entry option \<Rightarrow> vip_table \<Rightarrow> vip_table" where
  "undo_pin cursor u vip prev t =
     (let t = t\<lparr>vt_cursor := cursor, vt_entries := m_del u (vt_entries t), vt_owner := m_del vip (vt_owner t)\<rparr> in
      case prev of
        None \<Rightarrow> t
      | Some e \<Rightarrow> t\<lparr>vt_entries := m_put u e (vt_entries t), vt_owner := m_put (ve_vip e) u (vt_owner t),
          vt_retired := m_del (ve_vip e) (vt_retired t)\<rparr>)"

definition allocate_vip :: "text_codec \<Rightarrow> persist_outcome \<Rightarrow> device \<Rightarrow> vip_table \<Rightarrow> vip_disk
    \<Rightarrow> (vip_error + addr) \<times> vip_table \<times> vip_disk" where
  "allocate_vip tc out dev t d =
     (if \<not> dv_valid dev then (Inl NeedsDevice, t, d)
      else if vt_error t \<noteq> None then (Inl (the (vt_error t)), t, d)
      else
        (let u = dv_id dev; tenant = dv_tenant dev; prev = map_of (vt_entries t) u in
         if (case prev of None \<Rightarrow> False | Some e \<Rightarrow> tenant_uuid (ve_tenant e) = tenant_uuid tenant)
         then (Inr (ve_vip (the prev)), t, d)
         else (case next_vip t of
             None \<Rightarrow> (Inl PoolExhausted, t, d)
           | Some (vip, t') \<Rightarrow>
               (let t' = (case prev of None \<Rightarrow> t' | Some e \<Rightarrow> retire_pin u (ve_vip e) t');
                    t' = pin_vip tenant u vip t'
                in case persist_vips tc out t' d of
                     (None, t', d) \<Rightarrow> (Inr vip, t', d)
                   | (Some err, t', d) \<Rightarrow>
                       if vt_error t' \<noteq> None then (Inl err, t', d)
                       else (Inl err, undo_pin (vt_cursor t) u vip prev t', d)))))"

definition lookup_vip :: "device \<Rightarrow> vip_table \<Rightarrow> addr option" where
  "lookup_vip dev t =
     (if \<not> dv_valid dev \<or> vt_error t \<noteq> None then None
      else (case map_of (vt_entries t) (dv_id dev) of
          None \<Rightarrow> None
        | Some e \<Rightarrow> if tenant_uuid (ve_tenant e) \<noteq> tenant_uuid (dv_tenant dev) then None else Some (ve_vip e)))"

definition device_of_vip :: "text_codec \<Rightarrow> addr \<Rightarrow> vip_table \<Rightarrow> vip_error + device" where
  "device_of_vip tc vip t =
     (if vt_error t \<noteq> None then Inl (the (vt_error t))
      else if index_of_vip t vip = None then Inl OutsideCidr
      else (case map_of (vt_owner t) vip of
          None \<Rightarrow> Inl Unallocated
        | Some u \<Rightarrow>
            (let tenant = (case map_of (vt_entries t) u of None \<Rightarrow> None | Some e \<Rightarrow> ve_tenant e) in
             case tenant of
               None \<Rightarrow> Inl BadDevice
             | Some tu \<Rightarrow> (case parse_canonical tc (tc_uuid tc u) of
                 None \<Rightarrow> Inl BadDevice
               | Some u' \<Rightarrow> Inr (Device tenant u' [])))))"

definition foreign_entries :: "bytes option \<Rightarrow> vip_table \<Rightarrow> vip_entry list" where
  "foreign_entries tenant t = filter (\<lambda>e. tenant_uuid (ve_tenant e) \<noteq> tenant_uuid tenant) (map snd (vt_entries t))"

definition retire_tenant :: "text_codec \<Rightarrow> persist_outcome \<Rightarrow> bytes option \<Rightarrow> vip_table \<Rightarrow> vip_disk
    \<Rightarrow> vip_error option \<times> vip_table \<times> vip_disk" where
  "retire_tenant tc out tenant t d =
     (if tenant = None then (Some NeedsTenant, t, d)
      else if vt_error t \<noteq> None then (vt_error t, t, d)
      else
        (let dropped = foreign_entries tenant t in
         if dropped = [] then (None, t, d)
         else (case persist_vips tc out (fold (\<lambda>e. retire_pin (ve_id e) (ve_vip e)) dropped t) d of
             (None, t, d) \<Rightarrow> (None, t, d)
           | (Some err, t, d) \<Rightarrow> 
               (let t = (if vt_error t = None then t\<lparr>vt_error := Some err\<rparr> else t) in (vt_error t, t, d)))))"

definition vip_stats :: "vip_table \<Rightarrow> int \<times> int \<times> int" where
  "vip_stats t = (int (length (vt_entries t)), int (length (vt_retired t)), vt_capacity t)"

end
