(* ===== verification/Vip_Inv.thy ===== *)
theory Vip_Inv
  imports Vip_Table
begin

section \<open>Mesh VIPs: the table's invariant\<close>

subsection \<open>Addresses of the CIDR\<close>

definition vip_cidr :: "prefix \<Rightarrow> bool" where
  "vip_cidr p \<longleftrightarrow> pfx_valid p \<and> is4 (pfx_addr p) \<and> length (as_slice (pfx_addr p)) = 4 \<and> pfx_bits p \<le> 30
     \<and> 2 ^ (32 - pfx_bits p) dvd unat (vip_base p)"

lemma be_val_wide:
  assumes "length b = 4"
  shows "unat (be_val b :: 128 word) = unat (be_val b :: u32)"
proof -
  let ?w = "be_val b :: u32"
  have b: "b = be_bytes 4 ?w" using be_bytes_be_val [of b, where 'a = 32] assms by simp
  have "be_bytes n (ucast w :: 128 word) = be_bytes n w" for n and w :: u32
  proof (induction n arbitrary: w)
    case (Suc n)
    have "j < 32" if "bit w j" for j using bit_imp_le_length [OF that] by simp
    then have "j < 120" if "bit w (8 + j)" for j using that by fastforce
    then have "drop_bit 8 (ucast w :: 128 word) = ucast (drop_bit 8 w)" "(ucast (ucast w :: 128 word) :: byte) = ucast w"
      by (auto intro!: bit_word_eqI simp: bit_simps)
    then show ?case by (simp only: be_bytes.simps Suc.IH)
  qed simp
  then have "b = be_bytes 4 (ucast ?w :: 128 word)" using b by simp
  then have "(be_val b :: 128 word) = be_val (be_bytes 4 (ucast ?w :: 128 word))" by (rule arg_cong)
  also have "\<dots> = take_bit 32 (ucast ?w)" by (simp add: be_val_be_bytes)
  also have "\<dots> = ucast ?w"
  proof (rule bit_word_eqI)
    fix n assume "n < LENGTH(128)"
    then show "bit (take_bit 32 (ucast ?w :: 128 word)) n = bit (ucast ?w :: 128 word) n"
      using bit_imp_le_length [of ?w n] by (auto simp: bit_simps)
  qed
  finally have wide: "(be_val b :: 128 word) = ucast ?w" .
  have "unat ?w < 2 ^ LENGTH(32)" by (rule unsigned_less)
  then show ?thesis by (simp add: wide unsigned_ucast_eq take_bit_nat_eq_self_iff)
qed

lemma contains_iff:
  assumes "vip_cidr p" "length a = 4"
  shows "pfx_contains p (V4 a) \<longleftrightarrow>
    unat (be_val a :: u32) div 2 ^ (32 - pfx_bits p) = unat (vip_base p) div 2 ^ (32 - pfx_bits p)"
proof -
  obtain b where b: "pfx_addr p = V4 b" "length b = 4"
    using assms(1) by (cases "pfx_addr p") (auto simp: vip_cidr_def)
  have "(drop_bit k (be_val a :: 128 word) = drop_bit k (be_val b)) \<longleftrightarrow>
      unat (be_val a :: u32) div 2 ^ k = unat (be_val b :: u32) div 2 ^ k" for k
    unfolding word_unat_eq_iff unat_drop_bit_eq be_val_wide [OF assms(2)] be_val_wide [OF b(2)]
    by (simp add: drop_bit_eq_div)
  from this [of "32 - pfx_bits p"] show ?thesis using assms(1) b
    by (simp add: pfx_contains_def vip_base_def vip_cidr_def)
qed

text \<open>Adding an index to the base does not wrap and stays in the CIDR.\<close>

lemma base_room:
  assumes "vip_cidr p" "0 \<le> idx" "idx < 2 ^ (32 - pfx_bits p)"
  shows "unat (vip_base p + of_int idx) = unat (vip_base p) + nat idx"
    "(unat (vip_base p) + nat idx) div 2 ^ (32 - pfx_bits p) = unat (vip_base p) div 2 ^ (32 - pfx_bits p)"
proof -
  define k where "k = 32 - pfx_bits p"
  obtain m where m: "unat (vip_base p) = 2 ^ k * m" using assms(1) by (auto simp: vip_cidr_def k_def elim: dvdE)
  have n: "nat idx < 2 ^ k" using assms(2,3) by (simp add: k_def nat_less_iff)
  have "k \<le> 32" by (simp add: k_def)
  then have pow: "(2::nat) ^ 32 = 2 ^ k * 2 ^ (32 - k)" by (simp flip: power_add)
  have "unat (vip_base p) < 2 ^ LENGTH(32)" by (rule unsigned_less)
  then have "2 ^ k * m < 2 ^ k * 2 ^ (32 - k)" using m pow by simp
  then have "Suc m \<le> 2 ^ (32 - k)" by simp
  then have "2 ^ k * Suc m \<le> (2 ^ 32 :: nat)" unfolding pow by (rule mult_le_mono2)
  then have "2 ^ k * m + 2 ^ k \<le> (2 ^ 32 :: nat)" by simp
  with n m have "unat (vip_base p) + nat idx < 2 ^ 32" by linarith
  moreover have "(of_int idx :: u32) = of_nat (nat idx)" using assms(2) by simp
  then have "unat (of_int idx :: u32) = nat idx" using calculation by (simp only: unat_of_nat) simp
  ultimately show "unat (vip_base p + of_int idx) = unat (vip_base p) + nat idx"
    by (simp add: unat_word_ariths(1))
  show "(unat (vip_base p) + nat idx) div 2 ^ (32 - pfx_bits p) = unat (vip_base p) div 2 ^ (32 - pfx_bits p)"
    using n m by (simp flip: k_def)
qed

lemma vip_for_index_usable:
  assumes p: "vip_cidr (vt_prefix t)" "vt_capacity t = usable_hosts (vt_prefix t)" and i: "1 \<le> idx" "idx \<le> vt_capacity t"
  shows "index_of_vip t (vip_for_index t idx) = Some idx"
proof -
  define w where "w = vip_base (vt_prefix t) + of_int idx"
  have cap: "vt_capacity t = 2 ^ (32 - pfx_bits (vt_prefix t)) - 2" using p by (simp add: usable_hosts_def vip_cidr_def)
  note R = base_room [OF p(1), of idx, folded w_def]
  have "be_val (be_bytes 4 w) = w" by (simp add: be_val_be_bytes_full)
  then have "pfx_contains (vt_prefix t) (vip_for_index t idx)" "be_val (as_slice (vip_for_index t idx)) = w"
    using contains_iff [OF p(1), of "be_bytes 4 w"] R i cap by (simp_all add: vip_for_index_def w_def [symmetric])
  moreover have "uint (w - vip_base (vt_prefix t)) = idx"
  proof -
    have "unat (w - vip_base (vt_prefix t)) = nat idx"
      using R(1) i cap by (simp add: unat_sub word_le_nat_alt)
    then show ?thesis using i(1) by (metis nat_0_le order_trans uint_nat zero_le_one)
  qed
  ultimately show ?thesis using i by (simp add: index_of_vip_def vip_for_index_def)
qed

subsection \<open>The invariant\<close>

text \<open>
  \<open>entries\<close> and \<open>owner\<close> are inverse to each other, nothing is both allocated and retired, all addresses
  are usable hosts, and no index below the cursor is free.
\<close>

definition vip_used :: "vip_table \<Rightarrow> addr \<Rightarrow> bool" where
  "vip_used t v \<longleftrightarrow> map_of (vt_owner t) v \<noteq> None \<or> map_of (vt_retired t) v = Some True"

abbreviation vip_host :: "vip_table \<Rightarrow> addr \<Rightarrow> bool" where
  "vip_host t a \<equiv> wf_addr a \<and> index_of_vip t a \<noteq> None"

definition entry_ok :: "vip_table \<Rightarrow> bytes \<Rightarrow> vip_entry \<Rightarrow> bool" where
  "entry_ok t u e \<longleftrightarrow> ve_id e = u \<and> length u = 16 \<and> (\<exists>tu. ve_tenant e = Some tu \<and> length tu = 16)
     \<and> map_of (vt_owner t) (ve_vip e) = Some u \<and> vip_host t (ve_vip e)"

definition vip_ok :: "vip_table \<Rightarrow> bool" where
  "vip_ok t \<longleftrightarrow> m_ok (vt_entries t) \<and> m_ok (vt_owner t) \<and> m_ok (vt_retired t)
     \<and> vip_cidr (vt_prefix t) \<and> vt_capacity t = usable_hosts (vt_prefix t)
     \<and> (\<forall>u e. map_of (vt_entries t) u = Some e \<longrightarrow> entry_ok t u e)
     \<and> (\<forall>v u. map_of (vt_owner t) v = Some u \<longrightarrow> (\<exists>e. map_of (vt_entries t) u = Some e \<and> ve_vip e = v))
     \<and> (\<forall>v b. map_of (vt_retired t) v = Some b \<longrightarrow> b \<and> vip_host t v \<and> map_of (vt_owner t) v = None)
     \<and> 1 \<le> vt_cursor t \<and> vt_cursor t \<le> vt_capacity t + 1
     \<and> (\<forall>i. 1 \<le> i \<and> i < vt_cursor t \<longrightarrow> vip_used t (vip_for_index t i))"

lemma vip_okD:
  assumes "vip_ok t"
  shows "m_ok (vt_entries t)" "m_ok (vt_owner t)" "m_ok (vt_retired t)" "vip_cidr (vt_prefix t)"
    "vt_capacity t = usable_hosts (vt_prefix t)" "1 \<le> vt_cursor t" "vt_cursor t \<le> vt_capacity t + 1"
    "map_of (vt_entries t) u = Some e \<Longrightarrow> entry_ok t u e"
    "map_of (vt_owner t) v = Some u \<Longrightarrow> \<exists>e. map_of (vt_entries t) u = Some e \<and> ve_vip e = v"
    "map_of (vt_retired t) v = Some b \<Longrightarrow> b \<and> vip_host t v \<and> map_of (vt_owner t) v = None"
    "1 \<le> i \<Longrightarrow> i < vt_cursor t \<Longrightarrow> vip_used t (vip_for_index t i)"
  using assms unfolding vip_ok_def by blast+

lemma vip_okI:
  assumes "m_ok (vt_entries t)" "m_ok (vt_owner t)" "m_ok (vt_retired t)" "vip_cidr (vt_prefix t)"
    "vt_capacity t = usable_hosts (vt_prefix t)" "1 \<le> vt_cursor t" "vt_cursor t \<le> vt_capacity t + 1"
    "\<And>u e. map_of (vt_entries t) u = Some e \<Longrightarrow> entry_ok t u e"
    "\<And>u v. map_of (vt_owner t) v = Some u \<Longrightarrow> \<exists>e. map_of (vt_entries t) u = Some e \<and> ve_vip e = v"
    "\<And>v b. map_of (vt_retired t) v = Some b \<Longrightarrow> b \<and> vip_host t v \<and> map_of (vt_owner t) v = None"
    "\<And>i. 1 \<le> i \<Longrightarrow> i < vt_cursor t \<Longrightarrow> vip_used t (vip_for_index t i)"
  shows "vip_ok t"
  using assms unfolding vip_ok_def by blast

lemma index_of_vip_cong:
  "vt_prefix t' = vt_prefix t \<Longrightarrow> vt_capacity t' = vt_capacity t \<Longrightarrow> index_of_vip t' v = index_of_vip t v"
  by (simp add: index_of_vip_def)

lemma vip_for_index_cong: "vt_prefix t' = vt_prefix t \<Longrightarrow> vip_for_index t' i = vip_for_index t i"
  by (simp add: vip_for_index_def)

lemma first_free_Some:
  "first_free t i = Some j \<Longrightarrow> i \<le> j \<and> j \<le> vt_capacity t \<and> \<not> vip_used t (vip_for_index t j)
     \<and> (\<forall>k. i \<le> k \<and> k < j \<longrightarrow> vip_used t (vip_for_index t k))"
proof (induction t i rule: first_free.induct)
  case (1 t i)
  show ?case
  proof (cases "vip_used t (vip_for_index t i)")
    case True
    then have "first_free t (i + 1) = Some j" "i \<le> vt_capacity t"
      using 1(3) by (auto simp: first_free.simps [of t i] vip_used_def split: if_splits)
    moreover from this 1(1,2) True have "i + 1 \<le> j \<and> j \<le> vt_capacity t \<and> \<not> vip_used t (vip_for_index t j)
        \<and> (\<forall>k. i + 1 \<le> k \<and> k < j \<longrightarrow> vip_used t (vip_for_index t k))"
      by (auto simp: vip_used_def)
    ultimately show ?thesis using True by (metis add.commute linorder_not_less nle_le not_less_iff_gr_or_eq zless_imp_add1_zle zle_add1_eq_le)
  next
    case False
    then show ?thesis using 1(3) by (auto simp: first_free.simps [of t i] vip_used_def split: if_splits)
  qed
qed

lemma first_free_None:
  "first_free t i = None \<Longrightarrow> i \<le> k \<Longrightarrow> k \<le> vt_capacity t \<Longrightarrow> vip_used t (vip_for_index t k)"
proof (induction t i rule: first_free.induct)
  case (1 t i)
  then have i: "i \<le> vt_capacity t" by simp
  then have used: "vip_used t (vip_for_index t i)" "first_free t (i + 1) = None"
    using 1(3) by (auto simp: first_free.simps [of t i] vip_used_def split: if_splits)
  then show ?case using 1(1,2,4,5) i by (cases "k = i") (auto simp: vip_used_def)
qed

subsection \<open>What the operations keep\<close>

lemma m_ext:
  assumes "m_ok m" "m_ok m'" "map_of m = map_of m'"
  shows "m = m'"
proof -
  have s: "sorted (map fst m)" "sorted (map fst m')" "distinct (map fst m)" "distinct (map fst m')"
    using assms(1,2) by (auto simp: m_ok_def strict_sorted_iff)
  then have eq: "set m = set m'" using assms(3) map_of_inject_set by blast
  then have "inj_on fst (set m \<union> set m')" using s(3) by (simp add: distinct_map)
  then show ?thesis using map_sorted_distinct_set_unique [of fst m m'] s eq by blast
qed

text \<open>A principal is bound to an address when it holds it or nobody ever will again.\<close>

definition vip_bound :: "vip_table \<Rightarrow> bytes \<times> bytes \<Rightarrow> addr \<Rightarrow> bool" where
  "vip_bound t q v \<longleftrightarrow> (\<exists>e. map_of (vt_entries t) (snd q) = Some e \<and> tenant_uuid (ve_tenant e) = fst q \<and> ve_vip e = v)
     \<or> map_of (vt_retired t) v = Some True"

lemma vip_bound_used: "vip_ok t \<Longrightarrow> vip_bound t q v \<Longrightarrow> vip_used t v"
  by (auto simp: vip_bound_def vip_used_def vip_ok_def entry_ok_def)

lemma vip_bound_owner:
  assumes "vip_ok t" "vip_bound t q v" "map_of (vt_entries t) u = Some e" "ve_vip e = v"
  shows "q = (tenant_uuid (ve_tenant e), u)"
proof -
  have own: "map_of (vt_owner t) v = Some u" using assms by (auto simp: vip_ok_def entry_ok_def)
  then have "map_of (vt_retired t) v \<noteq> Some True" using assms(1) by (auto simp: vip_ok_def)
  then obtain e' where e': "map_of (vt_entries t) (snd q) = Some e'" "tenant_uuid (ve_tenant e') = fst q" "ve_vip e' = v"
    using assms(2) by (auto simp: vip_bound_def)
  then have "map_of (vt_owner t) v = Some (snd q)" using assms(1) by (auto simp: vip_ok_def entry_ok_def)
  then show ?thesis using own e' assms(3) by (metis option.inject prod.collapse)
qed

lemma retire_pin_fields [simp]:
  "vt_prefix (retire_pin u v t) = vt_prefix t" "vt_capacity (retire_pin u v t) = vt_capacity t"
  "vt_cursor (retire_pin u v t) = vt_cursor t" "vt_error (retire_pin u v t) = vt_error t"
  "index_of_vip (retire_pin u v t) a = index_of_vip t a" "vip_for_index (retire_pin u v t) i = vip_for_index t i"
  by (simp_all add: retire_pin_def index_of_vip_def vip_for_index_def)

lemma pin_fields [simp]:
  "vt_prefix (pin_vip n u v t) = vt_prefix t" "vt_capacity (pin_vip n u v t) = vt_capacity t"
  "vt_cursor (pin_vip n u v t) = vt_cursor t" "vt_error (pin_vip n u v t) = vt_error t"
  "index_of_vip (pin_vip n u v t) a = index_of_vip t a" "vip_for_index (pin_vip n u v t) i = vip_for_index t i"
  by (simp_all add: pin_vip_def index_of_vip_def vip_for_index_def)

lemma retire_used:
  assumes "vip_ok t" "map_of (vt_entries t) u = Some e"
  shows "vip_used (retire_pin u (ve_vip e) t) v = vip_used t v"
  using assms by (auto simp: vip_used_def retire_pin_def vip_ok_def entry_ok_def)

lemma retire_maps:
  "map_of (vt_entries (retire_pin u a t)) = (map_of (vt_entries t))(u := None)"
  "map_of (vt_owner (retire_pin u a t)) = (map_of (vt_owner t))(a := None)"
  "map_of (vt_retired (retire_pin u a t)) = (map_of (vt_retired t))(a \<mapsto> True)"
  by (simp_all add: retire_pin_def)

lemma retire_ok:
  assumes ok: "vip_ok t" and e: "map_of (vt_entries t) u = Some e"
  shows "vip_ok (retire_pin u (ve_vip e) t)" (is "vip_ok ?t")
proof (rule vip_okI)
  note D = vip_okD [OF ok]
  have eo: "entry_ok t u e" using D(8) [OF e] .
  show "entry_ok ?t w x" if "map_of (vt_entries ?t) w = Some x" for w x
  proof -
    have x: "w \<noteq> u" "entry_ok t w x" using that D(8) [of w x] by (auto simp: retire_maps split: if_splits)
    then have "ve_vip x \<noteq> ve_vip e" using eo by (auto simp: entry_ok_def)
    then show ?thesis using x by (simp add: entry_ok_def retire_maps)
  qed
  show "\<exists>x. map_of (vt_entries ?t) w = Some x \<and> ve_vip x = v" if "map_of (vt_owner ?t) v = Some w" for v w
  proof -
    have "map_of (vt_owner t) v = Some w" "v \<noteq> ve_vip e" using that by (auto simp: retire_maps split: if_splits)
    then show ?thesis using D(9) [of v w] e by (auto simp: retire_maps)
  qed
  show "b \<and> vip_host ?t v \<and> map_of (vt_owner ?t) v = None" if "map_of (vt_retired ?t) v = Some b" for v b
    using that D(10) [of v b] eo by (auto simp: retire_maps entry_ok_def split: if_splits)
  show "vip_used ?t (vip_for_index ?t i)" if "1 \<le> i" "i < vt_cursor ?t" for i
    using that D(11) [of i] retire_used [OF ok e] by simp
qed (use vip_okD(1-7) [OF ok] in \<open>simp_all add: retire_pin_def\<close>)

lemma retire_bound:
  assumes "vip_ok t" "map_of (vt_entries t) u = Some e" "vip_bound t q v"
  shows "vip_bound (retire_pin u (ve_vip e) t) q v"
  using assms by (auto simp: vip_bound_def retire_pin_def)

lemma pin_maps:
  "map_of (vt_entries (pin_vip n u a t)) = (map_of (vt_entries t))(u \<mapsto> \<lparr>ve_tenant = n, ve_id = u, ve_vip = a\<rparr>)"
  "map_of (vt_owner (pin_vip n u a t)) = (map_of (vt_owner t))(a \<mapsto> u)" "vt_retired (pin_vip n u a t) = vt_retired t"
  by (simp_all add: pin_vip_def)

lemma cursor_frame [simp]:
  "index_of_vip (t\<lparr>vt_retired := r\<rparr>) a = index_of_vip t a" "index_of_vip (t\<lparr>vt_entries := x, vt_owner := y\<rparr>) a = index_of_vip t a"
  "index_of_vip (t\<lparr>vt_cursor := c\<rparr>) a = index_of_vip t a" "vip_for_index (t\<lparr>vt_cursor := c\<rparr>) i = vip_for_index t i"
  by (simp_all add: index_of_vip_def vip_for_index_def)

lemma pin_ok:
  assumes ok: "vip_ok t" and free: "\<not> vip_used t a" "map_of (vt_entries t) u = None"
    and a: "a = vip_for_index t i" "vt_cursor t \<le> i" "i \<le> vt_capacity t"
      "\<And>k. vt_cursor t \<le> k \<Longrightarrow> k < i \<Longrightarrow> vip_used t (vip_for_index t k)"
    and len: "length u = 16" "length tu = 16"
  shows "vip_ok (pin_vip (Some tu) u a (t\<lparr>vt_cursor := i + 1\<rparr>))" (is "vip_ok ?t")
proof (rule vip_okI)
  note D = vip_okD [OF ok]
  have i: "1 \<le> i" using D(6) a(2) by simp
  have use: "vip_host t a" using vip_for_index_usable [OF D(4,5) i a(3)] a(1) by (simp add: vip_for_index_def)
  have no: "map_of (vt_owner t) a = None" "map_of (vt_retired t) a \<noteq> Some True" using free(1) by (auto simp: vip_used_def)
  show "entry_ok ?t w e" if "map_of (vt_entries ?t) w = Some e" for w e
  proof (cases "w = u")
    case True
    then show ?thesis using that use len by (auto simp: entry_ok_def pin_maps)
  next
    case False
    then have "entry_ok t w e" using that D(8) [of w e] by (simp add: pin_maps)
    then show ?thesis using no(1) by (auto simp: entry_ok_def pin_maps)
  qed
  show "\<exists>e. map_of (vt_entries ?t) w = Some e \<and> ve_vip e = v" if own: "map_of (vt_owner ?t) v = Some w" for v w
  proof (cases "v = a")
    case True
    then show ?thesis using own by (simp add: pin_maps)
  next
    case False
    then obtain e where "map_of (vt_entries t) w = Some e" "ve_vip e = v" using own D(9) [of v w] by (auto simp: pin_maps)
    then show ?thesis using free(2) by (auto simp: pin_maps)
  qed
  show "b \<and> vip_host ?t v \<and> map_of (vt_owner ?t) v = None" if "map_of (vt_retired ?t) v = Some b" for v b
  proof -
    have r: "b" "vip_host t v" "map_of (vt_owner t) v = None" "map_of (vt_retired t) v = Some b"
      using D(10) [of v b] that by (simp_all add: pin_maps)
    then have "v \<noteq> a" using no(2) by auto
    then show ?thesis using r by (simp add: pin_maps)
  qed
  show "vip_used ?t (vip_for_index ?t k)" if "1 \<le> k" "k < vt_cursor ?t" for k
  proof (cases "k = i")
    case True then show ?thesis using a(1) by (simp add: vip_used_def pin_maps)
  next
    case False
    then have "vip_used t (vip_for_index t k)" using D(11) [of k] a(4) [of k] that by (cases "k < vt_cursor t") auto
    then show ?thesis by (auto simp: vip_used_def pin_maps)
  qed
  show "1 \<le> vt_cursor ?t" "vt_cursor ?t \<le> vt_capacity ?t + 1" using i a(3) by simp_all
qed (use vip_okD(1-5) [OF ok] in \<open>simp_all add: pin_vip_def\<close>)

lemma pin_bound:
  assumes "map_of (vt_entries t) u = None"
  shows "vip_bound t q v \<Longrightarrow> vip_bound (pin_vip n u a (t\<lparr>vt_cursor := c\<rparr>)) q v"
    "vip_bound (pin_vip n u a (t\<lparr>vt_cursor := c\<rparr>)) (tenant_uuid n, u) a"
  using assms by (auto simp: vip_bound_def pin_vip_def)

lemma undo_fresh:
  assumes ok: "vip_ok t" and free: "\<not> vip_used t a" and u: "map_of (vt_entries t) u = None"
  shows "undo_pin (vt_cursor t) u a None (pin_vip n u a (t\<lparr>vt_cursor := c\<rparr>)) = t"
proof -
  have "m_del u (m_put u e (vt_entries t)) = vt_entries t" for e
    using ok u by (intro m_ext) (auto simp: vip_ok_def fun_eq_iff)
  moreover have "m_del a (m_put a u (vt_owner t)) = vt_owner t"
    using ok free by (intro m_ext) (auto simp: vip_ok_def fun_eq_iff vip_used_def)
  ultimately show ?thesis by (simp add: undo_pin_def pin_vip_def)
qed

lemma undo_rekey:
  assumes ok: "vip_ok t" and free: "\<not> vip_used t a" and u: "map_of (vt_entries t) u = Some e"
  shows "undo_pin (vt_cursor t) u a (Some e) (pin_vip n u a (retire_pin u (ve_vip e) (t\<lparr>vt_cursor := c\<rparr>))) = t"
proof -
  have own: "map_of (vt_owner t) (ve_vip e) = Some u" using ok u by (auto simp: vip_ok_def entry_ok_def)
  then have ne: "ve_vip e \<noteq> a" "map_of (vt_retired t) (ve_vip e) = None"
    using free ok by (auto simp: vip_used_def vip_ok_def) (metis not_Some_eq option.distinct(1))
  have "m_put u e (m_del u (m_put u x (m_del u (vt_entries t)))) = vt_entries t" for x
    using ok u by (intro m_ext) (auto simp: vip_ok_def fun_eq_iff)
  moreover have "m_put (ve_vip e) u (m_del a (m_put a u (m_del (ve_vip e) (vt_owner t)))) = vt_owner t"
    using ok free own ne by (intro m_ext) (auto simp: vip_ok_def fun_eq_iff vip_used_def)
  moreover have "m_del (ve_vip e) (m_put (ve_vip e) True (vt_retired t)) = vt_retired t"
    using ok ne by (intro m_ext) (auto simp: vip_ok_def fun_eq_iff)
  ultimately show ?thesis by (simp add: undo_pin_def pin_vip_def retire_pin_def)
qed

end
