(* ===== verification/Vip_File.thy ===== *)
theory Vip_File
  imports Vip_Inv
begin

section \<open>Mesh VIPs: the file gives the table back\<close>

text \<open>What the code relies on of the text forms of \<open>uuid\<close> and \<open>netip\<close>: parsing inverts printing.\<close>

definition codec_ok :: "text_codec \<Rightarrow> bool" where
  "codec_ok tc \<longleftrightarrow> (\<forall>u. length u = 16 \<longrightarrow> tc_parse_uuid tc (tc_uuid tc u) = Some u)
     \<and> (\<forall>b. length b = 4 \<longrightarrow> tc_parse_addr tc (tc_addr tc (V4 b)) = Some (V4 b))
     \<and> (\<forall>p. vip_cidr p \<longrightarrow> tc_parse_prefix tc (tc_prefix tc p) = Some p)"

lemma parse_canonical_text: "codec_ok tc \<Longrightarrow> length u = 16 \<Longrightarrow> parse_canonical tc (tc_uuid tc u) = Some u"
  by (simp add: parse_canonical_def codec_ok_def)

lemma parse_host: "codec_ok tc \<Longrightarrow> vip_host t a \<Longrightarrow> tc_parse_addr tc (tc_addr tc a) = Some a"
  by (cases a) (auto simp: codec_ok_def index_of_vip_def split: if_splits)

text \<open>A map rebuilt from its entries in any order.\<close>

lemma map_of_fold_put: "map_of (fold (\<lambda>(k, v). m_put k v) xs m) = map_of m ++ map_of (rev xs)"
  by (induction xs arbitrary: m) (auto simp: map_add_def fun_eq_iff split: option.splits)

lemma m_ok_fold_put: "m_ok m \<Longrightarrow> m_ok (fold (\<lambda>(k, v). m_put k v) xs m)"
  by (induction xs arbitrary: m) auto

lemma fold_put_rebuild:
  assumes "m_ok m" "set xs = set m" "distinct (map fst xs)"
  shows "fold (\<lambda>(k, v). m_put k v) xs [] = m"
proof (rule m_ext)
  have "distinct (map fst m)" using m_ok_distinct [OF assms(1)] by (simp add: m_keys_def)
  then have "map_of (rev xs) = map_of m"
    using assms(2,3) map_of_inject_set [of "rev xs" m] by (simp flip: rev_map)
  then show "map_of (fold (\<lambda>(k, v). m_put k v) xs []) = map_of m" by (simp add: map_of_fold_put)
qed (use assms(1) m_ok_fold_put in auto)

abbreviation pins :: "vip_entry list \<Rightarrow> (bytes \<times> vip_entry) list" where
  "pins es \<equiv> map (\<lambda>e. (ve_id e, e)) es"

abbreviation holders :: "vip_entry list \<Rightarrow> (addr \<times> bytes) list" where
  "holders es \<equiv> map (\<lambda>e. (ve_vip e, ve_id e)) es"

definition add_entries :: "vip_entry list \<Rightarrow> vip_table \<Rightarrow> vip_table" where
  "add_entries es t = t\<lparr>vt_entries := fold (\<lambda>(k, v). m_put k v) (pins es) (vt_entries t),
     vt_owner := fold (\<lambda>(k, v). m_put k v) (holders es) (vt_owner t)\<rparr>"

lemma load_entries_all:
  assumes "codec_ok tc" "distinct (map ve_id es)" "distinct (map ve_vip es)"
    "\<forall>e \<in> set es. length (ve_id e) = 16 \<and> (\<exists>tu. ve_tenant e = Some tu \<and> length tu = 16) \<and> vip_host t (ve_vip e)
       \<and> map_of (vt_entries t) (ve_id e) = None \<and> map_of (vt_owner t) (ve_vip e) = None"
  shows "load_entries tc (map (vip_record_of tc) es) t = Inr (add_entries es t)"
  using assms
proof (induction es arbitrary: t)
  case Nil then show ?case by (simp add: add_entries_def)
next
  case (Cons e es)
  obtain tu where e: "length (ve_id e) = 16" "ve_tenant e = Some tu" "length tu = 16" "vip_host t (ve_vip e)"
      "map_of (vt_entries t) (ve_id e) = None" "map_of (vt_owner t) (ve_vip e) = None"
    using Cons.prems(4) by auto
  define t1 where "t1 = t\<lparr>vt_entries := m_put (ve_id e) e (vt_entries t), vt_owner := m_put (ve_vip e) (ve_id e) (vt_owner t)\<rparr>"
  have eq: "\<lparr>ve_tenant = Some tu, ve_id = ve_id e, ve_vip = ve_vip e\<rparr> = e" using e(2) by (cases e) simp
  then have "load_entry tc (vip_record_of tc e) t = Inr t1"
    using e parse_canonical_text [OF Cons.prems(1) e(1)] parse_canonical_text [OF Cons.prems(1) e(3)]
      parse_host [OF Cons.prems(1) e(4)]
    by (simp add: load_entry_def vip_record_of_def tenant_text_def t1_def eq)
  moreover have "load_entries tc (map (vip_record_of tc) es) t1 = Inr (add_entries es t1)"
  proof (rule Cons.IH [OF Cons.prems(1)])
    show "\<forall>x \<in> set es. length (ve_id x) = 16 \<and> (\<exists>tu. ve_tenant x = Some tu \<and> length tu = 16) \<and> vip_host t1 (ve_vip x)
       \<and> map_of (vt_entries t1) (ve_id x) = None \<and> map_of (vt_owner t1) (ve_vip x) = None"
    proof
      fix x assume x: "x \<in> set es"
      then have "ve_id x \<in> ve_id ` set es" "ve_vip x \<in> ve_vip ` set es" by simp_all
      moreover have "ve_id e \<notin> ve_id ` set es" "ve_vip e \<notin> ve_vip ` set es" using Cons.prems(2,3) by simp_all
      ultimately have "ve_id x \<noteq> ve_id e" "ve_vip x \<noteq> ve_vip e" by auto
      then show "length (ve_id x) = 16 \<and> (\<exists>tu. ve_tenant x = Some tu \<and> length tu = 16) \<and> vip_host t1 (ve_vip x)
         \<and> map_of (vt_entries t1) (ve_id x) = None \<and> map_of (vt_owner t1) (ve_vip x) = None"
        using Cons.prems(4) x by (simp add: t1_def)
    qed
  qed (use Cons.prems in auto)
  ultimately show ?case by (simp add: add_entries_def t1_def)
qed

lemma load_retired_all:
  assumes "codec_ok tc" "\<forall>a \<in> set as. vip_host t a \<and> map_of (vt_owner t) a = None"
  shows "load_retired tc (map (tc_addr tc) as) t
    = Inr (t\<lparr>vt_retired := fold (\<lambda>(k, v). m_put k v) (map (\<lambda>a. (a, True)) as) (vt_retired t)\<rparr>)"
  using assms
proof (induction as arbitrary: t)
  case (Cons a as)
  have "tc_parse_addr tc (tc_addr tc a) = Some a" using Cons.prems parse_host [where tc = tc and t = t and a = a] by simp
  moreover have "\<forall>b \<in> set as. vip_host (t\<lparr>vt_retired := m_put a True (vt_retired t)\<rparr>) b
      \<and> map_of (vt_owner (t\<lparr>vt_retired := m_put a True (vt_retired t)\<rparr>)) b = None"
    using Cons.prems(2) by simp
  note Cons.IH [OF Cons.prems(1) this]
  ultimately show ?case using Cons.prems(2) by simp
qed simp

text \<open>The file of a table in good order loads, into a fresh table of the same CIDR, as that table.\<close>

lemma load_file_of:
  assumes tc: "codec_ok tc" and ok: "vip_ok t"
  shows "load_file tc (file_of tc t) (fresh_table (vt_prefix t)) = Inr (t\<lparr>vt_error := None\<rparr>)"
proof -
  note D = vip_okD [OF ok]
  define f where "f = fresh_table (vt_prefix t)"
  define es where "es = sort_key (\<lambda>e. (ve_vip e, tc_uuid tc (ve_id e))) (map snd (vt_entries t))"
  have f: "vt_prefix f = vt_prefix t" "vt_capacity f = vt_capacity t" "vt_entries f = []" "vt_owner f = []" "vt_retired f = []"
    "vt_error f = None"
    using D(5) by (simp_all add: f_def fresh_table_def)
  have host: "index_of_vip f a = index_of_vip t a" for a using f by (simp add: index_of_vip_def)
  have keys: "distinct (map fst (vt_entries t))" using m_ok_distinct [OF D(1)] by (simp add: m_keys_def)
  have ent: "entry_ok t u e" if "(u, e) \<in> set (vt_entries t)" for u e
    using D(8) that keys by (meson map_of_eq_Some_iff)
  have set: "set es = snd ` set (vt_entries t)" by (simp add: es_def)
  have ids: "map ve_id (map snd (vt_entries t)) = map fst (vt_entries t)" using ent by (auto simp: entry_ok_def)
  have "distinct (map ve_id (map snd (vt_entries t)))" using keys by (simp only: ids)
  then have dist: "distinct (map ve_id es)" 
    using inj_on_imageI [of ve_id snd "set (vt_entries t)"] inj_on_imageI2 [of ve_id snd "set (vt_entries t)"]
    by (simp add: distinct_map es_def)
  have own: "map_of (vt_owner t) (ve_vip e) = Some (ve_id e)" if "e \<in> set es" for e
    using that ent by (auto simp: set entry_ok_def)
  then have vips: "distinct (map ve_vip es)"
    using dist by (auto simp: distinct_map inj_on_def) (metis option.inject)
  have pins: "set (pins es) = set (vt_entries t)"
    using ent by (force simp: set entry_ok_def)
  have holders: "set (holders es) = set (vt_owner t)"
  proof -
    have "(v, u) \<in> set (holders es)" if "map_of (vt_owner t) v = Some u" for v u
    proof -
      obtain e where e: "map_of (vt_entries t) u = Some e" "ve_vip e = v" using D(9) [OF \<open>map_of (vt_owner t) v = Some u\<close>] by blast
      then have "e \<in> set es" "ve_id e = u" using ent map_of_SomeD [OF e(1)] by (force simp: set entry_ok_def)+
      then show ?thesis using e(2) by force
    qed
    moreover have "distinct (map fst (vt_owner t))" using m_ok_distinct [OF D(2)] by (simp add: m_keys_def)
    ultimately show ?thesis using own by (auto simp: map_of_eq_Some_iff)
  qed
  have "load_entries tc (map (vip_record_of tc) es) f = Inr (add_entries es f)"
    using ent by (intro load_entries_all [OF tc dist vips]) (auto simp: set entry_ok_def host f)
  moreover have "add_entries es f = f\<lparr>vt_entries := vt_entries t, vt_owner := vt_owner t\<rparr>"
    using fold_put_rebuild [OF D(1) pins] fold_put_rebuild [OF D(2) holders] dist vips
    by (simp add: add_entries_def f comp_def)
  moreover have "load_retired tc (map (tc_addr tc) (m_keys (vt_retired t))) (f\<lparr>vt_entries := vt_entries t, vt_owner := vt_owner t\<rparr>)
      = Inr (f\<lparr>vt_entries := vt_entries t, vt_owner := vt_owner t, vt_retired := vt_retired t\<rparr>)"
  proof -
    have rk: "distinct (map fst (vt_retired t))" using m_ok_distinct [OF D(3)] by (simp add: m_keys_def)
    have val: "b \<and> vip_host t a \<and> map_of (vt_owner t) a = None" if "(a, b) \<in> set (vt_retired t)" for a b
      using D(10) [of a b] that rk by simp
    then have "map (\<lambda>a. (a, True)) (m_keys (vt_retired t)) = vt_retired t"
      by (auto simp: m_keys_def comp_def intro!: map_idI)
    then have "fold (\<lambda>(k, v). m_put k v) (map (\<lambda>a. (a, True)) (m_keys (vt_retired t))) [] = vt_retired t"
      using fold_put_rebuild [OF D(3) refl rk] by simp
    moreover have "\<forall>a \<in> set (m_keys (vt_retired t)).
        vip_host (f\<lparr>vt_entries := vt_entries t, vt_owner := vt_owner t\<rparr>) a
        \<and> map_of (vt_owner (f\<lparr>vt_entries := vt_entries t, vt_owner := vt_owner t\<rparr>)) a = None"
      using val by (force simp: m_keys_def host)
    note load_retired_all [OF tc this]
    ultimately show ?thesis by (simp add: f)
  qed
  moreover have "tc_parse_prefix tc (tc_prefix tc (vt_prefix t)) = Some (vt_prefix t)" using tc D(4) by (simp add: codec_ok_def)
  ultimately show ?thesis using D(6,7) f
    unfolding f_def [symmetric] load_file_def file_of_def es_def [symmetric] by simp
qed

end
