(* ===== verification/Vip_Runs.thy ===== *)
theory Vip_Runs
  imports Vip_File
begin

section \<open>Mesh VIPs: runs of the agent over one file\<close>

text \<open>
  An agent that opens the table, uses it and may stop or crash at any time, over a disk whose renames become durable
  with the sync of the directory. \<open>vw_given\<close> collects every pair of principal and address that a call has answered.
\<close>

record vip_world =
  vw_table :: "vip_table option"
  vw_disk :: vip_disk
  vw_given :: "((bytes \<times> bytes) \<times> addr) set"

definition vip_principal :: "device \<Rightarrow> bytes \<times> bytes" where
  "vip_principal dev = (tenant_uuid (dv_tenant dev), dv_id dev)"

definition uuid_sized :: "device \<Rightarrow> bool" where
  "uuid_sized dev \<longleftrightarrow> length (dv_id dev) = 16 \<and> (\<forall>tu. dv_tenant dev = Some tu \<longrightarrow> length tu = 16)"

definition start_world :: vip_world where
  "start_world = \<lparr>vw_table = None, vw_disk = \<lparr>vd_visible = Missing, vd_durable = [Missing]\<rparr>, vw_given = {}\<rparr>"

inductive vip_step :: "text_codec \<Rightarrow> prefix \<Rightarrow> vip_world \<Rightarrow> vip_world \<Rightarrow> bool" for tc p where
  vstep_open: "vw_table w = None \<Longrightarrow> open_vips tc synced p (vw_disk w) = (res, d) \<Longrightarrow>
    vip_step tc p w (w\<lparr>vw_table := (case res of Inl _ \<Rightarrow> None | Inr t \<Rightarrow> Some t), vw_disk := d\<rparr>)"
| vstep_allocate: "vw_table w = Some t \<Longrightarrow> uuid_sized dev \<Longrightarrow> allocate_vip tc out dev t (vw_disk w) = (res, t', d) \<Longrightarrow>
    vip_step tc p w (w\<lparr>vw_table := Some t', vw_disk := d,
      vw_given := (case res of Inl _ \<Rightarrow> vw_given w | Inr v \<Rightarrow> insert (vip_principal dev, v) (vw_given w))\<rparr>)"
| vstep_lookup: "vw_table w = Some t \<Longrightarrow> lookup_vip dev t = Some v \<Longrightarrow>
    vip_step tc p w (w\<lparr>vw_given := insert (vip_principal dev, v) (vw_given w)\<rparr>)"
| vstep_resolve: "vw_table w = Some t \<Longrightarrow> device_of_vip tc v t = Inr dev \<Longrightarrow>
    vip_step tc p w (w\<lparr>vw_given := insert (vip_principal dev, v) (vw_given w)\<rparr>)"
| vstep_retire: "vw_table w = Some t \<Longrightarrow> retire_tenant tc out tenant t (vw_disk w) = (err, t', d) \<Longrightarrow>
    vip_step tc p w (w\<lparr>vw_table := Some t', vw_disk := d\<rparr>)"
| vstep_stop: "vip_step tc p w (w\<lparr>vw_table := None\<rparr>)"
| vstep_crash: "doc \<in> set (vd_durable (vw_disk w)) \<Longrightarrow>
    vip_step tc p w (w\<lparr>vw_table := None, vw_disk := \<lparr>vd_visible = doc, vd_durable = [doc]\<rparr>\<rparr>)"

inductive vip_reachable :: "text_codec \<Rightarrow> prefix \<Rightarrow> vip_world \<Rightarrow> bool" for tc p where
  vreach_start: "vip_reachable tc p start_world"
| vreach_step: "vip_reachable tc p w \<Longrightarrow> vip_step tc p w w' \<Longrightarrow> vip_reachable tc p w'"

subsection \<open>One operation\<close>

lemma vip_ok_error [simp]: "vip_ok (t\<lparr>vt_error := e\<rparr>) = vip_ok t"
  by (simp add: vip_ok_def entry_ok_def vip_used_def index_of_vip_def vip_for_index_def)

lemma file_of_error [simp]: "file_of tc (t\<lparr>vt_error := e\<rparr>) = file_of tc t"
  by (simp add: file_of_def)

abbreviation all_bound :: "((bytes \<times> bytes) \<times> addr) set \<Rightarrow> vip_table \<Rightarrow> bool" where
  "all_bound G t \<equiv> \<forall>qv \<in> G. vip_bound t (fst qv) (snd qv)"

text \<open>What a table grows into: good order, the same CIDR, and no principal loses its address to another.\<close>

definition vip_next :: "vip_table \<Rightarrow> vip_table \<Rightarrow> bool" where
  "vip_next t t' \<longleftrightarrow> vip_ok t' \<and> vt_prefix t' = vt_prefix t \<and> vt_error t' = vt_error t
     \<and> (\<forall>q v. vip_bound t q v \<longrightarrow> vip_bound t' q v)"

lemma next_vip_Some:
  assumes ok: "vip_ok t" and nv: "next_vip t = Some (a, t1)"
  obtains i where "t1 = t\<lparr>vt_cursor := i + 1\<rparr>" "a = vip_for_index t i" "vt_cursor t \<le> i" "i \<le> vt_capacity t"
    "\<not> vip_used t a" "\<And>k. vt_cursor t \<le> k \<Longrightarrow> k < i \<Longrightarrow> vip_used t (vip_for_index t k)"
proof -
  obtain i where i: "first_free t (vt_cursor t) = Some i" "t1 = t\<lparr>vt_cursor := i + 1\<rparr>" "a = vip_for_index t i"
    using nv by (auto simp: next_vip_def split: option.splits)
  from first_free_Some [OF i(1)] i(2,3) show ?thesis by (intro that [of i]) auto
qed

definition granted :: "bytes option \<Rightarrow> bytes \<Rightarrow> addr \<Rightarrow> vip_table \<Rightarrow> vip_table \<Rightarrow> vip_table" where
  "granted tenant u a t1 t = pin_vip tenant u a
     (case map_of (vt_entries t) u of None \<Rightarrow> t1 | Some e \<Rightarrow> retire_pin u (ve_vip e) t1)"

lemma retire_cursor: "retire_pin u v (t\<lparr>vt_cursor := c\<rparr>) = (retire_pin u v t)\<lparr>vt_cursor := c\<rparr>"
  by (simp add: retire_pin_def)

lemma granted_ok:
  assumes ok: "vip_ok t" and nv: "next_vip t = Some (a, t1)" and len: "length u = 16" "length tu = 16"
  shows "vip_next t (granted (Some tu) u a t1 t)" "vip_bound (granted (Some tu) u a t1 t) (tu, u) a" "\<not> vip_used t a"
    "undo_pin (vt_cursor t) u a (map_of (vt_entries t) u) (granted (Some tu) u a t1 t) = t"
proof -
  obtain i where i: "t1 = t\<lparr>vt_cursor := i + 1\<rparr>" "a = vip_for_index t i" "vt_cursor t \<le> i" "i \<le> vt_capacity t"
      "\<not> vip_used t a" "\<And>k. vt_cursor t \<le> k \<Longrightarrow> k < i \<Longrightarrow> vip_used t (vip_for_index t k)"
    using next_vip_Some [OF ok nv] by metis
  show "\<not> vip_used t a" by (rule i(5))
  have "vip_next t (granted (Some tu) u a t1 t) \<and> vip_bound (granted (Some tu) u a t1 t) (tu, u) a
      \<and> undo_pin (vt_cursor t) u a (map_of (vt_entries t) u) (granted (Some tu) u a t1 t) = t"
  proof (cases "map_of (vt_entries t) u")
    case None
    have g: "granted (Some tu) u a t1 t = pin_vip (Some tu) u a (t\<lparr>vt_cursor := i + 1\<rparr>)"
      by (simp add: granted_def None i(1))
    have "vip_bound (pin_vip (Some tu) u a (t\<lparr>vt_cursor := i + 1\<rparr>)) (tu, u) a"
      using pin_bound(2) [OF None, of "Some tu"] by (simp add: tenant_uuid_def)
    then show ?thesis unfolding g
      using pin_ok [OF ok i(5) None i(2-4) i(6) len] pin_bound(1) [OF None] undo_fresh [OF ok i(5) None]
      by (auto simp: vip_next_def None)
  next
    case (Some e)
    define r where "r = retire_pin u (ve_vip e) t"
    have r: "vip_ok r" "\<not> vip_used r a" "map_of (vt_entries r) u = None"
      using retire_ok [OF ok Some] retire_used [OF ok Some] i(5) by (simp_all add: r_def retire_maps)
    have g: "granted (Some tu) u a t1 t = pin_vip (Some tu) u a (r\<lparr>vt_cursor := i + 1\<rparr>)"
      by (simp add: granted_def Some i(1) r_def retire_cursor)
    have "vip_ok (granted (Some tu) u a t1 t)" unfolding g
      by (rule pin_ok [OF r]) (use i retire_used [OF ok Some] len in \<open>simp_all add: r_def\<close>)
    moreover have "undo_pin (vt_cursor t) u a (Some e) (granted (Some tu) u a t1 t) = t"
      using undo_rekey [OF ok i(5) Some] by (simp add: g r_def retire_cursor)
    moreover have "vip_bound (granted (Some tu) u a t1 t) q v" if "vip_bound t q v" for q v
      using pin_bound(1) [OF r(3)] retire_bound [OF ok Some that] by (simp add: g r_def)
    moreover have "vip_bound (granted (Some tu) u a t1 t) (tu, u) a"
      using pin_bound(2) [OF r(3), of "Some tu"] by (simp add: g tenant_uuid_def)
    ultimately show ?thesis by (simp add: vip_next_def g Some) (simp add: r_def)
  qed
  then show "vip_next t (granted (Some tu) u a t1 t)" "vip_bound (granted (Some tu) u a t1 t) (tu, u) a"
    "undo_pin (vt_cursor t) u a (map_of (vt_entries t) u) (granted (Some tu) u a t1 t) = t" by blast+
qed

text \<open>The branches of an allocation.\<close>

lemma allocate_cases:
  assumes ok: "vip_ok t" and err: "vt_error t = None" and dev: "uuid_sized dev" "dv_tenant dev = Some tu"
    and al: "allocate_vip tc out dev t d = (res, t', d')"
  obtains (known) e where "map_of (vt_entries t) (dv_id dev) = Some e" "tenant_uuid (ve_tenant e) = tu"
      "res = Inr (ve_vip e)" "t' = t" "d' = d"
  | (refused) err where "res = Inl err" "t' = t" "d' = d"
  | (unsynced) n where "out = AfterRename" "vip_next t n" "res = Inl SyncFailed" "t' = n\<lparr>vt_error := Some SyncFailed\<rparr>"
      "d' = d\<lparr>vd_visible := Document (file_of tc n), vd_durable := Document (file_of tc n) # vd_durable d\<rparr>"
  | (given) n a where "vip_next t n" "vip_bound n (tu, dv_id dev) a" "\<not> vip_used t a" "res = Inr a" "t' = n"
      "d' = d\<lparr>vd_visible := Document (file_of tc n), vd_durable := [Document (file_of tc n)]\<rparr>"
proof -
  define u where "u = dv_id dev"
  have len: "length u = 16" "length tu = 16" using dev by (auto simp: uuid_sized_def u_def)
  define prev where "prev = map_of (vt_entries t) u"
  let ?same = "case prev of None \<Rightarrow> False | Some e \<Rightarrow> tenant_uuid (ve_tenant e) = tenant_uuid (Some tu)"
  show ?thesis
  proof (cases ?same)
    case True
    then obtain e where e: "prev = Some e" "tenant_uuid (ve_tenant e) = tu" by (auto simp: tenant_uuid_def split: option.splits)
    then have "res = Inr (ve_vip e)" "t' = t" "d' = d"
      using al err dev(2) True by (auto simp: allocate_vip_def dv_valid_def u_def prev_def Let_def)
    then show ?thesis using known e by (simp add: prev_def u_def)
  next
    case False
    show ?thesis
    proof (cases "next_vip t")
      case None
      then have "res = Inl PoolExhausted \<and> t' = t \<and> d' = d" using al err dev(2) False
        by (auto simp: allocate_vip_def dv_valid_def simp flip: u_def prev_def)
      then show ?thesis using refused by blast
    next
      case (Some at1)
      obtain a t1 where nv: "next_vip t = Some (a, t1)" using Some by (cases at1) simp
      define n where "n = granted (Some tu) u a t1 t"
      note G = granted_ok [OF ok nv len, folded n_def prev_def]
      have n_err: "vt_error n = None" using G(1) err by (simp add: vip_next_def)
      have "(case persist_vips tc out n d of
          (None, t', d) \<Rightarrow> (Inr a, t', d)
        | (Some err, t', d) \<Rightarrow> if vt_error t' \<noteq> None then (Inl err, t', d) else (Inl err, undo_pin (vt_cursor t) u a prev t', d))
        = (res, t', d')"
        using al err dev(2) False nv unfolding allocate_vip_def n_def granted_def prev_def u_def
        by (simp add: dv_valid_def Let_def)
      then show ?thesis using G n_err refused unsynced given
        by (cases out) (auto simp: persist_vips_def Let_def u_def)
    qed
  qed
qed

lemma fold_retire_next:
  assumes "vip_ok t" "distinct (map ve_id es)" "\<forall>e \<in> set es. map_of (vt_entries t) (ve_id e) = Some e"
  shows "vip_next t (fold (\<lambda>e. retire_pin (ve_id e) (ve_vip e)) es t)"
  using assms
proof (induction es arbitrary: t)
  case Nil then show ?case by (simp add: vip_next_def)
next
  case (Cons e es)
  define r where "r = retire_pin (ve_id e) (ve_vip e) t"
  have e: "map_of (vt_entries t) (ve_id e) = Some e" using Cons.prems(3) by simp
  have "vip_next t r" using retire_ok [OF Cons.prems(1) e] retire_bound [OF Cons.prems(1) e] by (simp add: vip_next_def r_def)
  moreover have "vip_next r (fold (\<lambda>e. retire_pin (ve_id e) (ve_vip e)) es r)"
    using Cons.prems retire_ok [OF Cons.prems(1) e] by (intro Cons.IH) (auto simp: r_def retire_maps image_iff)
  ultimately show ?case by (simp add: vip_next_def r_def)
qed

lemma foreign_next:
  assumes ok: "vip_ok t"
  shows "vip_next t (fold (\<lambda>e. retire_pin (ve_id e) (ve_vip e)) (foreign_entries tenant t) t)"
proof (rule fold_retire_next [OF ok])
  have keys: "distinct (map fst (vt_entries t))" using m_ok_distinct [OF vip_okD(1) [OF ok]] by (simp add: m_keys_def)
  have ent: "map_of (vt_entries t) u = Some e \<and> ve_id e = u" if "(u, e) \<in> set (vt_entries t)" for u e
    using vip_okD(8) [OF ok, of u e] that keys by (simp add: entry_ok_def)
  then have "map ve_id (map snd (vt_entries t)) = map fst (vt_entries t)" by auto
  then have "distinct (map ve_id (map snd (vt_entries t)))" using keys by (simp only:)
  then show "distinct (map ve_id (foreign_entries tenant t))" unfolding foreign_entries_def by (rule distinct_map_filter)
  show "\<forall>e \<in> set (foreign_entries tenant t). map_of (vt_entries t) (ve_id e) = Some e"
    using ent by (auto simp: foreign_entries_def)
qed

subsection \<open>The invariant of a run\<close>

text \<open>
  Whatever the disk may show after a crash loads into a table in good order that still honours every answer given; and
  a table that has not failed is exactly what its file loads into, on a disk with no other possible content.
\<close>

definition doc_ok :: "text_codec \<Rightarrow> prefix \<Rightarrow> ((bytes \<times> bytes) \<times> addr) set \<Rightarrow> vip_document \<Rightarrow> bool" where
  "doc_ok tc p G doc \<longleftrightarrow> (\<exists>t. load_vips tc doc (fresh_table p) = Inr t \<and> vip_ok t \<and> vt_prefix t = p \<and> vt_error t = None
     \<and> all_bound G t)"

definition in_sync :: "text_codec \<Rightarrow> prefix \<Rightarrow> vip_table \<Rightarrow> vip_disk \<Rightarrow> bool" where
  "in_sync tc p t d \<longleftrightarrow> vd_durable d = [vd_visible d] \<and> load_vips tc (vd_visible d) (fresh_table p) = Inr t"

definition single_owner :: "((bytes \<times> bytes) \<times> addr) set \<Rightarrow> bool" where
  "single_owner G \<longleftrightarrow> (\<forall>q q' v. (q, v) \<in> G \<longrightarrow> (q', v) \<in> G \<longrightarrow> q = q')"

definition vip_world_ok :: "text_codec \<Rightarrow> prefix \<Rightarrow> vip_world \<Rightarrow> bool" where
  "vip_world_ok tc p w \<longleftrightarrow> vd_visible (vw_disk w) \<in> set (vd_durable (vw_disk w))
     \<and> (\<forall>doc \<in> set (vd_durable (vw_disk w)). doc_ok tc p (vw_given w) doc)
     \<and> (\<forall>t. vw_table w = Some t \<and> vt_error t = None \<longrightarrow> in_sync tc p t (vw_disk w))
     \<and> single_owner (vw_given w)"

lemma doc_ok_file:
  assumes "codec_ok tc" "vip_ok t" "vt_prefix t = p" "vt_error t = None" "all_bound G t"
  shows "doc_ok tc p G (Document (file_of tc t))" "load_vips tc (Document (file_of tc t)) (fresh_table p) = Inr t"
proof -
  have "t\<lparr>vt_error := None\<rparr> = t" using assms(4) by simp
  then have "load_file tc (file_of tc t) (fresh_table p) = Inr t" using load_file_of [OF assms(1,2)] assms(3) by simp
  then show "load_vips tc (Document (file_of tc t)) (fresh_table p) = Inr t" by simp
  then show "doc_ok tc p G (Document (file_of tc t))" using assms unfolding doc_ok_def by blast
qed

lemma in_sync_table:
  assumes "vip_world_ok tc p w" "vw_table w = Some t" "vt_error t = None"
  shows "in_sync tc p t (vw_disk w)" "vip_ok t" "vt_prefix t = p" "all_bound (vw_given w) t"
proof -
  show s: "in_sync tc p t (vw_disk w)" using assms by (simp add: vip_world_ok_def)
  have "doc_ok tc p (vw_given w) (vd_visible (vw_disk w))" using assms(1) by (simp add: vip_world_ok_def)
  then show "vip_ok t" "vt_prefix t = p" "all_bound (vw_given w) t" using s by (auto simp: doc_ok_def in_sync_def)
qed

text \<open>Answering with an address that the table in sync holds for the principal.\<close>

lemma answer_ok:
  assumes ok: "vip_world_ok tc p w" and t: "vw_table w = Some t" "vt_error t = None"
    and e: "map_of (vt_entries t) u = Some e"
  shows "vip_world_ok tc p (w\<lparr>vw_given := insert ((tenant_uuid (ve_tenant e), u), ve_vip e) (vw_given w)\<rparr>)"
proof -
  note S = in_sync_table [OF ok t]
  let ?G = "insert ((tenant_uuid (ve_tenant e), u), ve_vip e) (vw_given w)"
  have bound: "all_bound ?G t" using S(4) e by (auto simp: vip_bound_def)
  have "q = (tenant_uuid (ve_tenant e), u)" if "(q, ve_vip e) \<in> vw_given w" for q
    using vip_bound_owner [OF S(2) _ e refl, of q] S(4) that by force
  then have "single_owner ?G" using ok unfolding vip_world_ok_def single_owner_def by blast
  moreover have "doc_ok tc p ?G (vd_visible (vw_disk w))"
    using S bound t(2) unfolding doc_ok_def in_sync_def by blast
  ultimately show ?thesis using ok S(1) t by (simp add: vip_world_ok_def in_sync_def)
qed

lemma world_allocate:
  assumes tc: "codec_ok tc" and ok: "vip_world_ok tc p w" and t: "vw_table w = Some t" and dev: "uuid_sized dev"
    and al: "allocate_vip tc out dev t (vw_disk w) = (res, t', d)"
  shows "vip_world_ok tc p (w\<lparr>vw_table := Some t', vw_disk := d,
    vw_given := (case res of Inl _ \<Rightarrow> vw_given w | Inr v \<Rightarrow> insert (vip_principal dev, v) (vw_given w))\<rparr>)"
proof (cases "vt_error t = None \<and> dv_valid dev")
  case False
  then have "t' = t" "d = vw_disk w" "\<exists>err. res = Inl err" using al by (auto simp: allocate_vip_def split: if_splits)
  then show ?thesis using ok t by (auto simp: vip_world_ok_def)
next
  case True
  then obtain tu where tu: "dv_tenant dev = Some tu" by (auto simp: dv_valid_def)
  have e: "vt_error t = None" using True by simp
  note S = in_sync_table [OF ok t e]
  have vis: "doc_ok tc p (vw_given w) (vd_visible (vw_disk w))" "vd_durable (vw_disk w) = [vd_visible (vw_disk w)]"
    using ok S(1) by (simp_all add: vip_world_ok_def in_sync_def)
  show ?thesis using S(2) e dev tu al
  proof (cases rule: allocate_cases)
    case (known x)
    have "w\<lparr>vw_table := Some t\<rparr> = w" using t by simp
    then show ?thesis using answer_ok [OF ok t e known(1)] known tu by (simp add: vip_principal_def tenant_uuid_def)
  next
    case (refused err)
    then show ?thesis using ok t by (simp add: vip_world_ok_def)
  next
    case (unsynced n)
    have n: "vip_ok n" "vt_prefix n = p" "vt_error n = None" "all_bound (vw_given w) n"
      using unsynced(2) S e by (auto simp: vip_next_def)
    show ?thesis using ok vis doc_ok_file(1) [OF tc n] by (simp add: unsynced vip_world_ok_def)
  next
    case (given n a)
    let ?G = "insert (vip_principal dev, a) (vw_given w)"
    have n: "vip_ok n" "vt_prefix n = p" "vt_error n = None" "all_bound ?G n"
      using given(1,2) S e tu by (auto simp: vip_next_def vip_principal_def tenant_uuid_def)
    have "(q, a) \<notin> vw_given w" for q 
      using bspec [OF S(4), of "(q, a)"] vip_bound_used [OF S(2), of q a] given(3) by auto
    then have "single_owner ?G" using ok unfolding vip_world_ok_def single_owner_def by blast
    then show ?thesis using doc_ok_file [OF tc n] by (simp add: given vip_world_ok_def in_sync_def)
  qed
qed

lemma world_retire:
  assumes tc: "codec_ok tc" and ok: "vip_world_ok tc p w" and t: "vw_table w = Some t"
    and r: "retire_tenant tc out tenant t (vw_disk w) = (err, t', d)"
  shows "vip_world_ok tc p (w\<lparr>vw_table := Some t', vw_disk := d\<rparr>)"
proof (cases "vt_error t = None \<and> tenant \<noteq> None \<and> foreign_entries tenant t \<noteq> []")
  case False
  then have "t' = t" "d = vw_disk w" using r by (auto simp: retire_tenant_def Let_def split: if_splits)
  then show ?thesis using ok t by (simp add: vip_world_ok_def)
next
  case True
  then have e: "vt_error t = None" by simp
  note S = in_sync_table [OF ok t e]
  define n where "n = fold (\<lambda>e. retire_pin (ve_id e) (ve_vip e)) (foreign_entries tenant t) t"
  have n: "vip_ok n" "vt_prefix n = p" "vt_error n = None" "all_bound (vw_given w) n"
    using foreign_next [OF S(2), of tenant] S e by (auto simp: vip_next_def n_def)
  have vis: "doc_ok tc p (vw_given w) (vd_visible (vw_disk w))" "vd_durable (vw_disk w) = [vd_visible (vw_disk w)]"
    using ok S(1) by (simp_all add: vip_world_ok_def in_sync_def)
  have "(err, t', d) = (case persist_vips tc out n (vw_disk w) of (None, t, d) \<Rightarrow> (None, t, d)
      | (Some err, t, d) \<Rightarrow> let t = (if vt_error t = None then t\<lparr>vt_error := Some err\<rparr> else t) in (vt_error t, t, d))"
    using r True unfolding retire_tenant_def n_def by (simp add: Let_def)
  then show ?thesis using ok vis n(3) doc_ok_file [OF tc n]
    by (cases out) (auto simp: persist_vips_def Let_def vip_world_ok_def in_sync_def)
qed

lemma world_step:
  assumes tc: "codec_ok tc" and st: "vip_step tc p w w'" and ok: "vip_world_ok tc p w"
  shows "vip_world_ok tc p w'"
  using st
proof cases
  case (vstep_open synced res d)
  have vis: "doc_ok tc p (vw_given w) (vd_visible (vw_disk w))" using ok by (simp add: vip_world_ok_def)
  then obtain t where t: "load_vips tc (vd_visible (vw_disk w)) (fresh_table p) = Inr t" by (auto simp: doc_ok_def)
  show ?thesis using vstep_open(3) ok vis t unfolding vstep_open(1) open_vips_def
    by (auto simp: vip_world_ok_def in_sync_def split: if_splits sum.splits)
next
  case vstep_allocate
  then show ?thesis using world_allocate [OF tc ok] by simp
next
  case (vstep_lookup t dev v)
  then obtain e where e: "vt_error t = None" "map_of (vt_entries t) (dv_id dev) = Some e"
      "tenant_uuid (ve_tenant e) = tenant_uuid (dv_tenant dev)" "ve_vip e = v"
    by (auto simp: lookup_vip_def split: if_splits option.splits)
  then show ?thesis using answer_ok [OF ok vstep_lookup(2) e(1,2)] by (simp add: vstep_lookup(1) vip_principal_def)
next
  case (vstep_resolve t v dev)
  then obtain u where u: "vt_error t = None" "map_of (vt_owner t) v = Some u"
    by (auto simp: device_of_vip_def split: if_splits option.splits)
  note S = in_sync_table [OF ok vstep_resolve(2) u(1)]
  obtain e where e: "map_of (vt_entries t) u = Some e" "ve_vip e = v" using vip_okD(9) [OF S(2) u(2)] by blast
  then obtain tu where tu: "ve_tenant e = Some tu" "length u = 16" using vip_okD(8) [OF S(2) e(1)] by (auto simp: entry_ok_def)
  have "dev = Device (Some tu) u []"
    using vstep_resolve(3) u e tu parse_canonical_text [OF tc tu(2)]
    by (auto simp: device_of_vip_def split: if_splits)
  then show ?thesis using answer_ok [OF ok vstep_resolve(2) u(1) e(1)] e(2) tu(1)
    by (simp add: vstep_resolve(1) vip_principal_def)
next
  case vstep_retire
  then show ?thesis using world_retire [OF tc ok] by simp
next
  case vstep_stop
  then show ?thesis using ok by (simp add: vip_world_ok_def)
next
  case (vstep_crash doc)
  then show ?thesis using ok by (simp add: vip_world_ok_def)
qed

lemma fresh_ok: "vip_cidr p \<Longrightarrow> vip_ok (fresh_table p)"
proof (rule vip_okI)
  assume p: "vip_cidr p"
  then have "(2::int) ^ 2 \<le> 2 ^ (32 - pfx_bits p)" by (intro power_increasing) (auto simp: vip_cidr_def)
  then show "vt_cursor (fresh_table p) \<le> vt_capacity (fresh_table p) + 1"
    using p by (simp add: fresh_table_def usable_hosts_def vip_cidr_def)
qed (simp_all add: fresh_table_def)

lemma vip_reachable_ok:
  assumes tc: "codec_ok tc" and p: "vip_cidr p" and w: "vip_reachable tc p w"
  shows "vip_world_ok tc p w"
  using w
proof induction
  case vreach_start
  have "doc_ok tc p {} Missing" using fresh_ok [OF p] by (simp add: doc_ok_def) (simp add: fresh_table_def)
  then show ?case by (simp add: vip_world_ok_def start_world_def single_owner_def)
next
  case (vreach_step w w')
  then show ?case using world_step [OF tc] by blast
qed

end
