(* ===== verification/Vip_Props.thy ===== *)
theory Vip_Props
  imports Vip_Runs
begin

section \<open>Mesh VIPs: properties and a sample run\<close>

text \<open>An address stays with its principal, memory and disk agree, and exhaustion is real; a run over the production CIDR.\<close>

subsection \<open>A sample run\<close>

definition byte_text :: "bytes \<Rightarrow> string" where
  "byte_text b = map (\<lambda>w. char_of (unat w)) b"

definition text_bytes :: "string \<Rightarrow> bytes" where
  "text_bytes s = map (\<lambda>c. of_nat (of_char c)) s"

lemma text_bytes_text [simp]: "text_bytes (byte_text b) = b"
proof -
  have "(of_nat (unat w mod 256) :: byte) = w" for w :: byte
  proof -
    have "unat w < 2 ^ LENGTH(8)" by (rule unsigned_less)
    then show ?thesis by simp
  qed
  then show ?thesis by (simp add: text_bytes_def byte_text_def comp_def map_idI)
qed

definition sample_codec :: text_codec where
  "sample_codec = \<lparr>tc_uuid = byte_text, tc_parse_uuid = (\<lambda>s. Some (text_bytes s)),
     tc_addr = (\<lambda>a. byte_text (as_slice a)), tc_parse_addr = (\<lambda>s. Some (V4 (text_bytes s))),
     tc_prefix = (\<lambda>p. byte_text (as_slice (pfx_addr p) @ [of_nat (pfx_bits p)])),
     tc_parse_prefix = (\<lambda>s. Some (Pfx (V4 (take 4 (text_bytes s))) (unat (text_bytes s ! 4))))\<rparr>"

lemma sample_codec_ok: "codec_ok sample_codec"
proof -
  have "Pfx (V4 (take 4 (as_slice (pfx_addr p) @ [of_nat (pfx_bits p)])))
      (unat ((as_slice (pfx_addr p) @ [of_nat (pfx_bits p) :: byte]) ! 4)) = p" if "vip_cidr p" for p
    using that by (cases p; cases "pfx_addr p") (auto simp: vip_cidr_def nth_append unat_of_nat)
  then show ?thesis by (simp add: codec_ok_def sample_codec_def)
qed

definition mesh_cidr :: prefix where
  "mesh_cidr = Pfx (V4 [10, 99, 0, 0]) 16"

lemma mesh_cidr_ok: "vip_cidr mesh_cidr"
  by (simp add: vip_cidr_def mesh_cidr_def vip_base_def be_val_def)

definition vip_device :: "byte \<Rightarrow> device" where
  "vip_device b = Device (Some (replicate 16 1)) (replicate 16 b) []"

definition opened_world :: vip_world where
  "opened_world = \<lparr>vw_table = Some (fresh_table mesh_cidr), vw_disk = \<lparr>vd_visible = Missing, vd_durable = [Missing]\<rparr>, vw_given = {}\<rparr>"

definition pinned_table :: vip_table where
  "pinned_table = pin_vip (Some (replicate 16 1)) (replicate 16 5) (V4 [10, 99, 0, 1]) ((fresh_table mesh_cidr)\<lparr>vt_cursor := 2\<rparr>)"

definition pinned_world :: vip_world where
  "pinned_world = \<lparr>vw_table = Some pinned_table, vw_disk = \<lparr>vd_visible = Document (file_of sample_codec pinned_table),
     vd_durable = [Document (file_of sample_codec pinned_table)]\<rparr>,
     vw_given = {((replicate 16 1, replicate 16 5), V4 [10, 99, 0, 1])}\<rparr>"

lemma opened_reachable_vips: "vip_reachable sample_codec mesh_cidr opened_world"
proof -
  have "open_vips sample_codec True mesh_cidr (vw_disk start_world) = (Inr (fresh_table mesh_cidr), vw_disk start_world)"
    by (simp add: open_vips_def usable_hosts_def mesh_cidr_def start_world_def)
  from vstep_open [OF _ this] have "vip_step sample_codec mesh_cidr start_world opened_world"
    by (simp add: start_world_def opened_world_def)
  then show ?thesis using vreach_start vreach_step by blast
qed

lemma mesh_hosts:
  "be_bytes 4 (be_val [10, 99, 0, 0] + 1 :: u32) = [10, 99, 0, 1]"
  "be_bytes 4 (be_val [10, 99, 0, 0] + 2 :: u32) = [10, 99, 0, 2]"
  by code_simp+

lemma next_sample: "next_vip (fresh_table mesh_cidr) = Some (V4 [10, 99, 0, 1], (fresh_table mesh_cidr)\<lparr>vt_cursor := 2\<rparr>)"
proof -
  have "vip_for_index (fresh_table mesh_cidr) 1 = V4 [10, 99, 0, 1]"
    using mesh_hosts(1) by (simp add: vip_for_index_def fresh_table_def mesh_cidr_def vip_base_def)
  then show ?thesis
    by (simp add: next_vip_def first_free.simps [of _ 1] fresh_table_def usable_hosts_def mesh_cidr_def)
qed

lemma pinned_reachable: "vip_reachable sample_codec mesh_cidr pinned_world"
proof -
  have "allocate_vip sample_codec Persisted (vip_device 5) (fresh_table mesh_cidr) (vw_disk opened_world)
      = (Inr (V4 [10, 99, 0, 1]), pinned_table, vw_disk pinned_world)"
    using next_sample
    by (simp add: allocate_vip_def vip_device_def dv_valid_def persist_vips_def pinned_table_def pinned_world_def
        opened_world_def Let_def fresh_table_def)
  from vstep_allocate [OF _ _ this]
  have "vip_step sample_codec mesh_cidr opened_world pinned_world"
    by (simp add: opened_world_def pinned_world_def vip_principal_def vip_device_def uuid_sized_def tenant_uuid_def)
  then show ?thesis using opened_reachable_vips vreach_step by blast
qed

subsection \<open>Properties\<close>

text \<open>
  C21 (vip_never_shared): whichever writes fail, and however often the agent stops or the machine crashes and the table is
  opened again, no address is ever answered for two different principals, a retired principal included.
\<close>

theorem vip_never_shared:
  assumes "codec_ok tc" "vip_cidr p" "vip_reachable tc p w" "(q, v) \<in> vw_given w" "(q', v) \<in> vw_given w"
  shows "q = q'"
  using vip_reachable_ok [OF assms(1-3)] assms(4,5) unfolding vip_world_ok_def single_owner_def by blast

theorem vip_never_shared_witness:
  "{q. (q, V4 [10, 99, 0, 1]) \<in> vw_given pinned_world} = {(replicate 16 1, replicate 16 5)}"
  using vip_never_shared [OF sample_codec_ok mesh_cidr_ok pinned_reachable, of "(replicate 16 1, replicate 16 5)"]
  by (auto simp: pinned_world_def)

text \<open>
  C22 (vip_file_reloads): a table that has not failed is exactly what its own file, and the file on disk, load into, and a
  crash can leave nothing else there: a restart loses no allocation, no retirement and not the cursor.
\<close>

theorem vip_file_reloads:
  assumes "codec_ok tc" "vip_cidr p" "vip_reachable tc p w" "vw_table w = Some t" "vt_error t = None"
  shows "load_vips tc (Document (file_of tc t)) (fresh_table p) = Inr t
    \<and> load_vips tc (vd_visible (vw_disk w)) (fresh_table p) = Inr t
    \<and> vd_durable (vw_disk w) = [vd_visible (vw_disk w)]"
proof -
  note S = in_sync_table [OF vip_reachable_ok [OF assms(1-3)] assms(4,5)]
  show ?thesis using doc_ok_file(2) [OF assms(1) S(2,3) assms(5) S(4)] S(1) by (simp add: in_sync_def)
qed

theorem vip_file_reloads_witness:
  "load_vips sample_codec (vd_visible (vw_disk pinned_world)) (fresh_table mesh_cidr) = Inr pinned_table"
  using vip_file_reloads [OF sample_codec_ok mesh_cidr_ok pinned_reachable, of pinned_table]
  by (simp add: pinned_world_def pinned_table_def fresh_table_def)

text \<open>
  an allocation by a working table fails for want of an address exactly when the principal holds
  none and every usable address of the CIDR is allocated or retired, below the cursor as well as above it.
\<close>

theorem vip_exhausted_iff:
  assumes "codec_ok tc" "vip_cidr p" "vip_reachable tc p w" "vw_table w = Some t" "vt_error t = None" "dv_valid dev"
  shows "fst (allocate_vip tc out dev t (vw_disk w)) = Inl PoolExhausted \<longleftrightarrow>
    lookup_vip dev t = None \<and> (\<forall>i \<in> {1..vt_capacity t}. vip_used t (vip_for_index t i))"
proof -
  note S = in_sync_table [OF vip_reachable_ok [OF assms(1-3)] assms(4,5)]
  note D = vip_okD [OF S(2)]
  have "next_vip t = None \<longleftrightarrow> (\<forall>i \<in> {1..vt_capacity t}. vip_used t (vip_for_index t i))"
  proof
    assume "next_vip t = None"
    then have "first_free t (vt_cursor t) = None" by (simp add: next_vip_def split: option.splits)
    then show "\<forall>i \<in> {1..vt_capacity t}. vip_used t (vip_for_index t i)"
      using first_free_None D(11) by (metis atLeastAtMost_iff linorder_not_less)
  next
    assume all: "\<forall>i \<in> {1..vt_capacity t}. vip_used t (vip_for_index t i)"
    show "next_vip t = None"
    proof (rule ccontr)
      assume "next_vip t \<noteq> None"
      then obtain a t1 where "next_vip t = Some (a, t1)" by auto
      then show False using next_vip_Some [OF S(2), of a t1] all D(6) by (metis atLeastAtMost_iff order_trans)
    qed
  qed
  moreover have "fst (allocate_vip tc out dev t (vw_disk w)) = Inl PoolExhausted \<longleftrightarrow> lookup_vip dev t = None \<and> next_vip t = None"
    using assms(5,6) by (cases out) (auto simp: allocate_vip_def lookup_vip_def persist_vips_def Let_def split: option.split)
  ultimately show ?thesis by simp
qed

theorem vip_exhausted_iff_witness:
  "fst (allocate_vip sample_codec Persisted (vip_device 6) pinned_table (vw_disk pinned_world)) \<noteq> Inl PoolExhausted"
proof -
  have "pinned_table\<lparr>vt_error := None\<rparr> = pinned_table" by (simp add: pinned_table_def pin_vip_def fresh_table_def)
  moreover have "\<not> vip_used pinned_table (vip_for_index pinned_table 2)"
    using mesh_hosts(2)
    by (simp add: vip_used_def pinned_table_def pin_vip_def fresh_table_def vip_for_index_def mesh_cidr_def vip_base_def)
  moreover have "2 \<in> {1..vt_capacity pinned_table}"
    by (simp add: pinned_table_def pin_vip_def fresh_table_def usable_hosts_def mesh_cidr_def)
  ultimately show ?thesis
    using vip_exhausted_iff [OF sample_codec_ok mesh_cidr_ok pinned_reachable, of pinned_table "vip_device 6" Persisted]
    by (auto simp: pinned_world_def pinned_table_def fresh_table_def vip_device_def dv_valid_def)
qed

end
