(* ===== verification/Ingress_Registry.thy ===== *)
theory Ingress_Registry
  imports Vip_Table
begin

section \<open>Published ports of mesh apps (meshingress/registry.go)\<close>

text \<open>
  \<open>Registry\<close> with the maps of the code: three for TCP, five for UDP, the sources of apps, the reverse indexes by
  owner and the admitted connections. A nil map is the empty one. A \<open>chan struct{}\<close> is a number, and the closed ones are
  collected; closing a nil or a closed channel panics, the value \<open>None\<close>. The methods' nil-receiver guards are not
  modelled. \<open>netip.ParseAddr\<close> and \<open>ParsePrefix\<close> are arguments. A callback is told by what it is called with;
  its result is an argument.
\<close>

type_synonym host_port = "addr \<times> u16"

record source_claim =
  sc_owner :: string
  sc_app :: string
  sc_cidr :: prefix
  sc_ifindex :: int
  sc_token :: u64
  sc_done :: nat

record admitted_conn =
  cn_owner :: string
  cn_closed :: bool

record registry =
  rg_flows :: "(string, (nat, unit) gomap) gomap"
  rg_by_port :: "(u16, string) gomap"
  rg_targets :: "(u16, host_port) gomap"
  rg_app_by_port :: "(u16, string) gomap"
  rg_by_owner :: "(string, (u16, unit) gomap) gomap"
  rg_udp_by_port :: "(u16, string) gomap"
  rg_udp_targets :: "(u16, host_port) gomap"
  rg_udp_app :: "(u16, string) gomap"
  rg_udp_by_owner :: "(string, (u16, unit) gomap) gomap"
  rg_udp_token :: "(u16, u64) gomap"
  rg_udp_done :: "(u16, nat) gomap"
  rg_udp_next :: u64
  rg_sources :: "(addr, source_claim) gomap"
  rg_source_by_owner :: "(string, addr) gomap"
  rg_source_next :: u64
  rg_conns :: "admitted_conn list"
  rg_channels :: nat
  rg_closed :: "nat list"

datatype ingress_error =
    PortDenied
  | NeedsOwner
  | NeedsEndpoint
  | PublishedBy string
  | AppChange
  | EndpointChange
  | DialFailed
  | NoConnection

definition new_registry :: registry where
  "new_registry = \<lparr>rg_flows = [], rg_by_port = [], rg_targets = [], rg_app_by_port = [], rg_by_owner = [],
     rg_udp_by_port = [], rg_udp_targets = [], rg_udp_app = [], rg_udp_by_owner = [], rg_udp_token = [], rg_udp_done = [],
     rg_udp_next = 0, rg_sources = [], rg_source_by_owner = [], rg_source_next = 0, rg_conns = [], rg_channels = 1,
     rg_closed = []\<rparr>"

text \<open>Reading a Go map: the zero value where there is no entry.\<close>

definition str_at :: "('k, string) gomap \<Rightarrow> 'k \<Rightarrow> string" where
  "str_at m k = (case map_of m k of None \<Rightarrow> '''' | Some s \<Rightarrow> s)"

definition num_at :: "('k, u64) gomap \<Rightarrow> 'k \<Rightarrow> u64" where
  "num_at m k = (case map_of m k of None \<Rightarrow> 0 | Some n \<Rightarrow> n)"

definition target_at :: "('k, host_port) gomap \<Rightarrow> 'k \<Rightarrow> host_port" where
  "target_at m k = (case map_of m k of None \<Rightarrow> (NoAddr, 0) | Some t \<Rightarrow> t)"

definition set_at :: "('k, ('v, unit) gomap) gomap \<Rightarrow> 'k \<Rightarrow> ('v, unit) gomap" where
  "set_at m k = (case map_of m k of None \<Rightarrow> [] | Some s \<Rightarrow> s)"

definition is_private4 :: "addr \<Rightarrow> bool" where
  "is_private4 a = (case a of
     V4 (b0 # b1 # _) \<Rightarrow> b0 = 10 \<or> b0 = 172 \<and> b1 AND 240 = 16 \<or> b0 = 192 \<and> b1 = 168
   | _ \<Rightarrow> False)"

definition close_chan :: "nat option \<Rightarrow> registry \<Rightarrow> registry option" where
  "close_chan ch r = (case ch of
     None \<Rightarrow> None
   | Some n \<Rightarrow> if n \<in> set (rg_closed r) then None else Some (r\<lparr>rg_closed := n # rg_closed r\<rparr>))"

definition check_owner :: "string \<Rightarrow> string \<Rightarrow> ingress_error option" where
  "check_owner owner c = (if owner \<noteq> '''' \<and> owner \<noteq> c then Some (PublishedBy owner) else None)"

subsection \<open>Sources\<close>

definition claim_source :: "(string \<Rightarrow> addr option) \<Rightarrow> (string \<Rightarrow> prefix option) \<Rightarrow> string \<Rightarrow> string \<Rightarrow> string \<Rightarrow> string \<Rightarrow> int
    \<Rightarrow> registry \<Rightarrow> (ingress_error option \<times> registry) option" where
  "claim_source parse_addr parse_prefix c app raw_ip raw_cidr ifindex r =
     (if c = '''' \<or> app = '''' \<or> ifindex \<le> 0 then Some (Some PortDenied, r)
      else (case parse_addr raw_ip of
          None \<Rightarrow> Some (Some PortDenied, r)
        | Some ip \<Rightarrow> if \<not> is4 ip then Some (Some PortDenied, r)
            else (case parse_prefix raw_cidr of
                None \<Rightarrow> Some (Some PortDenied, r)
              | Some cidr \<Rightarrow> if \<not> is4 (pfx_addr cidr) then Some (Some PortDenied, r)
                  else if (case map_of (rg_sources r) ip of None \<Rightarrow> False | Some x \<Rightarrow> sc_owner x \<noteq> '''' \<and> sc_owner x \<noteq> c)
                    then Some (Some PortDenied, r)
                  else
                    (case (case map_of (rg_source_by_owner r) c of
                        None \<Rightarrow> Some r
                      | Some old \<Rightarrow> (case map_of (rg_sources r) old of
                          None \<Rightarrow> Some r
                        | Some x \<Rightarrow> if sc_owner x = c
                            then map_option (\<lambda>r. r\<lparr>rg_sources := m_del old (rg_sources r)\<rparr>) (close_chan (Some (sc_done x)) r)
                            else Some r)) of
                       None \<Rightarrow> None
                     | Some r \<Rightarrow> Some (None, r\<lparr>rg_source_next := rg_source_next r + 1, rg_channels := rg_channels r + 1,
                         rg_sources := m_put ip \<lparr>sc_owner = c, sc_app = app, sc_cidr = masked cidr, sc_ifindex = ifindex,
                           sc_token = rg_source_next r + 1, sc_done = rg_channels r\<rparr> (rg_sources r),
                         rg_source_by_owner := m_put c ip (rg_source_by_owner r)\<rparr>)))))"

definition source_claim_at :: "addr \<Rightarrow> addr \<Rightarrow> int \<Rightarrow> registry \<Rightarrow> source_claim option" where
  "source_claim_at ip dst ifindex r = (case map_of (rg_sources r) ip of
     None \<Rightarrow> None
   | Some x \<Rightarrow> if sc_owner x = '''' \<or> sc_ifindex x \<noteq> ifindex \<or> \<not> pfx_contains (sc_cidr x) dst then None else Some x)"

definition source_token :: "addr \<Rightarrow> addr \<Rightarrow> int \<Rightarrow> registry \<Rightarrow> u64" where
  "source_token ip dst ifindex r =
     (if ip = NoAddr \<or> dst = NoAddr \<or> ifindex \<le> 0 then 0
      else (case source_claim_at ip dst ifindex r of None \<Rightarrow> 0 | Some x \<Rightarrow> sc_token x))"

definition source_allowed :: "addr \<Rightarrow> addr \<Rightarrow> int \<Rightarrow> registry \<Rightarrow> bool" where
  "source_allowed ip dst ifindex r \<longleftrightarrow> source_token ip dst ifindex r \<noteq> 0"

definition source_ip :: "string \<Rightarrow> registry \<Rightarrow> addr option" where
  "source_ip c r =
     (if c = '''' then None
      else (case map_of (rg_source_by_owner r) c of
          None \<Rightarrow> None
        | Some ip \<Rightarrow> if ip = NoAddr \<or> (case map_of (rg_sources r) ip of None \<Rightarrow> '''' | Some x \<Rightarrow> sc_owner x) \<noteq> c then None
            else Some ip))"

definition with_source_token :: "addr \<Rightarrow> addr \<Rightarrow> int \<Rightarrow> u64 \<Rightarrow> registry \<Rightarrow> bool" where
  "with_source_token ip dst ifindex token r \<longleftrightarrow> token \<noteq> 0 \<and> 0 < ifindex
     \<and> (case source_claim_at ip dst ifindex r of None \<Rightarrow> False | Some x \<Rightarrow> sc_token x = token)"

definition source_done :: "addr \<Rightarrow> addr \<Rightarrow> int \<Rightarrow> u64 \<Rightarrow> registry \<Rightarrow> nat option" where
  "source_done ip dst ifindex token r =
     (if token = 0 then None
      else (case source_claim_at ip dst ifindex r of
          None \<Rightarrow> None | Some x \<Rightarrow> if sc_token x \<noteq> token then None else Some (sc_done x)))"

subsection \<open>TCP\<close>

definition tcp_allowed :: "u16 \<Rightarrow> registry \<Rightarrow> bool" where
  "tcp_allowed port r \<longleftrightarrow> port \<noteq> 0 \<and> str_at (rg_by_port r) port \<noteq> ''''"

definition owned_by :: "string \<Rightarrow> u16 \<Rightarrow> registry \<Rightarrow> bool" where
  "owned_by c port r \<longleftrightarrow> c \<noteq> '''' \<and> port \<noteq> 0 \<and> str_at (rg_by_port r) port = c"

definition allowed_app :: "string \<Rightarrow> u16 \<Rightarrow> registry \<Rightarrow> bool" where
  "allowed_app app port r \<longleftrightarrow> app \<noteq> '''' \<and> port \<noteq> 0 \<and> str_at (rg_by_port r) port \<noteq> '''' \<and> str_at (rg_app_by_port r) port = app"

definition check_available :: "string \<Rightarrow> u16 \<Rightarrow> registry \<Rightarrow> ingress_error option" where
  "check_available c port r = (if c = '''' \<or> port = 0 then Some NeedsOwner else check_owner (str_at (rg_by_port r) port) c)"

definition claim_for_app :: "(string \<Rightarrow> addr option) \<Rightarrow> string \<Rightarrow> string \<Rightarrow> u16 \<Rightarrow> string \<Rightarrow> u16 \<Rightarrow> registry
    \<Rightarrow> ingress_error option \<times> registry" where
  "claim_for_app parse_addr c app port raw_ip cport r =
     (if c = '''' \<or> port = 0 then (Some NeedsOwner, r)
      else (case parse_addr raw_ip of
          None \<Rightarrow> (Some NeedsEndpoint, r)
        | Some ip \<Rightarrow>
            if \<not> is4 ip \<or> \<not> is_private4 ip \<or> cport = 0 then (Some NeedsEndpoint, r)
            else (case check_owner (str_at (rg_by_port r) port) c of
                Some err \<Rightarrow> (Some err, r)
              | None \<Rightarrow>
                  if str_at (rg_by_port r) port \<noteq> '''' \<and> str_at (rg_app_by_port r) port \<noteq> app then (Some AppChange, r)
                  else if str_at (rg_by_port r) port \<noteq> '''' \<and> target_at (rg_targets r) port \<noteq> (ip, cport) then (Some EndpointChange, r)
                  else (None, r\<lparr>rg_by_port := m_put port c (rg_by_port r), rg_targets := m_put port (ip, cport) (rg_targets r),
                    rg_app_by_port := m_put port app (rg_app_by_port r),
                    rg_by_owner := m_put c (m_put port () (set_at (rg_by_owner r) c)) (rg_by_owner r)\<rparr>))))"

definition claim_port :: "(string \<Rightarrow> addr option) \<Rightarrow> string \<Rightarrow> u16 \<Rightarrow> string \<Rightarrow> u16 \<Rightarrow> registry \<Rightarrow> ingress_error option \<times> registry" where
  "claim_port parse_addr c port raw_ip cport r = claim_for_app parse_addr c '''' port raw_ip cport r"

text \<open>The dial's outcome: an error, no connection, or one.\<close>

datatype dial_result = DialError | DialNil | Dialed

definition dial_authorized :: "u16 \<Rightarrow> dial_result \<Rightarrow> registry \<Rightarrow> (ingress_error + nat) \<times> registry" where
  "dial_authorized port outcome r =
     (if port = 0 then (Inl PortDenied, r)
      else if str_at (rg_by_port r) port = '''' \<or> fst (target_at (rg_targets r) port) = NoAddr then (Inl PortDenied, r)
      else (case outcome of
          DialError \<Rightarrow> (Inl DialFailed, r)
        | DialNil \<Rightarrow> (Inl NoConnection, r)
        | Dialed \<Rightarrow>
            (let owner = str_at (rg_by_port r) port; n = length (rg_conns r) in
             (Inr n, r\<lparr>rg_conns := rg_conns r @ [\<lparr>cn_owner = owner, cn_closed = False\<rparr>],
               rg_flows := m_put owner (m_put n () (set_at (rg_flows r) owner)) (rg_flows r)\<rparr>))))"

definition close_conn :: "nat \<Rightarrow> registry \<Rightarrow> registry" where
  "close_conn n r =
     (if n < length (rg_conns r) \<and> \<not> cn_closed (rg_conns r ! n)
      then
        (let owner = cn_owner (rg_conns r ! n);
             flows = (case map_of (rg_flows r) owner of None \<Rightarrow> rg_flows r | Some s \<Rightarrow> m_put owner (m_del n s) (rg_flows r));
             flows = (if set_at flows owner = [] then m_del owner flows else flows)
         in r\<lparr>rg_flows := flows, rg_conns := (rg_conns r)[n := (rg_conns r ! n)\<lparr>cn_closed := True\<rparr>]\<rparr>)
      else r)"

subsection \<open>UDP\<close>

definition allowed_udp :: "u16 \<Rightarrow> registry \<Rightarrow> bool" where
  "allowed_udp port r \<longleftrightarrow> port \<noteq> 0 \<and> str_at (rg_udp_by_port r) port \<noteq> ''''"

definition with_udp :: "u16 \<Rightarrow> registry \<Rightarrow> bool" where
  "with_udp port r \<longleftrightarrow> \<not> (port = 0 \<or> str_at (rg_udp_by_port r) port = '''')"

definition allowed_udp_app :: "string \<Rightarrow> u16 \<Rightarrow> registry \<Rightarrow> bool" where
  "allowed_udp_app app port r \<longleftrightarrow> app \<noteq> '''' \<and> port \<noteq> 0 \<and> str_at (rg_udp_by_port r) port \<noteq> '''' \<and> str_at (rg_udp_app r) port = app"

definition owned_udp_by :: "string \<Rightarrow> u16 \<Rightarrow> registry \<Rightarrow> bool" where
  "owned_udp_by c port r \<longleftrightarrow> c \<noteq> '''' \<and> port \<noteq> 0 \<and> str_at (rg_udp_by_port r) port = c"

definition udp_token :: "u16 \<Rightarrow> registry \<Rightarrow> u64" where
  "udp_token port r = (if port = 0 then 0 else num_at (rg_udp_token r) port)"

definition check_udp_available :: "string \<Rightarrow> u16 \<Rightarrow> registry \<Rightarrow> ingress_error option" where
  "check_udp_available c port r = (if c = '''' \<or> port = 0 then Some PortDenied else check_owner (str_at (rg_udp_by_port r) port) c)"

text \<open>The endpoint handed to the callback, or none when it is not called.\<close>

definition with_udp_token :: "u16 \<Rightarrow> u64 \<Rightarrow> registry \<Rightarrow> host_port option" where
  "with_udp_token port token r =
     (if port = 0 \<or> token = 0 then None
      else if str_at (rg_udp_by_port r) port = '''' \<or> num_at (rg_udp_token r) port \<noteq> token
        \<or> fst (target_at (rg_udp_targets r) port) = NoAddr then None
      else Some (target_at (rg_udp_targets r) port))"

definition with_local_udp :: "addr \<Rightarrow> addr \<Rightarrow> int \<Rightarrow> u64 \<Rightarrow> u16 \<Rightarrow> u64 \<Rightarrow> registry \<Rightarrow> host_port option" where
  "with_local_udp ip dst ifindex stoken port token r =
     (if stoken = 0 \<or> token = 0 then None
      else (case source_claim_at ip dst ifindex r of
          None \<Rightarrow> None
        | Some x \<Rightarrow>
            if sc_token x \<noteq> stoken \<or> str_at (rg_udp_by_port r) port = '''' \<or> num_at (rg_udp_token r) port \<noteq> token
              \<or> fst (target_at (rg_udp_targets r) port) = NoAddr then None
            else Some (target_at (rg_udp_targets r) port)))"

definition udp_done :: "u16 \<Rightarrow> u64 \<Rightarrow> registry \<Rightarrow> nat option" where
  "udp_done port token r =
     (if token = 0 \<or> str_at (rg_udp_by_port r) port = '''' \<or> num_at (rg_udp_token r) port \<noteq> token then None
      else map_of (rg_udp_done r) port)"

definition claim_udp :: "(string \<Rightarrow> addr option) \<Rightarrow> string \<Rightarrow> string \<Rightarrow> u16 \<Rightarrow> string \<Rightarrow> u16 \<Rightarrow> registry
    \<Rightarrow> (ingress_error option \<times> registry) option" where
  "claim_udp parse_addr c app port raw_ip cport r =
     (if c = '''' \<or> port = 0 then Some (Some PortDenied, r)
      else (case parse_addr raw_ip of
          None \<Rightarrow> Some (Some PortDenied, r)
        | Some ip \<Rightarrow>
            if \<not> is4 ip \<or> \<not> is_private4 ip \<or> cport = 0 then Some (Some PortDenied, r)
            else (case check_owner (str_at (rg_udp_by_port r) port) c of
                Some err \<Rightarrow> Some (Some err, r)
              | None \<Rightarrow>
                  if str_at (rg_udp_by_port r) port \<noteq> ''''
                    \<and> (str_at (rg_udp_app r) port \<noteq> app \<or> target_at (rg_udp_targets r) port \<noteq> (ip, cport))
                  then Some (Some PortDenied, r)
                  else
                    (case (if map_of (rg_udp_done r) port = None then Some r else close_chan (map_of (rg_udp_done r) port) r) of
                       None \<Rightarrow> None
                     | Some r \<Rightarrow> Some (None, r\<lparr>rg_udp_by_port := m_put port c (rg_udp_by_port r), rg_udp_app := m_put port app (rg_udp_app r),
                         rg_udp_targets := m_put port (ip, cport) (rg_udp_targets r),
                         rg_udp_done := m_put port (rg_channels r) (rg_udp_done r), rg_channels := rg_channels r + 1,
                         rg_udp_next := rg_udp_next r + 1, rg_udp_token := m_put port (rg_udp_next r + 1) (rg_udp_token r),
                         rg_udp_by_owner := m_put c (m_put port () (set_at (rg_udp_by_owner r) c)) (rg_udp_by_owner r)\<rparr>)))))"

subsection \<open>Release\<close>

definition release_source :: "string \<Rightarrow> registry \<Rightarrow> registry option" where
  "release_source c r = (case map_of (rg_source_by_owner r) c of
     None \<Rightarrow> Some r
   | Some ip \<Rightarrow>
       if ip = NoAddr then Some r
       else map_option (\<lambda>r. r\<lparr>rg_source_by_owner := m_del c (rg_source_by_owner r)\<rparr>)
         (case map_of (rg_sources r) ip of
            None \<Rightarrow> Some r
          | Some x \<Rightarrow> if sc_owner x = c
              then map_option (\<lambda>r. r\<lparr>rg_sources := m_del ip (rg_sources r)\<rparr>) (close_chan (Some (sc_done x)) r)
              else Some r))"

definition release_tcp_port :: "string \<Rightarrow> u16 \<Rightarrow> registry \<Rightarrow> registry" where
  "release_tcp_port c port r =
     (if str_at (rg_by_port r) port = c
      then r\<lparr>rg_by_port := m_del port (rg_by_port r), rg_targets := m_del port (rg_targets r),
        rg_app_by_port := m_del port (rg_app_by_port r)\<rparr>
      else r)"

definition release_tcp :: "string \<Rightarrow> registry \<Rightarrow> registry" where
  "release_tcp c r =
     (let r = fold (release_tcp_port c) (m_keys (set_at (rg_by_owner r) c)) r in
      r\<lparr>rg_by_owner := m_del c (rg_by_owner r)\<rparr>)"

definition release_udp_port :: "string \<Rightarrow> u16 \<Rightarrow> registry \<Rightarrow> registry option" where
  "release_udp_port c port r =
     (if str_at (rg_udp_by_port r) port = c
      then map_option (\<lambda>r. r\<lparr>rg_udp_done := m_del port (rg_udp_done r), rg_udp_by_port := m_del port (rg_udp_by_port r),
          rg_udp_targets := m_del port (rg_udp_targets r), rg_udp_app := m_del port (rg_udp_app r),
          rg_udp_token := m_del port (rg_udp_token r)\<rparr>) (close_chan (map_of (rg_udp_done r) port) r)
      else Some r)"

definition release_udp_ports :: "string \<Rightarrow> registry \<Rightarrow> registry option" where
  "release_udp_ports c r =
     map_option (\<lambda>r. r\<lparr>rg_udp_by_owner := m_del c (rg_udp_by_owner r)\<rparr>)
       (fold (\<lambda>port acc. Option.bind acc (release_udp_port c port)) (m_keys (set_at (rg_udp_by_owner r) c)) (Some r))"

text \<open>The locked part of \<open>Release\<close>, and the connections it goes on to close without the lock.\<close>

definition release_owner :: "string \<Rightarrow> registry \<Rightarrow> (nat list \<times> registry) option" where
  "release_owner c r =
     (if c = '''' then Some ([], r)
      else (case release_source c r of
          None \<Rightarrow> None
        | Some r \<Rightarrow> (case release_udp_ports c (release_tcp c r) of
            None \<Rightarrow> None
          | Some r \<Rightarrow> Some (m_keys (set_at (rg_flows r) c), r\<lparr>rg_flows := m_del c (rg_flows r)\<rparr>))))"

end
