(* ===== verification/Ingress_Spec.thy ===== *)
theory Ingress_Spec
  imports Ingress_Registry
begin

section \<open>Published ports: what the registry promises\<close>

text \<open>
  A registry is used through the calls of \<open>ingress_call\<close>; every call is one critical section of the code, the closing
  of a connection that \<open>Release\<close> has revoked included. The specification has one map for the ports of each protocol,
  one for the sources and the set of live connections, and no channels or indexes. \<open>abs_registry\<close> reads it off the
  registry.
\<close>

datatype ingress_call =
    Claim string u16 string u16
  | ClaimForApp string string u16 string u16
  | ClaimUDP string string u16 string u16
  | ClaimSource string string string string int
  | Release string
  | Dial u16 dial_result
  | CloseConn nat
  | CheckAvailable string u16
  | CheckUDPAvailable string u16
  | Allowed u16
  | AllowedApp string u16
  | OwnedBy string u16
  | AllowedUDP u16
  | AllowedUDPApp string u16
  | OwnedUDPBy string u16
  | UDPToken u16
  | SendUDP u16
  | SendUDPToken u16 u64
  | SendLocalUDP addr addr int u64 u16 u64
  | UDPDone u16 u64
  | SourceToken addr addr int
  | SourceAllowed addr addr int
  | SendSource addr addr int u64
  | SourceDone addr addr int u64
  | SourceIP string
datatype ingress_answer =
    Refused ingress_error
  | Granted
  | Conn nat
  | Verdict bool
  | Token u64
  | Target "host_port option"
  | Addresses "addr set"

text \<open>
  A registry in use: the connections \<open>Release\<close> has taken out and not closed yet, and, for the statements
  only, the port and endpoint each connection was dialed for.
\<close>

record ingress_run =
  ir_registry :: registry
  ir_closing :: "nat list"
  ir_dialed :: "(nat \<times> u16 \<times> host_port) list"

definition ingress_start :: ingress_run where
  "ingress_start = \<lparr>ir_registry = new_registry, ir_closing = [], ir_dialed = []\<rparr>"

definition result :: "ingress_error option \<Rightarrow> ingress_answer" where
  "result e = (case e of None \<Rightarrow> Granted | Some err \<Rightarrow> Refused err)"

definition changed :: "ingress_run \<Rightarrow> ingress_error option \<times> registry \<Rightarrow> ingress_answer \<times> ingress_run" where
  "changed w x = (result (fst x), w\<lparr>ir_registry := snd x\<rparr>)"

definition chan_done :: "registry \<Rightarrow> nat option \<Rightarrow> bool" where
  "chan_done r ch = (case ch of None \<Rightarrow> True | Some n \<Rightarrow> n \<in> set (rg_closed r))"

type_synonym ip_parser = "string \<Rightarrow> addr option"
type_synonym cidr_parser = "string \<Rightarrow> prefix option"

fun ingress_query :: "ingress_call \<Rightarrow> registry \<Rightarrow> ingress_answer" where
  "ingress_query (CheckAvailable c port) r = result (check_available c port r)"
| "ingress_query (CheckUDPAvailable c port) r = result (check_udp_available c port r)"
| "ingress_query (Allowed port) r = Verdict (tcp_allowed port r)"
| "ingress_query (AllowedApp app port) r = Verdict (allowed_app app port r)"
| "ingress_query (OwnedBy c port) r = Verdict (owned_by c port r)"
| "ingress_query (AllowedUDP port) r = Verdict (allowed_udp port r)"
| "ingress_query (AllowedUDPApp app port) r = Verdict (allowed_udp_app app port r)"
| "ingress_query (OwnedUDPBy c port) r = Verdict (owned_udp_by c port r)"
| "ingress_query (UDPToken port) r = Token (udp_token port r)"
| "ingress_query (SendUDP port) r = Verdict (with_udp port r)"
| "ingress_query (SendUDPToken port token) r = Target (with_udp_token port token r)"
| "ingress_query (SendLocalUDP ip dst ifindex stoken port token) r = Target (with_local_udp ip dst ifindex stoken port token r)"
| "ingress_query (UDPDone port token) r = Verdict (chan_done r (udp_done port token r))"
| "ingress_query (SourceToken ip dst ifindex) r = Token (source_token ip dst ifindex r)"
| "ingress_query (SourceAllowed ip dst ifindex) r = Verdict (source_allowed ip dst ifindex r)"
| "ingress_query (SendSource ip dst ifindex token) r = Verdict (with_source_token ip dst ifindex token r)"
| "ingress_query (SourceDone ip dst ifindex token) r = Verdict (chan_done r (source_done ip dst ifindex token r))"
| "ingress_query (SourceIP c) r = Addresses (set_option (source_ip c r))"
| "ingress_query _ r = Granted"

fun ingress_exec :: "ip_parser \<Rightarrow> cidr_parser \<Rightarrow> ingress_call \<Rightarrow> ingress_run \<Rightarrow> (ingress_answer \<times> ingress_run) option" where
  "ingress_exec pa pp (Claim c port raw cport) w = Some (changed w (claim_port pa c port raw cport (ir_registry w)))"
| "ingress_exec pa pp (ClaimForApp c app port raw cport) w = Some (changed w (claim_for_app pa c app port raw cport (ir_registry w)))"
| "ingress_exec pa pp (ClaimUDP c app port raw cport) w = map_option (changed w) (claim_udp pa c app port raw cport (ir_registry w))"
| "ingress_exec pa pp (ClaimSource c app raw cidr ifindex) w =
     map_option (changed w) (claim_source pa pp c app raw cidr ifindex (ir_registry w))"
| "ingress_exec pa pp (Release c) w =
     map_option (\<lambda>(flows, r). (Granted, w\<lparr>ir_registry := r, ir_closing := flows @ ir_closing w\<rparr>)) (release_owner c (ir_registry w))"
| "ingress_exec pa pp (Dial port outcome) w = (case dial_authorized port outcome (ir_registry w) of
     (Inl err, r) \<Rightarrow> Some (Refused err, w\<lparr>ir_registry := r\<rparr>)
   | (Inr n, r) \<Rightarrow> Some (Conn n, w\<lparr>ir_registry := r,
       ir_dialed := (n, port, target_at (rg_targets (ir_registry w)) port) # ir_dialed w\<rparr>))"
| "ingress_exec pa pp (CloseConn n) w =
     Some (Granted, w\<lparr>ir_registry := close_conn n (ir_registry w), ir_closing := filter (\<lambda>k. k \<noteq> n) (ir_closing w)\<rparr>)"
| "ingress_exec pa pp call w = Some (ingress_query call (ir_registry w), w)"

subsection \<open>The specification\<close>

record publication =
  pb_owner :: string
  pb_app :: string
  pb_target :: host_port
  pb_token :: u64

record attribution =
  at_owner :: string
  at_app :: string
  at_cidr :: prefix
  at_ifindex :: int
  at_token :: u64

record ingress_spec =
  sp_tcp :: "u16 \<Rightarrow> publication option"
  sp_udp :: "u16 \<Rightarrow> publication option"
  sp_source :: "addr \<Rightarrow> attribution option"
  sp_udp_next :: u64
  sp_source_next :: u64
  sp_live :: "nat \<Rightarrow> string option"
  sp_dials :: nat

definition spec_start :: ingress_spec where
  "spec_start = \<lparr>sp_tcp = Map.empty, sp_udp = Map.empty, sp_source = Map.empty, sp_udp_next = 0, sp_source_next = 0,
     sp_live = Map.empty, sp_dials = 0\<rparr>"

definition keep_if :: "('v \<Rightarrow> bool) \<Rightarrow> ('k \<Rightarrow> 'v option) \<Rightarrow> 'k \<Rightarrow> 'v option" where
  "keep_if P m k = (case m k of None \<Rightarrow> None | Some v \<Rightarrow> if P v then Some v else None)"

definition private_endpoint :: "ip_parser \<Rightarrow> string \<Rightarrow> u16 \<Rightarrow> host_port option" where
  "private_endpoint pa raw cport = (case pa raw of
     None \<Rightarrow> None
   | Some ip \<Rightarrow> if is4 ip \<and> is_private4 ip \<and> cport \<noteq> 0 then Some (ip, cport) else None)"

definition spec_claim :: "ip_parser \<Rightarrow> string \<Rightarrow> string \<Rightarrow> u16 \<Rightarrow> string \<Rightarrow> u16 \<Rightarrow> ingress_spec \<Rightarrow> ingress_answer \<times> ingress_spec" where
  "spec_claim pa c app port raw cport s =
     (if c = '''' \<or> port = 0 then (Refused NeedsOwner, s)
      else (case private_endpoint pa raw cport of
          None \<Rightarrow> (Refused NeedsEndpoint, s)
        | Some ep \<Rightarrow> (case sp_tcp s port of
            None \<Rightarrow> (Granted, s\<lparr>sp_tcp := (sp_tcp s)(port \<mapsto> \<lparr>pb_owner = c, pb_app = app, pb_target = ep, pb_token = 0\<rparr>)\<rparr>)
          | Some x \<Rightarrow>
              if pb_owner x \<noteq> c then (Refused (PublishedBy (pb_owner x)), s)
              else if pb_app x \<noteq> app then (Refused AppChange, s)
              else if pb_target x \<noteq> ep then (Refused EndpointChange, s)
              else (Granted, s))))"

definition spec_claim_udp :: "ip_parser \<Rightarrow> string \<Rightarrow> string \<Rightarrow> u16 \<Rightarrow> string \<Rightarrow> u16 \<Rightarrow> ingress_spec \<Rightarrow> ingress_answer \<times> ingress_spec" where
  "spec_claim_udp pa c app port raw cport s =
     (let granted = (\<lambda>ep. (Granted, s\<lparr>sp_udp_next := sp_udp_next s + 1, sp_udp := (sp_udp s)(port \<mapsto>
        \<lparr>pb_owner = c, pb_app = app, pb_target = ep, pb_token = sp_udp_next s + 1\<rparr>)\<rparr>)) in
      if c = '''' \<or> port = 0 then (Refused PortDenied, s)
      else (case private_endpoint pa raw cport of
          None \<Rightarrow> (Refused PortDenied, s)
        | Some ep \<Rightarrow> (case sp_udp s port of
            None \<Rightarrow> granted ep
          | Some x \<Rightarrow>
              if pb_owner x \<noteq> c then (Refused (PublishedBy (pb_owner x)), s)
              else if pb_app x \<noteq> app \<or> pb_target x \<noteq> ep then (Refused PortDenied, s)
              else granted ep)))"

definition ip4_of :: "ip_parser \<Rightarrow> string \<Rightarrow> addr option" where
  "ip4_of pa raw = (case pa raw of None \<Rightarrow> None | Some ip \<Rightarrow> if is4 ip then Some ip else None)"

definition cidr4_of :: "cidr_parser \<Rightarrow> string \<Rightarrow> prefix option" where
  "cidr4_of pp raw = (case pp raw of None \<Rightarrow> None | Some p \<Rightarrow> if is4 (pfx_addr p) then Some p else None)"

text \<open>A container has one source: an earlier one is given up.\<close>

definition spec_claim_source :: "ip_parser \<Rightarrow> cidr_parser \<Rightarrow> string \<Rightarrow> string \<Rightarrow> string \<Rightarrow> string \<Rightarrow> int \<Rightarrow> ingress_spec
    \<Rightarrow> ingress_answer \<times> ingress_spec" where
  "spec_claim_source pa pp c app raw raw_cidr ifindex s =
     (if c = '''' \<or> app = '''' \<or> ifindex \<le> 0 then (Refused PortDenied, s)
      else (case (ip4_of pa raw, cidr4_of pp raw_cidr) of
          (Some ip, Some cidr) \<Rightarrow>
            if keep_if (\<lambda>x. at_owner x \<noteq> c) (sp_source s) ip \<noteq> None then (Refused PortDenied, s)
            else (Granted, s\<lparr>sp_source_next := sp_source_next s + 1,
              sp_source := (keep_if (\<lambda>x. at_owner x \<noteq> c) (sp_source s))(ip \<mapsto>
                \<lparr>at_owner = c, at_app = app, at_cidr = masked cidr, at_ifindex = ifindex, at_token = sp_source_next s + 1\<rparr>)\<rparr>)
        | _ \<Rightarrow> (Refused PortDenied, s)))"

definition spec_release :: "string \<Rightarrow> ingress_spec \<Rightarrow> ingress_spec" where
  "spec_release c s =
     (if c = '''' then s
      else s\<lparr>sp_tcp := keep_if (\<lambda>x. pb_owner x \<noteq> c) (sp_tcp s), sp_udp := keep_if (\<lambda>x. pb_owner x \<noteq> c) (sp_udp s),
        sp_source := keep_if (\<lambda>x. at_owner x \<noteq> c) (sp_source s)\<rparr>)"

definition spec_dial :: "u16 \<Rightarrow> dial_result \<Rightarrow> ingress_spec \<Rightarrow> ingress_answer \<times> ingress_spec" where
  "spec_dial port outcome s = (case sp_tcp s port of
     None \<Rightarrow> (Refused PortDenied, s)
   | Some x \<Rightarrow> (case outcome of
       DialError \<Rightarrow> (Refused DialFailed, s)
     | DialNil \<Rightarrow> (Refused NoConnection, s)
     | Dialed \<Rightarrow> (Conn (sp_dials s), s\<lparr>sp_live := (sp_live s)(sp_dials s \<mapsto> pb_owner x), sp_dials := sp_dials s + 1\<rparr>)))"

text \<open>The source, and the UDP publication, a token stands for.\<close>

definition spec_source :: "addr \<Rightarrow> addr \<Rightarrow> int \<Rightarrow> ingress_spec \<Rightarrow> attribution option" where
  "spec_source ip dst ifindex s = keep_if (\<lambda>x. at_ifindex x = ifindex \<and> pfx_contains (at_cidr x) dst) (sp_source s) ip"

definition spec_udp :: "u16 \<Rightarrow> u64 \<Rightarrow> ingress_spec \<Rightarrow> publication option" where
  "spec_udp port token s = keep_if (\<lambda>x. pb_token x = token \<and> token \<noteq> 0) (sp_udp s) port"

definition spec_source_is :: "addr \<Rightarrow> addr \<Rightarrow> int \<Rightarrow> u64 \<Rightarrow> ingress_spec \<Rightarrow> bool" where
  "spec_source_is ip dst ifindex token s \<longleftrightarrow>
     token \<noteq> 0 \<and> (case spec_source ip dst ifindex s of None \<Rightarrow> False | Some x \<Rightarrow> at_token x = token)"

definition published_by :: "string \<Rightarrow> publication option \<Rightarrow> bool" where
  "published_by c x \<longleftrightarrow> (case x of None \<Rightarrow> False | Some x \<Rightarrow> pb_owner x = c)"

definition published_at :: "string \<Rightarrow> attribution option \<Rightarrow> bool" where
  "published_at c x \<longleftrightarrow> (case x of None \<Rightarrow> False | Some x \<Rightarrow> at_owner x = c)"

definition of_app :: "string \<Rightarrow> publication option \<Rightarrow> bool" where
  "of_app app x \<longleftrightarrow> app \<noteq> '''' \<and> (case x of None \<Rightarrow> False | Some x \<Rightarrow> pb_app x = app)"

definition available :: "string \<Rightarrow> publication option \<Rightarrow> ingress_answer" where
  "available c x = (case x of
     None \<Rightarrow> Granted | Some x \<Rightarrow> if pb_owner x \<noteq> c then Refused (PublishedBy (pb_owner x)) else Granted)"

fun spec_query :: "ingress_call \<Rightarrow> ingress_spec \<Rightarrow> ingress_answer" where
  "spec_query (CheckAvailable c port) s = (if c = '''' \<or> port = 0 then Refused NeedsOwner else available c (sp_tcp s port))"
| "spec_query (CheckUDPAvailable c port) s = (if c = '''' \<or> port = 0 then Refused PortDenied else available c (sp_udp s port))"
| "spec_query (Allowed port) s = Verdict (sp_tcp s port \<noteq> None)"
| "spec_query (AllowedApp app port) s = Verdict (of_app app (sp_tcp s port))"
| "spec_query (OwnedBy c port) s = Verdict (published_by c (sp_tcp s port))"
| "spec_query (AllowedUDP port) s = Verdict (sp_udp s port \<noteq> None)"
| "spec_query (AllowedUDPApp app port) s = Verdict (of_app app (sp_udp s port))"
| "spec_query (OwnedUDPBy c port) s = Verdict (published_by c (sp_udp s port))"
| "spec_query (UDPToken port) s = Token (case sp_udp s port of None \<Rightarrow> 0 | Some x \<Rightarrow> pb_token x)"
| "spec_query (SendUDP port) s = Verdict (sp_udp s port \<noteq> None)"
| "spec_query (SendUDPToken port token) s = Target (map_option pb_target (spec_udp port token s))"
| "spec_query (SendLocalUDP ip dst ifindex stoken port token) s =
     Target (if spec_source_is ip dst ifindex stoken s then map_option pb_target (spec_udp port token s) else None)"
| "spec_query (UDPDone port token) s = Verdict (spec_udp port token s = None)"
| "spec_query (SourceToken ip dst ifindex) s =
     Token (case spec_source ip dst ifindex s of None \<Rightarrow> 0 | Some x \<Rightarrow> at_token x)"
| "spec_query (SourceAllowed ip dst ifindex) s =
     Verdict (case spec_source ip dst ifindex s of None \<Rightarrow> False | Some x \<Rightarrow> at_token x \<noteq> 0)"
| "spec_query (SendSource ip dst ifindex token) s = Verdict (spec_source_is ip dst ifindex token s)"
| "spec_query (SourceDone ip dst ifindex token) s = Verdict (\<not> spec_source_is ip dst ifindex token s)"
| "spec_query (SourceIP c) s = Addresses {ip. published_at c (sp_source s ip)}"
| "spec_query _ s = Granted"

fun spec_exec :: "ip_parser \<Rightarrow> cidr_parser \<Rightarrow> ingress_call \<Rightarrow> ingress_spec \<Rightarrow> ingress_answer \<times> ingress_spec" where
  "spec_exec pa pp (Claim c port raw cport) s = spec_claim pa c '''' port raw cport s"
| "spec_exec pa pp (ClaimForApp c app port raw cport) s = spec_claim pa c app port raw cport s"
| "spec_exec pa pp (ClaimUDP c app port raw cport) s = spec_claim_udp pa c app port raw cport s"
| "spec_exec pa pp (ClaimSource c app raw cidr ifindex) s = spec_claim_source pa pp c app raw cidr ifindex s"
| "spec_exec pa pp (Release c) s = (Granted, spec_release c s)"
| "spec_exec pa pp (Dial port outcome) s = spec_dial port outcome s"
| "spec_exec pa pp (CloseConn n) s = (Granted, s\<lparr>sp_live := (sp_live s)(n := None)\<rparr>)"
| "spec_exec pa pp call s = (spec_query call s, s)"

subsection \<open>The abstraction\<close>

definition abs_registry :: "registry \<Rightarrow> ingress_spec" where
  "abs_registry r = \<lparr>
     sp_tcp = (\<lambda>p. map_option (\<lambda>c. \<lparr>pb_owner = c, pb_app = str_at (rg_app_by_port r) p,
       pb_target = target_at (rg_targets r) p, pb_token = 0\<rparr>) (map_of (rg_by_port r) p)),
     sp_udp = (\<lambda>p. map_option (\<lambda>c. \<lparr>pb_owner = c, pb_app = str_at (rg_udp_app r) p,
       pb_target = target_at (rg_udp_targets r) p, pb_token = num_at (rg_udp_token r) p\<rparr>) (map_of (rg_udp_by_port r) p)),
     sp_source = (\<lambda>ip. map_option (\<lambda>x. \<lparr>at_owner = sc_owner x, at_app = sc_app x, at_cidr = sc_cidr x,
       at_ifindex = sc_ifindex x, at_token = sc_token x\<rparr>) (map_of (rg_sources r) ip)),
     sp_udp_next = rg_udp_next r,
     sp_source_next = rg_source_next r,
     sp_live = (\<lambda>n. if n < length (rg_conns r) \<and> \<not> cn_closed (rg_conns r ! n) then Some (cn_owner (rg_conns r ! n)) else None),
     sp_dials = length (rg_conns r)\<rparr>"

end
