(* ===== verification/Ingress_Inv.thy ===== *)
theory Ingress_Inv
  imports Ingress_Spec
begin

section \<open>Published ports: the registry's invariant\<close>

text \<open>
  The parallel maps have the same keys, the indexes by owner are exact, and every claim with a channel has one of its own,
  which is open.
\<close>

definition index_ok :: "(u16, string) gomap \<Rightarrow> (string, (u16, unit) gomap) gomap \<Rightarrow> bool" where
  "index_ok owners index \<longleftrightarrow>
     (\<forall>p c. map_of owners p = Some c \<longrightarrow> c \<noteq> '''' \<and> p \<noteq> 0)
     \<and> (\<forall>c p. map_of (set_at index c) p = Some () \<longleftrightarrow> map_of owners p = Some c)"

definition tcp_ok :: "registry \<Rightarrow> bool" where
  "tcp_ok r \<longleftrightarrow> index_ok (rg_by_port r) (rg_by_owner r)
     \<and> (\<forall>p c. map_of (rg_by_port r) p = Some c \<longrightarrow> fst (target_at (rg_targets r) p) \<noteq> NoAddr)"

definition udp_claims_ok :: "registry \<Rightarrow> bool" where
  "udp_claims_ok r \<longleftrightarrow> index_ok (rg_udp_by_port r) (rg_udp_by_owner r)
     \<and> (\<forall>p c. map_of (rg_udp_by_port r) p = Some c \<longrightarrow> fst (target_at (rg_udp_targets r) p) \<noteq> NoAddr)
     \<and> (\<forall>p. map_of (rg_udp_by_port r) p = None \<longrightarrow> map_of (rg_udp_token r) p = None)"

definition sources_ok :: "registry \<Rightarrow> bool" where
  "sources_ok r \<longleftrightarrow>
     (\<forall>ip x. map_of (rg_sources r) ip = Some x \<longrightarrow>
        sc_owner x \<noteq> '''' \<and> ip \<noteq> NoAddr \<and> 0 < sc_ifindex x \<and> \<not> pfx_contains (sc_cidr x) NoAddr
        \<and> map_of (rg_source_by_owner r) (sc_owner x) = Some ip)
     \<and> (\<forall>c ip. map_of (rg_source_by_owner r) c = Some ip \<longrightarrow> (\<exists>x. map_of (rg_sources r) ip = Some x \<and> sc_owner x = c))"

definition source_chan :: "registry \<Rightarrow> addr \<Rightarrow> nat option" where
  "source_chan r ip = map_option sc_done (map_of (rg_sources r) ip)"

definition chan_ok :: "registry \<Rightarrow> bool" where
  "chan_ok r \<longleftrightarrow>
     (\<forall>p. map_of (rg_udp_done r) p = None \<longleftrightarrow> map_of (rg_udp_by_port r) p = None)
     \<and> (\<forall>p n. map_of (rg_udp_done r) p = Some n \<longrightarrow> n < rg_channels r \<and> n \<notin> set (rg_closed r))
     \<and> (\<forall>ip n. source_chan r ip = Some n \<longrightarrow> n < rg_channels r \<and> n \<notin> set (rg_closed r))
     \<and> (\<forall>p q n. map_of (rg_udp_done r) p = Some n \<longrightarrow> map_of (rg_udp_done r) q = Some n \<longrightarrow> p = q)
     \<and> (\<forall>ip jp n. source_chan r ip = Some n \<longrightarrow> source_chan r jp = Some n \<longrightarrow> ip = jp)
     \<and> (\<forall>p ip n. map_of (rg_udp_done r) p = Some n \<longrightarrow> source_chan r ip \<noteq> Some n)
     \<and> (\<forall>n \<in> set (rg_closed r). n < rg_channels r)"

definition flow_ok :: "registry \<Rightarrow> bool" where
  "flow_ok r \<longleftrightarrow> (\<forall>c n. map_of (set_at (rg_flows r) c) n = Some () \<longrightarrow>
     n < length (rg_conns r) \<and> cn_owner (rg_conns r ! n) = c \<and> \<not> cn_closed (rg_conns r ! n)
     \<and> (\<exists>p. map_of (rg_by_port r) p = Some c))"

definition registry_ok :: "registry \<Rightarrow> bool" where
  "registry_ok r \<longleftrightarrow> tcp_ok r \<and> udp_claims_ok r \<and> sources_ok r \<and> chan_ok r \<and> flow_ok r"

lemma new_registry_ok: "registry_ok new_registry"
  by (simp add: registry_ok_def tcp_ok_def udp_claims_ok_def sources_ok_def chan_ok_def flow_ok_def index_ok_def
      new_registry_def set_at_def source_chan_def)

lemma set_at_put [simp]: "set_at (m_put k v m) j = (if j = k then v else set_at m j)"
  by (simp add: set_at_def)

lemma set_at_del [simp]: "set_at (m_del k m) j = (if j = k then [] else set_at m j)"
  by (simp add: set_at_def)

lemma at_put [simp]:
  "str_at (m_put k s ms) j = (if j = k then s else str_at ms j)"
  "num_at (m_put k n mn) j = (if j = k then n else num_at mn j)"
  "target_at (m_put k t mt) j = (if j = k then t else target_at mt j)"
  by (simp_all add: str_at_def num_at_def target_at_def)

lemma at_del [simp]:
  "str_at (m_del k ms) j = (if j = k then '''' else str_at ms j)"
  "num_at (m_del k mn) j = (if j = k then 0 else num_at mn j)"
  "target_at (m_del k mt) j = (if j = k then (NoAddr, 0) else target_at mt j)"
  by (simp_all add: str_at_def num_at_def target_at_def)

lemma str_at_Some: "map_of m k = Some c \<Longrightarrow> str_at m k = c"
  by (simp add: str_at_def)

lemma str_at_None: "map_of m k = None \<Longrightarrow> str_at m k = ''''"
  by (simp add: str_at_def)

lemma index_okD:
  assumes "index_ok owners index"
  shows "map_of owners p = Some c \<Longrightarrow> c \<noteq> ''''" "map_of owners p = Some c \<Longrightarrow> p \<noteq> 0"
    "map_of (set_at index c) p = Some () \<longleftrightarrow> map_of owners p = Some c"
  using assms unfolding index_ok_def by blast+

lemma index_str_at:
  assumes "index_ok owners index"
  shows "str_at owners p = '''' \<longleftrightarrow> map_of owners p = None" "c \<noteq> '''' \<Longrightarrow> str_at owners p = c \<longleftrightarrow> map_of owners p = Some c"
    "map_of owners 0 = None" "str_at owners 0 = ''''"
proof -
  show none: "map_of owners 0 = None" using index_okD(2) [OF assms, of 0] by fastforce
  then show "str_at owners 0 = ''''" by (simp add: str_at_def)
  show "str_at owners p = '''' \<longleftrightarrow> map_of owners p = None"
    using index_okD(1) [OF assms, of p] by (cases "map_of owners p") (auto simp: str_at_def)
  show "str_at owners p = c \<longleftrightarrow> map_of owners p = Some c" if "c \<noteq> ''''"
    using that by (cases "map_of owners p") (auto simp: str_at_def)
qed

lemma index_put:
  assumes "index_ok owners index" "map_of owners p = None \<or> map_of owners p = Some c" "c \<noteq> ''''" "p \<noteq> 0"
  shows "index_ok (m_put p c owners) (m_put c (m_put p () (set_at index c)) index)"
  using assms by (auto simp: index_ok_def)

text \<open>A release visits exactly the keys of the owner.\<close>

lemma index_release:
  assumes "index_ok owners index"
    and "\<And>p. map_of owners' p = (if map_of owners p = Some c then None else map_of owners p)"
  shows "index_ok owners' (m_del c index)"
  using assms by (auto simp: index_ok_def)

lemma registry_okD:
  assumes "registry_ok r"
  shows "index_ok (rg_by_port r) (rg_by_owner r)" "index_ok (rg_udp_by_port r) (rg_udp_by_owner r)"
    "map_of (rg_by_port r) p = Some c \<Longrightarrow> fst (target_at (rg_targets r) p) \<noteq> NoAddr"
    "map_of (rg_udp_by_port r) p = Some c \<Longrightarrow> fst (target_at (rg_udp_targets r) p) \<noteq> NoAddr"
    "map_of (rg_udp_by_port r) p = None \<Longrightarrow> map_of (rg_udp_token r) p = None"
    "sources_ok r" "chan_ok r" "flow_ok r"
  using assms unfolding registry_ok_def tcp_ok_def udp_claims_ok_def by blast+

lemma source_okD:
  assumes "sources_ok r"
  shows "map_of (rg_sources r) ip = Some x \<Longrightarrow> sc_owner x \<noteq> ''''" "map_of (rg_sources r) ip = Some x \<Longrightarrow> ip \<noteq> NoAddr"
    "map_of (rg_sources r) ip = Some x \<Longrightarrow> 0 < sc_ifindex x"
    "map_of (rg_sources r) ip = Some x \<Longrightarrow> \<not> pfx_contains (sc_cidr x) NoAddr"
    "map_of (rg_sources r) ip = Some x \<Longrightarrow> map_of (rg_source_by_owner r) (sc_owner x) = Some ip"
    "map_of (rg_source_by_owner r) c = Some ip \<Longrightarrow> \<exists>x. map_of (rg_sources r) ip = Some x \<and> sc_owner x = c"
  using assms unfolding sources_ok_def by blast+

lemma chan_okD:
  assumes "chan_ok r"
  shows "map_of (rg_udp_done r) p = None \<longleftrightarrow> map_of (rg_udp_by_port r) p = None"
    "map_of (rg_udp_done r) p = Some n \<Longrightarrow> n < rg_channels r" "map_of (rg_udp_done r) p = Some n \<Longrightarrow> n \<notin> set (rg_closed r)"
    "source_chan r ip = Some n \<Longrightarrow> n < rg_channels r" "source_chan r ip = Some n \<Longrightarrow> n \<notin> set (rg_closed r)"
    "map_of (rg_udp_done r) p = Some n \<Longrightarrow> map_of (rg_udp_done r) q = Some n \<Longrightarrow> p = q"
    "source_chan r ip = Some n \<Longrightarrow> source_chan r jp = Some n \<Longrightarrow> ip = jp"
    "map_of (rg_udp_done r) p = Some n \<Longrightarrow> source_chan r ip \<noteq> Some n"
    "n \<in> set (rg_closed r) \<Longrightarrow> n < rg_channels r"
  using assms unfolding chan_ok_def by blast+

lemma flow_ok_mono:
  assumes "flow_ok r" "rg_flows r' = rg_flows r" "rg_conns r' = rg_conns r"
    and "\<And>p c. map_of (rg_by_port r) p = Some c \<Longrightarrow> map_of (rg_by_port r') p = Some c"
  shows "flow_ok r'"
  using assms unfolding flow_ok_def by metis

subsection \<open>TCP claims\<close>

lemma claim_guard:
  assumes "claim_for_app pa c app port raw cport r = (e, r')" and "index_ok (rg_by_port r) (rg_by_owner r)"
  shows "r' = r \<and> e \<noteq> None \<or>
    (\<exists>ep. e = None \<and> c \<noteq> '''' \<and> port \<noteq> 0 \<and> private_endpoint pa raw cport = Some ep
      \<and> (map_of (rg_by_port r) port = None
         \<or> map_of (rg_by_port r) port = Some c \<and> str_at (rg_app_by_port r) port = app \<and> target_at (rg_targets r) port = ep)
      \<and> r' = r\<lparr>rg_by_port := m_put port c (rg_by_port r), rg_targets := m_put port ep (rg_targets r),
           rg_app_by_port := m_put port app (rg_app_by_port r),
           rg_by_owner := m_put c (m_put port () (set_at (rg_by_owner r) c)) (rg_by_owner r)\<rparr>)"
  using assms(1) index_str_at(1) [OF assms(2), of port] index_str_at(2) [OF assms(2), of c port]
  by (auto simp: claim_for_app_def private_endpoint_def check_owner_def split: if_splits option.splits)

lemma private_endpoint_valid: "private_endpoint pa raw cport = Some ep \<Longrightarrow> fst ep \<noteq> NoAddr"
  by (auto simp: private_endpoint_def split: option.splits if_splits)

lemma claim_keeps:
  assumes ok: "registry_ok r" and cl: "claim_for_app pa c app port raw cport r = (e, r')"
  shows "registry_ok r'"
proof -
  note D = registry_okD [OF ok]
  from claim_guard [OF cl D(1)] consider "r' = r"
    | ep where "c \<noteq> []" "port \<noteq> 0" "private_endpoint pa raw cport = Some ep"
      "map_of (rg_by_port r) port = None \<or> map_of (rg_by_port r) port = Some c"
      "r' = r\<lparr>rg_by_port := m_put port c (rg_by_port r), rg_targets := m_put port ep (rg_targets r),
         rg_app_by_port := m_put port app (rg_app_by_port r),
         rg_by_owner := m_put c (m_put port () (set_at (rg_by_owner r) c)) (rg_by_owner r)\<rparr>"
    by blast
  then show ?thesis
  proof cases
    case (2 ep)
    have "tcp_ok r'" using 2 D(3) index_put [OF D(1), of port c] private_endpoint_valid [of pa raw cport ep]
      by (auto simp: tcp_ok_def)
    moreover have "flow_ok r'" using 2(4) by (intro flow_ok_mono [OF D(8)]) (auto simp: 2(5))
    ultimately show ?thesis using ok by (simp add: 2(5) registry_ok_def udp_claims_ok_def sources_ok_def chan_ok_def source_chan_def)
  qed (use ok in simp)
qed

lemma abs_claim:
  "abs_registry (r\<lparr>rg_by_port := m_put port c (rg_by_port r), rg_targets := m_put port ep (rg_targets r),
     rg_app_by_port := m_put port app (rg_app_by_port r), rg_by_owner := x\<rparr>)
   = (abs_registry r)\<lparr>sp_tcp := (sp_tcp (abs_registry r))(port \<mapsto>
       \<lparr>pb_owner = c, pb_app = app, pb_target = ep, pb_token = 0\<rparr>)\<rparr>"
  by (simp add: abs_registry_def fun_eq_iff)

lemma abs_tcp: "sp_tcp (abs_registry r) p = map_option (\<lambda>c. \<lparr>pb_owner = c, pb_app = str_at (rg_app_by_port r) p,
    pb_target = target_at (rg_targets r) p, pb_token = 0\<rparr>) (map_of (rg_by_port r) p)"
  by (simp add: abs_registry_def)

lemma abs_udp: "sp_udp (abs_registry r) p = map_option (\<lambda>c. \<lparr>pb_owner = c, pb_app = str_at (rg_udp_app r) p,
    pb_target = target_at (rg_udp_targets r) p, pb_token = num_at (rg_udp_token r) p\<rparr>) (map_of (rg_udp_by_port r) p)"
  by (simp add: abs_registry_def)

lemma abs_source: "sp_source (abs_registry r) ip = map_option (\<lambda>x. \<lparr>at_owner = sc_owner x, at_app = sc_app x,
    at_cidr = sc_cidr x, at_ifindex = sc_ifindex x, at_token = sc_token x\<rparr>) (map_of (rg_sources r) ip)"
  by (simp add: abs_registry_def)

lemma private_endpoint_cases:
  obtains "private_endpoint pa raw cport = None"
    "pa raw = None \<or> (\<exists>ip. pa raw = Some ip \<and> (\<not> is4 ip \<or> \<not> is_private4 ip \<or> cport = 0))"
  | ip where "private_endpoint pa raw cport = Some (ip, cport)" "pa raw = Some ip" "is4 ip" "is_private4 ip" "cport \<noteq> 0"
proof (cases "pa raw")
  case (Some ip)
  then show thesis using that by (cases "is4 ip \<and> is_private4 ip \<and> cport \<noteq> 0") (auto simp: private_endpoint_def)
qed (simp add: that(1) private_endpoint_def)

lemma claim_refines:
  assumes ok: "registry_ok r" and cl: "claim_for_app pa c app port raw cport r = (e, r')"
  shows "spec_claim pa c app port raw cport (abs_registry r) = (result e, abs_registry r')"
proof (cases "c = '''' \<or> port = 0")
  case True
  then show ?thesis using cl by (auto simp: claim_for_app_def spec_claim_def result_def)
next
  case False
  note I = registry_okD(1) [OF ok]
  show ?thesis
  proof (cases rule: private_endpoint_cases [of pa raw cport])
    case 1
    then show ?thesis using False cl by (auto simp: claim_for_app_def spec_claim_def result_def)
  next
    case (2 ip)
    show ?thesis
    proof (cases "map_of (rg_by_port r) port")
      case None
      then have "str_at (rg_by_port r) port = ''''" by (simp add: str_at_def)
      then show ?thesis using False cl 2 None
        by (auto simp: claim_for_app_def spec_claim_def result_def check_owner_def abs_tcp abs_claim)
    next
      case (Some d)
      then have d: "str_at (rg_by_port r) port = d" "d \<noteq> ''''" using index_okD(1) [OF I Some] by (simp_all add: str_at_def)
      have "(sp_tcp (abs_registry r))(port \<mapsto> \<lparr>pb_owner = d, pb_app = str_at (rg_app_by_port r) port,
          pb_target = target_at (rg_targets r) port, pb_token = 0\<rparr>) = sp_tcp (abs_registry r)"
        using Some by (auto simp: fun_eq_iff abs_tcp)
      then show ?thesis using False cl 2 Some d
        by (auto simp: claim_for_app_def spec_claim_def result_def check_owner_def abs_tcp abs_claim split: if_splits)
    qed
  qed
qed

end
