(* ===== verification/Ingress_Udp.thy ===== *)
theory Ingress_Udp
  imports Ingress_Inv
begin

section \<open>Published ports: UDP claims\<close>

definition closing :: "nat option \<Rightarrow> registry \<Rightarrow> registry" where
  "closing ch r = (case ch of None \<Rightarrow> r | Some n \<Rightarrow> r\<lparr>rg_closed := n # rg_closed r\<rparr>)"

definition udp_granted :: "string \<Rightarrow> string \<Rightarrow> u16 \<Rightarrow> host_port \<Rightarrow> registry \<Rightarrow> registry" where
  "udp_granted c app port ep r = r\<lparr>rg_udp_by_port := m_put port c (rg_udp_by_port r), rg_udp_app := m_put port app (rg_udp_app r),
     rg_udp_targets := m_put port ep (rg_udp_targets r),
     rg_udp_done := m_put port (rg_channels r) (rg_udp_done r), rg_channels := rg_channels r + 1,
     rg_udp_next := rg_udp_next r + 1, rg_udp_token := m_put port (rg_udp_next r + 1) (rg_udp_token r),
     rg_udp_by_owner := m_put c (m_put port () (set_at (rg_udp_by_owner r) c)) (rg_udp_by_owner r)\<rparr>"

lemma chan_ok_udp:
  assumes ok: "chan_ok r"
  shows "chan_ok (udp_granted c app port ep (closing (map_of (rg_udp_done r) port) r))"
proof -
  note D = chan_okD [OF ok]
  let ?r = "udp_granted c app port ep (closing (map_of (rg_udp_done r) port) r)"
  have F: "rg_udp_done ?r = m_put port (rg_channels r) (rg_udp_done r)" "rg_channels ?r = rg_channels r + 1"
    "source_chan ?r = source_chan r" "rg_udp_by_port ?r = m_put port c (rg_udp_by_port r)"
    "set (rg_closed ?r) = set (rg_closed r) \<union> {n. map_of (rg_udp_done r) port = Some n}"
    by (auto simp: udp_granted_def closing_def source_chan_def fun_eq_iff split: option.splits)
  have new: "map_of (rg_udp_done r) p \<noteq> Some (rg_channels r)" "source_chan r ip \<noteq> Some (rg_channels r)"
    "rg_channels r \<notin> set (rg_closed r)" for p ip
    using D(2,4,9) by blast+
  show ?thesis unfolding chan_ok_def F
  proof (intro conjI allI impI ballI)
    fix p n
    assume "map_of (m_put port (rg_channels r) (rg_udp_done r)) p = Some n"
    then show "n < rg_channels r + 1" using D(2) [of p n] by (auto split: if_splits)
  next
    fix p n
    assume "map_of (m_put port (rg_channels r) (rg_udp_done r)) p = Some n"
    then show "n \<notin> set (rg_closed r) \<union> {n. map_of (rg_udp_done r) port = Some n}"
      using D(3) [of p n] D(6) [of p n port] new by (auto split: if_splits)
  next
    fix ip n
    assume "source_chan r ip = Some n"
    then show "n < rg_channels r + 1" "n \<notin> set (rg_closed r) \<union> {n. map_of (rg_udp_done r) port = Some n}"
      using D(4,5) [of ip n] D(8) [of port n ip] by auto
  next
    fix p q n
    assume "map_of (m_put port (rg_channels r) (rg_udp_done r)) p = Some n"
      "map_of (m_put port (rg_channels r) (rg_udp_done r)) q = Some n"
    then show "p = q" using D(6) [of p n q] new by (auto split: if_splits)
  next
    fix ip jp n
    assume "source_chan r ip = Some n" "source_chan r jp = Some n"
    then show "ip = jp" by (rule D(7))
  next
    fix p ip n
    assume "map_of (m_put port (rg_channels r) (rg_udp_done r)) p = Some n"
    then show "source_chan r ip \<noteq> Some n" using D(8) [of p n ip] new by (auto split: if_splits)
  next
    fix n
    assume "n \<in> set (rg_closed r) \<union> {n. map_of (rg_udp_done r) port = Some n}"
    then show "n < rg_channels r + 1" using D(9) [of n] D(2) [of port n] by auto
  qed (use D(1) in \<open>auto split: if_splits\<close>)
qed

lemma udp_granted_ok:
  assumes ok: "registry_ok r" and c: "c \<noteq> ''''" "port \<noteq> 0" "fst ep \<noteq> NoAddr"
    and own: "map_of (rg_udp_by_port r) port = None \<or> map_of (rg_udp_by_port r) port = Some c"
  shows "registry_ok (udp_granted c app port ep (closing (map_of (rg_udp_done r) port) r))"
proof -
  let ?r = "udp_granted c app port ep (closing (map_of (rg_udp_done r) port) r)"
  note D = registry_okD [OF ok]
  have F: "rg_udp_by_port ?r = m_put port c (rg_udp_by_port r)" "rg_udp_targets ?r = m_put port ep (rg_udp_targets r)"
    "rg_udp_by_owner ?r = m_put c (m_put port () (set_at (rg_udp_by_owner r) c)) (rg_udp_by_owner r)"
    "rg_udp_token ?r = m_put port (rg_udp_next r + 1) (rg_udp_token r)"
    by (simp_all add: udp_granted_def closing_def split: option.split)
  have G: "rg_by_port ?r = rg_by_port r" "rg_by_owner ?r = rg_by_owner r" "rg_targets ?r = rg_targets r"
    "rg_flows ?r = rg_flows r" "rg_conns ?r = rg_conns r" "rg_sources ?r = rg_sources r"
    "rg_source_by_owner ?r = rg_source_by_owner r"
    by (simp_all add: udp_granted_def closing_def split: option.split)
  have "udp_claims_ok ?r" using D(4,5) c(3) index_put [OF D(2) own c(1,2)] by (auto simp: udp_claims_ok_def F)
  moreover have "flow_ok ?r" by (rule flow_ok_mono [OF D(8)]) (simp_all add: G)
  ultimately show ?thesis using ok chan_ok_udp [OF D(7)] by (simp add: registry_ok_def tcp_ok_def sources_ok_def G)
qed

lemma abs_udp_granted:
  "abs_registry (udp_granted c app port ep (closing ch r))
   = (abs_registry r)\<lparr>sp_udp_next := rg_udp_next r + 1, sp_udp := (sp_udp (abs_registry r))(port \<mapsto>
       \<lparr>pb_owner = c, pb_app = app, pb_target = ep, pb_token = rg_udp_next r + 1\<rparr>)\<rparr>"
  by (simp add: abs_registry_def udp_granted_def closing_def fun_eq_iff split: option.split)

lemma close_done:
  assumes "chan_ok r"
  shows "(if map_of (rg_udp_done r) port = None then Some r else close_chan (map_of (rg_udp_done r) port) r)
    = Some (closing (map_of (rg_udp_done r) port) r)"
  using chan_okD(3) [OF assms, of port] by (auto simp: closing_def close_chan_def split: option.split)

lemma claim_udp_refines:
  assumes ok: "registry_ok r"
  shows "\<exists>e r'. claim_udp pa c app port raw cport r = Some (e, r') \<and> registry_ok r'
    \<and> spec_claim_udp pa c app port raw cport (abs_registry r) = (result e, abs_registry r')"
proof (cases "c = '''' \<or> port = 0")
  case True
  then show ?thesis using ok by (simp add: claim_udp_def spec_claim_udp_def result_def)
next
  case False
  note D = registry_okD [OF ok]
  show ?thesis
  proof (cases rule: private_endpoint_cases [of pa raw cport])
    case 1
    then show ?thesis using False ok by (auto simp: claim_udp_def spec_claim_udp_def result_def)
  next
    case (2 ip)
    let ?r = "udp_granted c app port (ip, cport) (closing (map_of (rg_udp_done r) port) r)"
    have nxt: "sp_udp_next (abs_registry r) = rg_udp_next r" by (simp add: abs_registry_def)
    have "ip \<noteq> NoAddr" using 2 by auto
    then have good: "map_of (rg_udp_by_port r) port = None \<or> map_of (rg_udp_by_port r) port = Some c \<Longrightarrow> registry_ok ?r"
      using udp_granted_ok [OF ok] False by simp
    note close = close_done [OF D(7), of port]
    show ?thesis
    proof (cases "map_of (rg_udp_by_port r) port")
      case None
      then have "str_at (rg_udp_by_port r) port = ''''" by (simp add: str_at_def)
      then have "claim_udp pa c app port raw cport r = Some (None, ?r)"
        using False 2 unfolding claim_udp_def close by (simp add: check_owner_def udp_granted_def)
      then show ?thesis using False 2 None good
        by (simp add: spec_claim_udp_def result_def abs_udp abs_udp_granted nxt)
    next
      case (Some d)
      then have d: "str_at (rg_udp_by_port r) port = d" "d \<noteq> ''''" using index_okD(1) [OF D(2) Some] by (simp_all add: str_at_def)
      show ?thesis
      proof (cases "d = c \<and> str_at (rg_udp_app r) port = app \<and> target_at (rg_udp_targets r) port = (ip, cport)")
        case True
        then have "claim_udp pa c app port raw cport r = Some (None, ?r)"
          using False 2 d unfolding claim_udp_def close by (simp add: check_owner_def udp_granted_def)
        then show ?thesis using False 2 Some good True
          by (simp add: spec_claim_udp_def result_def abs_udp abs_udp_granted nxt)
      next
        case no: False
        then have "\<exists>err. claim_udp pa c app port raw cport r = Some (Some err, r)
            \<and> spec_claim_udp pa c app port raw cport (abs_registry r) = (Refused err, abs_registry r)"
          using False 2 d Some by (auto simp: claim_udp_def check_owner_def spec_claim_udp_def abs_udp)
        then show ?thesis using ok by (fastforce simp: result_def)
      qed
    qed
  qed
qed

end
