(* ===== verification/Ingress_Source.thy ===== *)
theory Ingress_Source
  imports Ingress_Udp
begin

section \<open>Published ports: sources\<close>

definition source_gone :: "string \<Rightarrow> registry \<Rightarrow> registry" where
  "source_gone c r = (case map_of (rg_source_by_owner r) c of
     None \<Rightarrow> r
   | Some ip \<Rightarrow> (closing (source_chan r ip) r)\<lparr>rg_sources := m_del ip (rg_sources r)\<rparr>)"

lemma source_gone_fields [simp]:
  "rg_by_port (source_gone c r) = rg_by_port r" "rg_by_owner (source_gone c r) = rg_by_owner r"
  "rg_targets (source_gone c r) = rg_targets r" "rg_flows (source_gone c r) = rg_flows r"
  "rg_app_by_port (source_gone c r) = rg_app_by_port r"
  "rg_conns (source_gone c r) = rg_conns r" "rg_udp_by_port (source_gone c r) = rg_udp_by_port r"
  "rg_udp_by_owner (source_gone c r) = rg_udp_by_owner r" "rg_udp_targets (source_gone c r) = rg_udp_targets r"
  "rg_udp_token (source_gone c r) = rg_udp_token r" "rg_udp_done (source_gone c r) = rg_udp_done r"
  "rg_udp_app (source_gone c r) = rg_udp_app r"
  "rg_channels (source_gone c r) = rg_channels r" "rg_source_by_owner (source_gone c r) = rg_source_by_owner r"
  "rg_source_next (source_gone c r) = rg_source_next r" "rg_udp_next (source_gone c r) = rg_udp_next r"
  by (simp_all add: source_gone_def closing_def split: option.split)

text \<open>Exactly the container's source goes, and its channel is closed.\<close>

lemma source_gone_map:
  assumes "sources_ok r"
  shows "map_of (rg_sources (source_gone c r)) ip =
    (case map_of (rg_sources r) ip of None \<Rightarrow> None | Some x \<Rightarrow> if sc_owner x = c then None else Some x)"
proof (cases "map_of (rg_source_by_owner r) c")
  case None
  then show ?thesis using source_okD(5) [OF assms, of ip] by (auto simp: source_gone_def split: option.split)
next
  case (Some old)
  then obtain x where x: "map_of (rg_sources r) old = Some x" "sc_owner x = c" using source_okD(6) [OF assms] by blast
  then show ?thesis using source_okD(5) [OF assms, of ip] Some by (auto simp: source_gone_def split: option.split)
qed

lemma source_gone_chan:
  assumes "sources_ok r"
  shows "source_chan (source_gone c r) ip =
    (case map_of (rg_sources r) ip of None \<Rightarrow> None | Some x \<Rightarrow> if sc_owner x = c then None else Some (sc_done x))"
  using source_gone_map [OF assms, of c ip] by (simp add: source_chan_def split: option.split)

lemma source_gone_closed:
  assumes "sources_ok r"
  shows "set (rg_closed (source_gone c r)) = set (rg_closed r)
    \<union> {n. \<exists>ip x. map_of (rg_sources r) ip = Some x \<and> sc_owner x = c \<and> sc_done x = n}"
proof (cases "map_of (rg_source_by_owner r) c")
  case None
  then show ?thesis using source_okD(5) [OF assms] by (fastforce simp: source_gone_def)
next
  case (Some old)
  then obtain x where x: "map_of (rg_sources r) old = Some x" "sc_owner x = c" using source_okD(6) [OF assms] by blast
  have "ip = old" if "map_of (rg_sources r) ip = Some y" "sc_owner y = c" for ip y
    using source_okD(5) [OF assms that(1)] that(2) Some by simp
  then have "{n. \<exists>ip x. map_of (rg_sources r) ip = Some x \<and> sc_owner x = c \<and> sc_done x = n} = {sc_done x}"
    using x by fastforce
  then show ?thesis using Some x(1) by (simp add: source_gone_def closing_def source_chan_def)
qed

lemma chan_ok_source_gone:
  assumes ok: "chan_ok r" and s: "sources_ok r"
  shows "chan_ok (source_gone c r)"
proof -
  note D = chan_okD [OF ok]
  have old: "source_chan r ip = Some n" if "source_chan (source_gone c r) ip = Some n" for ip n
    using that source_gone_chan [OF s, of c ip] by (auto simp: source_chan_def split: option.splits if_splits)
  have gone: "\<exists>ip. source_chan r ip = Some n \<and> source_chan (source_gone c r) ip = None"
    if "map_of (rg_sources r) ip = Some x" "sc_owner x = c" "sc_done x = n" for ip x n
    using that source_gone_chan [OF s, of c ip] by (auto simp: source_chan_def)
  show ?thesis unfolding chan_ok_def source_gone_fields source_gone_closed [OF s]
  proof (intro conjI allI impI ballI)
    fix p n
    assume n: "map_of (rg_udp_done r) p = Some n"
    then show "n < rg_channels r" by (rule D(2))
    show "n \<notin> set (rg_closed r) \<union> {n. \<exists>ip x. map_of (rg_sources r) ip = Some x \<and> sc_owner x = c \<and> sc_done x = n}"
      using D(3,8) [OF n] gone by blast
  next
    fix ip n
    assume n: "source_chan (source_gone c r) ip = Some n"
    then show "n < rg_channels r" using D(4) old by blast
    show "n \<notin> set (rg_closed r) \<union> {n. \<exists>ip x. map_of (rg_sources r) ip = Some x \<and> sc_owner x = c \<and> sc_done x = n}"
      using D(5,7) [OF old [OF n]] gone n by fastforce
  next
    fix n
    assume "n \<in> set (rg_closed r) \<union> {n. \<exists>ip x. map_of (rg_sources r) ip = Some x \<and> sc_owner x = c \<and> sc_done x = n}"
    then show "n < rg_channels r" using D(4,9) gone by blast
  qed (use D(1,6,7,8) old in blast)+
qed

lemma drop_source:
  assumes ok: "registry_ok r"
  shows "(case map_of (rg_source_by_owner r) c of
      None \<Rightarrow> Some r
    | Some old \<Rightarrow> (case map_of (rg_sources r) old of
        None \<Rightarrow> Some r
      | Some x \<Rightarrow> if sc_owner x = c
          then map_option (\<lambda>r. r\<lparr>rg_sources := m_del old (rg_sources r)\<rparr>) (close_chan (Some (sc_done x)) r)
          else Some r)) = Some (source_gone c r)"
proof (cases "map_of (rg_source_by_owner r) c")
  case (Some old)
  note D = registry_okD [OF ok]
  obtain x where x: "map_of (rg_sources r) old = Some x" "sc_owner x = c" using source_okD(6) [OF D(6) Some] by blast
  then have "source_chan r old = Some (sc_done x)" by (simp add: source_chan_def)
  then show ?thesis using Some x chan_okD(5) [OF D(7)] by (auto simp: source_gone_def closing_def close_chan_def)
qed (simp add: source_gone_def)

lemma abs_source_gone:
  assumes "sources_ok r"
  shows "abs_registry (source_gone c r)
    = (abs_registry r)\<lparr>sp_source := keep_if (\<lambda>x. at_owner x \<noteq> c) (sp_source (abs_registry r))\<rparr>"
  by (simp add: abs_registry_def fun_eq_iff keep_if_def source_gone_map [OF assms] split: option.split)

subsection \<open>A granted source\<close>

definition source_granted :: "string \<Rightarrow> string \<Rightarrow> addr \<Rightarrow> prefix \<Rightarrow> int \<Rightarrow> registry \<Rightarrow> registry" where
  "source_granted c app ip cidr ifindex r = r\<lparr>rg_source_next := rg_source_next r + 1, rg_channels := rg_channels r + 1,
     rg_sources := m_put ip \<lparr>sc_owner = c, sc_app = app, sc_cidr = cidr, sc_ifindex = ifindex,
       sc_token = rg_source_next r + 1, sc_done = rg_channels r\<rparr> (rg_sources r),
     rg_source_by_owner := m_put c ip (rg_source_by_owner r)\<rparr>"

lemma chan_ok_source_granted:
  assumes ok: "chan_ok r"
  shows "chan_ok (source_granted c app ip cidr ifindex r)"
proof -
  note D = chan_okD [OF ok]
  have F: "rg_udp_done (source_granted c app ip cidr ifindex r) = rg_udp_done r"
    "rg_udp_by_port (source_granted c app ip cidr ifindex r) = rg_udp_by_port r"
    "rg_channels (source_granted c app ip cidr ifindex r) = rg_channels r + 1"
    "rg_closed (source_granted c app ip cidr ifindex r) = rg_closed r"
    "source_chan (source_granted c app ip cidr ifindex r) = (source_chan r)(ip := Some (rg_channels r))"
    by (simp_all add: source_granted_def source_chan_def fun_eq_iff)
  have new: "map_of (rg_udp_done r) p \<noteq> Some (rg_channels r)" "source_chan r jp \<noteq> Some (rg_channels r)"
    "rg_channels r \<notin> set (rg_closed r)" for p jp
    using D(2,4,9) by blast+
  show ?thesis unfolding chan_ok_def F
  proof (intro conjI allI impI ballI)
    fix p n
    assume "map_of (rg_udp_done r) p = Some n"
    then show "n < rg_channels r + 1" using D(2) by fastforce
  next
    fix jp n
    assume "((source_chan r)(ip := Some (rg_channels r))) jp = Some n"
    then show "n < rg_channels r + 1" using D(4) [of jp n] by (auto split: if_splits)
  next
    fix jp n
    assume "((source_chan r)(ip := Some (rg_channels r))) jp = Some n"
    then show "n \<notin> set (rg_closed r)" using D(5) [of jp n] new by (auto split: if_splits)
  next
    fix jp kp n
    assume "((source_chan r)(ip := Some (rg_channels r))) jp = Some n" "((source_chan r)(ip := Some (rg_channels r))) kp = Some n"
    then show "jp = kp" using D(7) [of jp n kp] new by (auto split: if_splits)
  next
    fix p jp n
    assume "map_of (rg_udp_done r) p = Some n"
    then show "((source_chan r)(ip := Some (rg_channels r))) jp \<noteq> Some n" using D(8) [of p n jp] new by auto
  next
    fix n
    assume "n \<in> set (rg_closed r)"
    then show "n < rg_channels r + 1" using D(9) by fastforce
  qed (use D(1,3,6) in blast)+
qed

lemma masked_NoAddr: "is4 (pfx_addr p) \<Longrightarrow> \<not> pfx_contains (masked p) NoAddr"
  by (cases p; cases "pfx_addr p") (auto simp: pfx_contains_def masked_def)

text \<open>An address free or the container's own passes to the container, and no one else's entry moves.\<close>

lemma source_grant_ok:
  assumes ok: "sources_ok r" and c: "c \<noteq> ''''" "ip \<noteq> NoAddr" "0 < ifindex" "\<not> pfx_contains cidr NoAddr"
    and free: "\<And>x. map_of (rg_sources r) ip = Some x \<Longrightarrow> sc_owner x = c"
  shows "sources_ok (source_granted c app ip cidr ifindex (source_gone c r))"
proof -
  note D = source_okD [OF ok]
  have F: "map_of (rg_sources (source_granted c app ip cidr ifindex (source_gone c r))) jp = (if jp = ip
      then Some \<lparr>sc_owner = c, sc_app = app, sc_cidr = cidr, sc_ifindex = ifindex, sc_token = rg_source_next r + 1, sc_done = rg_channels r\<rparr>
      else case map_of (rg_sources r) jp of None \<Rightarrow> None | Some x \<Rightarrow> if sc_owner x = c then None else Some x)" for jp
    using source_gone_map [OF ok, of c jp] by (simp add: source_granted_def)
  have G: "map_of (rg_source_by_owner (source_granted c app ip cidr ifindex (source_gone c r))) d
      = (if d = c then Some ip else map_of (rg_source_by_owner r) d)" for d
    by (simp add: source_granted_def)
  show ?thesis unfolding sources_ok_def F G
  proof (intro conjI allI impI)
    fix d jp
    assume d: "(if d = c then Some ip else map_of (rg_source_by_owner r) d) = Some jp"
    show "\<exists>x. (if jp = ip
      then Some \<lparr>sc_owner = c, sc_app = app, sc_cidr = cidr, sc_ifindex = ifindex, sc_token = rg_source_next r + 1, sc_done = rg_channels r\<rparr>
      else case map_of (rg_sources r) jp of None \<Rightarrow> None | Some x \<Rightarrow> if sc_owner x = c then None else Some x) = Some x \<and> sc_owner x = d"
      using d D(6) [of d jp] free by (auto split: if_splits)
  qed (use c D(1-5) in \<open>auto split: if_splits option.splits\<close>)
qed

lemma abs_source_granted:
  "abs_registry (source_granted c app ip cidr ifindex r)
   = (abs_registry r)\<lparr>sp_source_next := rg_source_next r + 1, sp_source := (sp_source (abs_registry r))(ip \<mapsto>
       \<lparr>at_owner = c, at_app = app, at_cidr = cidr, at_ifindex = ifindex, at_token = rg_source_next r + 1\<rparr>)\<rparr>"
  by (simp add: abs_registry_def source_granted_def fun_eq_iff)

lemma tables_ok_source:
  assumes ok: "registry_ok r" and s: "sources_ok r'" and ch: "chan_ok r'"
    and eq: "rg_by_port r' = rg_by_port r" "rg_by_owner r' = rg_by_owner r" "rg_targets r' = rg_targets r"
      "rg_flows r' = rg_flows r" "rg_conns r' = rg_conns r" "rg_udp_by_port r' = rg_udp_by_port r"
      "rg_udp_by_owner r' = rg_udp_by_owner r" "rg_udp_targets r' = rg_udp_targets r" "rg_udp_token r' = rg_udp_token r"
  shows "registry_ok r'"
  using ok s ch flow_ok_mono [OF registry_okD(8) [OF ok] eq(4,5)] eq(1)
  unfolding registry_ok_def tcp_ok_def udp_claims_ok_def eq by simp

lemma source_gone_ok:
  assumes "registry_ok r" "c \<noteq> ''''"
  shows "sources_ok ((source_gone c r)\<lparr>rg_source_by_owner := m_del c (rg_source_by_owner r)\<rparr>)"
proof -
  note D = source_okD [OF registry_okD(6) [OF assms(1)]]
  note G = source_gone_map [OF registry_okD(6) [OF assms(1)], of c]
  have "\<exists>x. (case map_of (rg_sources r) ip of None \<Rightarrow> None | Some x \<Rightarrow> if sc_owner x = c then None else Some x) = Some x
      \<and> sc_owner x = d"
    if "((map_of (rg_source_by_owner r))(c := None)) d = Some ip" for d ip
    using that D(6) [of d ip] by (auto split: if_splits)
  then show ?thesis using D(1-5) by (auto simp: sources_ok_def G split: option.splits if_splits)
qed

lemma claim_source_refines:
  assumes ok: "registry_ok r"
  shows "\<exists>e r'. claim_source pa pp c app raw raw_cidr ifindex r = Some (e, r') \<and> registry_ok r'
    \<and> spec_claim_source pa pp c app raw raw_cidr ifindex (abs_registry r) = (result e, abs_registry r')"
proof (cases "c \<noteq> '''' \<and> app \<noteq> '''' \<and> 0 < ifindex \<and> ip4_of pa raw \<noteq> None \<and> cidr4_of pp raw_cidr \<noteq> None")
  case False
  then have "claim_source pa pp c app raw raw_cidr ifindex r = Some (Some PortDenied, r)
      \<and> spec_claim_source pa pp c app raw raw_cidr ifindex (abs_registry r) = (Refused PortDenied, abs_registry r)"
    by (auto simp: claim_source_def spec_claim_source_def ip4_of_def cidr4_of_def split: option.splits if_splits)
  then show ?thesis using ok by (simp add: result_def)
next
  case True
  then obtain ip cidr where P: "ip4_of pa raw = Some ip" "cidr4_of pp raw_cidr = Some cidr"
    "pa raw = Some ip" "is4 ip" "pp raw_cidr = Some cidr" "is4 (pfx_addr cidr)"
    by (auto simp: ip4_of_def cidr4_of_def split: option.splits if_splits)
  note D = registry_okD [OF ok]
  have ip: "ip \<noteq> NoAddr" using P(4) by auto
  have owner: "sc_owner x \<noteq> ''''" if "map_of (rg_sources r) ip = Some x" for x using source_okD(1) [OF D(6) that] .
  show ?thesis
  proof (cases "\<forall>x. map_of (rg_sources r) ip = Some x \<longrightarrow> sc_owner x = c")
    case free: True
    let ?r = "source_granted c app ip (masked cidr) ifindex (source_gone c r)"
    have "(case map_of (rg_sources r) ip of None \<Rightarrow> False | Some x \<Rightarrow> sc_owner x \<noteq> '''' \<and> sc_owner x \<noteq> c) = False"
      using free by (auto split: option.split)
    then have "claim_source pa pp c app raw raw_cidr ifindex r = Some (None, ?r)"
      using True P unfolding claim_source_def drop_source [OF ok] by (simp add: source_granted_def)
    moreover have "sources_ok ?r"
      using source_grant_ok [OF D(6) _ ip, of c ifindex "masked cidr" app] True free masked_NoAddr [OF P(6)] by blast
    then have "registry_ok ?r"
      using chan_ok_source_granted [OF chan_ok_source_gone [OF D(7,6)]]
      by (intro tables_ok_source [OF ok]) (simp_all add: source_granted_def)
    moreover have "keep_if (\<lambda>x. at_owner x \<noteq> c) (sp_source (abs_registry r)) ip = None"
      using free by (auto simp: keep_if_def abs_source split: option.split)
    moreover have "sp_source_next (abs_registry r) = rg_source_next r" by (simp add: abs_registry_def)
    ultimately show ?thesis using True P
      by (simp add: spec_claim_source_def result_def abs_source_granted abs_source_gone [OF D(6)])
  next
    case False
    then obtain x where x: "map_of (rg_sources r) ip = Some x" "sc_owner x \<noteq> c" by blast
    then have "claim_source pa pp c app raw raw_cidr ifindex r = Some (Some PortDenied, r)"
      using True P owner by (simp add: claim_source_def)
    moreover have "keep_if (\<lambda>x. at_owner x \<noteq> c) (sp_source (abs_registry r)) ip \<noteq> None"
      using x by (simp add: keep_if_def abs_source)
    ultimately show ?thesis using True P ok by (simp add: spec_claim_source_def result_def)
  qed
qed

lemma release_source_is:
  assumes "registry_ok r" 
  shows "release_source c r = Some ((source_gone c r)\<lparr>rg_source_by_owner := m_del c (rg_source_by_owner r)\<rparr>)"
proof (cases "map_of (rg_source_by_owner r) c")
  case None
  then show ?thesis by (simp add: release_source_def source_gone_def m_del_absent)
next
  case (Some ip)
  note D = registry_okD [OF assms]
  obtain x where x: "map_of (rg_sources r) ip = Some x" "sc_owner x = c" using source_okD(6) [OF D(6) Some] by blast
  then have "source_chan r ip = Some (sc_done x)" by (simp add: source_chan_def)
  then show ?thesis using Some x chan_okD(5) [OF D(7)] source_okD(2) [OF D(6) x(1)]
    by (auto simp: release_source_def source_gone_def closing_def close_chan_def)
qed

end
