(* ===== verification/Ingress_Release.thy ===== *)
theory Ingress_Release
  imports Ingress_Source
begin

section \<open>Published ports: release\<close>

definition map_without :: "('k, 'v) gomap \<Rightarrow> ('k \<Rightarrow> bool) \<Rightarrow> ('k, 'v) gomap \<Rightarrow> bool" where
  "map_without m Q m' \<longleftrightarrow> (\<forall>k. map_of m' k = (if Q k then None else map_of m k))"

lemma map_without_del: "map_without (m_del p m) Q m' \<Longrightarrow> map_without m (\<lambda>k. k = p \<or> Q k) m'"
  by (simp add: map_without_def)

lemma map_withoutD: "map_without m Q m' \<Longrightarrow> map_of m' k = (if Q k then None else map_of m k)"
  by (simp add: map_without_def)

subsection \<open>TCP\<close>

definition tcp_without :: "(u16 \<Rightarrow> bool) \<Rightarrow> registry \<Rightarrow> registry \<Rightarrow> bool" where
  "tcp_without Q r r' \<longleftrightarrow>
     (\<exists>owners targets apps. r' = r\<lparr>rg_by_port := owners, rg_targets := targets, rg_app_by_port := apps\<rparr>
       \<and> map_without (rg_by_port r) Q owners \<and> map_without (rg_targets r) Q targets \<and> map_without (rg_app_by_port r) Q apps)"

lemma tcp_without_step:
  assumes "tcp_without Q (r\<lparr>rg_by_port := m_del p (rg_by_port r), rg_targets := m_del p (rg_targets r),
      rg_app_by_port := m_del p (rg_app_by_port r)\<rparr>) r'"
  shows "tcp_without (\<lambda>k. k = p \<or> Q k) r r'"
proof -
  obtain owners targets apps where "r' = r\<lparr>rg_by_port := owners, rg_targets := targets, rg_app_by_port := apps\<rparr>"
    "map_without (m_del p (rg_by_port r)) Q owners" "map_without (m_del p (rg_targets r)) Q targets"
    "map_without (m_del p (rg_app_by_port r)) Q apps"
    using assms unfolding tcp_without_def by auto
  then show ?thesis unfolding tcp_without_def by (blast dest: map_without_del)
qed

lemma fold_release_tcp:
  assumes "c \<noteq> ''''"
  shows "tcp_without (\<lambda>p. p \<in> set ps \<and> map_of (rg_by_port r) p = Some c) r (fold (release_tcp_port c) ps r)"
proof (induction ps arbitrary: r)
  case Nil
  show ?case unfolding tcp_without_def
    by (intro exI [of _ "rg_by_port r"] exI [of _ "rg_targets r"] exI [of _ "rg_app_by_port r"]) (simp add: map_without_def)
next
  case (Cons p ps)
  show ?case
  proof (cases "map_of (rg_by_port r) p = Some c")
    case True
    let ?d = "release_tcp_port c p r"
    have d: "?d = r\<lparr>rg_by_port := m_del p (rg_by_port r), rg_targets := m_del p (rg_targets r),
        rg_app_by_port := m_del p (rg_app_by_port r)\<rparr>"
      using True by (simp add: release_tcp_port_def str_at_def)
    have Q: "(\<lambda>q. q \<in> set (p # ps) \<and> map_of (rg_by_port r) q = Some c)
        = (\<lambda>q. q = p \<or> (q \<in> set ps \<and> map_of (m_del p (rg_by_port r)) q = Some c))"
      using True by (auto simp: fun_eq_iff)
    have "tcp_without (\<lambda>q. q \<in> set ps \<and> map_of (m_del p (rg_by_port r)) q = Some c) ?d (fold (release_tcp_port c) ps ?d)"
      using Cons.IH [of ?d] by (simp add: d)
    from tcp_without_step [OF this [unfolded d]] show ?thesis using True unfolding Q by (simp add: d [symmetric])
  next
    case False
    then have "release_tcp_port c p r = r" using assms by (auto simp: release_tcp_port_def str_at_def split: option.splits)
    moreover have "(\<lambda>q. q \<in> set (p # ps) \<and> map_of (rg_by_port r) q = Some c)
        = (\<lambda>q. q \<in> set ps \<and> map_of (rg_by_port r) q = Some c)"
      using False by auto
    ultimately show ?thesis using Cons.IH [of r] by simp
  qed
qed

subsection \<open>UDP\<close>

definition udp_without :: "(u16 \<Rightarrow> bool) \<Rightarrow> registry \<Rightarrow> registry \<Rightarrow> bool" where
  "udp_without Q r r' \<longleftrightarrow>
     (\<exists>owners targets apps tokens dones closed.
       r' = r\<lparr>rg_udp_by_port := owners, rg_udp_targets := targets, rg_udp_app := apps, rg_udp_token := tokens,
         rg_udp_done := dones, rg_closed := closed\<rparr>
       \<and> map_without (rg_udp_by_port r) Q owners \<and> map_without (rg_udp_targets r) Q targets
       \<and> map_without (rg_udp_app r) Q apps \<and> map_without (rg_udp_token r) Q tokens
       \<and> map_without (rg_udp_done r) Q dones
       \<and> set closed = set (rg_closed r) \<union> {n. \<exists>p. Q p \<and> map_of (rg_udp_done r) p = Some n})"

definition udp_dropped :: "u16 \<Rightarrow> nat \<Rightarrow> registry \<Rightarrow> registry" where
  "udp_dropped p n r = r\<lparr>rg_closed := n # rg_closed r, rg_udp_done := m_del p (rg_udp_done r),
     rg_udp_by_port := m_del p (rg_udp_by_port r), rg_udp_targets := m_del p (rg_udp_targets r),
     rg_udp_app := m_del p (rg_udp_app r), rg_udp_token := m_del p (rg_udp_token r)\<rparr>"

lemma chan_ok_dropped:
  assumes ok: "chan_ok r" and n: "map_of (rg_udp_done r) p = Some n"
  shows "chan_ok (udp_dropped p n r)"
proof -
  note D = chan_okD [OF ok]
  have F: "map_of (rg_udp_done (udp_dropped p n r)) = (map_of (rg_udp_done r))(p := None)"
    "map_of (rg_udp_by_port (udp_dropped p n r)) = (map_of (rg_udp_by_port r))(p := None)"
    "rg_channels (udp_dropped p n r) = rg_channels r" "set (rg_closed (udp_dropped p n r)) = insert n (set (rg_closed r))"
    "source_chan (udp_dropped p n r) = source_chan r"
    by (simp_all add: udp_dropped_def source_chan_def fun_eq_iff)
  show ?thesis unfolding chan_ok_def F
  proof (intro conjI allI impI ballI)
    fix q k
    assume "((map_of (rg_udp_done r))(p := None)) q = Some k"
    then show "k \<notin> insert n (set (rg_closed r))" using D(3) [of q k] D(6) [of q k p] n by (auto split: if_splits)
  next
    fix ip k
    assume "source_chan r ip = Some k"
    then show "k \<notin> insert n (set (rg_closed r))" using D(5) [of ip k] D(8) [OF n, of ip] by auto
  qed (use D(1,2,4,6-9) n in \<open>auto split: if_splits\<close>)
qed

lemma release_udp_port_is:
  assumes ok: "chan_ok r" and c: "c \<noteq> ''''"
  shows "release_udp_port c p r = Some (if map_of (rg_udp_by_port r) p = Some c
    then udp_dropped p (the (map_of (rg_udp_done r) p)) r else r)"
proof (cases "map_of (rg_udp_by_port r) p = Some c")
  case True
  then obtain n where "map_of (rg_udp_done r) p = Some n" "n \<notin> set (rg_closed r)"
    using chan_okD(1,3) [OF ok, of p] by fastforce
  then show ?thesis using True by (simp add: release_udp_port_def str_at_def close_chan_def udp_dropped_def)
next
  case False
  then show ?thesis using c by (auto simp: release_udp_port_def str_at_def split: option.split)
qed

lemma udp_without_step:
  assumes "udp_without Q (udp_dropped p n r) r'" "map_of (rg_udp_done r) p = Some n"
  shows "udp_without (\<lambda>k. k = p \<or> Q k) r r'"
proof -
  obtain owners targets apps tokens dones closed where
    r': "r' = (udp_dropped p n r)\<lparr>rg_udp_by_port := owners, rg_udp_targets := targets, rg_udp_app := apps, rg_udp_token := tokens,
         rg_udp_done := dones, rg_closed := closed\<rparr>"
    and M: "map_without (m_del p (rg_udp_by_port r)) Q owners" "map_without (m_del p (rg_udp_targets r)) Q targets"
      "map_without (m_del p (rg_udp_app r)) Q apps" "map_without (m_del p (rg_udp_token r)) Q tokens"
      "map_without (m_del p (rg_udp_done r)) Q dones"
    and C: "set closed = insert n (set (rg_closed r)) \<union> {k. \<exists>q. Q q \<and> map_of (m_del p (rg_udp_done r)) q = Some k}"
    using assms(1) unfolding udp_without_def by (auto simp: udp_dropped_def)
  have "set closed = set (rg_closed r) \<union> {k. \<exists>q. (q = p \<or> Q q) \<and> map_of (rg_udp_done r) q = Some k}"
  proof (rule set_eqI)
    fix k
    have "(\<exists>q. Q q \<and> map_of (m_del p (rg_udp_done r)) q = Some k) \<longleftrightarrow> (\<exists>q. q \<noteq> p \<and> Q q \<and> map_of (rg_udp_done r) q = Some k)"
      by (rule ex_cong1) simp
    then show "k \<in> set closed \<longleftrightarrow> k \<in> set (rg_closed r) \<union> {k. \<exists>q. (q = p \<or> Q q) \<and> map_of (rg_udp_done r) q = Some k}"
      using assms(2) unfolding C Un_iff insert_iff mem_Collect_eq by (metis option.inject)
  qed
  moreover have "r' = r\<lparr>rg_udp_by_port := owners, rg_udp_targets := targets, rg_udp_app := apps, rg_udp_token := tokens,
         rg_udp_done := dones, rg_closed := closed\<rparr>"
    by (simp add: r' udp_dropped_def)
  ultimately show ?thesis unfolding udp_without_def using M [THEN map_without_del] by blast
qed

lemma udp_without_none: "(\<And>p. \<not> Q p) \<Longrightarrow> udp_without Q r r"
  unfolding udp_without_def
  by (intro exI [of _ "rg_udp_by_port r"] exI [of _ "rg_udp_targets r"] exI [of _ "rg_udp_app r"]
      exI [of _ "rg_udp_token r"] exI [of _ "rg_udp_done r"] exI [of _ "rg_closed r"]) (simp add: map_without_def)

lemma fold_release_udp:
  assumes "chan_ok r" "c \<noteq> ''''"
  shows "\<exists>r'. fold (\<lambda>port acc. Option.bind acc (release_udp_port c port)) ps (Some r) = Some r' \<and> chan_ok r'
    \<and> udp_without (\<lambda>p. p \<in> set ps \<and> map_of (rg_udp_by_port r) p = Some c) r r'"
  using assms(1)
proof (induction ps arbitrary: r)
  case Nil
  then show ?case by (simp add: udp_without_none)
next
  case (Cons p ps)
  note step = release_udp_port_is [OF Cons.prems assms(2), of p]
  show ?case
  proof (cases "map_of (rg_udp_by_port r) p = Some c")
    case True
    then obtain n where n: "map_of (rg_udp_done r) p = Some n" using chan_okD(1) [OF Cons.prems, of p] by fastforce
    let ?d = "udp_dropped p n r"
    obtain r' where r': "fold (\<lambda>port acc. Option.bind acc (release_udp_port c port)) ps (Some ?d) = Some r'" "chan_ok r'"
      "udp_without (\<lambda>q. q \<in> set ps \<and> map_of (rg_udp_by_port ?d) q = Some c) ?d r'"
      using Cons.IH [OF chan_ok_dropped [OF Cons.prems n]] by blast
    have "(\<lambda>q. q = p \<or> q \<in> set ps \<and> map_of (rg_udp_by_port ?d) q = Some c)
        = (\<lambda>q. q \<in> set (p # ps) \<and> map_of (rg_udp_by_port r) q = Some c)"
      using True by (auto simp: fun_eq_iff udp_dropped_def)
    then show ?thesis using udp_without_step [OF r'(3) n] r'(1,2) step True n by simp
  next
    case False
    then have "(\<lambda>q. q \<in> set (p # ps) \<and> map_of (rg_udp_by_port r) q = Some c)
        = (\<lambda>q. q \<in> set ps \<and> map_of (rg_udp_by_port r) q = Some c)"
      by auto
    then show ?thesis using Cons.IH [OF Cons.prems] False step by simp
  qed
qed

subsection \<open>The whole release\<close>

lemma index_keys:
  "index_ok owners index \<Longrightarrow> p \<in> set (m_keys (set_at index c)) \<and> map_of owners p = Some c \<longleftrightarrow> map_of owners p = Some c"
  using index_okD(3) [of owners index c p] by (auto simp: set_m_keys)

lemma release_tcp_is:
  assumes "index_ok (rg_by_port r) (rg_by_owner r)" "c \<noteq> ''''"
  obtains r' where "release_tcp c r = r'\<lparr>rg_by_owner := m_del c (rg_by_owner r)\<rparr>"
    "tcp_without (\<lambda>p. map_of (rg_by_port r) p = Some c) r r'"
proof -
  let ?r = "fold (release_tcp_port c) (m_keys (set_at (rg_by_owner r) c)) r"
  have w: "tcp_without (\<lambda>p. map_of (rg_by_port r) p = Some c) r ?r"
    using fold_release_tcp [OF assms(2), of "m_keys (set_at (rg_by_owner r) c)" r] by (simp add: index_keys [OF assms(1)])
  then have "rg_by_owner ?r = rg_by_owner r" by (auto simp: tcp_without_def)
  then show thesis using that [OF _ w] by (simp add: release_tcp_def Let_def)
qed

lemma release_udp_is:
  assumes "index_ok (rg_udp_by_port r) (rg_udp_by_owner r)" "chan_ok r" "c \<noteq> ''''"
  obtains r' where "release_udp_ports c r = Some (r'\<lparr>rg_udp_by_owner := m_del c (rg_udp_by_owner r)\<rparr>)"
    "udp_without (\<lambda>p. map_of (rg_udp_by_port r) p = Some c) r r'" "chan_ok r'"
proof -
  obtain r' where r': "fold (\<lambda>port acc. Option.bind acc (release_udp_port c port)) (m_keys (set_at (rg_udp_by_owner r) c)) (Some r) = Some r'"
    "chan_ok r'" "udp_without (\<lambda>p. map_of (rg_udp_by_port r) p = Some c) r r'"
    using fold_release_udp [OF assms(2,3), of "m_keys (set_at (rg_udp_by_owner r) c)"] by (auto simp: index_keys [OF assms(1)])
  then have "rg_udp_by_owner r' = rg_udp_by_owner r" by (auto simp: udp_without_def)
  then show thesis using that r' by (simp add: release_udp_ports_def)
qed

definition release_facts :: "string \<Rightarrow> registry \<Rightarrow> registry \<Rightarrow> bool" where
  "release_facts c r r' \<longleftrightarrow>
     map_without (rg_by_port r) (\<lambda>p. map_of (rg_by_port r) p = Some c) (rg_by_port r')
     \<and> map_without (rg_targets r) (\<lambda>p. map_of (rg_by_port r) p = Some c) (rg_targets r')
     \<and> map_without (rg_app_by_port r) (\<lambda>p. map_of (rg_by_port r) p = Some c) (rg_app_by_port r')
     \<and> map_without (rg_udp_by_port r) (\<lambda>p. map_of (rg_udp_by_port r) p = Some c) (rg_udp_by_port r')
     \<and> map_without (rg_udp_targets r) (\<lambda>p. map_of (rg_udp_by_port r) p = Some c) (rg_udp_targets r')
     \<and> map_without (rg_udp_app r) (\<lambda>p. map_of (rg_udp_by_port r) p = Some c) (rg_udp_app r')
     \<and> map_without (rg_udp_token r) (\<lambda>p. map_of (rg_udp_by_port r) p = Some c) (rg_udp_token r')
     \<and> map_without (rg_udp_done r) (\<lambda>p. map_of (rg_udp_by_port r) p = Some c) (rg_udp_done r')
     \<and> rg_sources r' = rg_sources (source_gone c r)
     \<and> rg_source_by_owner r' = m_del c (rg_source_by_owner r)
     \<and> rg_by_owner r' = m_del c (rg_by_owner r) \<and> rg_udp_by_owner r' = m_del c (rg_udp_by_owner r)
     \<and> rg_flows r' = m_del c (rg_flows r) \<and> rg_conns r' = rg_conns r
     \<and> rg_udp_next r' = rg_udp_next r \<and> rg_source_next r' = rg_source_next r
     \<and> set (rg_closed r') = set (rg_closed (source_gone c r))
         \<union> {n. \<exists>p. map_of (rg_udp_by_port r) p = Some c \<and> map_of (rg_udp_done r) p = Some n}"

lemma release_owner_is:
  assumes ok: "registry_ok r" and c: "c \<noteq> ''''"
  obtains r' where "release_owner c r = Some (m_keys (set_at (rg_flows r) c), r')" "release_facts c r r'" "chan_ok r'"
proof -
  note D = registry_okD [OF ok]
  let ?r1 = "(source_gone c r)\<lparr>rg_source_by_owner := m_del c (rg_source_by_owner r)\<rparr>"
  obtain r2 where r2: "release_tcp c ?r1 = r2\<lparr>rg_by_owner := m_del c (rg_by_owner r)\<rparr>"
    "tcp_without (\<lambda>p. map_of (rg_by_port r) p = Some c) ?r1 r2"
    using release_tcp_is [of ?r1 c] D(1) c by auto
  have eq: "rg_udp_by_port r2 = rg_udp_by_port r" "rg_udp_by_owner r2 = rg_udp_by_owner r" "rg_udp_done r2 = rg_udp_done r"
    "rg_channels r2 = rg_channels r" "rg_closed r2 = rg_closed (source_gone c r)" "rg_sources r2 = rg_sources (source_gone c r)"
    using r2(2) by (auto simp: tcp_without_def)
  have "chan_ok (source_gone c r)" by (rule chan_ok_source_gone [OF D(7,6)])
  then have "chan_ok (r2\<lparr>rg_by_owner := m_del c (rg_by_owner r)\<rparr>)" by (simp add: chan_ok_def source_chan_def eq)
  from release_udp_is [OF _ this c] obtain r3
    where r3: "release_udp_ports c (r2\<lparr>rg_by_owner := m_del c (rg_by_owner r)\<rparr>)
        = Some (r3\<lparr>rg_udp_by_owner := m_del c (rg_udp_by_owner r)\<rparr>)"
      "udp_without (\<lambda>p. map_of (rg_udp_by_port r) p = Some c) (r2\<lparr>rg_by_owner := m_del c (rg_by_owner r)\<rparr>) r3" "chan_ok r3"
    using D(2) by (auto simp: eq)
  let ?r = "r3\<lparr>rg_udp_by_owner := m_del c (rg_udp_by_owner r), rg_flows := m_del c (rg_flows r)\<rparr>"
  have fl: "rg_flows r3 = rg_flows r" using r2(2) r3(2) by (auto simp: tcp_without_def udp_without_def)
  have "release_owner c r = Some (m_keys (set_at (rg_flows r) c), ?r)"
    using c by (simp add: release_owner_def release_source_is [OF ok] r2(1) r3(1) fl)
  moreover have "release_facts c r ?r"
    using r2(2) r3(2) by (auto simp: release_facts_def tcp_without_def udp_without_def)
  moreover have "chan_ok ?r" using r3(3) by (simp add: chan_ok_def source_chan_def)
  ultimately show thesis by (rule that)
qed

lemma release_factsD:
  assumes "release_facts c r r'"
  shows "map_of (rg_by_port r') p = (if map_of (rg_by_port r) p = Some c then None else map_of (rg_by_port r) p)"
    "map_of (rg_targets r') p = (if map_of (rg_by_port r) p = Some c then None else map_of (rg_targets r) p)"
    "map_of (rg_app_by_port r') p = (if map_of (rg_by_port r) p = Some c then None else map_of (rg_app_by_port r) p)"
    "map_of (rg_udp_by_port r') p = (if map_of (rg_udp_by_port r) p = Some c then None else map_of (rg_udp_by_port r) p)"
    "map_of (rg_udp_targets r') p = (if map_of (rg_udp_by_port r) p = Some c then None else map_of (rg_udp_targets r) p)"
    "map_of (rg_udp_app r') p = (if map_of (rg_udp_by_port r) p = Some c then None else map_of (rg_udp_app r) p)"
    "map_of (rg_udp_token r') p = (if map_of (rg_udp_by_port r) p = Some c then None else map_of (rg_udp_token r) p)"
    "map_of (rg_udp_done r') p = (if map_of (rg_udp_by_port r) p = Some c then None else map_of (rg_udp_done r) p)"
    "rg_sources r' = rg_sources (source_gone c r)" "rg_source_by_owner r' = m_del c (rg_source_by_owner r)"
    "rg_by_owner r' = m_del c (rg_by_owner r)" "rg_udp_by_owner r' = m_del c (rg_udp_by_owner r)"
    "rg_flows r' = m_del c (rg_flows r)" "rg_conns r' = rg_conns r"
    "rg_udp_next r' = rg_udp_next r" "rg_source_next r' = rg_source_next r"
    "set (rg_closed r') = set (rg_closed (source_gone c r))
       \<union> {n. \<exists>p. map_of (rg_udp_by_port r) p = Some c \<and> map_of (rg_udp_done r) p = Some n}"
  using assms unfolding release_facts_def by (simp_all add: map_without_def)

lemma release_keeps:
  assumes ok: "registry_ok r" and c: "c \<noteq> []" and f: "release_facts c r r'" and ch: "chan_ok r'"
  shows "registry_ok r'"
proof -
  note D = registry_okD [OF ok] and F = release_factsD [OF f]
  have "fst (target_at (rg_targets r') p) \<noteq> NoAddr" if "map_of (rg_by_port r') p = Some d" for p d
    using that D(3) [of p] F(1,2) [of p] by (auto simp: target_at_def split: if_splits)
  then have "tcp_ok r'" using index_release [OF D(1) F(1)] by (simp add: tcp_ok_def F(11))
  moreover have "fst (target_at (rg_udp_targets r') p) \<noteq> NoAddr" if "map_of (rg_udp_by_port r') p = Some d" for p d
    using that D(4) [of p] F(4,5) [of p] by (auto simp: target_at_def split: if_splits)
  then have "udp_claims_ok r'" using index_release [OF D(2) F(4)] D(5) F(4,7) by (simp add: udp_claims_ok_def F(12))
  moreover have "sources_ok r'" using source_gone_ok [OF ok c] by (simp add: sources_ok_def F(9,10))
  moreover have "flow_ok r'" unfolding flow_ok_def F(13,14)
  proof (intro allI impI)
    fix d n
    assume "map_of (set_at (m_del c (rg_flows r)) d) n = Some ()"
    then have d: "d \<noteq> c" "map_of (set_at (rg_flows r) d) n = Some ()" by (simp_all split: if_splits)
    then obtain p where "map_of (rg_by_port r) p = Some d" using D(8) unfolding flow_ok_def by blast
    then have "map_of (rg_by_port r') p = Some d" using F(1) d(1) by simp
    then show "n < length (rg_conns r) \<and> cn_owner (rg_conns r ! n) = d \<and> \<not> cn_closed (rg_conns r ! n)
        \<and> (\<exists>p. map_of (rg_by_port r') p = Some d)"
      using D(8) d(2) unfolding flow_ok_def by blast
  qed
  ultimately show ?thesis using ch by (simp add: registry_ok_def)
qed

lemma abs_release:
  assumes ok: "registry_ok r" and c: "c \<noteq> ''''" and f: "release_facts c r r'"
  shows "abs_registry r' = spec_release c (abs_registry r)"
proof -
  note F = release_factsD [OF f]
  have "sp_tcp (abs_registry r') = keep_if (\<lambda>x. pb_owner x \<noteq> c) (sp_tcp (abs_registry r))"
    by (simp add: F fun_eq_iff abs_tcp keep_if_def str_at_def target_at_def split: option.split)
  moreover have "sp_udp (abs_registry r') = keep_if (\<lambda>x. pb_owner x \<noteq> c) (sp_udp (abs_registry r))"
    by (simp add: F fun_eq_iff abs_udp keep_if_def str_at_def target_at_def num_at_def split: option.split)
  moreover have "sp_source (abs_registry r') = sp_source (abs_registry (source_gone c r))"
    by (simp add: F fun_eq_iff abs_source)
  moreover have "sp_udp_next (abs_registry r') = sp_udp_next (abs_registry r)"
    "sp_source_next (abs_registry r') = sp_source_next (abs_registry r)" "sp_live (abs_registry r') = sp_live (abs_registry r)"
    "sp_dials (abs_registry r') = sp_dials (abs_registry r)"
    unfolding abs_registry_def F by simp_all
  ultimately show ?thesis using c
    by (intro ingress_spec.equality) (simp_all add: spec_release_def abs_source_gone [OF registry_okD(6) [OF ok]])
qed

lemma release_refines:
  assumes ok: "registry_ok r"
  shows "\<exists>flows r'. release_owner c r = Some (flows, r') \<and> registry_ok r' \<and> abs_registry r' = spec_release c (abs_registry r)"
proof (cases "c = ''''")
  case True
  then show ?thesis using ok by (simp add: release_owner_def spec_release_def)
next
  case False
  then show ?thesis using release_owner_is [OF ok False] release_keeps [OF ok False] abs_release [OF ok False] by metis
qed

end
