(* ===== verification/Ingress_Calls.thy ===== *)
theory Ingress_Calls
  imports Ingress_Release
begin

section \<open>Published ports: connections, queries and the refinement\<close>

subsection \<open>Connections\<close>

definition dial_answer :: "ingress_error + nat \<Rightarrow> ingress_answer" where
  "dial_answer x = (case x of Inl err \<Rightarrow> Refused err | Inr n \<Rightarrow> Conn n)"

lemma dial_refines:
  assumes ok: "registry_ok r" and d: "dial_authorized port outcome r = (x, r')"
  shows "registry_ok r' \<and> spec_dial port outcome (abs_registry r) = (dial_answer x, abs_registry r')"
proof (cases "map_of (rg_by_port r) port")
  case None
  then have "str_at (rg_by_port r) port = ''''" by (simp add: str_at_def)
  then show ?thesis using d ok None by (auto simp: dial_authorized_def spec_dial_def dial_answer_def abs_tcp split: if_splits)
next
  case (Some c)
  note D = registry_okD [OF ok]
  have c: "str_at (rg_by_port r) port = c" "c \<noteq> ''''" "port \<noteq> 0" "fst (target_at (rg_targets r) port) \<noteq> NoAddr"
    using index_okD(1,2) [OF D(1) Some] D(3) [OF Some] Some by (simp_all add: str_at_def)
  show ?thesis
  proof (cases outcome)
    case Dialed
    let ?n = "length (rg_conns r)"
    have r': "x = Inr ?n" "r' = r\<lparr>rg_conns := rg_conns r @ [\<lparr>cn_owner = c, cn_closed = False\<rparr>],
        rg_flows := m_put c (m_put ?n () (set_at (rg_flows r) c)) (rg_flows r)\<rparr>"
      using d c Dialed by (simp_all add: dial_authorized_def Let_def)
    have "flow_ok r'" using D(8) Some by (auto simp: flow_ok_def r'(2) nth_append less_Suc_eq)
    then have "registry_ok r'" using ok by (simp add: registry_ok_def tcp_ok_def udp_claims_ok_def sources_ok_def chan_ok_def source_chan_def r'(2))
    moreover have "sp_live (abs_registry r') = (sp_live (abs_registry r))(?n \<mapsto> c)"
      by (auto simp: abs_registry_def r'(2) nth_append fun_eq_iff)
    then have "abs_registry r' = (abs_registry r)\<lparr>sp_live := (sp_live (abs_registry r))(?n \<mapsto> c), sp_dials := ?n + 1\<rparr>"
      by (intro ingress_spec.equality) (simp_all add: abs_registry_def r'(2))
    ultimately show ?thesis using Some Dialed
      by (simp add: spec_dial_def abs_tcp dial_answer_def r'(1)) (simp add: abs_registry_def)
  qed (use d c ok Some in \<open>auto simp: dial_authorized_def spec_dial_def dial_answer_def abs_tcp Let_def\<close>)
qed

lemma close_conn_fields:
  "rg_by_port (close_conn n r) = rg_by_port r" "rg_by_owner (close_conn n r) = rg_by_owner r"
  "rg_targets (close_conn n r) = rg_targets r" "rg_app_by_port (close_conn n r) = rg_app_by_port r"
  "rg_udp_by_port (close_conn n r) = rg_udp_by_port r" "rg_udp_by_owner (close_conn n r) = rg_udp_by_owner r"
  "rg_udp_targets (close_conn n r) = rg_udp_targets r" "rg_udp_app (close_conn n r) = rg_udp_app r"
  "rg_udp_token (close_conn n r) = rg_udp_token r" "rg_udp_done (close_conn n r) = rg_udp_done r"
  "rg_sources (close_conn n r) = rg_sources r" "rg_source_by_owner (close_conn n r) = rg_source_by_owner r"
  "rg_udp_next (close_conn n r) = rg_udp_next r" "rg_source_next (close_conn n r) = rg_source_next r"
  "rg_channels (close_conn n r) = rg_channels r" "rg_closed (close_conn n r) = rg_closed r"
  by (simp_all add: close_conn_def Let_def)

lemma close_conn_conns:
  "rg_conns (close_conn n r) = (if n < length (rg_conns r) then (rg_conns r)[n := (rg_conns r ! n)\<lparr>cn_closed := True\<rparr>] else rg_conns r)"
  by (auto simp: close_conn_def Let_def list_update_id intro!: nth_equalityI [symmetric] simp: nth_list_update)

lemma m_del_empty: "m_del n s = [] \<Longrightarrow> m \<noteq> n \<Longrightarrow> map_of s m = None"
  using map_of_m_del [of n s] by (metis fun_upd_other map_of.simps(1))

lemma close_conn_flows:
  assumes "n < length (rg_conns r)" "\<not> cn_closed (rg_conns r ! n)"
  shows "map_of (set_at (rg_flows (close_conn n r)) d) m = Some () \<longleftrightarrow>
    map_of (set_at (rg_flows r) d) m = Some () \<and> \<not> (d = cn_owner (rg_conns r ! n) \<and> m = n)"
  using assms by (auto simp: close_conn_def Let_def set_at_def dest: m_del_empty split: option.split)

lemma close_refines:
  assumes ok: "registry_ok r"
  shows "registry_ok (close_conn n r) \<and> abs_registry (close_conn n r) = (abs_registry r)\<lparr>sp_live := (sp_live (abs_registry r))(n := None)\<rparr>"
proof
  note D = registry_okD [OF ok]
  have "flow_ok (close_conn n r)"
  proof (cases "n < length (rg_conns r) \<and> \<not> cn_closed (rg_conns r ! n)")
    case True
    then show ?thesis using D(8) unfolding flow_ok_def close_conn_fields
      by (auto simp: close_conn_flows close_conn_conns nth_list_update)
  next
    case False
    then have "close_conn n r = r" by (auto simp: close_conn_def)
    then show ?thesis using D(8) by simp
  qed
  then show "registry_ok (close_conn n r)"
    using ok by (simp add: registry_ok_def tcp_ok_def udp_claims_ok_def sources_ok_def chan_ok_def source_chan_def close_conn_fields)
  have "sp_live (abs_registry (close_conn n r)) = (sp_live (abs_registry r))(n := None)"
    by (auto simp: abs_registry_def close_conn_conns nth_list_update fun_eq_iff)
  then show "abs_registry (close_conn n r) = (abs_registry r)\<lparr>sp_live := (sp_live (abs_registry r))(n := None)\<rparr>"
    by (intro ingress_spec.equality) (simp_all add: abs_registry_def close_conn_fields close_conn_conns)
qed

subsection \<open>Queries\<close>

lemma index_at:
  assumes "index_ok owners index"
  obtains "map_of owners p = None" "str_at owners p = ''''"
  | c where "map_of owners p = Some c" "str_at owners p = c" "c \<noteq> ''''" "p \<noteq> 0"
  using index_okD(1,2) [OF assms, of p] by (cases "map_of owners p") (auto simp: str_at_def)

lemma tcp_queries:
  assumes ok: "registry_ok r"
  shows "ingress_query (CheckAvailable c port) r = spec_query (CheckAvailable c port) (abs_registry r)"
    "ingress_query (Allowed port) r = spec_query (Allowed port) (abs_registry r)"
    "ingress_query (AllowedApp app port) r = spec_query (AllowedApp app port) (abs_registry r)"
    "ingress_query (OwnedBy c port) r = spec_query (OwnedBy c port) (abs_registry r)"
  by (cases rule: index_at [OF registry_okD(1) [OF ok], of port],
      auto simp: check_available_def check_owner_def result_def available_def abs_tcp tcp_allowed_def allowed_app_def
        of_app_def owned_by_def published_by_def)+

lemma udp_queries:
  assumes ok: "registry_ok r"
  shows "ingress_query (CheckUDPAvailable c port) r = spec_query (CheckUDPAvailable c port) (abs_registry r)"
    "ingress_query (AllowedUDP port) r = spec_query (AllowedUDP port) (abs_registry r)"
    "ingress_query (SendUDP port) r = spec_query (SendUDP port) (abs_registry r)"
    "ingress_query (AllowedUDPApp app port) r = spec_query (AllowedUDPApp app port) (abs_registry r)"
    "ingress_query (OwnedUDPBy c port) r = spec_query (OwnedUDPBy c port) (abs_registry r)"
  by (cases rule: index_at [OF registry_okD(2) [OF ok], of port],
      auto simp: check_udp_available_def check_owner_def result_def available_def abs_udp allowed_udp_def with_udp_def
        allowed_udp_app_def of_app_def owned_udp_by_def published_by_def)+

lemma udp_token_queries:
  assumes ok: "registry_ok r"
  shows "ingress_query (UDPToken port) r = spec_query (UDPToken port) (abs_registry r)"
    "ingress_query (SendUDPToken port token) r = spec_query (SendUDPToken port token) (abs_registry r)"
    "ingress_query (UDPDone port token) r = spec_query (UDPDone port token) (abs_registry r)"
proof -
  note D = registry_okD [OF ok]
  show "ingress_query (UDPToken port) r = spec_query (UDPToken port) (abs_registry r)"
    by (cases rule: index_at [OF D(2), of port]) (auto simp: udp_token_def abs_udp num_at_def D(5))
  show "ingress_query (SendUDPToken port token) r = spec_query (SendUDPToken port token) (abs_registry r)"
    using D(4) [of port]
    by (cases rule: index_at [OF D(2), of port]) (auto simp: with_udp_token_def spec_udp_def keep_if_def abs_udp)
  show "ingress_query (UDPDone port token) r = spec_query (UDPDone port token) (abs_registry r)"
    using chan_okD(1,3) [OF D(7), of port]
    by (cases rule: index_at [OF D(2), of port])
      (auto simp: udp_done_def chan_done_def spec_udp_def keep_if_def abs_udp)
qed

lemma claim_at_abs:
  assumes "registry_ok r"
  shows "spec_source ip dst ifindex (abs_registry r) = map_option (\<lambda>x. \<lparr>at_owner = sc_owner x, at_app = sc_app x,
    at_cidr = sc_cidr x, at_ifindex = sc_ifindex x, at_token = sc_token x\<rparr>) (source_claim_at ip dst ifindex r)"
  using source_okD(1) [OF registry_okD(6) [OF assms], of ip]
  by (auto simp: spec_source_def keep_if_def abs_source source_claim_at_def split: option.splits)

lemma claim_at_live:
  assumes "registry_ok r" "source_claim_at ip dst ifindex r = Some x"
  shows "ip \<noteq> NoAddr" "dst \<noteq> NoAddr" "0 < ifindex" "source_chan r ip = Some (sc_done x)" "sc_done x \<notin> set (rg_closed r)"
proof -
  have x: "map_of (rg_sources r) ip = Some x" "sc_ifindex x = ifindex" "pfx_contains (sc_cidr x) dst"
    using assms(2) by (auto simp: source_claim_at_def split: option.splits if_splits)
  note D = registry_okD [OF assms(1)]
  note S = source_okD(2,3,4) [OF D(6) x(1)]
  from S x show "ip \<noteq> NoAddr" "dst \<noteq> NoAddr" "0 < ifindex" by auto
  show "source_chan r ip = Some (sc_done x)" using x(1) by (simp add: source_chan_def)
  from chan_okD(5) [OF D(7) this] show "sc_done x \<notin> set (rg_closed r)" .
qed

lemma source_queries:
  assumes ok: "registry_ok r"
  shows "ingress_query (SourceToken ip dst ifindex) r = spec_query (SourceToken ip dst ifindex) (abs_registry r)"
    "ingress_query (SourceAllowed ip dst ifindex) r = spec_query (SourceAllowed ip dst ifindex) (abs_registry r)"
    "ingress_query (SendSource ip dst ifindex token) r = spec_query (SendSource ip dst ifindex token) (abs_registry r)"
    "ingress_query (SourceDone ip dst ifindex token) r = spec_query (SourceDone ip dst ifindex token) (abs_registry r)"
  using claim_at_live [OF ok, of ip dst ifindex] claim_at_abs [OF ok, of ip dst ifindex]
  by (cases "source_claim_at ip dst ifindex r",
      auto simp: source_token_def source_allowed_def with_source_token_def source_done_def chan_done_def spec_source_is_def)+

lemma local_query:
  assumes ok: "registry_ok r"
  shows "ingress_query (SendLocalUDP ip dst ifindex stoken port token) r
    = spec_query (SendLocalUDP ip dst ifindex stoken port token) (abs_registry r)"
proof (cases "source_claim_at ip dst ifindex r")
  case None
  then show ?thesis using claim_at_abs [OF ok, of ip dst ifindex] by (simp add: with_local_udp_def spec_source_is_def)
next
  case (Some x)
  note D = registry_okD [OF ok]
  show ?thesis using claim_at_abs [OF ok, of ip dst ifindex] Some D(4) [of port]
    by (cases rule: index_at [OF D(2), of port])
      (auto simp: with_local_udp_def spec_source_is_def spec_udp_def keep_if_def abs_udp)
qed

text \<open>The container's address: the one it is attributed, if any.\<close>

lemma address_query:
  assumes ok: "registry_ok r"
  shows "ingress_query (SourceIP c) r = spec_query (SourceIP c) (abs_registry r)"
proof -
  note S = source_okD [OF registry_okD(6) [OF ok]]
  have at: "published_at c (sp_source (abs_registry r) ip) \<longleftrightarrow> (\<exists>x. map_of (rg_sources r) ip = Some x \<and> sc_owner x = c)" for ip
    by (auto simp: published_at_def abs_source split: option.splits)
  have "ip \<in> set_option (source_ip c r) \<longleftrightarrow> (\<exists>x. map_of (rg_sources r) ip = Some x \<and> sc_owner x = c)" for ip
    using S(1,2,5,6) by (fastforce simp: source_ip_def split: option.splits if_splits)
  then show ?thesis using at by auto
qed

lemmas query_refines = tcp_queries udp_queries udp_token_queries source_queries local_query address_query

end
