(* ===== verification/Ingress_Runs.thy ===== *)
theory Ingress_Runs
  imports Ingress_Calls
begin

section \<open>Published ports: runs\<close>

text \<open>A run is a list of calls in the order in which their critical sections take the lock.\<close>

fun run_calls :: "('c \<Rightarrow> 's \<Rightarrow> ('a \<times> 's) option) \<Rightarrow> 'c list \<Rightarrow> 's \<Rightarrow> ('a list \<times> 's) option" where
  "run_calls exec [] s = Some ([], s)"
| "run_calls exec (c # cs) s = (case exec c s of
     None \<Rightarrow> None
   | Some (a, s) \<Rightarrow> map_option (\<lambda>(as, s). (a # as, s)) (run_calls exec cs s))"

fun run_spec :: "('c \<Rightarrow> 's \<Rightarrow> 'a \<times> 's) \<Rightarrow> 'c list \<Rightarrow> 's \<Rightarrow> 'a list \<times> 's" where
  "run_spec spec [] s = ([], s)"
| "run_spec spec (c # cs) s = (let (a, s) = spec c s; (as, s) = run_spec spec cs s in (a # as, s))"

lemma run_calls_Cons:
  assumes "run_calls exec (c # cs) s = Some (as, s')"
  obtains a bs s1 where "exec c s = Some (a, s1)" "run_calls exec cs s1 = Some (bs, s')" "as = a # bs"
  using assms by (auto split: option.splits)

subsection \<open>Simulation\<close>

text \<open>An implementation that never fails and whose every call does what the specification does.\<close>

locale simulation =
  fixes exec :: "'c \<Rightarrow> 's \<Rightarrow> ('a \<times> 's) option" and spec :: "'c \<Rightarrow> 't \<Rightarrow> 'a \<times> 't"
    and ok :: "'s \<Rightarrow> bool" and abs :: "'s \<Rightarrow> 't"
  assumes simulated: "ok s \<Longrightarrow> \<exists>a s'. exec c s = Some (a, s') \<and> ok s' \<and> spec c (abs s) = (a, abs s')"
begin

lemma exec_ok: "ok s \<Longrightarrow> exec c s = Some (a, s') \<Longrightarrow> ok s'"
  using simulated [of s c] by auto

lemma run_simulated: "ok s \<Longrightarrow> \<exists>as s'. run_calls exec cs s = Some (as, s') \<and> ok s' \<and> run_spec spec cs (abs s) = (as, abs s')"
proof (induction cs arbitrary: s)
  case (Cons c cs)
  obtain a s1 where 1: "exec c s = Some (a, s1)" "ok s1" "spec c (abs s) = (a, abs s1)" using simulated [OF Cons.prems] by blast
  then show ?case using Cons.IH [OF 1(2)] by fastforce
qed simp

end

text \<open>
  Incarnations: a slot holds at most one value, each with a token drawn from a counter and a channel. A slot is only
  changed by closing the channel of its value, and only filled with the token the same call has drawn.
\<close>

locale incarnations =
  fixes exec :: "'c \<Rightarrow> 's \<Rightarrow> ('a \<times> 's) option" and ok :: "'s \<Rightarrow> bool" and slot :: "'s \<Rightarrow> 'k \<Rightarrow> 'v option"
    and counter :: "'s \<Rightarrow> u64" and shut :: "'s \<Rightarrow> nat set" and token :: "'v \<Rightarrow> u64" and chan :: "'v \<Rightarrow> nat"
  assumes keeps: "exec c s = Some (a, s') \<Longrightarrow> ok s \<Longrightarrow> ok s'"
    and shut_mono: "exec c s = Some (a, s') \<Longrightarrow> ok s \<Longrightarrow> shut s \<subseteq> shut s'"
    and counts: "exec c s = Some (a, s') \<Longrightarrow> ok s \<Longrightarrow> counter s' = counter s \<or> counter s' = counter s + 1"
    and moves: "exec c s = Some (a, s') \<Longrightarrow> ok s \<Longrightarrow> slot s' k \<noteq> slot s k \<Longrightarrow>
      (\<forall>v. slot s k = Some v \<longrightarrow> chan v \<in> shut s') \<and> (\<forall>v. slot s' k = Some v \<longrightarrow> counter s' = counter s + 1 \<and> token v = counter s')"
begin

lemma counter_step:
  assumes "exec c s = Some (a, s')" "ok s" "unat (counter s) + Suc n < 2 ^ 64"
  shows "counter s \<le> counter s'" "unat (counter s') + n < 2 ^ 64"
    "counter s' = counter s + 1 \<Longrightarrow> counter s < counter s'"
proof -
  have "unat (counter s + 1) = Suc (unat (counter s))" using assms(3) by (simp add: unat_word_ariths(1))
  then show "counter s \<le> counter s'" "unat (counter s') + n < 2 ^ 64" "counter s' = counter s + 1 \<Longrightarrow> counter s < counter s'"
    using counts [OF assms(1,2)] assms(3) by (auto simp: word_le_nat_alt word_less_nat_alt)
qed

lemma fresh_step:
  assumes ex: "exec c s = Some (a, s')" "ok s" and room: "unat (counter s) + Suc n < 2 ^ 64"
    and fresh: "\<And>k v. slot s k = Some v \<Longrightarrow> token v \<le> counter s" and v: "slot s' k = Some v"
  shows "token v \<le> counter s'"
proof (cases "slot s' k = slot s k")
  case True
  then show ?thesis using fresh v counter_step(1) [OF ex room] by (metis order_trans)
next
  case False
  then show ?thesis using moves [OF ex False] v by simp
qed

lemma fresh_run:
  "run_calls exec cs s = Some (as, s') \<Longrightarrow> ok s \<Longrightarrow> unat (counter s) + length cs + n < 2 ^ 64
    \<Longrightarrow> (\<And>k v. slot s k = Some v \<Longrightarrow> token v \<le> counter s)
    \<Longrightarrow> (\<forall>k v. slot s' k = Some v \<longrightarrow> token v \<le> counter s') \<and> unat (counter s') + n < 2 ^ 64 \<and> ok s'"
proof (induction cs arbitrary: s as)
  case (Cons c cs)
  obtain a bs s1 where 1: "exec c s = Some (a, s1)" "run_calls exec cs s1 = Some (bs, s')"
    using Cons.prems(1) by (elim run_calls_Cons)
  have room: "unat (counter s) + Suc (length cs + n) < 2 ^ 64" using Cons.prems(3) by simp
  have "unat (counter s1) + length cs + n < 2 ^ 64" using counter_step(2) [OF 1(1) Cons.prems(2) room] by (simp add: add.assoc)
  moreover have "token v \<le> counter s1" if "slot s1 k = Some v" for k v
    using fresh_step [OF 1(1) Cons.prems(2) room _ that] Cons.prems(4) by blast
  ultimately show ?case using Cons.IH [OF 1(2) keeps [OF 1(1) Cons.prems(2)]] by blast
qed simp

text \<open>A value still sits in its slot, or its channel is closed and its token is gone for good.\<close>

lemma tracked_step:
  assumes ex: "exec c s = Some (a, s')" "ok s" and room: "unat (counter s) + Suc n < 2 ^ 64" and old: "token v \<le> counter s"
    and tracked: "slot s k = Some v \<or> chan v \<in> shut s \<and> (\<forall>w. slot s k = Some w \<longrightarrow> token w \<noteq> token v)"
  shows "slot s' k = Some v \<or> chan v \<in> shut s' \<and> (\<forall>w. slot s' k = Some w \<longrightarrow> token w \<noteq> token v)"
proof (cases "slot s' k = slot s k")
  case True
  then show ?thesis using tracked shut_mono [OF ex] by auto
next
  case False
  note M = moves [OF ex False]
  have "chan v \<in> shut s'" using tracked M shut_mono [OF ex] by blast
  moreover have "token w \<noteq> token v" if "slot s' k = Some w" for w
    using M that old counter_step(3) [OF ex room] by auto
  ultimately show ?thesis by blast
qed

lemma tracked_run:
  "run_calls exec cs s = Some (as, s') \<Longrightarrow> ok s \<Longrightarrow> unat (counter s) + length cs < 2 ^ 64 \<Longrightarrow> token v \<le> counter s
    \<Longrightarrow> slot s k = Some v \<or> chan v \<in> shut s \<and> (\<forall>w. slot s k = Some w \<longrightarrow> token w \<noteq> token v)
    \<Longrightarrow> slot s' k = Some v \<or> chan v \<in> shut s' \<and> (\<forall>w. slot s' k = Some w \<longrightarrow> token w \<noteq> token v)"
proof (induction cs arbitrary: s as)
  case (Cons c cs)
  obtain a bs s1 where 1: "exec c s = Some (a, s1)" "run_calls exec cs s1 = Some (bs, s')"
    using Cons.prems(1) by (elim run_calls_Cons)
  have room: "unat (counter s) + Suc (length cs) < 2 ^ 64" using Cons.prems(3) by simp
  show ?case
    using Cons.IH [OF 1(2) keeps [OF 1(1) Cons.prems(2)] counter_step(2) [OF 1(1) Cons.prems(2) room]]
      tracked_step [OF 1(1) Cons.prems(2) room Cons.prems(4,5)] counter_step(1) [OF 1(1) Cons.prems(2) room] Cons.prems(4)
    by (metis order_trans)
qed simp

end

subsection \<open>The registry simulates its specification\<close>

lemma registry_simulated:
  assumes "registry_ok (ir_registry w)"
  shows "\<exists>a w'. ingress_exec pa pp c w = Some (a, w') \<and> registry_ok (ir_registry w')
    \<and> spec_exec pa pp c (abs_registry (ir_registry w)) = (a, abs_registry (ir_registry w'))"
proof (cases c)
  case (Claim c port raw cport)
  obtain e r' where "claim_for_app pa c '''' port raw cport (ir_registry w) = (e, r')" by fastforce
  then show ?thesis using Claim claim_keeps [OF assms] claim_refines [OF assms]
    by (fastforce simp: claim_port_def changed_def)
next
  case (ClaimForApp c app port raw cport)
  obtain e r' where "claim_for_app pa c app port raw cport (ir_registry w) = (e, r')" by fastforce
  then show ?thesis using ClaimForApp claim_keeps [OF assms] claim_refines [OF assms]
    by (fastforce simp: changed_def)
next
  case (ClaimUDP c app port raw cport)
  then show ?thesis using claim_udp_refines [OF assms, of pa c app port raw cport] by (auto simp: changed_def)
next
  case (ClaimSource c app raw cidr ifindex)
  then show ?thesis using claim_source_refines [OF assms, of pa pp c app raw cidr ifindex] by (auto simp: changed_def)
next
  case (Release c)
  then show ?thesis using release_refines [OF assms, of c] by auto
next
  case (Dial port outcome)
  obtain x r' where d: "dial_authorized port outcome (ir_registry w) = (x, r')" by fastforce
  show ?thesis using dial_refines [OF assms d] Dial d by (cases x) (auto simp: dial_answer_def)
next
  case (CloseConn n)
  then show ?thesis using close_refines [OF assms] by simp
qed (use assms query_refines [OF assms] in simp_all)

interpretation published: simulation "ingress_exec pa pp" "spec_exec pa pp" "\<lambda>w. registry_ok (ir_registry w)"
    "\<lambda>w. abs_registry (ir_registry w)" for pa pp
  by unfold_locales (rule registry_simulated)

lemma abs_start: "abs_registry (ir_registry ingress_start) = spec_start"
  by (simp add: abs_registry_def ingress_start_def new_registry_def spec_start_def)

lemma start_ok: "registry_ok (ir_registry ingress_start)"
  using new_registry_ok by (simp add: ingress_start_def)

subsection \<open>What a call does to the UDP claims and the sources\<close>

definition claims_kept :: "registry \<Rightarrow> registry \<Rightarrow> bool" where
  "claims_kept r r' \<longleftrightarrow> rg_udp_by_port r' = rg_udp_by_port r \<and> rg_udp_targets r' = rg_udp_targets r
     \<and> rg_udp_token r' = rg_udp_token r \<and> rg_udp_done r' = rg_udp_done r \<and> rg_udp_next r' = rg_udp_next r
     \<and> rg_sources r' = rg_sources r \<and> rg_source_next r' = rg_source_next r \<and> rg_closed r' = rg_closed r"

lemma claims_kept_refl [simp]: "claims_kept r r"
  by (simp add: claims_kept_def)

lemma claims_kept_claim: "claims_kept r (snd (claim_for_app pa c app port raw cport r))"
  by (simp add: claim_for_app_def claims_kept_def split: option.split)

lemma claims_kept_dial: "claims_kept r (snd (dial_authorized port outcome r))"
  by (simp add: dial_authorized_def claims_kept_def Let_def split: dial_result.split)

lemma claims_kept_close: "claims_kept r (close_conn n r)"
  by (simp add: close_conn_def claims_kept_def Let_def)

lemma claim_udp_result:
  assumes "chan_ok r" "claim_udp pa c app port raw cport r = Some (e, r')"
  shows "r' = r \<or> (\<exists>ep. r' = udp_granted c app port ep (closing (map_of (rg_udp_done r) port) r))"
  using assms(2) unfolding claim_udp_def close_done [OF assms(1)]
  by (auto simp: udp_granted_def split: option.splits if_splits)

lemma claim_source_result:
  assumes "registry_ok r" "claim_source pa pp c app raw raw_cidr ifindex r = Some (e, r')"
  shows "r' = r \<or> (\<exists>ip cidr. r' = source_granted c app ip cidr ifindex (source_gone c r)
    \<and> (\<forall>x. map_of (rg_sources r) ip = Some x \<longrightarrow> sc_owner x = c))"
proof (cases "r' = r")
  case False
  then obtain ip cidr where "r' = source_granted c app ip (masked cidr) ifindex (source_gone c r)"
    and "\<forall>x. map_of (rg_sources r) ip = Some x \<longrightarrow> sc_owner x = [] \<or> sc_owner x = c"
    using assms(2) unfolding claim_source_def drop_source [OF assms(1)] source_granted_def
    by (auto simp del: source_gone_fields split: option.splits if_splits)
  then show ?thesis using source_okD(1) [OF registry_okD(6) [OF assms(1)]] by blast
qed simp

lemma exec_effect:
  assumes ok: "registry_ok (ir_registry w)" and ex: "ingress_exec pa pp call w = Some (a, w')"
  obtains "claims_kept (ir_registry w) (ir_registry w')"
  | c app port ep where "ir_registry w' = udp_granted c app port ep (closing (map_of (rg_udp_done (ir_registry w)) port) (ir_registry w))"
  | c app ip cidr ifindex where "ir_registry w' = source_granted c app ip cidr ifindex (source_gone c (ir_registry w))"
      "\<forall>x. map_of (rg_sources (ir_registry w)) ip = Some x \<longrightarrow> sc_owner x = c"
  | c where "release_facts c (ir_registry w) (ir_registry w')"
proof (cases call)
  case (Claim c port raw cport)
  then show thesis using ex that(1) claims_kept_claim by (auto simp: changed_def claim_port_def)
next
  case (ClaimForApp c app port raw cport)
  then show thesis using ex that(1) claims_kept_claim by (auto simp: changed_def)
next
  case (ClaimUDP c app port raw cport)
  then obtain e r' where r': "claim_udp pa c app port raw cport (ir_registry w) = Some (e, r')" "ir_registry w' = r'"
    using ex by (auto simp: changed_def)
  show thesis using claim_udp_result [OF registry_okD(7) [OF ok] r'(1)] r'(2) that(1,2) by auto
next
  case (ClaimSource c app raw cidr ifindex)
  then obtain e r' where r': "claim_source pa pp c app raw cidr ifindex (ir_registry w) = Some (e, r')" "ir_registry w' = r'"
    using ex by (auto simp: changed_def)
  show thesis using claim_source_result [OF ok r'(1)] r'(2) that(1,3) claims_kept_refl by metis
next
  case (Release c)
  show thesis
  proof (cases "c = ''''")
    case True
    then show thesis using ex Release that(1) by (auto simp: release_owner_def)
  next
    case False
    obtain r' where "release_owner c (ir_registry w) = Some (m_keys (set_at (rg_flows (ir_registry w)) c), r')"
      "release_facts c (ir_registry w) r'"
      using release_owner_is [OF ok False] by blast
    then show thesis using ex Release that(4) by auto
  qed
next
  case (Dial port outcome)
  then show thesis using ex that(1) claims_kept_dial [of "ir_registry w" port outcome] by (auto split: prod.splits sum.splits)
next
  case (CloseConn n)
  then show thesis using ex that(1) claims_kept_close by auto
qed (use ex that(1) in auto)

end
