(* ===== verification/Ingress_Tokens.thy ===== *)
theory Ingress_Tokens
  imports Ingress_Runs
begin

section \<open>Published ports: tokens, channels and connections over a run\<close>

subsection \<open>UDP claims\<close>

definition udp_slot :: "registry \<Rightarrow> u16 \<Rightarrow> (host_port \<times> u64 \<times> nat) option" where
  "udp_slot r p = (case (map_of (rg_udp_by_port r) p, map_of (rg_udp_done r) p) of
     (Some _, Some n) \<Rightarrow> Some (target_at (rg_udp_targets r) p, num_at (rg_udp_token r) p, n)
   | _ \<Rightarrow> None)"

lemma udp_slot_granted:
  "udp_slot (udp_granted c app port ep (closing ch r)) p =
    (if p = port then Some (ep, rg_udp_next r + 1, rg_channels r) else udp_slot r p)"
  by (auto simp: udp_slot_def udp_granted_def closing_def split: option.splits)

lemma udp_slot_cong:
  assumes "rg_udp_by_port r' = rg_udp_by_port r" "rg_udp_targets r' = rg_udp_targets r"
    "rg_udp_token r' = rg_udp_token r" "rg_udp_done r' = rg_udp_done r"
  shows "udp_slot r' p = udp_slot r p"
  unfolding udp_slot_def assms ..

lemma udp_slot_done: "udp_slot r p = Some v \<Longrightarrow> map_of (rg_udp_done r) p = Some (snd (snd v))"
  by (auto simp: udp_slot_def split: option.splits)

lemma closed_granted:
  "set (rg_closed (udp_granted c app port ep (closing ch r))) = set (rg_closed r) \<union> set_option ch"
  by (auto simp: udp_granted_def closing_def split: option.split)

lemma udp_slot_released:
  assumes "release_facts c r r'"
  shows "udp_slot r' p = (if map_of (rg_udp_by_port r) p = Some c then None else udp_slot r p)"
  using release_factsD(4,5,7,8) [OF assms, of p] by (simp add: udp_slot_def num_at_def target_at_def split: option.split)

lemma udp_moves:
  assumes ex: "ingress_exec pa pp call w = Some (a, w')" and ok: "registry_ok (ir_registry w)"
  shows "set (rg_closed (ir_registry w)) \<subseteq> set (rg_closed (ir_registry w'))"
    "rg_udp_next (ir_registry w') = rg_udp_next (ir_registry w) \<or> rg_udp_next (ir_registry w') = rg_udp_next (ir_registry w) + 1"
    "udp_slot (ir_registry w') p \<noteq> udp_slot (ir_registry w) p \<Longrightarrow>
      (\<forall>v. udp_slot (ir_registry w) p = Some v \<longrightarrow> snd (snd v) \<in> set (rg_closed (ir_registry w')))
      \<and> (\<forall>v. udp_slot (ir_registry w') p = Some v \<longrightarrow> rg_udp_next (ir_registry w') = rg_udp_next (ir_registry w) + 1
          \<and> fst (snd v) = rg_udp_next (ir_registry w'))"
proof -
  note S = registry_okD(6) [OF ok]
  let ?r = "ir_registry w" and ?r' = "ir_registry w'"
  have "set (rg_closed ?r) \<subseteq> set (rg_closed ?r') \<and> (rg_udp_next ?r' = rg_udp_next ?r \<or> rg_udp_next ?r' = rg_udp_next ?r + 1)
    \<and> (udp_slot ?r' p \<noteq> udp_slot ?r p \<longrightarrow> (\<forall>v. udp_slot ?r p = Some v \<longrightarrow> snd (snd v) \<in> set (rg_closed ?r'))
      \<and> (\<forall>v. udp_slot ?r' p = Some v \<longrightarrow> rg_udp_next ?r' = rg_udp_next ?r + 1 \<and> fst (snd v) = rg_udp_next ?r'))"
  proof (rule exec_effect [OF ok ex])
    assume "claims_kept ?r ?r'"
    then show ?thesis using udp_slot_cong [of ?r' ?r p] by (simp add: claims_kept_def)
  next
    fix c app port ep
    assume r': "?r' = udp_granted c app port ep (closing (map_of (rg_udp_done ?r) port) ?r)"
    have "rg_udp_next ?r' = rg_udp_next ?r + 1" by (simp add: r' udp_granted_def closing_def split: option.split)
    then show ?thesis using udp_slot_done [of ?r port]
      by (auto simp: r' udp_slot_granted closed_granted simp del: split_paired_All split: if_splits)
  next
    fix c app ip cidr ifindex
    assume r': "?r' = source_granted c app ip cidr ifindex (source_gone c ?r)"
    then have "udp_slot ?r' p = udp_slot ?r p" by (intro udp_slot_cong) (simp_all add: source_granted_def)
    moreover have "rg_udp_next ?r' = rg_udp_next ?r" "rg_closed ?r' = rg_closed (source_gone c ?r)"
      by (simp_all add: r' source_granted_def)
    ultimately show ?thesis using source_gone_closed [OF S, of c] by auto
  next
    fix c
    assume f: "release_facts c ?r ?r'"
    have "snd (snd v) \<in> set (rg_closed ?r')" if "map_of (rg_udp_by_port ?r) p = Some c" "udp_slot ?r p = Some v" for v
      using udp_slot_done [OF that(2)] that(1) release_factsD(17) [OF f] by blast
    then show ?thesis using udp_slot_released [OF f, of p] release_factsD(15,17) [OF f] source_gone_closed [OF S, of c]
      by (auto split: if_splits)
  qed
  then show "set (rg_closed ?r) \<subseteq> set (rg_closed ?r')" "rg_udp_next ?r' = rg_udp_next ?r \<or> rg_udp_next ?r' = rg_udp_next ?r + 1"
    "udp_slot ?r' p \<noteq> udp_slot ?r p \<Longrightarrow> (\<forall>v. udp_slot ?r p = Some v \<longrightarrow> snd (snd v) \<in> set (rg_closed ?r'))
      \<and> (\<forall>v. udp_slot ?r' p = Some v \<longrightarrow> rg_udp_next ?r' = rg_udp_next ?r + 1 \<and> fst (snd v) = rg_udp_next ?r')"
    by blast+
qed

interpretation udp_claims: incarnations "ingress_exec pa pp" "\<lambda>w. registry_ok (ir_registry w)" "\<lambda>w. udp_slot (ir_registry w)"
    "\<lambda>w. rg_udp_next (ir_registry w)" "\<lambda>w. set (rg_closed (ir_registry w))" "\<lambda>v. fst (snd v)" "\<lambda>v. snd (snd v)" for pa pp
  by unfold_locales (rule published.exec_ok udp_moves(1) udp_moves(2) udp_moves(3); assumption)+

subsection \<open>Sources\<close>

lemma source_moves:
  assumes ex: "ingress_exec pa pp call w = Some (a, w')" and ok: "registry_ok (ir_registry w)"
  shows "rg_source_next (ir_registry w') = rg_source_next (ir_registry w)
      \<or> rg_source_next (ir_registry w') = rg_source_next (ir_registry w) + 1"
    "map_of (rg_sources (ir_registry w')) ip \<noteq> map_of (rg_sources (ir_registry w)) ip \<Longrightarrow>
      (\<forall>x. map_of (rg_sources (ir_registry w)) ip = Some x \<longrightarrow> sc_done x \<in> set (rg_closed (ir_registry w')))
      \<and> (\<forall>x. map_of (rg_sources (ir_registry w')) ip = Some x \<longrightarrow> rg_source_next (ir_registry w') = rg_source_next (ir_registry w) + 1
          \<and> sc_token x = rg_source_next (ir_registry w'))"
proof -
  note S = registry_okD(6) [OF ok]
  let ?r = "ir_registry w" and ?r' = "ir_registry w'"
  have "(rg_source_next ?r' = rg_source_next ?r \<or> rg_source_next ?r' = rg_source_next ?r + 1)
    \<and> (map_of (rg_sources ?r') ip \<noteq> map_of (rg_sources ?r) ip \<longrightarrow>
      (\<forall>x. map_of (rg_sources ?r) ip = Some x \<longrightarrow> sc_done x \<in> set (rg_closed ?r'))
      \<and> (\<forall>x. map_of (rg_sources ?r') ip = Some x \<longrightarrow> rg_source_next ?r' = rg_source_next ?r + 1 \<and> sc_token x = rg_source_next ?r'))"
  proof (rule exec_effect [OF ok ex])
    assume "claims_kept ?r ?r'"
    then show ?thesis by (simp add: claims_kept_def)
  next
    fix c app port ep
    assume "?r' = udp_granted c app port ep (closing (map_of (rg_udp_done ?r) port) ?r)"
    then show ?thesis by (simp add: udp_granted_def closing_def split: option.split)
  next
    fix c app jp cidr ifindex
    assume free: "\<forall>x. map_of (rg_sources ?r) jp = Some x \<longrightarrow> sc_owner x = c"
      and r': "?r' = source_granted c app jp cidr ifindex (source_gone c ?r)"
    have F: "rg_source_next ?r' = rg_source_next ?r + 1" "rg_closed ?r' = rg_closed (source_gone c ?r)"
      "map_of (rg_sources ?r') ip = (if ip = jp then Some \<lparr>sc_owner = c, sc_app = app, sc_cidr = cidr, sc_ifindex = ifindex,
         sc_token = rg_source_next ?r + 1, sc_done = rg_channels ?r\<rparr> else map_of (rg_sources (source_gone c ?r)) ip)"
      by (simp_all add: r' source_granted_def)
    show ?thesis using source_gone_map [OF S, of c ip] free by (auto simp: F source_gone_closed [OF S] split: if_splits option.splits)
  next
    fix c
    assume f: "release_facts c ?r ?r'"
    show ?thesis using source_gone_map [OF S, of c ip] release_factsD(9,16,17) [OF f] source_gone_closed [OF S, of c]
      by (auto split: option.splits if_splits)
  qed
  then show "rg_source_next ?r' = rg_source_next ?r \<or> rg_source_next ?r' = rg_source_next ?r + 1"
    "map_of (rg_sources ?r') ip \<noteq> map_of (rg_sources ?r) ip \<Longrightarrow>
      (\<forall>x. map_of (rg_sources ?r) ip = Some x \<longrightarrow> sc_done x \<in> set (rg_closed ?r'))
      \<and> (\<forall>x. map_of (rg_sources ?r') ip = Some x \<longrightarrow> rg_source_next ?r' = rg_source_next ?r + 1 \<and> sc_token x = rg_source_next ?r')"
    by blast+
qed

interpretation source_claims: incarnations "ingress_exec pa pp" "\<lambda>w. registry_ok (ir_registry w)"
    "\<lambda>w. map_of (rg_sources (ir_registry w))" "\<lambda>w. rg_source_next (ir_registry w)"
    "\<lambda>w. set (rg_closed (ir_registry w))" sc_token sc_done for pa pp
  by unfold_locales (rule published.exec_ok udp_moves(1) source_moves(1) source_moves(2); assumption)+

text \<open>A channel that was handed out, in terms of the slots.\<close>

lemma udp_done_slot:
  assumes "udp_done port token r = Some n" 
  shows "\<exists>ep. udp_slot r port = Some (ep, token, n)" "token \<noteq> 0"
proof -
  have "str_at (rg_udp_by_port r) port \<noteq> ''''" "num_at (rg_udp_token r) port = token" "map_of (rg_udp_done r) port = Some n" "token \<noteq> 0"
    using assms by (auto simp: udp_done_def split: if_splits)
  moreover from this(1) obtain c where "map_of (rg_udp_by_port r) port = Some c" by (auto simp: str_at_def split: option.splits)
  ultimately show "\<exists>ep. udp_slot r port = Some (ep, token, n)" "token \<noteq> 0" by (simp_all add: udp_slot_def)
qed

lemma with_token_slot:
  assumes "registry_ok r" "port \<noteq> 0" "token \<noteq> 0"
  shows "with_udp_token port token r \<noteq> None \<longleftrightarrow> (\<exists>ep n. udp_slot r port = Some (ep, token, n))"
proof -
  note D = registry_okD [OF assms(1)]
  show ?thesis using chan_okD(1) [OF D(7), of port] assms(2,3) D(4) [of port]
    by (cases rule: index_at [OF D(2), of port]) (auto simp: with_udp_token_def udp_slot_def split: option.splits)
qed

lemma udp_port_nonzero: "registry_ok r \<Longrightarrow> udp_slot r port = Some v \<Longrightarrow> port \<noteq> 0"
  using index_okD(2) [OF registry_okD(2)] by (fastforce simp: udp_slot_def split: option.splits)

lemma start_fresh: "udp_slot (ir_registry ingress_start) k = None" "map_of (rg_sources (ir_registry ingress_start)) ip = None"
  "rg_udp_next (ir_registry ingress_start) = 0" "rg_source_next (ir_registry ingress_start) = 0"
  by (simp_all add: ingress_start_def new_registry_def udp_slot_def)

lemma udp_channel_exact:
  assumes run: "run_calls (ingress_exec pa pp) cs ingress_start = Some (as, w)"
    and later: "run_calls (ingress_exec pa pp) ds w = Some (bs, w')" and room: "length cs + length ds < 2 ^ 64"
    and ch: "udp_done port token (ir_registry w) = Some n"
  shows "n \<in> set (rg_closed (ir_registry w')) \<longleftrightarrow> with_udp_token port token (ir_registry w') = None"
proof -
  obtain ep where ep: "udp_slot (ir_registry w) port = Some (ep, token, n)" "token \<noteq> 0" using udp_done_slot [OF ch] by blast
  have F: "\<forall>k v. udp_slot (ir_registry w) k = Some v \<longrightarrow> fst (snd v) \<le> rg_udp_next (ir_registry w)"
    "unat (rg_udp_next (ir_registry w)) + length ds < 2 ^ 64" "registry_ok (ir_registry w)"
    using udp_claims.fresh_run [OF run start_ok] room by (simp_all add: start_fresh)
  have "token \<le> rg_udp_next (ir_registry w)" using F(1) ep(1) by fastforce
  then have T: "udp_slot (ir_registry w') port = Some (ep, token, n)
      \<or> n \<in> set (rg_closed (ir_registry w')) \<and> (\<forall>v. udp_slot (ir_registry w') port = Some v \<longrightarrow> fst (snd v) \<noteq> token)"
    using udp_claims.tracked_run [OF later F(3,2), of "(ep, token, n)" port] ep(1) by simp
  have ok: "registry_ok (ir_registry w')" using published.run_simulated [where s = w and cs = ds and pa = pa and pp = pp] F(3) later by auto
  have "n \<notin> set (rg_closed (ir_registry w'))" if "udp_slot (ir_registry w') port = Some (ep, token, n)"
    using chan_okD(3) [OF registry_okD(7) [OF ok]] udp_slot_done [OF that] by simp
  then show ?thesis using with_token_slot [OF ok udp_port_nonzero [OF F(3) ep(1)] ep(2)] T by fastforce
qed

lemma source_channel_exact:
  assumes run: "run_calls (ingress_exec pa pp) cs ingress_start = Some (as, w)"
    and later: "run_calls (ingress_exec pa pp) ds w = Some (bs, w')" and room: "length cs + length ds < 2 ^ 64"
    and ch: "source_done ip dst ifindex token (ir_registry w) = Some n"
  shows "n \<in> set (rg_closed (ir_registry w')) \<longleftrightarrow> \<not> with_source_token ip dst ifindex token (ir_registry w')"
proof -
  obtain x where x: "source_claim_at ip dst ifindex (ir_registry w) = Some x" "sc_token x = token" "sc_done x = n" "token \<noteq> 0"
    using ch by (auto simp: source_done_def split: if_splits option.splits)
  then have s: "map_of (rg_sources (ir_registry w)) ip = Some x" by (auto simp: source_claim_at_def split: option.splits if_splits)
  have F: "\<forall>k v. map_of (rg_sources (ir_registry w)) k = Some v \<longrightarrow> sc_token v \<le> rg_source_next (ir_registry w)"
    "unat (rg_source_next (ir_registry w)) + length ds < 2 ^ 64" "registry_ok (ir_registry w)"
    using source_claims.fresh_run [OF run start_ok] room by (simp_all add: start_fresh)
  have "sc_token x \<le> rg_source_next (ir_registry w)" using F(1) s by blast
  from source_claims.tracked_run [OF later F(3,2) this, of ip]
  have T: "map_of (rg_sources (ir_registry w')) ip = Some x
      \<or> n \<in> set (rg_closed (ir_registry w')) \<and> (\<forall>v. map_of (rg_sources (ir_registry w')) ip = Some v \<longrightarrow> sc_token v \<noteq> token)"
    using s unfolding x(2,3) by blast
  have ok: "registry_ok (ir_registry w')" using published.run_simulated [where s = w and cs = ds and pa = pa and pp = pp] F(3) later by auto
  show ?thesis
  proof (cases "map_of (rg_sources (ir_registry w')) ip = Some x")
    case True
    then have "source_claim_at ip dst ifindex (ir_registry w') = Some x" using x(1) s by (simp add: source_claim_at_def)
    then show ?thesis using claim_at_live [OF ok, of ip dst ifindex x] x by (simp add: with_source_token_def)
  next
    case False
    then show ?thesis using T by (auto simp: with_source_token_def source_claim_at_def split: option.splits if_splits)
  qed
qed

subsection \<open>Connections\<close>

text \<open>
  Every connection was dialed for a port, and until it is closed its owner still publishes that very endpoint, or a release
  is about to close it.
\<close>

definition admitted :: "ingress_run \<Rightarrow> nat \<Rightarrow> bool" where
  "admitted w n \<longleftrightarrow> (\<exists>port ep. (n, port, ep) \<in> set (ir_dialed w)
     \<and> map_of (rg_by_port (ir_registry w)) port = Some (cn_owner (rg_conns (ir_registry w) ! n))
     \<and> target_at (rg_targets (ir_registry w)) port = ep
     \<and> map_of (set_at (rg_flows (ir_registry w)) (cn_owner (rg_conns (ir_registry w) ! n))) n = Some ())"

definition live_conn :: "ingress_run \<Rightarrow> nat \<Rightarrow> bool" where
  "live_conn w n \<longleftrightarrow> n < length (rg_conns (ir_registry w)) \<and> \<not> cn_closed (rg_conns (ir_registry w) ! n) \<and> n \<notin> set (ir_closing w)"

lemma admitted_mono:
  assumes "admitted w n" "set (ir_dialed w) \<subseteq> set (ir_dialed w')" "rg_conns (ir_registry w') ! n = rg_conns (ir_registry w) ! n"
    and "\<And>p. map_of (rg_by_port (ir_registry w)) p = Some (cn_owner (rg_conns (ir_registry w) ! n)) \<Longrightarrow>
      map_of (rg_by_port (ir_registry w')) p = Some (cn_owner (rg_conns (ir_registry w) ! n))
      \<and> target_at (rg_targets (ir_registry w')) p = target_at (rg_targets (ir_registry w)) p"
    and "map_of (set_at (rg_flows (ir_registry w)) (cn_owner (rg_conns (ir_registry w) ! n))) n = Some () \<Longrightarrow>
      map_of (set_at (rg_flows (ir_registry w')) (cn_owner (rg_conns (ir_registry w) ! n))) n = Some ()"
  shows "admitted w' n"
proof -
  obtain port ep where "(n, port, ep) \<in> set (ir_dialed w)"
    "map_of (rg_by_port (ir_registry w)) port = Some (cn_owner (rg_conns (ir_registry w) ! n))"
    "target_at (rg_targets (ir_registry w)) port = ep"
    "map_of (set_at (rg_flows (ir_registry w)) (cn_owner (rg_conns (ir_registry w) ! n))) n = Some ()"
    using assms(1) unfolding admitted_def by blast
  then show ?thesis using assms(2,4,5) unfolding admitted_def assms(3)
    by (intro exI [of _ port] exI [of _ ep]) auto
qed

lemma claim_admitted:
  assumes cl: "claim_for_app pa c app port raw cport r = (e, r')" and ok: "registry_ok r"
    and p: "map_of (rg_by_port r) p = Some d"
  shows "map_of (rg_by_port r') p = Some d \<and> target_at (rg_targets r') p = target_at (rg_targets r) p"
  using claim_guard [OF cl registry_okD(1) [OF ok]] p by (cases "p = port") auto

lemma conns_kept:
  "rg_conns (udp_granted c app port ep (closing ch r)) = rg_conns r"
  "rg_by_port (udp_granted c app port ep (closing ch r)) = rg_by_port r"
  "rg_targets (udp_granted c app port ep (closing ch r)) = rg_targets r"
  "rg_flows (udp_granted c app port ep (closing ch r)) = rg_flows r"
  by (simp_all add: udp_granted_def closing_def split: option.split)

lemma claim_conns: "claim_for_app pa c app port raw cport r = (e, r') \<Longrightarrow> rg_conns r' = rg_conns r \<and> rg_flows r' = rg_flows r"
  by (auto simp: claim_for_app_def split: option.splits if_splits)

lemma admitted_start: "live_conn ingress_start n \<Longrightarrow> admitted ingress_start n"
  by (simp add: live_conn_def ingress_start_def new_registry_def)

lemma admitted_claim:
  assumes "claim_for_app pa c app port raw cport (ir_registry w) = (e, r')" "registry_ok (ir_registry w)"
    and inv: "\<And>n. live_conn w n \<Longrightarrow> admitted w n" and n: "live_conn (w\<lparr>ir_registry := r'\<rparr>) n"
  shows "admitted (w\<lparr>ir_registry := r'\<rparr>) n"
proof -
  note C = claim_conns [OF assms(1)]
  have "admitted w n" using inv n C by (simp add: live_conn_def)
  then show ?thesis by (rule admitted_mono) (use C claim_admitted [OF assms(1,2)] in auto)
qed

lemma admitted_release:
  assumes ok: "registry_ok (ir_registry w)" and f: "release_facts c (ir_registry w) r'"
    and inv: "\<And>n. live_conn w n \<Longrightarrow> admitted w n"
    and n: "live_conn (w\<lparr>ir_registry := r', ir_closing := m_keys (set_at (rg_flows (ir_registry w)) c) @ ir_closing w\<rparr>) n"
  shows "admitted (w\<lparr>ir_registry := r', ir_closing := m_keys (set_at (rg_flows (ir_registry w)) c) @ ir_closing w\<rparr>) n"
proof -
  note F = release_factsD [OF f]
  have old: "admitted w n" "map_of (set_at (rg_flows (ir_registry w)) c) n \<noteq> Some ()"
    using inv n F(14) by (auto simp: live_conn_def set_m_keys)
  then have "cn_owner (rg_conns (ir_registry w) ! n) \<noteq> c" by (auto simp: admitted_def)
  then show ?thesis using F(1,2,13,14) by (simp add: admitted_mono [OF old(1)] target_at_def)
qed

lemma admitted_dial:
  assumes ok: "registry_ok (ir_registry w)" and d: "dial_authorized port outcome (ir_registry w) = (Inr k, r')"
    and inv: "\<And>n. live_conn w n \<Longrightarrow> admitted w n"
    and n: "live_conn (w\<lparr>ir_registry := r', ir_dialed := (k, port, target_at (rg_targets (ir_registry w)) port) # ir_dialed w\<rparr>) n"
  shows "admitted (w\<lparr>ir_registry := r', ir_dialed := (k, port, target_at (rg_targets (ir_registry w)) port) # ir_dialed w\<rparr>) n"
proof -
  let ?r = "ir_registry w" and ?c = "str_at (rg_by_port (ir_registry w)) port"
  have R: "k = length (rg_conns ?r)" "?c \<noteq> ''''" "r' = ?r\<lparr>rg_conns := rg_conns ?r @ [\<lparr>cn_owner = ?c, cn_closed = False\<rparr>],
      rg_flows := m_put ?c (m_put k () (set_at (rg_flows ?r) ?c)) (rg_flows ?r)\<rparr>"
    using d by (auto simp: dial_authorized_def Let_def split: if_splits dial_result.splits)
  show ?thesis
  proof (cases "n = k")
    case True
    then show ?thesis using R(1,2) index_str_at(2) [OF registry_okD(1) [OF ok] R(2), of port]
      unfolding admitted_def by (intro exI [of _ port] exI [of _ "target_at (rg_targets ?r) port"]) (simp add: R(3))
  next
    case False
    then have l: "n < length (rg_conns ?r)" using n R(1) by (simp add: live_conn_def R(3))
    then have "admitted w n" using inv n by (simp add: live_conn_def R(3) nth_append)
    then show ?thesis by (rule admitted_mono) (use l in \<open>auto simp: R(3) nth_append\<close>)
  qed
qed

lemma admitted_close:
  assumes inv: "\<And>n. live_conn w n \<Longrightarrow> admitted w n"
    and n: "live_conn (w\<lparr>ir_registry := close_conn k (ir_registry w), ir_closing := filter (\<lambda>j. j \<noteq> k) (ir_closing w)\<rparr>) n"
  shows "admitted (w\<lparr>ir_registry := close_conn k (ir_registry w), ir_closing := filter (\<lambda>j. j \<noteq> k) (ir_closing w)\<rparr>) n"
proof -
  have k: "n \<noteq> k" using n by (auto simp: live_conn_def close_conn_conns split: if_splits)
  then have "admitted w n" using inv n by (auto simp: live_conn_def close_conn_conns split: if_splits)
  have flows: "map_of (set_at (rg_flows (close_conn k (ir_registry w))) d) n = Some ()
      \<longleftrightarrow> map_of (set_at (rg_flows (ir_registry w)) d) n = Some ()" for d
    using close_conn_flows [of k "ir_registry w" d n] k
    by (cases "k < length (rg_conns (ir_registry w)) \<and> \<not> cn_closed (rg_conns (ir_registry w) ! k)")
      (blast, simp only: close_conn_def if_False)
  from \<open>admitted w n\<close> show ?thesis by (rule admitted_mono) (use k flows in \<open>simp_all add: close_conn_fields close_conn_conns\<close>)
qed

lemma admitted_same:
  assumes inv: "\<And>n. live_conn w n \<Longrightarrow> admitted w n" and n: "live_conn (w\<lparr>ir_registry := r'\<rparr>) n"
    and eq: "rg_conns r' = rg_conns (ir_registry w)" "rg_by_port r' = rg_by_port (ir_registry w)"
      "rg_targets r' = rg_targets (ir_registry w)" "rg_flows r' = rg_flows (ir_registry w)"
  shows "admitted (w\<lparr>ir_registry := r'\<rparr>) n"
proof -
  have "admitted w n" using inv n by (simp add: live_conn_def eq)
  then show ?thesis by (rule admitted_mono) (simp_all add: eq)
qed

lemma admitted_step:
  assumes ok: "registry_ok (ir_registry w)" and ex: "ingress_exec pa pp call w = Some (a, w')"
    and inv: "\<And>n. live_conn w n \<Longrightarrow> admitted w n" and n: "live_conn w' n"
  shows "admitted w' n"
proof (cases call)
  case (Claim c port raw cport)
  obtain e r' where "claim_for_app pa c '''' port raw cport (ir_registry w) = (e, r')" by fastforce
  then show ?thesis using admitted_claim [OF _ ok inv] ex Claim n by (auto simp: changed_def claim_port_def)
next
  case (ClaimForApp c app port raw cport)
  obtain e r' where "claim_for_app pa c app port raw cport (ir_registry w) = (e, r')" by fastforce
  then show ?thesis using admitted_claim [OF _ ok inv] ex ClaimForApp n by (auto simp: changed_def)
next
  case (ClaimUDP c app port raw cport)
  then obtain e r' where r': "claim_udp pa c app port raw cport (ir_registry w) = Some (e, r')" "w' = w\<lparr>ir_registry := r'\<rparr>"
    using ex by (auto simp: changed_def)
  show ?thesis using claim_udp_result [OF registry_okD(7) [OF ok] r'(1)] n unfolding r'(2)
    by (intro admitted_same [OF inv]) (auto simp: conns_kept)
next
  case (ClaimSource c app raw cidr ifindex)
  then obtain e r' where r': "claim_source pa pp c app raw cidr ifindex (ir_registry w) = Some (e, r')" "w' = w\<lparr>ir_registry := r'\<rparr>"
    using ex by (auto simp: changed_def)
  show ?thesis using claim_source_result [OF ok r'(1)] n unfolding r'(2)
    by (intro admitted_same [OF inv]) (auto simp: source_granted_def)
next
  case (Release c)
  show ?thesis
  proof (cases "c = ''''")
    case True
    then show ?thesis using ex Release inv n by (auto simp: release_owner_def)
  next
    case False
    obtain r' where "release_owner c (ir_registry w) = Some (m_keys (set_at (rg_flows (ir_registry w)) c), r')"
      "release_facts c (ir_registry w) r'"
      using release_owner_is [OF ok False] by blast
    then show ?thesis using admitted_release [OF ok _ inv] ex Release n by auto
  qed
next
  case (Dial port outcome)
  obtain x r' where d: "dial_authorized port outcome (ir_registry w) = (x, r')" by fastforce
  show ?thesis
  proof (cases x)
    case (Inl err)
    then have "w' = w\<lparr>ir_registry := r'\<rparr>" "r' = ir_registry w"
      using ex Dial d by (auto simp: dial_authorized_def Let_def split: if_splits dial_result.splits)
    then show ?thesis using inv n by simp
  next
    case (Inr k)
    then show ?thesis using admitted_dial [OF ok d [unfolded Inr] inv] ex Dial d n by auto
  qed
next
  case (CloseConn k)
  then show ?thesis using admitted_close [OF inv] ex n by auto
qed (use ex inv n in auto)

lemma admitted_run:
  "run_calls (ingress_exec pa pp) cs w = Some (as, w') \<Longrightarrow> registry_ok (ir_registry w)
    \<Longrightarrow> (\<And>n. live_conn w n \<Longrightarrow> admitted w n) \<Longrightarrow> live_conn w' n \<Longrightarrow> admitted w' n"
proof (induction cs arbitrary: w as)
  case (Cons c cs)
  obtain a bs w1 where 1: "ingress_exec pa pp c w = Some (a, w1)" "run_calls (ingress_exec pa pp) cs w1 = Some (bs, w')"
    using Cons.prems(1) by (elim run_calls_Cons)
  show ?case
    using Cons.IH [OF 1(2) published.exec_ok [OF Cons.prems(2) 1(1)]] admitted_step [OF Cons.prems(2) 1(1) Cons.prems(3)] Cons.prems(4)
    by blast
qed simp

end
