(* ===== verification/Ingress_Props.thy ===== *)
theory Ingress_Props
  imports Ingress_Tokens
begin

section \<open>Published ports: properties and a sample run\<close>

text \<open>The refinement, what a channel tells its holder, and which connections may live; a run of a container that publishes and leaves.\<close>

definition one_ip :: "string \<Rightarrow> addr option" where
  "one_ip s = (if s = ''ip'' then Some (V4 [10, 88, 0, 5]) else None)"

definition one_cidr :: "string \<Rightarrow> prefix option" where
  "one_cidr s = (if s = ''cidr'' then Some (Pfx (V4 [10, 99, 0, 0]) 16) else None)"

definition publishing :: "ingress_call list" where
  "publishing = [ClaimForApp ''c'' ''app'' 80 ''ip'' 8080, ClaimUDP ''c'' ''app'' 53 ''ip'' 5353,
     ClaimSource ''c'' ''app'' ''ip'' ''cidr'' 4, Dial 80 Dialed]"

definition published_run :: ingress_run where
  "published_run = \<lparr>ir_registry = new_registry\<lparr>
     rg_by_port := [(80, ''c'')], rg_targets := [(80, (V4 [10, 88, 0, 5], 8080))], rg_app_by_port := [(80, ''app'')],
     rg_by_owner := [(''c'', [(80, ())])],
     rg_udp_by_port := [(53, ''c'')], rg_udp_targets := [(53, (V4 [10, 88, 0, 5], 5353))], rg_udp_app := [(53, ''app'')],
     rg_udp_by_owner := [(''c'', [(53, ())])], rg_udp_token := [(53, 1)], rg_udp_done := [(53, 1)], rg_udp_next := 1,
     rg_sources := [(V4 [10, 88, 0, 5], \<lparr>sc_owner = ''c'', sc_app = ''app'', sc_cidr = Pfx (V4 [10, 99, 0, 0]) 16,
       sc_ifindex = 4, sc_token = 1, sc_done = 2\<rparr>)],
     rg_source_by_owner := [(''c'', V4 [10, 88, 0, 5])], rg_source_next := 1, rg_channels := 3,
     rg_conns := [\<lparr>cn_owner = ''c'', cn_closed = False\<rparr>], rg_flows := [(''c'', [(0, ())])]\<rparr>,
     ir_closing = [], ir_dialed = [(0, 80, (V4 [10, 88, 0, 5], 8080))]\<rparr>"

lemma publishing_run:
  "run_calls (ingress_exec one_ip one_cidr) publishing ingress_start
   = Some ([Granted, Granted, Granted, Conn 0], published_run)"
  by code_simp

definition leaving :: "ingress_call list" where
  "leaving = [Release ''c'', SendUDPToken 53 1, ClaimUDP ''d'' ''app'' 53 ''ip'' 99]"

definition left_run :: ingress_run where
  "left_run = \<lparr>ir_registry = new_registry\<lparr>
     rg_udp_by_port := [(53, ''d'')], rg_udp_targets := [(53, (V4 [10, 88, 0, 5], 99))], rg_udp_app := [(53, ''app'')],
     rg_udp_by_owner := [(''d'', [(53, ())])], rg_udp_token := [(53, 2)], rg_udp_done := [(53, 3)], rg_udp_next := 2,
     rg_source_next := 1, rg_channels := 4, rg_closed := [1, 2], rg_conns := [\<lparr>cn_owner = ''c'', cn_closed = False\<rparr>]\<rparr>,
     ir_closing = [0], ir_dialed = [(0, 80, (V4 [10, 88, 0, 5], 8080))]\<rparr>"

lemma leaving_run:
  "run_calls (ingress_exec one_ip one_cidr) leaving published_run = Some ([Granted, Target None, Granted], left_run)"
  by code_simp

lemma published_channel: "udp_done 53 1 (ir_registry published_run) = Some 1"
  by code_simp

subsection \<open>Properties\<close>

text \<open>
  C32 (registry_refines): whatever calls containers, sessions and watchers make in whatever order, and whatever the parsers and
  dials return, the registry never panics, answers each call as the specification does, and ends in a state
  that stands for the specification's.
\<close>

theorem registry_refines:
  "\<exists>w. run_calls (ingress_exec pa pp) cs ingress_start = Some (fst (run_spec (spec_exec pa pp) cs spec_start), w)
    \<and> abs_registry (ir_registry w) = snd (run_spec (spec_exec pa pp) cs spec_start)"
  using published.run_simulated [OF start_ok, of pa pp cs] unfolding abs_start by auto

text \<open>
  C33 (done_channels_exact): a channel that UDPDone or SourceDone hands out for a token is, after any later calls, closed
  exactly when the token is no longer accepted, so a token once revoked stays revoked, whoever claims the port or the
  address next. The counters are 64 bits wide: the statement is for fewer calls than that.
\<close>

theorem done_channels_exact:
  assumes "run_calls (ingress_exec pa pp) cs ingress_start = Some (as, w)"
    and "run_calls (ingress_exec pa pp) ds w = Some (bs, w')" and "length cs + length ds < 2 ^ 64"
  shows "(udp_done port token (ir_registry w) = Some n \<longrightarrow>
      (n \<in> set (rg_closed (ir_registry w')) \<longleftrightarrow> with_udp_token port token (ir_registry w') = None))
    \<and> (source_done ip dst ifindex stoken (ir_registry w) = Some m \<longrightarrow>
      (m \<in> set (rg_closed (ir_registry w')) \<longleftrightarrow> \<not> with_source_token ip dst ifindex stoken (ir_registry w')))"
  using udp_channel_exact [OF assms] source_channel_exact [OF assms] by blast

theorem done_channels_witness:
  "1 \<in> set (rg_closed (ir_registry left_run)) \<longleftrightarrow> with_udp_token 53 1 (ir_registry left_run) = None"
proof -
  have "length publishing + length leaving < 2 ^ 64" by (simp add: publishing_def leaving_def)
  from done_channels_exact [OF publishing_run leaving_run this] published_channel show ?thesis by blast
qed

text \<open>
  C34 (live_connection_published): a connection that is neither closed nor about to be closed by a Release was dialed for an
  endpoint that its owner still publishes, unchanged, on the port it was dialed for.
\<close>

theorem live_connection_published:
  assumes "run_calls (ingress_exec pa pp) cs ingress_start = Some (as, w)"
    and "n < length (rg_conns (ir_registry w))" "\<not> cn_closed (rg_conns (ir_registry w) ! n)" "n \<notin> set (ir_closing w)"
  shows "\<exists>port ep. (n, port, ep) \<in> set (ir_dialed w) \<and> owned_by (cn_owner (rg_conns (ir_registry w) ! n)) port (ir_registry w)
    \<and> target_at (rg_targets (ir_registry w)) port = ep"
proof -
  have "admitted w n" using admitted_run [OF assms(1) start_ok admitted_start] assms(2-4) by (simp add: live_conn_def)
  moreover have "registry_ok (ir_registry w)" using published.run_simulated [OF start_ok, of pa pp cs] assms(1) by auto
  ultimately show ?thesis using index_okD(1,2) [OF registry_okD(1)]
    unfolding admitted_def owned_by_def by (metis str_at_Some)
qed

theorem live_connection_witness:
  "\<exists>port ep. (0, port, ep) \<in> set (ir_dialed published_run)
    \<and> owned_by (cn_owner (rg_conns (ir_registry published_run) ! 0)) port (ir_registry published_run)
    \<and> target_at (rg_targets (ir_registry published_run)) port = ep"
  by (rule live_connection_published [OF publishing_run]) (simp_all add: published_run_def)

end
