(* ===== verification/Mesh_Principal.thy ===== *)
theory Mesh_Principal
  imports Vip_File
begin

section \<open>Principals (shared/certs, shared/meshid)\<close>

text \<open>
  The parsers from principals and record keys to identities. The text of a UUID is the codec's. An error is \<open>None\<close>.
  \<open>url_ok s\<close> stands for \<open>net/url\<close>: \<open>s\<close> parses, without user, query or fragment, and the URL
  prints as \<open>s\<close> again.
\<close>

definition tenant_prefix :: string where
  "tenant_prefix = ''spiffe://wendy.sh/tenant/''"

datatype entity_type = EntityUser | EntityAsset | EntitySigner

record wendy_identity =
  wi_org :: int
  wi_type :: entity_type
  wi_entity :: string
  wi_tenant :: string
  wi_principal :: string

subsection \<open>Strings\<close>

definition cut_prefix :: "string \<Rightarrow> string \<Rightarrow> string option" where
  "cut_prefix p s = (if take (length p) s = p then Some (drop (length p) s) else None)"

definition cut_at :: "char \<Rightarrow> string \<Rightarrow> (string \<times> string) option" where
  "cut_at c s = (if c \<in> set s then Some (takeWhile (\<lambda>x. x \<noteq> c) s, tl (dropWhile (\<lambda>x. x \<noteq> c) s)) else None)"

fun split_at :: "char \<Rightarrow> string \<Rightarrow> string list" where
  "split_at c [] = [[]]"
| "split_at c (x # s) = (if x = c then [] # split_at c s
     else (case split_at c s of [] \<Rightarrow> [[x]] | seg # segs \<Rightarrow> (x # seg) # segs))"

subsection \<open>Parsers\<close>

definition identity_of_kind :: "string \<Rightarrow> string \<Rightarrow> string \<Rightarrow> string \<Rightarrow> wendy_identity option" where
  "identity_of_kind kind name tenant s =
     (let i = (\<lambda>ty e. \<lparr>wi_org = 0, wi_type = ty, wi_entity = e, wi_tenant = tenant, wi_principal = s\<rparr>) in
      if kind = ''operator'' then Some (i EntityUser name)
      else if kind = ''device'' then Some (i EntityAsset name)
      else if kind = ''signer'' then Some (i EntitySigner name)
      else if kind = ''service'' then
        (case (cut_prefix ''asset-'' name, cut_prefix ''user-'' name) of
           (Some e, _) \<Rightarrow> if e = '''' then None else Some (i EntityAsset e)
         | (None, Some e) \<Rightarrow> if e = '''' then None else Some (i EntityUser e)
         | (None, None) \<Rightarrow> Some (i EntityUser name))
      else None)"

definition parse_principal :: "text_codec \<Rightarrow> string \<Rightarrow> wendy_identity option" where
  "parse_principal tc s = (case cut_prefix tenant_prefix s of
     None \<Rightarrow> None
   | Some rest \<Rightarrow> (case cut_at (CHR ''/'') rest of
       None \<Rightarrow> None
     | Some (tenant, kn) \<Rightarrow>
         if parse_canonical tc tenant = None then None
         else (case cut_at (CHR ''/'') kn of
             None \<Rightarrow> None
           | Some (kind, name) \<Rightarrow> if name = '''' then None else identity_of_kind kind name tenant s)))"

definition ascii_alnum :: "char \<Rightarrow> bool" where
  "ascii_alnum c = list_ex (\<lambda>(lo, hi). lo \<le> c \<and> c \<le> hi) [(CHR ''a'', CHR ''z''), (CHR ''A'', CHR ''Z''), (CHR ''0'', CHR ''9'')]"

definition name_char :: "char \<Rightarrow> bool" where
  "name_char c = (ascii_alnum c \<or> c \<in> set ''._-'')"

definition name_segment :: "string \<Rightarrow> bool" where
  "name_segment seg \<longleftrightarrow> \<not> (length seg = 0 \<or> 64 < length seg \<or> seg = ''.'' \<or> seg = ''..'') \<and> list_all name_char seg"

definition parse_device_principal :: "text_codec \<Rightarrow> string \<Rightarrow> wendy_identity option" where
  "parse_device_principal tc s = (case parse_principal tc s of
     None \<Rightarrow> None
   | Some i \<Rightarrow>
       if s \<noteq> device_spiffe_uri (wi_tenant i) (wi_entity i) then None
       else if list_all name_segment (split_at (CHR ''/'') (wi_entity i)) then Some i
       else None)"

definition device_from_principal :: "text_codec \<Rightarrow> string \<Rightarrow> device option" where
  "device_from_principal tc s = (case parse_device_principal tc s of
     None \<Rightarrow> None
   | Some i \<Rightarrow> (case parse_canonical tc (wi_tenant i) of
       None \<Rightarrow> None
     | Some t \<Rightarrow> (case parse_canonical tc (wi_entity i) of
         None \<Rightarrow> None
       | Some u \<Rightarrow> Some (Device (Some t) u []))))"

definition peer_from_principal :: "text_codec \<Rightarrow> (string \<Rightarrow> bool) \<Rightarrow> string \<Rightarrow> device option" where
  "peer_from_principal tc url_ok s = (case device_from_principal tc s of
     Some d \<Rightarrow> Some d
   | None \<Rightarrow> (case parse_principal tc s of
       None \<Rightarrow> None
     | Some i \<Rightarrow> (case parse_canonical tc (wi_tenant i) of
         None \<Rightarrow> None
       | Some t \<Rightarrow>
           if wi_type i \<noteq> EntityUser \<or> wi_entity i = ''''
             \<or> s \<noteq> tenant_prefix @ tc_uuid tc t @ ''/operator/'' @ wi_entity i then None
           else if \<not> url_ok s \<or> 1024 < length s then None
           else if list_ex (\<lambda>c. c < CHR 0x20 \<or> c = CHR 0x7F) s then None
           else Some (Device (Some t) nil_uuid s))))"

definition peer_from_key :: "text_codec \<Rightarrow> (string \<Rightarrow> bool) \<Rightarrow> string \<Rightarrow> device option" where
  "peer_from_key tc url_ok key =
     (let (principal, instance_part) = (case cut_at (CHR ''#'') key of None \<Rightarrow> (key, None) | Some (p, i) \<Rightarrow> (p, Some i)) in
      case peer_from_principal tc url_ok principal of
        None \<Rightarrow> None
      | Some d \<Rightarrow>
          if \<not> is_operator d then (if instance_part \<noteq> None then None else Some d)
          else (case instance_part of
              None \<Rightarrow> None
            | Some i \<Rightarrow> (case parse_canonical tc i of None \<Rightarrow> None | Some u \<Rightarrow> with_instance d u)))"

definition parse_device :: "text_codec \<Rightarrow> bytes option \<Rightarrow> string \<Rightarrow> device option" where
  "parse_device tc tenant s =
     (if tenant = None then None
      else (case parse_canonical tc s of None \<Rightarrow> None | Some u \<Rightarrow> Some (Device tenant u [])))"

subsection \<open>Printing and parsing\<close>

lemma cut_at_append: "c \<notin> set a \<Longrightarrow> cut_at c (a @ c # b) = Some (a, b)"
  by (induction a) (auto simp: cut_at_def)

lemma cut_at_SomeD:
  assumes "cut_at c s = Some (a, b)"
  shows "s = a @ c # b" "c \<notin> set a"
proof -
  have c: "c \<in> set s" and ab: "a = takeWhile (\<lambda>x. x \<noteq> c) s" "b = tl (dropWhile (\<lambda>x. x \<noteq> c) s)"
    using assms by (auto simp: cut_at_def split: if_splits)
  then have "dropWhile (\<lambda>x. x \<noteq> c) s = c # b"
    by (metis (mono_tags, lifting) dropWhile_eq_Nil_conv hd_dropWhile list.collapse)
  then show "s = a @ c # b" using ab(1) by (metis takeWhile_dropWhile_id)
  show "c \<notin> set a" using ab(1) set_takeWhileD by fastforce
qed

lemma cut_prefix_Some: "cut_prefix p s = Some r \<longleftrightarrow> s = p @ r"
  by (auto simp: cut_prefix_def) (metis append_take_drop_id)

lemma split_at_none: "c \<notin> set s \<Longrightarrow> split_at c s = [s]"
  by (induction s) auto

lemma parse_canonical_Some: "parse_canonical tc s = Some u \<Longrightarrow> tc_uuid tc u = s \<and> tc_parse_uuid tc s = Some u"
  by (auto simp: parse_canonical_def split: option.splits if_splits)

definition uuid_text_ok :: "text_codec \<Rightarrow> bool" where
  "uuid_text_ok tc \<longleftrightarrow>
     (\<forall>u. length u = 16 \<longrightarrow> tc_parse_uuid tc (tc_uuid tc u) = Some u \<and> name_segment (tc_uuid tc u))
     \<and> (\<forall>s u. tc_parse_uuid tc s = Some u \<longrightarrow> length u = 16)"

lemma uuid_text:
  assumes "uuid_text_ok tc" "length u = 16"
  shows "parse_canonical tc (tc_uuid tc u) = Some u" "name_segment (tc_uuid tc u)"
    "CHR ''/'' \<notin> set (tc_uuid tc u)" "CHR ''#'' \<notin> set (tc_uuid tc u)" "tc_uuid tc u \<noteq> ''''"
proof -
  have seg: "tc_parse_uuid tc (tc_uuid tc u) = Some u" "name_segment (tc_uuid tc u)" using assms by (auto simp: uuid_text_ok_def)
  then show "parse_canonical tc (tc_uuid tc u) = Some u" "name_segment (tc_uuid tc u)" by (simp_all add: parse_canonical_def)
  have "name_char c" if "c \<in> set (tc_uuid tc u)" for c using seg(2) that by (auto simp: name_segment_def list_all_iff)
  moreover have "\<not> name_char (CHR ''/'')" "\<not> name_char (CHR ''#'')" by code_simp+
  ultimately show "CHR ''/'' \<notin> set (tc_uuid tc u)" "CHR ''#'' \<notin> set (tc_uuid tc u)" by blast+
  show "tc_uuid tc u \<noteq> ''''" using seg(2) by (auto simp: name_segment_def)
qed

definition principal_of :: "string \<Rightarrow> string \<Rightarrow> string \<Rightarrow> string" where
  "principal_of tenant kind name = tenant_prefix @ tenant @ CHR ''/'' # kind @ CHR ''/'' # name"

lemma principal_of_device: "device_spiffe_uri t e = principal_of t ''device'' e"
  by (simp add: device_spiffe_uri_def principal_of_def tenant_prefix_def)

lemma principal_of_operator: "tenant_prefix @ t @ ''/operator/'' @ e = principal_of t ''operator'' e"
  by (simp add: principal_of_def)

lemma principal_of_inject:
  assumes "CHR ''/'' \<notin> set t" "CHR ''/'' \<notin> set k" "CHR ''/'' \<notin> set t'" "CHR ''/'' \<notin> set k'"
  shows "principal_of t k n = principal_of t' k' n' \<longleftrightarrow> t = t' \<and> k = k' \<and> n = n'"
proof
  assume "principal_of t k n = principal_of t' k' n'"
  then have eq: "t @ CHR ''/'' # k @ CHR ''/'' # n = t' @ CHR ''/'' # k' @ CHR ''/'' # n'" by (simp add: principal_of_def)
  have "cut_at (CHR ''/'') (t @ CHR ''/'' # k @ CHR ''/'' # n) = Some (t', k' @ CHR ''/'' # n')"
    unfolding eq by (rule cut_at_append [OF assms(3)])
  then have t: "t = t'" "k @ CHR ''/'' # n = k' @ CHR ''/'' # n'" unfolding cut_at_append [OF assms(1)] by simp_all
  have "cut_at (CHR ''/'') (k @ CHR ''/'' # n) = Some (k', n')" unfolding t(2) by (rule cut_at_append [OF assms(4)])
  then show "t = t' \<and> k = k' \<and> n = n'" unfolding cut_at_append [OF assms(2)] using t(1) by simp
qed simp

lemma parse_principal_of:
  assumes "uuid_text_ok tc" "length t = 16" "CHR ''/'' \<notin> set kind" "name \<noteq> ''''"
  shows "parse_principal tc (principal_of (tc_uuid tc t) kind name)
    = identity_of_kind kind name (tc_uuid tc t) (principal_of (tc_uuid tc t) kind name)"
proof -
  have "cut_prefix tenant_prefix (principal_of (tc_uuid tc t) kind name) = Some (tc_uuid tc t @ CHR ''/'' # kind @ CHR ''/'' # name)"
    by (simp add: cut_prefix_Some principal_of_def)
  then show ?thesis using assms cut_at_append [OF uuid_text(3) [OF assms(1,2)]] cut_at_append [OF assms(3)] uuid_text(1) [OF assms(1,2)]
    by (simp add: parse_principal_def)
qed

lemma parse_principal_Some:
  assumes "uuid_text_ok tc" "parse_principal tc s = Some i"
  obtains t kind name where "length t = 16" "wi_tenant i = tc_uuid tc t" "CHR ''/'' \<notin> set kind" "name \<noteq> ''''"
    "s = principal_of (tc_uuid tc t) kind name" "identity_of_kind kind name (tc_uuid tc t) s = Some i"
proof -
  obtain rest tenant kn kind name where p: "cut_prefix tenant_prefix s = Some rest" "cut_at (CHR ''/'') rest = Some (tenant, kn)"
    "parse_canonical tc tenant \<noteq> None" "cut_at (CHR ''/'') kn = Some (kind, name)" "name \<noteq> ''''"
    "identity_of_kind kind name tenant s = Some i"
    using assms(2) by (auto simp: parse_principal_def split: option.splits if_splits)
  then obtain t where t: "parse_canonical tc tenant = Some t" by auto
  have "wi_tenant i = tenant" using p(6) by (auto simp: identity_of_kind_def Let_def split: if_splits option.splits)
  moreover have "s = principal_of tenant kind name"
    using p(1) cut_at_SomeD(1) [OF p(2)] cut_at_SomeD(1) [OF p(4)] by (simp add: cut_prefix_Some principal_of_def)
  moreover have "tc_uuid tc t = tenant" "length t = 16" using parse_canonical_Some [OF t] assms(1) by (auto simp: uuid_text_ok_def)
  ultimately show thesis using that [of t kind name] p(5,6) cut_at_SomeD(2) [OF p(4)] by simp
qed

lemma device_from_principal_iff:
  assumes tc: "uuid_text_ok tc"
  shows "device_from_principal tc s = Some d \<longleftrightarrow>
    (\<exists>t u. d = Device (Some t) u [] \<and> length t = 16 \<and> length u = 16 \<and> s = device_spiffe_uri (tc_uuid tc t) (tc_uuid tc u))"
proof
  assume "device_from_principal tc s = Some d"
  then obtain i t u where i: "parse_device_principal tc s = Some i" "parse_canonical tc (wi_tenant i) = Some t"
    "parse_canonical tc (wi_entity i) = Some u" "d = Device (Some t) u []"
    by (auto simp: device_from_principal_def split: option.splits)
  then have "s = device_spiffe_uri (wi_tenant i) (wi_entity i)"
    by (auto simp: parse_device_principal_def split: option.splits if_splits)
  then show "\<exists>t u. d = Device (Some t) u [] \<and> length t = 16 \<and> length u = 16 \<and> s = device_spiffe_uri (tc_uuid tc t) (tc_uuid tc u)"
    using i(4) parse_canonical_Some [OF i(2)] parse_canonical_Some [OF i(3)] tc by (auto simp: uuid_text_ok_def)
next
  assume "\<exists>t u. d = Device (Some t) u [] \<and> length t = 16 \<and> length u = 16 \<and> s = device_spiffe_uri (tc_uuid tc t) (tc_uuid tc u)"
  then obtain t u where d: "d = Device (Some t) u []" "length t = 16" "length u = 16"
    "s = principal_of (tc_uuid tc t) ''device'' (tc_uuid tc u)"
    by (auto simp: principal_of_device)
  have "parse_principal tc s = Some \<lparr>wi_org = 0, wi_type = EntityAsset, wi_entity = tc_uuid tc u, wi_tenant = tc_uuid tc t, wi_principal = s\<rparr>"
    using parse_principal_of [OF tc d(2), of "''device''" "tc_uuid tc u"] uuid_text(5) [OF tc d(3)]
    by (simp add: d(4) identity_of_kind_def)
  then show "device_from_principal tc s = Some d"
    using uuid_text [OF tc d(2)] uuid_text [OF tc d(3)] split_at_none [of "CHR ''/''" "tc_uuid tc u"] d(1)
    by (simp add: device_from_principal_def parse_device_principal_def principal_of_device d(4))
qed

definition operator_text :: "text_codec \<Rightarrow> (string \<Rightarrow> bool) \<Rightarrow> bytes \<Rightarrow> string \<Rightarrow> bool" where
  "operator_text tc url_ok t s \<longleftrightarrow> (\<exists>name. name \<noteq> '''' \<and> s = principal_of (tc_uuid tc t) ''operator'' name)
     \<and> url_ok s \<and> length s \<le> 1024 \<and> \<not> list_ex (\<lambda>c. c < CHR 0x20 \<or> c = CHR 0x7F) s"

lemma operator_no_device:
  assumes "uuid_text_ok tc" "length t = 16"
  shows "device_from_principal tc (principal_of (tc_uuid tc t) ''operator'' name) = None"
proof (rule ccontr)
  assume "device_from_principal tc (principal_of (tc_uuid tc t) ''operator'' name) \<noteq> None"
  then obtain t' u where t': "length t' = 16"
    "principal_of (tc_uuid tc t) ''operator'' name = principal_of (tc_uuid tc t') ''device'' (tc_uuid tc u)"
    using device_from_principal_iff [OF assms(1)] by (auto simp: principal_of_device)
  then show False
    using principal_of_inject [of "tc_uuid tc t" "''operator''" "tc_uuid tc t'" "''device''"]
      uuid_text(3) [OF assms] uuid_text(3) [OF assms(1) t'(1)] by simp
qed

lemma peer_from_principal_iff:
  assumes tc: "uuid_text_ok tc"
  shows "peer_from_principal tc url_ok s = Some d \<longleftrightarrow> device_from_principal tc s = Some d
    \<or> (\<exists>t. length t = 16 \<and> operator_text tc url_ok t s \<and> d = Device (Some t) nil_uuid s)"
proof (cases "device_from_principal tc s")
  case None
  show ?thesis
  proof
    assume "peer_from_principal tc url_ok s = Some d"
    then obtain i t where i: "parse_principal tc s = Some i" "parse_canonical tc (wi_tenant i) = Some t"
      "wi_entity i \<noteq> ''''" "s = tenant_prefix @ tc_uuid tc t @ ''/operator/'' @ wi_entity i" "url_ok s" "length s \<le> 1024"
      "\<not> list_ex (\<lambda>c. c < CHR 0x20 \<or> c = CHR 0x7F) s" "d = Device (Some t) nil_uuid s"
      unfolding peer_from_principal_def None by (auto split: option.splits if_splits)
    have "length t = 16" using parse_canonical_Some [OF i(2)] tc by (auto simp: uuid_text_ok_def)
    moreover have "operator_text tc url_ok t s" using i(3-7) unfolding operator_text_def principal_of_operator by blast
    ultimately show "device_from_principal tc s = Some d \<or> (\<exists>t. length t = 16 \<and> operator_text tc url_ok t s \<and> d = Device (Some t) nil_uuid s)"
      using i(8) by blast
  next
    assume "device_from_principal tc s = Some d \<or> (\<exists>t. length t = 16 \<and> operator_text tc url_ok t s \<and> d = Device (Some t) nil_uuid s)"
    then obtain t name where t: "length t = 16" "name \<noteq> ''''" "s = principal_of (tc_uuid tc t) ''operator'' name"
      "url_ok s" "length s \<le> 1024" "\<not> list_ex (\<lambda>c. c < CHR 0x20 \<or> c = CHR 0x7F) s" "d = Device (Some t) nil_uuid s"
      using None by (auto simp: operator_text_def)
    have "parse_principal tc s = Some \<lparr>wi_org = 0, wi_type = EntityUser, wi_entity = name, wi_tenant = tc_uuid tc t, wi_principal = s\<rparr>"
      using parse_principal_of [OF tc t(1), of "''operator''" name] t(2) by (simp add: t(3) identity_of_kind_def)
    then show "peer_from_principal tc url_ok s = Some d"
      using t uuid_text(1) [OF tc t(1)] None unfolding peer_from_principal_def principal_of_operator by simp
  qed
next
  case (Some d')
  have "\<not> operator_text tc url_ok t s" if "length t = 16" for t
    using operator_no_device [OF tc that] Some by (auto simp: operator_text_def)
  then show ?thesis using Some by (auto simp: peer_from_principal_def)
qed

text \<open>The identities a record key can name: devices, and operators with an installation.\<close>

definition keyed :: "text_codec \<Rightarrow> (string \<Rightarrow> bool) \<Rightarrow> device \<Rightarrow> bool" where
  "keyed tc url_ok d \<longleftrightarrow> (\<exists>t. dv_tenant d = Some t \<and> length t = 16 \<and> length (dv_id d) = 16
     \<and> (dv_operator d = [] \<or> dv_id d \<noteq> nil_uuid \<and> operator_text tc url_ok t (dv_operator d)))"

lemma operator_text_nonempty: "operator_text tc url_ok t s \<Longrightarrow> s \<noteq> []"
  by (auto simp: operator_text_def principal_of_def tenant_prefix_def)

lemma device_uri_no_hash:
  assumes "uuid_text_ok tc" "length t = 16" "length u = 16"
  shows "CHR ''#'' \<notin> set (device_spiffe_uri (tc_uuid tc t) (tc_uuid tc u))"
  using uuid_text(4) [OF assms(1)] assms(2,3) by (simp add: device_spiffe_uri_def)

lemma cut_at_none: "c \<notin> set s \<Longrightarrow> cut_at c s = None"
  by (simp add: cut_at_def)

lemma key_parses:
  assumes tc: "uuid_text_ok tc" and url: "\<And>s. url_ok s \<Longrightarrow> CHR ''#'' \<notin> set s" and d: "keyed tc url_ok d"
  shows "peer_from_key tc url_ok (device_key (tc_uuid tc) d) = Some d"
proof -
  obtain t where t: "dv_tenant d = Some t" "length t = 16" "length (dv_id d) = 16"
    "dv_operator d = [] \<or> dv_id d \<noteq> nil_uuid \<and> operator_text tc url_ok t (dv_operator d)"
    using d by (auto simp: keyed_def)
  have valid: "dv_valid d" using t(1) by (simp add: dv_valid_def)
  show ?thesis
  proof (cases "dv_operator d = []")
    case True
    let ?s = "device_spiffe_uri (tc_uuid tc t) (tc_uuid tc (dv_id d))"
    have "device_key (tc_uuid tc) d = ?s"
      using True t(1) valid by (simp add: device_key_def is_operator_def peer_principal_def tenant_text_def)
    moreover have "peer_from_principal tc url_ok ?s = Some d"
      using device_from_principal_iff [OF tc, of ?s d] peer_from_principal_iff [OF tc, of url_ok ?s d] t True by (cases d) auto
    ultimately show ?thesis using cut_at_none [OF device_uri_no_hash [OF tc t(2,3)]] True
      by (simp add: peer_from_key_def is_operator_def)
  next
    case False
    then have op: "dv_id d \<noteq> nil_uuid" "operator_text tc url_ok t (dv_operator d)" using t(4) by auto
    have "device_key (tc_uuid tc) d = dv_operator d @ CHR ''#'' # tc_uuid tc (dv_id d)"
      using False valid by (simp add: device_key_def is_operator_def peer_principal_def)
    moreover have "CHR ''#'' \<notin> set (dv_operator d)" using url op(2) by (auto simp: operator_text_def)
    moreover have "peer_from_principal tc url_ok (dv_operator d) = Some (Device (Some t) nil_uuid (dv_operator d))"
      using peer_from_principal_iff [OF tc] op(2) t(2) by blast
    ultimately show ?thesis using cut_at_append uuid_text(1) [OF tc t(3)] False op(1) t(1)
      by (cases d) (simp add: peer_from_key_def is_operator_def with_instance_def)
  qed
qed

lemma parsed_key:
  assumes tc: "uuid_text_ok tc" and p: "peer_from_key tc url_ok key = Some d"
  shows "keyed tc url_ok d \<and> device_key (tc_uuid tc) d = key"
proof (cases "cut_at (CHR ''#'') key")
  case None
  then have "peer_from_principal tc url_ok key = Some d" "\<not> is_operator d"
    using p by (auto simp: peer_from_key_def split: option.splits if_splits)
  then have "device_from_principal tc key = Some d"
    using peer_from_principal_iff [OF tc, of url_ok key d] operator_text_nonempty by (auto simp: is_operator_def)
  then show ?thesis using device_from_principal_iff [OF tc]
    by (auto simp: keyed_def device_key_def is_operator_def peer_principal_def dv_valid_def tenant_text_def)
next
  case (Some x)
  obtain s i where x: "x = (s, i)" by (cases x)
  then obtain d0 u where u: "peer_from_principal tc url_ok s = Some d0" "is_operator d0" "parse_canonical tc i = Some u"
    "with_instance d0 u = Some d"
    using p Some by (auto simp: peer_from_key_def split: option.splits if_splits)
  then have "device_from_principal tc s \<noteq> Some d0"
    using device_from_principal_iff [OF tc] by (auto simp: is_operator_def)
  then obtain t where t: "length t = 16" "operator_text tc url_ok t s" "d0 = Device (Some t) nil_uuid s"
    using u(1) peer_from_principal_iff [OF tc] by blast
  have "d = Device (Some t) u s" "u \<noteq> nil_uuid" using u(4) t(3) by (auto simp: with_instance_def split: if_splits)
  moreover have "tc_uuid tc u = i" "length u = 16" using parse_canonical_Some [OF u(3)] tc by (auto simp: uuid_text_ok_def)
  ultimately show ?thesis using t(1,2) cut_at_SomeD(1) [of "CHR ''#''" key s i] Some x operator_text_nonempty [OF t(2)]
    by (simp add: keyed_def device_key_def is_operator_def peer_principal_def dv_valid_def)
qed

subsection \<open>A codec\<close>

definition letter :: "nat \<Rightarrow> char" where
  "letter n = char_of (97 + n)"

fun letter_pairs :: "string \<Rightarrow> bytes" where
  "letter_pairs (a # b # s) = of_nat (16 * (of_char a - 97) + (of_char b - 97)) # letter_pairs s"
| "letter_pairs _ = []"

definition letter_text :: "bytes \<Rightarrow> string" where
  "letter_text u = concat (map (\<lambda>b. [letter (unat b div 16), letter (unat b mod 16)]) u)"

definition letter_codec :: text_codec where
  "letter_codec = \<lparr>tc_uuid = letter_text, tc_parse_uuid = (\<lambda>s. if length s = 32 then Some (letter_pairs s) else None),
     tc_addr = (\<lambda>a. ''''), tc_parse_addr = (\<lambda>s. None), tc_prefix = (\<lambda>p. ''''), tc_parse_prefix = (\<lambda>s. None)\<rparr>"

lemma of_char_letter: "n < 16 \<Longrightarrow> (of_char (letter n) :: nat) = 97 + n"
  by (simp add: letter_def)

lemma letter_round_trip: "letter_pairs (letter_text u) = u"
proof (induction u)
  case (Cons b u)
  have b: "unat b < 256" using unsigned_less [of b, where 'a = nat] by simp
  then have "(of_char (letter (unat b div 16)) :: nat) - 97 = unat b div 16" by (subst of_char_letter) simp_all
  moreover have "(of_char (letter (unat b mod 16)) :: nat) - 97 = unat b mod 16" by (subst of_char_letter) simp_all
  ultimately show ?case using Cons by (simp add: letter_text_def)
qed (simp add: letter_text_def)

lemma letter_name_char: "n < 16 \<Longrightarrow> name_char (letter n)"
proof -
  assume "n < 16"
  then have "n \<in> set [0..<16]" by simp
  moreover have "list_all (\<lambda>n. name_char (letter n)) [0..<16]" by code_simp
  ultimately show ?thesis by (simp add: list_all_iff)
qed

lemma length_letter_text: "length (letter_text u) = 2 * length u"
  by (induction u) (simp_all add: letter_text_def)

lemma length_letter_pairs: "length (letter_pairs s) = length s div 2"
  by (induction s rule: letter_pairs.induct) simp_all

lemma letter_codec_ok: "uuid_text_ok letter_codec"
proof -
  have "name_segment (letter_text u)" if "length u = 16" for u
  proof -
    have "name_char c" if c: "c \<in> set (letter_text u)" for c
    proof -
      obtain b where "b \<in> set u" "c = letter (unat b div 16) \<or> c = letter (unat b mod 16)" using c by (auto simp: letter_text_def)
      moreover have "unat b < 256" using unsigned_less [of b, where 'a = nat] by simp
      ultimately show ?thesis using letter_name_char [of "unat b div 16"] letter_name_char [of "unat b mod 16"] by auto
    qed
    moreover have "length (letter_text u) = 32" using that by (simp add: length_letter_text)
    ultimately show ?thesis by (auto simp: name_segment_def list_all_iff)
  qed
  then show ?thesis using letter_round_trip length_letter_text length_letter_pairs by (simp add: uuid_text_ok_def letter_codec_def)
qed

subsection \<open>Properties\<close>

text \<open>
  C23 (record_keys_round_trip): a text is the record key of an identity exactly when it parses to it: keys of devices and of
  operator installations are never confused, not even those of one operator, and no other text is accepted.
  The UUID texts are those of the \<open>uuid\<close> package in that they are short path segments it parses back, and \<open>net/url\<close>
  finds a fragment after every number sign.
\<close>

theorem record_keys_round_trip:
  assumes "uuid_text_ok tc" "\<And>s. url_ok s \<Longrightarrow> CHR ''#'' \<notin> set s"
  shows "peer_from_key tc url_ok key = Some d \<longleftrightarrow> keyed tc url_ok d \<and> device_key (tc_uuid tc) d = key"
  using key_parses [OF assms] parsed_key [OF assms(1)] by blast

theorem record_keys_witness:
  "peer_from_key letter_codec (\<lambda>s. CHR ''#'' \<notin> set s)
     (device_key (tc_uuid letter_codec) (Device (Some (replicate 16 1)) (replicate 16 7) []))
   = Some (Device (Some (replicate 16 1)) (replicate 16 7) [])"
proof -
  have "keyed letter_codec (\<lambda>s. CHR ''#'' \<notin> set s) (Device (Some (replicate 16 1)) (replicate 16 7) [])"
    by (simp add: keyed_def)
  then show ?thesis
    using record_keys_round_trip [OF letter_codec_ok, of "\<lambda>s. CHR ''#'' \<notin> set s"] by blast
qed

end
