(* ===== verification/Sharing_Policy.thy ===== *)
theory Sharing_Policy
  imports Mesh_Principal Babel_Types
begin

section \<open>Internet sharing: decisions (meshsharing/policy.go, meshcatalog/record.go)\<close>

text \<open>
  Which physical uplink a device shares, and from which donor it borrows. A time is in nanoseconds since 1970;
  \<open>zero_time\<close> is Go's zero \<open>Time\<close>. \<open>slices.SortFunc\<close> is insertion by its comparison, which has no ties between
  the devices of one tenant.
\<close>

definition zero_time :: int where
  "zero_time = -62135596800000000000"

definition unix_milli :: "int \<Rightarrow> int" where
  "unix_milli t = t * 1000000"

subsection \<open>Configuration\<close>

record share_config =
  shc_participate :: bool
  shc_roam :: bool
  shc_share :: bool
  shc_uplinks :: "string list"
  shc_excluded :: "string list"

definition name_byte :: "char \<Rightarrow> bool" where
  "name_byte r = (ascii_alnum r \<or> r \<in> set ''_-.'')"

definition has_prefix :: "string \<Rightarrow> string \<Rightarrow> bool" where
  "has_prefix s p \<longleftrightarrow> take (length p) s = p"

definition valid_physical_name :: "string \<Rightarrow> bool" where
  "valid_physical_name n \<longleftrightarrow>
     \<not> (n = '''' \<or> 15 < length n \<or> n = ''.'' \<or> n = ''..'' \<or> has_prefix n ''wlm'' \<or> has_prefix n ''wnan'' \<or> has_prefix n ''wnp'')
     \<and> list_all name_byte n"

fun fresh_names :: "string list \<Rightarrow> string list \<Rightarrow> bool" where
  "fresh_names seen [] = True"
| "fresh_names seen (n # ns) = (if \<not> valid_physical_name n \<or> n \<in> set seen then False else fresh_names (n # seen) ns)"

definition share_config_ok :: "share_config \<Rightarrow> bool" where
  "share_config_ok c \<longleftrightarrow>
     (if \<not> shc_participate c \<and> (shc_roam c \<or> shc_share c) then False else fresh_names [] (shc_uplinks c @ shc_excluded c))"

record uplink =
  ul_interface :: string
  ul_dns :: string
  ul_healthy :: bool
  ul_independent :: bool

definition no_uplink :: uplink where
  "no_uplink = \<lparr>ul_interface = '''', ul_dns = '''', ul_healthy = False, ul_independent = False\<rparr>"

definition eligible_uplink :: "share_config \<Rightarrow> uplink \<Rightarrow> bool" where
  "eligible_uplink c u \<longleftrightarrow> valid_physical_name (ul_interface u) \<and> ul_healthy u \<and> ul_independent u
     \<and> ul_interface u \<notin> set (shc_excluded c) \<and> (length (shc_uplinks c) = 0 \<or> ul_interface u \<in> set (shc_uplinks c))"

subsection \<open>Decide\<close>

record gateway =
  gw_device :: device
  gw_address :: addr
  gw_expires :: int
  gw_link :: link_id
  gw_verified :: bool
  gw_reachable :: bool

definition no_gateway :: gateway where
  "no_gateway = \<lparr>gw_device = no_device, gw_address = NoAddr, gw_expires = zero_time, gw_link = 0, gw_verified = False,
     gw_reachable = False\<rparr>"

datatype share_mode = NoMode | Disabled | LocalUplink | Relay | Offline | Roaming

record decision =
  dc_mode :: share_mode
  dc_interface :: string
  dc_dns :: string
  dc_device :: device
  dc_address :: addr
  dc_link :: link_id
  dc_reason :: string

definition decided :: "share_mode \<Rightarrow> string \<Rightarrow> decision" where
  "decided mode reason = \<lparr>dc_mode = mode, dc_interface = '''', dc_dns = '''', dc_device = no_device, dc_address = NoAddr,
     dc_link = 0, dc_reason = reason\<rparr>"

definition own_uplink :: "share_config \<Rightarrow> uplink list \<Rightarrow> uplink" where
  "own_uplink c us = fold (\<lambda>u own.
     if eligible_uplink c u \<and> (ul_interface own = '''' \<or> ul_interface u < ul_interface own) then u else own) us no_uplink"

definition decide :: "share_config \<Rightarrow> device \<Rightarrow> uplink list \<Rightarrow> gateway \<Rightarrow> int \<Rightarrow> decision" where
  "decide c self us g now =
     (if \<not> share_config_ok c \<or> \<not> shc_participate c then decided Disabled ''participation disabled or invalid''
      else
        (let own = own_uplink c us in
         if ul_interface own \<noteq> '''' then
           (let d = decided LocalUplink ''healthy independent uplink'' in
            if shc_share c then d\<lparr>dc_interface := ul_interface own, dc_dns := ul_dns own\<rparr> else d)
         else if \<not> shc_roam c then decided Relay ''roaming disabled''
         else if \<not> gw_verified g \<or> \<not> gw_reachable g \<or> gw_device g = self \<or> \<not> now < gw_expires g \<or> \<not> in_mesh (gw_address g)
           \<or> gw_link g = 0
         then decided Offline ''no verified reachable gateway''
         else (decided Roaming ''using signed wendy net gateway'')\<lparr>dc_device := gw_device g, dc_address := gw_address g,
           dc_link := gw_link g\<rparr>))"

subsection \<open>Donors\<close>

record catalog_key =
  ck_mesh :: string
  ck_device :: string
  ck_app :: string
  ck_service :: string

record catalog_record =
  cr_version :: int
  cr_key :: catalog_key
  cr_generation :: u64
  cr_type :: string
  cr_instance :: string
  cr_port :: u16
  cr_txt :: "string list"
  cr_issued :: int
  cr_expires :: int
  cr_withdraw :: bool

definition is_gateway_offer :: "catalog_record \<Rightarrow> bool" where
  "is_gateway_offer r \<longleftrightarrow> cr_version r = 1 \<and> ck_app (cr_key r) = ''wendy.mesh.system'' \<and> ck_service (cr_key r) = ''internet-gateway''
     \<and> cr_type r = '''' \<and> cr_instance r = '''' \<and> cr_port r = 0 \<and> length (cr_txt r) = 0"

text \<open>Of a manifest and of a snapshot of the node, what the policy reads.\<close>

record manifest_lease =
  ml_device :: bytes
  ml_withdraw :: bool
  ml_issued :: int
  ml_expires :: int

record node_view =
  nv_devices :: "manifest_lease list"
  nv_routes :: "route list"

definition manifest_expiry :: "bytes \<Rightarrow> int \<Rightarrow> manifest_lease list \<Rightarrow> int" where
  "manifest_expiry uuid now ms = fold (\<lambda>m latest.
     if ml_device m \<noteq> uuid \<or> ml_withdraw m then latest
     else if now + 5000000000 < unix_milli (ml_issued m) \<or> \<not> now < unix_milli (ml_expires m) then latest
     else if latest < unix_milli (ml_expires m) then unix_milli (ml_expires m)
     else latest) ms zero_time"

fun donor_link :: "prefix \<Rightarrow> route list \<Rightarrow> link_id" where
  "donor_link ula [] = 0"
| "donor_link ula (r # rs) =
     (if r_prefix r = ula \<and> \<not> r_local r \<and> \<not> r_unreachable r \<and> r_link r \<noteq> 0 then r_link r else donor_link ula rs)"

definition offered_gateway :: "text_codec \<Rightarrow> (bytes \<Rightarrow> bytes) \<Rightarrow> device \<Rightarrow> node_view \<Rightarrow> int \<Rightarrow> catalog_record \<Rightarrow> gateway option" where
  "offered_gateway tc sha self view now offer =
     (if \<not> is_gateway_offer offer \<or> cr_withdraw offer then None
      else (case device_from_principal tc (ck_device (cr_key offer)) of
          None \<Rightarrow> None
        | Some d \<Rightarrow>
            if d = self \<or> dv_tenant d \<noteq> dv_tenant self then None
            else if \<not> now < unix_milli (cr_expires offer) then None
            else
              (let lease = manifest_expiry (dv_id d) now (nv_devices view);
                   link = donor_link (Pfx (mesh_address sha d) 128) (nv_routes view) in
               if lease = zero_time then None
               else if link = 0 then None
               else Some \<lparr>gw_device = d, gw_address = mesh_address sha d,
                 gw_expires = (if lease < unix_milli (cr_expires offer) then lease else unix_milli (cr_expires offer)),
                 gw_link = link, gw_verified = True, gw_reachable = False\<rparr>)))"

definition keep_latest :: "gateway \<Rightarrow> (device, gateway) gomap \<Rightarrow> (device, gateway) gomap" where
  "keep_latest g m = (case map_of m (gw_device g) of
     None \<Rightarrow> m_put (gw_device g) g m
   | Some old \<Rightarrow> if gw_expires old < gw_expires g then m_put (gw_device g) g m else m)"

definition gateway_order :: "text_codec \<Rightarrow> gateway \<Rightarrow> gateway \<Rightarrow> int" where
  "gateway_order tc a b =
     (if gw_expires b < gw_expires a then -1
      else if gw_expires a < gw_expires b then 1
      else device_compare (tc_uuid tc) (gw_device a) (gw_device b))"

fun insert_cmp :: "('a \<Rightarrow> 'a \<Rightarrow> int) \<Rightarrow> 'a \<Rightarrow> 'a list \<Rightarrow> 'a list" where
  "insert_cmp f x [] = [x]"
| "insert_cmp f x (y # ys) = (if f x y \<le> 0 then x # y # ys else y # insert_cmp f x ys)"

definition sort_cmp :: "('a \<Rightarrow> 'a \<Rightarrow> int) \<Rightarrow> 'a list \<Rightarrow> 'a list" where
  "sort_cmp f xs = foldr (insert_cmp f) xs []"

definition signed_gateways :: "text_codec \<Rightarrow> (bytes \<Rightarrow> bytes) \<Rightarrow> device \<Rightarrow> node_view \<Rightarrow> catalog_record list \<Rightarrow> int \<Rightarrow> gateway list" where
  "signed_gateways tc sha self view offers now =
     sort_cmp (gateway_order tc) (map snd (fold keep_latest (List.map_filter (offered_gateway tc sha self view now) offers) []))"

definition signed_gateway :: "text_codec \<Rightarrow> (bytes \<Rightarrow> bytes) \<Rightarrow> device \<Rightarrow> node_view \<Rightarrow> catalog_record list \<Rightarrow> int \<Rightarrow> gateway" where
  "signed_gateway tc sha self view offers now = (case signed_gateways tc sha self view offers now of [] \<Rightarrow> no_gateway | g # _ \<Rightarrow> g)"

subsection \<open>Hysteresis\<close>

record health_tracker =
  ht_healthy :: bool
  ht_successes :: int
  ht_failures :: int

definition new_health :: health_tracker where
  "new_health = \<lparr>ht_healthy = False, ht_successes = 0, ht_failures = 0\<rparr>"

definition observe :: "bool \<Rightarrow> health_tracker \<Rightarrow> health_tracker" where
  "observe success h =
     (if success then
        (let h = h\<lparr>ht_failures := 0\<rparr>; h = (if ht_successes h < 2 then h\<lparr>ht_successes := ht_successes h + 1\<rparr> else h) in
         if ht_successes h = 2 then h\<lparr>ht_healthy := True\<rparr> else h)
      else
        (let h = h\<lparr>ht_successes := 0\<rparr>; h = (if ht_failures h < 3 then h\<lparr>ht_failures := ht_failures h + 1\<rparr> else h) in
         if ht_failures h = 3 then h\<lparr>ht_healthy := False\<rparr> else h))"

end
