(* ===== verification/Sharing_Controller.thy ===== *)
theory Sharing_Controller
  imports Sharing_Policy
begin

section \<open>Internet sharing: the controller (meshsharing/controller.go)\<close>

text \<open>
  \<open>Controller\<close> drives three interfaces, one record of functions over a world here: the node (its snapshot and signed offer),
  the policy (gateway, sharing, resolver) and the probes. Contexts and timeouts are the outcomes of the calls. A joined error
  is the list of its parts, nil the empty one. Probes that run at the same time are asked in a fixed order: each
  result only goes to the tracker of its own interface or donor. Audit logging is left out, its state is not.
\<close>

datatype gateway_result = GatewaySet | GatewayWaits | GatewayFailed

record 'w sharing_io =
  si_snapshot :: "'w \<Rightarrow> node_view \<times> 'w"
  si_offers :: "'w \<Rightarrow> catalog_record list \<times> 'w"
  si_set_offer :: "string \<Rightarrow> 'w \<Rightarrow> bool \<times> 'w"
  si_set_gateway :: "device \<Rightarrow> 'w \<Rightarrow> gateway_result \<times> 'w"
  si_set_sharing :: "string \<Rightarrow> string \<Rightarrow> 'w \<Rightarrow> bool \<times> 'w"
  si_set_dns :: "string \<Rightarrow> string \<Rightarrow> 'w \<Rightarrow> bool \<times> 'w"
  si_close :: "'w \<Rightarrow> bool \<times> 'w"
  si_candidates :: "share_config \<Rightarrow> 'w \<Rightarrow> (string, string) gomap option \<times> 'w"
  si_uplink :: "string \<Rightarrow> string \<Rightarrow> 'w \<Rightarrow> bool \<times> 'w"
  si_probe :: "addr \<Rightarrow> addr \<Rightarrow> 'w \<Rightarrow> bool \<times> 'w"
  si_now :: "'w \<Rightarrow> int \<times> 'w"

datatype share_error = ControllerClosed | CallFailed | GatewayPending | Reborrowing | BadShareConfig | DiscoveryFailed

record dns_state =
  ds_gateway :: device
  ds_iface :: string
  ds_address :: string

definition no_dns :: dns_state where
  "no_dns = \<lparr>ds_gateway = no_device, ds_iface = '''', ds_address = ''''\<rparr>"

record controller =
  ct_self :: device
  ct_uplink_health :: "(string, health_tracker) gomap"
  ct_gateway_health :: "(device, health_tracker) gomap"
  ct_gateway :: device
  ct_probe_after :: device
  ct_share_key :: string
  ct_refreshed :: int
  ct_cleanup :: bool
  ct_dns :: dns_state
  ct_dns_uncertain :: bool
  ct_closed :: bool
  ct_complete :: bool
  ct_withdrawn :: bool

definition new_controller :: "device \<Rightarrow> controller option" where
  "new_controller self =
     (if \<not> dv_valid self then None
      else Some \<lparr>ct_self = self, ct_uplink_health = [], ct_gateway_health = [], ct_gateway = no_device,
        ct_probe_after = no_device, ct_share_key = '''', ct_refreshed = zero_time, ct_cleanup = False, ct_dns = no_dns,
        ct_dns_uncertain = False, ct_closed = False, ct_complete = False, ct_withdrawn = False\<rparr>)"

definition cleanup_controller :: controller where
  "cleanup_controller = \<lparr>ct_self = no_device, ct_uplink_health = [], ct_gateway_health = [], ct_gateway = no_device,
     ct_probe_after = no_device, ct_share_key = '''', ct_refreshed = zero_time, ct_cleanup = False, ct_dns = no_dns,
     ct_dns_uncertain = False, ct_closed = True, ct_complete = False, ct_withdrawn = True\<rparr>"

subsection \<open>Calls\<close>

text \<open>An action returns its errors; \<open>before\<close> stops at an error, \<open>joined\<close> runs both and joins their errors.\<close>

type_synonym 'w action = "controller \<Rightarrow> 'w \<Rightarrow> share_error list \<times> controller \<times> 'w"

definition before :: "'w action \<Rightarrow> 'w action \<Rightarrow> 'w action" where
  "before a b c w = (let (errs, c, w) = a c w in if errs = [] then b c w else (errs, c, w))"

definition joined :: "'w action \<Rightarrow> 'w action \<Rightarrow> 'w action" where
  "joined a b c w = (let (errs, c, w) = a c w; (errs', c, w) = b c w in (errs @ errs', c, w))"

definition failing :: "share_error \<Rightarrow> 'w action" where
  "failing e c w = ([e], c, w)"

definition called :: "('w \<Rightarrow> bool \<times> 'w) \<Rightarrow> 'w action" where
  "called f c w = (let (ok, w) = f w in (if ok then [] else [CallFailed], c, w))"

definition set_gateway :: "'w sharing_io \<Rightarrow> device \<Rightarrow> 'w action" where
  "set_gateway io d c w = (let (res, w) = si_set_gateway io d w in
     (case res of GatewaySet \<Rightarrow> [] | GatewayWaits \<Rightarrow> [GatewayPending] | GatewayFailed \<Rightarrow> [CallFailed], c, w))"

definition audit_dns :: "dns_state \<Rightarrow> bool \<Rightarrow> controller \<Rightarrow> controller" where
  "audit_dns to ok c =
     (if ok \<and> to = ct_dns c \<and> \<not> ct_dns_uncertain c then c
      else if \<not> ok then c\<lparr>ct_dns_uncertain := True\<rparr>
      else c\<lparr>ct_dns := to, ct_dns_uncertain := False\<rparr>)"

definition set_dns :: "'w sharing_io \<Rightarrow> dns_state \<Rightarrow> 'w action" where
  "set_dns io to c w = (let (ok, w) = si_set_dns io (ds_iface to) (ds_address to) w in
     (if ok then [] else [CallFailed], audit_dns to ok c, w))"

definition withdraw_gateway :: "'w sharing_io \<Rightarrow> 'w action" where
  "withdraw_gateway io = joined (set_dns io no_dns) (set_gateway io no_device)"

definition withdraw_sharing :: "'w sharing_io \<Rightarrow> 'w action" where
  "withdraw_sharing io c w = (let (ok, w) = si_set_sharing io '''' '''' w in
     (if ok then [] else [CallFailed], c\<lparr>ct_cleanup := \<not> ok\<rparr>, w))"

subsection \<open>Probing donors\<close>

fun find_after :: "text_codec \<Rightarrow> device \<Rightarrow> gateway list \<Rightarrow> nat list \<Rightarrow> nat \<Rightarrow> nat" where
  "find_after tc cursor gs [] i = 0"
| "find_after tc cursor gs (k # ks) i =
     (if 0 < device_compare (tc_uuid tc) (gw_device (gs ! k)) cursor then i else find_after tc cursor gs ks (i + 1))"

function rotate_probes :: "gateway list \<Rightarrow> nat list \<Rightarrow> nat \<Rightarrow> nat \<Rightarrow> nat list \<Rightarrow> device \<Rightarrow> nat list \<times> device" where
  "rotate_probes gs ordered start offset indices cursor =
     (if offset < length ordered \<and> length indices < 8
      then
        (let k = ordered ! ((start + offset) mod length ordered) in
         rotate_probes gs ordered start (offset + 1) (if k \<in> set indices then indices else indices @ [k]) (gw_device (gs ! k)))
      else (indices, cursor))"
  by pat_completeness auto
termination
  by (relation "measure (\<lambda>(gs, ordered, start, offset, indices, cursor). length ordered - offset)") auto

declare rotate_probes.simps [simp del]

fun current_index :: "device \<Rightarrow> gateway list \<Rightarrow> nat \<Rightarrow> nat list" where
  "current_index d [] i = []"
| "current_index d (g # gs) i = (if i \<noteq> 0 \<and> gw_device g = d then [i] else current_index d gs (i + 1))"

definition probe_indices :: "text_codec \<Rightarrow> gateway list \<Rightarrow> controller \<Rightarrow> nat list \<times> controller" where
  "probe_indices tc gs c =
     (if length gs \<le> 8 then ([0..<length gs], c)
      else
        (let indices = 0 # current_index (ct_gateway c) gs 0;
             ordered = sort_cmp (\<lambda>a b. device_compare (tc_uuid tc) (gw_device (gs ! a)) (gw_device (gs ! b))) [0..<length gs];
             (indices, cursor) = rotate_probes gs ordered (find_after tc (ct_probe_after c) gs ordered 0) 0 indices (ct_probe_after c)
         in (indices, c\<lparr>ct_probe_after := cursor\<rparr>)))"

definition observed :: "'k::linorder \<Rightarrow> bool \<Rightarrow> ('k, health_tracker) gomap \<Rightarrow> ('k, health_tracker) gomap \<times> bool" where
  "observed k ok m =
     (let h = observe ok (case map_of m k of None \<Rightarrow> new_health | Some h \<Rightarrow> h) in (m_put k h m, ht_healthy h))"

fun probe_gateways :: "(bytes \<Rightarrow> bytes) \<Rightarrow> 'w sharing_io \<Rightarrow> nat list \<Rightarrow> gateway list \<Rightarrow> controller \<Rightarrow> 'w
    \<Rightarrow> gateway list \<times> controller \<times> 'w" where
  "probe_gateways sha io [] gs c w = (gs, c, w)"
| "probe_gateways sha io (i # is) gs c w =
     (let (ok, w) = si_probe io (mesh_address sha (ct_self c)) (gw_address (gs ! i)) w;
          (health, good) = observed (gw_device (gs ! i)) ok (ct_gateway_health c) in
      probe_gateways sha io is (gs[i := (gs ! i)\<lparr>gw_reachable := good\<rparr>]) (c\<lparr>ct_gateway_health := health\<rparr>) w)"

fun first_gateway :: "(gateway \<Rightarrow> bool) \<Rightarrow> gateway list \<Rightarrow> gateway option" where
  "first_gateway P [] = None"
| "first_gateway P (g # gs) = (if P g then Some g else first_gateway P gs)"

definition choose_gateway :: "int \<Rightarrow> gateway list \<Rightarrow> controller \<Rightarrow> gateway \<times> controller" where
  "choose_gateway now gs c =
     (case first_gateway (\<lambda>g. gw_device g = ct_gateway c \<and> gw_reachable g \<and> now < gw_expires g) gs of
        Some g \<Rightarrow> (g, c)
      | None \<Rightarrow> (case first_gateway (\<lambda>g. gw_reachable g \<and> now < gw_expires g) gs of
          Some g \<Rightarrow> (g, c\<lparr>ct_gateway := gw_device g\<rparr>)
        | None \<Rightarrow> (no_gateway, c\<lparr>ct_gateway := no_device\<rparr>)))"

definition reachable_gateway :: "text_codec \<Rightarrow> (bytes \<Rightarrow> bytes) \<Rightarrow> 'w sharing_io \<Rightarrow> controller \<Rightarrow> 'w \<Rightarrow> gateway \<times> controller \<times> 'w" where
  "reachable_gateway tc sha io c w =
     (let (view, w) = si_snapshot io w; (offers, w) = si_offers io w; (now, w) = si_now io w;
          gs = signed_gateways tc sha (ct_self c) view offers now;
          c = c\<lparr>ct_gateway_health := filter (\<lambda>e. fst e \<in> set (map gw_device gs)) (ct_gateway_health c)\<rparr>;
          (indices, c) = probe_indices tc gs c;
          (gs, c, w) = probe_gateways sha io indices gs c w;
          (now, w) = si_now io w;
          (g, c) = choose_gateway now gs c
      in (g, c, w))"

subsection \<open>Reconciling\<close>

definition share_key_of :: "decision \<Rightarrow> string" where
  "share_key_of d = (if dc_interface d \<noteq> '''' then dc_interface d @ ''|'' @ dc_dns d else '''')"

definition refresh_interval :: int where
  "refresh_interval = 450 * 1000000000"

definition offer_withdrawal :: "'w sharing_io \<Rightarrow> string \<Rightarrow> 'w action" where
  "offer_withdrawal io key c w =
     (if key \<noteq> ct_share_key c then called (si_set_offer io '''') (c\<lparr>ct_refreshed := zero_time\<rparr>) w else ([], c, w))"

definition gateway_withdrawal :: "'w sharing_io \<Rightarrow> decision \<Rightarrow> 'w action" where
  "gateway_withdrawal io d c w =
     (if dc_mode d \<noteq> Roaming then joined (set_gateway io no_device) (set_dns io no_dns) c w else ([], c, w))"

definition share_changed :: "'w sharing_io \<Rightarrow> decision \<Rightarrow> string \<Rightarrow> 'w action" where
  "share_changed io d key c w =
     (let (ok, w) = si_set_sharing io (dc_interface d) (dc_dns d) w in
      if \<not> ok then joined (failing CallFailed) (withdraw_sharing io) (c\<lparr>ct_share_key := ''''\<rparr>) w
      else if dc_interface d \<noteq> '''' then
        (let (ok, w) = si_set_offer io (dc_interface d) w in
         if \<not> ok then
           (let (_, w) = si_set_offer io '''' w in
            joined (failing CallFailed) (withdraw_sharing io) (c\<lparr>ct_share_key := '''', ct_refreshed := zero_time\<rparr>) w)
         else
           (let (now, w) = si_now io w in ([], c\<lparr>ct_refreshed := now, ct_share_key := key, ct_cleanup := False\<rparr>, w)))
      else ([], c\<lparr>ct_share_key := key, ct_cleanup := False\<rparr>, w))"

definition share_stopped :: "'w sharing_io \<Rightarrow> 'w action" where
  "share_stopped io c w = joined (failing CallFailed) (joined (called (si_set_offer io '''')) (withdraw_sharing io))
     (c\<lparr>ct_share_key := '''', ct_refreshed := zero_time\<rparr>) w"

definition share_kept :: "'w sharing_io \<Rightarrow> decision \<Rightarrow> 'w action" where
  "share_kept io d c w =
     (let (ok, w) = si_set_sharing io (dc_interface d) (dc_dns d) w in
      if \<not> ok then share_stopped io c w
      else
        (let (now, w) = si_now io w in
         if refresh_interval \<le> now - ct_refreshed c then
           (let (ok, w) = si_set_offer io (dc_interface d) w in
            if \<not> ok then share_stopped io c w
            else (let (now, w) = si_now io w in ([], c\<lparr>ct_refreshed := now\<rparr>, w)))
         else ([], c, w)))"

definition share_update :: "'w sharing_io \<Rightarrow> decision \<Rightarrow> string \<Rightarrow> 'w action" where
  "share_update io d key c w =
     (if key \<noteq> ct_share_key c then share_changed io d key c w
      else if key \<noteq> '''' then share_kept io d c w
      else if ct_cleanup c then withdraw_sharing io c w
      else ([], c, w))"

definition hex_digit :: "nat \<Rightarrow> char" where
  "hex_digit n = char_of (if n < 10 then 48 + n else 87 + n)"

fun hex_text :: "nat \<Rightarrow> string" where
  "hex_text n = (if n < 16 then [hex_digit n] else hex_text (n div 16) @ [hex_digit (n mod 16)])"

declare hex_text.simps [simp del]

definition borrow :: "text_codec \<Rightarrow> (bytes \<Rightarrow> bytes) \<Rightarrow> 'w sharing_io \<Rightarrow> decision \<Rightarrow> 'w action" where
  "borrow tc sha io d c w =
     (if dc_mode d \<noteq> Roaming then ([], c, w)
      else if ct_share_key c \<noteq> '''' then ([Reborrowing], c, w)
      else
        (let (res, w) = si_set_gateway io (dc_device d) w in
         case res of
           GatewayWaits \<Rightarrow> before (set_dns io no_dns) (failing GatewayPending) c w
         | GatewayFailed \<Rightarrow> joined (failing CallFailed) (withdraw_gateway io) c w
         | GatewaySet \<Rightarrow>
             (let (errs, c, w) = set_dns io \<lparr>ds_gateway = dc_device d, ds_iface = ''wlmp'' @ hex_text (unat (dc_link d)),
                ds_address = tc_addr tc (mesh_address sha (dc_device d))\<rparr> c w in
              if errs \<noteq> [] then (let (errs', c, w) = withdraw_gateway io c w in (errs @ errs', c, w)) else ([], c, w))))"

definition reconcile :: "text_codec \<Rightarrow> (bytes \<Rightarrow> bytes) \<Rightarrow> 'w sharing_io \<Rightarrow> decision \<Rightarrow> 'w action" where
  "reconcile tc sha io d =
     (let key = share_key_of d in
      before (offer_withdrawal io key)
        (before (gateway_withdrawal io d)
          (before (share_update io d key) (borrow tc sha io d))))"

subsection \<open>Step and Close\<close>

fun probe_uplinks :: "'w sharing_io \<Rightarrow> (string, string) gomap \<Rightarrow> controller \<Rightarrow> 'w \<Rightarrow> uplink list \<times> controller \<times> 'w" where
  "probe_uplinks io [] c w = ([], c, w)"
| "probe_uplinks io ((iface, dns) # rest) c w =
     (let (ok, w) = si_uplink io iface dns w;
          (health, good) = observed iface ok (ct_uplink_health c);
          (us, c, w) = probe_uplinks io rest (c\<lparr>ct_uplink_health := health\<rparr>) w in
      (\<lparr>ul_interface = iface, ul_dns = dns, ul_healthy = good, ul_independent = True\<rparr> # us, c, w))"

text \<open>What a step finds: the uplinks, the gateway and the error of the discovery.\<close>

definition survey :: "text_codec \<Rightarrow> (bytes \<Rightarrow> bytes) \<Rightarrow> 'w sharing_io \<Rightarrow> share_config \<Rightarrow> controller \<Rightarrow> 'w
    \<Rightarrow> (uplink list \<times> gateway \<times> share_error list) \<times> controller \<times> 'w" where
  "survey tc sha io cfg c w =
     (if shc_participate cfg \<and> share_config_ok cfg then
        (let (found, w) = si_candidates io cfg w;
             cands = (case found of None \<Rightarrow> [] | Some m \<Rightarrow> m);
             (us, c, w) = probe_uplinks io cands c w;
             c = c\<lparr>ct_uplink_health := filter (\<lambda>e. map_of cands (fst e) \<noteq> None) (ct_uplink_health c)\<rparr>;
             (g, c, w) = (if shc_roam cfg then reachable_gateway tc sha io c w
               else (no_gateway, c\<lparr>ct_gateway_health := [], ct_gateway := no_device\<rparr>, w))
         in ((us, g, if found = None then [DiscoveryFailed] else []), c, w))
      else (([], no_gateway, []), c\<lparr>ct_uplink_health := [], ct_gateway_health := [], ct_gateway := no_device\<rparr>, w))"

definition share_step :: "text_codec \<Rightarrow> (bytes \<Rightarrow> bytes) \<Rightarrow> 'w sharing_io \<Rightarrow> share_config \<Rightarrow> controller \<Rightarrow> 'w
    \<Rightarrow> (decision \<times> share_error list) \<times> controller \<times> 'w" where
  "share_step tc sha io cfg c w =
     (if ct_closed c then ((decided NoMode '''', [ControllerClosed]), c, w)
      else
        (let ((us, g, found), c, w) = survey tc sha io cfg c w;
             (now, w) = si_now io w;
             d = decide cfg (ct_self c) us g now;
             (errs, c, w) = reconcile tc sha io d c w;
             rest = (if share_config_ok cfg then [] else [BadShareConfig]) @ found in
         if GatewayPending \<in> set errs
         then ((d\<lparr>dc_mode := Offline, dc_reason := ''negotiating a lease with the selected gateway''\<rparr>, rest), c, w)
         else if errs \<noteq> [] then ((d, errs), c, w)
         else ((d, rest), c, w)))"

definition close_offer :: "'w sharing_io \<Rightarrow> 'w action" where
  "close_offer io c w =
     (if \<not> ct_withdrawn c
      then (let (ok, w) = si_set_offer io '''' w in (if ok then [] else [CallFailed], c\<lparr>ct_withdrawn := ok\<rparr>, w))
      else ([], c, w))"

definition close_gateway :: "'w sharing_io \<Rightarrow> bool \<Rightarrow> 'w action" where
  "close_gateway io first c w = (if first then withdraw_gateway io c w else ([], c, w))"

definition close_policy :: "'w sharing_io \<Rightarrow> 'w action" where
  "close_policy io c w = (let (ok, w) = si_close io w in
     (if ok then [] else [CallFailed], if ct_dns_uncertain c \<and> ok then audit_dns no_dns True c else c, w))"

definition share_close :: "'w sharing_io \<Rightarrow> 'w action" where
  "share_close io c w =
     (if ct_complete c then ([], c, w)
      else
        (let (errs, c, w) = joined (close_offer io) (joined (close_gateway io (\<not> ct_closed c)) (close_policy io))
               (c\<lparr>ct_closed := True\<rparr>) w
         in (errs, c\<lparr>ct_complete := (errs = [])\<rparr>, w)))"

end
