(* ===== verification/Sharing_Trace.thy ===== *)
theory Sharing_Trace
  imports Sharing_Controller
begin

section \<open>Internet sharing: what the adapters see\<close>

text \<open>
  An arbitrary environment: every outcome and every answer is a function of the calls made so far, the latest first. Reading
  calls are recorded without their result.
\<close>

datatype share_event =
    GatewayCall device gateway_result
  | SharingCall string string bool
  | OfferCall string bool
  | DnsCall string string bool
  | CloseCall bool
  | Asked

record share_env =
  se_snapshot :: "share_event list \<Rightarrow> node_view"
  se_offers :: "share_event list \<Rightarrow> catalog_record list"
  se_set_offer :: "share_event list \<Rightarrow> string \<Rightarrow> bool"
  se_set_gateway :: "share_event list \<Rightarrow> device \<Rightarrow> gateway_result"
  se_set_sharing :: "share_event list \<Rightarrow> string \<Rightarrow> string \<Rightarrow> bool"
  se_set_dns :: "share_event list \<Rightarrow> string \<Rightarrow> string \<Rightarrow> bool"
  se_close :: "share_event list \<Rightarrow> bool"
  se_candidates :: "share_event list \<Rightarrow> share_config \<Rightarrow> (string, string) gomap option"
  se_uplink :: "share_event list \<Rightarrow> string \<Rightarrow> string \<Rightarrow> bool"
  se_probe :: "share_event list \<Rightarrow> addr \<Rightarrow> addr \<Rightarrow> bool"
  se_now :: "share_event list \<Rightarrow> int"

definition trace_sharing :: "share_env \<Rightarrow> share_event list sharing_io" where
  "trace_sharing env = \<lparr>si_snapshot = (\<lambda>w. (se_snapshot env w, Asked # w)),
     si_offers = (\<lambda>w. (se_offers env w, Asked # w)),
     si_set_offer = (\<lambda>i w. (se_set_offer env w i, OfferCall i (se_set_offer env w i) # w)),
     si_set_gateway = (\<lambda>d w. (se_set_gateway env w d, GatewayCall d (se_set_gateway env w d) # w)),
     si_set_sharing = (\<lambda>i n w. (se_set_sharing env w i n, SharingCall i n (se_set_sharing env w i n) # w)),
     si_set_dns = (\<lambda>i a w. (se_set_dns env w i a, DnsCall i a (se_set_dns env w i a) # w)),
     si_close = (\<lambda>w. (se_close env w, CloseCall (se_close env w) # w)),
     si_candidates = (\<lambda>cfg w. (se_candidates env w cfg, Asked # w)),
     si_uplink = (\<lambda>i n w. (se_uplink env w i n, Asked # w)),
     si_probe = (\<lambda>a b w. (se_probe env w a b, Asked # w)),
     si_now = (\<lambda>w. (se_now env w, Asked # w))\<rparr>"

text \<open>A borrowed default, shared rules or an offer may exist from the first attempt to set them up until one to remove them succeeds.\<close>

fun may_borrow :: "share_event list \<Rightarrow> bool" where
  "may_borrow [] = False"
| "may_borrow (GatewayCall d res # w) = (if d \<noteq> no_device then True else if res = GatewaySet then False else may_borrow w)"
| "may_borrow (_ # w) = may_borrow w"

fun may_share :: "share_event list \<Rightarrow> bool" where
  "may_share [] = False"
| "may_share (SharingCall i n ok # w) = (if i \<noteq> '''' then True else if ok then False else may_share w)"
| "may_share (_ # w) = may_share w"

fun may_offer :: "share_event list \<Rightarrow> bool" where
  "may_offer [] = False"
| "may_offer (OfferCall i ok # w) = (if i \<noteq> '''' then True else if ok then False else may_offer w)"
| "may_offer (_ # w) = may_offer w"

text \<open>The interface whose sharing the last call of \<open>SetSharing\<close> has set up.\<close>

fun sharing_now :: "share_event list \<Rightarrow> string option" where
  "sharing_now [] = None"
| "sharing_now (SharingCall i n ok # w) = (if ok then Some i else None)"
| "sharing_now (_ # w) = sharing_now w"

definition event_ok :: "share_event \<Rightarrow> share_event list \<Rightarrow> bool" where
  "event_ok e w \<longleftrightarrow> \<not> (may_borrow (e # w) \<and> may_share (e # w))
     \<and> (\<forall>i ok. e = OfferCall i ok \<longrightarrow> i \<noteq> '''' \<longrightarrow> sharing_now w = Some i \<and> \<not> may_borrow w)"

fun proper :: "share_event list \<Rightarrow> bool" where
  "proper [] = True"
| "proper (e # w) = (event_ok e w \<and> proper w)"

inductive sharing_reachable :: "text_codec \<Rightarrow> (bytes \<Rightarrow> bytes) \<Rightarrow> share_env \<Rightarrow> controller \<Rightarrow> share_event list \<Rightarrow> bool"
  for tc sha env where
  shreach_new: "new_controller self = Some c \<Longrightarrow> sharing_reachable tc sha env c []"
| shreach_cleanup: "sharing_reachable tc sha env cleanup_controller []"
| shreach_step: "sharing_reachable tc sha env c w \<Longrightarrow> share_step tc sha (trace_sharing env) cfg c w = (res, c', w')
    \<Longrightarrow> sharing_reachable tc sha env c' w'"
| shreach_close: "sharing_reachable tc sha env c w \<Longrightarrow> share_close (trace_sharing env) c w = (errs, c', w')
    \<Longrightarrow> sharing_reachable tc sha env c' w'"

subsection \<open>Actions and assertions\<close>

definition triple :: "(controller \<Rightarrow> 'w \<Rightarrow> bool) \<Rightarrow> 'w action \<Rightarrow> (share_error list \<Rightarrow> controller \<Rightarrow> 'w \<Rightarrow> bool) \<Rightarrow> bool" where
  "triple P a Q \<longleftrightarrow> (\<forall>c w. P c w \<longrightarrow> (case a c w of (errs, c', w') \<Rightarrow> Q errs c' w'))"

lemma tripleI: "(\<And>c w errs c' w'. P c w \<Longrightarrow> a c w = (errs, c', w') \<Longrightarrow> Q errs c' w') \<Longrightarrow> triple P a Q"
  by (auto simp: triple_def)

lemma tripleD: "triple P a Q \<Longrightarrow> P c w \<Longrightarrow> a c w = (errs, c', w') \<Longrightarrow> Q errs c' w'"
  by (fastforce simp: triple_def)

lemma triple_before:
  assumes "triple P a (\<lambda>errs c w. if errs = [] then R c w else Q errs c w)" "triple R b Q"
  shows "triple P (before a b) Q"
proof (rule tripleI)
  fix c w errs c' w'
  assume P: "P c w" and r: "before a b c w = (errs, c', w')"
  obtain e1 c1 w1 where 1: "a c w = (e1, c1, w1)" by (cases "a c w")
  then show "Q errs c' w'" using tripleD [OF assms(1) P 1] tripleD [OF assms(2)] r
    by (auto simp: before_def split: if_splits)
qed

lemma triple_joined:
  assumes "triple P a (\<lambda>errs c w. R errs c w)" "\<And>e. triple (R e) b (\<lambda>errs. Q (e @ errs))"
  shows "triple P (joined a b) Q"
proof (rule tripleI)
  fix c w errs c' w'
  assume P: "P c w" and r: "joined a b c w = (errs, c', w')"
  obtain e1 c1 w1 where 1: "a c w = (e1, c1, w1)" by (cases "a c w")
  obtain e2 c2 w2 where 2: "b c1 w1 = (e2, c2, w2)" by (cases "b c1 w1")
  show "Q errs c' w'" using tripleD [OF assms(2) tripleD [OF assms(1) P 1] 2] r by (simp add: joined_def 1 2)
qed

lemma triple_weaken:
  assumes "triple P a Q" "\<And>c w. P' c w \<Longrightarrow> P c w" "\<And>e c w. Q e c w \<Longrightarrow> Q' e c w"
  shows "triple P' a Q'"
  using assms by (fastforce simp: triple_def)

subsection \<open>The invariant\<close>

text \<open>While rules of a share may exist the controller remembers the share or that its removal has failed.\<close>

definition share_inv :: "controller \<Rightarrow> share_event list \<Rightarrow> bool" where
  "share_inv c w \<longleftrightarrow> proper w \<and> (may_share w \<longrightarrow> ct_share_key c \<noteq> '''' \<or> ct_cleanup c)"

lemma event_ok_simps:
  "event_ok Asked w \<longleftrightarrow> \<not> (may_borrow w \<and> may_share w)"
  "event_ok (DnsCall i a ok) w \<longleftrightarrow> \<not> (may_borrow w \<and> may_share w)"
  "event_ok (CloseCall ok) w \<longleftrightarrow> \<not> (may_borrow w \<and> may_share w)"
  "event_ok (OfferCall i ok) w \<longleftrightarrow> \<not> (may_borrow w \<and> may_share w) \<and> (i \<noteq> '''' \<longrightarrow> sharing_now w = Some i \<and> \<not> may_borrow w)"
  "event_ok (SharingCall i n ok) w \<longleftrightarrow> \<not> (may_borrow w \<and> (i \<noteq> '''' \<or> \<not> ok \<and> may_share w))"
  "event_ok (GatewayCall d res) w \<longleftrightarrow> \<not> ((d \<noteq> no_device \<or> res \<noteq> GatewaySet \<and> may_borrow w) \<and> may_share w)"
  by (auto simp: event_ok_def)

lemma proper_exclusive: "proper w \<Longrightarrow> \<not> (may_borrow w \<and> may_share w)"
  by (cases w) (auto simp: event_ok_def)

lemma audit_dns_fields [simp]:
  "ct_share_key (audit_dns to ok c) = ct_share_key c" "ct_cleanup (audit_dns to ok c) = ct_cleanup c"
  "ct_closed (audit_dns to ok c) = ct_closed c"
  by (simp_all add: audit_dns_def)

lemma trace_calls:
  "si_set_offer (trace_sharing env) i w = (se_set_offer env w i, OfferCall i (se_set_offer env w i) # w)"
  "si_set_gateway (trace_sharing env) d w = (se_set_gateway env w d, GatewayCall d (se_set_gateway env w d) # w)"
  "si_set_sharing (trace_sharing env) i n w = (se_set_sharing env w i n, SharingCall i n (se_set_sharing env w i n) # w)"
  "si_set_dns (trace_sharing env) i a w = (se_set_dns env w i a, DnsCall i a (se_set_dns env w i a) # w)"
  "si_close (trace_sharing env) w = (se_close env w, CloseCall (se_close env w) # w)"
  "si_now (trace_sharing env) w = (se_now env w, Asked # w)"
  by (simp_all add: trace_sharing_def)

text \<open>What one call does, with the borrowing state tracked by \<open>B\<close>.\<close>

abbreviation share_invB :: "bool \<Rightarrow> controller \<Rightarrow> share_event list \<Rightarrow> bool" where
  "share_invB B c w \<equiv> share_inv c w \<and> (B \<longrightarrow> \<not> may_borrow w)"

lemma dns_call: "triple (share_invB B) (set_dns (trace_sharing env) to) (\<lambda>errs. share_invB B)"
  by (rule tripleI)
    (use proper_exclusive in \<open>auto simp: set_dns_def trace_calls share_inv_def event_ok_simps split: if_splits\<close>)

lemma withdraw_call: "triple (share_invB B) (set_gateway (trace_sharing env) no_device) (\<lambda>errs c w. share_invB (B \<or> errs = []) c w)"
  by (rule tripleI)
    (use proper_exclusive in \<open>auto simp: set_gateway_def trace_calls share_inv_def event_ok_simps split: gateway_result.splits\<close>)

lemma offer_off: "triple (share_invB B) (called (si_set_offer (trace_sharing env) '''')) (\<lambda>errs. share_invB B)"
  by (rule tripleI)
    (use proper_exclusive in \<open>auto simp: called_def trace_calls share_inv_def event_ok_simps split: if_splits\<close>)

lemma failing_call: "triple P (failing e) (\<lambda>errs c w. errs = [e] \<and> P c w)"
  by (simp add: triple_def failing_def)

lemma proper_off:
  assumes "proper w"
  shows "proper (SharingCall '''' n ok # w)"
  using assms proper_exclusive [OF assms] by (simp add: event_ok_simps)

text \<open>Withdrawing the share restores the invariant whatever has become of the key.\<close>

lemma withdraw_share:
  "triple (\<lambda>c w. proper w \<and> (B \<longrightarrow> \<not> may_borrow w)) (withdraw_sharing (trace_sharing env))
     (\<lambda>errs c w. share_invB B c w \<and> (errs = [] \<longrightarrow> \<not> may_share w))"
  by (rule tripleI) (use proper_off in \<open>auto simp: withdraw_sharing_def trace_calls share_inv_def\<close>)

lemma gateway_off: "triple (share_invB B) (withdraw_gateway (trace_sharing env)) (\<lambda>errs. share_invB B)"
  unfolding withdraw_gateway_def
  by (rule triple_joined [OF dns_call]) (rule triple_weaken [OF withdraw_call [where B = B]], auto)

lemma withdrawal_offer: "triple (share_invB B) (offer_withdrawal (trace_sharing env) key) (\<lambda>errs. share_invB B)"
  by (rule tripleI)
    (use proper_exclusive in \<open>auto simp: offer_withdrawal_def called_def trace_calls share_inv_def event_ok_simps split: if_splits\<close>)

lemma withdrawal_gateway:
  "triple (share_invB False) (gateway_withdrawal (trace_sharing env) d)
     (\<lambda>errs. share_invB (errs = [] \<and> dc_mode d \<noteq> Roaming))"
proof (cases "dc_mode d = Roaming")
  case False
  have "triple (share_invB False) (joined (set_gateway (trace_sharing env) no_device) (set_dns (trace_sharing env) no_dns))
      (\<lambda>errs. share_invB (errs = []))"
  proof (rule triple_joined [OF withdraw_call [where B = False]])
    fix e :: "share_error list"
    show "triple (share_invB (False \<or> e = [])) (set_dns (trace_sharing env) no_dns) (\<lambda>errs. share_invB (e @ errs = []))"
      by (rule triple_weaken [OF dns_call [where B = "e = []"]]) auto
  qed
  then show ?thesis using False by (auto simp: triple_def gateway_withdrawal_def)
qed (simp add: triple_def gateway_withdrawal_def)

text \<open>After the share is settled nothing is shared unless the controller holds a key.\<close>

abbreviation settled_share :: "share_error list \<Rightarrow> controller \<Rightarrow> share_event list \<Rightarrow> bool" where
  "settled_share errs c w \<equiv> share_inv c w \<and> (errs = [] \<longrightarrow> may_share w \<longrightarrow> ct_share_key c \<noteq> '''')"

lemma share_key_of_empty: "share_key_of d = '''' \<longleftrightarrow> dc_interface d = ''''"
  by (simp add: share_key_of_def)

lemma withdraw_share_result:
  assumes "proper w" "joined (failing e) (withdraw_sharing (trace_sharing env)) c w = (errs, c', w')"
  shows "share_inv c' w' \<and> errs \<noteq> []"
proof -
  obtain e1 where "withdraw_sharing (trace_sharing env) c w = (e1, c', w')" "errs = e # e1"
    using assms(2) by (auto simp: joined_def failing_def split: prod.splits)
  then show ?thesis using tripleD [OF withdraw_share [where B = False]] assms(1) by fastforce
qed

lemma changed_share:
  assumes "key = share_key_of d"
  shows "triple (\<lambda>c w. share_inv c w \<and> (dc_interface d \<noteq> '''' \<longrightarrow> \<not> may_borrow w)) (share_changed (trace_sharing env) d key) settled_share"
proof (rule tripleI)
  fix c w errs c' w'
  assume P: "share_inv c w \<and> (dc_interface d \<noteq> '''' \<longrightarrow> \<not> may_borrow w)"
    and r: "share_changed (trace_sharing env) d key c w = (errs, c', w')"
  let ?ok = "se_set_sharing env w (dc_interface d) (dc_dns d)"
  let ?w1 = "SharingCall (dc_interface d) (dc_dns d) ?ok # w"
  have w1: "proper ?w1" using P proper_exclusive [of w] by (auto simp: share_inv_def event_ok_simps)
  show "settled_share errs c' w'"
  proof (cases ?ok)
    case False
    then show ?thesis using withdraw_share_result [OF w1, of CallFailed env] r by (simp add: share_changed_def trace_calls)
  next
    case ok: True
    show ?thesis
    proof (cases "dc_interface d = ''''")
      case True
      then show ?thesis using ok r w1 by (auto simp: share_changed_def trace_calls share_inv_def)
    next
      case False
      then have key: "key \<noteq> ''''" using assms by (simp add: share_key_of_empty)
      let ?ok2 = "se_set_offer env ?w1 (dc_interface d)"
      have w2: "proper (OfferCall (dc_interface d) ?ok2 # ?w1)" using w1 ok False P proper_exclusive [OF w1] by (simp add: event_ok_simps)
      then have w3: "proper (OfferCall '''' o3 # OfferCall (dc_interface d) ?ok2 # ?w1)"
        "proper (Asked # OfferCall (dc_interface d) ?ok2 # ?w1)" for o3
        using proper_exclusive [OF w2] by (simp_all add: event_ok_simps)
      show ?thesis
      proof (cases ?ok2)
        case True
        then show ?thesis using ok False key r w3(2) by (auto simp: share_changed_def trace_calls share_inv_def)
      next
        case no: False
        then show ?thesis using ok False r withdraw_share_result [OF w3(1), of CallFailed env] by (auto simp: share_changed_def trace_calls)
      qed
    qed
  qed
qed

lemma stopped_share:
  assumes "proper w" "share_stopped (trace_sharing env) c w = (errs, c', w')"
  shows "share_inv c' w' \<and> errs \<noteq> []"
proof -
  let ?c = "c\<lparr>ct_share_key := '''', ct_refreshed := zero_time\<rparr>" and ?ok = "se_set_offer env w ''''"
  obtain e1 where e: "withdraw_sharing (trace_sharing env) ?c (OfferCall '''' ?ok # w) = (e1, c', w')" "errs \<noteq> []"
    using assms(2) by (auto simp: share_stopped_def joined_def failing_def called_def trace_calls split: prod.splits)
  have "proper (OfferCall '''' ?ok # w)" using assms(1) proper_exclusive [OF assms(1)] by (simp add: event_ok_simps)
  then show ?thesis using tripleD [OF withdraw_share [where B = False] _ e(1)] e(2) by simp
qed

lemma kept_share:
  assumes "dc_interface d \<noteq> ''''"
  shows "triple (\<lambda>c w. share_inv c w \<and> \<not> may_borrow w \<and> ct_share_key c \<noteq> '''') (share_kept (trace_sharing env) d) settled_share"
proof (rule tripleI)
  fix c w errs c' w'
  assume P: "share_inv c w \<and> \<not> may_borrow w \<and> ct_share_key c \<noteq> ''''"
    and r: "share_kept (trace_sharing env) d c w = (errs, c', w')"
  let ?ok = "se_set_sharing env w (dc_interface d) (dc_dns d)"
  let ?w1 = "SharingCall (dc_interface d) (dc_dns d) ?ok # w"
  have w1: "proper ?w1" "proper (Asked # ?w1)" using P by (auto simp: share_inv_def event_ok_simps)
  show "settled_share errs c' w'"
  proof (cases ?ok)
    case False
    then show ?thesis using stopped_share [OF w1(1), of env] r by (simp add: share_kept_def trace_calls)
  next
    case ok: True
    show ?thesis
    proof (cases "refresh_interval \<le> se_now env ?w1 - ct_refreshed c")
      case False
      then show ?thesis using ok P w1 r by (auto simp: share_kept_def trace_calls share_inv_def)
    next
      case True
      let ?ok2 = "se_set_offer env (Asked # ?w1) (dc_interface d)"
      have w2: "proper (OfferCall (dc_interface d) ?ok2 # Asked # ?w1)" using w1 ok P assms by (simp add: event_ok_simps)
      then have w3: "proper (Asked # OfferCall (dc_interface d) ?ok2 # Asked # ?w1)"
        using proper_exclusive [OF w2] by (simp add: event_ok_simps)
      show ?thesis
      proof (cases ?ok2)
        case True2: True
        then show ?thesis using ok P True r w3 by (auto simp: share_kept_def trace_calls share_inv_def)
      next
        case False
        then show ?thesis using ok True r stopped_share [OF w2, of env] by (simp add: share_kept_def trace_calls)
      qed
    qed
  qed
qed

lemma update_share:
  assumes "dc_mode d = Roaming \<Longrightarrow> dc_interface d = ''''"
  shows "triple (share_invB (dc_mode d \<noteq> Roaming)) (share_update (trace_sharing env) d (share_key_of d)) settled_share"
proof (rule tripleI)
  fix c w errs c' w'
  assume P: "share_invB (dc_mode d \<noteq> Roaming) c w" and r: "share_update (trace_sharing env) d (share_key_of d) c w = (errs, c', w')"
  have b: "dc_interface d \<noteq> '''' \<longrightarrow> \<not> may_borrow w" using assms P by blast
  show "settled_share errs c' w'"
  proof (cases "share_key_of d = ct_share_key c")
    case False
    then have "share_changed (trace_sharing env) d (share_key_of d) c w = (errs, c', w')" using r by (simp add: share_update_def)
    moreover have "share_inv c w \<and> (dc_interface d \<noteq> '''' \<longrightarrow> \<not> may_borrow w)" using P b by blast
    ultimately show ?thesis using tripleD [OF changed_share [OF refl]] by blast
  next
    case same: True
    show ?thesis
    proof (cases "share_key_of d = ''''")
      case False
      then have "dc_interface d \<noteq> ''''" using share_key_of_empty by blast
      moreover from this have "share_inv c w \<and> \<not> may_borrow w \<and> ct_share_key c \<noteq> ''''" using P b False same by simp
      moreover have "share_kept (trace_sharing env) d c w = (errs, c', w')" using r same False by (simp add: share_update_def)
      ultimately show ?thesis using tripleD [OF kept_share] by blast
    next
      case True
      then show ?thesis
        using tripleD [OF withdraw_share [where B = False], where c = c and w = w] P r same
        by (cases "ct_cleanup c") (auto simp: share_update_def share_inv_def)
    qed
  qed
qed

lemma borrowed: "triple (\<lambda>c w. share_inv c w \<and> (may_share w \<longrightarrow> ct_share_key c \<noteq> '''')) (borrow tc sha (trace_sharing env) d) (\<lambda>errs. share_inv)"
proof (rule tripleI)
  fix c w errs c' w'
  assume P: "share_inv c w \<and> (may_share w \<longrightarrow> ct_share_key c \<noteq> '''')" and r: "borrow tc sha (trace_sharing env) d c w = (errs, c', w')"
  show "share_inv c' w'"
  proof (cases "dc_mode d \<noteq> Roaming \<or> ct_share_key c \<noteq> ''''")
    case True
    then show ?thesis using P r by (auto simp: borrow_def split: if_splits)
  next
    case False
    let ?w1 = "GatewayCall (dc_device d) (se_set_gateway env w (dc_device d)) # w"
    define dns where "dns = \<lparr>ds_gateway = dc_device d, ds_iface = ''wlmp'' @ hex_text (unat (dc_link d)),
        ds_address = tc_addr tc (mesh_address sha (dc_device d))\<rparr>"
    have w1: "share_inv c ?w1" using P False by (auto simp: share_inv_def event_ok_simps)
    note off = gateway_off [where B = False and env = env] and call = dns_call [where B = False and env = env]
    show ?thesis
    proof (cases "se_set_gateway env w (dc_device d)")
      case GatewaySet
      obtain e1 c1 w2 where s: "set_dns (trace_sharing env) dns c ?w1 = (e1, c1, w2)" by (cases "set_dns (trace_sharing env) dns c ?w1")
      then have 2: "share_inv c1 w2" using tripleD [OF call _ s] w1 by simp
      obtain e2 c2 w3 where g: "withdraw_gateway (trace_sharing env) c1 w2 = (e2, c2, w3)" by (cases "withdraw_gateway (trace_sharing env) c1 w2")
      then have "share_inv c2 w3" using tripleD [OF off _ g] 2 by simp
      moreover have "(c', w') = (if e1 \<noteq> [] then (c2, w3) else (c1, w2))"
        using r False GatewaySet unfolding borrow_def trace_calls dns_def [symmetric]
        by (simp add: s [unfolded GatewaySet] g split: if_splits)
      ultimately show ?thesis using 2 by (simp split: if_splits)
    next
      case GatewayWaits
      then show ?thesis using False r tripleD [OF call, where c = c and w = ?w1] w1
        by (auto simp: borrow_def trace_calls before_def failing_def split: if_splits prod.splits)
    next
      case GatewayFailed
      then show ?thesis using False r tripleD [OF off, where c = c and w = ?w1] w1
        by (auto simp: borrow_def trace_calls joined_def failing_def split: prod.splits)
    qed
  qed
qed

subsection \<open>Looking around changes nothing\<close>

definition looked :: "controller \<Rightarrow> share_event list \<Rightarrow> controller \<Rightarrow> share_event list \<Rightarrow> bool" where
  "looked c w c' w' \<longleftrightarrow> ct_share_key c' = ct_share_key c \<and> ct_cleanup c' = ct_cleanup c \<and> ct_self c' = ct_self c
     \<and> (\<exists>n. w' = replicate n Asked @ w)"

lemma looked_refl: "ct_share_key c' = ct_share_key c \<Longrightarrow> ct_cleanup c' = ct_cleanup c \<Longrightarrow> ct_self c' = ct_self c \<Longrightarrow> looked c w c' w"
  unfolding looked_def by (metis append_Nil replicate_0)

lemma looked_ask: "looked c w c' (Asked # w) \<longleftrightarrow> ct_share_key c' = ct_share_key c \<and> ct_cleanup c' = ct_cleanup c \<and> ct_self c' = ct_self c"
proof -
  have "\<exists>n. Asked # w = replicate n Asked @ w" by (rule exI [of _ 1]) simp
  then show ?thesis by (simp add: looked_def)
qed

lemma looked_trans:
  assumes "looked c w c1 w1" "looked c1 w1 c2 w2"
  shows "looked c w c2 w2"
proof -
  obtain n m where "w1 = replicate n Asked @ w" "w2 = replicate m Asked @ w1" using assms by (auto simp: looked_def)
  then have "w2 = replicate (m + n) Asked @ w" by (simp add: replicate_add)
  then show ?thesis using assms by (auto simp: looked_def)
qed

lemma looked_events:
  assumes "looked c w c' w'"
  shows "may_borrow w' = may_borrow w" "may_share w' = may_share w" "proper w \<Longrightarrow> proper w'" "may_offer w' = may_offer w"
proof -
  obtain n where w': "w' = replicate n Asked @ w" using assms by (auto simp: looked_def)
  show b: "may_borrow w' = may_borrow w" "may_share w' = may_share w" "may_offer w' = may_offer w"
    unfolding w' by (induction n) simp_all
  show "proper w'" if "proper w"
    unfolding w'
  proof (induction n)
    case (Suc n)
    then show ?case using proper_exclusive [OF Suc] by (simp add: event_ok_simps)
  qed (simp add: that)
qed

lemma looked_inv: "looked c w c' w' \<Longrightarrow> share_inv c w \<Longrightarrow> share_inv c' w'"
  using looked_events [of c w c' w'] by (auto simp: share_inv_def looked_def)

lemma trace_asks:
  "si_snapshot (trace_sharing env) w = (se_snapshot env w, Asked # w)"
  "si_offers (trace_sharing env) w = (se_offers env w, Asked # w)"
  "si_candidates (trace_sharing env) cfg w = (se_candidates env w cfg, Asked # w)"
  "si_uplink (trace_sharing env) i n w = (se_uplink env w i n, Asked # w)"
  "si_probe (trace_sharing env) a b w = (se_probe env w a b, Asked # w)"
  by (simp_all add: trace_sharing_def)

lemma looked_probe_gateways:
  "probe_gateways sha (trace_sharing env) ks gs c w = (gs', c', w') \<Longrightarrow> looked c w c' w'"
proof (induction ks arbitrary: gs c w)
  case (Cons k ks)
  obtain m good where o: "observed (gw_device (gs ! k)) (se_probe env w (mesh_address sha (ct_self c)) (gw_address (gs ! k))) (ct_gateway_health c) = (m, good)"
    by fastforce
  have "looked (c\<lparr>ct_gateway_health := m\<rparr>) (Asked # w) c' w'"
    using Cons.IH Cons.prems by (simp add: trace_asks o)
  moreover have "looked c w (c\<lparr>ct_gateway_health := m\<rparr>) (Asked # w)" by (simp add: looked_ask)
  ultimately show ?case using looked_trans by blast
qed (simp add: looked_refl)

lemma looked_probe_uplinks:
  "probe_uplinks (trace_sharing env) cs c w = (us, c', w') \<Longrightarrow> looked c w c' w'"
proof (induction cs arbitrary: us c w)
  case (Cons e cs)
  obtain i n where e: "e = (i, n)" by (cases e)
  obtain m good where o: "observed i (se_uplink env w i n) (ct_uplink_health c) = (m, good)" by fastforce
  obtain us1 where "probe_uplinks (trace_sharing env) cs (c\<lparr>ct_uplink_health := m\<rparr>) (Asked # w) = (us1, c', w')"
    using Cons.prems by (auto simp: trace_asks e o split: prod.splits)
  then have "looked (c\<lparr>ct_uplink_health := m\<rparr>) (Asked # w) c' w'" by (rule Cons.IH)
  moreover have "looked c w (c\<lparr>ct_uplink_health := m\<rparr>) (Asked # w)" by (simp add: looked_ask)
  ultimately show ?case using looked_trans by blast
qed (simp add: looked_refl)

lemma looked_reachable:
  assumes "reachable_gateway tc sha (trace_sharing env) c w = (g, c', w')"
  shows "looked c w c' w'"
proof -
  define c0 :: "gateway list \<Rightarrow> controller" where "c0 gs = c\<lparr>ct_gateway_health := filter (\<lambda>e. fst e \<in> set (map gw_device gs)) (ct_gateway_health c)\<rparr>" for gs
  obtain gs ks c1 where p: "probe_indices tc gs (c0 gs) = (ks, c1)"
    and r: "\<exists>gs' c2 w2. probe_gateways sha (trace_sharing env) ks gs c1 (Asked # Asked # Asked # w) = (gs', c2, w2)
      \<and> (g, c') = choose_gateway (se_now env w2) gs' c2 \<and> w' = Asked # w2"
    using assms unfolding reachable_gateway_def by (auto simp: trace_asks trace_calls c0_def Let_def split: prod.splits)
  then obtain gs' c2 w2 where q: "probe_gateways sha (trace_sharing env) ks gs c1 (Asked # Asked # Asked # w) = (gs', c2, w2)"
    "(g, c') = choose_gateway (se_now env w2) gs' c2" "w' = Asked # w2" by blast
  have "ct_share_key c1 = ct_share_key c" "ct_cleanup c1 = ct_cleanup c" "ct_self c1 = ct_self c"
    using p by (auto simp: probe_indices_def c0_def Let_def split: prod.splits if_splits)
  then have "looked c w c1 (Asked # Asked # Asked # w)"
    using looked_trans looked_ask by metis
  moreover have "looked c2 w2 c' w'" using q(2,3) by (auto simp: looked_ask choose_gateway_def split: option.splits)
  ultimately show ?thesis using looked_probe_gateways [OF q(1)] looked_trans by blast
qed

lemma looked_survey:
  assumes "survey tc sha (trace_sharing env) cfg c w = (found, c', w')"
  shows "looked c w c' w'"
proof (cases "shc_participate cfg \<and> share_config_ok cfg")
  case False
  then show ?thesis using assms by (auto simp: survey_def looked_refl)
next
  case True
  define cands where "cands = (case se_candidates env w cfg of None \<Rightarrow> [] | Some m \<Rightarrow> m)"
  obtain us c1 w1 where u: "probe_uplinks (trace_sharing env) cands c (Asked # w) = (us, c1, w1)"
    by (cases "probe_uplinks (trace_sharing env) cands c (Asked # w)")
  define c2 where "c2 = c1\<lparr>ct_uplink_health := filter (\<lambda>e. map_of cands (fst e) \<noteq> None) (ct_uplink_health c1)\<rparr>"
  have "looked c w c (Asked # w)" by (simp add: looked_ask)
  moreover have "looked c1 w1 c2 w1" by (simp add: looked_refl c2_def)
  ultimately have 2: "looked c w c2 w1" using looked_probe_uplinks [OF u] looked_trans by blast
  have "looked c2 w1 c' w'"
  proof (cases "shc_roam cfg")
    case True
    then obtain g where "reachable_gateway tc sha (trace_sharing env) c2 w1 = (g, c', w')"
      using assms \<open>shc_participate cfg \<and> share_config_ok cfg\<close> u
      by (auto simp: survey_def trace_asks cands_def [symmetric] c2_def Let_def split: prod.splits)
    then show ?thesis by (rule looked_reachable)
  next
    case False
    then show ?thesis using assms True u
      by (auto simp: survey_def trace_asks cands_def [symmetric] c2_def Let_def looked_refl split: prod.splits)
  qed
  then show ?thesis using 2 looked_trans by blast
qed

subsection \<open>Steps\<close>

lemma decide_roaming: "dc_mode (decide cfg self us g now) = Roaming \<Longrightarrow> dc_interface (decide cfg self us g now) = ''''"
  by (auto simp: decide_def decided_def Let_def split: if_splits)

lemma reconciled:
  assumes "dc_mode d = Roaming \<Longrightarrow> dc_interface d = ''''"
  shows "triple share_inv (reconcile tc sha (trace_sharing env) d) (\<lambda>errs. share_inv)"
proof -
  have 1: "triple share_inv (offer_withdrawal (trace_sharing env) (share_key_of d)) (\<lambda>errs c w. if errs = [] then share_inv c w else share_inv c w)"
    by (rule triple_weaken [OF withdrawal_offer [where B = False]]) auto
  have 2: "triple share_inv (gateway_withdrawal (trace_sharing env) d)
      (\<lambda>errs c w. if errs = [] then share_invB (dc_mode d \<noteq> Roaming) c w else share_inv c w)"
    by (rule triple_weaken [OF withdrawal_gateway]) auto
  have 3: "triple (share_invB (dc_mode d \<noteq> Roaming)) (share_update (trace_sharing env) d (share_key_of d))
      (\<lambda>errs c w. if errs = [] then share_inv c w \<and> (may_share w \<longrightarrow> ct_share_key c \<noteq> '''') else share_inv c w)"
    by (rule triple_weaken [OF update_share]) (use assms in auto)
  show ?thesis unfolding reconcile_def Let_def
    by (rule triple_before [OF 1 triple_before [OF 2 triple_before [OF 3 borrowed]]])
qed

lemma step_parts:
  assumes "share_step tc sha (trace_sharing env) cfg c w = (res, c', w')" "\<not> ct_closed c"
  obtains us g found c1 w1 errs where "survey tc sha (trace_sharing env) cfg c w = ((us, g, found), c1, w1)"
    "reconcile tc sha (trace_sharing env) (decide cfg (ct_self c1) us g (se_now env w1)) c1 (Asked # w1) = (errs, c', w')"
proof -
  obtain us g found c1 w1 where 1: "survey tc sha (trace_sharing env) cfg c w = ((us, g, found), c1, w1)"
    by (cases "survey tc sha (trace_sharing env) cfg c w") auto
  obtain errs c2 w2 where 2: "reconcile tc sha (trace_sharing env) (decide cfg (ct_self c1) us g (se_now env w1)) c1 (Asked # w1) = (errs, c2, w2)"
    by (cases "reconcile tc sha (trace_sharing env) (decide cfg (ct_self c1) us g (se_now env w1)) c1 (Asked # w1)")
  have "c2 = c'" "w2 = w'" using assms 1 2 by (auto simp: share_step_def trace_calls Let_def split: if_splits)
  then show thesis using that 1 2 by blast
qed

lemma stepped_inv:
  assumes "share_inv c w" "share_step tc sha (trace_sharing env) cfg c w = (res, c', w')"
  shows "share_inv c' w'"
proof (cases "ct_closed c")
  case True
  then show ?thesis using assms by (simp add: share_step_def)
next
  case False
  obtain us g found c1 w1 errs where p: "survey tc sha (trace_sharing env) cfg c w = ((us, g, found), c1, w1)"
    "reconcile tc sha (trace_sharing env) (decide cfg (ct_self c1) us g (se_now env w1)) c1 (Asked # w1) = (errs, c', w')"
    using step_parts [OF assms(2) False] .
  have "looked c1 w1 c1 (Asked # w1)" by (simp add: looked_ask)
  then have "share_inv c1 (Asked # w1)" using looked_inv looked_survey [OF p(1)] looked_trans assms(1) by blast
  then show ?thesis using tripleD [OF reconciled [OF decide_roaming] _ p(2)] by blast
qed

lemma closing:
  "triple (share_invB False) (joined (close_offer (trace_sharing env)) (joined (close_gateway (trace_sharing env) first) (close_policy (trace_sharing env))))
     (\<lambda>errs. share_inv)"
proof (rule triple_joined)
  show "triple (share_invB False) (close_offer (trace_sharing env)) (\<lambda>errs. share_invB False)"
    by (rule tripleI)
      (use proper_exclusive in \<open>auto simp: close_offer_def trace_calls share_inv_def event_ok_simps split: if_splits\<close>)
  show "triple (share_invB False) (joined (close_gateway (trace_sharing env) first) (close_policy (trace_sharing env))) (\<lambda>errs. share_inv)"
  proof (rule triple_joined)
    show "triple (share_invB False) (close_gateway (trace_sharing env) first) (\<lambda>errs. share_invB False)"
      using gateway_off [where B = False and env = env] by (auto simp: triple_def close_gateway_def)
    show "triple (share_invB False) (close_policy (trace_sharing env)) (\<lambda>errs. share_inv)"
      by (rule tripleI)
        (use proper_exclusive in \<open>auto simp: close_policy_def trace_calls share_inv_def event_ok_simps split: if_splits\<close>)
  qed
qed

lemma closed_inv:
  assumes "share_inv c w" "share_close (trace_sharing env) c w = (errs, c', w')"
  shows "share_inv c' w'"
proof (cases "ct_complete c")
  case True
  then show ?thesis using assms by (simp add: share_close_def)
next
  case False
  then obtain c1 where r: "joined (close_offer (trace_sharing env)) (joined (close_gateway (trace_sharing env) (\<not> ct_closed c))
      (close_policy (trace_sharing env))) (c\<lparr>ct_closed := True\<rparr>) w = (errs, c1, w')" and c': "c' = c1\<lparr>ct_complete := (errs = [])\<rparr>"
    using assms(2) by (auto simp: share_close_def split: prod.splits)
  have "share_inv (c\<lparr>ct_closed := True\<rparr>) w" using assms(1) by (simp add: share_inv_def)
  then have "share_inv c1 w'" using tripleD [OF closing _ r] by simp
  then show ?thesis by (simp add: c' share_inv_def)
qed

lemma sharing_reachable_inv: "sharing_reachable tc sha env c w \<Longrightarrow> share_inv c w"
proof (induction rule: sharing_reachable.induct)
  case (shreach_step c w cfg res c' w')
  then show ?case using stepped_inv by blast
next
  case (shreach_close c w errs c' w')
  then show ?case using closed_inv by blast
qed (auto simp: share_inv_def new_controller_def)

lemma proper_split: "proper (later @ w) \<Longrightarrow> proper w"
  by (induction later) auto

end
