(* ===== verification/Sharing_Donors.thy ===== *)
theory Sharing_Donors
  imports Sharing_Controller "HOL-Library.Multiset"
begin

section \<open>Internet sharing: which donors a step considers\<close>

text \<open>
  The donors of a step are backed by signed, unexpired records and a live route, one entry a device; probing more than eight
  of them moves around the devices in the order of their UUIDs, at least six of them a call.
\<close>

subsection \<open>Sorting\<close>

lemma mset_insert_cmp: "mset (insert_cmp f x ys) = add_mset x (mset ys)"
  by (induction ys) auto

lemma mset_sort_cmp [simp]: "mset (sort_cmp f xs) = mset xs"
  by (induction xs) (simp_all add: sort_cmp_def mset_insert_cmp)

lemma set_sort_cmp [simp]: "set (sort_cmp f xs) = set xs"
  by (metis mset_sort_cmp set_mset_mset)

lemma sorted_insert_cmp:
  assumes "\<And>y. y \<in> set ys \<Longrightarrow> f x y \<le> 0 \<longleftrightarrow> k x \<le> k y" "sorted (map k ys)"
  shows "sorted (map k (insert_cmp f x ys :: 'a list))"
  using assms
proof (induction ys)
  case (Cons y ys)
  have s: "set (insert_cmp f x ys) = insert x (set ys)" by (metis mset_insert_cmp set_mset_add_mset_insert set_mset_mset)
  show ?case
  proof (cases "f x y \<le> 0")
    case True
    then have "k x \<le> k y" using Cons.prems(1) by simp
    then show ?thesis using True Cons.prems(2) by auto
  next
    case False
    then have "k y \<le> k x" using Cons.prems(1) [of y] by auto
    then show ?thesis using False Cons s by auto
  qed
qed simp

lemma sorted_sort_cmp:
  assumes "\<And>x y. x \<in> set xs \<Longrightarrow> y \<in> set xs \<Longrightarrow> f x y \<le> 0 \<longleftrightarrow> k x \<le> k y"
  shows "sorted (map k (sort_cmp f (xs :: 'a list)))"
  using assms
proof (induction xs)
  case (Cons x xs)
  have "sorted (map k (sort_cmp f xs))" using Cons.IH Cons.prems by simp
  then have "sorted (map k (insert_cmp f x (sort_cmp f xs)))"
    by (rule sorted_insert_cmp [rotated]) (use Cons.prems in simp)
  then show ?case by (simp add: sort_cmp_def)
qed (simp add: sort_cmp_def)

subsection \<open>What stands behind a donor\<close>

definition donor_evidence :: "text_codec \<Rightarrow> (bytes \<Rightarrow> bytes) \<Rightarrow> device \<Rightarrow> node_view \<Rightarrow> catalog_record list \<Rightarrow> int \<Rightarrow> device \<Rightarrow> bool" where
  "donor_evidence tc sha self view offers now d \<longleftrightarrow> d \<noteq> self \<and> dv_tenant d = dv_tenant self
     \<and> (\<exists>offer \<in> set offers. is_gateway_offer offer \<and> \<not> cr_withdraw offer \<and> device_from_principal tc (ck_device (cr_key offer)) = Some d
          \<and> now < unix_milli (cr_expires offer))
     \<and> (\<exists>m \<in> set (nv_devices view). ml_device m = dv_id d \<and> \<not> ml_withdraw m
          \<and> unix_milli (ml_issued m) \<le> now + 5000000000 \<and> now < unix_milli (ml_expires m))
     \<and> (\<exists>r \<in> set (nv_routes view). r_prefix r = Pfx (mesh_address sha d) 128 \<and> \<not> r_local r \<and> \<not> r_unreachable r \<and> r_link r \<noteq> 0)"

lemma manifest_fold:
  "manifest_expiry uuid now ms = zero_time \<or> (\<exists>m \<in> set ms. ml_device m = uuid \<and> \<not> ml_withdraw m
     \<and> unix_milli (ml_issued m) \<le> now + 5000000000 \<and> now < unix_milli (ml_expires m))"
  unfolding manifest_expiry_def
proof (induction ms rule: rev_induct)
  case (snoc m ms)
  then show ?case by (auto simp: not_less)
qed simp

lemma donor_link_route:
  "donor_link ula rs \<noteq> 0 \<Longrightarrow> \<exists>r \<in> set rs. r_prefix r = ula \<and> \<not> r_local r \<and> \<not> r_unreachable r \<and> r_link r \<noteq> 0"
  by (induction rs) (auto split: if_splits)

lemma device_from_principal_plain: "device_from_principal tc s = Some d \<Longrightarrow> \<not> is_operator d \<and> dv_valid d"
  by (auto simp: device_from_principal_def is_operator_def dv_valid_def split: option.splits)

lemma offered_evidence:
  assumes "offered_gateway tc sha self view now offer = Some g" "offer \<in> set offers"
  shows "donor_evidence tc sha self view offers now (gw_device g) \<and> \<not> is_operator (gw_device g) \<and> \<not> gw_reachable g"
proof -
  obtain d where d: "device_from_principal tc (ck_device (cr_key offer)) = Some d" and o: "is_gateway_offer offer" "\<not> cr_withdraw offer"
    using assms(1) by (auto simp: offered_gateway_def split: if_splits option.splits)
  then have f: "d \<noteq> self" "dv_tenant d = dv_tenant self" "now < unix_milli (cr_expires offer)"
      "manifest_expiry (dv_id d) now (nv_devices view) \<noteq> zero_time"
      "donor_link (Pfx (mesh_address sha d) 128) (nv_routes view) \<noteq> 0" "gw_device g = d" "\<not> gw_reachable g"
    using assms(1) by (auto simp: offered_gateway_def Let_def split: if_splits)
  show ?thesis
    using d o f assms(2) manifest_fold [of "dv_id d" now "nv_devices view"] donor_link_route [OF f(5)] device_from_principal_plain [OF d]
    unfolding donor_evidence_def by blast
qed

definition donor_map :: "(gateway \<Rightarrow> bool) \<Rightarrow> (device, gateway) gomap \<Rightarrow> bool" where
  "donor_map P m \<longleftrightarrow> m_ok m \<and> (\<forall>e \<in> set m. gw_device (snd e) = fst e \<and> P (snd e))"

lemma keep_latest_ok:
  assumes "donor_map P m" "P g"
  shows "donor_map P (keep_latest g m)"
proof -
  have "donor_map P (m_put (gw_device g) g m)"
    using set_m_put [of "gw_device g" g m] assms by (fastforce simp: donor_map_def)
  then show ?thesis using assms by (simp add: keep_latest_def split: option.splits)
qed

lemma keep_latest_fold: "\<forall>g \<in> set gs. P g \<Longrightarrow> donor_map P m \<Longrightarrow> donor_map P (fold keep_latest gs m)"
  by (induction gs arbitrary: m) (simp_all add: keep_latest_ok)

lemma signed_donors:
  fixes tc sha self view offers now
  defines "gs \<equiv> signed_gateways tc sha self view offers now"
  shows "distinct (map gw_device gs)"
    and "g \<in> set gs \<Longrightarrow> donor_evidence tc sha self view offers now (gw_device g) \<and> \<not> is_operator (gw_device g) \<and> \<not> gw_reachable g"
proof -
  define P where "P g \<longleftrightarrow> donor_evidence tc sha self view offers now (gw_device g) \<and> \<not> is_operator (gw_device g) \<and> \<not> gw_reachable g"
    for g :: gateway
  define xs where "xs = List.map_filter (offered_gateway tc sha self view now) offers"
  have "\<forall>g \<in> set xs. P g"
    using offered_evidence unfolding xs_def P_def by (fastforce simp: List.map_filter_def)
  then have m: "m_ok (fold keep_latest xs [])" "\<forall>e \<in> set (fold keep_latest xs []). gw_device (snd e) = fst e \<and> P (snd e)"
    using keep_latest_fold [of xs P "[]"] by (simp_all add: donor_map_def m_ok_def)
  have gs: "mset gs = mset (map snd (fold keep_latest xs []))"
    by (simp add: gs_def signed_gateways_def xs_def del: mset_map)
  have "map (gw_device \<circ> snd) (fold keep_latest xs []) = map fst (fold keep_latest xs [])"
    using m(2) by (auto simp: list_eq_iff_nth_eq)
  then have "distinct (map (gw_device \<circ> snd) (fold keep_latest xs []))"
    using m(1) strict_sorted_iff unfolding m_ok_def by metis
  moreover have "mset (map gw_device gs) = mset (map (gw_device \<circ> snd) (fold keep_latest xs []))"
    using gs by (metis map_map mset_map)
  ultimately show "distinct (map gw_device gs)" by (metis distinct_count_atmost_1 set_mset_mset)
  show "donor_evidence tc sha self view offers now (gw_device g) \<and> \<not> is_operator (gw_device g) \<and> \<not> gw_reachable g" if "g \<in> set gs"
  proof -
    have "g \<in> snd ` set (fold keep_latest xs [])" using that gs by (metis list.set_map set_mset_mset)
    then show ?thesis using m(2) by (auto simp: P_def)
  qed
qed

end
