(* ===== verification/Sharing_Probes.thy ===== *)
theory Sharing_Probes
  imports Sharing_Donors
begin

section \<open>Internet sharing: the rotation of probes\<close>

subsection \<open>One call\<close>

text \<open>The positions a call walks over are consecutive on the cycle of the ordered donors; it remembers the last of them.\<close>

abbreviation on_cycle :: "nat list \<Rightarrow> nat \<Rightarrow> nat" where
  "on_cycle ordered p \<equiv> ordered ! (p mod length ordered)"

lemma rotated:
  assumes "rotate_probes gs ordered start offset indices cursor = (ks, cur)" "offset \<le> length ordered"
  shows "\<exists>stop. offset \<le> stop \<and> stop \<le> length ordered \<and> (stop = length ordered \<or> 8 \<le> length ks)
    \<and> length ks \<le> length indices + (stop - offset)
    \<and> set indices \<union> (\<lambda>j. on_cycle ordered (start + j)) ` {offset..<stop} \<subseteq> set ks
    \<and> set ks \<subseteq> set indices \<union> (\<lambda>j. on_cycle ordered (start + j)) ` {offset..<stop}
    \<and> cur = (if stop = offset then cursor else gw_device (gs ! on_cycle ordered (start + (stop - 1))))"
  using assms
proof (induction gs ordered start offset indices cursor rule: rotate_probes.induct)
  case (1 gs ordered start offset indices cursor)
  show ?case
  proof (cases "offset < length ordered \<and> length indices < 8")
    case False
    then have "ks = indices" "cur = cursor" using "1.prems"(1) by (subst (asm) rotate_probes.simps; auto split: if_splits)+
    then show ?thesis using False "1.prems"(2) by (intro exI [of _ offset]) auto
  next
    case True
    let ?k = "on_cycle ordered (start + offset)"
    let ?is = "if ?k \<in> set indices then indices else indices @ [?k]"
    have r: "rotate_probes gs ordered start (offset + 1) ?is (gw_device (gs ! ?k)) = (ks, cur)"
      using "1.prems"(1) True by (subst (asm) rotate_probes.simps) (simp add: Let_def)
    obtain stop where s: "offset + 1 \<le> stop" "stop \<le> length ordered" "stop = length ordered \<or> 8 \<le> length ks"
      "length ks \<le> length ?is + (stop - (offset + 1))"
      "set ?is \<union> (\<lambda>j. on_cycle ordered (start + j)) ` {offset + 1..<stop} \<subseteq> set ks"
      "set ks \<subseteq> set ?is \<union> (\<lambda>j. on_cycle ordered (start + j)) ` {offset + 1..<stop}"
      "cur = (if stop = offset + 1 then gw_device (gs ! ?k) else gw_device (gs ! on_cycle ordered (start + (stop - 1))))"
      using "1.IH" [OF True refl r] True by auto
    have iv: "{offset..<stop} = insert offset {offset + 1..<stop}" using s(1) by auto
    have grown: "set ?is = insert ?k (set indices)" "length ?is \<le> length indices + 1" by auto
    show ?thesis
      by (rule exI [of _ stop]) (use s grown in \<open>auto simp: iv\<close>)
  qed
qed

lemma find_after_eq:
  "find_after tc cursor gs ks i =
     (if \<exists>k \<in> set ks. 0 < device_compare (tc_uuid tc) (gw_device (gs ! k)) cursor
      then i + length (takeWhile (\<lambda>k. \<not> 0 < device_compare (tc_uuid tc) (gw_device (gs ! k)) cursor) ks) else 0)"
  by (induction ks arbitrary: i) auto

lemma takeWhile_shorter: "\<exists>k \<in> set ks. Q k \<Longrightarrow> length (takeWhile (\<lambda>k. \<not> Q k) ks) < length ks"
  by (induction ks) auto

lemma find_after_bound: "ks \<noteq> [] \<Longrightarrow> find_after tc cursor gs ks 0 < length ks"
  by (simp add: find_after_eq takeWhile_shorter)

subsection \<open>The order of the donors\<close>

lemma plain_compare:
  "\<not> is_operator a \<Longrightarrow> \<not> is_operator b \<Longrightarrow> device_compare spell a b = cmp (dv_id a) (dv_id b)"
  by (simp add: device_compare_def Let_def)

definition plain_donors :: "bytes set \<Rightarrow> gateway list \<Rightarrow> bool" where
  "plain_donors I gs \<longleftrightarrow> distinct (map (dv_id \<circ> gw_device) gs) \<and> (dv_id \<circ> gw_device) ` set gs = I
     \<and> (\<forall>g \<in> set gs. \<not> is_operator (gw_device g))"

definition probe_order :: "text_codec \<Rightarrow> gateway list \<Rightarrow> nat list" where
  "probe_order tc gs = sort_cmp (\<lambda>a b. device_compare (tc_uuid tc) (gw_device (gs ! a)) (gw_device (gs ! b))) [0..<length gs]"

lemma probe_order_set: "set (probe_order tc gs) = {0..<length gs}" "length (probe_order tc gs) = length gs"
proof -
  show "set (probe_order tc gs) = {0..<length gs}" by (simp add: probe_order_def)
  have "mset (probe_order tc gs) = mset [0..<length gs]" unfolding probe_order_def by (rule mset_sort_cmp)
  then show "length (probe_order tc gs) = length gs" by (metis diff_zero length_upt mset_eq_length)
qed

lemma probe_order_ids:
  assumes "plain_donors I gs"
  shows "map (\<lambda>k. dv_id (gw_device (gs ! k))) (probe_order tc gs) = sorted_list_of_set I"
proof -
  let ?id = "\<lambda>k. dv_id (gw_device (gs ! k))"
  have plain: "\<not> is_operator (gw_device (gs ! k))" if "k < length gs" for k using assms that by (simp add: plain_donors_def)
  have "sorted (map ?id (probe_order tc gs))"
    unfolding probe_order_def by (rule sorted_sort_cmp) (auto simp: plain_compare plain cmp_def)
  moreover have all: "map ?id [0..<length gs] = map (dv_id \<circ> gw_device) gs" by (rule nth_equalityI) simp_all
  have m: "mset (map ?id (probe_order tc gs)) = mset (map ?id [0..<length gs])"
    by (simp add: probe_order_def)
  then have "distinct (map ?id (probe_order tc gs))" using assms all unfolding plain_donors_def
    by (metis distinct_count_atmost_1 set_mset_mset)
  moreover have "set (map ?id (probe_order tc gs)) = I"
    using m all assms unfolding plain_donors_def by (metis list.set_map set_mset_mset)
  ultimately show ?thesis by (metis sorted_list_of_set.idem_if_sorted_distinct)
qed

text \<open>After a call that stopped at one donor the next one starts with the donor after it.\<close>

lemma find_after_next:
  assumes "plain_donors I gs" "\<not> is_operator cursor" "p < length gs" "dv_id cursor = sorted_list_of_set I ! p"
  shows "find_after tc cursor gs (probe_order tc gs) 0 = (p + 1) mod length gs"
proof -
  define ks where "ks = probe_order tc gs"
  define L where "L = sorted_list_of_set I"
  have n: "length ks = length gs" by (simp add: ks_def probe_order_set)
  have L: "L = map (\<lambda>k. dv_id (gw_device (gs ! k))) ks" using probe_order_ids [OF assms(1)] by (simp add: L_def ks_def)
  have Ls: "sorted_wrt (<) L" by (simp add: L_def)
  have lt: "0 < device_compare (tc_uuid tc) (gw_device (gs ! (ks ! q))) cursor \<longleftrightarrow> p < q" if "q < length gs" for q
  proof -
    have "ks ! q < length gs" using nth_mem [of q ks] that n probe_order_set(1) [of tc gs] by (auto simp: ks_def)
    then have "\<not> is_operator (gw_device (gs ! (ks ! q)))" using assms(1) by (simp add: plain_donors_def)
    then have "0 < device_compare (tc_uuid tc) (gw_device (gs ! (ks ! q))) cursor \<longleftrightarrow> L ! p < L ! q"
      using assms(2,4) that n by (simp add: plain_compare cmp_def L L_def [symmetric]) (metis order_less_asym linorder_less_linear)
    also have "\<dots> \<longleftrightarrow> p < q" using Ls assms(3) that n L
      by (metis length_map linorder_neqE_nat order_less_asym order_less_irrefl sorted_wrt_nth_less)
    finally show ?thesis .
  qed
  show ?thesis
  proof (cases "p + 1 < length gs")
    case True
    then have "\<exists>k \<in> set ks. 0 < device_compare (tc_uuid tc) (gw_device (gs ! k)) cursor" using lt [of "p + 1"] n by (metis less_add_one nth_mem)
    moreover have "takeWhile (\<lambda>k. \<not> 0 < device_compare (tc_uuid tc) (gw_device (gs ! k)) cursor) ks = take (p + 1) ks"
      by (rule takeWhile_eq_take_P_nth) (use lt n in auto)
    ultimately show ?thesis using True n by (simp add: find_after_eq ks_def)
  next
    case False
    then have p: "p + 1 = length gs" using assms(3) by simp
    have "\<not> (\<exists>k \<in> set ks. 0 < device_compare (tc_uuid tc) (gw_device (gs ! k)) cursor)"
      using lt n p by (metis Suc_eq_plus1 in_set_conv_nth not_less_eq)
    then show ?thesis using p by (simp add: find_after_eq ks_def)
  qed
qed

subsection \<open>Many calls\<close>

text \<open>
  A call with the donors \<open>gs\<close> while traffic goes through the donor \<open>d\<close>, as \<open>reachable_gateway\<close> makes it.
\<close>

definition probe_round :: "text_codec \<Rightarrow> gateway list \<Rightarrow> device \<Rightarrow> controller \<Rightarrow> device set \<times> controller" where
  "probe_round tc gs d c = (let (ks, c) = probe_indices tc gs (c\<lparr>ct_gateway := d\<rparr>) in (set (map (\<lambda>k. gw_device (gs ! k)) ks), c))"

fun probed :: "text_codec \<Rightarrow> (gateway list \<times> device) list \<Rightarrow> controller \<Rightarrow> device set" where
  "probed tc [] c = {}"
| "probed tc ((gs, d) # rs) c = (let (ds, c) = probe_round tc gs d c in ds \<union> probed tc rs c)"

lemma current_index_short: "length (current_index d gs i) \<le> 1" "set (current_index d gs i) \<subseteq> {i..<i + length gs}"
  by (induction gs arbitrary: i) (auto; fastforce)+

lemma cycle_next: 
  assumes "6 \<le> stop"
  shows "((a mod n + (stop - 1)) mod n + 1 + j) mod n = (a + stop + j) mod (n :: nat)"
proof -
  have "((a mod n + (stop - 1)) mod n + 1 + j) mod n = ((a + (stop - 1)) mod n + (1 + j)) mod n"
    by (simp only: mod_add_left_eq add.assoc)
  also have "\<dots> = (a + (stop - 1) + (1 + j)) mod n" by (rule mod_add_left_eq)
  also have "a + (stop - 1) + (1 + j) = a + stop + j" using assms by simp
  finally show ?thesis .
qed

lemma round_walks:
  assumes gs: "plain_donors I gs" and n: "8 < card I" and r: "probe_round tc gs d c = (ds, c')"
    and s: "find_after tc (ct_probe_after c) gs (probe_order tc gs) 0 = s"
  shows "\<exists>stop \<ge> 6. (\<forall>j < stop. sorted_list_of_set I ! ((s + j) mod card I) \<in> dv_id ` ds)
    \<and> \<not> is_operator (ct_probe_after c') \<and> dv_id (ct_probe_after c') = sorted_list_of_set I ! ((s + (stop - 1)) mod card I)"
proof -
  define ks where "ks = probe_order tc gs"
  have len: "length gs = card I"
    using gs unfolding plain_donors_def by (metis distinct_card length_map list.set_map)
  have L: "length ks = card I" "set ks = {0..<length gs}" using len by (simp_all add: ks_def probe_order_set)
  have ids: "sorted_list_of_set I ! (p mod card I) = dv_id (gw_device (gs ! on_cycle ks p))" for p
  proof -
    have "p mod card I < card I" using n by simp
    then show ?thesis unfolding probe_order_ids [OF gs, of tc, symmetric] ks_def [symmetric] using L by simp
  qed
  have n': "\<not> length gs \<le> 8" using n len by simp
  obtain ix cur where rot: "rotate_probes gs ks s 0 (0 # current_index d gs 0) (ct_probe_after c) = (ix, cur)"
    and c': "ct_probe_after c' = cur" and ds: "ds = set (map (\<lambda>k. gw_device (gs ! k)) ix)"
    using r s n' by (auto simp: probe_round_def probe_indices_def probe_order_def [symmetric] ks_def Let_def split: prod.splits)
  obtain stop where st: "stop \<le> card I" "stop = card I \<or> 8 \<le> length ix" "length ix \<le> length (0 # current_index d gs 0) + stop"
      "(\<lambda>j. on_cycle ks (s + j)) ` {0..<stop} \<subseteq> set ix"
      "cur = (if stop = 0 then ct_probe_after c else gw_device (gs ! on_cycle ks (s + (stop - 1))))"
    using rotated [OF rot] L by auto
  have stop: "6 \<le> stop" using st(2,3) current_index_short(1) [of d gs 0] n by auto
  moreover have "sorted_list_of_set I ! ((s + j) mod card I) \<in> dv_id ` ds" if "j < stop" for j
  proof -
    have "on_cycle ks (s + j) \<in> set ix" using st(4) that by auto
    then show ?thesis unfolding ids ds by simp
  qed
  moreover have "on_cycle ks (s + (stop - 1)) < length gs"
    using nth_mem [of "(s + (stop - 1)) mod length ks" ks] L n by auto
  then have "\<not> is_operator cur" using gs st(5) stop by (simp add: plain_donors_def)
  ultimately show ?thesis using st(5) stop unfolding c' ids by auto
qed

lemma rounds_walk:
  assumes "\<forall>r \<in> set rs. plain_donors I (fst r)" "8 < card I"
    "\<not> is_operator (ct_probe_after c)" "p < card I" "dv_id (ct_probe_after c) = sorted_list_of_set I ! p"
  shows "\<forall>j < 6 * length rs. sorted_list_of_set I ! ((p + 1 + j) mod card I) \<in> dv_id ` probed tc rs c"
  using assms
proof (induction rs arbitrary: c p)
  case (Cons r rs)
  obtain gs d where r: "r = (gs, d)" by (cases r)
  have gs: "plain_donors I gs" using Cons.prems(1) by (simp add: r)
  then have len: "length gs = card I" unfolding plain_donors_def by (metis distinct_card length_map list.set_map)
  obtain ds c' where pr: "probe_round tc gs d c = (ds, c')" by fastforce
  have start: "find_after tc (ct_probe_after c) gs (probe_order tc gs) 0 = (p + 1) mod card I"
    using find_after_next [OF gs Cons.prems(3)] Cons.prems(4,5) len by simp
  obtain stop where st: "6 \<le> stop" "\<forall>j < stop. sorted_list_of_set I ! (((p + 1) mod card I + j) mod card I) \<in> dv_id ` ds"
      "\<not> is_operator (ct_probe_after c')"
      "dv_id (ct_probe_after c') = sorted_list_of_set I ! (((p + 1) mod card I + (stop - 1)) mod card I)"
    using round_walks [OF gs Cons.prems(2) pr start] by blast
  define q where "q = ((p + 1) mod card I + (stop - 1)) mod card I"
  have q: "q < card I" "(q + 1 + j) mod card I = (p + 1 + (stop + j)) mod card I" for j
    using cycle_next [OF st(1), of "p + 1" "card I" j] Cons.prems(2) by (auto simp: q_def add.assoc)
  have rest: "\<forall>j < 6 * length rs. sorted_list_of_set I ! ((q + 1 + j) mod card I) \<in> dv_id ` probed tc rs c'"
    using Cons.IH [of c' q] Cons.prems(1,2) st(3,4) q by (simp add: q_def)
  show ?case
  proof (intro allI impI)
    fix j assume j: "j < 6 * length (r # rs)"
    show "sorted_list_of_set I ! ((p + 1 + j) mod card I) \<in> dv_id ` probed tc (r # rs) c"
    proof (cases "j < stop")
      case True
      then show ?thesis using st(2) by (simp add: r pr mod_simps image_Un)
    next
      case False
      then have "j - stop < 6 * length rs" "p + 1 + (stop + (j - stop)) = p + 1 + j" using j st(1) by auto
      then have "sorted_list_of_set I ! ((p + 1 + j) mod card I) \<in> dv_id ` probed tc rs c'" using rest q(2) [of "j - stop"] by fastforce
      then show ?thesis by (simp add: r pr image_Un)
    qed
  qed
qed simp

lemma donors_probed:
  assumes "\<forall>r \<in> set rs. plain_donors I (fst r)" "card I \<le> 6 * length rs" "finite I"
  shows "I \<subseteq> dv_id ` probed tc rs c"
proof (cases rs)
  case Nil
  then show ?thesis using assms(2,3) by simp
next
  case (Cons r rest)
  obtain gs d where r: "r = (gs, d)" by (cases r)
  have gs: "plain_donors I gs" using assms(1) by (simp add: r Cons)
  then have len: "length gs = card I" unfolding plain_donors_def by (metis distinct_card length_map list.set_map)
  obtain ds c' where pr: "probe_round tc gs d c = (ds, c')" by fastforce
  show ?thesis
  proof (cases "8 < card I")
    case False
    then have "ds = set (map (\<lambda>k. gw_device (gs ! k)) [0..<length gs])" using pr len by (auto simp: probe_round_def probe_indices_def)
    also have "map (\<lambda>k. gw_device (gs ! k)) [0..<length gs] = map gw_device gs" by (rule nth_equalityI) simp_all
    finally have "dv_id ` ds = I" using gs by (simp add: plain_donors_def image_comp)
    then show ?thesis by (auto simp: Cons r pr)
  next
    case True
    define s where "s = find_after tc (ct_probe_after c) gs (probe_order tc gs) 0"
    obtain stop where st: "6 \<le> stop" "\<forall>j < stop. sorted_list_of_set I ! ((s + j) mod card I) \<in> dv_id ` ds"
        "\<not> is_operator (ct_probe_after c')"
        "dv_id (ct_probe_after c') = sorted_list_of_set I ! ((s + (stop - 1)) mod card I)"
      using round_walks [OF gs True pr s_def [symmetric]] by blast
    define q where "q = (s + (stop - 1)) mod card I"
    have q: "q < card I" "(q + 1 + j) mod card I = (s + stop + j) mod card I" for j
      using cycle_next [OF st(1), of s "card I" j] True by (auto simp: q_def mod_simps)
    have rest: "\<forall>j < 6 * length rest. sorted_list_of_set I ! ((q + 1 + j) mod card I) \<in> dv_id ` probed tc rest c'"
      using rounds_walk [of rest I c' q] assms(1) True st(3,4) q(1) by (simp add: Cons q_def)
    have walked: "sorted_list_of_set I ! ((s + j) mod card I) \<in> dv_id ` probed tc rs c" if "j < 6 * length rs" for j
    proof (cases "j < stop")
      case True
      then show ?thesis using st(2) by (simp add: Cons r pr image_Un)
    next
      case False
      then have "j - stop < 6 * length rest" "s + stop + (j - stop) = s + j" using that st(1) by (auto simp: Cons)
      then have "sorted_list_of_set I ! ((s + j) mod card I) \<in> dv_id ` probed tc rest c'" using rest q(2) [of "j - stop"] by fastforce
      then show ?thesis by (simp add: Cons r pr image_Un)
    qed
    have fin: "finite I" using True card.infinite by force
    show ?thesis
    proof
      fix u assume "u \<in> I"
      then have "u \<in> set (sorted_list_of_set I)" using fin by simp
      then obtain p where p: "p < card I" "u = sorted_list_of_set I ! p" by (metis in_set_conv_nth length_sorted_list_of_set)
      define j where "j = (p + (card I - s mod card I)) mod card I"
      have "(s + j) mod card I = p"
      proof -
        have "s mod card I < card I" using True by simp
        then have "s mod card I + (p + (card I - s mod card I)) = p + card I" by simp
        then have "(s mod card I + (p + (card I - s mod card I))) mod card I = p" using p(1) by simp
        then show ?thesis by (simp add: j_def mod_simps)
      qed
      moreover have "j < 6 * length rs" using True assms(2) by (metis j_def less_le_trans mod_less_divisor not_less_zero bot_nat_0.not_eq_extremum)
      ultimately show "u \<in> dv_id ` probed tc rs c" using walked p(2) by blast
    qed
  qed
qed

end
