(* ===== verification/Sharing_Guarantee.thy ===== *)
theory Sharing_Guarantee
  imports Sharing_Trace Sharing_Probes
begin

section \<open>Internet sharing: what a step may ask for\<close>

subsection \<open>Hysteresis\<close>

text \<open>
  A tracker is healthy when two successes have followed one another and no three failures have since. The recursive form
  reads the observations with the latest first.
\<close>

fun steady :: "bool list \<Rightarrow> bool" where
  "steady [] = False"
| "steady (True # rs) = (steady rs \<or> (case rs of True # _ \<Rightarrow> True | _ \<Rightarrow> False))"
| "steady (False # rs) = (steady rs \<and> (case rs of False # False # _ \<Rightarrow> False | _ \<Rightarrow> True))"

definition run_of :: "bool \<Rightarrow> bool list \<Rightarrow> nat" where
  "run_of b rs = length (takeWhile ((=) b) rs)"

lemma run_of_simps [simp]: "run_of b [] = 0" "run_of b (x # rs) = (if x = b then Suc (run_of b rs) else 0)"
  by (simp_all add: run_of_def)

lemma run_of_two: "2 \<le> run_of b rs \<longleftrightarrow> (\<exists>xs. rs = b # b # xs)"
  by (cases rs rule: list.exhaust [case_names Nil Cons]; cases "tl rs") auto

lemma steady_run: "steady (x # rs) \<longleftrightarrow> (if x then steady rs \<or> 1 \<le> run_of True rs else steady rs \<and> run_of False rs < 2)"
  by (cases rs; cases "tl rs"; cases x) (auto split: bool.splits)

lemma tracked:
  "fold observe obs new_health = \<lparr>ht_healthy = steady (rev obs), ht_successes = int (min 2 (run_of True (rev obs))),
     ht_failures = int (min 3 (run_of False (rev obs)))\<rparr>"
proof (induction obs rule: rev_induct)
  case (snoc x obs)
  have s: "steady (rev obs)" if "run_of True (rev obs) \<ge> 2" using that by (auto simp: run_of_two)
  have f: "\<not> steady (rev obs)" if "run_of False (rev obs) \<ge> 3"
  proof -
    have "2 \<le> run_of False (rev obs)" using that by simp
    then obtain xs where "rev obs = False # False # xs" unfolding run_of_two by blast
    then show ?thesis using that by (cases xs) (auto split: bool.splits list.splits)
  qed
  show ?case using snoc s f by (cases x) (auto simp: observe_def Let_def steady_run min_def simp del: steady.simps)
qed (simp add: new_health_def)

definition no_three_failures :: "bool list \<Rightarrow> bool" where
  "no_three_failures b \<longleftrightarrow> \<not> (\<exists>p q. b = p @ [False, False, False] @ q)"

lemma no_three_Cons: "no_three_failures (x # b) \<longleftrightarrow> no_three_failures b \<and> (x \<or> \<not> (\<exists>q. b = False # False # q))"
proof -
  have "(\<exists>p q. x # b = p @ [False, False, False] @ q) \<longleftrightarrow> (\<exists>q. x # b = [False, False, False] @ q) \<or> (\<exists>p q. b = p @ [False, False, False] @ q)"
    by (metis (no_types, opaque_lifting) append_Cons append_eq_Cons_conv append_self_conv2)
  then show ?thesis by (auto simp: no_three_failures_def)
qed

lemma no_three_rev: "no_three_failures (rev b) \<longleftrightarrow> no_three_failures b"
proof -
  have "(\<exists>p q. rev b = p @ [False, False, False] @ q) \<longleftrightarrow> (\<exists>p q. b = p @ [False, False, False] @ q)" for b :: "bool list"
  proof
    assume "\<exists>p q. rev b = p @ [False, False, False] @ q"
    then obtain p q where "rev b = p @ [False, False, False] @ q" by blast
    then have "b = rev q @ [False, False, False] @ rev p" by (simp add: rev_swap)
    then show "\<exists>p q. b = p @ [False, False, False] @ q" by blast
  next
    assume "\<exists>p q. b = p @ [False, False, False] @ q"
    then obtain p q where "b = p @ [False, False, False] @ q" by blast
    then have "rev b = rev q @ [False, False, False] @ rev p" by simp
    then show "\<exists>p q. rev b = p @ [False, False, False] @ q" by blast
  qed
  then show ?thesis by (simp add: no_three_failures_def)
qed

lemma steady_split: "steady rs \<longleftrightarrow> (\<exists>b a. rs = b @ [True, True] @ a \<and> no_three_failures b)"
proof (induction rs)
  case (Cons x rs)
  have split: "(\<exists>b a. x # rs = b @ [True, True] @ a \<and> no_three_failures b)
      \<longleftrightarrow> (\<exists>a. x # rs = True # True # a) \<or> (\<exists>b a. rs = b @ [True, True] @ a \<and> no_three_failures (x # b))" (is "?l \<longleftrightarrow> ?r1 \<or> ?r2")
  proof
    assume ?l
    then obtain b a where "x # rs = b @ [True, True] @ a" "no_three_failures b" by blast
    then show "?r1 \<or> ?r2" by (cases b) auto
  next
    have "no_three_failures []" by (simp add: no_three_failures_def)
    then show "?r1 \<or> ?r2 \<Longrightarrow> ?l" by (metis append_Cons append_Nil)
  qed
  show ?case
  proof (cases x)
    case True
    then show ?thesis unfolding split no_three_Cons using Cons by (cases rs) (auto split: bool.splits)
  next
    case False
    have "(\<exists>q. b = False # False # q) \<longleftrightarrow> (\<exists>q. rs = False # False # q)" if "rs = b @ [True, True] @ a" for b a
      using that by (cases b; cases "tl b") auto
    then have "?r2 \<longleftrightarrow> steady rs \<and> \<not> (\<exists>q. rs = False # False # q)" unfolding no_three_Cons using Cons False by blast
    then show ?thesis unfolding split using False by (cases rs; cases "tl rs") (auto split: bool.splits)
  qed
qed simp

text \<open>
  an uplink or a donor counts as healthy exactly when two of its probes in a row have succeeded and no
  three in a row have failed after them, whatever the observations were before.
\<close>

theorem health_debounced:
  "ht_healthy (fold observe obs new_health) \<longleftrightarrow>
     (\<exists>before after. obs = before @ [True, True] @ after \<and> (\<forall>p q. after \<noteq> p @ [False, False, False] @ q))"
proof -
  have "steady (rev obs) \<longleftrightarrow> (\<exists>before after. obs = before @ [True, True] @ after \<and> no_three_failures after)"
    unfolding steady_split
  proof
    assume "\<exists>b a. rev obs = b @ [True, True] @ a \<and> no_three_failures b"
    then obtain b a where "rev obs = b @ [True, True] @ a" "no_three_failures b" by blast
    then have "obs = rev a @ [True, True] @ rev b" "no_three_failures (rev b)" by (simp_all add: rev_swap no_three_rev)
    then show "\<exists>before after. obs = before @ [True, True] @ after \<and> no_three_failures after" by blast
  next
    assume "\<exists>before after. obs = before @ [True, True] @ after \<and> no_three_failures after"
    then obtain a b where "obs = a @ [True, True] @ b" "no_three_failures b" by blast
    then have "rev obs = rev b @ [True, True] @ rev a" "no_three_failures (rev b)" by (simp_all add: no_three_rev)
    then show "\<exists>b a. rev obs = b @ [True, True] @ a \<and> no_three_failures b" by blast
  qed
  then show ?thesis by (simp add: tracked no_three_failures_def)
qed

subsection \<open>Actions with a guarantee\<close>

text \<open>
  From one state to another only calls that satisfy \<open>P\<close> were made and the health of the donors has stayed.
\<close>

definition guarded :: "(share_event \<Rightarrow> bool) \<Rightarrow> controller \<Rightarrow> share_event list \<Rightarrow> controller \<Rightarrow> share_event list \<Rightarrow> bool" where
  "guarded P c w c' w' \<longleftrightarrow> ct_gateway_health c' = ct_gateway_health c \<and> (\<exists>es. w' = es @ w \<and> (\<forall>e \<in> set es. P e))"

lemma guarded_refl: "ct_gateway_health c' = ct_gateway_health c \<Longrightarrow> guarded P c w c' w"
  by (auto simp: guarded_def)

lemma guarded_Cons: "P e \<Longrightarrow> guarded P c w c' w' \<Longrightarrow> guarded P c w c' (e # w')"
  unfolding guarded_def by (metis append_Cons set_ConsD)

lemma guarded_trans:
  assumes "guarded P c w c1 w1" "guarded P c1 w1 c2 w2"
  shows "guarded P c w c2 w2"
proof -
  obtain es es' where "w1 = es @ w" "w2 = es' @ w1" "\<forall>e \<in> set es \<union> set es'. P e" using assms by (auto simp: guarded_def)
  then have "w2 = (es' @ es) @ w \<and> (\<forall>e \<in> set (es' @ es). P e)" by auto
  then show ?thesis using assms unfolding guarded_def by metis
qed

lemmas guardedI = guarded_Cons guarded_refl

abbreviation tame :: "(share_event \<Rightarrow> bool) \<Rightarrow> share_event list action \<Rightarrow> bool" where
  "tame P a \<equiv> (\<forall>c w errs c' w'. a c w = (errs, c', w') \<longrightarrow> guarded P c w c' w')"

lemma tame_before: "tame P a \<Longrightarrow> tame P b \<Longrightarrow> tame P (before a b)"
  by (auto simp: before_def split: prod.splits if_splits) (metis guarded_trans)

lemma tame_joined: "tame P a \<Longrightarrow> tame P b \<Longrightarrow> tame P (joined a b)"
  by (auto simp: joined_def split: prod.splits) (metis guarded_trans)

lemma audit_dns_health [simp]: "ct_gateway_health (audit_dns to ok c) = ct_gateway_health c"
  by (simp add: audit_dns_def)

text \<open>Calls that borrow are made with the device of the decision only.\<close>

definition borrows_from :: "device set \<Rightarrow> share_event \<Rightarrow> bool" where
  "borrows_from D e \<longleftrightarrow> (\<forall>d r. e = GatewayCall d r \<longrightarrow> d \<in> D)"

lemma borrows_from_simps [simp]:
  "borrows_from D Asked" "borrows_from D (OfferCall i ok)" "borrows_from D (DnsCall i a ok)" "borrows_from D (CloseCall ok)"
  "borrows_from D (SharingCall i n ok)" "borrows_from D (GatewayCall d r) \<longleftrightarrow> d \<in> D"
  by (auto simp: borrows_from_def)

lemma tame_calls:
  "tame (borrows_from D) (failing e)"
  "tame (borrows_from D) (called (si_set_offer (trace_sharing env) i))"
  "tame (borrows_from D) (set_dns (trace_sharing env) to)"
  "tame (borrows_from D) (withdraw_sharing (trace_sharing env))"
  "d \<in> D \<Longrightarrow> tame (borrows_from D) (set_gateway (trace_sharing env) d)"
  by (auto simp: failing_def called_def set_dns_def withdraw_sharing_def set_gateway_def trace_calls intro!: guardedI)

lemma tame_withdraw: "no_device \<in> D \<Longrightarrow> tame (borrows_from D) (withdraw_gateway (trace_sharing env))"
  unfolding withdraw_gateway_def by (intro tame_joined tame_calls)

lemma tame_offer_withdrawal: "tame (borrows_from D) (offer_withdrawal (trace_sharing env) key)"
  by (auto simp: offer_withdrawal_def called_def trace_calls intro!: guardedI split: if_splits)

lemma tame_gateway_withdrawal:
  assumes "no_device \<in> D"
  shows "tame (borrows_from D) (gateway_withdrawal (trace_sharing env) d)"
proof (cases "dc_mode d = Roaming")
  case False
  have "tame (borrows_from D) (joined (set_gateway (trace_sharing env) no_device) (set_dns (trace_sharing env) no_dns))"
    using assms by (intro tame_joined tame_calls)
  then show ?thesis using False by (simp add: gateway_withdrawal_def)
qed (auto simp: gateway_withdrawal_def intro: guarded_refl)

lemma tame_from: "tame P a \<Longrightarrow> a c1 w1 = (errs, c', w') \<Longrightarrow> guarded P c w c1 w1 \<Longrightarrow> guarded P c w c' w'"
  using guarded_trans by blast

lemma tame_changed: "tame (borrows_from D) (share_changed (trace_sharing env) d key)"
proof (intro allI impI)
  fix c w errs c' w'
  assume r: "share_changed (trace_sharing env) d key c w = (errs, c', w')"
  have off: "tame (borrows_from D) (joined (failing CallFailed) (withdraw_sharing (trace_sharing env)))"
    by (intro tame_joined tame_calls)
  let ?w1 = "SharingCall (dc_interface d) (dc_dns d) (se_set_sharing env w (dc_interface d) (dc_dns d)) # w"
  let ?w2 = "OfferCall (dc_interface d) (se_set_offer env ?w1 (dc_interface d)) # ?w1"
  have g: "guarded (borrows_from D) c w c1 (OfferCall '''' ok # ?w2)" "guarded (borrows_from D) c w c1 (Asked # ?w2)"
    "guarded (borrows_from D) c w c1 ?w1" if "ct_gateway_health c1 = ct_gateway_health c" for c1 ok
    using that by (auto intro!: guardedI)
  show "guarded (borrows_from D) c w c' w'"
  proof (cases "se_set_sharing env w (dc_interface d) (dc_dns d)")
    case False
    then have "joined (failing CallFailed) (withdraw_sharing (trace_sharing env)) (c\<lparr>ct_share_key := ''''\<rparr>) ?w1 = (errs, c', w')"
      using r by (simp add: share_changed_def trace_calls)
    then show ?thesis by (rule tame_from [OF off]) (simp add: g)
  next
    case ok: True
    show ?thesis
    proof (cases "dc_interface d \<noteq> '''' \<and> \<not> se_set_offer env ?w1 (dc_interface d)")
      case True
      then have "joined (failing CallFailed) (withdraw_sharing (trace_sharing env)) (c\<lparr>ct_share_key := '''', ct_refreshed := zero_time\<rparr>)
          (OfferCall '''' (se_set_offer env ?w2 '''') # ?w2) = (errs, c', w')"
        using r ok by (simp add: share_changed_def trace_calls)
      then show ?thesis by (rule tame_from [OF off]) (simp add: g)
    next
      case False
      then have "w' = Asked # ?w2 \<or> w' = ?w1" "ct_gateway_health c' = ct_gateway_health c"
        using r ok by (auto simp: share_changed_def trace_calls split: if_splits)
      then show ?thesis using g by blast
    qed
  qed
qed

lemma tame_stopped: "tame (borrows_from D) (share_stopped (trace_sharing env))"
proof (intro allI impI)
  fix c w errs c' w'
  have off: "tame (borrows_from D) (joined (failing CallFailed)
      (joined (called (si_set_offer (trace_sharing env) '''')) (withdraw_sharing (trace_sharing env))))"
    by (intro tame_joined tame_calls)
  assume "share_stopped (trace_sharing env) c w = (errs, c', w')"
  then show "guarded (borrows_from D) c w c' w'" unfolding share_stopped_def by (rule tame_from [OF off]) (simp add: guarded_refl)
qed

lemma tame_kept: "tame (borrows_from D) (share_kept (trace_sharing env) d)"
proof (intro allI impI)
  fix c w errs c' w'
  assume r: "share_kept (trace_sharing env) d c w = (errs, c', w')"
  let ?w1 = "SharingCall (dc_interface d) (dc_dns d) (se_set_sharing env w (dc_interface d) (dc_dns d)) # w"
  let ?w2 = "OfferCall (dc_interface d) (se_set_offer env (Asked # ?w1) (dc_interface d)) # Asked # ?w1"
  have g: "guarded (borrows_from D) c w c1 ?w1" "guarded (borrows_from D) c w c1 ?w2" "guarded (borrows_from D) c w c1 (Asked # ?w2)"
    "guarded (borrows_from D) c w c1 (Asked # ?w1)" if "ct_gateway_health c1 = ct_gateway_health c" for c1
    using that by (auto intro!: guardedI)
  have "share_stopped (trace_sharing env) c ?w1 = (errs, c', w') \<or> share_stopped (trace_sharing env) c ?w2 = (errs, c', w')
      \<or> (w' = Asked # ?w2 \<or> w' = Asked # ?w1) \<and> ct_gateway_health c' = ct_gateway_health c"
    using r unfolding share_kept_def trace_calls Let_def by (auto split: if_splits)
  then show "guarded (borrows_from D) c w c' w'" using g tame_from [OF tame_stopped] by blast
qed

lemma tame_update: "tame (borrows_from D) (share_update (trace_sharing env) d key)"
proof (intro allI impI)
  fix c w errs c' w'
  assume "share_update (trace_sharing env) d key c w = (errs, c', w')"
  then have "share_changed (trace_sharing env) d key c w = (errs, c', w') \<or> share_kept (trace_sharing env) d c w = (errs, c', w')
      \<or> withdraw_sharing (trace_sharing env) c w = (errs, c', w') \<or> c' = c \<and> w' = w"
    by (auto simp: share_update_def split: if_splits)
  then show "guarded (borrows_from D) c w c' w'"
    using tame_changed [where D = D and env = env] tame_kept [where D = D and env = env]
      tame_calls(4) [where D = D and env = env] guarded_refl [of c c "borrows_from D" w]
    by (elim disjE) simp_all
qed

lemma tame_borrow:
  assumes "no_device \<in> D" "dc_mode d = Roaming \<Longrightarrow> dc_device d \<in> D"
  shows "tame (borrows_from D) (borrow tc sha (trace_sharing env) d)"
  using assms
  by (auto simp: borrow_def withdraw_gateway_def joined_def before_def failing_def set_dns_def set_gateway_def trace_calls Let_def
      intro!: guardedI split: if_splits gateway_result.splits)

lemma tame_reconcile:
  assumes "no_device \<in> D" "dc_mode d = Roaming \<Longrightarrow> dc_device d \<in> D"
  shows "tame (borrows_from D) (reconcile tc sha (trace_sharing env) d)"
  unfolding reconcile_def Let_def
  by (intro tame_before tame_offer_withdrawal tame_gateway_withdrawal tame_update tame_borrow assms)

subsection \<open>The donor of a step\<close>

lemma first_gateway_Some: "first_gateway P gs = Some g \<Longrightarrow> g \<in> set gs \<and> P g"
  by (induction gs) (auto split: if_splits)

lemma chosen:
  assumes "choose_gateway now gs c = (g, c')"
  shows "ct_gateway_health c' = ct_gateway_health c" "g = no_gateway \<or> g \<in> set gs \<and> gw_reachable g"
proof -
  show "ct_gateway_health c' = ct_gateway_health c" using assms by (auto simp: choose_gateway_def split: option.splits)
  consider "g = no_gateway" | P where "first_gateway P gs = Some g" "\<And>g. P g \<Longrightarrow> gw_reachable g"
    using assms by (auto simp: choose_gateway_def split: option.splits)
  then show "g = no_gateway \<or> g \<in> set gs \<and> gw_reachable g" using first_gateway_Some by cases blast+
qed

text \<open>A donor counts as reachable only when its own tracker is healthy.\<close>

definition backed :: "controller \<Rightarrow> gateway \<Rightarrow> bool" where
  "backed c g \<longleftrightarrow> gw_reachable g \<longrightarrow> (\<exists>h. map_of (ct_gateway_health c) (gw_device g) = Some h \<and> ht_healthy h)"

lemma probed_backed:
  assumes "probe_gateways sha (trace_sharing env) ks gs c w = (gs', c', w')" "distinct (map gw_device gs)" "set ks \<subseteq> {0..<length gs}"
    "\<forall>g \<in> set gs. backed c g"
  shows "map gw_device gs' = map gw_device gs \<and> (\<forall>g \<in> set gs'. backed c' g)"
  using assms
proof (induction ks arbitrary: gs c w)
  case (Cons k ks)
  define ok where "ok = se_probe env w (mesh_address sha (ct_self c)) (gw_address (gs ! k))"
  obtain m good where o: "observed (gw_device (gs ! k)) ok (ct_gateway_health c) = (m, good)" by fastforce
  define gs1 where "gs1 = gs[k := (gs ! k)\<lparr>gw_reachable := good\<rparr>]"
  define c1 where "c1 = c\<lparr>ct_gateway_health := m\<rparr>"
  have r: "probe_gateways sha (trace_sharing env) ks gs1 c1 (Asked # w) = (gs', c', w')"
    using Cons.prems(1) o by (simp add: trace_asks ok_def gs1_def c1_def)
  have k: "k < length gs" using Cons.prems(3) by simp
  have same: "map gw_device gs1 = map gw_device gs" unfolding gs1_def by (rule nth_equalityI) (auto simp: nth_list_update k)
  have "backed c1 (gs1 ! j)" if "j < length gs" for j
  proof (cases "j = k")
    case True
    then show ?thesis using o k by (auto simp: backed_def gs1_def c1_def observed_def Let_def)
  next
    case False
    then have "gw_device (gs ! j) \<noteq> gw_device (gs ! k)" using Cons.prems(2) that k by (simp add: distinct_conv_nth)
    moreover have "backed c (gs ! j)" using Cons.prems(4) that by simp
    ultimately show ?thesis using o False by (auto simp: backed_def gs1_def c1_def observed_def Let_def)
  qed
  then have "\<forall>g \<in> set gs1. backed c1 g" by (simp add: all_set_conv_all_nth gs1_def)
  then show ?case using Cons.IH [OF r] Cons.prems(2,3) same by (simp add: gs1_def)
qed simp

lemma probe_indices_bound:
  assumes "probe_indices tc gs c = (ks, c')"
  shows "set ks \<subseteq> {0..<length gs}" "ct_gateway_health c' = ct_gateway_health c" "ct_self c' = ct_self c"
proof -
  show "ct_gateway_health c' = ct_gateway_health c" "ct_self c' = ct_self c"
    using assms by (auto simp: probe_indices_def Let_def split: prod.splits if_splits)
  show "set ks \<subseteq> {0..<length gs}"
  proof (cases "length gs \<le> 8")
    case True
    then show ?thesis using assms by (auto simp: probe_indices_def)
  next
    case False
    define start where "start = find_after tc (ct_probe_after c) gs (probe_order tc gs) 0"
    have "\<exists>cur. rotate_probes gs (probe_order tc gs) start 0 (0 # current_index (ct_gateway c) gs 0) (ct_probe_after c) = (ks, cur)"
      using assms False by (auto simp: probe_indices_def start_def probe_order_def [symmetric] Let_def split: prod.splits)
    then obtain stop where "set ks \<subseteq> set (0 # current_index (ct_gateway c) gs 0) \<union> (\<lambda>j. on_cycle (probe_order tc gs) (start + j)) ` {0..<stop}"
      using rotated by blast
    moreover have "on_cycle (probe_order tc gs) p < length gs" for p
    proof -
      have "p mod length gs < length gs" using False by (intro mod_less_divisor) auto
      then show ?thesis using nth_mem [of "p mod length gs" "probe_order tc gs"] by (simp add: probe_order_set)
    qed
    moreover have "set (current_index (ct_gateway c) gs 0) \<subseteq> {0..<length gs}" using current_index_short(2) [of "ct_gateway c" gs 0] by simp
    moreover have "0 < length gs" using False by linarith
    ultimately show ?thesis by (fastforce simp: probe_order_set)
  qed
qed

lemma reached:
  assumes "reachable_gateway tc sha (trace_sharing env) c w = (g, c', w')" "g \<noteq> no_gateway"
  shows "donor_evidence tc sha (ct_self c) (se_snapshot env w) (se_offers env (Asked # w)) (se_now env (Asked # Asked # w)) (gw_device g)"
    "\<exists>h. map_of (ct_gateway_health c') (gw_device g) = Some h \<and> ht_healthy h"
proof -
  define gs where "gs = signed_gateways tc sha (ct_self c) (se_snapshot env w) (se_offers env (Asked # w)) (se_now env (Asked # Asked # w))"
  define c0 where "c0 = c\<lparr>ct_gateway_health := filter (\<lambda>e. fst e \<in> set (map gw_device gs)) (ct_gateway_health c)\<rparr>"
  obtain ks c1 where p: "probe_indices tc gs c0 = (ks, c1)" by fastforce
  obtain gs' c2 w2 where q: "probe_gateways sha (trace_sharing env) ks gs c1 (Asked # Asked # Asked # w) = (gs', c2, w2)" by (rule prod_cases3)
  have ch: "choose_gateway (se_now env w2) gs' c2 = (g, c')"
    using assms(1) unfolding reachable_gateway_def trace_asks trace_calls Let_def prod.case gs_def [symmetric] c0_def [symmetric] p q
    by (auto split: prod.splits)
  have "\<forall>g \<in> set gs. backed c1 g" using signed_donors(2) by (auto simp: backed_def gs_def)
  then have b: "map gw_device gs' = map gw_device gs" "\<forall>g \<in> set gs'. backed c2 g"
    using probed_backed [OF q _ probe_indices_bound(1) [OF p]] signed_donors(1) by (simp_all add: gs_def)
  have g: "g \<in> set gs'" "gw_reachable g" using chosen(2) [OF ch] assms(2) by auto
  have "gw_device g \<in> set (map gw_device gs)" using g(1) b(1) by (metis image_eqI list.set_map)
  then show "donor_evidence tc sha (ct_self c) (se_snapshot env w) (se_offers env (Asked # w)) (se_now env (Asked # Asked # w)) (gw_device g)"
    using signed_donors(2) by (auto simp: gs_def)
  show "\<exists>h. map_of (ct_gateway_health c') (gw_device g) = Some h \<and> ht_healthy h"
    using g b(2) chosen(1) [OF ch] by (simp add: backed_def)
qed

lemma no_gateway_decision: "dc_mode (decide cfg self us no_gateway now) \<noteq> Roaming"
  by (auto simp: decide_def decided_def no_gateway_def Let_def)

lemma decide_borrow:
  assumes "dc_mode (decide cfg self us g now) = Roaming"
  shows "shc_participate cfg" "shc_roam cfg" "share_config_ok cfg" "dc_device (decide cfg self us g now) = gw_device g"
  using assms by (auto simp: decide_def decided_def Let_def split: if_splits)

lemma survey_donor:
  assumes "survey tc sha (trace_sharing env) cfg c w = ((us, g, found), c', w')" "g \<noteq> no_gateway"
  obtains asked where "donor_evidence tc sha (ct_self c) (se_snapshot env (asked @ w)) (se_offers env (Asked # asked @ w))
      (se_now env (Asked # Asked # asked @ w)) (gw_device g)"
    "\<exists>h. map_of (ct_gateway_health c') (gw_device g) = Some h \<and> ht_healthy h"
proof -
  define cands where "cands = (case se_candidates env w cfg of None \<Rightarrow> [] | Some m \<Rightarrow> m)"
  obtain us1 c1 w1 where u: "probe_uplinks (trace_sharing env) cands c (Asked # w) = (us1, c1, w1)" by (rule prod_cases3)
  define c2 where "c2 = c1\<lparr>ct_uplink_health := filter (\<lambda>e. map_of cands (fst e) \<noteq> None) (ct_uplink_health c1)\<rparr>"
  have part: "shc_participate cfg \<and> share_config_ok cfg" "shc_roam cfg"
    using assms by (auto simp: survey_def Let_def split: if_splits prod.splits)
  have r: "reachable_gateway tc sha (trace_sharing env) c2 w1 = (g, c', w')"
    using assms(1) part unfolding survey_def trace_asks Let_def prod.case cands_def [symmetric] u c2_def [symmetric]
    by (auto split: prod.splits)
  have l: "looked c (Asked # w) c1 w1" using looked_probe_uplinks [OF u] .
  then obtain n where "w1 = (replicate n Asked @ [Asked]) @ w" "ct_self c2 = ct_self c" by (auto simp: looked_def c2_def)
  then show thesis using reached [OF r assms(2)] that by metis
qed

lemma step_borrows:
  assumes "share_step tc sha (trace_sharing env) cfg c w = (res, c', later @ w)" "GatewayCall d r \<in> set later" "d \<noteq> no_device"
  obtains asked where "shc_participate cfg" "shc_roam cfg" "share_config_ok cfg"
    "donor_evidence tc sha (ct_self c) (se_snapshot env (asked @ w)) (se_offers env (Asked # asked @ w))
      (se_now env (Asked # Asked # asked @ w)) d"
    "\<exists>h. map_of (ct_gateway_health c') d = Some h \<and> ht_healthy h"
proof -
  have open': "\<not> ct_closed c" using assms by (auto simp: share_step_def)
  obtain us g found c1 w1 errs where p: "survey tc sha (trace_sharing env) cfg c w = ((us, g, found), c1, w1)"
    "reconcile tc sha (trace_sharing env) (decide cfg (ct_self c1) us g (se_now env w1)) c1 (Asked # w1) = (errs, c', later @ w)"
    using step_parts [OF assms(1) open'] .
  define dec where "dec = decide cfg (ct_self c1) us g (se_now env w1)"
  define D where "D = insert no_device (if dc_mode dec = Roaming then {dc_device dec} else {})"
  have D: "no_device \<in> D" "dc_mode dec = Roaming \<Longrightarrow> dc_device dec \<in> D" by (simp_all add: D_def)
  have gd: "guarded (borrows_from D) c1 (Asked # w1) c' (later @ w)" using tame_reconcile [OF D] p(2) by (simp add: dec_def)
  then obtain es where es: "later @ w = es @ Asked # w1" "\<forall>e \<in> set es. borrows_from D e" "ct_gateway_health c' = ct_gateway_health c1"
    by (auto simp: guarded_def)
  obtain n where "w1 = replicate n Asked @ w" using looked_survey [OF p(1)] by (auto simp: looked_def)
  then have "later @ w = (es @ Asked # replicate n Asked) @ w" using es(1) by simp
  then have "later = es @ Asked # replicate n Asked" by blast
  then have "GatewayCall d r \<in> set es" using assms(2) by auto
  then have "d \<in> D" using es(2) by fastforce
  then have rm: "dc_mode dec = Roaming" and d: "d = dc_device dec" using assms(3) by (auto simp: D_def split: if_splits)
  have g: "g \<noteq> no_gateway" using rm no_gateway_decision unfolding dec_def by blast
  have dg: "d = gw_device g" using decide_borrow(4) rm d unfolding dec_def by blast
  show thesis
    by (rule survey_donor [OF p(1) g]) (use that decide_borrow(1-3) rm es(3) in \<open>auto simp: dec_def dg\<close>)
qed

end
