(* ===== verification/Sharing_Props.thy ===== *)
theory Sharing_Props
  imports Sharing_Guarantee
begin

section \<open>Internet sharing: properties\<close>

subsection \<open>A sample host\<close>

text \<open>A host with one uplink and a number of donors; the clock moves a hundred seconds with every call.\<close>

definition share_self :: device where
  "share_self = Device (Some (replicate 16 1)) (replicate 16 2) []"

definition share_donor :: "byte \<Rightarrow> device" where
  "share_donor k = Device (Some (replicate 16 1)) (replicate 16 k) []"

text \<open>UUIDs of sixteen equal bytes, written as one letter.\<close>

definition tiny_codec :: text_codec where
  "tiny_codec = \<lparr>tc_uuid = (\<lambda>u. [letter (unat (hd u))]), tc_parse_uuid = (\<lambda>s. Some (replicate 16 (of_nat (of_char (hd s) - 97)))),
     tc_addr = (\<lambda>a. []), tc_parse_addr = (\<lambda>s. None), tc_prefix = (\<lambda>p. []), tc_parse_prefix = (\<lambda>s. None)\<rparr>"

definition donor_offer :: "byte \<Rightarrow> catalog_record" where
  "donor_offer k = \<lparr>cr_version = 1, cr_key = \<lparr>ck_mesh = ''mesh'', ck_device = device_spiffe_uri [letter 1] [letter (unat k)],
     ck_app = ''wendy.mesh.system'', ck_service = ''internet-gateway''\<rparr>, cr_generation = 1, cr_type = '''', cr_instance = '''', cr_port = 0,
     cr_txt = [], cr_issued = 0, cr_expires = 9000000000, cr_withdraw = False\<rparr>"

definition donor_view :: "byte list \<Rightarrow> node_view" where
  "donor_view ks = \<lparr>nv_devices = map (\<lambda>k. \<lparr>ml_device = replicate 16 k, ml_withdraw = False, ml_issued = 0, ml_expires = 9000000000\<rparr>) ks,
     nv_routes = map (\<lambda>k. \<lparr>r_prefix = Pfx (mesh_address (\<lambda>b. []) (share_donor k)) 128, r_router_id = 0, r_seqno = 0, r_metric = 0,
       r_link = 4, r_next_hop = NoAddr, r_local = False, r_unreachable = False\<rparr>) ks\<rparr>"

definition share_sample :: "nat \<Rightarrow> bool \<Rightarrow> share_env" where
  "share_sample working uplink = \<lparr>se_snapshot = (\<lambda>w. donor_view [3]), se_offers = (\<lambda>w. [donor_offer 3]),
     se_set_offer = (\<lambda>w i. length w < working),
     se_set_gateway = (\<lambda>w d. GatewaySet), se_set_sharing = (\<lambda>w i n. length w < working \<or> i = ''''), se_set_dns = (\<lambda>w i a. True), se_close = (\<lambda>w. True),
     se_candidates = (\<lambda>w cfg. Some [(''eth0'', ''192.0.2.1'')]), se_uplink = (\<lambda>w i n. uplink), se_probe = (\<lambda>w a b. True),
     se_now = (\<lambda>w. int (length w) * 100000000000)\<rparr>"

definition share_sample_config :: share_config where
  "share_sample_config = \<lparr>shc_participate = True, shc_roam = True, shc_share = True, shc_uplinks = [], shc_excluded = []\<rparr>"

fun share_runs :: "share_env \<Rightarrow> share_config list \<Rightarrow> controller \<Rightarrow> share_event list \<Rightarrow> (decision \<times> share_error list) list \<times> controller \<times> share_event list" where
  "share_runs env [] c w = ([], c, w)"
| "share_runs env (cfg # cfgs) c w =
     (let (res, c, w) = share_step tiny_codec (\<lambda>b. []) (trace_sharing env) cfg c w; (rest, c, w) = share_runs env cfgs c w in (res # rest, c, w))"

lemma share_runs_reachable:
  "share_runs env cfgs c w = (ress, c', w') \<Longrightarrow> sharing_reachable tiny_codec (\<lambda>b. []) env c w
    \<Longrightarrow> sharing_reachable tiny_codec (\<lambda>b. []) env c' w'"
proof (induction cfgs arbitrary: c w ress)
  case (Cons cfg cfgs)
  obtain res c1 w1 where s: "share_step tiny_codec (\<lambda>b. []) (trace_sharing env) cfg c w = (res, c1, w1)" by (rule prod_cases3)
  obtain rest where "share_runs env cfgs c1 w1 = (rest, c', w')" using Cons.prems(1) s by (auto split: prod.splits)
  then show ?case using Cons.IH shreach_step [OF Cons.prems(2) s] by blast
qed simp

definition share_fresh :: controller where
  "share_fresh = the (new_controller share_self)"

lemma share_fresh_reachable: "sharing_reachable tc sha env share_fresh []"
proof -
  have "new_controller share_self = Some share_fresh" by (simp add: share_fresh_def new_controller_def share_self_def dv_valid_def)
  then show ?thesis by (rule shreach_new)
qed

subsection \<open>Borrowed Internet is not shared\<close>

text \<open>
  C35 (never_reexported): at no moment of any run, whatever the calls of the node, the policy and the probes answer, may a
  default borrowed from a donor and the rules of a shared uplink exist together, and an offer is only ever signed for the
  uplink whose sharing the last \<open>SetSharing\<close> has set up while no borrowed default can be left.
\<close>

theorem never_reexported:
  assumes "sharing_reachable tc sha env c (later @ past)"
  shows "\<not> (may_borrow past \<and> may_share past)
    \<and> (\<forall>i ok earlier. past = OfferCall i ok # earlier \<and> i \<noteq> '''' \<longrightarrow> sharing_now earlier = Some i \<and> \<not> may_borrow earlier)"
proof -
  have p: "proper past" using sharing_reachable_inv [OF assms] proper_split by (auto simp: share_inv_def)
  then show ?thesis using proper_exclusive [OF p] by (auto simp: event_ok_simps)
qed

theorem never_reexported_witness:
  "\<exists>c w later earlier. sharing_reachable tiny_codec (\<lambda>b. []) (share_sample 1000 True) c w \<and> w = later @ OfferCall ''eth0'' True # earlier
     \<and> may_share w \<and> \<not> may_borrow w \<and> sharing_now earlier = Some ''eth0''"
proof -
  define run where "run = share_runs (share_sample 1000 True) [share_sample_config, share_sample_config] share_fresh []"
  obtain ress c w where r: "run = (ress, c, w)" by (cases run)
  then have reach: "sharing_reachable tiny_codec (\<lambda>b. []) (share_sample 1000 True) c w"
    using share_runs_reachable [OF _ share_fresh_reachable] unfolding run_def by blast
  have w: "w = snd (snd run)" using r by simp
  have "take 2 w = [Asked, OfferCall ''eth0'' True] \<and> may_share w" unfolding w run_def by code_simp
  then obtain earlier where e: "w = [Asked] @ OfferCall ''eth0'' True # earlier" "may_share w"
    by (metis append_Cons append_take_drop_id append_Nil)
  have "sharing_reachable tiny_codec (\<lambda>b. []) (share_sample 1000 True) c ([Asked] @ OfferCall ''eth0'' True # earlier)"
    using reach e by simp
  from never_reexported [OF this] have "sharing_now earlier = Some ''eth0''" by blast
  moreover have "\<not> may_borrow w" using never_reexported [of tiny_codec "\<lambda>b. []" "share_sample 1000 True" c "[]" w] reach e by simp
  ultimately show ?thesis using reach e by blast
qed

text \<open>
  The controller remembers that the rules of a share could not be withdrawn, but not that its offer could not: when a step finds
  the sharing broken and its withdrawal of the offer fails, the next step, which no longer shares, succeeds without asking for the
  withdrawal again, and the signed offer may still stand.
\<close>

lemma stale_offer_kept:
  "\<exists>c w cfg d c' w'. sharing_reachable tiny_codec (\<lambda>b. []) (share_sample 23 True) c w
     \<and> share_step tiny_codec (\<lambda>b. []) (trace_sharing (share_sample 23 True)) cfg c w = ((d, []), c', w')
     \<and> dc_interface d = '''' \<and> \<not> may_share w' \<and> may_offer w' \<and> \<not> (\<exists>i ok. OfferCall i ok \<in> set (take (length w' - length w) w'))"
proof -
  define run where "run = share_runs (share_sample 23 True) [share_sample_config, share_sample_config, share_sample_config] share_fresh []"
  obtain ress c w where r: "run = (ress, c, w)" by (cases run)
  then have reach: "sharing_reachable tiny_codec (\<lambda>b. []) (share_sample 23 True) c w"
    using share_runs_reachable [OF _ share_fresh_reachable] unfolding run_def by blast
  define cfg where "cfg = share_sample_config\<lparr>shc_share := False\<rparr>"
  obtain d errs c' w' where s: "share_step tiny_codec (\<lambda>b. []) (trace_sharing (share_sample 23 True)) cfg c w = ((d, errs), c', w')"
    by (metis surj_pair)
  have "case run of (ress, c, w) \<Rightarrow> (case share_step tiny_codec (\<lambda>b. []) (trace_sharing (share_sample 23 True)) cfg c w of
      ((d, errs), c', w') \<Rightarrow> errs = [] \<and> dc_interface d = '''' \<and> \<not> may_share w' \<and> may_offer w'
        \<and> list_all (\<lambda>e. case e of OfferCall i ok \<Rightarrow> False | _ \<Rightarrow> True) (take (length w' - length w) w'))"
    unfolding run_def cfg_def by code_simp
  then have "errs = []" "dc_interface d = ''''" "\<not> may_share w'" "may_offer w'"
    "list_all (\<lambda>e. case e of OfferCall i ok \<Rightarrow> False | _ \<Rightarrow> True) (take (length w' - length w) w')"
    by (simp_all add: r s)
  then show ?thesis using reach s by (fastforce simp: list_all_iff)
qed

subsection \<open>Donors are genuine\<close>

text \<open>
  C36 (borrowed_donor_signed): a step asks the policy for a donor's gateway only while roaming is configured, and for a device
  other than itself and of its own tenant that has a signed gateway offer, a device record of the same identity and a route to
  its own address, each unexpired and not withdrawn at the moment the step looked, and whose probes have been steadily good.
\<close>

theorem borrowed_donor_signed:
  assumes "share_step tc sha (trace_sharing env) cfg c w = (res, c', later @ w)" "GatewayCall d r \<in> set later" "d \<noteq> no_device"
  shows "shc_participate cfg \<and> shc_roam cfg \<and> share_config_ok cfg
    \<and> (\<exists>asked. donor_evidence tc sha (ct_self c) (se_snapshot env (asked @ w)) (se_offers env (Asked # asked @ w))
        (se_now env (Asked # Asked # asked @ w)) d)
    \<and> (\<exists>h. map_of (ct_gateway_health c') d = Some h \<and> ht_healthy h)"
  by (rule step_borrows [OF assms]) blast

theorem borrowed_donor_witness:
  "\<exists>c w c' later res r. share_step tiny_codec (\<lambda>b. []) (trace_sharing (share_sample 1000 False)) share_sample_config c w = (res, c', later @ w)
     \<and> GatewayCall (share_donor 3) r \<in> set later \<and> (\<exists>h. map_of (ct_gateway_health c') (share_donor 3) = Some h \<and> ht_healthy h)"
proof -
  let ?step = "share_step tiny_codec (\<lambda>b. []) (trace_sharing (share_sample 1000 False)) share_sample_config"
  define run where "run = share_runs (share_sample 1000 False) [share_sample_config] share_fresh []"
  obtain ress c w where r: "run = (ress, c, w)" by (cases run)
  obtain res c' w' where s: "?step c w = (res, c', w')" by (rule prod_cases3)
  have "case run of (ress, c, w) \<Rightarrow> (case ?step c w of (res, c', w') \<Rightarrow> drop (length w' - length w) w' = w
      \<and> GatewayCall (share_donor 3) GatewaySet \<in> set (take (length w' - length w) w') \<and> share_donor 3 \<noteq> no_device)"
    unfolding run_def by code_simp
  then have k: "drop (length w' - length w) w' = w" "GatewayCall (share_donor 3) GatewaySet \<in> set (take (length w' - length w) w')"
      "share_donor 3 \<noteq> no_device"
    by (simp_all add: r s)
  then have s': "?step c w = (res, c', take (length w' - length w) w' @ w)" using s by (metis append_take_drop_id)
  show ?thesis using borrowed_donor_signed [OF s' k(2,3)] s' k(2) by blast
qed

subsection \<open>No donor is forgotten\<close>

definition round_donors :: "text_codec \<Rightarrow> (bytes \<Rightarrow> bytes) \<Rightarrow> device \<Rightarrow> node_view \<times> catalog_record list \<times> int \<Rightarrow> gateway list" where
  "round_donors tc sha self r = (case r of (view, offers, now) \<Rightarrow> signed_gateways tc sha self view offers now)"

definition rounds_of :: "text_codec \<Rightarrow> (bytes \<Rightarrow> bytes) \<Rightarrow> device \<Rightarrow> ((node_view \<times> catalog_record list \<times> int) \<times> device) list
    \<Rightarrow> (gateway list \<times> device) list" where
  "rounds_of tc sha self rs = map (\<lambda>r. (round_donors tc sha self (fst r), snd r)) rs"

lemma round_plain:
  assumes "gw_device ` set (round_donors tc sha self r) = D"
  shows "plain_donors (dv_id ` D) (round_donors tc sha self r)" "inj_on dv_id D"
proof -
  obtain view offers now where r: "r = (view, offers, now)" by (rule prod_cases3)
  have gs: "\<not> is_operator (gw_device g) \<and> dv_tenant (gw_device g) = dv_tenant self" if "g \<in> set (round_donors tc sha self r)" for g
    using signed_donors(2) that by (auto simp: round_donors_def r donor_evidence_def)
  then have "\<not> is_operator d \<and> dv_tenant d = dv_tenant self" if "d \<in> D" for d using assms that by auto
  then show inj: "inj_on dv_id D" by (intro inj_onI) (metis device.expand is_operator_def)
  have "distinct (map gw_device (round_donors tc sha self r))" using signed_donors(1) by (simp add: round_donors_def r)
  then have "distinct (map (dv_id \<circ> gw_device) (round_donors tc sha self r))"
    using inj assms by (simp add: distinct_map comp_inj_on)
  then show "plain_donors (dv_id ` D) (round_donors tc sha self r)"
    using gs assms by (auto simp: plain_donors_def)
qed

lemma probed_within:
  "\<forall>r \<in> set rs. gw_device ` set (fst r) \<subseteq> D \<Longrightarrow> probed tc rs c \<subseteq> D"
proof (induction rs arbitrary: c)
  case (Cons r rs)
  obtain gs d where r: "r = (gs, d)" by (cases r)
  obtain ks c1 where p: "probe_indices tc gs (c\<lparr>ct_gateway := d\<rparr>) = (ks, c1)" by fastforce
  have "gw_device (gs ! k) \<in> D" if "k \<in> set ks" for k
    using probe_indices_bound(1) [OF p] that Cons.prems by (fastforce simp: r)
  then show ?case using Cons.IH [of c1] Cons.prems p by (auto simp: r probe_round_def)
qed simp

text \<open>
  C37 (every_donor_probed): when the same donors are eligible in a number of consecutive steps, every one of them is probed in
  one of these steps once six times their number reaches that of the donors, in whatever order their expiries put them,
  whichever donor carries the traffic and wherever the rotation stood.
\<close>

theorem every_donor_probed:
  assumes "\<forall>r \<in> set rs. gw_device ` set (round_donors tc sha self (fst r)) = D" "finite D" "card D \<le> 6 * length rs"
  shows "probed tc (rounds_of tc sha self rs) c = D"
proof (cases rs)
  case Nil
  then show ?thesis using assms(2,3) by (simp add: rounds_of_def)
next
  case (Cons r rest)
  then have inj: "inj_on dv_id D" using round_plain(2) assms(1) by (metis list.set_intros(1))
  have "\<forall>r \<in> set (rounds_of tc sha self rs). plain_donors (dv_id ` D) (fst r)" using round_plain(1) assms(1) by (auto simp: rounds_of_def)
  then have cover: "dv_id ` D \<subseteq> dv_id ` probed tc (rounds_of tc sha self rs) c"
    by (rule donors_probed) (use assms(2,3) inj in \<open>simp_all add: card_image rounds_of_def\<close>)
  have within: "probed tc (rounds_of tc sha self rs) c \<subseteq> D"
    by (rule probed_within) (use assms(1) in \<open>auto simp: rounds_of_def\<close>)
  have "D \<subseteq> probed tc (rounds_of tc sha self rs) c"
  proof
    fix d assume d: "d \<in> D"
    then have "dv_id d \<in> dv_id ` probed tc (rounds_of tc sha self rs) c" using cover by blast
    then obtain d' where d': "d' \<in> probed tc (rounds_of tc sha self rs) c" "dv_id d = dv_id d'" by (rule imageE)
    then have "d = d'" using inj_onD [OF inj d'(2) d] within by blast
    then show "d \<in> probed tc (rounds_of tc sha self rs) c" using d'(1) by simp
  qed
  then show ?thesis using within by blast
qed

definition ten_donors :: "byte list" where
  "ten_donors = [3, 4, 5, 6, 7, 8, 9, 10, 11, 12]"

definition sample_round :: "device \<Rightarrow> (node_view \<times> catalog_record list \<times> int) \<times> device" where
  "sample_round d = ((donor_view ten_donors, map donor_offer ten_donors, 0), d)"

theorem every_donor_probed_witness:
  "share_donor 12 \<in> probed tiny_codec
     (rounds_of tiny_codec (\<lambda>b. []) share_self [sample_round (share_donor 6), sample_round (share_donor 3)]) share_fresh"
proof -
  let ?rs = "[sample_round (share_donor 6), sample_round (share_donor 3)]"
  have m: "map gw_device (round_donors tiny_codec (\<lambda>b. []) share_self (fst (sample_round d))) = map share_donor ten_donors" for d
  proof -
    have "map gw_device (round_donors tiny_codec (\<lambda>b. []) share_self (fst (sample_round no_device))) = map share_donor ten_donors"
      by code_simp
    then show ?thesis by (simp add: sample_round_def)
  qed
  have "gw_device ` set (round_donors tiny_codec (\<lambda>b. []) share_self (fst r)) = share_donor ` set ten_donors" if "r \<in> set ?rs" for r
    using that m [of "share_donor 6"] m [of "share_donor 3"] by (metis empty_iff empty_set list.set_map set_ConsD)
  moreover have "card (share_donor ` set ten_donors) \<le> 6 * length ?rs"
    using card_length [of "map share_donor ten_donors"] by (simp add: ten_donors_def)
  ultimately have "probed tiny_codec (rounds_of tiny_codec (\<lambda>b. []) share_self ?rs) share_fresh = share_donor ` set ten_donors"
    by (intro every_donor_probed) auto
  then show ?thesis by (simp add: ten_donors_def)
qed

end
