(* ===== verification/Mesh_Manifest.thy ===== *)
theory Mesh_Manifest
  imports Mesh_Principal Babel_Types
begin

section \<open>Manifests (localmesh/directory.go, manifest_services.go, app_endpoints.go, operator_manifest.go)\<close>

text \<open>
  A device's signed advertisement and what makes it admissible. A nil slice is an empty list, a nil pointer \<open>None\<close>; times in
  a manifest are milliseconds. Strings are byte sequences, written as characters.
\<close>

record agent_metadata =
  am_version :: string
  am_os :: string
  am_os_version :: string
  am_device_type :: string
  am_cpu :: string

record operator_owner =
  oo_principal :: string
  oo_instance :: bytes
  oo_hashes :: "bytes list"

record route_origin =
  ro_prefix :: prefix
  ro_router :: router_id
  ro_seqno :: u16

record app_endpoint =
  ae_transport :: string
  ae_port :: u16

record manifest_service =
  msv_mesh :: string
  msv_app :: string
  msv_service :: string
  msv_type :: string
  msv_instance :: string
  msv_port :: u16
  msv_txt :: "string list"

record manifest =
  mf_agent :: "agent_metadata option"
  mf_version :: int
  mf_device :: bytes
  mf_owner :: "operator_owner option"
  mf_revision :: u64
  mf_issued :: int
  mf_expires :: int
  mf_name :: string
  mf_port :: u16
  mf_transport :: string
  mf_platform :: string
  mf_caps :: "string list"
  mf_requires :: "string list"
  mf_withdraw :: bool
  mf_route :: "route_origin option"
  mf_endpoints :: "app_endpoint list"
  mf_services :: "manifest_service list"

datatype manifest_error = UnsupportedManifest | ExpiredManifest | InvalidManifest

text \<open>A check gives the first error, if any.\<close>

definition first_error :: "(bool \<times> manifest_error) list \<Rightarrow> manifest_error option" where
  "first_error checks = map_option snd (List.find fst checks)"

definition ms_time :: "int \<Rightarrow> int" where
  "ms_time t = t * 1000000"

definition manifest_lease_max :: int where
  "manifest_lease_max = 15 * 60 * 1000000000"

definition clock_skew :: int where
  "clock_skew = 5 * 1000000000"

subsection \<open>Texts\<close>

definition lower_digit :: "char \<Rightarrow> bool" where
  "lower_digit c = list_ex (\<lambda>(lo, hi). lo \<le> c \<and> c \<le> hi) [(CHR ''a'', CHR ''z''), (CHR ''0'', CHR ''9'')]"

definition app_id_ok :: "string \<Rightarrow> bool" where
  "app_id_ok s \<longleftrightarrow> s \<noteq> '''' \<and> (1 \<le> length s \<and> length s \<le> 253 \<and> list_all (\<lambda>c. ascii_alnum c \<or> c \<in> set ''._-'') s)
     \<and> \<not> list_all (\<lambda>c. c = CHR ''.'') s"

definition service_label :: "string \<Rightarrow> bool" where
  "service_label s \<longleftrightarrow> (case s of [] \<Rightarrow> False
     | c # cs \<Rightarrow> lower_digit c \<and> length cs \<le> 62 \<and> list_all (\<lambda>c. lower_digit c \<or> c \<in> set ''._-'') cs)"

definition service_type :: "string \<Rightarrow> bool" where
  "service_type s \<longleftrightarrow> (case s of [] \<Rightarrow> False
     | c # cs \<Rightarrow> c = CHR ''_'' \<and> 6 \<le> length cs \<and> length cs \<le> 20 \<and> drop (length cs - 5) cs \<in> {''._tcp'', ''._udp''}
         \<and> list_all (\<lambda>c. lower_digit c \<or> c = CHR ''-'') (take (length cs - 5) cs))"

text \<open>\<open>utf8.ValidString\<close>: the lengths and the ranges of the first two bytes of a character.\<close>

definition utf8_lead :: "nat \<Rightarrow> (nat \<times> nat \<times> nat) option" where
  "utf8_lead b =
     (if b < 0x80 then Some (0, 0, 0)
      else if 0xC2 \<le> b \<and> b \<le> 0xDF then Some (1, 0x80, 0xBF)
      else if b = 0xE0 then Some (2, 0xA0, 0xBF)
      else if b = 0xED then Some (2, 0x80, 0x9F)
      else if 0xE1 \<le> b \<and> b \<le> 0xEF then Some (2, 0x80, 0xBF)
      else if b = 0xF0 then Some (3, 0x90, 0xBF)
      else if 0xF1 \<le> b \<and> b \<le> 0xF3 then Some (3, 0x80, 0xBF)
      else if b = 0xF4 then Some (3, 0x80, 0x8F)
      else None)"

function utf8_valid :: "nat list \<Rightarrow> bool" where
  "utf8_valid [] = True"
| "utf8_valid (b # bs) = (case utf8_lead b of
     None \<Rightarrow> False
   | Some (n, lo, hi) \<Rightarrow>
       if n = 0 then utf8_valid bs
       else if length bs < n \<or> \<not> (lo \<le> hd bs \<and> hd bs \<le> hi) then False
       else list_all (\<lambda>c. 0x80 \<le> c \<and> c \<le> 0xBF) (take (n - 1) (tl bs)) \<and> utf8_valid (drop n bs))"
  by pat_completeness auto
termination
  by (relation "measure length") auto

definition string_bytes :: "string \<Rightarrow> nat list" where
  "string_bytes s = map of_char s"

definition has_line_break :: "string \<Rightarrow> bool" where
  "has_line_break s \<longleftrightarrow> list_ex (\<lambda>c. c \<in> {CHR 0x00, CHR 0x0D, CHR 0x0A}) s"

fun manifest_name :: "nat \<Rightarrow> string \<Rightarrow> bool" where
  "manifest_name i [] = True"
| "manifest_name i (c # cs) = (if lower_digit c \<or> 0 < i \<and> c \<in> set ''._/-'' then manifest_name (i + 1) cs else False)"

fun fresh_manifest_names :: "string list \<Rightarrow> string list \<Rightarrow> bool" where
  "fresh_manifest_names seen [] = True"
| "fresh_manifest_names seen (n # ns) =
     (if length n = 0 \<or> 64 < length n \<or> n \<in> set seen \<or> \<not> manifest_name 0 n then False else fresh_manifest_names (n # seen) ns)"

definition manifest_names_ok :: "string list \<Rightarrow> bool" where
  "manifest_names_ok ns \<longleftrightarrow> \<not> 16 < length ns \<and> fresh_manifest_names [] ns"

subsection \<open>Services and endpoints\<close>

definition txt_entry_ok :: "string \<Rightarrow> bool" where
  "txt_entry_ok t \<longleftrightarrow> \<not> (length t = 0 \<or> 255 < length t \<or> has_line_break t)"

definition service_ok :: "manifest_service \<Rightarrow> bool" where
  "service_ok s \<longleftrightarrow>
     (if \<not> service_label (msv_mesh s) \<or> \<not> app_id_ok (msv_app s) \<or> \<not> service_label (msv_service s) then False
      else if msv_app s = ''wendy.mesh.system'' \<or> msv_service s = ''internet-gateway'' then
        msv_app s = ''wendy.mesh.system'' \<and> msv_service s = ''internet-gateway'' \<and> msv_type s = '''' \<and> msv_instance s = ''''
        \<and> msv_port s = 0 \<and> length (msv_txt s) = 0
      else if \<not> service_type (msv_type s) \<or> msv_port s = 0 \<or> length (msv_instance s) = 0 \<or> 63 < length (msv_instance s)
        \<or> \<not> utf8_valid (string_bytes (msv_instance s)) \<or> has_line_break (msv_instance s) \<or> 32 < length (msv_txt s) then False
      else list_all txt_entry_ok (msv_txt s) \<and> sum_list (map (\<lambda>t. length t + 1) (msv_txt s)) \<le> 1200)"

fun fresh_services :: "(string \<times> string \<times> string) list \<Rightarrow> manifest_service list \<Rightarrow> bool" where
  "fresh_services seen [] = True"
| "fresh_services seen (s # ss) =
     (if \<not> service_ok s then False
      else if (msv_mesh s, msv_app s, msv_service s) \<in> set seen then False
      else fresh_services ((msv_mesh s, msv_app s, msv_service s) # seen) ss)"

definition services_ok :: "manifest_service list \<Rightarrow> bool" where
  "services_ok ss \<longleftrightarrow> \<not> 256 < length ss \<and> fresh_services [] ss"

fun endpoints_error :: "string list \<Rightarrow> app_endpoint list \<Rightarrow> manifest_error option" where
  "endpoints_error seen [] = None"
| "endpoints_error seen (e # es) =
     (if ae_transport e \<noteq> ''quic-v1'' \<and> ae_transport e \<noteq> ''tls-v1'' then Some UnsupportedManifest
      else if ae_port e = 0 \<or> ae_transport e \<in> set seen then Some InvalidManifest
      else endpoints_error (ae_transport e # seen) es)"

definition app_endpoints_error :: "app_endpoint list \<Rightarrow> manifest_error option" where
  "app_endpoints_error es = (if 2 < length es then Some InvalidManifest else endpoints_error [] es)"

definition requirements_error :: "string list \<Rightarrow> manifest_error option" where
  "requirements_error ns = (if \<not> manifest_names_ok ns then Some InvalidManifest
     else if length ns \<noteq> 0 then Some UnsupportedManifest else None)"

subsection \<open>Validation\<close>

definition agent_metadata_bad :: "manifest \<Rightarrow> bool" where
  "agent_metadata_bad m = (case mf_agent m of None \<Rightarrow> False
   | Some a \<Rightarrow> mf_port m = 0 \<or> am_version a = '''' \<or> 255 < length (am_version a) \<or> 128 < length (am_os a) \<or> 255 < length (am_os_version a)
       \<or> 128 < length (am_device_type a) \<or> 32 < length (am_cpu a))"

definition lease_bad :: "manifest \<Rightarrow> int \<Rightarrow> bool" where
  "lease_bad m now \<longleftrightarrow> mf_revision m = 0 \<or> now + clock_skew < ms_time (mf_issued m) \<or> \<not> ms_time (mf_issued m) < ms_time (mf_expires m)
     \<or> manifest_lease_max < ms_time (mf_expires m) - ms_time (mf_issued m) \<or> 255 < length (mf_name m)
     \<or> (\<not> mf_withdraw m \<and> mf_port m = 0 \<and> mf_owner m = None)"

definition operator_advertises :: "manifest \<Rightarrow> bool" where
  "operator_advertises m \<longleftrightarrow> mf_owner m \<noteq> None \<and> (mf_port m \<noteq> 0 \<or> mf_transport m \<noteq> '''' \<or> mf_platform m \<noteq> '''' \<or> length (mf_caps m) \<noteq> 0
     \<or> length (mf_endpoints m) \<noteq> 0 \<or> length (mf_services m) \<noteq> 0)"

definition manifest_invalid :: "manifest \<Rightarrow> int \<Rightarrow> manifest_error option" where
  "manifest_invalid m now =
     (if agent_metadata_bad m then Some InvalidManifest
      else if mf_version m \<noteq> 4 then Some UnsupportedManifest
      else (case requirements_error (mf_requires m) of
          Some e \<Rightarrow> Some e
        | None \<Rightarrow>
            (case first_error
               [(\<not> now < ms_time (mf_expires m), ExpiredManifest), (lease_bad m now, InvalidManifest),
                (operator_advertises m, InvalidManifest), (mf_route m = None, InvalidManifest),
                (64 < length (mf_transport m), InvalidManifest), (mf_transport m \<noteq> '''' \<and> mf_port m = 0, InvalidManifest),
                (32 < length (mf_platform m), InvalidManifest), (\<not> manifest_names_ok (mf_caps m), InvalidManifest),
                (\<not> services_ok (mf_services m), InvalidManifest)] of
               Some e \<Rightarrow> Some e
             | None \<Rightarrow> app_endpoints_error (mf_endpoints m))))"

text \<open>The device a manifest speaks for, and the route it may authorize.\<close>

definition manifest_peer :: "text_codec \<Rightarrow> (string \<Rightarrow> bool) \<Rightarrow> bytes option \<Rightarrow> manifest \<Rightarrow> device option" where
  "manifest_peer tc url_ok tenant m = (case mf_owner m of
     None \<Rightarrow> Some (new_device tenant (mf_device m))
   | Some o' \<Rightarrow> (case peer_from_principal tc url_ok (oo_principal o') of
       None \<Rightarrow> None
     | Some p \<Rightarrow>
         if \<not> is_operator p \<or> dv_tenant p \<noteq> tenant \<or> mf_device m \<noteq> nil_uuid then None
         else if length (oo_hashes o') = 0 \<or> 16 < length (oo_hashes o') then None
         else if \<not> list_all (\<lambda>h. length h = 32) (oo_hashes o') then None
         else with_instance p (oo_instance o')))"

definition route_valid :: "(bytes \<Rightarrow> bytes) \<Rightarrow> manifest \<Rightarrow> device \<Rightarrow> bool" where
  "route_valid sha m d = (case mf_route m of
     None \<Rightarrow> True
   | Some r \<Rightarrow> ro_prefix r = Pfx (mesh_address sha d) 128 \<and> \<not> (ro_router r = 0 \<or> ro_router r = - 1))"

lemma accepted_lease:
  assumes "manifest_invalid m now = None"
  shows "now < ms_time (mf_expires m)" "ms_time (mf_issued m) \<le> now + clock_skew"
    "ms_time (mf_expires m) \<le> ms_time (mf_issued m) + manifest_lease_max" "mf_version m = 4" "mf_route m \<noteq> None" "mf_revision m \<noteq> 0"
  using assms by (auto simp: manifest_invalid_def first_error_def lease_bad_def split: if_splits option.splits)

end
