(* ===== verification/Artifact_Cbor.thy ===== *)
theory Artifact_Cbor
  imports Mesh_Manifest
begin

section \<open>The walk over an extensible artifact (netwire/extensible.go)\<close>

text \<open>
  Signed bodies may carry fields that a node does not know. \<open>UnmarshalExtensibleArtifact\<close> first walks the whole body and
  checks every value, the unknown ones included; only then does the CBOR library decode it. A walker is the bytes that remain:
  its methods take them and give back what is left. \<open>value\<close> calls itself with a depth that it refuses above sixteen;
  \<open>walk_value\<close> counts the levels that are left, so that \<open>value(d)\<close> is \<open>walk_value (17 - d)\<close>, and no levels left is the
  refusal. \<open>cbor_bytes\<close> is the reference: the one encoding of a value with shortest arguments; the walk accepts exactly that.
\<close>

datatype artifact_error = ArtifactBound | TruncatedValue | IndefiniteValue | TruncatedArgument | NonMinimal | TooDeep | TruncatedString
  | BadUtf8 | ArrayBound | MapBound | KeyNotText | BadKeyUtf8 | DuplicateKey | BadPrimitive | BadType | TrailingBytes

definition bytes_utf8 :: "bytes \<Rightarrow> bool" where
  "bytes_utf8 bs = utf8_valid (map unat bs)"

definition artifact_argument :: "bytes \<Rightarrow> artifact_error + nat \<times> u64 \<times> bytes" where
  "artifact_argument data = (case data of
     [] \<Rightarrow> Inl TruncatedValue
   | first # rest \<Rightarrow>
       (let major = unat (drop_bit 5 first); small = unat (first AND 31) in
        if small < 24 then Inr (major, word_of_nat small, rest)
        else if 27 < small then Inl IndefiniteValue
        else
          (let count = 2 ^ (small - 24) in
           if length rest < count then Inl TruncatedArgument
           else
             (let value = be_val (take count rest) in
              if value < 24 \<or> 1 < count \<and> value < push_bit (8 * (count div 2)) 1 then Inl NonMinimal
              else Inr (major, value, drop count rest)))))"

text \<open>The two loops; \<open>f\<close> is \<open>value\<close> one level down.\<close>

primrec walk_items :: "(bytes \<Rightarrow> artifact_error + bytes) \<Rightarrow> nat \<Rightarrow> bytes \<Rightarrow> artifact_error + bytes" where
  "walk_items f 0 data = Inr data"
| "walk_items f (Suc n) data = (case f data of Inl e \<Rightarrow> Inl e | Inr rest \<Rightarrow> walk_items f n rest)"

primrec walk_pairs :: "(bytes \<Rightarrow> artifact_error + bytes) \<Rightarrow> nat \<Rightarrow> bytes list \<Rightarrow> bytes \<Rightarrow> artifact_error + bytes" where
  "walk_pairs f 0 keys data = Inr data"
| "walk_pairs f (Suc n) keys data =
     (case artifact_argument data of
        Inl e \<Rightarrow> Inl e
      | Inr (major, len, rest) \<Rightarrow>
          if major \<noteq> 3 \<or> length rest < unat len then Inl KeyNotText
          else
            (let key = take (unat len) rest in
             if \<not> bytes_utf8 key then Inl BadKeyUtf8
             else if key \<in> set keys then Inl DuplicateKey
             else (case f (drop (unat len) rest) of
                 Inl e \<Rightarrow> Inl e
               | Inr rest \<Rightarrow> walk_pairs f n (keys @ [key]) rest)))"

primrec walk_value :: "nat \<Rightarrow> bytes \<Rightarrow> artifact_error + bytes" where
  "walk_value 0 data = Inl TooDeep"
| "walk_value (Suc levels) data =
     (case artifact_argument data of
        Inl e \<Rightarrow> Inl e
      | Inr (major, count, rest) \<Rightarrow>
          if major = 0 \<or> major = 1 then Inr rest
          else if major = 2 \<or> major = 3 then
            (if length rest < unat count then Inl TruncatedString
             else if major = 3 \<and> \<not> bytes_utf8 (take (unat count) rest) then Inl BadUtf8
             else Inr (drop (unat count) rest))
          else if major = 4 then
            (if 1024 < count then Inl ArrayBound else walk_items (walk_value levels) (unat count) rest)
          else if major = 5 then
            (if 64 < count then Inl MapBound else walk_pairs (walk_value levels) (unat count) [] rest)
          else if major = 7 then
            (if count \<noteq> 20 \<and> count \<noteq> 21 \<and> count \<noteq> 22 then Inl BadPrimitive else Inr rest)
          else Inl BadType)"

definition artifact_check :: "nat \<Rightarrow> bytes \<Rightarrow> artifact_error option" where
  "artifact_check max_bytes data =
     (if max_bytes = 0 \<or> data = [] \<or> max_bytes < length data then Some ArtifactBound
      else (case walk_value 17 data of
          Inl e \<Rightarrow> Some e
        | Inr rest \<Rightarrow> if rest \<noteq> [] then Some TrailingBytes else None))"

subsection \<open>Values and their encoding\<close>

datatype cbor = CUnsigned u64 | CNegative u64 | CBytes bytes | CText bytes | CArray "cbor list" | CMap "(bytes \<times> cbor) list"
  | CFalse | CTrue | CNull

definition head_byte :: "nat \<Rightarrow> nat \<Rightarrow> byte" where
  "head_byte major small = word_of_nat (32 * major + small)"

definition cbor_head :: "nat \<Rightarrow> u64 \<Rightarrow> bytes" where
  "cbor_head major n =
     (if n < 24 then [head_byte major (unat n)]
      else if n < 2 ^ 8 then head_byte major 24 # be_bytes 1 n
      else if n < 2 ^ 16 then head_byte major 25 # be_bytes 2 n
      else if n < 2 ^ 32 then head_byte major 26 # be_bytes 4 n
      else head_byte major 27 # be_bytes 8 n)"

text \<open>A string: its head, and as many bytes as the head says.\<close>

definition cbor_string :: "nat \<Rightarrow> bytes \<Rightarrow> bytes" where
  "cbor_string major t = cbor_head major (word_of_nat (length t)) @ t"

abbreviation cbor_text :: "bytes \<Rightarrow> bytes" where
  "cbor_text \<equiv> cbor_string 3"

fun cbor_bytes :: "cbor \<Rightarrow> bytes" where
  "cbor_bytes (CUnsigned n) = cbor_head 0 n"
| "cbor_bytes (CNegative n) = cbor_head 1 n"
| "cbor_bytes (CBytes b) = cbor_string 2 b"
| "cbor_bytes (CText t) = cbor_text t"
| "cbor_bytes (CArray vs) = cbor_head 4 (word_of_nat (length vs)) @ concat (map cbor_bytes vs)"
| "cbor_bytes (CMap ps) = cbor_head 5 (word_of_nat (length ps)) @ concat (map (\<lambda>(k, v). cbor_text k @ cbor_bytes v) ps)"
| "cbor_bytes CFalse = cbor_head 7 20"
| "cbor_bytes CTrue = cbor_head 7 21"
| "cbor_bytes CNull = cbor_head 7 22"

text \<open>The limits of a value that may be \<open>levels\<close> deep.\<close>

primrec cbor_fits :: "nat \<Rightarrow> cbor \<Rightarrow> bool" where
  "cbor_fits 0 v = False"
| "cbor_fits (Suc levels) v = (case v of
     CBytes b \<Rightarrow> length b < 2 ^ 64
   | CText t \<Rightarrow> length t < 2 ^ 64 \<and> bytes_utf8 t
   | CArray vs \<Rightarrow> length vs \<le> 1024 \<and> (\<forall>x \<in> set vs. cbor_fits levels x)
   | CMap ps \<Rightarrow> length ps \<le> 64 \<and> distinct (map fst ps)
       \<and> (\<forall>p \<in> set ps. length (fst p) < 2 ^ 64 \<and> bytes_utf8 (fst p) \<and> cbor_fits levels (snd p))
   | _ \<Rightarrow> True)"

subsection \<open>Heads\<close>

lemma unat_take_bit_mod: "unat (take_bit k w) = unat w mod 2 ^ k"
  by (rule trans [OF unsigned_take_bit_eq take_bit_eq_mod])

lemma byte_fields:
  fixes b :: byte
  shows "unat (drop_bit 5 b) = unat b div 32" "unat (b AND 31) = unat b mod 32"
proof -
  show "unat (drop_bit 5 b) = unat b div 32"
    by (subst unat_drop_bit_eq) (simp add: drop_bit_eq_div)
  have "(31 :: byte) = mask 5" by (simp add: mask_eq_exp_minus_1)
  then have "b AND 31 = take_bit 5 b" by (simp only: take_bit_eq_mask)
  then show "unat (b AND 31) = unat b mod 32" using unat_take_bit_mod [of 5 b] by simp
qed

lemma head_byte_split:
  assumes "major < 8" "small < 32"
  shows "unat (drop_bit 5 (head_byte major small)) = major" "unat (head_byte major small AND 31) = small"
proof -
  have "unat (head_byte major small) = (32 * major + small) mod 256"
    by (simp only: head_byte_def unat_of_nat) simp
  then have "unat (head_byte major small) = 32 * major + small" using assms by simp
  then show "unat (drop_bit 5 (head_byte major small)) = major" "unat (head_byte major small AND 31) = small"
    using assms by (simp_all add: byte_fields)
qed

lemma head_byte_join:
  fixes b :: byte
  shows "head_byte (unat (drop_bit 5 b)) (unat (b AND 31)) = b" "unat (drop_bit 5 b) < 8" "unat (b AND 31) < 32"
proof -
  have "unat b < 256" using unsigned_less [of b] by simp
  then show "unat (drop_bit 5 b) < 8" "unat (b AND 31) < 32" by (simp_all add: byte_fields)
  have "32 * (unat b div 32) + unat b mod 32 = unat b" by simp
  then show "head_byte (unat (drop_bit 5 b)) (unat (b AND 31)) = b"
    unfolding head_byte_def byte_fields by (simp only: of_nat_unat ucast_id)
qed

text \<open>The bytes of a number below \<open>2 ^ (8 * n)\<close>, and the number they give.\<close>

lemma be_low:
  fixes w :: u64
  assumes "unat w < 2 ^ (8 * n)"
  shows "be_val (be_bytes n w) = w"
proof -
  have "unat (take_bit (8 * n) w) = unat w"
    using assms by (simp only: unat_take_bit_mod mod_less)
  then have "take_bit (8 * n) w = w" by (rule unsigned_word_eqI)
  then show ?thesis by (simp add: be_val_be_bytes)
qed

lemma argument_wide:
  assumes "major < 8" "k \<le> 3" "unat n < 2 ^ (8 * 2 ^ k)" "24 \<le> n" "k \<noteq> 0 \<Longrightarrow> push_bit (8 * (2 ^ k div 2)) 1 \<le> n"
  shows "artifact_argument (head_byte major (24 + k) # be_bytes (2 ^ k) n @ rest) = Inr (major, n, rest)"
proof -
  have "be_val (be_bytes (2 ^ k) n) = n" by (rule be_low) (use assms(3) in simp)
  moreover have "\<not> (n < 24 \<or> 1 < (2::nat) ^ k \<and> n < push_bit (8 * (2 ^ k div 2)) 1)"
    using assms(4,5) by (cases "k = 0") (auto simp: not_less)
  ultimately show ?thesis
    using assms(1,2) head_byte_split [of major "24 + k"] by (simp add: artifact_argument_def Let_def)
qed

lemma argument_head:
  assumes "major < 8"
  shows "artifact_argument (cbor_head major n @ rest) = Inr (major, n, rest)"
proof -
  consider "n < 24" | "24 \<le> n" "n < 2 ^ 8" | "2 ^ 8 \<le> n" "n < 2 ^ 16" | "2 ^ 16 \<le> n" "n < 2 ^ 32" | "2 ^ 32 \<le> n"
    by (meson not_less)
  then show ?thesis
  proof cases
    case 1
    then have "unat n < 24" by (simp add: word_less_nat_alt)
    then show ?thesis
      using 1 assms head_byte_split [of major "unat n"]
      by (simp add: cbor_head_def artifact_argument_def Let_def)
  next
    case 2
    then show ?thesis
      using argument_wide [OF assms, of 0 n rest]
      by (simp add: cbor_head_def word_less_nat_alt word_le_nat_alt not_less)
  next
    case 3
    then show ?thesis
      using argument_wide [OF assms, of 1 n rest]
      by (simp add: cbor_head_def word_less_nat_alt word_le_nat_alt not_less push_bit_eq_mult)
  next
    case 4
    then show ?thesis
      using argument_wide [OF assms, of 2 n rest]
      by (simp add: cbor_head_def word_less_nat_alt word_le_nat_alt not_less push_bit_eq_mult)
  next
    case 5
    then show ?thesis
      using argument_wide [OF assms, of 3 n rest] unsigned_less [of n]
      by (simp add: cbor_head_def word_less_nat_alt word_le_nat_alt not_less push_bit_eq_mult)
  qed
qed

lemma be_val_low:
  assumes "length bs \<le> 8"
  shows "unat (be_val bs :: u64) < 2 ^ (8 * length bs)"
proof -
  have "be_bytes (length bs) (be_val bs :: u64) = bs" by (rule be_bytes_be_val) (use assms in simp)
  then have "(be_val bs :: u64) = take_bit (8 * length bs) (be_val bs)" by (metis be_val_be_bytes)
  then have "unat (be_val bs :: u64) = unat (be_val bs :: u64) mod 2 ^ (8 * length bs)"
    by (metis unat_take_bit_mod)
  moreover have "unat (be_val bs :: u64) mod 2 ^ (8 * length bs) < 2 ^ (8 * length bs)" by simp
  ultimately show ?thesis by simp
qed

text \<open>Each width belongs to its own range of numbers.\<close>

lemma wide_head:
  assumes "k \<le> 3" "unat n < 2 ^ (8 * 2 ^ k)" "24 \<le> n" "k \<noteq> 0 \<Longrightarrow> push_bit (8 * (2 ^ k div 2)) 1 \<le> n"
  shows "cbor_head major n = head_byte major (24 + k) # be_bytes (2 ^ k) n"
proof -
  consider "k = 0" | "k = 1" | "k = 2" | "k = 3" using assms(1) by linarith
  then show ?thesis
    by cases (use assms in \<open>simp_all add: cbor_head_def word_less_nat_alt word_le_nat_alt push_bit_eq_mult\<close>)
qed

lemma argument_inv:
  assumes "artifact_argument data = Inr (major, n, rest)"
  shows "major < 8 \<and> data = cbor_head major n @ rest"
proof (cases data)
  case Nil
  then show ?thesis using assms by (simp add: artifact_argument_def)
next
  case (Cons first xs)
  define small where "small = unat (first AND 31)"
  have m: "major = unat (drop_bit 5 first)"
    using assms Cons by (auto simp: artifact_argument_def Let_def split: if_splits)
  have first: "head_byte major small = first" "major < 8"
    using head_byte_join [of first] by (simp_all add: m small_def)
  show ?thesis
  proof (cases "small < 24")
    case True
    then have n: "n = word_of_nat small" "rest = xs"
      using assms Cons by (simp_all add: artifact_argument_def Let_def small_def)
    have "unat n = small mod 18446744073709551616" by (simp add: n unat_of_nat)
    then have "unat n = small" using True by simp
    then show ?thesis using True first n Cons by (simp add: cbor_head_def word_less_nat_alt)
  next
    case False
    define k where "k = small - 24"
    define count :: nat where "count = 2 ^ k"
    define num :: u64 where "num = be_val (take count xs)"
    have "\<not> 27 < small" "\<not> length xs < count" "\<not> (num < 24 \<or> 1 < count \<and> num < push_bit (8 * (count div 2)) 1)"
      "n = num" "rest = drop count xs"
      using assms Cons False
      by (auto simp: artifact_argument_def Let_def small_def [symmetric] k_def [symmetric] count_def [symmetric]
          num_def [symmetric] split: if_splits)
    note f = this
    have k: "k \<le> 3" "small = 24 + k" using f(1) False by (simp_all add: k_def)
    have "(2::nat) ^ k \<le> 2 ^ 3" using k(1) by (intro power_increasing) simp_all
    then have len: "length (take count xs) = count" "count \<le> 8" using f(2) by (simp_all add: count_def)
    have "be_bytes (length (take count xs)) num = take count xs"
      unfolding num_def by (rule be_bytes_be_val) (use len in simp)
    then have taken: "be_bytes count num = take count xs" using len(1) by simp
    have "unat num < 2 ^ (8 * count)" using be_val_low [of "take count xs"] len by (simp add: num_def)
    moreover have "1 < count" if "k \<noteq> 0" unfolding count_def using that by (intro one_less_power) simp_all
    then have "push_bit (8 * (2 ^ k div 2)) 1 \<le> num" if "k \<noteq> 0"
      using that f(3) unfolding count_def [symmetric] by (simp add: not_less)
    ultimately have "cbor_head major n = head_byte major (24 + k) # be_bytes (2 ^ k) n"
      using wide_head [OF k(1), of n major] f(3,4) by (simp add: count_def not_less)
    then show ?thesis
      using first k(2) taken f(4,5) Cons by (simp add: count_def [symmetric])
  qed
qed

lemma argument_iff: "artifact_argument data = Inr (major, n, rest) \<longleftrightarrow> major < 8 \<and> data = cbor_head major n @ rest"
proof
  assume "artifact_argument data = Inr (major, n, rest)"
  then show "major < 8 \<and> data = cbor_head major n @ rest" by (rule argument_inv)
next
  assume "major < 8 \<and> data = cbor_head major n @ rest"
  then show "artifact_argument data = Inr (major, n, rest)" using argument_head [of major n rest] by simp
qed

lemma cbor_head_inject:
  "major < 8 \<Longrightarrow> major' < 8 \<Longrightarrow> cbor_head major n @ r = cbor_head major' n' @ r' \<Longrightarrow> major = major' \<and> n = n' \<and> r = r'"
proof -
  assume m: "major < 8" "major' < 8" and eq: "cbor_head major n @ r = cbor_head major' n' @ r'"
  have "artifact_argument (cbor_head major n @ r) = artifact_argument (cbor_head major' n' @ r')"
    using eq by (rule arg_cong)
  then show "major = major' \<and> n = n' \<and> r = r'" unfolding argument_head [OF m(1)] argument_head [OF m(2)] by simp
qed

subsection \<open>The loops\<close>

lemma ex_Suc_length: "(\<exists>xs. length xs = Suc n \<and> Q xs) \<longleftrightarrow> (\<exists>x xs. length xs = n \<and> Q (x # xs))"
  by (auto simp: length_Suc_conv)

lemma walk_items_iff:
  assumes f: "\<And>data rest. f data = Inr rest \<longleftrightarrow> (\<exists>v. P v \<and> data = cbor_bytes v @ rest)"
  shows "walk_items f n data = Inr rest \<longleftrightarrow>
    (\<exists>vs. length vs = n \<and> (\<forall>v \<in> set vs. P v) \<and> data = concat (map cbor_bytes vs) @ rest)"
proof (induction n arbitrary: data)
  case (Suc n)
  have "walk_items f (Suc n) data = Inr rest \<longleftrightarrow> (\<exists>r. f data = Inr r \<and> walk_items f n r = Inr rest)"
    by (cases "f data") simp_all
  also have "\<dots> \<longleftrightarrow> (\<exists>v vs. length vs = n \<and> P v \<and> (\<forall>v \<in> set vs. P v)
      \<and> data = cbor_bytes v @ concat (map cbor_bytes vs) @ rest)"
    unfolding f Suc.IH by blast
  also have "\<dots> \<longleftrightarrow> (\<exists>vs. length vs = Suc n \<and> (\<forall>v \<in> set vs. P v) \<and> data = concat (map cbor_bytes vs) @ rest)"
    unfolding ex_Suc_length by simp
  finally show ?case .
qed simp

lemma string_iff:
  "(\<exists>len r. artifact_argument data = Inr (major, len, r) \<and> unat len \<le> length r \<and> t = take (unat len) r \<and> rest = drop (unat len) r)
     \<longleftrightarrow> major < 8 \<and> length t < 2 ^ 64 \<and> data = cbor_string major t @ rest"
proof
  assume "\<exists>len r. artifact_argument data = Inr (major, len, r) \<and> unat len \<le> length r \<and> t = take (unat len) r \<and> rest = drop (unat len) r"
  then obtain len r where r: "major < 8" "data = cbor_head major len @ r" "unat len \<le> length r" "t = take (unat len) r" "rest = drop (unat len) r"
    unfolding argument_iff by blast
  have "length t = unat len" using r(3,4) by simp
  then have "word_of_nat (length t) = len" "length t < 2 ^ 64" using unsigned_less [of len] by simp_all
  then show "major < 8 \<and> length t < 2 ^ 64 \<and> data = cbor_string major t @ rest"
    using r by (simp add: cbor_string_def)
next
  assume a: "major < 8 \<and> length t < 2 ^ 64 \<and> data = cbor_string major t @ rest"
  then have "unat (word_of_nat (length t) :: u64) = length t" by (simp add: unat_of_nat)
  moreover have "artifact_argument data = Inr (major, word_of_nat (length t), t @ rest)"
    unfolding argument_iff using a by (simp add: cbor_string_def)
  ultimately show "\<exists>len r. artifact_argument data = Inr (major, len, r) \<and> unat len \<le> length r \<and> t = take (unat len) r \<and> rest = drop (unat len) r"
    by (intro exI [of _ "word_of_nat (length t)"] exI [of _ "t @ rest"]) simp
qed

text \<open>The entries of a map, each with a key that is not among \<open>keys\<close> and fits.\<close>

definition fresh_entries :: "(cbor \<Rightarrow> bool) \<Rightarrow> bytes list \<Rightarrow> (bytes \<times> cbor) list \<Rightarrow> bool" where
  "fresh_entries P keys ps \<longleftrightarrow> distinct (map fst ps) \<and> set (map fst ps) \<inter> set keys = {}
     \<and> (\<forall>p \<in> set ps. length (fst p) < 2 ^ 64 \<and> bytes_utf8 (fst p) \<and> P (snd p))"

abbreviation entries_bytes :: "(bytes \<times> cbor) list \<Rightarrow> bytes" where
  "entries_bytes ps \<equiv> concat (map (\<lambda>(k, v). cbor_text k @ cbor_bytes v) ps)"

lemma fresh_entries_Cons:
  "fresh_entries P keys ((k, v) # ps) \<longleftrightarrow>
     length k < 2 ^ 64 \<and> bytes_utf8 k \<and> k \<notin> set keys \<and> P v \<and> fresh_entries P (keys @ [k]) ps"
  by (auto simp: fresh_entries_def)

lemma walk_pairs_Suc:
  "walk_pairs f (Suc n) keys data = Inr rest \<longleftrightarrow>
     (\<exists>k r r'. length k < 2 ^ 64 \<and> data = cbor_text k @ r \<and> bytes_utf8 k \<and> k \<notin> set keys \<and> f r = Inr r'
        \<and> walk_pairs f n (keys @ [k]) r' = Inr rest)"
proof -
  have "walk_pairs f (Suc n) keys data = Inr rest \<longleftrightarrow>
     (\<exists>k r r'. (\<exists>len s. artifact_argument data = Inr (3, len, s) \<and> unat len \<le> length s \<and> k = take (unat len) s \<and> r = drop (unat len) s)
        \<and> bytes_utf8 k \<and> k \<notin> set keys \<and> f r = Inr r' \<and> walk_pairs f n (keys @ [k]) r' = Inr rest)"
    by (auto simp: Let_def not_less split: sum.split)
  then show ?thesis unfolding string_iff by simp
qed

lemma walk_pairs_iff:
  assumes f: "\<And>data rest. f data = Inr rest \<longleftrightarrow> (\<exists>v. P v \<and> data = cbor_bytes v @ rest)"
  shows "walk_pairs f n keys data = Inr rest \<longleftrightarrow> (\<exists>ps. length ps = n \<and> fresh_entries P keys ps \<and> data = entries_bytes ps @ rest)"
proof (induction n arbitrary: keys data)
  case (Suc n)
  show ?case
    unfolding walk_pairs_Suc f Suc.IH ex_Suc_length split_paired_Ex fresh_entries_Cons by auto
qed (auto simp: fresh_entries_def)

subsection \<open>What the walk accepts\<close>

lemma cbor_fits_map:
  "cbor_fits (Suc l) (CMap ps) \<longleftrightarrow> length ps \<le> 64 \<and> fresh_entries (cbor_fits l) [] ps"
  by (auto simp: fresh_entries_def)

lemma unat_small_length: "n < 2 ^ 64 \<Longrightarrow> unat (word_of_nat n :: u64) = n"
  by (simp add: unat_of_nat)

lemma walk_value_sound:
  assumes IH: "\<And>data rest. walk_value l data = Inr rest \<longleftrightarrow> (\<exists>v. cbor_fits l v \<and> data = cbor_bytes v @ rest)"
    and w: "walk_value (Suc l) data = Inr rest"
  shows "\<exists>v. cbor_fits (Suc l) v \<and> data = cbor_bytes v @ rest"
proof -
  obtain major count r where a: "artifact_argument data = Inr (major, count, r)"
    using w by (auto split: sum.splits)
  have m: "major < 8" "data = cbor_head major count @ r" using a unfolding argument_iff by simp_all
  note w' = w [unfolded walk_value.simps a sum.case prod.case]
  have str: "length (take (unat count) r) < 2 ^ 64 \<and> data = cbor_string major (take (unat count) r) @ drop (unat count) r"
    if "unat count \<le> length r"
    using string_iff [of data major "take (unat count) r" "drop (unat count) r"] a that by blast
  consider "major = 0" | "major = 1" | "major = 2" | "major = 3" | "major = 4" | "major = 5" | "major = 6" | "major = 7"
    using m(1) by linarith
  then show ?thesis
  proof cases
    case 1
    then show ?thesis using w' m(2) by (intro exI [of _ "CUnsigned count"]) simp
  next
    case 2
    then show ?thesis using w' m(2) by (intro exI [of _ "CNegative count"]) simp
  next
    case 3
    then show ?thesis using w' str by (intro exI [of _ "CBytes (take (unat count) r)"]) (auto split: if_splits)
  next
    case 4
    then show ?thesis using w' str by (intro exI [of _ "CText (take (unat count) r)"]) (auto split: if_splits)
  next
    case 5
    then have "walk_items (walk_value l) (unat count) r = Inr rest" "unat count \<le> 1024"
      using w' by (simp_all add: word_less_nat_alt split: if_splits)
    then obtain vs where vs: "length vs = unat count" "\<forall>v \<in> set vs. cbor_fits l v" "r = concat (map cbor_bytes vs) @ rest"
      unfolding walk_items_iff [OF IH] by blast
    then have "count = word_of_nat (length vs)" by simp
    then show ?thesis
      using vs m(2) 5 \<open>unat count \<le> 1024\<close> by (intro exI [of _ "CArray vs"]) simp
  next
    case 6
    then have "walk_pairs (walk_value l) (unat count) [] r = Inr rest" "unat count \<le> 64"
      using w' by (simp_all add: word_less_nat_alt split: if_splits)
    then obtain ps where ps: "length ps = unat count" "fresh_entries (cbor_fits l) [] ps" "r = entries_bytes ps @ rest"
      unfolding walk_pairs_iff [OF IH] by blast
    then have "count = word_of_nat (length ps)" by simp
    then show ?thesis
      using ps m(2) 6 \<open>unat count \<le> 64\<close> cbor_fits_map [of l ps] by (intro exI [of _ "CMap ps"]) simp
  next
    case 7
    then show ?thesis using w' by simp
  next
    case 8
    then consider "count = 20" | "count = 21" | "count = 22" using w' by (auto split: if_splits)
    then show ?thesis
      by cases (use w' m(2) 8 in \<open>auto intro: exI [of _ CFalse] exI [of _ CTrue] exI [of _ CNull]\<close>)
  qed
qed

lemma walk_value_complete:
  assumes IH: "\<And>data rest. walk_value l data = Inr rest \<longleftrightarrow> (\<exists>v. cbor_fits l v \<and> data = cbor_bytes v @ rest)"
    and v: "cbor_fits (Suc l) v"
  shows "walk_value (Suc l) (cbor_bytes v @ rest) = Inr rest"
proof -
  have str: "\<exists>len r. artifact_argument (cbor_string major t @ rest) = Inr (major, len, r) \<and> unat len \<le> length r
      \<and> t = take (unat len) r \<and> rest = drop (unat len) r" if "major < 8" "length t < 2 ^ 64" for major t
    unfolding string_iff using that by simp
  show ?thesis
  proof (cases v)
    case (CBytes b)
    then show ?thesis using str [of 2 b] v by auto
  next
    case (CText t)
    then show ?thesis using str [of 3 t] v by auto
  next
    case (CArray vs)
    then have "walk_items (walk_value l) (length vs) (concat (map cbor_bytes vs) @ rest) = Inr rest"
      unfolding walk_items_iff [OF IH] using v by (intro exI [of _ vs]) simp
    then show ?thesis using CArray v
      by (simp add: argument_head unat_small_length word_less_nat_alt)
  next
    case (CMap ps)
    then have "walk_pairs (walk_value l) (length ps) [] (entries_bytes ps @ rest) = Inr rest"
      unfolding walk_pairs_iff [OF IH] using v cbor_fits_map [of l ps] by (intro exI [of _ ps]) simp
    then show ?thesis using CMap v
      by (simp add: argument_head unat_small_length word_less_nat_alt)
  qed (simp_all add: argument_head)
qed

lemma walk_value_iff: "walk_value l data = Inr rest \<longleftrightarrow> (\<exists>v. cbor_fits l v \<and> data = cbor_bytes v @ rest)"
proof (induction l arbitrary: data rest)
  case (Suc l)
  show ?case
    using walk_value_sound [OF Suc.IH] walk_value_complete [OF Suc.IH] by blast
qed simp

subsection \<open>One value for each encoding\<close>

primrec cbor_major :: "cbor \<Rightarrow> nat \<times> u64 \<times> bytes" where
  "cbor_major (CUnsigned n) = (0, n, [])"
| "cbor_major (CNegative n) = (1, n, [])"
| "cbor_major (CBytes b) = (2, word_of_nat (length b), b)"
| "cbor_major (CText t) = (3, word_of_nat (length t), t)"
| "cbor_major (CArray vs) = (4, word_of_nat (length vs), concat (map cbor_bytes vs))"
| "cbor_major (CMap ps) = (5, word_of_nat (length ps), entries_bytes ps)"
| "cbor_major CFalse = (7, 20, [])"
| "cbor_major CTrue = (7, 21, [])"
| "cbor_major CNull = (7, 22, [])"

lemma cbor_bytes_head:
  "cbor_bytes v = cbor_head (fst (cbor_major v)) (fst (snd (cbor_major v))) @ snd (snd (cbor_major v))" "fst (cbor_major v) < 8"
  by (cases v; simp add: cbor_string_def)+

lemma word_of_nat_length:
  "(word_of_nat m :: u64) = word_of_nat n \<Longrightarrow> m < 2 ^ 64 \<Longrightarrow> n < 2 ^ 64 \<Longrightarrow> m = n"
  by (metis unat_small_length)

lemma string_inject:
  "major < 8 \<Longrightarrow> length t < 2 ^ 64 \<Longrightarrow> length u < 2 ^ 64 \<Longrightarrow> cbor_string major t @ r = cbor_string major u @ s \<Longrightarrow> t = u \<and> r = s"
  using cbor_head_inject [of major major "word_of_nat (length t)" "t @ r" "word_of_nat (length u)" "u @ s"]
    word_of_nat_length [of "length t" "length u"]
  by (simp add: cbor_string_def)

lemma items_inject:
  assumes P: "\<And>v w r s. P v \<Longrightarrow> P w \<Longrightarrow> cbor_bytes v @ r = cbor_bytes w @ s \<Longrightarrow> v = w \<and> r = s"
  shows "length vs = length ws \<Longrightarrow> \<forall>v \<in> set vs. P v \<Longrightarrow> \<forall>w \<in> set ws. P w \<Longrightarrow>
    concat (map cbor_bytes vs) @ r = concat (map cbor_bytes ws) @ s \<Longrightarrow> vs = ws \<and> r = s"
proof (induction vs ws rule: list_induct2)
  case (Cons v vs w ws)
  then have "v = w \<and> concat (map cbor_bytes vs) @ r = concat (map cbor_bytes ws) @ s"
    using P [of v w "concat (map cbor_bytes vs) @ r" "concat (map cbor_bytes ws) @ s"] by simp
  then show ?case using Cons by simp
qed simp

lemma entries_inject:
  assumes P: "\<And>v w r s. P v \<Longrightarrow> P w \<Longrightarrow> cbor_bytes v @ r = cbor_bytes w @ s \<Longrightarrow> v = w \<and> r = s"
  shows "length ps = length qs \<Longrightarrow> \<forall>p \<in> set ps. length (fst p) < 2 ^ 64 \<and> P (snd p) \<Longrightarrow>
    \<forall>q \<in> set qs. length (fst q) < 2 ^ 64 \<and> P (snd q) \<Longrightarrow> entries_bytes ps @ r = entries_bytes qs @ s \<Longrightarrow> ps = qs \<and> r = s"
proof (induction ps qs rule: list_induct2)
  case (Cons p ps q qs)
  obtain k v where p: "p = (k, v)" by (metis surj_pair)
  obtain k' v' where q: "q = (k', v')" by (metis surj_pair)
  have len: "length k < 2 ^ 64" "length k' < 2 ^ 64" using Cons.prems p q by simp_all
  have "k = k' \<and> cbor_bytes v @ entries_bytes ps @ r = cbor_bytes v' @ entries_bytes qs @ s"
    using string_inject [OF _ len, of 3 "cbor_bytes v @ entries_bytes ps @ r" "cbor_bytes v' @ entries_bytes qs @ s"] Cons.prems(3) p q
    by simp
  moreover from this have "v = v' \<and> entries_bytes ps @ r = entries_bytes qs @ s"
    using P [of v v' "entries_bytes ps @ r" "entries_bytes qs @ s"] Cons.prems p q by simp
  ultimately show ?case using Cons p q by simp
qed simp

lemma cbor_inject:
  "cbor_fits l v \<Longrightarrow> cbor_fits l w \<Longrightarrow> cbor_bytes v @ r = cbor_bytes w @ s \<Longrightarrow> v = w \<and> r = s"
proof (induction l arbitrary: v w r s)
  case (Suc l)
  have eq: "cbor_head (fst (cbor_major v)) (fst (snd (cbor_major v))) @ snd (snd (cbor_major v)) @ r
      = cbor_head (fst (cbor_major w)) (fst (snd (cbor_major w))) @ snd (snd (cbor_major w)) @ s"
    using Suc.prems(3) unfolding cbor_bytes_head(1) [of v] cbor_bytes_head(1) [of w] by simp
  note h = cbor_head_inject [OF cbor_bytes_head(2) [of v] cbor_bytes_head(2) [of w] eq]
  show ?case
  proof (cases v)
    case (CBytes b)
    then obtain b' where w: "w = CBytes b'" using h by (cases w) auto
    then show ?thesis using string_inject [of 2 b b' r s] CBytes Suc.prems by simp
  next
    case (CText t)
    then obtain t' where w: "w = CText t'" using h by (cases w) auto
    then show ?thesis using string_inject [of 3 t t' r s] CText Suc.prems by simp
  next
    case (CArray vs)
    then obtain ws where w: "w = CArray ws" using h by (cases w) auto
    have len: "length vs = length ws"
      by (rule word_of_nat_length) (use h CArray w Suc.prems(1,2) in simp_all)
    have "vs = ws \<and> r = s"
      by (rule items_inject [where P = "cbor_fits l", OF Suc.IH]) (use h len CArray w Suc.prems(1,2) in simp_all)
    then show ?thesis using CArray w by simp
  next
    case (CMap ps)
    then obtain qs where w: "w = CMap qs" using h by (cases w) auto
    have len: "length ps = length qs"
      by (rule word_of_nat_length) (use h CMap w Suc.prems(1,2) in simp_all)
    have "ps = qs \<and> r = s"
      by (rule entries_inject [where P = "cbor_fits l", OF Suc.IH]) (use h len CMap w Suc.prems(1,2) in simp_all)
    then show ?thesis using CMap w by simp
  qed (use h in \<open>cases w; simp\<close>)+
qed simp

subsection \<open>Property\<close>

lemma cbor_head_nonempty: "cbor_head major n \<noteq> []"
  by (simp add: cbor_head_def)

text \<open>
  C30 (artifact_exact): the walk accepts a body exactly when it is the shortest encoding of one value and nothing else: integers,
  byte strings, text and keys that are UTF-8, arrays of at most 1024 and maps of at most 64 entries with distinct text keys, false, true
  and null, at most seventeen values deep; and there is only one such value, so that a body that is accepted has one reading.
\<close>

theorem artifact_exact:
  "artifact_check max_bytes data = None \<longleftrightarrow> length data \<le> max_bytes \<and> (\<exists>!v. cbor_fits 17 v \<and> cbor_bytes v = data)"
proof -
  have ne: "cbor_bytes v \<noteq> []" for v unfolding cbor_bytes_head(1) by (simp add: cbor_head_nonempty)
  have "artifact_check max_bytes data = None \<longleftrightarrow> max_bytes \<noteq> 0 \<and> data \<noteq> [] \<and> length data \<le> max_bytes \<and> walk_value 17 data = Inr []"
    by (auto simp: artifact_check_def split: sum.split)
  also have "\<dots> \<longleftrightarrow> length data \<le> max_bytes \<and> (\<exists>v. cbor_fits 17 v \<and> data = cbor_bytes v)"
    unfolding walk_value_iff using ne ne [symmetric] by (cases max_bytes) auto
  also have "(\<exists>v. cbor_fits 17 v \<and> data = cbor_bytes v) \<longleftrightarrow> (\<exists>!v. cbor_fits 17 v \<and> cbor_bytes v = data)"
    using cbor_inject [of 17 _ _ "[]" "[]"] by (auto simp del: cbor_fits.simps)
  finally show ?thesis .
qed

end
