(* ===== verification/Manifest_Decode.thy ===== *)
theory Manifest_Decode
  imports Artifact_Cbor
begin

section \<open>Decoding a manifest (manifest_decode.go, manifest_projection.go, netwire/keys.go)\<close>

text \<open>
  \<open>DecodeManifest\<close>: the walk over the body, the types of the known fields, the entries of endpoints and services that this version
  understands, and the checks of the result. What the CBOR library does is the parameter \<open>cbor_library\<close>: it reads an item into a Go
  type (\<open>cl_fields\<close>: a map of raw items, \<open>cl_field_list\<close>: an array of such maps, \<open>cl_items\<close>: an array of raw items, then an int, a
  string and the three structs with their field tags), and writes a map of raw items; \<open>None\<close> is its error. A Go map of fields is a
  partial function, and a missing entry, which the code reads as an empty item, is \<open>None\<close>.
\<close>

type_synonym raw_fields = "string \<Rightarrow> bytes option"

record cbor_library =
  cl_fields :: "bytes \<Rightarrow> raw_fields option"
  cl_field_list :: "bytes \<Rightarrow> raw_fields list option"
  cl_items :: "bytes \<Rightarrow> bytes list option"
  cl_int :: "bytes \<Rightarrow> int option"
  cl_text :: "bytes \<Rightarrow> string option"
  cl_manifest :: "bytes \<Rightarrow> manifest option"
  cl_endpoint :: "bytes \<Rightarrow> app_endpoint option"
  cl_service :: "bytes \<Rightarrow> manifest_service option"
  cl_marshal :: "raw_fields \<Rightarrow> bytes option"

datatype decode_error = BadArtifact artifact_error | NotDecodable | NotEncodable | MissingField string | BadFieldType | UnsupportedVersion int
  | TooManyEntries | BadEntry | DuplicateService | RefusedView manifest_error | OperatorEntries

definition wire_names :: "(string \<times> string) list" where
  "wire_names = [
    (''Expires'', ''e''), (''Issued'', ''i''), (''added'', ''a''), (''address'', ''a''), (''agentPort'', ''P''),
    (''agentTransport'', ''T''), (''appEndpoints'', ''a''), (''appId'', ''a''), (''attachment'', ''a''), (''ble'', ''b''),
    (''body'', ''b''), (''bundle'', ''b''), (''caps'', ''c''), (''catalog'', ''C''), (''certificate'', ''c''),
    (''certificates'', ''c''), (''chain'', ''c''), (''chunk'', ''d''), (''credit'', ''c''), (''data'', ''d''),
    (''datagram'', ''g''), (''device'', ''d''), (''digest'', ''h''), (''tls_listen'', ''e''), (''error'', ''e''),
    (''ethernet'', ''E''), (''expires'', ''e''), (''fingerprint'', ''f''), (''fingerprints'', ''f''), (''generation'', ''G''),
    (''gossip'', ''g''), (''hash'', ''h''), (''hashes'', ''h''), (''hello'', ''h''), (''hops'', ''h''), (''hostPort'', ''h''),
    (''id'', ''i''), (''incarnation'', ''I''), (''index'', ''i''), (''infrastructureWifi'', ''i''), (''instance'', ''n''),
    (''ipDatagram'', ''i''), (''issued'', ''i''), (''key'', ''k''), (''kind'', ''k''), (''link_id'', ''l''), (''listen'', ''l''),
    (''live'', ''l''), (''manifest'', ''m''), (''mesh'', ''m''), (''missing'', ''m''), (''mtu'', ''m''), (''name'', ''n''),
    (''nan'', ''n''), (''nonce'', ''n''), (''offset'', ''f''), (''owner'', ''o''), (''op'', ''o''), (''operator'', ''o''),
    (''operatorCertificate'', ''O''), (''operatorReceipts'', ''o''), (''origin'', ''o''), (''peer'', ''p''), (''peers'', ''p''),
    (''platform'', ''l''), (''port'', ''p''), (''prefix'', ''p''), (''previous'', ''p''), (''principal'', ''p''),
    (''proof'', ''p''), (''receipts'', ''c''), (''record'', ''R''), (''request'', ''r''), (''requester'', ''r''),
    (''requires'', ''q''), (''retainUntil'', ''r''), (''revision'', ''R''), (''role'', ''r''), (''route'', ''r''),
    (''router'', ''r''), (''routerID'', ''r''), (''routerId'', ''r''), (''rx'', ''r''), (''self'', ''s''), (''seqno'', ''s''),
    (''serviceId'', ''s''), (''services'', ''s''), (''signature'', ''s''), (''stream'', ''s''), (''time'', ''t''),
    (''total'', ''l''), (''transcript'', ''t''), (''transport'', ''t''), (''tx'', ''T''), (''txt'', ''x''), (''type'', ''t''),
    (''until'', ''u''), (''used'', ''u''), (''v'', ''v''), (''version'', ''v''), (''withdraw'', ''w'')
  ]"

definition wire_key :: "string \<Rightarrow> string" where
  "wire_key name = (case map_of wire_names name of None \<Rightarrow> name | Some k \<Rightarrow> k)"

definition unmarshal_artifact :: "(bytes \<Rightarrow> 'a option) \<Rightarrow> nat \<Rightarrow> bytes \<Rightarrow> decode_error + 'a" where
  "unmarshal_artifact dec max_bytes data =
     (case artifact_check max_bytes data of
        Some e \<Rightarrow> Inl (BadArtifact e)
      | None \<Rightarrow> (case dec data of None \<Rightarrow> Inl NotDecodable | Some x \<Rightarrow> Inr x))"

text \<open>
  The required names in order; then the types of the names that are known, which the code visits in the order of a Go map: the error
  does not say which field it is.
\<close>

definition field_type_ok :: "raw_fields \<Rightarrow> string \<times> nat \<Rightarrow> bool" where
  "field_type_ok fs = (\<lambda>(name, major). case fs (wire_key name) of
     None \<Rightarrow> True
   | Some raw \<Rightarrow> \<not> (raw = [] \<or> unat (drop_bit 5 (hd raw)) \<noteq> major \<or> major = 7 \<and> hd raw \<noteq> 0xf4 \<and> hd raw \<noteq> 0xf5))"

definition manifest_field_types :: "raw_fields \<Rightarrow> (string \<times> nat) list \<Rightarrow> string list \<Rightarrow> decode_error option" where
  "manifest_field_types fs known required =
     (case List.find (\<lambda>name. fs (wire_key name) = None) required of
        Some name \<Rightarrow> Some (MissingField name)
      | None \<Rightarrow> if list_all (field_type_ok fs) known then None else Some BadFieldType)"

subsection \<open>Endpoints and services\<close>

definition manifest_entry_text :: "cbor_library \<Rightarrow> raw_fields \<Rightarrow> string \<Rightarrow> string option" where
  "manifest_entry_text L fs key = (case fs (wire_key key) of None \<Rightarrow> None | Some raw \<Rightarrow> cl_text L raw)"

definition decode_entry :: "cbor_library \<Rightarrow> (bytes \<Rightarrow> 'a option) \<Rightarrow> raw_fields \<Rightarrow> decode_error + 'a" where
  "decode_entry L dec fs = (case cl_marshal L fs of
     None \<Rightarrow> Inl NotEncodable
   | Some encoded \<Rightarrow> (case dec encoded of None \<Rightarrow> Inl NotDecodable | Some x \<Rightarrow> Inr x))"

primrec endpoint_entries :: "cbor_library \<Rightarrow> raw_fields list \<Rightarrow> app_endpoint list \<Rightarrow> decode_error + app_endpoint list" where
  "endpoint_entries L [] out = Inr out"
| "endpoint_entries L (fs # rest) out =
     (case manifest_entry_text L fs ''transport'' of
        None \<Rightarrow> Inl BadEntry
      | Some transport \<Rightarrow>
          if length transport = 0 \<or> 64 < length transport then Inl BadEntry
          else if transport \<noteq> ''tls-v1'' \<and> transport \<noteq> ''quic-v1'' then endpoint_entries L rest out
          else (case manifest_field_types fs [(''port'', 0), (''transport'', 3)] [''port'', ''transport''] of
              Some e \<Rightarrow> Inl e
            | None \<Rightarrow> (case decode_entry L (cl_endpoint L) fs of
                Inl e \<Rightarrow> Inl e
              | Inr endpoint \<Rightarrow> endpoint_entries L rest (out @ [endpoint]))))"

definition project_endpoints :: "cbor_library \<Rightarrow> bytes option \<Rightarrow> decode_error + app_endpoint list" where
  "project_endpoints L raw = (case raw of
     None \<Rightarrow> Inr []
   | Some raw \<Rightarrow>
       if raw = [] then Inr []
       else (case cl_field_list L raw of
           None \<Rightarrow> Inl NotDecodable
         | Some entries \<Rightarrow>
             if 16 < length entries then Inl TooManyEntries
             else (case endpoint_entries L entries [] of
                 Inl e \<Rightarrow> Inl e
               | Inr out \<Rightarrow> (case app_endpoints_error out of Some e \<Rightarrow> Inl (RefusedView e) | None \<Rightarrow> Inr out))))"

text \<open>A service type of any transport, of which this version knows \<open>_tcp\<close> and \<open>_udp\<close>.\<close>

definition type_char :: "char \<Rightarrow> bool" where
  "type_char c \<longleftrightarrow> lower_digit c \<or> c = CHR ''-''"

definition type_part :: "string \<Rightarrow> bool" where
  "type_part s \<longleftrightarrow> 1 \<le> length s \<and> length s \<le> 15 \<and> list_all type_char s"

definition extensible_service_type :: "string \<Rightarrow> bool" where
  "extensible_service_type s =
     (case s of
        [] \<Rightarrow> False
      | c # cs \<Rightarrow>
          (let a = takeWhile type_char cs; r = drop (length a) cs in
           c = CHR ''_'' \<and> type_part a \<and> take 2 r = ''._'' \<and> type_part (drop 2 r)))"

primrec service_entries :: "cbor_library \<Rightarrow> raw_fields list \<Rightarrow> (string \<times> string \<times> string) list \<Rightarrow> manifest_service list
    \<Rightarrow> decode_error + manifest_service list" where
  "service_entries L [] seen out = Inr out"
| "service_entries L (fs # rest) seen out =
     (case (manifest_entry_text L fs ''mesh'', manifest_entry_text L fs ''appId'', manifest_entry_text L fs ''serviceId'') of
        (Some mesh, Some app, Some service) \<Rightarrow>
          if \<not> service_label mesh \<or> \<not> app_id_ok app \<or> \<not> service_label service then Inl BadEntry
          else if (mesh, app, service) \<in> set seen then Inl DuplicateService
          else
            (let seen = (mesh, app, service) # seen;
                 kind = manifest_entry_text L fs ''type'';
                 typed = app \<noteq> ''wendy.mesh.system'' \<and> service \<noteq> ''internet-gateway''
             in if app = ''wendy.mesh.system'' \<and> service \<noteq> ''internet-gateway'' then service_entries L rest seen out
                else if typed \<and> (kind = None \<or> \<not> extensible_service_type (the kind)) then Inl BadEntry
                else if typed \<and> \<not> service_type (the kind) then service_entries L rest seen out
                else (case decode_entry L (cl_service L) fs of
                    Inl e \<Rightarrow> Inl e
                  | Inr entry \<Rightarrow>
                      if \<not> service_ok entry then Inl (RefusedView InvalidManifest)
                      else service_entries L rest seen (out @ [entry])))
      | _ \<Rightarrow> Inl BadEntry)"

definition project_services :: "cbor_library \<Rightarrow> bytes option \<Rightarrow> decode_error + manifest_service list" where
  "project_services L raw = (case raw of
     None \<Rightarrow> Inr []
   | Some raw \<Rightarrow>
       if raw = [] then Inr []
       else (case cl_field_list L raw of
           None \<Rightarrow> Inl NotDecodable
         | Some entries \<Rightarrow> if 256 < length entries then Inl TooManyEntries else service_entries L entries [] []))"

definition manifest_has_entries :: "cbor_library \<Rightarrow> bytes option \<Rightarrow> bool" where
  "manifest_has_entries L raw = (case raw of
     None \<Rightarrow> False
   | Some raw \<Rightarrow> (case cl_items L raw of None \<Rightarrow> False | Some entries \<Rightarrow> entries \<noteq> []))"

subsection \<open>DecodeManifest\<close>

definition manifest_types :: "(string \<times> nat) list" where
  "manifest_types = [(''version'', 0), (''device'', 3), (''revision'', 0), (''Issued'', 0), (''Expires'', 0), (''name'', 3),
     (''agentPort'', 0), (''agentTransport'', 3), (''platform'', 3), (''owner'', 5), (''caps'', 4), (''requires'', 4), (''withdraw'', 7),
     (''route'', 5), (''appEndpoints'', 4), (''s'', 4)]"

definition manifest_required :: "string list" where
  "manifest_required = [''version'', ''device'', ''revision'', ''Issued'', ''Expires'', ''agentPort'', ''route'']"

definition view_error :: "manifest \<Rightarrow> decode_error option" where
  "view_error m =
     (if 32 < length (mf_platform m) \<or> \<not> manifest_names_ok (mf_caps m) \<or> \<not> services_ok (mf_services m)
      then Some (RefusedView InvalidManifest)
      else (case requirements_error (mf_requires m) of
          Some e \<Rightarrow> Some (RefusedView e)
        | None \<Rightarrow>
            if 64 < length (mf_transport m) then Some (RefusedView InvalidManifest)
            else map_option RefusedView (app_endpoints_error (mf_endpoints m))))"

text \<open>The typed view, once the version and the types of the fields are known to be right.\<close>

definition project_manifest :: "cbor_library \<Rightarrow> raw_fields \<Rightarrow> decode_error + manifest" where
  "project_manifest L fs =
     (case project_endpoints L (fs (wire_key ''appEndpoints'')) of
        Inl e \<Rightarrow> Inl e
      | Inr endpoints \<Rightarrow> (case project_services L (fs ''s'') of
          Inl e \<Rightarrow> Inl e
        | Inr services \<Rightarrow>
            (let entries = manifest_has_entries L (fs (wire_key ''appEndpoints'')) \<or> manifest_has_entries L (fs ''s'') in
             case cl_marshal L (fs(wire_key ''appEndpoints'' := None, ''s'' := None)) of
               None \<Rightarrow> Inl NotEncodable
             | Some projection \<Rightarrow> (case unmarshal_artifact (cl_manifest L) 32768 projection of
                 Inl e \<Rightarrow> Inl e
               | Inr m \<Rightarrow>
                   if mf_owner m \<noteq> None \<and> entries then Inl OperatorEntries
                   else
                     (let m = m\<lparr>mf_endpoints := endpoints, mf_services := services\<rparr> in
                      case view_error m of Some e \<Rightarrow> Inl e | None \<Rightarrow> Inr m)))))"

definition decode_manifest :: "cbor_library \<Rightarrow> bytes \<Rightarrow> decode_error + manifest" where
  "decode_manifest L body =
     (case unmarshal_artifact (cl_fields L) 32768 body of
        Inl e \<Rightarrow> Inl e
      | Inr fs \<Rightarrow> (case manifest_field_types fs [(''version'', 0)] [''version''] of
          Some e \<Rightarrow> Inl e
        | None \<Rightarrow> (case Option.bind (fs (wire_key ''version'')) (cl_int L) of
            None \<Rightarrow> Inl NotDecodable
          | Some version \<Rightarrow>
              if version \<noteq> 4 then Inl (UnsupportedVersion version)
              else (case manifest_field_types fs manifest_types manifest_required of
                  Some e \<Rightarrow> Inl e
                | None \<Rightarrow> (case Option.bind (fs (wire_key ''route'')) (cl_fields L) of
                    None \<Rightarrow> Inl NotDecodable
                  | Some route \<Rightarrow>
                      (case manifest_field_types route [(''prefix'', 3), (''routerId'', 0), (''seqno'', 0)] [''prefix'', ''routerId'', ''seqno''] of
                         Some e \<Rightarrow> Inl e
                       | None \<Rightarrow> project_manifest L fs))))))"

text \<open>What a manifest that was decoded has passed, and where its identity comes from.\<close>

lemma decoded_projection:
  assumes "decode_manifest L body = Inr m"
  obtains fs where "artifact_check 32768 body = None" "cl_fields L body = Some fs" "project_manifest L fs = Inr m"
  using assms unfolding decode_manifest_def unmarshal_artifact_def
  by (auto split: option.splits if_splits)

lemma projected_manifest:
  assumes "project_manifest L fs = Inr m"
  obtains projection m0 where "cl_manifest L projection = Some m0" "view_error m = None"
    "m = m0\<lparr>mf_endpoints := mf_endpoints m, mf_services := mf_services m\<rparr>"
  using assms unfolding project_manifest_def unmarshal_artifact_def
  by (auto simp: Let_def split: sum.splits option.splits if_splits)

lemma decoded_manifest:
  assumes "decode_manifest L body = Inr m"
  shows "artifact_check 32768 body = None" "view_error m = None"
    "\<exists>projection m0. cl_manifest L projection = Some m0 \<and> mf_device m = mf_device m0 \<and> mf_owner m = mf_owner m0"
proof -
  obtain fs where f: "artifact_check 32768 body = None" "project_manifest L fs = Inr m"
    using assms by (rule decoded_projection)
  obtain projection m0 where p: "cl_manifest L projection = Some m0" "view_error m = None"
      "m = m0\<lparr>mf_endpoints := mf_endpoints m, mf_services := mf_services m\<rparr>"
    using f(2) by (rule projected_manifest)
  have "mf_device m = mf_device m0" "mf_owner m = mf_owner m0" by (subst p(3), simp)+
  then show "artifact_check 32768 body = None" "view_error m = None"
    "\<exists>projection m0. cl_manifest L projection = Some m0 \<and> mf_device m = mf_device m0 \<and> mf_owner m = mf_owner m0"
    using f(1) p by blast+
qed

end
