(* ===== verification/Mesh_Directory.thy ===== *)
theory Mesh_Directory
  imports Manifest_Decode
begin

section \<open>The directory (localmesh/directory.go, route_authorization.go)\<close>

text \<open>
  What a node believes of the devices of its tenant. A \<open>Time\<close> is a wall-clock reading and, perhaps, a monotonic one; two
  of them compare by the monotonic readings when both have one. \<open>wallHighWater\<close>, receipts and signed times are wall-clock
  times. The CBOR library under \<open>DecodeManifest\<close>, SHA-256, the certificates (\<open>dk_leaf_ok\<close>: one parses;
  \<open>dk_verify\<close>: its key, with the hash of its kind, verifies a signature of an input) and the identity cache are parameters; the
  cache answers a principal and a manifest with a chain, the identity and the end of its validity. A call of \<open>persist\<close> is told by
  the receipts it is given and its outcome. \<open>Snapshot\<close> and \<open>Records\<close> sort; the order of records with equal keys is not specified
  by the code, and no property rests on it.
\<close>

record go_time =
  tm_wall :: int
  tm_mono :: "int option"

definition tm_before :: "go_time \<Rightarrow> go_time \<Rightarrow> bool" where
  "tm_before a b = (case (tm_mono a, tm_mono b) of (Some x, Some y) \<Rightarrow> x < y | _ \<Rightarrow> tm_wall a < tm_wall b)"

definition tm_add :: "go_time \<Rightarrow> int \<Rightarrow> go_time" where
  "tm_add t d = \<lparr>tm_wall = tm_wall t + d, tm_mono = map_option (\<lambda>x. x + d) (tm_mono t)\<rparr>"

record signed_manifest =
  sm_principal :: string
  sm_body :: bytes
  sm_signature :: bytes

record dir_codec =
  dk_text :: text_codec
  dk_url_ok :: "string \<Rightarrow> bool"
  dk_sha :: "bytes \<Rightarrow> bytes"
  dk_cbor :: cbor_library
  dk_leaf_ok :: "bytes \<Rightarrow> bool"
  dk_verify :: "bytes \<Rightarrow> bytes \<Rightarrow> bytes \<Rightarrow> bool"

type_synonym identities = "string \<Rightarrow> manifest \<Rightarrow> (bytes list \<times> device \<times> int) option"

record dir_receipt =
  rc_device :: string
  rc_revision :: u64
  rc_hash :: string
  rc_until :: int

record dir_entry =
  en_manifest :: manifest
  en_wire :: signed_manifest
  en_hash :: string
  en_leaf :: string
  en_valid :: bool
  en_retain :: int
  en_active :: go_time
  en_expired :: bool

record directory =
  dr_tenant :: "bytes option"
  dr_limit :: int
  dr_entries :: "(string, dir_entry) gomap"
  dr_history :: "(string, dir_receipt) gomap"
  dr_persists :: bool
  dr_high :: int

definition dir_zero_time :: int where
  "dir_zero_time = -62135596800 * 1000000000"

definition new_directory :: "bytes option \<Rightarrow> int \<Rightarrow> directory option" where
  "new_directory tenant limit =
     (if tenant = None \<or> limit < 1 then None
      else Some \<lparr>dr_tenant = tenant, dr_limit = limit, dr_entries = [], dr_history = [], dr_persists = False, dr_high = dir_zero_time\<rparr>)"

subsection \<open>Hashes\<close>

definition hex_of :: "nat \<Rightarrow> char" where
  "hex_of n = ''0123456789abcdef'' ! n"

definition hex_bytes :: "bytes \<Rightarrow> string" where
  "hex_bytes bs = concat (map (\<lambda>b. [hex_of (unat b div 16), hex_of (unat b mod 16)]) bs)"

definition content_hash :: "dir_codec \<Rightarrow> bytes \<Rightarrow> string" where
  "content_hash k body = hex_bytes (dk_sha k body)"

definition dir_principal :: "dir_codec \<Rightarrow> device \<Rightarrow> string" where
  "dir_principal k d = peer_principal (tc_uuid (dk_text k)) d"

definition dir_key :: "dir_codec \<Rightarrow> device \<Rightarrow> string" where
  "dir_key k d = device_key (tc_uuid (dk_text k)) d"

subsection \<open>Receipts\<close>

fun load_receipts :: "dir_codec \<Rightarrow> bytes option \<Rightarrow> go_time \<Rightarrow> dir_receipt list \<Rightarrow> (string, dir_receipt) gomap
    \<Rightarrow> (string, dir_receipt) gomap option" where
  "load_receipts k tenant now [] h = Some h"
| "load_receipts k tenant now (r # rs) h =
     (if 1024 + 37 < length (rc_device r) \<or> rc_revision r = 0 \<or> length (rc_hash r) \<noteq> 64 then None
      else (case peer_from_key (dk_text k) (dk_url_ok k) (rc_device r) of
          None \<Rightarrow> None
        | Some d \<Rightarrow>
            if dv_tenant d \<noteq> tenant then None
            else load_receipts k tenant now rs (if tm_wall now < rc_until r then m_put (rc_device r) r h else h)))"

definition set_persistence :: "dir_codec \<Rightarrow> dir_receipt list \<Rightarrow> go_time \<Rightarrow> directory \<Rightarrow> directory option" where
  "set_persistence k receipts now d =
     (if dr_limit d < int (length receipts) then None
      else map_option (\<lambda>h. d\<lparr>dr_history := h, dr_persists := True\<rparr>) (load_receipts k (dr_tenant d) now receipts []))"

subsection \<open>Expiry\<close>

definition entry_over :: "go_time \<Rightarrow> int \<Rightarrow> dir_entry \<Rightarrow> bool" where
  "entry_over now high e \<longleftrightarrow> \<not> en_expired e \<and> (\<not> tm_before now (en_active e) \<or> \<not> high < ms_time (mf_expires (en_manifest e)))"

definition expire_dir :: "go_time \<Rightarrow> directory \<Rightarrow> directory" where
  "expire_dir now d =
     (let high = (if dr_high d < tm_wall now then tm_wall now else dr_high d) in
      d\<lparr>dr_high := high,
        dr_entries := m_adj (\<lambda>k e. if entry_over now high e then e\<lparr>en_expired := True\<rparr> else e) (dr_entries d)\<rparr>)"

subsection \<open>Signatures\<close>

definition manifest_domain :: string where
  "manifest_domain = ''wendy-local-mesh/manifest/4'' @ [CHR 0x00]"

definition signing_input :: "string \<Rightarrow> bytes \<Rightarrow> bytes" where
  "signing_input p body =
     map of_char manifest_domain @ be_bytes 4 (word_of_nat (length p) :: u32) @ map of_char p @ body"

definition signature_valid :: "dir_codec \<Rightarrow> signed_manifest \<Rightarrow> bytes \<Rightarrow> bool" where
  "signature_valid k w leaf \<longleftrightarrow> dk_leaf_ok k leaf \<and> dk_verify k leaf (signing_input (sm_principal w) (sm_body w)) (sm_signature w)"

definition binding_matches :: "string \<Rightarrow> bool \<Rightarrow> dir_entry \<Rightarrow> dir_entry" where
  "binding_matches leaf_hash check e = (if en_leaf e \<noteq> leaf_hash then e\<lparr>en_leaf := leaf_hash, en_valid := check\<rparr> else e)"

text \<open>The memo of the signature and whether the entry may be shown now.\<close>

definition current_entry :: "dir_codec \<Rightarrow> identities \<Rightarrow> go_time \<Rightarrow> int \<Rightarrow> dir_entry \<Rightarrow> dir_entry \<times> bytes list option" where
  "current_entry k ids now high e =
     (let expires = ms_time (mf_expires (en_manifest e)) in
      if en_expired e \<or> \<not> tm_before now (en_active e) \<or> \<not> tm_wall now < expires \<or> \<not> high < expires then (e, None)
      else (case ids (sm_principal (en_wire e)) (en_manifest e) of
          None \<Rightarrow> (e, None)
        | Some (chain, dev, until) \<Rightarrow>
            if dir_principal k dev \<noteq> sm_principal (en_wire e) \<or> until < expires then (e, None)
            else
              (let e = binding_matches (content_hash k (hd chain)) (signature_valid k (en_wire e) (hd chain)) e in
               (e, if en_valid e then Some chain else None))))"

definition sweep_current :: "dir_codec \<Rightarrow> identities \<Rightarrow> go_time \<Rightarrow> (dir_entry \<Rightarrow> bool) \<Rightarrow> directory \<Rightarrow> directory" where
  "sweep_current k ids now P d =
     d\<lparr>dr_entries := m_adj (\<lambda>o' e. if P e then fst (current_entry k ids now (dr_high d) e) else e) (dr_entries d)\<rparr>"

definition shown :: "dir_codec \<Rightarrow> identities \<Rightarrow> go_time \<Rightarrow> (dir_entry \<Rightarrow> bool) \<Rightarrow> directory \<Rightarrow> dir_entry list" where
  "shown k ids now P d = map snd (filter (\<lambda>(o', e). P e \<and> snd (current_entry k ids now (dr_high d) e) \<noteq> None) (dr_entries d))"

subsection \<open>Accept\<close>

datatype dir_error = Oversized | Undecodable decode_error | BadManifest manifest_error | WrongTenant | OwnerMismatch | IdentityNeeded | OutlivesCertificate
  | BadSignature | BadCertificate | StaleManifest | ConflictingRevision | DirectoryFull | NotPersisted

text \<open>The part of \<open>Accept\<close> before the lock: who signs, what is signed, and the certificate at its head.\<close>

definition admit_manifest :: "dir_codec \<Rightarrow> bytes option \<Rightarrow> identities \<Rightarrow> go_time \<Rightarrow> signed_manifest
    \<Rightarrow> dir_error + string \<times> manifest \<times> bytes" where
  "admit_manifest k tenant ids now w =
     (if 32768 < length (sm_body w) \<or> 8192 < length (sm_signature w) \<or> sm_principal w = '''' \<or> 1024 < length (sm_principal w)
      then Inl Oversized
      else (case peer_from_principal (dk_text k) (dk_url_ok k) (sm_principal w) of
          None \<Rightarrow> Inl OwnerMismatch
        | Some identity \<Rightarrow>
            if sm_principal w \<noteq> dir_principal k identity then Inl OwnerMismatch
            else if dv_tenant identity \<noteq> tenant then Inl WrongTenant
            else (case decode_manifest (dk_cbor k) (sm_body w) of
                Inl e \<Rightarrow> Inl (Undecodable e)
              | Inr m \<Rightarrow> (case manifest_invalid m (tm_wall now) of
                  Some e \<Rightarrow> Inl (BadManifest e)
                | None \<Rightarrow> (case manifest_peer (dk_text k) (dk_url_ok k) (dv_tenant identity) m of
                    None \<Rightarrow> Inl OwnerMismatch
                  | Some dev \<Rightarrow>
                      if dir_principal k dev \<noteq> sm_principal w then Inl OwnerMismatch
                      else (case ids (sm_principal w) m of
                          None \<Rightarrow> Inl IdentityNeeded
                        | Some (chain, holder, until) \<Rightarrow>
                            if dir_principal k holder \<noteq> dir_principal k dev then Inl OwnerMismatch
                            else if \<not> route_valid (dk_sha k) m dev then Inl OwnerMismatch
                            else if until < ms_time (mf_expires m) then Inl OutlivesCertificate
                            else if \<not> dk_leaf_ok k (hd chain) then Inl BadCertificate
                            else if \<not> signature_valid k w (hd chain) then Inl BadSignature
                            else Inr (dir_key k dev, m, hd chain)))))))"

definition prune_entries :: "go_time \<Rightarrow> directory \<Rightarrow> directory" where
  "prune_entries now d = d\<lparr>dr_entries := filter (\<lambda>(o', e). tm_wall now < en_retain e) (dr_entries d)\<rparr>"

definition receipt_refuses :: "go_time \<Rightarrow> manifest \<Rightarrow> string \<Rightarrow> dir_receipt option \<Rightarrow> dir_error option" where
  "receipt_refuses now m hash r = (case r of
     None \<Rightarrow> None
   | Some r \<Rightarrow>
       if \<not> tm_wall now < rc_until r then None
       else if mf_revision m < rc_revision r then Some StaleManifest
       else if mf_revision m = rc_revision r \<and> hash \<noteq> rc_hash r then Some ConflictingRevision
       else None)"

definition keep_receipts :: "go_time \<Rightarrow> directory \<Rightarrow> (string, dir_receipt) gomap" where
  "keep_receipts now d = filter (\<lambda>(o', r). tm_wall now < rc_until r) (dr_history d)"

definition receipt_for :: "directory \<Rightarrow> string \<Rightarrow> manifest \<Rightarrow> string \<Rightarrow> dir_receipt option \<Rightarrow> dir_receipt" where
  "receipt_for d owner m hash old =
     (let fresh = \<lparr>rc_device = owner, rc_revision = mf_revision m, rc_hash = hash,
        rc_until = dr_high d + manifest_lease_max + clock_skew\<rparr> in
      case old of None \<Rightarrow> fresh | Some r \<Rightarrow> if rc_revision r = mf_revision m \<and> rc_hash r = hash then r else fresh)"

text \<open>Storing a new version: the receipt is made durable first.\<close>

definition store_manifest :: "dir_codec \<Rightarrow> go_time \<Rightarrow> bool \<Rightarrow> string \<Rightarrow> manifest \<Rightarrow> string \<Rightarrow> bytes \<Rightarrow> signed_manifest \<Rightarrow> directory
    \<Rightarrow> (dir_error + bool) \<times> dir_receipt list option \<times> directory" where
  "store_manifest k now saved owner m hash leaf w d =
     (let kept = keep_receipts now d in
      if map_of kept owner = None \<and> dr_limit d \<le> int (length kept) then (Inl DirectoryFull, None, d)
      else
        (let receipt = receipt_for d owner m hash (map_of kept owner); next_history = m_put owner receipt kept;
             log = (if dr_persists d then Some (sort_key rc_device (map snd next_history)) else None) in
         if dr_persists d \<and> \<not> saved then (Inl NotPersisted, log, d)
         else (Inr True, log, d\<lparr>dr_history := next_history,
           dr_entries := m_put owner \<lparr>en_manifest = m, en_wire = w, en_hash = hash, en_leaf = content_hash k leaf, en_valid = True,
             en_retain = rc_until receipt, en_active = tm_add now (ms_time (mf_expires m) - dr_high d), en_expired = False\<rparr>
             (dr_entries d)\<rparr>)))"

definition accept_manifest :: "dir_codec \<Rightarrow> identities \<Rightarrow> go_time \<Rightarrow> bool \<Rightarrow> signed_manifest \<Rightarrow> directory
    \<Rightarrow> (dir_error + bool) \<times> dir_receipt list option \<times> directory" where
  "accept_manifest k ids now saved w d = (case admit_manifest k (dr_tenant d) ids now w of
     Inl e \<Rightarrow> (Inl e, None, d)
   | Inr (owner, m, leaf) \<Rightarrow>
       (let hash = content_hash k (sm_body w); d = expire_dir now d in
        if \<not> dr_high d < ms_time (mf_expires m) then (Inl (BadManifest ExpiredManifest), None, d)
        else
          (let d = prune_entries now d in
           case receipt_refuses now m hash (map_of (dr_history d) owner) of
             Some e \<Rightarrow> (Inl e, None, d)
           | None \<Rightarrow> (case map_of (dr_entries d) owner of
               Some old \<Rightarrow>
                 if mf_revision m < mf_revision (en_manifest old) then (Inl StaleManifest, None, d)
                 else if mf_revision m = mf_revision (en_manifest old) then
                   (if hash \<noteq> en_hash old then (Inl ConflictingRevision, None, d)
                    else
                      (let old = binding_matches (content_hash k leaf) (signature_valid k (en_wire old) leaf) old in
                       if \<not> en_valid old
                       then (Inr True, None, d\<lparr>dr_entries := m_put owner (old\<lparr>en_wire := w, en_leaf := content_hash k leaf,
                         en_valid := True\<rparr>) (dr_entries d)\<rparr>)
                       else (Inr False, None, d\<lparr>dr_entries := m_put owner old (dr_entries d)\<rparr>)))
                 else store_manifest k now saved owner m hash leaf w d
             | None \<Rightarrow>
                 if dr_limit d \<le> int (length (dr_entries d)) then (Inl DirectoryFull, None, d)
                 else store_manifest k now saved owner m hash leaf w d))))"

subsection \<open>What the directory shows\<close>

definition owner_key :: "dir_codec \<Rightarrow> signed_manifest \<Rightarrow> string" where
  "owner_key k w = (case peer_from_principal (dk_text k) (dk_url_ok k) (sm_principal w) of
     None \<Rightarrow> ''''
   | Some identity \<Rightarrow> (case decode_manifest (dk_cbor k) (sm_body w) of
       Inl e \<Rightarrow> ''''
     | Inr m \<Rightarrow> (case manifest_peer (dk_text k) (dk_url_ok k) (dv_tenant identity) m of
         None \<Rightarrow> ''''
       | Some p \<Rightarrow> if dir_principal k p \<noteq> sm_principal w then '''' else dir_key k p)))"

definition current_record_chain :: "dir_codec \<Rightarrow> identities \<Rightarrow> go_time \<Rightarrow> signed_manifest \<Rightarrow> directory \<Rightarrow> bytes list option \<times> directory" where
  "current_record_chain k ids now w d =
     (let d = expire_dir now d; owner = owner_key k w in
      case map_of (dr_entries d) owner of
        None \<Rightarrow> (None, d)
      | Some e \<Rightarrow>
          if sm_body w \<noteq> sm_body (en_wire e) \<or> sm_signature w \<noteq> sm_signature (en_wire e) then (None, d)
          else (let (e, chain) = current_entry k ids now (dr_high d) e in (chain, d\<lparr>dr_entries := m_put owner e (dr_entries d)\<rparr>)))"

definition shown_manifest :: "manifest \<Rightarrow> manifest" where
  "shown_manifest m = (if mf_transport m \<noteq> '''' \<and> mf_transport m \<noteq> ''mtls-v1'' then m\<lparr>mf_port := 0, mf_agent := None\<rparr> else m)"

definition dir_snapshot :: "dir_codec \<Rightarrow> identities \<Rightarrow> go_time \<Rightarrow> directory \<Rightarrow> manifest list \<times> directory" where
  "dir_snapshot k ids now d =
     (let d = expire_dir now d; P = (\<lambda>e. \<not> mf_withdraw (en_manifest e) \<and> \<not> en_expired e) in
      (sort_key mf_device (map (shown_manifest \<circ> en_manifest) (shown k ids now P d)), sweep_current k ids now P d))"

definition dir_records :: "dir_codec \<Rightarrow> identities \<Rightarrow> go_time \<Rightarrow> directory \<Rightarrow> signed_manifest list \<times> directory" where
  "dir_records k ids now d =
     (let d = expire_dir now d in
      (sort_key (\<lambda>w. (owner_key k w, sm_body w)) (map en_wire (shown k ids now (\<lambda>e. True) d)), sweep_current k ids now (\<lambda>e. True) d))"

subsection \<open>Route authorizations\<close>

record origin_claims =
  oc_owners :: "route_origin \<Rightarrow> string option"
  oc_prefixes :: "prefix \<Rightarrow> string option"
  oc_conflicts :: "string set"

definition claim_origin :: "dir_codec \<Rightarrow> bytes option \<Rightarrow> manifest \<Rightarrow> origin_claims \<Rightarrow> origin_claims" where
  "claim_origin k tenant m c = (case mf_route m of
     None \<Rightarrow> c
   | Some r \<Rightarrow>
       if mf_withdraw m \<or> mf_version m \<noteq> 4 then c
       else (case manifest_peer (dk_text k) (dk_url_ok k) tenant m of
           None \<Rightarrow> c
         | Some dev \<Rightarrow>
             if \<not> dv_valid dev \<or> \<not> route_valid (dk_sha k) m dev then c
             else
               (let owner = dir_key k dev;
                    clash = (case oc_prefixes c (ro_prefix r) of None \<Rightarrow> {} | Some o' \<Rightarrow> if o' \<noteq> owner then {o', owner} else {}) in
                c\<lparr>oc_conflicts := oc_conflicts c \<union> clash, oc_prefixes := (oc_prefixes c)(ro_prefix r \<mapsto> owner),
                  oc_owners := (oc_owners c)(r \<mapsto> owner)\<rparr>)))"

definition no_claims :: origin_claims where
  "no_claims = \<lparr>oc_owners = (\<lambda>r. None), oc_prefixes = (\<lambda>p. None), oc_conflicts = {}\<rparr>"

definition authorized_origins :: "dir_codec \<Rightarrow> bytes option \<Rightarrow> manifest list \<Rightarrow> route_origin \<Rightarrow> bool" where
  "authorized_origins k tenant ms =
     (let c = fold (claim_origin k tenant) ms no_claims in
      (\<lambda>r. case oc_owners c r of None \<Rightarrow> False | Some o' \<Rightarrow> o' \<notin> oc_conflicts c))"

definition route_authorizations :: "dir_codec \<Rightarrow> identities \<Rightarrow> go_time \<Rightarrow> directory \<Rightarrow> (route_origin \<Rightarrow> bool) \<times> directory" where
  "route_authorizations k ids now d =
     (let d = expire_dir now d;
          P = (\<lambda>e. \<not> (en_expired e \<or> mf_withdraw (en_manifest e) \<or> mf_version (en_manifest e) \<noteq> 4 \<or> mf_route (en_manifest e) = None)) in
      (authorized_origins k (dr_tenant d) (map en_manifest (shown k ids now P d)), sweep_current k ids now P d))"

end
