(* ===== verification/Mesh_Directory_Inv.thy ===== *)
theory Mesh_Directory_Inv
  imports Mesh_Directory
begin

section \<open>The directory: invariant and runs\<close>

text \<open>
  The operations of a directory in service: each takes the lock and first notes the wall clock (\<open>expire\<close>), at any reading of the
  clocks and whatever the identity cache and the disk answer. \<open>SetPersistence\<close>, with which a caller loads the receipts before that, takes
  the lock too, but it compares the receipts with the clock it is given and does not note it; \<open>dir_ops\<close> are runs in which it may come at
  any point.
\<close>

inductive dir_step :: "dir_codec \<Rightarrow> go_time \<Rightarrow> directory \<Rightarrow> directory \<Rightarrow> bool" for k where
  dstep_accept: "admit_manifest k (dr_tenant d) ids now w = Inr x \<Longrightarrow> accept_manifest k ids now saved w d = (res, log, d') \<Longrightarrow> dir_step k now d d'"
| dstep_current: "current_record_chain k ids now w d = (chain, d') \<Longrightarrow> dir_step k now d d'"
| dstep_snapshot: "dir_snapshot k ids now d = (ms, d') \<Longrightarrow> dir_step k now d d'"
| dstep_records: "dir_records k ids now d = (ws, d') \<Longrightarrow> dir_step k now d d'"
| dstep_routes: "route_authorizations k ids now d = (auth, d') \<Longrightarrow> dir_step k now d d'"

inductive dir_runs :: "dir_codec \<Rightarrow> directory \<Rightarrow> directory \<Rightarrow> bool" for k where
  druns_refl: "dir_runs k d d"
| druns_step: "dir_runs k d d' \<Longrightarrow> dir_step k now d' d'' \<Longrightarrow> dir_runs k d d''"

inductive dir_ops :: "dir_codec \<Rightarrow> directory \<Rightarrow> directory \<Rightarrow> bool" for k where
  dops_refl: "dir_ops k d d"
| dops_step: "dir_ops k d d' \<Longrightarrow> dir_step k now d' d'' \<Longrightarrow> dir_ops k d d''"
| dops_load: "dir_ops k d d' \<Longrightarrow> set_persistence k receipts now d' = Some d'' \<Longrightarrow> dir_ops k d d''"

inductive dir_reachable :: "dir_codec \<Rightarrow> directory \<Rightarrow> bool" for k where
  dreach_new: "new_directory tenant limit = Some d \<Longrightarrow> dir_reachable k d"
| dreach_load: "new_directory tenant limit = Some d \<Longrightarrow> set_persistence k receipts now d = Some d' \<Longrightarrow> dir_reachable k d'"
| dreach_step: "dir_reachable k d \<Longrightarrow> dir_step k now d d' \<Longrightarrow> dir_reachable k d'"

lemma dir_reachable_runs: "dir_runs k d d' \<Longrightarrow> dir_reachable k d \<Longrightarrow> dir_reachable k d'"
  by (induction rule: dir_runs.induct) (auto intro: dreach_step)

subsection \<open>The invariant\<close>

text \<open>Every entry rests on a receipt of the same version that ends when the entry is forgotten.\<close>

definition receipted :: "directory \<Rightarrow> string \<Rightarrow> dir_entry \<Rightarrow> bool" where
  "receipted d o' e \<longleftrightarrow> (\<exists>r. map_of (dr_history d) o' = Some r \<and> rc_revision r = mf_revision (en_manifest e) \<and> rc_hash r = en_hash e
     \<and> rc_until r = en_retain e)"

text \<open>An entry is what was admitted: a manifest of its owner with its own route, and a wire of this owner with the same hash.\<close>

definition genuine :: "dir_codec \<Rightarrow> bytes option \<Rightarrow> string \<Rightarrow> dir_entry \<Rightarrow> bool" where
  "genuine k tenant o' e \<longleftrightarrow> en_hash e = content_hash k (sm_body (en_wire e)) \<and> owner_key k (en_wire e) = o' \<and> mf_version (en_manifest e) = 4
     \<and> (\<exists>dev. manifest_peer (dk_text k) (dk_url_ok k) tenant (en_manifest e) = Some dev \<and> dir_key k dev = o'
          \<and> route_valid (dk_sha k) (en_manifest e) dev)"

definition dir_ok :: "dir_codec \<Rightarrow> directory \<Rightarrow> bool" where
  "dir_ok k d \<longleftrightarrow> 0 < dr_limit d \<and> m_all (\<lambda>o' e. receipted d o' e \<and> genuine k (dr_tenant d) o' e) (dr_entries d)
     \<and> m_all (\<lambda>o' r. rc_device r = o') (dr_history d)
     \<and> int (length (dr_entries d)) \<le> dr_limit d \<and> int (length (dr_history d)) \<le> dr_limit d"

lemma expire_dir_simps [simp]:
  "dr_tenant (expire_dir now d) = dr_tenant d" "dr_limit (expire_dir now d) = dr_limit d" "dr_history (expire_dir now d) = dr_history d"
  "dr_persists (expire_dir now d) = dr_persists d" "dr_high (expire_dir now d) = max (dr_high d) (tm_wall now)"
  by (simp_all add: expire_dir_def Let_def max_def)

lemma m_ok_entries: "dir_ok k d \<Longrightarrow> m_ok (dr_entries d)" "dir_ok k d \<Longrightarrow> m_ok (dr_history d)"
  by (auto simp: dir_ok_def m_all_def)

lemma expire_dir_ok: "dir_ok k d \<Longrightarrow> dir_ok k (expire_dir now d)"
  unfolding dir_ok_def expire_dir_def Let_def
  by (auto simp: receipted_def genuine_def elim!: m_all_adj)

lemma prune_ok:
  assumes "dir_ok k d"
  shows "dir_ok k (prune_entries now d)"
proof -
  have "int (length (filter (\<lambda>(o', e). tm_wall now < en_retain e) (dr_entries d))) \<le> dr_limit d"
    using assms length_filter_le [of "\<lambda>(o', e). tm_wall now < en_retain e" "dr_entries d"] unfolding dir_ok_def by linarith
  then show ?thesis using assms unfolding dir_ok_def prune_entries_def
    by (auto simp: receipted_def intro!: m_all_filter)
qed

text \<open>Changing what an entry remembers of its signature.\<close>

definition same_version :: "dir_entry \<Rightarrow> dir_entry \<Rightarrow> bool" where
  "same_version e e' \<longleftrightarrow> en_manifest e' = en_manifest e \<and> en_hash e' = en_hash e \<and> en_retain e' = en_retain e \<and> en_wire e' = en_wire e"

lemma same_version_ok:
  "same_version e e' \<Longrightarrow> receipted d o' e \<and> genuine k t o' e \<Longrightarrow> receipted d o' e' \<and> genuine k t o' e'"
  by (auto simp: same_version_def receipted_def genuine_def)

lemma same_version_refl [simp]: "same_version e e"
  by (simp add: same_version_def)

lemma binding_same [simp]: "same_version e (binding_matches h b e)"
  by (simp add: binding_matches_def same_version_def)

lemma current_same [simp]: "same_version e (fst (current_entry k ids now high e))"
  by (simp add: current_entry_def Let_def split: option.splits prod.splits)

lemma put_same_ok:
  assumes "dir_ok k d" "map_of (dr_entries d) o' = Some e" "receipted d o' e'" "genuine k (dr_tenant d) o' e'"
  shows "dir_ok k (d\<lparr>dr_entries := m_put o' e' (dr_entries d)\<rparr>)"
proof -
  have "length (m_put o' e' (dr_entries d)) = length (dr_entries d)"
    using assms(2) m_ok_entries(1) [OF assms(1)] by (simp add: length_m_put_present)
  then show ?thesis using assms unfolding dir_ok_def by (auto simp: receipted_def intro!: m_all_put)
qed

lemma sweep_ok: "dir_ok k d \<Longrightarrow> dir_ok k (sweep_current k ids now P d)"
proof -
  assume "dir_ok k d"
  moreover have "m_all (\<lambda>o' e. receipted d o' e \<and> genuine k (dr_tenant d) o' e) (dr_entries d) \<Longrightarrow>
      m_all (\<lambda>o' e. receipted d o' e \<and> genuine k (dr_tenant d) o' e)
        (m_adj (\<lambda>o' e. if P e then fst (current_entry k ids now (dr_high d) e) else e) (dr_entries d))"
    by (erule m_all_adj) (use same_version_ok [OF current_same] in auto)
  ultimately show ?thesis by (auto simp: dir_ok_def sweep_current_def receipted_def)
qed

subsection \<open>Admission\<close>

lemma admitted:
  assumes "admit_manifest k tenant ids now w = Inr (owner, m, leaf)"
  shows "decode_manifest (dk_cbor k) (sm_body w) = Inr m" "manifest_invalid m (tm_wall now) = None" "owner_key k w = owner"
    "\<exists>dev. manifest_peer (dk_text k) (dk_url_ok k) tenant m = Some dev \<and> dir_key k dev = owner
       \<and> dir_principal k dev = sm_principal w \<and> route_valid (dk_sha k) m dev"
    "\<exists>i. peer_from_principal (dk_text k) (dk_url_ok k) (sm_principal w) = Some i \<and> dv_tenant i = tenant"
    "length (sm_principal w) \<le> 1024"
  using assms by (auto simp: admit_manifest_def owner_key_def split: if_splits option.splits prod.splits sum.splits)

lemma receipt_for_fields:
  "rc_device (receipt_for d owner m hash old) = owner \<or> (\<exists>r. old = Some r \<and> receipt_for d owner m hash old = r)"
  "rc_revision (receipt_for d owner m hash old) = mf_revision m" "rc_hash (receipt_for d owner m hash old) = hash"
  by (auto simp: receipt_for_def Let_def split: option.splits)

lemma stored_ok:
  assumes ok: "dir_ok k d" and adm: "admit_manifest k (dr_tenant d) ids now w = Inr (owner, m, leaf)"
    and st: "store_manifest k now saved owner m (content_hash k (sm_body w)) leaf w d = (res, log, d')"
    and room: "map_of (dr_entries d) owner = None \<Longrightarrow> int (length (dr_entries d)) < dr_limit d"
    and live: "\<forall>e \<in> set (dr_entries d). tm_wall now < en_retain (snd e)"
  shows "dir_ok k d'"
proof (cases "d' = d")
  case False
  define kept where "kept = keep_receipts now d"
  define r where "r = receipt_for d owner m (content_hash k (sm_body w)) (map_of kept owner)"
  have full: "\<not> (map_of kept owner = None \<and> dr_limit d \<le> int (length kept))"
    using False st by (auto simp: store_manifest_def Let_def kept_def [symmetric] split: if_splits)
  obtain e where d': "d' = d\<lparr>dr_history := m_put owner r kept, dr_entries := m_put owner e (dr_entries d)\<rparr>"
    and e: "en_manifest e = m" "en_hash e = content_hash k (sm_body w)" "en_retain e = rc_until r" "en_wire e = w"
    using False st full by (auto simp: store_manifest_def Let_def kept_def [symmetric] r_def [symmetric] split: if_splits)
  have kept: "m_all (\<lambda>o' r. rc_device r = o') kept" "length kept \<le> length (dr_history d)"
    "map_of kept o' = (case map_of (dr_history d) o' of None \<Rightarrow> None | Some r \<Rightarrow> if tm_wall now < rc_until r then Some r else None)" for o'
    using ok map_of_filter_ok [OF m_ok_entries(2) [OF ok], of "\<lambda>(o', r). tm_wall now < rc_until r" o']
    by (auto simp: kept_def keep_receipts_def dir_ok_def split: option.splits)
  have rdev: "rc_device r = owner"
    using receipt_for_fields(1) [of d owner m "content_hash k (sm_body w)" "map_of kept owner"] m_all_get [OF kept(1)] by (auto simp: r_def)
  have others: "receipted d' o' e'" if "map_of (dr_entries d) o' = Some e'" "o' \<noteq> owner" for o' e'
  proof -
    have "receipted d o' e'" using ok that(1) m_all_get unfolding dir_ok_def by fastforce
    moreover have "tm_wall now < en_retain e'" using live that(1) map_of_SomeD by fastforce
    ultimately show ?thesis using that(2) kept(3) [of o'] by (auto simp: receipted_def d')
  qed
  have self: "receipted d' owner e"
    using receipt_for_fields(2,3) e by (auto simp: receipted_def d' r_def)
  have gen: "genuine k (dr_tenant d) owner e"
    using admitted [OF adm] accepted_lease(4) e by (auto simp: genuine_def)
  have oth: "receipted d' o' e' \<and> genuine k (dr_tenant d) o' e'" if "(o', e') \<in> set (dr_entries d)" "o' \<noteq> owner" for o' e'
  proof -
    have "map_of (dr_entries d) o' = Some e'" using that(1) map_of_in_ok [OF m_ok_entries(1) [OF ok]] by blast
    then show ?thesis using others that ok m_all_get unfolding dir_ok_def by fastforce
  qed
  have ent: "m_all (\<lambda>o' e. receipted d' o' e \<and> genuine k (dr_tenant d) o' e) (m_put owner e (dr_entries d))"
  proof -
    have mo: "m_ok (m_put owner e (dr_entries d))" using m_ok_entries(1) [OF ok] by simp
    moreover have "receipted d' o' x \<and> genuine k (dr_tenant d) o' x" if "(o', x) \<in> set (m_put owner e (dr_entries d))" for o' x
    proof -
      have "map_of (m_put owner e (dr_entries d)) o' = Some x" using that map_of_in_ok [OF mo] by blast
      then have "o' = owner \<and> x = e \<or> o' \<noteq> owner \<and> map_of (dr_entries d) o' = Some x" by (auto split: if_splits)
      then show ?thesis using self gen oth map_of_SomeD by fastforce
    qed
    ultimately show ?thesis by (auto simp: m_all_def)
  qed
  have "int (length (m_put owner e (dr_entries d))) \<le> dr_limit d"
  proof (cases "map_of (dr_entries d) owner")
    case None
    then show ?thesis using room length_m_put_le [OF m_ok_entries(1) [OF ok], of owner e] by simp
  next
    case (Some e0)
    then show ?thesis using ok m_ok_entries(1) [OF ok] by (simp add: length_m_put_present dir_ok_def)
  qed
  moreover have "int (length (m_put owner r kept)) \<le> dr_limit d"
  proof (cases "map_of kept owner")
    case None
    then show ?thesis using full length_m_put_le [OF m_all_m_ok [OF kept(1)], of owner r] by simp
  next
    case (Some r0)
    then show ?thesis using ok kept(2) m_all_m_ok [OF kept(1)] by (simp add: length_m_put_present dir_ok_def)
  qed
  ultimately show ?thesis using ent rdev kept(1) ok unfolding dir_ok_def by (simp add: d' m_all_put)
qed (simp add: ok)

lemma accept_cases:
  assumes adm: "admit_manifest k (dr_tenant d) ids now w = Inr (owner, m, leaf)"
    and acc: "accept_manifest k ids now saved w d = (res, log, d')"
    and d2: "d2 = prune_entries now (expire_dir now d)"
  obtains (refused) e where "res = Inl e" "d' = expire_dir now d \<or> d' = d2" "log = None"
    | (renewed) old e' where "map_of (dr_entries d2) owner = Some old" "content_hash k (sm_body w) = en_hash old"
        "mf_revision m = mf_revision (en_manifest old)"
        "d' = d2\<lparr>dr_entries := m_put owner e' (dr_entries d2)\<rparr>" "same_version (old\<lparr>en_wire := w\<rparr>) e' \<or> same_version old e'" "log = None"
    | (stored) "store_manifest k now saved owner m (content_hash k (sm_body w)) leaf w d2 = (res, log, d')"
        "map_of (dr_entries d2) owner = None \<Longrightarrow> int (length (dr_entries d2)) < dr_limit d2"
        "receipt_refuses now m (content_hash k (sm_body w)) (map_of (dr_history d2) owner) = None"
        "\<And>old. map_of (dr_entries d2) owner = Some old \<Longrightarrow> mf_revision (en_manifest old) < mf_revision m"
        "dr_high (expire_dir now d) < ms_time (mf_expires m)"
proof -
  let ?h = "content_hash k (sm_body w)"
  have acc': "(if \<not> dr_high (expire_dir now d) < ms_time (mf_expires m) then (Inl (BadManifest ExpiredManifest), None, expire_dir now d)
      else (case receipt_refuses now m ?h (map_of (dr_history d2) owner) of
         Some e \<Rightarrow> (Inl e, None, d2)
       | None \<Rightarrow> (case map_of (dr_entries d2) owner of
           Some old \<Rightarrow>
             if mf_revision m < mf_revision (en_manifest old) then (Inl StaleManifest, None, d2)
             else if mf_revision m = mf_revision (en_manifest old) then
               (if ?h \<noteq> en_hash old then (Inl ConflictingRevision, None, d2)
                else
                  (let old = binding_matches (content_hash k leaf) (signature_valid k (en_wire old) leaf) old in
                   if \<not> en_valid old
                   then (Inr True, None, d2\<lparr>dr_entries := m_put owner (old\<lparr>en_wire := w, en_leaf := content_hash k leaf,
                     en_valid := True\<rparr>) (dr_entries d2)\<rparr>)
                   else (Inr False, None, d2\<lparr>dr_entries := m_put owner old (dr_entries d2)\<rparr>)))
             else store_manifest k now saved owner m ?h leaf w d2
         | None \<Rightarrow>
             if dr_limit d2 \<le> int (length (dr_entries d2)) then (Inl DirectoryFull, None, d2)
             else store_manifest k now saved owner m ?h leaf w d2))) = (res, log, d')"
    using acc unfolding accept_manifest_def adm sum.case prod.case Let_def d2 .
  show thesis
  proof (cases "dr_high (expire_dir now d) < ms_time (mf_expires m)")
    case False
    then show thesis using acc' by (auto intro: refused)
  next
    case fresh: True
    show thesis
    proof (cases "receipt_refuses now m ?h (map_of (dr_history d2) owner)")
      case (Some e)
      then show thesis using acc' fresh by (auto intro: refused)
    next
      case rc: None
      show thesis
      proof (cases "map_of (dr_entries d2) owner")
        case None
        then show thesis using acc' fresh rc by (auto intro: refused stored split: if_splits)
      next
        case (Some old)
        consider "mf_revision m < mf_revision (en_manifest old)"
          | "mf_revision m = mf_revision (en_manifest old)" "?h \<noteq> en_hash old"
          | "mf_revision m = mf_revision (en_manifest old)" "?h = en_hash old"
          | "mf_revision (en_manifest old) < mf_revision m" by fastforce
        then show thesis
        proof cases
          case 3
          define old' where "old' = binding_matches (content_hash k leaf) (signature_valid k (en_wire old) leaf) old"
          have s: "same_version old old'" by (simp add: old'_def)
          then have "same_version (old\<lparr>en_wire := w\<rparr>) (old'\<lparr>en_wire := w, en_leaf := content_hash k leaf, en_valid := True\<rparr>)"
            by (simp add: same_version_def)
          moreover have "d' = d2\<lparr>dr_entries := m_put owner (old'\<lparr>en_wire := w, en_leaf := content_hash k leaf, en_valid := True\<rparr>) (dr_entries d2)\<rparr>
              \<or> d' = d2\<lparr>dr_entries := m_put owner old' (dr_entries d2)\<rparr>"
            using acc' fresh rc Some 3 unfolding old'_def by (simp add: Let_def split: if_splits)
          moreover have "log = None" using acc' fresh rc Some 3 by (simp add: Let_def split: if_splits)
          ultimately show thesis using renewed [OF Some 3(2,1)] s by blast
        next
          case 1
          then have "(Inl StaleManifest, None, d2) = (res, log, d')" using acc' fresh rc Some by simp
          then show thesis by (auto intro: refused)
        next
          case 2
          then have "(Inl ConflictingRevision, None, d2) = (res, log, d')" using acc' fresh rc Some by simp
          then show thesis by (auto intro: refused)
        next
          case 4
          then have "\<not> mf_revision m < mf_revision (en_manifest old)" "mf_revision m \<noteq> mf_revision (en_manifest old)" by auto
          then have "store_manifest k now saved owner m ?h leaf w d2 = (res, log, d')" using acc' fresh rc Some by simp
          then show thesis by (rule stored) (use rc Some 4 fresh in auto)
        qed
      qed
    qed
  qed
qed

lemma accepted_ok:
  assumes ok: "dir_ok k d" and adm: "admit_manifest k (dr_tenant d) ids now w = Inr (owner, m, leaf)"
    and acc: "accept_manifest k ids now saved w d = (res, log, d')"
  shows "dir_ok k d'"
proof -
  define d2 where "d2 = prune_entries now (expire_dir now d)"
  have ok1: "dir_ok k (expire_dir now d)" and ok2: "dir_ok k d2" using expire_dir_ok [OF ok] prune_ok by (simp_all add: d2_def)
  have adm2: "admit_manifest k (dr_tenant d2) ids now w = Inr (owner, m, leaf)" using adm by (simp add: d2_def prune_entries_def)
  have live: "\<forall>e \<in> set (dr_entries d2). tm_wall now < en_retain (snd e)" by (auto simp: d2_def prune_entries_def)
  show ?thesis
    using adm acc d2_def
  proof (cases rule: accept_cases)
    case (refused e)
    then show ?thesis using ok1 ok2 by auto
  next
    case (renewed old e')
    have old: "receipted d2 owner old \<and> genuine k (dr_tenant d2) owner old" using ok2 renewed(1) m_all_get unfolding dir_ok_def by fastforce
    have "receipted d2 owner (old\<lparr>en_wire := w\<rparr>)" using old by (simp add: receipted_def)
    moreover have "genuine k (dr_tenant d2) owner (old\<lparr>en_wire := w\<rparr>)"
      using old admitted(3) [OF adm] renewed(2) by (simp add: genuine_def)
    ultimately have "receipted d2 owner (old\<lparr>en_wire := w\<rparr>) \<and> genuine k (dr_tenant d2) owner (old\<lparr>en_wire := w\<rparr>)" by simp
    then have "receipted d2 owner e' \<and> genuine k (dr_tenant d2) owner e'"
      using renewed(5) same_version_ok [of "old\<lparr>en_wire := w\<rparr>" e'] same_version_ok [of old e'] old by blast
    then show ?thesis using put_same_ok [OF ok2 renewed(1)] renewed(4) by simp
  next
    case stored
    show ?thesis by (rule stored_ok [OF ok2 adm2 stored(1) _ live]) (rule stored(2))
  qed
qed

lemma set_persistence_ok:
  assumes "new_directory tenant limit = Some d0" "set_persistence k rs now d0 = Some d"
  shows "dir_ok k d"
proof -
  have load: "load_receipts k t now rs h = Some h' \<Longrightarrow> m_all (\<lambda>o' r. rc_device r = o') h
      \<Longrightarrow> m_all (\<lambda>o' r. rc_device r = o') h' \<and> length h' \<le> length h + length rs" for t h h'
  proof (induction rs arbitrary: h)
    case (Cons r rs)
    let ?h = "if tm_wall now < rc_until r then m_put (rc_device r) r h else h"
    have "load_receipts k t now rs ?h = Some h'" using Cons.prems(1) by (auto split: if_splits option.splits)
    moreover have "m_all (\<lambda>o' r. rc_device r = o') ?h" using Cons.prems(2) by auto
    moreover have "length ?h \<le> Suc (length h)" using length_m_put_le [OF m_all_m_ok [OF Cons.prems(2)], of "rc_device r" r] by simp
    ultimately show ?case using Cons.IH by fastforce
  qed simp
  obtain h where h: "load_receipts k (dr_tenant d0) now rs [] = Some h" "d = d0\<lparr>dr_history := h, dr_persists := True\<rparr>"
    "int (length rs) \<le> dr_limit d0"
    using assms(2) by (auto simp: set_persistence_def split: if_splits)
  then show ?thesis using load [OF h(1)] assms(1) by (auto simp: dir_ok_def new_directory_def split: if_splits)
qed

lemma dir_step_ok: "dir_step k now d d' \<Longrightarrow> dir_ok k d \<Longrightarrow> dir_ok k d'"
proof (induction rule: dir_step.induct)
  case (dstep_accept d ids now w x saved res log d')
  then show ?case using accepted_ok by (cases x) blast
next
  case (dstep_current ids now w d chain d')
  define d1 where "d1 = expire_dir now d"
  have ok1: "dir_ok k d1" using expire_dir_ok dstep_current(2) by (simp add: d1_def)
  have "d' = d1 \<or> (\<exists>e. map_of (dr_entries d1) (owner_key k w) = Some e
      \<and> d' = d1\<lparr>dr_entries := m_put (owner_key k w) (fst (current_entry k ids now (dr_high d1) e)) (dr_entries d1)\<rparr>)"
    using dstep_current(1) unfolding current_record_chain_def Let_def d1_def [symmetric]
    by (auto split: option.splits if_splits prod.splits)
  then show ?case
  proof (elim disjE exE conjE)
    fix e assume e: "map_of (dr_entries d1) (owner_key k w) = Some e"
      and d': "d' = d1\<lparr>dr_entries := m_put (owner_key k w) (fst (current_entry k ids now (dr_high d1) e)) (dr_entries d1)\<rparr>"
    have "receipted d1 (owner_key k w) e \<and> genuine k (dr_tenant d1) (owner_key k w) e"
      using ok1 e m_all_get unfolding dir_ok_def by fastforce
    then show ?thesis using put_same_ok [OF ok1 e] same_version_ok [OF current_same] d' by blast
  qed (simp add: ok1)
qed (auto simp: dir_snapshot_def dir_records_def route_authorizations_def Let_def intro!: sweep_ok expire_dir_ok)

lemma dir_reachable_ok: "dir_reachable k d \<Longrightarrow> dir_ok k d"
proof (induction rule: dir_reachable.induct)
  case (dreach_new tenant limit d)
  then show ?case by (auto simp: new_directory_def dir_ok_def split: if_splits)
qed (use set_persistence_ok dir_step_ok in blast)+

end
