(* ===== verification/Mesh_Directory_Runs.thy ===== *)
theory Mesh_Directory_Runs
  imports Mesh_Directory_Inv
begin

section \<open>The directory: replay protection and leases over runs\<close>

text \<open>
  What one operation does to the clock and the receipts; the lowest version of an owner that can still be accepted, which no
  operation lowers; what an entry that is shown must be; and the claims of route origins.
\<close>

subsection \<open>What one operation changes\<close>

lemma sweep_frame [simp]:
  "dr_high (sweep_current k ids now P d) = dr_high d" "dr_history (sweep_current k ids now P d) = dr_history d"
  "dr_tenant (sweep_current k ids now P d) = dr_tenant d" "dr_limit (sweep_current k ids now P d) = dr_limit d"
  "dr_persists (sweep_current k ids now P d) = dr_persists d"
  by (simp_all add: sweep_current_def)

lemma prune_frame [simp]:
  "dr_high (prune_entries now d) = dr_high d" "dr_history (prune_entries now d) = dr_history d"
  "dr_tenant (prune_entries now d) = dr_tenant d" "dr_limit (prune_entries now d) = dr_limit d"
  "dr_persists (prune_entries now d) = dr_persists d"
  by (simp_all add: prune_entries_def)

text \<open>The receipts either stay or become those still running and the one of the version stored.\<close>

lemma store_result:
  assumes "store_manifest k now saved owner m hash leaf w d = (res, log, d')"
  shows "(\<exists>e. res = Inl e) \<and> d' = d \<or> res = Inr True \<and> dr_high d' = dr_high d \<and> dr_tenant d' = dr_tenant d \<and> dr_limit d' = dr_limit d
    \<and> dr_persists d' = dr_persists d
    \<and> dr_history d' = m_put owner (receipt_for d owner m hash (map_of (keep_receipts now d) owner)) (keep_receipts now d)"
  using assms by (auto simp: store_manifest_def Let_def split: if_splits)

lemma receipt_for_high: "dr_high d = dr_high d' \<Longrightarrow> receipt_for d = receipt_for d'"
  by (intro ext) (simp add: receipt_for_def)

lemma step_history:
  assumes "dir_step k now d d'"
  shows "dr_high d' = max (dr_high d) (tm_wall now) \<and> dr_tenant d' = dr_tenant d \<and> dr_limit d' = dr_limit d \<and> dr_persists d' = dr_persists d
    \<and> (dr_history d' = dr_history d
       \<or> (\<exists>owner m hash ids w leaf. admit_manifest k (dr_tenant d) ids now w = Inr (owner, m, leaf) \<and> hash = content_hash k (sm_body w)
            \<and> receipt_refuses now m hash (map_of (dr_history d) owner) = None
            \<and> dr_history d' = m_put owner (receipt_for d' owner m hash (map_of (keep_receipts now d) owner)) (keep_receipts now d)))"
  using assms
proof (induction rule: dir_step.induct)
  case (dstep_accept d ids now w x saved res log d')
  obtain owner m leaf where x: "x = (owner, m, leaf)" by (rule prod_cases3)
  define d2 where "d2 = prune_entries now (expire_dir now d)"
  have f: "dr_history d2 = dr_history d" "dr_high d2 = max (dr_high d) (tm_wall now)" "keep_receipts now d2 = keep_receipts now d"
    "dr_tenant d2 = dr_tenant d" "dr_limit d2 = dr_limit d" "dr_persists d2 = dr_persists d"
    by (simp_all add: d2_def keep_receipts_def)
  show ?case
    using dstep_accept(1)[unfolded x] dstep_accept(2) d2_def
  proof (cases rule: accept_cases)
    case stored
    let ?P = "\<lambda>d'. dr_history d' = m_put owner (receipt_for d' owner m (content_hash k (sm_body w)) (map_of (keep_receipts now d) owner))
      (keep_receipts now d)"
    have "d' = d2 \<or> ?P d' \<and> dr_high d' = dr_high d2 \<and> dr_tenant d' = dr_tenant d2 \<and> dr_limit d' = dr_limit d2 \<and> dr_persists d' = dr_persists d2"
      using store_result [OF stored(1)] receipt_for_high [of d2 d'] f(3) by (elim disjE conjE) auto
    moreover have "\<exists>owner m hash ids w leaf. admit_manifest k (dr_tenant d) ids now w = Inr (owner, m, leaf) \<and> hash = content_hash k (sm_body w)
        \<and> receipt_refuses now m hash (map_of (dr_history d) owner) = None
        \<and> dr_history d' = m_put owner (receipt_for d' owner m hash (map_of (keep_receipts now d) owner)) (keep_receipts now d)" if "?P d'"
      using dstep_accept(1)[unfolded x] stored(3)[unfolded f] that by blast
    ultimately show ?thesis using f by presburger
  qed (use f in auto)
next
  case (dstep_current ids now w d chain d')
  then show ?case by (auto simp: current_record_chain_def Let_def split: option.splits if_splits prod.splits)
qed (auto simp: dir_snapshot_def dir_records_def route_authorizations_def Let_def)

subsection \<open>Floors\<close>

text \<open>
  A revision of an owner is a floor until \<open>x\<close>: either the clock has passed \<open>x\<close>, or a receipt that runs until then names this
  revision with this body or a later one.
\<close>

definition floored :: "directory \<Rightarrow> string \<Rightarrow> u64 \<Rightarrow> string \<Rightarrow> int \<Rightarrow> bool" where
  "floored d owner vsn hash x \<longleftrightarrow> x \<le> dr_high d
     \<or> (\<exists>r. map_of (dr_history d) owner = Some r \<and> (vsn < rc_revision r \<or> vsn = rc_revision r \<and> rc_hash r = hash)
          \<and> x \<le> rc_until r \<and> x \<le> dr_high d + manifest_lease_max + clock_skew)"

lemma kept_receipt:
  assumes "dir_ok k d"
  shows "map_of (keep_receipts now d) o' = (case map_of (dr_history d) o' of None \<Rightarrow> None
    | Some r \<Rightarrow> if tm_wall now < rc_until r then Some r else None)"
  using map_of_filter_ok [OF m_ok_entries(2) [OF assms], of "\<lambda>(o', r). tm_wall now < rc_until r" o']
  by (simp add: keep_receipts_def split: option.splits)

lemma floored_step:
  assumes ok: "dir_ok k d" and st: "dir_step k now d d'" and fl: "floored d owner vsn hash x"
  shows "floored d' owner vsn hash x"
proof (cases "x \<le> dr_high d'")
  case False
  have h: "dr_high d' = max (dr_high d) (tm_wall now)" using step_history [OF st] by simp
  then obtain r where r: "map_of (dr_history d) owner = Some r" "vsn < rc_revision r \<or> vsn = rc_revision r \<and> rc_hash r = hash"
    "x \<le> rc_until r" "x \<le> dr_high d + manifest_lease_max + clock_skew"
    using fl False by (auto simp: floored_def)
  have late: "tm_wall now < rc_until r" using r(3) False h by simp
  have x': "x \<le> dr_high d' + manifest_lease_max + clock_skew" using r(4) h by simp
  consider "dr_history d' = dr_history d"
    | o1 m h1 where "receipt_refuses now m h1 (map_of (dr_history d) o1) = None"
      "dr_history d' = m_put o1 (receipt_for d' o1 m h1 (map_of (keep_receipts now d) o1)) (keep_receipts now d)"
    using step_history [OF st] by blast
  then show ?thesis
  proof cases
    case 1
    then show ?thesis using r x' by (auto simp: floored_def)
  next
    case 2
    have kept: "map_of (keep_receipts now d) owner = Some r" using kept_receipt [OF ok] r(1) late by simp
    show ?thesis
    proof (cases "o1 = owner")
      case False
      then show ?thesis using 2(2) kept r x' by (auto simp: floored_def)
    next
      case True
      have ref: "\<not> mf_revision m < rc_revision r" "mf_revision m = rc_revision r \<Longrightarrow> h1 = rc_hash r"
        using 2(1) r(1) late True by (auto simp: receipt_refuses_def split: if_splits)
      define r' where "r' = receipt_for d' owner m h1 (Some r)"
      have "map_of (dr_history d') owner = Some r'" using 2(2) kept True by (simp add: r'_def)
      moreover have "(vsn < rc_revision r' \<or> vsn = rc_revision r' \<and> rc_hash r' = hash) \<and> x \<le> rc_until r'"
        using r(2,3) ref x' unfolding r'_def receipt_for_def Let_def by (cases "rc_revision r = mf_revision m") auto
      ultimately show ?thesis using x' by (auto simp: floored_def)
    qed
  qed
qed (simp add: floored_def)

lemma floored_runs: "dir_runs k d d' \<Longrightarrow> dir_ok k d \<Longrightarrow> floored d owner vsn hash x \<Longrightarrow> floored d' owner vsn hash x \<and> dir_ok k d'"
  by (induction rule: dir_runs.induct) (auto intro: floored_step dir_step_ok)

lemma floored_refuses:
  assumes ok: "dir_ok k d" and fl: "floored d owner vsn hash x"
    and adm: "admit_manifest k (dr_tenant d) ids now w = Inr (owner, m, leaf)"
    and old: "mf_revision m < vsn \<or> mf_revision m = vsn \<and> content_hash k (sm_body w) \<noteq> hash"
    and x: "ms_time (mf_expires m) \<le> x"
    and acc: "accept_manifest k ids now saved w d = (res, log, d')"
  shows "\<exists>e. res = Inl e"
proof -
  define d2 where "d2 = prune_entries now (expire_dir now d)"
  have f: "dr_history d2 = dr_history d" by (simp add: d2_def)
  have no: "receipt_refuses now m (content_hash k (sm_body w)) (map_of (dr_history d) owner) \<noteq> None"
    if "\<not> ms_time (mf_expires m) \<le> max (dr_high d) (tm_wall now)"
  proof -
    have "\<not> x \<le> dr_high d" using that x by linarith
    then obtain r where r: "map_of (dr_history d) owner = Some r" "vsn < rc_revision r \<or> vsn = rc_revision r \<and> rc_hash r = hash" "x \<le> rc_until r"
      using fl by (auto simp: floored_def)
    have "tm_wall now < rc_until r" using that r(3) x by simp
    then show ?thesis using r(1,2) old by (auto simp: receipt_refuses_def)
  qed
  show ?thesis
    using adm acc d2_def
  proof (cases rule: accept_cases)
    case (renewed old' e')

    have ok2: "dir_ok k d2" using expire_dir_ok [OF ok] prune_ok by (simp add: d2_def)
    then have "receipted d2 owner old'" using renewed(1) m_all_get unfolding dir_ok_def by fastforce
    then obtain r where r: "map_of (dr_history d) owner = Some r" "rc_revision r = mf_revision m" "rc_hash r = content_hash k (sm_body w)"
      "rc_until r = en_retain old'"
      using f renewed(2,3) by (auto simp: receipted_def)
    have "\<not> (vsn < rc_revision r \<or> vsn = rc_revision r \<and> rc_hash r = hash)" using old r by auto
    then have dead: "x \<le> dr_high d" using fl r(1) by (auto simp: floored_def)
    have "(if \<not> dr_high (expire_dir now d) < ms_time (mf_expires m) then res = Inl (BadManifest ExpiredManifest) else True)"
      using acc unfolding accept_manifest_def adm sum.case prod.case Let_def by (auto split: if_splits)
    then show ?thesis using dead x by auto
  next
    case stored
    then show ?thesis using no f by (simp add: not_le)
  qed auto
qed

text \<open>An entry is a floor until it is forgotten.\<close>

lemma entry_floored:
  assumes "dir_ok k d" "map_of (dr_entries d) owner = Some e" "x \<le> en_retain e" "x \<le> dr_high d + manifest_lease_max + clock_skew"
  shows "floored d owner (mf_revision (en_manifest e)) (en_hash e) x"
proof -
  have "receipted d owner e" using assms(1,2) m_all_get unfolding dir_ok_def by fastforce
  then show ?thesis using assms(3,4) by (auto simp: receipted_def floored_def)
qed

subsection \<open>Leases\<close>

lemma high_ops: "dir_ops k d d' \<Longrightarrow> dr_high d \<le> dr_high d'"
proof (induction rule: dir_ops.induct)
  case (dops_step d d' now d'')
  then show ?case using step_history by fastforce
next
  case (dops_load d d' receipts now d'')
  then show ?case by (auto simp: set_persistence_def split: if_splits)
qed simp

lemma shown_current:
  assumes "e \<in> set (shown k ids now P d)"
  shows "dr_high d < ms_time (mf_expires (en_manifest e))" "tm_wall now < ms_time (mf_expires (en_manifest e))" "P e"
    "tm_before now (en_active e)" "\<exists>o'. (o', e) \<in> set (dr_entries d)"
    "\<exists>chain dev until. ids (sm_principal (en_wire e)) (en_manifest e) = Some (chain, dev, until)
       \<and> ms_time (mf_expires (en_manifest e)) \<le> until"
proof -
  have c: "snd (current_entry k ids now (dr_high d) e) \<noteq> None" and "P e" "\<exists>o'. (o', e) \<in> set (dr_entries d)"
    using assms by (auto simp: shown_def)
  then show "P e" "\<exists>o'. (o', e) \<in> set (dr_entries d)" by simp_all
  have l: "\<not> (en_expired e \<or> \<not> tm_before now (en_active e) \<or> \<not> tm_wall now < ms_time (mf_expires (en_manifest e))
      \<or> \<not> dr_high d < ms_time (mf_expires (en_manifest e)))"
    using c unfolding current_entry_def Let_def by (auto split: if_splits)
  then show "dr_high d < ms_time (mf_expires (en_manifest e))" "tm_wall now < ms_time (mf_expires (en_manifest e))"
    "tm_before now (en_active e)" by simp_all
  show "\<exists>chain dev until. ids (sm_principal (en_wire e)) (en_manifest e) = Some (chain, dev, until)
       \<and> ms_time (mf_expires (en_manifest e)) \<le> until"
  proof (cases "ids (sm_principal (en_wire e)) (en_manifest e)")
    case None
    then show ?thesis using c l by (simp add: current_entry_def Let_def)
  next
    case (Some x)
    obtain chain dev until where x: "x = (chain, dev, until)" by (rule prod_cases3)
    have "\<not> until < ms_time (mf_expires (en_manifest e))" using c l Some x by (auto simp: current_entry_def Let_def split: if_splits)
    then show ?thesis using Some x by auto
  qed
qed

subsection \<open>Origins\<close>

text \<open>The route a verified manifest claims, and for whom.\<close>

definition origin_claim :: "dir_codec \<Rightarrow> bytes option \<Rightarrow> manifest \<Rightarrow> (route_origin \<times> string) option" where
  "origin_claim k tenant m = (case mf_route m of
     None \<Rightarrow> None
   | Some r \<Rightarrow>
       if mf_withdraw m \<or> mf_version m \<noteq> 4 then None
       else (case manifest_peer (dk_text k) (dk_url_ok k) tenant m of
           None \<Rightarrow> None
         | Some dev \<Rightarrow> if \<not> dv_valid dev \<or> \<not> route_valid (dk_sha k) m dev then None else Some (r, dir_key k dev)))"

definition record_claim :: "route_origin \<times> string \<Rightarrow> origin_claims \<Rightarrow> origin_claims" where
  "record_claim ro c = (let (r, owner) = ro;
     clash = (case oc_prefixes c (ro_prefix r) of None \<Rightarrow> {} | Some o' \<Rightarrow> if o' \<noteq> owner then {o', owner} else {}) in
     c\<lparr>oc_conflicts := oc_conflicts c \<union> clash, oc_prefixes := (oc_prefixes c)(ro_prefix r \<mapsto> owner), oc_owners := (oc_owners c)(r \<mapsto> owner)\<rparr>)"

lemma claim_origin_eq: "claim_origin k tenant m c = (case origin_claim k tenant m of None \<Rightarrow> c | Some ro \<Rightarrow> record_claim ro c)"
  by (auto simp: claim_origin_def origin_claim_def record_claim_def Let_def split: option.splits)

lemma fold_claims:
  "fold (claim_origin k tenant) ms c = fold record_claim (List.map_filter (origin_claim k tenant) ms) c"
  by (induction ms arbitrary: c) (auto simp: claim_origin_eq List.map_filter_simps split: option.splits)

definition clashing :: "(route_origin \<times> string) list \<Rightarrow> string set" where
  "clashing xs = {o1. \<exists>r1 r2 o2. (r1, o1) \<in> set xs \<and> (r2, o2) \<in> set xs \<and> ro_prefix r1 = ro_prefix r2 \<and> o1 \<noteq> o2}"

lemma clashingI: "(r1, o1) \<in> set xs \<Longrightarrow> (r2, o2) \<in> set xs \<Longrightarrow> ro_prefix r1 = ro_prefix r2 \<Longrightarrow> o1 \<noteq> o2 \<Longrightarrow> o1 \<in> clashing xs"
  unfolding clashing_def by blast

lemma clashing_snoc:
  "o1 \<in> clashing (xs @ [(r, owner)]) \<longleftrightarrow> o1 \<in> clashing xs
     \<or> (\<exists>r0 o2. (r0, o2) \<in> set xs \<and> ro_prefix r0 = ro_prefix r \<and> o2 \<noteq> owner \<and> (o1 = o2 \<or> o1 = owner))"
  (is "?l \<longleftrightarrow> ?a \<or> ?b")
proof
  assume ?l
  then obtain r1 r2 o2 where 1: "(r1, o1) \<in> set xs \<or> r1 = r \<and> o1 = owner" "(r2, o2) \<in> set xs \<or> r2 = r \<and> o2 = owner"
    "ro_prefix r1 = ro_prefix r2" "o1 \<noteq> o2"
    unfolding clashing_def by auto
  show "?a \<or> ?b"
  proof (cases "(r1, o1) \<in> set xs")
    case True
    then show ?thesis using 1 clashingI [OF True, of r2 o2] by blast
  next
    case False
    then have "r1 = r" "o1 = owner" "(r2, o2) \<in> set xs" using 1 by auto
    then show ?thesis using 1(3,4) by metis
  qed
next
  assume "?a \<or> ?b"
  then show ?l
  proof
    assume ?a
    then show ?l unfolding clashing_def by auto
  next
    assume ?b
    then obtain r0 o2 where b: "(r0, o2) \<in> set xs" "ro_prefix r0 = ro_prefix r" "o2 \<noteq> owner" "o1 = o2 \<or> o1 = owner" by blast
    have in_xs: "(r0, o2) \<in> set (xs @ [(r, owner)])" "(r, owner) \<in> set (xs @ [(r, owner)])" using b(1) by simp_all
    have "o2 \<in> clashing (xs @ [(r, owner)])" by (rule clashingI [OF in_xs b(2,3)])
    moreover have "owner \<in> clashing (xs @ [(r, owner)])" by (rule clashingI [OF in_xs(2,1) b(2)[symmetric] b(3)[symmetric]])
    ultimately show ?l using b(4) by (elim disjE) simp_all
  qed
qed

definition claims_ok :: "(route_origin \<times> string) list \<Rightarrow> origin_claims \<Rightarrow> bool" where
  "claims_ok xs c \<longleftrightarrow> (\<forall>r o'. oc_owners c r = Some o' \<longrightarrow> (r, o') \<in> set xs)
     \<and> (\<forall>(r, o') \<in> set xs. oc_owners c r \<noteq> None \<and> oc_prefixes c (ro_prefix r) \<noteq> None)
     \<and> (\<forall>p o'. oc_prefixes c p = Some o' \<longrightarrow> (\<exists>r. ro_prefix r = p \<and> (r, o') \<in> set xs))
     \<and> oc_conflicts c = clashing xs"

lemma claims_okD:
  assumes "claims_ok xs c"
  shows "oc_owners c r = Some o' \<Longrightarrow> (r, o') \<in> set xs" "(r, o') \<in> set xs \<Longrightarrow> \<exists>o1. oc_owners c r = Some o1"
    "(r, o') \<in> set xs \<Longrightarrow> \<exists>o1. oc_prefixes c (ro_prefix r) = Some o1"
    "oc_prefixes c p = Some o' \<Longrightarrow> \<exists>r. ro_prefix r = p \<and> (r, o') \<in> set xs" "oc_conflicts c = clashing xs"
  using assms unfolding claims_ok_def by (blast, fastforce, fastforce, blast, blast)

lemma recorded_conflicts:
  assumes ok: "claims_ok xs c"
  shows "clashing xs \<union> (case oc_prefixes c (ro_prefix r) of None \<Rightarrow> {} | Some o' \<Rightarrow> if o' \<noteq> owner then {o', owner} else {})
    = clashing (xs @ [(r, owner)])"
proof (cases "oc_prefixes c (ro_prefix r)")
  case None
  then have "ro_prefix r' \<noteq> ro_prefix r" if "(r', o') \<in> set xs" for r' o' using claims_okD(3) [OF ok that] by auto
  then have "o1 \<in> clashing (xs @ [(r, owner)]) \<longleftrightarrow> o1 \<in> clashing xs" for o1 unfolding clashing_snoc by blast
  then show ?thesis using None by auto
next
  case (Some o')
  obtain r0 where r0: "ro_prefix r0 = ro_prefix r" "(r0, o') \<in> set xs" using claims_okD(4) [OF ok Some] by blast
  show ?thesis
  proof (rule set_eqI)
    fix o1
    have "o1 \<in> clashing xs \<or> o' \<noteq> owner \<and> (o1 = o' \<or> o1 = owner)"
      if "(r1, o2) \<in> set xs" "ro_prefix r1 = ro_prefix r" "o2 \<noteq> owner" "o1 = o2 \<or> o1 = owner" for r1 o2
      using that clashingI [OF that(1) r0(2)] clashingI [OF r0(2) that(1)] r0(1) by auto
    then show "o1 \<in> clashing xs \<union> (case oc_prefixes c (ro_prefix r) of None \<Rightarrow> {} | Some o' \<Rightarrow> if o' \<noteq> owner then {o', owner} else {})
        \<longleftrightarrow> o1 \<in> clashing (xs @ [(r, owner)])"
      unfolding clashing_snoc using r0 Some by auto
  qed
qed

lemma recorded_ok: "claims_ok xs (fold record_claim xs no_claims)"
proof (induction xs rule: rev_induct)
  case (snoc x xs)
  obtain r owner where x: "x = (r, owner)" by (cases x)
  define c where "c = fold record_claim xs no_claims"
  have ok: "claims_ok xs c" using snoc by (simp add: c_def)
  have app: "fold record_claim (xs @ [x]) no_claims = c\<lparr>oc_conflicts := clashing (xs @ [x]),
      oc_prefixes := (oc_prefixes c)(ro_prefix r \<mapsto> owner), oc_owners := (oc_owners c)(r \<mapsto> owner)\<rparr>"
    using recorded_conflicts [OF ok, where r = r and owner = owner] claims_okD(5) [OF ok]
    by (simp add: c_def [symmetric] x record_claim_def Let_def)
  show ?case
    unfolding claims_ok_def app
  proof (intro conjI allI impI ballI)
    fix r' o'
    assume "oc_owners (c\<lparr>oc_conflicts := clashing (xs @ [x]), oc_prefixes := (oc_prefixes c)(ro_prefix r \<mapsto> owner),
      oc_owners := (oc_owners c)(r \<mapsto> owner)\<rparr>) r' = Some o'"
    then show "(r', o') \<in> set (xs @ [x])" using claims_okD(1) [OF ok] x by (auto split: if_splits)
  next
    fix y
    assume "y \<in> set (xs @ [x])"
    then show "case y of (r', o') \<Rightarrow> oc_owners (c\<lparr>oc_conflicts := clashing (xs @ [x]), oc_prefixes := (oc_prefixes c)(ro_prefix r \<mapsto> owner),
        oc_owners := (oc_owners c)(r \<mapsto> owner)\<rparr>) r' \<noteq> None
      \<and> oc_prefixes (c\<lparr>oc_conflicts := clashing (xs @ [x]), oc_prefixes := (oc_prefixes c)(ro_prefix r \<mapsto> owner),
        oc_owners := (oc_owners c)(r \<mapsto> owner)\<rparr>) (ro_prefix r') \<noteq> None"
      using claims_okD(2,3) [OF ok] x by fastforce
  next
    fix p o'
    assume "oc_prefixes (c\<lparr>oc_conflicts := clashing (xs @ [x]), oc_prefixes := (oc_prefixes c)(ro_prefix r \<mapsto> owner),
      oc_owners := (oc_owners c)(r \<mapsto> owner)\<rparr>) p = Some o'"
    then show "\<exists>r'. ro_prefix r' = p \<and> (r', o') \<in> set (xs @ [x])"
      using claims_okD(4) [OF ok, of p o'] x by (auto split: if_splits)
  qed simp
qed (simp add: claims_ok_def no_claims_def clashing_def)

lemma authorized_claims:
  "authorized_origins k tenant ms r \<longleftrightarrow> (\<exists>o'. (r, o') \<in> set (List.map_filter (origin_claim k tenant) ms)
     \<and> o' \<notin> clashing (List.map_filter (origin_claim k tenant) ms))"
proof -
  define xs where "xs = List.map_filter (origin_claim k tenant) ms"
  define c where "c = fold record_claim xs no_claims"
  have ok: "claims_ok xs c" by (simp add: c_def recorded_ok)
  have "authorized_origins k tenant ms r \<longleftrightarrow> (\<exists>o'. oc_owners c r = Some o' \<and> o' \<notin> clashing xs)"
    using claims_okD(5) [OF ok] by (simp add: authorized_origins_def fold_claims c_def xs_def Let_def split: option.splits)
  moreover have "\<exists>o'. oc_owners c r = Some o' \<and> o' \<notin> clashing xs" if "(r, o1) \<in> set xs" "o1 \<notin> clashing xs" for o1
  proof -
    have "\<exists>o'. oc_owners c r = Some o'" using claims_okD(2) [OF ok that(1)] .
    then obtain o' where o': "oc_owners c r = Some o'" by blast
    then have "o' = o1" using clashingI [OF that(1) claims_okD(1) [OF ok o']] that(2) by blast
    then show ?thesis using o' that(2) by blast
  qed
  ultimately show ?thesis using claims_okD(1) [OF ok] unfolding xs_def [symmetric] by blast
qed

end
