(* ===== verification/Mesh_Directory_Restart.thy ===== *)
theory Mesh_Directory_Restart
  imports Mesh_Directory_Runs
begin

section \<open>The directory: restarts\<close>

text \<open>What \<open>SetPersistence\<close> accepts, and that everything \<open>Accept\<close> hands to \<open>persist\<close> is of this kind.\<close>

definition dir_codec_ok :: "dir_codec \<Rightarrow> bool" where
  "dir_codec_ok k \<longleftrightarrow> uuid_text_ok (dk_text k) \<and> (\<forall>u. length u = 16 \<longrightarrow> length (tc_uuid (dk_text k) u) \<le> 36)
     \<and> (\<forall>s. dk_url_ok k s \<longrightarrow> CHR ''#'' \<notin> set s) \<and> (\<forall>b. length (dk_sha k b) = 32)
     \<and> (\<forall>b m. cl_manifest (dk_cbor k) b = Some m \<longrightarrow> length (mf_device m) = 16 \<and> (\<forall>o'. mf_owner m = Some o' \<longrightarrow> length (oo_instance o') = 16))"

lemma dir_codec_okD:
  assumes "dir_codec_ok k"
  shows "uuid_text_ok (dk_text k)" "length u = 16 \<Longrightarrow> length (tc_uuid (dk_text k) u) \<le> 36" "dk_url_ok k s \<Longrightarrow> CHR ''#'' \<notin> set s"
    "length (dk_sha k b) = 32" "decode_manifest (dk_cbor k) b = Inr m \<Longrightarrow> length (mf_device m) = 16"
    "decode_manifest (dk_cbor k) b = Inr m \<Longrightarrow> mf_owner m = Some o' \<Longrightarrow> length (oo_instance o') = 16"
  using assms decoded_manifest(3) [of "dk_cbor k" b m] unfolding dir_codec_ok_def by (blast, blast, blast, blast, metis+)

definition receipt_valid :: "dir_codec \<Rightarrow> bytes option \<Rightarrow> dir_receipt \<Rightarrow> bool" where
  "receipt_valid k tenant r \<longleftrightarrow> length (rc_device r) \<le> 1024 + 37 \<and> rc_revision r \<noteq> 0 \<and> length (rc_hash r) = 64
     \<and> (\<exists>d. peer_from_key (dk_text k) (dk_url_ok k) (rc_device r) = Some d \<and> dv_tenant d = tenant)"

definition reload :: "go_time \<Rightarrow> dir_receipt \<Rightarrow> (string, dir_receipt) gomap \<Rightarrow> (string, dir_receipt) gomap" where
  "reload now r h = (if tm_wall now < rc_until r then m_put (rc_device r) r h else h)"

lemma load_receipts_valid: "\<forall>r \<in> set rs. receipt_valid k tenant r \<Longrightarrow> load_receipts k tenant now rs h = Some (fold (reload now) rs h)"
  by (induction rs arbitrary: h) (auto simp: receipt_valid_def reload_def)

lemma loaded_valid:
  "load_receipts k tenant now rs h = Some h' \<Longrightarrow> \<forall>r \<in> set rs. receipt_valid k tenant r"
  by (induction rs arbitrary: h) (auto simp: receipt_valid_def split: if_splits option.splits)

lemma reload_ok: "m_all P h \<Longrightarrow> \<forall>r \<in> set rs. P (rc_device r) r \<Longrightarrow> m_all P (fold (reload now) rs h)"
  by (induction rs arbitrary: h) (auto simp: reload_def)

lemma reload_map:
  "m_all (\<lambda>o' r. rc_device r = o') m \<Longrightarrow> map_of (fold (reload now) (map snd m) h) o' = (case map_of m o' of
     None \<Rightarrow> map_of h o' | Some r \<Rightarrow> if tm_wall now < rc_until r then Some r else map_of h o')"
proof (induction m arbitrary: h)
  case (Cons e m)
  obtain a r where e: "e = (a, r)" by (cases e)
  have ok: "m_ok ((a, r) # m)" using Cons.prems by (simp add: m_all_def e)
  have m: "m_all (\<lambda>o' r. rc_device r = o') m" "rc_device r = a" "map_of m a = None"
    using Cons.prems ok m_ok_Cons_fresh [OF ok] by (auto simp: m_all_def m_ok_Cons e)
  show ?case using Cons.IH [OF m(1)] m(2,3) by (auto simp: e reload_def split: option.splits)
qed simp

lemma reload_m_ok: "m_ok h \<Longrightarrow> m_ok (fold (reload now) rs h)"
  by (induction rs arbitrary: h) (auto simp: reload_def)

lemma reloaded:
  assumes "m_all (\<lambda>o' r. rc_device r = o') (dr_history d)"
  shows "fold (reload now) (map snd (dr_history d)) [] = keep_receipts now d"
proof (rule m_ok_ext)
  have m: "m_ok (dr_history d)" by (rule m_all_m_ok [OF assms])
  show "map_of (fold (reload now) (map snd (dr_history d)) []) = map_of (keep_receipts now d)"
    using map_of_filter_ok [OF m, of "\<lambda>(o', r). tm_wall now < rc_until r"]
    by (auto simp: fun_eq_iff reload_map [OF assms] keep_receipts_def split: option.splits)
  show "m_ok (fold (reload now) (map snd (dr_history d)) [])" by (rule reload_m_ok) (simp add: m_ok_def)
  show "m_ok (keep_receipts now d)" using m by (simp add: keep_receipts_def m_ok_filter)
qed

text \<open>Receipts lie in the order of their keys, the order in which \<open>Accept\<close> writes them.\<close>

lemma receipts_sorted:
  assumes "m_all (\<lambda>o' r. rc_device r = o') h"
  shows "sort_key rc_device (map snd h) = map snd h"
proof -
  have "map rc_device (map snd h) = map fst h" using assms by (auto simp: m_all_def)
  then have "sorted (map rc_device (map snd h))" using m_all_m_ok [OF assms] unfolding m_ok_def strict_sorted_iff by metis
  then show ?thesis by (rule sort_key_id_if_sorted)
qed

subsection \<open>Receipts of admitted manifests\<close>

lemma admitted_keyed:
  assumes ok: "dir_codec_ok k" and dec: "decode_manifest (dk_cbor k) b = Inr m" and dev: "manifest_peer (dk_text k) (dk_url_ok k) tenant m = Some dev"
    and i: "peer_from_principal (dk_text k) (dk_url_ok k) s = Some i" "dv_tenant i = tenant"
  shows "keyed (dk_text k) (dk_url_ok k) dev \<and> dv_tenant dev = tenant"
proof (cases "mf_owner m")
  case None
  obtain t where "tenant = Some t" "length t = 16"
    using i peer_from_principal_iff [OF dir_codec_okD(1) [OF ok]] device_from_principal_iff [OF dir_codec_okD(1) [OF ok]] by fastforce
  then show ?thesis using dev None dir_codec_okD(5) [OF ok dec] by (auto simp: manifest_peer_def new_device_def keyed_def)
next
  case (Some o')
  then obtain p where p: "peer_from_principal (dk_text k) (dk_url_ok k) (oo_principal o') = Some p" "is_operator p" "dv_tenant p = tenant"
    "with_instance p (oo_instance o') = Some dev"
    using dev by (auto simp: manifest_peer_def split: option.splits if_splits)
  have "device_from_principal (dk_text k) (oo_principal o') \<noteq> Some p"
    using p(2) device_from_principal_iff [OF dir_codec_okD(1) [OF ok]] by (auto simp: is_operator_def)
  then obtain t where t: "length t = 16" "operator_text (dk_text k) (dk_url_ok k) t (oo_principal o')"
    "p = Device (Some t) nil_uuid (oo_principal o')"
    using p(1) peer_from_principal_iff [OF dir_codec_okD(1) [OF ok]] by blast
  then show ?thesis using p(3,4) dir_codec_okD(6) [OF ok dec Some] by (auto simp: with_instance_def keyed_def split: if_splits)
qed

lemma length_hex_bytes [simp]: "length (hex_bytes bs) = 2 * length bs"
  by (induction bs) (simp_all add: hex_bytes_def)

lemma admitted_receipt:
  assumes ok: "dir_codec_ok k" and adm: "admit_manifest k tenant ids now w = Inr (owner, m, leaf)"
  shows "receipt_valid k tenant \<lparr>rc_device = owner, rc_revision = mf_revision m, rc_hash = content_hash k (sm_body w), rc_until = u\<rparr>"
proof -
  obtain dev where dev: "manifest_peer (dk_text k) (dk_url_ok k) tenant m = Some dev" "dir_key k dev = owner" "dir_principal k dev = sm_principal w"
    using admitted(4) [OF adm] by blast
  have kd: "keyed (dk_text k) (dk_url_ok k) dev" "dv_tenant dev = tenant"
    using admitted_keyed [OF ok admitted(1) [OF adm] dev(1)] admitted(5) [OF adm] by blast+
  have "peer_from_key (dk_text k) (dk_url_ok k) owner = Some dev"
    using key_parses [OF dir_codec_okD(1) [OF ok] _ kd(1)] dir_codec_okD(3) [OF ok] dev(2) by (auto simp: dir_key_def)
  moreover have "length owner \<le> 1024 + 37"
  proof -
    have "length (tc_uuid (dk_text k) (dv_id dev)) \<le> 36" using kd(1) dir_codec_okD(2) [OF ok] by (auto simp: keyed_def)
    then show ?thesis using admitted(6) [OF adm] dev(2,3) by (auto simp: dir_key_def device_key_def dir_principal_def)
  qed
  ultimately show ?thesis
    using kd(2) accepted_lease(6) [OF admitted(2) [OF adm]] dir_codec_okD(4) [OF ok] by (auto simp: receipt_valid_def content_hash_def)
qed

definition receipts_ok :: "dir_codec \<Rightarrow> directory \<Rightarrow> bool" where
  "receipts_ok k d \<longleftrightarrow> m_all (\<lambda>o' r. rc_device r = o' \<and> receipt_valid k (dr_tenant d) r) (dr_history d)"

lemma step_receipts:
  assumes ok: "dir_codec_ok k" and st: "dir_step k now d d'" and r: "receipts_ok k d"
  shows "receipts_ok k d'"
proof -
  have f: "dr_tenant d' = dr_tenant d" using step_history [OF st] by simp
  have kept: "m_all (\<lambda>o' r. rc_device r = o' \<and> receipt_valid k (dr_tenant d) r) (keep_receipts now d)"
    using r by (auto simp: receipts_ok_def keep_receipts_def)
  consider "dr_history d' = dr_history d"
    | o1 m ids w leaf where "admit_manifest k (dr_tenant d) ids now w = Inr (o1, m, leaf)"
      "dr_history d' = m_put o1 (receipt_for d' o1 m (content_hash k (sm_body w)) (map_of (keep_receipts now d) o1)) (keep_receipts now d)"
    using step_history [OF st] by blast
  then show ?thesis
  proof cases
    case 1
    then show ?thesis using r f by (simp add: receipts_ok_def)
  next
    case 2
    let ?r = "receipt_for d' o1 m (content_hash k (sm_body w)) (map_of (keep_receipts now d) o1)"
    have "?r = \<lparr>rc_device = o1, rc_revision = mf_revision m, rc_hash = content_hash k (sm_body w), rc_until = dr_high d' + manifest_lease_max + clock_skew\<rparr>
        \<or> map_of (keep_receipts now d) o1 = Some ?r"
      by (auto simp: receipt_for_def Let_def split: option.splits)
    then have "rc_device ?r = o1 \<and> receipt_valid k (dr_tenant d) ?r"
      using admitted_receipt [OF ok 2(1)] m_all_get [OF kept] by fastforce
    then show ?thesis using kept f unfolding receipts_ok_def 2(2) by (simp add: m_all_put)
  qed
qed

lemma reachable_receipts: "dir_reachable k d \<Longrightarrow> dir_codec_ok k \<Longrightarrow> receipts_ok k d"
proof (induction rule: dir_reachable.induct)
  case (dreach_new tenant limit d)
  then show ?case by (auto simp: new_directory_def receipts_ok_def split: if_splits)
next
  case (dreach_load tenant limit d receipts now d')
  then obtain h where h: "load_receipts k (dr_tenant d) now receipts [] = Some h" "d' = d\<lparr>dr_history := h, dr_persists := True\<rparr>"
    by (auto simp: set_persistence_def split: if_splits)
  have v: "\<forall>r \<in> set receipts. receipt_valid k (dr_tenant d) r" by (rule loaded_valid [OF h(1)])
  then have "h = fold (reload now) receipts []" using load_receipts_valid h(1) by fastforce
  then show ?case using h(2) v reload_ok [of "\<lambda>o' r. rc_device r = o' \<and> receipt_valid k (dr_tenant d) r" "[]" receipts now]
    by (simp add: receipts_ok_def)
next
  case (dreach_step d now d')
  then show ?case using step_receipts by blast
qed

end
