(* ===== verification/Mesh_Directory_Sign.thy ===== *)
theory Mesh_Directory_Sign
  imports Mesh_Directory_Runs
begin

section \<open>The directory: signatures\<close>

text \<open>How a node signs its own manifest, what the signed bytes determine, and that no answer rests on a stale check.\<close>

subsection \<open>Signing (SignManifest)\<close>

text \<open>
  What \<open>SignManifest\<close> uses of its environment: the CBOR form of a manifest, the principal a certificate carries (\<open>None\<close> when it
  does not parse or has none), SHA-256 of a certificate and the signer with the options of its key.
\<close>

record sign_env =
  sg_marshal :: "manifest \<Rightarrow> bytes option"
  sg_principal :: "bytes \<Rightarrow> string option"
  sg_sign :: "(bytes \<Rightarrow> bytes option) option"

datatype sign_error = UnsupportedTransport | RefusedManifest manifest_error | NoSigner | NoIdentity | WrongIdentity | WrongRoute | NoBody
  | OversizedBody | SigningFailed

text \<open>The manifest that is signed: the hashes of the operator's own chain, sorted names.\<close>

definition prepare_manifest :: "dir_codec \<Rightarrow> bytes list \<Rightarrow> manifest \<Rightarrow> manifest" where
  "prepare_manifest k chain m =
     m\<lparr>mf_owner := map_option (\<lambda>o'. o'\<lparr>oo_hashes := map (dk_sha k) chain\<rparr>) (mf_owner m),
       mf_caps := sort (mf_caps m), mf_requires := sort (mf_requires m)\<rparr>"

definition sign_manifest :: "dir_codec \<Rightarrow> sign_env \<Rightarrow> manifest \<Rightarrow> bytes list \<Rightarrow> go_time \<Rightarrow> sign_error + signed_manifest" where
  "sign_manifest k g m chain now =
     (if mf_transport m \<noteq> '''' \<and> mf_transport m \<noteq> ''mtls-v1'' then Inl UnsupportedTransport
      else
        (let m = prepare_manifest k chain m in
         case manifest_invalid m (tm_wall now) of Some e \<Rightarrow> Inl (RefusedManifest e)
         | None \<Rightarrow> (case (sg_sign g, chain) of
             (None, _) \<Rightarrow> Inl NoSigner
           | (_, []) \<Rightarrow> Inl NoSigner
           | (Some sign, leaf # _) \<Rightarrow>
               (case Option.bind (sg_principal g leaf) (peer_from_principal (dk_text k) (dk_url_ok k)) of
                 None \<Rightarrow> Inl NoIdentity
               | Some identity \<Rightarrow> (case manifest_peer (dk_text k) (dk_url_ok k) (dv_tenant identity) m of
                   None \<Rightarrow> Inl WrongIdentity
                 | Some dev \<Rightarrow>
                     if dir_principal k dev \<noteq> dir_principal k identity then Inl WrongIdentity
                     else if \<not> route_valid (dk_sha k) m dev then Inl WrongRoute
                     else (case sg_marshal g m of
                         None \<Rightarrow> Inl NoBody
                       | Some body \<Rightarrow>
                           if 32768 < length body then Inl OversizedBody
                           else (case sign (signing_input (dir_principal k dev) body) of
                               None \<Rightarrow> Inl SigningFailed
                             | Some sig \<Rightarrow> Inr \<lparr>sm_principal = dir_principal k dev, sm_body = body, sm_signature = sig\<rparr>)))))))"

lemma signed_manifest:
  assumes "sign_manifest k g m chain now = Inr w"
  obtains identity s dev sign where "manifest_invalid (prepare_manifest k chain m) (tm_wall now) = None" "chain \<noteq> []" "sg_sign g = Some sign"
    "sg_principal g (hd chain) = Some s" "peer_from_principal (dk_text k) (dk_url_ok k) s = Some identity"
    "manifest_peer (dk_text k) (dk_url_ok k) (dv_tenant identity) (prepare_manifest k chain m) = Some dev"
    "dir_principal k dev = dir_principal k identity" "route_valid (dk_sha k) (prepare_manifest k chain m) dev"
    "sg_marshal g (prepare_manifest k chain m) = Some (sm_body w)" "length (sm_body w) \<le> 32768"
    "sign (signing_input (sm_principal w) (sm_body w)) = Some (sm_signature w)" "sm_principal w = dir_principal k dev"
proof -
  obtain leaf rest where c: "chain = leaf # rest"
    using assms by (cases chain) (auto simp: sign_manifest_def Let_def split: if_splits option.splits)
  then show thesis
    using assms that by (auto simp: sign_manifest_def Let_def bind_eq_Some_conv split: if_splits option.splits)
qed

text \<open>A principal that parses prints as itself, and a valid manifest stays valid until its lease ends.\<close>

lemma parsed_principal:
  assumes tc: "uuid_text_ok (dk_text k)" and len: "\<And>u. length u = 16 \<Longrightarrow> length (tc_uuid (dk_text k) u) \<le> 36"
    and p: "peer_from_principal (dk_text k) (dk_url_ok k) s = Some i"
  shows "dir_principal k i = s \<and> s \<noteq> '''' \<and> length s \<le> 1024"
proof -
  consider t u where "i = Device (Some t) u []" "length t = 16" "length u = 16" "s = device_spiffe_uri (tc_uuid (dk_text k) t) (tc_uuid (dk_text k) u)"
    | t where "operator_text (dk_text k) (dk_url_ok k) t s" "i = Device (Some t) nil_uuid s"
    using p peer_from_principal_iff [OF tc] device_from_principal_iff [OF tc] by blast
  then show ?thesis
  proof cases
    case 1
    then show ?thesis using len [of t] len [of u]
      by (simp add: dir_principal_def peer_principal_def dv_valid_def is_operator_def tenant_text_def device_spiffe_uri_def)
  next
    case 2
    then show ?thesis using operator_text_nonempty [OF 2(1)]
      by (auto simp: dir_principal_def peer_principal_def dv_valid_def is_operator_def operator_text_def)
  qed
qed

lemma valid_until_expiry:
  "manifest_invalid m now = None \<Longrightarrow> now \<le> later \<Longrightarrow> later < ms_time (mf_expires m) \<Longrightarrow> manifest_invalid m later = None"
  by (auto simp: manifest_invalid_def first_error_def lease_bad_def split: if_splits option.splits)

lemma of_char_byte_inject: "(of_char c :: byte) = of_char d \<longleftrightarrow> c = d"
proof
  assume "(of_char c :: byte) = of_char d"
  then have "(of_nat (of_char c) :: byte) = of_nat (of_char d)" by (simp add: of_nat_of_char)
  then have "unat (of_nat (of_char c) :: byte) = unat (of_nat (of_char d) :: byte)" by (rule arg_cong)
  then have "(of_char c :: nat) mod 256 = of_char d mod 256" by (simp only: unat_of_nat) simp
  then show "c = d" by simp
qed simp

text \<open>The signed bytes determine the principal and the body.\<close>

lemma signing_input_inject:
  assumes "signing_input s b = signing_input s' b'" "length s < 2 ^ 32" "length s' < 2 ^ 32"
  shows "s = s' \<and> b = b'"
proof -
  have w: "be_bytes 4 (word_of_nat (length s) :: u32) = be_bytes 4 (word_of_nat (length s') :: u32)"
    and r: "map of_char s @ b = (map of_char s' :: bytes) @ b'"
    using assms(1) by (auto simp: signing_input_def append_eq_append_conv)
  have "(be_val (be_bytes 4 (word_of_nat (length s) :: u32)) :: u32) = be_val (be_bytes 4 (word_of_nat (length s') :: u32))"
    unfolding w ..
  then have "(word_of_nat (length s) :: u32) = word_of_nat (length s')" by (simp add: be_simps)
  then have "unat (word_of_nat (length s) :: u32) = unat (word_of_nat (length s') :: u32)" by simp
  then have "length s = length s'" using assms(2,3) by (simp add: unat_of_nat take_bit_nat_eq_self)
  then have "(map of_char s :: bytes) = map of_char s' \<and> b = b'" using r by (simp add: append_eq_append_conv)
  moreover have "inj (of_char :: char \<Rightarrow> byte)" by (rule injI) (simp add: of_char_byte_inject)
  ultimately show ?thesis by (simp add: inj_map_eq_map)
qed

subsection \<open>The signature memo\<close>

text \<open>The memo of an entry is the result of a check of its own signature, under a certificate with the hash it holds.\<close>

definition memo_ok :: "dir_codec \<Rightarrow> dir_entry \<Rightarrow> bool" where
  "memo_ok k e \<longleftrightarrow> (\<exists>leaf. en_leaf e = content_hash k leaf \<and> en_valid e = signature_valid k (en_wire e) leaf)"

lemma memo_binding: "memo_ok k e \<Longrightarrow> memo_ok k (binding_matches (content_hash k leaf) (signature_valid k (en_wire e) leaf) e)"
  by (auto simp: memo_ok_def binding_matches_def)

lemma memo_current: "memo_ok k e \<Longrightarrow> memo_ok k (fst (current_entry k ids now high e))"
  by (auto simp: current_entry_def Let_def memo_binding split: option.splits prod.splits)

definition memos_ok :: "dir_codec \<Rightarrow> directory \<Rightarrow> bool" where
  "memos_ok k d \<longleftrightarrow> m_all (\<lambda>o' e. memo_ok k e) (dr_entries d)"

lemma memos_expire: "memos_ok k d \<Longrightarrow> memos_ok k (expire_dir now d)"
  unfolding memos_ok_def expire_dir_def Let_def by (auto simp: memo_ok_def elim!: m_all_adj)

lemma memos_sweep: "memos_ok k d \<Longrightarrow> memos_ok k (sweep_current k ids now P d)"
  unfolding memos_ok_def sweep_current_def by (auto simp: memo_current elim!: m_all_adj)

lemma memos_prune: "memos_ok k d \<Longrightarrow> memos_ok k (prune_entries now d)"
  unfolding memos_ok_def prune_entries_def by (auto intro: m_all_filter)

lemma memos_put: "memos_ok k d \<Longrightarrow> memo_ok k e \<Longrightarrow> memos_ok k (d\<lparr>dr_entries := m_put owner e (dr_entries d)\<rparr>)"
  by (simp add: memos_ok_def m_all_put)

lemma memos_get: "memos_ok k d \<Longrightarrow> map_of (dr_entries d) owner = Some e \<Longrightarrow> memo_ok k e"
  unfolding memos_ok_def by (drule m_all_get)

lemma memos_store:
  assumes "memos_ok k d" "signature_valid k w leaf" "store_manifest k now saved owner m hash leaf w d = (res, log, d')"
  shows "memos_ok k d'"
proof -
  have "d' = d \<or> (\<exists>h e. d' = d\<lparr>dr_history := h, dr_entries := m_put owner e (dr_entries d)\<rparr> \<and> en_wire e = w
      \<and> en_leaf e = content_hash k leaf \<and> en_valid e)"
    using assms(3) by (fastforce simp: store_manifest_def Let_def split: if_splits)
  then show ?thesis using assms(1,2) by (auto simp: memos_ok_def memo_ok_def intro!: m_all_put)
qed

lemma memos_accept:
  assumes ok: "memos_ok k d" and adm: "admit_manifest k (dr_tenant d) ids now w = Inr (owner, m, leaf)"
    and acc: "accept_manifest k ids now saved w d = (res, log, d')"
  shows "memos_ok k d'"
proof -
  define d1 where "d1 = expire_dir now d"
  define d2 where "d2 = prune_entries now d1"
  have sig: "signature_valid k w leaf" using adm by (auto simp: admit_manifest_def split: if_splits option.splits sum.splits)
  have ok1: "memos_ok k d1" using memos_expire [OF ok] by (simp add: d1_def)
  have ok2: "memos_ok k d2" using memos_prune [OF ok1] by (simp add: d2_def)
  have put: "memos_ok k (d2\<lparr>dr_entries := m_put owner e (dr_entries d2)\<rparr>)" if "memo_ok k e" for e using memos_put [OF ok2 that] .
  have renew: "memo_ok k (e\<lparr>en_wire := w, en_leaf := content_hash k leaf, en_valid := True\<rparr>)" for e using sig by (auto simp: memo_ok_def)
  have bound: "memo_ok k (binding_matches (content_hash k leaf) (signature_valid k (en_wire old) leaf) old)"
    if "map_of (dr_entries d2) owner = Some old" for old using memo_binding memos_get [OF ok2 that] by blast
  show ?thesis
    using acc ok1 ok2 memos_store [OF ok2 sig] put renew bound
    unfolding accept_manifest_def adm sum.case prod.case Let_def d1_def [symmetric] d2_def [symmetric]
    by (auto split: if_splits option.splits)
qed

lemma memos_step: "dir_step k now d d' \<Longrightarrow> memos_ok k d \<Longrightarrow> memos_ok k d'"
proof (induction rule: dir_step.induct)
  case (dstep_accept d ids now w x saved res log d')
  then show ?case using memos_accept by (cases x) blast
next
  case (dstep_current ids now w d chain d')
  have ok1: "memos_ok k (expire_dir now d)" using memos_expire dstep_current(2) .
  show ?case
    using dstep_current(1) ok1 memos_put [OF ok1] memo_current memos_get [OF ok1] unfolding current_record_chain_def Let_def
    by (auto split: option.splits if_splits prod.splits) (metis fst_conv)
qed (auto simp: dir_snapshot_def dir_records_def route_authorizations_def Let_def intro!: memos_sweep memos_expire)

lemma memos_reachable: "dir_reachable k d \<Longrightarrow> memos_ok k d"
  by (induction rule: dir_reachable.induct)
    (auto simp: new_directory_def set_persistence_def memos_ok_def intro: memos_step [unfolded memos_ok_def] split: if_splits)

text \<open>Who vouches for what is exported now.\<close>

definition vouched :: "dir_codec \<Rightarrow> identities \<Rightarrow> go_time \<Rightarrow> signed_manifest \<Rightarrow> manifest \<Rightarrow> bool" where
  "vouched k ids now w m \<longleftrightarrow> (\<exists>chain dev until leaf. ids (sm_principal w) m = Some (chain, dev, until) \<and> dir_principal k dev = sm_principal w
     \<and> tm_wall now < ms_time (mf_expires m) \<and> ms_time (mf_expires m) \<le> until
     \<and> content_hash k leaf = content_hash k (hd chain) \<and> signature_valid k w leaf)"

lemma shown_vouched:
  assumes ok: "memos_ok k d" and e: "e \<in> set (shown k ids now P d)"
  shows "vouched k ids now (en_wire e) (en_manifest e)"
proof -
  obtain o' where o': "(o', e) \<in> set (dr_entries d)" using shown_current(5) [OF e] by blast
  have memo: "memo_ok k e" using ok o' by (auto simp: memos_ok_def m_all_def)
  have c: "snd (current_entry k ids now (dr_high d) e) \<noteq> None" using e by (auto simp: shown_def)
  obtain chain dev until where i: "ids (sm_principal (en_wire e)) (en_manifest e) = Some (chain, dev, until)"
    "ms_time (mf_expires (en_manifest e)) \<le> until"
    using shown_current(6) [OF e] by blast
  have b: "dir_principal k dev = sm_principal (en_wire e)"
    "en_valid (binding_matches (content_hash k (hd chain)) (signature_valid k (en_wire e) (hd chain)) e)"
    using c i(1) unfolding current_entry_def Let_def by (auto split: if_splits)
  have "\<exists>leaf. content_hash k leaf = content_hash k (hd chain) \<and> signature_valid k (en_wire e) leaf"
    using b(2) memo by (auto simp: binding_matches_def memo_ok_def split: if_splits)
  then show ?thesis using i b(1) shown_current(2) [OF e] unfolding vouched_def by blast
qed

end
