(* ===== verification/Manifest_Sample.thy ===== *)
theory Manifest_Sample
  imports Manifest_Decode
begin

section \<open>A sample manifest as bytes\<close>

text \<open>
  A CBOR library that reads items the way their heads say, for manifests of a device without an owner, services or endpoints, whose
  UUID is spelled by \<open>letter_codec\<close> and whose prefix by one text; and the bodies it decodes to the two versions of a manifest.
\<close>

definition dir_dev :: device where
  "dir_dev = Device (Some (replicate 16 1)) (replicate 16 7) []"

definition pad_sha :: "bytes \<Rightarrow> bytes" where
  "pad_sha b = take 32 (b @ replicate 32 0)"

definition dir_manifest :: "u64 \<Rightarrow> manifest" where
  "dir_manifest n = \<lparr>mf_agent = None, mf_version = 4, mf_device = replicate 16 7, mf_owner = None, mf_revision = n, mf_issued = 0,
     mf_expires = 600000, mf_name = '''', mf_port = 50051, mf_transport = '''', mf_platform = '''', mf_caps = [], mf_requires = [],
     mf_withdraw = False, mf_route = Some \<lparr>ro_prefix = Pfx (mesh_address pad_sha dir_dev) 128, ro_router = 1, ro_seqno = 1\<rparr>,
     mf_endpoints = [], mf_services = []\<rparr>"

subsection \<open>Reading items\<close>

primrec split_items :: "nat \<Rightarrow> bytes \<Rightarrow> bytes list option" where
  "split_items 0 data = (if data = [] then Some [] else None)"
| "split_items (Suc n) data = (case walk_value 17 data of
     Inl e \<Rightarrow> None
   | Inr rest \<Rightarrow> map_option (Cons (take (length data - length rest) data)) (split_items n rest))"

definition read_string :: "nat \<Rightarrow> bytes \<Rightarrow> bytes option" where
  "read_string major data = (case artifact_argument data of
     Inl e \<Rightarrow> None
   | Inr (m, len, rest) \<Rightarrow> if m = major \<and> unat len = length rest then Some rest else None)"

definition chars :: "bytes \<Rightarrow> string" where
  "chars bs = map (\<lambda>b. char_of (unat b)) bs"

primrec pair_fields :: "nat \<Rightarrow> bytes list \<Rightarrow> raw_fields option" where
  "pair_fields 0 items = (if items = [] then Some Map.empty else None)"
| "pair_fields (Suc n) items = (case items of
     k # v # rest \<Rightarrow> (case (read_string 3 k, pair_fields n rest) of
         (Some key, Some fs) \<Rightarrow> Some (fs(chars key \<mapsto> v)) | _ \<Rightarrow> None)
   | _ \<Rightarrow> None)"

definition read_fields :: "bytes \<Rightarrow> raw_fields option" where
  "read_fields data = (case artifact_argument data of
     Inl e \<Rightarrow> None
   | Inr (m, n, rest) \<Rightarrow>
       if m = 5 then Option.bind (split_items (2 * unat n) rest) (pair_fields (unat n)) else None)"

definition read_items :: "bytes \<Rightarrow> bytes list option" where
  "read_items data = (case artifact_argument data of
     Inl e \<Rightarrow> None
   | Inr (m, n, rest) \<Rightarrow> if m = 4 then split_items (unat n) rest else None)"

primrec all_some :: "'a option list \<Rightarrow> 'a list option" where
  "all_some [] = Some []"
| "all_some (x # xs) = (case (x, all_some xs) of (Some y, Some ys) \<Rightarrow> Some (y # ys) | _ \<Rightarrow> None)"

definition read_number :: "bytes \<Rightarrow> u64 option" where
  "read_number data = (case artifact_argument data of
     Inl e \<Rightarrow> None
   | Inr (m, n, rest) \<Rightarrow> if m = 0 \<and> rest = [] then Some n else None)"

definition field_number :: "raw_fields \<Rightarrow> string \<Rightarrow> u64 option" where
  "field_number fs key = Option.bind (fs key) read_number"

definition field_text :: "raw_fields \<Rightarrow> string \<Rightarrow> string option" where
  "field_text fs key = map_option chars (Option.bind (fs key) (read_string 3))"

definition read_route :: "bytes \<Rightarrow> route_origin option" where
  "read_route data = (case read_fields data of
     None \<Rightarrow> None
   | Some fs \<Rightarrow> (case (field_text fs ''p'', field_number fs ''r'', field_number fs ''s'') of
       (Some p, Some r, Some s) \<Rightarrow>
         if p = ''fd45:b891:5680::/128''
         then Some \<lparr>ro_prefix = Pfx (mesh_address pad_sha dir_dev) 128, ro_router = r, ro_seqno = ucast s\<rparr> else None
     | _ \<Rightarrow> None))"

definition read_manifest :: "bytes \<Rightarrow> manifest option" where
  "read_manifest data = (case read_fields data of
     None \<Rightarrow> None
   | Some fs \<Rightarrow> (case (field_number fs ''v'', Option.bind (field_text fs ''d'') (tc_parse_uuid letter_codec), field_number fs ''R'',
         field_number fs ''i'', field_number fs ''e'', field_number fs ''P'', Option.bind (fs ''r'') read_route) of
       (Some v, Some d, Some n, Some issued, Some expires, Some port, Some route) \<Rightarrow>
         if length d = 16 then
           Some \<lparr>mf_agent = None, mf_version = int (unat v), mf_device = d, mf_owner = None, mf_revision = n, mf_issued = int (unat issued),
             mf_expires = int (unat expires), mf_name = '''', mf_port = ucast port, mf_transport = '''', mf_platform = '''', mf_caps = [],
             mf_requires = [], mf_withdraw = False, mf_route = Some route, mf_endpoints = [], mf_services = []\<rparr>
         else None
     | _ \<Rightarrow> None))"

definition write_fields :: "raw_fields \<Rightarrow> bytes option" where
  "write_fields fs =
     (let keys = filter (\<lambda>k. fs k \<noteq> None) [''P'', ''R'', ''a'', ''d'', ''e'', ''i'', ''n'', ''r'', ''s'', ''v'']
      in Some (cbor_head 5 (word_of_nat (length keys)) @ concat (map (\<lambda>k. cbor_text (map of_char k) @ the (fs k)) keys)))"

definition sample_library :: cbor_library where
  "sample_library = \<lparr>cl_fields = read_fields, cl_field_list = (\<lambda>b. Option.bind (read_items b) (\<lambda>bs. all_some (map read_fields bs))),
     cl_items = read_items, cl_int = (\<lambda>b. map_option (int \<circ> unat) (read_number b)), cl_text = (\<lambda>b. map_option chars (read_string 3 b)),
     cl_manifest = read_manifest, cl_endpoint = (\<lambda>b. None), cl_service = (\<lambda>b. None), cl_marshal = write_fields\<rparr>"

subsection \<open>Reading what was encoded\<close>

lemma char_byte [simp]: "char_of (unat (of_char c :: byte)) = c"
proof -
  have "unat (of_char c :: byte) = of_char c"
    using of_nat_of_char [of c, where 'a = byte] unat_of_nat [of "of_char c", where 'a = 8] by simp
  then show ?thesis by simp
qed

lemma chars_of_char [simp]: "chars (map of_char s) = s"
  by (simp add: chars_def comp_def)

lemma walk_encoded: "cbor_fits l v \<Longrightarrow> walk_value l (cbor_bytes v @ rest) = Inr rest"
  unfolding walk_value_iff by blast

lemma cbor_fits_mono: "cbor_fits l v \<Longrightarrow> l \<le> m \<Longrightarrow> cbor_fits m v"
proof (induction l arbitrary: m v)
  case (Suc l)
  then obtain k where m: "m = Suc k" "l \<le> k" by (cases m) auto
  have "cbor_fits l x \<Longrightarrow> cbor_fits k x" for x using Suc.IH m(2) by blast
  then show ?case using Suc.prems(1) m by (cases v) auto
qed simp

lemma split_items_encoded:
  "\<forall>v \<in> set vs. cbor_fits 17 v \<Longrightarrow> split_items (length vs) (concat (map cbor_bytes vs)) = Some (map cbor_bytes vs)"
  by (induction vs) (simp_all add: walk_encoded del: cbor_fits.simps)

lemma read_string_encoded: "major < 8 \<Longrightarrow> length t < 2 ^ 64 \<Longrightarrow> read_string major (cbor_string major t) = Some t"
  using argument_head [of major "word_of_nat (length t)" t]
  by (simp add: read_string_def cbor_string_def unat_small_length)

definition entry_items :: "(bytes \<times> cbor) list \<Rightarrow> cbor list" where
  "entry_items ps = concat (map (\<lambda>(k, v). [CText k, v]) ps)"

lemma entry_items_simps [simp]:
  "entry_items [] = []" "entry_items ((k, v) # ps) = CText k # v # entry_items ps"
  "length (entry_items ps) = 2 * length ps" "concat (map cbor_bytes (entry_items ps)) = entries_bytes ps"
  by (simp_all add: entry_items_def) (induction ps; auto)+

lemma pair_fields_encoded:
  "\<forall>p \<in> set ps. length (fst p) < 2 ^ 64 \<Longrightarrow> pair_fields (length ps) (map cbor_bytes (entry_items ps))
     = Some (\<lambda>key. map_option cbor_bytes (map_of (map (\<lambda>(k, v). (chars k, v)) ps) key))"
  by (induction ps) (auto simp: read_string_encoded fun_eq_iff)

lemma read_fields_encoded:
  assumes "cbor_fits 17 (CMap ps)"
  shows "read_fields (cbor_bytes (CMap ps)) = Some (\<lambda>key. map_option cbor_bytes (map_of (map (\<lambda>(k, v). (chars k, v)) ps) key))"
proof -
  have levels: "(17 :: nat) = Suc 16" by simp
  have ps: "length ps \<le> 64" "fresh_entries (cbor_fits 16) [] ps"
    using assms unfolding levels cbor_fits_map by blast+
  have "cbor_fits 17 (CText k) \<and> cbor_fits 17 v" if "(k, v) \<in> set ps" for k v
  proof
    have p: "length k < 2 ^ 64" "bytes_utf8 k" "cbor_fits 16 v" using ps(2) that by (auto simp: fresh_entries_def)
    show "cbor_fits 17 (CText k)" unfolding levels cbor_fits.simps(2) cbor.case using p by blast
    show "cbor_fits 17 v" by (rule cbor_fits_mono [OF p(3)]) simp
  qed
  then have "\<forall>v \<in> set (entry_items ps). cbor_fits 17 v" by (auto simp: entry_items_def simp del: cbor_fits.simps)
  then have "split_items (2 * length ps) (entries_bytes ps) = Some (map cbor_bytes (entry_items ps))"
    using split_items_encoded [of "entry_items ps"] by simp
  moreover have "unat (word_of_nat (length ps) :: u64) = length ps" using ps(1) by (intro unat_small_length) simp
  moreover have "pair_fields (length ps) (map cbor_bytes (entry_items ps))
      = Some (\<lambda>key. map_option cbor_bytes (map_of (map (\<lambda>(k, v). (chars k, v)) ps) key))"
    by (rule pair_fields_encoded) (use ps(2) in \<open>simp add: fresh_entries_def\<close>)
  ultimately show ?thesis
    using argument_head [of 5 "word_of_nat (length ps)" "entries_bytes ps"] by (simp add: read_fields_def)
qed

subsection \<open>The bodies\<close>

definition byte_text :: "string \<Rightarrow> bytes" where
  "byte_text s = map of_char s"

lemma byte_text_simps [simp]: "chars (byte_text s) = s" "length (byte_text s) = length s" "byte_text s = byte_text t \<longleftrightarrow> s = t"
proof -
  show c: "chars (byte_text s) = s" for s by (simp add: byte_text_def)
  show "length (byte_text s) = length s" by (simp add: byte_text_def)
  show "byte_text s = byte_text t \<longleftrightarrow> s = t" by (metis c)
qed

definition dir_route :: "(bytes \<times> cbor) list" where
  "dir_route = [(byte_text ''p'', CText (byte_text ''fd45:b891:5680::/128'')), (byte_text ''r'', CUnsigned 1), (byte_text ''s'', CUnsigned 1)]"

text \<open>The fields every version shares, without and with its empty lists.\<close>

definition dir_typed :: "u64 \<Rightarrow> (bytes \<times> cbor) list" where
  "dir_typed n = [(byte_text ''P'', CUnsigned 50051), (byte_text ''R'', CUnsigned n),
     (byte_text ''d'', CText (byte_text (letter_text (replicate 16 7)))), (byte_text ''e'', CUnsigned 600000), (byte_text ''i'', CUnsigned 0),
     (byte_text ''n'', CText (byte_text '''')), (byte_text ''r'', CMap dir_route), (byte_text ''v'', CUnsigned 4)]"

definition dir_entries :: "u64 \<Rightarrow> (bytes \<times> cbor) list" where
  "dir_entries n = dir_typed n @ [(byte_text ''a'', CArray []), (byte_text ''s'', CArray [])]"

definition dir_body :: "u64 \<Rightarrow> bytes" where
  "dir_body n = cbor_bytes (CMap (dir_entries n))"

lemma dir_utf8:
  "bytes_utf8 (byte_text ''P'')" "bytes_utf8 (byte_text ''R'')" "bytes_utf8 (byte_text ''a'')" "bytes_utf8 (byte_text ''d'')"
  "bytes_utf8 (byte_text ''e'')" "bytes_utf8 (byte_text ''i'')" "bytes_utf8 (byte_text ''n'')" "bytes_utf8 (byte_text ''r'')"
  "bytes_utf8 (byte_text ''s'')" "bytes_utf8 (byte_text ''v'')" "bytes_utf8 (byte_text ''p'')" "bytes_utf8 (byte_text '''')"
  "bytes_utf8 (byte_text (letter_text (replicate 16 7)))" "bytes_utf8 (byte_text ''fd45:b891:5680::/128'')"
  by code_simp+

lemma dir_route_fits: "cbor_fits (Suc (Suc 0)) (CMap dir_route)"
  using dir_utf8 by (simp add: dir_route_def)

lemma dir_fits: "cbor_fits 17 (CMap (dir_typed n))" "cbor_fits 17 (CMap (dir_entries n))"
proof -
  have "cbor_fits (Suc (Suc (Suc 0))) (CMap (dir_typed n))" "cbor_fits (Suc (Suc (Suc 0))) (CMap (dir_entries n))"
    using dir_utf8 dir_route_fits by (simp_all add: dir_typed_def dir_entries_def length_letter_text)
  then show "cbor_fits 17 (CMap (dir_typed n))" "cbor_fits 17 (CMap (dir_entries n))"
    by - (erule cbor_fits_mono, simp)+
qed

definition dir_fields :: "(bytes \<times> cbor) list \<Rightarrow> raw_fields" where
  "dir_fields ps key = map_option cbor_bytes (map_of (map (\<lambda>(k, v). (chars k, v)) ps) key)"

lemma read_dir_fields:
  "read_fields (cbor_bytes (CMap (dir_typed n))) = Some (dir_fields (dir_typed n))"
  "read_fields (dir_body n) = Some (dir_fields (dir_entries n))"
  "read_fields (cbor_bytes (CMap dir_route)) = Some (dir_fields dir_route)"
  unfolding dir_body_def dir_fields_def
  by (rule read_fields_encoded dir_fits cbor_fits_mono [OF dir_route_fits] | simp)+

lemma dir_sizes: "length (dir_body n) \<le> 32768" "length (cbor_bytes (CMap (dir_typed n))) \<le> 32768"
proof -
  have "length (cbor_head 0 n) \<le> 9" by (simp add: cbor_head_def)
  then show "length (dir_body n) \<le> 32768" "length (cbor_bytes (CMap (dir_typed n))) \<le> 32768"
    by (simp_all add: dir_body_def dir_entries_def dir_typed_def dir_route_def cbor_string_def cbor_head_def length_letter_text)
qed

lemma dir_checks: "artifact_check 32768 (dir_body n) = None" "artifact_check 32768 (cbor_bytes (CMap (dir_typed n))) = None"
proof -
  have ne: "cbor_bytes v \<noteq> []" for v unfolding cbor_bytes_head(1) by (simp add: cbor_head_nonempty)
  have w: "walk_value 17 (cbor_bytes (CMap (dir_typed n))) = Inr []" "walk_value 17 (dir_body n) = Inr []"
    using walk_encoded [OF dir_fits(1), of n "[]"] walk_encoded [OF dir_fits(2), of n "[]"] by (simp_all only: dir_body_def append_Nil2)
  have "dir_body n \<noteq> []" unfolding dir_body_def by (rule ne)
  then show "artifact_check 32768 (dir_body n) = None" "artifact_check 32768 (cbor_bytes (CMap (dir_typed n))) = None"
    using w dir_sizes [of n] ne [of "CMap (dir_typed n)"] unfolding artifact_check_def by (simp_all add: not_less del: cbor_bytes.simps)
qed

subsection \<open>The decoded manifest\<close>

lemma read_number_encoded: "read_number (cbor_head 0 n) = Some n"
  using argument_head [of 0 n "[]"] by (simp add: read_number_def)

lemma read_text_encoded: "length t < 2 ^ 64 \<Longrightarrow> map_option chars (read_string 3 (cbor_text t)) = Some (chars t)"
  by (simp add: read_string_encoded)

lemma read_items_none: "read_items (cbor_head 4 0) = Some []"
  using argument_head [of 4 0 "[]"] by (simp add: read_items_def)

lemma head_major: "unat (drop_bit 5 (hd (cbor_bytes v))) = fst (cbor_major v)" "cbor_bytes v \<noteq> []"
proof -
  have h: "unat (drop_bit 5 (hd (cbor_head m n @ r))) = m" if "m < 8" for m n r
  proof (cases "n < 24")
    case True
    then show ?thesis using head_byte_split [OF that, of "unat n"] by (simp add: cbor_head_def word_less_nat_alt)
  next
    case False
    then show ?thesis using head_byte_split [OF that] by (simp add: cbor_head_def)
  qed
  show "unat (drop_bit 5 (hd (cbor_bytes v))) = fst (cbor_major v)"
    by (subst cbor_bytes_head(1), rule h, rule cbor_bytes_head(2))
  show "cbor_bytes v \<noteq> []" unfolding cbor_bytes_head(1) by (simp add: cbor_head_nonempty)
qed

lemma wire_key_values:
  "wire_key ''version'' = ''v''" "wire_key ''device'' = ''d''" "wire_key ''revision'' = ''R''" "wire_key ''Issued'' = ''i''"
  "wire_key ''Expires'' = ''e''" "wire_key ''name'' = ''n''" "wire_key ''agentPort'' = ''P''" "wire_key ''agentTransport'' = ''T''"
  "wire_key ''platform'' = ''l''" "wire_key ''owner'' = ''o''" "wire_key ''caps'' = ''c''" "wire_key ''requires'' = ''q''"
  "wire_key ''withdraw'' = ''w''" "wire_key ''route'' = ''r''" "wire_key ''appEndpoints'' = ''a''" "wire_key ''s'' = ''s''"
  "wire_key ''prefix'' = ''p''" "wire_key ''routerId'' = ''r''" "wire_key ''seqno'' = ''s''"
  by code_simp+

lemma dir_field_values:
  "dir_fields (dir_typed n) ''P'' = Some (cbor_bytes (CUnsigned 50051))" "dir_fields (dir_typed n) ''R'' = Some (cbor_bytes (CUnsigned n))"
  "dir_fields (dir_typed n) ''d'' = Some (cbor_bytes (CText (byte_text (letter_text (replicate 16 7)))))"
  "dir_fields (dir_typed n) ''e'' = Some (cbor_bytes (CUnsigned 600000))" "dir_fields (dir_typed n) ''i'' = Some (cbor_bytes (CUnsigned 0))"
  "dir_fields (dir_typed n) ''n'' = Some (cbor_bytes (CText (byte_text '''')))" "dir_fields (dir_typed n) ''r'' = Some (cbor_bytes (CMap dir_route))"
  "dir_fields (dir_typed n) ''v'' = Some (cbor_bytes (CUnsigned 4))"
  "dir_fields (dir_typed n) ''a'' = None" "dir_fields (dir_typed n) ''s'' = None" "dir_fields (dir_typed n) ''o'' = None"
  "dir_fields (dir_typed n) ''T'' = None" "dir_fields (dir_typed n) ''l'' = None" "dir_fields (dir_typed n) ''c'' = None"
  "dir_fields (dir_typed n) ''q'' = None" "dir_fields (dir_typed n) ''w'' = None"
  by (simp_all add: dir_fields_def dir_typed_def del: cbor_bytes.simps)

lemma dir_route_values:
  "dir_fields dir_route ''p'' = Some (cbor_bytes (CText (byte_text ''fd45:b891:5680::/128'')))"
  "dir_fields dir_route ''r'' = Some (cbor_bytes (CUnsigned 1))" "dir_fields dir_route ''s'' = Some (cbor_bytes (CUnsigned 1))"
  by (simp_all add: dir_fields_def dir_route_def del: cbor_bytes.simps)

lemma dir_entries_fields:
  "dir_fields (dir_entries n) = (dir_fields (dir_typed n))(''a'' \<mapsto> cbor_bytes (CArray []), ''s'' \<mapsto> cbor_bytes (CArray []))"
  by (rule ext) (simp add: dir_fields_def dir_entries_def map_add_def map_of_append dir_typed_def del: cbor_bytes.simps split: option.splits)

lemma dir_types:
  "manifest_field_types (dir_fields (dir_entries n)) [(''version'', 0)] [''version''] = None"
  "manifest_field_types (dir_fields (dir_entries n)) manifest_types manifest_required = None"
  "manifest_field_types (dir_fields dir_route) [(''prefix'', 3), (''routerId'', 0), (''seqno'', 0)] [''prefix'', ''routerId'', ''seqno''] = None"
  by (simp_all add: manifest_field_types_def manifest_types_def manifest_required_def field_type_ok_def wire_key_values dir_entries_fields
      dir_field_values dir_route_values head_major del: cbor_bytes.simps)

lemma dir_rewritten: "write_fields ((dir_fields (dir_entries n))(''a'' := None, ''s'' := None)) = Some (cbor_bytes (CMap (dir_typed n)))"
  by (simp add: write_fields_def dir_entries_fields dir_field_values) (simp add: dir_typed_def byte_text_def)

lemma read_dir_route: "read_route (cbor_bytes (CMap dir_route))
    = Some \<lparr>ro_prefix = Pfx (mesh_address pad_sha dir_dev) 128, ro_router = 1, ro_seqno = 1\<rparr>"
  unfolding read_route_def read_dir_fields option.case field_text_def field_number_def dir_route_values
  by (simp add: read_string_encoded read_number_encoded)

lemma read_dir_manifest: "n = 1 \<or> n = 2 \<Longrightarrow> read_manifest (cbor_bytes (CMap (dir_typed n))) = Some (dir_manifest n)"
  unfolding read_manifest_def read_dir_fields option.case field_text_def field_number_def dir_field_values
  by (simp add: read_string_encoded read_number_encoded read_dir_route letter_codec_def length_letter_text letter_round_trip dir_manifest_def
      del: cbor_bytes.simps(6))

lemma dir_projection:
  assumes "n = 1 \<or> n = 2"
  shows "project_manifest sample_library (dir_fields (dir_entries n)) = Inr (dir_manifest n)"
proof -
  have a: "dir_fields (dir_entries n) ''a'' = Some (cbor_head 4 0)" "dir_fields (dir_entries n) ''s'' = Some (cbor_head 4 0)"
    by (simp_all add: dir_entries_fields)
  have e: "project_endpoints sample_library (Some (cbor_head 4 0)) = Inr []" "project_services sample_library (Some (cbor_head 4 0)) = Inr []"
    by (simp_all add: project_endpoints_def project_services_def sample_library_def read_items_none cbor_head_nonempty app_endpoints_error_def)
  have h: "\<not> manifest_has_entries sample_library (Some (cbor_head 4 0))"
    by (simp add: manifest_has_entries_def sample_library_def read_items_none)
  have m: "cl_marshal sample_library ((dir_fields (dir_entries n))(''a'' := None, ''s'' := None)) = Some (cbor_bytes (CMap (dir_typed n)))"
    by (simp only: dir_rewritten sample_library_def cbor_library.simps)
  have u: "unmarshal_artifact (cl_manifest sample_library) 32768 (cbor_bytes (CMap (dir_typed n))) = Inr (dir_manifest n)"
    by (simp add: unmarshal_artifact_def dir_checks sample_library_def read_dir_manifest [OF assms] del: cbor_bytes.simps)
  have v: "view_error (dir_manifest n) = None" "(dir_manifest n)\<lparr>mf_endpoints := [], mf_services := []\<rparr> = dir_manifest n"
    by (simp_all add: view_error_def dir_manifest_def manifest_names_ok_def services_ok_def requirements_error_def app_endpoints_error_def
        first_error_def)
  show ?thesis
    unfolding project_manifest_def wire_key_values a e sum.case m u option.case Let_def v by (simp add: h v)
qed

lemma decode_dir_body:
  assumes "n = 1 \<or> n = 2"
  shows "decode_manifest sample_library (dir_body n) = Inr (dir_manifest n)"
proof -
  have u: "unmarshal_artifact (cl_fields sample_library) 32768 (dir_body n) = Inr (dir_fields (dir_entries n))"
    by (simp add: unmarshal_artifact_def dir_checks sample_library_def read_dir_fields)
  have v: "Option.bind (dir_fields (dir_entries n) ''v'') (cl_int sample_library) = Some 4"
    by (simp add: dir_entries_fields dir_field_values sample_library_def read_number_encoded)
  have r: "Option.bind (dir_fields (dir_entries n) ''r'') (cl_fields sample_library) = Some (dir_fields dir_route)"
    by (simp add: dir_entries_fields dir_field_values sample_library_def read_dir_fields del: cbor_bytes.simps)
  show ?thesis
    unfolding decode_manifest_def u sum.case dir_types wire_key_values option.case v r dir_projection [OF assms] by simp
qed

text \<open>The two bodies differ early.\<close>

lemma port_bytes: "be_bytes 2 (50051 :: u64) = [195, 131]"
  by code_simp

lemma take_dir_body: "n < 24 \<Longrightarrow> take 9 (dir_body n) = [170, 97, 80, 25, 195, 131, 97, 82, head_byte 0 (unat n)]"
  by (simp add: dir_body_def dir_entries_def dir_typed_def cbor_string_def cbor_head_def byte_text_def head_byte_def port_bytes)

lemma dir_bodies_differ: "dir_body 1 \<noteq> dir_body 2" "pad_sha (dir_body 1) \<noteq> pad_sha (dir_body 2)"
proof -
  have d: "take 9 (dir_body 1) \<noteq> take 9 (dir_body 2)" using take_dir_body [of 1] take_dir_body [of 2] by (simp add: head_byte_def)
  then show "dir_body 1 \<noteq> dir_body 2" by auto
  have "take 9 (pad_sha (dir_body n)) = take 9 (dir_body n)" if "n < 24" for n
    using arg_cong [OF take_dir_body [OF that], of length] by (simp add: pad_sha_def)
  from this [of 1] this [of 2] show "pad_sha (dir_body 1) \<noteq> pad_sha (dir_body 2)" using d by auto
qed

end
