(* ===== verification/Mesh_Directory_Props.thy ===== *)
theory Mesh_Directory_Props
  imports Mesh_Directory_Restart Mesh_Directory_Sign Manifest_Sample
begin

section \<open>The directory: properties\<close>

text \<open>Each property with a witness over a sample device that has issued two versions of its manifest.\<close>

subsection \<open>A sample\<close>

text \<open>A directory of the device of \<open>Manifest_Sample\<close>, whose two versions are read from their bytes.\<close>

definition dir_sample :: dir_codec where
  "dir_sample = \<lparr>dk_text = letter_codec, dk_url_ok = (\<lambda>s. False), dk_sha = pad_sha, dk_cbor = sample_library,
     dk_leaf_ok = (\<lambda>leaf. True), dk_verify = (\<lambda>leaf input sig. True)\<rparr>"

definition dir_wire :: "u64 \<Rightarrow> signed_manifest" where
  "dir_wire n = \<lparr>sm_principal = dir_principal dir_sample dir_dev, sm_body = dir_body n, sm_signature = []\<rparr>"

definition dir_ids :: identities where
  "dir_ids p m = Some ([[9]], dir_dev, 10 ^ 18)"

definition dir_clock :: "int \<Rightarrow> go_time" where
  "dir_clock t = \<lparr>tm_wall = t, tm_mono = None\<rparr>"

definition dir_fresh :: directory where
  "dir_fresh = \<lparr>dr_tenant = Some (replicate 16 1), dr_limit = 8, dr_entries = [], dr_history = [], dr_persists = False, dr_high = dir_zero_time\<rparr>"

lemma dir_fresh_reachable: "dir_reachable k dir_fresh"
  by (rule dreach_new [of "Some (replicate 16 1)" 8]) (simp add: new_directory_def dir_fresh_def)

lemma dir_sample_ok: "dir_codec_ok dir_sample"
proof -
  have "length (mf_device m) = 16 \<and> mf_owner m = None" if "read_manifest b = Some m" for b m
    using that by (auto simp: read_manifest_def split: option.splits if_splits)
  then show ?thesis
    using letter_codec_ok
    by (auto simp: dir_codec_ok_def dir_sample_def sample_library_def letter_codec_def length_letter_text pad_sha_def)
qed

lemma dir_dev_parses: "peer_from_principal letter_codec (\<lambda>s. False) (dir_principal dir_sample dir_dev) = Some dir_dev"
proof -
  have "dir_principal dir_sample dir_dev = device_spiffe_uri (tc_uuid letter_codec (replicate 16 1)) (tc_uuid letter_codec (replicate 16 7))"
    by (simp add: dir_principal_def dir_sample_def dir_dev_def peer_principal_def dv_valid_def is_operator_def tenant_text_def)
  then show ?thesis using peer_from_principal_iff [OF letter_codec_ok] device_from_principal_iff [OF letter_codec_ok]
    by (force simp: dir_dev_def)
qed

lemma dir_principal_size: "dir_principal dir_sample dir_dev \<noteq> ''''" "length (dir_principal dir_sample dir_dev) \<le> 1024"
  by (simp_all add: dir_principal_def dir_sample_def dir_dev_def peer_principal_def dv_valid_def is_operator_def tenant_text_def
      device_spiffe_uri_def letter_codec_def length_letter_text)

lemma dir_manifest_valid: "n = 1 \<or> n = 2 \<Longrightarrow> 0 \<le> t \<Longrightarrow> t < 600000 * 1000000 \<Longrightarrow> manifest_invalid (dir_manifest n) t = None"
  by (auto simp: manifest_invalid_def dir_manifest_def agent_metadata_bad_def requirements_error_def manifest_names_ok_def first_error_def
      lease_bad_def operator_advertises_def services_ok_def app_endpoints_error_def ms_time_def manifest_lease_max_def clock_skew_def)

lemma dir_admits:
  assumes "n = 1 \<or> n = 2" "0 \<le> t" "t < 600000 * 1000000"
  shows "admit_manifest dir_sample (Some (replicate 16 1)) dir_ids (dir_clock t) (dir_wire n) = Inr (dir_key dir_sample dir_dev, dir_manifest n, [9])"
proof -
  have p: "manifest_peer letter_codec (\<lambda>s. False) (Some (replicate 16 1)) (dir_manifest n) = Some dir_dev"
    by (simp add: manifest_peer_def dir_manifest_def new_device_def dir_dev_def)
  have r: "route_valid pad_sha (dir_manifest n) dir_dev" by (simp add: route_valid_def dir_manifest_def)
  have t: "dv_tenant dir_dev = Some (replicate 16 1)" by (simp add: dir_dev_def)
  have d: "decode_manifest (dk_cbor dir_sample) (dir_body n) = Inr (dir_manifest n)" using decode_dir_body [OF assms(1)] by (simp add: dir_sample_def)
  have f: "dk_text dir_sample = letter_codec" "dk_url_ok dir_sample = (\<lambda>s. False)" "dk_sha dir_sample = pad_sha"
    "dk_leaf_ok dir_sample l" "dk_verify dir_sample l i s" for l i s by (simp_all add: dir_sample_def)
  have e: "ms_time (mf_expires (dir_manifest n)) \<le> 1000000000000000000" by (simp add: dir_manifest_def ms_time_def)
  have v: "manifest_invalid (dir_manifest n) t = None" by (rule dir_manifest_valid) (use assms in auto)
  show ?thesis
    unfolding admit_manifest_def
    by (simp add: dir_wire_def dir_principal_size dir_sizes dir_dev_parses f t d p r v e dir_clock_def dir_ids_def signature_valid_def not_less)
qed

subsection \<open>Superseded manifests\<close>



text \<open>The second version is stored, a clock far ahead ends its lease, and then the clock falls back.\<close>

definition dir_one :: "int \<Rightarrow> directory" where
  "dir_one t = dir_fresh\<lparr>dr_high := t,
     dr_history := [(dir_key dir_sample dir_dev, \<lparr>rc_device = dir_key dir_sample dir_dev, rc_revision = 2, rc_hash = content_hash dir_sample (dir_body 2),
       rc_until = t + manifest_lease_max + clock_skew\<rparr>)],
     dr_entries := [(dir_key dir_sample dir_dev, \<lparr>en_manifest = dir_manifest 2, en_wire = dir_wire 2, en_hash = content_hash dir_sample (dir_body 2),
       en_leaf = content_hash dir_sample [9], en_valid = True, en_retain = t + manifest_lease_max + clock_skew,
       en_active = dir_clock (600000 * 1000000), en_expired = False\<rparr>)]\<rparr>"

lemma dir_one_accepted:
  assumes "0 \<le> t" "t < 600000 * 1000000"
  shows "accept_manifest dir_sample dir_ids (dir_clock t) saved (dir_wire 2) dir_fresh = (Inr True, None, dir_one t)"
proof -
  have adm: "admit_manifest dir_sample (dr_tenant dir_fresh) dir_ids (dir_clock t) (dir_wire 2) = Inr (dir_key dir_sample dir_dev, dir_manifest 2, [9])"
    using dir_admits [of 2 t] assms by (simp add: dir_fresh_def)
  have z: "dir_zero_time < t" using assms(1) by (simp add: dir_zero_time_def)
  have e: "ms_time (mf_expires (dir_manifest 2)) = 600000 * 1000000" by (simp add: dir_manifest_def ms_time_def)
  have b: "sm_body (dir_wire 2) = dir_body 2" by (simp add: dir_wire_def)
  have n: "mf_revision (dir_manifest 2) = 2" by (simp add: dir_manifest_def)
  show ?thesis
    unfolding accept_manifest_def adm sum.case prod.case Let_def
    using assms z
    by (simp add: expire_dir_def prune_entries_def receipt_refuses_def store_manifest_def keep_receipts_def Let_def dir_fresh_def m_adj_def e b n
        receipt_for_def tm_add_def dir_clock_def dir_one_def)
qed


subsection \<open>Leases\<close>

lemma expire_entry:
  "(o', e) \<in> set (dr_entries (expire_dir now d)) \<Longrightarrow> \<exists>e0. (o', e0) \<in> set (dr_entries d) \<and> en_manifest e = en_manifest e0 \<and> en_wire e = en_wire e0"
  by (auto simp: expire_dir_def Let_def m_adj_def split: if_splits)

lemma shown_after:
  assumes st: "dir_step k now0 d0 d1" and run: "dir_ops k d1 d2" and e: "e \<in> set (shown k ids now P (expire_dir now d2))"
  shows "\<exists>o' e0. (o', e0) \<in> set (dr_entries d2) \<and> en_manifest e = en_manifest e0 \<and> en_wire e = en_wire e0 \<and> P e
    \<and> tm_wall now0 < ms_time (mf_expires (en_manifest e0))"
proof -
  have "tm_wall now0 \<le> dr_high d2" using step_history [OF st] high_ops [OF run] by linarith
  then have "tm_wall now0 < ms_time (mf_expires (en_manifest e))" using shown_current(1) [OF e] by simp
  moreover obtain o' where o': "(o', e) \<in> set (dr_entries (expire_dir now d2))" using shown_current(5) [OF e] by blast
  obtain e0 where "(o', e0) \<in> set (dr_entries d2)" "en_manifest e = en_manifest e0" "en_wire e = en_wire e0"
    using expire_entry [OF o'] by blast
  moreover have "P e" by (rule shown_current(3) [OF e])
  ultimately show ?thesis by auto
qed

text \<open>
  C25 (leases_end_for_good): once an operation other than \<open>SetPersistence\<close> has run at a wall clock of \<open>now0\<close> (an \<open>Accept\<close> that got as far
  as the lock, \<open>Snapshot\<close>, \<open>Records\<close>, \<open>CurrentRecordChain\<close> or \<open>RouteAuthorizations\<close>), no lease signed to end by then is used again,
  whatever operations run afterwards, \<open>SetPersistence\<close> included, and whatever the clocks read: its manifest is not shown, its record
  is not exported, its route is not authorized and it is not accepted.
\<close>

theorem leases_end_for_good:
  assumes "dir_step k now0 d0 d1" "dir_ops k d1 d2"
  shows "(m \<in> set (fst (dir_snapshot k ids now d2)) \<longrightarrow> tm_wall now0 < ms_time (mf_expires m))
    \<and> (w \<in> set (fst (dir_records k ids now d2)) \<longrightarrow>
        (\<exists>o' e. (o', e) \<in> set (dr_entries d2) \<and> en_wire e = w \<and> tm_wall now0 < ms_time (mf_expires (en_manifest e))))
    \<and> (fst (route_authorizations k ids now d2) r \<longrightarrow>
        (\<exists>o' e. (o', e) \<in> set (dr_entries d2) \<and> mf_route (en_manifest e) = Some r \<and> \<not> mf_withdraw (en_manifest e)
           \<and> tm_wall now0 < ms_time (mf_expires (en_manifest e))))
    \<and> (admit_manifest k (dr_tenant d2) ids now w = Inr (owner, m, leaf) \<longrightarrow> accept_manifest k ids now saved w d2 = (res, log, d3)
        \<longrightarrow> res \<noteq> Inl (BadManifest ExpiredManifest) \<longrightarrow> tm_wall now0 < ms_time (mf_expires m))"
proof (intro conjI impI)
  note after = shown_after [OF assms]
  assume "m \<in> set (fst (dir_snapshot k ids now d2))"
  then obtain e P where e: "e \<in> set (shown k ids now P (expire_dir now d2))" "m = shown_manifest (en_manifest e)"
    by (auto simp: dir_snapshot_def Let_def)
  then show "tm_wall now0 < ms_time (mf_expires m)" using after [OF e(1)] by (auto simp: shown_manifest_def)
next
  assume "w \<in> set (fst (dir_records k ids now d2))"
  then obtain e where "e \<in> set (shown k ids now (\<lambda>e. True) (expire_dir now d2))" "w = en_wire e"
    by (auto simp: dir_records_def Let_def)
  then show "\<exists>o' e. (o', e) \<in> set (dr_entries d2) \<and> en_wire e = w \<and> tm_wall now0 < ms_time (mf_expires (en_manifest e))"
    using shown_after [OF assms] by metis
next
  assume r: "fst (route_authorizations k ids now d2) r"
  define P where "P = (\<lambda>e :: dir_entry. \<not> (en_expired e \<or> mf_withdraw (en_manifest e) \<or> mf_version (en_manifest e) \<noteq> 4 \<or> mf_route (en_manifest e) = None))"
  have "authorized_origins k (dr_tenant d2) (map en_manifest (shown k ids now P (expire_dir now d2))) r"
    using r by (simp add: route_authorizations_def Let_def P_def)
  then obtain e o' where e: "e \<in> set (shown k ids now P (expire_dir now d2))" "origin_claim k (dr_tenant d2) (en_manifest e) = Some (r, o')"
    unfolding authorized_claims by (auto simp: List.map_filter_def)
  have "mf_route (en_manifest e) = Some r \<and> \<not> mf_withdraw (en_manifest e)"
    using e(2) by (auto simp: origin_claim_def split: option.splits if_splits)
  then show "\<exists>o' e. (o', e) \<in> set (dr_entries d2) \<and> mf_route (en_manifest e) = Some r \<and> \<not> mf_withdraw (en_manifest e)
      \<and> tm_wall now0 < ms_time (mf_expires (en_manifest e))"
    using shown_after [OF assms e(1)] by metis
next
  assume adm: "admit_manifest k (dr_tenant d2) ids now w = Inr (owner, m, leaf)" and acc: "accept_manifest k ids now saved w d2 = (res, log, d3)"
    and res: "res \<noteq> Inl (BadManifest ExpiredManifest)"
  have "tm_wall now0 \<le> dr_high d2" using step_history [OF assms(1)] high_ops [OF assms(2)] by linarith
  moreover have "dr_high (expire_dir now d2) < ms_time (mf_expires m)"
    using acc res unfolding accept_manifest_def adm sum.case prod.case Let_def by (auto split: if_splits)
  ultimately show "tm_wall now0 < ms_time (mf_expires m)" by simp
qed

lemma dir_one_step: "dir_step dir_sample (dir_clock 5) dir_fresh (dir_one 5)"
  by (rule dstep_accept [OF _ dir_one_accepted]) (use dir_admits [of 2 5] in \<open>simp_all add: dir_fresh_def\<close>)

lemma dir_one_shown: "dir_manifest 2 \<in> set (fst (dir_snapshot dir_sample dir_ids (dir_clock 6) (dir_one 5)))"
proof -
  have p: "sm_principal (dir_wire 2) = dir_principal dir_sample dir_dev" by (simp add: dir_wire_def)
  have e: "ms_time (mf_expires (dir_manifest 2)) = 600000 * 1000000" "\<not> mf_withdraw (dir_manifest 2)" "shown_manifest (dir_manifest 2) = dir_manifest 2"
    by (simp_all add: dir_manifest_def ms_time_def shown_manifest_def)
  show ?thesis
    by (simp add: dir_snapshot_def Let_def shown_def current_entry_def expire_dir_def m_adj_def dir_one_def dir_fresh_def entry_over_def
        tm_before_def dir_clock_def dir_ids_def binding_matches_def p e)
qed

theorem leases_end_for_good_witness:
  "dir_manifest 2 \<in> set (fst (dir_snapshot dir_sample dir_ids (dir_clock 6) (dir_one 5))) \<and> 5 < ms_time (mf_expires (dir_manifest 2))"
  using leases_end_for_good [OF dir_one_step dops_refl] dir_one_shown by (auto simp: dir_clock_def)

subsection \<open>Route origins\<close>

text \<open>
  C31 (origins_exclusive): the claims collected in one pass, in whatever order the entries come, authorize exactly the origins of
  a manifest whose owner has claimed no address that another owner claims as well.
\<close>

theorem origins_exclusive:
  "authorized_origins k tenant ms r \<longleftrightarrow> (\<exists>owner. (\<exists>m \<in> set ms. origin_claim k tenant m = Some (r, owner))
     \<and> \<not> (\<exists>m1 \<in> set ms. \<exists>m2 \<in> set ms. \<exists>r1 r2 o2. origin_claim k tenant m1 = Some (r1, owner) \<and> origin_claim k tenant m2 = Some (r2, o2)
          \<and> ro_prefix r1 = ro_prefix r2 \<and> o2 \<noteq> owner))"
proof -
  let ?xs = "List.map_filter (origin_claim k tenant) ms"
  have claimed: "x \<in> set ?xs \<longleftrightarrow> (\<exists>m \<in> set ms. origin_claim k tenant m = Some x)" for x
    by (force simp: List.map_filter_def)
  have clash: "owner \<in> clashing ?xs \<longleftrightarrow> (\<exists>m1 \<in> set ms. \<exists>m2 \<in> set ms. \<exists>r1 r2 o2. origin_claim k tenant m1 = Some (r1, owner)
      \<and> origin_claim k tenant m2 = Some (r2, o2) \<and> ro_prefix r1 = ro_prefix r2 \<and> o2 \<noteq> owner)" (is "_ \<longleftrightarrow> ?r owner") for owner
  proof
    assume "owner \<in> clashing ?xs"
    then obtain r1 r2 o2 where c: "\<exists>m \<in> set ms. origin_claim k tenant m = Some (r1, owner)" "\<exists>m \<in> set ms. origin_claim k tenant m = Some (r2, o2)"
      "ro_prefix r1 = ro_prefix r2" "owner \<noteq> o2"
      unfolding clashing_def claimed by blast
    obtain m1 where m1: "m1 \<in> set ms" "origin_claim k tenant m1 = Some (r1, owner)" using c(1) by blast
    obtain m2 where m2: "m2 \<in> set ms" "origin_claim k tenant m2 = Some (r2, o2)" using c(2) by blast
    show "?r owner" by (rule bexI [OF _ m1(1)], rule bexI [OF _ m2(1)]) (use m1(2) m2(2) c(3,4) in auto)
  next
    assume "?r owner"
    then obtain r1 r2 o2 where c: "(r1, owner) \<in> set ?xs" "(r2, o2) \<in> set ?xs" "ro_prefix r1 = ro_prefix r2" "o2 \<noteq> owner"
      unfolding claimed by blast
    show "owner \<in> clashing ?xs" by (rule clashingI [OF c(1-3)]) (use c(4) in simp)
  qed
  show ?thesis unfolding authorized_claims claimed clash ..
qed

subsection \<open>Receipts\<close>

text \<open>
  C27 (directory_sound): in every state a directory can reach it holds at most its limit of entries and of receipts, each under its
  key; every entry is a version-4 manifest of the device it is filed under, for a route that is this device's own address, and
  is covered by a receipt of exactly this version that lasts until the entry is forgotten.
\<close>

theorem directory_sound:
  assumes "dir_reachable k d"
  shows "int (length (dr_entries d)) \<le> dr_limit d \<and> int (length (dr_history d)) \<le> dr_limit d \<and> m_ok (dr_entries d) \<and> m_ok (dr_history d)
    \<and> (map_of (dr_entries d) owner = Some e \<longrightarrow>
        mf_version (en_manifest e) = 4 \<and> owner_key k (en_wire e) = owner
        \<and> (\<exists>dev. manifest_peer (dk_text k) (dk_url_ok k) (dr_tenant d) (en_manifest e) = Some dev \<and> dir_key k dev = owner
             \<and> route_valid (dk_sha k) (en_manifest e) dev)
        \<and> map_of (dr_history d) owner = Some \<lparr>rc_device = owner, rc_revision = mf_revision (en_manifest e),
             rc_hash = content_hash k (sm_body (en_wire e)), rc_until = en_retain e\<rparr>)"
proof -
  have ok: "dir_ok k d" by (rule dir_reachable_ok [OF assms])
  have "map_of (dr_history d) owner = Some \<lparr>rc_device = owner, rc_revision = mf_revision (en_manifest e),
      rc_hash = content_hash k (sm_body (en_wire e)), rc_until = en_retain e\<rparr> \<and> genuine k (dr_tenant d) owner e"
    if e: "map_of (dr_entries d) owner = Some e"
  proof -
    have "receipted d owner e \<and> genuine k (dr_tenant d) owner e"
      using ok m_all_get [OF _ e, of "\<lambda>o' e. receipted d o' e \<and> genuine k (dr_tenant d) o' e"] by (simp add: dir_ok_def)
    moreover have "rc_device r = owner" if "map_of (dr_history d) owner = Some r" for r
      using ok that m_all_get [of "\<lambda>o' r. rc_device r = o'" "dr_history d" owner r] by (simp add: dir_ok_def)
    ultimately obtain r where "map_of (dr_history d) owner = Some r" "rc_device r = owner" "rc_revision r = mf_revision (en_manifest e)"
      "rc_hash r = content_hash k (sm_body (en_wire e))" "rc_until r = en_retain e" "genuine k (dr_tenant d) owner e"
      unfolding receipted_def genuine_def by metis
    then show ?thesis by (cases r) simp
  qed
  moreover have "int (length (dr_entries d)) \<le> dr_limit d" "int (length (dr_history d)) \<le> dr_limit d" using ok by (simp_all add: dir_ok_def)
  ultimately show ?thesis using m_ok_entries [OF ok] unfolding genuine_def by blast
qed

theorem directory_sound_witness:
  "int (length (dr_entries (dir_one 5))) \<le> 8 \<and> map_of (dr_entries (dir_one 5)) (dir_key dir_sample dir_dev) \<noteq> None
   \<and> owner_key dir_sample (dir_wire 2) = dir_key dir_sample dir_dev"
proof -
  have "dir_reachable dir_sample (dir_one 5)" by (rule dreach_step [OF dir_fresh_reachable dir_one_step])
  moreover obtain e where e: "map_of (dr_entries (dir_one 5)) (dir_key dir_sample dir_dev) = Some e" "en_wire e = dir_wire 2"
    by (simp add: dir_one_def)
  moreover have "dr_limit (dir_one 5) = 8" by (simp add: dir_one_def dir_fresh_def)
  ultimately show ?thesis using directory_sound [of dir_sample "dir_one 5" "dir_key dir_sample dir_dev" e] by simp
qed

text \<open>
  C29 (receipts_survive_restart): the receipts of a reachable directory, in the order in which \<open>Accept\<close> gives them to the disk,
  are accepted by \<open>SetPersistence\<close> of a fresh directory of the same tenant, which then holds exactly those still running.
  UUIDs are sixteen bytes and their texts at most thirty-six characters, digests are thirty-two bytes.
\<close>

theorem receipts_survive_restart:
  assumes "dir_codec_ok k" "dir_reachable k d" "new_directory (dr_tenant d) (dr_limit d) = Some fresh"
  shows "set_persistence k (sort_key rc_device (map snd (dr_history d))) now fresh
    = Some (fresh\<lparr>dr_history := keep_receipts now d, dr_persists := True\<rparr>)"
proof -
  have r: "m_all (\<lambda>o' r. rc_device r = o' \<and> receipt_valid k (dr_tenant d) r) (dr_history d)"
    using reachable_receipts [OF assms(2,1)] by (simp add: receipts_ok_def)
  then have dev: "m_all (\<lambda>o' r. rc_device r = o') (dr_history d)" and v: "\<forall>r \<in> set (map snd (dr_history d)). receipt_valid k (dr_tenant d) r"
    by (auto simp: m_all_def)
  have load: "load_receipts k (dr_tenant d) now (map snd (dr_history d)) [] = Some (keep_receipts now d)"
    unfolding load_receipts_valid [OF v] reloaded [OF dev] ..
  have size: "\<not> dr_limit d < int (length (map snd (dr_history d)))" using dir_reachable_ok [OF assms(2)] by (simp add: dir_ok_def)
  have f: "dr_limit fresh = dr_limit d" "dr_tenant fresh = dr_tenant d" using assms(3) by (auto simp: new_directory_def split: if_splits)
  show ?thesis unfolding set_persistence_def f receipts_sorted [OF dev] load using size by simp
qed

theorem receipts_survive_restart_witness:
  "\<exists>d'. set_persistence dir_sample (sort_key rc_device (map snd (dr_history (dir_one 5)))) (dir_clock 6) dir_fresh = Some d'
     \<and> map_of (dr_history d') (dir_key dir_sample dir_dev) \<noteq> None"
proof -
  have "dir_reachable dir_sample (dir_one 5)" by (rule dreach_step [OF dir_fresh_reachable dir_one_step])
  moreover have "new_directory (dr_tenant (dir_one 5)) (dr_limit (dir_one 5)) = Some dir_fresh"
    by (simp add: dir_one_def dir_fresh_def new_directory_def)
  ultimately have "set_persistence dir_sample (sort_key rc_device (map snd (dr_history (dir_one 5)))) (dir_clock 6) dir_fresh
      = Some (dir_fresh\<lparr>dr_history := keep_receipts (dir_clock 6) (dir_one 5), dr_persists := True\<rparr>)"
    by (rule receipts_survive_restart [OF dir_sample_ok])
  moreover have "map_of (keep_receipts (dir_clock 6) (dir_one 5)) (dir_key dir_sample dir_dev) \<noteq> None"
    by (simp add: keep_receipts_def dir_one_def dir_clock_def manifest_lease_max_def clock_skew_def)
  ultimately show ?thesis by simp
qed

text \<open>The second directory has no version the first has not.\<close>

definition no_new_version :: "directory \<Rightarrow> directory \<Rightarrow> bool" where
  "no_new_version d d' \<longleftrightarrow> (\<forall>o' e. map_of (dr_entries d') o' = Some e \<longrightarrow>
     (\<exists>e0. map_of (dr_entries d) o' = Some e0 \<and> en_manifest e = en_manifest e0 \<and> en_hash e = en_hash e0 \<and> en_retain e = en_retain e0))"

lemma swept_versions:
  assumes "m_ok (dr_entries d)"
  shows "no_new_version d (expire_dir now d)" "no_new_version d (prune_entries now (expire_dir now d))"
proof -
  let ?f = "\<lambda>o' e. if entry_over now (if dr_high d < tm_wall now then tm_wall now else dr_high d) e then e\<lparr>en_expired := True\<rparr> else e"
  have x: "map_of (dr_entries (expire_dir now d)) o' = map_option (?f o') (map_of (dr_entries d) o')" for o'
    by (simp add: expire_dir_def Let_def)
  then show a: "no_new_version d (expire_dir now d)" by (auto simp: no_new_version_def)
  have "m_ok (dr_entries (expire_dir now d))" using assms by (simp add: expire_dir_def Let_def)
  then have "map_of (dr_entries (prune_entries now (expire_dir now d))) o' = Some e \<Longrightarrow> map_of (dr_entries (expire_dir now d)) o' = Some e" for o' e
    using map_of_filter_ok [of "dr_entries (expire_dir now d)" "\<lambda>(o', e). tm_wall now < en_retain e" o']
    by (auto simp: prune_entries_def split: option.splits if_splits)
  then show "no_new_version d (prune_entries now (expire_dir now d))" using a unfolding no_new_version_def by blast
qed

text \<open>
  C28 (durable_first): with persistence, \<open>Accept\<close> takes up a new version only after the disk has taken its receipt: if it calls
  \<open>persist\<close> and that succeeds, it reports the new version and its receipts are those it has written, sorted; if \<open>persist\<close> fails or is not
  called, the receipts are what they were and no version is in the directory that was not there before.
\<close>

theorem durable_first:
  assumes "dir_reachable k d" "dr_persists d" "accept_manifest k ids now saved w d = (res, log, d')"
  shows "(case log of
      Some written \<Rightarrow> (if saved then res = Inr True \<and> written = sort_key rc_device (map snd (dr_history d'))
        else res = Inl NotPersisted \<and> dr_history d' = dr_history d \<and> no_new_version d d')
    | None \<Rightarrow> dr_history d' = dr_history d \<and> no_new_version d d')"
proof (cases "admit_manifest k (dr_tenant d) ids now w")
  case (Inl e)
  then show ?thesis using assms(3) by (auto simp: accept_manifest_def no_new_version_def)
next
  case (Inr x)
  obtain owner m leaf where x: "x = (owner, m, leaf)" by (rule prod_cases3)
  define d2 where "d2 = prune_entries now (expire_dir now d)"
  have "m_ok (dr_entries d)" using m_ok_entries(1) [OF dir_reachable_ok [OF assms(1)]] .
  note sw = swept_versions [OF this, of now]
  have h: "dr_history d2 = dr_history d" "dr_history (expire_dir now d) = dr_history d" "dr_persists d2" using assms(2) by (simp_all add: d2_def)
  show ?thesis
    using Inr [unfolded x] assms(3) d2_def
  proof (cases rule: accept_cases)
    case (refused e)
    then show ?thesis using sw h by (auto simp: d2_def)
  next
    case (renewed old e')
    have "no_new_version d2 d'" using renewed(1,4,5) by (auto simp: no_new_version_def same_version_def)
    moreover have "no_new_version d d2" using sw(2) by (simp add: d2_def)
    ultimately have "no_new_version d d'" unfolding no_new_version_def by metis
    then show ?thesis using renewed(4,6) h by simp
  next
    case stored
    have "no_new_version d d2" using sw(2) by (simp add: d2_def)
    then show ?thesis using stored(1) h by (auto simp: store_manifest_def Let_def split: if_splits)
  qed
qed

theorem durable_first_witness:
  "\<exists>d' log d''. set_persistence dir_sample [] (dir_clock 1) dir_fresh = Some d'
     \<and> accept_manifest dir_sample dir_ids (dir_clock 5) False (dir_wire 2) d' = (Inl NotPersisted, Some log, d'') \<and> dr_history d'' = []"
proof -
  define d' where "d' = dir_fresh\<lparr>dr_persists := True\<rparr>"
  have p: "set_persistence dir_sample [] (dir_clock 1) dir_fresh = Some d'" by (simp add: set_persistence_def d'_def dir_fresh_def)
  have "new_directory (Some (replicate 16 1)) 8 = Some dir_fresh" by (simp add: new_directory_def dir_fresh_def)
  then have reach: "dir_reachable dir_sample d'" using p by (rule dreach_load)
  have adm: "admit_manifest dir_sample (dr_tenant d') dir_ids (dir_clock 5) (dir_wire 2) = Inr (dir_key dir_sample dir_dev, dir_manifest 2, [9])"
    using dir_admits [of 2 5] by (simp add: dir_fresh_def d'_def)
  have e: "ms_time (mf_expires (dir_manifest 2)) = 600000 * 1000000" by (simp add: dir_manifest_def ms_time_def)
  obtain res log d'' where acc: "accept_manifest dir_sample dir_ids (dir_clock 5) False (dir_wire 2) d' = (res, log, d'')" by (rule prod_cases3)
  have "log \<noteq> None"
    using acc unfolding accept_manifest_def adm sum.case prod.case Let_def
    by (auto simp: expire_dir_def prune_entries_def receipt_refuses_def store_manifest_def keep_receipts_def Let_def dir_fresh_def m_adj_def e d'_def
        dir_clock_def dir_zero_time_def)
  then show ?thesis using durable_first [OF reach _ acc] p acc by (auto simp: d'_def dir_fresh_def)
qed

subsection \<open>Signatures\<close>

text \<open>
  C26 (exported_under_current_key): what a directory exports now is vouched for now: for every record it gives out and every route it
  authorizes the identity cache still answers the principal with a chain of this principal that outlives the lease, and the signature
  of exactly this record verifies under a certificate with the SHA-256 of the head of that chain, even when the answer was remembered
  or the key has been renewed since.
\<close>

theorem exported_under_current_key:
  assumes "dir_reachable k d"
  shows "(w \<in> set (fst (dir_records k ids now d)) \<longrightarrow> (\<exists>m. vouched k ids now w m))
    \<and> (fst (route_authorizations k ids now d) r \<longrightarrow> (\<exists>w m. vouched k ids now w m \<and> mf_route m = Some r \<and> \<not> mf_withdraw m))"
proof (intro conjI impI)
  have ok: "memos_ok k (expire_dir now d)" by (rule memos_expire [OF memos_reachable [OF assms]])
  assume "w \<in> set (fst (dir_records k ids now d))"
  then obtain e where "e \<in> set (shown k ids now (\<lambda>e. True) (expire_dir now d))" "w = en_wire e"
    by (auto simp: dir_records_def Let_def)
  then show "\<exists>m. vouched k ids now w m" using shown_vouched [OF ok] by blast
next
  have ok: "memos_ok k (expire_dir now d)" by (rule memos_expire [OF memos_reachable [OF assms]])
  assume r: "fst (route_authorizations k ids now d) r"
  define P where "P = (\<lambda>e :: dir_entry. \<not> (en_expired e \<or> mf_withdraw (en_manifest e) \<or> mf_version (en_manifest e) \<noteq> 4 \<or> mf_route (en_manifest e) = None))"
  have "authorized_origins k (dr_tenant d) (map en_manifest (shown k ids now P (expire_dir now d))) r"
    using r by (simp add: route_authorizations_def Let_def P_def)
  then obtain e o' where e: "e \<in> set (shown k ids now P (expire_dir now d))" "origin_claim k (dr_tenant d) (en_manifest e) = Some (r, o')"
    unfolding authorized_claims by (auto simp: List.map_filter_def)
  have "mf_route (en_manifest e) = Some r \<and> \<not> mf_withdraw (en_manifest e)"
    using e(2) by (auto simp: origin_claim_def split: option.splits if_splits)
  then show "\<exists>w m. vouched k ids now w m \<and> mf_route m = Some r \<and> \<not> mf_withdraw m" using shown_vouched [OF ok e(1)] by blast
qed

theorem exported_under_current_key_witness:
  "dir_wire 2 \<in> set (fst (dir_records dir_sample dir_ids (dir_clock 6) (dir_one 5))) \<and> (\<exists>m. vouched dir_sample dir_ids (dir_clock 6) (dir_wire 2) m)"
proof -
  have p: "sm_principal (dir_wire 2) = dir_principal dir_sample dir_dev" by (simp add: dir_wire_def)
  have e: "ms_time (mf_expires (dir_manifest 2)) = 600000 * 1000000" by (simp add: dir_manifest_def ms_time_def)
  have "dir_wire 2 \<in> set (fst (dir_records dir_sample dir_ids (dir_clock 6) (dir_one 5)))"
    by (simp add: dir_records_def Let_def shown_def current_entry_def expire_dir_def m_adj_def dir_one_def dir_fresh_def entry_over_def
        tm_before_def dir_clock_def dir_ids_def binding_matches_def p e)
  then show ?thesis
    using exported_under_current_key [OF dreach_step [OF dir_fresh_reachable dir_one_step], of "dir_wire 2" dir_ids "dir_clock 6"] by blast
qed

text \<open>
  What \<open>SignManifest\<close> signs, \<open>Accept\<close> of every node of the tenant admits as that manifest of that device, as long as the lease has
  not ended, once the node's cache knows the signer's chain, where the body decodes to the manifest that was encoded: apart from
  that the signer refuses whatever a receiver would.
\<close>

lemma signed_manifest_admitted:
  assumes "uuid_text_ok (dk_text k)" "\<And>u. length u = 16 \<Longrightarrow> length (tc_uuid (dk_text k) u) \<le> 36"
    "sign_manifest k g m chain now = Inr w"
    "decode_manifest (dk_cbor k) (sm_body w) = Inr (prepare_manifest k chain m)"
    "\<And>sign i s. sg_sign g = Some sign \<Longrightarrow> sign i = Some s \<Longrightarrow> dk_leaf_ok k (hd chain) \<and> dk_verify k (hd chain) i s \<and> length s \<le> 8192"
    "ids (sm_principal w) (prepare_manifest k chain m) = Some (chain, holder, until)" "dir_principal k holder = sm_principal w"
    "ms_time (mf_expires m) \<le> until" "tm_wall now \<le> tm_wall later" "tm_wall later < ms_time (mf_expires m)"
  shows "\<exists>identity. peer_from_principal (dk_text k) (dk_url_ok k) (sm_principal w) = Some identity
    \<and> admit_manifest k (dv_tenant identity) ids later w = Inr (owner_key k w, prepare_manifest k chain m, hd chain)"
proof -
  let ?m = "prepare_manifest k chain m"
  obtain identity s dev sign where w: "manifest_invalid ?m (tm_wall now) = None" "chain \<noteq> []" "sg_sign g = Some sign"
    "sg_principal g (hd chain) = Some s" "peer_from_principal (dk_text k) (dk_url_ok k) s = Some identity"
    "manifest_peer (dk_text k) (dk_url_ok k) (dv_tenant identity) ?m = Some dev"
    "dir_principal k dev = dir_principal k identity" "route_valid (dk_sha k) ?m dev" "sg_marshal g ?m = Some (sm_body w)" "length (sm_body w) \<le> 32768"
    "sign (signing_input (sm_principal w) (sm_body w)) = Some (sm_signature w)" "sm_principal w = dir_principal k dev"
    by (rule signed_manifest [OF assms(3)])
  have s: "dir_principal k identity = s \<and> s \<noteq> '''' \<and> length s \<le> 1024" by (rule parsed_principal [OF assms(1,2) w(5)])
  have invalid: "manifest_invalid ?m (tm_wall later) = None"
    by (rule valid_until_expiry [OF w(1) assms(9)]) (use assms(10) in \<open>simp add: prepare_manifest_def\<close>)
  have sig: "dk_leaf_ok k (hd chain)" "dk_verify k (hd chain) (signing_input (sm_principal w) (sm_body w)) (sm_signature w)" "length (sm_signature w) \<le> 8192"
    using assms(5) [OF w(3,11)] by auto
  have e: "mf_expires ?m = mf_expires m" by (simp add: prepare_manifest_def)
  have p: "sm_principal w = s" using w(7,12) s by simp
  have "owner_key k w = dir_key k dev"
    unfolding owner_key_def p w(5) option.case sum.case assms(4) w(6) using w(7) s by simp
  moreover have "admit_manifest k (dv_tenant identity) ids later w = Inr (dir_key k dev, ?m, hd chain)"
    unfolding admit_manifest_def p w(5) option.case sum.case assms(4) w(6) invalid
    using s w(7,8,10) sig assms(6,7,8) e by (simp add: p signature_valid_def)
  ultimately show ?thesis using w(5) p by simp
qed

subsection \<open>A weakness\<close>

text \<open>
  A restart forgets what the receipts it drops had protected: a clock far ahead while they are loaded drops them all and leaves no
  high-water mark, and once it falls back a version that was superseded is admitted as new.
\<close>

lemma persistence_forgets:
  "\<exists>d' log d''. set_persistence dir_sample (map snd (dr_history (dir_one 5))) (dir_clock (10 ^ 20)) dir_fresh = Some d'
     \<and> accept_manifest dir_sample dir_ids (dir_clock 6) True (dir_wire 1) d' = (Inr True, log, d'')"
proof -
  define d' where "d' = dir_fresh\<lparr>dr_history := keep_receipts (dir_clock (10 ^ 20)) (dir_one 5), dr_persists := True\<rparr>"
  have r: "receipts_ok dir_sample (dir_one 5)"
    using reachable_receipts [OF dreach_step [OF dir_fresh_reachable dir_one_step] dir_sample_ok] .
  then have v: "\<forall>r \<in> set (map snd (dr_history (dir_one 5))). receipt_valid dir_sample (dr_tenant dir_fresh) r"
    and dev: "m_all (\<lambda>o' r. rc_device r = o') (dr_history (dir_one 5))"
    by (auto simp: receipts_ok_def m_all_def dir_one_def)
  have "set_persistence dir_sample (map snd (dr_history (dir_one 5))) (dir_clock (10 ^ 20)) dir_fresh = Some d'"
    unfolding set_persistence_def load_receipts_valid [OF v] reloaded [OF dev] by (simp add: d'_def dir_one_def dir_fresh_def)
  moreover have hist: "d' = dir_fresh\<lparr>dr_persists := True\<rparr>"
    by (simp add: d'_def keep_receipts_def dir_one_def dir_clock_def manifest_lease_max_def clock_skew_def dir_fresh_def)
  moreover have adm: "admit_manifest dir_sample (dr_tenant (dir_fresh\<lparr>dr_persists := True\<rparr>)) dir_ids (dir_clock 6) (dir_wire 1)
      = Inr (dir_key dir_sample dir_dev, dir_manifest 1, [9])"
    using dir_admits [of 1 6] by (simp add: dir_fresh_def)
  have e: "ms_time (mf_expires (dir_manifest 1)) = 600000 * 1000000" by (simp add: dir_manifest_def ms_time_def)
  obtain res log d'' where acc: "accept_manifest dir_sample dir_ids (dir_clock 6) True (dir_wire 1) (dir_fresh\<lparr>dr_persists := True\<rparr>) = (res, log, d'')"
    by (rule prod_cases3)
  have "res = Inr True"
    using acc unfolding accept_manifest_def adm sum.case prod.case Let_def
    by (auto simp: expire_dir_def prune_entries_def receipt_refuses_def store_manifest_def keep_receipts_def Let_def dir_fresh_def m_adj_def e
        dir_clock_def dir_zero_time_def)
  ultimately show ?thesis using acc by auto
qed

text \<open>
  Neither \<open>ValidateManifest\<close> nor \<open>SignManifest\<close> looks at the encoding of the name, so a node accepts a name that is not UTF-8 as its
  own; the walk of every receiver refuses the text.
\<close>

lemma names_not_utf8:
  "manifest_invalid ((dir_manifest 1)\<lparr>mf_name := [CHR 0xFF]\<rparr>) 5 = None"
  "walk_value (Suc levels) (cbor_text (map of_char [CHR 0xFF]) @ rest) = Inl BadUtf8"
proof -
  show "manifest_invalid ((dir_manifest 1)\<lparr>mf_name := [CHR 0xFF]\<rparr>) 5 = None"
    by (auto simp: manifest_invalid_def dir_manifest_def agent_metadata_bad_def requirements_error_def manifest_names_ok_def first_error_def
        lease_bad_def operator_advertises_def services_ok_def app_endpoints_error_def ms_time_def manifest_lease_max_def clock_skew_def)
  have "\<not> bytes_utf8 (map of_char [CHR 0xFF])" by code_simp
  then show "walk_value (Suc levels) (cbor_text (map of_char [CHR 0xFF]) @ rest) = Inl BadUtf8"
    using argument_head [of 3 1 "map of_char [CHR 0xFF] @ rest"] by (simp add: cbor_string_def)
qed

end
