(* ===== verification/Spec2Isabelle.thy ===== *)
theory Spec2Isabelle
  imports Babel_Witness Mesh_Assembly Mesh_Queue_Samples Mesh_Conn_Props Mesh_Ident Udp_Runs_Props Mesh_Gossip_Props Vip_Props Ingress_Props
    Sharing_Props Mesh_Directory_Props
begin

text \<open>
  Wendy Net, the mesh between the agents of WendyOS: its routing engine (\<open>src/go/babel\<close>) and its
  data plane (\<open>src/go/internal/agent/localmesh\<close>, \<open>src/go/internal/agent/udpmessage\<close>,
  \<open>src/go/internal/agent/netgossip\<close>, \<open>src/go/internal/agent/mesh\<close>,
  \<open>src/go/internal/agent/meshingress\<close>, \<open>src/go/internal/agent/meshsharing\<close>,
  \<open>src/go/internal/shared/meshid\<close>).

  \<^bold>\<open>The program.\<close> Each device runs a Babel engine, a pure event machine: packets, timers, requests
  and link changes go in, a set of routes and datagrams come out. \<open>routing.go\<close> drives it against a
  kernel and a disk: new routes are applied, the engine's safety history is persisted, and only then
  does anything leave. Connections between devices are admitted by \<open>ConnectionPolicy\<close>; their
  identities give the addresses of links (\<open>meshid.go\<close>). IP packets cross a link through a bounded
  send queue (\<open>stream_ip_queue.go\<close>) and, on datagram links, are split in two and put together again
  (\<open>packets.go\<close>). UDP flows of applications use their own message layer (\<open>udpmessage\<close>): a manager
  with budgets per flow, peer and node, chunks, and a scheduler goroutine. Announcements (manifests and
  services) travel by \<open>netgossip\<close>: a pool shared by the sessions of a router, which lets one session at
  a time download each artifact, in chunks, and serves it to the others. Apps reach devices by virtual
  addresses, which \<open>vip.go\<close> pins to device principals and keeps on disk. What a peer may reach is decided by
  \<open>meshingress\<close>: the ports that running containers have published and the sources they may use.
  \<open>meshsharing\<close> decides step by step whether a host shares its own uplink with the mesh or borrows the
  Internet of a donor, never both.

  \<^bold>\<open>The theories.\<close>

  \<^item> \<open>Wendy_Prelude\<close>, \<open>Netip\<close>: byte strings, big-endian words, Go maps as ascending association lists
    with distinct keys, Go integer arithmetic; \<open>net/netip\<close> addresses and prefixes.
  \<^item> \<open>Babel_Wire\<close>, \<open>Babel_Codec\<close>: \<open>internal/wire/wire.go\<close>. What \<open>Pack\<close> writes decodes to the messages
    packed, and every message decoded is one the engine can use.
  \<^item> \<open>Babel_Types\<close>, \<open>Babel_Engine\<close>: \<open>types.go\<close>, \<open>engine.go\<close>, one definition per method, \<open>step\<close>
    being \<open>Engine.Step\<close>. \<open>Babel_Frame\<close>, \<open>Babel_Inv\<close>: what each operation leaves alone and the
    invariant. \<open>Babel_Select\<close> (route selection), \<open>Babel_Space\<close> (room in the tables),
    \<open>Babel_Output\<close> (what is sent, the feasibility history), \<open>Babel_Checkpoint\<close>
    (\<open>checkpoint.go\<close>), \<open>Babel_Api\<close> (\<open>routerid.go\<close>, \<open>leaf.go\<close>, commits and deadlines),
    \<open>Babel_Sample\<close> and \<open>Babel_Witness\<close> (a sample engine on which the properties are applied).
  \<^item> \<open>Mesh_Routing\<close>: \<open>localmesh/routing.go\<close>, with the adapter as a record of functions over a world;
    the property is stated on the trace of the adapter's calls, which may fail anywhere.
  \<^item> \<open>Mesh_Packets\<close>, \<open>Mesh_Assembly\<close>: \<open>localmesh/packets.go\<close>. Reassembly in any order, no replay,
    bounds, and eviction under every iteration order of the map.
  \<^item> \<open>Mesh_Queue\<close>, \<open>Mesh_Queue_Props\<close>, \<open>Mesh_Queue_Samples\<close>: \<open>localmesh/stream_ip_queue.go\<close>. The
    counters, budgets and the order and displacement rules of \<open>enqueue\<close>, \<open>pop\<close> and \<open>recordWrite\<close>.
  \<^item> \<open>Mesh_Ident\<close>: \<open>shared/meshid\<close>. \<open>Mesh_Connections\<close>, \<open>Mesh_Conn_Props\<close>:
    \<open>localmesh/connection_policy.go\<close>. Limits, the resolution of crossed connections at both ends,
    and the order in which candidates are dialled.
  \<^item> \<open>Udp_Codec\<close>, \<open>Udp_Manager\<close>, \<open>Udp_Scheduler\<close>: \<open>udpmessage/codec.go\<close>, \<open>manager.go\<close>,
    \<open>scheduler.go\<close>, one definition per critical section. \<open>Udp_Account\<close>: the accounting and
    ownership invariant \<open>udp_ok\<close> and the four moves of a reservation. \<open>Udp_Steps\<close>, \<open>Udp_Flows\<close>:
    every section keeps it. \<open>Udp_Runs\<close>: the step relation that interleaves the sections of any
    number of goroutines with the scheduler. \<open>Udp_Runs_Props\<close>: its properties and a sample run.

  \<^item> \<open>Mesh_Gossip\<close>: \<open>netgossip/gossip.go\<close>, one definition per method or case of \<open>receive\<close>.
    \<open>Mesh_Gossip_Inv\<close>: the invariants of the pool and of a session and what one section keeps of them.
    \<open>Mesh_Gossip_Runs\<close>: all sessions of a router as a step relation, and its invariant.
    \<open>Mesh_Gossip_Transfer\<close>: uploads as a round-robin list, and a download fed with its chunks.
    \<open>Mesh_Gossip_Props\<close>: the properties and two sample routers.

  \<^item> \<open>Vip_Table\<close>: \<open>mesh/vip.go\<close>, with its file and the ways a write can fail. \<open>Vip_Inv\<close>: addresses of the
    CIDR and the invariant of the table. \<open>Vip_File\<close>: what \<open>persist\<close> writes, \<open>load\<close> gives back.
    \<open>Vip_Runs\<close>: restarts and crashes over a disk, with the answers given so far. \<open>Vip_Props\<close>: the properties.

  \<^item> \<open>Ingress_Registry\<close>: \<open>meshingress/registry.go\<close>, one definition per method. \<open>Ingress_Spec\<close>: the calls of a
    registry, and the specification: one map for each protocol, the sources and the live connections.
    \<open>Ingress_Inv\<close>: the invariant and TCP claims; \<open>Ingress_Udp\<close>, \<open>Ingress_Source\<close>, \<open>Ingress_Release\<close>,
    \<open>Ingress_Calls\<close>: every other call keeps it and does what the specification says. \<open>Ingress_Runs\<close>: runs of calls and
    the two interfaces, simulation and incarnations. \<open>Ingress_Tokens\<close>: tokens, channels and connections
    over a run. \<open>Ingress_Props\<close>: the properties and a sample run.

  \<^item> \<open>Mesh_Principal\<close>: \<open>certs/orgident.go\<close>, \<open>certs/device_principal.go\<close>, \<open>meshid/peer.go\<close>: the parsers of principals and
    record keys, which invert printing and accept nothing else.

  \<^item> \<open>Mesh_Manifest\<close>: what makes a manifest valid (\<open>Manifest.validate\<close>, \<open>manifest_services.go\<close>, \<open>app_endpoints.go\<close>,
    \<open>operator_manifest.go\<close>). \<open>Mesh_Directory\<close>: \<open>localmesh/directory.go\<close> and \<open>route_authorization.go\<close>, one definition per method
    and per part of \<open>Accept\<close>. \<open>Mesh_Directory_Inv\<close>: the operations as a step relation, and its invariant.
    \<open>Mesh_Directory_Runs\<close>: floors of revisions, leases and claims of origins over runs. \<open>Mesh_Directory_Restart\<close>: receipts
    and \<open>SetPersistence\<close>. \<open>Mesh_Directory_Sign\<close>: \<open>SignManifest\<close> and the memo of signatures. \<open>Mesh_Directory_Props\<close>: the properties,
    a sample directory, and a weakness of restarts.

  \<^item> \<open>Sharing_Policy\<close>: \<open>meshsharing/policy.go\<close>. \<open>Sharing_Controller\<close>: \<open>meshsharing/controller.go\<close>, over a record of functions
    for the node, the host's policy and the probes. \<open>Sharing_Trace\<close>: an environment that answers every call arbitrarily, the
    log of the calls, rules for assertions about actions, and the invariant of every run. \<open>Sharing_Donors\<close>, \<open>Sharing_Probes\<close>:
    what stands behind a donor, and the rotation of the probes. \<open>Sharing_Guarantee\<close>: hysteresis, and what a step may ask for.
    \<open>Sharing_Props\<close>: the properties and sample runs.

  \<^bold>\<open>State.\<close> A struct is a record with the code's fields. A Go map is an association list whose order
  is a parameter wherever the code's result could depend on it, and theorems then hold for every
  order (\<open>trigger_order_irrelevant\<close>, \<open>ready_order_irrelevant\<close>, \<open>eviction_oldest\<close>). Objects shared by
  pointers (the UDP manager's flows, reservations and messages) live in stores under numbers that are
  never reused. Machine integers are words where they wrap (sequence numbers, IDs, counters);
  durations and Go ints are integers. Errors are values. No definition needs fuel: every loop ranges
  over a list or is bounded by a count that the code fixes.

  \<^bold>\<open>Parameters.\<close> The kernel and disk adapter of \<open>routing.go\<close>, the authorization guards and
  transports of \<open>udpmessage\<close>, SHA-256, the spelling of a UUID, text forms of addresses, random numbers and
  shuffles, map iteration orders and clocks are arguments. So are the CBOR form of a manifest, certificates with their
  signatures, and the answers of the identity cache, which may differ from call to call.

  \<^bold>\<open>Not modelled.\<close> The sockets, TLS, QUIC and netlink around the data plane (\<open>node.go\<close>, \<open>lan.go\<close>,
  \<open>stream_link.go\<close>, \<open>kernel_linux.go\<close>) are I/O; their decisions are the policies modelled here. The
  credentials of the mesh, its identity cache and the exchange of certificates rest on X.509 and are not modelled.
  The agent's containerd client, its gRPC services and the command line tool are glue around other
  programs. The tunnel, firewall and resolver changes of \<open>meshsharing\<close> on Linux and its probes are the outcomes of calls;
  its lease protocol over TLS is not modelled. Channels and wake-ups of the UDP scheduler appear only as the freedom of interleaving.
\<close>

end
